(* ===== verification/Telomere_Prelude.thy ===== *)
theory Telomere_Prelude
  imports Main "HOL-Library.Word"
begin

text \<open>
  Shared vocabulary of the development: the Rust integer types as words, results as
  sums, the two sequencing combinators that the translation of Rust's \<open>?\<close> operator uses
  (on a pure result and on a result with a threaded store), little-endian byte codecs,
  slices of byte lists, and the rounding function of the canonical ABI.  The collections
  \<open>res_simps\<close> and \<open>mem_simps\<close> gather the rewriting rules that the component theories
  hand to the simplifier.
\<close>

unbundle bit_operations_syntax

named_theorems res_simps \<open>inversion rules of the two sequencing combinators\<close>
named_theorems mem_simps \<open>rewriting rules for slices and splices of byte lists\<close>

type_synonym byte = "8 word"
type_synonym u16 = "16 word"
type_synonym u32 = "32 word"
type_synonym u64 = "64 word"

section \<open>Results\<close>

text \<open>A fallible computation is a sum with the error on the left, as Rust's
  \<open>Result<T, E>\<close>; \<open>rbind\<close> is the \<open>?\<close> operator followed by the rest of the body.\<close>

definition rbind :: "'e + 'a \<Rightarrow> ('a \<Rightarrow> 'e + 'b) \<Rightarrow> 'e + 'b" where
  "rbind r k = (case r of Inl e \<Rightarrow> Inl e | Inr a \<Rightarrow> k a)"

lemma rbind_simps [simp]:
  "rbind (Inl e) k = Inl e"
  "rbind (Inr a) k = k a"
  by (simp_all add: rbind_def)

lemma rbind_Inr_iff [res_simps]:
  "rbind r k = Inr b \<longleftrightarrow> (\<exists>a. r = Inr a \<and> k a = Inr b)"
  by (cases r) auto

lemma rbind_Inl_iff [res_simps]:
  "rbind r k = Inl e \<longleftrightarrow> r = Inl e \<or> (\<exists>a. r = Inr a \<and> k a = Inl e)"
  by (cases r) auto

lemma rbind_cong [fundef_cong]:
  "r = r' \<Longrightarrow> (\<And>a. r' = Inr a \<Longrightarrow> k a = k' a) \<Longrightarrow> rbind r k = rbind r' k'"
  by (cases r') auto

definition ok_or :: "'e \<Rightarrow> 'a option \<Rightarrow> 'e + 'a" where
  "ok_or e x = (case x of None \<Rightarrow> Inl e | Some a \<Rightarrow> Inr a)"

lemma ok_or_simps [simp]:
  "ok_or e None = Inl e"
  "ok_or e (Some a) = Inr a"
  by (simp_all add: ok_or_def)

lemma ok_or_Inr_iff [res_simps]: "ok_or e x = Inr a \<longleftrightarrow> x = Some a"
  by (cases x) auto

text \<open>Indexing that returns \<open>None\<close> out of range: \<open>slice::get\<close>.\<close>

definition get_idx :: "'a list \<Rightarrow> nat \<Rightarrow> 'a option" where
  "get_idx xs i = (if i < length xs then Some (xs ! i) else None)"

lemma get_idx_Some_iff [res_simps]:
  "get_idx xs i = Some x \<longleftrightarrow> i < length xs \<and> xs ! i = x"
  by (auto simp: get_idx_def)

lemma get_idx_None_iff [res_simps]: "get_idx xs i = None \<longleftrightarrow> length xs \<le> i"
  by (auto simp: get_idx_def)

text \<open>Position of the first element with a property: \<open>Iterator::position\<close>.\<close>

fun position :: "('a \<Rightarrow> bool) \<Rightarrow> 'a list \<Rightarrow> nat option" where
  "position P [] = None"
| "position P (x # xs) = (if P x then Some 0 else map_option Suc (position P xs))"

lemma position_SomeD:
  "position P xs = Some i \<Longrightarrow> i < length xs \<and> P (xs ! i) \<and> (\<forall>j < i. \<not> P (xs ! j))"
proof (induction xs arbitrary: i)
  case (Cons x xs)
  show ?case
  proof (cases "P x")
    case False
    with Cons.prems obtain k where k: "position P xs = Some k" "i = Suc k" by auto
    with Cons.IH have "k < length xs \<and> P (xs ! k) \<and> (\<forall>j < k. \<not> P (xs ! j))" by blast
    with k False show ?thesis by (auto simp: nth_Cons' less_Suc_eq_0_disj)
  qed (use Cons.prems in auto)
qed simp

lemma position_None_iff: "position P xs = None \<longleftrightarrow> (\<forall>x \<in> set xs. \<not> P x)"
  by (induction xs) auto

lemma position_distinct:
  assumes "distinct xs" "i < length xs"
  shows "position (\<lambda>x. x = xs ! i) xs = Some i"
proof (cases "position (\<lambda>x. x = xs ! i) xs")
  case None
  with assms(2) show ?thesis by (auto simp: position_None_iff)
next
  case (Some k)
  from position_SomeD [OF Some] have "k < length xs" "xs ! k = xs ! i" by auto
  with assms Some show ?thesis by (simp add: nth_eq_iff_index_eq)
qed

section \<open>Results with a threaded store\<close>

text \<open>Code that borrows the store and returns a \<open>Result\<close> is a function from the store to
  the result and the store it leaves behind, on the error path too.\<close>

type_synonym ('s, 'e, 'a) action = "'s \<Rightarrow> ('e + 'a) \<times> 's"

definition aret :: "'a \<Rightarrow> ('s, 'e, 'a) action" where
  "aret a = (\<lambda>s. (Inr a, s))"

definition afail :: "'e \<Rightarrow> ('s, 'e, 'a) action" where
  "afail e = (\<lambda>s. (Inl e, s))"

definition alift :: "'e + 'a \<Rightarrow> ('s, 'e, 'a) action" where
  "alift r = (\<lambda>s. (r, s))"

definition abind ::
  "('s, 'e, 'a) action \<Rightarrow> ('a \<Rightarrow> ('s, 'e, 'b) action) \<Rightarrow> ('s, 'e, 'b) action" where
  "abind m k = (\<lambda>s. case m s of (Inl e, s') \<Rightarrow> (Inl e, s') | (Inr a, s') \<Rightarrow> k a s')"

lemma action_simps [simp]:
  "aret a s = (Inr a, s)"
  "afail e s = (Inl e, s)"
  "alift r s = (r, s)"
  by (simp_all add: aret_def afail_def alift_def)

lemma abind_simps [simp]:
  "m s = (Inl e, s') \<Longrightarrow> abind m k s = (Inl e, s')"
  "m s = (Inr a, s') \<Longrightarrow> abind m k s = k a s'"
  by (simp_all add: abind_def)

lemma abind_pure [simp]:
  "abind (aret a) k = k a"
  "abind (alift (Inr a)) k = k a"
  "abind (alift (Inl e)) k = afail e"
  "abind (afail e) k = afail e"
  by (simp_all add: fun_eq_iff abind_def)

lemma abind_assoc: "abind (abind act k) l = abind act (\<lambda>a. abind (k a) l)"
  by (auto simp: abind_def fun_eq_iff split: prod.splits sum.splits)

lemma abind_Inr_iff [res_simps]:
  "abind m k s = (Inr b, t) \<longleftrightarrow> (\<exists>a s'. m s = (Inr a, s') \<and> k a s' = (Inr b, t))"
  by (auto simp: abind_def split: prod.splits sum.splits)

lemma abind_Inl_iff [res_simps]:
  "abind m k s = (Inl e, t) \<longleftrightarrow>
     m s = (Inl e, t) \<or> (\<exists>a s'. m s = (Inr a, s') \<and> k a s' = (Inl e, t))"
  by (auto simp: abind_def split: prod.splits sum.splits)

lemma abind_cong [fundef_cong]:
  "m = m' \<Longrightarrow> (\<And>a s s'. m' s = (Inr a, s') \<Longrightarrow> k a s' = k' a s') \<Longrightarrow>
   abind m k = abind m' k'"
  by (auto simp: abind_def fun_eq_iff split: prod.splits sum.splits)

text \<open>Loops with an accumulator whose body may fail and may change the store.\<close>

primrec afold ::
  "('x \<Rightarrow> 'acc \<Rightarrow> ('s, 'e, 'acc) action) \<Rightarrow> 'x list \<Rightarrow> 'acc \<Rightarrow> ('s, 'e, 'acc) action" where
  "afold f [] acc = aret acc"
| "afold f (x # xs) acc = abind (f x acc) (afold f xs)"

primrec rfold :: "('x \<Rightarrow> 'acc \<Rightarrow> 'e + 'acc) \<Rightarrow> 'x list \<Rightarrow> 'acc \<Rightarrow> 'e + 'acc" where
  "rfold f [] acc = Inr acc"
| "rfold f (x # xs) acc = rbind (f x acc) (rfold f xs)"

primrec rmap :: "('x \<Rightarrow> 'e + 'y) \<Rightarrow> 'x list \<Rightarrow> 'e + 'y list" where
  "rmap f [] = Inr []"
| "rmap f (x # xs) = rbind (f x) (\<lambda>y. rbind (rmap f xs) (\<lambda>ys. Inr (y # ys)))"

lemma rmap_Inr_iff:
  "rmap f xs = Inr ys \<longleftrightarrow> length ys = length xs \<and> (\<forall>i < length xs. f (xs ! i) = Inr (ys ! i))"
proof (induction xs arbitrary: ys)
  case (Cons x xs)
  show ?case
  proof (cases ys)
    case (Cons y zs)
    then show ?thesis using Cons.IH by (auto simp: res_simps nth_Cons' less_Suc_eq_0_disj)
  qed (auto simp: res_simps)
qed auto

lemma rmap_cong [fundef_cong]:
  "xs = ys \<Longrightarrow> (\<And>x. x \<in> set ys \<Longrightarrow> f x = g x) \<Longrightarrow> rmap f xs = rmap g ys"
  by (induction xs arbitrary: ys) auto

section \<open>Little-endian byte codecs\<close>

fun to_le :: "nat \<Rightarrow> 'a::len word \<Rightarrow> byte list" where
  "to_le 0 w = []"
| "to_le (Suc n) w = ucast w # to_le n (drop_bit 8 w)"

fun from_le :: "byte list \<Rightarrow> 'a::len word" where
  "from_le [] = 0"
| "from_le (b # bs) = ucast b OR push_bit 8 (from_le bs)"

lemma length_to_le [simp]: "length (to_le n w) = n"
  by (induction n arbitrary: w) auto

lemma from_le_to_le_take: "from_le (to_le n w) = (take_bit (8 * n) w :: 'a::len word)"
proof (induction n arbitrary: w)
  case (Suc n)
  show ?case
    by (rule bit_word_eqI)
      (auto simp: Suc.IH bit_simps bit_push_bit_iff bit_take_bit_iff bit_drop_bit_eq)
qed simp

lemma from_le_to_le:
  assumes "LENGTH('a) \<le> 8 * n"
  shows "from_le (to_le n w) = (w :: 'a::len word)"
  by (rule bit_word_eqI) (use assms in \<open>auto simp: from_le_to_le_take bit_simps\<close>)

lemma to_le_cong:
  "(\<And>i. i < 8 * n \<Longrightarrow> bit v i = bit w i) \<Longrightarrow> to_le n v = to_le n (w :: 'a::len word)"
proof (induction n arbitrary: v w)
  case (Suc n)
  have "ucast v = (ucast w :: byte)"
    by (rule bit_word_eqI) (use Suc.prems in \<open>auto simp: bit_simps\<close>)
  moreover have "to_le n (drop_bit 8 v) = to_le n (drop_bit 8 w)"
    by (rule Suc.IH) (use Suc.prems in \<open>auto simp: bit_simps\<close>)
  ultimately show ?case by simp
qed simp

lemma to_le_from_le:
  assumes "8 * length bs \<le> LENGTH('a)"
  shows "to_le (length bs) (from_le bs :: 'a::len word) = bs"
  using assms
proof (induction bs)
  case (Cons b bs)
  have "ucast (ucast b OR push_bit 8 (from_le bs :: 'a word)) = b"
    by (rule bit_word_eqI) (use Cons.prems in \<open>auto simp: bit_simps\<close>)
  moreover have "to_le (length bs) (drop_bit 8 (ucast b OR push_bit 8 (from_le bs :: 'a word))) =
    to_le (length bs) (from_le bs :: 'a word)"
    by (rule to_le_cong) (use Cons.prems in \<open>auto simp: bit_simps dest: bit_imp_le_length\<close>)
  ultimately show ?case using Cons by simp
qed simp

section \<open>Slices\<close>

definition slice :: "nat \<Rightarrow> nat \<Rightarrow> 'a list \<Rightarrow> 'a list" where
  "slice p n xs = take n (drop p xs)"

definition splice_at :: "nat \<Rightarrow> 'a list \<Rightarrow> 'a list \<Rightarrow> 'a list" where
  "splice_at p bs xs = take p xs @ bs @ drop (p + length bs) xs"

lemma length_slice [mem_simps]: "p + n \<le> length xs \<Longrightarrow> length (slice p n xs) = n"
  by (simp add: slice_def)

lemma nth_slice [mem_simps]: "p + n \<le> length xs \<Longrightarrow> i < n \<Longrightarrow> slice p n xs ! i = xs ! (p + i)"
  by (simp add: slice_def)

lemma length_splice_at [mem_simps]:
  "p + length bs \<le> length xs \<Longrightarrow> length (splice_at p bs xs) = length xs"
  by (simp add: splice_at_def)

lemma nth_splice_at [mem_simps]:
  assumes "p + length bs \<le> length xs" "i < length xs"
  shows "splice_at p bs xs ! i =
    (if p \<le> i \<and> i < p + length bs then bs ! (i - p) else xs ! i)"
  using assms by (auto simp: splice_at_def nth_append)

lemma slice_cong:
  assumes "p + n \<le> length xs" "p + n \<le> length ys"
    and "\<And>a. p \<le> a \<Longrightarrow> a < p + n \<Longrightarrow> xs ! a = ys ! a"
  shows "slice p n xs = slice p n ys"
  by (rule nth_equalityI) (use assms in \<open>auto simp: mem_simps\<close>)

lemma slice_splice_same [mem_simps]:
  assumes "p + length bs \<le> length xs"
  shows "slice p (length bs) (splice_at p bs xs) = bs"
  using assms by (simp add: slice_def splice_at_def)

end
