(* ===== verification/Binary_Reader.thy ===== *)
theory Binary_Reader
  imports Telomere_Prelude
begin

text \<open>
  The byte readers of \<open>crates/telomere/src/binary/reader.rs\<close> and the core value types and
  parser errors that the parser theories share.  \<open>io_reader\<close> is \<open>IoReadBinaryReader\<close> over an
  in-memory source, \<open>'r limiting\<close> is \<open>LimitingBinaryReader\<close> over any reader; the trait
  \<open>BinaryReader\<close> itself is the locale \<open>byte_source\<close>, whose laws say what \<open>read_exact\<close>
  promises its clients, and which both readers satisfy.
\<close>

section \<open>Value types and parser errors\<close>

datatype valtype = I32 | I64 | F32 | F64 | V128 | FuncRef | ExternRef

datatype blocktype = BVoid | BValType valtype | BTypeIdx u32

datatype parser_error =
    UnexpectedEof
  | InvalidLeb128Encoding
  | InvalidNameEncoding
  | InvalidAlignment u32
  | InvalidBlockType u64
  | InvalidStackValType valtype "valtype option"
  | InvalidStackValTypeAny
  | InvalidFuncIdx u32
  | InvalidTypeIdx u32
  | InvalidLocalIndex u32
  | UnknownGlobal
  | InvalidGlobalAccess
  | InvalidMemIdx u32
  | InvalidTableIndex u32
  | InvalidTableType u32
  | InvalidResultArity
  | InvalidInstructionSize u32 u32
  | ParserNestingTooDeep u32
  | TooManyLocals
  | Panic
  | Diverged

section \<open>The readers\<close>

record io_reader =
  io_input :: "byte list"
  io_count :: nat

definition io_from :: "byte list \<Rightarrow> io_reader" where
  "io_from bs = \<lparr>io_input = bs, io_count = 0\<rparr>"

definition io_read_slice :: "nat \<Rightarrow> io_reader \<Rightarrow> byte list \<times> io_reader" where
  "io_read_slice len r =
     (let got = take len (io_input r)
      in (got, r\<lparr>io_input := drop len (io_input r), io_count := io_count r + length got\<rparr>))"

definition io_read_exact :: "nat \<Rightarrow> io_reader \<Rightarrow> parser_error + byte list \<times> io_reader" where
  "io_read_exact n r =
     (if n \<le> length (io_input r)
      then Inr (take n (io_input r), r\<lparr>io_input := drop n (io_input r), io_count := io_count r + n\<rparr>)
      else Inl UnexpectedEof)"

record 'r limiting =
  lim_reader :: 'r
  lim_limit :: nat

definition usize_max :: nat where "usize_max = 2 ^ 64 - 1"

definition io_take :: "nat \<Rightarrow> io_reader \<Rightarrow> io_reader limiting" where
  "io_take limit r = \<lparr>lim_reader = r, lim_limit = (io_count r + limit) mod 2 ^ 64\<rparr>"

definition lim_read_slice ::
  "(nat \<Rightarrow> 'r \<Rightarrow> byte list \<times> 'r) \<Rightarrow> ('r \<Rightarrow> nat) \<Rightarrow> nat \<Rightarrow> 'r limiting \<Rightarrow> byte list \<times> 'r limiting"
where
  "lim_read_slice rd_slice pos len l =
     (let remaining = lim_limit l - pos (lim_reader l)
      in if remaining = 0 then ([], l)
         else let (got, r') = rd_slice (min remaining len) (lim_reader l)
              in (got, l\<lparr>lim_reader := r'\<rparr>))"

definition lim_read_exact ::
  "(nat \<Rightarrow> 'r \<Rightarrow> parser_error + byte list \<times> 'r) \<Rightarrow> ('r \<Rightarrow> nat) \<Rightarrow> nat \<Rightarrow> 'r limiting \<Rightarrow>
   parser_error + byte list \<times> 'r limiting"
where
  "lim_read_exact rd pos n l =
     (let remaining = lim_limit l - pos (lim_reader l)
      in if remaining < n then Inl UnexpectedEof
         else rbind (rd n (lim_reader l)) (\<lambda>(bs, r'). Inr (bs, l\<lparr>lim_reader := r'\<rparr>)))"

definition lim_read_count :: "('r \<Rightarrow> nat) \<Rightarrow> 'r limiting \<Rightarrow> nat" where
  "lim_read_count pos l = pos (lim_reader l)"

definition lim_take :: "('r \<Rightarrow> nat) \<Rightarrow> nat \<Rightarrow> 'r limiting \<Rightarrow> 'r limiting" where
  "lim_take pos limit l =
     (let new_limit = (if pos (lim_reader l) + limit \<le> usize_max
                       then min (pos (lim_reader l) + limit) (lim_limit l)
                       else lim_limit l)
      in \<lparr>lim_reader = lim_reader l, lim_limit = new_limit\<rparr>)"

definition read_exact_one ::
  "(nat \<Rightarrow> 'r \<Rightarrow> parser_error + byte list \<times> 'r) \<Rightarrow> 'r \<Rightarrow> parser_error + byte \<times> 'r" where
  "read_exact_one rd r = rbind (rd 1 r) (\<lambda>(bs, r'). Inr (bs ! 0, r'))"

section \<open>The contract of a reader\<close>

text \<open>\<open>rest r\<close> is the input the reader can still deliver.  A request for available bytes
  delivers exactly those, in order, and advances the count by their number; a longer request
  fails with end of file.\<close>

locale byte_source =
  fixes rd :: "nat \<Rightarrow> 'r \<Rightarrow> parser_error + byte list \<times> 'r"
    and pos :: "'r \<Rightarrow> nat"
    and rest :: "'r \<Rightarrow> byte list"
  assumes rd_available: "n \<le> length (rest r) \<Longrightarrow>
      \<exists>r'. rd n r = Inr (take n (rest r), r') \<and> rest r' = drop n (rest r) \<and> pos r' = pos r + n"
    and rd_short: "length (rest r) < n \<Longrightarrow> rd n r = Inl UnexpectedEof"
begin

lemma rd_InrD:
  assumes "rd n r = Inr (bs, r')"
  shows "n \<le> length (rest r)" "bs = take n (rest r)" "rest r' = drop n (rest r)"
    "pos r' = pos r + n"
proof -
  show n: "n \<le> length (rest r)"
    using assms rd_short [of r n] by (cases "length (rest r) < n") auto
  show "bs = take n (rest r)" "rest r' = drop n (rest r)" "pos r' = pos r + n"
    using assms rd_available [OF n] by auto
qed

lemma read_one_Cons:
  assumes "rest r = b # bs"
  shows "\<exists>r'. read_exact_one rd r = Inr (b, r') \<and> rest r' = bs \<and> pos r' = pos r + 1"
  using rd_available [of 1 r] assms by (auto simp: read_exact_one_def)

lemma read_one_Nil: "rest r = [] \<Longrightarrow> read_exact_one rd r = Inl UnexpectedEof"
  using rd_short [of r 1] by (simp add: read_exact_one_def)

lemma read_one_InrD:
  assumes "read_exact_one rd r = Inr (b, r')"
  shows "rest r = b # rest r' \<and> pos r' = pos r + 1"
proof (cases "rest r")
  case Nil
  with assms read_one_Nil show ?thesis by simp
next
  case (Cons c cs)
  from read_one_Cons [OF this] assms Cons show ?thesis by auto
qed

end

text \<open>A limited view of a reader is again a reader; what it can deliver is the part of the
  underlying input below the limit.\<close>

definition lim_rest :: "('r \<Rightarrow> nat) \<Rightarrow> ('r \<Rightarrow> byte list) \<Rightarrow> 'r limiting \<Rightarrow> byte list" where
  "lim_rest pos rest l = take (lim_limit l - pos (lim_reader l)) (rest (lim_reader l))"

context byte_source
begin

lemma limited: "byte_source (lim_read_exact rd pos) (lim_read_count pos) (lim_rest pos rest)"
proof
  fix n and l :: "'r limiting"
  assume n: "n \<le> length (lim_rest pos rest l)"
  then have "n \<le> length (rest (lim_reader l))" "n \<le> lim_limit l - pos (lim_reader l)"
    by (auto simp: lim_rest_def)
  with rd_available [of n "lim_reader l"] obtain r' where
    "rd n (lim_reader l) = Inr (take n (rest (lim_reader l)), r')"
    "rest r' = drop n (rest (lim_reader l))" "pos r' = pos (lim_reader l) + n" by auto
  with \<open>n \<le> lim_limit l - pos (lim_reader l)\<close>
  show "\<exists>l'. lim_read_exact rd pos n l = Inr (take n (lim_rest pos rest l), l') \<and>
      lim_rest pos rest l' = drop n (lim_rest pos rest l) \<and>
      lim_read_count pos l' = lim_read_count pos l + n"
    by (intro exI [of _ "l\<lparr>lim_reader := r'\<rparr>"])
      (auto simp: lim_read_exact_def lim_rest_def lim_read_count_def min_def drop_take)
next
  fix n and l :: "'r limiting"
  assume "length (lim_rest pos rest l) < n"
  then show "lim_read_exact rd pos n l = Inl UnexpectedEof"
    using rd_short [of "lim_reader l" n]
    by (auto simp: lim_rest_def lim_read_exact_def min_def split: if_splits)
qed

end

interpretation io: byte_source io_read_exact io_count io_input
  by unfold_locales (auto simp: io_read_exact_def)

interpretation lim_io: byte_source "lim_read_exact io_read_exact io_count"
    "lim_read_count io_count" "lim_rest io_count io_input"
  by (rule io.limited)

section \<open>Nested limits\<close>

text \<open>What a child view can deliver is what the parent can deliver, cut after the child's
  own limit, whatever limit was asked for.\<close>

lemma lim_take_rest:
  assumes "limit \<le> usize_max - io_count (lim_reader l)"
    and "io_count (lim_reader l) \<le> usize_max"
  shows "lim_rest io_count io_input (lim_take io_count limit l) =
    take limit (lim_rest io_count io_input l)"
  using assms by (auto simp: lim_rest_def lim_take_def Let_def min_def)

lemma lim_take_overflow:
  assumes "usize_max < io_count (lim_reader l) + limit"
  shows "lim_take io_count limit l = \<lparr>lim_reader = lim_reader l, lim_limit = lim_limit l\<rparr>"
  using assms by (simp add: lim_take_def)

lemma lim_limit_take_le: "lim_limit (lim_take pos limit l) \<le> lim_limit l"
  by (simp add: lim_take_def Let_def)

lemma lim_read_exact_InrD:
  assumes "lim_read_exact io_read_exact io_count n l = Inr (bs, l')"
  shows "lim_limit l' = lim_limit l \<and> bs = take n (lim_rest io_count io_input l) \<and> length bs = n \<and>
    io_count (lim_reader l') = io_count (lim_reader l) + n \<and>
    (0 < n \<longrightarrow> io_count (lim_reader l') \<le> lim_limit l)"
proof -
  have "length bs = n" "bs = take n (lim_rest io_count io_input l)"
    using lim_io.rd_InrD [OF assms] by auto
  moreover have "lim_limit l' = lim_limit l" "io_count (lim_reader l') = io_count (lim_reader l) + n"
    "0 < n \<longrightarrow> io_count (lim_reader l') \<le> lim_limit l"
    using assms by (auto simp: lim_read_exact_def Let_def io_read_exact_def res_simps split: if_splits)
  ultimately show ?thesis by simp
qed

text \<open>A chain of reads through a view nested in a view: reads of the given sizes, one after
  the other, until one fails.\<close>

fun lim_reads :: "nat list \<Rightarrow> io_reader limiting \<Rightarrow> parser_error + byte list \<times> io_reader limiting" where
  "lim_reads [] l = Inr ([], l)"
| "lim_reads (n # ns) l =
     rbind (lim_read_exact io_read_exact io_count n l) (\<lambda>(bs, l').
     rbind (lim_reads ns l') (\<lambda>(cs, l''). Inr (bs @ cs, l'')))"

lemma lim_reads_InrD:
  "lim_reads ns l = Inr (bs, l') \<Longrightarrow>
   lim_limit l' = lim_limit l \<and> length bs = sum_list ns \<and>
   bs = take (sum_list ns) (lim_rest io_count io_input l) \<and>
   io_count (lim_reader l') = io_count (lim_reader l) + sum_list ns"
proof (induction ns arbitrary: l bs)
  case (Cons n ns)
  from Cons.prems obtain b c m where
    m: "lim_read_exact io_read_exact io_count n l = Inr (b, m)"
    and c: "lim_reads ns m = Inr (c, l')" and bs: "bs = b @ c"
    by (auto simp: res_simps)
  have rest: "lim_rest io_count io_input m = drop n (lim_rest io_count io_input l)"
    using lim_io.rd_InrD [OF m] by simp
  show ?case
    using lim_read_exact_InrD [OF m] Cons.IH [OF c] bs rest
    by (auto simp: take_add)
qed simp

text \<open>C26: reads through a limited view taken from a limited view never see a byte the parent
  view could not deliver, and never more bytes than the child's own limit, unless that limit overflows the reader's position: whatever sizes are
  requested, the bytes delivered are the corresponding prefix of the parent's remaining input,
  and their number is at most the limit passed to \<open>take\<close> when the position and the limit add up
  without an overflow.\<close>

theorem nested_take_confined:
  assumes "io_count (lim_reader parent) \<le> usize_max"
    and "lim_reads ns (lim_take io_count limit parent) = Inr (bs, child)"
  shows "bs = take (sum_list ns) (lim_rest io_count io_input parent) \<and>
    length bs \<le> length (lim_rest io_count io_input parent) \<and>
    (io_count (lim_reader parent) + limit \<le> usize_max \<longrightarrow> length bs \<le> limit)"
proof (intro conjI impI)
  let ?l = "lim_take io_count limit parent"
  note D = lim_reads_InrD [OF assms(2)]
  have pre: "lim_rest io_count io_input ?l = take limit (lim_rest io_count io_input parent) \<or>
      lim_rest io_count io_input ?l = lim_rest io_count io_input parent"
    using assms(1) lim_take_rest [of limit parent] lim_take_overflow [of parent limit]
    by (cases "limit \<le> usize_max - io_count (lim_reader parent)") (auto simp: lim_rest_def)
  have len: "sum_list ns \<le> length (lim_rest io_count io_input ?l)"
    using D by (metis length_take min.absorb_iff2 min.commute)
  show "bs = take (sum_list ns) (lim_rest io_count io_input parent)"
    using D pre len by (auto simp: min.absorb1)
  then show "length bs \<le> length (lim_rest io_count io_input parent)" by simp
  assume "io_count (lim_reader parent) + limit \<le> usize_max"
  then show "length bs \<le> limit"
    using D len lim_take_rest [of limit parent] assms(1) by simp
qed

theorem nested_take_confined_witness:
  "lim_reads [1, 2] (lim_take io_count usize_max (io_take 3 (io_from [1, 2, 3, 4]))) =
     Inr ([1, 2, 3], \<lparr>lim_reader = \<lparr>io_input = [4], io_count = 3\<rparr>, lim_limit = 3\<rparr>) \<and>
   [1, 2, 3] = take (sum_list [1, 2])
     (lim_rest io_count io_input (io_take 3 (io_from [1, 2, 3, 4 :: byte])))"
proof -
  have run: "lim_reads [1, 2] (lim_take io_count usize_max (io_take 3 (io_from [1, 2, 3, 4]))) =
     Inr ([1, 2, 3], \<lparr>lim_reader = \<lparr>io_input = [4], io_count = 3\<rparr>, lim_limit = 3\<rparr>)"
    by (simp add: io_from_def io_take_def lim_take_def usize_max_def lim_read_exact_def
        io_read_exact_def)
  have "io_count (lim_reader (io_take 3 (io_from [1, 2, 3, 4]))) \<le> usize_max"
    by (simp add: io_take_def io_from_def)
  from nested_take_confined [OF this run] run show ?thesis by simp
qed

end
