(* ===== verification/Leb128.thy ===== *)
theory Leb128
  imports Binary_Reader
begin

text \<open>
  The LEB128 decoder of \<open>crates/telomere/src/parser/leb128.rs\<close> (the macro
  \<open>parse_leb128impl\<close> and its const twin \<open>compile_i32\<close>), the value parsers of
  \<open>parser/core/values.rs\<close> and \<open>parse_block_type\<close> of \<open>parser/core/types.rs\<close>.  The decoder is
  compared with the mathematical reading of an encoding, \<open>uleb_val\<close> and \<open>sleb_val\<close>.
\<close>

section \<open>The decoder\<close>

text \<open>The read loop of \<open>parse_leb128impl\<close>: \<open>read_bytes\<close> and \<open>result\<close> are the loop
  variables, the last byte read is returned with them.  The loop ends because a further
  iteration needs \<open>read_bytes * 7 < bit_size\<close>.\<close>

function leb_loop ::
  "('r \<Rightarrow> parser_error + byte \<times> 'r) \<Rightarrow> nat \<Rightarrow> nat \<Rightarrow> 'a::len word \<Rightarrow> 'r \<Rightarrow>
   parser_error + (nat \<times> 'a word \<times> byte) \<times> 'r"
where
  "leb_loop rd1 bit_size read_bytes result r =
     rbind (rd1 r) (\<lambda>(byte, r').
       let result' = result OR push_bit (read_bytes * 7) (ucast (byte AND 0x7F));
           n = read_bytes + 1
       in if byte AND 0x80 = 0 then Inr ((n, result', byte), r')
          else if n * 7 \<ge> bit_size then Inl InvalidLeb128Encoding
          else leb_loop rd1 bit_size n result' r')"
  by pat_completeness auto
termination
  by (relation "measure (\<lambda>(rd1, bit_size, read_bytes, result, r). bit_size - read_bytes * 7)") auto

declare leb_loop.simps [simp del]

text \<open>\<open>checked_shr\<close> on a byte, with \<open>unwrap_or(0)\<close>.\<close>

definition shr_or_zero :: "byte \<Rightarrow> nat \<Rightarrow> byte" where
  "shr_or_zero b shift = (if shift < 8 then drop_bit shift b else 0)"

text \<open>The part after the loop: sign extension, then the check that the bits of the last byte
  beyond the target width are a copy of the sign.  Natural subtraction is
  \<open>saturating_sub\<close>.\<close>

definition leb_finish ::
  "bool \<Rightarrow> nat \<Rightarrow> nat \<times> 'a::len word \<times> byte \<Rightarrow> parser_error + nat \<times> 'a word" where
  "leb_finish is_signed bit_size = (\<lambda>(read_bytes, result, byte).
     let result' = (if is_signed \<and> read_bytes * 7 < bit_size \<and> byte AND 0x40 \<noteq> 0
                    then result OR push_bit (read_bytes * 7) (NOT 0) else result);
         shift = (if is_signed then (bit_size - 1) - (read_bytes - 1) * 7
                  else bit_size - (read_bytes - 1) * 7);
         remaining = (if is_signed \<and> byte AND 0x40 \<noteq> 0
                      then shr_or_zero (NOT byte AND 0x3F) shift
                      else shr_or_zero byte shift)
     in if remaining \<noteq> 0 then Inl InvalidLeb128Encoding else Inr (read_bytes, result'))"

definition parse_leb128 ::
  "bool \<Rightarrow> nat \<Rightarrow> (nat \<Rightarrow> 'r \<Rightarrow> parser_error + byte list \<times> 'r) \<Rightarrow> 'r \<Rightarrow>
   parser_error + (nat \<times> 'a::len word) \<times> 'r"
where
  "parse_leb128 is_signed bit_size rd r =
     rbind (leb_loop (read_exact_one rd) bit_size 0 0 r) (\<lambda>(st, r').
     rbind (leb_finish is_signed bit_size st) (\<lambda>v. Inr (v, r')))"

definition parse_u32 ::
  "(nat \<Rightarrow> 'r \<Rightarrow> parser_error + byte list \<times> 'r) \<Rightarrow> 'r \<Rightarrow> parser_error + (nat \<times> u32) \<times> 'r" where
  "parse_u32 = parse_leb128 False 32"

definition parse_i32 ::
  "(nat \<Rightarrow> 'r \<Rightarrow> parser_error + byte list \<times> 'r) \<Rightarrow> 'r \<Rightarrow> parser_error + (nat \<times> u32) \<times> 'r" where
  "parse_i32 = parse_leb128 True 32"

definition parse_i64 ::
  "(nat \<Rightarrow> 'r \<Rightarrow> parser_error + byte list \<times> 'r) \<Rightarrow> 'r \<Rightarrow> parser_error + (nat \<times> u64) \<times> 'r" where
  "parse_i64 = parse_leb128 True 64"

text \<open>\<open>compile_i32\<close> runs the same algorithm over a constant byte array; an index past the end
  and an invalid encoding are panics, here \<open>None\<close>.\<close>

function compile_loop ::
  "byte list \<Rightarrow> nat \<Rightarrow> nat \<Rightarrow> nat \<Rightarrow> u32 \<Rightarrow> (nat \<times> u32 \<times> byte) option" where
  "compile_loop bytes bit_size i read_bytes result =
     (case get_idx bytes i of None \<Rightarrow> None
      | Some byte \<Rightarrow>
         let result' = result OR push_bit (read_bytes * 7) (ucast (byte AND 0x7F));
             n = read_bytes + 1
         in if byte AND 0x80 = 0 then Some (n, result', byte)
            else if n * 7 \<ge> bit_size then None
            else compile_loop bytes bit_size (i + 1) n result')"
  by pat_completeness auto
termination
  by (relation "measure (\<lambda>(bytes, bit_size, i, read_bytes, result). bit_size - read_bytes * 7)") auto

declare compile_loop.simps [simp del]

definition compile_i32 :: "byte list \<Rightarrow> u32 option" where
  "compile_i32 bytes =
     (case compile_loop bytes 32 0 0 0 of None \<Rightarrow> None
      | Some st \<Rightarrow> (case leb_finish True 32 st of Inl _ \<Rightarrow> None | Inr (_, v) \<Rightarrow> Some v))"

text \<open>Block types (\<open>parse_block_type\<close>): a signed 33-bit number held in an \<open>i64\<close>.\<close>

definition parse_block_type ::
  "(nat \<Rightarrow> 'r \<Rightarrow> parser_error + byte list \<times> 'r) \<Rightarrow> 'r \<Rightarrow>
   parser_error + (nat \<times> blocktype) \<times> 'r"
where
  "parse_block_type rd r =
     rbind (parse_leb128 True 33 rd r) (\<lambda>((len, v :: u64), r').
       if sint v < 0 then
         if len \<noteq> 1 then Inl (InvalidBlockType v)
         else if v = - 1 then Inr ((len, BValType I32), r')
         else if v = - 2 then Inr ((len, BValType I64), r')
         else if v = - 3 then Inr ((len, BValType F32), r')
         else if v = - 4 then Inr ((len, BValType F64), r')
         else if v = - 5 then Inr ((len, BValType V128), r')
         else if v = - 16 then Inr ((len, BValType FuncRef), r')
         else if v = - 17 then Inr ((len, BValType ExternRef), r')
         else if v = - 64 then Inr ((len, BVoid), r')
         else Inl (InvalidBlockType v)
       else Inr ((len, BTypeIdx (ucast v)), r'))"

section \<open>The mathematical reading of an encoding\<close>

fun uleb_val :: "byte list \<Rightarrow> nat" where
  "uleb_val [] = 0"
| "uleb_val (b # bs) = unat b mod 128 + 128 * uleb_val bs"

text \<open>A well-formed encoding: a continuation bit on every byte but the last.\<close>

fun leb_bytes :: "byte list \<Rightarrow> bool" where
  "leb_bytes [] = False"
| "leb_bytes [b] = (unat b < 128)"
| "leb_bytes (b # bs) = (128 \<le> unat b \<and> leb_bytes bs)"

definition sleb_val :: "byte list \<Rightarrow> int" where
  "sleb_val bs = int (uleb_val bs) - (if 64 \<le> unat (last bs) then 2 ^ (7 * length bs) else 0)"

lemma uleb_val_bound: "uleb_val bs < 2 ^ (7 * length bs)"
proof (induction bs)
  case (Cons b bs)
  have "unat b mod 128 < 128" by simp
  with Cons show ?case by (simp add: power_add)
qed simp

lemma leb_bytes_nonempty: "leb_bytes bs \<Longrightarrow> bs \<noteq> []"
  by auto

lemma leb_bytes_Cons:
  "leb_bytes (b # bs) \<longleftrightarrow> (if bs = [] then unat b < 128 else 128 \<le> unat b \<and> leb_bytes bs)"
  by (cases bs) auto

lemma leb_bytes_last: "leb_bytes bs \<Longrightarrow> unat (last bs) < 128"
  by (induction bs rule: leb_bytes.induct) auto

lemma uleb_val_append: "uleb_val (as @ bs) = uleb_val as + 2 ^ (7 * length as) * uleb_val bs"
  by (induction as) (auto simp: power_add algebra_simps)

text \<open>Splitting off the last byte: the rest of the encoding is below its weight.\<close>

lemma uleb_val_last:
  assumes "leb_bytes bs"
  obtains lo where "uleb_val bs = lo + 2 ^ (7 * (length bs - 1)) * unat (last bs)"
    "lo < 2 ^ (7 * (length bs - 1))"
proof -
  have ne: "bs \<noteq> []" using assms by auto
  have "uleb_val (butlast bs @ [last bs]) =
      uleb_val (butlast bs) + 2 ^ (7 * length (butlast bs)) * uleb_val [last bs]"
    by (rule uleb_val_append)
  then have "uleb_val bs =
      uleb_val (butlast bs) + 2 ^ (7 * (length bs - 1)) * unat (last bs)"
    using ne leb_bytes_last [OF assms] by simp
  moreover have "uleb_val (butlast bs) < 2 ^ (7 * (length bs - 1))"
    using uleb_val_bound [of "butlast bs"] by simp
  ultimately show ?thesis by (rule that)
qed

section \<open>Bit facts about the loop body\<close>

lemma and_mask7: "b AND 0x7F = take_bit 7 (b :: byte)"
  by (simp add: take_bit_eq_mask mask_eq_exp_minus_1)

lemma unat_and_mask7: "unat (b AND 0x7F :: byte) = unat b mod 128"
proof -
  have "unat (take_bit 7 b) = take_bit 7 (unat b)" by (rule unsigned_take_bit_eq)
  then show ?thesis by (simp only: and_mask7 take_bit_eq_mod) simp
qed

lemma bit_byte_iff: "bit (b :: byte) n \<longleftrightarrow> odd (unat b div 2 ^ n)"
proof -
  have "bit (unat b) n = bit b n" by (simp add: bit_unsigned_iff)
  then show ?thesis unfolding bit_iff_odd [of "unat b"] by simp
qed

lemma unat_byte_less: "unat (b :: byte) < 256"
proof -
  have "unat b < 2 ^ LENGTH(8)" by (rule unsigned_less)
  then show ?thesis by simp
qed

lemma msb_clear_iff: "b AND 0x80 = (0 :: byte) \<longleftrightarrow> unat b < 128"
proof -
  have "b AND 0x80 = 0 \<longleftrightarrow> \<not> bit b 7"
    using and_exp_eq_0_iff_not_bit [of b 7] by simp
  also have "\<dots> \<longleftrightarrow> even (unat b div 128)" by (simp add: bit_byte_iff)
  also have "\<dots> \<longleftrightarrow> unat b < 128"
  proof -
    consider "unat b div 128 = 0" | "unat b div 128 = 1" using unat_byte_less [of b] by linarith
    then show ?thesis by cases auto
  qed
  finally show ?thesis .
qed

lemma sign_clear_iff:
  assumes "unat b < 128"
  shows "b AND 0x40 = (0 :: byte) \<longleftrightarrow> unat b < 64"
proof -
  have "b AND 0x40 = 0 \<longleftrightarrow> \<not> bit b 6"
    using and_exp_eq_0_iff_not_bit [of b 6] by simp
  also have "\<dots> \<longleftrightarrow> even (unat b div 64)" by (simp add: bit_byte_iff)
  also have "\<dots> \<longleftrightarrow> unat b < 64"
  proof -
    consider "unat b div 64 = 0" | "unat b div 64 = 1" using assms by linarith
    then show ?thesis by cases auto
  qed
  finally show ?thesis .
qed

text \<open>Disjoint bits add up: one loop iteration appends seven bits above the accumulated
  ones.\<close>

lemma nat_or_shift:
  fixes v c :: nat
  assumes "v < 2 ^ m"
  shows "v OR push_bit m c = v + 2 ^ m * c"
proof -
  have "take_bit m v = v" using assms by (simp add: take_bit_nat_eq_self_iff)
  then have "\<not> bit v i \<or> \<not> bit (push_bit m c) i" for i
    by (metis bit_push_bit_iff bit_take_bit_iff not_le)
  then have "v + push_bit m c = v OR push_bit m c" by (intro disjunctive_add) auto
  then show ?thesis by (simp add: push_bit_eq_mult mult.commute)
qed

lemma chunk_bound:
  fixes v c :: nat
  assumes "v < 2 ^ m" "c < 128"
  shows "v + 2 ^ m * c < 2 ^ (m + 7)"
proof -
  have "v + 2 ^ m * c < 2 ^ m * (c + 1)" using assms(1) by (simp add: algebra_simps)
  also have "\<dots> \<le> 2 ^ m * 128" using assms(2) by (intro mult_le_mono2) simp
  finally show ?thesis by (simp add: power_add)
qed

lemma or_chunk:
  assumes "v < 2 ^ m"
  shows "of_nat v OR push_bit m (ucast (b AND 0x7F)) =
    (of_nat (v + 2 ^ m * (unat (b :: byte) mod 128)) :: 'a::len word)"
proof -
  have "of_nat (v OR push_bit m (unat (b AND 0x7F))) =
      (of_nat v OR push_bit m (ucast (b AND 0x7F)) :: 'a word)"
    by (rule bit_word_eqI) (auto simp: bit_simps)
  then show ?thesis by (simp add: nat_or_shift [OF assms] unat_and_mask7)
qed

section \<open>The loop reads one well-formed encoding\<close>

context byte_source
begin

lemma leb_loop_reads:
  assumes "leb_bytes bs" "rest r = bs @ tail" "length bs = 1 \<or> 7 * (k + length bs - 1) < bit_size"
    and "v < 2 ^ (7 * k)"
  shows "\<exists>r'. leb_loop (read_exact_one rd) bit_size k (of_nat v :: 'a::len word) r =
      Inr ((k + length bs, of_nat (v + 2 ^ (7 * k) * uleb_val bs), last bs), r') \<and>
      rest r' = tail \<and> pos r' = pos r + length bs"
  using assms
proof (induction bs arbitrary: r k v)
  case (Cons b bs)
  from read_one_Cons [of r b "bs @ tail"] Cons.prems(2) obtain s where
    s: "read_exact_one rd r = Inr (b, s)" "rest s = bs @ tail" "pos s = pos r + 1" by auto
  let ?v = "v + 2 ^ (7 * k) * (unat b mod 128)"
  have step: "of_nat v OR push_bit (k * 7) (ucast (b AND 0x7F)) = (of_nat ?v :: 'a word)"
    using or_chunk [OF Cons.prems(4), of b] by (simp add: mult.commute)
  show ?case
  proof (cases "bs = []")
    case True
    with Cons.prems s step show ?thesis
      by (subst leb_loop.simps) (auto simp: msb_clear_iff)
  next
    case False
    with Cons.prems(1) have b: "128 \<le> unat b" and bs: "leb_bytes bs"
      by (auto simp: leb_bytes_Cons)
    from False Cons.prems(3) have lim: "7 * (k + length bs) < bit_size" by (cases bs) auto
    have v: "?v < 2 ^ (7 * (k + 1))"
      using chunk_bound [OF Cons.prems(4), of "unat b mod 128"] by (simp add: add.commute)
    obtain r' where
      r': "leb_loop (read_exact_one rd) bit_size (k + 1) (of_nat ?v :: 'a word) s =
        Inr ((k + 1 + length bs, of_nat (?v + 2 ^ (7 * (k + 1)) * uleb_val bs), last bs), r')"
      "rest r' = tail" "pos r' = pos s + length bs"
      using Cons.IH [OF bs s(2) _ v] lim False by auto
    have "leb_loop (read_exact_one rd) bit_size k (of_nat v :: 'a word) r =
        leb_loop (read_exact_one rd) bit_size (k + 1) (of_nat ?v) s"
      using s b lim False step
      by (subst leb_loop.simps) (cases bs; auto simp: msb_clear_iff)
    with r' s False show ?thesis
      by (auto simp: power_add algebra_simps)
  qed
qed simp

lemma leb_loop_InrD:
  assumes "leb_loop (read_exact_one rd) bit_size k result r = Inr ((n, w, b), r')"
  shows "\<exists>bs. rest r = bs @ rest r' \<and> leb_bytes bs \<and> n = k + length bs \<and>
     (length bs = 1 \<or> 7 * (n - 1) < bit_size)"
  using assms
proof (induction "read_exact_one rd" bit_size k result r rule: leb_loop.induct)
  case (1 bit_size k result r)
  from "1.prems" obtain c s where s: "read_exact_one rd r = Inr (c, s)"
    by (subst (asm) leb_loop.simps) (auto simp: res_simps)
  from read_one_InrD [OF s] have rest: "rest r = c # rest s" by simp
  show ?case
  proof (cases "unat c < 128")
    case True
    with "1.prems" s rest show ?thesis
      by (subst (asm) leb_loop.simps) (auto simp: msb_clear_iff intro: exI [of _ "[c]"])
  next
    case False
    let ?res = "result OR push_bit (k * 7) (ucast (c AND 0x7F))"
    from "1.prems" s False have lim: "\<not> bit_size \<le> (k + 1) * 7"
      and rec: "leb_loop (read_exact_one rd) bit_size (k + 1) ?res s = Inr ((n, w, b), r')"
      by (subst (asm) leb_loop.simps; auto simp: msb_clear_iff Let_def split: if_splits)+
    have "c AND 0x80 \<noteq> 0" using False by (simp add: msb_clear_iff)
    from "1.hyps" [OF s refl refl refl this lim rec] obtain bs where
      "rest s = bs @ rest r'" "leb_bytes bs" "n = k + 1 + length bs"
      "length bs = 1 \<or> 7 * (n - 1) < bit_size" by blast
    with rest False lim show ?thesis
      by (intro exI [of _ "c # bs"]) (auto simp: leb_bytes_Cons)
  qed
qed

end

section \<open>The final check\<close>

lemma shr_or_zero_iff: "shr_or_zero b shift = 0 \<longleftrightarrow> unat b < 2 ^ shift"
proof (cases "shift < 8")
  case True
  have "drop_bit shift b = 0 \<longleftrightarrow> unat (drop_bit shift b) = 0" by (simp add: unsigned_eq_0_iff)
  also have "\<dots> \<longleftrightarrow> unat b div 2 ^ shift = 0"
    using unat_drop_bit_eq [of shift b] unfolding drop_bit_eq_div [of shift "unat b"] by simp
  finally show ?thesis using True by (simp add: shr_or_zero_def div_eq_0_iff)
next
  case False
  then have "(256 :: nat) \<le> 2 ^ shift"
    using power_increasing [of 8 shift "2 :: nat"] by simp
  with False unat_byte_less [of b] show ?thesis by (simp add: shr_or_zero_def)
qed

text \<open>Unsigned: the last byte fits below the target width exactly when the whole value does.\<close>

lemma unsigned_fits_iff:
  assumes "leb_bytes bs" "7 * (length bs - 1) \<le> bit_size"
  shows "unat (last bs) < 2 ^ (bit_size - (length bs - 1) * 7) \<longleftrightarrow> uleb_val bs < 2 ^ bit_size"
proof -
  let ?m = "7 * (length bs - 1)"
  obtain lo where lo: "uleb_val bs = lo + 2 ^ ?m * unat (last bs)" "lo < 2 ^ ?m"
    using uleb_val_last [OF assms(1)] .
  have pow: "(2 :: nat) ^ bit_size = 2 ^ ?m * 2 ^ (bit_size - ?m)"
    using assms(2) by (simp flip: power_add)
  have "uleb_val bs < 2 ^ bit_size \<longleftrightarrow> uleb_val bs div 2 ^ ?m < 2 ^ (bit_size - ?m)"
    by (simp add: pow div_less_iff_less_mult mult.commute)
  also have "uleb_val bs div 2 ^ ?m = unat (last bs)" using lo by simp
  finally show ?thesis by (simp add: mult.commute)
qed

lemma leb_finish_unsigned:
  assumes "leb_bytes bs" "7 * (length bs - 1) < bit_size"
  shows "leb_finish False bit_size (length bs, w, last bs) =
    (if uleb_val bs < 2 ^ bit_size then Inr (length bs, w) else Inl InvalidLeb128Encoding)"
  using unsigned_fits_iff [of bs bit_size] assms by (simp add: leb_finish_def Let_def shr_or_zero_iff)

text \<open>Signed, non-negative.\<close>

lemma signed_pos_fits_iff:
  assumes "leb_bytes bs" "7 * (length bs - 1) < bit_size" "unat (last bs) < 64"
  shows "unat (last bs) < 2 ^ (bit_size - 1 - (length bs - 1) * 7) \<longleftrightarrow>
    sleb_val bs < 2 ^ (bit_size - 1)"
proof -
  have "int (uleb_val bs) < 2 ^ (bit_size - 1) \<longleftrightarrow> uleb_val bs < 2 ^ (bit_size - 1)"
    by (simp add: of_nat_less_iff [symmetric] del: of_nat_less_iff)
  with unsigned_fits_iff [of bs "bit_size - 1"] assms show ?thesis by (simp add: sleb_val_def)
qed

text \<open>Signed, negative: the complement of the last byte's value bits must vanish above the
  width, which says that the value is not below the least representable one.\<close>

lemma unat_not_and_mask6:
  assumes "64 \<le> unat b" "unat b < 128"
  shows "unat (NOT b AND 0x3F :: byte) = 127 - unat b"
proof -
  have "NOT b AND 0x3F = take_bit 6 (NOT b)" by (simp add: take_bit_eq_mask mask_eq_exp_minus_1)
  moreover have "unat (take_bit 6 (NOT b)) = take_bit 6 (unat (NOT b))"
    by (rule unsigned_take_bit_eq)
  ultimately have "unat (NOT b AND 0x3F) = unat (NOT b) mod 64"
    by (simp only: take_bit_eq_mod) simp
  moreover have "unat (NOT b) = 255 - unat b"
  proof -
    have "(255 :: byte) = - 1" by simp
    then have "NOT b = 255 - b" by (simp only: not_eq_complement) simp
    moreover have "b \<le> 255" by (simp add: word_le_nat_alt) (use unat_byte_less [of b] in simp)
    ultimately show ?thesis by (simp add: unat_sub)
  qed
  moreover have "(255 - unat b) mod 64 = 127 - unat b"
    using assms by (simp add: mod_if)
  ultimately show ?thesis by simp
qed

lemma signed_neg_fits_iff:
  assumes "leb_bytes bs" "7 * (length bs - 1) < bit_size" "64 \<le> unat (last bs)"
  shows "127 - unat (last bs) < 2 ^ (bit_size - 1 - (length bs - 1) * 7) \<longleftrightarrow>
    - (2 ^ (bit_size - 1)) \<le> sleb_val bs"
proof -
  let ?m = "7 * (length bs - 1)" and ?s = "bit_size - 1 - 7 * (length bs - 1)"
  obtain lo where lo: "uleb_val bs = lo + 2 ^ ?m * unat (last bs)" "lo < 2 ^ ?m"
    using uleb_val_last [OF assms(1)] .
  have l: "unat (last bs) < 128" by (rule leb_bytes_last [OF assms(1)])
  have len: "7 * length bs = ?m + 7" using leb_bytes_nonempty [OF assms(1)] by (cases bs) auto
  have pow: "(2 :: int) ^ (bit_size - 1) = 2 ^ ?m * 2 ^ ?s"
    using assms(2) by (simp flip: power_add)
  define d where "d = 128 - int (unat (last bs)) - 2 ^ ?s"
  have "sleb_val bs + 2 ^ (bit_size - 1) = int lo - 2 ^ ?m * d"
    using lo(1) assms(3) unfolding sleb_val_def len pow d_def
    by (simp add: power_add algebra_simps)
  then have "- (2 ^ (bit_size - 1)) \<le> sleb_val bs \<longleftrightarrow> 2 ^ ?m * d \<le> int lo" by linarith
  also have "\<dots> \<longleftrightarrow> d \<le> 0"
  proof
    assume "2 ^ ?m * d \<le> int lo"
    also have "int lo < 2 ^ ?m" using lo(2) by (simp add: of_nat_less_iff [symmetric] del: of_nat_less_iff)
    finally have "2 ^ ?m * d < 2 ^ ?m * 1" by simp
    then show "d \<le> 0" by (simp add: mult_less_cancel_left_pos)
  next
    assume "d \<le> 0"
    then have "2 ^ ?m * d \<le> 0" by (simp add: mult_nonneg_nonpos)
    then show "2 ^ ?m * d \<le> int lo" by simp
  qed
  also have "\<dots> \<longleftrightarrow> int (127 - unat (last bs)) < int (2 ^ ?s)"
    using l by (simp add: d_def of_nat_diff) linarith
  finally show ?thesis by (simp add: mult.commute del: of_nat_diff)
qed

text \<open>Sign extension above the bits read.\<close>

lemma or_sign_extend:
  assumes "v < 2 ^ m"
  shows "of_nat v OR push_bit m (NOT 0) = (word_of_int (int v - 2 ^ m) :: 'a::len word)"
proof -
  have "take_bit m v = v" using assms by (simp add: take_bit_nat_eq_self_iff)
  then have v: "bit v i \<Longrightarrow> i < m" for i by (metis bit_take_bit_iff)
  have "(of_nat v + push_bit m (NOT 0) :: 'a word) = of_nat v OR push_bit m (NOT 0)"
    by (rule disjunctive_add) (auto simp: bit_simps dest: v)
  moreover have "(push_bit m (NOT 0) :: 'a word) = - (2 ^ m)" by (simp add: push_bit_eq_mult)
  ultimately show ?thesis by simp
qed

lemma leb_finish_signed:
  assumes "leb_bytes bs" "7 * (length bs - 1) < bit_size"
    and "bit_size = LENGTH('a) \<or> 7 * length bs < bit_size \<or> 0 \<le> sleb_val bs"
    and "7 * length bs < bit_size \<Longrightarrow> bit_size \<le> LENGTH('a::len)"
  shows "leb_finish True bit_size (length bs, of_nat (uleb_val bs) :: 'a word, last bs) =
    (if - (2 ^ (bit_size - 1)) \<le> sleb_val bs \<and> sleb_val bs < 2 ^ (bit_size - 1)
     then Inr (length bs, word_of_int (sleb_val bs)) else Inl InvalidLeb128Encoding)"
proof (cases "unat (last bs) < 64")
  case True
  moreover from True have "sleb_val bs = int (uleb_val bs)" by (simp add: sleb_val_def)
  moreover have "- (2 ^ (bit_size - 1)) \<le> int (uleb_val bs)"
    by (rule order_trans [of _ 0]) simp_all
  ultimately show ?thesis
    using signed_pos_fits_iff [OF assms(1,2)] sign_clear_iff [OF leb_bytes_last [OF assms(1)]]
    by (simp add: leb_finish_def Let_def shr_or_zero_iff)
next
  case False
  let ?n = "length bs"
  have l: "unat (last bs) < 128" by (rule leb_bytes_last [OF assms(1)])
  have neg: "sleb_val bs = int (uleb_val bs) - 2 ^ (7 * ?n)" "sleb_val bs < 0"
    using False uleb_val_bound [of bs]
    by (auto simp: sleb_val_def of_nat_less_iff [symmetric] simp del: of_nat_less_iff)
  have val: "(if ?n * 7 < bit_size then of_nat (uleb_val bs) OR push_bit (?n * 7) (NOT 0)
      else of_nat (uleb_val bs)) = (word_of_int (sleb_val bs) :: 'a word)"
  proof (cases "?n * 7 < bit_size")
    case True
    then show ?thesis using or_sign_extend [OF uleb_val_bound [of bs]]
      by (simp add: neg(1) mult.commute)
  next
    case False
    with assms(3) neg(2) have "LENGTH('a) \<le> 7 * ?n" by auto
    then have "(2 ^ (7 * ?n) :: 'a word) = 0" by simp
    with False show ?thesis by (simp add: neg(1))
  qed
  have "sleb_val bs < 2 ^ (bit_size - 1)" using neg(2) by (rule less_trans) simp
  then show ?thesis
    using signed_neg_fits_iff [OF assms(1,2)] unat_not_and_mask6 [of "last bs"] False l val
      sign_clear_iff [OF l]
    by (simp add: leb_finish_def Let_def shr_or_zero_iff)
qed

section \<open>The parsers, over any reader\<close>

context byte_source
begin

lemma parse_unsigned_complete:
  assumes "leb_bytes bs" "rest r = bs @ tail" "7 * (length bs - 1) < bit_size"
    and "uleb_val bs < 2 ^ bit_size"
  shows "\<exists>r'. parse_leb128 False bit_size rd r =
      Inr ((length bs, of_nat (uleb_val bs) :: 'a::len word), r') \<and>
      rest r' = tail \<and> pos r' = pos r + length bs"
proof -
  from leb_loop_reads [OF assms(1,2), of 0 bit_size 0] assms(3) obtain r' where
    "leb_loop (read_exact_one rd) bit_size 0 (0 :: 'a word) r =
      Inr ((length bs, of_nat (uleb_val bs), last bs), r')"
    "rest r' = tail" "pos r' = pos r + length bs" by auto
  with assms show ?thesis by (auto simp: parse_leb128_def leb_finish_unsigned)
qed

lemma parse_signed_complete:
  assumes "leb_bytes bs" "rest r = bs @ tail" "7 * (length bs - 1) < bit_size"
    and "- (2 ^ (bit_size - 1)) \<le> sleb_val bs" "sleb_val bs < 2 ^ (bit_size - 1)"
    and "bit_size = LENGTH('a) \<or> 7 * length bs < bit_size \<or> 0 \<le> sleb_val bs"
    and "7 * length bs < bit_size \<Longrightarrow> bit_size \<le> LENGTH('a::len)"
  shows "\<exists>r'. parse_leb128 True bit_size rd r =
      Inr ((length bs, word_of_int (sleb_val bs) :: 'a word), r') \<and>
      rest r' = tail \<and> pos r' = pos r + length bs"
proof -
  from leb_loop_reads [OF assms(1,2), of 0 bit_size 0] assms(3) obtain r' where
    "leb_loop (read_exact_one rd) bit_size 0 (0 :: 'a word) r =
      Inr ((length bs, of_nat (uleb_val bs), last bs), r')"
    "rest r' = tail" "pos r' = pos r + length bs" by auto
  with assms(4,5) leb_finish_signed [OF assms(1,3,6,7)] show ?thesis
    by (auto simp: parse_leb128_def)
qed

lemma parse_leb128_InrD:
  assumes "parse_leb128 sg bit_size rd r = Inr ((n, w :: 'a::len word), r')" "0 < bit_size"
  obtains bs where "rest r = bs @ rest r'" "leb_bytes bs" "n = length bs"
    "7 * (n - 1) < bit_size" "pos r' = pos r + n"
    "leb_finish sg bit_size (n, of_nat (uleb_val bs), last bs) = Inr (n, w)"
proof -
  from assms(1) obtain m v b where
    loop: "leb_loop (read_exact_one rd) bit_size 0 (0 :: 'a word) r = Inr ((m, v, b), r')"
    and fin: "leb_finish sg bit_size (m, v, b) = Inr (n, w)"
    by (auto simp: parse_leb128_def res_simps)
  from leb_loop_InrD [OF loop] obtain bs where
    bs: "rest r = bs @ rest r'" "leb_bytes bs" "m = length bs"
      "length bs = 1 \<or> 7 * (m - 1) < bit_size" by auto
  from fin have m: "m = n" by (auto simp: leb_finish_def Let_def split: if_splits)
  have lim: "7 * (n - 1) < bit_size" using bs(3,4) m assms(2) by auto
  from leb_loop_reads [OF bs(2,1), of 0 bit_size 0] lim bs(3) m obtain s where
    "leb_loop (read_exact_one rd) bit_size 0 (0 :: 'a word) r =
      Inr ((n, of_nat (uleb_val bs), last bs), s)" "pos s = pos r + n" by auto
  with loop have "v = of_nat (uleb_val bs)" "b = last bs" "pos r' = pos r + n" by auto
  with bs m lim fin show ?thesis by (intro that) auto
qed

end

text \<open>\<open>of_nat\<close> and \<open>word_of_int\<close> at the full width lose nothing.\<close>

lemma of_nat_eq_iff_unat:
  "n < 2 ^ LENGTH('a) \<Longrightarrow> (w = of_nat n) = (unat (w :: 'a::len word) = n)"
  by (auto simp: unsigned_of_nat take_bit_nat_eq_self)

lemma word_of_int_eq_iff_sint:
  assumes "- (2 ^ (LENGTH('a) - 1)) \<le> k" "k < 2 ^ (LENGTH('a) - 1)"
  shows "(w = word_of_int k) = (sint (w :: 'a::len word) = k)"
proof -
  have "sint (word_of_int k :: 'a word) = k"
    using assms by (simp add: sint_sbintrunc' signed_take_bit_int_eq_self)
  then show ?thesis by auto
qed

text \<open>The unsigned and the signed parser at the full width of their result, on the in-memory
  reader: exactly the encodings short enough and in range are accepted, and the value is the
  mathematical one.\<close>

lemma io_reader_eqI:
  "io_input r = io_input s \<Longrightarrow> io_count r = io_count s \<Longrightarrow> r = (s :: io_reader)"
  by simp

lemma parse_unsigned_io:
  "parse_leb128 False LENGTH('a) io_read_exact r = Inr ((n, w :: 'a::len word), r') \<longleftrightarrow>
   (\<exists>bs. io_input r = bs @ io_input r' \<and> leb_bytes bs \<and> n = length bs \<and>
      7 * (n - 1) < LENGTH('a) \<and> io_count r' = io_count r + n \<and> unat w = uleb_val bs)"
  (is "?L \<longleftrightarrow> ?R")
proof
  assume ?L
  then obtain bs where bs: "io_input r = bs @ io_input r'" "leb_bytes bs" "n = length bs"
    "7 * (n - 1) < LENGTH('a)" "io_count r' = io_count r + n"
    "leb_finish False LENGTH('a) (n, of_nat (uleb_val bs), last bs) = Inr (n, w)"
    by (rule io.parse_leb128_InrD) auto
  then have "uleb_val bs < 2 ^ LENGTH('a)" "w = of_nat (uleb_val bs)"
    using leb_finish_unsigned [of bs "LENGTH('a)" "of_nat (uleb_val bs) :: 'a word"]
    by (auto split: if_splits)
  with bs show ?R by (auto simp: of_nat_eq_iff_unat)
next
  assume ?R
  then obtain bs where bs: "io_input r = bs @ io_input r'" "leb_bytes bs" "n = length bs"
    "7 * (n - 1) < LENGTH('a)" "io_count r' = io_count r + n" "unat w = uleb_val bs" by blast
  have lt: "uleb_val bs < 2 ^ LENGTH('a)" unfolding bs(6) [symmetric] by (rule unsigned_less)
  from io.parse_unsigned_complete [OF bs(2,1) _ lt] bs(3,4) obtain s where
    "parse_leb128 False LENGTH('a) io_read_exact r = Inr ((n, of_nat (uleb_val bs) :: 'a word), s)"
    "io_input s = io_input r'" "io_count s = io_count r + n" by auto
  moreover from this bs(5) have "s = r'" by (intro io_reader_eqI) auto
  moreover have "w = of_nat (uleb_val bs)" using of_nat_eq_iff_unat [OF lt] bs(6) by simp
  ultimately show ?L by simp
qed

lemma parse_signed_io:
  "parse_leb128 True LENGTH('a) io_read_exact r = Inr ((n, w :: 'a::len word), r') \<longleftrightarrow>
   (\<exists>bs. io_input r = bs @ io_input r' \<and> leb_bytes bs \<and> n = length bs \<and>
      7 * (n - 1) < LENGTH('a) \<and> io_count r' = io_count r + n \<and> sint w = sleb_val bs)"
  (is "?L \<longleftrightarrow> ?R")
proof
  assume ?L
  then obtain bs where bs: "io_input r = bs @ io_input r'" "leb_bytes bs" "n = length bs"
    "7 * (n - 1) < LENGTH('a)" "io_count r' = io_count r + n"
    "leb_finish True LENGTH('a) (n, of_nat (uleb_val bs), last bs) = Inr (n, w)"
    by (rule io.parse_leb128_InrD) auto
  then have "- (2 ^ (LENGTH('a) - 1)) \<le> sleb_val bs" "sleb_val bs < 2 ^ (LENGTH('a) - 1)"
    "w = word_of_int (sleb_val bs)"
    using leb_finish_signed [of bs "LENGTH('a)", where 'a = 'a] by (auto split: if_splits)
  with bs show ?R by (auto simp: word_of_int_eq_iff_sint)
next
  assume ?R
  then obtain bs where bs: "io_input r = bs @ io_input r'" "leb_bytes bs" "n = length bs"
    "7 * (n - 1) < LENGTH('a)" "io_count r' = io_count r + n" "sint w = sleb_val bs" by blast
  have rng: "- (2 ^ (LENGTH('a) - 1)) \<le> sleb_val bs" "sleb_val bs < 2 ^ (LENGTH('a) - 1)"
    unfolding bs(6) [symmetric] using sint_ge [of w] sint_less [of w] by simp_all
  from io.parse_signed_complete [OF bs(2,1) _ rng] bs(3,4) obtain s where
    "parse_leb128 True LENGTH('a) io_read_exact r = Inr ((n, word_of_int (sleb_val bs) :: 'a word), s)"
    "io_input s = io_input r'" "io_count s = io_count r + n" by auto
  moreover from this bs(5) have "s = r'" by (intro io_reader_eqI) auto
  moreover have "w = word_of_int (sleb_val bs)"
    using word_of_int_eq_iff_sint [OF rng] bs(6) by simp
  ultimately show ?L by simp
qed

section \<open>The core parsers\<close>

text \<open>C24: \<open>parse_u32\<close> succeeds on a reader exactly when its input starts with a well-formed
  LEB128 encoding of at most five bytes whose value fits in 32 bits; it then returns the number
  of bytes of that encoding and its value, and has consumed exactly those bytes.\<close>

theorem parse_u32_correct:
  "parse_u32 io_read_exact r = Inr ((n, v), r') \<longleftrightarrow>
   (\<exists>bs. io_input r = bs @ io_input r' \<and> leb_bytes bs \<and> n = length bs \<and> n \<le> 5 \<and>
      io_count r' = io_count r + n \<and> unat v = uleb_val bs)"
  unfolding parse_u32_def using parse_unsigned_io [where 'a = 32] by auto

text \<open>C25: \<open>parse_i32\<close> succeeds exactly on inputs that start with a well-formed encoding of at
  most five bytes whose two's-complement reading fits in 32 bits, non-minimal encodings
  included; it returns that value and consumes exactly the encoding.\<close>

theorem parse_i32_correct:
  "parse_i32 io_read_exact r = Inr ((n, v), r') \<longleftrightarrow>
   (\<exists>bs. io_input r = bs @ io_input r' \<and> leb_bytes bs \<and> n = length bs \<and> n \<le> 5 \<and>
      io_count r' = io_count r + n \<and> sint v = sleb_val bs)"
  unfolding parse_i32_def using parse_signed_io [where 'a = 32] by auto

text \<open>\<open>parse_i64\<close> likewise, with at most ten bytes and 64 bits.\<close>

theorem parse_i64_correct:
  "parse_i64 io_read_exact r = Inr ((n, v), r') \<longleftrightarrow>
   (\<exists>bs. io_input r = bs @ io_input r' \<and> leb_bytes bs \<and> n = length bs \<and> n \<le> 10 \<and>
      io_count r' = io_count r + n \<and> sint v = sleb_val bs)"
  unfolding parse_i64_def using parse_signed_io [where 'a = 64] by auto

section \<open>The const decoder\<close>

lemma compile_loop_eq:
  "compile_loop bytes bit_size i k result =
   (case leb_loop (read_exact_one io_read_exact) bit_size k result
       \<lparr>io_input = drop i bytes, io_count = c\<rparr> of
      Inl _ \<Rightarrow> None | Inr (st, _) \<Rightarrow> Some st)"
proof (induction bytes bit_size i k result arbitrary: c rule: compile_loop.induct)
  case (1 bytes bit_size i k result)
  show ?case
  proof (cases "i < length bytes")
    case True
    have rd: "read_exact_one io_read_exact \<lparr>io_input = drop i bytes, io_count = c\<rparr> =
        Inr (bytes ! i, \<lparr>io_input = drop (Suc i) bytes, io_count = c + 1\<rparr>)"
      unfolding Cons_nth_drop_Suc [OF True, symmetric]
      by (simp add: read_exact_one_def io_read_exact_def)
    show ?thesis
      using "1.IH" [of "bytes ! i" _ _ "c + 1"] True
      by (subst compile_loop.simps, subst leb_loop.simps) (simp add: rd get_idx_def Let_def)
  next
    case False
    then show ?thesis
      by (subst compile_loop.simps, subst leb_loop.simps)
        (simp add: get_idx_def read_exact_one_def io_read_exact_def)
  qed
qed

text \<open>The const evaluator \<open>compile_i32\<close>, which fixes the discriminants of the type
  opcodes, computes what \<open>parse_i32\<close> computes on the same bytes, and panics exactly where
  \<open>parse_i32\<close> returns an error.\<close>

theorem compile_i32_eq_parse_i32:
  "compile_i32 bytes =
   (case parse_i32 io_read_exact (io_from bytes) of
      Inl _ \<Rightarrow> None | Inr ((_, v), _) \<Rightarrow> Some v)"
  using compile_loop_eq [of bytes 32 0 0 0 0]
  by (auto simp: compile_i32_def parse_i32_def parse_leb128_def io_from_def rbind_def
      split: sum.splits)

section \<open>Block types\<close>

text \<open>What the binary format assigns to a signed 33-bit number: a negative one is a single
  byte naming a value type or the empty type, any other is a type index.\<close>

definition block_type_spec :: "nat \<Rightarrow> int \<Rightarrow> blocktype option" where
  "block_type_spec len v =
     (if 0 \<le> v then Some (BTypeIdx (word_of_int v))
      else if len \<noteq> 1 then None
      else map_of [(- 1, BValType I32), (- 2, BValType I64), (- 3, BValType F32),
        (- 4, BValType F64), (- 5, BValType V128), (- 16, BValType FuncRef),
        (- 17, BValType ExternRef), (- 64, BVoid)] v)"

lemma sint_word_of_int_64:
  "- (2 ^ 63) \<le> k \<Longrightarrow> k < 2 ^ 63 \<Longrightarrow> sint (word_of_int k :: u64) = k"
  using word_of_int_eq_iff_sint [of k "word_of_int k :: u64"] by simp

lemma word_of_int_64_eq_iff:
  assumes "- (2 ^ 63) \<le> k" "k < 2 ^ 63" "- (2 ^ 63) \<le> j" "j < 2 ^ 63"
  shows "(word_of_int k :: u64) = word_of_int j \<longleftrightarrow> k = j"
  using sint_word_of_int_64 assms by metis

text \<open>On every encoding of a signed 33-bit number of fewer than five bytes, and on every
  five-byte encoding of a non-negative one, \<open>parse_block_type\<close> returns what the format
  assigns to the number and rejects what the format leaves unassigned.\<close>

theorem parse_block_type_correct:
  assumes "leb_bytes bs" "io_input r = bs @ tail" "length bs \<le> 5"
    and "- (2 ^ 32) \<le> sleb_val bs" "sleb_val bs < 2 ^ 32"
    and "length bs < 5 \<or> 0 \<le> sleb_val bs"
  shows "parse_block_type io_read_exact r =
    (case block_type_spec (length bs) (sleb_val bs) of
       None \<Rightarrow> Inl (InvalidBlockType (word_of_int (sleb_val bs)))
     | Some t \<Rightarrow> Inr ((length bs, t), \<lparr>io_input = tail, io_count = io_count r + length bs\<rparr>))"
proof -
  let ?k = "sleb_val bs" and ?r = "\<lparr>io_input = tail, io_count = io_count r + length bs\<rparr>"
  have side: "7 * (length bs - 1) < 33" "- (2 ^ (33 - 1)) \<le> ?k" "?k < 2 ^ (33 - 1)"
    "33 = LENGTH(64) \<or> 7 * length bs < 33 \<or> 0 \<le> ?k" "33 \<le> LENGTH(64)"
    using assms by auto
  from io.parse_signed_complete [OF assms(1,2) side(1-3), where 'a = 64, OF side(4,5)]
  obtain s where s: "parse_leb128 True 33 io_read_exact r =
      Inr ((length bs, word_of_int ?k :: u64), s)"
    "io_input s = tail" "io_count s = io_count r + length bs" by auto
  then have "s = ?r" by (intro io_reader_eqI) auto
  with s have p: "parse_leb128 True 33 io_read_exact r =
      Inr ((length bs, word_of_int ?k :: u64), ?r)" by simp
  have sk: "sint (word_of_int ?k :: u64) = ?k"
    using assms(4,5) by (intro sint_word_of_int_64) auto
  have lit: "(word_of_int ?k :: u64) = word_of_int j \<longleftrightarrow> ?k = j" if "j \<in> {-64..0}" for j
    using that assms(4,5) by (intro word_of_int_64_eq_iff) auto
  have lits: "(word_of_int ?k :: u64) = - numeral m \<longleftrightarrow> ?k = - numeral m"
    if "numeral m \<le> (64 :: int)" for m using lit [of "- numeral m"] that by simp
  have lit1: "(word_of_int ?k :: u64) = - 1 \<longleftrightarrow> ?k = - 1" using lit [of "- 1"] by simp
  have uc: "ucast (word_of_int ?k :: u64) = (word_of_int ?k :: u32)"
    by (rule bit_word_eqI) (simp add: bit_simps)
  show ?thesis
    by (simp add: parse_block_type_def p sk lits lit1 uc block_type_spec_def)
qed

theorem parse_block_type_correct_witness:
  "parse_block_type io_read_exact (io_from [0x40, 0x0B]) =
     Inr ((1, BVoid), \<lparr>io_input = [0x0B], io_count = 1\<rparr>)"
proof -
  have v: "sleb_val [0x40] = - 64" by (simp add: sleb_val_def)
  show ?thesis
    using parse_block_type_correct [of "[0x40]" "io_from [0x40, 0x0B]" "[0x0B]"]
    by (simp add: v io_from_def block_type_spec_def)
qed

text \<open>A five-byte encoding of a negative 33-bit number escapes both checks: the decoder
  sign-extends only encodings shorter than the width, so the value arrives as a positive
  \<open>i64\<close> and its low 32 bits are taken for a type index.  The encoding of \<open>- 2 ^ 32\<close> is
  accepted as type index 0, although negative block types longer than one byte are meant to be
  rejected.\<close>

theorem block_type_five_byte_negative_accepted:
  "parse_block_type io_read_exact (io_from [0x80, 0x80, 0x80, 0x80, 0x70]) =
     Inr ((5, BTypeIdx 0), \<lparr>io_input = [], io_count = 5\<rparr>) \<and>
   leb_bytes [0x80, 0x80, 0x80, 0x80, 0x70] \<and>
   sleb_val [0x80, 0x80, 0x80, 0x80, 0x70] = - (2 ^ 32)"
  by (simp add: parse_block_type_def parse_leb128_def leb_loop.simps leb_finish_def
      read_exact_one_def io_read_exact_def io_from_def sleb_val_def shr_or_zero_def Let_def)

end
