(* ===== verification/Metering.thy ===== *)
theory Metering
  imports Telomere_Prelude
begin

text \<open>
  Store-scoped fuel metering: the ledger of \<open>crates/telomere/src/common/metering.rs\<close>, the
  checkpoint paths of \<open>runtime/vm.rs\<close> that spend a caller-owned budget, and the release at the
  end of a scheduler slice in \<open>runtime/scheduler.rs\<close>.  Unsigned 64-bit quantities are naturals
  with the saturation and the wrap-around of the source written out.  Every method of the handle
  holds the ledger's lock for its whole body, so a concurrent watchdog interleaves whole methods;
  the relation \<open>meter_step\<close> is that interleaving.
\<close>

section \<open>The ledger\<close>

definition u64_max :: nat where "u64_max = 2 ^ 64 - 1"

definition sat_add :: "nat \<Rightarrow> nat \<Rightarrow> nat" where
  "sat_add a b = min (a + b) u64_max"

definition CHECKPOINT_CHUNK :: nat where "CHECKPOINT_CHUNK = 4096"

datatype interrupt_reason = FuelExhausted | Cancelled

record metering_state =
  limit :: "nat option"
  consumed :: nat
  epoch :: nat
  interrupted :: bool

record grant_info =
  g_reserved :: nat
  g_budget :: nat
  g_epoch :: nat

text \<open>The counters a running guest owns: the fields \<open>budget\<close>, \<open>reserved\<close> and
  \<open>budget_epoch\<close> of \<open>ExecuteContext\<close>.\<close>

record meter_ctx =
  budget :: nat
  reserved :: nat
  budget_epoch :: nat

definition finite_limit :: "nat option \<Rightarrow> nat option" where
  "finite_limit fuel = (case fuel of Some f \<Rightarrow> if f \<noteq> u64_max then Some f else None | None \<Rightarrow> None)"

definition metering_new :: "nat option \<Rightarrow> metering_state" where
  "metering_new initial_fuel =
     \<lparr>limit = finite_limit initial_fuel, consumed = 0, epoch = 0, interrupted = False\<rparr>"

definition set_fuel :: "nat \<Rightarrow> metering_state \<Rightarrow> metering_state" where
  "set_fuel fuel m = m\<lparr>limit := finite_limit (Some fuel), epoch := (epoch m + 1) mod 2 ^ 64\<rparr>"

definition fuel_remaining :: "metering_state \<Rightarrow> nat option" where
  "fuel_remaining m = limit m"

definition fuel_consumed :: "metering_state \<Rightarrow> nat" where
  "fuel_consumed m = consumed m"

definition interrupt :: "metering_state \<Rightarrow> metering_state" where
  "interrupt m = m\<lparr>interrupted := True\<rparr>"

definition reset_interrupt :: "metering_state \<Rightarrow> metering_state" where
  "reset_interrupt m = m\<lparr>interrupted := False\<rparr>"

definition chunk_of :: "nat option \<Rightarrow> nat" where
  "chunk_of l = (case l of None \<Rightarrow> CHECKPOINT_CHUNK | Some l \<Rightarrow> min l CHECKPOINT_CHUNK)"

definition grant ::
  "nat \<Rightarrow> metering_state \<Rightarrow> (interrupt_reason + grant_info) \<times> metering_state" where
  "grant completed_reserved m =
     (let m1 = m\<lparr>consumed := sat_add (consumed m) completed_reserved\<rparr>;
          take = chunk_of (limit m1)
      in if take = 0 then (Inl FuelExhausted, m1)
         else if interrupted m1 then (Inl Cancelled, m1)
         else (Inr \<lparr>g_reserved = take, g_budget = take - 1, g_epoch = epoch m1\<rparr>,
               m1\<lparr>limit := map_option (\<lambda>l. l - take) (limit m1)\<rparr>))"

definition refill_checkpoint_budget ::
  "metering_state \<Rightarrow> meter_ctx \<Rightarrow> (interrupt_reason + unit) \<times> metering_state \<times> meter_ctx" where
  "refill_checkpoint_budget m c =
     (let c0 = c\<lparr>budget := 0, reserved := 0\<rparr>
      in case grant (reserved c) m of
           (Inl e, m') \<Rightarrow> (Inl e, m', c0)
         | (Inr g, m') \<Rightarrow>
             (Inr (), m', \<lparr>budget = g_budget g, reserved = g_reserved g, budget_epoch = g_epoch g\<rparr>))"

definition charge_n ::
  "nat \<Rightarrow> metering_state \<Rightarrow> meter_ctx \<Rightarrow> (interrupt_reason + unit) \<times> metering_state \<times> meter_ctx"
where
  "charge_n amount m c =
     (let additional = amount - budget c;
          slow = (if interrupted m then (Inl Cancelled, m, c)
            else let m1 = m\<lparr>consumed := sat_add (sat_add (consumed m) (reserved c)) additional,
                            limit := map_option (\<lambda>l. l - additional) (limit m)\<rparr>;
                     take = chunk_of (limit m1);
                     m2 = m1\<lparr>limit := map_option (\<lambda>l. l - take) (limit m1)\<rparr>
                 in (Inr (), m2, \<lparr>budget = take, reserved = take, budget_epoch = epoch m\<rparr>))
      in case limit m of
           Some l \<Rightarrow>
             if additional > l then
               (Inl FuelExhausted,
                m\<lparr>consumed := sat_add (sat_add (consumed m) (reserved c)) l, limit := Some 0\<rparr>,
                \<lparr>budget = 0, reserved = 0, budget_epoch = epoch m\<rparr>)
             else slow
         | None \<Rightarrow> slow)"

definition release :: "nat \<Rightarrow> nat \<Rightarrow> nat \<Rightarrow> metering_state \<Rightarrow> metering_state" where
  "release rsv bdg grant_epoch m =
     (let m1 = m\<lparr>consumed := sat_add (consumed m) (rsv - bdg)\<rparr>
      in if grant_epoch = epoch m1
         then m1\<lparr>limit := map_option (\<lambda>l. sat_add l bdg) (limit m1)\<rparr>
         else m1)"

section \<open>The checkpoints of the virtual machine\<close>

text \<open>\<open>vm_checkpoint\<close>: one unit, over the refill operation of a ledger and its interruption
  flag.  A store without metering runs with \<open>reserved = 0\<close> and a budget of \<open>u64::MAX\<close>,
  which the first branch serves.\<close>

definition vm_checkpoint ::
  "('m \<Rightarrow> meter_ctx \<Rightarrow> (interrupt_reason + unit) \<times> 'm \<times> meter_ctx) \<Rightarrow> ('m \<Rightarrow> bool) \<Rightarrow>
   'm \<Rightarrow> meter_ctx \<Rightarrow> (interrupt_reason + unit) \<times> 'm \<times> meter_ctx" where
  "vm_checkpoint refill is_interrupted m c =
     (if 1 \<le> budget c then
        if reserved c \<noteq> 0 \<and> is_interrupted m then (Inl Cancelled, m, c)
        else (Inr (), m, c\<lparr>budget := budget c - 1\<rparr>)
      else refill m c)"

text \<open>\<open>vm_checkpoint_n\<close> and the function \<open>charge_n\<close> of \<open>vm.rs\<close>: several units before a bulk
  operation.\<close>

definition vm_charge_n ::
  "(nat \<Rightarrow> 'm \<Rightarrow> meter_ctx \<Rightarrow> (interrupt_reason + unit) \<times> 'm \<times> meter_ctx) \<Rightarrow> ('m \<Rightarrow> bool) \<Rightarrow>
   nat \<Rightarrow> 'm \<Rightarrow> meter_ctx \<Rightarrow> (interrupt_reason + unit) \<times> 'm \<times> meter_ctx" where
  "vm_charge_n charge is_interrupted amount m c =
     (if amount = 0 then (Inr (), m, c)
      else if amount \<le> budget c then
        if reserved c = 0 then (Inr (), m, c\<lparr>budget := budget c - amount\<rparr>)
        else if is_interrupted m then (Inl Cancelled, m, c)
        else (Inr (), m, c\<lparr>budget := budget c - amount\<rparr>)
      else charge amount m c)"

text \<open>The scheduler starts a slice of a metered store with empty counters and hands the rest
  of the grant back when the slice ends.\<close>

definition slice_begin :: meter_ctx where
  "slice_begin = \<lparr>budget = 0, reserved = 0, budget_epoch = 0\<rparr>"

definition slice_end :: "metering_state \<Rightarrow> meter_ctx \<Rightarrow> metering_state \<times> meter_ctx" where
  "slice_end m c =
     (release (reserved c) (budget c) (budget_epoch c) m, c\<lparr>reserved := 0, budget := 0\<rparr>)"

section \<open>The contract between the checkpoints and the ledger\<close>

text \<open>\<open>avail m\<close> is the unreserved finite fuel of the ledger.  A refill or a bulk charge pays for
  every unit it lets run out of the ledger and the caller's budget together, and no outcome
  creates fuel.\<close>

definition units :: "nat \<Rightarrow> 'e + unit \<Rightarrow> nat" where
  "units n r = (case r of Inr _ \<Rightarrow> n | Inl _ \<Rightarrow> 0)"

lemma units_simps [simp]: "units n (Inr u) = n" "units n (Inl e) = 0"
  by (simp_all add: units_def)

locale fuel_ledger =
  fixes refill :: "'m \<Rightarrow> meter_ctx \<Rightarrow> (interrupt_reason + unit) \<times> 'm \<times> meter_ctx"
    and charge :: "nat \<Rightarrow> 'm \<Rightarrow> meter_ctx \<Rightarrow> (interrupt_reason + unit) \<times> 'm \<times> meter_ctx"
    and is_interrupted :: "'m \<Rightarrow> bool"
    and avail :: "'m \<Rightarrow> nat option"
  assumes refill_pays: "avail m = Some a \<Longrightarrow> budget c = 0 \<Longrightarrow> refill m c = (res, m', c') \<Longrightarrow>
      \<exists>a'. avail m' = Some a' \<and> units 1 res + a' + budget c' = a"
    and charge_pays: "avail m = Some a \<Longrightarrow> budget c < amount \<Longrightarrow> charge amount m c = (res, m', c') \<Longrightarrow>
      \<exists>a'. avail m' = Some a' \<and> units amount res + a' + budget c' \<le> a + budget c"
    and refill_interrupted: "is_interrupted m \<Longrightarrow> refill m c = (res, m', c') \<Longrightarrow> res \<noteq> Inr ()"
    and charge_interrupted: "is_interrupted m \<Longrightarrow> charge amount m c = (res, m', c') \<Longrightarrow> res \<noteq> Inr ()"
begin

lemma checkpoint_pays:
  assumes "avail m = Some a" "vm_checkpoint refill is_interrupted m c = (res, m', c')"
  shows "\<exists>a'. avail m' = Some a' \<and> units 1 res + a' + budget c' = a + budget c"
  using assms refill_pays [of m a c res m' c']
  by (auto simp: vm_checkpoint_def split: if_splits)

lemma bulk_pays:
  assumes "avail m = Some a" "vm_charge_n charge is_interrupted amount m c = (res, m', c')"
  shows "\<exists>a'. avail m' = Some a' \<and> units amount res + a' + budget c' \<le> a + budget c"
  using assms charge_pays [of m a c amount res m' c']
  by (auto simp: vm_charge_n_def split: if_splits)

lemma checkpoint_stops:
  assumes "is_interrupted m" "budget c \<le> reserved c"
    "vm_checkpoint refill is_interrupted m c = (res, m', c')"
  shows "res \<noteq> Inr ()"
  using assms refill_interrupted [of m c res m' c'] by (auto simp: vm_checkpoint_def split: if_splits)

lemma bulk_stops:
  assumes "is_interrupted m" "budget c \<le> reserved c" "0 < amount"
    "vm_charge_n charge is_interrupted amount m c = (res, m', c')"
  shows "res \<noteq> Inr ()"
  using assms charge_interrupted [of m amount c res m' c']
  by (auto simp: vm_charge_n_def split: if_splits)

end

lemmas ledger_defs = grant_def refill_checkpoint_budget_def charge_n_def chunk_of_def Let_def

interpretation ledger: fuel_ledger refill_checkpoint_budget charge_n interrupted limit
proof
  fix m a c res m' c'
  assume "limit m = Some a" "refill_checkpoint_budget m c = (res, m', c')"
  then show "\<exists>a'. limit m' = Some a' \<and> units 1 res + a' + budget c' = a"
    by (auto simp: ledger_defs CHECKPOINT_CHUNK_def min_def split: if_splits)
next
  fix m a c amount res m' c'
  assume "limit m = Some a" "budget c < amount" "charge_n amount m c = (res, m', c')"
  then show "\<exists>a'. limit m' = Some a' \<and> units amount res + a' + budget c' \<le> a + budget c"
    by (auto simp: ledger_defs split: if_splits)
next
  fix m c res m' c'
  assume "interrupted m" "refill_checkpoint_budget m c = (res, m', c')"
  then show "res \<noteq> Inr ()" by (auto simp: ledger_defs split: if_splits)
next
  fix m amount c res m' c'
  assume "interrupted m" "charge_n amount m c = (res, m', c')"
  then show "res \<noteq> Inr ()" by (auto simp: ledger_defs split: if_splits option.splits)
qed

section \<open>Interleavings of slices and a watchdog\<close>

datatype meter_event =
    EvBegin
  | EvCheckpoint nat
  | EvBulk nat nat
  | EvEnd nat
  | EvSetFuel nat
  | EvInterrupt
  | EvReset

record meter_sys =
  ledger :: metering_state
  slices :: "meter_ctx list"

definition on_slice ::
  "nat \<Rightarrow> nat \<Rightarrow> (metering_state \<Rightarrow> meter_ctx \<Rightarrow> (interrupt_reason + unit) \<times> metering_state \<times> meter_ctx) \<Rightarrow>
   meter_sys \<Rightarrow> nat \<times> meter_sys" where
  "on_slice i n f s =
     (if i < length (slices s) then
        (case f (ledger s) (slices s ! i) of
           (res, m', c') \<Rightarrow> (units n res, \<lparr>ledger = m', slices = (slices s)[i := c']\<rparr>))
      else (0, s))"

fun meter_exec :: "meter_event \<Rightarrow> meter_sys \<Rightarrow> nat \<times> meter_sys" where
  "meter_exec EvBegin s = (0, s\<lparr>slices := slices s @ [slice_begin]\<rparr>)"
| "meter_exec (EvCheckpoint i) s =
     on_slice i 1 (vm_checkpoint refill_checkpoint_budget interrupted) s"
| "meter_exec (EvBulk i n) s = on_slice i n (vm_charge_n charge_n interrupted n) s"
| "meter_exec (EvEnd i) s = on_slice i 0 (\<lambda>m c. (Inr (), slice_end m c)) s"
| "meter_exec (EvSetFuel n) s = (0, s\<lparr>ledger := set_fuel n (ledger s)\<rparr>)"
| "meter_exec EvInterrupt s = (0, s\<lparr>ledger := interrupt (ledger s)\<rparr>)"
| "meter_exec EvReset s = (0, s\<lparr>ledger := reset_interrupt (ledger s)\<rparr>)"

text \<open>A run adds up the units that were let through.\<close>

fun meter_run :: "meter_event list \<Rightarrow> meter_sys \<Rightarrow> nat \<times> meter_sys" where
  "meter_run [] s = (0, s)"
| "meter_run (e # es) s =
     (case meter_exec e s of (n, s') \<Rightarrow> case meter_run es s' of (k, s'') \<Rightarrow> (n + k, s''))"

inductive meter_reachable :: "nat option \<Rightarrow> meter_sys \<Rightarrow> bool" for fuel where
  start: "meter_reachable fuel \<lparr>ledger = metering_new fuel, slices = []\<rparr>"
| step: "meter_reachable fuel s \<Longrightarrow> meter_exec e s = (n, s') \<Longrightarrow> meter_reachable fuel s'"

section \<open>No run creates fuel\<close>

definition total :: "(meter_ctx \<Rightarrow> nat) \<Rightarrow> meter_sys \<Rightarrow> nat" where
  "total f s = sum_list (map f (slices s))"

lemma sum_list_map_update:
  fixes f :: "'a \<Rightarrow> nat"
  shows "i < length xs \<Longrightarrow> sum_list (map f (xs[i := c])) + f (xs ! i) = sum_list (map f xs) + f c"
proof (induction xs arbitrary: i)
  case (Cons x xs)
  then show ?case by (cases i) auto
qed simp

lemma total_update:
  assumes "i < length (slices s)"
  shows "total f \<lparr>ledger = m, slices = (slices s)[i := c]\<rparr> + f (slices s ! i) = total f s + f c"
  using sum_list_map_update [OF assms] by (simp add: total_def)

fun changes_limit :: "meter_event \<Rightarrow> bool" where
  "changes_limit (EvSetFuel n) = True"
| "changes_limit _ = False"

lemma slice_end_pays:
  assumes "limit m = Some a"
  shows "\<exists>a'. limit (fst (slice_end m c)) = Some a' \<and> a' + budget (snd (slice_end m c)) \<le> a + budget c"
  using assms by (auto simp: slice_end_def release_def Let_def sat_add_def)

lemma on_slice_pays:
  assumes "limit (ledger s) = Some a" "on_slice i n f s = (k, s')"
    and "\<And>c res m' c'. f (ledger s) c = (res, m', c') \<Longrightarrow>
       \<exists>a'. limit m' = Some a' \<and> units n res + a' + budget c' \<le> a + budget c"
  shows "\<exists>a'. limit (ledger s') = Some a' \<and> k + a' + total budget s' \<le> a + total budget s"
proof (cases "i < length (slices s)")
  case True
  obtain res m' c' where f: "f (ledger s) (slices s ! i) = (res, m', c')" by (cases "f (ledger s) (slices s ! i)") auto
  with True assms(2) have s': "s' = \<lparr>ledger = m', slices = (slices s)[i := c']\<rparr>" "k = units n res"
    by (auto simp: on_slice_def)
  from assms(3) [OF f] total_update [OF True, of budget m' c'] s' show ?thesis by auto
qed (use assms in \<open>auto simp: on_slice_def\<close>)

lemma meter_exec_pays:
  assumes "limit (ledger s) = Some a" "meter_exec e s = (n, s')" "\<not> changes_limit e"
  shows "\<exists>a'. limit (ledger s') = Some a' \<and> n + a' + total budget s' \<le> a + total budget s"
proof (cases e)
  case (EvCheckpoint i)
  with assms show ?thesis
    by (auto intro!: on_slice_pays dest: ledger.checkpoint_pays)
next
  case (EvBulk i k)
  with assms show ?thesis by (auto intro!: on_slice_pays dest: ledger.bulk_pays)
next
  case (EvEnd i)
  with assms slice_end_pays [OF assms(1)] show ?thesis
    by (auto intro!: on_slice_pays) (metis fst_conv snd_conv)
qed (use assms in \<open>auto simp: total_def slice_begin_def interrupt_def reset_interrupt_def\<close>)

lemma metered_run_bounded_aux:
  assumes "limit (ledger s) = Some a" "meter_run es s = (n, s')" "\<forall>e \<in> set es. \<not> changes_limit e"
  shows "\<exists>a'. limit (ledger s') = Some a' \<and> n + a' + total budget s' \<le> a + total budget s"
  using assms
proof (induction es arbitrary: s a n)
  case (Cons e es)
  obtain k t where k: "meter_exec e s = (k, t)" by (cases "meter_exec e s")
  with Cons.prems obtain j where j: "meter_run es t = (j, s')" "n = k + j"
    by (auto split: prod.splits)
  from meter_exec_pays [OF Cons.prems(1) k] Cons.prems(3) obtain b where
    b: "limit (ledger t) = Some b" "k + b + total budget t \<le> a + total budget s" by auto
  from Cons.IH [OF b(1) j(1)] Cons.prems(3) obtain a' where
    "limit (ledger s') = Some a'" "j + a' + total budget s' \<le> b + total budget t" by auto
  with b j show ?case by auto
qed simp

text \<open>C23: over any interleaving of slices, bulk charges, refunds and interruptions in which
  nobody replaces the limit, the units that were let through, the unreserved fuel left and the
  budgets still held by slices together never exceed the fuel and the budgets at the start: no
  refill, refund or failed charge creates fuel, and no unit runs unpaid.\<close>

theorem metered_run_bounded:
  assumes "limit (ledger s) = Some a" "meter_run es s = (n, s')" "\<forall>e \<in> set es. \<not> changes_limit e"
  shows "\<exists>a'. limit (ledger s') = Some a' \<and> n + a' + total budget s' \<le> a + total budget s"
  using assms by (rule metered_run_bounded_aux)

theorem metered_run_bounded_witness:
  "\<exists>a'. limit (ledger (snd (meter_run [EvBegin, EvCheckpoint 0, EvBulk 0 2, EvEnd 0]
       \<lparr>ledger = metering_new (Some 5), slices = []\<rparr>))) = Some a' \<and>
     3 + a' + total budget (snd (meter_run [EvBegin, EvCheckpoint 0, EvBulk 0 2, EvEnd 0]
       \<lparr>ledger = metering_new (Some 5), slices = []\<rparr>)) \<le> 5 + 0"
proof -
  let ?s = "\<lparr>ledger = metering_new (Some 5), slices = []\<rparr>"
  let ?es = "[EvBegin, EvCheckpoint 0, EvBulk 0 2, EvEnd 0]"
  have l: "limit (ledger ?s) = Some 5"
    by (simp add: metering_new_def finite_limit_def u64_max_def)
  have n: "fst (meter_run ?es ?s) = 3"
    by (simp add: metering_new_def finite_limit_def u64_max_def on_slice_def vm_checkpoint_def
        vm_charge_n_def ledger_defs CHECKPOINT_CHUNK_def slice_begin_def slice_end_def)
  have "meter_run ?es ?s = (3, snd (meter_run ?es ?s))" using n by (metis prod.collapse)
  from metered_run_bounded [OF l this] show ?thesis by (simp add: total_def)
qed

section \<open>Conservation\<close>

definition ctx_ok :: "meter_ctx \<Rightarrow> bool" where
  "ctx_ok c \<longleftrightarrow> budget c \<le> reserved c \<and> reserved c \<le> CHECKPOINT_CHUNK"

definition slices_ok :: "meter_sys \<Rightarrow> bool" where
  "slices_ok s \<longleftrightarrow> (\<forall>c \<in> set (slices s). ctx_ok c)"

lemma checkpoint_ctx_ok:
  "vm_checkpoint refill_checkpoint_budget interrupted m c = (res, m', c') \<Longrightarrow> ctx_ok c \<Longrightarrow> ctx_ok c'"
  by (auto simp: vm_checkpoint_def ledger_defs ctx_ok_def split: if_splits option.splits)

lemma bulk_ctx_ok:
  "vm_charge_n charge_n interrupted n m c = (res, m', c') \<Longrightarrow> ctx_ok c \<Longrightarrow> ctx_ok c'"
  by (auto simp: vm_charge_n_def ledger_defs ctx_ok_def split: if_splits option.splits)

lemma on_slice_ok:
  assumes "slices_ok s" "on_slice i n f s = (k, s')"
    and "\<And>c res m' c'. f (ledger s) c = (res, m', c') \<Longrightarrow> ctx_ok c \<Longrightarrow> ctx_ok c'"
  shows "slices_ok s'"
  using assms(1,2) assms(3) [of "slices s ! i"] set_update_subset_insert [of "slices s" i]
  by (fastforce simp: on_slice_def slices_ok_def split: if_splits prod.splits)

lemma meter_exec_ok:
  assumes "slices_ok s" "meter_exec e s = (n, s')"
  shows "slices_ok s'"
proof (cases e)
  case (EvCheckpoint i)
  with assms show ?thesis by (auto intro: on_slice_ok checkpoint_ctx_ok)
next
  case (EvBulk i k)
  with assms show ?thesis by (auto intro: on_slice_ok bulk_ctx_ok)
next
  case (EvEnd i)
  show ?thesis
    by (rule on_slice_ok [OF assms(1), of i 0 "\<lambda>m c. (Inr (), slice_end m c)"])
      (use assms EvEnd in \<open>auto simp: slice_end_def ctx_ok_def\<close>)
qed (use assms in \<open>auto simp: slices_ok_def slice_begin_def ctx_ok_def\<close>)

lemma meter_reachable_ok: "meter_reachable fuel s \<Longrightarrow> slices_ok s"
proof (induction rule: meter_reachable.induct)
  case (step s e n s')
  then show ?case by (auto dest: meter_exec_ok)
qed (simp add: slices_ok_def)

lemma meter_run_ok: "slices_ok s \<Longrightarrow> meter_run es s = (n, s') \<Longrightarrow> slices_ok s'"
proof (induction es arbitrary: s n)
  case (Cons e es)
  then show ?case by (auto split: prod.splits dest: meter_exec_ok)
qed simp

text \<open>What a slice has spent of its reservation but not yet published.\<close>

definition spent :: "meter_ctx \<Rightarrow> nat" where "spent c = reserved c - budget c"

text \<open>The balance sheet of a ledger that never had its limit replaced: every unit of the initial
  fuel is unreserved, reserved by a slice, or recorded as consumed; and the units that done_units are
  covered by what is recorded and what is spent but unpublished.\<close>

definition balanced :: "nat \<Rightarrow> nat \<Rightarrow> meter_sys \<Rightarrow> bool" where
  "balanced fuel done_units s \<longleftrightarrow>
     (\<exists>l. limit (ledger s) = Some l \<and> l + consumed (ledger s) + total reserved s = fuel) \<and>
     done_units \<le> consumed (ledger s) + total spent s \<and>
     (\<forall>c \<in> set (slices s). budget_epoch c = epoch (ledger s) \<or> reserved c = 0)"

lemma total_ge: "i < length (slices s) \<Longrightarrow> f (slices s ! i) \<le> total f s"
  unfolding total_def by (rule member_le_sum_list) simp_all

text \<open>One operation on one slice, from its local books to the global ones.\<close>

lemma on_slice_balanced:
  assumes "balanced fuel done_units s" "fuel < u64_max" "slices_ok s" "on_slice i n f s = (k, s')"
    and step: "\<And>l c res m' c'. limit (ledger s) = Some l \<Longrightarrow> ctx_ok c \<Longrightarrow>
       budget_epoch c = epoch (ledger s) \<or> reserved c = 0 \<Longrightarrow>
       l + consumed (ledger s) + reserved c < u64_max \<Longrightarrow>
       f (ledger s) c = (res, m', c') \<Longrightarrow>
       (\<exists>l'. limit m' = Some l' \<and>
          l' + consumed m' + reserved c' = l + consumed (ledger s) + reserved c) \<and>
       consumed (ledger s) + spent c + units n res \<le> consumed m' + spent c' \<and>
       epoch m' = epoch (ledger s) \<and> (budget_epoch c' = epoch m' \<or> reserved c' = 0)"
  shows "balanced fuel (done_units + k) s'"
proof (cases "i < length (slices s)")
  case True
  let ?c = "slices s ! i"
  obtain res m' c' where f: "f (ledger s) ?c = (res, m', c')" by (cases "f (ledger s) ?c") auto
  with True assms(4) have s': "s' = \<lparr>ledger = m', slices = (slices s)[i := c']\<rparr>" "k = units n res"
    by (auto simp: on_slice_def)
  have c: "?c \<in> set (slices s)" using True by simp
  from assms(1) obtain l where l: "limit (ledger s) = Some l"
    "l + consumed (ledger s) + total reserved s = fuel" by (auto simp: balanced_def)
  have lt: "l + consumed (ledger s) + reserved ?c < u64_max"
    using l(2) total_ge [OF True, of reserved] assms(2) by simp
  have ok: "ctx_ok ?c" "budget_epoch ?c = epoch (ledger s) \<or> reserved ?c = 0"
    using assms(1,3) c by (auto simp: slices_ok_def balanced_def)
  have st: "(\<exists>l'. limit m' = Some l' \<and>
        l' + consumed m' + reserved c' = l + consumed (ledger s) + reserved ?c) \<and>
      consumed (ledger s) + spent ?c + units n res \<le> consumed m' + spent c' \<and>
      epoch m' = epoch (ledger s) \<and> (budget_epoch c' = epoch m' \<or> reserved c' = 0)"
    by (rule step [OF l(1) ok lt f])
  have "\<forall>c \<in> set (slices s'). budget_epoch c = epoch (ledger s') \<or> reserved c = 0"
  proof
    fix d assume "d \<in> set (slices s')"
    with s'(1) have "d = c' \<or> d \<in> set (slices s)"
      by (auto dest: set_update_subset_insert [THEN subsetD])
    with st assms(1) s'(1) show "budget_epoch d = epoch (ledger s') \<or> reserved d = 0"
      by (auto simp: balanced_def)
  qed
  with st l assms(1) s' total_update [OF True, of reserved m' c'] total_update [OF True, of spent m' c']
  show ?thesis by (auto simp: balanced_def)
qed (use assms in \<open>auto simp: on_slice_def\<close>)

lemma sat_add_exact: "a + b \<le> u64_max \<Longrightarrow> sat_add a b = a + b"
  by (simp add: sat_add_def)

lemma meter_exec_balanced:
  assumes "balanced fuel done_units s" "fuel < u64_max" "slices_ok s" "meter_exec e s = (n, s')"
    and "\<not> changes_limit e"
  shows "balanced fuel (done_units + n) s'"
proof (cases e)
  case (EvCheckpoint i)
  with assms(4) have ev: "on_slice i 1 (vm_checkpoint refill_checkpoint_budget interrupted) s = (n, s')"
    by simp
  show ?thesis
    by (rule on_slice_balanced [OF assms(1-3) ev])
      (auto simp: vm_checkpoint_def ledger_defs ctx_ok_def spent_def sat_add_exact CHECKPOINT_CHUNK_def
        min_def split: if_splits)
next
  case (EvBulk i k)
  with assms(4) have ev: "on_slice i k (vm_charge_n charge_n interrupted k) s = (n, s')" by simp
  show ?thesis
    by (rule on_slice_balanced [OF assms(1-3) ev])
      (auto simp: vm_charge_n_def ledger_defs ctx_ok_def spent_def sat_add_exact split: if_splits)
next
  case (EvEnd i)
  with assms(4) have ev: "on_slice i 0 (\<lambda>m c. (Inr (), slice_end m c)) s = (n, s')" by simp
  show ?thesis
    by (rule on_slice_balanced [OF assms(1-3) ev])
      (auto simp: slice_end_def release_def Let_def ctx_ok_def spent_def sat_add_exact split: if_splits)
qed (use assms in \<open>auto simp: balanced_def total_def slice_begin_def spent_def interrupt_def reset_interrupt_def\<close>)

lemma meter_run_balanced:
  assumes "balanced fuel done_units s" "fuel < u64_max" "slices_ok s" "meter_run es s = (n, s')"
    and "\<forall>e \<in> set es. \<not> changes_limit e"
  shows "balanced fuel (done_units + n) s'"
  using assms
proof (induction es arbitrary: s done_units n)
  case (Cons e es)
  obtain k t where k: "meter_exec e s = (k, t)" by (cases "meter_exec e s")
  with Cons.prems obtain j where j: "meter_run es t = (j, s')" "n = k + j"
    by (auto split: prod.splits)
  have "balanced fuel (done_units + k) t"
    using meter_exec_balanced [OF Cons.prems(1-3) k] Cons.prems(5) by simp
  moreover have "slices_ok t" by (rule meter_exec_ok [OF Cons.prems(3) k])
  ultimately have "balanced fuel (done_units + k + j) s'"
    using Cons.IH [OF _ Cons.prems(2) _ j(1)] Cons.prems(5) by simp
  with j show ?case by (simp add: add.assoc)
qed simp

lemma balanced_start:
  assumes "fuel < u64_max"
  shows "balanced fuel 0 \<lparr>ledger = metering_new (Some fuel), slices = []\<rparr>"
  using assms by (simp add: balanced_def metering_new_def finite_limit_def total_def)

text \<open>C27: as long as the limit is not replaced, fuel is conserved: at every point of every
  interleaving the unreserved fuel, the consumed fuel and the reservations of the running slices
  add up to the initial fuel, and the units let through so far are at most the consumed fuel plus
  what running slices have spent of their reservations.  In an idle store the readings of
  \<open>fuel_remaining\<close> and \<open>fuel_consumed\<close> therefore add up to the initial fuel.\<close>

theorem fuel_conserved:
  assumes "fuel < u64_max" "\<forall>e \<in> set es. \<not> changes_limit e"
    and "meter_run es \<lparr>ledger = metering_new (Some fuel), slices = []\<rparr> = (n, s)"
  shows "\<exists>l. fuel_remaining (ledger s) = Some l \<and>
      l + fuel_consumed (ledger s) + total reserved s = fuel \<and>
      n \<le> fuel_consumed (ledger s) + total spent s"
proof -
  have "slices_ok \<lparr>ledger = metering_new (Some fuel), slices = []\<rparr>" by (simp add: slices_ok_def)
  from meter_run_balanced [OF balanced_start [OF assms(1)] assms(1) this assms(3,2)]
  show ?thesis by (auto simp: balanced_def fuel_remaining_def fuel_consumed_def)
qed

theorem fuel_conserved_witness:
  "fuel_remaining (ledger (snd (meter_run [EvBegin, EvCheckpoint 0, EvEnd 0]
     \<lparr>ledger = metering_new (Some 5), slices = []\<rparr>))) = Some 4 \<and>
   4 + fuel_consumed (ledger (snd (meter_run [EvBegin, EvCheckpoint 0, EvEnd 0]
     \<lparr>ledger = metering_new (Some 5), slices = []\<rparr>))) = 5"
proof -
  have run: "meter_run [EvBegin, EvCheckpoint 0, EvEnd 0]
      \<lparr>ledger = metering_new (Some 5), slices = []\<rparr> =
      (1, \<lparr>ledger = \<lparr>limit = Some 4, consumed = 1, epoch = 0, interrupted = False\<rparr>,
           slices = [slice_begin]\<rparr>)"
    by (simp add: metering_new_def finite_limit_def u64_max_def on_slice_def vm_checkpoint_def
        ledger_defs CHECKPOINT_CHUNK_def slice_begin_def slice_end_def release_def sat_add_def)
  have "(5 :: nat) < u64_max" by (simp add: u64_max_def)
  from fuel_conserved [OF this _ run] run show ?thesis
    by (simp add: fuel_remaining_def total_def slice_begin_def)
qed

section \<open>Cancellation\<close>

lemma on_slice_stopped:
  assumes "slices_ok s" "on_slice i k f s = (n, s')"
    and "\<And>c res m' c'. ctx_ok c \<Longrightarrow> f (ledger s) c = (res, m', c') \<Longrightarrow> units k res = 0"
  shows "n = 0"
proof (cases "i < length (slices s)")
  case True
  then have "ctx_ok (slices s ! i)" using assms(1) by (simp add: slices_ok_def)
  moreover obtain res m' c' where "f (ledger s) (slices s ! i) = (res, m', c')"
    by (cases "f (ledger s) (slices s ! i)") auto
  ultimately show ?thesis using assms(2,3) True by (fastforce simp: on_slice_def)
qed (use assms in \<open>simp add: on_slice_def\<close>)

lemma meter_exec_interrupted:
  assumes "slices_ok s" "interrupted (ledger s)" "meter_exec e s = (n, s')"
  shows "n = 0"
proof (cases e)
  case (EvCheckpoint i)
  with assms(3) have "on_slice i 1 (vm_checkpoint refill_checkpoint_budget interrupted) s = (n, s')"
    by simp
  then show ?thesis
  proof (rule on_slice_stopped [OF assms(1)])
    fix c res m' c'
    assume "ctx_ok c" "vm_checkpoint refill_checkpoint_budget interrupted (ledger s) c = (res, m', c')"
    with ledger.checkpoint_stops [OF assms(2), of c res m' c'] show "units 1 res = 0"
      by (cases res) (auto simp: ctx_ok_def)
  qed
next
  case (EvBulk i k)
  with assms(3) have "on_slice i k (vm_charge_n charge_n interrupted k) s = (n, s')" by simp
  then show ?thesis
  proof (rule on_slice_stopped [OF assms(1)])
    fix c res m' c'
    assume "ctx_ok c" "vm_charge_n charge_n interrupted k (ledger s) c = (res, m', c')"
    with ledger.bulk_stops [OF assms(2), of c k res m' c'] show "units k res = 0"
      by (cases res; cases "k = 0") (auto simp: ctx_ok_def)
  qed
next
  case (EvEnd i)
  with assms(3) have "on_slice i 0 (\<lambda>m c. (Inr (), slice_end m c)) s = (n, s')" by simp
  then show ?thesis by (rule on_slice_stopped [OF assms(1)]) auto
qed (use assms in auto)

lemma grant_interrupted: "interrupted (snd (grant k m)) = interrupted m"
  by (simp add: grant_def Let_def)

lemma refill_keeps_flag:
  "refill_checkpoint_budget m c = (res, m', c') \<Longrightarrow> interrupted m' = interrupted m"
  using grant_interrupted [of "reserved c" m]
  by (auto simp: refill_checkpoint_budget_def Let_def split: prod.splits sum.splits)

lemma charge_keeps_flag: "charge_n k m c = (res, m', c') \<Longrightarrow> interrupted m' = interrupted m"
  by (auto simp: charge_n_def Let_def split: option.splits if_splits)

lemma meter_exec_keeps_flag:
  assumes "interrupted (ledger s)" "meter_exec e s = (n, s')" "e \<noteq> EvReset"
  shows "interrupted (ledger s')"
  using assms
  by (cases e) (auto simp: on_slice_def vm_checkpoint_def vm_charge_n_def slice_end_def release_def
      Let_def set_fuel_def interrupt_def dest: refill_keeps_flag charge_keeps_flag
      split: if_splits prod.splits)

text \<open>C28: cancellation is prompt: once \<open>interrupt\<close> has been called on a store, no checkpoint and
  no bulk charge of any slice, running or started later, lets a further unit through, until
  \<open>reset_interrupt\<close> is called, whatever fuel is left or set.\<close>

theorem interrupt_stops_execution:
  assumes "meter_reachable fuel s" "interrupted (ledger s)" "EvReset \<notin> set es"
    and "meter_run es s = (n, s')"
  shows "n = 0"
proof -
  from assms(1) have "slices_ok s" by (rule meter_reachable_ok)
  from this assms(2-) show ?thesis
  proof (induction es arbitrary: s n)
    case (Cons e es)
    obtain k t where k: "meter_exec e s = (k, t)" by (cases "meter_exec e s")
    with Cons.prems obtain j where j: "meter_run es t = (j, s')" "n = k + j"
      by (auto split: prod.splits)
    have "k = 0" by (rule meter_exec_interrupted [OF Cons.prems(1,2) k])
    moreover have "slices_ok t" by (rule meter_exec_ok [OF Cons.prems(1) k])
    moreover have "interrupted (ledger t)"
      using meter_exec_keeps_flag [OF Cons.prems(2) k] Cons.prems(3) by auto
    ultimately show ?case using Cons.IH [OF _ _ _ j(1)] Cons.prems(3) j(2) by simp
  qed simp
qed

theorem interrupt_stops_execution_witness:
  "fst (meter_run [EvBegin, EvCheckpoint 0, EvBulk 0 3]
     \<lparr>ledger = interrupt (metering_new (Some 5)), slices = []\<rparr>) = 0"
proof -
  let ?s = "\<lparr>ledger = interrupt (metering_new (Some 5)), slices = []\<rparr>"
  have "meter_reachable (Some 5) \<lparr>ledger = metering_new (Some 5), slices = []\<rparr>"
    by (rule meter_reachable.start)
  then have r: "meter_reachable (Some 5) ?s"
    by (rule meter_reachable.step [where e = EvInterrupt and n = 0]) simp
  obtain n s' where run: "meter_run [EvBegin, EvCheckpoint 0, EvBulk 0 3] ?s = (n, s')"
    by (cases "meter_run [EvBegin, EvCheckpoint 0, EvBulk 0 3] ?s")
  from interrupt_stops_execution [OF r _ _ run] run show ?thesis by (simp add: interrupt_def)
qed

section \<open>Replacing the limit\<close>

lemma ctx_ok_sum_list:
  "\<forall>c \<in> set cs. ctx_ok c \<Longrightarrow> sum_list (map budget cs) \<le> length cs * CHECKPOINT_CHUNK"
  by (induction cs) (auto simp: ctx_ok_def)

lemma slices_ok_total: "slices_ok s \<Longrightarrow> total budget s \<le> length (slices s) * CHECKPOINT_CHUNK"
  using ctx_ok_sum_list [of "slices s"] by (simp add: slices_ok_def total_def)

text \<open>After \<open>set_fuel\<close> with a finite limit the guest runs at most that many further units
  plus one chunk for every slice in flight, whatever happens later short of another
  \<open>set_fuel\<close>.\<close>

theorem set_fuel_bounds_execution:
  assumes "meter_reachable fuel s" "f < u64_max" "\<forall>e \<in> set es. \<not> changes_limit e"
    and "meter_run (EvSetFuel f # es) s = (n, s')"
  shows "n \<le> f + length (slices s) * CHECKPOINT_CHUNK"
proof -
  let ?t = "s\<lparr>ledger := set_fuel f (ledger s)\<rparr>"
  from assms(4) have run: "meter_run es ?t = (n, s')" by (auto split: prod.splits)
  have l: "limit (ledger ?t) = Some f" using assms(2) by (simp add: set_fuel_def finite_limit_def)
  from metered_run_bounded_aux [OF l run assms(3)] have "n \<le> f + total budget s"
    by (auto simp: total_def)
  with slices_ok_total [OF meter_reachable_ok [OF assms(1)]] show ?thesis by simp
qed

theorem set_fuel_bounds_execution_witness:
  "fst (meter_run [EvSetFuel 2, EvBegin, EvCheckpoint 0]
     \<lparr>ledger = metering_new None, slices = []\<rparr>) \<le> 2 + 0 * CHECKPOINT_CHUNK"
proof -
  let ?s = "\<lparr>ledger = metering_new None, slices = []\<rparr>"
  have r: "meter_reachable None ?s" by (rule meter_reachable.start)
  have f: "2 < u64_max" by (simp add: u64_max_def)
  obtain n s' where run: "meter_run [EvSetFuel 2, EvBegin, EvCheckpoint 0] ?s = (n, s')"
    by (cases "meter_run [EvSetFuel 2, EvBegin, EvCheckpoint 0] ?s")
  from set_fuel_bounds_execution [OF r f _ run] run show ?thesis by simp
qed

text \<open>A budget of \<open>k\<close> units pays for \<open>k\<close> checkpoints without a look at the ledger.\<close>

lemma checkpoints_in_budget:
  assumes "slices s = [c]" "k \<le> budget c" "\<not> interrupted (ledger s)"
  shows "meter_run (replicate k (EvCheckpoint 0)) s =
    (k, s\<lparr>slices := [c\<lparr>budget := budget c - k\<rparr>]\<rparr>)"
  using assms
proof (induction k arbitrary: s c)
  case (Suc k)
  let ?c = "c\<lparr>budget := budget c - 1\<rparr>"
  let ?t = "s\<lparr>slices := [?c]\<rparr>"
  have "meter_exec (EvCheckpoint 0) s = (1, ?t)"
    using Suc.prems by (simp add: on_slice_def vm_checkpoint_def)
  moreover have "meter_run (replicate k (EvCheckpoint 0)) ?t =
      (k, ?t\<lparr>slices := [?c\<lparr>budget := budget ?c - k\<rparr>]\<rparr>)"
    using Suc.prems by (intro Suc.IH) auto
  ultimately show ?case by simp
qed simp

text \<open>The documented bound of \<open>set_fuel\<close>, one unit less than a chunk over the new limit, is
  too tight by one: a bulk charge reserves a whole chunk and leaves all of it as budget, so after
  it a \<open>set_fuel 0\<close> still lets a single slice run 4096 units, not 4095.\<close>

theorem set_fuel_documented_bound_exceeded:
  "fst (meter_run ([EvSetFuel 0] @ replicate CHECKPOINT_CHUNK (EvCheckpoint 0))
     (snd (meter_run [EvBegin, EvBulk 0 1] \<lparr>ledger = metering_new (Some 10000), slices = []\<rparr>))) =
   0 + CHECKPOINT_CHUNK"
proof -
  let ?c = "\<lparr>budget = CHECKPOINT_CHUNK, reserved = CHECKPOINT_CHUNK, budget_epoch = 0\<rparr>"
  let ?m = "\<lparr>limit = Some 5903, consumed = 1, epoch = 0, interrupted = False\<rparr>"
  have "meter_run [EvBegin, EvBulk 0 1] \<lparr>ledger = metering_new (Some 10000), slices = []\<rparr> =
      (1, \<lparr>ledger = ?m, slices = [?c]\<rparr>)"
    by (simp add: metering_new_def finite_limit_def u64_max_def on_slice_def vm_charge_n_def
        ledger_defs CHECKPOINT_CHUNK_def slice_begin_def sat_add_def)
  moreover have "meter_run (replicate CHECKPOINT_CHUNK (EvCheckpoint 0))
      \<lparr>ledger = set_fuel 0 ?m, slices = [?c]\<rparr> =
      (CHECKPOINT_CHUNK, \<lparr>ledger = set_fuel 0 ?m, slices = [?c\<lparr>budget := 0\<rparr>]\<rparr>)"
    by (subst checkpoints_in_budget [where c = ?c]) (auto simp: set_fuel_def)
  ultimately show ?thesis by simp
qed

section \<open>Fuel runs out\<close>

lemma meter_run_append:
  "meter_run (es @ fs) s = (case meter_run es s of (n, t) \<Rightarrow> case meter_run fs t of (k, u) \<Rightarrow> (n + k, u))"
  by (induction es arbitrary: s) (auto split: prod.splits)

text \<open>An endless schedule: the units that its first events let through and the state after them.\<close>

definition units_upto :: "(nat \<Rightarrow> meter_event) \<Rightarrow> meter_sys \<Rightarrow> nat \<Rightarrow> nat" where
  "units_upto ev s k = fst (meter_run (map ev [0..<k]) s)"

definition state_at :: "(nat \<Rightarrow> meter_event) \<Rightarrow> meter_sys \<Rightarrow> nat \<Rightarrow> meter_sys" where
  "state_at ev s k = snd (meter_run (map ev [0..<k]) s)"

fun asks :: "meter_event \<Rightarrow> meter_sys \<Rightarrow> bool" where
  "asks (EvCheckpoint i) s = (i < length (slices s))"
| "asks (EvBulk i n) s = (i < length (slices s) \<and> 0 < n)"
| "asks _ s = False"

lemma units_upto_Suc: "units_upto ev s (Suc k) = units_upto ev s k + fst (meter_exec (ev k) (state_at ev s k))"
  by (simp add: units_upto_def state_at_def meter_run_append split: prod.splits)

lemma units_upto_mono: "k \<le> j \<Longrightarrow> units_upto ev s k \<le> units_upto ev s j"
  by (rule lift_Suc_mono_le [of "units_upto ev s"]) (simp_all add: units_upto_Suc)

lemma units_upto_bounded:
  assumes "limit (ledger s) = Some a" "\<And>k. \<not> changes_limit (ev k)"
  shows "units_upto ev s k \<le> a + total budget s"
proof -
  have "meter_run (map ev [0..<k]) s = (units_upto ev s k, state_at ev s k)" by (simp add: units_upto_def state_at_def)
  from metered_run_bounded_aux [OF assms(1) this] assms(2) show ?thesis by auto
qed

lemma passing_grows:
  assumes "\<And>j. k \<le> j \<Longrightarrow> asks (ev j) (state_at ev s j) \<Longrightarrow> 0 < fst (meter_exec (ev j) (state_at ev s j))"
    and "\<And>k. \<exists>j \<ge> k. asks (ev j) (state_at ev s j)"
  shows "\<exists>j \<ge> k. n \<le> units_upto ev s j"
proof (induction n)
  case (Suc n)
  then obtain j where j: "k \<le> j" "n \<le> units_upto ev s j" by blast
  obtain i where i: "j \<le> i" "asks (ev i) (state_at ev s i)" using assms(2) by blast
  have "Suc n \<le> units_upto ev s (Suc i)"
    using assms(1) [of i] i j units_upto_mono [OF i(1), of ev s] by (simp add: units_upto_Suc)
  then show ?case using i(1) j(1) by (intro exI [of _ "Suc i"]) simp
qed auto

text \<open>C35: Metered execution cannot go on for ever.  On an endless schedule of a store with a finite limit
  that nobody replaces, in which slices keep asking for units at checkpoints or for bulk
  operations, requests are refused again and again: the guest is always stopped in the end.\<close>

theorem fuel_runs_out:
  assumes "limit (ledger s) = Some a" "\<And>k. \<not> changes_limit (ev k)" "\<And>k. \<exists>j \<ge> k. asks (ev j) (state_at ev s j)"
  shows "\<exists>j \<ge> k. asks (ev j) (state_at ev s j) \<and> fst (meter_exec (ev j) (state_at ev s j)) = 0"
proof (rule ccontr)
  assume no: "\<not> ?thesis"
  have "0 < fst (meter_exec (ev j) (state_at ev s j))" if "k \<le> j" "asks (ev j) (state_at ev s j)" for j
  proof (rule gr0I)
    assume "fst (meter_exec (ev j) (state_at ev s j)) = 0"
    with no that show False by iprover
  qed
  from passing_grows [OF this assms(3), of k "Suc (a + total budget s)"] obtain j where
    "Suc (a + total budget s) \<le> units_upto ev s j" by blast
  with units_upto_bounded [where ev = ev and k = j, OF assms(1,2)] show False by simp
qed

text \<open>One slice that passes a checkpoint for ever.\<close>

lemma one_slice: "length (slices (state_at (\<lambda>k. if k = 0 then EvBegin else EvCheckpoint 0) s (Suc k))) = Suc (length (slices s))"
proof (induction k)
  case 0
  show ?case by (simp add: state_at_def)
next
  case (Suc k)
  let ?ev = "\<lambda>k. if k = 0 then EvBegin else EvCheckpoint 0 :: meter_event"
  have "state_at ?ev s (Suc (Suc k)) = snd (meter_exec (EvCheckpoint 0) (state_at ?ev s (Suc k)))"
    by (simp add: state_at_def meter_run_append split: prod.splits)
  then show ?case using Suc by (simp add: on_slice_def split: prod.splits)
qed

theorem fuel_runs_out_witness:
  "let ev = (\<lambda>k. if k = 0 then EvBegin else EvCheckpoint 0); s = \<lparr>ledger = metering_new (Some 5), slices = []\<rparr>
   in \<exists>j \<ge> 7. fst (meter_exec (ev j) (state_at ev s j)) = 0"
proof -
  let ?ev = "\<lambda>k. if k = 0 then EvBegin else EvCheckpoint 0 :: meter_event"
  let ?s = "\<lparr>ledger = metering_new (Some 5), slices = []\<rparr>"
  have l: "limit (ledger ?s) = Some 5" by (simp add: metering_new_def finite_limit_def u64_max_def)
  have a: "\<exists>j \<ge> k. asks (?ev j) (state_at ?ev ?s j)" for k
    using one_slice [of ?s k] by (intro exI [of _ "Suc k"]) (simp del: meter_run.simps)
  have "\<exists>j \<ge> 7. asks (?ev j) (state_at ?ev ?s j) \<and> fst (meter_exec (?ev j) (state_at ?ev ?s j)) = 0"
    by (rule fuel_runs_out [OF l _ a]) simp
  then show ?thesis unfolding Let_def by iprover
qed

end
