(* ===== verification/Component_Types.thy ===== *)
theory Component_Types
  imports Binary_Reader
begin

text \<open>
  The data of the Component Model runtime: values (\<open>telomere-component/src/value.rs\<close>), core
  values (\<open>WasmValue\<close>), the type store (\<open>ir/types.rs\<close> and below), the layout metadata and the
  compiled program (\<open>program.rs\<close>), and errors (\<open>error.rs\<close>).  Integers of either sign are words;
  a float is its bit pattern, since the code modelled here only moves floats; a \<open>char\<close> is a
  32-bit word that is a Unicode scalar value and a \<open>String\<close> the list of its characters.  Type
  identifiers are indices into the program's dense type store.  The build modelled is the default
  one: the type \<open>error-context\<close> exists only under a feature that is off.
\<close>

section \<open>Errors\<close>

text \<open>The last constructor is no value of the source's error type: it is the abort of the
  process when a recursion over a cyclic type graph exhausts the native stack, which a model
  with bounded recursion depth has to distinguish.\<close>

datatype component_error =
    NestingTooDeep u32
  | Decode string
  | Validation string
  | Link string
  | Runtime string
  | Trap string
  | Unsupported string
  | ExportNotFound string
  | InvalidArgument string
  | StackOverflow

section \<open>Core types and values\<close>

datatype wasm_value =
    WI32 u32
  | WI64 u64
  | WF32 u32
  | WF64 u64
  | WV128 "128 word"
  | WFuncRef u32
  | WExternRef u32

datatype limits = Limits u32 "u32 option"
datatype memtype = MemType limits bool
datatype reftype = RFuncRef | RExternRef
datatype tabletype = TableType reftype limits
datatype globaltype = GlobalType valtype bool
datatype core_functype = CoreFuncType "valtype list" "valtype list"

datatype core_import_type =
    CiFunc core_functype
  | CiMemory memtype
  | CiTable tabletype
  | CiGlobal globaltype

datatype core_export_type =
    CeMemory memtype
  | CeTable tabletype
  | CeFunc core_functype
  | CeGlobal globaltype
  | CeType core_type
  | CeModule core_module_type
  | CeInstance core_instance_type
and core_type =
    CtFunc core_functype
  | CtModule core_module_type
and core_module_type =
    CoreModuleType "(string \<times> (string \<times> core_import_type) list) list"
      "(string \<times> core_export_type) list"
and core_instance_type =
    CoreInstanceType "(string \<times> core_export_type) list"

section \<open>Component types\<close>

type_synonym type_id = nat
type_synonym label = string

datatype prim_valtype =
    PBool | PS8 | PU8 | PS16 | PU16 | PS32 | PU32 | PS64 | PU64 | PF32 | PF64 | PChar | PString

datatype comp_valtype = VType type_id | VPrim prim_valtype

record label_valtype =
  fl_label :: label
  fl_ty :: comp_valtype

record variant_case =
  cs_label :: label
  cs_ty :: "comp_valtype option"

datatype defval =
    DPrim prim_valtype
  | DRecord "label_valtype list"
  | DVariant "variant_case list"
  | DFlags "label list"
  | DList comp_valtype "nat option"
  | DOwn type_id
  | DBorrow type_id

datatype generic_bound = BoundEq type_id | BoundSub

record generic =
  gen_id :: nat
  gen_bound :: generic_bound

record func_type =
  ft_params :: "comp_valtype list"
  ft_param_names :: "label list"
  ft_result :: "comp_valtype option"

datatype component_import_type = ImType type_id generic | ImCoreModule core_module_type

datatype export_type =
    ExCoreModule core_module_type
  | ExFunc type_id
  | ExComponent type_id
  | ExInstance type_id
  | ExType type_id

record component_type =
  ct_import_order :: "string list"
  ct_imports :: "(string \<times> component_import_type) list"
  ct_exports :: "(string \<times> export_type) list"

record instance_type =
  it_exports :: "(string \<times> export_type) list"

datatype comp_type =
    TDefVal defval
  | TGeneric generic
  | TFunc func_type
  | TResource nat
  | TComponent component_type
  | TInstance instance_type

section \<open>Programs\<close>

record type_info =
  ti_id :: nat
  ti_flat_len :: nat
  ti_size :: u32
  ti_align :: u32
  ti_fixed_length :: "u32 option"

record program =
  pr_types :: "comp_type list"
  pr_type_infos :: "type_info list"

definition get_type :: "program \<Rightarrow> type_id \<Rightarrow> comp_type option" where
  "get_type p i = get_idx (pr_types p) i"

definition get_type_info :: "program \<Rightarrow> type_id \<Rightarrow> type_info option" where
  "get_type_info p i = get_idx (pr_type_infos p) i"

section \<open>Component values\<close>

type_synonym rchar = u32
type_synonym rstring = "rchar list"

definition is_scalar :: "rchar \<Rightarrow> bool" where
  "is_scalar c \<longleftrightarrow> c < 0xD800 \<or> 0xE000 \<le> c \<and> c < 0x110000"

datatype component_value =
    CBool bool
  | CU8 byte
  | CS8 byte
  | CU16 u16
  | CS16 u16
  | CU32 u32
  | CS32 u32
  | CU64 u64
  | CS64 u64
  | CI32 u32
  | CI64 u64
  | CF32 u32
  | CF64 u64
  | CChar rchar
  | CString rstring
  | CList "component_value list"
  | CRecord "(label \<times> component_value) list"
  | CTuple "component_value list"
  | CVariant label "component_value option"
  | CEnum label
  | CFlags "label list"
  | COption "component_value option"
  | CResult "component_value option" "component_value option"
  | COwn u32
  | CBorrow u32

definition as_bool :: "component_value \<Rightarrow> bool option" where
  "as_bool x = (case x of
       CBool v \<Rightarrow> Some v
     | _ \<Rightarrow> None)"

definition as_u32 :: "component_value \<Rightarrow> u32 option" where
  "as_u32 x = (case x of
       CU8 v \<Rightarrow> Some (ucast v)
     | CU16 v \<Rightarrow> Some (ucast v)
     | CU32 v \<Rightarrow> Some v
     | COwn v \<Rightarrow> Some v
     | CBorrow v \<Rightarrow> Some v
     | _ \<Rightarrow> None)"

definition as_i32 :: "component_value \<Rightarrow> u32 option" where
  "as_i32 x = (case x of
       CS8 v \<Rightarrow> Some (scast v)
     | CS16 v \<Rightarrow> Some (scast v)
     | CI32 v \<Rightarrow> Some v
     | CS32 v \<Rightarrow> Some v
     | _ \<Rightarrow> None)"

definition as_str :: "component_value \<Rightarrow> rstring option" where
  "as_str x = (case x of
       CString v \<Rightarrow> Some v
     | _ \<Rightarrow> None)"

definition expect_bool :: "component_value \<Rightarrow> component_error + bool" where
  "expect_bool v = ok_or (InvalidArgument ''expected bool'') (as_bool v)"

definition expect_u32 :: "component_value \<Rightarrow> component_error + u32" where
  "expect_u32 v = ok_or (InvalidArgument ''expected u32'') (as_u32 v)"

definition expect_i32 :: "component_value \<Rightarrow> component_error + u32" where
  "expect_i32 v = ok_or (InvalidArgument ''expected i32'') (as_i32 v)"

definition expect_i64 :: "component_value \<Rightarrow> component_error + u64" where
  "expect_i64 x = (case x of
       CI64 v \<Rightarrow> Inr v
     | CS64 v \<Rightarrow> Inr v
     | _ \<Rightarrow> Inl (InvalidArgument ''expected i64''))"

definition expect_u64 :: "component_value \<Rightarrow> component_error + u64" where
  "expect_u64 x = (case x of
       CU64 v \<Rightarrow> Inr v
     | _ \<Rightarrow> Inl (InvalidArgument ''expected u64''))"

definition expect_f32 :: "component_value \<Rightarrow> component_error + u32" where
  "expect_f32 x = (case x of
       CF32 v \<Rightarrow> Inr v
     | _ \<Rightarrow> Inl (InvalidArgument ''expected f32''))"

definition expect_f64 :: "component_value \<Rightarrow> component_error + u64" where
  "expect_f64 x = (case x of
       CF64 v \<Rightarrow> Inr v
     | _ \<Rightarrow> Inl (InvalidArgument ''expected f64''))"

definition expect_char :: "component_value \<Rightarrow> component_error + rchar" where
  "expect_char x = (case x of
       CChar v \<Rightarrow> Inr v
     | _ \<Rightarrow> Inl (InvalidArgument ''expected char''))"

definition expect_handle :: "component_value \<Rightarrow> component_error + u32" where
  "expect_handle x = (case x of
       COwn v \<Rightarrow> Inr v
     | CBorrow v \<Rightarrow> Inr v
     | CU32 v \<Rightarrow> Inr v
     | _ \<Rightarrow> Inl (InvalidArgument ''expected resource handle''))"

section \<open>Shapes of records and variants\<close>

text \<open>\<open>usize::to_string\<close>.\<close>

fun nat_to_string :: "nat \<Rightarrow> string" where
  "nat_to_string n =
     (if n < 10 then [char_of (48 + n)] else nat_to_string (n div 10) @ [char_of (48 + n mod 10)])"

declare nat_to_string.simps [simp del]

definition is_tuple_fields :: "label_valtype list \<Rightarrow> bool" where
  "is_tuple_fields fs \<longleftrightarrow>
     fs \<noteq> [] \<and> list_all (\<lambda>(i, f). fl_label f = nat_to_string i) (enumerate 0 fs)"

definition is_option_cases :: "variant_case list \<Rightarrow> bool" where
  "is_option_cases cases \<longleftrightarrow>
     (case cases of
        [a, b] \<Rightarrow> cs_ty a = None \<and> cs_ty b \<noteq> None \<and> cs_label a = ''none'' \<and> cs_label b = ''some''
      | _ \<Rightarrow> False)"

definition is_result_cases :: "variant_case list \<Rightarrow> bool" where
  "is_result_cases cases \<longleftrightarrow>
     (case cases of [a, b] \<Rightarrow> cs_label a = ''ok'' \<and> cs_label b = ''err'' | _ \<Rightarrow> False)"

definition is_enum_cases :: "variant_case list \<Rightarrow> bool" where
  "is_enum_cases cases \<longleftrightarrow> cases \<noteq> [] \<and> list_all (\<lambda>c. cs_ty c = None) cases"

section \<open>The type graph\<close>

text \<open>The types whose layout the layout of a type depends on.\<close>

fun abi_deps :: "comp_type \<Rightarrow> comp_valtype list" where
  "abi_deps (TDefVal (DRecord fs)) = map fl_ty fs"
| "abi_deps (TDefVal (DVariant cases)) = List.map_filter cs_ty cases"
| "abi_deps (TDefVal (DList elem len)) = [elem]"
| "abi_deps _ = []"

text \<open>\<open>fits n types ty\<close>: every chain of layout dependencies from \<open>ty\<close> stays inside the type
  store and follows at most \<open>n\<close> type identifiers.\<close>

fun fits :: "nat \<Rightarrow> comp_type list \<Rightarrow> comp_valtype \<Rightarrow> bool" where
  "fits n types (VPrim p) = True"
| "fits 0 types (VType i) = False"
| "fits (Suc n) types (VType i) =
     (i < length types \<and> (\<forall>v \<in> set (abi_deps (types ! i)). fits n types v))"

lemma fits_Suc: "fits n types ty \<Longrightarrow> fits (Suc n) types ty"
  by (induction n types ty rule: fits.induct) auto

lemma fits_mono: "fits n types ty \<Longrightarrow> n \<le> m \<Longrightarrow> fits m types ty"
  by (induction m) (auto simp: le_Suc_eq intro: fits_Suc)

end
