(* ===== verification/Guest_Memory.thy ===== *)
theory Guest_Memory
  imports Component_Types
begin

text \<open>
  The store as the canonical ABI sees it: instances with their exports, linear memories, and the
  state \<open>'g\<close> of the guest, which only guest functions change.  The accessors are those of
  \<open>telomere/src/component_support.rs\<close> (prefix \<open>support_\<close>) and their wrappers in
  \<open>telomere-component/src/runtime/canonical.rs\<close>.  A guest function, such as the allocator behind
  the option \<open>realloc\<close>, is guest code: here it is any action on the store, and what the canonical
  ABI relies on when it calls an allocator is stated as \<open>realloc_contract\<close>.
\<close>

section \<open>The store\<close>

datatype memory_handle = MLocal nat | MShared nat

datatype export_desc = EFunc nat | ETable nat | EMem nat | EGlobal nat

record instance_handle =
  ih_store :: nat
  ih_instance :: nat

record core_instance =
  ci_exports :: "(string \<times> export_desc) list"
  ci_mems :: "memory_handle list"

record 'g store =
  st_id :: nat
  st_instances :: "nat \<Rightarrow> core_instance"
  st_mem :: "memory_handle \<Rightarrow> byte list"
  st_guest :: 'g

record core_export_ref =
  er_instance :: instance_handle
  er_export_name :: string

type_synonym ('g, 'a) comp_action = "('g store, component_error, 'a) action"
type_synonym 'g core_func = "wasm_value list \<Rightarrow> ('g, wasm_value list) comp_action"

definition memory_export :: "instance_handle \<Rightarrow> 'g store \<Rightarrow> string \<Rightarrow> string + memory_handle" where
  "memory_export inst st export_name =
     (if ih_store inst \<noteq> st_id st then Inl ''instance handle belongs to another store''
      else let ci = st_instances st (ih_instance inst) in
        case map_of (ci_exports ci) export_name of
          None \<Rightarrow> Inl ''memory export is missing''
        | Some (EMem idx) \<Rightarrow> ok_or ''memory index is out of bounds'' (get_idx (ci_mems ci) idx)
        | Some _ \<Rightarrow> Inl ''export is not a memory'')"

definition support_read_memory ::
  "'g store \<Rightarrow> memory_handle \<Rightarrow> u32 \<Rightarrow> nat \<Rightarrow> byte list option" where
  "support_read_memory st h ptr len =
     (if len < 2 ^ 32 \<and> unat ptr + len < 2 ^ 32 \<and> unat ptr + len \<le> length (st_mem st h)
      then Some (slice (unat ptr) len (st_mem st h)) else None)"

definition support_read_memory_array ::
  "nat \<Rightarrow> 'g store \<Rightarrow> memory_handle \<Rightarrow> u32 \<Rightarrow> byte list option" where
  "support_read_memory_array N st h ptr =
     (if N < 2 ^ 32 \<and> unat ptr + N < 2 ^ 32 \<and> unat ptr + N \<le> length (st_mem st h)
      then Some (slice (unat ptr) N (st_mem st h)) else None)"

definition support_write_memory ::
  "'g store \<Rightarrow> memory_handle \<Rightarrow> u32 \<Rightarrow> byte list \<Rightarrow> bool \<times> 'g store" where
  "support_write_memory st h ptr bytes =
     (if length bytes < 2 ^ 32 \<and> unat ptr + length bytes < 2 ^ 32 \<and>
         unat ptr + length bytes \<le> length (st_mem st h)
      then (True, st\<lparr>st_mem := (st_mem st)(h := splice_at (unat ptr) bytes (st_mem st h))\<rparr>)
      else (False, st))"

section \<open>Byte-addressed memories\<close>

text \<open>What the canonical ABI needs of a memory: accesses succeed exactly inside the memory and
  the address space, a write is read back, and leaves the rest alone.\<close>

locale linear_memory =
  fixes sz :: "'s \<Rightarrow> nat"
    and rd :: "'s \<Rightarrow> u32 \<Rightarrow> nat \<Rightarrow> byte list option"
    and wr :: "'s \<Rightarrow> u32 \<Rightarrow> byte list \<Rightarrow> bool \<times> 's"
  assumes rd_length: "rd s p n = Some bs \<Longrightarrow> length bs = n"
    and rd_bounds: "rd s p n \<noteq> None \<longleftrightarrow> unat p + n < 2 ^ 32 \<and> unat p + n \<le> sz s"
    and wr_bounds: "fst (wr s p bs) \<longleftrightarrow> unat p + length bs < 2 ^ 32 \<and> unat p + length bs \<le> sz s"
    and wr_refused: "wr s p bs = (False, s') \<Longrightarrow> s' = s"
    and wr_sz: "wr s p bs = (True, s') \<Longrightarrow> sz s' = sz s"
    and rd_wr_same: "wr s p bs = (True, s') \<Longrightarrow> rd s' p (length bs) = Some bs"
    and rd_wr_apart: "wr s p bs = (True, s') \<Longrightarrow>
      unat q + n \<le> unat p \<or> unat p + length bs \<le> unat q \<Longrightarrow> rd s' q n = rd s q n"
begin

text \<open>A run of writes to pairwise disjoint ranges is read back range by range.\<close>

fun write_all :: "'s \<Rightarrow> (u32 \<times> byte list) list \<Rightarrow> 's option" where
  "write_all s [] = Some s"
| "write_all s ((p, bs) # ws) =
     (case wr s p bs of (True, s') \<Rightarrow> write_all s' ws | (False, _) \<Rightarrow> None)"

lemma write_all_keeps:
  assumes "write_all s ws = Some s'"
    and "\<And>p bs. (p, bs) \<in> set ws \<Longrightarrow> unat q + n \<le> unat p \<or> unat p + length bs \<le> unat q"
  shows "rd s' q n = rd s q n"
  using assms
proof (induction ws arbitrary: s)
  case (Cons w ws)
  obtain p bs where w: "w = (p, bs)" by (cases w)
  from Cons.prems(1) w obtain s1 where s1: "wr s p bs = (True, s1)" "write_all s1 ws = Some s'"
    by (auto split: prod.splits bool.splits)
  have "rd s1 q n = rd s q n" using rd_wr_apart [OF s1(1)] Cons.prems(2) w by auto
  with Cons.IH [OF s1(2)] Cons.prems(2) show ?case by auto
qed simp

lemma write_all_sz: "write_all s ws = Some s' \<Longrightarrow> sz s' = sz s"
  by (induction s ws rule: write_all.induct) (auto split: prod.splits bool.splits dest: wr_sz)

lemma write_all_read:
  assumes "write_all s ws = Some s'"
    and "pairwise (\<lambda>(p, bs) (q, cs). unat p + length bs \<le> unat q \<or> unat q + length cs \<le> unat p)
      (set ws)"
    and "distinct ws" "(p, bs) \<in> set ws"
  shows "rd s' p (length bs) = Some bs"
  using assms
proof (induction ws arbitrary: s)
  case (Cons w ws)
  obtain q cs where w: "w = (q, cs)" by (cases w)
  from Cons.prems(1) w obtain s1 where s1: "wr s q cs = (True, s1)" "write_all s1 ws = Some s'"
    by (auto split: prod.splits bool.splits)
  show ?case
  proof (cases "(p, bs) = w")
    case True
    have "rd s' q (length cs) = rd s1 q (length cs)"
      by (rule write_all_keeps [OF s1(2)])
        (use Cons.prems(2,3) w in \<open>auto simp: pairwise_def\<close>)
    with rd_wr_same [OF s1(1)] True w show ?thesis by simp
  next
    case False
    show ?thesis
      by (rule Cons.IH [OF s1(2)]) (use Cons.prems False in \<open>auto simp: pairwise_def\<close>)
  qed
qed simp

end

interpretation mem: linear_memory "\<lambda>st. length (st_mem st h)"
  "\<lambda>st. support_read_memory st h" "\<lambda>st. support_write_memory st h" for h
proof
  fix s s' :: "'g store" and p q :: u32 and n and bs :: "byte list"
  assume w: "support_write_memory s h p bs = (True, s')"
    and d: "unat q + n \<le> unat p \<or> unat p + length bs \<le> unat q"
  have "slice (unat q) n (splice_at (unat p) bs (st_mem s h)) = slice (unat q) n (st_mem s h)"
    if "unat q + n \<le> length (st_mem s h)"
    by (rule slice_cong) (use w d that in \<open>auto simp: support_write_memory_def mem_simps split: if_splits\<close>)
  with w show "support_read_memory s' h q n = support_read_memory s h q n"
    by (auto simp: support_read_memory_def support_write_memory_def mem_simps split: if_splits)
qed (auto simp: support_read_memory_def support_write_memory_def mem_simps split: if_splits)

text \<open>C30: After a run of writes to pairwise disjoint ranges of a linear memory every range
  reads back the bytes written to it, and every range apart from all of them is unchanged.\<close>

theorem memory_writes_read_back:
  assumes "mem.write_all h st ws = Some st'"
    and "pairwise (\<lambda>(p, bs) (q, cs). unat p + length bs \<le> unat q \<or> unat q + length cs \<le> unat p)
      (set ws)"
    and "distinct ws" "(p, bs) \<in> set ws"
    and "\<forall>(p, bs) \<in> set ws. unat q + n \<le> unat p \<or> unat p + length bs \<le> unat q"
  shows "support_read_memory st' h p (length bs) = Some bs \<and>
    support_read_memory st' h q n = support_read_memory st h q n"
  using mem.write_all_read [OF assms(1-4)] mem.write_all_keeps [OF assms(1)] assms(5) by blast

definition sample_store :: "nat \<Rightarrow> unit store" where
  "sample_store n =
     \<lparr>st_id = 0, st_instances = (\<lambda>_. \<lparr>ci_exports = [(''mem'', EMem 0)], ci_mems = [MLocal 0]\<rparr>),
      st_mem = (\<lambda>_. replicate n 0), st_guest = ()\<rparr>"

theorem memory_writes_read_back_witness:
  "\<exists>st'. mem.write_all (MLocal 0) (sample_store 16) [(0, [1, 2]), (8, [3])] = Some st' \<and>
     support_read_memory st' (MLocal 0) 8 1 = Some [3] \<and>
     support_read_memory st' (MLocal 0) 4 2 = Some [0, 0]"
proof -
  let ?ws = "[(0 :: u32, [1, 2 :: byte]), (8, [3])]"
  obtain st' where w: "mem.write_all (MLocal 0) (sample_store 16) ?ws = Some st'"
    by (auto simp: support_write_memory_def sample_store_def splice_at_def)
  have "support_read_memory st' (MLocal 0) 8 (length [3 :: byte]) = Some [3] \<and>
      support_read_memory st' (MLocal 0) 4 2 = support_read_memory (sample_store 16) (MLocal 0) 4 2"
    by (rule memory_writes_read_back [OF w]) (auto simp: pairwise_def)
  moreover have "replicate 2 (0 :: byte) = [0, 0]" by (simp add: numeral_2_eq_2)
  then have "support_read_memory (sample_store 16) (MLocal 0) 4 2 = Some [0, 0]"
    by (simp add: support_read_memory_def sample_store_def slice_def)
  ultimately show ?thesis using w by simp
qed

section \<open>The wrappers of the canonical ABI\<close>

definition memory_addr :: "'g store \<Rightarrow> core_export_ref \<Rightarrow> component_error + memory_handle" where
  "memory_addr st memory =
     (case memory_export (er_instance memory) st (er_export_name memory) of
        Inl msg \<Rightarrow> Inl (Link msg) | Inr h \<Rightarrow> Inr h)"

definition read_memory :: "'g store \<Rightarrow> core_export_ref \<Rightarrow> u32 \<Rightarrow> nat \<Rightarrow> component_error + byte list" where
  "read_memory st memory ptr len =
     rbind (memory_addr st memory) (\<lambda>h.
       ok_or (Trap ''memory access out of bounds'') (support_read_memory st h ptr len))"

definition read_memory_array ::
  "nat \<Rightarrow> 'g store \<Rightarrow> core_export_ref \<Rightarrow> u32 \<Rightarrow> component_error + byte list" where
  "read_memory_array N st memory ptr =
     rbind (memory_addr st memory) (\<lambda>h.
       ok_or (Trap ''memory access out of bounds'') (support_read_memory_array N st h ptr))"

definition write_memory :: "core_export_ref \<Rightarrow> u32 \<Rightarrow> byte list \<Rightarrow> ('g, unit) comp_action" where
  "write_memory memory ptr bytes = (\<lambda>st.
     case memory_addr st memory of
       Inl e \<Rightarrow> (Inl e, st)
     | Inr h \<Rightarrow>
         (case support_write_memory st h ptr bytes of
            (True, st') \<Rightarrow> (Inr (), st')
          | (False, st') \<Rightarrow> (Inl (Trap ''memory access out of bounds''), st')))"

definition read_u8_from_memory :: "'g store \<Rightarrow> core_export_ref \<Rightarrow> u32 \<Rightarrow> component_error + byte" where
  "read_u8_from_memory st memory ptr =
     rbind (read_memory_array 1 st memory ptr) (\<lambda>bs. Inr (bs ! 0))"

definition read_u16_from_memory :: "'g store \<Rightarrow> core_export_ref \<Rightarrow> u32 \<Rightarrow> component_error + u16" where
  "read_u16_from_memory st memory ptr =
     rbind (read_memory_array 2 st memory ptr) (\<lambda>bs. Inr (from_le bs))"

definition read_i32_from_memory :: "'g store \<Rightarrow> core_export_ref \<Rightarrow> u32 \<Rightarrow> component_error + u32" where
  "read_i32_from_memory st memory ptr =
     rbind (read_memory_array 4 st memory ptr) (\<lambda>bs. Inr (from_le bs))"

definition read_i64_from_memory :: "'g store \<Rightarrow> core_export_ref \<Rightarrow> u32 \<Rightarrow> component_error + u64" where
  "read_i64_from_memory st memory ptr =
     rbind (read_memory_array 8 st memory ptr) (\<lambda>bs. Inr (from_le bs))"

text \<open>A range that ends at the end of the address space is refused, even in a memory of the
  maximal size of 65536 pages.\<close>

text \<open>Neither a read nor a write reaches the last byte of a four-gigabyte memory: the
  range check computes the exclusive end of the range in 32 bits.\<close>

theorem last_byte_unreachable:
  "support_read_memory st h 0xFFFFFFFF 1 = None \<and>
   support_write_memory st h 0xFFFFFFFF [b] = (False, st)"
  by (simp add: support_read_memory_def support_write_memory_def)

section \<open>Bytes of the memory option\<close>

definition valid_mem :: "core_export_ref \<Rightarrow> 'g store \<Rightarrow> bool" where
  "valid_mem m st \<longleftrightarrow> (\<exists>h. memory_addr st m = Inr h)"

definition bytes_of :: "core_export_ref \<Rightarrow> 'g store \<Rightarrow> byte list" where
  "bytes_of m st = (case memory_addr st m of Inl _ \<Rightarrow> [] | Inr h \<Rightarrow> st_mem st h)"

definition poke :: "core_export_ref \<Rightarrow> nat \<Rightarrow> byte list \<Rightarrow> 'g store \<Rightarrow> 'g store" where
  "poke m p bs st =
     (case memory_addr st m of
        Inl _ \<Rightarrow> st
      | Inr h \<Rightarrow> st\<lparr>st_mem := (st_mem st)(h := splice_at p bs (st_mem st h))\<rparr>)"

definition range_of :: "u32 \<Rightarrow> nat \<Rightarrow> nat set" where
  "range_of p n = {unat p ..< unat p + n}"

lemma memory_addr_poke [simp]: "memory_addr (poke m p bs st) m' = memory_addr st m'"
  by (simp add: memory_addr_def memory_export_def poke_def split: sum.split)

lemma valid_mem_poke [simp]: "valid_mem m (poke m' p bs st) = valid_mem m st"
  by (simp add: valid_mem_def)

lemma bytes_of_poke: "valid_mem m st \<Longrightarrow> bytes_of m (poke m p bs st) = splice_at p bs (bytes_of m st)"
  by (auto simp: bytes_of_def valid_mem_def) (simp add: poke_def)

lemma read_memory_ok:
  assumes "valid_mem m st" "unat p + n \<le> length (bytes_of m st)" "unat p + n < 2 ^ 32"
  shows "read_memory st m p n = Inr (slice (unat p) n (bytes_of m st))"
  using assms by (auto simp: read_memory_def valid_mem_def bytes_of_def support_read_memory_def)

lemma read_memory_array_eq: "read_memory_array n st m p = read_memory st m p n"
  by (simp add: read_memory_def read_memory_array_def support_read_memory_def
      support_read_memory_array_def)

lemma write_memory_ok:
  assumes "valid_mem m st" "unat p + length bs \<le> length (bytes_of m st)" "unat p + length bs < 2 ^ 32"
  shows "write_memory m p bs st = (Inr (), poke m (unat p) bs st)"
  using assms by (auto simp: write_memory_def valid_mem_def bytes_of_def support_write_memory_def poke_def)

section \<open>The contract of the guest's allocator\<close>

text \<open>\<open>own st\<close> is the set of addresses that the guest's allocator regards as handed out in state
  \<open>st\<close>.  A call \<open>realloc(old, old_len, align, new_len)\<close> that returns gives an aligned block
  inside the memory that meets no other owned block, keeps the bytes of the other blocks, and
  moves the contents of the old block; and the host's writes into owned memory are none of the
  allocator's business.\<close>

definition realloc_gives ::
  "core_export_ref \<Rightarrow> ('g store \<Rightarrow> nat set) \<Rightarrow> 'g store \<Rightarrow> u32 \<Rightarrow> u32 \<Rightarrow> u32 \<Rightarrow> u32 \<Rightarrow> 'g store \<Rightarrow> u32 \<Rightarrow> bool"
where
  "realloc_gives m own st old old_len al new_len st' p \<longleftrightarrow>
     (let old_block = range_of old (unat old_len); new_block = range_of p (unat new_len) in
      valid_mem m st' \<and> length (bytes_of m st) \<le> length (bytes_of m st') \<and>
      p mod al = 0 \<and>
      unat p + unat new_len \<le> length (bytes_of m st') \<and> unat p + unat new_len < 2 ^ 32 \<and>
      own st - old_block \<subseteq> own st' \<and> new_block \<subseteq> own st' \<and>
      new_block \<inter> (own st - old_block) = {} \<and>
      (\<forall>a \<in> own st - old_block. bytes_of m st' ! a = bytes_of m st ! a) \<and>
      (\<forall>i < min (unat old_len) (unat new_len).
         bytes_of m st' ! (unat p + i) = bytes_of m st ! (unat old + i)))"

definition realloc_contract ::
  "core_export_ref \<Rightarrow> ('g store \<Rightarrow> nat set) \<Rightarrow> 'g core_func \<Rightarrow> bool" where
  "realloc_contract m own f \<longleftrightarrow>
     (\<forall>st. own st \<subseteq> {a. a < length (bytes_of m st) \<and> a < 2 ^ 32 - 1}) \<and>
     (\<forall>st p bs. valid_mem m st \<longrightarrow> {p ..< p + length bs} \<subseteq> own st \<longrightarrow> own (poke m p bs st) = own st) \<and>
     (\<forall>st old old_len al new_len vs st'.
        valid_mem m st \<longrightarrow> range_of old (unat old_len) \<subseteq> own st \<longrightarrow> al \<noteq> 0 \<longrightarrow>
        f [WI32 old, WI32 old_len, WI32 al, WI32 new_len] st = (Inr vs, st') \<longrightarrow>
        (\<exists>p. vs = [WI32 p] \<and> realloc_gives m own st old old_len al new_len st' p))"

end
