(* ===== verification/Utf_Strings.thy ===== *)
theory Utf_Strings
  imports Component_Types
begin

text \<open>
  The three string encodings of the canonical ABI.  UTF-8 and UTF-16 are the conversions of
  Rust's standard library that the canonical ABI calls (\<open>str::as_bytes\<close>, \<open>String::from_utf8\<close>,
  \<open>str::encode_utf16\<close>, \<open>String::from_utf16\<close>), on characters as scalar values.  Every encoding is
  an instance of the interface \<open>text_codec\<close>.
\<close>

section \<open>The interface\<close>

locale text_codec =
  fixes enc :: "rstring \<Rightarrow> byte list"
    and dec :: "byte list \<Rightarrow> rstring option"
    and ok :: "rchar \<Rightarrow> bool"
  assumes dec_enc: "list_all ok s \<Longrightarrow> dec (enc s) = Some s"
    and dec_ok: "dec bs = Some s \<Longrightarrow> list_all ok s"
begin

lemma enc_inj: "list_all ok s \<Longrightarrow> list_all ok t \<Longrightarrow> enc s = enc t \<Longrightarrow> s = t"
  by (metis dec_enc option.inject)

text \<open>Encoding what was decoded loses nothing.\<close>

lemma dec_enc_dec: "dec bs = Some s \<Longrightarrow> dec (enc s) = Some s"
  by (rule dec_enc) (rule dec_ok)

end

section \<open>UTF-8\<close>

definition utf8_char :: "rchar \<Rightarrow> byte list" where
  "utf8_char c =
     (let n = unat c in
      if n < 0x80 then [of_nat n]
      else if n < 0x800 then [of_nat (0xC0 + n div 64), of_nat (0x80 + n mod 64)]
      else if n < 0x10000 then
        [of_nat (0xE0 + n div 4096), of_nat (0x80 + n div 64 mod 64), of_nat (0x80 + n mod 64)]
      else
        [of_nat (0xF0 + n div 262144), of_nat (0x80 + n div 4096 mod 64),
         of_nat (0x80 + n div 64 mod 64), of_nat (0x80 + n mod 64)])"

definition as_bytes :: "rstring \<Rightarrow> byte list" where
  "as_bytes s = concat (map utf8_char s)"

text \<open>A continuation byte contributes its low six bits.\<close>

definition cont :: "byte \<Rightarrow> nat option" where
  "cont b = (if 0x80 \<le> unat b \<and> unat b < 0xC0 then Some (unat b - 0x80) else None)"

definition scalar_in :: "nat \<Rightarrow> nat \<Rightarrow> rchar option" where
  "scalar_in lo n =
     (if lo \<le> n \<and> (n < 0xD800 \<or> 0xE000 \<le> n \<and> n < 0x110000) then Some (of_nat n) else None)"

definition decode2 :: "byte \<Rightarrow> byte \<Rightarrow> rchar option" where
  "decode2 b c1 = Option.bind (cont c1) (\<lambda>x. scalar_in 0x80 ((unat b - 0xC0) * 64 + x))"

definition decode3 :: "byte \<Rightarrow> byte \<Rightarrow> byte \<Rightarrow> rchar option" where
  "decode3 b c1 c2 =
     Option.bind (cont c1) (\<lambda>x. Option.bind (cont c2) (\<lambda>y.
       scalar_in 0x800 ((unat b - 0xE0) * 4096 + x * 64 + y)))"

definition decode4 :: "byte \<Rightarrow> byte \<Rightarrow> byte \<Rightarrow> byte \<Rightarrow> rchar option" where
  "decode4 b c1 c2 c3 =
     Option.bind (cont c1) (\<lambda>x. Option.bind (cont c2) (\<lambda>y. Option.bind (cont c3) (\<lambda>z.
       scalar_in 0x10000 ((unat b - 0xF0) * 262144 + x * 4096 + y * 64 + z))))"

fun from_utf8 :: "byte list \<Rightarrow> rstring option" where
  "from_utf8 [] = Some []"
| "from_utf8 (b # bs) =
     (if unat b < 0x80 then map_option ((#) (ucast b)) (from_utf8 bs)
      else if unat b < 0xC0 then None
      else if unat b < 0xE0 then
        (case bs of
           c1 # rest \<Rightarrow> Option.bind (decode2 b c1) (\<lambda>c. map_option ((#) c) (from_utf8 rest))
         | _ \<Rightarrow> None)
      else if unat b < 0xF0 then
        (case bs of
           c1 # c2 # rest \<Rightarrow> Option.bind (decode3 b c1 c2) (\<lambda>c. map_option ((#) c) (from_utf8 rest))
         | _ \<Rightarrow> None)
      else if unat b < 0xF8 then
        (case bs of
           c1 # c2 # c3 # rest \<Rightarrow>
             Option.bind (decode4 b c1 c2 c3) (\<lambda>c. map_option ((#) c) (from_utf8 rest))
         | _ \<Rightarrow> None)
      else None)"

lemma is_scalar_unat: "is_scalar c \<longleftrightarrow> unat c < 0xD800 \<or> 0xE000 \<le> unat c \<and> unat c < 0x110000"
  by (simp add: is_scalar_def word_less_nat_alt word_le_nat_alt)

lemma unat_of_nat_small [simp]: "n < 256 \<Longrightarrow> unat (of_nat n :: byte) = n"
  by (simp add: unat_of_nat take_bit_nat_eq_self)

lemma of_nat_unat_word [simp]: "of_nat (unat (w :: 'a::len word)) = w"
  by simp

lemma digits64:
  "n div 4096 * 4096 + n div 64 mod 64 * 64 + n mod 64 = (n :: nat)"
  "n div 262144 * 262144 + n div 4096 mod 64 * 4096 + n div 64 mod 64 * 64 + n mod 64 = n"
proof -
  have d: "n div 4096 = n div 64 div 64" "n div 262144 = n div 4096 div 64"
    by (simp_all add: div_mult2_eq [symmetric])
  have "n div 64 div 64 * 64 + n div 64 mod 64 = n div 64" "n div 64 * 64 + n mod 64 = n"
    by (rule div_mult_mod_eq)+
  then show 1: "n div 4096 * 4096 + n div 64 mod 64 * 64 + n mod 64 = n"
    unfolding d(1) by linarith
  have "n div 4096 div 64 * 64 + n div 4096 mod 64 = n div 4096" by (rule div_mult_mod_eq)
  with 1 show "n div 262144 * 262144 + n div 4096 mod 64 * 4096 + n div 64 mod 64 * 64 + n mod 64 = n"
    unfolding d(2) by linarith
qed

lemma from_utf8_char:
  assumes "is_scalar c"
  shows "from_utf8 (utf8_char c @ rest) = map_option ((#) c) (from_utf8 rest)"
proof -
  define n where "n = unat c"
  have c: "of_nat n = c" by (simp add: n_def)
  define b8 where "b8 = (of_nat :: nat \<Rightarrow> byte)"
  have b8: "unat (b8 k) = k" if "k < 256" for k using that by (simp add: b8_def)
  note u8 = utf8_char_def [of c, folded n_def b8_def, unfolded Let_def]
  from assms have n: "n < 0xD800 \<or> 0xE000 \<le> n \<and> n < 0x110000" by (simp add: is_scalar_unat n_def)
  consider "n < 0x80" | "0x80 \<le> n" "n < 0x800" | "0x800 \<le> n" "n < 0x10000" | "0x10000 \<le> n"
    by linarith
  then show ?thesis
  proof cases
    case 1
    then have "ucast (b8 n) = c"
      by (simp add: b8_def unsigned_of_nat take_bit_nat_eq_self c)
    with 1 show ?thesis by (simp add: u8 b8)
  next
    case 2
    define q r where "q = n div 64" and "r = n mod 64"
    have "q < 32" "r < 64" "q * 64 + r = n" using 2 by (simp_all add: q_def r_def)
    then show ?thesis using 2 n unfolding u8 q_def [symmetric] r_def [symmetric]
      by (simp add: u8 b8 decode2_def cont_def scalar_in_def c)
  next
    case 3
    define q r t where "q = n div 4096" and "r = n div 64 mod 64" and "t = n mod 64"
    have "q < 16" "r < 64" "t < 64" using 3 by (simp_all add: q_def r_def t_def)
    moreover have "q * 4096 + r * 64 + t = n" using digits64 [of n] by (simp add: q_def r_def t_def)
    ultimately show ?thesis using 3 n unfolding u8 q_def [symmetric] r_def [symmetric] t_def [symmetric]
      by (simp add: u8 b8 decode3_def cont_def scalar_in_def c)
  next
    case 4
    define q r t u where "q = n div 262144" and "r = n div 4096 mod 64"
      and "t = n div 64 mod 64" and "u = n mod 64"
    have "q < 5" "r < 64" "t < 64" "u < 64" using 4 n by (auto simp: q_def r_def t_def u_def)
    moreover have "q * 262144 + r * 4096 + t * 64 + u = n"
      using digits64 [of n] by (simp add: q_def r_def t_def u_def)
    ultimately show ?thesis using 4 n
      unfolding u8 q_def [symmetric] r_def [symmetric] t_def [symmetric] u_def [symmetric]
      by (simp add: u8 b8 decode4_def cont_def scalar_in_def c)
  qed
qed

lemma is_scalar_of_nat: "n < 0xD800 \<or> 0xE000 \<le> n \<and> n < 0x110000 \<Longrightarrow> is_scalar (of_nat n)"
  by (auto simp: is_scalar_unat unat_of_nat take_bit_nat_eq_self)

lemma scalar_in_scalar: "scalar_in lo n = Some c \<Longrightarrow> is_scalar c"
  by (auto simp: scalar_in_def is_scalar_of_nat split: if_splits)

lemma unat_ucast_up [simp]: "unat (ucast (b :: byte) :: u32) = unat b" "unat (ucast (u :: u16) :: u32) = unat u"
proof -
  have "unat b < 256" using unsigned_less [of b] by simp
  moreover have "unat u < 65536" using unsigned_less [of u] by simp
  ultimately have "unat b < 2 ^ 32" "unat u < 2 ^ 32" by simp_all
  then show "unat (ucast b :: u32) = unat b" "unat (ucast u :: u32) = unat u"
    by (simp_all add: unsigned_ucast_eq unsigned_take_bit_eq take_bit_nat_eq_self)
qed

lemma decodes_scalar:
  "decode2 b x = Some c \<Longrightarrow> is_scalar c" "decode3 b x y = Some c \<Longrightarrow> is_scalar c"
  "decode4 b x y z = Some c \<Longrightarrow> is_scalar c"
  by (auto simp: decode2_def decode3_def decode4_def bind_eq_Some_conv dest: scalar_in_scalar)

lemma from_utf8_step:
  assumes "from_utf8 (b # bs) = Some s"
  obtains c rest t where "s = c # t" "is_scalar c" "from_utf8 rest = Some t" "length rest \<le> length bs"
proof (cases "unat b < 0x80")
  case True
  then have "is_scalar (ucast b)" by (simp add: is_scalar_unat)
  with True assms that show ?thesis by auto
next
  case False
  then show ?thesis
    using assms
    by (auto simp: bind_eq_Some_conv split: if_splits list.splits
        intro!: that dest: decodes_scalar simp del: from_utf8.simps(2) simp: from_utf8.simps(2) [of b])
qed

lemma from_utf8_scalars: "from_utf8 bs = Some s \<Longrightarrow> list_all is_scalar s"
proof (induction "length bs" arbitrary: bs s rule: less_induct)
  case less
  show ?case
  proof (cases bs)
    case (Cons b bs')
    obtain c rest t where "s = c # t" "is_scalar c" "from_utf8 rest = Some t" "length rest \<le> length bs'"
      by (rule from_utf8_step [OF less.prems [unfolded Cons]])
    with less.hyps [of rest t] Cons show ?thesis by simp
  qed (use less.prems in simp)
qed

interpretation utf8: text_codec as_bytes from_utf8 is_scalar
proof
  fix s assume "list_all is_scalar s"
  then show "from_utf8 (as_bytes s) = Some s"
    by (induction s) (simp_all add: as_bytes_def from_utf8_char del: from_utf8.simps(2))
qed (rule from_utf8_scalars)

section \<open>UTF-16\<close>

definition utf16_units :: "rchar \<Rightarrow> u16 list" where
  "utf16_units c =
     (let n = unat c in
      if n < 0x10000 then [of_nat n]
      else [of_nat (0xD800 + (n - 0x10000) div 1024), of_nat (0xDC00 + (n - 0x10000) mod 1024)])"

definition encode_utf16 :: "rstring \<Rightarrow> u16 list" where
  "encode_utf16 s = concat (map utf16_units s)"

fun from_utf16 :: "u16 list \<Rightarrow> rstring option" where
  "from_utf16 [] = Some []"
| "from_utf16 (u # us) =
     (if unat u < 0xD800 \<or> 0xE000 \<le> unat u then map_option ((#) (ucast u)) (from_utf16 us)
      else if 0xDC00 \<le> unat u then None
      else case us of
        [] \<Rightarrow> None
      | v # rest \<Rightarrow>
          (if 0xDC00 \<le> unat v \<and> unat v < 0xE000
           then map_option ((#) (of_nat (0x10000 + (unat u - 0xD800) * 1024 + (unat v - 0xDC00))))
                  (from_utf16 rest)
           else None))"

lemma unat_of_nat_u16 [simp]: "n < 65536 \<Longrightarrow> unat (of_nat n :: u16) = n"
  by (simp add: unat_of_nat take_bit_nat_eq_self)

lemma from_utf16_char:
  assumes "is_scalar c"
  shows "from_utf16 (utf16_units c @ rest) = map_option ((#) c) (from_utf16 rest)"
proof -
  define n where "n = unat c"
  have c: "of_nat n = c" by (simp add: n_def)
  from assms have n: "n < 0xD800 \<or> 0xE000 \<le> n \<and> n < 0x110000" by (simp add: is_scalar_unat n_def)
  show ?thesis
  proof (cases "n < 0x10000")
    case True
    then have "ucast (of_nat n :: u16) = c"
      by (simp add: unsigned_of_nat take_bit_nat_eq_self c)
    with True n show ?thesis by (simp add: utf16_units_def n_def [symmetric])
  next
    case False
    define k where "k = n - 0x10000"
    have k: "k < 0x100000" "n = 0x10000 + k" using n False by (auto simp: k_def)
    define u v where "u = (of_nat (0xD800 + k div 1024) :: u16)"
      and "v = (of_nat (0xDC00 + k mod 1024) :: u16)"
    have q: "k div 1024 < 1024" "k mod 1024 < 1024" using k(1) by simp_all
    have uv: "unat u = 0xD800 + k div 1024" "unat v = 0xDC00 + k mod 1024"
      unfolding u_def v_def by (rule unat_of_nat_u16, use q in simp)+
    have "utf16_units c = [u, v]"
      using False by (simp only: utf16_units_def n_def [symmetric] k_def [symmetric] Let_def
          u_def v_def if_False)
    moreover have "0x10000 + k div 1024 * 1024 + k mod 1024 = n" using k(2) by simp
    ultimately show ?thesis using q c by (simp add: uv del: of_nat_add of_nat_mult)
  qed
qed

lemma from_utf16_scalars: "from_utf16 us = Some s \<Longrightarrow> list_all is_scalar s"
proof (induction us arbitrary: s rule: from_utf16.induct)
  case (2 u us)
  have lim: "unat u < 65536" for u :: u16 using unsigned_less [of u] by simp
  have "is_scalar (ucast u)" if "unat u < 0xD800 \<or> 0xE000 \<le> unat u"
    using that lim [of u] by (auto simp: is_scalar_unat)
  moreover have "is_scalar (of_nat (9216 + ((unat u - 55296) * 1024 + unat v)))"
    if "unat u < 0xDC00" "unat v < 0xE000" "0xDC00 \<le> unat v" for v :: u16
    using that by (intro is_scalar_of_nat) auto
  ultimately show ?case using 2
    by (auto simp del: of_nat_add of_nat_mult split: if_splits list.splits)
qed simp

definition encode_string_utf16 :: "rstring \<Rightarrow> byte list" where
  "encode_string_utf16 s = concat (map (to_le 2) (encode_utf16 s))"

text \<open>\<open>chunks_exact(2)\<close>: a last odd byte is dropped.\<close>

fun units_of :: "byte list \<Rightarrow> u16 list" where
  "units_of (a # b # bs) = from_le [a, b] # units_of bs"
| "units_of _ = []"

definition decode_utf16_le :: "byte list \<Rightarrow> component_error + rstring" where
  "decode_utf16_le bytes = ok_or (Trap ''invalid utf-16'') (from_utf16 (units_of bytes))"

lemma units_of_encode: "units_of (concat (map (to_le 2) us)) = us"
proof (induction us)
  case (Cons u us)
  have "to_le 2 u = [ucast u, ucast (drop_bit 8 u)]" by (simp add: numeral_2_eq_2)
  moreover have "from_le (to_le 2 u) = u" by (rule from_le_to_le) simp
  ultimately show ?case using Cons by simp
qed simp

lemma length_encode_string_utf16: "length (encode_string_utf16 s) = 2 * length (encode_utf16 s)"
proof -
  have "length (concat (map (to_le 2) us)) = 2 * length us" for us :: "u16 list"
    by (induction us) auto
  then show ?thesis by (simp add: encode_string_utf16_def)
qed

interpretation utf16: text_codec encode_string_utf16 "\<lambda>bs. from_utf16 (units_of bs)" is_scalar
proof
  fix s assume "list_all is_scalar s"
  then have "from_utf16 (encode_utf16 s) = Some s"
    by (induction s) (simp_all add: encode_utf16_def from_utf16_char del: from_utf16.simps(2))
  then show "from_utf16 (units_of (encode_string_utf16 s)) = Some s"
    by (simp add: encode_string_utf16_def units_of_encode)
qed (rule from_utf16_scalars)

lemma decode_utf16_le_encode: "list_all is_scalar s \<Longrightarrow> decode_utf16_le (encode_string_utf16 s) = Inr s"
  by (simp add: decode_utf16_le_def utf16.dec_enc)

section \<open>Latin-1\<close>

definition latin1_bytes :: "rstring \<Rightarrow> byte list" where
  "latin1_bytes s = map ucast s"

definition latin1_chars :: "byte list \<Rightarrow> rstring" where
  "latin1_chars bs = map ucast bs"

lemma latin1_small: "list_all (\<lambda>c. c < 0x100) (latin1_chars bs)"
proof -
  have "unat b < 256" for b :: byte using unsigned_less [of b] by simp
  then show ?thesis by (simp add: latin1_chars_def list_all_length word_less_nat_alt)
qed

interpretation latin1: text_codec latin1_bytes "\<lambda>bs. Some (latin1_chars bs)" "\<lambda>c. c < 0x100"
proof
  fix s :: rstring assume "list_all (\<lambda>c. c < 0x100) s"
  moreover have "ucast (ucast c :: byte) = c" if "c < 0x100" for c :: rchar
  proof -
    have "unat c < 256" using that by (simp add: word_less_nat_alt)
    then have "take_bit 8 (unat c) = unat c" by (simp add: take_bit_nat_eq_self)
    then have "unat (ucast (ucast c :: byte) :: rchar) = unat c"
      by (simp add: unsigned_ucast_eq unsigned_take_bit_eq)
    then show ?thesis by (simp only: word_eq_iff_unsigned [where ?'a = nat])
  qed
  ultimately show "Some (latin1_chars (latin1_bytes s)) = Some s"
    by (simp add: latin1_bytes_def latin1_chars_def map_idI list_all_iff)
qed (auto simp: latin1_small)

lemma latin1_scalars: "list_all is_scalar (latin1_chars bs)"
  by (rule list.pred_mono_strong [OF latin1_small]) (simp add: is_scalar_unat word_less_nat_alt)

section \<open>Lengths\<close>

lemma as_bytes_length: "length s \<le> length (as_bytes s)"
proof (induction s)
  case (Cons c s)
  have "1 \<le> length (utf8_char c)" by (simp add: utf8_char_def Let_def)
  with Cons show ?case by (simp add: as_bytes_def)
qed (simp add: as_bytes_def)

text \<open>The buffer of twice the UTF-8 length that the compact encoding allocates is always enough
  for UTF-16.\<close>

lemma utf16_length: "length (encode_string_utf16 s) \<le> 2 * length (as_bytes s)"
proof -
  have "length (encode_utf16 s) \<le> length (as_bytes s)"
  proof (induction s)
    case (Cons c s)
    have "length (utf16_units c) \<le> length (utf8_char c)"
      by (simp add: utf16_units_def utf8_char_def Let_def)
    with Cons show ?case by (simp add: as_bytes_def encode_utf16_def)
  qed (simp add: encode_utf16_def)
  then show ?thesis by (simp add: length_encode_string_utf16)
qed

end
