(* ===== verification/Type_Info.thy ===== *)
theory Type_Info
  imports Component_Types
begin

text \<open>
  The layout metadata that \<open>ComponentEngine::compile\<close> computes for every type of a component
  (\<open>build_type_infos\<close> of \<open>telomere-component/src/engine.rs\<close>): a memoised depth-first walk over
  the type store with a set of types in progress.  It is compared with a layout specification
  on natural numbers, and shown to return on every type store, cyclic ones included.
\<close>

section \<open>Arithmetic of layouts\<close>

definition align_to :: "u32 \<Rightarrow> u32 \<Rightarrow> u32" where
  "align_to val align =
     (if align \<le> 1 then val
      else let r = val mod align in if r = 0 then val else val + (align - r))"

definition saturating_add :: "u32 \<Rightarrow> u32 \<Rightarrow> u32" where
  "saturating_add a b = (if unat a + unat b < 2 ^ 32 then a + b else - 1)"

definition div_ceil :: "nat \<Rightarrow> nat \<Rightarrow> nat" where
  "div_ceil a b = (a + (b - 1)) div b"

definition variant_discriminant_size :: "nat \<Rightarrow> component_error + u32" where
  "variant_discriminant_size case_count =
     (if case_count \<le> 2 ^ 8 then Inr 1
      else if case_count \<le> 2 ^ 16 then Inr 2
      else if case_count \<le> 2 ^ 32 then Inr 4
      else Inl (Unsupported ''variants with more than 2^32 cases are not supported''))"

definition flags_info :: "nat \<Rightarrow> nat \<times> u32 \<times> u32" where
  "flags_info count =
     (if count = 0 then (0, 0, 1)
      else if count \<le> 8 then (1, 1, 1)
      else if count \<le> 16 then (1, 2, 2)
      else let words = div_ceil count 32 in (words, 4 * of_nat words, 4))"

definition mk_info :: "nat \<Rightarrow> nat \<Rightarrow> u32 \<Rightarrow> u32 \<Rightarrow> u32 option \<Rightarrow> type_info" where
  "mk_info i fl sz al fixed =
     \<lparr>ti_id = i, ti_flat_len = fl, ti_size = sz, ti_align = al, ti_fixed_length = fixed\<rparr>"

definition primitive_info :: "prim_valtype \<Rightarrow> type_info" where
  "primitive_info prim =
     (if prim \<in> {PBool, PS8, PU8} then mk_info 0 1 1 1 None
      else if prim \<in> {PS16, PU16} then mk_info 0 1 2 2 None
      else if prim \<in> {PS32, PU32, PChar, PF32} then mk_info 0 1 4 4 None
      else if prim \<in> {PS64, PU64, PF64} then mk_info 0 1 8 8 None
      else mk_info 0 2 8 4 None)"

section \<open>The memoised walk\<close>

record info_state =
  memo :: "type_info option list"
  visiting :: "bool list"

type_synonym 'a info_action = "(info_state, component_error, 'a) action"

definition valtype_info :: "(type_id \<Rightarrow> type_info info_action) \<Rightarrow> comp_valtype \<Rightarrow> type_info info_action"
where
  "valtype_info rec ty = (case ty of VPrim prim \<Rightarrow> aret (primitive_info prim) | VType i \<Rightarrow> rec i)"

text \<open>The loop bodies of the record and the variant arm.\<close>

definition record_step ::
  "(type_id \<Rightarrow> type_info info_action) \<Rightarrow> comp_valtype \<Rightarrow> nat \<times> u32 \<times> u32 \<Rightarrow>
   (nat \<times> u32 \<times> u32) info_action" where
  "record_step rec ty = (\<lambda>(flat_len, sz, align).
     abind (valtype_info rec ty) (\<lambda>info.
       aret (flat_len + ti_flat_len info,
             saturating_add (align_to sz (ti_align info)) (ti_size info),
             max align (ti_align info))))"

definition variant_step ::
  "(type_id \<Rightarrow> type_info info_action) \<Rightarrow> comp_valtype option \<Rightarrow> nat \<times> u32 \<times> u32 \<Rightarrow>
   (nat \<times> u32 \<times> u32) info_action" where
  "variant_step rec ty = (\<lambda>(payload_flat, payload_size, payload_align).
     case ty of None \<Rightarrow> aret (payload_flat, payload_size, payload_align)
     | Some ty \<Rightarrow> abind (valtype_info rec ty) (\<lambda>info.
         aret (max payload_flat (ti_flat_len info),
               max payload_size (ti_size info),
               max payload_align (ti_align info))))"

text \<open>The computation for one type, after the memo and cycle checks.\<close>

definition compute_info ::
  "(type_id \<Rightarrow> type_info info_action) \<Rightarrow> type_id \<Rightarrow> comp_type \<Rightarrow> type_info info_action" where
  "compute_info rec i ty =
     (case ty of
        TDefVal (DPrim prim) \<Rightarrow> aret (primitive_info prim)
      | TDefVal (DRecord fs) \<Rightarrow>
          abind (afold (\<lambda>f. record_step rec (fl_ty f)) fs (0, 0, 1)) (\<lambda>(flat_len, sz, align).
            aret (mk_info i flat_len (align_to sz (max align 1)) (max align 1) None))
      | TDefVal (DVariant cases) \<Rightarrow>
          abind (alift (variant_discriminant_size (length cases))) (\<lambda>discriminant_size.
          abind (afold (\<lambda>c. variant_step rec (cs_ty c)) cases (0, 0, discriminant_size))
            (\<lambda>(payload_flat, payload_size, payload_align).
              let align = max payload_align 1;
                  payload_offset = align_to discriminant_size align
              in aret (mk_info i (1 + payload_flat)
                   (align_to (saturating_add payload_offset payload_size) align) align None)))
      | TDefVal (DFlags labels) \<Rightarrow>
          (case flags_info (length labels) of (flat_len, sz, align) \<Rightarrow>
             aret (mk_info i flat_len sz align (Some (of_nat (length labels)))))
      | TDefVal (DList elem maybe_len) \<Rightarrow>
          abind (valtype_info rec elem) (\<lambda>_.
            aret (mk_info i 2 8 4 (map_option of_nat maybe_len)))
      | TDefVal (DOwn _) \<Rightarrow> aret (mk_info i 1 4 4 None)
      | TDefVal (DBorrow _) \<Rightarrow> aret (mk_info i 1 4 4 None)
      | TResource _ \<Rightarrow> aret (mk_info i 1 4 4 None)
      | TGeneric _ \<Rightarrow> aret (mk_info i 1 4 4 None)
      | TFunc _ \<Rightarrow> aret (mk_info i 0 0 1 None)
      | TComponent _ \<Rightarrow> aret (mk_info i 0 0 1 None)
      | TInstance _ \<Rightarrow> aret (mk_info i 0 0 1 None))"

text \<open>\<open>type_info\<close> of the source; the first argument bounds the depth of the recursion.\<close>

primrec type_info_of :: "nat \<Rightarrow> comp_type list \<Rightarrow> type_id \<Rightarrow> type_info info_action" where
  "type_info_of 0 types i = afail StackOverflow"
| "type_info_of (Suc n) types i = (\<lambda>st.
     case Option.bind (get_idx (memo st) i) id of
       Some info \<Rightarrow> (Inr info, st)
     | None \<Rightarrow>
        (case get_idx (visiting st) i of
           None \<Rightarrow> (Inl (Runtime ''type id not found''), st)
         | Some True \<Rightarrow>
             (Inl (Unsupported ''recursive canonical ABI metadata is not implemented''), st)
         | Some False \<Rightarrow>
             (let st1 = st\<lparr>visiting := (visiting st)[i := True]\<rparr>
              in case get_idx types i of
                   None \<Rightarrow> (Inl (Runtime ''type id not found''), st1)
                 | Some ty \<Rightarrow>
                     abind (compute_info (type_info_of n types) i ty) (\<lambda>info st2.
                       (Inr info, st2\<lparr>visiting := (visiting st2)[i := False],
                                      memo := (memo st2)[i := Some info]\<rparr>)) st1)))"

primrec infos_from :: "nat \<Rightarrow> comp_type list \<Rightarrow> type_id list \<Rightarrow> type_info list info_action" where
  "infos_from n types [] = aret []"
| "infos_from n types (i # is) =
     abind (type_info_of n types i) (\<lambda>info.
     abind (infos_from n types is) (\<lambda>infos. aret (info # infos)))"

definition build_type_infos :: "comp_type list \<Rightarrow> component_error + type_info list" where
  "build_type_infos types =
     fst (infos_from (length types + 1) types [0..<length types]
       \<lparr>memo = replicate (length types) None, visiting = replicate (length types) False\<rparr>)"

section \<open>The walk always returns\<close>

text \<open>Each nested call marks one more type as in progress, so the depth is bounded by the number
  of types that are not.\<close>

definition free_types :: "info_state \<Rightarrow> nat" where
  "free_types st = length (filter Not (visiting st))"

text \<open>A successful call leaves the marks as it found them.\<close>

definition keeps_marks :: "'a info_action \<Rightarrow> bool" where
  "keeps_marks act \<longleftrightarrow> (\<forall>st a st'. act st = (Inr a, st') \<longrightarrow> visiting st' = visiting st)"

lemma keeps_marks_abind:
  "keeps_marks m \<Longrightarrow> (\<And>a. keeps_marks (k a)) \<Longrightarrow> keeps_marks (abind m k)"
  unfolding keeps_marks_def by (metis abind_Inr_iff)

lemma keeps_marks_simps [simp]:
  "keeps_marks (aret a)" "keeps_marks (afail e)" "keeps_marks (alift r)"
  by (auto simp: keeps_marks_def)

lemma keeps_marks_afold: "(\<And>x acc. keeps_marks (f x acc)) \<Longrightarrow> keeps_marks (afold f xs acc)"
  by (induction xs arbitrary: acc) (auto intro: keeps_marks_abind)

lemma keeps_marks_compute_info:
  assumes "\<And>j. keeps_marks (rec j)"
  shows "keeps_marks (compute_info rec i ty)"
proof -
  have v: "keeps_marks (valtype_info rec t)" for t
    using assms by (simp add: valtype_info_def split: comp_valtype.split)
  have r: "keeps_marks (record_step rec t acc)" for t acc
    by (auto simp: record_step_def split: prod.split intro!: keeps_marks_abind v)
  have c: "keeps_marks (variant_step rec t acc)" for t acc
    by (auto simp: variant_step_def split: prod.split option.split intro!: keeps_marks_abind v)
  show ?thesis
    by (auto simp: compute_info_def Let_def v r c split: comp_type.split defval.split prod.split
        intro!: keeps_marks_abind keeps_marks_afold)
qed

text \<open>The ways a call can go: from the memo, by an error, or by computing the type.\<close>

lemma type_info_of_cases:
  obtains (hit) info where "i < length (memo st)" "memo st ! i = Some info"
      "type_info_of (Suc n) types i st = (Inr info, st)"
  | (error) e st' where "type_info_of (Suc n) types i st = (Inl e, st')" "e \<noteq> StackOverflow"
  | (miss) "i < length types" "i < length (visiting st)" "\<not> visiting st ! i"
      "\<And>info. i < length (memo st) \<Longrightarrow> memo st ! i \<noteq> Some info"
      "type_info_of (Suc n) types i st =
         abind (compute_info (type_info_of n types) i (types ! i)) (\<lambda>info st2.
           (Inr info, st2\<lparr>visiting := (visiting st2)[i := False],
                          memo := (memo st2)[i := Some info]\<rparr>))
         (st\<lparr>visiting := (visiting st)[i := True]\<rparr>)"
proof (cases "Option.bind (get_idx (memo st) i) id")
  case (Some a)
  then have "i < length (memo st)" "memo st ! i = Some a" by (auto simp: bind_eq_Some_conv res_simps)
  moreover have "type_info_of (Suc n) types i st = (Inr a, st)" using Some by simp
  ultimately show ?thesis by (rule hit)
next
  case None
  note m = this
  then have nm: "memo st ! i \<noteq> Some info" if "i < length (memo st)" for info
    using that by (auto simp: get_idx_def)
  show ?thesis
  proof (cases "get_idx (visiting st) i")
    case (Some v)
    note v = this
    show ?thesis
    proof (cases v)
      case False
      show ?thesis
      proof (cases "get_idx types i")
        case (Some ty)
        with m v False have "type_info_of (Suc n) types i st =
         abind (compute_info (type_info_of n types) i ty) (\<lambda>info st2.
           (Inr info, st2\<lparr>visiting := (visiting st2)[i := False],
                          memo := (memo st2)[i := Some info]\<rparr>))
         (st\<lparr>visiting := (visiting st)[i := True]\<rparr>)" by simp
        with nm v False Some show ?thesis by (intro miss) (auto simp: res_simps)
      qed (use m v False error in simp)
    qed (use m v error in simp)
  qed (use m error in simp)
qed

lemma type_info_of_SucE:
  assumes "type_info_of (Suc n) types i st = (Inr info, st')"
  obtains (hit) "i < length (memo st)" "memo st ! i = Some info" "st' = st"
  | (miss) st2 where "i < length types" "i < length (visiting st)" "\<not> visiting st ! i"
      "\<And>info. i < length (memo st) \<Longrightarrow> memo st ! i \<noteq> Some info"
      "compute_info (type_info_of n types) i (types ! i)
         (st\<lparr>visiting := (visiting st)[i := True]\<rparr>) = (Inr info, st2)"
      "st' = st2\<lparr>visiting := (visiting st2)[i := False], memo := (memo st2)[i := Some info]\<rparr>"
proof (cases rule: type_info_of_cases [of i st n types])
  case miss
  from assms obtain a s' where
      "compute_info (type_info_of n types) i (types ! i) (st\<lparr>visiting := (visiting st)[i := True]\<rparr>) =
         (Inr a, s')"
      "(Inr a, s'\<lparr>visiting := (visiting s')[i := False], memo := (memo s')[i := Some a]\<rparr>) =
         (Inr info, st')"
    unfolding miss(5) abind_Inr_iff by blast
  with miss(1-4) that(2) show ?thesis by auto
qed (use assms that(1) in \<open>simp_all del: type_info_of.simps\<close>)

lemma keeps_marks_type_info: "keeps_marks (type_info_of n types i)"
proof (induction n arbitrary: i)
  case (Suc n)
  have c: "keeps_marks (compute_info (type_info_of n types) i ty)" for ty
    by (rule keeps_marks_compute_info) (rule Suc.IH)
  show ?case
    unfolding keeps_marks_def
  proof (intro allI impI)
    fix st info st'
    assume "type_info_of (Suc n) types i st = (Inr info, st')"
    then show "visiting st' = visiting st"
    proof (cases rule: type_info_of_SucE)
      case (miss st2)
      from c miss(5) have "visiting st2 = (visiting st)[i := True]"
        by (auto simp: keeps_marks_def)
      with miss show ?thesis by (simp add: list_update_same_conv)
    qed simp
  qed
qed (simp add: keeps_marks_def)

text \<open>\<open>no_overflow k act\<close>: the action cannot run out of depth from a state with at most \<open>k\<close>
  unmarked types.\<close>

definition no_overflow :: "nat \<Rightarrow> 'a info_action \<Rightarrow> bool" where
  "no_overflow k act \<longleftrightarrow> (\<forall>st. free_types st \<le> k \<longrightarrow> fst (act st) \<noteq> Inl StackOverflow)"

lemma no_overflow_abind:
  assumes "no_overflow k m" "keeps_marks m" "\<And>a. no_overflow k (f a)"
  shows "no_overflow k (abind m f)"
  unfolding no_overflow_def
proof (intro allI impI)
  fix st assume st: "free_types st \<le> k"
  obtain r st' where m: "m st = (r, st')" by (cases "m st")
  show "fst (abind m f st) \<noteq> Inl StackOverflow"
  proof (cases r)
    case (Inl e)
    with m st assms(1) show ?thesis by (auto simp: no_overflow_def dest: spec [of _ st])
  next
    case (Inr a)
    with m assms(2) have "visiting st' = visiting st" by (auto simp: keeps_marks_def)
    with st have "free_types st' \<le> k" by (simp add: free_types_def)
    with m Inr assms(3) show ?thesis by (simp add: no_overflow_def)
  qed
qed

lemma no_overflow_simps [simp]: "no_overflow k (aret a)"
  by (simp add: no_overflow_def)

lemma no_overflow_afold:
  "(\<And>x acc. no_overflow k (f x acc)) \<Longrightarrow> (\<And>x acc. keeps_marks (f x acc)) \<Longrightarrow>
   no_overflow k (afold f xs acc)"
  by (induction xs arbitrary: acc) (auto intro: no_overflow_abind)

lemma no_overflow_compute_info:
  assumes "\<And>j. no_overflow k (rec j)" "\<And>j. keeps_marks (rec j)"
  shows "no_overflow k (compute_info rec i ty)"
proof -
  have v: "no_overflow k (valtype_info rec t)" "keeps_marks (valtype_info rec t)" for t
    using assms by (simp_all add: valtype_info_def split: comp_valtype.split)
  have r: "no_overflow k (record_step rec t acc)" "keeps_marks (record_step rec t acc)" for t acc
    by (auto simp: record_step_def split: prod.split intro!: keeps_marks_abind no_overflow_abind v)
  have c: "no_overflow k (variant_step rec t acc)" "keeps_marks (variant_step rec t acc)" for t acc
    by (auto simp: variant_step_def split: prod.split option.split
        intro!: keeps_marks_abind no_overflow_abind v)
  have d: "no_overflow k (alift (variant_discriminant_size n))" for n
    by (simp add: no_overflow_def variant_discriminant_size_def)
  show ?thesis
    by (auto simp: compute_info_def Let_def v r c d split: comp_type.split defval.split prod.split
        intro!: no_overflow_abind no_overflow_afold keeps_marks_afold)
qed

lemma filter_Not_update:
  "i < length vs \<Longrightarrow> \<not> vs ! i \<Longrightarrow>
   Suc (length (filter Not (vs[i := True]))) = length (filter Not vs)"
  by (induction vs arbitrary: i) (auto simp: nth_Cons' split: nat.splits)

lemma free_types_mark:
  assumes "i < length (visiting st)" "\<not> visiting st ! i"
  shows "Suc (free_types (st\<lparr>visiting := (visiting st)[i := True]\<rparr>)) = free_types st"
  using filter_Not_update [OF assms] by (simp add: free_types_def)

lemma no_overflow_type_info: "k < n \<Longrightarrow> no_overflow k (type_info_of n types i)"
proof (induction n arbitrary: k i)
  case (Suc n)
  show ?case
    unfolding no_overflow_def
  proof (intro allI impI)
    fix st assume st: "free_types st \<le> k"
    let ?st1 = "st\<lparr>visiting := (visiting st)[i := True]\<rparr>"
    have ov: "fst (compute_info (type_info_of n types) i ty ?st1) \<noteq> Inl StackOverflow"
      if "i < length (visiting st)" "\<not> visiting st ! i" for ty
    proof -
      from free_types_mark [OF that] st have "free_types ?st1 \<le> k - 1" "k - 1 < n"
        using Suc.prems by auto
      moreover have "no_overflow (k - 1) (compute_info (type_info_of n types) i ty)"
        by (intro no_overflow_compute_info Suc.IH keeps_marks_type_info \<open>k - 1 < n\<close>)
      ultimately show ?thesis by (simp add: no_overflow_def)
    qed
    show "fst (type_info_of (Suc n) types i st) \<noteq> Inl StackOverflow"
    proof (cases rule: type_info_of_cases [of i st n types])
      case miss
      obtain r st2 where r: "compute_info (type_info_of n types) i (types ! i) ?st1 = (r, st2)"
        by (cases "compute_info (type_info_of n types) i (types ! i) ?st1")
      with ov miss(2,3) have "r \<noteq> Inl StackOverflow" by (metis fst_conv)
      with r miss(5) show ?thesis
        by (cases r) (simp_all del: type_info_of.simps)
    qed (simp_all del: type_info_of.simps)
  qed
qed simp

lemma infos_from_marks:
  "keeps_marks (infos_from n types is) \<and> (k < n \<longrightarrow> no_overflow k (infos_from n types is))"
  by (induction "is")
    (auto intro!: keeps_marks_abind no_overflow_abind keeps_marks_type_info no_overflow_type_info
      simp del: action_simps)

text \<open>The layout walk of \<open>compile\<close> returns on every type store, cyclic or with dangling
  type identifiers included: it never recurses deeper than the number of types plus one.\<close>

theorem build_type_infos_returns: "build_type_infos types \<noteq> Inl StackOverflow"
proof -
  let ?st = "\<lparr>memo = replicate (length types) None, visiting = replicate (length types) False\<rparr>"
  have "no_overflow (length types) (infos_from (length types + 1) types [0..<length types])"
    using infos_from_marks by simp
  moreover have "free_types ?st \<le> length types" by (simp add: free_types_def)
  ultimately show ?thesis by (simp add: build_type_infos_def no_overflow_def)
qed

section \<open>The layout specification\<close>

text \<open>Flat length, size and alignment on unbounded numbers, as the canonical ABI defines them.\<close>

record layout =
  ly_flat :: nat
  ly_size :: nat
  ly_align :: nat

definition align_up :: "nat \<Rightarrow> nat \<Rightarrow> nat" where
  "align_up v a = div_ceil v a * a"

definition prim_layout :: "prim_valtype \<Rightarrow> layout" where
  "prim_layout p =
     (case p of
        PBool \<Rightarrow> \<lparr>ly_flat = 1, ly_size = 1, ly_align = 1\<rparr>
      | PS8 \<Rightarrow> \<lparr>ly_flat = 1, ly_size = 1, ly_align = 1\<rparr>
      | PU8 \<Rightarrow> \<lparr>ly_flat = 1, ly_size = 1, ly_align = 1\<rparr>
      | PS16 \<Rightarrow> \<lparr>ly_flat = 1, ly_size = 2, ly_align = 2\<rparr>
      | PU16 \<Rightarrow> \<lparr>ly_flat = 1, ly_size = 2, ly_align = 2\<rparr>
      | PS32 \<Rightarrow> \<lparr>ly_flat = 1, ly_size = 4, ly_align = 4\<rparr>
      | PU32 \<Rightarrow> \<lparr>ly_flat = 1, ly_size = 4, ly_align = 4\<rparr>
      | PS64 \<Rightarrow> \<lparr>ly_flat = 1, ly_size = 8, ly_align = 8\<rparr>
      | PU64 \<Rightarrow> \<lparr>ly_flat = 1, ly_size = 8, ly_align = 8\<rparr>
      | PF32 \<Rightarrow> \<lparr>ly_flat = 1, ly_size = 4, ly_align = 4\<rparr>
      | PF64 \<Rightarrow> \<lparr>ly_flat = 1, ly_size = 8, ly_align = 8\<rparr>
      | PChar \<Rightarrow> \<lparr>ly_flat = 1, ly_size = 4, ly_align = 4\<rparr>
      | PString \<Rightarrow> \<lparr>ly_flat = 2, ly_size = 8, ly_align = 4\<rparr>)"

definition add_field :: "layout \<Rightarrow> layout \<Rightarrow> layout" where
  "add_field a f =
     \<lparr>ly_flat = ly_flat a + ly_flat f,
      ly_size = align_up (ly_size a) (ly_align f) + ly_size f,
      ly_align = max (ly_align a) (ly_align f)\<rparr>"

definition record_layout :: "layout list \<Rightarrow> layout" where
  "record_layout ls =
     (let a = foldl add_field \<lparr>ly_flat = 0, ly_size = 0, ly_align = 1\<rparr> ls
      in a\<lparr>ly_size := align_up (ly_size a) (ly_align a)\<rparr>)"

definition join_case :: "layout \<Rightarrow> layout \<Rightarrow> layout" where
  "join_case a c =
     \<lparr>ly_flat = max (ly_flat a) (ly_flat c),
      ly_size = max (ly_size a) (ly_size c),
      ly_align = max (ly_align a) (ly_align c)\<rparr>"

definition discriminant_bytes :: "nat \<Rightarrow> nat" where
  "discriminant_bytes n = (if n \<le> 2 ^ 8 then 1 else if n \<le> 2 ^ 16 then 2 else 4)"

definition variant_layout :: "nat \<Rightarrow> layout list \<Rightarrow> layout" where
  "variant_layout n ls =
     (let d = discriminant_bytes n;
          p = foldl join_case \<lparr>ly_flat = 0, ly_size = 0, ly_align = d\<rparr> ls
      in \<lparr>ly_flat = 1 + ly_flat p,
          ly_size = align_up (align_up d (ly_align p) + ly_size p) (ly_align p),
          ly_align = ly_align p\<rparr>)"

definition flags_layout :: "nat \<Rightarrow> layout" where
  "flags_layout n =
     (if n = 0 then \<lparr>ly_flat = 0, ly_size = 0, ly_align = 1\<rparr>
      else if n \<le> 8 then \<lparr>ly_flat = 1, ly_size = 1, ly_align = 1\<rparr>
      else if n \<le> 16 then \<lparr>ly_flat = 1, ly_size = 2, ly_align = 2\<rparr>
      else \<lparr>ly_flat = div_ceil n 32, ly_size = 4 * div_ceil n 32, ly_align = 4\<rparr>)"

definition val_layout :: "(type_id \<Rightarrow> layout) \<Rightarrow> comp_valtype \<Rightarrow> layout" where
  "val_layout rec ty = (case ty of VPrim p \<Rightarrow> prim_layout p | VType i \<Rightarrow> rec i)"

definition comp_layout :: "(type_id \<Rightarrow> layout) \<Rightarrow> comp_type \<Rightarrow> layout" where
  "comp_layout rec ty =
     (case ty of
        TDefVal (DPrim p) \<Rightarrow> prim_layout p
      | TDefVal (DRecord fs) \<Rightarrow> record_layout (map (val_layout rec) (abi_deps ty))
      | TDefVal (DVariant cases) \<Rightarrow>
          variant_layout (length cases) (map (val_layout rec) (abi_deps ty))
      | TDefVal (DFlags labels) \<Rightarrow> flags_layout (length labels)
      | TDefVal (DList elem len) \<Rightarrow> \<lparr>ly_flat = 2, ly_size = 8, ly_align = 4\<rparr>
      | TDefVal (DOwn _) \<Rightarrow> \<lparr>ly_flat = 1, ly_size = 4, ly_align = 4\<rparr>
      | TDefVal (DBorrow _) \<Rightarrow> \<lparr>ly_flat = 1, ly_size = 4, ly_align = 4\<rparr>
      | TResource _ \<Rightarrow> \<lparr>ly_flat = 1, ly_size = 4, ly_align = 4\<rparr>
      | TGeneric _ \<Rightarrow> \<lparr>ly_flat = 1, ly_size = 4, ly_align = 4\<rparr>
      | _ \<Rightarrow> \<lparr>ly_flat = 0, ly_size = 0, ly_align = 1\<rparr>)"

primrec layout_of :: "nat \<Rightarrow> comp_type list \<Rightarrow> type_id \<Rightarrow> layout" where
  "layout_of 0 types i = \<lparr>ly_flat = 0, ly_size = 0, ly_align = 1\<rparr>"
| "layout_of (Suc n) types i = comp_layout (layout_of n types) (types ! i)"

lemma comp_layout_cong:
  assumes "map (val_layout r) (abi_deps ty) = map (val_layout r') (abi_deps ty)"
  shows "comp_layout r ty = comp_layout r' ty"
proof (cases ty)
  case (TDefVal d)
  then show ?thesis using assms
    by (cases d) (simp_all add: comp_layout_def del: map_eq_conv abi_deps.simps)
qed (simp_all add: comp_layout_def)

lemma layout_of_mono:
  assumes "fits n types (VType i)" "n \<le> m"
  shows "layout_of m types i = layout_of n types i"
  using assms
proof (induction n arbitrary: m i)
  case (Suc n)
  from Suc.prems obtain k where k: "m = Suc k" "n \<le> k" by (cases m) auto
  from Suc.prems have deps: "\<forall>v \<in> set (abi_deps (types ! i)). fits n types v" by simp
  have "map (val_layout (layout_of k types)) (abi_deps (types ! i)) =
      map (val_layout (layout_of n types)) (abi_deps (types ! i))"
    by (rule map_cong)
      (use deps Suc.IH k(2) in \<open>auto simp: val_layout_def split: comp_valtype.split\<close>)
  then show ?case unfolding k(1) layout_of.simps by (rule comp_layout_cong)
qed simp

section \<open>The walk computes the specified layouts\<close>

subsection \<open>Machine arithmetic against natural numbers\<close>

lemma align_up_mod:
  assumes "0 < a"
  shows "align_up v a = (if v mod a = 0 then v else v + (a - v mod a))"
proof -
  obtain c where c: "a = Suc c" using assms by (cases a) auto
  define q r where "q = v div a" and "r = v mod a"
  then have v: "v = r + q * a" "r < a" using assms by (auto simp: mod_div_mult_eq)
  have "(v + c) div a = ((r + c) + q * a) div a" using v(1) by (simp add: ac_simps)
  also have "\<dots> = q + (r + c) div a" using assms by (simp add: div_mult_self1)
  also have "(r + c) div a = (if r = 0 then 0 else 1)"
  proof (cases "r = 0")
    case False
    then have "r + c = (r - 1) + 1 * a" "r - 1 < a" using c v(2) by auto
    then show ?thesis using False assms by (simp only: div_mult_self1) simp
  qed (use c in simp)
  finally have "align_up v a = (q + (if r = 0 then 0 else 1)) * a"
    by (simp add: align_up_def div_ceil_def c)
  with v show ?thesis
    by (auto simp: r_def [symmetric] algebra_simps)
qed

lemma align_up_ge: "0 < a \<Longrightarrow> v \<le> align_up v a"
  by (metis align_up_mod le_add1 le_refl)

lemma align_up_dvd: "a dvd align_up v a"
  by (simp add: align_up_def)

lemma align_up_1 [simp]: "align_up v (Suc 0) = v"
  by (simp add: align_up_def div_ceil_def)

lemma unat_plus:
  "unat a + unat b < 2 ^ LENGTH('a) \<Longrightarrow> unat (a + b) = unat a + unat (b :: 'a::len word)"
  using unat_add_lem [of a b] by simp

lemma unat_align_to:
  assumes "0 < unat a" "align_up (unat v) (unat a) < 2 ^ 32"
  shows "unat (align_to v a) = align_up (unat v) (unat a)"
proof (cases "a \<le> 1")
  case True
  then have "unat a \<le> 1" by (simp add: word_le_nat_alt)
  with assms have "unat a = 1" by simp
  with True show ?thesis by (simp add: align_to_def)
next
  case False
  have m: "unat (v mod a) = unat v mod unat a" by (simp add: unat_mod)
  have lt: "unat v mod unat a < unat a" using assms(1) by simp
  show ?thesis
  proof (cases "v mod a = 0")
    case True
    with m have "unat v mod unat a = 0" by simp
    with False True assms show ?thesis by (simp add: align_to_def align_up_mod)
  next
    case F2: False
    with m have nz: "unat v mod unat a \<noteq> 0" by (metis unat_eq_zero)
    have s: "unat (a - v mod a) = unat a - unat v mod unat a"
      using lt m by (simp add: unat_sub word_le_nat_alt)
    have "unat (v + (a - v mod a)) = unat v + (unat a - unat v mod unat a)"
      using assms nz s by (subst unat_plus) (simp_all add: align_up_mod)
    with False F2 nz assms show ?thesis by (simp add: align_to_def align_up_mod Let_def)
  qed
qed

lemma unat_saturating_add:
  "unat a + unat b < 2 ^ 32 \<Longrightarrow> unat (saturating_add a b) = unat a + unat b"
  by (simp add: saturating_add_def unat_plus)

text \<open>What the metadata says of a layout: the size only when it fits 32 bits.\<close>

definition info_ok :: "layout \<Rightarrow> type_info \<Rightarrow> bool" where
  "info_ok l info \<longleftrightarrow>
     ti_flat_len info = ly_flat l \<and> unat (ti_align info) = ly_align l \<and> 0 < ly_align l \<and>
     (ly_size l < 2 ^ 32 \<longrightarrow> unat (ti_size info) = ly_size l)"

definition acc_ok :: "layout \<Rightarrow> nat \<times> u32 \<times> u32 \<Rightarrow> bool" where
  "acc_ok l acc \<longleftrightarrow> (case acc of (fl, sz, al) \<Rightarrow>
     fl = ly_flat l \<and> unat al = ly_align l \<and> 0 < ly_align l \<and>
     (ly_size l < 2 ^ 32 \<longrightarrow> unat sz = ly_size l))"

definition add_info :: "type_info \<Rightarrow> nat \<times> u32 \<times> u32 \<Rightarrow> nat \<times> u32 \<times> u32" where
  "add_info info = (\<lambda>(flat_len, sz, align).
     (flat_len + ti_flat_len info,
      saturating_add (align_to sz (ti_align info)) (ti_size info),
      max align (ti_align info)))"

definition join_info :: "type_info \<Rightarrow> nat \<times> u32 \<times> u32 \<Rightarrow> nat \<times> u32 \<times> u32" where
  "join_info info = (\<lambda>(payload_flat, payload_size, payload_align).
     (max payload_flat (ti_flat_len info),
      max payload_size (ti_size info),
      max payload_align (ti_align info)))"

lemma unat_max: "unat (max a b) = max (unat a) (unat (b :: 'a::len word))"
  by (auto simp: max_def word_le_nat_alt)

lemma acc_ok_add:
  assumes "acc_ok a acc" "info_ok f info"
  shows "acc_ok (add_field a f) (add_info info acc)"
proof -
  obtain fl sz al where acc: "acc = (fl, sz, al)" by (cases acc)
  have "unat (saturating_add (align_to sz (ti_align info)) (ti_size info)) =
      align_up (ly_size a) (ly_align f) + ly_size f"
    if b: "align_up (ly_size a) (ly_align f) + ly_size f < 2 ^ 32"
  proof -
    from assms acc have al: "unat (ti_align info) = ly_align f" "0 < ly_align f"
      by (auto simp: info_ok_def)
    from align_up_ge [OF al(2), of "ly_size a"] b assms acc
    have sz: "unat sz = ly_size a" "unat (ti_size info) = ly_size f"
      by (auto simp: info_ok_def acc_ok_def)
    then have "unat (align_to sz (ti_align info)) = align_up (ly_size a) (ly_align f)"
      using unat_align_to [of "ti_align info" sz] al b by simp
    with sz b show ?thesis by (simp add: unat_saturating_add)
  qed
  with assms acc show ?thesis
    by (auto simp: acc_ok_def info_ok_def add_field_def add_info_def unat_max)
qed

lemma acc_ok_join:
  "acc_ok a acc \<Longrightarrow> info_ok c info \<Longrightarrow> acc_ok (join_case a c) (join_info info acc)"
  by (auto simp: acc_ok_def info_ok_def join_case_def join_info_def unat_max split: prod.splits)

lemma acc_ok_fold_add:
  "list_all2 info_ok ls infos \<Longrightarrow> acc_ok a acc \<Longrightarrow>
   acc_ok (foldl add_field a ls) (fold add_info infos acc)"
  by (induction ls infos arbitrary: a acc rule: list_all2_induct)
    (simp_all add: acc_ok_add)

lemma acc_ok_fold_join:
  "list_all2 info_ok ls infos \<Longrightarrow> acc_ok a acc \<Longrightarrow>
   acc_ok (foldl join_case a ls) (fold join_info infos acc)"
  by (induction ls infos arbitrary: a acc rule: list_all2_induct)
    (simp_all add: acc_ok_join)

lemma info_ok_primitive: "info_ok (prim_layout p) (primitive_info p)"
  by (cases p) (simp_all add: info_ok_def prim_layout_def primitive_info_def mk_info_def)

subsection \<open>The memo invariant\<close>

definition known :: "info_state \<Rightarrow> nat" where
  "known st = length (filter (\<lambda>m. m \<noteq> None) (memo st))"

definition memo_ok :: "comp_type list \<Rightarrow> info_state \<Rightarrow> bool" where
  "memo_ok types st \<longleftrightarrow>
     length (memo st) = length types \<and> length (visiting st) = length types \<and>
     (\<forall>i < length types. \<forall>info. memo st ! i = Some info \<longrightarrow>
        fits (known st) types (VType i) \<and> info_ok (layout_of (known st) types i) info)"

text \<open>One step of the walk only adds entries, and none for a type in progress.\<close>

definition grows :: "info_state \<Rightarrow> info_state \<Rightarrow> bool" where
  "grows st st' \<longleftrightarrow>
     visiting st' = visiting st \<and> length (memo st') = length (memo st) \<and>
     (\<forall>j < length (memo st). (memo st ! j \<noteq> None \<or> visiting st ! j) \<longrightarrow> memo st' ! j = memo st ! j)"

lemma grows_refl [simp]: "grows st st"
  by (simp add: grows_def)

lemma grows_trans: "grows a b \<Longrightarrow> grows b c \<Longrightarrow> grows a c"
  by (auto simp: grows_def)

definition told :: "comp_type list \<Rightarrow> info_state \<Rightarrow> comp_valtype \<Rightarrow> type_info \<Rightarrow> bool" where
  "told types st ty info \<longleftrightarrow>
     (case ty of VPrim p \<Rightarrow> info = primitive_info p
      | VType i \<Rightarrow> i < length types \<and> memo st ! i = Some info)"

lemma told_grows:
  "told types st ty info \<Longrightarrow> grows st st' \<Longrightarrow> length (memo st) = length types \<Longrightarrow>
   told types st' ty info"
  by (auto simp: told_def grows_def split: comp_valtype.splits)

lemma told_fits:
  "told types st ty info \<Longrightarrow> memo_ok types st \<Longrightarrow>
   fits (known st) types ty \<and> info_ok (val_layout (layout_of (known st) types) ty) info"
  by (auto simp: told_def memo_ok_def val_layout_def info_ok_primitive split: comp_valtype.splits)

text \<open>An action that keeps the invariant and whose result is recorded in the state.\<close>

definition walks ::
  "comp_type list \<Rightarrow> (info_state \<Rightarrow> 'a \<Rightarrow> bool) \<Rightarrow> 'a info_action \<Rightarrow> bool" where
  "walks types Q act \<longleftrightarrow>
     (\<forall>st a st'. memo_ok types st \<longrightarrow> act st = (Inr a, st') \<longrightarrow>
        memo_ok types st' \<and> grows st st' \<and> Q st' a)"

lemma walksD:
  "walks types Q act \<Longrightarrow> act st = (Inr a, st') \<Longrightarrow> memo_ok types st \<Longrightarrow>
   memo_ok types st' \<and> grows st st' \<and> Q st' a"
  by (auto simp: walks_def)

lemma memo_ok_length: "memo_ok types st \<Longrightarrow> length (memo st) = length types"
  by (simp add: memo_ok_def)

lemma valtype_info_walks:
  "(\<And>i. walks types (\<lambda>st. told types st (VType i)) (rec i)) \<Longrightarrow>
   walks types (\<lambda>st. told types st ty) (valtype_info rec ty)"
  by (cases ty) (auto simp: valtype_info_def walks_def told_def)

text \<open>A loop over the dependencies is a fold of their metadata.\<close>

lemma afold_walks:
  assumes body: "\<And>t acc. body t acc =
      (case g t of None \<Rightarrow> aret acc
       | Some ty \<Rightarrow> abind (valtype_info rec ty) (\<lambda>info. aret (step info acc)))"
    and rec: "\<And>i. walks types (\<lambda>st. told types st (VType i)) (rec i)"
  shows "walks types (\<lambda>st acc'. \<exists>infos. list_all2 (told types st) (List.map_filter g ts) infos \<and>
      acc' = fold step infos acc) (afold body ts acc)"
proof (induction ts arbitrary: acc)
  case Nil
  show ?case by (auto simp: walks_def map_filter_simps)
next
  case (Cons t ts)
  note ih = Cons.IH
  show ?case
  proof (cases "g t")
    case None
    then have "afold body (t # ts) acc = afold body ts acc"
      by (simp add: body fun_eq_iff abind_def)
    with ih [of acc] None show ?thesis by (simp add: map_filter_simps)
  next
    case (Some ty)
    show ?thesis unfolding walks_def
    proof (intro allI impI)
      fix st acc' st'
      assume st: "memo_ok types st" and run: "afold body (t # ts) acc st = (Inr acc', st')"
      from run Some obtain info st1 where 1: "valtype_info rec ty st = (Inr info, st1)"
          "afold body ts (step info acc) st1 = (Inr acc', st')"
        by (auto simp: body abind_Inr_iff)
      from walksD [OF valtype_info_walks [OF rec] 1(1) st]
      have st1: "memo_ok types st1" "grows st st1" "told types st1 ty info" by auto
      from walksD [OF ih 1(2) st1(1)] obtain infos where
          st': "memo_ok types st'" "grows st1 st'"
          and infos: "list_all2 (told types st') (List.map_filter g ts) infos"
            "acc' = fold step infos (step info acc)" by auto
      have "told types st' ty info" using told_grows [OF st1(3) st'(2)] st1(1)
        by (simp add: memo_ok_length)
      with Some infos have "list_all2 (told types st') (List.map_filter g (t # ts)) (info # infos)"
        "acc' = fold step (info # infos) acc" by (simp_all add: map_filter_simps)
      with st' st1 show "memo_ok types st' \<and> grows st st' \<and>
          (\<exists>infos. list_all2 (told types st') (List.map_filter g (t # ts)) infos \<and>
             acc' = fold step infos acc)"
        using grows_trans by blast
    qed
  qed
qed

lemma record_fold_walks:
  assumes "\<And>i. walks types (\<lambda>st. told types st (VType i)) (rec i)"
  shows "walks types (\<lambda>st acc'. \<exists>infos. list_all2 (told types st) (map fl_ty fs) infos \<and>
      acc' = fold add_info infos acc) (afold (\<lambda>f. record_step rec (fl_ty f)) fs acc)"
proof -
  have b: "record_step rec (fl_ty f) acc =
      (case Some (fl_ty f) of None \<Rightarrow> aret acc
       | Some ty \<Rightarrow> abind (valtype_info rec ty) (\<lambda>info. aret (add_info info acc)))" for f acc
    by (simp add: record_step_def add_info_def split: prod.split)
  have "List.map_filter (\<lambda>f. Some (fl_ty f)) fs = map fl_ty fs"
    by (simp add: List.map_filter_def comp_def)
  with afold_walks [where g = "\<lambda>f. Some (fl_ty f)", OF b assms, where ts = fs and acc = acc]
  show ?thesis by simp
qed

lemma variant_fold_walks:
  assumes "\<And>i. walks types (\<lambda>st. told types st (VType i)) (rec i)"
  shows "walks types (\<lambda>st acc'. \<exists>infos. list_all2 (told types st) (List.map_filter cs_ty cases) infos \<and>
      acc' = fold join_info infos acc) (afold (\<lambda>c. variant_step rec (cs_ty c)) cases acc)"
proof -
  have b: "variant_step rec (cs_ty c) acc =
      (case cs_ty c of None \<Rightarrow> aret acc
       | Some ty \<Rightarrow> abind (valtype_info rec ty) (\<lambda>info. aret (join_info info acc)))" for c acc
    by (simp add: variant_step_def join_info_def split: prod.split option.split)
  from afold_walks [OF b assms] show ?thesis .
qed

subsection \<open>One type, and the whole store\<close>

lemma list_all2_told:
  assumes "list_all2 (told types st) tys infos" "memo_ok types st"
  shows "(\<forall>v \<in> set tys. fits (known st) types v) \<and>
    list_all2 info_ok (map (val_layout (layout_of (known st) types)) tys) infos"
  using assms(1)
proof (induction tys infos rule: list_all2_induct)
  case (Cons ty tys info infos)
  with told_fits [OF Cons(1) assms(2)] show ?case by simp
qed simp

lemma max_one_word: "0 < unat (a :: u32) \<Longrightarrow> max a 1 = a"
  by (simp add: word_eq_iff_unsigned [where ?'a = nat] unat_max)

lemma info_ok_record:
  assumes "list_all2 info_ok ls infos" "fold add_info infos (0, 0, 1) = (fl, sz, al)"
  shows "info_ok (record_layout ls) (mk_info i fl (align_to sz (max al 1)) (max al 1) None)"
proof -
  let ?z = "\<lparr>ly_flat = 0, ly_size = 0, ly_align = 1\<rparr>"
  let ?a = "foldl add_field ?z ls"
  have "acc_ok ?z (0, 0, 1)" by (simp add: acc_ok_def)
  from acc_ok_fold_add [OF assms(1) this] assms(2) have a: "acc_ok ?a (fl, sz, al)" by simp
  then have m: "max al 1 = al" "0 < unat al" "unat al = ly_align ?a"
    by (simp_all add: acc_ok_def max_one_word)
  have "unat (align_to sz al) = align_up (ly_size ?a) (unat al)"
    if "align_up (ly_size ?a) (unat al) < 2 ^ 32"
    using that a align_up_ge [OF m(2), of "ly_size ?a"] m(2) unat_align_to [of al sz]
    by (auto simp: acc_ok_def)
  with a m show ?thesis
    by (auto simp: info_ok_def acc_ok_def record_layout_def mk_info_def Let_def)
qed

lemma variant_discriminant_size_bytes:
  "variant_discriminant_size n = Inr d \<Longrightarrow> unat d = discriminant_bytes n"
  by (auto simp: variant_discriminant_size_def discriminant_bytes_def split: if_splits)

lemma info_ok_variant:
  assumes "list_all2 info_ok ls infos" "unat d = discriminant_bytes n"
    and "fold join_info infos (0, 0, d) = (fl, sz, al)"
  shows "info_ok (variant_layout n ls)
    (mk_info i (1 + fl) (align_to (saturating_add (align_to d (max al 1)) sz) (max al 1)) (max al 1) None)"
proof -
  let ?z = "\<lparr>ly_flat = 0, ly_size = 0, ly_align = discriminant_bytes n\<rparr>"
  let ?p = "foldl join_case ?z ls"
  let ?o = "align_up (discriminant_bytes n) (ly_align ?p)"
  let ?s = "align_up (?o + ly_size ?p) (ly_align ?p)"
  have "acc_ok ?z (0, 0, d)" using assms(2) by (simp add: acc_ok_def discriminant_bytes_def)
  from acc_ok_fold_join [OF assms(1) this] assms(3) have p: "acc_ok ?p (fl, sz, al)" by simp
  then have m: "max al 1 = al" "unat al = ly_align ?p" "0 < ly_align ?p"
    by (simp_all add: acc_ok_def max_one_word)
  have "unat (align_to (saturating_add (align_to d al) sz) al) = ?s" if b: "?s < 2 ^ 32"
  proof -
    have "?o + ly_size ?p < 2 ^ 32" using b align_up_ge [OF m(3), of "?o + ly_size ?p"] by simp
    moreover have "unat (align_to d al) = ?o"
      using unat_align_to [of al d] calculation m assms(2) by simp
    moreover have "unat sz = ly_size ?p" using p calculation(1) by (simp add: acc_ok_def)
    ultimately have "unat (saturating_add (align_to d al) sz) = ?o + ly_size ?p"
      by (simp add: unat_saturating_add)
    then show ?thesis using unat_align_to [of al "saturating_add (align_to d al) sz"] m b by simp
  qed
  with p m show ?thesis
    by (auto simp: info_ok_def acc_ok_def variant_layout_def mk_info_def Let_def)
qed

lemma info_ok_flags:
  "flags_info n = (fl, sz, al) \<Longrightarrow> info_ok (flags_layout n) (mk_info i fl sz al len)"
  by (auto simp: flags_info_def flags_layout_def info_ok_def mk_info_def Let_def
      unat_mult_lem [THEN iffD1] unat_of_nat split: if_splits)

lemma compute_info_walks:
  assumes rec: "\<And>i. walks types (\<lambda>st. told types st (VType i)) (rec i)"
  shows "walks types (\<lambda>st info. (\<forall>v \<in> set (abi_deps ty). fits (known st) types v) \<and>
      info_ok (comp_layout (layout_of (known st) types) ty) info) (compute_info rec i ty)"
    (is "walks _ ?Q _")
proof -
  have triv: "walks types ?Q (compute_info rec i ty)"
    if "abi_deps ty = []" "compute_info rec i ty = aret info" "info_ok (comp_layout (\<lambda>_. undefined) ty) info"
    for info
  proof -
    have "comp_layout r ty = comp_layout (\<lambda>_. undefined) ty" for r
      by (rule comp_layout_cong) (simp add: that)
    with that(3) have "info_ok (comp_layout r ty) info" for r by metis
    with that(1,2) show ?thesis by (auto simp: walks_def)
  qed
  note ci = compute_info_def comp_layout_def info_ok_def mk_info_def
  show ?thesis
  proof (cases ty)
    case (TDefVal d)
    show ?thesis
    proof (cases d)
      case (DPrim p)
      with TDefVal show ?thesis
        by (intro triv) (auto simp: compute_info_def comp_layout_def info_ok_primitive)
    next
      case (DRecord fs)
      show ?thesis unfolding walks_def
      proof (intro allI impI)
        fix st info st' assume st: "memo_ok types st" and "compute_info rec i ty st = (Inr info, st')"
        then obtain fl sz al where
            run: "afold (\<lambda>f. record_step rec (fl_ty f)) fs (0, 0, 1) st = (Inr (fl, sz, al), st')"
            and info: "info = mk_info i fl (align_to sz (max al 1)) (max al 1) None"
          by (auto simp: compute_info_def TDefVal DRecord abind_Inr_iff)
        from walksD [OF record_fold_walks [OF rec] run st] obtain infos where
            w: "memo_ok types st'" "grows st st'" "list_all2 (told types st') (map fl_ty fs) infos"
              "fold add_info infos (0, 0, 1) = (fl, sz, al)" by auto
        with list_all2_told [OF w(3,1)] info_ok_record [OF _ w(4)] info
        show "memo_ok types st' \<and> grows st st' \<and> ?Q st' info"
          by (simp add: TDefVal DRecord comp_layout_def)
      qed
    next
      case (DVariant cases)
      show ?thesis unfolding walks_def
      proof (intro allI impI)
        fix st info st' assume st: "memo_ok types st" and "compute_info rec i ty st = (Inr info, st')"
        then obtain ds fl sz al where ds: "variant_discriminant_size (length cases) = Inr ds" and
            run: "afold (\<lambda>c. variant_step rec (cs_ty c)) cases (0, 0, ds) st = (Inr (fl, sz, al), st')"
            and info: "info = mk_info i (1 + fl)
              (align_to (saturating_add (align_to ds (max al 1)) sz) (max al 1)) (max al 1) None"
          by (auto simp: compute_info_def TDefVal DVariant abind_Inr_iff Let_def)
        from walksD [OF variant_fold_walks [OF rec] run st] obtain infos where
            w: "memo_ok types st'" "grows st st'"
              "list_all2 (told types st') (List.map_filter cs_ty cases) infos"
              "fold join_info infos (0, 0, ds) = (fl, sz, al)" by auto
        with list_all2_told [OF w(3,1)] info info_ok_variant
            [OF _ variant_discriminant_size_bytes [OF ds] w(4)]
        show "memo_ok types st' \<and> grows st st' \<and> ?Q st' info"
          by (simp add: TDefVal DVariant comp_layout_def)
      qed
    next
      case (DList elem len)
      show ?thesis unfolding walks_def
      proof (intro allI impI)
        fix st info st' assume st: "memo_ok types st" and "compute_info rec i ty st = (Inr info, st')"
        then obtain e where run: "valtype_info rec elem st = (Inr e, st')"
            and info: "info = mk_info i 2 8 4 (map_option of_nat len)"
          by (auto simp: compute_info_def TDefVal DList abind_Inr_iff)
        from walksD [OF valtype_info_walks [OF rec] run st] have
            w: "memo_ok types st'" "grows st st'" "told types st' elem e" by auto
        with told_fits [OF w(3,1)] info
        show "memo_ok types st' \<and> grows st st' \<and> ?Q st' info"
          by (simp add: TDefVal DList comp_layout_def info_ok_def mk_info_def)
      qed
    next
      case (DFlags labels)
      obtain fl sz al where "flags_info (length labels) = (fl, sz, al)"
        by (cases "flags_info (length labels)")
      with TDefVal DFlags show ?thesis
        by (intro triv) (auto simp: compute_info_def comp_layout_def info_ok_flags)
    qed (use TDefVal in \<open>auto simp: ci walks_def\<close>)
  qed (auto simp: ci walks_def)
qed

lemma known_update:
  "i < length ms \<Longrightarrow> ms ! i = None \<Longrightarrow>
   length (filter (\<lambda>m. m \<noteq> None) (ms[i := Some x])) = Suc (length (filter (\<lambda>m. m \<noteq> None) ms))"
  by (induction ms arbitrary: i) (auto simp: nth_Cons' split: nat.splits)

lemma memo_ok_insert:
  assumes "memo_ok types st" "i < length types" "memo st ! i = None"
    and "\<forall>v \<in> set (abi_deps (types ! i)). fits (known st) types v"
    and "info_ok (comp_layout (layout_of (known st) types) (types ! i)) info"
    and "length vs = length types"
  shows "memo_ok types (st\<lparr>visiting := vs, memo := (memo st)[i := Some info]\<rparr>)"
proof -
  let ?st = "st\<lparr>visiting := vs, memo := (memo st)[i := Some info]\<rparr>"
  have k: "known ?st = Suc (known st)"
    using known_update [of i "memo st"] assms(1-3) by (simp add: known_def memo_ok_def)
  have "fits (known ?st) types (VType j) \<and> info_ok (layout_of (known ?st) types j) x"
    if "j < length types" "memo ?st ! j = Some x" for j x
  proof (cases "j = i")
    case True
    with that assms have "x = info" by (simp add: memo_ok_def)
    with True assms k show ?thesis by simp
  next
    case False
    with that assms(1) have f: "fits (known st) types (VType j)" "info_ok (layout_of (known st) types j) x"
      by (auto simp: memo_ok_def)
    then show ?thesis unfolding k
      using fits_Suc [OF f(1)] layout_of_mono [OF f(1), of "Suc (known st)"]
      by (simp del: fits.simps layout_of.simps)
  qed
  with assms(1,6) show ?thesis by (simp add: memo_ok_def)
qed

lemma type_info_of_walks: "walks types (\<lambda>st. told types st (VType i)) (type_info_of n types i)"
proof (induction n arbitrary: i)
  case (Suc n)
  show ?case unfolding walks_def
  proof (intro allI impI)
    fix st info st'
    assume st: "memo_ok types st" and run: "type_info_of (Suc n) types i st = (Inr info, st')"
    from run show "memo_ok types st' \<and> grows st st' \<and> told types st' (VType i) info"
    proof (cases rule: type_info_of_SucE)
      case hit
      with st show ?thesis by (simp add: told_def memo_ok_def)
    next
      case (miss st2)
      let ?st1 = "st\<lparr>visiting := (visiting st)[i := True]\<rparr>"
      have st1: "memo_ok types ?st1" using st by (simp add: memo_ok_def known_def)
      from walksD [OF compute_info_walks [OF Suc.IH] miss(5) st1]
      have st2: "memo_ok types st2" "grows ?st1 st2"
        "\<forall>v \<in> set (abi_deps (types ! i)). fits (known st2) types v"
        "info_ok (comp_layout (layout_of (known st2) types) (types ! i)) info" by auto
      have len: "length (memo st) = length types" "length (visiting st) = length types"
        using st by (auto simp: memo_ok_def)
      have none: "memo st ! i = None" using miss(1,4) len by (cases "memo st ! i") auto
      then have none2: "memo st2 ! i = None" using st2(2) miss(1) len by (simp add: grows_def)
      have g: "visiting st2 = (visiting st)[i := True]" "length (memo st2) = length types"
        using st2(2) len by (auto simp: grows_def)
      have "memo_ok types st'" unfolding miss(6)
        by (rule memo_ok_insert) (use st2 miss(1) none2 g len in auto)
      moreover have "grows st st'"
        using st2(2) none miss(1,3) g len
        by (auto simp: grows_def miss(6) nth_list_update list_update_same_conv)
      moreover have "told types st' (VType i) info"
        using miss(1,6) g by (simp add: told_def)
      ultimately show ?thesis by simp
    qed
  qed
qed (simp add: walks_def)

lemma infos_from_walks:
  "walks types (\<lambda>st infos. list_all2 (\<lambda>i. told types st (VType i)) is infos) (infos_from n types is)"
proof (induction "is")
  case (Cons i "is")
  show ?case unfolding walks_def
  proof (intro allI impI)
    fix st infos st'
    assume st: "memo_ok types st" and "infos_from n types (i # is) st = (Inr infos, st')"
    then obtain info st1 rest where 1: "type_info_of n types i st = (Inr info, st1)"
        "infos_from n types is st1 = (Inr rest, st')" "infos = info # rest"
      by (auto simp: abind_Inr_iff)
    from walksD [OF type_info_of_walks 1(1) st]
    have st1: "memo_ok types st1" "grows st st1" "told types st1 (VType i) info" by auto
    from walksD [OF Cons.IH 1(2) st1(1)]
    have st': "memo_ok types st'" "grows st1 st'" "list_all2 (\<lambda>i. told types st' (VType i)) is rest"
      by auto
    with told_grows [OF st1(3) st'(2)] st1 1(3) grows_trans
    show "memo_ok types st' \<and> grows st st' \<and> list_all2 (\<lambda>i. told types st' (VType i)) (i # is) infos"
      by (auto simp: memo_ok_length)
  qed
qed (simp add: walks_def)

lemma build_type_infos_ok:
  assumes "build_type_infos types = Inr infos"
  shows "length infos = length types \<and>
    (\<forall>i < length types. fits (length types) types (VType i) \<and>
       info_ok (layout_of (length types) types i) (infos ! i))"
proof -
  let ?st = "\<lparr>memo = replicate (length types) None, visiting = replicate (length types) False\<rparr>"
  obtain st' where run: "infos_from (length types + 1) types [0..<length types] ?st = (Inr infos, st')"
    using assms by (metis build_type_infos_def fst_conv surj_pair)
  have "memo_ok types ?st" by (simp add: memo_ok_def)
  from walksD [OF infos_from_walks run this] have
    w: "memo_ok types st'" "list_all2 (\<lambda>i. told types st' (VType i)) [0..<length types] infos" by auto
  have len: "length infos = length types" using w(2) by (simp add: list_all2_conv_all_nth)
  have k: "known st' \<le> length types"
    using w(1) length_filter_le [of _ "memo st'"] by (simp add: known_def memo_ok_def)
  have "fits (length types) types (VType i) \<and> info_ok (layout_of (length types) types i) (infos ! i)"
    if "i < length types" for i
  proof -
    from w(2) that have "told types st' (VType i) (infos ! i)"
      by (auto simp: list_all2_conv_all_nth)
    from told_fits [OF this w(1)] k show ?thesis
      using fits_mono [of "known st'" types "VType i" "length types"]
        layout_of_mono [of "known st'" types i "length types"]
      by (simp add: val_layout_def del: fits.simps)
  qed
  with len show ?thesis by simp
qed

text \<open>C18: The types whose layout depends on one another, as records, variants and lists do on what they
  hold, form neither cycles nor refer to missing types in a store that \<open>compile\<close> accepts (the identifiers of owned and borrowed
  resources are not followed), and the metadata it stores is the canonical ABI layout of the type: flat length
  and alignment always, the size whenever it fits the 32 bits it is stored in.\<close>

theorem build_type_infos_refines:
  assumes "build_type_infos types = Inr infos" "i < length types"
  shows "length infos = length types \<and>
    fits (length types) types (VType i) \<and>
    ti_flat_len (infos ! i) = ly_flat (layout_of (length types) types i) \<and>
    unat (ti_align (infos ! i)) = ly_align (layout_of (length types) types i) \<and>
    (ly_size (layout_of (length types) types i) < 2 ^ 32 \<longrightarrow>
      unat (ti_size (infos ! i)) = ly_size (layout_of (length types) types i))"
  using build_type_infos_ok [OF assms(1)] assms(2) by (auto simp: info_ok_def)

definition sample_types :: "comp_type list" where
  "sample_types =
     [TDefVal (DVariant [\<lparr>cs_label = ''none'', cs_ty = None\<rparr>, \<lparr>cs_label = ''some'', cs_ty = Some (VType 1)\<rparr>]),
      TDefVal (DRecord [\<lparr>fl_label = ''a'', fl_ty = VPrim PU8\<rparr>, \<lparr>fl_label = ''b'', fl_ty = VPrim PU64\<rparr>])]"

lemmas layout_eval =
  sample_types_def compute_info_def valtype_info_def record_step_def variant_step_def
  abind_def get_idx_def variant_discriminant_size_def primitive_info_def mk_info_def Let_def
  align_to_def saturating_add_def

lemma sample_types_infos:
  "build_type_infos sample_types = Inr [mk_info 0 3 24 8 None, mk_info 1 2 16 8 None]"
  by (simp add: build_type_infos_def layout_eval numeral_3_eq_3 upt_rec)
    (simp add: word_le_nat_alt)

lemma sample_types_layout: "ly_size (layout_of (length sample_types) sample_types 0) = 24"
  by (simp add: sample_types_def comp_layout_def variant_layout_def record_layout_def val_layout_def
      prim_layout_def add_field_def join_case_def discriminant_bytes_def align_up_def div_ceil_def
      map_filter_simps Let_def)

theorem build_type_infos_refines_witness:
  "build_type_infos sample_types = Inr [mk_info 0 3 24 8 None, mk_info 1 2 16 8 None] \<and>
   unat (ti_size (mk_info 0 3 24 8 None)) = ly_size (layout_of (length sample_types) sample_types 0)"
proof -
  have "0 < length sample_types" by (simp add: sample_types_def)
  from build_type_infos_refines [OF sample_types_infos this] show ?thesis
    using sample_types_infos sample_types_layout by simp
qed

end
