(* ===== verification/Flat_Types.thy ===== *)
theory Flat_Types
  imports Type_Info
begin

text \<open>
  Flattening of component types to core types, twice: the runtime's version
  (\<open>telomere-component/src/runtime/canonical.rs\<close>) and the one the decoder uses for the signatures
  of lifted and lowered functions (\<open>telomere-component/src/decoder/canon/flatten.rs\<close>); and the
  layout queries of the runtime, which read the metadata of the program.
\<close>

definition MAX_FLAT_PARAMS :: nat where "MAX_FLAT_PARAMS = 16"
definition MAX_FLAT_RESULTS :: nat where "MAX_FLAT_RESULTS = 1"

section \<open>Flat types in the runtime\<close>

definition flat_types_for_primitive :: "prim_valtype \<Rightarrow> valtype list" where
  "flat_types_for_primitive prim =
     (case prim of
        PS64 \<Rightarrow> [I64] | PU64 \<Rightarrow> [I64]
      | PF32 \<Rightarrow> [F32]
      | PF64 \<Rightarrow> [F64]
      | PString \<Rightarrow> [I32, I32]
      | _ \<Rightarrow> [I32])"

definition join_component_flat_types :: "valtype \<Rightarrow> valtype \<Rightarrow> valtype" where
  "join_component_flat_types lhs rhs =
     (if lhs = rhs then lhs
      else if (lhs, rhs) = (I32, F32) \<or> (lhs, rhs) = (F32, I32) then I32
      else I64)"

text \<open>The inner loop of the variant arms: join position by position, append what is longer.\<close>

definition merge_step ::
  "(valtype \<Rightarrow> valtype \<Rightarrow> valtype) \<Rightarrow> nat \<times> valtype \<Rightarrow> valtype list \<Rightarrow> valtype list" where
  "merge_step join = (\<lambda>(index, flat_ty) payload.
     if index < length payload then payload[index := join (payload ! index) flat_ty]
     else payload @ [flat_ty])"

definition merge_flat ::
  "(valtype \<Rightarrow> valtype \<Rightarrow> valtype) \<Rightarrow> valtype list \<Rightarrow> valtype list \<Rightarrow> valtype list" where
  "merge_flat join payload flat = fold (merge_step join) (enumerate 0 flat) payload"

definition flat_types_for_valtype ::
  "(type_id \<Rightarrow> component_error + valtype list) \<Rightarrow> comp_valtype \<Rightarrow> component_error + valtype list" where
  "flat_types_for_valtype rec ty =
     (case ty of VPrim prim \<Rightarrow> Inr (flat_types_for_primitive prim) | VType i \<Rightarrow> rec i)"

definition variant_payload_flat_types ::
  "(type_id \<Rightarrow> component_error + valtype list) \<Rightarrow> variant_case list \<Rightarrow> component_error + valtype list" where
  "variant_payload_flat_types rec cases =
     rfold (\<lambda>c payload.
         case cs_ty c of
           None \<Rightarrow> Inr payload
         | Some ty \<Rightarrow>
             rbind (flat_types_for_valtype rec ty) (\<lambda>flat.
               Inr (merge_flat join_component_flat_types payload flat)))
       cases []"

definition flat_types_for_defval ::
  "(type_id \<Rightarrow> component_error + valtype list) \<Rightarrow> defval \<Rightarrow> component_error + valtype list" where
  "flat_types_for_defval rec def =
     (case def of
        DPrim prim \<Rightarrow> Inr (flat_types_for_primitive prim)
      | DRecord fs \<Rightarrow>
          rfold (\<lambda>f types.
              rbind (flat_types_for_valtype rec (fl_ty f)) (\<lambda>flat. Inr (types @ flat)))
            fs []
      | DVariant cases \<Rightarrow>
          rbind (variant_payload_flat_types rec cases) (\<lambda>payload. Inr (I32 # payload))
      | DFlags labels \<Rightarrow>
          Inr (replicate
            (if labels = [] then 0 else if length labels \<le> 16 then 1 else div_ceil (length labels) 32)
            I32)
      | DList _ _ \<Rightarrow> Inr [I32, I32]
      | DOwn _ \<Rightarrow> Inr [I32]
      | DBorrow _ \<Rightarrow> Inr [I32])"

primrec flat_types_for_type :: "nat \<Rightarrow> program \<Rightarrow> type_id \<Rightarrow> component_error + valtype list" where
  "flat_types_for_type 0 p i = Inl StackOverflow"
| "flat_types_for_type (Suc n) p i =
     rbind (ok_or (Runtime ''type id not found'') (get_type p i)) (\<lambda>ty.
       case ty of
         TDefVal def \<Rightarrow> flat_types_for_defval (flat_types_for_type n p) def
       | TResource _ \<Rightarrow> Inr [I32]
       | TGeneric _ \<Rightarrow> Inr [I32]
       | _ \<Rightarrow> Inl (Unsupported ''flat types for this component type are not implemented yet''))"

text \<open>The recursion depth that suffices for every program with layout metadata.\<close>

definition type_depth :: "program \<Rightarrow> nat" where
  "type_depth p = length (pr_types p)"

definition flat_types :: "program \<Rightarrow> comp_valtype \<Rightarrow> component_error + valtype list" where
  "flat_types p ty = flat_types_for_valtype (flat_types_for_type (type_depth p) p) ty"

definition value_flat_len :: "comp_valtype \<Rightarrow> program \<Rightarrow> component_error + nat" where
  "value_flat_len ty p =
     (case ty of
        VPrim prim \<Rightarrow> Inr (length (flat_types_for_primitive prim))
      | VType i \<Rightarrow> rbind (ok_or (Runtime ''type id not found'') (get_type_info p i))
          (\<lambda>info. Inr (ti_flat_len info)))"

definition function_params_flat_len :: "func_type \<Rightarrow> program \<Rightarrow> component_error + nat" where
  "function_params_flat_len ft p =
     rfold (\<lambda>ty len. rbind (value_flat_len ty p) (\<lambda>k. Inr (len + k))) (ft_params ft) 0"

section \<open>Flattening in the decoder\<close>

datatype parse_error = TypeNotFound type_id | TypeMismatch string | ParseStackOverflow

datatype canon_mode = Lift | Lower

definition join_core_types :: "valtype \<Rightarrow> valtype \<Rightarrow> valtype" where
  "join_core_types lhs rhs =
     (if lhs = rhs then lhs
      else if (lhs, rhs) = (I32, F32) \<or> (lhs, rhs) = (F32, I32) then I32
      else I64)"

definition flatten_primitive :: "prim_valtype \<Rightarrow> valtype list \<Rightarrow> valtype list" where
  "flatten_primitive prim out =
     (case prim of
        PS64 \<Rightarrow> out @ [I64] | PU64 \<Rightarrow> out @ [I64]
      | PF32 \<Rightarrow> out @ [F32]
      | PF64 \<Rightarrow> out @ [F64]
      | PString \<Rightarrow> (out @ [I32]) @ [I32]
      | _ \<Rightarrow> out @ [I32])"

definition flatten_val_type ::
  "(type_id \<Rightarrow> valtype list \<Rightarrow> parse_error + valtype list) \<Rightarrow>
   comp_valtype \<Rightarrow> valtype list \<Rightarrow> parse_error + valtype list" where
  "flatten_val_type rec ty out =
     (case ty of VPrim prim \<Rightarrow> Inr (flatten_primitive prim out) | VType i \<Rightarrow> rec i out)"

definition flatten_defval ::
  "(type_id \<Rightarrow> valtype list \<Rightarrow> parse_error + valtype list) \<Rightarrow>
   defval \<Rightarrow> valtype list \<Rightarrow> parse_error + valtype list" where
  "flatten_defval rec def out =
     (case def of
        DPrim prim \<Rightarrow> Inr (flatten_primitive prim out)
      | DRecord fs \<Rightarrow> rfold (\<lambda>f. flatten_val_type rec (fl_ty f)) fs out
      | DVariant cases \<Rightarrow>
          rbind (rfold (\<lambda>c payload.
              case cs_ty c of
                None \<Rightarrow> Inr payload
              | Some ty \<Rightarrow> rbind (flatten_val_type rec ty []) (\<lambda>flat.
                  Inr (merge_flat join_core_types payload flat))) cases [])
            (\<lambda>payload. Inr ((out @ [I32]) @ payload))
      | DFlags labels \<Rightarrow> Inr (out @ replicate (div_ceil (length labels) 32) I32)
      | DList _ _ \<Rightarrow> Inr ((out @ [I32]) @ [I32])
      | DOwn _ \<Rightarrow> Inr (out @ [I32])
      | DBorrow _ \<Rightarrow> Inr (out @ [I32]))"

primrec flatten_type :: "nat \<Rightarrow> comp_type list \<Rightarrow> type_id \<Rightarrow> valtype list \<Rightarrow> parse_error + valtype list" where
  "flatten_type 0 types i out = Inl ParseStackOverflow"
| "flatten_type (Suc n) types i out =
     rbind (ok_or (TypeNotFound i) (get_idx types i)) (\<lambda>ty.
       case ty of
         TDefVal def \<Rightarrow> flatten_defval (flatten_type n types) def out
       | TResource _ \<Rightarrow> Inr (out @ [I32])
       | TGeneric _ \<Rightarrow> Inr (out @ [I32])
       | _ \<Rightarrow> Inl (TypeMismatch ''not a function type''))"

definition flatten_param_types_ctx :: "func_type \<Rightarrow> comp_type list \<Rightarrow> parse_error + valtype list" where
  "flatten_param_types_ctx ft types =
     rfold (flatten_val_type (flatten_type (length types) types)) (ft_params ft) []"

definition flatten_result_types_ctx :: "func_type \<Rightarrow> comp_type list \<Rightarrow> parse_error + valtype list" where
  "flatten_result_types_ctx ft types =
     (case ft_result ft of
        None \<Rightarrow> Inr []
      | Some ty \<Rightarrow> flatten_val_type (flatten_type (length types) types) ty [])"

definition abi_flatten_params :: "valtype list \<Rightarrow> valtype list" where
  "abi_flatten_params flat = (if length flat > MAX_FLAT_PARAMS then [I32] else flat)"

text \<open>The new parameter list and the results.\<close>

definition abi_flatten_results ::
  "valtype list \<Rightarrow> canon_mode \<Rightarrow> valtype list \<Rightarrow> valtype list \<times> valtype list" where
  "abi_flatten_results flat mode params =
     (if length flat > MAX_FLAT_RESULTS then
        (case mode of Lift \<Rightarrow> (params, [I32]) | Lower \<Rightarrow> (params @ [I32], []))
      else (params, flat))"

definition flatten_func_type ::
  "func_type \<Rightarrow> comp_type list \<Rightarrow> canon_mode \<Rightarrow> parse_error + (valtype list \<times> valtype list)" where
  "flatten_func_type ft types mode =
     rbind (flatten_param_types_ctx ft types) (\<lambda>ps.
     rbind (flatten_result_types_ctx ft types) (\<lambda>rs.
       Inr (abi_flatten_results rs mode (abi_flatten_params ps))))"

section \<open>Layout queries\<close>

record memory_abi =
  ma_size :: u32
  ma_align :: u32

definition flags_memory_abi :: "nat \<Rightarrow> memory_abi" where
  "flags_memory_abi count =
     (if count = 0 then \<lparr>ma_size = 0, ma_align = 1\<rparr>
      else if count \<le> 8 then \<lparr>ma_size = 1, ma_align = 1\<rparr>
      else if count \<le> 16 then \<lparr>ma_size = 2, ma_align = 2\<rparr>
      else \<lparr>ma_size = 4 * of_nat (div_ceil count 32), ma_align = 4\<rparr>)"

definition memory_abi_for_primitive :: "prim_valtype \<Rightarrow> memory_abi" where
  "memory_abi_for_primitive prim =
     (if prim \<in> {PBool, PS8, PU8} then \<lparr>ma_size = 1, ma_align = 1\<rparr>
      else if prim \<in> {PS16, PU16} then \<lparr>ma_size = 2, ma_align = 2\<rparr>
      else if prim \<in> {PS32, PU32, PChar, PF32} then \<lparr>ma_size = 4, ma_align = 4\<rparr>
      else if prim \<in> {PS64, PU64, PF64} then \<lparr>ma_size = 8, ma_align = 8\<rparr>
      else \<lparr>ma_size = 8, ma_align = 4\<rparr>)"

definition memory_abi_for_type :: "type_id \<Rightarrow> program \<Rightarrow> component_error + memory_abi" where
  "memory_abi_for_type i p =
     rbind (ok_or (Runtime ''type id not found'') (get_type_info p i)) (\<lambda>info.
       Inr \<lparr>ma_size = ti_size info, ma_align = max (ti_align info) 1\<rparr>)"

definition memory_abi_for_valtype :: "comp_valtype \<Rightarrow> program \<Rightarrow> component_error + memory_abi" where
  "memory_abi_for_valtype ty p =
     (case ty of VPrim prim \<Rightarrow> Inr (memory_abi_for_primitive prim) | VType i \<Rightarrow> memory_abi_for_type i p)"

record value_area_layout =
  va_offsets :: "u32 list"
  va_size :: u32
  va_align :: u32

definition value_area_layout :: "comp_valtype list \<Rightarrow> program \<Rightarrow> component_error + value_area_layout" where
  "value_area_layout values p =
     rbind (rfold (\<lambda>ty (offsets, cursor, max_align).
         rbind (memory_abi_for_valtype ty p) (\<lambda>abi.
           let cursor = align_to cursor (max (ma_align abi) 1)
           in Inr (offsets @ [cursor], saturating_add cursor (ma_size abi),
                   max max_align (max (ma_align abi) 1))))
       values ([], 0, 1))
     (\<lambda>(offsets, cursor, max_align).
       Inr \<lparr>va_offsets = offsets, va_size = align_to cursor max_align, va_align = max_align\<rparr>)"

definition element_stride :: "comp_valtype \<Rightarrow> program \<Rightarrow> component_error + u32" where
  "element_stride elem p =
     rbind (memory_abi_for_valtype elem p) (\<lambda>abi. Inr (align_to (ma_size abi) (max (ma_align abi) 1)))"

definition variant_payload_offset_and_size ::
  "variant_case list \<Rightarrow> program \<Rightarrow> component_error + (u32 \<times> u32)" where
  "variant_payload_offset_and_size cases p =
     rbind (variant_discriminant_size (length cases)) (\<lambda>discriminant_size.
     rbind (rfold (\<lambda>c (payload_size, payload_align).
         case cs_ty c of
           None \<Rightarrow> Inr (payload_size, payload_align)
         | Some ty \<Rightarrow> rbind (memory_abi_for_valtype ty p) (\<lambda>abi.
             Inr (max payload_size (ma_size abi), max payload_align (max (ma_align abi) 1))))
       cases (0, discriminant_size))
     (\<lambda>(payload_size, payload_align).
       Inr (align_to discriminant_size (max payload_align 1), payload_size)))"

section \<open>Joining\<close>

lemma set_map_filter_iff: "v \<in> set (List.map_filter f xs) \<longleftrightarrow> (\<exists>x \<in> set xs. f x = Some v)"
  by (induction xs) (auto simp: map_filter_simps split: option.splits)

fun zip_join :: "(valtype \<Rightarrow> valtype \<Rightarrow> valtype) \<Rightarrow> valtype list \<Rightarrow> valtype list \<Rightarrow> valtype list" where
  "zip_join j [] ys = ys"
| "zip_join j xs [] = xs"
| "zip_join j (x # xs) (y # ys) = j x y # zip_join j xs ys"

lemma zip_join_Nil2 [simp]: "zip_join j xs [] = xs"
  by (cases xs) auto

lemma merge_flat_rec_aux:
  "fold (merge_step j) (enumerate (length pre) ys) (pre @ xs) = pre @ zip_join j xs ys"
proof (induction ys arbitrary: pre xs)
  case (Cons y ys)
  show ?case
  proof (cases xs)
    case Nil
    with Cons [of "pre @ [y]" "[]"] show ?thesis by (simp add: merge_step_def)
  next
    case (Cons x xs')
    with Cons.IH [of "pre @ [j x y]" xs'] show ?thesis by (simp add: merge_step_def nth_append)
  qed
qed simp

lemma merge_flat_zip_join: "merge_flat j xs ys = zip_join j xs ys"
  using merge_flat_rec_aux [of j "[]"] by (simp add: merge_flat_def)

lemma length_zip_join [simp]: "length (zip_join j xs ys) = max (length xs) (length ys)"
  by (induction j xs ys rule: zip_join.induct) auto

lemma zip_join_nth:
  "i < max (length xs) (length ys) \<Longrightarrow>
   zip_join j xs ys ! i =
     (if i < length xs \<and> i < length ys then j (xs ! i) (ys ! i)
      else if i < length xs then xs ! i else ys ! i)"
  by (induction j xs ys arbitrary: i rule: zip_join.induct) (auto simp: nth_Cons')

text \<open>The order in which a flat type can be carried by another.\<close>

definition carries :: "valtype \<Rightarrow> valtype \<Rightarrow> bool" where
  "carries a b \<longleftrightarrow> a = b \<or> a \<in> {I32, I64, F32, F64} \<and> b = I64 \<or> a = F32 \<and> b = I32"

definition flat_val :: "valtype \<Rightarrow> bool" where
  "flat_val a \<longleftrightarrow> a \<in> {I32, I64, F32, F64}"

lemma carries_refl [simp]: "carries a a"
  by (simp add: carries_def)

lemma carries_trans: "carries a b \<Longrightarrow> carries b c \<Longrightarrow> carries a c"
  by (auto simp: carries_def)

lemma carries_join:
  assumes "flat_val a" "flat_val b"
  shows "carries a (join_component_flat_types a b)" "carries b (join_component_flat_types a b)"
    "flat_val (join_component_flat_types a b)"
  using assms by (auto simp: carries_def join_component_flat_types_def flat_val_def)

section \<open>Depth\<close>

text \<open>\<open>same_flat\<close>: two recursion oracles agree, and do not overflow, on the given type.\<close>

lemma flat_types_defval_cong:
  assumes "\<And>v. v \<in> set (abi_deps (TDefVal def)) \<Longrightarrow>
      flat_types_for_valtype r v = flat_types_for_valtype r' v"
  shows "flat_types_for_defval r def = flat_types_for_defval r' def"
proof -
  have r: "rfold (\<lambda>f types. rbind (flat_types_for_valtype r (fl_ty f)) (\<lambda>flat. Inr (types @ flat))) fs acc =
      rfold (\<lambda>f types. rbind (flat_types_for_valtype r' (fl_ty f)) (\<lambda>flat. Inr (types @ flat))) fs acc"
    if "\<And>f. f \<in> set fs \<Longrightarrow> flat_types_for_valtype r (fl_ty f) = flat_types_for_valtype r' (fl_ty f)"
    for fs acc
    using that by (induction fs arbitrary: acc) (auto intro!: rbind_cong)
  have v: "rfold (\<lambda>c payload. case cs_ty c of None \<Rightarrow> Inr payload
        | Some ty \<Rightarrow> rbind (flat_types_for_valtype r ty) (\<lambda>flat.
            Inr (merge_flat join_component_flat_types payload flat))) cs acc =
      rfold (\<lambda>c payload. case cs_ty c of None \<Rightarrow> Inr payload
        | Some ty \<Rightarrow> rbind (flat_types_for_valtype r' ty) (\<lambda>flat.
            Inr (merge_flat join_component_flat_types payload flat))) cs acc"
    if "\<And>c ty. c \<in> set cs \<Longrightarrow> cs_ty c = Some ty \<Longrightarrow>
      flat_types_for_valtype r ty = flat_types_for_valtype r' ty" for cs acc
    using that by (induction cs arbitrary: acc) (auto intro!: rbind_cong split: option.splits)
  from assms show ?thesis
    by (cases def) (auto simp: flat_types_for_defval_def variant_payload_flat_types_def
        set_map_filter_iff intro!: r v rbind_cong)
qed

lemma flat_types_for_type_mono:
  assumes "fits n (pr_types p) (VType i)" "n \<le> m"
  shows "flat_types_for_type m p i = flat_types_for_type n p i"
  using assms
proof (induction n arbitrary: m i)
  case (Suc n)
  from Suc.prems obtain k where k: "m = Suc k" "n \<le> k" by (cases m) auto
  from Suc.prems have i: "get_type p i = Some (pr_types p ! i)"
    and deps: "\<forall>v \<in> set (abi_deps (pr_types p ! i)). fits n (pr_types p) v"
    by (auto simp: get_type_def get_idx_def)
  have "flat_types_for_defval (flat_types_for_type k p) def = flat_types_for_defval (flat_types_for_type n p) def"
    if "pr_types p ! i = TDefVal def" for def
    by (rule flat_types_defval_cong)
      (use that deps Suc.IH k(2) in \<open>auto simp: flat_types_for_valtype_def split: comp_valtype.split\<close>)
  then show ?case unfolding k(1) by (simp add: i split: comp_type.split)
qed simp

lemma rfold_no_overflow:
  "(\<And>x acc. x \<in> set xs \<Longrightarrow> f x acc \<noteq> Inl e) \<Longrightarrow> rfold f xs acc \<noteq> Inl e"
  by (induction xs arbitrary: acc) (auto simp: res_simps)

lemma flat_types_returns:
  "fits n (pr_types p) ty \<Longrightarrow> flat_types_for_valtype (flat_types_for_type n p) ty \<noteq> Inl StackOverflow"
proof (induction n arbitrary: ty)
  case 0
  then show ?case by (cases ty) (auto simp: flat_types_for_valtype_def)
next
  case (Suc n)
  show ?case
  proof (cases ty)
    case (VType i)
    with Suc.prems have i: "get_type p i = Some (pr_types p ! i)"
      and deps: "\<And>v. v \<in> set (abi_deps (pr_types p ! i)) \<Longrightarrow>
        flat_types_for_valtype (flat_types_for_type n p) v \<noteq> Inl StackOverflow"
      using Suc.IH by (auto simp: get_type_def get_idx_def)
    have "flat_types_for_defval (flat_types_for_type n p) def \<noteq> Inl StackOverflow"
      if d: "pr_types p ! i = TDefVal def" for def
    proof (cases def)
      case (DRecord fs)
      have "rfold (\<lambda>f types. rbind (flat_types_for_valtype (flat_types_for_type n p) (fl_ty f))
          (\<lambda>flat. Inr (types @ flat))) fs [] \<noteq> Inl StackOverflow"
        by (rule rfold_no_overflow) (use deps d DRecord in \<open>auto simp: res_simps\<close>)
      with DRecord show ?thesis by (simp add: flat_types_for_defval_def)
    next
      case (DVariant cases)
      have "variant_payload_flat_types (flat_types_for_type n p) cases \<noteq> Inl StackOverflow"
        unfolding variant_payload_flat_types_def
        by (rule rfold_no_overflow)
          (use deps d DVariant in \<open>auto simp: res_simps set_map_filter_iff split: option.split\<close>)
      with DVariant show ?thesis by (auto simp: flat_types_for_defval_def res_simps)
    qed (simp_all add: flat_types_for_defval_def)
    with i VType show ?thesis
      by (auto simp: flat_types_for_valtype_def split: comp_type.split)
  qed (simp add: flat_types_for_valtype_def)
qed

section \<open>Flat lengths\<close>

lemma ly_flat_add: "ly_flat (foldl add_field a ls) = ly_flat a + sum_list (map ly_flat ls)"
  by (induction ls arbitrary: a) (auto simp: add_field_def)

lemma ly_flat_join: "ly_flat (foldl join_case a ls) = fold (\<lambda>l. max (ly_flat l)) ls (ly_flat a)"
  by (induction ls arbitrary: a) (auto simp: join_case_def max.commute)

lemma length_flat_defval:
  assumes "flat_types_for_defval r def = Inr fl"
    and "\<And>v vl. v \<in> set (abi_deps (TDefVal def)) \<Longrightarrow> flat_types_for_valtype r v = Inr vl \<Longrightarrow>
      length vl = ly_flat (val_layout l v)"
  shows "length fl = ly_flat (comp_layout l (TDefVal def))"
proof (cases def)
  case (DPrim prim)
  with assms(1) show ?thesis
    by (cases prim) (auto simp: flat_types_for_defval_def comp_layout_def flat_types_for_primitive_def
        prim_layout_def)
next
  case (DRecord fs)
  have "length fl = length acc + sum_list (map (\<lambda>f. ly_flat (val_layout l (fl_ty f))) fs)"
    if "rfold (\<lambda>f types. rbind (flat_types_for_valtype r (fl_ty f)) (\<lambda>flat. Inr (types @ flat))) fs acc = Inr fl"
      "\<And>f vl. f \<in> set fs \<Longrightarrow> flat_types_for_valtype r (fl_ty f) = Inr vl \<Longrightarrow>
        length vl = ly_flat (val_layout l (fl_ty f))" for fs acc
    using that
  proof (induction fs arbitrary: acc)
    case (Cons f fs)
    from Cons.prems(1) obtain vl where vl: "flat_types_for_valtype r (fl_ty f) = Inr vl"
      by (auto simp: res_simps)
    with Cons.prems Cons.IH [of "acc @ vl"] show ?case by auto
  qed simp
  from this [of fs "[]"] assms DRecord show ?thesis
    by (simp add: flat_types_for_defval_def comp_layout_def record_layout_def Let_def ly_flat_add comp_def)
next
  case (DVariant cases)
  let ?step = "\<lambda>c payload. case cs_ty c of None \<Rightarrow> Inr payload
    | Some ty \<Rightarrow> rbind (flat_types_for_valtype r ty) (\<lambda>flat.
        Inr (merge_flat join_component_flat_types payload flat))"
  have fold: "length pl = fold (\<lambda>l. max (ly_flat l))
      (map (val_layout l) (List.map_filter cs_ty cs)) (length acc)"
    if "rfold ?step cs acc = Inr pl"
      "\<And>c v vl. c \<in> set cs \<Longrightarrow> cs_ty c = Some v \<Longrightarrow> flat_types_for_valtype r v = Inr vl \<Longrightarrow>
        length vl = ly_flat (val_layout l v)" for cs acc pl
    using that
  proof (induction cs arbitrary: acc)
    case (Cons c cs)
    show ?case
    proof (cases "cs_ty c")
      case None
      with Cons.IH [of acc] Cons.prems show ?thesis by (auto simp: map_filter_simps)
    next
      case (Some v)
      with Cons.prems(1) obtain vl where vl: "flat_types_for_valtype r v = Inr vl"
        by (auto simp: res_simps)
      then have "length vl = ly_flat (val_layout l v)" using Cons.prems(2) [of c v vl] Some by simp
      with vl Some Cons.prems Cons.IH [of "merge_flat join_component_flat_types acc vl"] show ?thesis
        by (auto simp: map_filter_simps merge_flat_zip_join max.commute)
    qed
  qed (simp add: map_filter_simps)
  from assms(1) DVariant obtain pl where
    "rfold ?step cases [] = Inr pl" "fl = I32 # pl"
    by (auto simp: flat_types_for_defval_def variant_payload_flat_types_def res_simps)
  with fold [OF this(1)] assms(2) DVariant show ?thesis
    by (auto simp: comp_layout_def variant_layout_def Let_def ly_flat_join set_map_filter_iff)
qed (use assms(1) in \<open>auto simp: flat_types_for_defval_def comp_layout_def flags_layout_def split: if_splits\<close>)

lemma length_flat_types:
  "flat_types_for_valtype (flat_types_for_type n p) ty = Inr fl \<Longrightarrow>
   length fl = ly_flat (val_layout (layout_of n (pr_types p)) ty)"
proof (induction n arbitrary: ty fl)
  case 0
  then show ?case
    by (cases ty)
      (auto simp: flat_types_for_valtype_def val_layout_def flat_types_for_primitive_def prim_layout_def
        split: prim_valtype.splits)
next
  case (Suc n)
  show ?case
  proof (cases ty)
    case (VPrim prim)
    with Suc.prems show ?thesis
      by (cases prim) (auto simp: flat_types_for_valtype_def val_layout_def
          flat_types_for_primitive_def prim_layout_def)
  next
    case (VType i)
    with Suc.prems have i: "i < length (pr_types p)"
      by (auto simp: flat_types_for_valtype_def res_simps get_type_def)
    show ?thesis
    proof (cases "pr_types p ! i")
      case (TDefVal def)
      with Suc.prems VType i have "flat_types_for_defval (flat_types_for_type n p) def = Inr fl"
        by (simp add: flat_types_for_valtype_def get_type_def get_idx_def)
      from length_flat_defval [OF this Suc.IH] VType i TDefVal show ?thesis
        by (simp add: val_layout_def)
    qed (use Suc.prems VType i in
        \<open>auto simp: flat_types_for_valtype_def get_type_def get_idx_def val_layout_def comp_layout_def\<close>)
  qed
qed

text \<open>A program whose metadata comes from \<open>build_type_infos\<close>.\<close>

definition compiled :: "program \<Rightarrow> bool" where
  "compiled p \<longleftrightarrow> build_type_infos (pr_types p) = Inr (pr_type_infos p)"

lemma compiled_infos:
  assumes "compiled p" "i < length (pr_types p)"
  shows "fits (type_depth p) (pr_types p) (VType i)"
    "get_type_info p i = Some (pr_type_infos p ! i)"
    "info_ok (layout_of (type_depth p) (pr_types p) i) (pr_type_infos p ! i)"
  using build_type_infos_ok [OF assms(1) [unfolded compiled_def]] assms(2)
  by (auto simp: type_depth_def get_type_info_def get_idx_def)

lemma value_flat_len_eq:
  assumes "compiled p" "flat_types p ty = Inr fl"
  shows "value_flat_len ty p = Inr (length fl)"
proof (cases ty)
  case (VPrim prim)
  with assms(2) show ?thesis by (auto simp: value_flat_len_def flat_types_def flat_types_for_valtype_def)
next
  case (VType i)
  with assms(2) have "i < length (pr_types p)"
    by (cases "type_depth p")
      (auto simp: flat_types_def flat_types_for_valtype_def get_type_def res_simps)
  with compiled_infos [OF assms(1) this] length_flat_types [OF assms(2) [unfolded flat_types_def]] VType
  show ?thesis by (simp add: value_flat_len_def info_ok_def val_layout_def)
qed

lemma params_flat_len_eq:
  assumes "compiled p" "rmap (flat_types p) tys = Inr fls"
  shows "rfold (\<lambda>ty len. rbind (value_flat_len ty p) (\<lambda>k. Inr (len + k))) tys n = Inr (n + length (concat fls))"
  using assms(2)
proof (induction tys arbitrary: fls n)
  case (Cons ty tys)
  then obtain fl rest where "flat_types p ty = Inr fl" "rmap (flat_types p) tys = Inr rest" "fls = fl # rest"
    by (auto simp: res_simps)
  with Cons.IH [of rest] value_flat_len_eq [OF assms(1)] show ?case by (simp add: add.assoc)
qed simp

text \<open>For a compiled program the flat lengths that the runtime reads from the metadata, and
  uses to decide between direct and indirect passing of parameters, are the lengths of the lists of
  flat types.\<close>

theorem value_flat_len_correct:
  assumes "compiled p" "rmap (flat_types p) (ft_params ft) = Inr fls"
  shows "rmap (\<lambda>ty. value_flat_len ty p) (ft_params ft) = Inr (map length fls) \<and>
    function_params_flat_len ft p = Inr (length (concat fls))"
  using assms params_flat_len_eq [OF assms, of 0] value_flat_len_eq [OF assms(1)]
  by (auto simp: function_params_flat_len_def rmap_Inr_iff)

section \<open>The decoder agrees with the runtime\<close>

definition parse_err :: "component_error \<Rightarrow> parse_error \<Rightarrow> bool" where
  "parse_err e e' \<longleftrightarrow>
     (case e' of ParseStackOverflow \<Rightarrow> e = StackOverflow
      | TypeNotFound _ \<Rightarrow> e = Runtime ''type id not found''
      | TypeMismatch _ \<Rightarrow> e = Unsupported ''flat types for this component type are not implemented yet'')"

text \<open>\<open>agree out r r'\<close>: the decoder's result \<open>r'\<close> appends to \<open>out\<close> what the runtime returns.\<close>

definition agree :: "valtype list \<Rightarrow> component_error + valtype list \<Rightarrow> parse_error + valtype list \<Rightarrow> bool" where
  "agree out r r' \<longleftrightarrow>
     (case (r, r') of (Inr fl, Inr fl') \<Rightarrow> fl' = out @ fl | (Inl e, Inl e') \<Rightarrow> parse_err e e' | _ \<Rightarrow> False)"

lemma flatten_primitive_append: "flatten_primitive p out = out @ flat_types_for_primitive p"
  by (cases p) (simp_all add: flat_types_for_primitive_def flatten_primitive_def)

lemma agree_primitive: "agree out (Inr (flat_types_for_primitive p)) (Inr (flatten_primitive p out))"
  by (simp add: agree_def flatten_primitive_append)

lemma agree_cases:
  assumes "agree out r r'"
  obtains fl where "r = Inr fl" "r' = Inr (out @ fl)" | e e' where "r = Inl e" "r' = Inl e'" "parse_err e e'"
  using assms by (auto simp: agree_def split: sum.splits)

lemma join_core_types_eq: "join_core_types = join_component_flat_types"
  by (simp add: fun_eq_iff join_core_types_def join_component_flat_types_def)

lemma agree_valtype:
  "(\<And>i out. agree out (r i) (r' i out)) \<Longrightarrow>
   agree out (flat_types_for_valtype r ty) (flatten_val_type r' ty out)"
  by (cases ty) (auto simp: flat_types_for_valtype_def flatten_val_type_def agree_primitive)

lemma agree_record:
  assumes "\<And>i out. agree out (r i) (r' i out)"
  shows "agree out
    (rfold (\<lambda>f types. rbind (flat_types_for_valtype r (fl_ty f)) (\<lambda>flat. Inr (types @ flat))) fs acc)
    (rfold (\<lambda>f. flatten_val_type r' (fl_ty f)) fs (out @ acc))"
proof (induction fs arbitrary: acc)
  case (Cons f fs)
  from agree_valtype [where r = r and r' = r' and out = "out @ acc" and ty = "fl_ty f", OF assms] show ?case
    by (cases rule: agree_cases) (use Cons.IH in \<open>auto simp: agree_def\<close>)
qed (simp add: agree_def)

lemma agree_payload:
  assumes "\<And>i out. agree out (r i) (r' i out)"
  shows "agree []
    (rfold (\<lambda>c payload. case cs_ty c of None \<Rightarrow> Inr payload
      | Some ty \<Rightarrow> rbind (flat_types_for_valtype r ty) (\<lambda>flat.
          Inr (merge_flat join_component_flat_types payload flat))) cs acc)
    (rfold (\<lambda>c payload. case cs_ty c of None \<Rightarrow> Inr payload
      | Some ty \<Rightarrow> rbind (flatten_val_type r' ty []) (\<lambda>flat.
          Inr (merge_flat join_core_types payload flat))) cs acc)"
proof (induction cs arbitrary: acc)
  case (Cons c cs)
  show ?case
  proof (cases "cs_ty c")
    case None
    with Cons show ?thesis by simp
  next
    case (Some ty)
    from agree_valtype [where r = r and r' = r' and out = "[]" and ty = ty, OF assms] show ?thesis
      by (cases rule: agree_cases) (use Cons.IH Some in \<open>auto simp: agree_def join_core_types_eq\<close>)
  qed
qed (simp add: agree_def)

lemma flags_words:
  "(if labels = [] then 0 else if length labels \<le> 16 then 1 else div_ceil (length labels) 32) =
   div_ceil (length labels) 32"
  by (cases labels) (auto simp: div_ceil_def)

lemma agree_defval:
  assumes "\<And>i out. agree out (r i) (r' i out)"
  shows "agree out (flat_types_for_defval r def) (flatten_defval r' def out)"
proof (cases def)
  case (DRecord fs)
  with agree_record [where r = r and r' = r' and out = out and fs = fs and acc = "[]", OF assms] show ?thesis
    by (simp add: flat_types_for_defval_def flatten_defval_def)
next
  case (DVariant cases)
  from agree_payload [where r = r and r' = r' and cs = cases and acc = "[]", OF assms] show ?thesis
    by (cases rule: agree_cases)
      (auto simp: DVariant flat_types_for_defval_def flatten_defval_def variant_payload_flat_types_def agree_def)
qed (simp_all add: flat_types_for_defval_def flatten_defval_def flatten_primitive_append flags_words agree_def)

lemma agree_type: "agree out (flat_types_for_type n p i) (flatten_type n (pr_types p) i out)"
proof (induction n arbitrary: i out)
  case (Suc n)
  show ?case
  proof (cases "get_idx (pr_types p) i")
    case (Some ty)
    with agree_defval [OF Suc.IH] show ?thesis
      by (cases ty) (auto simp: get_type_def agree_def [of _ "Inl _"] parse_err_def agree_def [of _ "Inr [I32]"])
  qed (simp add: get_type_def agree_def parse_err_def)
qed (simp add: agree_def parse_err_def)

lemma agree_flat_types:
  "agree out (flat_types p ty) (flatten_val_type (flatten_type (length (pr_types p)) (pr_types p)) ty out)"
  unfolding flat_types_def type_depth_def by (rule agree_valtype) (rule agree_type)

lemma flatten_params_agree:
  assumes "rmap (flat_types p) tys = Inr fls"
  shows "rfold (flatten_val_type (flatten_type (length (pr_types p)) (pr_types p))) tys out =
    Inr (out @ concat fls)"
  using assms
proof (induction tys arbitrary: fls out)
  case (Cons ty tys)
  then obtain fl rest where "flat_types p ty = Inr fl" "rmap (flat_types p) tys = Inr rest" "fls = fl # rest"
    by (auto simp: res_simps)
  with Cons.IH [of rest "out @ fl"] agree_flat_types [of out p ty] show ?case
    by (auto simp: agree_def split: sum.splits)
qed simp

text \<open>The core signature of a component function: sixteen parameters and one result are passed
  directly, more through memory.\<close>

definition core_signature :: "valtype list \<Rightarrow> valtype list \<Rightarrow> canon_mode \<Rightarrow> valtype list \<times> valtype list" where
  "core_signature ps rs mode =
     (let params = (if length ps \<le> 16 then ps else [I32]) in
      if length rs \<le> 1 then (params, rs)
      else if mode = Lift then (params, [I32]) else (params @ [I32], []))"

text \<open>C29: The core signature that the decoder gives to a lifted or lowered function is built from
  the flat types the runtime computes for its parameters and result, with a pointer in place of
  more than sixteen parameters, a returned pointer for a lifted result of more than one value and
  an extra pointer parameter for a lowered one.\<close>

theorem flatten_func_type_correct:
  assumes "rmap (flat_types p) (ft_params ft) = Inr fls"
    and "rmap (flat_types p) (case ft_result ft of None \<Rightarrow> [] | Some r \<Rightarrow> [r]) = Inr rls"
  shows "flatten_func_type ft (pr_types p) mode = Inr (core_signature (concat fls) (concat rls) mode)"
proof -
  have "flatten_result_types_ctx ft (pr_types p) = Inr (concat rls)"
  proof (cases "ft_result ft")
    case (Some r)
    with flatten_params_agree [OF assms(2), of "[]"] show ?thesis
      by (auto simp: flatten_result_types_ctx_def rbind_def split: sum.splits)
  qed (use assms(2) in \<open>simp add: flatten_result_types_ctx_def\<close>)
  moreover have "flatten_param_types_ctx ft (pr_types p) = Inr (concat fls)"
    using flatten_params_agree [OF assms(1), of "[]"] by (simp add: flatten_param_types_ctx_def)
  ultimately show ?thesis
    by (auto simp: flatten_func_type_def core_signature_def abi_flatten_results_def
        abi_flatten_params_def MAX_FLAT_PARAMS_def MAX_FLAT_RESULTS_def Let_def split: canon_mode.split)
qed


definition sample_program :: program where
  "sample_program =
     \<lparr>pr_types = sample_types, pr_type_infos = [mk_info 0 3 24 8 None, mk_info 1 2 16 8 None]\<rparr>"

lemma sample_program_compiled: "compiled sample_program"
  by (simp add: compiled_def sample_program_def sample_types_infos)

lemmas flat_eval =
  flat_types_def flat_types_for_valtype_def type_depth_def sample_program_def sample_types_def
  get_type_def get_idx_def flat_types_for_defval_def variant_payload_flat_types_def
  flat_types_for_primitive_def merge_flat_zip_join

lemma sample_program_flat: "flat_types sample_program (VType 0) = Inr [I32, I32, I64]"
  by (simp add: flat_eval numeral_2_eq_2)

theorem value_flat_len_correct_witness:
  "function_params_flat_len \<lparr>ft_params = [VType 0], ft_param_names = [''s''], ft_result = None\<rparr> sample_program = Inr 3"
  using value_flat_len_correct [OF sample_program_compiled,
      of "\<lparr>ft_params = [VType 0], ft_param_names = [''s''], ft_result = None\<rparr>" "[[I32, I32, I64]]"] sample_program_flat
  by simp

theorem flatten_func_type_correct_witness:
  "flatten_func_type \<lparr>ft_params = [VPrim PString], ft_param_names = [''s''], ft_result = Some (VType 0)\<rparr>
     (pr_types sample_program) Lower = Inr ([I32, I32, I32], [])"
  using flatten_func_type_correct [of sample_program
      "\<lparr>ft_params = [VPrim PString], ft_param_names = [''s''], ft_result = Some (VType 0)\<rparr>"
      "[[I32, I32]]" "[[I32, I32, I64]]" Lower] sample_program_flat
  by (simp add: core_signature_def flat_types_def [of _ "VPrim PString"] flat_types_for_valtype_def [of _ "VPrim PString"]
      flat_types_for_primitive_def)

end
