(* ===== verification/Canonical.thy ===== *)
theory Canonical
  imports Guest_Memory Utf_Strings Flat_Types
begin

text \<open>
  The canonical ABI of \<open>telomere-component/src/runtime/canonical.rs\<close>: storing component values in
  linear memory and loading them back, lowering them to core values and lifting them, and the
  passing of arguments and results.  One definition per function of the source, in its order
  inside each group.  A function that recurses through a type identifier takes the recursive call
  as its first argument; the recursion is tied at the end of each group, with a bound on the depth
  that reports \<open>StackOverflow\<close> when it is used up.  Functions that change the store are actions;
  functions that only read it take it as an argument.  Error messages keep their fixed part.
\<close>

section \<open>Options\<close>

datatype string_encoding = Utf8 | Utf16 | CompactUtf16

record 'g options =
  op_string_encoding :: "string_encoding option"
  op_memory :: "core_export_ref option"
  op_realloc :: "'g core_func option"
  op_post_return :: "'g core_func option"

definition require_memory :: "'g options \<Rightarrow> component_error + core_export_ref" where
  "require_memory opts = ok_or (Runtime ''canonical option `memory` is required'') (op_memory opts)"

definition require_realloc :: "'g options \<Rightarrow> component_error + 'g core_func" where
  "require_realloc opts = ok_or (Runtime ''canonical option `realloc` is required'') (op_realloc opts)"

section \<open>Allocation\<close>

definition call_realloc ::
  "'g core_func \<Rightarrow> u32 \<Rightarrow> u32 \<Rightarrow> u32 \<Rightarrow> u32 \<Rightarrow> ('g, u32) comp_action" where
  "call_realloc realloc old_ptr old_len align new_len =
     abind (realloc [WI32 old_ptr, WI32 old_len, WI32 align, WI32 new_len]) (\<lambda>result.
       case result of
         [WI32 ptr] \<Rightarrow> aret ptr
       | _ \<Rightarrow> afail (Runtime ''realloc returned an unexpected result''))"

definition validate_realloc_pointer_alignment :: "u32 \<Rightarrow> u32 \<Rightarrow> component_error + unit" where
  "validate_realloc_pointer_alignment ptr align =
     (if ptr mod align \<noteq> 0
      then Inl (Trap ''canonical realloc returned a pointer that is not aligned'') else Inr ())"

section \<open>Strings\<close>

definition COMPACT_UTF16_TAG :: u32 where
  "COMPACT_UTF16_TAG = 0x80000000"

primrec compact_loop ::
  "core_export_ref \<Rightarrow> 'g core_func \<Rightarrow> rstring \<Rightarrow> u32 \<Rightarrow> nat \<Rightarrow> rstring \<Rightarrow>
   ('g, wasm_value list) comp_action" where
  "compact_loop memory realloc string ptr dst_len [] =
     (let src_code_units = length (as_bytes string) in
      if dst_len < src_code_units then
        abind (call_realloc realloc ptr (of_nat src_code_units) 2 (of_nat dst_len)) (\<lambda>ptr.
        abind (alift (validate_realloc_pointer_alignment ptr 2)) (\<lambda>_.
          aret [WI32 ptr, WI32 (of_nat dst_len)]))
      else aret [WI32 ptr, WI32 (of_nat dst_len)])"
| "compact_loop memory realloc string ptr dst_len (c # cs) =
     (if 0x100 \<le> c then
        let src_code_units = length (as_bytes string);
            worst_case_len = 2 * src_code_units
        in
        abind (call_realloc realloc ptr (of_nat src_code_units) 2 (of_nat worst_case_len)) (\<lambda>ptr.
        abind (alift (validate_realloc_pointer_alignment ptr 2)) (\<lambda>_.
        let encoded = encode_string_utf16 string;
            tagged_len = of_nat (length encoded div 2) OR COMPACT_UTF16_TAG
        in
        abind (write_memory memory ptr encoded) (\<lambda>_.
          if worst_case_len > length encoded then
            abind (call_realloc realloc ptr (of_nat worst_case_len) 2 (of_nat (length encoded))) (\<lambda>ptr.
            abind (alift (validate_realloc_pointer_alignment ptr 2)) (\<lambda>_.
              aret [WI32 ptr, WI32 tagged_len]))
          else aret [WI32 ptr, WI32 tagged_len])))
      else
        abind (write_memory memory (ptr + of_nat dst_len) [ucast c]) (\<lambda>_.
          compact_loop memory realloc string ptr (dst_len + 1) cs))"

definition lower_compact_utf16_string ::
  "rstring \<Rightarrow> core_export_ref \<Rightarrow> 'g core_func \<Rightarrow> ('g, wasm_value list) comp_action" where
  "lower_compact_utf16_string string memory realloc =
     abind (call_realloc realloc 0 0 2 (of_nat (length (as_bytes string)))) (\<lambda>ptr.
     abind (alift (validate_realloc_pointer_alignment ptr 2)) (\<lambda>_.
       compact_loop memory realloc string ptr 0 string))"

definition lower_string :: "component_value \<Rightarrow> 'g options \<Rightarrow> ('g, wasm_value list) comp_action" where
  "lower_string v opts =
     abind (alift (require_memory opts)) (\<lambda>memory.
     abind (alift (require_realloc opts)) (\<lambda>realloc.
     abind (alift (ok_or (InvalidArgument ''expected string value'') (as_str v))) (\<lambda>string.
       case (case op_string_encoding opts of None \<Rightarrow> Utf8 | Some e \<Rightarrow> e) of
         Utf8 \<Rightarrow>
           (let bytes = as_bytes string in
            abind (call_realloc realloc 0 0 1 (of_nat (length bytes))) (\<lambda>ptr.
            abind (alift (validate_realloc_pointer_alignment ptr 1)) (\<lambda>_.
            abind (write_memory memory ptr bytes) (\<lambda>_.
              aret [WI32 ptr, WI32 (of_nat (length bytes))]))))
       | Utf16 \<Rightarrow>
           (let bytes = encode_string_utf16 string in
            abind (call_realloc realloc 0 0 2 (of_nat (length bytes))) (\<lambda>ptr.
            abind (alift (validate_realloc_pointer_alignment ptr 2)) (\<lambda>_.
            abind (write_memory memory ptr bytes) (\<lambda>_.
              aret [WI32 ptr, WI32 (of_nat (length bytes div 2))]))))
       | CompactUtf16 \<Rightarrow> lower_compact_utf16_string string memory realloc)))"

definition read_string_from_memory ::
  "'g store \<Rightarrow> core_export_ref \<Rightarrow> u32 \<Rightarrow> u32 \<Rightarrow> string_encoding option \<Rightarrow> component_error + rstring" where
  "read_string_from_memory st memory ptr len encoding =
     (case (case encoding of None \<Rightarrow> Utf8 | Some e \<Rightarrow> e) of
        Utf8 \<Rightarrow>
          rbind (read_memory st memory ptr (unat len)) (\<lambda>bytes.
            ok_or (Trap ''invalid utf-8'') (from_utf8 bytes))
      | Utf16 \<Rightarrow> rbind (read_memory st memory ptr (unat len * 2)) decode_utf16_le
      | CompactUtf16 \<Rightarrow>
          if ptr mod 2 \<noteq> 0 then Inl (Trap ''latin1+utf16 string pointer is not aligned to 2 bytes'')
          else if len AND COMPACT_UTF16_TAG \<noteq> 0 then
            rbind (read_memory st memory ptr (unat (len XOR COMPACT_UTF16_TAG) * 2)) decode_utf16_le
          else rbind (read_memory st memory ptr (unat len)) (\<lambda>bytes. Inr (latin1_chars bytes)))"

section \<open>Resources\<close>

primrec validate_resource_type :: "nat \<Rightarrow> program \<Rightarrow> type_id \<Rightarrow> component_error + unit" where
  "validate_resource_type 0 p i = Inl StackOverflow"
| "validate_resource_type (Suc n) p i =
     (case get_type p i of
        Some (TResource _) \<Rightarrow> Inr ()
      | Some (TDefVal (DOwn inner)) \<Rightarrow> validate_resource_type n p inner
      | Some (TDefVal (DBorrow inner)) \<Rightarrow> validate_resource_type n p inner
      | Some (TGeneric g) \<Rightarrow>
          (case gen_bound g of BoundEq inner \<Rightarrow> validate_resource_type n p inner | BoundSub \<Rightarrow> Inr ())
      | _ \<Rightarrow> Inl (Runtime ''resource type is missing''))"

definition resource_depth :: "program \<Rightarrow> nat" where
  "resource_depth p = Suc (length (pr_types p))"

section \<open>Records, variants and flags\<close>

definition find_fields ::
  "label_valtype list \<Rightarrow> (label \<times> component_value) list \<Rightarrow> component_error + component_value list" where
  "find_fields fs entries =
     rmap (\<lambda>f. ok_or (InvalidArgument ''record field is missing'') (map_of entries (fl_label f))) fs"

text \<open>The field values in the order of the type, as both the flat and the memory path compute
  them.\<close>

definition record_field_values ::
  "label_valtype list \<Rightarrow> component_value \<Rightarrow> component_error + component_value list" where
  "record_field_values fs v =
     (if is_tuple_fields fs then
        (case v of
           CTuple values \<Rightarrow> Inr values
         | CRecord entries \<Rightarrow> find_fields fs entries
         | _ \<Rightarrow> Inl (InvalidArgument ''expected tuple value''))
      else
        (case v of
           CRecord entries \<Rightarrow> find_fields fs entries
         | _ \<Rightarrow> Inl (InvalidArgument ''expected record value'')))"

definition record_of :: "label_valtype list \<Rightarrow> component_value list \<Rightarrow> component_value" where
  "record_of fs values =
     (if is_tuple_fields fs then CTuple values else CRecord (zip (map fl_label fs) values))"

text \<open>The case name and the payload that a value stands for.\<close>

definition variant_parts ::
  "variant_case list \<Rightarrow> component_value \<Rightarrow> component_error + (label \<times> component_value option)" where
  "variant_parts cases v =
     (case v of
        CVariant c payload \<Rightarrow> Inr (c, payload)
      | CEnum c \<Rightarrow> Inr (c, None)
      | COption payload \<Rightarrow>
          if is_option_cases cases then
            (case payload of Some x \<Rightarrow> Inr (''some'', Some x) | None \<Rightarrow> Inr (''none'', None))
          else Inl (InvalidArgument ''expected variant-compatible value'')
      | CResult ok err \<Rightarrow>
          if is_result_cases cases then
            (case (ok, err) of
               (Some x, None) \<Rightarrow> Inr (''ok'', Some x)
             | (None, Some x) \<Rightarrow> Inr (''err'', Some x)
             | _ \<Rightarrow> Inl (InvalidArgument ''result value must set exactly one branch''))
          else Inl (InvalidArgument ''expected variant-compatible value'')
      | _ \<Rightarrow> Inl (InvalidArgument ''expected variant-compatible value''))"

definition case_index_of :: "variant_case list \<Rightarrow> label \<Rightarrow> component_error + nat" where
  "case_index_of cases case_name =
     ok_or (InvalidArgument ''unknown variant case'') (position (\<lambda>c. cs_label c = case_name) cases)"

text \<open>A payload where the case takes none, unless it is the empty tuple of a result.\<close>

definition unexpected_payload :: "variant_case list \<Rightarrow> component_value option \<Rightarrow> bool" where
  "unexpected_payload cases payload \<longleftrightarrow>
     payload \<noteq> None \<and> \<not> (is_result_cases cases \<and> payload = Some (CTuple []))"

text \<open>The value that a case and its payload are lifted to.\<close>

definition variant_of :: "variant_case list \<Rightarrow> variant_case \<Rightarrow> component_value option \<Rightarrow> component_value" where
  "variant_of cases c payload =
     (if is_option_cases cases then COption payload
      else if is_result_cases cases then
        (let payload = (if cs_ty c = None then Some (CTuple []) else payload)
         in if cs_label c = ''ok'' then CResult payload None else CResult None payload)
      else if is_enum_cases cases then CEnum (cs_label c)
      else CVariant (cs_label c) payload)"

definition lower_flags_value :: "component_value \<Rightarrow> label list \<Rightarrow> component_error + wasm_value list" where
  "lower_flags_value v labels =
     rbind (case v of CFlags flags \<Rightarrow> Inr flags | _ \<Rightarrow> Inl (InvalidArgument ''expected flags value''))
     (\<lambda>selected.
     rbind (rfold (\<lambda>flag words.
         rbind (ok_or (InvalidArgument ''unknown flag'') (position (\<lambda>l. l = flag) labels)) (\<lambda>index.
           Inr (words[index div 32 := words ! (index div 32) OR push_bit (index mod 32) 1])))
       selected
       (replicate (if labels = [] then 0 else if length labels \<le> 16 then 1 else div_ceil (length labels) 32) 0))
     (\<lambda>words. Inr (map WI32 words)))"

text \<open>The labels of one chunk of 32 whose bits are set.\<close>

definition flags_chunk :: "label list \<Rightarrow> nat \<Rightarrow> u32 \<Rightarrow> label list" where
  "flags_chunk labels chunk_start bits =
     map (\<lambda>b. labels ! (chunk_start + b))
       (filter (\<lambda>b. chunk_start + b < length labels \<and> bits AND push_bit b 1 \<noteq> 0) [0..<32])"

definition chunk_starts :: "label list \<Rightarrow> nat list" where
  "chunk_starts labels = map (\<lambda>k. 32 * k) [0..<div_ceil (length labels) 32]"

section \<open>Loading values from memory\<close>

type_synonym reader = "type_id \<Rightarrow> u32 \<Rightarrow> component_error + component_value"

definition char_from_u32 :: "u32 \<Rightarrow> rchar option" where
  "char_from_u32 w = (if is_scalar w then Some w else None)"

definition read_primitive_from_memory ::
  "prim_valtype \<Rightarrow> 'g options \<Rightarrow> 'g store \<Rightarrow> core_export_ref \<Rightarrow> u32 \<Rightarrow> component_error + component_value" where
  "read_primitive_from_memory prim opts st memory ptr =
     (case prim of
        PBool \<Rightarrow> rbind (read_u8_from_memory st memory ptr) (\<lambda>w. Inr (CBool (w \<noteq> 0)))
      | PS8 \<Rightarrow> rbind (read_u8_from_memory st memory ptr) (\<lambda>w. Inr (CS8 w))
      | PU8 \<Rightarrow> rbind (read_u8_from_memory st memory ptr) (\<lambda>w. Inr (CU8 w))
      | PS16 \<Rightarrow> rbind (read_u16_from_memory st memory ptr) (\<lambda>w. Inr (CS16 w))
      | PU16 \<Rightarrow> rbind (read_u16_from_memory st memory ptr) (\<lambda>w. Inr (CU16 w))
      | PS32 \<Rightarrow> rbind (read_i32_from_memory st memory ptr) (\<lambda>w. Inr (CS32 w))
      | PU32 \<Rightarrow> rbind (read_i32_from_memory st memory ptr) (\<lambda>w. Inr (CU32 w))
      | PS64 \<Rightarrow> rbind (read_i64_from_memory st memory ptr) (\<lambda>w. Inr (CS64 w))
      | PU64 \<Rightarrow> rbind (read_i64_from_memory st memory ptr) (\<lambda>w. Inr (CU64 w))
      | PF32 \<Rightarrow> rbind (read_memory_array 4 st memory ptr) (\<lambda>bs. Inr (CF32 (from_le bs)))
      | PF64 \<Rightarrow> rbind (read_memory_array 8 st memory ptr) (\<lambda>bs. Inr (CF64 (from_le bs)))
      | PChar \<Rightarrow>
          rbind (read_i32_from_memory st memory ptr) (\<lambda>w.
          rbind (ok_or (Trap ''invalid char scalar'') (char_from_u32 w)) (\<lambda>c. Inr (CChar c)))
      | PString \<Rightarrow>
          rbind (read_i32_from_memory st memory ptr) (\<lambda>string_ptr.
          rbind (read_i32_from_memory st memory (ptr + 4)) (\<lambda>len.
          rbind (read_string_from_memory st memory string_ptr len (op_string_encoding opts)) (\<lambda>s.
            Inr (CString s)))))"

definition read_value_from_memory ::
  "reader \<Rightarrow> comp_valtype \<Rightarrow> 'g options \<Rightarrow> 'g store \<Rightarrow> core_export_ref \<Rightarrow> u32 \<Rightarrow>
   component_error + component_value" where
  "read_value_from_memory rec ty opts st memory ptr =
     (case ty of
        VPrim prim \<Rightarrow> read_primitive_from_memory prim opts st memory ptr
      | VType i \<Rightarrow> rec i ptr)"

text \<open>The loop body of the record functions: the field values so far and the offset.\<close>

definition read_field ::
  "reader \<Rightarrow> 'g options \<Rightarrow> program \<Rightarrow> 'g store \<Rightarrow> core_export_ref \<Rightarrow> u32 \<Rightarrow> label_valtype \<Rightarrow>
   component_value list \<times> u32 \<Rightarrow> component_error + (component_value list \<times> u32)" where
  "read_field rec opts p st memory ptr f = (\<lambda>(values, cursor).
     rbind (memory_abi_for_valtype (fl_ty f) p) (\<lambda>abi.
     let cursor = align_to cursor (max (ma_align abi) 1) in
     rbind (read_value_from_memory rec (fl_ty f) opts st memory (ptr + cursor)) (\<lambda>v.
       Inr (values @ [v], saturating_add cursor (ma_size abi)))))"

definition read_record_value_from_memory ::
  "reader \<Rightarrow> label_valtype list \<Rightarrow> 'g options \<Rightarrow> program \<Rightarrow> 'g store \<Rightarrow> core_export_ref \<Rightarrow> u32 \<Rightarrow>
   component_error + component_value" where
  "read_record_value_from_memory rec fs opts p st memory ptr =
     rbind (rfold (read_field rec opts p st memory ptr) fs ([], 0))
     (\<lambda>(values, _). Inr (record_of fs values))"

definition read_variant_discriminant_from_memory ::
  "'g store \<Rightarrow> core_export_ref \<Rightarrow> u32 \<Rightarrow> nat \<Rightarrow> component_error + nat" where
  "read_variant_discriminant_from_memory st memory ptr case_count =
     rbind (variant_discriminant_size case_count) (\<lambda>sz.
       if sz = 1 then rbind (read_u8_from_memory st memory ptr) (\<lambda>w. Inr (unat w))
       else if sz = 2 then rbind (read_u16_from_memory st memory ptr) (\<lambda>w. Inr (unat w))
       else rbind (read_i32_from_memory st memory ptr) (\<lambda>w. Inr (unat (scast w :: u64))))"

definition read_variant_value_from_memory ::
  "reader \<Rightarrow> variant_case list \<Rightarrow> 'g options \<Rightarrow> program \<Rightarrow> 'g store \<Rightarrow> core_export_ref \<Rightarrow> u32 \<Rightarrow>
   component_error + component_value" where
  "read_variant_value_from_memory rec cases opts p st memory ptr =
     rbind (read_variant_discriminant_from_memory st memory ptr (length cases)) (\<lambda>discriminant.
     rbind (ok_or (Trap ''variant discriminant is out of bounds'') (get_idx cases discriminant)) (\<lambda>c.
     rbind (variant_payload_offset_and_size cases p) (\<lambda>(payload_offset, _).
     rbind (case cs_ty c of
              None \<Rightarrow> Inr None
            | Some ty \<Rightarrow>
                rbind (read_value_from_memory rec ty opts st memory (ptr + payload_offset)) (\<lambda>v.
                  Inr (Some v)))
     (\<lambda>payload. Inr (variant_of cases c payload)))))"

definition read_flags_value_from_memory ::
  "label list \<Rightarrow> 'g store \<Rightarrow> core_export_ref \<Rightarrow> u32 \<Rightarrow> component_error + component_value" where
  "read_flags_value_from_memory labels st memory ptr =
     rbind
       (let sz = ma_size (flags_memory_abi (length labels)) in
        if sz = 0 then Inr []
        else if sz = 1 then rbind (read_u8_from_memory st memory ptr) (\<lambda>w. Inr [ucast w])
        else if sz = 2 then rbind (read_u16_from_memory st memory ptr) (\<lambda>w. Inr [ucast w])
        else rmap (\<lambda>index. read_i32_from_memory st memory (ptr + of_nat index * 4))
               [0..<div_ceil (length labels) 32])
     (\<lambda>words.
       Inr (CFlags (concat (map (\<lambda>start.
         flags_chunk labels start (case get_idx words (start div 32) of Some w \<Rightarrow> w | None \<Rightarrow> 0))
         (chunk_starts labels)))))"

definition read_list_elements ::
  "reader \<Rightarrow> comp_valtype \<Rightarrow> u32 \<Rightarrow> u32 \<Rightarrow> 'g options \<Rightarrow> program \<Rightarrow> 'g store \<Rightarrow> core_export_ref \<Rightarrow>
   component_error + component_value list" where
  "read_list_elements rec elem base len opts p st memory =
     rbind (element_stride elem p) (\<lambda>stride.
       if stride = 0 \<and> len \<noteq> 0
       then Inl (Trap ''list element type occupies no memory'')
       else rmap (\<lambda>index.
           if unat stride * index < 2 ^ 32 \<and> unat base + unat stride * index < 2 ^ 32
           then read_value_from_memory rec elem opts st memory (base + stride * of_nat index)
           else Inl (Trap ''list element is outside the address space''))
         [0..<unat len])"

definition check_fixed_len :: "nat option \<Rightarrow> nat \<Rightarrow> component_error \<Rightarrow> component_error + unit" where
  "check_fixed_len fixed_len len e =
     (case fixed_len of Some expected \<Rightarrow> if len \<noteq> expected then Inl e else Inr () | None \<Rightarrow> Inr ())"

definition read_list_value_from_memory ::
  "reader \<Rightarrow> comp_valtype \<Rightarrow> nat option \<Rightarrow> 'g options \<Rightarrow> program \<Rightarrow> 'g store \<Rightarrow> core_export_ref \<Rightarrow> u32 \<Rightarrow>
   component_error + component_value" where
  "read_list_value_from_memory rec elem fixed_len opts p st memory ptr =
     rbind (read_i32_from_memory st memory ptr) (\<lambda>list_ptr.
     rbind (if unat ptr + 4 < 2 ^ 32 then Inr (ptr + 4)
            else Inl (Trap ''list length is outside the address space'')) (\<lambda>len_ptr.
     rbind (read_i32_from_memory st memory len_ptr) (\<lambda>len.
     rbind (check_fixed_len fixed_len (unat len) (Trap ''fixed-length list has another length'')) (\<lambda>_.
     rbind (read_list_elements rec elem list_ptr len opts p st memory) (\<lambda>values.
       Inr (CList values))))))"

primrec read_defined_value_from_memory ::
  "nat \<Rightarrow> 'g options \<Rightarrow> program \<Rightarrow> 'g store \<Rightarrow> core_export_ref \<Rightarrow> reader" where
  "read_defined_value_from_memory 0 opts p st memory i ptr = Inl StackOverflow"
| "read_defined_value_from_memory (Suc n) opts p st memory i ptr =
     (let rec = read_defined_value_from_memory n opts p st memory in
      rbind (ok_or (Runtime ''type id not found'') (get_type p i)) (\<lambda>ty.
        case ty of
          TDefVal (DPrim prim) \<Rightarrow> read_primitive_from_memory prim opts st memory ptr
        | TDefVal (DRecord fs) \<Rightarrow> read_record_value_from_memory rec fs opts p st memory ptr
        | TDefVal (DVariant cases) \<Rightarrow> read_variant_value_from_memory rec cases opts p st memory ptr
        | TDefVal (DFlags labels) \<Rightarrow> read_flags_value_from_memory labels st memory ptr
        | TDefVal (DList elem maybe_len) \<Rightarrow>
            read_list_value_from_memory rec elem maybe_len opts p st memory ptr
        | TDefVal (DOwn resource) \<Rightarrow>
            rbind (validate_resource_type (resource_depth p) p resource) (\<lambda>_.
            rbind (read_i32_from_memory st memory ptr) (\<lambda>h. Inr (COwn h)))
        | TDefVal (DBorrow resource) \<Rightarrow>
            rbind (validate_resource_type (resource_depth p) p resource) (\<lambda>_.
            rbind (read_i32_from_memory st memory ptr) (\<lambda>h. Inr (CBorrow h)))
        | TResource _ \<Rightarrow> rbind (read_i32_from_memory st memory ptr) (\<lambda>h. Inr (COwn h))
        | TGeneric _ \<Rightarrow> rbind (read_i32_from_memory st memory ptr) (\<lambda>h. Inr (COwn h))
        | _ \<Rightarrow> Inl (Unsupported ''canonical ABI for this type is not implemented yet'')))"

section \<open>Storing values in memory\<close>

type_synonym 'g writer = "component_value \<Rightarrow> type_id \<Rightarrow> u32 \<Rightarrow> ('g, unit) comp_action"

definition saturating_mul :: "u32 \<Rightarrow> u32 \<Rightarrow> u32" where
  "saturating_mul a b = (if unat a * unat b < 2 ^ 32 then a * b else - 1)"

primrec write_flat_values :: "core_export_ref \<Rightarrow> u32 \<Rightarrow> wasm_value list \<Rightarrow> ('g, unit) comp_action" where
  "write_flat_values memory cursor [] = aret ()"
| "write_flat_values memory cursor (v # vs) =
     (case v of
        WI32 w \<Rightarrow> abind (write_memory memory cursor (to_le 4 w)) (\<lambda>_. write_flat_values memory (cursor + 4) vs)
      | WI64 w \<Rightarrow> abind (write_memory memory cursor (to_le 8 w)) (\<lambda>_. write_flat_values memory (cursor + 8) vs)
      | WF32 w \<Rightarrow> abind (write_memory memory cursor (to_le 4 w)) (\<lambda>_. write_flat_values memory (cursor + 4) vs)
      | WF64 w \<Rightarrow> abind (write_memory memory cursor (to_le 8 w)) (\<lambda>_. write_flat_values memory (cursor + 8) vs)
      | WFuncRef w \<Rightarrow> abind (write_memory memory cursor (to_le 4 w)) (\<lambda>_. write_flat_values memory (cursor + 4) vs)
      | WExternRef w \<Rightarrow> abind (write_memory memory cursor (to_le 4 w)) (\<lambda>_. write_flat_values memory (cursor + 4) vs)
      | WV128 w \<Rightarrow> abind (write_memory memory cursor (to_le 16 w)) (\<lambda>_. write_flat_values memory (cursor + 16) vs))"

definition write_primitive_to_memory ::
  "component_value \<Rightarrow> prim_valtype \<Rightarrow> 'g options \<Rightarrow> u32 \<Rightarrow> ('g, unit) comp_action" where
  "write_primitive_to_memory v prim opts ptr =
     abind (alift (require_memory opts)) (\<lambda>memory.
       case prim of
         PBool \<Rightarrow> abind (alift (expect_bool v)) (\<lambda>b. write_memory memory ptr [of_bool b])
       | PS8 \<Rightarrow> abind (alift (expect_i32 v)) (\<lambda>w. write_memory memory ptr [ucast w])
       | PU8 \<Rightarrow> abind (alift (expect_u32 v)) (\<lambda>w. write_memory memory ptr [ucast w])
       | PS16 \<Rightarrow> abind (alift (expect_i32 v)) (\<lambda>w. write_memory memory ptr (to_le 2 (ucast w :: u16)))
       | PU16 \<Rightarrow> abind (alift (expect_u32 v)) (\<lambda>w. write_memory memory ptr (to_le 2 (ucast w :: u16)))
       | PS32 \<Rightarrow> abind (alift (expect_i32 v)) (\<lambda>w. write_memory memory ptr (to_le 4 w))
       | PU32 \<Rightarrow> abind (alift (expect_u32 v)) (\<lambda>w. write_memory memory ptr (to_le 4 w))
       | PS64 \<Rightarrow> abind (alift (expect_i64 v)) (\<lambda>w. write_memory memory ptr (to_le 8 w))
       | PU64 \<Rightarrow> abind (alift (expect_u64 v)) (\<lambda>w. write_memory memory ptr (to_le 8 w))
       | PF32 \<Rightarrow> abind (alift (expect_f32 v)) (\<lambda>w. write_memory memory ptr (to_le 4 w))
       | PF64 \<Rightarrow> abind (alift (expect_f64 v)) (\<lambda>w. write_memory memory ptr (to_le 8 w))
       | PChar \<Rightarrow> abind (alift (expect_char v)) (\<lambda>w. write_memory memory ptr (to_le 4 w))
       | PString \<Rightarrow> abind (lower_string v opts) (write_flat_values memory ptr))"

definition write_value_to_memory ::
  "'g writer \<Rightarrow> component_value \<Rightarrow> comp_valtype \<Rightarrow> 'g options \<Rightarrow> u32 \<Rightarrow> ('g, unit) comp_action" where
  "write_value_to_memory rec v ty opts ptr =
     (case ty of
        VPrim prim \<Rightarrow> write_primitive_to_memory v prim opts ptr
      | VType i \<Rightarrow> rec v i ptr)"

definition write_field ::
  "'g writer \<Rightarrow> 'g options \<Rightarrow> program \<Rightarrow> u32 \<Rightarrow> component_value \<times> label_valtype \<Rightarrow> u32 \<Rightarrow>
   ('g, u32) comp_action" where
  "write_field rec opts p ptr = (\<lambda>(field_value, f) cursor.
     abind (alift (memory_abi_for_valtype (fl_ty f) p)) (\<lambda>abi.
     let cursor = align_to cursor (max (ma_align abi) 1) in
     abind (write_value_to_memory rec field_value (fl_ty f) opts (ptr + cursor)) (\<lambda>_.
       aret (saturating_add cursor (ma_size abi)))))"

definition write_record_value_to_memory ::
  "'g writer \<Rightarrow> component_value \<Rightarrow> label_valtype list \<Rightarrow> 'g options \<Rightarrow> program \<Rightarrow> u32 \<Rightarrow>
   ('g, unit) comp_action" where
  "write_record_value_to_memory rec v fs opts p ptr =
     abind (alift (record_field_values fs v)) (\<lambda>values.
     abind (afold (write_field rec opts p ptr) (zip values fs) 0)
     (\<lambda>_. aret ()))"

definition write_variant_discriminant_to_memory ::
  "'g options \<Rightarrow> u32 \<Rightarrow> nat \<Rightarrow> nat \<Rightarrow> ('g, unit) comp_action" where
  "write_variant_discriminant_to_memory opts ptr case_count discriminant =
     abind (alift (require_memory opts)) (\<lambda>memory.
     abind (alift (variant_discriminant_size case_count)) (\<lambda>sz.
       if sz = 1 then write_memory memory ptr [of_nat discriminant]
       else if sz = 2 then write_memory memory ptr (to_le 2 (of_nat discriminant :: u16))
       else write_memory memory ptr (to_le 4 (of_nat discriminant :: u32))))"

definition write_variant_value_to_memory ::
  "'g writer \<Rightarrow> component_value \<Rightarrow> variant_case list \<Rightarrow> 'g options \<Rightarrow> program \<Rightarrow> u32 \<Rightarrow>
   ('g, unit) comp_action" where
  "write_variant_value_to_memory rec v cases opts p ptr =
     abind (alift (variant_parts cases v)) (\<lambda>(case_name, payload).
     abind (alift (case_index_of cases case_name)) (\<lambda>case_index.
     abind (write_variant_discriminant_to_memory opts ptr (length cases) case_index) (\<lambda>_.
     abind (alift (variant_payload_offset_and_size cases p)) (\<lambda>(payload_offset, payload_size).
     abind (if payload_size \<noteq> 0
            then abind (alift (require_memory opts)) (\<lambda>memory.
              write_memory memory (ptr + payload_offset) (replicate (unat payload_size) 0))
            else aret ()) (\<lambda>_.
       case cs_ty (cases ! case_index) of
         Some ty \<Rightarrow>
           abind (alift (ok_or (InvalidArgument ''variant case expects a payload'') payload)) (\<lambda>x.
             write_value_to_memory rec x ty opts (ptr + payload_offset))
       | None \<Rightarrow>
           if unexpected_payload cases payload
           then afail (InvalidArgument ''variant case does not accept a payload'')
           else aret ())))))"

definition flag_word :: "wasm_value \<Rightarrow> component_error + u32" where
  "flag_word w = (case w of WI32 bits \<Rightarrow> Inr bits | _ \<Rightarrow> Inl (Runtime ''flags lowered to unexpected flat value''))"

definition write_flags_value_to_memory ::
  "component_value \<Rightarrow> label list \<Rightarrow> 'g options \<Rightarrow> u32 \<Rightarrow> ('g, unit) comp_action" where
  "write_flags_value_to_memory v labels opts ptr =
     abind (alift (require_memory opts)) (\<lambda>memory.
     abind (alift (rbind (lower_flags_value v labels) (rmap flag_word))) (\<lambda>words.
       let sz = ma_size (flags_memory_abi (length labels));
           first = (case words of [] \<Rightarrow> 0 | w # _ \<Rightarrow> w)
       in
       if sz = 0 then aret ()
       else if sz = 1 then write_memory memory ptr [ucast first]
       else if sz = 2 then write_memory memory ptr (to_le 2 (ucast first :: u16))
       else afold (\<lambda>(index, word) _. write_memory memory (ptr + of_nat index * 4) (to_le 4 word))
              (enumerate 0 words) ()))"

definition lower_list_value ::
  "'g writer \<Rightarrow> component_value \<Rightarrow> comp_valtype \<Rightarrow> nat option \<Rightarrow> 'g options \<Rightarrow> program \<Rightarrow>
   ('g, wasm_value list) comp_action" where
  "lower_list_value rec v elem fixed_len opts p =
     abind (alift (case v of CList values \<Rightarrow> Inr values | _ \<Rightarrow> Inl (InvalidArgument ''expected list value'')))
     (\<lambda>values.
     abind (alift (check_fixed_len fixed_len (length values) (InvalidArgument ''list has another length''))) (\<lambda>_.
     abind (alift (require_realloc opts)) (\<lambda>realloc.
     abind (alift (memory_abi_for_valtype elem p)) (\<lambda>elem_abi.
       let elem_align = max (ma_align elem_abi) 1;
           stride = align_to (ma_size elem_abi) elem_align;
           total_len = saturating_mul stride (of_nat (length values))
       in
       abind (if total_len = 0 then aret 0
              else abind (call_realloc realloc 0 0 elem_align total_len) (\<lambda>ptr.
                abind (alift (validate_realloc_pointer_alignment ptr elem_align)) (\<lambda>_. aret ptr)))
       (\<lambda>ptr.
       abind (afold (\<lambda>(index, x) _.
           write_value_to_memory rec x elem opts (ptr + stride * of_nat index))
         (enumerate 0 values) ())
       (\<lambda>_. aret [WI32 ptr, WI32 (of_nat (length values))]))))))"

primrec write_defined_value_to_memory ::
  "nat \<Rightarrow> 'g options \<Rightarrow> program \<Rightarrow> 'g writer" where
  "write_defined_value_to_memory 0 opts p v i ptr = afail StackOverflow"
| "write_defined_value_to_memory (Suc n) opts p v i ptr =
     (let rec = write_defined_value_to_memory n opts p in
      abind (alift (require_memory opts)) (\<lambda>memory.
      abind (alift (ok_or (Runtime ''type id not found'') (get_type p i))) (\<lambda>ty.
        case ty of
          TDefVal (DPrim prim) \<Rightarrow> write_primitive_to_memory v prim opts ptr
        | TDefVal (DRecord fs) \<Rightarrow> write_record_value_to_memory rec v fs opts p ptr
        | TDefVal (DVariant cases) \<Rightarrow> write_variant_value_to_memory rec v cases opts p ptr
        | TDefVal (DFlags labels) \<Rightarrow> write_flags_value_to_memory v labels opts ptr
        | TDefVal (DList elem maybe_len) \<Rightarrow>
            abind (lower_list_value rec v elem maybe_len opts p) (write_flat_values memory ptr)
        | TDefVal (DOwn resource) \<Rightarrow>
            abind (alift (validate_resource_type (resource_depth p) p resource)) (\<lambda>_.
            abind (alift (expect_handle v)) (\<lambda>h. write_memory memory ptr (to_le 4 h)))
        | TDefVal (DBorrow resource) \<Rightarrow>
            abind (alift (validate_resource_type (resource_depth p) p resource)) (\<lambda>_.
            abind (alift (expect_handle v)) (\<lambda>h. write_memory memory ptr (to_le 4 h)))
        | TResource _ \<Rightarrow> abind (alift (expect_handle v)) (\<lambda>h. write_memory memory ptr (to_le 4 h))
        | TGeneric _ \<Rightarrow> abind (alift (expect_handle v)) (\<lambda>h. write_memory memory ptr (to_le 4 h))
        | _ \<Rightarrow> afail (Unsupported ''canonical ABI for this type is not implemented yet''))))"

section \<open>Flat values\<close>

definition zero_wasm_value :: "valtype \<Rightarrow> wasm_value" where
  "zero_wasm_value ty =
     (case ty of
        I32 \<Rightarrow> WI32 0 | I64 \<Rightarrow> WI64 0 | F32 \<Rightarrow> WF32 0 | F64 \<Rightarrow> WF64 0
      | FuncRef \<Rightarrow> WFuncRef 0 | ExternRef \<Rightarrow> WExternRef 0 | V128 \<Rightarrow> WV128 0)"

definition coerce_flat_value :: "wasm_value \<Rightarrow> valtype \<Rightarrow> valtype \<Rightarrow> component_error + wasm_value" where
  "coerce_flat_value v from_ty to_ty =
     (if from_ty = to_ty then Inr v
      else case (v, from_ty, to_ty) of
        (WI32 w, I32, I64) \<Rightarrow> Inr (WI64 (ucast w))
      | (WF32 w, F32, I32) \<Rightarrow> Inr (WI32 w)
      | (WI32 w, I32, F32) \<Rightarrow> Inr (WF32 w)
      | (WF32 w, F32, I64) \<Rightarrow> Inr (WI64 (ucast w))
      | (WI64 w, I64, I32) \<Rightarrow> Inr (WI32 (ucast w))
      | (WI64 w, I64, F32) \<Rightarrow> Inr (WF32 (ucast w))
      | (WF64 w, F64, I64) \<Rightarrow> Inr (WI64 w)
      | (WI64 w, I64, F64) \<Rightarrow> Inr (WF64 w)
      | _ \<Rightarrow> Inl (Trap ''cannot coerce canonical value''))"

record cursor =
  cu_values :: "wasm_value list"
  cu_offset :: nat

definition cursor_new :: "wasm_value list \<Rightarrow> cursor" where
  "cursor_new values = \<lparr>cu_values = values, cu_offset = 0\<rparr>"

type_synonym 'a cursor_action = "(cursor, component_error, 'a) action"

definition cursor_next :: "wasm_value cursor_action" where
  "cursor_next cu =
     (case get_idx (cu_values cu) (cu_offset cu) of
        None \<Rightarrow> (Inl (Trap ''canonical ABI value underflow''), cu)
      | Some v \<Rightarrow> (Inr v, cu\<lparr>cu_offset := cu_offset cu + 1\<rparr>))"

definition next_i32 :: "u32 cursor_action" where
  "next_i32 = abind cursor_next (\<lambda>v. case v of WI32 w \<Rightarrow> aret w | _ \<Rightarrow> afail (Trap ''expected i32''))"

definition next_i64 :: "u64 cursor_action" where
  "next_i64 = abind cursor_next (\<lambda>v. case v of WI64 w \<Rightarrow> aret w | _ \<Rightarrow> afail (Trap ''expected i64''))"

definition next_f32 :: "u32 cursor_action" where
  "next_f32 = abind cursor_next (\<lambda>v. case v of WF32 w \<Rightarrow> aret w | _ \<Rightarrow> afail (Trap ''expected f32''))"

definition next_f64 :: "u64 cursor_action" where
  "next_f64 = abind cursor_next (\<lambda>v. case v of WF64 w \<Rightarrow> aret w | _ \<Rightarrow> afail (Trap ''expected f64''))"

definition next_for_type :: "valtype \<Rightarrow> wasm_value cursor_action" where
  "next_for_type ty =
     (case ty of
        I32 \<Rightarrow> abind cursor_next (\<lambda>v. case v of WI32 _ \<Rightarrow> aret v | _ \<Rightarrow> afail (Trap ''expected i32''))
      | I64 \<Rightarrow> abind cursor_next (\<lambda>v. case v of WI64 _ \<Rightarrow> aret v | _ \<Rightarrow> afail (Trap ''expected i64''))
      | F32 \<Rightarrow> abind cursor_next (\<lambda>v. case v of WF32 _ \<Rightarrow> aret v | _ \<Rightarrow> afail (Trap ''expected f32''))
      | F64 \<Rightarrow> abind cursor_next (\<lambda>v. case v of WF64 _ \<Rightarrow> aret v | _ \<Rightarrow> afail (Trap ''expected f64''))
      | _ \<Rightarrow> afail (Unsupported ''core cursor does not support this type''))"

text \<open>A loop that collects the results of its body.\<close>

primrec amap :: "('x \<Rightarrow> ('s, 'e, 'y) action) \<Rightarrow> 'x list \<Rightarrow> ('s, 'e, 'y list) action" where
  "amap f [] = aret []"
| "amap f (x # xs) = abind (f x) (\<lambda>y. abind (amap f xs) (\<lambda>ys. aret (y # ys)))"

text \<open>An index expression that panics out of range.\<close>

definition index_or_panic :: "'a list \<Rightarrow> nat \<Rightarrow> component_error + 'a" where
  "index_or_panic xs i = ok_or (Runtime ''panic: index out of bounds'') (get_idx xs i)"

section \<open>Lowering to flat values\<close>

type_synonym 'g lowerer = "component_value \<Rightarrow> type_id \<Rightarrow> ('g, wasm_value list) comp_action"

definition lower_primitive ::
  "component_value \<Rightarrow> prim_valtype \<Rightarrow> 'g options \<Rightarrow> ('g, wasm_value list) comp_action" where
  "lower_primitive v prim opts =
     (case prim of
        PBool \<Rightarrow> abind (alift (expect_bool v)) (\<lambda>b. aret [WI32 (of_bool b)])
      | PS8 \<Rightarrow> abind (alift (expect_i32 v)) (\<lambda>w. aret [WI32 (scast (ucast w :: byte))])
      | PU8 \<Rightarrow> abind (alift (expect_u32 v)) (\<lambda>w. aret [WI32 (ucast (ucast w :: byte))])
      | PS16 \<Rightarrow> abind (alift (expect_i32 v)) (\<lambda>w. aret [WI32 (scast (ucast w :: u16))])
      | PU16 \<Rightarrow> abind (alift (expect_u32 v)) (\<lambda>w. aret [WI32 (ucast (ucast w :: u16))])
      | PS32 \<Rightarrow> abind (alift (expect_i32 v)) (\<lambda>w. aret [WI32 w])
      | PU32 \<Rightarrow> abind (alift (expect_u32 v)) (\<lambda>w. aret [WI32 w])
      | PS64 \<Rightarrow> abind (alift (expect_i64 v)) (\<lambda>w. aret [WI64 w])
      | PU64 \<Rightarrow> abind (alift (expect_u64 v)) (\<lambda>w. aret [WI64 w])
      | PF32 \<Rightarrow> abind (alift (expect_f32 v)) (\<lambda>w. aret [WF32 w])
      | PF64 \<Rightarrow> abind (alift (expect_f64 v)) (\<lambda>w. aret [WF64 w])
      | PChar \<Rightarrow> abind (alift (expect_char v)) (\<lambda>w. aret [WI32 w])
      | PString \<Rightarrow> lower_string v opts)"

definition lower_value_to_flat ::
  "'g lowerer \<Rightarrow> component_value \<Rightarrow> comp_valtype \<Rightarrow> 'g options \<Rightarrow> ('g, wasm_value list) comp_action" where
  "lower_value_to_flat rec v ty opts =
     (case ty of VPrim prim \<Rightarrow> lower_primitive v prim opts | VType i \<Rightarrow> rec v i)"

definition lower_record_value ::
  "'g lowerer \<Rightarrow> component_value \<Rightarrow> label_valtype list \<Rightarrow> 'g options \<Rightarrow> ('g, wasm_value list) comp_action" where
  "lower_record_value rec v fs opts =
     abind (alift (record_field_values fs v)) (\<lambda>values.
       afold (\<lambda>(x, f) lowered.
           abind (lower_value_to_flat rec x (fl_ty f) opts) (\<lambda>flat. aret (lowered @ flat)))
         (zip values fs) [])"

definition lower_variant_value ::
  "'g lowerer \<Rightarrow> component_value \<Rightarrow> variant_case list \<Rightarrow> 'g options \<Rightarrow> program \<Rightarrow>
   ('g, wasm_value list) comp_action" where
  "lower_variant_value rec v cases opts p =
     abind (alift (variant_parts cases v)) (\<lambda>(case_name, payload).
     abind (alift (case_index_of cases case_name)) (\<lambda>case_index.
     abind (alift (variant_payload_flat_types (flat_types_for_type (type_depth p) p) cases)) (\<lambda>payload_types.
     abind (case cs_ty (cases ! case_index) of
              Some ty \<Rightarrow>
                abind (alift (ok_or (InvalidArgument ''variant case expects a payload'') payload)) (\<lambda>x.
                abind (lower_value_to_flat rec x ty opts) (\<lambda>flat.
                abind (alift (flat_types p ty)) (\<lambda>tys. aret (flat, tys))))
            | None \<Rightarrow>
                if unexpected_payload cases payload
                then afail (InvalidArgument ''variant case does not accept a payload'')
                else aret ([], []))
     (\<lambda>(case_flat, case_flat_types).
     abind (alift (rmap (\<lambda>(index, payload_ty).
         case get_idx case_flat index of
           Some x \<Rightarrow> rbind (index_or_panic case_flat_types index) (\<lambda>ty. coerce_flat_value x ty payload_ty)
         | None \<Rightarrow> Inr (zero_wasm_value payload_ty))
       (enumerate 0 payload_types)))
     (\<lambda>rest. aret (WI32 (of_nat case_index) # rest))))))"

primrec lower_defined_value :: "nat \<Rightarrow> 'g options \<Rightarrow> program \<Rightarrow> 'g lowerer" where
  "lower_defined_value 0 opts p v i = afail StackOverflow"
| "lower_defined_value (Suc n) opts p v i =
     (let rec = lower_defined_value n opts p in
      abind (alift (ok_or (Runtime ''type id not found'') (get_type p i))) (\<lambda>ty.
        case ty of
          TDefVal (DPrim prim) \<Rightarrow> lower_primitive v prim opts
        | TDefVal (DRecord fs) \<Rightarrow> lower_record_value rec v fs opts
        | TDefVal (DVariant cases) \<Rightarrow> lower_variant_value rec v cases opts p
        | TDefVal (DFlags labels) \<Rightarrow> alift (lower_flags_value v labels)
        | TDefVal (DList elem maybe_len) \<Rightarrow>
            lower_list_value (write_defined_value_to_memory n opts p) v elem maybe_len opts p
        | TDefVal (DOwn resource) \<Rightarrow>
            abind (alift (validate_resource_type (resource_depth p) p resource)) (\<lambda>_.
            abind (alift (expect_handle v)) (\<lambda>h. aret [WI32 h]))
        | TDefVal (DBorrow resource) \<Rightarrow>
            abind (alift (validate_resource_type (resource_depth p) p resource)) (\<lambda>_.
            abind (alift (expect_handle v)) (\<lambda>h. aret [WI32 h]))
        | TResource _ \<Rightarrow> abind (alift (expect_handle v)) (\<lambda>h. aret [WI32 h])
        | _ \<Rightarrow> afail (Unsupported ''canonical ABI for this type is not implemented yet'')))"

section \<open>Lifting from flat values\<close>

type_synonym lifter = "type_id \<Rightarrow> component_value cursor_action"

definition lift_primitive ::
  "prim_valtype \<Rightarrow> 'g options \<Rightarrow> 'g store \<Rightarrow> component_value cursor_action" where
  "lift_primitive prim opts st =
     (case prim of
        PBool \<Rightarrow> abind next_i32 (\<lambda>w. aret (CBool (w \<noteq> 0)))
      | PS8 \<Rightarrow> abind next_i32 (\<lambda>w. aret (CS8 (ucast w)))
      | PU8 \<Rightarrow> abind next_i32 (\<lambda>w. aret (CU8 (ucast w)))
      | PS16 \<Rightarrow> abind next_i32 (\<lambda>w. aret (CS16 (ucast w)))
      | PU16 \<Rightarrow> abind next_i32 (\<lambda>w. aret (CU16 (ucast w)))
      | PS32 \<Rightarrow> abind next_i32 (\<lambda>w. aret (CS32 w))
      | PU32 \<Rightarrow> abind next_i32 (\<lambda>w. aret (CU32 w))
      | PS64 \<Rightarrow> abind next_i64 (\<lambda>w. aret (CS64 w))
      | PU64 \<Rightarrow> abind next_i64 (\<lambda>w. aret (CU64 w))
      | PF32 \<Rightarrow> abind next_f32 (\<lambda>w. aret (CF32 w))
      | PF64 \<Rightarrow> abind next_f64 (\<lambda>w. aret (CF64 w))
      | PChar \<Rightarrow>
          abind next_i32 (\<lambda>w.
          abind (alift (ok_or (Trap ''invalid char scalar'') (char_from_u32 w))) (\<lambda>c. aret (CChar c)))
      | PString \<Rightarrow>
          abind (alift (require_memory opts)) (\<lambda>memory.
          abind next_i32 (\<lambda>ptr.
          abind next_i32 (\<lambda>len.
          abind (alift (read_string_from_memory st memory ptr len (op_string_encoding opts))) (\<lambda>s.
            aret (CString s))))))"

definition lift_value ::
  "lifter \<Rightarrow> comp_valtype \<Rightarrow> 'g options \<Rightarrow> 'g store \<Rightarrow> component_value cursor_action" where
  "lift_value rec ty opts st =
     (case ty of VPrim prim \<Rightarrow> lift_primitive prim opts st | VType i \<Rightarrow> rec i)"

definition lift_value_from_flat_values ::
  "lifter \<Rightarrow> comp_valtype \<Rightarrow> 'g options \<Rightarrow> 'g store \<Rightarrow> wasm_value list \<Rightarrow> component_error + component_value" where
  "lift_value_from_flat_values rec ty opts st values = fst (lift_value rec ty opts st (cursor_new values))"

definition lift_record_value ::
  "lifter \<Rightarrow> label_valtype list \<Rightarrow> 'g options \<Rightarrow> 'g store \<Rightarrow> component_value cursor_action" where
  "lift_record_value rec fs opts st =
     abind (amap (\<lambda>f. lift_value rec (fl_ty f) opts st) fs) (\<lambda>values. aret (record_of fs values))"

definition lift_variant_value ::
  "lifter \<Rightarrow> variant_case list \<Rightarrow> 'g options \<Rightarrow> program \<Rightarrow> 'g store \<Rightarrow> component_value cursor_action" where
  "lift_variant_value rec cases opts p st =
     abind next_i32 (\<lambda>w.
     let case_index = unat (scast w :: u64) in
     abind (alift (ok_or (Trap ''variant discriminant is out of bounds'') (get_idx cases case_index))) (\<lambda>c.
     abind (alift (variant_payload_flat_types (flat_types_for_type (type_depth p) p) cases)) (\<lambda>payload_types.
     abind (amap next_for_type payload_types) (\<lambda>raw_payload.
     abind (case cs_ty c of
              Some ty \<Rightarrow>
                abind (alift (flat_types p ty)) (\<lambda>expected_types.
                abind (alift (rmap (\<lambda>(index, expected).
                    rbind (index_or_panic raw_payload index) (\<lambda>x.
                    rbind (index_or_panic payload_types index) (\<lambda>ty. coerce_flat_value x ty expected)))
                  (enumerate 0 expected_types))) (\<lambda>values.
                abind (alift (lift_value_from_flat_values rec ty opts st values)) (\<lambda>x. aret (Some x))))
            | None \<Rightarrow> aret None)
     (\<lambda>payload. aret (variant_of cases c payload))))))"

definition lift_flags_value :: "label list \<Rightarrow> component_value cursor_action" where
  "lift_flags_value labels =
     abind (amap (\<lambda>start. abind next_i32 (\<lambda>bits. aret (flags_chunk labels start bits))) (chunk_starts labels))
       (\<lambda>selected. aret (CFlags (concat selected)))"

definition lift_list_value ::
  "(core_export_ref \<Rightarrow> reader) \<Rightarrow> comp_valtype \<Rightarrow> nat option \<Rightarrow> 'g options \<Rightarrow> program \<Rightarrow> 'g store \<Rightarrow>
   component_value cursor_action" where
  "lift_list_value rec elem fixed_len opts p st =
     abind (alift (require_memory opts)) (\<lambda>memory.
     abind next_i32 (\<lambda>ptr.
     abind next_i32 (\<lambda>len.
     abind (alift (check_fixed_len fixed_len (unat len) (Trap ''fixed-length list has another length''))) (\<lambda>_.
     abind (alift (read_list_elements (rec memory) elem ptr len opts p st memory)) (\<lambda>values.
       aret (CList values))))))"

primrec lift_defined_value :: "nat \<Rightarrow> 'g options \<Rightarrow> program \<Rightarrow> 'g store \<Rightarrow> lifter" where
  "lift_defined_value 0 opts p st i = afail StackOverflow"
| "lift_defined_value (Suc n) opts p st i =
     (let rec = lift_defined_value n opts p st in
      abind (alift (ok_or (Runtime ''type id not found'') (get_type p i))) (\<lambda>ty.
        case ty of
          TDefVal (DPrim prim) \<Rightarrow> lift_primitive prim opts st
        | TDefVal (DRecord fs) \<Rightarrow> lift_record_value rec fs opts st
        | TDefVal (DVariant cases) \<Rightarrow> lift_variant_value rec cases opts p st
        | TDefVal (DFlags labels) \<Rightarrow> lift_flags_value labels
        | TDefVal (DList elem maybe_len) \<Rightarrow>
            lift_list_value (read_defined_value_from_memory n opts p st) elem maybe_len opts p st
        | TDefVal (DOwn resource) \<Rightarrow>
            abind (alift (validate_resource_type (resource_depth p) p resource)) (\<lambda>_.
            abind next_i32 (\<lambda>h. aret (COwn h)))
        | TDefVal (DBorrow resource) \<Rightarrow>
            abind (alift (validate_resource_type (resource_depth p) p resource)) (\<lambda>_.
            abind next_i32 (\<lambda>h. aret (CBorrow h)))
        | TResource _ \<Rightarrow> abind next_i32 (\<lambda>h. aret (COwn h))
        | _ \<Rightarrow> afail (Unsupported ''canonical ABI for this type is not implemented yet'')))"

section \<open>Whole values at the depth of the program\<close>

definition write_value :: "component_value \<Rightarrow> comp_valtype \<Rightarrow> 'g options \<Rightarrow> program \<Rightarrow> u32 \<Rightarrow> ('g, unit) comp_action" where
  "write_value v ty opts p ptr =
     write_value_to_memory (write_defined_value_to_memory (type_depth p) opts p) v ty opts ptr"

definition read_value ::
  "comp_valtype \<Rightarrow> 'g options \<Rightarrow> program \<Rightarrow> 'g store \<Rightarrow> core_export_ref \<Rightarrow> u32 \<Rightarrow> component_error + component_value" where
  "read_value ty opts p st memory ptr =
     read_value_from_memory (read_defined_value_from_memory (type_depth p) opts p st memory) ty opts st memory ptr"

definition lower_flat :: "component_value \<Rightarrow> comp_valtype \<Rightarrow> 'g options \<Rightarrow> program \<Rightarrow> ('g, wasm_value list) comp_action" where
  "lower_flat v ty opts p = lower_value_to_flat (lower_defined_value (type_depth p) opts p) v ty opts"

definition lift_flat :: "comp_valtype \<Rightarrow> 'g options \<Rightarrow> program \<Rightarrow> 'g store \<Rightarrow> component_value cursor_action" where
  "lift_flat ty opts p st = lift_value (lift_defined_value (type_depth p) opts p st) ty opts st"

text \<open>\<open>lower_value\<close> of the source: append to the flat values so far.\<close>

definition lower_value ::
  "component_value \<Rightarrow> comp_valtype \<Rightarrow> 'g options \<Rightarrow> program \<Rightarrow> wasm_value list \<Rightarrow> ('g, wasm_value list) comp_action" where
  "lower_value v ty opts p out = abind (lower_flat v ty opts p) (\<lambda>flat. aret (out @ flat))"

section \<open>Arguments and results\<close>

definition direct_wasm_to_component_value :: "wasm_value \<Rightarrow> component_error + component_value" where
  "direct_wasm_to_component_value v =
     (case v of
        WI32 w \<Rightarrow> Inr (CI32 w)
      | WI64 w \<Rightarrow> Inr (CI64 w)
      | WF32 w \<Rightarrow> Inr (CF32 w)
      | WF64 w \<Rightarrow> Inr (CF64 w)
      | WFuncRef w \<Rightarrow> Inr (COwn w)
      | WExternRef w \<Rightarrow> Inr (CBorrow w)
      | WV128 _ \<Rightarrow> Inl (Unsupported ''v128 values are not supported in component runtime''))"

definition component_value_to_direct_wasm :: "component_value \<Rightarrow> component_error + wasm_value" where
  "component_value_to_direct_wasm v =
     (case v of
        CBool b \<Rightarrow> Inr (WI32 (of_bool b))
      | CU8 w \<Rightarrow> Inr (WI32 (ucast w))
      | CS8 w \<Rightarrow> Inr (WI32 (scast w))
      | CU16 w \<Rightarrow> Inr (WI32 (ucast w))
      | CS16 w \<Rightarrow> Inr (WI32 (scast w))
      | CU32 w \<Rightarrow> Inr (WI32 w)
      | CS32 w \<Rightarrow> Inr (WI32 w)
      | CI32 w \<Rightarrow> Inr (WI32 w)
      | CU64 w \<Rightarrow> Inr (WI64 w)
      | CS64 w \<Rightarrow> Inr (WI64 w)
      | CI64 w \<Rightarrow> Inr (WI64 w)
      | CF32 w \<Rightarrow> Inr (WF32 w)
      | CF64 w \<Rightarrow> Inr (WF64 w)
      | COwn w \<Rightarrow> Inr (WI32 w)
      | CBorrow w \<Rightarrow> Inr (WI32 w)
      | _ \<Rightarrow> Inl (Unsupported ''direct core invocation does not support this value''))"

definition lower_component_args ::
  "func_type \<Rightarrow> component_value list \<Rightarrow> 'g options \<Rightarrow> program \<Rightarrow> ('g, wasm_value list) comp_action" where
  "lower_component_args ft args opts p =
     (if length (ft_params ft) \<noteq> length args
      then afail (InvalidArgument ''another number of component arguments expected'')
      else
        abind (alift (function_params_flat_len ft p)) (\<lambda>total_flat_len.
        if total_flat_len > MAX_FLAT_PARAMS then
          abind (alift (require_memory opts)) (\<lambda>_.
          abind (alift (require_realloc opts)) (\<lambda>realloc.
          abind (alift (value_area_layout (ft_params ft) p)) (\<lambda>layout.
          abind (if va_size layout = 0 then aret 0
                 else abind (call_realloc realloc 0 0 (va_align layout) (va_size layout)) (\<lambda>ptr.
                   abind (alift (validate_realloc_pointer_alignment ptr (va_align layout))) (\<lambda>_. aret ptr)))
          (\<lambda>ptr.
          abind (afold (\<lambda>((v, ty), offset) _. write_value v ty opts p (ptr + offset))
              (zip (zip args (ft_params ft)) (va_offsets layout)) ())
          (\<lambda>_. aret [WI32 ptr])))))
        else afold (\<lambda>(v, ty) lowered. lower_value v ty opts p lowered) (zip args (ft_params ft)) []))"

definition lift_component_args ::
  "func_type \<Rightarrow> wasm_value list \<Rightarrow> 'g options \<Rightarrow> program \<Rightarrow> 'g store \<Rightarrow> component_error + component_value list" where
  "lift_component_args ft args opts p st =
     rbind (function_params_flat_len ft p) (\<lambda>flat_len.
       if flat_len > MAX_FLAT_PARAMS then
         rbind (require_memory opts) (\<lambda>memory.
         rbind (case args of
                  WI32 ptr # _ \<Rightarrow> Inr ptr
                | _ # _ \<Rightarrow> Inl (Runtime ''indirect canonical parameter area must be an i32 pointer'')
                | [] \<Rightarrow> Inl (Runtime ''indirect canonical parameter area is missing'')) (\<lambda>ptr.
         rbind (value_area_layout (ft_params ft) p) (\<lambda>layout.
           rmap (\<lambda>(ty, offset). read_value ty opts p st memory (ptr + offset))
             (zip (ft_params ft) (va_offsets layout)))))
       else fst (amap (\<lambda>ty. lift_flat ty opts p st) (ft_params ft) (cursor_new args)))"

definition lift_component_results ::
  "func_type \<Rightarrow> wasm_value list \<Rightarrow> 'g options \<Rightarrow> program \<Rightarrow> 'g store \<Rightarrow> component_error + component_value list" where
  "lift_component_results ft results opts p st =
     (case ft_result ft of
        None \<Rightarrow> Inr []
      | Some result_ty \<Rightarrow>
          rbind (value_flat_len result_ty p) (\<lambda>flat_len.
          fst (abind
            (if flat_len > MAX_FLAT_RESULTS then
               abind next_i32 (\<lambda>pointer.
               abind (alift (require_memory opts)) (\<lambda>memory.
                 alift (read_value result_ty opts p st memory pointer)))
             else lift_flat result_ty opts p st)
            (\<lambda>result. aret [result]) (cursor_new results))))"

definition lower_component_results ::
  "func_type \<Rightarrow> component_value list \<Rightarrow> 'g options \<Rightarrow> program \<Rightarrow> u32 option \<Rightarrow>
   ('g, wasm_value list) comp_action" where
  "lower_component_results ft results opts p result_area =
     (case ft_result ft of
        None \<Rightarrow> if results = [] then aret [] else afail (InvalidArgument ''function does not return a value'')
      | Some result_ty \<Rightarrow>
          abind (alift (ok_or (InvalidArgument ''function result is missing'') (get_idx results 0))) (\<lambda>v.
          abind (alift (value_flat_len result_ty p)) (\<lambda>flat_len.
            if flat_len > MAX_FLAT_RESULTS then
              abind (alift (require_memory opts)) (\<lambda>_.
              abind (alift (ok_or (Runtime ''indirect result area is missing'') result_area)) (\<lambda>return_ptr.
              abind (write_value v result_ty opts p return_ptr) (\<lambda>_. aret [])))
            else lower_flat v result_ty opts p)))"

definition lowered_indirect_result_area ::
  "func_type \<Rightarrow> wasm_value list \<Rightarrow> program \<Rightarrow> component_error + u32 option" where
  "lowered_indirect_result_area ft args p =
     (case ft_result ft of
        None \<Rightarrow> Inr None
      | Some result_ty \<Rightarrow>
          rbind (value_flat_len result_ty p) (\<lambda>flat_len.
            if flat_len \<le> MAX_FLAT_RESULTS then Inr None
            else if args = [] then Inl (Runtime ''indirect result area is missing'')
            else case last args of
              WI32 ptr \<Rightarrow> Inr (Some ptr)
            | _ \<Rightarrow> Inl (Runtime ''indirect result area must be an i32 pointer'')))"

definition program_func_type :: "program \<Rightarrow> type_id \<Rightarrow> component_error + func_type" where
  "program_func_type p i =
     (case get_type p i of Some (TFunc ft) \<Rightarrow> Inr ft | _ \<Rightarrow> Inl (Runtime ''function type is missing''))"

end
