(* ===== verification/Store_Logic.thy ===== *)
theory Store_Logic
  imports Canonical
begin

text \<open>
  A small program logic for actions that allocate in the guest and write to its memory.  An
  action \<open>achieves\<close> a postcondition on an area \<open>A\<close> when it writes only to \<open>A\<close> and to memory it has
  allocated, and the postcondition then holds in every later store that still has the same bytes
  in \<open>A\<close> and in the newly allocated memory; it may fail only with an error of the guest's
  allocator.
\<close>

section \<open>Extending a store\<close>

definition extends :: "core_export_ref \<Rightarrow> ('g store \<Rightarrow> nat set) \<Rightarrow> nat set \<Rightarrow> 'g store \<Rightarrow> 'g store \<Rightarrow> bool" where
  "extends m own A st st' \<longleftrightarrow>
     valid_mem m st' \<and> length (bytes_of m st) \<le> length (bytes_of m st') \<and> own st \<subseteq> own st' \<and>
     (\<forall>a \<in> own st - A. bytes_of m st' ! a = bytes_of m st ! a)"

definition agrees :: "core_export_ref \<Rightarrow> nat set \<Rightarrow> 'g store \<Rightarrow> 'g store \<Rightarrow> bool" where
  "agrees m X st st' \<longleftrightarrow>
     valid_mem m st' \<and> length (bytes_of m st) \<le> length (bytes_of m st') \<and>
     (\<forall>a \<in> X. bytes_of m st' ! a = bytes_of m st ! a)"

definition stores ::
  "core_export_ref \<Rightarrow> ('g store \<Rightarrow> nat set) \<Rightarrow> nat set \<Rightarrow> ('g store \<Rightarrow> bool) \<Rightarrow> 'g store \<Rightarrow> 'g store \<Rightarrow> bool"
where
  "stores m own A R st st' \<longleftrightarrow>
     extends m own A st st' \<and>
     (\<forall>st''. agrees m (A \<union> (own st' - own st)) st' st'' \<longrightarrow> R st'')"

lemma extends_refl: "valid_mem m st \<Longrightarrow> extends m own A st st"
  by (simp add: extends_def)

lemma stores_nothing: "valid_mem m st \<Longrightarrow> (\<And>s. R s) \<Longrightarrow> stores m own {} R st st"
  by (simp add: stores_def extends_refl)

lemma stores_mono:
  assumes "stores m own A R st st'" "A \<subseteq> B" "\<And>s. R s \<Longrightarrow> S s"
  shows "stores m own B S st st'"
  using assms unfolding stores_def extends_def agrees_def by blast

lemma stores_now: "stores m own A R st st' \<Longrightarrow> R st'"
  by (simp add: stores_def extends_def agrees_def)

text \<open>Two steps into disjoint areas.\<close>

lemma stores_seq:
  assumes "stores m own A R st st1" "stores m own B S st1 st2" "A \<inter> B = {}" "A \<union> B \<subseteq> own st"
  shows "stores m own (A \<union> B) (\<lambda>s. R s \<and> S s) st st2"
proof -
  note e1 = assms(1) [unfolded stores_def extends_def] and e2 = assms(2) [unfolded stores_def extends_def]
  have own: "own st \<subseteq> own st1" "own st1 \<subseteq> own st2" using e1 e2 by auto
  have "bytes_of m st2 ! a = bytes_of m st ! a" if "a \<in> own st - (A \<union> B)" for a
  proof -
    have "a \<in> own st - A" "a \<in> own st1 - B" using that own by auto
    with e1 e2 show ?thesis by metis
  qed
  then have "extends m own (A \<union> B) st st2" using e1 e2 own by (auto simp: extends_def)
  moreover have "R s \<and> S s" if s: "agrees m ((A \<union> B) \<union> (own st2 - own st)) st2 s" for s
  proof
    have "bytes_of m s ! a = bytes_of m st1 ! a" if a: "a \<in> A \<union> (own st1 - own st)" for a
    proof -
      have "a \<in> own st1 - B" using a assms(3,4) own by auto
      then have "bytes_of m st2 ! a = bytes_of m st1 ! a" using e2 by blast
      moreover have "a \<in> (A \<union> B) \<union> (own st2 - own st)" using a own by auto
      ultimately show ?thesis using s by (auto simp: agrees_def)
    qed
    then have "agrees m (A \<union> (own st1 - own st)) st1 s" using s e2 by (auto simp: agrees_def)
    then show "R s" using e1 by blast
    have "agrees m (B \<union> (own st2 - own st1)) st2 s" using s own by (auto simp: agrees_def)
    then show "S s" using e2 by blast
  qed
  ultimately show ?thesis by (simp add: stores_def)
qed

text \<open>An allocation followed by work inside the fresh block.\<close>

lemma stores_fresh:
  assumes "extends m own {} st st1" "stores m own B S st1 st2" "B \<subseteq> own st1" "B \<inter> own st = {}"
  shows "stores m own {} S st st2"
proof -
  note e1 = assms(1) [unfolded extends_def] and e2 = assms(2) [unfolded stores_def extends_def]
  have own: "own st \<subseteq> own st1" "own st1 \<subseteq> own st2" using e1 e2 by auto
  have "bytes_of m st2 ! a = bytes_of m st ! a" if "a \<in> own st" for a
  proof -
    have "a \<in> own st1 - B" using that assms(4) own by auto
    with e1 e2 that show ?thesis by auto
  qed
  then have "extends m own {} st st2" using e1 e2 own by (auto simp: extends_def)
  moreover have "S s" if "agrees m (own st2 - own st) st2 s" for s
  proof -
    have "B \<union> (own st2 - own st1) \<subseteq> own st2 - own st" using assms(3,4) own by auto
    with that have "agrees m (B \<union> (own st2 - own st1)) st2 s" by (auto simp: agrees_def)
    then show ?thesis using e2 by blast
  qed
  ultimately show ?thesis by (simp add: stores_def)
qed

section \<open>Actions\<close>

definition alloc_errors :: "'g core_func \<Rightarrow> component_error set" where
  "alloc_errors f = {e. \<exists>args st st'. f args st = (Inl e, st')}"

definition achieves ::
  "core_export_ref \<Rightarrow> ('g store \<Rightarrow> nat set) \<Rightarrow> 'g core_func \<Rightarrow> nat set \<Rightarrow> ('g, 'a) comp_action \<Rightarrow>
   ('a \<Rightarrow> 'g store \<Rightarrow> bool) \<Rightarrow> 'g store \<Rightarrow> bool" where
  "achieves m own f A act Q st \<longleftrightarrow>
     (case act st of
        (Inl e, _) \<Rightarrow> e \<in> alloc_errors f
      | (Inr a, st') \<Rightarrow> stores m own A (Q a) st st')"

lemma achieves_ret: "valid_mem m st \<Longrightarrow> (\<And>s. Q a s) \<Longrightarrow> achieves m own f {} (aret a) Q st"
  by (simp add: achieves_def stores_nothing)

lemma achieves_mono:
  assumes "achieves m own f A act Q st" "A \<subseteq> B" "\<And>a s. Q a s \<Longrightarrow> S a s"
  shows "achieves m own f B act S st"
  using assms unfolding achieves_def by (auto split: prod.splits sum.splits intro: stores_mono)

lemma achieves_lift [simp]:
  "achieves m own f A (abind (alift (Inr a)) k) Q st = achieves m own f A (k a) Q st"
  by (simp add: achieves_def abind_def)

lemma achieves_ret_bind [simp]:
  "achieves m own f A (abind (aret a) k) Q st = achieves m own f A (k a) Q st"
  by (simp add: achieves_def abind_def)

lemma achieves_bind:
  assumes "achieves m own f A act R st"
    and "\<And>a st1. stores m own A (R a) st st1 \<Longrightarrow> achieves m own f B (k a) (S a) st1"
    and "A \<inter> B = {}" "A \<union> B \<subseteq> own st"
    and "\<And>a b s. R a s \<Longrightarrow> S a b s \<Longrightarrow> Q b s"
  shows "achieves m own f (A \<union> B) (abind act k) Q st"
proof (cases "act st")
  case (Pair r st1)
  show ?thesis
  proof (cases r)
    case (Inl e)
    with Pair assms(1) show ?thesis by (simp add: achieves_def)
  next
    case (Inr a)
    with Pair assms(1) have 1: "stores m own A (R a) st st1" by (simp add: achieves_def)
    from assms(2) [OF 1] have 2: "achieves m own f B (k a) (S a) st1" .
    have run: "abind act k st = k a st1" using Pair Inr by (simp add: abind_def)
    obtain r2 st2 where k: "k a st1 = (r2, st2)" by (cases "k a st1")
    show ?thesis
    proof (cases r2)
      case (Inl e)
      with 2 k run show ?thesis by (simp add: achieves_def)
    next
      case (Inr b)
      with 2 k have "stores m own B (S a b) st1 st2" by (simp add: achieves_def)
      from stores_seq [OF 1 this assms(3,4)] have "stores m own (A \<union> B) (Q b) st st2"
        by (rule stores_mono) (use assms(5) in auto)
      with Inr k run show ?thesis by (simp add: achieves_def)
    qed
  qed
qed

section \<open>Memory and allocation primitives\<close>

definition callable :: "core_export_ref \<Rightarrow> ('g store \<Rightarrow> nat set) \<Rightarrow> 'g core_func \<Rightarrow> 'g options \<Rightarrow> bool" where
  "callable m own f opts \<longleftrightarrow>
     realloc_contract m own f \<and> op_memory opts = Some m \<and> op_realloc opts = Some f"

lemma contract_bounds: "realloc_contract m own f \<Longrightarrow> a \<in> own st \<Longrightarrow> a < length (bytes_of m st) \<and> a + 1 < 2 ^ 32"
  unfolding realloc_contract_def by fastforce

lemma contract_poke:
  "realloc_contract m own f \<Longrightarrow> valid_mem m st \<Longrightarrow> {p ..< p + length bs} \<subseteq> own st \<Longrightarrow>
   own (poke m p bs st) = own st"
  unfolding realloc_contract_def by blast

lemma contract_call:
  assumes "realloc_contract m own f" "valid_mem m st" "range_of old (unat old_len) \<subseteq> own st" "al \<noteq> 0"
    and "f [WI32 old, WI32 old_len, WI32 al, WI32 new_len] st = (Inr vs, st')"
  obtains p where "vs = [WI32 p]" "realloc_gives m own st old old_len al new_len st' p"
  using assms unfolding realloc_contract_def by blast

lemma call_realloc_cases:
  assumes "realloc_contract m own f" "valid_mem m st" "range_of old (unat old_len) \<subseteq> own st" "al \<noteq> 0"
    and "call_realloc f old old_len al n st = (r, st')"
  obtains (error) e where "r = Inl e" "e \<in> alloc_errors f"
  | (block) p where "r = Inr p" "realloc_gives m own st old old_len al n st' p"
proof (cases "f [WI32 old, WI32 old_len, WI32 al, WI32 n] st")
  case (Pair r1 st1)
  show ?thesis
  proof (cases r1)
    case (Inl e)
    with Pair assms(5) have "r = Inl e" by (simp add: call_realloc_def)
    moreover have "e \<in> alloc_errors f" using Pair Inl by (auto simp: alloc_errors_def)
    ultimately show ?thesis by (rule error)
  next
    case (Inr vs)
    with contract_call [OF assms(1-4)] Pair obtain p where
      "vs = [WI32 p]" "realloc_gives m own st old old_len al n st1 p" by blast
    with Pair Inr assms(5) show ?thesis by (intro block) (auto simp: call_realloc_def)
  qed
qed

lemma range_of_bounds:
  assumes "realloc_contract m own f" "range_of p n \<subseteq> own st" "0 < n"
  shows "unat p + n \<le> length (bytes_of m st) \<and> unat p + n < 2 ^ 32"
proof -
  have "unat p + n - 1 \<in> own st" using assms(2,3) by (auto simp: range_of_def)
  from contract_bounds [OF assms(1) this] assms(3) show ?thesis by auto
qed

lemma unat_lt_u32: "unat (p :: u32) < 2 ^ 32"
  using unsigned_less [of p] by simp

lemma range_of_0 [simp]: "range_of p 0 = {}"
  by (simp add: range_of_def)

text \<open>What is read back at an address.\<close>

definition holds :: "core_export_ref \<Rightarrow> u32 \<Rightarrow> byte list \<Rightarrow> 'g store \<Rightarrow> bool" where
  "holds m p bs st \<longleftrightarrow> read_memory st m p (length bs) = Inr bs"

lemma holds_agrees:
  assumes "valid_mem m st" "unat p + length bs \<le> length (bytes_of m st)" "unat p + length bs < 2 ^ 32"
    and "slice (unat p) (length bs) (bytes_of m st) = bs"
    and "agrees m X st s" "range_of p (length bs) \<subseteq> X"
  shows "holds m p bs s"
proof -
  have s: "valid_mem m s" "length (bytes_of m st) \<le> length (bytes_of m s)"
    using assms(5) by (auto simp: agrees_def)
  have "slice (unat p) (length bs) (bytes_of m s) = slice (unat p) (length bs) (bytes_of m st)"
    by (rule slice_cong) (use assms s in \<open>auto simp: agrees_def range_of_def\<close>)
  with assms s show ?thesis by (simp add: holds_def read_memory_ok)
qed

lemma achieves_write:
  assumes "realloc_contract m own f" "valid_mem m st" "range_of p (length bs) \<subseteq> own st"
    and "unat p \<le> length (bytes_of m st)"
  shows "achieves m own f (range_of p (length bs)) (write_memory m p bs) (\<lambda>_. holds m p bs) st"
proof -
  have b: "unat p + length bs \<le> length (bytes_of m st) \<and> unat p + length bs < 2 ^ 32"
    using range_of_bounds [OF assms(1,3)] assms(4) unat_lt_u32 [of p] by (cases "length bs") auto
  let ?st = "poke m (unat p) bs st"
  have bp: "bytes_of m ?st = splice_at (unat p) bs (bytes_of m st)"
    by (rule bytes_of_poke [OF assms(2)])
  have own: "own ?st = own st"
    by (rule contract_poke [OF assms(1,2)]) (use assms(3) in \<open>simp add: range_of_def\<close>)
  have len: "length (bytes_of m ?st) = length (bytes_of m st)" using b by (simp add: bp mem_simps)
  have "extends m own (range_of p (length bs)) st ?st"
    using assms b contract_bounds [OF assms(1), of _ st]
    by (auto simp: extends_def own len) (auto simp: bp mem_simps range_of_def)
  moreover have "holds m p bs s"
    if "agrees m (range_of p (length bs) \<union> (own ?st - own st)) ?st s" for s
    by (rule holds_agrees [OF _ _ _ _ that]) (use assms b in \<open>auto simp: bp mem_simps\<close>)
  ultimately have "stores m own (range_of p (length bs)) (holds m p bs) st ?st"
    by (simp add: stores_def)
  with b write_memory_ok [OF assms(2)] show ?thesis by (simp add: achieves_def)
qed

lemma write_memory_area:
  assumes "realloc_contract m own f" "valid_mem m st" "range_of p n \<subseteq> own st" "length bs = n" "0 < n"
  shows "achieves m own f (range_of p n) (write_memory m p bs) (\<lambda>_. holds m p bs) st"
  using achieves_write [OF assms(1,2), of p bs] range_of_bounds [OF assms(1,3,5)] assms by auto

text \<open>Fresh allocation.\<close>

definition fresh_in ::
  "core_export_ref \<Rightarrow> ('g store \<Rightarrow> nat set) \<Rightarrow> 'g store \<Rightarrow> 'g store \<Rightarrow> u32 \<Rightarrow> nat \<Rightarrow> bool" where
  "fresh_in m own st0 st p n \<longleftrightarrow>
     extends m own {} st0 st \<and> range_of p n \<subseteq> own st \<and> range_of p n \<inter> own st0 = {} \<and>
     unat p + n \<le> length (bytes_of m st) \<and> unat p + n < 2 ^ 32"

lemma fresh_realloc:
  assumes "extends m own {} st0 st" "range_of old (unat old_len) \<inter> own st0 = {}"
    and "realloc_gives m own st old old_len al n st' p"
  shows "fresh_in m own st0 st' p (unat n)" "p mod al = 0"
proof -
  have "a \<in> own st - range_of old (unat old_len)" if "a \<in> own st0" for a
    using assms(1,2) that by (auto simp: extends_def)
  with assms show "fresh_in m own st0 st' p (unat n)" "p mod al = 0"
    by (fastforce simp: fresh_in_def realloc_gives_def Let_def extends_def)+
qed

lemma fresh_write:
  assumes "realloc_contract m own f" "fresh_in m own st0 st p n" "k + length bs \<le> n"
  shows "write_memory m (p + of_nat k) bs st = (Inr (), poke m (unat p + k) bs st)"
    and "fresh_in m own st0 (poke m (unat p + k) bs st) p n"
    and "bytes_of m (poke m (unat p + k) bs st) = splice_at (unat p + k) bs (bytes_of m st)"
proof -
  from assms(2) have st: "valid_mem m st" "range_of p n \<subseteq> own st"
      "unat p + n \<le> length (bytes_of m st)" "unat p + n < 2 ^ 32"
    and e: "extends m own {} st0 st" "range_of p n \<inter> own st0 = {}"
    by (auto simp: fresh_in_def extends_def)
  have q: "unat (p + of_nat k) = unat p + k"
    using assms(3) st(4) by (subst unat_plus) (simp_all add: unat_of_nat take_bit_nat_eq_self)
  show "write_memory m (p + of_nat k) bs st = (Inr (), poke m (unat p + k) bs st)"
    using write_memory_ok [OF st(1), of "p + of_nat k" bs] assms(3) st by (simp add: q)
  show bp: "bytes_of m (poke m (unat p + k) bs st) = splice_at (unat p + k) bs (bytes_of m st)"
    by (rule bytes_of_poke [OF st(1)])
  have r: "{unat p + k ..< unat p + k + length bs} \<subseteq> range_of p n"
    using assms(3) by (auto simp: range_of_def)
  have own: "own (poke m (unat p + k) bs st) = own st"
    by (rule contract_poke [OF assms(1) st(1)]) (use r st(2) in blast)
  have "bytes_of m (poke m (unat p + k) bs st) ! a = bytes_of m st0 ! a" if "a \<in> own st0" for a
  proof -
    have "a \<in> own st" "a \<notin> range_of p n" using e that by (auto simp: extends_def)
    then have "a < length (bytes_of m st)" "a \<notin> {unat p + k ..< unat p + k + length bs}"
      using contract_bounds [OF assms(1)] r by auto
    with assms(3) st have "bytes_of m (poke m (unat p + k) bs st) ! a = bytes_of m st ! a"
      by (auto simp: bp mem_simps)
    with e(1) that show ?thesis by (simp add: extends_def)
  qed
  then show "fresh_in m own st0 (poke m (unat p + k) bs st) p n"
    using assms(2,3) st by (auto simp: fresh_in_def extends_def own bp mem_simps)
qed

lemma fresh_holds:
  assumes "fresh_in m own st0 st p n" "length bs \<le> n"
    and "slice (unat p) (length bs) (bytes_of m st) = bs"
  shows "stores m own {} (holds m p bs) st0 st"
proof -
  from assms(1) have e: "extends m own {} st0 st" by (simp add: fresh_in_def)
  have r: "range_of p (length bs) \<subseteq> range_of p n" using assms(2) by (auto simp: range_of_def)
  have "holds m p bs s" if "agrees m (own st - own st0) st s" for s
    by (rule holds_agrees [OF _ _ _ assms(3) that])
      (use assms(1,2) r in \<open>auto simp: fresh_in_def extends_def\<close>)
  with e show ?thesis by (simp add: stores_def)
qed

lemma fresh_stores:
  assumes "fresh_in m own st0 st p n" "stores m own (range_of p n) S st st2"
  shows "stores m own {} S st0 st2"
  using stores_fresh [OF _ assms(2)] assms(1) by (auto simp: fresh_in_def)

text \<open>The rule for a fresh allocation and the alignment check that follows it.\<close>

lemma achieves_alloc:
  assumes "realloc_contract m own f" "valid_mem m st" "al \<noteq> 0"
    and "\<And>p st1. fresh_in m own st st1 p (unat n) \<Longrightarrow> p mod al = 0 \<Longrightarrow>
      achieves m own f (range_of p (unat n)) (k p) Q st1"
  shows "achieves m own f {} (abind (call_realloc f 0 0 al n) (\<lambda>p.
    abind (alift (validate_realloc_pointer_alignment p al)) (\<lambda>_. k p))) Q st"
proof -
  obtain r st1 where run: "call_realloc f 0 0 al n st = (r, st1)"
    by (cases "call_realloc f 0 0 al n st")
  have none: "range_of 0 (unat (0 :: u32)) \<subseteq> own st" by simp
  show ?thesis
  proof (cases rule: call_realloc_cases [OF assms(1,2) none assms(3) run, case_names error block])
    case (error e)
    with run show ?thesis by (simp add: achieves_def)
  next
    case (block p)
    from fresh_realloc [OF extends_refl [OF assms(2)] _ block(2)]
    have p: "fresh_in m own st st1 p (unat n)" "p mod al = 0" by simp_all
    have v: "validate_realloc_pointer_alignment p al = Inr ()"
      using p(2) by (simp add: validate_realloc_pointer_alignment_def)
    obtain r2 st2 where k: "k p st1 = (r2, st2)" by (cases "k p st1")
    with assms(4) [OF p] fresh_stores [OF p(1)] run block(1) v show ?thesis
      by (cases r2) (auto simp: achieves_def abind_def)
  qed
qed

end
