(* ===== verification/Canonical_Strings.thy ===== *)
theory Canonical_Strings
  imports Store_Logic
begin

text \<open>
  Strings through linear memory: what \<open>lower_string\<close> stores is what \<open>read_string_from_memory\<close>
  loads, in each of the three encodings.
\<close>

definition storable :: "rstring \<Rightarrow> bool" where
  "storable s \<longleftrightarrow> list_all is_scalar s \<and> 2 * length (as_bytes s) < 2 ^ 31"

definition string_at ::
  "core_export_ref \<Rightarrow> 'g options \<Rightarrow> rstring \<Rightarrow> wasm_value list \<Rightarrow> 'g store \<Rightarrow> bool" where
  "string_at m opts s flat st \<longleftrightarrow>
     (\<exists>ptr len. flat = [WI32 ptr, WI32 len] \<and>
        read_string_from_memory st m ptr len (op_string_encoding opts) = Inr s)"

section \<open>Words\<close>

lemma unat_of_nat_u32 [simp]: "n < 2 ^ 32 \<Longrightarrow> unat (of_nat n :: u32) = n"
  by (simp add: unat_of_nat take_bit_nat_eq_self)

lemma bit31_of_nat: "n < 2 ^ 31 \<Longrightarrow> \<not> bit (of_nat n :: u32) 31"
  unfolding bit_of_nat_iff by (simp add: bit_iff_odd)

lemma tag_eq: "COMPACT_UTF16_TAG = 2 ^ 31"
  by (simp add: COMPACT_UTF16_TAG_def)

lemma bit_tag [simp]: "bit COMPACT_UTF16_TAG k \<longleftrightarrow> k = 31"
  unfolding tag_eq bit_exp_iff by auto

lemma untagged: "n < 2 ^ 31 \<Longrightarrow> of_nat n AND COMPACT_UTF16_TAG = 0"
  by (rule bit_word_eqI) (use bit31_of_nat [of n] in \<open>auto simp: bit_and_iff\<close>)

lemma tagged:
  assumes "n < 2 ^ 31"
  shows "(of_nat n OR COMPACT_UTF16_TAG) AND COMPACT_UTF16_TAG \<noteq> 0"
    and "(of_nat n OR COMPACT_UTF16_TAG) XOR COMPACT_UTF16_TAG = of_nat n"
proof -
  have "bit ((of_nat n OR COMPACT_UTF16_TAG) AND COMPACT_UTF16_TAG) 31" by (simp add: bit_simps)
  then show "(of_nat n OR COMPACT_UTF16_TAG) AND COMPACT_UTF16_TAG \<noteq> 0" by (metis bit_0_eq bot_apply bot_bool_def)
  show "(of_nat n OR COMPACT_UTF16_TAG) XOR COMPACT_UTF16_TAG = of_nat n"
    by (rule bit_word_eqI) (use bit31_of_nat [OF assms] in \<open>auto simp: bit_or_iff bit_xor_iff\<close>)
qed

section \<open>Reading back\<close>

lemma holds_read: "holds m p bs st \<Longrightarrow> n = length bs \<Longrightarrow> read_memory st m p n = Inr bs"
  by (simp add: holds_def)

lemma read_back_utf8:
  assumes "storable s" "holds m p (as_bytes s) st" "op_string_encoding opts \<in> {None, Some Utf8}"
  shows "string_at m opts s [WI32 p, WI32 (of_nat (length (as_bytes s)))] st"
  using assms by (auto simp: string_at_def read_string_from_memory_def storable_def holds_read utf8.dec_enc)

lemma read_back_utf16:
  assumes "storable s" "holds m p (encode_string_utf16 s) st" "op_string_encoding opts = Some Utf16"
  shows "string_at m opts s [WI32 p, WI32 (of_nat (length (encode_string_utf16 s) div 2))] st"
proof -
  have "length (encode_string_utf16 s) div 2 * 2 = length (encode_string_utf16 s)"
    by (simp add: length_encode_string_utf16)
  moreover have "length (encode_string_utf16 s) div 2 < 2 ^ 32"
    using utf16_length [of s] assms(1) by (auto simp: storable_def)
  ultimately show ?thesis using assms
    by (simp add: string_at_def read_string_from_memory_def storable_def holds_read decode_utf16_le_encode)
qed

lemma read_back_latin1:
  assumes "storable s" "holds m p (latin1_bytes s) st" "op_string_encoding opts = Some CompactUtf16"
    and "list_all (\<lambda>c. c < 0x100) s" "p mod 2 = 0"
  shows "string_at m opts s [WI32 p, WI32 (of_nat (length s))] st"
proof -
  have "length s < 2 ^ 31" using as_bytes_length [of s] assms(1) by (simp add: storable_def)
  moreover have "latin1_chars (latin1_bytes s) = s" using latin1.dec_enc [OF assms(4)] by simp
  ultimately show ?thesis using assms untagged [of "length s"]
    by (simp add: string_at_def read_string_from_memory_def holds_read latin1_bytes_def)
qed

lemma read_back_compact_utf16:
  assumes "storable s" "holds m p (encode_string_utf16 s) st" "op_string_encoding opts = Some CompactUtf16"
    and "p mod 2 = 0"
  shows "string_at m opts s
    [WI32 p, WI32 (of_nat (length (encode_string_utf16 s) div 2) OR COMPACT_UTF16_TAG)] st"
proof -
  have n: "length (encode_string_utf16 s) div 2 < 2 ^ 31"
    using utf16_length [of s] assms(1) by (auto simp: storable_def)
  have "length (encode_string_utf16 s) div 2 * 2 = length (encode_string_utf16 s)"
    by (simp add: length_encode_string_utf16)
  with assms tagged [OF n] n show ?thesis
    by (simp add: string_at_def read_string_from_memory_def storable_def holds_read decode_utf16_le_encode)
qed

section \<open>The compact encoding\<close>

definition compact_done ::
  "core_export_ref \<Rightarrow> ('g store \<Rightarrow> nat set) \<Rightarrow> 'g core_func \<Rightarrow> 'g options \<Rightarrow> rstring \<Rightarrow> 'g store \<Rightarrow>
   (component_error + wasm_value list) \<times> 'g store \<Rightarrow> bool" where
  "compact_done m own f opts s st0 r \<longleftrightarrow>
     (case r of
        (Inl e, _) \<Rightarrow> e \<in> alloc_errors f
      | (Inr flat, st') \<Rightarrow> stores m own {} (string_at m opts s flat) st0 st')"

lemma slice_snoc:
  assumes "slice p (length bs) xs = bs" "p + length bs < length xs"
  shows "slice p (Suc (length bs)) (splice_at (p + length bs) [x] xs) = bs @ [x]"
proof (rule nth_equalityI)
  fix i assume "i < length (slice p (Suc (length bs)) (splice_at (p + length bs) [x] xs))"
  then have i: "i < Suc (length bs)" using assms(2) by (simp add: mem_simps)
  have "bs ! i = xs ! (p + i)" if "i < length bs"
    using that assms nth_slice [of p "length bs" xs i] by simp
  with i assms(2) show "slice p (Suc (length bs)) (splice_at (p + length bs) [x] xs) ! i = (bs @ [x]) ! i"
    by (auto simp: mem_simps nth_append less_Suc_eq)
qed (use assms(2) in \<open>simp add: mem_simps\<close>)

text \<open>Moving the contents of a fresh block by another call of the allocator.\<close>

lemma realloc_moves:
  assumes "fresh_in m own st0 st old k" "unat old_len = k" "unat n = length bs" "length bs \<le> k"
    and "slice (unat old) (length bs) (bytes_of m st) = bs"
    and "realloc_gives m own st old old_len al n st' p"
  shows "stores m own {} (holds m p bs) st0 st'" "p mod al = 0"
proof -
  have e: "extends m own {} st0 st" "range_of old (unat old_len) \<inter> own st0 = {}"
    using assms(1,2) by (auto simp: fresh_in_def)
  note p = fresh_realloc [OF e assms(6)]
  have "slice (unat p) (length bs) (bytes_of m st') = bs"
  proof (rule nth_equalityI)
    fix i assume "i < length (slice (unat p) (length bs) (bytes_of m st'))"
    then have i: "i < length bs" using p(1) assms(3) by (simp add: mem_simps fresh_in_def)
    then have "bytes_of m st' ! (unat p + i) = bytes_of m st ! (unat old + i)"
      using assms(2-4,6) by (auto simp: realloc_gives_def Let_def)
    also have "\<dots> = bs ! i"
      using i assms(1,4,5) nth_slice [of "unat old" "length bs" "bytes_of m st" i]
      by (simp add: fresh_in_def)
    finally show "slice (unat p) (length bs) (bytes_of m st') ! i = bs ! i"
      using i p(1) assms(3) by (simp add: mem_simps fresh_in_def)
  qed (use p(1) assms(3) in \<open>simp add: mem_simps fresh_in_def\<close>)
  then show "stores m own {} (holds m p bs) st0 st'"
    using fresh_holds [OF p(1), of bs] assms(3) by simp
  show "p mod al = 0" by (rule p(2))
qed

text \<open>A shrinking call that is followed by returning the pointer and a length.\<close>

lemma shrink_done:
  assumes "realloc_contract m own f" "fresh_in m own st0 st ptr k" "k < 2 ^ 32" "length bs \<le> k"
    and "slice (unat ptr) (length bs) (bytes_of m st) = bs"
    and "\<And>p s. holds m p bs s \<Longrightarrow> p mod 2 = 0 \<Longrightarrow> string_at m opts str [WI32 p, WI32 len] s"
  shows "compact_done m own f opts str st0
    (abind (call_realloc f ptr (of_nat k) 2 (of_nat (length bs))) (\<lambda>ptr.
     abind (alift (validate_realloc_pointer_alignment ptr 2)) (\<lambda>_. aret [WI32 ptr, WI32 len])) st)"
proof -
  have k: "unat (of_nat k :: u32) = k" "unat (of_nat (length bs) :: u32) = length bs"
    using assms(3,4) by auto
  have v: "valid_mem m st" and own: "range_of ptr (unat (of_nat k :: u32)) \<subseteq> own st"
    using assms(2) k by (auto simp: fresh_in_def extends_def)
  obtain r st1 where run: "call_realloc f ptr (of_nat k) 2 (of_nat (length bs)) st = (r, st1)"
    by (cases "call_realloc f ptr (of_nat k) 2 (of_nat (length bs)) st")
  have two: "(2 :: u32) \<noteq> 0" by simp
  show ?thesis
  proof (cases rule: call_realloc_cases [OF assms(1) v own two run, case_names error block])
    case (error e)
    with run show ?thesis by (simp add: compact_done_def)
  next
    case (block p)
    note moved = realloc_moves [OF assms(2) k(1,2) assms(4,5) block(2)]
    have "stores m own {} (string_at m opts str [WI32 p, WI32 len]) st0 st1"
      by (rule stores_mono [OF moved(1)]) (use assms(6) moved(2) in auto)
    with moved(2) run block(1) show ?thesis
      by (simp add: compact_done_def abind_def validate_realloc_pointer_alignment_def)
  qed
qed

lemma widen_done:
  assumes "realloc_contract m own f" "storable str" "op_string_encoding opts = Some CompactUtf16"
    and "fresh_in m own st0 st ptr (length (as_bytes str))" "0x100 \<le> c"
  shows "compact_done m own f opts str st0 (compact_loop m f str ptr dst (c # cs) st)"
proof -
  let ?n = "length (as_bytes str)" and ?bs = "encode_string_utf16 str"
  let ?len = "of_nat (length ?bs div 2) OR COMPACT_UTF16_TAG"
  have n: "unat (of_nat ?n :: u32) = ?n" "unat (of_nat (2 * ?n) :: u32) = 2 * ?n" "2 * ?n < 2 ^ 32"
    using assms(2) unat_of_nat_u32 [of ?n] unat_of_nat_u32 [of "2 * ?n"]
    by (auto simp: storable_def simp del: of_nat_mult unat_of_nat_u32)
  have v: "valid_mem m st" and own: "range_of ptr (unat (of_nat ?n :: u32)) \<subseteq> own st"
    and old: "extends m own {} st0 st" "range_of ptr (unat (of_nat ?n :: u32)) \<inter> own st0 = {}"
    using assms(4) n by (auto simp: fresh_in_def extends_def)
  obtain r st1 where run: "call_realloc f ptr (of_nat ?n) 2 (of_nat (2 * ?n)) st = (r, st1)"
    by (cases "call_realloc f ptr (of_nat ?n) 2 (of_nat (2 * ?n)) st")
  have two: "(2 :: u32) \<noteq> 0" by simp
  show ?thesis
  proof (cases rule: call_realloc_cases [OF assms(1) v own two run, case_names error block])
    case (error e)
    with run assms(5) show ?thesis by (simp add: compact_done_def Let_def abind_def)
  next
    case (block p)
    from fresh_realloc [OF old block(2)] n
    have p: "fresh_in m own st0 st1 p (2 * ?n)" "p mod 2 = 0" by auto
    have l: "length ?bs \<le> 2 * ?n" by (rule utf16_length)
    let ?st2 = "poke m (unat p) ?bs st1"
    from fresh_write [OF assms(1) p(1), of 0 ?bs] l
    have w: "write_memory m p ?bs st1 = (Inr (), ?st2)" "fresh_in m own st0 ?st2 p (2 * ?n)"
      "bytes_of m ?st2 = splice_at (unat p) ?bs (bytes_of m st1)" by auto
    have sl: "slice (unat p) (length ?bs) (bytes_of m ?st2) = ?bs"
      unfolding w(3) by (rule slice_splice_same) (use p(1) l in \<open>auto simp: fresh_in_def\<close>)
    have rb: "string_at m opts str [WI32 q, WI32 ?len] s" if "holds m q ?bs s" "q mod 2 = 0" for q s
      by (rule read_back_compact_utf16 [OF assms(2) that(1) assms(3) that(2)])
    show ?thesis
    proof (cases "2 * ?n > length ?bs")
      case True
      from shrink_done [OF assms(1) w(2) n(3) l sl rb]
      show ?thesis using run block(1) p(2) w(1) True assms(5)
        by (simp add: Let_def abind_def validate_realloc_pointer_alignment_def del: of_nat_mult)
    next
      case False
      have "stores m own {} (string_at m opts str [WI32 p, WI32 ?len]) st0 ?st2"
        by (rule stores_mono [OF fresh_holds [OF w(2) l sl]]) (use rb p(2) in auto)
      then show ?thesis using run block(1) p(2) w(1) False assms(5)
        by (simp add: compact_done_def Let_def abind_def validate_realloc_pointer_alignment_def del: of_nat_mult)
    qed
  qed
qed

lemma compact_loop_done:
  assumes "realloc_contract m own f" "storable str" "op_string_encoding opts = Some CompactUtf16"
    and "fresh_in m own st0 st ptr (length (as_bytes str))" "ptr mod 2 = 0"
    and "str = pre @ cs" "list_all (\<lambda>c. c < 0x100) pre"
    and "slice (unat ptr) (length pre) (bytes_of m st) = latin1_bytes pre"
  shows "compact_done m own f opts str st0 (compact_loop m f str ptr (length pre) cs st)"
  using assms(4,6-8)
proof (induction cs arbitrary: pre st)
  case Nil
  let ?n = "length (as_bytes str)"
  have n: "?n < 2 ^ 32" "length (latin1_bytes pre) \<le> ?n" "length (latin1_bytes pre) = length pre"
    using assms(2) as_bytes_length [of str] Nil.prems(2) by (auto simp: storable_def latin1_bytes_def)
  have rb: "string_at m opts str [WI32 q, WI32 (of_nat (length pre))] s"
    if "holds m q (latin1_bytes pre) s" "q mod 2 = 0" for q s
    using read_back_latin1 [OF assms(2) _ assms(3)] that Nil.prems(2,3) by simp
  have sl: "slice (unat ptr) (length (latin1_bytes pre)) (bytes_of m st) = latin1_bytes pre"
    using Nil.prems(4) n(3) by simp
  show ?case
  proof (cases "length pre < ?n")
    case True
    with shrink_done [OF assms(1) Nil.prems(1) n(1,2) sl rb] n(3) show ?thesis by (simp add: Let_def)
  next
    case False
    have "stores m own {} (string_at m opts str [WI32 ptr, WI32 (of_nat (length pre))]) st0 st"
      by (rule stores_mono [OF fresh_holds [OF Nil.prems(1) n(2) sl]]) (use rb assms(5) in auto)
    with False show ?thesis by (simp add: compact_done_def Let_def)
  qed
next
  case (Cons c cs)
  show ?case
  proof (cases "0x100 \<le> c")
    case True
    then show ?thesis by (rule widen_done [OF assms(1-3) Cons.prems(1)])
  next
    case False
    let ?n = "length (as_bytes str)"
    have k: "length pre + length [ucast c :: byte] \<le> ?n"
      using as_bytes_length [of str] Cons.prems(2) by simp
    let ?st = "poke m (unat ptr + length pre) [ucast c] st"
    note w = fresh_write [OF assms(1) Cons.prems(1) k]
    have "compact_done m own f opts str st0 (compact_loop m f str ptr (length (pre @ [c])) cs ?st)"
    proof (rule Cons.IH [OF w(2)])
      show "str = (pre @ [c]) @ cs" using Cons.prems(2) by simp
      show "list_all (\<lambda>c. c < 0x100) (pre @ [c])" using Cons.prems(3) False by simp
      have len: "length (latin1_bytes pre) = length pre" by (simp add: latin1_bytes_def)
      have "unat ptr + length pre < length (bytes_of m st)" using Cons.prems(1) k by (simp add: fresh_in_def)
      with slice_snoc [of "unat ptr" "latin1_bytes pre" "bytes_of m st" "ucast c"] Cons.prems(4) len
      show "slice (unat ptr) (length (pre @ [c])) (bytes_of m ?st) = latin1_bytes (pre @ [c])"
        unfolding w(3) by (simp add: latin1_bytes_def)
    qed
    with w(1) False show ?thesis by (simp add: abind_def)
  qed
qed

section \<open>All encodings\<close>

lemma lower_compact_done:
  assumes "realloc_contract m own f" "valid_mem m st" "storable s" "op_string_encoding opts = Some CompactUtf16"
  shows "achieves m own f {} (lower_compact_utf16_string s m f) (string_at m opts s) st"
proof -
  let ?n = "length (as_bytes s)"
  have n: "unat (of_nat ?n :: u32) = ?n" using assms(3) by (simp add: storable_def)
  obtain r st1 where run: "call_realloc f 0 0 2 (of_nat ?n) st = (r, st1)"
    by (cases "call_realloc f 0 0 2 (of_nat ?n) st")
  have none: "range_of 0 (unat (0 :: u32)) \<subseteq> own st" and two: "(2 :: u32) \<noteq> 0" by simp_all
  show ?thesis
  proof (cases rule: call_realloc_cases [OF assms(1,2) none two run, case_names error block])
    case (error e)
    with run show ?thesis by (simp add: achieves_def lower_compact_utf16_string_def)
  next
    case (block p)
    from fresh_realloc [OF extends_refl [OF assms(2)] _ block(2)] n
    have p: "fresh_in m own st st1 p ?n" "p mod 2 = 0" by auto
    have "compact_done m own f opts s st (compact_loop m f s p (length ([] :: rstring)) s st1)"
      by (rule compact_loop_done [OF assms(1,3,4) p]) (simp_all add: latin1_bytes_def slice_def)
    with run block(1) p(2) show ?thesis
      by (simp add: achieves_def compact_done_def lower_compact_utf16_string_def abind_def
          validate_realloc_pointer_alignment_def)
  qed
qed

lemma alloc_write_string:
  assumes "realloc_contract m own f" "valid_mem m st" "al \<noteq> 0" "length bs < 2 ^ 32"
    and "\<And>p s. holds m p bs s \<Longrightarrow> string_at m opts str [WI32 p, WI32 len] s"
  shows "achieves m own f {} (abind (call_realloc f 0 0 al (of_nat (length bs))) (\<lambda>ptr.
    abind (alift (validate_realloc_pointer_alignment ptr al)) (\<lambda>_.
    abind (write_memory m ptr bs) (\<lambda>_. aret [WI32 ptr, WI32 len])))) (string_at m opts str) st"
proof (rule achieves_alloc [OF assms(1-3)])
  fix p st1 assume "fresh_in m own st st1 p (unat (of_nat (length bs) :: u32))"
  then have p: "fresh_in m own st st1 p (length bs)" using assms(4) by simp
  then have w: "achieves m own f (range_of p (length bs)) (write_memory m p bs) (\<lambda>_. holds m p bs) st1"
    by (intro achieves_write [OF assms(1)]) (auto simp: fresh_in_def extends_def)
  have "achieves m own f (range_of p (length bs) \<union> {})
      (abind (write_memory m p bs) (\<lambda>_. aret [WI32 p, WI32 len])) (string_at m opts str) st1"
    by (rule achieves_bind [OF w, where S = "\<lambda>_ b _. b = [WI32 p, WI32 len]"])
      (use p assms(5) in \<open>auto simp: fresh_in_def stores_def extends_def intro!: achieves_ret\<close>)
  then show "achieves m own f (range_of p (unat (of_nat (length bs) :: u32)))
      (abind (write_memory m p bs) (\<lambda>_. aret [WI32 p, WI32 len])) (string_at m opts str) st1"
    using assms(4) by simp
qed

lemma lower_string_ok:
  assumes "callable m own f opts" "valid_mem m st" "storable s"
  shows "achieves m own f {} (lower_string (CString s) opts) (string_at m opts s) st"
proof -
  from assms(1) have c: "realloc_contract m own f" "require_memory opts = Inr m" "require_realloc opts = Inr f"
    by (auto simp: callable_def require_memory_def require_realloc_def)
  have len: "length (as_bytes s) < 2 ^ 32" "length (encode_string_utf16 s) < 2 ^ 32"
    using assms(3) utf16_length [of s] by (auto simp: storable_def)
  consider "op_string_encoding opts \<in> {None, Some Utf8}" | "op_string_encoding opts = Some Utf16"
    | "op_string_encoding opts = Some CompactUtf16"
    by (cases "op_string_encoding opts"; cases "the (op_string_encoding opts)") auto
  then show ?thesis
  proof cases
    case 1
    have "achieves m own f {} (abind (call_realloc f 0 0 1 (of_nat (length (as_bytes s)))) (\<lambda>ptr.
      abind (alift (validate_realloc_pointer_alignment ptr 1)) (\<lambda>_.
      abind (write_memory m ptr (as_bytes s)) (\<lambda>_. aret [WI32 ptr, WI32 (of_nat (length (as_bytes s)))]))))
      (string_at m opts s) st"
      by (rule alloc_write_string [OF c(1) assms(2) _ len(1)]) (use read_back_utf8 [OF assms(3) _ 1] in auto)
    with 1 c show ?thesis by (auto simp: lower_string_def as_str_def Let_def)
  next
    case 2
    have "achieves m own f {} (abind (call_realloc f 0 0 2 (of_nat (length (encode_string_utf16 s)))) (\<lambda>ptr.
      abind (alift (validate_realloc_pointer_alignment ptr 2)) (\<lambda>_.
      abind (write_memory m ptr (encode_string_utf16 s)) (\<lambda>_.
        aret [WI32 ptr, WI32 (of_nat (length (encode_string_utf16 s) div 2))]))))
      (string_at m opts s) st"
      by (rule alloc_write_string [OF c(1) assms(2) _ len(2)]) (use read_back_utf16 [OF assms(3) _ 2] in auto)
    with 2 c show ?thesis by (simp add: lower_string_def as_str_def Let_def)
  next
    case 3
    with lower_compact_done [OF c(1) assms(2,3) 3] c show ?thesis by (simp add: lower_string_def as_str_def)
  qed
qed

end
