(* ===== verification/Conformance.thy ===== *)
theory Conformance
  imports Canonical_Strings
begin

text \<open>
  When a value has a type: \<open>conforms\<close> describes the values in the form in which the canonical ABI
  lifts them, with the bounds under which every length and offset fits 32 bits.  The layout facts
  that the round trips need are derived from the refinement of the layout metadata.
\<close>

section \<open>Layouts of a program\<close>

definition lay :: "program \<Rightarrow> comp_valtype \<Rightarrow> layout" where
  "lay p ty = val_layout (layout_of (type_depth p) (pr_types p)) ty"

definition tysize :: "program \<Rightarrow> comp_valtype \<Rightarrow> nat" where
  "tysize p ty = ly_size (lay p ty)"

definition tyalign :: "program \<Rightarrow> comp_valtype \<Rightarrow> nat" where
  "tyalign p ty = ly_align (lay p ty)"

definition stride :: "program \<Rightarrow> comp_valtype \<Rightarrow> nat" where
  "stride p ty = align_up (tysize p ty) (tyalign p ty)"

definition valid_ty :: "program \<Rightarrow> comp_valtype \<Rightarrow> bool" where
  "valid_ty p ty \<longleftrightarrow> (case ty of VPrim _ \<Rightarrow> True | VType i \<Rightarrow> i < length (pr_types p))"

text \<open>A compiled program all of whose types fit the 32-bit address space.\<close>

definition small :: "program \<Rightarrow> bool" where
  "small p \<longleftrightarrow> compiled p \<and> (\<forall>i < length (pr_types p). stride p (VType i) < 2 ^ 32)"

lemma lay_unfold:
  assumes "compiled p" "i < length (pr_types p)"
  shows "lay p (VType i) = comp_layout (layout_of (type_depth p) (pr_types p)) (pr_types p ! i)"
proof -
  have "layout_of (Suc (type_depth p)) (pr_types p) i = layout_of (type_depth p) (pr_types p) i"
    by (rule layout_of_mono [OF compiled_infos(1) [OF assms]]) simp
  then show ?thesis by (simp add: lay_def val_layout_def)
qed

lemma deps_valid:
  assumes "compiled p" "i < length (pr_types p)" "v \<in> set (abi_deps (pr_types p ! i))"
  shows "valid_ty p v"
proof -
  from compiled_infos(1) [OF assms(1,2)] obtain k where "fits (Suc k) (pr_types p) (VType i)"
    by (cases "type_depth p") auto
  with assms(3) have "fits k (pr_types p) v" by simp
  then show ?thesis by (cases k; cases v) (auto simp: valid_ty_def)
qed

lemma prim_align_pos: "0 < ly_align (prim_layout q)" "ly_align (prim_layout q) dvd ly_size (prim_layout q)"
    "ly_size (prim_layout q) \<le> 8" "0 < ly_size (prim_layout q)"
  by (cases q; simp add: prim_layout_def)+

lemma abi_of_valtype:
  assumes "small p" "valid_ty p ty"
  obtains abi where "memory_abi_for_valtype ty p = Inr abi" "unat (ma_size abi) = tysize p ty"
    "unat (max (ma_align abi) 1) = tyalign p ty" "0 < tyalign p ty" "tysize p ty \<le> stride p ty"
    "stride p ty < 2 ^ 32" "unat (align_to (ma_size abi) (max (ma_align abi) 1)) = stride p ty"
proof (cases ty)
  case (VPrim q)
  have s: "unat (ma_size (memory_abi_for_primitive q)) = ly_size (prim_layout q)"
    "unat (ma_align (memory_abi_for_primitive q)) = ly_align (prim_layout q)"
    by (cases q; simp add: memory_abi_for_primitive_def prim_layout_def)+
  have m: "max (ma_align (memory_abi_for_primitive q)) 1 = ma_align (memory_abi_for_primitive q)"
    using max_one_word [of "ma_align (memory_abi_for_primitive q)"] s(2) prim_align_pos(1) by simp
  have "align_up (ly_size (prim_layout q)) (ly_align (prim_layout q)) = ly_size (prim_layout q)"
    using prim_align_pos [of q] by (simp add: align_up_mod)
  then show ?thesis using VPrim that [of "memory_abi_for_primitive q"] s m prim_align_pos [of q]
      unat_align_to [of "ma_align (memory_abi_for_primitive q)" "ma_size (memory_abi_for_primitive q)"]
    by (simp add: memory_abi_for_valtype_def tysize_def tyalign_def stride_def lay_def val_layout_def)
next
  case (VType i)
  with assms have i: "i < length (pr_types p)" "compiled p" "stride p (VType i) < 2 ^ 32"
    by (auto simp: valid_ty_def small_def)
  let ?info = "pr_type_infos p ! i"
  have info: "info_ok (lay p (VType i)) ?info" "get_type_info p i = Some ?info"
    using compiled_infos [OF i(2,1)] by (auto simp: lay_def val_layout_def)
  have al: "unat (ti_align ?info) = tyalign p ty" "0 < tyalign p ty"
    using info(1) VType by (auto simp: info_ok_def tyalign_def)
  have le: "tysize p ty \<le> stride p ty" using align_up_ge [OF al(2)] by (simp add: stride_def)
  then have sz: "unat (ti_size ?info) = tysize p ty"
    using info(1) i(3) VType by (auto simp: info_ok_def tysize_def)
  have m: "max (ti_align ?info) 1 = ti_align ?info" using al by (simp add: max_one_word)
  then have m2: "max (max (ti_align ?info) 1) 1 = ti_align ?info" by simp
  have "unat (align_to (ti_size ?info) (ti_align ?info)) = stride p ty"
    using unat_align_to [of "ti_align ?info" "ti_size ?info"] al sz i(3) VType by (simp add: stride_def)
  with that [of "\<lparr>ma_size = ti_size ?info, ma_align = max (ti_align ?info) 1\<rparr>"] al sz le m m2 i(3) VType info(2)
  show ?thesis by (simp add: memory_abi_for_valtype_def memory_abi_for_type_def)
qed

section \<open>Values of a type\<close>

definition conforms_prim :: "prim_valtype \<Rightarrow> component_value \<Rightarrow> bool" where
  "conforms_prim prim v \<longleftrightarrow>
     (case (prim, v) of
        (PBool, CBool _) \<Rightarrow> True
      | (PS8, CS8 _) \<Rightarrow> True
      | (PU8, CU8 _) \<Rightarrow> True
      | (PS16, CS16 _) \<Rightarrow> True
      | (PU16, CU16 _) \<Rightarrow> True
      | (PS32, CS32 _) \<Rightarrow> True
      | (PU32, CU32 _) \<Rightarrow> True
      | (PS64, CS64 _) \<Rightarrow> True
      | (PU64, CU64 _) \<Rightarrow> True
      | (PF32, CF32 _) \<Rightarrow> True
      | (PF64, CF64 _) \<Rightarrow> True
      | (PChar, CChar c) \<Rightarrow> is_scalar c
      | (PString, CString s) \<Rightarrow> storable s
      | _ \<Rightarrow> False)"

type_synonym conformance = "component_value \<Rightarrow> type_id \<Rightarrow> bool"

definition conforms_val :: "conformance \<Rightarrow> component_value \<Rightarrow> comp_valtype \<Rightarrow> bool" where
  "conforms_val rec v ty \<longleftrightarrow> (case ty of VPrim prim \<Rightarrow> conforms_prim prim v | VType i \<Rightarrow> rec v i)"

definition conforms_fields :: "conformance \<Rightarrow> label_valtype list \<Rightarrow> component_value list \<Rightarrow> bool" where
  "conforms_fields rec fs vs \<longleftrightarrow> list_all2 (\<lambda>x f. conforms_val rec x (fl_ty f)) vs fs"

definition conforms_record :: "conformance \<Rightarrow> label_valtype list \<Rightarrow> component_value \<Rightarrow> bool" where
  "conforms_record rec fs v \<longleftrightarrow>
     distinct (map fl_label fs) \<and>
     (case v of
        CTuple vs \<Rightarrow> is_tuple_fields fs \<and> conforms_fields rec fs vs
      | CRecord es \<Rightarrow>
          \<not> is_tuple_fields fs \<and> map fst es = map fl_label fs \<and> conforms_fields rec fs (map snd es)
      | _ \<Rightarrow> False)"

definition conforms_variant :: "conformance \<Rightarrow> variant_case list \<Rightarrow> component_value \<Rightarrow> bool" where
  "conforms_variant rec cases v \<longleftrightarrow>
     length cases \<le> 2 ^ 31 \<and>
     (case variant_parts cases v of
        Inl _ \<Rightarrow> False
      | Inr (case_name, payload) \<Rightarrow>
          (case position (\<lambda>c. cs_label c = case_name) cases of
             None \<Rightarrow> False
           | Some i \<Rightarrow>
               (case cs_ty (cases ! i) of
                  None \<Rightarrow> v = variant_of cases (cases ! i) None
                | Some ty \<Rightarrow>
                    (case payload of
                       None \<Rightarrow> False
                     | Some x \<Rightarrow> v = variant_of cases (cases ! i) (Some x) \<and> conforms_val rec x ty))))"

definition conforms_flags :: "label list \<Rightarrow> component_value \<Rightarrow> bool" where
  "conforms_flags labels v \<longleftrightarrow>
     distinct labels \<and> (case v of CFlags sel \<Rightarrow> sel = filter (\<lambda>l. l \<in> set sel) labels | _ \<Rightarrow> False)"

definition conforms_list :: "conformance \<Rightarrow> program \<Rightarrow> comp_valtype \<Rightarrow> nat option \<Rightarrow> component_value \<Rightarrow> bool" where
  "conforms_list rec p elem fixed_len v \<longleftrightarrow>
     (case v of
        CList vs \<Rightarrow>
          list_all (\<lambda>x. conforms_val rec x elem) vs \<and>
          (case fixed_len of None \<Rightarrow> True | Some n \<Rightarrow> length vs = n) \<and>
          stride p elem * length vs < 2 ^ 32 \<and> (stride p elem = 0 \<longrightarrow> vs = [])
      | _ \<Rightarrow> False)"

primrec conforms :: "nat \<Rightarrow> program \<Rightarrow> conformance" where
  "conforms 0 p v i \<longleftrightarrow> False"
| "conforms (Suc n) p v i \<longleftrightarrow>
     i < length (pr_types p) \<and>
     (case pr_types p ! i of
        TDefVal (DPrim prim) \<Rightarrow> conforms_prim prim v
      | TDefVal (DRecord fs) \<Rightarrow> conforms_record (conforms n p) fs v
      | TDefVal (DVariant cases) \<Rightarrow> conforms_variant (conforms n p) cases v
      | TDefVal (DFlags labels) \<Rightarrow> conforms_flags labels v
      | TDefVal (DList elem maybe_len) \<Rightarrow> conforms_list (conforms n p) p elem maybe_len v
      | TDefVal (DOwn r) \<Rightarrow>
          validate_resource_type (resource_depth p) p r = Inr () \<and> (case v of COwn _ \<Rightarrow> True | _ \<Rightarrow> False)
      | TDefVal (DBorrow r) \<Rightarrow>
          validate_resource_type (resource_depth p) p r = Inr () \<and> (case v of CBorrow _ \<Rightarrow> True | _ \<Rightarrow> False)
      | TResource _ \<Rightarrow> (case v of COwn _ \<Rightarrow> True | _ \<Rightarrow> False)
      | _ \<Rightarrow> False)"

definition has_type :: "program \<Rightarrow> component_value \<Rightarrow> comp_valtype \<Rightarrow> bool" where
  "has_type p v ty \<longleftrightarrow> conforms_val (conforms (type_depth p) p) v ty"

lemma conforms_valid: "conforms_val (conforms n p) v ty \<Longrightarrow> valid_ty p ty"
  by (cases n; cases ty) (auto simp: conforms_val_def valid_ty_def)

text \<open>The parts of a conforming value are what the code takes out of it.\<close>

lemma conforms_record_values:
  assumes "conforms_record rec fs v"
  obtains vs where "record_field_values fs v = Inr vs" "conforms_fields rec fs vs" "record_of fs vs = v"
proof -
  have find: "find_fields fs es = Inr (map snd es)"
    if "map fst es = map fl_label fs" "distinct (map fl_label fs)" for es
  proof -
    have len: "length es = length fs" using that(1) by (metis length_map)
    have "map_of es (fl_label (fs ! i)) = Some (snd (es ! i))" if i: "i < length fs" for i
    proof -
      have "fst (es ! i) = fl_label (fs ! i)" using that i len \<open>map fst es = map fl_label fs\<close>
        by (metis nth_map)
      moreover have "es ! i \<in> set es" using i len by simp
      ultimately show ?thesis
        using \<open>map fst es = map fl_label fs\<close> \<open>distinct (map fl_label fs)\<close>
        by (intro map_of_is_SomeI) (auto, metis prod.collapse)
    qed
    then show ?thesis using len by (simp add: find_fields_def rmap_Inr_iff)
  qed
  show ?thesis
  proof (cases v)
    case (CRecord es)
    with assms have es: "\<not> is_tuple_fields fs" "map fst es = map fl_label fs"
      "conforms_fields rec fs (map snd es)" "distinct (map fl_label fs)"
      by (auto simp: conforms_record_def)
    have "zip (map fl_label fs) (map snd es) = es" using es(2) by (metis zip_map_fst_snd)
    with es find [OF es(2,4)] CRecord show ?thesis
      by (intro that [of "map snd es"]) (auto simp: record_field_values_def record_of_def)
  next
    case (CTuple vs)
    with assms show ?thesis
      by (intro that [of vs]) (auto simp: conforms_record_def record_field_values_def record_of_def)
  qed (use assms in \<open>auto simp: conforms_record_def\<close>)
qed

lemma conforms_variant_parts:
  assumes "conforms_variant rec cases v"
  obtains case_name payload i where "variant_parts cases v = Inr (case_name, payload)"
    "case_index_of cases case_name = Inr i" "i < length cases" "length cases \<le> 2 ^ 31"
    "case cs_ty (cases ! i) of
       None \<Rightarrow> v = variant_of cases (cases ! i) None \<and> \<not> unexpected_payload cases payload
     | Some ty \<Rightarrow> (\<exists>x. payload = Some x \<and> v = variant_of cases (cases ! i) (Some x) \<and> conforms_val rec x ty)"
proof -
  from assms obtain cn payload where vp: "variant_parts cases v = Inr (cn, payload)"
    by (cases "variant_parts cases v") (auto simp: conforms_variant_def)
  with assms obtain i where pos: "position (\<lambda>c. cs_label c = cn) cases = Some i"
    by (cases "position (\<lambda>c. cs_label c = cn) cases") (auto simp: conforms_variant_def)
  from assms vp pos have len: "length cases \<le> 2 ^ 31" and
    t: "case cs_ty (cases ! i) of
                  None \<Rightarrow> v = variant_of cases (cases ! i) None
                | Some ty \<Rightarrow>
                    (case payload of
                       None \<Rightarrow> False
                     | Some x \<Rightarrow> v = variant_of cases (cases ! i) (Some x) \<and> conforms_val rec x ty)"
    by (simp_all add: conforms_variant_def)
  note v = vp pos len
  have "\<not> unexpected_payload cases payload" if "v = variant_of cases (cases ! i) None" "cs_ty (cases ! i) = None"
    using v(1) that
    by (auto simp: variant_of_def variant_parts_def unexpected_payload_def Let_def split: if_splits)
  with v t show ?thesis
    by (intro that [of cn payload i]) (auto simp: case_index_of_def dest: position_SomeD split: option.splits)
qed

end
