(* ===== verification/Canonical_Flags.thy ===== *)
theory Canonical_Flags
  imports Conformance
begin

text \<open>
  Flags: the words that \<open>lower_flags_value\<close> computes have exactly the bits of the selected labels,
  and selecting the labels of the set bits gives the selection back.
\<close>

definition flags_ok :: "label list \<Rightarrow> label set \<Rightarrow> u32 list \<Rightarrow> bool" where
  "flags_ok labels S words \<longleftrightarrow>
     length words = div_ceil (length labels) 32 \<and>
     (\<forall>q < length words. \<forall>b < 32. bit (words ! q) b \<longleftrightarrow>
        32 * q + b < length labels \<and> labels ! (32 * q + b) \<in> S)"

lemma div_ceil_32: "n \<le> 32 * div_ceil n 32" "j < n \<Longrightarrow> j div 32 < div_ceil n 32"
  by (auto simp: div_ceil_def)

lemma flags_ok_set:
  assumes "flags_ok labels S words" "distinct labels" "i < length labels"
  shows "flags_ok labels (insert (labels ! i) S)
    (words[i div 32 := words ! (i div 32) OR push_bit (i mod 32) 1])"
proof -
  have w: "i div 32 < length words" using assms(1,3) by (simp add: flags_ok_def div_ceil_32)
  have "bit (words[i div 32 := words ! (i div 32) OR push_bit (i mod 32) 1] ! q) b \<longleftrightarrow>
      32 * q + b < length labels \<and> labels ! (32 * q + b) \<in> insert (labels ! i) S"
    if q: "q < length words" "b < 32" for q b
  proof -
    have old: "bit (words ! q) b \<longleftrightarrow> 32 * q + b < length labels \<and> labels ! (32 * q + b) \<in> S"
      using assms(1) q by (simp add: flags_ok_def)
    have "bit (words[i div 32 := words ! (i div 32) OR push_bit (i mod 32) 1] ! q) b \<longleftrightarrow>
        bit (words ! q) b \<or> i div 32 = q \<and> i mod 32 = b"
      using q w by (cases "i div 32 = q") (auto simp: bit_or_iff bit_exp_iff)
    moreover have "i div 32 = q \<and> i mod 32 = b \<longleftrightarrow> 32 * q + b = i" using q(2) by auto
    moreover have "32 * q + b = i \<longleftrightarrow> 32 * q + b < length labels \<and> labels ! (32 * q + b) = labels ! i"
      using assms(2,3) by (metis nth_eq_iff_index_eq)
    ultimately show ?thesis using old by auto
  qed
  with assms(1) show ?thesis by (simp add: flags_ok_def)
qed

lemma flags_fold:
  assumes "distinct labels" "set sel \<subseteq> set labels" "flags_ok labels S words"
  shows "\<exists>words'. rfold (\<lambda>flag words.
         rbind (ok_or (InvalidArgument ''unknown flag'') (position (\<lambda>l. l = flag) labels)) (\<lambda>index.
           Inr (words[index div 32 := words ! (index div 32) OR push_bit (index mod 32) 1])))
       sel words = Inr words' \<and> flags_ok labels (S \<union> set sel) words'"
  using assms(2,3)
proof (induction sel arbitrary: S words)
  case (Cons x sel)
  from Cons.prems(1) obtain i where i: "i < length labels" "labels ! i = x" by (auto simp: in_set_conv_nth)
  have pos: "position (\<lambda>l. l = x) labels = Some i" using position_distinct [OF assms(1) i(1)] i(2) by simp
  from Cons.IH [OF _ flags_ok_set [OF Cons.prems(2) assms(1) i(1)]] Cons.prems(1) i(2)
  show ?case by (auto simp: pos)
qed simp

lemma lower_flags_ok:
  assumes "distinct labels" "set sel \<subseteq> set labels"
  obtains words where "lower_flags_value (CFlags sel) labels = Inr (map WI32 words)"
    "flags_ok labels (set sel) words"
proof -
  let ?w = "replicate (div_ceil (length labels) 32) 0"
  have "flags_ok labels {} ?w" by (simp add: flags_ok_def)
  from flags_fold [OF assms this] that show ?thesis
    by (auto simp: lower_flags_value_def flags_words)
qed

lemma and_push_bit: "b < 32 \<Longrightarrow> bits AND 2 ^ b \<noteq> (0 :: u32) \<longleftrightarrow> bit bits b"
proof -
  assume b: "b < 32"
  have "bit (bits AND 2 ^ b) k \<longleftrightarrow> k = b \<and> bit bits b" for k
    using b by (auto simp: bit_and_iff bit_exp_iff)
  then show ?thesis using b by (metis bit_0_eq bit_word_eqI bot_apply bot_bool_def)
qed

lemma concat_chunks:
  "concat (map (\<lambda>k. map (\<lambda>b. g (32 * k + b)) (filter (\<lambda>b. P (32 * k + b)) [0..<32])) [0..<W]) =
   map g (filter P [0..<32 * W])"
proof (induction W)
  case (Suc W)
  have "[32 * W..<32 * W + 32] = map (\<lambda>b. 32 * W + b) [0..<32]"
    by (simp add: map_add_upt [symmetric] add.commute)
  moreover have "[0..<32 * Suc W] = [0..<32 * W] @ [32 * W..<32 * W + 32]"
    using upt_add_eq_append [of 0 "32 * W" 32] by (simp add: add.commute)
  ultimately show ?case using Suc by (simp add: filter_map comp_def)
qed simp

lemma flags_select:
  assumes "flags_ok labels S words"
  shows "concat (map (\<lambda>start. flags_chunk labels start (words ! (start div 32))) (chunk_starts labels)) =
    filter (\<lambda>l. l \<in> S) labels"
proof -
  let ?W = "div_ceil (length labels) 32" and ?n = "length labels"
  let ?P = "\<lambda>j. j < ?n \<and> labels ! j \<in> S"
  have W: "length words = ?W" using assms by (simp add: flags_ok_def)
  have "flags_chunk labels (32 * k) (words ! k) =
      map (\<lambda>b. labels ! (32 * k + b)) (filter (\<lambda>b. ?P (32 * k + b)) [0..<32])" if "k < ?W" for k
  proof -
    have "(32 * k + b < ?n \<and> words ! k AND push_bit b 1 \<noteq> 0) = ?P (32 * k + b)" if "b \<in> set [0..<32]" for b
      using assms \<open>k < ?W\<close> W that by (auto simp: flags_ok_def and_push_bit)
    then show ?thesis unfolding flags_chunk_def by (intro arg_cong [where f = "map _"] filter_cong) auto
  qed
  then have "concat (map (\<lambda>start. flags_chunk labels start (words ! (start div 32))) (chunk_starts labels)) =
      concat (map (\<lambda>k. map (\<lambda>b. labels ! (32 * k + b)) (filter (\<lambda>b. ?P (32 * k + b)) [0..<32])) [0..<?W])"
    by (auto simp: chunk_starts_def comp_def intro!: arg_cong [where f = concat] map_cong)
  also have "\<dots> = map ((!) labels) (filter ?P [0..<32 * ?W])" by (rule concat_chunks)
  also have "filter ?P [0..<32 * ?W] = filter (\<lambda>j. labels ! j \<in> S) [0..<?n]"
  proof -
    have "[0..<32 * ?W] = [0..<?n] @ [?n..<32 * ?W]"
      using div_ceil_32(1) [of ?n] upt_add_eq_append [of 0 ?n "32 * ?W - ?n"] by simp
    moreover have "filter ?P [?n..<32 * ?W] = []" by (simp add: filter_empty_conv)
    moreover have "filter ?P [0..<?n] = filter (\<lambda>j. labels ! j \<in> S) [0..<?n]" by (rule filter_cong) auto
    ultimately show ?thesis by simp
  qed
  also have "map ((!) labels) (filter (\<lambda>j. labels ! j \<in> S) [0..<?n]) = filter (\<lambda>l. l \<in> S) labels"
    using filter_map [of "\<lambda>l. l \<in> S" "(!) labels" "[0..<?n]"] by (simp add: map_nth comp_def)
  finally show ?thesis .
qed

text \<open>Selections of at most 8 or 16 labels fit one byte or one half word.\<close>

lemma flags_ok_small:
  assumes "flags_ok labels S words" "0 < length labels" "length labels \<le> n" "n \<le> 32"
  shows "words = [words ! 0] \<and> take_bit n (words ! 0) = words ! 0"
proof -
  obtain k where k: "length labels = Suc k" using assms(2) by (cases "length labels") auto
  have "(k + 32) div 32 = 1" using k assms(3,4) by (simp add: div_nat_eqI)
  then have "(length labels + 31) div 32 = 1" by (simp add: k add.commute)
  with assms have l: "length words = 1" by (simp add: flags_ok_def div_ceil_def)
  then have "words = [words ! 0]" by (cases words) auto
  moreover have "bit (words ! 0) b \<Longrightarrow> b < n" for b
    using assms l bit_imp_le_length [of "words ! 0" b] by (auto simp: flags_ok_def)
  then have "take_bit n (words ! 0) = words ! 0"
    by (intro bit_word_eqI) (auto simp: bit_take_bit_iff)
  ultimately show ?thesis by simp
qed

section \<open>Flat flags\<close>

lemma conforms_flags_words:
  assumes "conforms_flags labels v"
  obtains words where "lower_flags_value v labels = Inr (map WI32 words)" "length words = div_ceil (length labels) 32"
    "v = CFlags (concat (map (\<lambda>start. flags_chunk labels start (words ! (start div 32))) (chunk_starts labels)))"
    "flags_ok labels (case v of CFlags sel \<Rightarrow> set sel | _ \<Rightarrow> {}) words"
proof -
  from assms obtain sel where v: "v = CFlags sel" "distinct labels" "sel = filter (\<lambda>l. l \<in> set sel) labels"
    by (auto simp: conforms_flags_def split: component_value.splits)
  have "set sel \<subseteq> set labels" by (subst v(3)) auto
  from lower_flags_ok [OF v(2) this] obtain words where
    w: "lower_flags_value (CFlags sel) labels = Inr (map WI32 words)" "flags_ok labels (set sel) words" .
  with flags_select [OF w(2)] v that [of words] show ?thesis by (simp add: flags_ok_def)
qed

end
