(* ===== verification/Canonical_Memory.thy ===== *)
theory Canonical_Memory
  imports Canonical_Flags
begin

text \<open>
  Values through linear memory: storing a value of a type and loading it back gives the value,
  for every type of a compiled program.
\<close>

section \<open>Further rules\<close>

lemma storesD: "stores m own A R st st1 \<Longrightarrow> valid_mem m st1 \<and> own st \<subseteq> own st1"
  by (auto simp: stores_def extends_def)

lemma stores_overwrite:
  assumes "stores m own B R st st1" "stores m own B' S st1 st2" "B' \<subseteq> B"
  shows "stores m own B S st st2"
proof -
  note e1 = assms(1) [unfolded stores_def extends_def] and e2 = assms(2) [unfolded stores_def extends_def]
  have own: "own st \<subseteq> own st1" "own st1 \<subseteq> own st2" using e1 e2 by auto
  have "bytes_of m st2 ! a = bytes_of m st ! a" if "a \<in> own st - B" for a
  proof -
    have "a \<in> own st - B" "a \<in> own st1 - B'" using that own assms(3) by auto
    with e1 e2 show ?thesis by metis
  qed
  then have "extends m own B st st2" using e1 e2 own by (auto simp: extends_def)
  moreover have "S s" if s: "agrees m (B \<union> (own st2 - own st)) st2 s" for s
  proof -
    have "agrees m (B' \<union> (own st2 - own st1)) st2 s" using s own assms(3) by (auto simp: agrees_def)
    then show ?thesis using e2 by blast
  qed
  ultimately show ?thesis by (simp add: stores_def)
qed

lemma achieves_overwrite:
  assumes "achieves m own f B act R st"
    and "\<And>a st1. stores m own B (R a) st st1 \<Longrightarrow> achieves m own f B' (k a) S st1" "B' \<subseteq> B"
  shows "achieves m own f B (abind act k) S st"
proof (cases "act st")
  case (Pair r st1)
  show ?thesis
  proof (cases r)
    case (Inl e)
    with Pair assms(1) show ?thesis by (simp add: achieves_def)
  next
    case (Inr a)
    with Pair assms(1) have 1: "stores m own B (R a) st st1" by (simp add: achieves_def)
    from assms(2) [OF 1] have 2: "achieves m own f B' (k a) S st1" .
    have run: "abind act k st = k a st1" using Pair Inr by (simp add: abind_def)
    obtain r2 st2 where "k a st1 = (r2, st2)" by (cases "k a st1")
    with 2 run stores_overwrite [OF 1 _ assms(3)] show ?thesis
      by (cases r2) (auto simp: achieves_def)
  qed
qed

text \<open>Binding with a pure continuation.\<close>

lemma achieves_bind_ret:
  assumes "achieves m own f A act R st" "\<And>a s. R a s \<Longrightarrow> Q (g a) s"
  shows "achieves m own f A (abind act (\<lambda>a. aret (g a))) Q st"
proof -
  obtain r st1 where run: "act st = (r, st1)" by (cases "act st")
  show ?thesis
  proof (cases r)
    case (Inr a)
    with run assms(1) have "stores m own A (R a) st st1" by (simp add: achieves_def)
    then have "stores m own A (Q (g a)) st st1" by (rule stores_mono) (use assms(2) in auto)
    with run Inr show ?thesis by (simp add: achieves_def abind_def)
  qed (use run assms(1) in \<open>simp add: achieves_def\<close>)
qed

text \<open>Binding when the first step touches only fresh memory.\<close>

lemma achieves_bind_fresh:
  assumes "achieves m own f {} act R st"
    and "\<And>a st1. stores m own {} (R a) st st1 \<Longrightarrow> achieves m own f B (k a) (S a) st1"
    and "B \<subseteq> own st" "\<And>a b s. R a s \<Longrightarrow> S a b s \<Longrightarrow> Q b s"
  shows "achieves m own f B (abind act k) Q st"
  using achieves_bind [where B = B and S = S and Q = Q, OF assms(1,2)] assms(3,4) by simp

section \<open>Scalars\<close>

lemma holds_u8: "holds m p [b] s \<Longrightarrow> read_u8_from_memory s m p = Inr b"
  by (simp add: holds_def read_u8_from_memory_def read_memory_array_eq)

lemma holds_u16: "holds m p (to_le 2 w) s \<Longrightarrow> read_u16_from_memory s m p = Inr w"
  by (simp add: holds_def read_u16_from_memory_def read_memory_array_eq from_le_to_le)

lemma holds_i32: "holds m p (to_le 4 w) s \<Longrightarrow> read_i32_from_memory s m p = Inr w"
  by (simp add: holds_def read_i32_from_memory_def read_memory_array_eq from_le_to_le)

lemma holds_i64: "holds m p (to_le 8 w) s \<Longrightarrow> read_i64_from_memory s m p = Inr w"
  by (simp add: holds_def read_i64_from_memory_def read_memory_array_eq from_le_to_le)

lemma holds_array: "holds m p bs s \<Longrightarrow> length bs = n \<Longrightarrow> read_memory_array n s m p = Inr bs"
  by (auto simp: holds_def read_memory_array_eq)

lemmas holds_read_simps = holds_u8 holds_u16 holds_i32 holds_i64

lemma ucast_scast_8 [simp]: "ucast (scast (w :: byte) :: u32) = w"
  by (rule bit_word_eqI) (auto simp: bit_simps)

lemma ucast_scast_16 [simp]: "ucast (scast (w :: u16) :: u32) = w"
  by (rule bit_word_eqI) (auto simp: bit_simps)

lemma ucast_ucast_8 [simp]: "ucast (ucast (w :: byte) :: u32) = w"
  by (rule bit_word_eqI) (auto simp: bit_simps)

lemma ucast_ucast_16 [simp]: "ucast (ucast (w :: u16) :: u32) = w"
  by (rule bit_word_eqI) (auto simp: bit_simps)

section \<open>Pointer pairs\<close>

lemma range_of_plus:
  assumes "realloc_contract m own f" "range_of p n \<subseteq> own st" "k < n"
  shows "unat (p + of_nat k) = unat p + k"
proof -
  from range_of_bounds [OF assms(1,2)] assms(3) have "unat p + n < 2 ^ 32" by auto
  with assms(3) show ?thesis by (subst unat_plus) (simp_all add: unat_of_nat take_bit_nat_eq_self)
qed

lemma write_pair_ok:
  assumes "realloc_contract m own f" "valid_mem m st" "range_of p 8 \<subseteq> own st"
  shows "achieves m own f (range_of p 8) (write_flat_values m p [WI32 a, WI32 b])
    (\<lambda>_ s. read_i32_from_memory s m p = Inr a \<and> read_i32_from_memory s m (p + 4) = Inr b) st"
proof -
  have p4: "unat (p + 4) = unat p + 4" using range_of_plus [OF assms(1,3), of 4] by simp
  have ranges: "range_of p 4 \<inter> range_of (p + 4) 4 = {}" "range_of p 4 \<union> range_of (p + 4) 4 = range_of p 8"
    by (auto simp: range_of_def p4)
  have 1: "achieves m own f (range_of p 4) (write_memory m p (to_le 4 a)) (\<lambda>_. holds m p (to_le 4 a)) st"
    by (rule write_memory_area [OF assms(1,2)]) (use ranges assms(3) in auto)
  have "achieves m own f (range_of p 4 \<union> range_of (p + 4) 4)
      (abind (write_memory m p (to_le 4 a)) (\<lambda>_. abind (write_memory m (p + 4) (to_le 4 b)) (\<lambda>_. aret ())))
      (\<lambda>_ s. read_i32_from_memory s m p = Inr a \<and> read_i32_from_memory s m (p + 4) = Inr b) st"
  proof (rule achieves_bind [OF 1 _ ranges(1)])
    fix st1 assume "stores m own (range_of p 4) (holds m p (to_le 4 a)) st st1"
    from storesD [OF this] have st1: "valid_mem m st1" "own st \<subseteq> own st1" by auto
    have "achieves m own f (range_of (p + 4) 4) (write_memory m (p + 4) (to_le 4 b))
        (\<lambda>_. holds m (p + 4) (to_le 4 b)) st1"
      by (rule write_memory_area [OF assms(1) st1(1)]) (use ranges assms(3) st1(2) in auto)
    then show "achieves m own f (range_of (p + 4) 4) (abind (write_memory m (p + 4) (to_le 4 b)) (\<lambda>_. aret ()))
        (\<lambda>_. holds m (p + 4) (to_le 4 b)) st1"
      by (rule achieves_bind_ret)
  qed (use ranges assms(3) in \<open>auto simp: holds_i32\<close>)
  then show ?thesis by (simp add: ranges)
qed

lemma write_pair_after:
  assumes "realloc_contract m own f" "valid_mem m st" "range_of p 8 \<subseteq> own st"
    and "achieves m own f {} act (\<lambda>flat s. \<exists>a b. flat = [WI32 a, WI32 b] \<and> R a b s) st"
    and "\<And>a b s. R a b s \<Longrightarrow> read_i32_from_memory s m p = Inr a \<Longrightarrow>
      read_i32_from_memory s m (p + 4) = Inr b \<Longrightarrow> Q s"
  shows "achieves m own f (range_of p 8) (abind act (write_flat_values m p)) (\<lambda>_. Q) st"
proof (rule achieves_bind_fresh [OF assms(4) _ assms(3)])
  fix flat st1
  assume "stores m own {} (\<lambda>s. \<exists>a b. flat = [WI32 a, WI32 b] \<and> R a b s) st st1"
  from stores_now [OF this] storesD [OF this] obtain a b where
    f: "flat = [WI32 a, WI32 b]" and st1: "valid_mem m st1" "own st \<subseteq> own st1" by auto
  have "achieves m own f (range_of p 8) (write_flat_values m p [WI32 a, WI32 b])
    (\<lambda>_ s. read_i32_from_memory s m p = Inr a \<and> read_i32_from_memory s m (p + 4) = Inr b) st1"
    by (rule write_pair_ok [OF assms(1) st1(1)]) (use st1 assms(3) in auto)
  then show "achieves m own f (range_of p 8) (write_flat_values m p flat)
    (\<lambda>_ s. \<forall>a b. flat = [WI32 a, WI32 b] \<longrightarrow>
       read_i32_from_memory s m p = Inr a \<and> read_i32_from_memory s m (p + 4) = Inr b) st1"
    unfolding f by (rule achieves_mono) auto
qed (use assms(5) in blast)

section \<open>Primitive types\<close>

lemma write_bytes_ok:
  assumes "realloc_contract m own f" "valid_mem m st" "range_of p n \<subseteq> own st" "length bs = n" "0 < n"
    and "\<And>s. holds m p bs s \<Longrightarrow> Q s"
  shows "achieves m own f (range_of p n) (write_memory m p bs) (\<lambda>_. Q) st"
  by (rule achieves_mono [OF write_memory_area [OF assms(1-5)] subset_refl]) (use assms(6) in auto)

lemma write_primitive_ok:
  assumes "callable m own f opts" "valid_mem m st" "conforms_prim prim v"
    and "range_of p (ly_size (prim_layout prim)) \<subseteq> own st"
  shows "achieves m own f (range_of p (ly_size (prim_layout prim)))
    (write_primitive_to_memory v prim opts p) (\<lambda>_ s. read_primitive_from_memory prim opts s m p = Inr v) st"
proof -
  from assms(1) have c: "realloc_contract m own f" "require_memory opts = Inr m"
    by (auto simp: callable_def require_memory_def)
  note defs = conforms_prim_def write_primitive_to_memory_def read_primitive_from_memory_def prim_layout_def
    expect_bool_def expect_i32_def expect_u32_def expect_i64_def expect_u64_def expect_f32_def expect_f64_def
    expect_char_def as_bool_def as_i32_def as_u32_def char_from_u32_def
  show ?thesis
  proof (cases prim)
    case PBool
    with assms(3) obtain b where "v = CBool b" by (auto simp: defs split: component_value.splits)
    with PBool c assms(2,4) show ?thesis by (auto simp: defs holds_u8 intro!: write_bytes_ok)
  next
    case PString
    with assms(3) obtain s where v: "v = CString s" "storable s"
      by (auto simp: defs split: component_value.splits)
    have ls: "achieves m own f {} (lower_string v opts) (\<lambda>flat st. \<exists>a b. flat = [WI32 a, WI32 b] \<and>
        read_string_from_memory st m a b (op_string_encoding opts) = Inr s) st"
      unfolding v(1) by (rule achieves_mono [OF lower_string_ok [OF assms(1,2) v(2)] subset_refl])
        (simp add: string_at_def)
    have r: "range_of p 8 \<subseteq> own st" using assms(4) PString by (simp add: prim_layout_def)
    have "achieves m own f (range_of p 8) (abind (lower_string v opts) (write_flat_values m p))
        (\<lambda>_ s. read_primitive_from_memory prim opts s m p = Inr v) st"
      by (rule write_pair_after [OF c(1) assms(2) r ls]) (simp add: PString read_primitive_from_memory_def v(1))
    with PString c show ?thesis by (simp add: write_primitive_to_memory_def prim_layout_def)
  qed (use assms(2-4) c in \<open>auto simp: defs holds_read_simps holds_array from_le_to_le
        intro!: write_bytes_ok split: component_value.splits\<close>)
qed

section \<open>What a store of a type promises\<close>

text \<open>\<open>writes_back\<close>: the writer stores every conforming value of a valid type so that the reader
  gives it back.\<close>

definition writes_back ::
  "core_export_ref \<Rightarrow> ('g store \<Rightarrow> nat set) \<Rightarrow> 'g core_func \<Rightarrow> 'g options \<Rightarrow> program \<Rightarrow> conformance \<Rightarrow>
   'g writer \<Rightarrow> ('g store \<Rightarrow> reader) \<Rightarrow> bool" where
  "writes_back m own f opts p cf wr rd \<longleftrightarrow>
     (\<forall>v i ptr st. cf v i \<longrightarrow> valid_mem m st \<longrightarrow> range_of ptr (tysize p (VType i)) \<subseteq> own st \<longrightarrow>
        achieves m own f (range_of ptr (tysize p (VType i))) (wr v i ptr) (\<lambda>_ s. rd s i ptr = Inr v) st)"

lemma writes_back_valtype:
  assumes "callable m own f opts" "writes_back m own f opts p cf wr rd" "conforms_val cf v ty"
    and "valid_mem m st" "range_of ptr (tysize p ty) \<subseteq> own st"
  shows "achieves m own f (range_of ptr (tysize p ty)) (write_value_to_memory wr v ty opts ptr)
    (\<lambda>_ s. read_value_from_memory (rd s) ty opts s m ptr = Inr v) st"
proof (cases ty)
  case (VPrim prim)
  with write_primitive_ok [OF assms(1,4), of prim v ptr] assms(3,5) show ?thesis
    by (simp add: conforms_val_def tysize_def lay_def val_layout_def write_value_to_memory_def
        read_value_from_memory_def)
next
  case (VType i)
  with assms show ?thesis
    by (simp add: writes_back_def conforms_val_def write_value_to_memory_def read_value_from_memory_def)
qed

section \<open>Records\<close>

definition fields_end :: "program \<Rightarrow> nat \<Rightarrow> comp_valtype list \<Rightarrow> nat" where
  "fields_end p s tys = foldl (\<lambda>s ty. align_up s (tyalign p ty) + tysize p ty) s tys"

lemma fields_end_ge:
  assumes "\<And>ty. ty \<in> set tys \<Longrightarrow> 0 < tyalign p ty"
  shows "s \<le> fields_end p s tys"
  using assms
proof (induction tys arbitrary: s)
  case (Cons ty tys)
  have "s \<le> align_up s (tyalign p ty) + tysize p ty"
    using align_up_ge [of "tyalign p ty" s] Cons.prems by auto
  also have "\<dots> \<le> fields_end p (align_up s (tyalign p ty) + tysize p ty) tys"
    using Cons by auto
  finally show ?case by (simp add: fields_end_def)
qed (simp add: fields_end_def)

lemma fields_end_layout:
  "ly_size (foldl add_field a (map (lay p) tys)) = fields_end p (ly_size a) tys"
  by (induction tys arbitrary: a) (simp_all add: fields_end_def add_field_def tyalign_def tysize_def)

lemma lay_eta: "val_layout (layout_of (type_depth p) (pr_types p)) = lay p"
  by (simp add: fun_eq_iff lay_def)

lemma record_size:
  assumes "compiled p" "i < length (pr_types p)" "pr_types p ! i = TDefVal (DRecord fs)"
  shows "fields_end p 0 (map fl_ty fs) \<le> tysize p (VType i)"
proof -
  let ?z = "\<lparr>ly_flat = 0, ly_size = 0, ly_align = 1\<rparr>"
  have "1 \<le> ly_align (foldl add_field a ls)" if "1 \<le> ly_align a" for a ls
    using that by (induction ls arbitrary: a) (auto simp: add_field_def)
  from this [of ?z "map (lay p) (map fl_ty fs)"]
    align_up_ge [of "ly_align (foldl add_field ?z (map (lay p) (map fl_ty fs)))"
      "ly_size (foldl add_field ?z (map (lay p) (map fl_ty fs)))"]
  show ?thesis
    using lay_unfold [OF assms(1,2)] assms(3)
    by (simp add: tysize_def comp_layout_def lay_eta record_layout_def Let_def
        fields_end_layout [of ?z p "map fl_ty fs", simplified])
qed

text \<open>The loop bodies of the two record functions.\<close>

lemma record_loop_ok:
  assumes c: "callable m own f opts" "small p" "writes_back m own f opts p cf wr rd"
    and "conforms_fields cf fs vs" "\<And>fd. fd \<in> set fs \<Longrightarrow> valid_ty p (fl_ty fd)"
    and "unat cur = s" "fields_end p s (map fl_ty fs) \<le> n" "n < 2 ^ 32"
    and "valid_mem m st" "{unat ptr + s ..< unat ptr + n} \<subseteq> own st"
  shows "achieves m own f {unat ptr + s ..< unat ptr + n}
    (afold (write_field wr opts p ptr) (zip vs fs) cur)
    (\<lambda>_ s. \<forall>pre. \<exists>cur'. rfold (read_field (rd s) opts p s m ptr) fs (pre, cur) = Inr (pre @ vs, cur')) st"
  using assms(4-)
proof (induction fs arbitrary: vs cur s st)
  case Nil
  then have "vs = []" by (simp add: conforms_fields_def)
  moreover have "achieves m own f {} (aret cur) (\<lambda>_ s. \<forall>pre. \<exists>cur'. Inr (pre, cur) = Inr (pre, cur')) st"
    by (rule achieves_ret [OF Nil.prems(6)]) simp
  ultimately show ?case by (auto elim!: achieves_mono simp del: action_simps)
next
  case (Cons fd fs)
  from Cons.prems(1) obtain x vs' where vs: "vs = x # vs'" "conforms_val cf x (fl_ty fd)"
      "conforms_fields cf fs vs'"
    by (auto simp: conforms_fields_def list_all2_Cons2)
  let ?ty = "fl_ty fd"
  obtain abi where abi: "memory_abi_for_valtype ?ty p = Inr abi" "unat (ma_size abi) = tysize p ?ty"
    "unat (max (ma_align abi) 1) = tyalign p ?ty" "0 < tyalign p ?ty"
    by (rule abi_of_valtype [OF c(2) Cons.prems(2) [of fd]]) auto
  define o1 where "o1 = align_up s (tyalign p ?ty)"
  define s1 where "s1 = o1 + tysize p ?ty"
  have pos: "0 < tyalign p ty" if "ty \<in> set (map fl_ty fs)" for ty
    using that Cons.prems(2) by (auto intro: abi_of_valtype [OF c(2)])
  have fe: "fields_end p s1 (map fl_ty fs) \<le> n"
    using Cons.prems(4) by (simp add: fields_end_def s1_def o1_def)
  have "s1 \<le> fields_end p s1 (map fl_ty fs)" by (rule fields_end_ge [OF pos])
  with fe have s1n: "s \<le> o1" "o1 \<le> s1" "s1 \<le> n"
    using align_up_ge [OF abi(4), of s] by (auto simp: o1_def s1_def)
  let ?cur1 = "align_to cur (max (ma_align abi) 1)"
  have cur1: "unat ?cur1 = o1"
    using unat_align_to [of "max (ma_align abi) 1" cur] abi Cons.prems(3,5) s1n by (simp add: o1_def)
  let ?cur2 = "saturating_add ?cur1 (ma_size abi)"
  have cur2: "unat ?cur2 = s1"
    using unat_saturating_add [of ?cur1 "ma_size abi"] cur1 abi(2) s1n Cons.prems(5) by (simp add: s1_def)
  have area: "range_of (ptr + ?cur1) (tysize p ?ty) \<subseteq> {unat ptr + s ..< unat ptr + s1}"
  proof (cases "tysize p ?ty = 0")
    case False
    then have "unat ptr + n - 1 \<in> own st" using Cons.prems(7) s1n by (auto simp: s1_def)
    moreover have "realloc_contract m own f" using c(1) by (simp add: callable_def)
    ultimately have "unat ptr + n < 2 ^ 32 + 1"
      using contract_bounds [of m own f "unat ptr + n - 1" st] by auto
    then have "unat (ptr + ?cur1) = unat ptr + o1"
      using cur1 s1n False by (subst unat_plus) (auto simp: s1_def)
    then show ?thesis using s1n by (auto simp: range_of_def s1_def)
  qed simp
  have sub: "{unat ptr + s ..< unat ptr + s1} \<subseteq> own st" "{unat ptr + s1 ..< unat ptr + n} \<subseteq> own st"
    using Cons.prems(7) s1n by auto
  have 1: "achieves m own f {unat ptr + s ..< unat ptr + s1}
      (write_value_to_memory wr x ?ty opts (ptr + ?cur1))
      (\<lambda>_ s. read_value_from_memory (rd s) ?ty opts s m (ptr + ?cur1) = Inr x) st"
    by (rule achieves_mono [OF writes_back_valtype [OF c(1,3) vs(2) Cons.prems(6)] area])
      (use area sub in auto)
  let ?wf = "write_field wr opts p ptr" and ?rf = "\<lambda>s. read_field (rd s) opts p s m ptr"
  have "achieves m own f ({unat ptr + s ..< unat ptr + s1} \<union> {unat ptr + s1 ..< unat ptr + n})
      (abind (write_value_to_memory wr x ?ty opts (ptr + ?cur1)) (\<lambda>_. afold ?wf (zip vs' fs) ?cur2))
      (\<lambda>_ s. \<forall>pre. \<exists>cur'. rfold (?rf s) (fd # fs) (pre, cur) = Inr (pre @ vs, cur')) st"
  proof (rule achieves_bind [OF 1])
    fix st1 assume "stores m own {unat ptr + s..<unat ptr + s1}
      (\<lambda>s. read_value_from_memory (rd s) ?ty opts s m (ptr + ?cur1) = Inr x) st st1"
    from storesD [OF this] have st1: "valid_mem m st1" "own st \<subseteq> own st1" by auto
    show "achieves m own f {unat ptr + s1..<unat ptr + n} (afold ?wf (zip vs' fs) ?cur2)
      (\<lambda>_ s. \<forall>pre. \<exists>cur'. rfold (?rf s) fs (pre, ?cur2) = Inr (pre @ vs', cur')) st1"
      by (rule Cons.IH [OF vs(3) _ cur2 fe Cons.prems(5) st1(1)]) (use Cons.prems(2) sub st1(2) in auto)
  next
    fix s assume r: "read_value_from_memory (rd s) ?ty opts s m (ptr + ?cur1) = Inr x"
      and rest: "\<forall>pre. \<exists>cur'. rfold (?rf s) fs (pre, ?cur2) = Inr (pre @ vs', cur')"
    show "\<forall>pre. \<exists>cur'. rfold (?rf s) (fd # fs) (pre, cur) = Inr (pre @ vs, cur')"
    proof
      fix pre
      from spec [OF rest, of "pre @ [x]"] show "\<exists>cur'. rfold (?rf s) (fd # fs) (pre, cur) = Inr (pre @ vs, cur')"
        using r abi(1) vs(1) by (simp add: read_field_def Let_def)
    qed
  qed (use sub in auto)
  moreover have "{unat ptr + s ..< unat ptr + s1} \<union> {unat ptr + s1 ..< unat ptr + n} = {unat ptr + s ..< unat ptr + n}"
    using s1n by auto
  moreover have "afold ?wf (zip vs (fd # fs)) cur =
      abind (write_value_to_memory wr x ?ty opts (ptr + ?cur1)) (\<lambda>_. afold ?wf (zip vs' fs) ?cur2)"
    by (simp add: vs(1) abi(1) write_field_def Let_def abind_def fun_eq_iff split: prod.split sum.split)
  ultimately show ?case by simp
qed

lemma write_record_ok:
  assumes "callable m own f opts" "small p" "writes_back m own f opts p cf wr rd"
    and "conforms_record cf fs v" "i < length (pr_types p)" "pr_types p ! i = TDefVal (DRecord fs)"
    and "valid_mem m st" "range_of ptr (tysize p (VType i)) \<subseteq> own st"
  shows "achieves m own f (range_of ptr (tysize p (VType i)))
    (write_record_value_to_memory wr v fs opts p ptr)
    (\<lambda>_ s. read_record_value_from_memory (rd s) fs opts p s m ptr = Inr v) st"
proof -
  from assms(2) have comp: "compiled p" by (simp add: small_def)
  obtain vs where vs: "record_field_values fs v = Inr vs" "conforms_fields cf fs vs" "record_of fs vs = v"
    by (rule conforms_record_values [OF assms(4)])
  have valid: "valid_ty p (fl_ty fd)" if "fd \<in> set fs" for fd
    by (rule deps_valid [OF comp assms(5)]) (use that assms(6) in simp)
  have vt: "valid_ty p (VType i)" using assms(5) by (simp add: valid_ty_def)
  have n: "tysize p (VType i) < 2 ^ 32" by (rule abi_of_valtype [OF assms(2) vt]) auto
  have "achieves m own f (range_of ptr (tysize p (VType i)))
    (afold (write_field wr opts p ptr) (zip vs fs) 0)
    (\<lambda>_ s. \<forall>pre. \<exists>cur'. rfold (read_field (rd s) opts p s m ptr) fs (pre, 0) = Inr (pre @ vs, cur')) st"
    using record_loop_ok [OF assms(1-3) vs(2) valid _ record_size [OF comp assms(5,6)] n assms(7), of 0 ptr]
      assms(8) by (simp add: range_of_def)
  then have "achieves m own f (range_of ptr (tysize p (VType i)))
    (abind (afold (write_field wr opts p ptr) (zip vs fs) 0) (\<lambda>_. aret ()))
    (\<lambda>_ s. read_record_value_from_memory (rd s) fs opts p s m ptr = Inr v) st"
    by (rule achieves_bind_ret) (auto simp: read_record_value_from_memory_def vs(3) dest: spec [of _ "[]"])
  then show ?thesis by (simp add: write_record_value_to_memory_def vs(1))
qed

section \<open>Variants\<close>

lemma join_layouts:
  assumes "\<And>ty. ty \<in> set tys \<Longrightarrow> tysize p ty < 2 ^ 32"
  shows "ly_size (foldl join_case a (map (lay p) tys)) = fold (\<lambda>ty. max (tysize p ty)) tys (ly_size a)"
    and "ly_align (foldl join_case a (map (lay p) tys)) = fold (\<lambda>ty. max (tyalign p ty)) tys (ly_align a)"
  by (induction tys arbitrary: a) (simp_all add: join_case_def tysize_def tyalign_def max.commute)

lemma payload_fold:
  assumes "small p" "\<And>c ty. c \<in> set cases \<Longrightarrow> cs_ty c = Some ty \<Longrightarrow> valid_ty p ty"
  obtains sz al where
    "rfold (\<lambda>c (payload_size, payload_align).
         case cs_ty c of
           None \<Rightarrow> Inr (payload_size, payload_align)
         | Some ty \<Rightarrow> rbind (memory_abi_for_valtype ty p) (\<lambda>abi.
             Inr (max payload_size (ma_size abi), max payload_align (max (ma_align abi) 1))))
       cases (sza, ala) = Inr (sz, al)"
    "unat sz = fold (\<lambda>ty. max (tysize p ty)) (List.map_filter cs_ty cases) (unat sza)"
    "unat al = fold (\<lambda>ty. max (tyalign p ty)) (List.map_filter cs_ty cases) (unat ala)"
  using assms(2)
proof (induction cases arbitrary: sza ala thesis)
  case Nil
  show ?case by (rule Nil(1)) (simp_all add: map_filter_simps)
next
  case (Cons c cases)
  show ?case
  proof (cases "cs_ty c")
    case None
    show ?thesis
      by (rule Cons.IH [of sza ala]) (use None Cons.prems in \<open>auto simp: map_filter_simps\<close>)
  next
    case (Some ty)
    obtain abi where abi: "memory_abi_for_valtype ty p = Inr abi" "unat (ma_size abi) = tysize p ty"
      "unat (max (ma_align abi) 1) = tyalign p ty"
      by (rule abi_of_valtype [OF assms(1) Cons.prems(2) [of c ty]]) (use Some in auto)
    show ?thesis
      by (rule Cons.IH [of "max sza (ma_size abi)" "max ala (max (ma_align abi) 1)"])
        (use Some abi Cons.prems in \<open>auto simp: map_filter_simps unat_max max.commute\<close>)
  qed
qed

lemma fold_max_start: "a \<le> fold (\<lambda>x. max (g x)) xs (a :: nat)"
proof (induction xs arbitrary: a)
  case (Cons y ys)
  have "a \<le> max (g y) a" by simp
  also have "\<dots> \<le> fold (\<lambda>x. max (g x)) ys (max (g y) a)" by (rule Cons)
  finally show ?case by simp
qed simp

lemma fold_max_member: "x \<in> set xs \<Longrightarrow> g x \<le> fold (\<lambda>x. max (g x)) xs (a :: nat)"
proof (induction xs arbitrary: a)
  case (Cons y ys)
  have "g y \<le> max (g y) a" by simp
  also have "\<dots> \<le> fold (\<lambda>x. max (g x)) ys (max (g y) a)" by (rule fold_max_start)
  finally show ?case using Cons by auto
qed simp

text \<open>Where the payload of a variant lies.\<close>

lemma variant_area:
  assumes "small p" "i < length (pr_types p)" "pr_types p ! i = TDefVal (DVariant cases)"
    and "length cases \<le> 2 ^ 31"
  obtains off psz where
    "variant_payload_offset_and_size cases p = Inr (off, psz)"
    "discriminant_bytes (length cases) \<le> unat off" "unat off + unat psz \<le> tysize p (VType i)"
    "\<And>c ty. c \<in> set cases \<Longrightarrow> cs_ty c = Some ty \<Longrightarrow> tysize p ty \<le> unat psz"
    "tysize p (VType i) < 2 ^ 32"
proof -
  let ?d = "discriminant_bytes (length cases)"
  let ?z = "\<lparr>ly_flat = 0, ly_size = 0, ly_align = ?d\<rparr>"
  let ?tys = "List.map_filter cs_ty cases"
  let ?l = "foldl join_case ?z (map (lay p) ?tys)"
  have comp: "compiled p" using assms(1) by (simp add: small_def)
  obtain d where d: "variant_discriminant_size (length cases) = Inr d"
    using assms(4) by (cases "length cases \<le> 2 ^ 8"; cases "length cases \<le> 2 ^ 16")
      (auto simp: variant_discriminant_size_def)
  note du = variant_discriminant_size_bytes [OF d]
  have valid: "valid_ty p ty" if "c \<in> set cases" "cs_ty c = Some ty" for c ty
    by (rule deps_valid [OF comp assms(2)]) (use that assms(3) in \<open>auto simp: set_map_filter_iff\<close>)
  have sm: "tysize p ty < 2 ^ 32" if "ty \<in> set ?tys" for ty
    by (rule abi_of_valtype [OF assms(1), of ty]) (use that valid in \<open>auto simp: set_map_filter_iff\<close>)
  obtain sz al where fold: "rfold (\<lambda>c (payload_size, payload_align).
         case cs_ty c of
           None \<Rightarrow> Inr (payload_size, payload_align)
         | Some ty \<Rightarrow> rbind (memory_abi_for_valtype ty p) (\<lambda>abi.
             Inr (max payload_size (ma_size abi), max payload_align (max (ma_align abi) 1))))
       cases (0, d) = Inr (sz, al)"
    "unat sz = fold (\<lambda>ty. max (tysize p ty)) ?tys (unat (0 :: u32))"
    "unat al = fold (\<lambda>ty. max (tyalign p ty)) ?tys (unat d)"
    by (rule payload_fold [OF assms(1), where sza = 0 and ala = d]) (use valid in auto)
  have l: "unat sz = ly_size ?l" "unat al = ly_align ?l"
    using fold(2,3) join_layouts [OF sm, of ?tys ?z] du by auto
  have "1 \<le> ?d" by (simp add: discriminant_bytes_def)
  then have al: "0 < unat al" "?d \<le> unat al"
    using fold(3) du fold_max_start [of "unat d" "tyalign p" ?tys] by auto
  have m: "max al 1 = al" using al by (simp add: max_one_word)
  have ts: "tysize p (VType i) = align_up (align_up ?d (unat al) + unat sz) (unat al)"
    using lay_unfold [OF comp assms(2)] assms(3) l
    by (simp add: tysize_def comp_layout_def lay_eta variant_layout_def Let_def)
  have vt: "valid_ty p (VType i)" using assms(2) by (simp add: valid_ty_def)
  have n: "tysize p (VType i) < 2 ^ 32" by (rule abi_of_valtype [OF assms(1) vt]) auto
  have le: "align_up ?d (unat al) + unat sz \<le> tysize p (VType i)"
    unfolding ts by (rule align_up_ge [OF al(1)])
  have off: "unat (align_to d al) = align_up ?d (unat al)"
    using unat_align_to [OF al(1), of d] du le n by simp
  show ?thesis
  proof (rule that [of "align_to d al" sz])
    show "variant_payload_offset_and_size cases p = Inr (align_to d al, sz)"
      using d fold(1) m by (simp add: variant_payload_offset_and_size_def)
    show "?d \<le> unat (align_to d al)" using off align_up_ge [OF al(1), of ?d] by simp
    show "tysize p ty \<le> unat sz" if "c \<in> set cases" "cs_ty c = Some ty" for c ty
      unfolding fold(2) by (rule fold_max_member) (use that in \<open>auto simp: set_map_filter_iff\<close>)
  qed (use off le n in auto)
qed

lemma sext_index: "k < 2 ^ 31 \<Longrightarrow> unat (scast (of_nat k :: u32) :: u64) = k"
proof -
  assume k: "k < 2 ^ 31"
  have "sint (of_nat k :: u32) = int k"
    using k by (simp add: sint_uint signed_take_bit_int_eq_self uint_nat of_nat_inverse)
  then have "(scast (of_nat k :: u32) :: u64) = of_int (int k)" by (metis scast_eq)
  then have "(scast (of_nat k :: u32) :: u64) = of_nat k" by simp
  then show ?thesis using k by (simp add: unat_of_nat take_bit_nat_eq_self)
qed

lemma write_discriminant_ok:
  assumes "callable m own f opts" "valid_mem m st" "n \<le> 2 ^ 31" "k < n"
    and "range_of ptr (discriminant_bytes n) \<subseteq> own st"
  shows "achieves m own f (range_of ptr (discriminant_bytes n))
    (write_variant_discriminant_to_memory opts ptr n k)
    (\<lambda>_ s. read_variant_discriminant_from_memory s m ptr n = Inr k) st"
proof -
  from assms(1) have c: "realloc_contract m own f" "require_memory opts = Inr m"
    by (auto simp: callable_def require_memory_def)
  consider "n \<le> 2 ^ 8" | "\<not> n \<le> 2 ^ 8" "n \<le> 2 ^ 16" | "\<not> n \<le> 2 ^ 16" by auto
  then show ?thesis
  proof cases
    case 1
    with assms(4) have "unat (of_nat k :: byte) = k" by (simp add: unat_of_nat take_bit_nat_eq_self)
    with 1 c assms(2,5) show ?thesis
      by (auto simp: write_variant_discriminant_to_memory_def read_variant_discriminant_from_memory_def
          variant_discriminant_size_def discriminant_bytes_def holds_u8 intro!: write_bytes_ok)
  next
    case 2
    with assms(4) have "unat (of_nat k :: u16) = k" by (simp add: unat_of_nat take_bit_nat_eq_self)
    with 2 c assms(2,5) show ?thesis
      by (auto simp: write_variant_discriminant_to_memory_def read_variant_discriminant_from_memory_def
          variant_discriminant_size_def discriminant_bytes_def holds_u16 intro!: write_bytes_ok)
  next
    case 3
    then have d: "variant_discriminant_size n = Inr 4" "discriminant_bytes n = 4"
      using assms(3) by (auto simp: variant_discriminant_size_def discriminant_bytes_def)
    have "unat (scast (of_nat k :: u32) :: u64) = k" using sext_index assms(3,4) by auto
    with d c assms(2,5) show ?thesis
      by (auto simp: write_variant_discriminant_to_memory_def read_variant_discriminant_from_memory_def
          holds_i32 intro!: write_bytes_ok)
  qed
qed

lemma write_zeros_ok:
  assumes "callable m own f opts" "valid_mem m st" "range_of q (unat psz) \<subseteq> own st"
  shows "achieves m own f (range_of q (unat psz))
    (if psz \<noteq> 0 then abind (alift (require_memory opts)) (\<lambda>memory.
       write_memory memory q (replicate (unat psz) 0)) else aret ()) (\<lambda>_ _. True) st"
proof (cases "psz = 0")
  case True
  then show ?thesis using achieves_ret [OF assms(2), where Q = "\<lambda>_ _. True" and a = "()"] by simp
next
  case False
  then have "0 < unat psz" by (simp add: unat_gt_0)
  with assms False show ?thesis
    by (auto simp: callable_def require_memory_def intro!: write_bytes_ok)
qed

lemma write_variant_ok:
  assumes "callable m own f opts" "small p" "writes_back m own f opts p cf wr rd"
    and "conforms_variant cf cases v" "i < length (pr_types p)" "pr_types p ! i = TDefVal (DVariant cases)"
    and "valid_mem m st" "range_of ptr (tysize p (VType i)) \<subseteq> own st"
  shows "achieves m own f (range_of ptr (tysize p (VType i)))
    (write_variant_value_to_memory wr v cases opts p ptr)
    (\<lambda>_ s. read_variant_value_from_memory (rd s) cases opts p s m ptr = Inr v) st"
proof -
  let ?d = "discriminant_bytes (length cases)" and ?n = "tysize p (VType i)"
  have contract: "realloc_contract m own f" using assms(1) by (simp add: callable_def)
  obtain cn payload k where parts: "variant_parts cases v = Inr (cn, payload)"
    "case_index_of cases cn = Inr k" "k < length cases" "length cases \<le> 2 ^ 31"
    "case cs_ty (cases ! k) of
       None \<Rightarrow> v = variant_of cases (cases ! k) None \<and> \<not> unexpected_payload cases payload
     | Some ty \<Rightarrow> (\<exists>x. payload = Some x \<and> v = variant_of cases (cases ! k) (Some x) \<and> conforms_val cf x ty)"
    by (rule conforms_variant_parts [OF assms(4)])
  obtain off psz where a: "variant_payload_offset_and_size cases p = Inr (off, psz)"
    "?d \<le> unat off" "unat off + unat psz \<le> ?n"
    "\<And>c ty. c \<in> set cases \<Longrightarrow> cs_ty c = Some ty \<Longrightarrow> tysize p ty \<le> unat psz" "?n < 2 ^ 32"
    using variant_area [OF assms(2,5,6) parts(4)] by blast
  have d1: "0 < ?d" by (simp add: discriminant_bytes_def)
  define B where "B = range_of (ptr + off) (unat psz)"
  have B: "B \<subseteq> {unat ptr + ?d ..< unat ptr + ?n}"
  proof (cases "psz = 0")
    case False
    then have "0 < unat psz" by (simp add: unat_gt_0)
    with a(3) have "unat off < ?n" by linarith
    then have "unat (ptr + off) = unat ptr + unat off"
      using range_of_plus [OF contract assms(8), of "unat off"] by simp
    then show ?thesis using a(2,3) by (auto simp: B_def range_of_def)
  qed (simp add: B_def)
  have R: "range_of ptr ?d \<subseteq> range_of ptr ?n" "B \<subseteq> range_of ptr ?n" "range_of ptr ?d \<inter> B = {}"
    using a(2,3) d1 B by (auto simp: range_of_def)
  let ?rest = "\<lambda>_. (case cs_ty (cases ! k) of
         Some ty \<Rightarrow>
           abind (alift (ok_or (InvalidArgument ''variant case expects a payload'') payload)) (\<lambda>x.
             write_value_to_memory wr x ty opts (ptr + off))
       | None \<Rightarrow>
           if unexpected_payload cases payload
           then afail (InvalidArgument ''variant case does not accept a payload'')
           else aret ())"
  let ?Q = "\<lambda>s. case cs_ty (cases ! k) of
       None \<Rightarrow> v = variant_of cases (cases ! k) None
     | Some ty \<Rightarrow> (\<exists>x. v = variant_of cases (cases ! k) (Some x) \<and>
         read_value_from_memory (rd s) ty opts s m (ptr + off) = Inr x)"
  have rest: "achieves m own f (B \<inter> range_of (ptr + off) (case cs_ty (cases ! k) of None \<Rightarrow> 0 | Some ty \<Rightarrow> tysize p ty))
      (?rest u) (\<lambda>_. ?Q) st2" if st2: "valid_mem m st2" "own st \<subseteq> own st2" for st2 u
  proof (cases "cs_ty (cases ! k)")
    case None
    with parts(5) show ?thesis using achieves_ret [OF st2(1), where Q = "\<lambda>_. ?Q" and a = "()"] by simp
  next
    case (Some ty)
    with parts(5) obtain x where x: "payload = Some x" "v = variant_of cases (cases ! k) (Some x)"
      "conforms_val cf x ty" by auto
    have "tysize p ty \<le> unat psz" using a(4) [of "cases ! k" ty] Some parts(3) by simp
    then have sub: "range_of (ptr + off) (tysize p ty) \<subseteq> B" by (auto simp: B_def range_of_def)
    have "achieves m own f (range_of (ptr + off) (tysize p ty)) (write_value_to_memory wr x ty opts (ptr + off))
        (\<lambda>_ s. read_value_from_memory (rd s) ty opts s m (ptr + off) = Inr x) st2"
      by (rule writes_back_valtype [OF assms(1,3) x(3) st2(1)]) (use sub R assms(8) st2(2) in blast)
    then show ?thesis using Some x sub
      by (auto simp: Int_absorb1 elim!: achieves_mono)
  qed
  have 2: "achieves m own f B (abind (if psz \<noteq> 0 then abind (alift (require_memory opts)) (\<lambda>memory.
       write_memory memory (ptr + off) (replicate (unat psz) 0)) else aret ()) ?rest) (\<lambda>_. ?Q) st1"
    if st1: "valid_mem m st1" "own st \<subseteq> own st1" for st1
  proof -
    have "B \<subseteq> own st1" using R assms(8) st1(2) by blast
    note zeros = write_zeros_ok [OF assms(1) st1(1) this [unfolded B_def], folded B_def]
    show ?thesis
      by (rule achieves_overwrite [OF zeros rest]) (use st1 in \<open>auto dest: storesD\<close>)
  qed
  have dr: "range_of ptr ?d \<subseteq> own st" using R assms(8) by blast
  have "achieves m own f (range_of ptr ?d \<union> B)
    (abind (write_variant_discriminant_to_memory opts ptr (length cases) k) (\<lambda>_.
       abind (if psz \<noteq> 0 then abind (alift (require_memory opts)) (\<lambda>memory.
       write_memory memory (ptr + off) (replicate (unat psz) 0)) else aret ()) ?rest))
    (\<lambda>_ s. read_variant_discriminant_from_memory s m ptr (length cases) = Inr k \<and> ?Q s) st"
    by (rule achieves_bind [OF write_discriminant_ok [OF assms(1,7) parts(4,3) dr] 2 R(3)])
      (use R assms(8) in \<open>auto dest: storesD\<close>)
  then have "achieves m own f (range_of ptr ?n)
    (abind (write_variant_discriminant_to_memory opts ptr (length cases) k) (\<lambda>_.
       abind (if psz \<noteq> 0 then abind (alift (require_memory opts)) (\<lambda>memory.
       write_memory memory (ptr + off) (replicate (unat psz) 0)) else aret ()) ?rest))
    (\<lambda>_ s. read_variant_value_from_memory (rd s) cases opts p s m ptr = Inr v) st"
    by (rule achieves_mono)
      (use R parts(3) a(1) in \<open>auto simp: read_variant_value_from_memory_def get_idx_def split: option.splits\<close>)
  then show ?thesis by (simp add: write_variant_value_to_memory_def parts(1,2) a(1))
qed

end
