(* ===== verification/Canonical_Lists.thy ===== *)
theory Canonical_Lists
  imports Canonical_Memory
begin

text \<open>
  Arrays in linear memory, the flags and lists stored as such, and the induction that puts the
  types together: every type of a compiled program reads back as it was written.
\<close>

section \<open>Arrays\<close>

text \<open>A loop over the elements of an array, each stored in its own slot of \<open>w\<close> bytes.\<close>

lemma array_loop_from:
  assumes "\<And>i x st1. (i, x) \<in> set (enumerate k xs) \<Longrightarrow> valid_mem m st1 \<Longrightarrow> own st0 \<subseteq> own st1 \<Longrightarrow>
      achieves m own f {b + w * i ..< b + w * i + w} (g (i, x) ()) (\<lambda>_. R i x) st1"
    and "{b + w * k ..< b + w * (k + length xs)} \<subseteq> own st0" "own st0 \<subseteq> own st" "valid_mem m st"
  shows "achieves m own f {b + w * k ..< b + w * (k + length xs)} (afold g (enumerate k xs) ())
    (\<lambda>_ s. \<forall>(i, x) \<in> set (enumerate k xs). R i x s) st"
  using assms
proof (induction xs arbitrary: k st)
  case Nil
  then show ?case using achieves_ret [OF Nil(4), where Q = "\<lambda>_ _. True" and a = "()"]
    by (simp del: action_simps)
next
  case (Cons x xs)
  let ?A = "{b + w * k ..< b + w * k + w}" and ?B = "{b + w * Suc k ..< b + w * (Suc k + length xs)}"
  have AB: "?A \<union> ?B = {b + w * k ..< b + w * (k + length (x # xs))}" "?A \<inter> ?B = {}"
    by (auto simp: algebra_simps)
  have "achieves m own f (?A \<union> ?B) (abind (g (k, x) ()) (afold g (enumerate (Suc k) xs)))
    (\<lambda>_ s. \<forall>(i, x) \<in> set (enumerate k (x # xs)). R i x s) st"
  proof (rule achieves_bind [OF _ _ AB(2)])
    show "achieves m own f ?A (g (k, x) ()) (\<lambda>_. R k x) st"
      by (rule Cons.prems(1)) (use Cons.prems in auto)
    show "achieves m own f ?B (afold g (enumerate (Suc k) xs) u)
        (\<lambda>_ s. \<forall>(i, x) \<in> set (enumerate (Suc k) xs). R i x s) st1"
      if st1: "stores m own ?A (R k x) st st1" for u st1
    proof -
      have "?B \<subseteq> own st0" using Cons.prems(2) unfolding AB(1) [symmetric] by blast
      from Cons.IH [OF Cons.prems(1) this] storesD [OF st1] Cons.prems(3) show ?thesis by (cases u) auto
    qed
    show "?A \<union> ?B \<subseteq> own st" using Cons.prems(2,3) unfolding AB(1) by blast
  qed auto
  then show ?case unfolding AB(1) by (simp del: action_simps)
qed

lemma array_loop_ok:
  assumes "\<And>i st1. i < length xs \<Longrightarrow> valid_mem m st1 \<Longrightarrow> own st \<subseteq> own st1 \<Longrightarrow>
      achieves m own f {b + w * i ..< b + w * i + w} (g (i, xs ! i) ()) (\<lambda>_. R i) st1"
    and "{b ..< b + w * length xs} \<subseteq> own st" "valid_mem m st"
  shows "achieves m own f {b ..< b + w * length xs} (afold g (enumerate 0 xs) ())
    (\<lambda>_ s. \<forall>i < length xs. R i s) st"
proof -
  have e: "(i, x) \<in> set (enumerate 0 xs) \<longleftrightarrow> i < length xs \<and> x = xs ! i" for i x
    by (auto simp: in_set_enumerate_eq)
  have "achieves m own f {b + w * 0 ..< b + w * (0 + length xs)} (afold g (enumerate 0 xs) ())
      (\<lambda>_ s. \<forall>(i, x) \<in> set (enumerate 0 xs). R i s) st"
    by (rule array_loop_from [where st0 = st]) (use assms in \<open>auto simp: e\<close>)
  then show ?thesis by (rule achieves_mono) (auto simp: e)
qed

section \<open>Flags\<close>

lemma write_words_ok:
  assumes "realloc_contract m own f" "valid_mem m st" "range_of ptr (4 * length words) \<subseteq> own st"
  shows "achieves m own f (range_of ptr (4 * length words))
    (afold (\<lambda>(index, word) _. write_memory m (ptr + of_nat index * 4) (to_le 4 word)) (enumerate 0 words) ())
    (\<lambda>_ s. \<forall>i < length words. read_i32_from_memory s m (ptr + of_nat i * 4) = Inr (words ! i)) st"
  unfolding range_of_def
proof (rule array_loop_ok)
  fix i st1
  assume i: "i < length words" "valid_mem m st1" "own st \<subseteq> own st1"
  have "unat (ptr + of_nat (4 * i)) = unat ptr + 4 * i"
    using range_of_plus [OF assms(1,3), of "4 * i"] i(1) by simp
  then have r: "range_of (ptr + of_nat i * 4) 4 = {unat ptr + 4 * i ..< unat ptr + 4 * i + 4}"
    by (simp add: range_of_def mult.commute)
  also have "\<dots> \<subseteq> range_of ptr (4 * length words)" using i(1) by (auto simp: range_of_def)
  finally have sub: "range_of (ptr + of_nat i * 4) 4 \<subseteq> own st1" using assms(3) i(3) by blast
  have "achieves m own f (range_of (ptr + of_nat i * 4) 4)
      (write_memory m (ptr + of_nat i * 4) (to_le 4 (words ! i)))
      (\<lambda>_ s. read_i32_from_memory s m (ptr + of_nat i * 4) = Inr (words ! i)) st1"
    by (rule write_bytes_ok [OF assms(1) i(2) sub]) (auto simp: holds_i32)
  then show "achieves m own f {unat ptr + 4 * i ..< unat ptr + 4 * i + 4}
      ((case (i, words ! i) of (index, word) \<Rightarrow> \<lambda>_. write_memory m (ptr + of_nat index * 4) (to_le 4 word)) ())
      (\<lambda>_ s. read_i32_from_memory s m (ptr + of_nat i * 4) = Inr (words ! i)) st1"
    by (simp add: r)
qed (use assms in \<open>auto simp: range_of_def\<close>)

lemma rmap_flag_word: "rmap flag_word (map WI32 words) = Inr words"
  by (simp add: rmap_Inr_iff flag_word_def)

lemma ucast_small:
  "take_bit 8 w = w \<Longrightarrow> ucast (ucast (w :: u32) :: byte) = w"
  "take_bit 16 w = w \<Longrightarrow> ucast (ucast (w :: u32) :: u16) = w"
  by (simp_all add: unsigned_ucast_eq)

lemma write_flags_ok:
  assumes "callable m own f opts" "small p" "i < length (pr_types p)" "pr_types p ! i = TDefVal (DFlags labels)"
    and "conforms_flags labels v" "valid_mem m st" "range_of ptr (tysize p (VType i)) \<subseteq> own st"
  shows "achieves m own f (range_of ptr (tysize p (VType i)))
    (write_flags_value_to_memory v labels opts ptr)
    (\<lambda>_ s. read_flags_value_from_memory labels s m ptr = Inr v) st"
proof -
  have c: "realloc_contract m own f" "require_memory opts = Inr m"
    using assms(1) by (auto simp: callable_def require_memory_def)
  let ?n = "length labels" and ?Q = "\<lambda>s. read_flags_value_from_memory labels s m ptr = Inr v"
  have comp: "compiled p" using assms(2) by (simp add: small_def)
  have ts: "tysize p (VType i) =
      (if ?n = 0 then 0 else if ?n \<le> 8 then 1 else if ?n \<le> 16 then 2 else 4 * div_ceil ?n 32)"
    using lay_unfold [OF comp assms(3)] assms(4) by (simp add: tysize_def comp_layout_def flags_layout_def)
  have vt: "valid_ty p (VType i)" using assms(3) by (simp add: valid_ty_def)
  have lim: "tysize p (VType i) < 2 ^ 32" by (rule abi_of_valtype [OF assms(2) vt]) auto
  obtain words where w: "lower_flags_value v labels = Inr (map WI32 words)"
    "length words = div_ceil ?n 32"
    "v = CFlags (concat (map (\<lambda>start. flags_chunk labels start (words ! (start div 32))) (chunk_starts labels)))"
    and ok: "flags_ok labels (case v of CFlags sel \<Rightarrow> set sel | _ \<Rightarrow> {}) words"
    by (rule conforms_flags_words [OF assms(5)])
  have v: "v = CFlags (concat (map (\<lambda>start. flags_chunk labels start
      (case get_idx words (start div 32) of Some w \<Rightarrow> w | None \<Rightarrow> 0)) (chunk_starts labels)))"
    unfolding w(3) using w(2)
    by (auto simp: chunk_starts_def get_idx_def intro!: arg_cong [where f = concat] map_cong)
  note defs = write_flags_value_to_memory_def c(2) w(1) rmap_flag_word flag_word_def Let_def
  consider "?n = 0" | "0 < ?n" "?n \<le> 8" | "8 < ?n" "?n \<le> 16" | "16 < ?n" by linarith
  then show ?thesis
  proof cases
    case 1
    then have "words = []" using w(2) by (simp add: div_ceil_def)
    then have "?Q s" for s
      using 1 v by (simp add: read_flags_value_from_memory_def flags_memory_abi_def)
    then have "achieves m own f {} (aret ()) (\<lambda>_. ?Q) st" by (rule achieves_ret [OF assms(6)])
    moreover have "write_flags_value_to_memory v labels opts ptr = aret ()"
      using 1 w(1) by (simp add: defs flags_memory_abi_def del: action_simps)
    ultimately show ?thesis using 1 by (simp add: ts)
  next
    case 2
    with flags_ok_small [OF ok, of 8] have w1: "words = [words ! 0]" "take_bit 8 (words ! 0) = words ! 0" by auto
    define u where "u = words ! 0"
    have u: "words = [u]" "take_bit 8 u = u" using w1 by (auto simp: u_def)
    have t1: "tysize p (VType i) = 1" using 2 by (simp add: ts)
    have "achieves m own f (range_of ptr 1) (write_memory m ptr [ucast u]) (\<lambda>_. ?Q) st"
      by (rule write_bytes_ok [OF c(1) assms(6)])
        (use assms(7) 2 v u in \<open>auto simp: t1 read_flags_value_from_memory_def flags_memory_abi_def holds_u8 ucast_small\<close>)
    with 2 u show ?thesis by (simp add: defs t1 flags_memory_abi_def)
  next
    case 3
    then have ne: "labels \<noteq> []" by auto
    with 3 flags_ok_small [OF ok, of 16] have w1: "words = [words ! 0]" "take_bit 16 (words ! 0) = words ! 0" by auto
    define u where "u = words ! 0"
    have u: "words = [u]" "take_bit 16 u = u" using w1 by (auto simp: u_def)
    have t1: "tysize p (VType i) = 2" using 3 ne by (simp add: ts)
    have "achieves m own f (range_of ptr 2) (write_memory m ptr (to_le 2 (ucast u :: u16))) (\<lambda>_. ?Q) st"
      by (rule write_bytes_ok [OF c(1) assms(6)])
        (use assms(7) 3 ne v u in \<open>auto simp: t1 read_flags_value_from_memory_def flags_memory_abi_def holds_u16 ucast_small\<close>)
    with 3 ne u show ?thesis by (simp add: defs t1 flags_memory_abi_def)
  next
    case 4
    then have ne: "labels \<noteq> []" by auto
    then have t1: "tysize p (VType i) = 4 * length words" using 4 by (simp add: ts w(2))
    have "0 < length words" using 4 by (simp add: w(2) div_ceil_def)
    then have "unat (4 * of_nat (div_ceil ?n 32) :: u32) \<ge> 4"
      using lim t1 w(2) unat_of_nat_u32 [of "4 * div_ceil ?n 32"] by simp
    then have sz: "(4 * of_nat (div_ceil ?n 32) :: u32) \<noteq> 0 \<and> (4 * of_nat (div_ceil ?n 32) :: u32) \<noteq> 1 \<and>
        (4 * of_nat (div_ceil ?n 32) :: u32) \<noteq> 2"
      by auto
    have "achieves m own f (range_of ptr (4 * length words))
      (afold (\<lambda>(index, word) _. write_memory m (ptr + of_nat index * 4) (to_le 4 word)) (enumerate 0 words) ())
      (\<lambda>_ s. \<forall>i < length words. read_i32_from_memory s m (ptr + of_nat i * 4) = Inr (words ! i)) st"
      by (rule write_words_ok [OF c(1) assms(6)]) (use assms(7) t1 in simp)
    then have "achieves m own f (range_of ptr (4 * length words))
      (afold (\<lambda>(index, word) _. write_memory m (ptr + of_nat index * 4) (to_le 4 word)) (enumerate 0 words) ())
      (\<lambda>_. ?Q) st"
    proof (rule achieves_mono)
      fix a s
      assume r: "\<forall>i < length words. read_i32_from_memory s m (ptr + of_nat i * 4) = Inr (words ! i)"
      have "rmap (\<lambda>index. read_i32_from_memory s m (ptr + of_nat index * 4)) [0..<div_ceil ?n 32] = Inr words"
        using r w(2) by (simp add: rmap_Inr_iff)
      then show "?Q s" using 4 ne v sz by (simp add: read_flags_value_from_memory_def flags_memory_abi_def)
    qed simp
    with 4 ne sz show ?thesis by (simp add: defs t1 flags_memory_abi_def)
  qed
qed

section \<open>Lists\<close>

lemma stride_word:
  assumes "small p" "valid_ty p elem"
  obtains abi where "memory_abi_for_valtype elem p = Inr abi"
    "unat (align_to (ma_size abi) (max (ma_align abi) 1)) = stride p elem"
    "tysize p elem \<le> stride p elem" "max (ma_align abi) 1 \<noteq> 0"
    "element_stride elem p = Inr (align_to (ma_size abi) (max (ma_align abi) 1))"
proof (rule abi_of_valtype [OF assms])
  fix abi
  assume abi: "memory_abi_for_valtype elem p = Inr abi" "unat (max (ma_align abi) 1) = tyalign p elem"
    "0 < tyalign p elem" "tysize p elem \<le> stride p elem"
    "unat (align_to (ma_size abi) (max (ma_align abi) 1)) = stride p elem"
  from abi(2,3) have "max (ma_align abi) 1 \<noteq> 0" by force
  with abi that show thesis by (simp add: element_stride_def)
qed

lemma write_elements_ok:
  assumes "callable m own f opts" "small p" "writes_back m own f opts p cf wr rd" "valid_ty p elem"
    and "list_all (\<lambda>x. conforms_val cf x elem) vs"
    and "unat w = stride p elem" "tysize p elem \<le> stride p elem" "0 < stride p elem"
    and "valid_mem m st" "range_of q (stride p elem * length vs) \<subseteq> own st"
  shows "achieves m own f (range_of q (stride p elem * length vs))
    (afold (\<lambda>(index, x) _. write_value_to_memory wr x elem opts (q + w * of_nat index)) (enumerate 0 vs) ())
    (\<lambda>_ s. \<forall>i < length vs. unat q + unat w * i < 2 ^ 32 \<and> 
       read_value_from_memory (rd s) elem opts s m (q + w * of_nat i) = Inr (vs ! i)) st"
  unfolding range_of_def
proof (rule array_loop_ok)
  have contract: "realloc_contract m own f" using assms(1) by (simp add: callable_def)
  fix i st1
  assume i: "i < length vs" "valid_mem m st1" "own st \<subseteq> own st1"
  let ?W = "stride p elem"
  have k: "?W * i < ?W * length vs" using i(1) assms(8) by simp
  have "of_nat (?W * i) = w * of_nat i" by (simp flip: assms(6))
  with range_of_plus [OF contract assms(10) k] have u: "unat (q + w * of_nat i) = unat q + ?W * i" by simp
  have n: "unat q + ?W * i < 2 ^ 32" using unat_lt_u32 [of "q + w * of_nat i"] by (simp add: u)
  have sub: "range_of (q + w * of_nat i) (tysize p elem) \<subseteq> {unat q + ?W * i ..< unat q + ?W * i + ?W}"
    using assms(7) by (auto simp: range_of_def u)
  have "?W * i + ?W \<le> ?W * length vs" using i(1) by (metis Suc_leI add.commute mult_Suc_right mult_le_mono2)
  then have "{unat q + ?W * i ..< unat q + ?W * i + ?W} \<subseteq> own st1"
    using assms(10) i(3) by (force simp: range_of_def)
  with sub have "range_of (q + w * of_nat i) (tysize p elem) \<subseteq> own st1" by blast
  from writes_back_valtype [OF assms(1,3) _ i(2) this, of "vs ! i"] assms(5) i(1)
  have "achieves m own f (range_of (q + w * of_nat i) (tysize p elem))
      (write_value_to_memory wr (vs ! i) elem opts (q + w * of_nat i))
      (\<lambda>_ s. read_value_from_memory (rd s) elem opts s m (q + w * of_nat i) = Inr (vs ! i)) st1"
    by (simp add: list_all_length)
  from achieves_mono [OF this sub] n
  show "achieves m own f {unat q + ?W * i ..< unat q + ?W * i + ?W}
      ((case (i, vs ! i) of (index, x) \<Rightarrow> \<lambda>_. write_value_to_memory wr x elem opts (q + w * of_nat index)) ())
      (\<lambda>_ s. unat q + unat w * i < 2 ^ 32 \<and>
        read_value_from_memory (rd s) elem opts s m (q + w * of_nat i) = Inr (vs ! i)) st1"
    by (simp add: assms(6))
qed (use assms in \<open>auto simp: range_of_def\<close>)

text \<open>What the two words of a list in memory stand for.\<close>

definition list_at :: "reader \<Rightarrow> comp_valtype \<Rightarrow> nat option \<Rightarrow> 'g options \<Rightarrow> program \<Rightarrow> core_export_ref \<Rightarrow>
   component_value \<Rightarrow> u32 \<Rightarrow> u32 \<Rightarrow> 'g store \<Rightarrow> bool" where
  "list_at rd elem fixed_len opts p m v base len s \<longleftrightarrow>
     (\<exists>vs. v = CList vs \<and> check_fixed_len fixed_len (unat len) (Trap ''fixed-length list has another length'') = Inr () \<and>
        read_list_elements rd elem base len opts p s m = Inr vs)"

lemma lower_list_ok:
  assumes "callable m own f opts" "small p" "writes_back m own f opts p cf wr rd" "valid_ty p elem"
    and "conforms_list cf p elem fixed_len v" "valid_mem m st"
  shows "achieves m own f {} (lower_list_value wr v elem fixed_len opts p)
    (\<lambda>flat s. \<exists>a b. flat = [WI32 a, WI32 b] \<and> list_at (rd s) elem fixed_len opts p m v a b s) st"
proof -
  let ?W = "stride p elem"
  have c: "realloc_contract m own f" "require_realloc opts = Inr f"
    using assms(1) by (auto simp: callable_def require_realloc_def)
  from assms(5) obtain vs where vs: "v = CList vs" "list_all (\<lambda>x. conforms_val cf x elem) vs"
    "case fixed_len of None \<Rightarrow> True | Some n \<Rightarrow> length vs = n" "?W * length vs < 2 ^ 32" "?W = 0 \<longrightarrow> vs = []"
    by (auto simp: conforms_list_def split: component_value.splits)
  obtain abi where abi: "memory_abi_for_valtype elem p = Inr abi"
    "unat (align_to (ma_size abi) (max (ma_align abi) 1)) = ?W" "tysize p elem \<le> ?W" "max (ma_align abi) 1 \<noteq> 0"
    "element_stride elem p = Inr (align_to (ma_size abi) (max (ma_align abi) 1))"
    by (rule stride_word [OF assms(2,4)])
  define w where "w = align_to (ma_size abi) (max (ma_align abi) 1)"
  have w: "unat w = ?W" "element_stride elem p = Inr w" using abi by (simp_all add: w_def)
  let ?n = "length vs" and ?len = "of_nat (length vs) :: u32"
  have len: "unat ?len = ?n"
  proof (cases "vs = []")
    case False
    with vs(5) have "1 * ?n \<le> ?W * ?n" by (intro mult_le_mono1) simp
    with vs(4) show ?thesis by (intro unat_of_nat_u32) linarith
  qed simp
  define total where "total = saturating_mul w ?len"
  have total: "unat total = ?W * ?n"
    using vs(4) by (simp add: total_def saturating_mul_def w(1) len unat_mult_lem [THEN iffD1])
  have fixed: "check_fixed_len fixed_len ?n e = Inr ()" for e
    using vs(3) by (auto simp: check_fixed_len_def split: option.splits)
  have at: "list_at (rd s) elem fixed_len opts p m v q ?len s"
    if "\<forall>i < ?n. unat q + unat w * i < 2 ^ 32 \<and>
       read_value_from_memory (rd s) elem opts s m (q + w * of_nat i) = Inr (vs ! i)" for q s
  proof -
    have "\<not> (w = 0 \<and> ?len \<noteq> 0)" using vs(5) w(1) by auto
    moreover have "rmap (\<lambda>index.
           if unat w * index < 2 ^ 32 \<and> unat q + unat w * index < 2 ^ 32
           then read_value_from_memory (rd s) elem opts s m (q + w * of_nat index)
           else Inl (Trap ''list element is outside the address space'')) [0..<unat ?len] = Inr vs"
      using that by (simp add: rmap_Inr_iff len) (meson add_lessD1 trans_le_add2 le_add2 le_less_trans)
    ultimately show ?thesis using vs(1) fixed by (auto simp: list_at_def read_list_elements_def w(2) len)
  qed
  let ?loop = "\<lambda>ptr. abind (afold (\<lambda>(index, x) _.
           write_value_to_memory wr x elem opts (ptr + w * of_nat index)) (enumerate 0 vs) ())
       (\<lambda>_. aret [WI32 ptr, WI32 ?len])"
  let ?Q = "\<lambda>flat s. \<exists>a b. flat = [WI32 a, WI32 b] \<and> list_at (rd s) elem fixed_len opts p m v a b s"
  have run: "lower_list_value wr v elem fixed_len opts p =
     abind (if total = 0 then aret 0
              else abind (call_realloc f 0 0 (max (ma_align abi) 1) total) (\<lambda>ptr.
                abind (alift (validate_realloc_pointer_alignment ptr (max (ma_align abi) 1))) (\<lambda>_. aret ptr))) ?loop"
    by (simp add: lower_list_value_def vs(1) fixed c(2) abi(1) Let_def total_def w_def)
  show ?thesis
  proof (cases "total = 0")
    case True
    then have "vs = []" using total vs(5) by (auto simp: unat_eq_zero)
    with True at [of 0] show ?thesis
      using achieves_ret [OF assms(6), where Q = ?Q and a = "[WI32 0, WI32 0]"]
      by (simp add: run del: action_simps)
  next
    case False
    then have W: "0 < ?W" using total by (metis mult_is_0 not_gr_zero unat_eq_zero)
    have "achieves m own f {} (abind (call_realloc f 0 0 (max (ma_align abi) 1) total) (\<lambda>ptr.
        abind (alift (validate_realloc_pointer_alignment ptr (max (ma_align abi) 1))) (\<lambda>_. ?loop ptr))) ?Q st"
    proof (rule achieves_alloc [OF c(1) assms(6) abi(4)])
      fix q st1 assume "fresh_in m own st st1 q (unat total)"
      then have q: "valid_mem m st1" "range_of q (?W * ?n) \<subseteq> own st1"
        by (auto simp: fresh_in_def extends_def total)
      show "achieves m own f (range_of q (unat total)) (?loop q) ?Q st1"
        unfolding total
        by (rule achieves_bind_ret [OF write_elements_ok [OF assms(1-4) vs(2) w(1) abi(3) W q]])
          (use at in auto)
    qed
    with False show ?thesis by (simp add: run abind_assoc)
  qed
qed

section \<open>Every type\<close>

lemma list_layout_size:
  assumes "compiled p" "i < length (pr_types p)" "pr_types p ! i = TDefVal (DList elem len)"
  shows "tysize p (VType i) = 8"
  using lay_unfold [OF assms(1,2)] assms(3) by (simp add: tysize_def comp_layout_def)

lemma handle_layout_size:
  assumes "compiled p" "i < length (pr_types p)"
    and "(\<exists>r. pr_types p ! i = TDefVal (DOwn r)) \<or> (\<exists>r. pr_types p ! i = TDefVal (DBorrow r)) \<or>
      (\<exists>r. pr_types p ! i = TResource r)"
  shows "tysize p (VType i) = 4"
  using lay_unfold [OF assms(1,2)] assms(3) by (auto simp: tysize_def comp_layout_def)

lemma write_list_ok:
  assumes "callable m own f opts" "small p" "writes_back m own f opts p cf wr rd"
    and "i < length (pr_types p)" "pr_types p ! i = TDefVal (DList elem fixed_len)"
    and "conforms_list cf p elem fixed_len v" "valid_mem m st" "range_of ptr (tysize p (VType i)) \<subseteq> own st"
  shows "achieves m own f (range_of ptr (tysize p (VType i)))
    (abind (lower_list_value wr v elem fixed_len opts p) (write_flat_values m ptr))
    (\<lambda>_ s. read_list_value_from_memory (rd s) elem fixed_len opts p s m ptr = Inr v) st"
proof -
  have c: "realloc_contract m own f" "compiled p" using assms(1,2) by (auto simp: callable_def small_def)
  have sz: "tysize p (VType i) = 8" by (rule list_layout_size [OF c(2) assms(4,5)])
  have elem: "valid_ty p elem" by (rule deps_valid [OF c(2) assms(4)]) (simp add: assms(5))
  have r: "range_of ptr 8 \<subseteq> own st" using assms(8) sz by simp
  have p4: "unat ptr + 4 < 2 ^ 32" using range_of_bounds [OF c(1) r] by simp
  show ?thesis unfolding sz
    by (rule write_pair_after [OF c(1) assms(7) r lower_list_ok [OF assms(1-3) elem assms(6,7)]])
      (use p4 in \<open>auto simp: read_list_value_from_memory_def list_at_def\<close>)
qed

lemma writes_back_defined:
  assumes "callable m own f opts" "small p"
  shows "writes_back m own f opts p (conforms n p) (write_defined_value_to_memory n opts p)
    (\<lambda>s. read_defined_value_from_memory n opts p s m)"
proof (induction n)
  case (Suc n)
  let ?wr = "write_defined_value_to_memory n opts p" and ?rd = "\<lambda>s. read_defined_value_from_memory n opts p s m"
  have req: "require_memory opts = Inr m" using assms(1) by (auto simp: callable_def require_memory_def)
  have comp: "compiled p" and contract: "realloc_contract m own f"
    using assms by (simp_all add: small_def callable_def)
  have "achieves m own f (range_of ptr (tysize p (VType i))) (write_defined_value_to_memory (Suc n) opts p v i ptr)
      (\<lambda>_ s. read_defined_value_from_memory (Suc n) opts p s m i ptr = Inr v) st"
    if h: "conforms (Suc n) p v i" "valid_mem m st" "range_of ptr (tysize p (VType i)) \<subseteq> own st" for v i ptr st
  proof -
    have i: "i < length (pr_types p)" "get_type p i = Some (pr_types p ! i)"
      using h(1) by (auto simp: get_type_def get_idx_def)
    note eqs = req i(2)
    show ?thesis
    proof (cases "pr_types p ! i")
      case (TDefVal d)
      show ?thesis
      proof (cases d)
        case (DPrim prim)
        with TDefVal h lay_unfold [OF comp i(1)] write_primitive_ok [OF assms(1) h(2), of prim v ptr]
        show ?thesis by (simp add: eqs tysize_def comp_layout_def)
      next
        case (DRecord fs)
        with TDefVal h write_record_ok [OF assms Suc _ i(1), of fs v st ptr] show ?thesis by (simp add: eqs)
      next
        case (DVariant cases)
        with TDefVal h write_variant_ok [OF assms Suc _ i(1), of cases v st ptr] show ?thesis by (simp add: eqs)
      next
        case (DFlags labels)
        with TDefVal h write_flags_ok [OF assms i(1), of labels v st ptr] show ?thesis by (simp add: eqs)
      next
        case (DList elem fixed_len)
        with TDefVal h write_list_ok [OF assms Suc i(1), of elem fixed_len v st ptr] show ?thesis
          by (simp add: eqs)
      next
        case (DOwn r)
        with TDefVal h handle_layout_size [OF comp i(1)] show ?thesis
          by (auto simp: eqs expect_handle_def holds_i32 split: component_value.splits intro!: write_bytes_ok [OF contract h(2)])
      next
        case (DBorrow r)
        with TDefVal h handle_layout_size [OF comp i(1)] show ?thesis
          by (auto simp: eqs expect_handle_def holds_i32 split: component_value.splits intro!: write_bytes_ok [OF contract h(2)])
      qed
    next
      case (TResource r)
      with h handle_layout_size [OF comp i(1)] show ?thesis
        by (auto simp: eqs expect_handle_def holds_i32 split: component_value.splits intro!: write_bytes_ok [OF contract h(2)])
    qed (use h in auto)
  qed
  then show ?case by (simp add: writes_back_def del: write_defined_value_to_memory.simps read_defined_value_from_memory.simps conforms.simps)
qed (simp add: writes_back_def)

end
