(* ===== verification/Guest_Allocator.thy ===== *)
theory Guest_Allocator
  imports Canonical_Lists "HOL-Library.Code_Target_Nat"
begin

text \<open>
  A guest whose allocator keeps a bump pointer, shown to satisfy the contract that the canonical
  ABI relies on, and a compiled program with a value to store: the concrete inputs at which the
  properties of the canonical ABI are applied.
\<close>

section \<open>A bump allocator\<close>

text \<open>The bump pointer is a part of the guest's state, which \<open>brk\<close> reads and \<open>set_brk\<close> changes.  A
  call copies the old block to a fresh one.\<close>

definition brk_realloc :: "('g \<Rightarrow> nat) \<Rightarrow> (nat \<Rightarrow> 'g \<Rightarrow> 'g) \<Rightarrow> core_export_ref \<Rightarrow> 'g core_func" where
  "brk_realloc brk set_brk m args st =
     (case args of
        [WI32 old, WI32 old_len, WI32 al, WI32 new_len] \<Rightarrow>
          let p = align_up (brk (st_guest st)) (unat al);
              moved = slice (unat old) (min (unat old_len) (unat new_len)) (bytes_of m st)
          in if p + unat new_len \<le> length (bytes_of m st) \<and> p + unat new_len < 2 ^ 32
             then (Inr [WI32 (of_nat p)], (poke m p moved st)\<lparr>st_guest := set_brk (p + unat new_len) (st_guest st)\<rparr>)
             else (Inl (Trap ''out of memory''), st)
      | _ \<Rightarrow> (Inl (Trap ''unreachable''), st))"

definition brk_own :: "('g \<Rightarrow> nat) \<Rightarrow> core_export_ref \<Rightarrow> 'g store \<Rightarrow> nat set" where
  "brk_own brk m st = {a. a < brk (st_guest st) \<and> a < length (bytes_of m st) \<and> a < 2 ^ 32 - 1}"

lemma guest_addr_update [simp]: "memory_addr (st\<lparr>st_guest := g\<rparr>) m = memory_addr st m"
  by (simp add: memory_addr_def memory_export_def)

lemma guest_update [simp]:
  "bytes_of m (st\<lparr>st_guest := g\<rparr>) = bytes_of m st"
  "valid_mem m (st\<lparr>st_guest := g\<rparr>) = valid_mem m st"
  by (simp_all add: bytes_of_def valid_mem_def split: sum.split)

lemma guest_poke [simp]: "st_guest (poke m p bs st) = st_guest st"
  by (simp add: poke_def split: sum.split)

lemma bump_gives:
  assumes put: "\<And>n g. brk (set_brk n g) = n"
    and "valid_mem m st" "range_of old (unat old_len) \<subseteq> brk_own brk m st" "al \<noteq> 0"
    and "p = align_up (brk (st_guest st)) (unat al)"
    and "p + unat new_len \<le> length (bytes_of m st)" "p + unat new_len < 2 ^ 32"
  shows "realloc_gives m (brk_own brk m) st old old_len al new_len
    ((poke m p (slice (unat old) (min (unat old_len) (unat new_len)) (bytes_of m st)) st)\<lparr>st_guest := set_brk (p + unat new_len) (st_guest st)\<rparr>)
    (of_nat p)"
proof -
  let ?n = "min (unat old_len) (unat new_len)"
  let ?bs = "slice (unat old) ?n (bytes_of m st)"
  have al: "0 < unat al" using assms(4) by (simp add: unat_gt_0)
  have p: "unat (of_nat p :: u32) = p" "brk (st_guest st) \<le> p"
    using assms(5,7) align_up_ge [OF al] by auto
  have old: "unat old + ?n \<le> length (bytes_of m st) \<or> ?n = 0"
  proof (cases "unat old_len = 0")
    case False
    then have "unat old + unat old_len - 1 \<in> brk_own brk m st" using assms(3) by (auto simp: range_of_def)
    then show ?thesis using False by (auto simp: brk_own_def)
  qed simp
  then have len: "length ?bs = ?n" by (auto simp: length_slice slice_def)
  then have fit: "p + length ?bs \<le> length (bytes_of m st)" using assms(6) by simp
  have bytes: "bytes_of m (poke m p ?bs st) = splice_at p ?bs (bytes_of m st)"
    by (rule bytes_of_poke [OF assms(2)])
  have "(of_nat p :: u32) mod al = 0"
    using align_up_dvd [of "unat al" "brk (st_guest st)"] p(1) assms(5)
    by (metis dvd_imp_mod_0 unat_eq_zero unat_mod)
  moreover have "splice_at p ?bs (bytes_of m st) ! (p + i) = bytes_of m st ! (unat old + i)" if "i < ?n" for i
    using that fit len old assms(6) by (auto simp: nth_splice_at nth_slice)
  moreover have "splice_at p ?bs (bytes_of m st) ! a = bytes_of m st ! a" if "a \<in> brk_own brk m st" for a
    using that fit p(2) by (auto simp: nth_splice_at brk_own_def)
  ultimately show ?thesis
    using p fit put assms(2,6,7)
    by (auto simp: realloc_gives_def Let_def range_of_def brk_own_def bytes length_splice_at)
qed

lemma bump_contract:
  assumes put: "\<And>n g. brk (set_brk n g) = n"
  shows "realloc_contract m (brk_own brk m) (brk_realloc brk set_brk m)"
proof -
  have "brk_own brk m (poke m p bs st) = brk_own brk m st"
    if "valid_mem m st" "{p ..< p + length bs} \<subseteq> brk_own brk m st" for st p bs
  proof (cases "bs = []")
    case True
    then show ?thesis using that by (simp add: brk_own_def bytes_of_poke splice_at_def)
  next
    case False
    then have "p + length bs - 1 \<in> brk_own brk m st" using that(2) by (cases bs) auto
    then have "p + length bs \<le> length (bytes_of m st)" by (auto simp: brk_own_def)
    then show ?thesis using that(1) by (simp add: brk_own_def bytes_of_poke length_splice_at)
  qed
  moreover have "\<exists>p. vs = [WI32 p] \<and> realloc_gives m (brk_own brk m) st old old_len al new_len st' p"
    if h: "valid_mem m st" "range_of old (unat old_len) \<subseteq> brk_own brk m st" "al \<noteq> 0"
      "brk_realloc brk set_brk m [WI32 old, WI32 old_len, WI32 al, WI32 new_len] st = (Inr vs, st')"
    for st old old_len al new_len vs st'
    using h(4) bump_gives [where set_brk = set_brk and new_len = new_len, OF put h(1-3) refl]
    by (auto simp: brk_realloc_def Let_def split: if_splits)
  ultimately show ?thesis by (auto simp: realloc_contract_def brk_own_def)
qed

text \<open>A guest whose whole state is the bump pointer.\<close>

abbreviation bump_realloc :: "core_export_ref \<Rightarrow> nat core_func" where
  "bump_realloc \<equiv> brk_realloc (\<lambda>n. n) (\<lambda>n _. n)"

abbreviation bump_own :: "core_export_ref \<Rightarrow> nat store \<Rightarrow> nat set" where
  "bump_own \<equiv> brk_own (\<lambda>n. n)"

section \<open>A program, a store and a value\<close>

definition guest_memory :: core_export_ref where
  "guest_memory = \<lparr>er_instance = \<lparr>ih_store = 0, ih_instance = 0\<rparr>, er_export_name = ''memory''\<rparr>"

definition guest_options :: "string_encoding option \<Rightarrow> nat options" where
  "guest_options enc =
     \<lparr>op_string_encoding = enc, op_memory = Some guest_memory, op_realloc = Some (bump_realloc guest_memory),
      op_post_return = None\<rparr>"

definition guest_store :: "nat \<Rightarrow> nat \<Rightarrow> nat store" where
  "guest_store len brk =
     \<lparr>st_id = 0, st_instances = (\<lambda>_. \<lparr>ci_exports = [(''memory'', EMem 0)], ci_mems = [MLocal 0]\<rparr>),
      st_mem = (\<lambda>_. replicate len 0), st_guest = brk\<rparr>"

lemma guest_callable: "callable guest_memory (bump_own guest_memory) (bump_realloc guest_memory) (guest_options enc)"
  by (simp add: callable_def bump_contract guest_options_def)

lemma guest_addr: "memory_addr (guest_store len brk) guest_memory = Inr (MLocal 0)"
  by (simp add: memory_addr_def memory_export_def guest_memory_def guest_store_def get_idx_def)

lemma guest_valid: "valid_mem guest_memory (guest_store len brk)"
  by (simp add: valid_mem_def guest_addr)

lemma guest_bytes: "bytes_of guest_memory (guest_store len brk) = replicate len 0"
  by (simp add: bytes_of_def guest_addr) (simp add: guest_store_def)

lemma guest_brk: "st_guest (guest_store len brk) = brk"
  by (simp add: guest_store_def)

lemma guest_owns:
  "unat ptr + n \<le> brk \<Longrightarrow> brk \<le> len \<Longrightarrow> brk < 2 ^ 32 - 1 \<Longrightarrow>
   range_of ptr n \<subseteq> bump_own guest_memory (guest_store len brk)"
  by (auto simp: range_of_def brk_own_def guest_bytes guest_brk)

text \<open>A record of a byte, a list of strings and an optional word.\<close>

definition guest_types :: "comp_type list" where
  "guest_types =
     [TDefVal (DList (VPrim PString) None),
      TDefVal (DVariant [\<lparr>cs_label = ''none'', cs_ty = None\<rparr>, \<lparr>cs_label = ''some'', cs_ty = Some (VPrim PU64)\<rparr>]),
      TDefVal (DRecord [\<lparr>fl_label = ''a'', fl_ty = VPrim PU8\<rparr>, \<lparr>fl_label = ''b'', fl_ty = VType 0\<rparr>,
        \<lparr>fl_label = ''c'', fl_ty = VType 1\<rparr>])]"

definition guest_program :: program where
  "guest_program = \<lparr>pr_types = guest_types,
     pr_type_infos = [mk_info 0 2 8 4 None, mk_info 1 2 16 8 None, mk_info 2 5 32 8 None]\<rparr>"

definition guest_value :: component_value where
  "guest_value = CRecord [(''a'', CU8 7), (''b'', CList [CString [104, 105], CString [233]]), (''c'', COption (Some (CU64 9)))]"

lemma guest_compiled: "compiled guest_program"
  by (simp add: compiled_def guest_program_def build_type_infos_def guest_types_def layout_eval numeral_3_eq_3 upt_rec)
    (simp add: word_le_nat_alt)


lemma guest_types_nth:
  "pr_types guest_program ! 0 = TDefVal (DList (VPrim PString) None)"
  "pr_types guest_program ! 1 =
     TDefVal (DVariant [\<lparr>cs_label = ''none'', cs_ty = None\<rparr>, \<lparr>cs_label = ''some'', cs_ty = Some (VPrim PU64)\<rparr>])"
  "pr_types guest_program ! 2 =
     TDefVal (DRecord [\<lparr>fl_label = ''a'', fl_ty = VPrim PU8\<rparr>, \<lparr>fl_label = ''b'', fl_ty = VType 0\<rparr>,
        \<lparr>fl_label = ''c'', fl_ty = VType 1\<rparr>])"
  "length (pr_types guest_program) = 3"
  by (simp_all add: guest_program_def guest_types_def)

lemmas layout_defs = comp_layout_def record_layout_def variant_layout_def add_field_def join_case_def
  discriminant_bytes_def align_up_def div_ceil_def map_filter_simps

lemma guest_prims:
  "lay guest_program (VPrim PU8) = \<lparr>ly_flat = 1, ly_size = 1, ly_align = 1\<rparr>"
  "lay guest_program (VPrim PU64) = \<lparr>ly_flat = 1, ly_size = 8, ly_align = 8\<rparr>"
  "lay guest_program (VPrim PString) = \<lparr>ly_flat = 2, ly_size = 8, ly_align = 4\<rparr>"
  by (simp_all add: lay_def val_layout_def prim_layout_def)

lemma guest_list_layout: "lay guest_program (VType 0) = \<lparr>ly_flat = 2, ly_size = 8, ly_align = 4\<rparr>"
  by (simp add: lay_unfold [OF guest_compiled] guest_types_nth comp_layout_def)

lemma guest_option_layout: "lay guest_program (VType 1) = \<lparr>ly_flat = 2, ly_size = 16, ly_align = 8\<rparr>"
proof -
  have "lay guest_program (VType 1) =
      variant_layout 2 [\<lparr>ly_flat = 1, ly_size = 8, ly_align = 8\<rparr>]"
    by (subst lay_unfold [OF guest_compiled])
      (simp_all add: guest_types_nth [unfolded One_nat_def] comp_layout_def lay_eta guest_prims map_filter_simps numeral_2_eq_2)
  then show ?thesis by (simp add: layout_defs Let_def)
qed

lemma guest_record_layout: "lay guest_program (VType 2) = \<lparr>ly_flat = 5, ly_size = 32, ly_align = 8\<rparr>"
proof -
  have "lay guest_program (VType 2) = record_layout (map (lay guest_program) [VPrim PU8, VType 0, VType 1])"
    by (subst lay_unfold [OF guest_compiled]) (simp_all add: guest_types_nth comp_layout_def lay_eta)
  also have "\<dots> = record_layout [\<lparr>ly_flat = 1, ly_size = 1, ly_align = 1\<rparr>, \<lparr>ly_flat = 2, ly_size = 8, ly_align = 4\<rparr>,
      \<lparr>ly_flat = 2, ly_size = 16, ly_align = 8\<rparr>]"
    by (simp only: list.map guest_prims guest_list_layout guest_option_layout)
  finally show ?thesis by (simp add: layout_defs Let_def)
qed

lemmas guest_layouts = guest_list_layout guest_option_layout guest_record_layout

lemma guest_small: "small guest_program"
proof -
  have "stride guest_program (VType i) < 2 ^ 32" if "i < length (pr_types guest_program)" for i
  proof -
    have "i = 0 \<or> i = 1 \<or> i = 2" using that by (auto simp: guest_types_nth)
    then show ?thesis
      by (elim disjE) (simp_all only: stride_def tysize_def tyalign_def guest_layouts, simp_all add: align_up_def div_ceil_def)
  qed
  then show ?thesis by (simp add: small_def guest_compiled)
qed

lemma guest_stride: "stride guest_program (VPrim PString) = 8"
  by (simp add: stride_def tysize_def tyalign_def lay_def val_layout_def prim_layout_def align_up_def div_ceil_def)

lemma guest_list_type:
  "conforms_list rec guest_program (VPrim PString) None (CList [CString [104, 105], CString [233]])"
  by (simp add: conforms_list_def guest_stride conforms_val_def conforms_prim_def storable_def is_scalar_def
      as_bytes_def utf8_char_def)

lemma guest_option_type:
  "conforms_variant rec [\<lparr>cs_label = ''none'', cs_ty = None\<rparr>, \<lparr>cs_label = ''some'', cs_ty = Some (VPrim PU64)\<rparr>]
     (COption (Some (CU64 9)))"
  by (simp add: conforms_variant_def variant_parts_def is_option_cases_def variant_of_def conforms_val_def
      conforms_prim_def)

lemma zero_string: "nat_to_string 0 = ''0''"
  by code_simp

lemma guest_has_type: "has_type guest_program guest_value (VType 2)"
proof -
  have t: "pr_types guest_program = guest_types" "type_depth guest_program = Suc (Suc (Suc 0))"
    by (simp_all add: guest_program_def type_depth_def guest_types_def)
  have "conforms (Suc n) guest_program (CList [CString [104, 105], CString [233]]) 0" for n
    by (simp add: t guest_types_def guest_list_type)
  moreover have "conforms (Suc n) guest_program (COption (Some (CU64 9))) 1" for n
    by (simp add: t guest_types_def guest_option_type)
  ultimately show ?thesis
    by (simp add: has_type_def conforms_val_def t guest_types_def guest_value_def conforms_record_def
        conforms_fields_def is_tuple_fields_def zero_string conforms_prim_def)
qed

end
