(* ===== verification/Memory_Round_Trip.thy ===== *)
theory Memory_Round_Trip
  imports Guest_Allocator
begin

text \<open>
  The correctness of the canonical ABI's memory representation as a whole: whatever type a
  compiled program declares, a value of it that the runtime stores is the value that it loads.
\<close>

lemma write_value_ok:
  assumes "callable m own f opts" "small p" "has_type p v ty" "valid_mem m st"
    and "range_of ptr (tysize p ty) \<subseteq> own st"
  shows "achieves m own f (range_of ptr (tysize p ty)) (write_value v ty opts p ptr)
    (\<lambda>_ s. read_value ty opts p s m ptr = Inr v) st"
  using writes_back_valtype [OF assms(1) writes_back_defined [OF assms(1,2)]] assms(3-5)
  by (simp add: has_type_def write_value_def read_value_def)

text \<open>C14: Storing a value of a type into an area of the size of the type, which the guest's allocator has
  handed out, fails only with an error of the guest's allocator.  When it succeeds it has changed
  no other byte that the allocator had handed out, and from then on loading from the area gives
  the value back, in every state in which the bytes of the area and of the blocks allocated
  meanwhile are still the same.\<close>

theorem memory_round_trip:
  assumes "callable m own f opts" "small p" "has_type p v ty" "valid_mem m st"
    and "range_of ptr (tysize p ty) \<subseteq> own st"
    and "write_value v ty opts p ptr st = (r, st')"
  shows "case r of
      Inl e \<Rightarrow> \<exists>args s s'. f args s = (Inl e, s')
    | Inr _ \<Rightarrow> valid_mem m st' \<and>
        (\<forall>a \<in> own st - range_of ptr (tysize p ty). bytes_of m st' ! a = bytes_of m st ! a) \<and>
        (\<forall>s. agrees m (range_of ptr (tysize p ty) \<union> (own st' - own st)) st' s \<longrightarrow>
           read_value ty opts p s m ptr = Inr v)"
  using write_value_ok [OF assms(1-5)] assms(6)
  by (cases r) (auto simp: achieves_def alloc_errors_def stores_def extends_def)

theorem memory_round_trip_witness:
  "\<exists>st'. write_value guest_value (VType 2) (guest_options (Some CompactUtf16)) guest_program 0 (guest_store 72 32)
       = (Inr (), st') \<and>
     read_value (VType 2) (guest_options (Some CompactUtf16)) guest_program st' guest_memory 0 = Inr guest_value"
proof -
  let ?st = "guest_store 72 32" and ?opts = "guest_options (Some CompactUtf16)"
  obtain st' where run: "write_value guest_value (VType 2) ?opts guest_program 0 ?st = (Inr (), st')"
  proof -
    have "fst (write_value guest_value (VType 2) ?opts guest_program 0 ?st) = Inr ()" by code_simp
    with that show ?thesis by (metis prod.collapse)
  qed
  have sz: "tysize guest_program (VType 2) = 32" by (simp only: tysize_def guest_record_layout) simp
  have area: "range_of 0 (tysize guest_program (VType 2)) \<subseteq> bump_own guest_memory ?st"
    by (rule guest_owns) (simp_all add: sz)
  note rt = memory_round_trip [OF guest_callable guest_small guest_has_type guest_valid area run]
  from rt have "valid_mem guest_memory st'" by simp
  then have "agrees guest_memory X st' st'" for X by (simp add: agrees_def)
  with rt run show ?thesis by auto
qed

end
