(* ===== verification/Canonical_Flat.thy ===== *)
theory Canonical_Flat
  imports Memory_Round_Trip
begin

text \<open>
  Values through the flat representation: lowering a value gives core values of the flat types of
  its type, and lifting them gives the value back.
\<close>

section \<open>Core values and their types\<close>

definition vt_of :: "wasm_value \<Rightarrow> valtype" where
  "vt_of v =
     (case v of
        WI32 _ \<Rightarrow> I32 | WI64 _ \<Rightarrow> I64 | WF32 _ \<Rightarrow> F32 | WF64 _ \<Rightarrow> F64
      | WFuncRef _ \<Rightarrow> FuncRef | WExternRef _ \<Rightarrow> ExternRef | WV128 _ \<Rightarrow> V128)"

lemma vt_of_simps [simp]:
  "vt_of (WI32 a) = I32" "vt_of (WI64 b) = I64" "vt_of (WF32 a) = F32" "vt_of (WF64 b) = F64"
  by (simp_all add: vt_of_def)

lemma vt_of_iff [simp]:
  "vt_of x = I32 \<longleftrightarrow> (\<exists>w. x = WI32 w)" "vt_of x = I64 \<longleftrightarrow> (\<exists>w. x = WI64 w)"
  "vt_of x = F32 \<longleftrightarrow> (\<exists>w. x = WF32 w)" "vt_of x = F64 \<longleftrightarrow> (\<exists>w. x = WF64 w)"
  by (cases x; simp add: vt_of_def)+

text \<open>A value survives the coercion to a type that carries its own, and back.\<close>

lemma ucast_ucast_32 [simp]: "ucast (ucast (w :: u32) :: u64) = w"
  by (rule bit_word_eqI) (auto simp: bit_simps)

lemma coerce_back:
  assumes "carries (vt_of x) b" "flat_val (vt_of x)"
  obtains y where "coerce_flat_value x (vt_of x) b = Inr y" "vt_of y = b"
    "coerce_flat_value y b (vt_of x) = Inr x"
  using assms that by (cases x) (auto simp: carries_def flat_val_def coerce_flat_value_def vt_of_def)

definition fits_into :: "valtype list \<Rightarrow> valtype list \<Rightarrow> bool" where
  "fits_into xs ys \<longleftrightarrow> length xs \<le> length ys \<and> (\<forall>i < length xs. carries (xs ! i) (ys ! i))"

lemma fits_into_refl: "fits_into xs xs"
  by (simp add: fits_into_def)

lemma fits_into_trans: "fits_into xs ys \<Longrightarrow> fits_into ys zs \<Longrightarrow> fits_into xs zs"
  by (auto simp: fits_into_def intro: carries_trans)

lemma fits_into_join:
  assumes "list_all flat_val xs" "list_all flat_val ys"
  shows "fits_into xs (zip_join join_component_flat_types xs ys)"
    "fits_into ys (zip_join join_component_flat_types xs ys)"
    "list_all flat_val (zip_join join_component_flat_types xs ys)"
  using assms by (auto simp: fits_into_def zip_join_nth list_all_length carries_join)

lemma payload_fold_fits:
  assumes "rfold (\<lambda>c payload. case cs_ty c of None \<Rightarrow> Inr payload
         | Some ty \<Rightarrow> rbind (flat_types_for_valtype rec ty) (\<lambda>flat.
               Inr (merge_flat join_component_flat_types payload flat))) cases acc = Inr pt"
    and "\<And>c ty fl. c \<in> set cases \<Longrightarrow> cs_ty c = Some ty \<Longrightarrow> flat_types_for_valtype rec ty = Inr fl \<Longrightarrow>
      list_all flat_val fl"
    and "list_all flat_val acc"
  shows "fits_into acc pt \<and> list_all flat_val pt \<and>
    (\<forall>c ty. c \<in> set cases \<longrightarrow> cs_ty c = Some ty \<longrightarrow>
      (\<exists>fl. flat_types_for_valtype rec ty = Inr fl \<and> fits_into fl pt))"
  using assms
proof (induction cases arbitrary: acc)
  case (Cons c cases)
  show ?case
  proof (cases "cs_ty c")
    case None
    have "fits_into acc pt \<and> list_all flat_val pt \<and>
        (\<forall>c ty. c \<in> set cases \<longrightarrow> cs_ty c = Some ty \<longrightarrow>
          (\<exists>fl. flat_types_for_valtype rec ty = Inr fl \<and> fits_into fl pt))"
      by (rule Cons.IH) (use Cons.prems None in auto)
    with None show ?thesis by auto
  next
    case (Some ty)
    with Cons.prems(1) obtain fl where fl: "flat_types_for_valtype rec ty = Inr fl"
      and rest: "rfold (\<lambda>c payload. case cs_ty c of None \<Rightarrow> Inr payload
         | Some ty \<Rightarrow> rbind (flat_types_for_valtype rec ty) (\<lambda>flat.
               Inr (merge_flat join_component_flat_types payload flat))) cases
           (zip_join join_component_flat_types acc fl) = Inr pt"
      by (auto simp: res_simps merge_flat_zip_join)
    have v: "list_all flat_val fl" using Cons.prems(2) [of c ty fl] Some fl by simp
    note j = fits_into_join [OF Cons.prems(3) v]
    have "fits_into (zip_join join_component_flat_types acc fl) pt \<and> list_all flat_val pt \<and>
        (\<forall>c ty. c \<in> set cases \<longrightarrow> cs_ty c = Some ty \<longrightarrow>
          (\<exists>fl. flat_types_for_valtype rec ty = Inr fl \<and> fits_into fl pt))"
      by (rule Cons.IH [OF rest _ j(3)]) (use Cons.prems(2) in auto)
    with fits_into_trans [OF j(1)] fits_into_trans [OF j(2)] Some fl show ?thesis by auto
  qed
qed (simp add: fits_into_refl)

lemma record_fold_vals:
  assumes "rfold (\<lambda>f types. rbind (flat_types_for_valtype rec (fl_ty f)) (\<lambda>flat. Inr (types @ flat))) fs acc = Inr fl"
    and "\<And>f t. f \<in> set fs \<Longrightarrow> flat_types_for_valtype rec (fl_ty f) = Inr t \<Longrightarrow> list_all flat_val t"
    and "list_all flat_val acc"
  shows "list_all flat_val fl"
  using assms
proof (induction fs arbitrary: acc)
  case (Cons f fs)
  from Cons.prems(1) obtain t where t: "flat_types_for_valtype rec (fl_ty f) = Inr t"
    and rest: "rfold (\<lambda>f types. rbind (flat_types_for_valtype rec (fl_ty f)) (\<lambda>flat. Inr (types @ flat))) fs (acc @ t) = Inr fl"
    by (auto simp: res_simps)
  show ?case by (rule Cons.IH [OF rest]) (use Cons.prems t in auto)
qed simp

lemma flat_val_primitive: "list_all flat_val (flat_types_for_primitive prim)"
  by (cases prim) (simp_all add: flat_types_for_primitive_def flat_val_def)

lemma flat_val_words: "list_all flat_val (replicate n I32)" "flat_val I32"
  by (simp_all add: list_all_length flat_val_def)

lemma flat_types_vals:
  "flat_types_for_valtype (flat_types_for_type n p) ty = Inr fl \<Longrightarrow> list_all flat_val fl"
proof (induction n arbitrary: ty fl)
  case 0
  then show ?case by (cases ty) (auto simp: flat_types_for_valtype_def flat_val_primitive)
next
  case (Suc n)
  show ?case
  proof (cases ty)
    case (VPrim prim)
    with Suc.prems show ?thesis by (auto simp: flat_types_for_valtype_def flat_val_primitive)
  next
    case (VType i)
    have r: "list_all flat_val fl" if "flat_types_for_defval (flat_types_for_type n p) d = Inr fl" for d
    proof (cases d)
      case (DRecord fs)
      with that have "rfold (\<lambda>f types. rbind (flat_types_for_valtype (flat_types_for_type n p) (fl_ty f))
          (\<lambda>flat. Inr (types @ flat))) fs [] = Inr fl"
        by (simp add: flat_types_for_defval_def)
      then show ?thesis by (rule record_fold_vals [OF _ Suc.IH]) auto
    next
      case (DVariant cases)
      with that obtain pt where "variant_payload_flat_types (flat_types_for_type n p) cases = Inr pt" "fl = I32 # pt"
        by (auto simp: flat_types_for_defval_def res_simps)
      with payload_fold_fits [of "flat_types_for_type n p" cases "[]" pt] Suc.IH show ?thesis
        by (simp add: variant_payload_flat_types_def flat_val_def)
    qed (use that in \<open>auto simp: flat_types_for_defval_def flat_val_primitive flat_val_words\<close>)
    from VType Suc.prems obtain t where "get_type p i = Some t" "(case t of
         TDefVal def \<Rightarrow> flat_types_for_defval (flat_types_for_type n p) def
       | TResource _ \<Rightarrow> Inr [I32] | TGeneric _ \<Rightarrow> Inr [I32]
       | _ \<Rightarrow> Inl (Unsupported ''flat types for this component type are not implemented yet'')) = Inr fl"
      by (auto simp: flat_types_for_valtype_def res_simps)
    then show ?thesis by (cases t) (auto simp: r flat_val_words)
  qed
qed

lemma flat_types_unfold:
  assumes "compiled p" "i < length (pr_types p)"
  shows "flat_types p (VType i) =
    (case pr_types p ! i of
       TDefVal def \<Rightarrow> flat_types_for_defval (flat_types_for_type (type_depth p) p) def
     | TResource _ \<Rightarrow> Inr [I32]
     | TGeneric _ \<Rightarrow> Inr [I32]
     | _ \<Rightarrow> Inl (Unsupported ''flat types for this component type are not implemented yet''))"
proof -
  have "flat_types_for_type (Suc (type_depth p)) p i = flat_types_for_type (type_depth p) p i"
    by (rule flat_types_for_type_mono [OF compiled_infos(1) [OF assms]]) simp
  then show ?thesis using assms(2)
    by (simp add: flat_types_def flat_types_for_valtype_def get_type_def get_idx_def)
qed

section \<open>Lifting\<close>

text \<open>\<open>lifts act flat v\<close>: on a cursor in front of \<open>flat\<close> the action consumes exactly \<open>flat\<close> and
  gives \<open>v\<close>.\<close>

definition lifts :: "'a cursor_action \<Rightarrow> wasm_value list \<Rightarrow> 'a \<Rightarrow> bool" where
  "lifts act flat v \<longleftrightarrow>
     (\<forall>pre post. act \<lparr>cu_values = pre @ flat @ post, cu_offset = length pre\<rparr> =
        (Inr v, \<lparr>cu_values = pre @ flat @ post, cu_offset = length pre + length flat\<rparr>))"

lemma lifts_ret: "lifts (aret v) [] v"
  by (simp add: lifts_def)

lemma lifts_bind:
  assumes "lifts act xs a" "lifts (k a) ys v"
  shows "lifts (abind act k) (xs @ ys) v"
  unfolding lifts_def
proof (intro allI)
  fix pre post
  from assms(1) have 1: "act \<lparr>cu_values = pre @ (xs @ ys) @ post, cu_offset = length pre\<rparr> =
      (Inr a, \<lparr>cu_values = pre @ (xs @ ys) @ post, cu_offset = length pre + length xs\<rparr>)"
    by (simp add: lifts_def)
  from assms(2) [unfolded lifts_def, rule_format, of "pre @ xs" post]
  show "abind act k \<lparr>cu_values = pre @ (xs @ ys) @ post, cu_offset = length pre\<rparr> =
      (Inr v, \<lparr>cu_values = pre @ (xs @ ys) @ post, cu_offset = length pre + length (xs @ ys)\<rparr>)"
    using 1 by (simp add: abind_def add.assoc)
qed

lemma lifts_bind_ret: "lifts act xs a \<Longrightarrow> lifts (abind act (\<lambda>a. aret (g a))) xs (g a)"
  by (simp add: lifts_def abind_def)

lemma lifts_next: "lifts cursor_next [x] x"
  by (simp add: lifts_def cursor_next_def get_idx_def nth_append)

lemma lifts_scalars:
  "lifts next_i32 [WI32 w] w" "lifts next_i64 [WI64 b] b" "lifts next_f32 [WF32 w] w" "lifts next_f64 [WF64 b] b"
  by (simp_all add: next_i32_def next_i64_def next_f32_def next_f64_def lifts_def abind_def cursor_next_def
      get_idx_def nth_append)

lemma lifts_for_type: "flat_val (vt_of x) \<Longrightarrow> lifts (next_for_type (vt_of x)) [x] x"
  by (cases x) (simp_all add: next_for_type_def lifts_def abind_def cursor_next_def get_idx_def nth_append
      flat_val_def vt_of_def)

lemma lifts_amap:
  assumes "list_all2 (\<lambda>x (fl, v). lifts (g x) fl v) xs fvs"
  shows "lifts (amap g xs) (concat (map fst fvs)) (map snd fvs)"
  using assms
proof (induction xs fvs rule: list_all2_induct)
  case (Cons x xs fv fvs)
  obtain fl v where fv: "fv = (fl, v)" by (cases fv)
  have "lifts (abind (amap g xs) (\<lambda>ys. aret (v # ys))) (concat (map fst fvs)) (v # map snd fvs)"
    by (rule lifts_bind_ret) (rule Cons.IH)
  with lifts_bind Cons.hyps(1) fv show ?case by fastforce
qed (simp add: lifts_ret del: action_simps)

section \<open>What lowering to flat values promises\<close>

text \<open>\<open>flat_of p ty li s flat v\<close>: the flat values have the flat types of \<open>ty\<close> and lift to \<open>v\<close>.\<close>

definition flat_of :: "valtype list \<Rightarrow> component_value cursor_action \<Rightarrow> component_value \<Rightarrow> wasm_value list \<Rightarrow> bool" where
  "flat_of tys li v flat \<longleftrightarrow> map vt_of flat = tys \<and> lifts li flat v"

definition flattens ::
  "core_export_ref \<Rightarrow> ('g store \<Rightarrow> nat set) \<Rightarrow> 'g core_func \<Rightarrow> program \<Rightarrow> conformance \<Rightarrow>
   'g lowerer \<Rightarrow> ('g store \<Rightarrow> lifter) \<Rightarrow> bool" where
  "flattens m own f p cf lo li \<longleftrightarrow>
     (\<forall>v i tys st. cf v i \<longrightarrow> flat_types p (VType i) = Inr tys \<longrightarrow> valid_mem m st \<longrightarrow>
        achieves m own f {} (lo v i) (\<lambda>flat s. flat_of tys (li s i) v flat) st)"

lemmas lift_eval = lifts_def abind_def next_i32_def next_i64_def next_f32_def next_f64_def cursor_next_def
  get_idx_def nth_append

lemma lift_prims:
  "flat_of [I32] (lift_primitive PBool opts s) (CBool True) [WI32 1]"
  "flat_of [I32] (lift_primitive PBool opts s) (CBool False) [WI32 0]"
  "flat_of [I32] (lift_primitive PS8 opts s) (CS8 b8) [WI32 (scast b8)]"
  "flat_of [I32] (lift_primitive PU8 opts s) (CU8 b8) [WI32 (ucast b8)]"
  "flat_of [I32] (lift_primitive PS16 opts s) (CS16 b16) [WI32 (scast b16)]"
  "flat_of [I32] (lift_primitive PU16 opts s) (CU16 b16) [WI32 (ucast b16)]"
  "flat_of [I32] (lift_primitive PS32 opts s) (CS32 w) [WI32 w]"
  "flat_of [I32] (lift_primitive PU32 opts s) (CU32 w) [WI32 w]"
  "flat_of [I64] (lift_primitive PS64 opts s) (CS64 d) [WI64 d]"
  "flat_of [I64] (lift_primitive PU64 opts s) (CU64 d) [WI64 d]"
  "flat_of [F32] (lift_primitive PF32 opts s) (CF32 w) [WF32 w]"
  "flat_of [F64] (lift_primitive PF64 opts s) (CF64 d) [WF64 d]"
  "is_scalar w \<Longrightarrow> flat_of [I32] (lift_primitive PChar opts s) (CChar w) [WI32 w]"
  by (simp_all add: flat_of_def lift_primitive_def char_from_u32_def lift_eval)

lemma lower_primitive_ok:
  assumes "callable m own f opts" "valid_mem m st" "conforms_prim prim v"
  shows "achieves m own f {} (lower_primitive v prim opts)
    (\<lambda>flat s. flat_of (flat_types_for_primitive prim) (lift_primitive prim opts s) v flat) st"
proof (cases "prim = PString")
  case False
  then show ?thesis
    using assms(2,3)
    by (cases prim)
      (auto simp: conforms_prim_def lower_primitive_def flat_types_for_primitive_def
        expect_bool_def expect_i32_def expect_u32_def expect_i64_def expect_u64_def expect_f32_def expect_f64_def
        expect_char_def as_bool_def as_i32_def as_u32_def lift_prims
        simp del: action_simps split: component_value.splits intro!: achieves_ret)
next
  case True
  with assms(3) obtain s where v: "v = CString s" "storable s"
    by (auto simp: conforms_prim_def split: component_value.splits)
  have req: "require_memory opts = Inr m" using assms(1) by (auto simp: callable_def require_memory_def)
  have "flat_of [I32, I32] (lift_primitive PString opts s') (CString s) flat" if "string_at m opts s flat s'" for flat s'
    using that by (auto simp: string_at_def flat_of_def lift_primitive_def req lift_eval)
  with True v(1) show ?thesis
    by (simp add: lower_primitive_def flat_types_for_primitive_def)
      (rule achieves_mono [OF lower_string_ok [OF assms(1,2) v(2)] subset_refl], blast)
qed

lemma flattens_valtype:
  assumes "callable m own f opts" "flattens m own f p cf lo li" "conforms_val cf v ty"
    and "flat_types p ty = Inr tys" "valid_mem m st"
  shows "achieves m own f {} (lower_value_to_flat lo v ty opts)
    (\<lambda>flat s. flat_of tys (lift_value (li s) ty opts s) v flat) st"
proof (cases ty)
  case (VPrim prim)
  with assms lower_primitive_ok [OF assms(1,5), of prim v] show ?thesis
    by (simp add: conforms_val_def lower_value_to_flat_def lift_value_def flat_types_def flat_types_for_valtype_def)
next
  case (VType i)
  with assms show ?thesis
    by (simp add: flattens_def conforms_val_def lower_value_to_flat_def lift_value_def)
qed

section \<open>Records\<close>

abbreviation add_flat_field where
  "add_flat_field p g \<equiv> \<lambda>f types. rbind (flat_types_for_valtype (flat_types_for_type (type_depth p) p) (g f))
     (\<lambda>flat. Inr (types @ flat))"

lemma lower_fields_ok:
  assumes "callable m own f opts" "flattens m own f p cf lo li" "list_all2 (\<lambda>x f. conforms_val cf x (g f)) vs fs"
    and "rfold (add_flat_field p g) fs tacc = Inr tys" "valid_mem m st"
  shows "achieves m own f {} (afold (\<lambda>(x, f) lowered.
      abind (lower_value_to_flat lo x (g f) opts) (\<lambda>flat. aret (lowered @ flat))) (zip vs fs) acc)
    (\<lambda>flat s. \<exists>rest. flat = acc @ rest \<and> tys = tacc @ map vt_of rest \<and>
       lifts (amap (\<lambda>f. lift_value (li s) (g f) opts s) fs) rest vs) st"
  using assms(3-5)
proof (induction vs fs arbitrary: acc tacc st rule: list_all2_induct)
  case Nil
  have "achieves m own f {} (aret acc) (\<lambda>flat s. \<exists>rest. flat = acc @ rest \<and> tys = tacc @ map vt_of rest \<and>
       lifts (amap (\<lambda>f. lift_value (li s) (g f) opts s) []) rest []) st"
    by (rule achieves_ret) (use Nil in \<open>auto simp: lifts_ret simp del: action_simps\<close>)
  then show ?case by (simp del: action_simps)
next
  case (Cons x vs fd fs)
  from Cons.prems(1) obtain t where t: "flat_types p (g fd) = Inr t"
    and rest: "rfold (add_flat_field p g) fs (tacc @ t) = Inr tys"
    by (auto simp: flat_types_def res_simps)
  let ?li = "\<lambda>s fd. lift_value (li s) (g fd) opts s"
  let ?go = "afold (\<lambda>(x, f) lowered.
      abind (lower_value_to_flat lo x (g f) opts) (\<lambda>flat. aret (lowered @ flat))) (zip vs fs)"
  have "achieves m own f {} (lower_value_to_flat lo x (g fd) opts)
      (\<lambda>flat s. flat_of t (?li s fd) x flat) st"
    by (rule flattens_valtype [OF assms(1,2) Cons.hyps(1) t Cons.prems(2)])
  then have 1: "achieves m own f {} (abind (lower_value_to_flat lo x (g fd) opts) (\<lambda>flat. aret (acc @ flat)))
      (\<lambda>a s. \<exists>flat. a = acc @ flat \<and> flat_of t (?li s fd) x flat) st"
    by (rule achieves_bind_ret) auto
  have "achieves m own f {} (abind (abind (lower_value_to_flat lo x (g fd) opts) (\<lambda>flat. aret (acc @ flat))) ?go)
      (\<lambda>flat s. \<exists>rest. flat = acc @ rest \<and> tys = tacc @ map vt_of rest \<and>
         lifts (amap (?li s) (fd # fs)) rest (x # vs)) st"
  proof (rule achieves_bind_fresh [OF 1])
    fix a st1 assume "stores m own {} (\<lambda>s. \<exists>flat. a = acc @ flat \<and> flat_of t (?li s fd) x flat) st st1"
    with Cons.IH [OF rest] storesD show "achieves m own f {} (?go a)
        (\<lambda>flat s. \<exists>rest. flat = a @ rest \<and> tys = (tacc @ t) @ map vt_of rest \<and>
           lifts (amap (?li s) fs) rest vs) st1"
      by blast
  next
    fix a b s
    assume "\<exists>flat. a = acc @ flat \<and> flat_of t (?li s fd) x flat"
      and "\<exists>rest. b = a @ rest \<and> tys = (tacc @ t) @ map vt_of rest \<and> lifts (amap (?li s) fs) rest vs"
    then obtain flat rest where h: "a = acc @ flat" "map vt_of flat = t" "lifts (?li s fd) flat x"
      "b = a @ rest" "tys = (tacc @ t) @ map vt_of rest" "lifts (amap (?li s) fs) rest vs"
      by (auto simp: flat_of_def)
    have "lifts (amap (?li s) (fd # fs)) (flat @ rest) (x # vs)"
      by (simp del: action_simps) (rule lifts_bind [OF h(3) lifts_bind_ret [OF h(6)]])
    with h show "\<exists>rest. b = acc @ rest \<and> tys = tacc @ map vt_of rest \<and>
        lifts (amap (?li s) (fd # fs)) rest (x # vs)"
      by (intro exI [of _ "flat @ rest"]) simp
  qed simp
  then show ?case by (simp del: action_simps)
qed

lemma lower_record_ok:
  assumes "callable m own f opts" "flattens m own f p cf lo li" "conforms_record cf fs v"
    and "flat_types_for_defval (flat_types_for_type (type_depth p) p) (DRecord fs) = Inr tys" "valid_mem m st"
  shows "achieves m own f {} (lower_record_value lo v fs opts)
    (\<lambda>flat s. flat_of tys (lift_record_value (li s) fs opts s) v flat) st"
proof -
  obtain vs where vs: "record_field_values fs v = Inr vs" "conforms_fields cf fs vs" "record_of fs vs = v"
    by (rule conforms_record_values [OF assms(3)])
  have "rfold (add_flat_field p fl_ty) fs [] = Inr tys" using assms(4) by (simp add: flat_types_for_defval_def)
  note fields_ok = lower_fields_ok [OF assms(1,2) vs(2) [unfolded conforms_fields_def] this assms(5), of "[]"]
  have "lower_record_value lo v fs opts = afold (\<lambda>(x, f) lowered.
      abind (lower_value_to_flat lo x (fl_ty f) opts) (\<lambda>flat. aret (lowered @ flat))) (zip vs fs) []"
    by (simp add: lower_record_value_def vs(1))
  moreover have "flat_of tys (lift_record_value (li s) fs opts s) v flat"
    if "tys = map vt_of flat" "lifts (amap (\<lambda>f. lift_value (li s) (fl_ty f) opts s) fs) flat vs" for s flat
    using lifts_bind_ret [OF that(2), of "record_of fs"] that(1) vs(3) by (simp add: flat_of_def lift_record_value_def)
  ultimately show ?thesis by (simp only:) (rule achieves_mono [OF fields_ok], auto)
qed

section \<open>Variants\<close>

lemma coerce_payload:
  assumes "fits_into (map vt_of flat) pt" "list_all flat_val (map vt_of flat)" "list_all flat_val pt"
  obtains rest where
    "rmap (\<lambda>(index, payload_ty).
         case get_idx flat index of
           Some x \<Rightarrow> rbind (index_or_panic (map vt_of flat) index) (\<lambda>ty. coerce_flat_value x ty payload_ty)
         | None \<Rightarrow> Inr (zero_wasm_value payload_ty)) (enumerate 0 pt) = Inr rest"
    "map vt_of rest = pt"
    "rmap (\<lambda>(index, expected).
         rbind (index_or_panic rest index) (\<lambda>x.
         rbind (index_or_panic pt index) (\<lambda>ty. coerce_flat_value x ty expected))) (enumerate 0 (map vt_of flat)) = Inr flat"
proof -
  let ?c = "\<lambda>i y. (if i < length flat then coerce_flat_value (flat ! i) (vt_of (flat ! i)) (pt ! i) = Inr y \<and>
      coerce_flat_value y (pt ! i) (vt_of (flat ! i)) = Inr (flat ! i) else y = zero_wasm_value (pt ! i)) \<and>
      vt_of y = pt ! i"
  have "\<exists>y. ?c i y" if "i < length pt" for i
  proof (cases "i < length flat")
    case True
    with assms have "carries (vt_of (flat ! i)) (pt ! i)" "flat_val (vt_of (flat ! i))"
      by (auto simp: fits_into_def list_all_length)
    from coerce_back [OF this] True show ?thesis by metis
  next
    case False
    have "flat_val (pt ! i)" using assms(3) that by (auto simp: list_all_length)
    with False show ?thesis by (auto simp: zero_wasm_value_def flat_val_def)
  qed
  then obtain y where y: "\<And>i. i < length pt \<Longrightarrow> ?c i (y i)" by metis
  have len: "length flat \<le> length pt" using assms(1) by (simp add: fits_into_def)
  show ?thesis
  proof (rule that [of "map y [0..<length pt]"])
    show "map vt_of (map y [0..<length pt]) = pt" using y by (auto intro: nth_equalityI)
    show "rmap (\<lambda>(index, payload_ty).
         case get_idx flat index of
           Some x \<Rightarrow> rbind (index_or_panic (map vt_of flat) index) (\<lambda>ty. coerce_flat_value x ty payload_ty)
         | None \<Rightarrow> Inr (zero_wasm_value payload_ty)) (enumerate 0 pt) = Inr (map y [0..<length pt])"
      using y by (auto simp: rmap_Inr_iff nth_enumerate_eq get_idx_def index_or_panic_def)
    show "rmap (\<lambda>(index, expected).
         rbind (index_or_panic (map y [0..<length pt]) index) (\<lambda>x.
         rbind (index_or_panic pt index) (\<lambda>ty. coerce_flat_value x ty expected)))
           (enumerate 0 (map vt_of flat)) = Inr flat"
      using y len by (auto simp: rmap_Inr_iff nth_enumerate_eq get_idx_def index_or_panic_def)
  qed
qed

lemma lifts_payload:
  assumes "list_all flat_val (map vt_of rest)"
  shows "lifts (amap next_for_type (map vt_of rest)) rest rest"
proof -
  have "list_all2 (\<lambda>ty (fl, v). lifts (next_for_type ty) fl v) (map vt_of rest) (map (\<lambda>x. ([x], x)) rest)"
    using assms by (simp add: list_all2_conv_all_nth list_all_length lifts_for_type)
  from lifts_amap [OF this] show ?thesis by (simp add: comp_def concat_map_singleton)
qed

text \<open>Lifting the lowered variant: the discriminant selects the case, the payload is coerced back.\<close>

lemma lift_variant_ok:
  assumes "k < length cases" "length cases \<le> 2 ^ 31"
    and "variant_payload_flat_types (flat_types_for_type (type_depth p) p) cases = Inr pt"
    and "map vt_of rest = pt" "list_all flat_val pt"
    and "case cs_ty (cases ! k) of
        None \<Rightarrow> payload = None
      | Some ty \<Rightarrow> \<exists>x flat. payload = Some x \<and> flat_types p ty = Inr (map vt_of flat) \<and>
          rmap (\<lambda>(index, expected). rbind (index_or_panic rest index) (\<lambda>x.
             rbind (index_or_panic pt index) (\<lambda>ty. coerce_flat_value x ty expected)))
            (enumerate 0 (map vt_of flat)) = Inr flat \<and>
          lifts (lift_value rec ty opts s) flat x"
  shows "lifts (lift_variant_value rec cases opts p s) (WI32 (of_nat k) # rest)
    (variant_of cases (cases ! k) payload)"
proof -
  have k: "unat (scast (of_nat k :: u32) :: u64) = k" by (rule sext_index) (use assms(1,2) in simp)
  have from_flat: "lift_value_from_flat_values rec ty opts s flat = Inr x" if "lifts (lift_value rec ty opts s) flat x" for ty flat x
    using that [unfolded lifts_def, rule_format, of "[]" "[]"]
    by (simp add: lift_value_from_flat_values_def cursor_new_def)
  have "lifts (amap next_for_type pt) rest rest" using lifts_payload [of rest] assms(4,5) by simp
  moreover have "lifts (abind (case cs_ty (cases ! k) of
              Some ty \<Rightarrow>
                abind (alift (flat_types p ty)) (\<lambda>expected_types.
                abind (alift (rmap (\<lambda>(index, expected).
                    rbind (index_or_panic rest index) (\<lambda>x.
                    rbind (index_or_panic pt index) (\<lambda>ty. coerce_flat_value x ty expected)))
                  (enumerate 0 expected_types))) (\<lambda>values.
                abind (alift (lift_value_from_flat_values rec ty opts s values)) (\<lambda>x. aret (Some x))))
            | None \<Rightarrow> aret None)
     (\<lambda>payload. aret (variant_of cases (cases ! k) payload))) [] (variant_of cases (cases ! k) payload)"
    using assms(6) by (auto simp: from_flat split: option.splits intro!: lifts_ret simp del: action_simps)
  ultimately have "lifts (abind (amap next_for_type pt) (\<lambda>raw_payload.
     abind (case cs_ty (cases ! k) of
              Some ty \<Rightarrow>
                abind (alift (flat_types p ty)) (\<lambda>expected_types.
                abind (alift (rmap (\<lambda>(index, expected).
                    rbind (index_or_panic raw_payload index) (\<lambda>x.
                    rbind (index_or_panic pt index) (\<lambda>ty. coerce_flat_value x ty expected)))
                  (enumerate 0 expected_types))) (\<lambda>values.
                abind (alift (lift_value_from_flat_values rec ty opts s values)) (\<lambda>x. aret (Some x))))
            | None \<Rightarrow> aret None)
     (\<lambda>payload. aret (variant_of cases (cases ! k) payload)))) (rest @ []) (variant_of cases (cases ! k) payload)"
    by (rule lifts_bind)
  then have "lifts (lift_variant_value rec cases opts p s) ([WI32 (of_nat k)] @ rest)
      (variant_of cases (cases ! k) payload)"
    unfolding lift_variant_value_def
    by (intro lifts_bind [OF lifts_scalars(1)]) (simp add: Let_def k get_idx_def assms(1,3))
  then show ?thesis by simp
qed

lemma lower_variant_ok:
  assumes "callable m own f opts" "flattens m own f p cf lo li" "conforms_variant cf cases v"
    and "flat_types_for_defval (flat_types_for_type (type_depth p) p) (DVariant cases) = Inr tys" "valid_mem m st"
  shows "achieves m own f {} (lower_variant_value lo v cases opts p)
    (\<lambda>flat s. flat_of tys (lift_variant_value (li s) cases opts p s) v flat) st"
proof -
  obtain cn payload k where parts: "variant_parts cases v = Inr (cn, payload)"
    "case_index_of cases cn = Inr k" "k < length cases" "length cases \<le> 2 ^ 31"
    "case cs_ty (cases ! k) of
       None \<Rightarrow> v = variant_of cases (cases ! k) None \<and> \<not> unexpected_payload cases payload
     | Some ty \<Rightarrow> (\<exists>x. payload = Some x \<and> v = variant_of cases (cases ! k) (Some x) \<and> conforms_val cf x ty)"
    by (rule conforms_variant_parts [OF assms(3)])
  from assms(4) obtain pt where pt: "variant_payload_flat_types (flat_types_for_type (type_depth p) p) cases = Inr pt"
    "tys = I32 # pt" by (auto simp: flat_types_for_defval_def res_simps)
  from payload_fold_fits [OF pt(1) [unfolded variant_payload_flat_types_def] flat_types_vals]
  have fit: "list_all flat_val pt" "\<And>c ty. c \<in> set cases \<Longrightarrow> cs_ty c = Some ty \<Longrightarrow>
      \<exists>fl. flat_types p ty = Inr fl \<and> fits_into fl pt"
    by (auto simp: flat_types_def)
  show ?thesis
  proof (cases "cs_ty (cases ! k)")
    case None
    obtain rest where rest: "rmap (\<lambda>(index, payload_ty).
         case get_idx [] index of
           Some x \<Rightarrow> rbind (index_or_panic (map vt_of []) index) (\<lambda>ty. coerce_flat_value x ty payload_ty)
         | None \<Rightarrow> Inr (zero_wasm_value payload_ty)) (enumerate 0 pt) = Inr rest" "map vt_of rest = pt"
      by (rule coerce_payload [of "[]" pt]) (use fit in \<open>auto simp: fits_into_def\<close>)
    have "flat_of tys (lift_variant_value (li s) cases opts p s) v (WI32 (of_nat k) # rest)" for s
      using lift_variant_ok [OF parts(3,4) pt(1) rest(2) fit(1), of None "li s" opts s] None parts(5) pt(2) rest(2)
      by (simp add: flat_of_def)
    then have "achieves m own f {} (aret (WI32 (of_nat k) # rest))
        (\<lambda>flat s. flat_of tys (lift_variant_value (li s) cases opts p s) v flat) st"
      by (rule achieves_ret [OF assms(5)])
    with None parts pt(1) rest(1) [unfolded list.map] show ?thesis
      by (simp add: lower_variant_value_def del: action_simps)
  next
    case (Some ty)
    with parts(5) obtain x where x: "payload = Some x" "v = variant_of cases (cases ! k) (Some x)" "conforms_val cf x ty"
      by auto
    from fit(2) [of "cases ! k" ty] Some parts(3) obtain fl where fl: "flat_types p ty = Inr fl" "fits_into fl pt"
      by auto
    have vals: "list_all flat_val fl" using flat_types_vals fl(1) unfolding flat_types_def .
    let ?coerce = "\<lambda>flat. rmap (\<lambda>(index, payload_ty).
         case get_idx flat index of
           Some x \<Rightarrow> rbind (index_or_panic fl index) (\<lambda>ty. coerce_flat_value x ty payload_ty)
         | None \<Rightarrow> Inr (zero_wasm_value payload_ty)) (enumerate 0 pt)"
    have run: "lower_variant_value lo v cases opts p =
        abind (lower_value_to_flat lo x ty opts) (\<lambda>flat.
          abind (alift (?coerce flat)) (\<lambda>rest. aret (WI32 (of_nat k) # rest)))"
      using Some parts(1,2) pt(1) x(1) fl(1) by (simp add: lower_variant_value_def abind_assoc del: action_simps)
    show ?thesis unfolding run
    proof (rule achieves_bind_fresh [OF flattens_valtype [OF assms(1,2) x(3) fl(1) assms(5)]])
      fix flat st1
      assume h: "stores m own {} (\<lambda>s. flat_of fl (lift_value (li s) ty opts s) x flat) st st1"
      from stores_now [OF this] have ft: "map vt_of flat = fl" by (simp add: flat_of_def)
      obtain rest where rest: "?coerce flat = Inr rest" "map vt_of rest = pt"
        "rmap (\<lambda>(index, expected). rbind (index_or_panic rest index) (\<lambda>x.
           rbind (index_or_panic pt index) (\<lambda>ty. coerce_flat_value x ty expected))) (enumerate 0 fl) = Inr flat"
        by (rule coerce_payload [of flat pt]) (use fl vals fit ft in auto)
      have "achieves m own f {} (aret (WI32 (of_nat k) # rest))
          (\<lambda>r s. flat_of fl (lift_value (li s) ty opts s) x flat \<longrightarrow>
             flat_of tys (lift_variant_value (li s) cases opts p s) v r) st1"
      proof (rule achieves_ret)
        show "valid_mem m st1" using storesD [OF h] by simp
        fix s
        show "flat_of fl (lift_value (li s) ty opts s) x flat \<longrightarrow>
            flat_of tys (lift_variant_value (li s) cases opts p s) v (WI32 (of_nat k) # rest)"
          using lift_variant_ok [OF parts(3,4) pt(1) rest(2) fit(1), of "Some x" "li s" opts s] Some x fl rest ft pt(2)
          by (auto simp: flat_of_def)
      qed
      with rest(1) show "achieves m own f {}
          (abind (alift (?coerce flat)) (\<lambda>rest. aret (WI32 (of_nat k) # rest)))
          (\<lambda>r s. flat_of fl (lift_value (li s) ty opts s) x flat \<longrightarrow>
             flat_of tys (lift_variant_value (li s) cases opts p s) v r) st1"
        by (simp del: action_simps)
    qed auto
  qed
qed

section \<open>Flags, lists and handles\<close>

lemma alift_Inr: "alift (Inr a) = aret a"
  by (simp add: fun_eq_iff)

lemma lower_flags_flat_ok:
  assumes "conforms_flags labels v" "valid_mem m st"
  shows "achieves m own f {} (alift (lower_flags_value v labels))
    (\<lambda>flat s. flat_of (replicate (div_ceil (length labels) 32) I32) (lift_flags_value labels) v flat) st"
proof -
  obtain words where w: "lower_flags_value v labels = Inr (map WI32 words)"
    "length words = div_ceil (length labels) 32"
    "v = CFlags (concat (map (\<lambda>start. flags_chunk labels start (words ! (start div 32))) (chunk_starts labels)))"
    by (rule conforms_flags_words [OF assms(1)])
  let ?chunk = "\<lambda>start. flags_chunk labels start (words ! (start div 32))"
  let ?fvs = "map (\<lambda>start. ([WI32 (words ! (start div 32))], ?chunk start)) (chunk_starts labels)"
  have "list_all2 (\<lambda>start (fl, c). lifts (abind next_i32 (\<lambda>bits. aret (flags_chunk labels start bits))) fl c)
      (chunk_starts labels) ?fvs"
    by (auto simp: list_all2_conv_all_nth intro!: lifts_bind_ret [OF lifts_scalars(1)])
  from lifts_bind_ret [OF lifts_amap [OF this], of "\<lambda>selected. CFlags (concat selected)"]
  have "lifts (lift_flags_value labels) (concat (map fst ?fvs)) v"
    by (simp add: lift_flags_value_def w(3) comp_def)
  moreover have "concat (map fst ?fvs) = map WI32 words"
  proof -
    have "map ((!) words) [0..<length words] = words" by (rule map_nth)
    then have "map WI32 (map ((!) words) [0..<div_ceil (length labels) 32]) = map WI32 words" by (simp add: w(2))
    then show ?thesis by (simp add: chunk_starts_def comp_def concat_map_singleton)
  qed
  moreover have "map vt_of (map WI32 words) = replicate (div_ceil (length labels) 32) I32"
    using w(2) by (simp add: map_replicate_const comp_def)
  ultimately have "achieves m own f {} (aret (map WI32 words))
      (\<lambda>flat s. flat_of (replicate (div_ceil (length labels) 32) I32) (lift_flags_value labels) v flat) st"
    by (intro achieves_ret [OF assms(2)]) (simp add: flat_of_def)
  then show ?thesis by (simp add: w(1) alift_Inr)
qed

lemma lower_list_flat_ok:
  assumes "callable m own f opts" "small p" "valid_ty p elem" "conforms_list (conforms n p) p elem fixed_len v"
    and "valid_mem m st"
  shows "achieves m own f {}
    (lower_list_value (write_defined_value_to_memory n opts p) v elem fixed_len opts p)
    (\<lambda>flat s. flat_of [I32, I32]
       (lift_list_value (read_defined_value_from_memory n opts p s) elem fixed_len opts p s) v flat) st"
proof -
  have req: "require_memory opts = Inr m" using assms(1) by (auto simp: callable_def require_memory_def)
  have "flat_of [I32, I32] (lift_list_value (read_defined_value_from_memory n opts p s) elem fixed_len opts p s)
      v [WI32 a, WI32 b]"
    if "list_at (read_defined_value_from_memory n opts p s m) elem fixed_len opts p m v a b s" for s a b
    using that by (auto simp: list_at_def flat_of_def lift_list_value_def req lift_eval)
  then show ?thesis
    by (intro achieves_mono [OF lower_list_ok [OF assms(1,2) writes_back_defined [OF assms(1,2)] assms(3-5)]
        subset_refl]) blast
qed

lemma flat_handle: "flat_of [I32] (abind next_i32 (\<lambda>h. aret (g h))) (g h) [WI32 h]"
  by (simp add: flat_of_def lifts_bind_ret lifts_scalars)

section \<open>Every type\<close>

lemma flattens_defined:
  assumes "callable m own f opts" "small p"
  shows "flattens m own f p (conforms n p) (lower_defined_value n opts p) (\<lambda>s. lift_defined_value n opts p s)"
proof (induction n)
  case (Suc n)
  let ?lo = "lower_defined_value n opts p" and ?li = "\<lambda>s. lift_defined_value n opts p s"
  have comp: "compiled p" using assms(2) by (simp add: small_def)
  have "achieves m own f {} (lower_defined_value (Suc n) opts p v i)
      (\<lambda>flat s. flat_of tys (lift_defined_value (Suc n) opts p s i) v flat) st"
    if h: "conforms (Suc n) p v i" "flat_types p (VType i) = Inr tys" "valid_mem m st" for v i tys st
  proof -
    have i: "i < length (pr_types p)" "get_type p i = Some (pr_types p ! i)"
      using h(1) by (auto simp: get_type_def get_idx_def)
    note tys = h(2) [unfolded flat_types_unfold [OF comp i(1)]]
    show ?thesis
    proof (cases "pr_types p ! i")
      case (TDefVal d)
      show ?thesis
      proof (cases d)
        case (DPrim prim)
        with TDefVal h tys lower_primitive_ok [OF assms(1) h(3), of prim v] show ?thesis
          by (simp add: i(2) flat_types_for_defval_def)
      next
        case (DRecord fs)
        with TDefVal h tys lower_record_ok [OF assms(1) Suc _ _ h(3), of fs v tys] show ?thesis by (simp add: i(2))
      next
        case (DVariant cases)
        with TDefVal h tys lower_variant_ok [OF assms(1) Suc _ _ h(3), of cases v tys] show ?thesis by (simp add: i(2))
      next
        case (DFlags labels)
        with TDefVal h tys lower_flags_flat_ok [OF _ h(3), of labels v own f] show ?thesis
          by (simp add: i(2) flat_types_for_defval_def flags_words del: action_simps)
      next
        case (DList elem fixed_len)
        have "valid_ty p elem" by (rule deps_valid [OF comp i(1)]) (simp add: TDefVal DList)
        with TDefVal DList h tys lower_list_flat_ok [OF assms, of elem n fixed_len v st] show ?thesis
          by (simp add: i(2) flat_types_for_defval_def)
      next
        case (DOwn r)
        with TDefVal h tys show ?thesis
          by (auto simp: i(2) flat_types_for_defval_def expect_handle_def flat_handle simp del: action_simps
              split: component_value.splits intro!: achieves_ret)
      next
        case (DBorrow r)
        with TDefVal h tys show ?thesis
          by (auto simp: i(2) flat_types_for_defval_def expect_handle_def flat_handle simp del: action_simps
              split: component_value.splits intro!: achieves_ret)
      qed
    next
      case (TResource r)
      with h tys show ?thesis
        by (auto simp: i(2) expect_handle_def flat_handle simp del: action_simps
            split: component_value.splits intro!: achieves_ret)
    qed (use h in auto)
  qed
  then show ?case
    by (simp add: flattens_def del: lower_defined_value.simps lift_defined_value.simps conforms.simps)
qed (simp add: flattens_def)

lemma lower_flat_ok:
  assumes "callable m own f opts" "small p" "has_type p v ty" "flat_types p ty = Inr tys" "valid_mem m st"
  shows "achieves m own f {} (lower_flat v ty opts p) (\<lambda>flat s. flat_of tys (lift_flat ty opts p s) v flat) st"
  using flattens_valtype [OF assms(1) flattens_defined [OF assms(1,2)] _ assms(4,5)] assms(3)
  by (simp add: has_type_def lower_flat_def lift_flat_def)

end
