(* ===== verification/Canonical_Calls.thy ===== *)
theory Canonical_Calls
  imports Canonical_Flat
begin

text \<open>
  Whole calls: arguments and results cross the boundary between a component function and its core
  function unchanged, directly as flat values or through an area of linear memory.
\<close>

section \<open>The area of indirect parameters\<close>

text \<open>Indirect parameters are laid out like the fields of a tuple.\<close>

definition params_size :: "program \<Rightarrow> comp_valtype list \<Rightarrow> nat" where
  "params_size p tys = ly_size (record_layout (map (lay p) tys))"

fun area_offsets :: "program \<Rightarrow> nat \<Rightarrow> comp_valtype list \<Rightarrow> nat list" where
  "area_offsets p s [] = []"
| "area_offsets p s (ty # tys) =
     align_up s (tyalign p ty) # area_offsets p (align_up s (tyalign p ty) + tysize p ty) tys"

lemma area_fold:
  assumes "small p" "\<And>ty. ty \<in> set tys \<Longrightarrow> valid_ty p ty" "fields_end p (unat cur) tys < 2 ^ 32"
  obtains offs cur' al' where
    "rfold (\<lambda>ty (offsets, cursor, max_align).
         rbind (memory_abi_for_valtype ty p) (\<lambda>abi.
           let cursor = align_to cursor (max (ma_align abi) 1)
           in Inr (offsets @ [cursor], saturating_add cursor (ma_size abi),
                   max max_align (max (ma_align abi) 1))))
       tys (pre, cur, al) = Inr (pre @ offs, cur', al')"
    "map unat offs = area_offsets p (unat cur) tys"
    "unat cur' = fields_end p (unat cur) tys"
    "unat al' = fold (\<lambda>ty. max (tyalign p ty)) tys (unat al)"
  using assms(2,3)
proof (induction tys arbitrary: pre cur al thesis)
  case Nil
  show ?case by (rule Nil(1) [of "[]"]) (simp_all add: fields_end_def)
next
  case (Cons ty tys)
  obtain abi where abi: "memory_abi_for_valtype ty p = Inr abi" "unat (ma_size abi) = tysize p ty"
    "unat (max (ma_align abi) 1) = tyalign p ty" "0 < tyalign p ty"
    by (rule abi_of_valtype [OF assms(1) Cons.prems(2) [of ty]]) auto
  have pos: "0 < tyalign p t" if "t \<in> set tys" for t
    using that Cons.prems(2) by (auto intro: abi_of_valtype [OF assms(1)])
  let ?o = "align_up (unat cur) (tyalign p ty)" and ?c = "align_to cur (max (ma_align abi) 1)"
  have fe: "fields_end p (?o + tysize p ty) tys < 2 ^ 32" using Cons.prems(3) by (simp add: fields_end_def)
  with fields_end_ge [OF pos, of tys "?o + tysize p ty"] have lt: "?o + tysize p ty < 2 ^ 32" by auto
  then have o: "unat ?c = ?o" using unat_align_to [of "max (ma_align abi) 1" cur] abi by simp
  then have c: "unat (saturating_add ?c (ma_size abi)) = ?o + tysize p ty"
    using unat_saturating_add [of ?c "ma_size abi"] abi(2) lt by simp
  obtain offs cur' al' where ih: "rfold (\<lambda>ty (offsets, cursor, max_align).
         rbind (memory_abi_for_valtype ty p) (\<lambda>abi.
           let cursor = align_to cursor (max (ma_align abi) 1)
           in Inr (offsets @ [cursor], saturating_add cursor (ma_size abi),
                   max max_align (max (ma_align abi) 1))))
       tys (pre @ [?c], saturating_add ?c (ma_size abi), max al (max (ma_align abi) 1)) = Inr ((pre @ [?c]) @ offs, cur', al')"
    "map unat offs = area_offsets p (unat (saturating_add ?c (ma_size abi))) tys"
    "unat cur' = fields_end p (unat (saturating_add ?c (ma_size abi))) tys"
    "unat al' = fold (\<lambda>ty. max (tyalign p ty)) tys (unat (max al (max (ma_align abi) 1)))"
    by (rule Cons.IH [of "pre @ [?c]" "saturating_add ?c (ma_size abi)" "max al (max (ma_align abi) 1)"])
      (use Cons.prems(2) fe c in auto)
  show ?case
    by (rule Cons.prems(1) [of "?c # offs" cur' al'])
      (use ih c o abi in \<open>auto simp: Let_def fields_end_def unat_max max.commute [of "unat al"]\<close>)
qed

lemma record_layout_folds:
  "ly_size (foldl add_field a (map (lay p) tys)) = fields_end p (ly_size a) tys"
  "ly_align (foldl add_field a (map (lay p) tys)) = fold (\<lambda>ty. max (tyalign p ty)) tys (ly_align a)"
  by (induction tys arbitrary: a) (simp_all add: fields_end_def add_field_def tyalign_def tysize_def max.commute)

lemma value_area_ok:
  assumes "small p" "\<And>ty. ty \<in> set tys \<Longrightarrow> valid_ty p ty" "params_size p tys < 2 ^ 32"
  obtains layout where "value_area_layout tys p = Inr layout" "map unat (va_offsets layout) = area_offsets p 0 tys"
    "unat (va_size layout) = params_size p tys" "fields_end p 0 tys \<le> params_size p tys" "va_align layout \<noteq> 0"
proof -
  let ?A = "fold (\<lambda>ty. max (tyalign p ty)) tys 1"
  have ps: "params_size p tys = align_up (fields_end p 0 tys) ?A"
    by (simp add: params_size_def record_layout_def Let_def record_layout_folds)
  have A: "1 \<le> ?A" by (rule fold_max_start)
  then have le: "fields_end p 0 tys \<le> params_size p tys" unfolding ps by (intro align_up_ge) simp
  with assms(3) have lt: "fields_end p (unat (0 :: u32)) tys < 2 ^ 32" by simp
  obtain offs cur' al' where f: "rfold (\<lambda>ty (offsets, cursor, max_align).
         rbind (memory_abi_for_valtype ty p) (\<lambda>abi.
           let cursor = align_to cursor (max (ma_align abi) 1)
           in Inr (offsets @ [cursor], saturating_add cursor (ma_size abi),
                   max max_align (max (ma_align abi) 1))))
       tys ([], 0, 1) = Inr ([] @ offs, cur', al')"
    "map unat offs = area_offsets p (unat (0 :: u32)) tys" "unat cur' = fields_end p (unat (0 :: u32)) tys"
    "unat al' = fold (\<lambda>ty. max (tyalign p ty)) tys (unat (1 :: u32))"
    using area_fold [where tys = tys and cur = 0 and pre = "[]" and al = 1, OF assms(1,2) lt] by blast
  have "unat (align_to cur' al') = params_size p tys"
    using unat_align_to [of al' cur'] f(3,4) A assms(3) ps by simp
  moreover have "al' \<noteq> 0" using f(4) A by (auto simp: unat_eq_zero [symmetric])
  ultimately show ?thesis
    using that [of "\<lparr>va_offsets = offs, va_size = align_to cur' al', va_align = al'\<rparr>"] f le
    by (simp add: value_area_layout_def)
qed

text \<open>Storing the parameters one after another.\<close>

lemma area_loop_ok:
  assumes "callable m own f opts" "small p" "list_all2 (has_type p) vs tys"
    and "map unat offs = area_offsets p s tys" "fields_end p s tys \<le> n" "n < 2 ^ 32"
    and "valid_mem m st" "{unat ptr + s ..< unat ptr + n} \<subseteq> own st"
  shows "achieves m own f {unat ptr + s ..< unat ptr + n}
    (afold (\<lambda>((v, ty), offset) _. write_value v ty opts p (ptr + offset)) (zip (zip vs tys) offs) ())
    (\<lambda>_ st. rmap (\<lambda>(ty, offset). read_value ty opts p st m (ptr + offset)) (zip tys offs) = Inr vs) st"
  using assms(3-)
proof (induction vs tys arbitrary: offs s st rule: list_all2_induct)
  case Nil
  have "achieves m own f {} (aret ()) (\<lambda>_ _. True) st" by (rule achieves_ret) (use Nil in auto)
  then show ?case by (auto elim!: achieves_mono simp del: action_simps)
next
  case (Cons v vs ty tys)
  from Cons.prems(1) obtain q offs' where q: "offs = q # offs'" "unat q = align_up s (tyalign p ty)"
    "map unat offs' = area_offsets p (align_up s (tyalign p ty) + tysize p ty) tys"
    by auto
  have valid: "valid_ty p t" if "t \<in> set (ty # tys)" for t
    using that Cons.hyps by (auto simp: has_type_def list_all2_conv_all_nth in_set_conv_nth dest: conforms_valid)
  have pos: "0 < tyalign p t" if "t \<in> set (ty # tys)" for t
    by (rule abi_of_valtype [OF assms(2) valid [OF that]])
  define s1 where "s1 = unat q + tysize p ty"
  have fe: "fields_end p s1 tys \<le> n" using Cons.prems(2) by (simp add: fields_end_def s1_def q(2))
  have "s1 \<le> fields_end p s1 tys" by (rule fields_end_ge) (use pos in auto)
  with fe have s1: "s \<le> unat q" "unat q \<le> s1" "s1 \<le> n"
    using align_up_ge [OF pos, of ty s] by (auto simp: q(2) s1_def)
  have area: "range_of (ptr + q) (tysize p ty) \<subseteq> {unat ptr + s ..< unat ptr + s1}"
  proof (cases "tysize p ty = 0")
    case False
    then have "unat ptr + n - 1 \<in> own st" using Cons.prems(5) s1 by (auto simp: s1_def)
    moreover have "realloc_contract m own f" using assms(1) by (simp add: callable_def)
    ultimately have "unat ptr + n < 2 ^ 32 + 1"
      using contract_bounds [of m own f "unat ptr + n - 1" st] by auto
    then have "unat (ptr + q) = unat ptr + unat q"
      using s1 False by (subst unat_plus) (auto simp: s1_def)
    then show ?thesis using s1 by (auto simp: range_of_def s1_def)
  qed simp
  have sub: "{unat ptr + s ..< unat ptr + s1} \<subseteq> own st" "{unat ptr + s1 ..< unat ptr + n} \<subseteq> own st"
    using Cons.prems(5) s1 by auto
  have 1: "achieves m own f {unat ptr + s ..< unat ptr + s1} (write_value v ty opts p (ptr + q))
      (\<lambda>_ st. read_value ty opts p st m (ptr + q) = Inr v) st"
    by (rule achieves_mono [OF write_value_ok [OF assms(1,2) Cons.hyps(1) Cons.prems(4)] area]) (use area sub in auto)
  let ?go = "afold (\<lambda>((v, ty), offset) _. write_value v ty opts p (ptr + offset)) (zip (zip vs tys) offs')"
  have "achieves m own f ({unat ptr + s ..< unat ptr + s1} \<union> {unat ptr + s1 ..< unat ptr + n})
      (abind (write_value v ty opts p (ptr + q)) ?go)
      (\<lambda>_ st. rmap (\<lambda>(ty, offset). read_value ty opts p st m (ptr + offset)) (zip (ty # tys) offs) = Inr (v # vs)) st"
  proof (rule achieves_bind [OF 1])
    fix u st1 assume "stores m own {unat ptr + s..<unat ptr + s1} (\<lambda>st. read_value ty opts p st m (ptr + q) = Inr v) st st1"
    from storesD [OF this] have st1: "valid_mem m st1" "own st \<subseteq> own st1" by auto
    show "achieves m own f {unat ptr + s1..<unat ptr + n} (?go u)
      (\<lambda>_ st. rmap (\<lambda>(ty, offset). read_value ty opts p st m (ptr + offset)) (zip tys offs') = Inr vs) st1"
      using Cons.IH [of offs' s1 st1] q fe Cons.prems(3) st1 sub by (cases u) (auto simp: s1_def)
  qed (use sub q(1) in auto)
  moreover have "{unat ptr + s ..< unat ptr + s1} \<union> {unat ptr + s1 ..< unat ptr + n} = {unat ptr + s ..< unat ptr + n}"
    using s1 by auto
  ultimately show ?case by (simp add: q(1) del: action_simps)
qed

section \<open>Arguments\<close>

lemma flat_fold_concat:
  assumes "rmap (flat_types p) tys = Inr fls"
  shows "rfold (add_flat_field p (\<lambda>ty. ty)) tys acc = Inr (acc @ concat fls)"
  using assms
proof (induction tys arbitrary: fls acc)
  case (Cons ty tys)
  then obtain fl rest where h: "flat_types p ty = Inr fl" "rmap (flat_types p) tys = Inr rest" "fls = fl # rest"
    by (auto simp: res_simps)
  from Cons.IH [OF h(2), of "acc @ fl"] h(1,3) show ?case by (simp add: flat_types_def [of p ty])
qed simp

text \<open>Both ways of passing arguments: flat values after which any others may follow.\<close>

lemma lower_args_direct:
  assumes "callable m own f opts" "small p" "list_all2 (has_type p) args (ft_params ft)"
    and "rmap (flat_types p) (ft_params ft) = Inr fls" "length (concat fls) \<le> MAX_FLAT_PARAMS" "valid_mem m st"
  shows "achieves m own f {} (lower_component_args ft args opts p)
    (\<lambda>flat s. map vt_of flat = concat fls \<and> (\<forall>extra. lift_component_args ft (flat @ extra) opts p s = Inr args)) st"
proof -
  have len: "function_params_flat_len ft p = Inr (length (concat fls))"
    using params_flat_len_eq [OF _ assms(4), of 0] assms(2) by (simp add: function_params_flat_len_def small_def)
  have run: "lower_component_args ft args opts p = afold (\<lambda>(v, ty) lowered.
      abind (lower_value_to_flat (lower_defined_value (type_depth p) opts p) v ty opts)
        (\<lambda>flat. aret (lowered @ flat))) (zip args (ft_params ft)) []"
    using len assms(5) list_all2_lengthD [OF assms(3)]
    by (simp add: lower_component_args_def lower_value_def [abs_def] lower_flat_def)
  have "list_all2 (\<lambda>x ty. conforms_val (conforms (type_depth p) p) x ty) args (ft_params ft)"
    using assms(3) by (simp add: has_type_def [abs_def])
  note ok = lower_fields_ok [OF assms(1) flattens_defined [OF assms(1,2)] this flat_fold_concat [OF assms(4)] assms(6)]
  show ?thesis unfolding run
  proof (rule achieves_mono [OF ok subset_refl])
    fix flat s
    assume "\<exists>rest. flat = [] @ rest \<and> [] @ concat fls = [] @ map vt_of rest \<and>
        lifts (amap (\<lambda>ty. lift_value (lift_defined_value (type_depth p) opts p s) ty opts s) (ft_params ft)) rest args"
    then have h: "map vt_of flat = concat fls" "lifts (amap (\<lambda>ty. lift_flat ty opts p s) (ft_params ft)) flat args"
      by (auto simp: lift_flat_def)
    have "lift_component_args ft (flat @ extra) opts p s = Inr args" for extra
      using h(2) [unfolded lifts_def, rule_format, of "[]" extra] len assms(5)
      by (simp add: lift_component_args_def cursor_new_def)
    with h(1) show "map vt_of flat = concat fls \<and> (\<forall>extra. lift_component_args ft (flat @ extra) opts p s = Inr args)"
      by simp
  qed
qed

lemma lower_args_indirect:
  assumes "callable m own f opts" "small p" "list_all2 (has_type p) args (ft_params ft)"
    and "rmap (flat_types p) (ft_params ft) = Inr fls" "MAX_FLAT_PARAMS < length (concat fls)"
    and "params_size p (ft_params ft) < 2 ^ 32" "valid_mem m st"
  shows "achieves m own f {} (lower_component_args ft args opts p)
    (\<lambda>flat s. map vt_of flat = [I32] \<and> (\<forall>extra. lift_component_args ft (flat @ extra) opts p s = Inr args)) st"
proof -
  have len: "function_params_flat_len ft p = Inr (length (concat fls))"
    using params_flat_len_eq [OF _ assms(4), of 0] assms(2) by (simp add: function_params_flat_len_def small_def)
  have req: "require_memory opts = Inr m" "require_realloc opts = Inr f" "realloc_contract m own f"
    using assms(1) by (auto simp: callable_def require_memory_def require_realloc_def)
  have valid: "valid_ty p t" if "t \<in> set (ft_params ft)" for t
    using that assms(3) by (auto simp: has_type_def list_all2_conv_all_nth in_set_conv_nth dest: conforms_valid)
  obtain layout where lo: "value_area_layout (ft_params ft) p = Inr layout"
    "map unat (va_offsets layout) = area_offsets p 0 (ft_params ft)"
    "unat (va_size layout) = params_size p (ft_params ft)"
    "fields_end p 0 (ft_params ft) \<le> params_size p (ft_params ft)" "va_align layout \<noteq> 0"
    by (rule value_area_ok [OF assms(2) valid assms(6)])
  let ?loop = "\<lambda>ptr. abind (afold (\<lambda>((v, ty), offset) _. write_value v ty opts p (ptr + offset))
      (zip (zip args (ft_params ft)) (va_offsets layout)) ()) (\<lambda>_. aret [WI32 ptr])"
  let ?Q = "\<lambda>flat s. map vt_of flat = [I32] \<and> (\<forall>extra. lift_component_args ft (flat @ extra) opts p s = Inr args)"
  have loop: "achieves m own f (range_of ptr (params_size p (ft_params ft))) (?loop ptr) ?Q st1"
    if "valid_mem m st1" "range_of ptr (params_size p (ft_params ft)) \<subseteq> own st1" for ptr st1
  proof (rule achieves_bind_ret)
    show "achieves m own f (range_of ptr (params_size p (ft_params ft)))
        (afold (\<lambda>((v, ty), offset) _. write_value v ty opts p (ptr + offset))
          (zip (zip args (ft_params ft)) (va_offsets layout)) ())
        (\<lambda>_ st. rmap (\<lambda>(ty, offset). read_value ty opts p st m (ptr + offset))
          (zip (ft_params ft) (va_offsets layout)) = Inr args) st1"
      using area_loop_ok [OF assms(1-3) lo(2,4) assms(6) that(1), of ptr] that(2) by (simp add: range_of_def)
  qed (use len assms(5) req(1) lo(1) in \<open>simp add: lift_component_args_def\<close>)
  have run: "lower_component_args ft args opts p =
     abind (if va_size layout = 0 then aret 0
                 else abind (call_realloc f 0 0 (va_align layout) (va_size layout)) (\<lambda>ptr.
                   abind (alift (validate_realloc_pointer_alignment ptr (va_align layout))) (\<lambda>_. aret ptr))) ?loop"
    using len assms(5) req lo(1) list_all2_lengthD [OF assms(3)] by (simp add: lower_component_args_def)
  show ?thesis
  proof (cases "va_size layout = 0")
    case True
    with lo(3) loop [OF assms(7), of 0] show ?thesis by (simp add: run del: action_simps)
  next
    case False
    have "achieves m own f {} (abind (call_realloc f 0 0 (va_align layout) (va_size layout)) (\<lambda>ptr.
        abind (alift (validate_realloc_pointer_alignment ptr (va_align layout))) (\<lambda>_. ?loop ptr))) ?Q st"
    proof (rule achieves_alloc [OF req(3) assms(7) lo(5)])
      fix q st1 assume "fresh_in m own st st1 q (unat (va_size layout))"
      then show "achieves m own f (range_of q (unat (va_size layout))) (?loop q) ?Q st1"
        using loop [of st1 q] by (simp add: fresh_in_def extends_def lo(3))
    qed
    with False show ?thesis by (simp add: run abind_assoc del: action_simps)
  qed
qed

lemma lower_args_ok:
  assumes "callable m own f opts" "small p" "list_all2 (has_type p) args (ft_params ft)"
    and "rmap (flat_types p) (ft_params ft) = Inr fls" "params_size p (ft_params ft) < 2 ^ 32" "valid_mem m st"
  shows "achieves m own f {} (lower_component_args ft args opts p)
    (\<lambda>flat s. map vt_of flat = abi_flatten_params (concat fls) \<and>
       (\<forall>extra. lift_component_args ft (flat @ extra) opts p s = Inr args)) st"
proof (cases "length (concat fls) \<le> MAX_FLAT_PARAMS")
  case True
  with lower_args_direct [OF assms(1-4) _ assms(6)] show ?thesis by (simp add: abi_flatten_params_def)
next
  case False
  with lower_args_indirect [OF assms(1-4) _ assms(5,6)] show ?thesis by (simp add: abi_flatten_params_def)
qed

text \<open>C16: A call of a component function passes its arguments unchanged: lowering arguments of the
  parameter types gives core values of exactly the parameter types that the decoder computes for
  the core function (one pointer when there are more than sixteen), fails only with an error of
  the guest's allocator and changes no byte that the allocator had handed out; and lifting the
  core values, with or without a result pointer behind them, gives the arguments back, in every
  state in which the blocks allocated for them are still the same.\<close>

theorem arguments_round_trip:
  assumes "callable m own f opts" "small p" "list_all2 (has_type p) args (ft_params ft)"
    and "rmap (flat_types p) (ft_params ft) = Inr fls" "params_size p (ft_params ft) < 2 ^ 32" "valid_mem m st"
    and "lower_component_args ft args opts p st = (r, st')"
  shows "case r of
      Inl e \<Rightarrow> \<exists>args s s'. f args s = (Inl e, s')
    | Inr flat \<Rightarrow> map vt_of flat = abi_flatten_params (concat fls) \<and> valid_mem m st' \<and>
        (\<forall>a \<in> own st. bytes_of m st' ! a = bytes_of m st ! a) \<and>
        (\<forall>s extra. agrees m (own st' - own st) st' s \<longrightarrow>
           lift_component_args ft (flat @ extra) opts p s = Inr args)"
  using lower_args_ok [OF assms(1-6)] assms(7)
  by (cases r) (auto simp: achieves_def alloc_errors_def stores_def extends_def agrees_def)

lemma guest_flat: "flat_types guest_program (VType 2) = Inr [I32, I32, I32, I32, I64]"
proof -
  let ?r = "flat_types_for_type (type_depth guest_program) guest_program"
  have 0: "flat_types_for_valtype ?r (VType 0) = Inr [I32, I32]"
    using flat_types_unfold [OF guest_compiled, of 0] by (simp add: guest_types_nth flat_types_for_defval_def flat_types_def)
  have 1: "flat_types_for_valtype ?r (VType 1) = Inr [I32, I64]"
    using flat_types_unfold [OF guest_compiled, of 1]
    by (simp add: guest_types_nth [unfolded One_nat_def] flat_types_for_defval_def flat_types_def variant_payload_flat_types_def
        flat_types_for_valtype_def [of _ "VPrim _"] flat_types_for_primitive_def merge_flat_zip_join)
  show ?thesis
    using flat_types_unfold [OF guest_compiled, of 2] 0 1
    by (simp add: guest_types_nth flat_types_for_defval_def flat_types_for_valtype_def [of _ "VPrim _"] flat_types_for_primitive_def)
qed

definition guest_func :: func_type where
  "guest_func = \<lparr>ft_params = [VType 2], ft_param_names = [''x''], ft_result = Some (VType 2)\<rparr>"

theorem arguments_round_trip_witness:
  "\<exists>flat st'. lower_component_args guest_func [guest_value] (guest_options (Some Utf8)) guest_program (guest_store 24 0)
       = (Inr flat, st') \<and> map vt_of flat = [I32, I32, I32, I32, I64] \<and>
     lift_component_args guest_func (flat @ [WI32 7]) (guest_options (Some Utf8)) guest_program st' = Inr [guest_value]"
proof -
  let ?st = "guest_store 24 0" and ?opts = "guest_options (Some Utf8)"
  obtain flat st' where run: "lower_component_args guest_func [guest_value] ?opts guest_program ?st = (Inr flat, st')"
  proof -
    have "isl (fst (lower_component_args guest_func [guest_value] ?opts guest_program ?st)) = False" by code_simp
    with that show ?thesis
      by (cases "lower_component_args guest_func [guest_value] ?opts guest_program ?st"; cases "fst (lower_component_args guest_func [guest_value] ?opts guest_program ?st)") auto
  qed
  have "params_size guest_program (ft_params guest_func) = 32"
    by (simp add: params_size_def guest_func_def guest_record_layout record_layout_def add_field_def align_up_def div_ceil_def)
  then have sz: "params_size guest_program (ft_params guest_func) < 2 ^ 32" by simp
  have args: "list_all2 (has_type guest_program) [guest_value] (ft_params guest_func)"
    by (simp add: guest_func_def guest_has_type)
  have fl: "rmap (flat_types guest_program) (ft_params guest_func) = Inr [[I32, I32, I32, I32, I64]]"
    by (simp add: guest_func_def guest_flat)
  note rt = arguments_round_trip [OF guest_callable guest_small args fl sz guest_valid run]
  then have "valid_mem guest_memory st'" by simp
  then have "agrees guest_memory X st' st'" for X by (simp add: agrees_def)
  with rt run show ?thesis by (auto simp: abi_flatten_params_def MAX_FLAT_PARAMS_def)
qed

section \<open>Results\<close>

lemma lift_result_flat:
  assumes "value_flat_len ty p = Inr n" "n \<le> MAX_FLAT_RESULTS" "ft_result ft = Some ty"
    and "lifts (lift_flat ty opts p s) flat v"
  shows "lift_component_results ft flat opts p s = Inr [v]"
  using lifts_bind_ret [OF assms(4), of "\<lambda>v. [v]", unfolded lifts_def, rule_format, of "[]" "[]"] assms(1-3)
  by (simp add: lift_component_results_def cursor_new_def)

lemma lift_result_pointer:
  assumes "value_flat_len ty p = Inr n" "MAX_FLAT_RESULTS < n" "ft_result ft = Some ty" "require_memory opts = Inr m"
    and "read_value ty opts p s m ptr = Inr v"
  shows "lift_component_results ft [WI32 ptr] opts p s = Inr [v]"
  using assms by (simp add: lift_component_results_def cursor_new_def abind_def next_i32_def cursor_next_def get_idx_def)

lemma lower_results_ok:
  assumes "callable m own f opts" "small p" "has_type p v ty" "ft_result ft = Some ty"
    and "flat_types p ty = Inr fl" "valid_mem m st"
    and "lowered_indirect_result_area ft core_args p = Inr area"
    and "place = (case area of None \<Rightarrow> {} | Some ptr \<Rightarrow> range_of ptr (tysize p ty))" "place \<subseteq> own st"
  shows "achieves m own f place (lower_component_results ft [v] opts p area)
    (\<lambda>flat s. map vt_of flat = (if length fl \<le> 1 then fl else []) \<and>
       lift_component_results ft (case area of None \<Rightarrow> flat | Some ptr \<Rightarrow> [WI32 ptr]) opts p s = Inr [v]) st"
proof -
  have len: "value_flat_len ty p = Inr (length fl)"
    using value_flat_len_eq [OF _ assms(5)] assms(2) by (simp add: small_def)
  have req: "require_memory opts = Inr m" using assms(1) by (auto simp: callable_def require_memory_def)
  show ?thesis
  proof (cases "length fl \<le> 1")
    case True
    then have n: "length fl \<le> MAX_FLAT_RESULTS" by (simp add: MAX_FLAT_RESULTS_def)
    with assms(4,7) len have a: "area = None" by (simp add: lowered_indirect_result_area_def)
    have "achieves m own f {} (lower_flat v ty opts p) (\<lambda>flat s. flat_of fl (lift_flat ty opts p s) v flat) st"
      by (rule lower_flat_ok [OF assms(1-3,5,6)])
    then have "achieves m own f {} (lower_flat v ty opts p)
        (\<lambda>flat s. map vt_of flat = fl \<and> lift_component_results ft flat opts p s = Inr [v]) st"
      by (rule achieves_mono) (auto simp: flat_of_def intro: lift_result_flat [OF len n assms(4)])
    with True n a assms(4,8) len show ?thesis by (simp add: lower_component_results_def get_idx_def)
  next
    case False
    then have n: "MAX_FLAT_RESULTS < length fl" by (simp add: MAX_FLAT_RESULTS_def)
    with assms(4,7) len obtain ptr where a: "area = Some ptr"
      by (auto simp: lowered_indirect_result_area_def split: if_splits wasm_value.splits)
    have "achieves m own f place (write_value v ty opts p ptr) (\<lambda>_ s. read_value ty opts p s m ptr = Inr v) st"
      using write_value_ok [OF assms(1-3,6), of ptr] assms(8,9) a by simp
    then have "achieves m own f place (abind (write_value v ty opts p ptr) (\<lambda>_. aret []))
        (\<lambda>flat s. flat = [] \<and> lift_component_results ft [WI32 ptr] opts p s = Inr [v]) st"
      by (rule achieves_bind_ret) (auto intro: lift_result_pointer [OF len n assms(4) req])
    then have "achieves m own f place (abind (write_value v ty opts p ptr) (\<lambda>_. aret []))
        (\<lambda>flat s. map vt_of flat = [] \<and> lift_component_results ft [WI32 ptr] opts p s = Inr [v]) st"
      by (rule achieves_mono) auto
    with False n a assms(4) len req show ?thesis by (simp add: lower_component_results_def get_idx_def del: action_simps)
  qed
qed

text \<open>C17: The result of a component function that core code has called comes back unchanged: when
  it does not fit one core value it is stored where the last core argument points, which has to be
  memory the guest has set aside for it, otherwise it is returned as a core value of its flat type;
  in both ways the core code's side lifts the same value, lowering fails only with an error of the
  guest's allocator, and no other byte of the guest's is changed.\<close>

theorem results_round_trip:
  assumes "callable m own f opts" "small p" "has_type p v ty" "ft_result ft = Some ty"
    and "flat_types p ty = Inr fl" "valid_mem m st"
    and "lowered_indirect_result_area ft core_args p = Inr area"
    and "place = (case area of None \<Rightarrow> {} | Some ptr \<Rightarrow> range_of ptr (tysize p ty))" "place \<subseteq> own st"
    and "lower_component_results ft [v] opts p area st = (r, st')"
  shows "case r of
      Inl e \<Rightarrow> \<exists>args s s'. f args s = (Inl e, s')
    | Inr flat \<Rightarrow> map vt_of flat = (if length fl \<le> 1 then fl else []) \<and> valid_mem m st' \<and>
        (\<forall>a \<in> own st - place. bytes_of m st' ! a = bytes_of m st ! a) \<and>
        (\<forall>s. agrees m (place \<union> (own st' - own st)) st' s \<longrightarrow>
           lift_component_results ft (case area of None \<Rightarrow> flat | Some ptr \<Rightarrow> [WI32 ptr]) opts p s = Inr [v])"
  using lower_results_ok [OF assms(1-9)] assms(10)
  by (cases r) (auto simp: achieves_def alloc_errors_def stores_def extends_def agrees_def)

theorem results_round_trip_witness:
  "\<exists>st'. lower_component_results guest_func [guest_value] (guest_options (Some Utf16)) guest_program (Some 0)
       (guest_store 72 32) = (Inr [], st') \<and>
     lift_component_results guest_func [WI32 0] (guest_options (Some Utf16)) guest_program st' = Inr [guest_value]"
proof -
  let ?st = "guest_store 72 32" and ?opts = "guest_options (Some Utf16)"
  obtain flat st' where run: "lower_component_results guest_func [guest_value] ?opts guest_program (Some 0) ?st = (Inr flat, st')"
  proof -
    have "isl (fst (lower_component_results guest_func [guest_value] ?opts guest_program (Some 0) ?st)) = False" by code_simp
    with that show ?thesis
      by (cases "lower_component_results guest_func [guest_value] ?opts guest_program (Some 0) ?st"; cases "fst (lower_component_results guest_func [guest_value] ?opts guest_program (Some 0) ?st)") auto
  qed
  have sz: "tysize guest_program (VType 2) = 32" by (simp only: tysize_def guest_record_layout) simp
  have area: "range_of 0 (tysize guest_program (VType 2)) \<subseteq> bump_own guest_memory ?st"
    by (rule guest_owns) (simp_all add: sz)
  have res: "ft_result guest_func = Some (VType 2)" by (simp add: guest_func_def)
  have ptr: "lowered_indirect_result_area guest_func [WI32 0] guest_program = Inr (Some 0)"
    using value_flat_len_eq [OF guest_compiled guest_flat]
    by (simp add: lowered_indirect_result_area_def res MAX_FLAT_RESULTS_def)
  note rt = results_round_trip [OF guest_callable guest_small guest_has_type res guest_flat guest_valid ptr refl _ run]
  have "valid_mem guest_memory st'" using rt area by simp
  then have "agrees guest_memory X st' st'" for X by (simp add: agrees_def)
  with rt area run show ?thesis by auto
qed

end
