(* ===== verification/Canonical_Safety.thy ===== *)
theory Canonical_Safety
  imports Canonical_Calls "HOL-Library.Sublist"
begin

text \<open>
  Lifting from an untrusted guest: whatever bytes and core values the guest supplies, a lifted
  value is a value of its type.
\<close>

section \<open>Well-typed values\<close>

definition typed_prim :: "prim_valtype \<Rightarrow> component_value \<Rightarrow> bool" where
  "typed_prim prim v \<longleftrightarrow>
     (case (prim, v) of
        (PBool, CBool _) \<Rightarrow> True
      | (PS8, CS8 _) \<Rightarrow> True
      | (PU8, CU8 _) \<Rightarrow> True
      | (PS16, CS16 _) \<Rightarrow> True
      | (PU16, CU16 _) \<Rightarrow> True
      | (PS32, CS32 _) \<Rightarrow> True
      | (PU32, CU32 _) \<Rightarrow> True
      | (PS64, CS64 _) \<Rightarrow> True
      | (PU64, CU64 _) \<Rightarrow> True
      | (PF32, CF32 _) \<Rightarrow> True
      | (PF64, CF64 _) \<Rightarrow> True
      | (PChar, CChar c) \<Rightarrow> is_scalar c
      | (PString, CString s) \<Rightarrow> list_all is_scalar s
      | _ \<Rightarrow> False)"

definition typed_val :: "conformance \<Rightarrow> component_value \<Rightarrow> comp_valtype \<Rightarrow> bool" where
  "typed_val rec v ty \<longleftrightarrow> (case ty of VPrim prim \<Rightarrow> typed_prim prim v | VType i \<Rightarrow> rec v i)"

definition typed_record :: "conformance \<Rightarrow> label_valtype list \<Rightarrow> component_value \<Rightarrow> bool" where
  "typed_record rec fs v \<longleftrightarrow>
     (\<exists>vs. list_all2 (\<lambda>x f. typed_val rec x (fl_ty f)) vs fs \<and>
        v = (if is_tuple_fields fs then CTuple vs else CRecord (zip (map fl_label fs) vs)))"

text \<open>A value of a variant type is one of its cases, with a payload of the type of the case.\<close>

definition typed_variant :: "conformance \<Rightarrow> variant_case list \<Rightarrow> component_value \<Rightarrow> bool" where
  "typed_variant rec cases v \<longleftrightarrow>
     (\<exists>c \<in> set cases.
        case cs_ty c of
          None \<Rightarrow> v = variant_of cases c None
        | Some ty \<Rightarrow> \<exists>x. typed_val rec x ty \<and> v = variant_of cases c (Some x))"

definition typed_list :: "conformance \<Rightarrow> comp_valtype \<Rightarrow> nat option \<Rightarrow> component_value \<Rightarrow> bool" where
  "typed_list rec elem fixed_len v \<longleftrightarrow>
     (\<exists>vs. v = CList vs \<and> list_all (\<lambda>x. typed_val rec x elem) vs \<and>
        (case fixed_len of None \<Rightarrow> length vs < 2 ^ 32 | Some n \<Rightarrow> length vs = n))"

primrec typed :: "nat \<Rightarrow> program \<Rightarrow> conformance" where
  "typed 0 p v i \<longleftrightarrow> False"
| "typed (Suc n) p v i \<longleftrightarrow>
     (case get_type p i of
        Some (TDefVal (DPrim prim)) \<Rightarrow> typed_prim prim v
      | Some (TDefVal (DRecord fs)) \<Rightarrow> typed_record (typed n p) fs v
      | Some (TDefVal (DVariant cases)) \<Rightarrow> typed_variant (typed n p) cases v
      | Some (TDefVal (DFlags labels)) \<Rightarrow> (\<exists>sel. v = CFlags sel \<and> subseq sel labels)
      | Some (TDefVal (DList elem maybe_len)) \<Rightarrow> typed_list (typed n p) elem maybe_len v
      | Some (TDefVal (DOwn r)) \<Rightarrow> \<exists>h. v = COwn h
      | Some (TDefVal (DBorrow r)) \<Rightarrow> \<exists>h. v = CBorrow h
      | Some (TResource _) \<Rightarrow> \<exists>h. v = COwn h
      | Some (TGeneric _) \<Rightarrow> \<exists>h. v = COwn h
      | _ \<Rightarrow> False)"

definition well_typed :: "program \<Rightarrow> component_value \<Rightarrow> comp_valtype \<Rightarrow> bool" where
  "well_typed p v ty \<longleftrightarrow> typed_val (typed (type_depth p) p) v ty"

section \<open>Loading from memory\<close>

lemma read_string_scalars: "read_string_from_memory st m ptr len enc = Inr s \<Longrightarrow> list_all is_scalar s"
  by (auto simp: read_string_from_memory_def decode_utf16_le_def res_simps latin1_scalars
      dest: from_utf8_scalars from_utf16_scalars split: string_encoding.splits option.splits if_splits)

lemma read_primitive_typed: "read_primitive_from_memory prim opts st m ptr = Inr v \<Longrightarrow> typed_prim prim v"
  by (cases prim)
    (auto simp: read_primitive_from_memory_def typed_prim_def res_simps char_from_u32_def
      dest: read_string_scalars split: if_splits)

definition reads_typed :: "conformance \<Rightarrow> reader \<Rightarrow> bool" where
  "reads_typed cf rd \<longleftrightarrow> (\<forall>i ptr v. rd i ptr = Inr v \<longrightarrow> cf v i)"

lemma read_value_typed:
  "reads_typed cf rd \<Longrightarrow> read_value_from_memory rd ty opts st m ptr = Inr v \<Longrightarrow> typed_val cf v ty"
  by (cases ty) (auto simp: reads_typed_def read_value_from_memory_def typed_val_def dest: read_primitive_typed)

lemma read_fields_typed:
  assumes "reads_typed cf rd"
    and "rfold (read_field rd opts p st m ptr) fs (pre, cur) = Inr (vs, cur')"
  shows "\<exists>rest. vs = pre @ rest \<and> list_all2 (\<lambda>x f. typed_val cf x (fl_ty f)) rest fs"
  using assms(2)
proof (induction fs arbitrary: pre cur)
  case (Cons f fs)
  then obtain x where x: "read_field rd opts p st m ptr f (pre, cur) = Inr x"
    "rfold (read_field rd opts p st m ptr) fs x = Inr (vs, cur')" by (auto simp: res_simps)
  from x(1) obtain v cur1 cur2 where v: "read_value_from_memory rd (fl_ty f) opts st m (ptr + cur1) = Inr v"
    and "x = (pre @ [v], cur2)" by (auto simp: read_field_def res_simps Let_def)
  with x(2) have "rfold (read_field rd opts p st m ptr) fs (pre @ [v], cur2) = Inr (vs, cur')" by simp
  from Cons.IH [OF this] read_value_typed [OF assms(1) v] show ?case by auto
qed simp

lemma read_record_typed:
  "reads_typed cf rd \<Longrightarrow> read_record_value_from_memory rd fs opts p st m ptr = Inr v \<Longrightarrow> typed_record cf fs v"
  by (auto simp: read_record_value_from_memory_def res_simps typed_record_def record_of_def
      dest!: read_fields_typed)

lemma read_variant_typed:
  assumes "reads_typed cf rd" "read_variant_value_from_memory rd cases opts p st m ptr = Inr v"
  shows "typed_variant cf cases v"
proof -
  from assms(2) obtain d c off payload where c: "get_idx cases d = Some c" "v = variant_of cases c payload"
    "(case cs_ty c of None \<Rightarrow> Inr None
      | Some ty \<Rightarrow> rbind (read_value_from_memory rd ty opts st m (ptr + off)) (\<lambda>v. Inr (Some v))) = Inr payload"
    by (auto simp: read_variant_value_from_memory_def res_simps)
  from c(1) have "c \<in> set cases" by (auto simp: get_idx_def split: if_splits)
  moreover have "case cs_ty c of None \<Rightarrow> v = variant_of cases c None
      | Some ty \<Rightarrow> \<exists>x. typed_val cf x ty \<and> v = variant_of cases c (Some x)"
    using c(2,3) by (auto simp: res_simps split: option.splits intro: read_value_typed [OF assms(1)])
  ultimately show ?thesis unfolding typed_variant_def by blast
qed

lemma chunks_subseq:
  "subseq (concat (map (\<lambda>start. flags_chunk labels start (bits start)) (chunk_starts labels))) labels"
proof -
  let ?W = "div_ceil (length labels) 32"
  let ?P = "\<lambda>k b. 32 * k + b < length labels \<and> bits (32 * k) AND push_bit b 1 \<noteq> 0"
  have "flags_chunk labels (32 * k) (bits (32 * k)) = map (\<lambda>b. labels ! (32 * k + b)) (filter (?P k) [0..<32])" for k
    by (simp add: flags_chunk_def)
  have "concat (map (\<lambda>start. flags_chunk labels start (bits start)) (chunk_starts labels)) =
      concat (map (\<lambda>k. map (\<lambda>b. labels ! (32 * k + b)) (filter (\<lambda>b. ?P ((32 * k + b) div 32) ((32 * k + b) mod 32)) [0..<32])) [0..<?W])"
    by (auto simp: chunk_starts_def flags_chunk_def comp_def intro!: arg_cong [where f = concat] map_cong filter_cong)
  also have "\<dots> = map ((!) labels) (filter (\<lambda>j. ?P (j div 32) (j mod 32)) [0..<32 * ?W])"
    by (rule concat_chunks)
  also have "filter (\<lambda>j. ?P (j div 32) (j mod 32)) [0..<32 * ?W] = filter (\<lambda>j. ?P (j div 32) (j mod 32)) [0..<length labels]"
  proof -
    have "[0..<32 * ?W] = [0..<length labels] @ [length labels..<32 * ?W]"
      using div_ceil_32(1) [of "length labels"] upt_add_eq_append [of 0 "length labels" "32 * ?W - length labels"] by simp
    moreover have "filter (\<lambda>j. ?P (j div 32) (j mod 32)) [length labels..<32 * ?W] = []"
      by (simp add: filter_empty_conv)
    ultimately show ?thesis by simp
  qed
  finally have "concat (map (\<lambda>start. flags_chunk labels start (bits start)) (chunk_starts labels)) =
      map ((!) labels) (filter (\<lambda>j. ?P (j div 32) (j mod 32)) [0..<length labels])" .
  moreover have "subseq (map ((!) labels) (filter (\<lambda>j. ?P (j div 32) (j mod 32)) [0..<length labels])) (map ((!) labels) [0..<length labels])"
    by (intro subseq_map subseq_filter_left)
  ultimately show ?thesis by (simp add: map_nth)
qed

lemma read_list_typed:
  assumes "reads_typed cf rd" "read_list_elements rd elem base len opts p st m = Inr vs"
  shows "list_all (\<lambda>x. typed_val cf x elem) vs \<and> length vs = unat len"
proof -
  from assms(2) obtain stride where "rmap (\<lambda>index.
           if unat stride * index < 2 ^ 32 \<and> unat base + unat stride * index < 2 ^ 32
           then read_value_from_memory rd elem opts st m (base + stride * of_nat index)
           else Inl (Trap ''list element is outside the address space'')) [0..<unat len] = Inr vs"
    by (auto simp: read_list_elements_def res_simps split: if_splits)
  then show ?thesis
    by (auto simp: rmap_Inr_iff list_all_length split: if_splits intro: read_value_typed [OF assms(1)])
qed

lemma fixed_len_typed: "check_fixed_len fixed_len (unat (len :: u32)) e = Inr () \<Longrightarrow>
    (case fixed_len of None \<Rightarrow> unat len < 2 ^ 32 | Some n \<Rightarrow> unat len = n)"
  using unat_lt_u32 [of len] by (auto simp: check_fixed_len_def split: option.splits if_splits)

lemma read_defined_typed: "reads_typed (typed n p) (read_defined_value_from_memory n opts p st m)"
proof (induction n)
  case (Suc n)
  have "typed (Suc n) p v i" if h: "read_defined_value_from_memory (Suc n) opts p st m i ptr = Inr v" for i ptr v
  proof -
    from h obtain ty where ty: "get_type p i = Some ty" by (auto simp: res_simps Let_def)
    show ?thesis
    proof (cases ty)
      case (TDefVal d)
      with h ty Suc show ?thesis
        by (cases d)
          (auto simp: res_simps read_list_value_from_memory_def typed_list_def read_flags_value_from_memory_def
            chunks_subseq dest: read_primitive_typed read_record_typed [OF Suc] read_variant_typed [OF Suc]
            dest!: read_list_typed [OF Suc] fixed_len_typed split: option.splits)
    qed (use h ty in \<open>auto simp: res_simps\<close>)
  qed
  then show ?case by (simp add: reads_typed_def del: typed.simps read_defined_value_from_memory.simps)
qed (simp add: reads_typed_def)

section \<open>Lifting from core values\<close>

lemma lift_primitive_typed: "lift_primitive prim opts st cu = (Inr v, cu') \<Longrightarrow> typed_prim prim v"
  by (cases prim)
    (auto simp: lift_primitive_def typed_prim_def res_simps char_from_u32_def dest: read_string_scalars split: if_splits)

definition lifts_typed :: "conformance \<Rightarrow> lifter \<Rightarrow> bool" where
  "lifts_typed cf li \<longleftrightarrow> (\<forall>i cu v cu'. li i cu = (Inr v, cu') \<longrightarrow> cf v i)"

lemma lift_value_typed:
  "lifts_typed cf li \<Longrightarrow> lift_value li ty opts st cu = (Inr v, cu') \<Longrightarrow> typed_val cf v ty"
  by (cases ty) (auto simp: lifts_typed_def lift_value_def typed_val_def dest: lift_primitive_typed)

lemma amap_results:
  assumes "amap g xs cu = (Inr ys, cu')" "\<And>x cu y cu'. g x cu = (Inr y, cu') \<Longrightarrow> P y x"
  shows "list_all2 P ys xs"
  using assms(1)
proof (induction xs arbitrary: ys cu)
  case (Cons x xs)
  then show ?case by (auto simp: res_simps dest: assms(2))
qed simp

lemma lift_payload_typed:
  assumes "lifts_typed cf li" "c \<in> set cases"
    and "(case cs_ty c of
              Some ty \<Rightarrow>
                abind (alift (flat_types p ty)) (\<lambda>expected_types.
                abind (alift (rmap (\<lambda>(index, expected).
                    rbind (index_or_panic raw index) (\<lambda>x.
                    rbind (index_or_panic pt index) (\<lambda>ty. coerce_flat_value x ty expected)))
                  (enumerate 0 expected_types))) (\<lambda>values.
                abind (alift (lift_value_from_flat_values li ty opts st values)) (\<lambda>x. aret (Some x))))
            | None \<Rightarrow> aret None) s = (Inr payload, s')"
  shows "typed_variant cf cases (variant_of cases c payload)"
proof (cases "cs_ty c")
  case None
  with assms(2,3) show ?thesis by (auto simp: typed_variant_def intro!: bexI [of _ c])
next
  case (Some ty)
  with assms(3) obtain xs x where x: "lift_value_from_flat_values li ty opts st xs = Inr x" "payload = Some x"
    by (auto simp: res_simps)
  then obtain cu' where "lift_value li ty opts st (cursor_new xs) = (Inr x, cu')"
    by (cases "lift_value li ty opts st (cursor_new xs)") (auto simp: lift_value_from_flat_values_def)
  from lift_value_typed [OF assms(1) this] Some x(2) assms(2) show ?thesis
    by (auto simp: typed_variant_def intro!: bexI [of _ c])
qed

lemma lift_variant_typed:
  assumes "lifts_typed cf li" "lift_variant_value li cases opts p st cu = (Inr v, cu')"
  shows "typed_variant cf cases v"
proof -
  note payload = lift_payload_typed [OF assms(1)]
  from assms(2) show ?thesis
    by (auto simp: lift_variant_value_def res_simps Let_def intro: payload [rotated])
qed

lemma lift_flags_typed:
  assumes "lift_flags_value labels cu = (Inr v, cu')"
  shows "\<exists>sel. v = CFlags sel \<and> subseq sel labels"
proof -
  from assms obtain sel s where sel: "amap (\<lambda>start. abind next_i32 (\<lambda>bits. aret (flags_chunk labels start bits)))
      (chunk_starts labels) cu = (Inr sel, s)" "v = CFlags (concat sel)"
    by (auto simp: lift_flags_value_def res_simps)
  have "list_all2 (\<lambda>c start. \<exists>bits. c = flags_chunk labels start bits) sel (chunk_starts labels)"
    by (rule amap_results [OF sel(1)]) (auto simp: res_simps)
  then obtain g where g: "\<And>k. k < length (chunk_starts labels) \<Longrightarrow> sel ! k = flags_chunk labels (chunk_starts labels ! k) (g k)"
    "length sel = length (chunk_starts labels)"
    unfolding list_all2_conv_all_nth by metis
  have "sel = map (\<lambda>start. flags_chunk labels start (g (start div 32))) (chunk_starts labels)"
    by (rule nth_equalityI) (auto simp: g chunk_starts_def)
  with chunks_subseq [of labels "\<lambda>start. g (start div 32)"] sel(2) show ?thesis by auto
qed

lemma lift_defined_typed: "lifts_typed (typed n p) (lift_defined_value n opts p st)"
proof (induction n)
  case (Suc n)
  have "typed (Suc n) p v i" if h: "lift_defined_value (Suc n) opts p st i cu = (Inr v, cu')" for i cu v cu'
  proof -
    from h obtain ty where ty: "get_type p i = Some ty" by (auto simp: res_simps Let_def)
    show ?thesis
    proof (cases ty)
      case (TDefVal d)
      with h ty show ?thesis
        by (cases d)
          (auto simp: res_simps Let_def lift_record_value_def typed_record_def record_of_def lift_list_value_def typed_list_def
            dest: lift_primitive_typed lift_variant_typed [OF Suc] lift_flags_typed
            dest!: amap_results [where P = "\<lambda>x f. typed_val (typed n p) x (fl_ty f)", OF _ lift_value_typed [OF Suc]]
              read_list_typed [OF read_defined_typed] fixed_len_typed split: option.splits)
    qed (use h ty in \<open>auto simp: res_simps Let_def\<close>)
  qed
  then show ?case by (simp add: lifts_typed_def del: typed.simps lift_defined_value.simps)
qed (simp add: lifts_typed_def)

section \<open>The depth is enough\<close>

text \<open>\<open>StackOverflow\<close> marks a recursion deeper than the bound of the model.  On the types of a
  compiled program, none of whose resource types refers back to itself, lifting never reaches it.\<close>

definition resources_resolve :: "program \<Rightarrow> bool" where
  "resources_resolve p \<longleftrightarrow>
     (\<forall>i < length (pr_types p). validate_resource_type (resource_depth p) p i \<noteq> Inl StackOverflow)"

text \<open>\<open>within_depth r\<close>: the result is not the one that marks the bound.\<close>

definition within_depth :: "component_error + 'a \<Rightarrow> bool" where
  "within_depth r \<longleftrightarrow> r \<noteq> Inl StackOverflow"

lemma within_depth_simps [simp]:
  "within_depth (Inr a)" "within_depth (Inl e) \<longleftrightarrow> e \<noteq> StackOverflow"
  by (auto simp: within_depth_def)

lemma resources_no_overflow:
  assumes "resources_resolve p"
  shows "within_depth (validate_resource_type (resource_depth p) p i)"
proof (cases "i < length (pr_types p)")
  case False
  then show ?thesis by (cases "resource_depth p") (auto simp: get_type_def get_idx_def resource_depth_def)
qed (use assms in \<open>simp add: resources_resolve_def within_depth_def\<close>)

lemma rbind_no_overflow:
  "within_depth r \<Longrightarrow> (\<And>a. r = Inr a \<Longrightarrow> within_depth (k a)) \<Longrightarrow> within_depth (rbind r k)"
  by (auto simp: within_depth_def res_simps)

lemma rfold_within: "(\<And>x acc. x \<in> set xs \<Longrightarrow> within_depth (g x acc)) \<Longrightarrow> within_depth (rfold g xs acc)"
  unfolding within_depth_def by (rule rfold_no_overflow)

lemma rmap_no_overflow: "(\<And>x. x \<in> set xs \<Longrightarrow> within_depth (g x)) \<Longrightarrow> within_depth (rmap g xs)"
  by (induction xs) (auto intro!: rbind_no_overflow)

lemma ok_or_no_overflow: "e \<noteq> StackOverflow \<Longrightarrow> within_depth (ok_or e x)"
  by (cases x) auto

lemma memory_no_overflow:
  "within_depth (read_memory st m ptr n)" "within_depth (read_memory_array n st m ptr)"
proof -
  have "within_depth (memory_addr st m)" by (simp add: memory_addr_def split: sum.split)
  then show "within_depth (read_memory st m ptr n)" "within_depth (read_memory_array n st m ptr)"
    by (auto simp: read_memory_def read_memory_array_def intro!: rbind_no_overflow ok_or_no_overflow)
qed

lemma scalars_no_overflow:
  "within_depth (read_u8_from_memory st m ptr)" "within_depth (read_u16_from_memory st m ptr)"
  "within_depth (read_i32_from_memory st m ptr)" "within_depth (read_i64_from_memory st m ptr)"
  by (auto simp: read_u8_from_memory_def read_u16_from_memory_def read_i32_from_memory_def
      read_i64_from_memory_def intro!: rbind_no_overflow memory_no_overflow)

lemma read_string_no_overflow: "within_depth (read_string_from_memory st m ptr len enc)"
  by (auto simp: read_string_from_memory_def decode_utf16_le_def split: option.splits string_encoding.splits
      intro!: rbind_no_overflow memory_no_overflow ok_or_no_overflow)

lemma abi_no_overflow:
  "within_depth (memory_abi_for_valtype ty p)" "within_depth (element_stride ty p)"
  "within_depth (variant_discriminant_size n)"
proof -
  show abi: "within_depth (memory_abi_for_valtype ty p)"
    by (cases ty) (auto simp: memory_abi_for_valtype_def memory_abi_for_type_def res_simps split: option.splits
        intro!: rbind_no_overflow ok_or_no_overflow)
  show "within_depth (element_stride ty p)"
    by (auto simp: element_stride_def intro!: rbind_no_overflow abi)
  show "within_depth (variant_discriminant_size n)" by (simp add: variant_discriminant_size_def)
qed

lemma payload_offset_no_overflow: "within_depth (variant_payload_offset_and_size cases p)"
proof -
  have "within_depth (rfold (\<lambda>c (payload_size, payload_align).
         case cs_ty c of
           None \<Rightarrow> Inr (payload_size, payload_align)
         | Some ty \<Rightarrow> rbind (memory_abi_for_valtype ty p) (\<lambda>abi.
             Inr (max payload_size (ma_size abi), max payload_align (max (ma_align abi) 1))))
       cases acc)" for acc
    by (rule rfold_within) (auto split: prod.splits option.splits intro!: rbind_no_overflow abi_no_overflow)
  then show ?thesis
    by (auto simp: variant_payload_offset_and_size_def split: prod.splits intro!: rbind_no_overflow abi_no_overflow)
qed

lemma read_primitive_no_overflow: "within_depth (read_primitive_from_memory prim opts st m ptr)"
  by (cases prim)
    (auto simp: read_primitive_from_memory_def intro!: rbind_no_overflow scalars_no_overflow memory_no_overflow
      read_string_no_overflow ok_or_no_overflow)

lemma read_value_no_overflow:
  "(\<And>i ptr. ty = VType i \<Longrightarrow> within_depth (rd i ptr)) \<Longrightarrow>
   within_depth (read_value_from_memory rd ty opts st m ptr)"
  by (cases ty) (simp_all add: read_value_from_memory_def read_primitive_no_overflow)

lemma check_fixed_no_overflow: "e \<noteq> StackOverflow \<Longrightarrow> within_depth (check_fixed_len fixed_len n e)"
  by (simp add: check_fixed_len_def split: option.split)

lemma read_list_no_overflow:
  assumes "\<And>ptr. within_depth (read_value_from_memory rd elem opts st m ptr)"
  shows "within_depth (read_list_elements rd elem base len opts p st m)"
  by (auto simp: read_list_elements_def intro!: rbind_no_overflow rmap_no_overflow abi_no_overflow assms)

lemma read_defined_no_overflow:
  assumes "resources_resolve p" "fits n (pr_types p) (VType i)"
  shows "within_depth (read_defined_value_from_memory n opts p st m i ptr)"
  using assms(2)
proof (induction n arbitrary: i ptr)
  case (Suc n)
  then have i: "i < length (pr_types p)" "get_type p i = Some (pr_types p ! i)"
    by (auto simp: get_type_def get_idx_def)
  let ?rd = "read_defined_value_from_memory n opts p st m"
  have v: "within_depth (read_value_from_memory ?rd ty opts st m ptr)"
    if "ty \<in> set (abi_deps (pr_types p ! i))" for ty ptr
    by (rule read_value_no_overflow) (use that Suc in auto)
  have rec: "within_depth (read_record_value_from_memory ?rd fs opts p st m ptr)"
    if "pr_types p ! i = TDefVal (DRecord fs)" for fs
  proof -
    have "within_depth (rfold (read_field ?rd opts p st m ptr) fs acc)" for acc
      by (rule rfold_within)
        (use that in \<open>auto simp: read_field_def Let_def split: prod.splits intro!: rbind_no_overflow abi_no_overflow v\<close>)
    then show ?thesis by (auto simp: read_record_value_from_memory_def split: prod.splits intro!: rbind_no_overflow)
  qed
  have var: "within_depth (read_variant_value_from_memory ?rd cases opts p st m ptr)"
    if "pr_types p ! i = TDefVal (DVariant cases)" for cases
  proof -
    have "within_depth ((case cs_ty c of None \<Rightarrow> Inr None
       | Some ty \<Rightarrow> rbind (read_value_from_memory ?rd ty opts st m q) (\<lambda>v. Inr (Some v))))"
      if "c \<in> set cases" for c q
      using that \<open>pr_types p ! i = TDefVal (DVariant cases)\<close>
      by (auto simp: set_map_filter_iff split: option.splits intro!: rbind_no_overflow v)
    moreover have "c \<in> set cases" if "get_idx cases d = Some c" for c d
      using that by (auto simp: get_idx_def split: if_splits)
    ultimately show ?thesis
      by (auto simp: read_variant_value_from_memory_def read_variant_discriminant_from_memory_def res_simps split: prod.splits
          intro!: rbind_no_overflow ok_or_no_overflow scalars_no_overflow abi_no_overflow payload_offset_no_overflow)
  qed
  show ?case
  proof (cases "pr_types p ! i")
    case (TDefVal d)
    then show ?thesis
      by (cases d)
        (auto simp: i(2) Let_def rec var read_primitive_no_overflow read_flags_value_from_memory_def read_list_value_from_memory_def
          intro!: rbind_no_overflow rmap_no_overflow scalars_no_overflow check_fixed_no_overflow read_list_no_overflow v
            resources_no_overflow [OF assms(1)])
  qed (auto simp: i(2) Let_def intro!: rbind_no_overflow scalars_no_overflow)
qed simp

text \<open>The same for actions on the cursor.\<close>

definition act_within :: "'a cursor_action \<Rightarrow> bool" where
  "act_within act \<longleftrightarrow> (\<forall>cu. within_depth (fst (act cu)))"

lemma act_within_basic [simp]:
  "act_within (aret a)" "act_within (afail e) \<longleftrightarrow> e \<noteq> StackOverflow" "act_within (alift r) \<longleftrightarrow> within_depth r"
  by (auto simp: act_within_def)

lemma act_within_bind:
  assumes "act_within act" "\<And>a. (\<exists>cu cu'. act cu = (Inr a, cu')) \<Longrightarrow> act_within (k a)"
  shows "act_within (abind act k)"
  unfolding act_within_def
proof
  fix cu
  show "within_depth (fst (abind act k cu))"
  proof (cases "act cu")
    case (Pair r cu')
    with assms show ?thesis by (cases r) (auto simp: act_within_def abind_def dest: spec [of _ cu])
  qed
qed

lemma act_within_amap: "(\<And>x. x \<in> set xs \<Longrightarrow> act_within (g x)) \<Longrightarrow> act_within (amap g xs)"
  by (induction xs) (auto intro!: act_within_bind simp del: action_simps)

lemma act_within_next:
  "act_within next_i32" "act_within next_i64" "act_within next_f32" "act_within next_f64" "act_within (next_for_type ty)"
proof -
  have n: "act_within cursor_next" by (simp add: act_within_def cursor_next_def split: option.split)
  show "act_within next_i32" "act_within next_i64" "act_within next_f32" "act_within next_f64" "act_within (next_for_type ty)"
    by (auto simp: next_i32_def next_i64_def next_f32_def next_f64_def next_for_type_def
        split: wasm_value.splits valtype.splits intro!: act_within_bind n)
qed

lemma lift_primitive_within: "act_within (lift_primitive prim opts st)"
  by (cases prim)
    (auto simp: lift_primitive_def require_memory_def
      intro!: act_within_bind act_within_next read_string_no_overflow ok_or_no_overflow simp del: action_simps)

lemma lift_value_within:
  "(\<And>i. ty = VType i \<Longrightarrow> act_within (li i)) \<Longrightarrow> act_within (lift_value li ty opts st)"
  by (cases ty) (simp_all add: lift_value_def lift_primitive_within)

lemma compiled_fits:
  assumes "compiled p" "valid_ty p ty"
  shows "fits (type_depth p) (pr_types p) ty"
  using assms compiled_infos(1) [OF assms(1)] by (cases ty) (auto simp: valid_ty_def)

lemma flat_within: "compiled p \<Longrightarrow> valid_ty p ty \<Longrightarrow> within_depth (flat_types p ty)"
  using flat_types_returns [OF compiled_fits] by (simp add: within_depth_def flat_types_def)

lemma payload_types_within:
  assumes "compiled p" "\<And>c ty. c \<in> set cases \<Longrightarrow> cs_ty c = Some ty \<Longrightarrow> valid_ty p ty"
  shows "within_depth (variant_payload_flat_types (flat_types_for_type (type_depth p) p) cases)"
  unfolding variant_payload_flat_types_def
  by (rule rfold_within)
    (use assms flat_within in \<open>auto simp: flat_types_def split: option.splits intro!: rbind_no_overflow\<close>)

lemma coerce_within: "within_depth (coerce_flat_value x a b)"
  by (simp add: coerce_flat_value_def split: wasm_value.splits valtype.splits)

lemma lift_variant_within:
  assumes "compiled p" "i < length (pr_types p)" "pr_types p ! i = TDefVal (DVariant cases)"
    and "\<And>c ty. c \<in> set cases \<Longrightarrow> cs_ty c = Some ty \<Longrightarrow> act_within (lift_value li ty opts st)"
  shows "act_within (lift_variant_value li cases opts p st)"
proof -
  have valid: "valid_ty p ty" if "c \<in> set cases" "cs_ty c = Some ty" for c ty
    by (rule deps_valid [OF assms(1,2)]) (use that assms(3) in \<open>auto simp: set_map_filter_iff\<close>)
  have payload: "act_within (case cs_ty c of
              Some ty \<Rightarrow>
                abind (alift (flat_types p ty)) (\<lambda>expected_types.
                abind (alift (rmap (\<lambda>(index, expected).
                    rbind (index_or_panic raw index) (\<lambda>x.
                    rbind (index_or_panic pt index) (\<lambda>ty. coerce_flat_value x ty expected)))
                  (enumerate 0 expected_types))) (\<lambda>values.
                abind (alift (lift_value_from_flat_values li ty opts st values)) (\<lambda>x. aret (Some x))))
            | None \<Rightarrow> aret None)" if c: "c \<in> set cases" for c raw pt
  proof (cases "cs_ty c")
    case (Some ty)
    have "within_depth (lift_value_from_flat_values li ty opts st vs)" for vs
      using assms(4) [OF c Some] by (simp add: act_within_def lift_value_from_flat_values_def)
    with Some flat_within [OF assms(1) valid [OF c Some]] show ?thesis
      by (auto simp: index_or_panic_def simp del: action_simps split: prod.splits
          intro!: act_within_bind rmap_no_overflow rbind_no_overflow ok_or_no_overflow coerce_within)
  qed simp
  show ?thesis
    unfolding lift_variant_value_def Let_def
    by (intro act_within_bind payload)
      (auto simp: act_within_next payload_types_within assms(1) valid act_within_amap ok_or_no_overflow res_simps)
qed

lemma lift_defined_within:
  assumes "compiled p" "resources_resolve p" "fits n (pr_types p) (VType i)"
  shows "act_within (lift_defined_value n opts p st i)"
  using assms(3)
proof (induction n arbitrary: i)
  case (Suc n)
  then have i: "i < length (pr_types p)" "get_type p i = Some (pr_types p ! i)"
    by (auto simp: get_type_def get_idx_def)
  have v: "act_within (lift_value (lift_defined_value n opts p st) ty opts st)"
    "within_depth (read_value_from_memory (read_defined_value_from_memory n opts p st m) ty opts st m ptr)"
    if "ty \<in> set (abi_deps (pr_types p ! i))" for ty m ptr
    by (rule lift_value_within read_value_no_overflow, use that Suc read_defined_no_overflow [OF assms(2)] in force)+
  show ?case
  proof (cases "pr_types p ! i")
    case (TDefVal d)
    show ?thesis
    proof (cases d)
      case (DVariant cases)
      have "act_within (lift_variant_value (lift_defined_value n opts p st) cases opts p st)"
        by (rule lift_variant_within [OF assms(1) i(1)]) (use TDefVal DVariant v in \<open>auto simp: set_map_filter_iff\<close>)
      with TDefVal DVariant show ?thesis by (simp add: i(2) Let_def del: action_simps)
    qed (use TDefVal v in \<open>auto simp: i(2) Let_def lift_primitive_within lift_record_value_def lift_flags_value_def lift_list_value_def
          require_memory_def simp del: action_simps
          intro!: act_within_bind act_within_amap act_within_next ok_or_no_overflow check_fixed_no_overflow
            read_list_no_overflow resources_no_overflow [OF assms(2)]\<close>)
  qed (auto simp: i(2) Let_def simp del: action_simps intro!: act_within_bind act_within_next)
qed simp

section \<open>Lifting is safe\<close>

lemma read_value_well_typed: "read_value ty opts p st m ptr = Inr v \<Longrightarrow> well_typed p v ty"
  unfolding read_value_def well_typed_def by (rule read_value_typed [OF read_defined_typed])

lemma lift_flat_well_typed: "lift_flat ty opts p st cu = (Inr v, cu') \<Longrightarrow> well_typed p v ty"
  unfolding lift_flat_def well_typed_def by (rule lift_value_typed [OF lift_defined_typed])

lemma read_value_within:
  assumes "compiled p" "resources_resolve p" "valid_ty p ty"
  shows "within_depth (read_value ty opts p st m ptr)"
  unfolding read_value_def
  by (rule read_value_no_overflow)
    (use assms read_defined_no_overflow [OF assms(2)] compiled_fits [OF assms(1,3)] in auto)

lemma lift_flat_within:
  assumes "compiled p" "resources_resolve p" "valid_ty p ty"
  shows "act_within (lift_flat ty opts p st)"
  unfolding lift_flat_def
  by (rule lift_value_within)
    (use assms lift_defined_within [OF assms(1,2)] compiled_fits [OF assms(1,3)] in auto)

lemma value_flat_len_within: "within_depth (value_flat_len ty p)"
  by (auto simp: value_flat_len_def split: comp_valtype.split intro!: rbind_no_overflow ok_or_no_overflow)

lemma area_offsets_length:
  assumes "value_area_layout tys p = Inr layout"
  shows "length (va_offsets layout) = length tys"
proof -
  have "rfold (\<lambda>ty (offsets, cursor, max_align).
         rbind (memory_abi_for_valtype ty p) (\<lambda>abi.
           let cursor = align_to cursor (max (ma_align abi) 1)
           in Inr (offsets @ [cursor], saturating_add cursor (ma_size abi),
                   max max_align (max (ma_align abi) 1)))) tys (pre, c, a) = Inr (offs, c', a') \<Longrightarrow>
      length offs = length pre + length tys" for pre c a offs c' a'
    by (induction tys arbitrary: pre c a) (fastforce simp: res_simps Let_def)+
  from this [of "[]"] assms show ?thesis by (auto simp: value_area_layout_def res_simps)
qed

lemma lift_args_safe:
  assumes "compiled p" "resources_resolve p" "list_all (valid_ty p) (ft_params ft)"
  shows "case lift_component_args ft args opts p st of
      Inl e \<Rightarrow> e \<noteq> StackOverflow
    | Inr vs \<Rightarrow> list_all2 (well_typed p) vs (ft_params ft)"
proof -
  have "within_depth (lift_component_args ft args opts p st)"
  proof -
    have "within_depth (function_params_flat_len ft p)"
      unfolding function_params_flat_len_def
      by (rule rfold_within) (auto intro!: rbind_no_overflow value_flat_len_within)
    moreover have "within_depth (value_area_layout (ft_params ft) p)"
      unfolding value_area_layout_def
      by (intro rbind_no_overflow rfold_within) (auto simp: Let_def split: prod.splits intro!: rbind_no_overflow abi_no_overflow)
    moreover have "within_depth (rmap (\<lambda>(ty, offset). read_value ty opts p st m (ptr + offset)) (zip (ft_params ft) offs))" for m ptr offs
      by (rule rmap_no_overflow)
        (use assms(3) in \<open>auto simp: list_all_iff dest: set_zip_leftD intro!: read_value_within [OF assms(1,2)]\<close>)
    moreover have "act_within (amap (\<lambda>ty. lift_flat ty opts p st) (ft_params ft))"
      by (rule act_within_amap) (use assms(3) in \<open>auto simp: list_all_iff intro: lift_flat_within [OF assms(1,2)]\<close>)
    ultimately show ?thesis
      by (auto simp: lift_component_args_def require_memory_def act_within_def split: list.splits wasm_value.splits
          intro!: rbind_no_overflow ok_or_no_overflow)
  qed
  moreover have "list_all2 (well_typed p) vs (ft_params ft)" if h: "lift_component_args ft args opts p st = Inr vs" for vs
  proof -
    obtain n where n: "function_params_flat_len ft p = Inr n"
      using h by (auto simp: lift_component_args_def res_simps)
    show ?thesis
    proof (cases "n > MAX_FLAT_PARAMS")
      case True
      with h n obtain m ptr layout where l: "value_area_layout (ft_params ft) p = Inr layout"
        "rmap (\<lambda>(ty, offset). read_value ty opts p st m (ptr + offset)) (zip (ft_params ft) (va_offsets layout)) = Inr vs"
        by (auto simp: lift_component_args_def res_simps)
      have "length (va_offsets layout) = length (ft_params ft)" by (rule area_offsets_length [OF l(1)])
      with l(2) show ?thesis
        by (auto simp: rmap_Inr_iff list_all2_conv_all_nth intro: read_value_well_typed)
    next
      case False
      with h n obtain cu' where "amap (\<lambda>ty. lift_flat ty opts p st) (ft_params ft) (cursor_new args) = (Inr vs, cu')"
        by (cases "amap (\<lambda>ty. lift_flat ty opts p st) (ft_params ft) (cursor_new args)") (auto simp: lift_component_args_def)
      then show ?thesis by (rule amap_results) (rule lift_flat_well_typed)
    qed
  qed
  ultimately show ?thesis by (auto simp: within_depth_def split: sum.split)
qed

text \<open>C15: Lifting the arguments of a call from a guest is safe whatever core values and memory the
  guest supplies: it ends within the recursion depth of the program's types, and if it does not
  fail, the lifted arguments are well-typed values of the parameter types: strings and characters
  are valid Unicode, variants are declared cases with payloads of the right type, flags are
  declared labels in order, and fixed-length lists have their length.\<close>

theorem lifted_arguments_well_typed:
  assumes "compiled p" "resources_resolve p" "list_all (valid_ty p) (ft_params ft)"
  shows "case lift_component_args ft args opts p st of
      Inl e \<Rightarrow> e \<noteq> StackOverflow
    | Inr vs \<Rightarrow> list_all2 (well_typed p) vs (ft_params ft)"
  by (rule lift_args_safe [OF assms])

lemma guest_resources: "resources_resolve guest_program"
proof -
  have "validate_resource_type (Suc n) guest_program i \<noteq> Inl StackOverflow" if "i < 3" for n i
  proof -
    from that have "i = 0 \<or> i = 1 \<or> i = 2" by auto
    then show ?thesis
      using guest_types_nth(1-3) by (auto simp: get_type_def get_idx_def guest_types_nth(4))
  qed
  then show ?thesis
    unfolding resources_resolve_def resource_depth_def guest_types_nth(4) by blast
qed

theorem lifted_arguments_well_typed_witness:
  "lift_component_args \<lparr>ft_params = [VPrim PU32, VType 1], ft_param_names = [], ft_result = None\<rparr>
     [WI32 5, WI32 1, WI64 9] (guest_options None) guest_program (guest_store 8 0) =
     Inr [CU32 5, COption (Some (CU64 9))] \<and>
   list_all2 (well_typed guest_program) [CU32 5, COption (Some (CU64 9))] [VPrim PU32, VType 1]"
proof -
  let ?ft = "\<lparr>ft_params = [VPrim PU32, VType 1], ft_param_names = [], ft_result = None\<rparr>"
  have run: "lift_component_args ?ft [WI32 5, WI32 1, WI64 9] (guest_options None) guest_program (guest_store 8 0) =
      Inr [CU32 5, COption (Some (CU64 9))]"
    by code_simp
  have "list_all (valid_ty guest_program) (ft_params ?ft)"
    by (simp add: valid_ty_def guest_types_nth(4))
  from lifted_arguments_well_typed [OF guest_compiled guest_resources this,
      of "[WI32 5, WI32 1, WI64 9]" "guest_options None" "guest_store 8 0"] run
  show ?thesis by simp
qed

lemma lift_results_safe:
  assumes "compiled p" "resources_resolve p" "case ft_result ft of None \<Rightarrow> True | Some ty \<Rightarrow> valid_ty p ty"
  shows "case lift_component_results ft results opts p st of
      Inl e \<Rightarrow> e \<noteq> StackOverflow
    | Inr vs \<Rightarrow> list_all2 (well_typed p) vs (case ft_result ft of None \<Rightarrow> [] | Some ty \<Rightarrow> [ty])"
proof (cases "ft_result ft")
  case (Some ty)
  let ?act = "\<lambda>n. if n > MAX_FLAT_RESULTS
      then abind next_i32 (\<lambda>pointer. abind (alift (require_memory opts)) (\<lambda>memory.
        alift (read_value ty opts p st memory pointer)))
      else lift_flat ty opts p st"
  have valid: "valid_ty p ty" using assms(3) Some by simp
  have run: "lift_component_results ft results opts p st =
      rbind (value_flat_len ty p) (\<lambda>n. fst (abind (?act n) (\<lambda>result. aret [result]) (cursor_new results)))"
    using Some by (simp add: lift_component_results_def)
  have "act_within (?act n)" for n
    by (auto simp: require_memory_def simp del: action_simps intro!: act_within_bind act_within_next ok_or_no_overflow
        read_value_within [OF assms(1,2) valid] lift_flat_within [OF assms(1,2) valid])
  then have "act_within (abind (?act n) (\<lambda>result. aret [result]))" for n
    by (rule act_within_bind) simp
  then have "within_depth (lift_component_results ft results opts p st)"
    unfolding run by (intro rbind_no_overflow value_flat_len_within) (auto simp: act_within_def)
  moreover have "list_all2 (well_typed p) vs [ty]" if h: "lift_component_results ft results opts p st = Inr vs" for vs
  proof -
    from h obtain n where "fst (abind (?act n) (\<lambda>result. aret [result]) (cursor_new results)) = Inr vs"
      unfolding run by (auto simp: res_simps)
    then obtain v cu' where v: "?act n (cursor_new results) = (Inr v, cu')" "vs = [v]"
      by (cases "?act n (cursor_new results)"; cases "fst (?act n (cursor_new results))") (auto simp: abind_def)
    have "well_typed p v ty" using v(1)
      by (auto simp: res_simps split: if_splits intro: read_value_well_typed lift_flat_well_typed)
    with v(2) show ?thesis by simp
  qed
  ultimately show ?thesis using Some by (auto simp: within_depth_def split: sum.split)
qed (simp add: lift_component_results_def)

text \<open>Lifting the result that a guest function returns is safe in the same way: it ends within
  the recursion depth, and a lifted result is one well-typed value of the result type, or no value
  for a function without a result.\<close>

theorem lifted_results_well_typed:
  assumes "compiled p" "resources_resolve p" "case ft_result ft of None \<Rightarrow> True | Some ty \<Rightarrow> valid_ty p ty"
  shows "case lift_component_results ft results opts p st of
      Inl e \<Rightarrow> e \<noteq> StackOverflow
    | Inr vs \<Rightarrow> list_all2 (well_typed p) vs (case ft_result ft of None \<Rightarrow> [] | Some ty \<Rightarrow> [ty])"
  by (rule lift_results_safe [OF assms])

theorem lifted_results_well_typed_witness:
  "lift_component_results \<lparr>ft_params = [], ft_param_names = [], ft_result = Some (VPrim PChar)\<rparr>
     [WI32 233] (guest_options None) guest_program (guest_store 8 0) = Inr [CChar 233] \<and>
   well_typed guest_program (CChar 233) (VPrim PChar)"
proof -
  let ?ft = "\<lparr>ft_params = [], ft_param_names = [], ft_result = Some (VPrim PChar)\<rparr>"
  have run: "lift_component_results ?ft [WI32 233] (guest_options None) guest_program (guest_store 8 0) = Inr [CChar 233]"
    by code_simp
  from lifted_results_well_typed [OF guest_compiled guest_resources, of ?ft "[WI32 233]" "guest_options None" "guest_store 8 0"] run
  show ?thesis by (simp add: valid_ty_def)
qed

end
