(* ===== verification/Resource_Table.thy ===== *)
theory Resource_Table
  imports Canonical
begin

text \<open>
  The resource tables of a component instance tree: \<open>SharedState\<close> of
  \<open>telomere-component/src/runtime/mod.rs\<close> with its operations in \<open>runtime/host.rs\<close>, and
  \<open>runtime_resource_id\<close> of \<open>runtime/canonical.rs\<close>, which finds the table of a resource type.
  All tables draw their handles from one 32-bit counter.  The theory states what a client of the
  tables may rely on as the locale \<open>handle_table\<close>, proves there that the tables refine a ledger
  in which every handle is issued once, for one resource type, and is dropped at most once, and
  interprets the locale on the operations of the code.  A resource identifier is represented by
  its process-wide number; a destructor is an element of a type \<open>'d\<close>.
\<close>

section \<open>The state and its operations\<close>

type_synonym resource_id = nat

record 'd resource_record =
  rr_rep :: u32
  rr_destructor :: "'d option"

record 'd shared_state =
  sh_next_resource_handle :: u32
  sh_resources :: "resource_id \<rightharpoonup> u32 \<rightharpoonup> 'd resource_record"
  sh_generic_resources :: "type_id \<rightharpoonup> resource_id"

definition default_shared :: "'d shared_state" where
  "default_shared = \<lparr>sh_next_resource_handle = 0, sh_resources = Map.empty, sh_generic_resources = Map.empty\<rparr>"

definition alloc_resource ::
  "'d shared_state \<Rightarrow> resource_id \<Rightarrow> u32 \<Rightarrow> 'd option \<Rightarrow> u32 \<times> 'd shared_state" where
  "alloc_resource sh resource rep destructor =
     (let handle = sh_next_resource_handle sh + 1;
          records = (case sh_resources sh resource of None \<Rightarrow> Map.empty | Some records \<Rightarrow> records)
      in (handle, sh\<lparr>sh_next_resource_handle := handle,
            sh_resources := (sh_resources sh)(resource \<mapsto>
              records(handle \<mapsto> \<lparr>rr_rep = rep, rr_destructor = destructor\<rparr>))\<rparr>))"

definition drop_resource ::
  "'d shared_state \<Rightarrow> resource_id \<Rightarrow> u32 \<Rightarrow> (component_error + u32 \<times> 'd option) \<times> 'd shared_state" where
  "drop_resource sh resource handle =
     (case sh_resources sh resource of
        None \<Rightarrow> (Inl (Trap ''resource handle is invalid''), sh)
      | Some records \<Rightarrow>
          (case records handle of
             None \<Rightarrow> (Inl (Trap ''resource handle is invalid''), sh)
           | Some record \<Rightarrow>
               (Inr (rr_rep record, rr_destructor record),
                sh\<lparr>sh_resources := (sh_resources sh)(resource \<mapsto> records(handle := None))\<rparr>)))"

definition resource_rep :: "'d shared_state \<Rightarrow> resource_id \<Rightarrow> u32 \<Rightarrow> component_error + u32" where
  "resource_rep sh resource handle =
     ok_or (Trap ''resource handle is invalid'')
       (map_option rr_rep (Option.bind (sh_resources sh resource) (\<lambda>records. records handle)))"

text \<open>Resolving a resource type: an abstract resource type gets a fresh identifier from the
  process-wide counter the first time it is met, and keeps it.  The state is the pair of the
  shared state and that counter.\<close>

primrec runtime_resource_id ::
  "nat \<Rightarrow> program \<Rightarrow> type_id \<Rightarrow> ('d shared_state \<times> resource_id, component_error, resource_id) action" where
  "runtime_resource_id 0 p i = afail StackOverflow"
| "runtime_resource_id (Suc n) p i =
     (case get_type p i of
        Some (TResource resource) \<Rightarrow> aret resource
      | Some (TDefVal (DOwn inner)) \<Rightarrow> runtime_resource_id n p inner
      | Some (TDefVal (DBorrow inner)) \<Rightarrow> runtime_resource_id n p inner
      | Some (TGeneric g) \<Rightarrow>
          (case gen_bound g of
             BoundEq inner \<Rightarrow> runtime_resource_id n p inner
           | BoundSub \<Rightarrow> (\<lambda>(sh, counter).
               (case sh_generic_resources sh i of
                  Some resource \<Rightarrow> (Inr resource, (sh, counter))
                | None \<Rightarrow> (Inr counter,
                    (sh\<lparr>sh_generic_resources := (sh_generic_resources sh)(i \<mapsto> counter)\<rparr>, (counter + 1) mod 2 ^ 32)))))
      | _ \<Rightarrow> afail (Runtime ''resource type is missing''))"

section \<open>The ledger\<close>

text \<open>Requests of the guests to the tables, and their outcomes.\<close>

datatype 'd handle_op = New resource_id u32 "'d option" | Drop resource_id u32 | Rep resource_id u32
datatype 'd handle_out = Handle u32 | Dropped "u32 \<times> 'd option" | Value u32

abbreviation invalid_handle :: component_error where
  "invalid_handle \<equiv> Trap ''resource handle is invalid''"

text \<open>The specification: the list of all resources ever created, in order; the handle of a
  resource is its position, counted from one, and a resource is alive until it is dropped.\<close>

type_synonym 'd ledger = "(resource_id \<times> (u32 \<times> 'd option) \<times> bool) list"

definition ledger_get :: "'d ledger \<Rightarrow> resource_id \<Rightarrow> u32 \<Rightarrow> (u32 \<times> 'd option) option" where
  "ledger_get l r h =
     (if 0 < unat h \<and> unat h \<le> length l
      then case l ! (unat h - 1) of (r', x, alive) \<Rightarrow> if r' = r \<and> alive then Some x else None
      else None)"

lemma ledger_get_Nil [simp]: "ledger_get [] r h = None"
  by (auto simp: ledger_get_def)

fun ledger_step :: "'d ledger \<Rightarrow> 'd handle_op \<Rightarrow> (component_error + 'd handle_out) \<times> 'd ledger" where
  "ledger_step l (New r rep d) = (Inr (Handle (of_nat (Suc (length l)))), l @ [(r, (rep, d), True)])"
| "ledger_step l (Drop r h) =
     (case ledger_get l r h of
        None \<Rightarrow> (Inl invalid_handle, l)
      | Some x \<Rightarrow> (Inr (Dropped x), l[unat h - 1 := (r, x, False)]))"
| "ledger_step l (Rep r h) =
     ((case ledger_get l r h of None \<Rightarrow> Inl invalid_handle | Some x \<Rightarrow> Inr (Value (fst x))), l)"

fun run_ops :: "('s \<Rightarrow> 'o \<Rightarrow> 'a \<times> 's) \<Rightarrow> 's \<Rightarrow> 'o list \<Rightarrow> 'a list \<times> 's" where
  "run_ops f s [] = ([], s)"
| "run_ops f s (x # xs) = (let (a, s') = f s x; (as, s'') = run_ops f s' xs in (a # as, s''))"

fun creations :: "'d handle_op list \<Rightarrow> nat" where
  "creations [] = 0"
| "creations (New r rep d # ops) = Suc (creations ops)"
| "creations (Drop r h # ops) = creations ops"
| "creations (Rep r h # ops) = creations ops"

lemma creations_Cons: "creations (x # ops) = creations [x] + creations ops"
  by (cases x) simp_all

lemma creations_append [simp]: "creations (as @ bs) = creations as + creations bs"
  by (induction as rule: creations.induct) simp_all

lemma run_ops_append:
  "run_ops f s (xs @ ys) =
     (fst (run_ops f s xs) @ fst (run_ops f (snd (run_ops f s xs)) ys), snd (run_ops f (snd (run_ops f s xs)) ys))"
  by (induction xs arbitrary: s) (auto simp: split_def Let_def)

lemma ledger_step_length: "length (snd (ledger_step l x)) = length l + creations [x]"
  by (cases x) (auto split: option.splits)

lemma ledger_run_length: "length (snd (run_ops ledger_step l ops)) = length l + creations ops"
proof (induction ops arbitrary: l)
  case (Cons x ops)
  then show ?case
    by (simp add: split_def Let_def ledger_step_length creations_Cons [of x ops])
qed simp

section \<open>Handle tables\<close>

text \<open>What the tables promise, in terms of the entries \<open>peek\<close> and the number of handles \<open>issued\<close>:
  while the counter has not run out, a new handle is the successor of the last one and opens
  exactly its own entry; dropping returns an entry and removes it, and what is absent is refused
  without an effect.\<close>

locale handle_table =
  fixes empty :: 's
    and new :: "'s \<Rightarrow> resource_id \<Rightarrow> u32 \<Rightarrow> 'd option \<Rightarrow> u32 \<times> 's"
    and drop_entry :: "'s \<Rightarrow> resource_id \<Rightarrow> u32 \<Rightarrow> (component_error + u32 \<times> 'd option) \<times> 's"
    and rep_of :: "'s \<Rightarrow> resource_id \<Rightarrow> u32 \<Rightarrow> component_error + u32"
    and peek :: "'s \<Rightarrow> resource_id \<Rightarrow> u32 \<Rightarrow> (u32 \<times> 'd option) option"
    and issued :: "'s \<Rightarrow> nat"
  assumes empty_issued: "issued empty = 0"
    and empty_peek: "peek empty r h = None"
    and new_handle: "issued s < 2 ^ 32 - 1 \<Longrightarrow> fst (new s r x d) = of_nat (Suc (issued s))"
    and new_issued: "issued s < 2 ^ 32 - 1 \<Longrightarrow> issued (snd (new s r x d)) = Suc (issued s)"
    and new_peek: "peek (snd (new s r x d)) r' h =
      (if r' = r \<and> h = fst (new s r x d) then Some (x, d) else peek s r' h)"
    and drop_result: "fst (drop_entry s r h) = ok_or invalid_handle (peek s r h)"
    and drop_issued: "issued (snd (drop_entry s r h)) = issued s"
    and drop_peek: "peek (snd (drop_entry s r h)) r' h' =
      (if r' = r \<and> h' = h then None else peek s r' h')"
    and rep_result: "rep_of s r h = ok_or invalid_handle (map_option fst (peek s r h))"
begin

definition step :: "'s \<Rightarrow> 'd handle_op \<Rightarrow> (component_error + 'd handle_out) \<times> 's" where
  "step s x =
     (case x of
        New r rep d \<Rightarrow> (Inr (Handle (fst (new s r rep d))), snd (new s r rep d))
      | Drop r h \<Rightarrow> (map_sum id Dropped (fst (drop_entry s r h)), snd (drop_entry s r h))
      | Rep r h \<Rightarrow> (map_sum id Value (rep_of s r h), s))"

definition represents :: "'s \<Rightarrow> 'd ledger \<Rightarrow> bool" where
  "represents s l \<longleftrightarrow> issued s = length l \<and> (\<forall>r h. peek s r h = ledger_get l r h)"

lemma represents_empty: "represents empty []"
  by (simp add: represents_def empty_issued empty_peek)

lemma new_refines:
  assumes "represents s l" "Suc (length l) < 2 ^ 32"
  shows "fst (new s r x d) = of_nat (Suc (length l))" "represents (snd (new s r x d)) (l @ [(r, (x, d), True)])"
proof -
  have rep: "issued s = length l" "peek s r h = ledger_get l r h" for r h
    using assms(1) by (simp_all add: represents_def)
  have room: "issued s < 2 ^ 32 - 1" using assms(2) by (simp add: rep)
  let ?h = "of_nat (Suc (length l)) :: u32"
  have h: "unat ?h = Suc (length l)" using assms(2) by (simp only: unat_of_nat) simp
  have "(h = ?h) = (unat h = Suc (length l))" for h by (metis h word_unat_eq_iff)
  then have "peek (snd (new s r x d)) r' h = ledger_get (l @ [(r, (x, d), True)]) r' h" for r' h
    by (auto simp: new_peek new_handle [OF room] rep ledger_get_def nth_append)
  then show "fst (new s r x d) = of_nat (Suc (length l))"
    "represents (snd (new s r x d)) (l @ [(r, (x, d), True)])"
    by (simp_all add: represents_def new_handle [OF room] new_issued [OF room] rep)
qed

lemma drop_refines:
  assumes "represents s l" "ledger_get l r h = Some y"
  shows "represents (snd (drop_entry s r h)) (l[unat h - 1 := (r, y, False)])"
proof -
  have rep: "issued s = length l" "peek s r h = ledger_get l r h" for r h
    using assms(1) by (simp_all add: represents_def)
  from assms(2) have b: "0 < unat h" "unat h \<le> length l"
    by (auto simp: ledger_get_def split: if_splits prod.splits)
  have "h' = h" if "unat h' - 1 = unat h - 1" "0 < unat h'" for h'
  proof -
    from that b(1) have "unat h' = unat h" by linarith
    then show ?thesis by (simp add: word_unat_eq_iff)
  qed
  with b have "peek (snd (drop_entry s r h)) r' h' = ledger_get (l[unat h - 1 := (r, y, False)]) r' h'" for r' h'
    by (cases "h' = h")
      (use assms(2) in \<open>auto simp: drop_peek rep ledger_get_def nth_list_update split: prod.splits if_splits\<close>)
  then show ?thesis by (simp add: represents_def drop_issued rep)
qed

lemma drop_refused: "represents s l \<Longrightarrow> ledger_get l r h = None \<Longrightarrow> represents (snd (drop_entry s r h)) l"
  by (auto simp: represents_def drop_issued drop_peek)

lemma step_refines:
  assumes "represents s l" "length l + creations [x] < 2 ^ 32"
  shows "fst (step s x) = fst (ledger_step l x) \<and> represents (snd (step s x)) (snd (ledger_step l x))"
proof -
  have rep: "peek s r h = ledger_get l r h" for r h
    using assms(1) by (simp add: represents_def)
  show ?thesis
    by (cases x)
      (use assms in \<open>auto simp: step_def new_refines drop_refines [simplified] drop_refused drop_result rep_result rep split: option.splits\<close>)
qed

lemma run_refines:
  assumes "represents s l" "length l + creations ops < 2 ^ 32"
  shows "fst (run_ops step s ops) = fst (run_ops ledger_step l ops) \<and>
    represents (snd (run_ops step s ops)) (snd (run_ops ledger_step l ops))"
  using assms
proof (induction ops arbitrary: s l)
  case (Cons x ops)
  have "length l + creations [x] < 2 ^ 32" using Cons.prems(2) creations_Cons [of x ops] by simp
  from step_refines [OF Cons.prems(1) this] Cons.IH [of "snd (step s x)" "snd (ledger_step l x)"]
  show ?case
    using Cons.prems(2) creations_Cons [of x ops] by (simp add: split_def Let_def ledger_step_length)
qed simp

end

section \<open>The tables of the code\<close>

definition shared_peek :: "'d shared_state \<Rightarrow> resource_id \<Rightarrow> u32 \<Rightarrow> (u32 \<times> 'd option) option" where
  "shared_peek sh r h =
     (case sh_resources sh r of
        None \<Rightarrow> None
      | Some records \<Rightarrow> map_option (\<lambda>rc. (rr_rep rc, rr_destructor rc)) (records h))"

definition shared_issued :: "'d shared_state \<Rightarrow> nat" where
  "shared_issued sh = unat (sh_next_resource_handle sh)"

lemma counter_step: "unat (w :: u32) < 2 ^ 32 - 1 \<Longrightarrow> unat (w + 1) = Suc (unat w)"
  by (simp add: unat_word_ariths)

interpretation shared: handle_table default_shared alloc_resource drop_resource resource_rep shared_peek shared_issued
proof unfold_locales
  fix s :: "'d shared_state" and r x d
  assume "shared_issued s < 2 ^ 32 - 1"
  then have succ: "unat (sh_next_resource_handle s + 1) = Suc (shared_issued s)"
    unfolding shared_issued_def by (rule counter_step)
  then show "fst (alloc_resource s r x d) = of_nat (Suc (shared_issued s))"
    by (metis alloc_resource_def fst_conv of_nat_unat ucast_id)
  from succ show "shared_issued (snd (alloc_resource s r x d)) = Suc (shared_issued s)"
    by (simp add: alloc_resource_def shared_issued_def Let_def)
qed (auto simp: default_shared_def alloc_resource_def drop_resource_def resource_rep_def shared_peek_def shared_issued_def
  Let_def option.map_comp comp_def split: option.splits)

text \<open>A request to the tables of the code.\<close>

fun shared_step :: "'d shared_state \<Rightarrow> 'd handle_op \<Rightarrow> (component_error + 'd handle_out) \<times> 'd shared_state" where
  "shared_step sh (New r rep d) = (let (h, sh') = alloc_resource sh r rep d in (Inr (Handle h), sh'))"
| "shared_step sh (Drop r h) =
     (case drop_resource sh r h of (Inl e, sh') \<Rightarrow> (Inl e, sh') | (Inr x, sh') \<Rightarrow> (Inr (Dropped x), sh'))"
| "shared_step sh (Rep r h) = (case resource_rep sh r h of Inl e \<Rightarrow> (Inl e, sh) | Inr rep \<Rightarrow> (Inr (Value rep), sh))"

lemma shared_step_eq: "shared_step = shared.step"
proof (intro ext)
  fix sh :: "'d shared_state" and x
  show "shared_step sh x = shared.step sh x"
    by (cases x) (auto simp: shared.step_def split_def Let_def split: prod.splits sum.splits)
qed

lemma shared_run_represents:
  assumes "creations ops < 2 ^ 32"
  shows "shared.represents (snd (run_ops shared_step default_shared ops)) (snd (run_ops ledger_step [] ops))"
  using shared.run_refines [OF shared.represents_empty, of ops] assms by (simp add: shared_step_eq)

text \<open>C19: The resource tables refine the ledger: for every sequence of requests that creates fewer
  than \<open>2 ^ 32\<close> resources, every handle and every refusal that the tables return is the one of the
  ledger.  A handle is thus never issued twice, is never zero, is accepted only for the resource
  type it was issued for, and is accepted until it is dropped and never again.\<close>

theorem resource_tables_refine_ledger:
  assumes "creations ops < 2 ^ 32"
  shows "fst (run_ops shared_step default_shared ops) = fst (run_ops ledger_step [] ops)"
  using shared.run_refines [OF shared.represents_empty, of ops] assms by (simp add: shared_step_eq)

theorem resource_tables_refine_ledger_witness:
  "creations [New 3 7 None, New 4 8 (Some True), Rep 3 1, Rep 4 1, Drop 4 2, Drop 4 2] < 2 ^ 32 \<and>
   fst (run_ops shared_step default_shared [New 3 7 None, New 4 8 (Some True), Rep 3 1, Rep 4 1, Drop 4 2, Drop 4 2]) =
     [Inr (Handle 1), Inr (Handle 2), Inr (Value 7), Inl (Trap ''resource handle is invalid''),
      Inr (Dropped (8, Some True)), Inl (Trap ''resource handle is invalid'')]"
proof -
  let ?ops = "[New 3 7 None, New 4 8 (Some True), Rep 3 1, Rep 4 1, Drop 4 2, Drop 4 2]"
  have "creations ?ops < 2 ^ 32" by simp
  with resource_tables_refine_ledger [OF this] show ?thesis by (simp add: ledger_get_def)
qed

text \<open>A resource of the ledger that is not alive stays so.\<close>

definition dead :: "'d ledger \<Rightarrow> u32 \<Rightarrow> bool" where
  "dead l h \<longleftrightarrow> 0 < unat h \<and> unat h \<le> length l \<and> \<not> snd (snd (l ! (unat h - 1)))"

lemma dead_get: "dead l h \<Longrightarrow> ledger_get l r h = None"
  by (auto simp: dead_def ledger_get_def split: prod.splits)

lemma dead_step: "dead l h \<Longrightarrow> dead (snd (ledger_step l x)) h"
  by (cases x) (auto simp: dead_def nth_append nth_list_update ledger_get_def split: option.splits if_splits prod.splits)

lemma dead_run: "dead l h \<Longrightarrow> dead (snd (run_ops ledger_step l ops)) h"
  by (induction ops arbitrary: l) (auto simp: split_def Let_def dead_step)

lemma dropped_dead: "ledger_get l r h = Some x \<Longrightarrow> dead (snd (ledger_step l (Drop r h))) h"
  by (auto simp: dead_def ledger_get_def split: if_splits prod.splits)

text \<open>A handle that has been dropped is refused from then on, whatever requests follow and
  whatever resource type it is presented for: both \<open>drop_resource\<close> and \<open>resource_rep\<close> trap and
  leave the tables as they are.\<close>

theorem dropped_handle_traps:
  assumes "snd (run_ops shared_step default_shared before) = sh"
    and "drop_resource sh r h = (Inr x, sh')"
    and "snd (run_ops shared_step sh' after) = sh''"
    and "creations (before @ after) < 2 ^ 32"
  shows "drop_resource sh'' r' h = (Inl (Trap ''resource handle is invalid''), sh'') \<and>
    resource_rep sh'' r' h = Inl (Trap ''resource handle is invalid'')"
proof -
  let ?ops = "before @ Drop r h # after"
  have end_state: "snd (run_ops shared_step default_shared ?ops) = sh''"
    using assms(1-3) by (simp add: run_ops_append split_def Let_def)
  let ?l = "snd (run_ops ledger_step [] before)"
  have "shared_peek sh r h = ledger_get ?l r h"
    using shared_run_represents [of before] assms(1,4) by (simp add: shared.represents_def)
  then have "ledger_get ?l r h = Some x"
    using assms(2) shared.drop_result [of sh r h] by (cases "ledger_get ?l r h") auto
  then have "dead (snd (run_ops ledger_step [] ?ops)) h"
    by (simp add: run_ops_append split_def Let_def dead_run dropped_dead del: ledger_step.simps)
  moreover have "shared.represents sh'' (snd (run_ops ledger_step [] ?ops))"
    using shared_run_represents [of ?ops] assms(4) end_state by simp
  ultimately have gone: "shared_peek sh'' r' h = None" by (simp add: shared.represents_def dead_get)
  then have "resource_rep sh'' r' h = Inl (Trap ''resource handle is invalid'')"
    by (simp add: shared.rep_result)
  with gone show ?thesis
    by (auto simp: shared_peek_def drop_resource_def split: option.splits)
qed

theorem dropped_handle_traps_witness:
  "\<exists>sh. snd (run_ops shared_step default_shared [New 3 7 (None :: unit option), Drop 3 1, New 3 9 None]) = sh \<and>
     drop_resource sh 3 1 = (Inl (Trap ''resource handle is invalid''), sh) \<and>
     resource_rep sh 4 1 = Inl (Trap ''resource handle is invalid'')"
proof -
  define a where "a = snd (run_ops shared_step default_shared [New 3 7 (None :: unit option)])"
  define b where "b = snd (drop_resource a 3 1)"
  define c where "c = snd (run_ops shared_step b [New 3 9 None])"
  have d: "drop_resource a 3 1 = (Inr (7, None), b)"
    by (simp add: b_def a_def default_shared_def alloc_resource_def drop_resource_def)
  have n: "creations ([New 3 7 (None :: unit option)] @ [New 3 9 None]) < 2 ^ 32" by simp
  have "snd (run_ops shared_step default_shared [New 3 7 (None :: unit option), Drop 3 1, New 3 9 None]) = c"
    using d by (simp add: a_def c_def split_def Let_def)
  with dropped_handle_traps [OF a_def [symmetric] d c_def [symmetric] n] show ?thesis by simp
qed

section \<open>Running out of handles\<close>

text \<open>A component that keeps one resource and creates and drops others: after \<open>m - 1\<close> creations
  the first resource is still in its table.\<close>

definition churn :: "resource_id \<Rightarrow> u32 \<Rightarrow> nat \<Rightarrow> unit handle_op list" where
  "churn r a m = New r a None # concat (map (\<lambda>k. [New r 0 None, Drop r (of_nat k)]) [2 ..< m])"

lemma churn_Suc: "2 \<le> m \<Longrightarrow> churn r a (Suc m) = churn r a m @ [New r 0 None, Drop r (of_nat m)]"
  by (simp add: churn_def)

lemma churn_state:
  assumes "2 \<le> m" "m \<le> 2 ^ 32 + 1" "sh = snd (run_ops shared_step default_shared (churn r a m))"
  shows "sh_next_resource_handle sh = of_nat (m - 1)" "shared_peek sh r 1 = Some (a, None)"
proof -
  have "sh_next_resource_handle sh = of_nat (m - 1) \<and> shared_peek sh r 1 = Some (a, None)"
    using assms
  proof (induction m arbitrary: sh rule: dec_induct)
    case base
    then show ?case by (simp add: churn_def alloc_resource_def default_shared_def shared_peek_def)
  next
    case (step m)
    define sh0 where "sh0 = snd (run_ops shared_step default_shared (churn r a m))"
    have IH: "sh_next_resource_handle sh0 = of_nat (m - 1)" "shared_peek sh0 r 1 = Some (a, None)"
      using step.IH [OF _ sh0_def] step.prems by auto
    define sh1 where "sh1 = snd (alloc_resource sh0 r 0 None)"
    have h: "fst (alloc_resource sh0 r 0 None) = of_nat m"
      using IH(1) step.hyps by (simp add: alloc_resource_def Let_def of_nat_diff)
    have "unat (of_nat m :: u32) \<noteq> 1"
      using step.hyps step.prems by (simp only: unat_of_nat) (auto simp: mod_if)
    then have ne: "(1 :: u32) \<noteq> of_nat m" by (metis unat_1)
    have run: "sh = snd (drop_resource sh1 r (of_nat m))"
      unfolding step.prems(2) churn_Suc [OF step.hyps(1)]
      by (simp add: run_ops_append split_def Let_def sh0_def [symmetric] sh1_def split: sum.split prod.split)
    have "shared_peek sh r 1 = Some (a, None)"
      using IH(2) ne by (simp add: run shared.drop_peek sh1_def shared.new_peek h)
    moreover have "sh_next_resource_handle sh = of_nat m"
      using h by (auto simp: run sh1_def drop_resource_def alloc_resource_def Let_def split: option.splits)
    ultimately show ?case by simp
  qed
  then show "sh_next_resource_handle sh = of_nat (m - 1)" "shared_peek sh r 1 = Some (a, None)" by auto
qed

text \<open>C31: The bound on the number of creations is sharp: the handle counter wraps.  A component
  that keeps its first resource, with handle 1, and creates and drops \<open>2 ^ 32 - 1\<close> others gets
  handle 1 again for its next resource, whose record replaces the one of the live resource.\<close>

theorem handle_counter_wraps:
  "\<exists>sh. sh = snd (run_ops shared_step default_shared (churn r a (2 ^ 32 + 1))) \<and>
     resource_rep sh r 1 = Inr a \<and>
     fst (alloc_resource sh r b None) = 1 \<and>
     resource_rep (snd (alloc_resource sh r b None)) r 1 = Inr b"
proof -
  define sh where "sh = snd (run_ops shared_step default_shared (churn r a (2 ^ 32 + 1)))"
  have "sh_next_resource_handle sh = of_nat (2 ^ 32 + 1 - 1)" "shared_peek sh r 1 = Some (a, None)"
    by (rule churn_state [OF _ _ sh_def]; simp)+
  then have n: "sh_next_resource_handle sh = 0" and p: "shared_peek sh r 1 = Some (a, None)" by simp_all
  from n have h: "fst (alloc_resource sh r b None) = 1" by (simp add: alloc_resource_def Let_def)
  with p have "resource_rep sh r 1 = Inr a" "resource_rep (snd (alloc_resource sh r b None)) r 1 = Inr b"
    by (simp_all add: shared.rep_result shared.new_peek)
  with h sh_def show ?thesis by blast
qed

section \<open>Resource types\<close>

text \<open>The resource type that a type stands for: a concrete resource, or an abstract one, named by
  the type that binds it.\<close>

datatype resource_key = Concrete resource_id | Abstract type_id

primrec key_of_type :: "nat \<Rightarrow> program \<Rightarrow> type_id \<Rightarrow> component_error + resource_key" where
  "key_of_type 0 p i = Inl StackOverflow"
| "key_of_type (Suc n) p i =
     (case get_type p i of
        Some (TResource r) \<Rightarrow> Inr (Concrete r)
      | Some (TDefVal (DOwn inner)) \<Rightarrow> key_of_type n p inner
      | Some (TDefVal (DBorrow inner)) \<Rightarrow> key_of_type n p inner
      | Some (TGeneric g) \<Rightarrow> (case gen_bound g of BoundEq inner \<Rightarrow> key_of_type n p inner | BoundSub \<Rightarrow> Inr (Abstract i))
      | _ \<Rightarrow> Inl (Runtime ''resource type is missing''))"

text \<open>Resolution is a lookup by that key.\<close>

definition assign :: "resource_key \<Rightarrow> ('d shared_state \<times> resource_id, component_error, resource_id) action" where
  "assign k =
     (case k of
        Concrete r \<Rightarrow> aret r
      | Abstract i \<Rightarrow> (\<lambda>(sh, counter).
          case sh_generic_resources sh i of
            Some r \<Rightarrow> (Inr r, (sh, counter))
          | None \<Rightarrow> (Inr counter,
              (sh\<lparr>sh_generic_resources := (sh_generic_resources sh)(i \<mapsto> counter)\<rparr>, (counter + 1) mod 2 ^ 32))))"

lemma runtime_resource_id_key:
  "runtime_resource_id n p i = (case key_of_type n p i of Inl e \<Rightarrow> afail e | Inr k \<Rightarrow> assign k)"
  by (induction n arbitrary: i)
    (auto simp: assign_def split: option.split comp_type.split defval.split generic_bound.split)

lemma resource_key_validates:
  "validate_resource_type n p i = rbind (key_of_type n p i) (\<lambda>_. Inr ())"
  by (induction n arbitrary: i) (auto split: option.split comp_type.split defval.split generic_bound.split)

definition key_valid :: "program \<Rightarrow> resource_key \<Rightarrow> bool" where
  "key_valid p k \<longleftrightarrow> (case k of Concrete r \<Rightarrow> TResource r \<in> set (pr_types p) | Abstract i \<Rightarrow> i < length (pr_types p))"

lemma resource_key_valid: "key_of_type n p i = Inr k \<Longrightarrow> key_valid p k"
  by (induction n arbitrary: i)
    (auto simp: get_type_def res_simps key_valid_def in_set_conv_nth
      split: option.splits comp_type.splits defval.splits generic_bound.splits)

text \<open>The identifiers that have been given to abstract resource types: pairwise different, drawn
  from the counter since it stood at \<open>c\<close>, and at most one for each type.\<close>

definition ids_drawn :: "program \<Rightarrow> resource_id \<Rightarrow> 'd shared_state \<times> resource_id \<Rightarrow> bool" where
  "ids_drawn p c s \<longleftrightarrow>
     (let g = sh_generic_resources (fst s) in
      dom g \<subseteq> {..< length (pr_types p)} \<and> ran g \<subseteq> {c ..< snd s} \<and> inj_on g (dom g) \<and> snd s = c + card (dom g))"

definition id_of :: "'d shared_state \<times> resource_id \<Rightarrow> resource_key \<Rightarrow> resource_id option" where
  "id_of s k = (case k of Concrete r \<Rightarrow> Some r | Abstract i \<Rightarrow> sh_generic_resources (fst s) i)"

lemma assign_draws:
  assumes "ids_drawn p c s" "key_valid p k" "c + length (pr_types p) < 2 ^ 32" "assign k s = (Inr r, s')"
  shows "ids_drawn p c s'" "id_of s' k = Some r" "id_of s k' = Some x \<Longrightarrow> id_of s' k' = Some x"
proof -
  have "ids_drawn p c s' \<and> id_of s' k = Some r \<and> (\<forall>k' x. id_of s k' = Some x \<longrightarrow> id_of s' k' = Some x)"
  proof (cases k)
    case (Concrete r')
    with assms show ?thesis by (auto simp: assign_def id_of_def)
  next
    case (Abstract i)
    obtain sh ctr where s: "s = (sh, ctr)" by (cases s)
    let ?g = "sh_generic_resources sh"
    have g: "dom ?g \<subseteq> {..< length (pr_types p)}" "ran ?g \<subseteq> {c ..< ctr}" "inj_on ?g (dom ?g)" "ctr = c + card (dom ?g)"
      using assms(1) unfolding ids_drawn_def s Let_def fst_conv snd_conv by blast+
    show ?thesis
    proof (cases "?g i")
      case None
      have i: "i < length (pr_types p)" using assms(2) Abstract by (simp add: key_valid_def)
      have fin: "finite (dom ?g)" using g(1) finite_subset by blast
      have i_new: "i \<notin> dom ?g" using None by auto
      have "card (insert i (dom ?g)) \<le> length (pr_types p)"
        using card_mono [of "{..< length (pr_types p)}" "insert i (dom ?g)"] g(1) i by simp
      then have "card (dom ?g) < length (pr_types p)" using i_new fin by simp
      with assms(3) g(4) have nowrap: "(ctr + 1) mod 2 ^ 32 = ctr + 1" by simp
      with assms(4) s Abstract None have s': "s' = (sh\<lparr>sh_generic_resources := ?g(i \<mapsto> ctr)\<rparr>, ctr + 1)" "r = ctr"
        by (auto simp: assign_def)
      have "ran (?g(i \<mapsto> ctr)) \<subseteq> {c ..< ctr + 1}" using g(2,4) None by (auto simp: ran_def)
      moreover have "inj_on (?g(i \<mapsto> ctr)) (dom (?g(i \<mapsto> ctr)))"
      proof -
        have "?g j \<noteq> Some ctr" for j using g(2) by (auto simp: ran_def subset_iff)
        then have "Some ctr \<notin> ?g ` dom ?g" by (metis imageE)
        then show ?thesis using g(3) i_new by (auto simp: inj_on_fun_updI)
      qed
      moreover have "card (dom (?g(i \<mapsto> ctr))) = Suc (card (dom ?g))" using i_new fin by simp
      ultimately have "ids_drawn p c s'"
        using g(1,4) i by (simp add: ids_drawn_def s' Let_def)
      with None show ?thesis by (auto simp: id_of_def s s' Abstract split: resource_key.split)
    next
      case (Some x)
      with assms(1,4) s Abstract show ?thesis by (auto simp: assign_def id_of_def)
    qed
  qed
  then show "ids_drawn p c s'" "id_of s' k = Some r" "id_of s k' = Some x \<Longrightarrow> id_of s' k' = Some x" by auto
qed

lemma resolve_run:
  assumes "ids_drawn p c s" "c + length (pr_types p) < 2 ^ 32" "amap (runtime_resource_id n p) ids s = (Inr rs, s')"
  shows "ids_drawn p c s' \<and> (\<forall>k x. id_of s k = Some x \<longrightarrow> id_of s' k = Some x) \<and>
    list_all2 (\<lambda>r i. \<exists>k. key_of_type n p i = Inr k \<and> key_valid p k \<and> id_of s' k = Some r) rs ids"
  using assms(1,3)
proof (induction ids arbitrary: s rs)
  case (Cons i ids)
  then obtain r s1 rs' where run: "runtime_resource_id n p i s = (Inr r, s1)" "amap (runtime_resource_id n p) ids s1 = (Inr rs', s')"
    "rs = r # rs'" by (auto simp: res_simps)
  from run(1) obtain k where k: "key_of_type n p i = Inr k" "assign k s = (Inr r, s1)"
    by (auto simp: runtime_resource_id_key split: sum.splits)
  note d = assign_draws [OF Cons.prems(1) resource_key_valid [OF k(1)] assms(2) k(2)]
  from Cons.IH [OF d(1) run(2)] d k resource_key_valid [OF k(1)] run(3) show ?case by auto
qed simp

lemma id_of_inj:
  assumes "ids_drawn p c s" "\<forall>r. TResource r \<in> set (pr_types p) \<longrightarrow> r < c"
    and "key_valid p k" "key_valid p k'" "id_of s k = Some x" "id_of s k' = Some x"
  shows "k = k'"
proof -
  let ?g = "sh_generic_resources (fst s)"
  have "c \<le> y" if "?g i = Some y" for i y
    using assms(1) that by (force simp: ids_drawn_def Let_def ran_def)
  moreover have "i = j" if "?g i = Some y" "?g j = Some y" for i j y
    using assms(1) that by (auto simp: ids_drawn_def Let_def inj_on_def dom_def)
  ultimately show ?thesis
    using assms(2-) by (cases k; cases k') (fastforce simp: key_valid_def id_of_def)+
qed

text \<open>C22: Resource types are not confused: however many types are resolved, in any order, two of
  them get the same table exactly when they stand for the same resource type, provided that the
  identifiers of the concrete resources were drawn before and the process-wide counter does not
  run out.\<close>

theorem resource_types_not_confused:
  assumes "\<forall>r. TResource r \<in> set (pr_types p) \<longrightarrow> r < c" "c + length (pr_types p) < 2 ^ 32"
    and "amap (runtime_resource_id n p) ids (default_shared, c) = (Inr rs, s)"
    and "i < length ids" "j < length ids"
  shows "rs ! i = rs ! j \<longleftrightarrow> key_of_type n p (ids ! i) = key_of_type n p (ids ! j)"
proof -
  have "ids_drawn p c (default_shared, c)" by (simp add: ids_drawn_def default_shared_def)
  from resolve_run [OF this assms(2,3)]
  have fin: "ids_drawn p c s" and res: "list_all2 (\<lambda>r i. \<exists>k. key_of_type n p i = Inr k \<and> key_valid p k \<and> id_of s k = Some r) rs ids"
    by auto
  then have key: "\<exists>k. key_of_type n p (ids ! m) = Inr k \<and> key_valid p k \<and> id_of s k = Some (rs ! m)" if "m < length ids" for m
    using that by (auto simp: list_all2_conv_all_nth)
  from key [OF assms(4)] key [OF assms(5)] show ?thesis using id_of_inj [OF fin assms(1)] by auto
qed

theorem resource_types_not_confused_witness:
  "\<exists>p rs s. pr_types p = [TResource 3, TGeneric \<lparr>gen_id = 0, gen_bound = BoundSub\<rparr>, TDefVal (DOwn 1),
       TGeneric \<lparr>gen_id = 1, gen_bound = BoundSub\<rparr>] \<and>
     amap (runtime_resource_id 5 p) [0, 1, 2, 3] (default_shared :: unit shared_state, 7) = (Inr rs, s) \<and>
     rs ! 1 = rs ! 2 \<and> rs ! 1 \<noteq> rs ! 3"
proof -
  let ?types = "[TResource 3, TGeneric \<lparr>gen_id = 0, gen_bound = BoundSub\<rparr>, TDefVal (DOwn 1),
       TGeneric \<lparr>gen_id = 1, gen_bound = BoundSub\<rparr>]"
  define p where "p = \<lparr>pr_types = ?types, pr_type_infos = []\<rparr>"
  have ty: "pr_types p = ?types" by (simp add: p_def)
  have "key_of_type (Suc (Suc n)) p 1 = Inr (Abstract 1)" "key_of_type (Suc (Suc n)) p 2 = Inr (Abstract 1)"
    "key_of_type (Suc (Suc n)) p 3 = Inr (Abstract 3)" "key_of_type (Suc (Suc n)) p 0 = Inr (Concrete 3)" for n
    by (simp_all add: get_type_def get_idx_def ty)
  from this [of 3] have keys: "key_of_type 5 p 1 = Inr (Abstract 1)" "key_of_type 5 p 2 = Inr (Abstract 1)"
    "key_of_type 5 p 3 = Inr (Abstract 3)" "key_of_type 5 p 0 = Inr (Concrete 3)"
    by (simp_all del: key_of_type.simps)
  obtain rs s where run: "amap (runtime_resource_id 5 p) [0, 1, 2, 3] (default_shared :: unit shared_state, 7) = (Inr rs, s)"
    by (simp add: runtime_resource_id_key keys keys(1) [unfolded One_nat_def] assign_def abind_def default_shared_def)
  have fresh: "\<forall>r. TResource r \<in> set (pr_types p) \<longrightarrow> r < 7" "7 + length (pr_types p) < 2 ^ 32" by (simp_all add: ty)
  note same = resource_types_not_confused [OF fresh run]
  have "rs ! 1 = rs ! 2 \<longleftrightarrow> key_of_type 5 p ([0, 1, 2, 3] ! 1) = key_of_type 5 p ([0, 1, 2, 3] ! 2)"
    "rs ! 1 = rs ! 3 \<longleftrightarrow> key_of_type 5 p ([0, 1, 2, 3] ! 1) = key_of_type 5 p ([0, 1, 2, 3] ! 3)"
    by (rule same; simp)+
  then have "rs ! 1 = rs ! 2" "rs ! 1 \<noteq> rs ! 3" by (simp_all add: keys keys(1) [unfolded One_nat_def])
  with ty run show ?thesis by blast
qed

end
