(* ===== verification/Component_Calls.thy ===== *)
theory Component_Calls
  imports Canonical_Safety Resource_Table
begin

text \<open>
  Calls between components, hosts and core modules: \<open>ResolvedCallable\<close>, \<open>RuntimeCoreFunc\<close> and
  \<open>HostBinding\<close> of \<open>telomere-component/src/runtime/mod.rs\<close> and their \<open>call_sync\<close> in
  \<open>runtime/host.rs\<close>.  What these functions reach outside the crate is a parameter, the record
  \<open>environment\<close>: running an exported core function, and polling the future of a host function once.
  The store carries the resource tables beside the state \<open>'w\<close> of guests and hosts, since guest
  code changes them through its imports.  The functions call each other through host bindings;
  the recursion is tied in \<open>call_binding\<close>, whose first argument bounds the nesting of bindings on
  the native stack.
\<close>

section \<open>Callables\<close>

datatype core_fn =
    FExport instance_handle string
  | FHost host_binding
and resolved_callable =
    CallHost nat
  | CallCore core_export_ref
  | CallLifted core_fn func_type rt_options program
and rt_options =
    RtOptions "string_encoding option" "core_export_ref option" "core_fn option" "core_fn option"
and host_binding =
    Lower resolved_callable func_type rt_options program core_functype
  | ResourceNew resource_id "core_fn option" core_functype
  | ResourceDrop resource_id core_functype
  | ResourceRep resource_id core_functype

definition signature :: "host_binding \<Rightarrow> core_functype" where
  "signature b =
     (case b of Lower _ _ _ _ sig \<Rightarrow> sig | ResourceNew _ _ sig \<Rightarrow> sig | ResourceDrop _ sig \<Rightarrow> sig | ResourceRep _ sig \<Rightarrow> sig)"

record 'w runtime =
  rt_shared :: "core_fn shared_state"
  rt_world :: 'w

type_synonym 'w rt_store = "'w runtime store"
type_synonym ('w, 'a) rt_action = "('w runtime, 'a) comp_action"

section \<open>Leaving the crate\<close>

datatype 'a vm_result =
    Success 'a
  | Unreachable
  | VmStackOverflow
  | MemoryIndexOutOfRange
  | UnalignedAtomic
  | TableIndexOutOfRange
  | CallIndirectInvalidType
  | TableUninitialized
  | Unlinkable
  | MemoryAllocationFailed
  | InvalidOperand
  | Unimplemented
  | FuelExhausted
  | Cancelled

record 'w environment =
  run_core_export_sync_reentrant ::
    "instance_handle \<Rightarrow> string \<Rightarrow> wasm_value list \<Rightarrow> 'w rt_store \<Rightarrow> (string + wasm_value list vm_result) \<times> 'w rt_store"
  poll_host_future ::
    "nat \<Rightarrow> component_value list \<Rightarrow> 'w rt_store \<Rightarrow> (component_error + component_value list) option \<times> 'w rt_store"

text \<open>The error of an unsuccessful run; the function is not defined on success, where the source
  has \<open>unreachable!()\<close>.\<close>

definition vm_result_to_component_error :: "'a vm_result \<Rightarrow> string \<Rightarrow> component_error option" where
  "vm_result_to_component_error r ctx =
     (case r of
        Success _ \<Rightarrow> None
      | Unreachable \<Rightarrow> Some (Trap (ctx @ '' trapped: unreachable''))
      | VmStackOverflow \<Rightarrow> Some (Trap (ctx @ '' trapped: stack overflow''))
      | MemoryIndexOutOfRange \<Rightarrow> Some (Trap (ctx @ '' trapped: memory index out of range''))
      | TableIndexOutOfRange \<Rightarrow> Some (Trap (ctx @ '' trapped: table index out of range''))
      | CallIndirectInvalidType \<Rightarrow> Some (Trap (ctx @ '' trapped: call indirect invalid type''))
      | TableUninitialized \<Rightarrow> Some (Trap (ctx @ '' trapped: table uninitialized''))
      | Unlinkable \<Rightarrow> Some (Link (ctx @ '' failed: unlinkable''))
      | MemoryAllocationFailed \<Rightarrow> Some (Runtime (ctx @ '' failed: memory allocation failed''))
      | InvalidOperand \<Rightarrow> Some (Runtime (ctx @ '' failed: invalid operand''))
      | UnalignedAtomic \<Rightarrow> Some (Trap (ctx @ '' trapped: unaligned atomic''))
      | Unimplemented \<Rightarrow> Some (Runtime (ctx @ '' failed: unimplemented''))
      | FuelExhausted \<Rightarrow> Some (Trap (ctx @ '' interrupted: fuel exhausted''))
      | Cancelled \<Rightarrow> Some (Trap (ctx @ '' interrupted: cancelled'')))"

definition vm_outcome :: "'a vm_result \<Rightarrow> string \<Rightarrow> component_error + 'a" where
  "vm_outcome r ctx =
     (case (r, vm_result_to_component_error r ctx) of
        (Success x, _) \<Rightarrow> Inr x
      | (_, Some e) \<Rightarrow> Inl e
      | (_, None) \<Rightarrow> Inl (Runtime ''entered unreachable code''))"

definition call_core_export_sync ::
  "'w environment \<Rightarrow> instance_handle \<Rightarrow> string \<Rightarrow> 'w runtime core_func" where
  "call_core_export_sync env inst export_name args = (\<lambda>st.
     case run_core_export_sync_reentrant env inst export_name args st of
       (Inl _, st') \<Rightarrow> (Inl (Runtime ''core function cannot suspend during sync execution''), st')
     | (Inr result, st') \<Rightarrow> (vm_outcome result export_name, st'))"

definition run_ready_future_sync :: "'a option \<Rightarrow> string \<Rightarrow> component_error + 'a" where
  "run_ready_future_sync poll ctx =
     (case poll of Some output \<Rightarrow> Inr output | None \<Rightarrow> Inl (Runtime (ctx @ '' yielded in sync execution'')))"

definition call_host ::
  "'w environment \<Rightarrow> nat \<Rightarrow> component_value list \<Rightarrow> ('w, component_value list) rt_action" where
  "call_host env func args = (\<lambda>st.
     case poll_host_future env func args st of
       (poll, st') \<Rightarrow> (rbind (run_ready_future_sync poll ''host component call'') id, st'))"

section \<open>Calls\<close>

text \<open>The parameter \<open>call\<close> runs a host binding.\<close>

type_synonym 'w binding_call = "host_binding \<Rightarrow> 'w runtime core_func"

definition run_core_fn :: "'w environment \<Rightarrow> 'w binding_call \<Rightarrow> core_fn \<Rightarrow> 'w runtime core_func" where
  "run_core_fn env call f =
     (case f of
        FExport inst export_name \<Rightarrow> call_core_export_sync env inst export_name
      | FHost binding \<Rightarrow> call binding)"

definition options_of :: "'w environment \<Rightarrow> 'w binding_call \<Rightarrow> rt_options \<Rightarrow> 'w runtime options" where
  "options_of env call opts =
     (case opts of RtOptions enc mem realloc post \<Rightarrow>
        \<lparr>op_string_encoding = enc, op_memory = mem, op_realloc = map_option (run_core_fn env call) realloc,
         op_post_return = map_option (run_core_fn env call) post\<rparr>)"

definition areads :: "('w rt_store \<Rightarrow> component_error + 'a) \<Rightarrow> ('w, 'a) rt_action" where
  "areads f = (\<lambda>st. (f st, st))"

definition call_callable ::
  "'w environment \<Rightarrow> 'w binding_call \<Rightarrow> resolved_callable \<Rightarrow> component_value list \<Rightarrow>
   ('w, component_value list) rt_action" where
  "call_callable env call target args =
     (case target of
        CallHost func \<Rightarrow> call_host env func args
      | CallCore export \<Rightarrow>
          abind (alift (rmap component_value_to_direct_wasm args)) (\<lambda>core_args.
          abind (call_core_export_sync env (er_instance export) (er_export_name export) core_args) (\<lambda>results.
            alift (rmap direct_wasm_to_component_value results)))
      | CallLifted core ft options p \<Rightarrow>
          let opts = options_of env call options in
          abind (lower_component_args ft args opts p) (\<lambda>core_args.
          abind (run_core_fn env call core core_args) (\<lambda>core_results.
          abind (areads (lift_component_results ft core_results opts p)) (\<lambda>lifted.
          abind (case op_post_return opts of
                   None \<Rightarrow> aret []
                 | Some post_return \<Rightarrow> post_return core_results) (\<lambda>_.
            aret lifted)))))"

definition with_shared :: "(core_fn shared_state \<Rightarrow> 'a \<times> core_fn shared_state) \<Rightarrow> 'w rt_store \<Rightarrow> 'a \<times> 'w rt_store" where
  "with_shared f st =
     (case f (rt_shared (st_guest st)) of
        (a, sh) \<Rightarrow> (a, st\<lparr>st_guest := (st_guest st)\<lparr>rt_shared := sh\<rparr>\<rparr>))"

definition first_i32 :: "string \<Rightarrow> string \<Rightarrow> wasm_value list \<Rightarrow> component_error + u32" where
  "first_i32 wrong missing args =
     (case args of WI32 v # _ \<Rightarrow> Inr v | _ # _ \<Rightarrow> Inl (Runtime wrong) | [] \<Rightarrow> Inl (Runtime missing))"

definition host_binding_call :: "'w environment \<Rightarrow> 'w binding_call \<Rightarrow> 'w binding_call" where
  "host_binding_call env call binding args =
     (case binding of
        Lower target ft options p _ \<Rightarrow>
          let opts = options_of env call options in
          abind (alift (lowered_indirect_result_area ft args p)) (\<lambda>result_area.
          abind (areads (lift_component_args ft args opts p)) (\<lambda>component_args.
          abind (call_callable env call target component_args) (\<lambda>results.
            lower_component_results ft results opts p result_area)))
      | ResourceNew resource destructor _ \<Rightarrow>
          abind (alift (first_i32 ''resource.new expects i32'' ''resource.new missing rep argument'' args)) (\<lambda>rep st.
            case with_shared (\<lambda>sh. alloc_resource sh resource rep destructor) st of
              (handle, st') \<Rightarrow> (Inr [WI32 handle], st'))
      | ResourceDrop resource _ \<Rightarrow>
          abind (alift (first_i32 ''resource.drop expects i32'' ''resource.drop missing handle'' args)) (\<lambda>handle.
          abind (with_shared (\<lambda>sh. drop_resource sh resource handle)) (\<lambda>(rep, destructor).
          abind (case destructor of
                   None \<Rightarrow> aret []
                 | Some dtor \<Rightarrow> run_core_fn env call dtor [WI32 rep]) (\<lambda>_.
            aret [])))
      | ResourceRep resource _ \<Rightarrow>
          abind (alift (first_i32 ''resource.rep expects i32'' ''resource.rep missing handle'' args)) (\<lambda>handle.
          abind (areads (\<lambda>st. resource_rep (rt_shared (st_guest st)) resource handle)) (\<lambda>rep.
            aret [WI32 rep])))"

primrec call_binding :: "'w environment \<Rightarrow> nat \<Rightarrow> 'w binding_call" where
  "call_binding env 0 = (\<lambda>_ _. afail StackOverflow)"
| "call_binding env (Suc n) = host_binding_call env (call_binding env n)"

definition call_sync ::
  "'w environment \<Rightarrow> nat \<Rightarrow> resolved_callable \<Rightarrow> component_value list \<Rightarrow> ('w, component_value list) rt_action" where
  "call_sync env n = call_callable env (call_binding env n)"

section \<open>Calls across components\<close>

lemma areads_simp [simp]: "areads f st = (f st, st)"
  by (simp add: areads_def)

lemma stores_holds: "stores m own A R st st' \<Longrightarrow> R st'"
  by (simp add: stores_def extends_def agrees_def)

text \<open>The stages of a successful call of a lifted function.\<close>

lemma lifted_call_stages:
  assumes "call_callable env call (CallLifted core ft options p) vs st = (Inr rs, st')"
    and "opts = options_of env call options"
  obtains core_args s1 core_results s2 where
    "lower_component_args ft vs opts p st = (Inr core_args, s1)"
    "run_core_fn env call core core_args s1 = (Inr core_results, s2)"
    "lift_component_results ft core_results opts p s2 = Inr rs"
  using assms by (auto simp: call_callable_def Let_def res_simps)

text \<open>C13: A call from one component into another carries the values across.  When a caller's core
  code invokes an import that is bound to a function of another component, with core arguments
  that stand for the component values \<open>vs\<close> in its memory, then the callee's core function is run on
  core arguments that stand for the same values in the callee's memory; and if the callee's
  results stand for the value \<open>v\<close>, then the caller finds core results in its own memory that stand
  for \<open>v\<close>, unless its allocator fails.\<close>

theorem cross_component_call:
  assumes "binding = Lower (CallLifted core ft options2 p) ft options1 p sig"
    and "opts1 = options_of env (call_binding env n) options1" "opts2 = options_of env (call_binding env n) options2"
    and "callable m1 own1 f1 opts1" "callable m2 own2 f2 opts2" "small p"
    and "rmap (flat_types p) (ft_params ft) = Inr fls" "params_size p (ft_params ft) < 2 ^ 32" "valid_mem m2 st"
    and "lift_component_args ft args opts1 p st = Inr vs" "list_all2 (has_type p) vs (ft_params ft)"
    and "call_sync env n (CallLifted core ft options2 p) vs st = (Inr [v], s3)" "has_type p v ty"
    and "ft_result ft = Some ty" "flat_types p ty = Inr fl" "valid_mem m1 s3"
    and "lowered_indirect_result_area ft args p = Inr area"
    and "place = (case area of None \<Rightarrow> {} | Some ptr \<Rightarrow> range_of ptr (tysize p ty))" "place \<subseteq> own1 s3"
    and "call_binding env (Suc n) binding args st = (r, st')"
  shows "(\<exists>core_args s1 core_results s2.
      lower_component_args ft vs opts2 p st = (Inr core_args, s1) \<and>
      lift_component_args ft core_args opts2 p s1 = Inr vs \<and>
      run_core_fn env (call_binding env n) core core_args s1 = (Inr core_results, s2) \<and>
      lift_component_results ft core_results opts2 p s2 = Inr [v]) \<and>
    (case r of
       Inl e \<Rightarrow> \<exists>a s s'. f1 a s = (Inl e, s')
     | Inr flat \<Rightarrow>
         lift_component_results ft (case area of None \<Rightarrow> flat | Some ptr \<Rightarrow> [WI32 ptr]) opts1 p st' = Inr [v])"
proof
  from assms(12) have "call_callable env (call_binding env n) (CallLifted core ft options2 p) vs st = (Inr [v], s3)"
    by (simp add: call_sync_def)
  from lifted_call_stages [OF this assms(3)] obtain core_args s1 core_results s2 where
    st: "lower_component_args ft vs opts2 p st = (Inr core_args, s1)"
    "run_core_fn env (call_binding env n) core core_args s1 = (Inr core_results, s2)"
    "lift_component_results ft core_results opts2 p s2 = Inr [v]" .
  have "stores m2 own2 {} (\<lambda>s. \<forall>extra. lift_component_args ft (core_args @ extra) opts2 p s = Inr vs) st s1"
    using lower_args_ok [OF assms(5,6,11,7-9)] st(1) by (auto simp: achieves_def elim: stores_mono)
  then have "\<forall>extra. lift_component_args ft (core_args @ extra) opts2 p s1 = Inr vs" by (rule stores_holds)
  then have "lift_component_args ft (core_args @ []) opts2 p s1 = Inr vs" by blast
  with st show "\<exists>core_args s1 core_results s2.
      lower_component_args ft vs opts2 p st = (Inr core_args, s1) \<and>
      lift_component_args ft core_args opts2 p s1 = Inr vs \<and>
      run_core_fn env (call_binding env n) core core_args s1 = (Inr core_results, s2) \<and>
      lift_component_results ft core_results opts2 p s2 = Inr [v]" by auto
next
  have run: "lower_component_results ft [v] opts1 p area s3 = (r, st')"
    using assms(20,12,10,17) by (simp add: assms(1,2) host_binding_call_def Let_def call_sync_def)
  show "case r of
       Inl e \<Rightarrow> \<exists>a s s'. f1 a s = (Inl e, s')
     | Inr flat \<Rightarrow>
         lift_component_results ft (case area of None \<Rightarrow> flat | Some ptr \<Rightarrow> [WI32 ptr]) opts1 p st' = Inr [v]"
    using lower_results_ok [OF assms(4,6,13-19)] run
    by (cases r) (auto simp: achieves_def alloc_errors_def stores_def extends_def agrees_def)
qed

subsection \<open>Two components\<close>

text \<open>A caller, instance 0, and a callee, instance 1, each with a memory and a bump allocator; the
  callee exports a function that returns its string argument.\<close>

definition duo_memory :: "nat \<Rightarrow> core_export_ref" where
  "duo_memory i = \<lparr>er_instance = \<lparr>ih_store = 0, ih_instance = i\<rparr>, er_export_name = ''memory''\<rparr>"

definition duo_brk :: "nat \<Rightarrow> (nat \<times> nat) runtime \<Rightarrow> nat" where
  "duo_brk i g = (if i = 0 then fst (rt_world g) else snd (rt_world g))"

definition duo_set_brk :: "nat \<Rightarrow> nat \<Rightarrow> (nat \<times> nat) runtime \<Rightarrow> (nat \<times> nat) runtime" where
  "duo_set_brk i n g = g\<lparr>rt_world := (if i = 0 then (n, snd (rt_world g)) else (fst (rt_world g), n))\<rparr>"

definition duo_export ::
  "instance_handle \<Rightarrow> string \<Rightarrow> wasm_value list \<Rightarrow> (nat \<times> nat) rt_store \<Rightarrow>
   (string + wasm_value list vm_result) \<times> (nat \<times> nat) rt_store" where
  "duo_export inst name args st =
     (let i = ih_instance inst in
      if name = ''realloc'' then
        (case brk_realloc (duo_brk i) (duo_set_brk i) (duo_memory i) args st of
           (Inl _, st') \<Rightarrow> (Inr Unreachable, st')
         | (Inr vs, st') \<Rightarrow> (Inr (Success vs), st'))
      else
        (case args of
           [WI32 ptr, WI32 len] \<Rightarrow>
             (case write_memory (duo_memory i) 0 (to_le 4 ptr @ to_le 4 len) st of
                (Inl _, st') \<Rightarrow> (Inr Unreachable, st')
              | (Inr _, st') \<Rightarrow> (Inr (Success [WI32 0]), st'))
         | _ \<Rightarrow> (Inr Unreachable, st)))"

definition duo_env :: "(nat \<times> nat) environment" where
  "duo_env = \<lparr>run_core_export_sync_reentrant = duo_export, poll_host_future = (\<lambda>_ _ st. (None, st))\<rparr>"

definition duo_options :: "nat \<Rightarrow> rt_options" where
  "duo_options i = RtOptions None (Some (duo_memory i)) (Some (FExport \<lparr>ih_store = 0, ih_instance = i\<rparr> ''realloc'')) None"

definition duo_func :: func_type where
  "duo_func = \<lparr>ft_params = [VPrim PString], ft_param_names = [''s''], ft_result = Some (VPrim PString)\<rparr>"

definition duo_callee :: resolved_callable where
  "duo_callee = CallLifted (FExport \<lparr>ih_store = 0, ih_instance = 1\<rparr> ''echo'') duo_func (duo_options 1) guest_program"

definition duo_import :: host_binding where
  "duo_import = Lower duo_callee duo_func (duo_options 0) guest_program (CoreFuncType [I32, I32, I32] [])"

definition duo_store :: "(nat \<times> nat) rt_store" where
  "duo_store =
     \<lparr>st_id = 0, st_instances = (\<lambda>i. \<lparr>ci_exports = [(''memory'', EMem 0)], ci_mems = [MLocal i]\<rparr>),
      st_mem = (\<lambda>h. if h = MLocal 0 then replicate 16 0 @ [104, 105] @ replicate 46 0 else replicate 64 0),
      st_guest = \<lparr>rt_shared = default_shared, rt_world = (32, 8)\<rparr>\<rparr>"

lemma contract_weaken:
  assumes "realloc_contract m own f" "\<And>args st vs st'. g args st = (Inr vs, st') \<Longrightarrow> f args st = (Inr vs, st')"
  shows "realloc_contract m own g"
  using assms unfolding realloc_contract_def by meson

lemma duo_contract:
  "realloc_contract (duo_memory i) (brk_own (duo_brk i) (duo_memory i))
     (run_core_fn duo_env call (FExport \<lparr>ih_store = 0, ih_instance = i\<rparr> ''realloc''))"
proof (rule contract_weaken)
  show "realloc_contract (duo_memory i) (brk_own (duo_brk i) (duo_memory i))
      (brk_realloc (duo_brk i) (duo_set_brk i) (duo_memory i))"
    by (rule bump_contract) (simp add: duo_brk_def duo_set_brk_def)
qed (auto simp: run_core_fn_def call_core_export_sync_def duo_env_def duo_export_def Let_def vm_outcome_def
    vm_result_to_component_error_def split: prod.splits sum.splits)

lemma duo_callable:
  "callable (duo_memory i) (brk_own (duo_brk i) (duo_memory i))
     (run_core_fn duo_env call (FExport \<lparr>ih_store = 0, ih_instance = i\<rparr> ''realloc'')) (options_of duo_env call (duo_options i))"
  using duo_contract [of i call] by (simp add: callable_def options_of_def duo_options_def)

definition duo_after :: "(nat \<times> nat) rt_store" where
  "duo_after = snd (call_sync duo_env 0 duo_callee [CString [104, 105]] duo_store)"

lemma duo_runs:
  "lift_component_args duo_func [WI32 16, WI32 2, WI32 24] (options_of duo_env (call_binding duo_env 0) (duo_options 0))
     guest_program duo_store = Inr [CString [104, 105]]"
  "fst (call_sync duo_env 0 duo_callee [CString [104, 105]] duo_store) = Inr [CString [104, 105]]"
  "fst (call_binding duo_env 1 duo_import [WI32 16, WI32 2, WI32 24] duo_store) = Inr []"
  "lowered_indirect_result_area duo_func [WI32 16, WI32 2, WI32 24] guest_program = Inr (Some 24)"
  "memory_addr duo_store (duo_memory 1) = Inr (MLocal 1)"
  by code_simp+

lemma duo_after_facts:
  "memory_addr duo_after (duo_memory 0) = Inr (MLocal 0)"
  "duo_brk 0 (st_guest duo_after) = 32"
  "length (st_mem duo_after (MLocal 0)) = 64"
  by code_simp+

theorem cross_component_call_witness:
  "\<exists>st'. call_binding duo_env 1 duo_import [WI32 16, WI32 2, WI32 24] duo_store = (Inr [], st') \<and>
     lift_component_results duo_func [WI32 24] (options_of duo_env (call_binding duo_env 0) (duo_options 0)) guest_program st' =
       Inr [CString [104, 105]]"
proof -
  define st' where "st' = snd (call_binding duo_env 1 duo_import [WI32 16, WI32 2, WI32 24] duo_store)"
  have run: "call_binding duo_env (Suc 0) duo_import [WI32 16, WI32 2, WI32 24] duo_store = (Inr [], st')"
    using duo_runs(3) by (simp add: st'_def prod_eq_iff)
  have call: "call_sync duo_env 0 (CallLifted (FExport \<lparr>ih_store = 0, ih_instance = 1\<rparr> ''echo'') duo_func (duo_options 1) guest_program)
      [CString [104, 105]] duo_store = (Inr [CString [104, 105]], duo_after)"
    using duo_runs(2) by (simp add: duo_after_def prod_eq_iff duo_callee_def)
  have typed: "has_type guest_program (CString [104, 105]) (VPrim PString)"
    by (simp add: has_type_def conforms_val_def conforms_prim_def storable_def is_scalar_def as_bytes_def utf8_char_def)
  then have args: "list_all2 (has_type guest_program) [CString [104, 105]] (ft_params duo_func)"
    by (simp add: duo_func_def)
  have flat: "flat_types guest_program (VPrim PString) = Inr [I32, I32]"
    by (simp add: flat_types_def flat_types_for_valtype_def flat_types_for_primitive_def)
  then have flats: "rmap (flat_types guest_program) (ft_params duo_func) = Inr [[I32, I32]]"
    by (simp add: duo_func_def)
  have size: "params_size guest_program (ft_params duo_func) < 2 ^ 32"
    by (simp add: params_size_def duo_func_def guest_prims record_layout_def add_field_def align_up_def div_ceil_def)
  have valid: "valid_mem (duo_memory 1) duo_store" "valid_mem (duo_memory 0) duo_after"
    unfolding valid_mem_def using duo_runs(5) duo_after_facts(1) by blast+
  have area: "range_of 24 (tysize guest_program (VPrim PString)) \<subseteq> brk_own (duo_brk 0) (duo_memory 0) duo_after"
    by (auto simp: range_of_def brk_own_def bytes_of_def duo_after_facts tysize_def guest_prims)
  have res: "ft_result duo_func = Some (VPrim PString)" by (simp add: duo_func_def)
  note cross = cross_component_call [OF duo_import_def [unfolded duo_callee_def] refl refl duo_callable duo_callable guest_small
      flats size valid(1) duo_runs(1) args call typed res flat valid(2) duo_runs(4) refl _ run]
  with area run show ?thesis by auto
qed

section \<open>What a host sees\<close>

text \<open>C20: A host function is only ever called on well-typed arguments.  Whatever core values a guest
  passes to an import that is bound to a host function, either the call fails before the host
  function is polled, with the store unchanged, or the host
  function is polled on well-typed values of the parameter types.\<close>

theorem host_arguments_well_typed:
  assumes "compiled p" "resources_resolve p" "list_all (valid_ty p) (ft_params ft)"
    and "call_binding env (Suc n) (Lower (CallHost func) ft options p sig) args st = (r, st')"
  shows "(\<exists>e. r = Inl e \<and> st' = st) \<or>
    (\<exists>vs area. list_all2 (well_typed p) vs (ft_params ft) \<and>
       abind (call_host env func vs) (\<lambda>results.
         lower_component_results ft results (options_of env (call_binding env n) options) p area) st = (r, st'))"
proof (cases "rbind (lowered_indirect_result_area ft args p) (\<lambda>area.
    rbind (lift_component_args ft args (options_of env (call_binding env n) options) p st) (\<lambda>vs. Inr (area, vs)))")
  case (Inl e)
  then have "r = Inl e \<and> st' = st"
    using assms(4) by (auto simp: host_binding_call_def Let_def res_simps)
  then show ?thesis by blast
next
  case (Inr b)
  then obtain area vs where run: "lowered_indirect_result_area ft args p = Inr area"
    "lift_component_args ft args (options_of env (call_binding env n) options) p st = Inr vs"
    by (auto simp: res_simps)
  with lift_args_safe [OF assms(1-3), of args "options_of env (call_binding env n) options" st]
  have "list_all2 (well_typed p) vs (ft_params ft)" by simp
  with run assms(4) show ?thesis by (auto simp: host_binding_call_def call_callable_def Let_def)
qed

definition host_env :: "(nat \<times> nat) environment" where
  "host_env = duo_env\<lparr>poll_host_future := (\<lambda>_ args st. (Some (Inr args), st))\<rparr>"

theorem host_arguments_well_typed_witness:
  "\<exists>vs area st'. list_all2 (well_typed guest_program) vs [VPrim PU32] \<and>
     abind (call_host host_env 7 vs) (\<lambda>results.
       lower_component_results \<lparr>ft_params = [VPrim PU32], ft_param_names = [''n''], ft_result = Some (VPrim PU32)\<rparr>
         results (options_of host_env (call_binding host_env 0) (duo_options 0)) guest_program area) duo_store =
       (Inr [WI32 5], st')"
proof -
  let ?ft = "\<lparr>ft_params = [VPrim PU32], ft_param_names = [''n''], ft_result = Some (VPrim PU32)\<rparr>"
  let ?b = "Lower (CallHost 7) ?ft (duo_options 0) guest_program (CoreFuncType [I32] [I32])"
  define st' where "st' = snd (call_binding host_env 1 ?b [WI32 5] duo_store)"
  have "fst (call_binding host_env 1 ?b [WI32 5] duo_store) = Inr [WI32 5]" by code_simp
  then have run: "call_binding host_env (Suc 0) ?b [WI32 5] duo_store = (Inr [WI32 5], st')"
    by (simp add: st'_def prod_eq_iff)
  have valid: "list_all (valid_ty guest_program) (ft_params ?ft)" by (simp add: valid_ty_def)
  from host_arguments_well_typed [OF guest_compiled guest_resources valid run] show ?thesis by auto
qed

text \<open>C21: Dropping a resource removes its entry from the table before its destructor runs, so that
  the destructor runs at most once for a handle, on its representation, even if it re-enters the
  tables; an invalid handle traps without an effect and without running a destructor.\<close>

theorem resource_drop_runs_destructor_once:
  "let removed = st\<lparr>st_guest := (st_guest st)\<lparr>rt_shared := snd (drop_resource (rt_shared (st_guest st)) resource handle)\<rparr>\<rparr> in
   call_binding env (Suc n) (ResourceDrop resource sig) (WI32 handle # args) st =
      (case shared_peek (rt_shared (st_guest st)) resource handle of
         None \<Rightarrow> (Inl (Trap ''resource handle is invalid''), st)
       | Some (rep, None) \<Rightarrow> (Inr [], removed)
       | Some (rep, Some dtor) \<Rightarrow>
           (case run_core_fn env (call_binding env n) dtor [WI32 rep] removed of
              (Inl e, st') \<Rightarrow> (Inl e, st')
            | (Inr _, st') \<Rightarrow> (Inr [], st'))) \<and>
    shared_peek (rt_shared (st_guest removed)) resource handle = None"
proof -
  let ?sh = "rt_shared (st_guest st)"
  define removed where "removed = st\<lparr>st_guest := (st_guest st)\<lparr>rt_shared := snd (drop_resource ?sh resource handle)\<rparr>\<rparr>"
  have gone: "shared_peek (rt_shared (st_guest removed)) resource handle = None"
    by (simp add: removed_def shared.drop_peek)
  have same: "snd (drop_resource ?sh resource handle) = ?sh" if "shared_peek ?sh resource handle = None"
    using that by (auto simp: shared_peek_def drop_resource_def split: option.splits)
  have taken: "with_shared (\<lambda>sh. drop_resource sh resource handle) st =
      (ok_or (Trap ''resource handle is invalid'') (shared_peek ?sh resource handle), removed)"
    by (simp add: with_shared_def split_def shared.drop_result removed_def)
  show ?thesis
  proof (cases "shared_peek ?sh resource handle")
    case None
    with same have "removed = st" by (simp add: removed_def)
    with None taken gone show ?thesis
      by (simp add: removed_def [symmetric] Let_def host_binding_call_def first_i32_def abind_def)
  next
    case (Some x)
    with taken gone show ?thesis
      by (auto simp: removed_def [symmetric] Let_def host_binding_call_def first_i32_def abind_def
          split: prod.splits option.splits sum.splits)
  qed
qed

end
