(* ===== verification/Type_Checker.thy ===== *)
theory Type_Checker
  imports Component_Types
begin

text \<open>
  The operand-stack type checker of the core instruction parser:
  \<open>telomere/src/parser/core/type_checker.rs\<close> and \<open>parser/core/validate.rs\<close>.  The checker keeps the
  types of the operand stack in one vector, in which a marker says that the code is unreachable
  from there on, and the open blocks with the height of the stack at their start.  It is compared
  with the reference algorithm of the WebAssembly specification (appendix, validation algorithm),
  which keeps a flag in every control frame instead and a stack of possibly unknown types.  An
  index out of the bounds of a vector, where the source would panic, is the error \<open>Panic\<close>.
\<close>

section \<open>The checker\<close>

datatype maybe_unreachable = MUnreachable bool | MNormal valtype

datatype block_kind = KBlock | KIf | KLoop

record checker =
  ck_types :: "maybe_unreachable list"
  ck_blocks :: "(block_kind \<times> blocktype \<times> nat) list"

record stack_snapshot =
  ss_reachable :: bool
  ss_types :: "valtype list"

definition stack_size :: "valtype \<Rightarrow> u32" where
  "stack_size t =
     (case t of I32 \<Rightarrow> 4 | F32 \<Rightarrow> 4 | FuncRef \<Rightarrow> 4 | ExternRef \<Rightarrow> 4 | I64 \<Rightarrow> 8 | F64 \<Rightarrow> 8 | V128 \<Rightarrow> 16)"

definition assert_valtype :: "valtype \<Rightarrow> valtype option \<Rightarrow> parser_error + unit" where
  "assert_valtype expected actual =
     (if actual = Some expected then Inr () else Inl (InvalidStackValType expected actual))"

definition checker_new :: "u32 \<Rightarrow> checker" where
  "checker_new typeidx = \<lparr>ck_types = [], ck_blocks = [(KBlock, BTypeIdx typeidx, 0)]\<rparr>"

definition get_block :: "nat \<Rightarrow> checker \<Rightarrow> parser_error + block_kind \<times> blocktype \<times> nat" where
  "get_block idx c =
     rbind (if length (ck_blocks c) < 1 + idx then Inl InvalidStackValTypeAny else Inr (length (ck_blocks c) - (1 + idx)))
       (\<lambda>stack_idx. ok_or InvalidStackValTypeAny (get_idx (ck_blocks c) stack_idx))"

definition current_block :: "checker \<Rightarrow> parser_error + block_kind \<times> blocktype \<times> nat" where
  "current_block c = get_block 0 c"

definition snapshot_stack :: "checker \<Rightarrow> stack_snapshot" where
  "snapshot_stack c =
     foldl (\<lambda>ss ty.
       case ty of
         MNormal ty \<Rightarrow> ss\<lparr>ss_types := ss_types ss @ [ty]\<rparr>
       | MUnreachable _ \<Rightarrow> ss\<lparr>ss_reachable := False\<rparr>) \<lparr>ss_reachable = True, ss_types = []\<rparr> (ck_types c)"

definition block_base :: "checker \<Rightarrow> parser_error + nat" where
  "block_base c = rbind (current_block c) (\<lambda>(_, _, base). Inr base)"

definition check_block_base :: "checker \<Rightarrow> parser_error + unit" where
  "check_block_base c =
     rbind (block_base c) (\<lambda>base. if length (ck_types c) < base then Inl InvalidStackValTypeAny else Inr ())"

definition checker_push :: "valtype \<Rightarrow> checker \<Rightarrow> checker" where
  "checker_push vt c = c\<lparr>ck_types := ck_types c @ [MNormal vt]\<rparr>"

definition checker_unreachable :: "checker \<Rightarrow> checker" where
  "checker_unreachable c = c\<lparr>ck_types := ck_types c @ [MUnreachable False]\<rparr>"

definition push_any :: "checker \<Rightarrow> checker" where
  "push_any c = c\<lparr>ck_types := ck_types c @ [MUnreachable True]\<rparr>"

definition checker_pop :: "checker \<Rightarrow> parser_error + maybe_unreachable \<times> checker" where
  "checker_pop c =
     (let v = (if ck_types c = [] then None else Some (last (ck_types c)));
          c' = c\<lparr>ck_types := butlast (ck_types c)\<rparr>
      in rbind (check_block_base c') (\<lambda>_.
         rbind (ok_or InvalidStackValTypeAny v) (\<lambda>v.
           case v of
             MUnreachable _ \<Rightarrow> Inr (v, checker_unreachable c')
           | MNormal _ \<Rightarrow> Inr (v, c'))))"

fun check_loop :: "maybe_unreachable list \<Rightarrow> valtype list \<Rightarrow> parser_error + unit" where
  "check_loop _ [] = Inr ()"
| "check_loop [] (ty # tys) = Inl InvalidStackValTypeAny"
| "check_loop (MUnreachable b # rest) (ty # tys) = check_loop (MUnreachable b # rest) tys"
| "check_loop (MNormal x # rest) (ty # tys) =
     rbind (assert_valtype ty (Some x)) (\<lambda>_. check_loop rest tys)"

definition types_from_base :: "checker \<Rightarrow> parser_error + maybe_unreachable list" where
  "types_from_base c =
     rbind (block_base c) (\<lambda>base. if base \<le> length (ck_types c) then Inr (drop base (ck_types c)) else Inl Panic)"

definition checker_check :: "valtype list \<Rightarrow> checker \<Rightarrow> parser_error + unit" where
  "checker_check input c = rbind (types_from_base c) (\<lambda>seg. check_loop (rev seg) (rev input))"

definition pop_expecting :: "valtype \<Rightarrow> checker \<Rightarrow> parser_error + checker" where
  "pop_expecting input c =
     rbind (checker_pop c) (\<lambda>(v, c').
       case v of
         MNormal v \<Rightarrow> rbind (assert_valtype input (Some v)) (\<lambda>_. Inr c')
       | MUnreachable _ \<Rightarrow> Inr c')"

definition checker_op :: "valtype list \<Rightarrow> valtype list \<Rightarrow> checker \<Rightarrow> parser_error + checker" where
  "checker_op input out c =
     rbind (rfold pop_expecting (rev input) c) (\<lambda>c. Inr (fold checker_push out c))"

definition op_func_type :: "core_functype \<Rightarrow> checker \<Rightarrow> parser_error + checker" where
  "op_func_type ft c = (case ft of CoreFuncType params results \<Rightarrow> checker_op params results c)"

definition enter_block :: "block_kind \<Rightarrow> blocktype \<Rightarrow> checker \<Rightarrow> checker" where
  "enter_block kind block_type c =
     c\<lparr>ck_blocks := ck_blocks c @ [(kind, block_type, length (ck_types c))]\<rparr>"

definition leave_block :: "checker \<Rightarrow> parser_error + checker" where
  "leave_block c =
     rbind (types_from_base c) (\<lambda>drained.
       let last_is_unreachable = fold (\<lambda>ty _. ty = MUnreachable False) drained True in
       if \<not> last_is_unreachable then Inl InvalidStackValTypeAny
       else Inr (c\<lparr>ck_types := take (length (ck_types c) - length drained) (ck_types c),
                   ck_blocks := butlast (ck_blocks c)\<rparr>))"

definition block_base_stack_size :: "checker \<Rightarrow> parser_error + u32" where
  "block_base_stack_size c =
     rbind (block_base c) (\<lambda>base.
       if base \<le> length (ck_types c) then
         rfold (\<lambda>ty sz. case ty of MNormal v \<Rightarrow> Inr (sz + stack_size v) | MUnreachable _ \<Rightarrow> Inl InvalidStackValTypeAny)
           (take base (ck_types c)) 0
       else Inl Panic)"

definition reset_stack :: "checker \<Rightarrow> parser_error + checker" where
  "reset_stack c = rbind (block_base c) (\<lambda>base. Inr (c\<lparr>ck_types := take base (ck_types c)\<rparr>))"

definition load_op :: "valtype \<Rightarrow> checker \<Rightarrow> parser_error + checker" where
  "load_op ty = checker_op [I32] [ty]"

definition store_op :: "valtype \<Rightarrow> checker \<Rightarrow> parser_error + checker" where
  "store_op ty = checker_op [I32, ty] []"

definition cond_op :: "valtype \<Rightarrow> checker \<Rightarrow> parser_error + checker" where
  "cond_op ty = checker_op [ty, ty] [I32]"

definition unary_op :: "valtype \<Rightarrow> checker \<Rightarrow> parser_error + checker" where
  "unary_op ty = checker_op [ty, ty] [ty]"

definition binary_op :: "valtype \<Rightarrow> checker \<Rightarrow> parser_error + checker" where
  "binary_op ty = checker_op [ty] [ty]"

section \<open>The reference algorithm\<close>

text \<open>The innermost frame is the head of \<open>vd_ctrls\<close>; the top of the operand stack is the head of
  \<open>vd_vals\<close>, and \<open>None\<close> is the unknown type.\<close>

record ctrl_frame =
  cf_kind :: block_kind
  cf_type :: blocktype
  cf_height :: nat
  cf_unreachable :: bool

record validation =
  vd_vals :: "valtype option list"
  vd_ctrls :: "ctrl_frame list"

definition ref_push :: "valtype option \<Rightarrow> validation \<Rightarrow> validation" where
  "ref_push t v = v\<lparr>vd_vals := t # vd_vals v\<rparr>"

definition ref_pop :: "validation \<Rightarrow> (valtype option \<times> validation) option" where
  "ref_pop v =
     (case vd_ctrls v of
        [] \<Rightarrow> None
      | fr # _ \<Rightarrow>
          if length (vd_vals v) = cf_height fr then (if cf_unreachable fr then Some (None, v) else None)
          else case vd_vals v of [] \<Rightarrow> None | t # ts \<Rightarrow> Some (t, v\<lparr>vd_vals := ts\<rparr>))"

definition ref_pop_expect :: "valtype \<Rightarrow> validation \<Rightarrow> validation option" where
  "ref_pop_expect t v =
     Option.bind (ref_pop v) (\<lambda>(actual, v'). if actual = Some t \<or> actual = None then Some v' else None)"

primrec ref_pop_all :: "valtype list \<Rightarrow> validation \<Rightarrow> validation option" where
  "ref_pop_all [] v = Some v"
| "ref_pop_all (t # ts) v = Option.bind (ref_pop_expect t v) (ref_pop_all ts)"

definition ref_op :: "valtype list \<Rightarrow> valtype list \<Rightarrow> validation \<Rightarrow> validation option" where
  "ref_op ins outs v = map_option (fold (\<lambda>t. ref_push (Some t)) outs) (ref_pop_all (rev ins) v)"

definition ref_push_ctrl :: "block_kind \<Rightarrow> blocktype \<Rightarrow> validation \<Rightarrow> validation" where
  "ref_push_ctrl kind bt v =
     v\<lparr>vd_ctrls := \<lparr>cf_kind = kind, cf_type = bt, cf_height = length (vd_vals v), cf_unreachable = False\<rparr> # vd_ctrls v\<rparr>"

definition ref_pop_ctrl :: "validation \<Rightarrow> validation option" where
  "ref_pop_ctrl v =
     (case vd_ctrls v of
        [] \<Rightarrow> None
      | fr # frs \<Rightarrow> if length (vd_vals v) = cf_height fr then Some (v\<lparr>vd_ctrls := frs\<rparr>) else None)"

definition ref_unreachable :: "validation \<Rightarrow> validation" where
  "ref_unreachable v =
     (case vd_ctrls v of
        [] \<Rightarrow> v
      | fr # frs \<Rightarrow>
          v\<lparr>vd_vals := drop (length (vd_vals v) - cf_height fr) (vd_vals v), vd_ctrls := fr\<lparr>cf_unreachable := True\<rparr> # frs\<rparr>)"

definition ref_check :: "valtype list \<Rightarrow> validation \<Rightarrow> bool" where
  "ref_check ins v \<longleftrightarrow> ref_pop_all (rev ins) v \<noteq> None"

section \<open>Abstraction\<close>

text \<open>The stack of one block, top first: the types above the topmost unreachability marker.\<close>

definition known :: "maybe_unreachable \<Rightarrow> valtype option" where
  "known m = (case m of MNormal t \<Rightarrow> Some t | MUnreachable _ \<Rightarrow> None)"

lemma known_simps [simp]: "known (MNormal t) = Some t" "known (MUnreachable b) = None"
  by (simp_all add: known_def)

definition seg_vals :: "maybe_unreachable list \<Rightarrow> valtype option list" where
  "seg_vals s = map known (takeWhile (\<lambda>m. m \<noteq> MUnreachable False) s)"

lemma seg_vals_simps [simp]:
  "seg_vals [] = []"
  "seg_vals (MNormal t # s) = Some t # seg_vals s"
  "seg_vals (MUnreachable False # s) = []"
  "seg_vals (MUnreachable True # s) = None # seg_vals s"
  by (simp_all add: seg_vals_def)

text \<open>A type that was pushed as unknown lies directly on a marker.\<close>

fun seg_ok :: "maybe_unreachable list \<Rightarrow> bool" where
  "seg_ok [] \<longleftrightarrow> True"
| "seg_ok (MUnreachable True # s) \<longleftrightarrow> (case s of MUnreachable False # _ \<Rightarrow> seg_ok s | _ \<Rightarrow> False)"
| "seg_ok (_ # s) \<longleftrightarrow> seg_ok s"

lemma seg_ok_anyD: "seg_ok (MUnreachable True # s) \<Longrightarrow> \<exists>s'. s = MUnreachable False # s' \<and> seg_ok s'"
  by (auto split: list.splits maybe_unreachable.splits bool.splits)

primrec abs_blocks ::
  "(block_kind \<times> blocktype \<times> nat) list \<Rightarrow> maybe_unreachable list \<Rightarrow> valtype option list \<times> ctrl_frame list" where
  "abs_blocks [] ts = ([], [])"
| "abs_blocks (b # bs) ts =
     (case b of (kind, bt, base) \<Rightarrow>
        let (vs, frs) = abs_blocks bs (take base ts); s = rev (drop base ts) in
        (seg_vals s @ vs,
         \<lparr>cf_kind = kind, cf_type = bt, cf_height = length vs, cf_unreachable = MUnreachable False \<in> set s\<rparr> # frs))"

definition abs_checker :: "checker \<Rightarrow> validation" where
  "abs_checker c =
     (case abs_blocks (rev (ck_blocks c)) (ck_types c) of (vs, frs) \<Rightarrow> \<lparr>vd_vals = vs, vd_ctrls = frs\<rparr>)"

primrec wf_blocks :: "(block_kind \<times> blocktype \<times> nat) list \<Rightarrow> maybe_unreachable list \<Rightarrow> bool" where
  "wf_blocks [] ts \<longleftrightarrow> ts = []"
| "wf_blocks (b # bs) ts \<longleftrightarrow>
     (case b of (kind, bt, base) \<Rightarrow> base \<le> length ts \<and> seg_ok (rev (drop base ts)) \<and> wf_blocks bs (take base ts))"

definition wf_checker :: "checker \<Rightarrow> bool" where
  "wf_checker c \<longleftrightarrow> wf_blocks (rev (ck_blocks c)) (ck_types c)"

text \<open>A checker inside a block: the types of the enclosing blocks, then those of the block, top first.\<close>

definition in_block ::
  "(block_kind \<times> blocktype \<times> nat) list \<Rightarrow> maybe_unreachable list \<Rightarrow> block_kind \<Rightarrow> blocktype \<Rightarrow>
   maybe_unreachable list \<Rightarrow> checker" where
  "in_block bs outer kind bt s =
     \<lparr>ck_types = outer @ rev s, ck_blocks = bs @ [(kind, bt, length outer)]\<rparr>"

definition abs_in :: "valtype option list \<times> ctrl_frame list \<Rightarrow> block_kind \<Rightarrow> blocktype \<Rightarrow> maybe_unreachable list \<Rightarrow> validation" where
  "abs_in below kind bt s =
     \<lparr>vd_vals = seg_vals s @ fst below,
      vd_ctrls = \<lparr>cf_kind = kind, cf_type = bt, cf_height = length (fst below), cf_unreachable = MUnreachable False \<in> set s\<rparr> # snd below\<rparr>"

lemma in_block_abs: "abs_checker (in_block bs outer kind bt s) = abs_in (abs_blocks (rev bs) outer) kind bt s"
  by (simp add: abs_checker_def in_block_def abs_in_def split_def Let_def)

lemma in_block_wf: "wf_checker (in_block bs outer kind bt s) \<longleftrightarrow> seg_ok s \<and> wf_blocks (rev bs) outer"
  by (simp add: wf_checker_def in_block_def)

lemma wf_checker_cases:
  assumes "wf_checker c"
  obtains (outside) "c = \<lparr>ck_types = [], ck_blocks = []\<rparr>"
  | (inside) bs outer kind bt s where "c = in_block bs outer kind bt s" "seg_ok s" "wf_blocks (rev bs) outer"
proof (cases "ck_blocks c" rule: rev_cases)
  case Nil
  with assms show ?thesis by (intro outside) (simp add: wf_checker_def)
next
  case (snoc bs b)
  obtain kind bt base where b: "b = (kind, bt, base)" by (cases b)
  have "base \<le> length (ck_types c)" "seg_ok (rev (drop base (ck_types c)))" "wf_blocks (rev bs) (take base (ck_types c))"
    using assms snoc b by (simp_all add: wf_checker_def)
  with snoc b show ?thesis
    by (intro inside [of bs "take base (ck_types c)" kind bt "rev (drop base (ck_types c))"]) (simp_all add: in_block_def)
qed

section \<open>The operations refine the reference\<close>

lemma in_block_base [simp]:
  "current_block (in_block bs outer kind bt s) = Inr (kind, bt, length outer)"
  "block_base (in_block bs outer kind bt s) = Inr (length outer)"
  "types_from_base (in_block bs outer kind bt s) = Inr (rev s)"
  by (simp_all add: block_base_def current_block_def types_from_base_def get_block_def get_idx_def in_block_def)

lemma in_block_push [simp]:
  "checker_push t (in_block bs outer kind bt s) = in_block bs outer kind bt (MNormal t # s)"
  "checker_unreachable (in_block bs outer kind bt s) = in_block bs outer kind bt (MUnreachable False # s)"
  "push_any (in_block bs outer kind bt s) = in_block bs outer kind bt (MUnreachable True # s)"
  by (simp_all add: checker_push_def checker_unreachable_def push_any_def in_block_def)

lemma in_block_pop:
  "checker_pop (in_block bs outer kind bt s) =
     (case s of
        [] \<Rightarrow> Inl InvalidStackValTypeAny
      | MNormal t # s' \<Rightarrow> Inr (MNormal t, in_block bs outer kind bt s')
      | MUnreachable b # s' \<Rightarrow> Inr (MUnreachable b, in_block bs outer kind bt (MUnreachable False # s')))"
proof (cases s)
  case Nil
  then show ?thesis
    by (auto simp: checker_pop_def in_block_def check_block_base_def block_base_def current_block_def get_block_def
        get_idx_def Let_def)
next
  case (Cons m s')
  then have "in_block bs outer kind bt s\<lparr>ck_types := butlast (ck_types (in_block bs outer kind bt s))\<rparr> = in_block bs outer kind bt s'"
    by (simp add: in_block_def butlast_append)
  moreover have "ck_types (in_block bs outer kind bt s) \<noteq> []" "last (ck_types (in_block bs outer kind bt s)) = m"
    using Cons by (simp_all add: in_block_def)
  moreover have "check_block_base (in_block bs outer kind bt s') = Inr ()"
    by (simp add: check_block_base_def) (simp add: in_block_def)
  ultimately show ?thesis using Cons by (simp add: checker_pop_def Let_def split: maybe_unreachable.split)
qed

lemma outside_base [simp]: "block_base \<lparr>ck_types = ts, ck_blocks = []\<rparr> = Inl InvalidStackValTypeAny"
  by (simp add: block_base_def current_block_def get_block_def)

definition simulates :: "parser_error + checker \<Rightarrow> validation option \<Rightarrow> bool" where
  "simulates r q \<longleftrightarrow>
     (case r of
        Inl e \<Rightarrow> e \<noteq> Panic \<and> q = None
      | Inr c \<Rightarrow> wf_checker c \<and> q = Some (abs_checker c))"

lemma simulates_simps [simp]:
  "simulates (Inl e) q \<longleftrightarrow> e \<noteq> Panic \<and> q = None"
  "simulates (Inr c) q \<longleftrightarrow> wf_checker c \<and> q = Some (abs_checker c)"
  by (simp_all add: simulates_def)

lemma simulates_bind:
  "simulates r q \<Longrightarrow> (\<And>c. r = Inr c \<Longrightarrow> wf_checker c \<Longrightarrow> simulates (k c) (l (abs_checker c))) \<Longrightarrow>
   simulates (rbind r k) (Option.bind q l)"
  by (cases r) auto

lemma pop_refines:
  assumes "wf_checker c"
  shows "case checker_pop c of
      Inl e \<Rightarrow> e \<noteq> Panic \<and> ref_pop (abs_checker c) = None
    | Inr (m, c') \<Rightarrow> wf_checker c' \<and> ref_pop (abs_checker c) = Some (known m, abs_checker c')"
  using assms
proof (cases rule: wf_checker_cases)
  case outside
  then show ?thesis by (simp add: checker_pop_def check_block_base_def ref_pop_def abs_checker_def)
next
  case (inside bs outer kind bt s)
  show ?thesis
  proof (cases s)
    case Nil
    with inside show ?thesis by (simp add: in_block_pop in_block_abs abs_in_def ref_pop_def)
  next
    case (Cons m s')
    show ?thesis
    proof (cases m)
      case (MNormal t)
      with inside Cons show ?thesis by (simp add: in_block_pop in_block_abs in_block_wf abs_in_def ref_pop_def)
    next
      case (MUnreachable b)
      show ?thesis
      proof (cases b)
        case True
        with seg_ok_anyD [of s'] inside(2) Cons MUnreachable obtain s'' where "s' = MUnreachable False # s''" "seg_ok s''" by auto
        with inside Cons MUnreachable True show ?thesis
          by (simp add: in_block_pop in_block_abs in_block_wf abs_in_def ref_pop_def)
      next
        case False
        with inside Cons MUnreachable show ?thesis
          by (simp add: in_block_pop in_block_abs in_block_wf abs_in_def ref_pop_def)
      qed
    qed
  qed
qed

lemma push_refines: "wf_checker c \<Longrightarrow> ck_blocks c \<noteq> [] \<Longrightarrow>
  wf_checker (checker_push t c) \<and> abs_checker (checker_push t c) = ref_push (Some t) (abs_checker c)"
  by (erule wf_checker_cases) (auto simp: in_block_wf in_block_abs abs_in_def ref_push_def)

lemma push_any_refines:
  "seg_ok (MUnreachable False # s) \<Longrightarrow> wf_blocks (rev bs) outer \<Longrightarrow> c = in_block bs outer kind bt (MUnreachable False # s) \<Longrightarrow>
   wf_checker (push_any c) \<and> abs_checker (push_any c) = ref_push None (abs_checker c)"
  by (auto simp: in_block_wf in_block_abs abs_in_def ref_push_def)

lemma unreachable_refines: "wf_checker c \<Longrightarrow> ck_blocks c \<noteq> [] \<Longrightarrow>
  wf_checker (checker_unreachable c) \<and> abs_checker (checker_unreachable c) = ref_unreachable (abs_checker c)"
  by (erule wf_checker_cases) (auto simp: in_block_wf in_block_abs abs_in_def ref_unreachable_def)

lemma enter_refines: "wf_checker c \<Longrightarrow> wf_checker (enter_block k b c) \<and> abs_checker (enter_block k b c) = ref_push_ctrl k b (abs_checker c)"
  by (simp add: wf_checker_def abs_checker_def enter_block_def ref_push_ctrl_def split_def Let_def)

lemma fold_last: "fold (\<lambda>x _. P x) xs b = (if xs = [] then b else P (last xs))"
  by (induction xs arbitrary: b) auto

lemma leave_refines:
  assumes "wf_checker c"
  shows "simulates (leave_block c) (ref_pop_ctrl (abs_checker c))"
  using assms
proof (cases rule: wf_checker_cases)
  case outside
  then show ?thesis by (simp add: leave_block_def types_from_base_def ref_pop_ctrl_def abs_checker_def)
next
  case (inside bs outer kind bt s)
  have top: "fold (\<lambda>ty _. ty = MUnreachable False) (rev s) True \<longleftrightarrow> seg_vals s = []"
    by (cases s) (auto simp: fold_last seg_vals_def)
  have "leave_block c = (if seg_vals s = [] then Inr \<lparr>ck_types = outer, ck_blocks = bs\<rparr> else Inl InvalidStackValTypeAny)"
    by (simp add: leave_block_def inside(1) top) (simp add: in_block_def)
  moreover have "ref_pop_ctrl (abs_checker c) =
      (if seg_vals s = [] then Some (abs_checker \<lparr>ck_types = outer, ck_blocks = bs\<rparr>) else None)"
    by (simp add: inside(1) in_block_abs ref_pop_ctrl_def abs_in_def) (simp add: abs_checker_def split_def)
  ultimately show ?thesis using inside(3) by (simp add: wf_checker_def)
qed

lemma pop_expecting_refines:
  assumes "wf_checker c"
  shows "simulates (pop_expecting t c) (ref_pop_expect t (abs_checker c))"
  using pop_refines [OF assms]
  by (auto simp: pop_expecting_def ref_pop_expect_def assert_valtype_def split: sum.splits prod.splits maybe_unreachable.splits)

lemma pops_refine: "wf_checker c \<Longrightarrow> simulates (rfold pop_expecting ts c) (ref_pop_all ts (abs_checker c))"
  by (induction ts arbitrary: c) (auto intro!: simulates_bind pop_expecting_refines)

lemma pop_blocks: "checker_pop c = Inr (m, c') \<Longrightarrow> ck_blocks c' = ck_blocks c"
  by (cases "ck_types c = []"; cases "last (ck_types c)") (auto simp: checker_pop_def Let_def res_simps checker_unreachable_def)

lemma pop_expecting_blocks: "pop_expecting t c = Inr c' \<Longrightarrow> ck_blocks c' = ck_blocks c"
proof -
  assume "pop_expecting t c = Inr c'"
  then obtain m where "checker_pop c = Inr (m, c')"
    by (cases "checker_pop c"; cases "fst (projr (checker_pop c))") (auto simp: pop_expecting_def res_simps)
  then show ?thesis by (rule pop_blocks)
qed

lemma pops_blocks: "rfold pop_expecting ts c = Inr c' \<Longrightarrow> ck_blocks c' = ck_blocks c"
  by (induction ts arbitrary: c) (auto simp: res_simps dest!: pop_expecting_blocks)

lemma push_blocks [simp]: "ck_blocks (checker_push t c) = ck_blocks c"
  by (simp add: checker_push_def)

lemma pushes_blocks [simp]: "ck_blocks (fold checker_push ts c) = ck_blocks c"
  by (induction ts arbitrary: c) auto

lemma pushes_refine:
  "wf_checker c \<Longrightarrow> ck_blocks c \<noteq> [] \<Longrightarrow>
   wf_checker (fold checker_push ts c) \<and>
   abs_checker (fold checker_push ts c) = fold (\<lambda>t. ref_push (Some t)) ts (abs_checker c)"
  by (induction ts arbitrary: c) (auto simp: push_refines)

lemma op_blocks: "checker_op ins outs c = Inr c' \<Longrightarrow> ck_blocks c' = ck_blocks c"
  by (auto simp: checker_op_def res_simps dest: pops_blocks)

lemma op_refines:
  assumes "wf_checker c" "ck_blocks c \<noteq> []"
  shows "simulates (checker_op ins outs c) (ref_op ins outs (abs_checker c))"
proof (cases "rfold pop_expecting (rev ins) c")
  case (Inl e)
  with pops_refine [OF assms(1), of "rev ins"] show ?thesis by (simp add: checker_op_def ref_op_def)
next
  case (Inr c')
  with pops_refine [OF assms(1), of "rev ins"] pops_blocks [OF Inr] assms(2) pushes_refine [of c' outs]
  show ?thesis by (simp add: checker_op_def ref_op_def)
qed

lemma marker_accepts: "ref_pop_all ts (abs_in below kind bt (MUnreachable False # s)) = Some (abs_in below kind bt (MUnreachable False # s))"
  by (induction ts) (auto simp: ref_pop_expect_def ref_pop_def abs_in_def)

lemma check_loop_marker: "check_loop (MUnreachable b # s) ts = Inr ()"
  by (induction ts) auto

lemma check_loop_refines:
  "seg_ok s \<Longrightarrow> case check_loop s ts of
     Inl e \<Rightarrow> e \<noteq> Panic \<and> ref_pop_all ts (abs_in below kind bt s) = None
   | Inr _ \<Rightarrow> ref_pop_all ts (abs_in below kind bt s) \<noteq> None"
proof (induction s ts rule: check_loop.induct)
  case (3 b rest ty tys)
  show ?case
  proof (cases b)
    case True
    with 3(2) seg_ok_anyD [of rest] obtain r where r: "rest = MUnreachable False # r" by auto
    then have "ref_pop_expect ty (abs_in below kind bt (MUnreachable True # rest)) = Some (abs_in below kind bt rest)"
      by (simp add: ref_pop_expect_def ref_pop_def abs_in_def)
    with True r show ?thesis by (simp add: check_loop_marker marker_accepts)
  next
    case False
    then show ?thesis using marker_accepts [of "ty # tys" below kind bt rest] by (simp add: check_loop_marker)
  qed
next
  case (4 x rest ty tys)
  have "ref_pop_expect ty (abs_in below kind bt (MNormal x # rest)) = (if x = ty then Some (abs_in below kind bt rest) else None)"
    by (simp add: ref_pop_expect_def ref_pop_def abs_in_def)
  with 4 show ?case by (auto simp: assert_valtype_def split: sum.splits)
qed (auto simp: ref_pop_expect_def ref_pop_def abs_in_def)

lemma check_refines:
  assumes "wf_checker c" "ck_blocks c \<noteq> []"
  shows "case checker_check ins c of
     Inl e \<Rightarrow> e \<noteq> Panic \<and> \<not> ref_check ins (abs_checker c) | Inr _ \<Rightarrow> ref_check ins (abs_checker c)"
  using assms(1)
proof (cases rule: wf_checker_cases)
  case (inside bs outer kind bt s)
  with check_loop_refines [OF inside(2), of "rev ins" "abs_blocks (rev bs) outer" kind bt] show ?thesis
    by (auto simp: checker_check_def ref_check_def in_block_abs split: sum.splits)
qed (use assms(2) in simp)

section \<open>Sequences of operations\<close>

datatype check_cmd = COp "valtype list" "valtype list" | CCheck "valtype list" | CEnter block_kind blocktype | CLeave | CUnreachable

text \<open>Commands that keep at least one block open; the argument counts the blocks that are open
  inside the outermost one.\<close>

fun nested :: "nat \<Rightarrow> check_cmd list \<Rightarrow> bool" where
  "nested n [] \<longleftrightarrow> True"
| "nested n (CEnter _ _ # cs) \<longleftrightarrow> nested (Suc n) cs"
| "nested n (CLeave # cs) \<longleftrightarrow> 0 < n \<and> nested (n - 1) cs"
| "nested n (_ # cs) \<longleftrightarrow> nested n cs"

definition ref_cmd :: "check_cmd \<Rightarrow> validation \<Rightarrow> validation option" where
  "ref_cmd cmd v =
     (case cmd of
        COp ins outs \<Rightarrow> ref_op ins outs v
      | CCheck ins \<Rightarrow> if ref_check ins v then Some v else None
      | CEnter kind bt \<Rightarrow> Some (ref_push_ctrl kind bt v)
      | CLeave \<Rightarrow> ref_pop_ctrl v
      | CUnreachable \<Rightarrow> Some (ref_unreachable v))"

primrec ref_run :: "check_cmd list \<Rightarrow> validation \<Rightarrow> validation option" where
  "ref_run [] v = Some v"
| "ref_run (cmd # cmds) v = Option.bind (ref_cmd cmd v) (ref_run cmds)"

definition ref_new :: "u32 \<Rightarrow> validation" where
  "ref_new typeidx =
     \<lparr>vd_vals = [], vd_ctrls = [\<lparr>cf_kind = KBlock, cf_type = BTypeIdx typeidx, cf_height = 0, cf_unreachable = False\<rparr>]\<rparr>"

text \<open>What the instruction parser relies on: every operation of the checker answers as the
  reference does and keeps the correspondence, as long as a block is open.\<close>

locale operand_checker =
  fixes inv :: "'c \<Rightarrow> bool"
    and reading :: "'c \<Rightarrow> validation"
    and depth :: "'c \<Rightarrow> nat"
    and operate :: "valtype list \<Rightarrow> valtype list \<Rightarrow> 'c \<Rightarrow> parser_error + 'c"
    and look :: "valtype list \<Rightarrow> 'c \<Rightarrow> parser_error + unit"
    and enter :: "block_kind \<Rightarrow> blocktype \<Rightarrow> 'c \<Rightarrow> 'c"
    and leave :: "'c \<Rightarrow> parser_error + 'c"
    and mark :: "'c \<Rightarrow> 'c"
  assumes operate_ok: "inv c \<Longrightarrow> 0 < depth c \<Longrightarrow> operate ins outs c = Inr c' \<Longrightarrow>
      inv c' \<and> depth c' = depth c \<and> ref_op ins outs (reading c) = Some (reading c')"
    and operate_error: "inv c \<Longrightarrow> 0 < depth c \<Longrightarrow> operate ins outs c = Inl e \<Longrightarrow>
      e \<noteq> Panic \<and> ref_op ins outs (reading c) = None"
    and look_ok: "inv c \<Longrightarrow> 0 < depth c \<Longrightarrow> look ins c = Inr () \<Longrightarrow> ref_check ins (reading c)"
    and look_error: "inv c \<Longrightarrow> 0 < depth c \<Longrightarrow> look ins c = Inl e \<Longrightarrow> e \<noteq> Panic \<and> \<not> ref_check ins (reading c)"
    and enter_ok: "inv c \<Longrightarrow> inv (enter kind bt c) \<and> depth (enter kind bt c) = Suc (depth c) \<and>
      reading (enter kind bt c) = ref_push_ctrl kind bt (reading c)"
    and leave_ok: "inv c \<Longrightarrow> leave c = Inr c' \<Longrightarrow>
      inv c' \<and> Suc (depth c') = depth c \<and> ref_pop_ctrl (reading c) = Some (reading c')"
    and leave_error: "inv c \<Longrightarrow> leave c = Inl e \<Longrightarrow> e \<noteq> Panic \<and> ref_pop_ctrl (reading c) = None"
    and mark_ok: "inv c \<Longrightarrow> 0 < depth c \<Longrightarrow>
      inv (mark c) \<and> depth (mark c) = depth c \<and> reading (mark c) = ref_unreachable (reading c)"
begin

definition step :: "check_cmd \<Rightarrow> 'c \<Rightarrow> parser_error + 'c" where
  "step cmd c =
     (case cmd of
        COp ins outs \<Rightarrow> operate ins outs c
      | CCheck ins \<Rightarrow> rbind (look ins c) (\<lambda>_. Inr c)
      | CEnter kind bt \<Rightarrow> Inr (enter kind bt c)
      | CLeave \<Rightarrow> leave c
      | CUnreachable \<Rightarrow> Inr (mark c))"

definition agrees_with :: "parser_error + 'c \<Rightarrow> validation option \<Rightarrow> bool" where
  "agrees_with r q \<longleftrightarrow>
     (case r of Inl e \<Rightarrow> e \<noteq> Panic \<and> q = None | Inr c \<Rightarrow> inv c \<and> q = Some (reading c))"

lemma step_agrees: "inv c \<Longrightarrow> 0 < depth c \<Longrightarrow> agrees_with (step cmd c) (ref_cmd cmd (reading c))"
proof (cases cmd)
  case (COp ins outs)
  then show "inv c \<Longrightarrow> 0 < depth c \<Longrightarrow> agrees_with (step cmd c) (ref_cmd cmd (reading c))"
    by (auto simp: step_def ref_cmd_def agrees_with_def dest: operate_ok operate_error split: sum.split)
next
  case (CCheck ins)
  then show "inv c \<Longrightarrow> 0 < depth c \<Longrightarrow> agrees_with (step cmd c) (ref_cmd cmd (reading c))"
    by (cases "look ins c") (auto simp: step_def ref_cmd_def agrees_with_def dest: look_ok look_error)
next
  case CLeave
  then show "inv c \<Longrightarrow> 0 < depth c \<Longrightarrow> agrees_with (step cmd c) (ref_cmd cmd (reading c))"
    by (auto simp: step_def ref_cmd_def agrees_with_def dest: leave_ok leave_error split: sum.split)
qed (auto simp: step_def ref_cmd_def agrees_with_def enter_ok mark_ok)

lemma run_agrees:
  "inv c \<Longrightarrow> depth c = Suc n \<Longrightarrow> nested n cmds \<Longrightarrow> agrees_with (rfold step cmds c) (ref_run cmds (reading c))"
proof (induction cmds arbitrary: c n)
  case (Cons cmd cmds)
  have one: "agrees_with (step cmd c) (ref_cmd cmd (reading c))"
    by (rule step_agrees) (use Cons.prems in auto)
  show ?case
  proof (cases "step cmd c")
    case (Inl e)
    with one show ?thesis by (auto simp: agrees_with_def)
  next
    case (Inr c')
    have "\<exists>m. depth c' = Suc m \<and> nested m cmds"
    proof (cases "cmd = CLeave")
      case True
      with Inr Cons.prems leave_ok [of c c'] have "Suc (depth c') = Suc n" "0 < n" "nested (n - 1) cmds" by (auto simp: step_def)
      then show ?thesis by (intro exI [of _ "n - 1"]) simp
    next
      case False
      with Inr Cons.prems show ?thesis
        by (cases cmd) (auto simp: step_def enter_ok mark_ok res_simps dest: operate_ok)
    qed
    then obtain m where m: "depth c' = Suc m" "nested m cmds" by blast
    from Inr one have "inv c'" "ref_cmd cmd (reading c) = Some (reading c')" by (auto simp: agrees_with_def)
    with Cons.IH [OF _ m] Inr show ?thesis by simp
  qed
qed (simp add: agrees_with_def)

end

lemma leave_blocks: "leave_block c = Inr c' \<Longrightarrow> Suc (length (ck_blocks c')) = length (ck_blocks c)"
  by (auto simp: leave_block_def types_from_base_def res_simps Let_def block_base_def current_block_def get_block_def
      get_idx_def split: if_splits)

interpretation code: operand_checker wf_checker abs_checker "\<lambda>c. length (ck_blocks c)"
  checker_op checker_check enter_block leave_block checker_unreachable
proof unfold_locales
  fix c c' ins outs e
  assume c: "wf_checker c" "0 < length (ck_blocks c)"
  then have open_block: "ck_blocks c \<noteq> []" by auto
  show "wf_checker c' \<and> length (ck_blocks c') = length (ck_blocks c) \<and> ref_op ins outs (abs_checker c) = Some (abs_checker c')"
    if "checker_op ins outs c = Inr c'"
    using op_refines [OF c(1) open_block, of ins outs] that op_blocks [OF that] by simp
  show "e \<noteq> Panic \<and> ref_op ins outs (abs_checker c) = None" if "checker_op ins outs c = Inl e"
    using op_refines [OF c(1) open_block, of ins outs] that by simp
  show "ref_check ins (abs_checker c)" if "checker_check ins c = Inr ()"
    using check_refines [OF c(1) open_block, of ins] that by simp
  show "e \<noteq> Panic \<and> \<not> ref_check ins (abs_checker c)" if "checker_check ins c = Inl e"
    using check_refines [OF c(1) open_block, of ins] that by simp
  show "wf_checker (checker_unreachable c) \<and> length (ck_blocks (checker_unreachable c)) = length (ck_blocks c) \<and>
      abs_checker (checker_unreachable c) = ref_unreachable (abs_checker c)"
    using unreachable_refines [OF c(1) open_block] by (simp add: checker_unreachable_def)
next
  fix c c' e kind bt
  assume c: "wf_checker c"
  show "wf_checker (enter_block kind bt c) \<and> length (ck_blocks (enter_block kind bt c)) = Suc (length (ck_blocks c)) \<and>
      abs_checker (enter_block kind bt c) = ref_push_ctrl kind bt (abs_checker c)"
    using enter_refines [OF c] by (simp add: enter_block_def)
  show "wf_checker c' \<and> Suc (length (ck_blocks c')) = length (ck_blocks c) \<and> ref_pop_ctrl (abs_checker c) = Some (abs_checker c')"
    if "leave_block c = Inr c'"
    using leave_refines [OF c] that leave_blocks [OF that] by simp
  show "e \<noteq> Panic \<and> ref_pop_ctrl (abs_checker c) = None" if "leave_block c = Inl e"
    using leave_refines [OF c] that by simp
qed

definition checker_cmd :: "check_cmd \<Rightarrow> checker \<Rightarrow> parser_error + checker" where
  "checker_cmd cmd c =
     (case cmd of
        COp ins outs \<Rightarrow> checker_op ins outs c
      | CCheck ins \<Rightarrow> rbind (checker_check ins c) (\<lambda>_. Inr c)
      | CEnter kind bt \<Rightarrow> Inr (enter_block kind bt c)
      | CLeave \<Rightarrow> leave_block c
      | CUnreachable \<Rightarrow> Inr (checker_unreachable c))"

text \<open>C2: The operand-stack checker is the reference algorithm of the specification: on every
  sequence of its operations that keeps a block open it accepts exactly when the reference does,
  and then its stack and blocks stand for the operand and control stack of the reference.  It
  never indexes a vector out of bounds.\<close>

theorem checker_refines_reference:
  assumes "nested 0 cmds"
  shows "case rfold checker_cmd cmds (checker_new typeidx) of
      Inl e \<Rightarrow> e \<noteq> Panic \<and> ref_run cmds (ref_new typeidx) = None
    | Inr c \<Rightarrow> ref_run cmds (ref_new typeidx) = Some (abs_checker c)"
proof -
  have start: "wf_checker (checker_new typeidx)" "length (ck_blocks (checker_new typeidx)) = Suc 0"
    "abs_checker (checker_new typeidx) = ref_new typeidx"
    by (simp_all add: wf_checker_def checker_new_def abs_checker_def ref_new_def)
  have "checker_cmd = code.step" by (intro ext) (simp add: checker_cmd_def code.step_def)
  with code.run_agrees [OF start(1,2) assms] start(3) show ?thesis
    by (auto simp: code.agrees_with_def split: sum.splits)
qed

theorem checker_refines_reference_witness:
  "nested 0 [COp [] [I64], CEnter KBlock BVoid, CUnreachable, COp [I32, F32] [I32], COp [I32] [], CLeave, COp [I64] []] \<and>
   ref_run [COp [] [I64], CEnter KBlock BVoid, CUnreachable, COp [I32, F32] [I32], COp [I32] [], CLeave, COp [I64] []] (ref_new 0) =
     Some (ref_new 0)"
proof -
  let ?cmds = "[COp [] [I64], CEnter KBlock BVoid, CUnreachable, COp [I32, F32] [I32], COp [I32] [], CLeave, COp [I64] []]"
  have n: "nested 0 ?cmds" by simp
  have run: "rfold checker_cmd ?cmds (checker_new 0) = Inr (checker_new 0)" by code_simp
  have "abs_checker (checker_new 0) = ref_new 0" by (simp add: checker_new_def abs_checker_def ref_new_def)
  with n run checker_refines_reference [OF n, of 0] show ?thesis by simp
qed

end
