(* ===== verification/Locals_Layout.thy ===== *)
theory Locals_Layout
  imports Type_Checker "HOL-Library.Code_Target_Nat"
begin

text \<open>
  The layout of a function's local variables in its stack frame: \<open>LocalsData\<close> and
  \<open>LocalReassignTable\<close> of \<open>telomere/src/common.rs\<close>, \<open>validate_locals\<close> of
  \<open>parser/core/validate.rs\<close> and \<open>get_local_addr\<close> of \<open>parser/core/instruction.rs\<close>.  Parameters lie in
  order at the start of the frame; the declared locals follow, sorted by type.  The instruction
  parser computes the byte address of every local access from the table, so the theory shows that
  different locals never share a byte and that all lie within the frame.
\<close>

section \<open>The code\<close>

record locals =
  lo_n :: u32
  lo_t :: valtype

record locals_data =
  count_i32 :: u32
  count_f32 :: u32
  count_func_ref :: u32
  count_extern_ref :: u32
  count_i64 :: u32
  count_f64 :: u32
  count_v128 :: u32
  param_bytes :: u32
  temp_bytes :: u32

definition default_locals_data :: locals_data where
  "default_locals_data =
     \<lparr>count_i32 = 0, count_f32 = 0, count_func_ref = 0, count_extern_ref = 0, count_i64 = 0, count_f64 = 0,
      count_v128 = 0, param_bytes = 0, temp_bytes = 0\<rparr>"

definition add_locals :: "locals \<Rightarrow> locals_data \<Rightarrow> locals_data" where
  "add_locals l me =
     (let n = lo_n l in
      case lo_t l of
        ExternRef \<Rightarrow> me\<lparr>count_extern_ref := count_extern_ref me + n\<rparr>
      | I32 \<Rightarrow> me\<lparr>count_i32 := count_i32 me + n\<rparr>
      | I64 \<Rightarrow> me\<lparr>count_i64 := count_i64 me + n\<rparr>
      | F32 \<Rightarrow> me\<lparr>count_f32 := count_f32 me + n\<rparr>
      | F64 \<Rightarrow> me\<lparr>count_f64 := count_f64 me + n\<rparr>
      | V128 \<Rightarrow> me\<lparr>count_v128 := count_v128 me + n\<rparr>
      | FuncRef \<Rightarrow> me\<lparr>count_func_ref := count_func_ref me + n\<rparr>)"

definition locals_data_from :: "locals list \<Rightarrow> locals_data" where
  "locals_data_from ls = fold add_locals ls default_locals_data"

definition word_size :: "locals_data \<Rightarrow> nat" where
  "word_size ld =
     (unat (count_i32 ld) + unat (count_f32 ld) + unat (count_extern_ref ld) + unat (count_func_ref ld)) +
     (unat (count_i64 ld) + unat (count_f64 ld)) * 2 + unat (count_v128 ld) * 4"

definition base_byte_size :: "locals_data \<Rightarrow> nat" where
  "base_byte_size ld = word_size ld * 4"

definition byte_size :: "locals_data \<Rightarrow> nat" where
  "byte_size ld = base_byte_size ld + unat (temp_bytes ld)"

definition set_param_bytes :: "u32 \<Rightarrow> locals_data \<Rightarrow> locals_data" where
  "set_param_bytes n ld = ld\<lparr>param_bytes := n\<rparr>"

definition allocate_temp_slot :: "valtype \<Rightarrow> locals_data \<Rightarrow> u32 \<times> locals_data" where
  "allocate_temp_slot ty ld =
     (param_bytes ld + of_nat (base_byte_size ld) + temp_bytes ld,
      ld\<lparr>temp_bytes := temp_bytes ld + stack_size ty\<rparr>)"

definition checked_add :: "u32 \<Rightarrow> u32 \<Rightarrow> u32 option" where
  "checked_add a b = (if unat a + unat b < 2 ^ 32 then Some (a + b) else None)"

definition checked_mul :: "u32 \<Rightarrow> u32 \<Rightarrow> u32 option" where
  "checked_mul a b = (if unat a * unat b < 2 ^ 32 then Some (a * b) else None)"

abbreviation some_or :: "u32 option \<Rightarrow> parser_error + u32" where
  "some_or \<equiv> ok_or TooManyLocals"

text \<open>The base address of a group of locals, where \<open>cs\<close> counts the locals of the groups before.\<close>

definition group_base :: "locals_data \<Rightarrow> locals_data \<Rightarrow> valtype \<Rightarrow> parser_error + u32" where
  "group_base ld cs t =
     (case t of
        I32 \<Rightarrow> some_or (checked_mul (count_i32 cs) 4)
      | F32 \<Rightarrow> some_or (checked_mul (count_i32 ld + count_f32 cs) 4)
      | FuncRef \<Rightarrow> some_or (checked_mul (count_i32 ld + count_f32 ld + count_func_ref cs) 4)
      | ExternRef \<Rightarrow>
          some_or (checked_mul (count_i32 ld + count_f32 ld + count_func_ref ld + count_extern_ref cs) 4)
      | I64 \<Rightarrow>
          rbind (some_or (checked_mul (count_i32 ld + count_f32 ld + count_func_ref ld + count_extern_ref ld) 4)) (\<lambda>a.
          rbind (some_or (checked_mul (count_i64 cs) 8)) (\<lambda>b. Inr (a + b)))
      | F64 \<Rightarrow>
          rbind (some_or (checked_mul (count_i32 ld + count_f32 ld + count_func_ref ld + count_extern_ref ld) 4)) (\<lambda>a.
          rbind (some_or (checked_mul (count_i64 ld + count_f64 cs) 8)) (\<lambda>b. Inr (a + b)))
      | V128 \<Rightarrow>
          rbind (some_or (checked_mul (count_i32 ld + count_f32 ld + count_func_ref ld + count_extern_ref ld) 4)) (\<lambda>a.
          rbind (some_or (checked_mul (count_i64 ld + count_f64 ld) 8)) (\<lambda>b.
          rbind (some_or (checked_mul (count_v128 cs) 16)) (\<lambda>c. Inr (a + b + c)))))"

text \<open>Counting a group with \<open>checked_add\<close>.\<close>

definition count_of :: "valtype \<Rightarrow> locals_data \<Rightarrow> u32" where
  "count_of t cs =
     (case t of
        I32 \<Rightarrow> count_i32 cs | F32 \<Rightarrow> count_f32 cs | FuncRef \<Rightarrow> count_func_ref cs | ExternRef \<Rightarrow> count_extern_ref cs
      | I64 \<Rightarrow> count_i64 cs | F64 \<Rightarrow> count_f64 cs | V128 \<Rightarrow> count_v128 cs)"

definition count_group :: "locals \<Rightarrow> locals_data \<Rightarrow> parser_error + locals_data" where
  "count_group l cs = rbind (some_or (checked_add (count_of (lo_t l) cs) (lo_n l))) (\<lambda>_. Inr (add_locals l cs))"

fun reassign_loop ::
  "locals_data \<Rightarrow> locals_data \<Rightarrow> u32 \<Rightarrow> locals list \<Rightarrow> parser_error + (u32 \<times> valtype \<times> u32) list" where
  "reassign_loop ld cs index [] = Inr []"
| "reassign_loop ld cs index (l # ls) =
     rbind (some_or (checked_add index (lo_n l))) (\<lambda>index.
     rbind (group_base ld cs (lo_t l)) (\<lambda>base.
     rbind (count_group l cs) (\<lambda>cs.
     rbind (reassign_loop ld cs index ls) (\<lambda>res. Inr ((index, lo_t l, base) # res)))))"

definition create_reassignment_table :: "locals_data \<Rightarrow> locals list \<Rightarrow> parser_error + (u32 \<times> valtype \<times> u32) list" where
  "create_reassignment_table ld ls = reassign_loop ld default_locals_data 0 ls"

definition validate_locals :: "locals list \<Rightarrow> parser_error + unit" where
  "validate_locals ls =
     rbind (rfold (\<lambda>l count. some_or (checked_add count (lo_n l))) ls 0) (\<lambda>_. Inr ())"

fun param_loop :: "u32 \<Rightarrow> u32 \<Rightarrow> u32 \<Rightarrow> valtype list \<Rightarrow> (u32 \<times> u32) + (valtype \<times> u32)" where
  "param_loop idx i param_addr [] = Inl (i, param_addr)"
| "param_loop idx i param_addr (t # ts) =
     (if idx < i + 1 then Inr (t, param_addr) else param_loop idx (i + 1) (param_addr + stack_size t) ts)"

fun local_loop ::
  "u32 \<Rightarrow> u32 \<Rightarrow> u32 \<Rightarrow> u32 \<Rightarrow> (u32 \<times> valtype \<times> u32) list \<Rightarrow> parser_error + valtype \<times> u32" where
  "local_loop idx param_len param_addr i [] = Inl (InvalidLocalIndex idx)"
| "local_loop idx param_len param_addr i ((n, t, base_addr) # rest) =
     (if idx < param_len + n then Inr (t, param_addr + base_addr + (idx - i) * stack_size t)
      else local_loop idx param_len param_addr (param_len + n) rest)"

definition get_local_addr ::
  "valtype list \<Rightarrow> (u32 \<times> valtype \<times> u32) list \<Rightarrow> u32 \<Rightarrow> parser_error + valtype \<times> u32" where
  "get_local_addr params tab idx =
     (case param_loop idx 0 0 params of
        Inr found \<Rightarrow> Inr found
      | Inl (param_len, param_addr) \<Rightarrow> local_loop idx param_len param_addr param_len tab)"

section \<open>The specified layout\<close>

definition sizeof :: "valtype \<Rightarrow> nat" where
  "sizeof t = unat (stack_size t)"

lemma sizeof_simps [simp]:
  "sizeof I32 = 4" "sizeof F32 = 4" "sizeof FuncRef = 4" "sizeof ExternRef = 4" "sizeof I64 = 8" "sizeof F64 = 8"
  "sizeof V128 = 16"
  by (simp_all add: sizeof_def stack_size_def)

text \<open>The number of locals of a type, and the locals in the order of their indices.\<close>

fun total :: "locals list \<Rightarrow> valtype \<Rightarrow> nat" where
  "total [] t = 0"
| "total (l # ls) t = (if lo_t l = t then unat (lo_n l) else 0) + total ls t"

fun expand :: "locals list \<Rightarrow> valtype list" where
  "expand [] = []"
| "expand (l # ls) = replicate (unat (lo_n l)) (lo_t l) @ expand ls"

definition local_bytes :: "locals list \<Rightarrow> nat" where
  "local_bytes ls =
     4 * (total ls I32 + total ls F32 + total ls FuncRef + total ls ExternRef) + 8 * (total ls I64 + total ls F64) +
     16 * total ls V128"

definition class_base :: "locals list \<Rightarrow> valtype \<Rightarrow> nat" where
  "class_base ls t =
     (case t of
        I32 \<Rightarrow> 0
      | F32 \<Rightarrow> 4 * total ls I32
      | FuncRef \<Rightarrow> 4 * (total ls I32 + total ls F32)
      | ExternRef \<Rightarrow> 4 * (total ls I32 + total ls F32 + total ls FuncRef)
      | I64 \<Rightarrow> 4 * (total ls I32 + total ls F32 + total ls FuncRef + total ls ExternRef)
      | F64 \<Rightarrow> 4 * (total ls I32 + total ls F32 + total ls FuncRef + total ls ExternRef) + 8 * total ls I64
      | V128 \<Rightarrow> 4 * (total ls I32 + total ls F32 + total ls FuncRef + total ls ExternRef) + 8 * (total ls I64 + total ls F64))"

text \<open>The position of every local among the locals of its type.\<close>

fun ranks :: "(valtype \<Rightarrow> nat) \<Rightarrow> locals list \<Rightarrow> (valtype \<times> nat) list" where
  "ranks c [] = []"
| "ranks c (l # ls) =
     map (\<lambda>k. (lo_t l, c (lo_t l) + k)) [0 ..< unat (lo_n l)] @ ranks (c(lo_t l := c (lo_t l) + unat (lo_n l))) ls"

lemma length_ranks [simp]: "length (ranks c ls) = length (expand ls)"
  by (induction ls arbitrary: c) auto

lemma ranks_types: "map fst (ranks c ls) = expand ls"
  by (induction ls arbitrary: c) (auto simp: map_replicate_const comp_def)

lemma ranks_range: "(t, m) \<in> set (ranks c ls) \<Longrightarrow> c t \<le> m \<and> m < c t + total ls t"
  by (induction ls arbitrary: c) (fastforce split: if_splits)+

lemma rank_nth:
  assumes "k < length (expand ls)"
  obtains m where "ranks (\<lambda>_. 0) ls ! k = (expand ls ! k, m)" "m < total ls (expand ls ! k)"
proof -
  let ?r = "ranks (\<lambda>_. 0) ls ! k"
  have "fst ?r = expand ls ! k" using assms nth_map [of k "ranks (\<lambda>_. 0) ls" fst] by (simp add: ranks_types)
  moreover have "snd ?r < total ls (fst ?r)"
    using ranks_range [of "fst ?r" "snd ?r" "\<lambda>_. 0" ls] nth_mem [of k "ranks (\<lambda>_. 0) ls"] assms by simp
  ultimately show ?thesis by (intro that [of "snd ?r"]) (simp_all add: prod_eq_iff)
qed

lemma ranks_distinct: "distinct (ranks c ls)"
proof (induction ls arbitrary: c)
  case (Cons l ls)
  have "distinct (map (\<lambda>k. (lo_t l, c (lo_t l) + k)) [0 ..< unat (lo_n l)])"
    by (simp add: distinct_map inj_on_def)
  with Cons.IH show ?case by (force dest: ranks_range)
qed simp

definition slot :: "locals list \<Rightarrow> valtype \<times> nat \<Rightarrow> nat" where
  "slot ls r = class_base ls (fst r) + sizeof (fst r) * snd r"

lemma class_end: "class_base ls t + sizeof t * total ls t \<le> local_bytes ls"
  by (cases t) (auto simp: class_base_def local_bytes_def)

lemma classes_apart:
  "t \<noteq> u \<Longrightarrow> class_base ls t + sizeof t * total ls t \<le> class_base ls u \<or> class_base ls u + sizeof u * total ls u \<le> class_base ls t"
  by (cases t; cases u) (auto simp: class_base_def)

lemma slot_bounds:
  assumes "m < total ls t"
  shows "class_base ls t \<le> slot ls (t, m)" "slot ls (t, m) + sizeof t \<le> class_base ls t + sizeof t * total ls t"
proof -
  have "sizeof t * Suc m \<le> sizeof t * total ls t" using assms by (intro mult_le_mono2) simp
  then show "class_base ls t \<le> slot ls (t, m)" "slot ls (t, m) + sizeof t \<le> class_base ls t + sizeof t * total ls t"
    by (simp_all add: slot_def)
qed

lemma slots_apart:
  assumes "m < total ls t" "n < total ls u" "(t, m) \<noteq> (u, n)"
  shows "slot ls (t, m) + sizeof t \<le> slot ls (u, n) \<or> slot ls (u, n) + sizeof u \<le> slot ls (t, m)"
proof (cases "t = u")
  case True
  then have "m < n \<or> n < m" using assms(3) by auto
  then have "sizeof t * Suc m \<le> sizeof t * n \<or> sizeof t * Suc n \<le> sizeof t * m"
    by (metis Suc_leI mult_le_mono2)
  with True show ?thesis by (auto simp: slot_def)
next
  case False
  from classes_apart [OF this, of ls] slot_bounds [OF assms(1)] slot_bounds [OF assms(2)] show ?thesis by linarith
qed

section \<open>The code computes the layout\<close>

lemma unat_small: "n < 2 ^ 32 \<Longrightarrow> unat (of_nat n :: u32) = n"
  by (simp add: unat_of_nat)

lemma u32_add: "unat (a :: u32) + unat b < 2 ^ 32 \<Longrightarrow> unat (a + b) = unat a + unat b"
  by (simp add: unat_word_ariths)

lemma u32_mul: "unat (a :: u32) * unat b < 2 ^ 32 \<Longrightarrow> unat (a * b) = unat a * unat b"
  by (simp add: unat_word_ariths)

lemma count_add_locals:
  "count_of t (add_locals l cs) = (if lo_t l = t then count_of t cs + lo_n l else count_of t cs)"
  by (cases "lo_t l"; cases t) (simp_all add: count_of_def add_locals_def)

lemma counts_from:
  "unat (count_of t cs) + total ls t < 2 ^ 32 \<Longrightarrow> unat (count_of t (fold add_locals ls cs)) = unat (count_of t cs) + total ls t"
proof (induction ls arbitrary: cs)
  case (Cons l ls)
  then show ?case by (cases "lo_t l = t") (simp_all add: count_add_locals u32_add)
qed simp

lemma count_default [simp]: "count_of t default_locals_data = 0"
  by (cases t) (simp_all add: count_of_def default_locals_data_def)

lemma total_bytes: "sizeof t * total ls t \<le> local_bytes ls"
  using class_end [of ls t] by simp

lemma total_small: "local_bytes ls < 2 ^ 32 \<Longrightarrow> total ls t < 2 ^ 32"
  using total_bytes [of t ls] by (cases t) auto

lemma counts_locals_data:
  "local_bytes ls < 2 ^ 32 \<Longrightarrow> unat (count_of t (locals_data_from ls)) = total ls t"
  using counts_from [of t default_locals_data ls] total_small [of ls t] by (simp add: locals_data_from_def)

lemma checked_simps:
  "unat a + unat b < 2 ^ 32 \<Longrightarrow> checked_add a b = Some (a + b)"
  "unat a * unat b < 2 ^ 32 \<Longrightarrow> checked_mul a b = Some (a * b)"
  by (simp_all add: checked_add_def checked_mul_def)

lemma group_base_correct:
  assumes "local_bytes ls < 2 ^ 32" "\<And>t. unat (count_of t ld) = total ls t" "unat (count_of t cs) \<le> total ls t"
  shows "\<exists>w. group_base ld cs t = Inr w \<and> unat w = class_base ls t + sizeof t * unat (count_of t cs)"
proof -
  note ld = assms(2) [of I32] assms(2) [of F32] assms(2) [of FuncRef] assms(2) [of ExternRef] assms(2) [of I64] assms(2) [of F64]
  note small = assms(1) [unfolded local_bytes_def]
  have four: "unat (4 :: u32) = 4" "unat (8 :: u32) = 8" "unat (16 :: u32) = 16" by simp_all
  show ?thesis
    using assms(3) ld small
    by (cases t) (simp_all add: group_base_def count_of_def checked_simps u32_add u32_mul class_base_def)
qed

lemma slot_word:
  "(of_nat (class_base ls t + sizeof t * m) + of_nat k * of_nat (sizeof t) :: u32) = of_nat (slot ls (t, m + k))"
  by (simp add: slot_def algebra_simps)

lemma reassign_find:
  assumes "local_bytes ls < 2 ^ 32" "\<And>t. unat (count_of t ld) = total ls t"
    and "\<And>t. c t = unat (count_of t cs)" "\<And>t. c t + total ls2 t \<le> total ls t"
    and "q + p + length (expand ls2) < 2 ^ 32"
  shows "\<exists>tab. reassign_loop ld cs (of_nat p) ls2 = Inr tab \<and>
     (\<forall>idx. q + p \<le> unat idx \<longrightarrow> local_loop idx (of_nat q) pa (of_nat (q + p)) tab =
        (if unat idx < q + p + length (expand ls2)
         then Inr (fst (ranks c ls2 ! (unat idx - (q + p))), pa + of_nat (slot ls (ranks c ls2 ! (unat idx - (q + p)))))
         else Inl (InvalidLocalIndex idx)))"
  using assms(3-)
proof (induction ls2 arbitrary: cs c p)
  case Nil
  then show ?case by simp
next
  case (Cons l ls2)
  let ?n = "unat (lo_n l)" and ?t = "lo_t l"
  let ?c = "c(?t := c ?t + ?n)"
  have room: "q + (p + ?n) + length (expand ls2) < 2 ^ 32" using Cons.prems(3) by simp
  then have p: "unat (of_nat p :: u32) = p" "unat (of_nat q :: u32) = q" "unat (of_nat (q + p) :: u32) = q + p"
    by (intro unat_small; linarith)+
  have idx: "some_or (checked_add (of_nat p) (lo_n l)) = Inr (of_nat (p + ?n))"
    using room p by (simp add: checked_simps)
  have ct: "c ?t + ?n + total ls2 ?t \<le> total ls ?t" using Cons.prems(2) [of ?t] by simp
  obtain w where w: "group_base ld cs ?t = Inr w" "unat w = class_base ls ?t + sizeof ?t * c ?t"
    using group_base_correct [OF assms(1,2), of ?t cs] ct Cons.prems(1) [of ?t] by auto
  have fits: "unat (count_of ?t cs) + ?n < 2 ^ 32"
    using ct total_small [OF assms(1), of ?t] Cons.prems(1) [of ?t] by linarith
  then have cg: "count_group l cs = Inr (add_locals l cs)" by (simp add: count_group_def checked_simps)
  have c': "?c t = unat (count_of t (add_locals l cs))" for t
    using Cons.prems(1) [of t] fits by (auto simp: count_add_locals u32_add)
  have t': "?c t + total ls2 t \<le> total ls t" for t using Cons.prems(2) [of t] ct by (cases "t = ?t") auto
  from Cons.IH [OF c' t' room] obtain tab where tab: "reassign_loop ld (add_locals l cs) (of_nat (p + ?n)) ls2 = Inr tab"
    "\<And>idx. q + (p + ?n) \<le> unat idx \<Longrightarrow> local_loop idx (of_nat q) pa (of_nat (q + (p + ?n))) tab =
        (if unat idx < q + (p + ?n) + length (expand ls2)
         then Inr (fst (ranks ?c ls2 ! (unat idx - (q + (p + ?n)))),
           pa + of_nat (slot ls (ranks ?c ls2 ! (unat idx - (q + (p + ?n))))))
         else Inl (InvalidLocalIndex idx))" by blast
  have run: "reassign_loop ld cs (of_nat p) (l # ls2) = Inr ((of_nat (p + ?n), ?t, w) # tab)"
    using idx w(1) cg tab(1) by simp
  have "local_loop idx (of_nat q) pa (of_nat (q + p)) ((of_nat (p + ?n), ?t, w) # tab) =
      (if unat idx < q + p + length (expand (l # ls2))
       then Inr (fst (ranks c (l # ls2) ! (unat idx - (q + p))), pa + of_nat (slot ls (ranks c (l # ls2) ! (unat idx - (q + p)))))
       else Inl (InvalidLocalIndex idx))" if lo: "q + p \<le> unat idx" for idx
  proof -
    have less: "idx < of_nat q + of_nat (p + ?n) \<longleftrightarrow> unat idx < q + (p + ?n)"
    proof -
      have "unat (of_nat q + of_nat (p + ?n) :: u32) = q + (p + ?n)" using room by (simp add: unat_of_nat flip: of_nat_add)
      then show ?thesis by (simp add: word_less_nat_alt)
    qed
    show ?thesis
    proof (cases "unat idx < q + (p + ?n)")
      case True
      let ?k = "unat idx - (q + p)"
      have k: "?k < ?n" using True lo by linarith
      then have rk: "ranks c (l # ls2) ! ?k = (?t, c ?t + ?k)" by (simp add: nth_append)
      have "unat (idx - of_nat (q + p)) = ?k" using lo p(3) by (simp add: unat_sub_if' word_le_nat_alt)
      then have "idx - of_nat (q + p) = (of_nat ?k :: u32)" by (metis of_nat_unat ucast_id)
      moreover have "w = of_nat (class_base ls ?t + sizeof ?t * c ?t)" using w(2) by (metis of_nat_unat ucast_id)
      moreover have "stack_size ?t = of_nat (sizeof ?t)" by (simp add: sizeof_def)
      ultimately have "w + (idx - of_nat (q + p)) * stack_size ?t = of_nat (slot ls (?t, c ?t + ?k))"
        by (simp only: slot_word)
      then have "pa + w + (idx - of_nat (q + p)) * stack_size ?t = pa + of_nat (slot ls (?t, c ?t + ?k))"
        by (simp add: add.assoc)
      with True less rk k show ?thesis by simp
    next
      case False
      have nth: "ranks c (l # ls2) ! (unat idx - (q + p)) = ranks ?c ls2 ! (unat idx - (q + (p + ?n)))"
      proof -
        have "unat idx - (q + (p + ?n)) = unat idx - (q + p) - ?n" "\<not> unat idx - (q + p) < ?n" using False by simp_all
        then show ?thesis by (simp only: ranks.simps nth_append length_map length_upt) simp
      qed
      from False less have "local_loop idx (of_nat q) pa (of_nat (q + p)) ((of_nat (p + ?n), ?t, w) # tab) =
          local_loop idx (of_nat q) pa (of_nat (q + (p + ?n))) tab" by simp
      with tab(2) [of idx] False nth show ?thesis by (simp add: add.assoc)
    qed
  qed
  with run show ?case by blast
qed

text \<open>The addresses of the parameters.\<close>

definition bytes_before :: "valtype list \<Rightarrow> nat \<Rightarrow> nat" where
  "bytes_before ts k = sum_list (map sizeof (take k ts))"

lemma bytes_before_simps [simp]:
  "bytes_before ts 0 = 0"
  "bytes_before (t # ts) (Suc k) = sizeof t + bytes_before ts k"
  by (simp_all add: bytes_before_def)

lemma param_find:
  assumes "unat i \<le> unat idx" "unat i + length params < 2 ^ 32"
  shows "param_loop idx i pa params =
    (if unat idx - unat i < length params
     then Inr (params ! (unat idx - unat i), pa + of_nat (bytes_before params (unat idx - unat i)))
     else Inl (i + of_nat (length params), pa + of_nat (bytes_before params (length params))))"
  using assms
proof (induction params arbitrary: i pa)
  case (Cons t ts)
  have i: "unat (i + 1) = unat i + 1" using Cons.prems(2) by (simp add: u32_add)
  then have less: "idx < i + 1 \<longleftrightarrow> unat idx = unat i" using Cons.prems(1) by (auto simp: word_less_nat_alt)
  show ?case
  proof (cases "unat idx = unat i")
    case False
    then obtain k where k: "unat idx - unat i = Suc k" "unat idx - unat (i + 1) = k"
      using Cons.prems(1) i by (cases "unat idx - unat i") auto
    have size: "stack_size t = of_nat (sizeof t)" by (simp add: sizeof_def)
    have "param_loop idx i pa (t # ts) = param_loop idx (i + 1) (pa + stack_size t) ts" using False less by simp
    also have "\<dots> = (if k < length ts then Inr (ts ! k, pa + stack_size t + of_nat (bytes_before ts k))
        else Inl (i + 1 + of_nat (length ts), pa + stack_size t + of_nat (bytes_before ts (length ts))))"
      using Cons.IH [of "i + 1" "pa + stack_size t"] Cons.prems False i k(2) by simp
    finally show ?thesis using k(1) by (simp add: size add.assoc)
  qed (use less in simp)
qed simp

lemma bytes_before_mono: "k < length ts \<Longrightarrow> bytes_before ts k + sizeof (ts ! k) \<le> bytes_before ts (length ts)"
proof (induction ts arbitrary: k)
  case (Cons t ts)
  then show ?case by (cases k) auto
qed simp

lemma bytes_before_apart: "i < j \<Longrightarrow> j < length ts \<Longrightarrow> bytes_before ts i + sizeof (ts ! i) \<le> bytes_before ts j"
proof (induction ts arbitrary: i j)
  case (Cons t ts)
  then show ?case by (cases i; cases j) auto
qed simp

text \<open>The address at which the specification puts a parameter or local.\<close>

definition spec_addr :: "valtype list \<Rightarrow> locals list \<Rightarrow> nat \<Rightarrow> nat" where
  "spec_addr params ls i =
     (if i < length params then bytes_before params i
      else bytes_before params (length params) + slot ls (ranks (\<lambda>_. 0) ls ! (i - length params)))"

lemma expand_bytes: "4 * length (expand ls) \<le> local_bytes ls"
proof -
  have "length (expand ls) = total ls I32 + total ls F32 + total ls FuncRef + total ls ExternRef + total ls I64 + total ls F64 + total ls V128"
  proof (induction ls)
    case (Cons l ls)
    then show ?case by (cases "lo_t l") auto
  qed simp
  then show ?thesis by (simp add: local_bytes_def)
qed

lemma params_bytes: "4 * length params \<le> bytes_before params (length params)"
proof (induction params)
  case (Cons t ts)
  have "4 \<le> sizeof t" by (cases t) simp_all
  with Cons show ?case by simp
qed simp

lemma get_local_addr_correct:
  assumes "bytes_before params (length params) + local_bytes ls < 2 ^ 32"
    and "create_reassignment_table (locals_data_from ls) ls = Inr tab"
  shows "get_local_addr params tab idx =
    (if unat idx < length params + length (expand ls)
     then Inr ((params @ expand ls) ! unat idx, of_nat (spec_addr params ls (unat idx)))
     else Inl (InvalidLocalIndex idx))"
proof -
  let ?n = "length params"
  have small: "local_bytes ls < 2 ^ 32" using assms(1) by simp
  have room: "?n + 0 + length (expand ls) < 2 ^ 32" using assms(1) expand_bytes [of ls] params_bytes [of params] by linarith
  from reassign_find [OF small counts_locals_data [OF small] _ _ room, of "\<lambda>_. 0" default_locals_data "of_nat (bytes_before params ?n)"] assms(2)
  have tab: "local_loop idx (of_nat ?n) (of_nat (bytes_before params ?n)) (of_nat ?n) tab =
      (if unat idx < ?n + length (expand ls)
       then Inr (fst (ranks (\<lambda>_. 0) ls ! (unat idx - ?n)),
         of_nat (bytes_before params ?n) + of_nat (slot ls (ranks (\<lambda>_. 0) ls ! (unat idx - ?n))))
       else Inl (InvalidLocalIndex idx))" if "?n \<le> unat idx"
    using that by (auto simp: create_reassignment_table_def)
  have ty: "fst (ranks (\<lambda>_. 0) ls ! k) = expand ls ! k" if k: "k < length (expand ls)" for k
    by (rule rank_nth [OF k]) simp
  have pl: "param_loop idx 0 0 params = (if unat idx < ?n then Inr (params ! unat idx, of_nat (bytes_before params (unat idx)))
      else Inl (of_nat ?n, of_nat (bytes_before params ?n)))"
    using param_find [of 0 idx params 0] room by simp
  show ?thesis
  proof (cases "unat idx < ?n")
    case True
    then show ?thesis by (simp add: get_local_addr_def pl nth_append spec_addr_def)
  next
    case False
    then show ?thesis
      using tab by (auto simp: get_local_addr_def pl nth_append spec_addr_def ty)
  qed
qed

lemma spec_addr_bounds:
  assumes "i < length params + length (expand ls)"
  shows "spec_addr params ls i + sizeof ((params @ expand ls) ! i) \<le> bytes_before params (length params) + local_bytes ls"
proof (cases "i < length params")
  case True
  then show ?thesis using bytes_before_mono [of i params] by (simp add: spec_addr_def nth_append)
next
  case False
  then have "i - length params < length (expand ls)" using assms by simp
  then obtain m where m: "ranks (\<lambda>_. 0) ls ! (i - length params) = (expand ls ! (i - length params), m)"
    "m < total ls (expand ls ! (i - length params))" by (rule rank_nth)
  then show ?thesis
    using slot_bounds(2) [OF m(2)] class_end [of ls "expand ls ! (i - length params)"] False
    by (simp add: spec_addr_def nth_append)
qed

lemma spec_addr_apart:
  assumes "i < j" "j < length params + length (expand ls)"
  shows "spec_addr params ls i + sizeof ((params @ expand ls) ! i) \<le> spec_addr params ls j \<or>
    spec_addr params ls j + sizeof ((params @ expand ls) ! j) \<le> spec_addr params ls i"
proof (cases "j < length params")
  case True
  then show ?thesis using assms(1) bytes_before_apart [of i j params] by (simp add: spec_addr_def nth_append)
next
  case j: False
  let ?R = "ranks (\<lambda>_. 0) ls" and ?n = "length params"
  show ?thesis
  proof (cases "i < ?n")
    case True
    then show ?thesis using j bytes_before_mono [of i params] by (simp add: spec_addr_def nth_append)
  next
    case False
    have len: "i - ?n < length ?R" "j - ?n < length ?R" "i - ?n \<noteq> j - ?n" using assms False j by auto
    then have ne: "?R ! (i - ?n) \<noteq> ?R ! (j - ?n)" using ranks_distinct by (simp add: nth_eq_iff_index_eq)
    from len have li: "i - ?n < length (expand ls)" and lj: "j - ?n < length (expand ls)" by simp_all
    from li obtain m where m: "?R ! (i - ?n) = (expand ls ! (i - ?n), m)" "m < total ls (expand ls ! (i - ?n))" by (rule rank_nth)
    from lj obtain n where n: "?R ! (j - ?n) = (expand ls ! (j - ?n), n)" "n < total ls (expand ls ! (j - ?n))" by (rule rank_nth)
    from slots_apart [OF m(2) n(2)] ne m(1) n(1) False j show ?thesis
      by (auto simp: spec_addr_def nth_append)
  qed
qed

text \<open>C12: No two local variables of a function share a byte of its frame.  For a function whose
  parameters and locals take fewer than \<open>2 ^ 32\<close> bytes, every index of a parameter or local gets
  the declared type and an address such that the variable lies within the bytes of the frame,
  different indices get disjoint ranges, and any other index is rejected.\<close>

theorem locals_do_not_overlap:
  assumes "bytes_before params (length params) + local_bytes ls < 2 ^ 32"
    and "create_reassignment_table (locals_data_from ls) ls = Inr tab"
  shows "(\<forall>idx. length params + length (expand ls) \<le> unat idx \<longrightarrow> get_local_addr params tab idx = Inl (InvalidLocalIndex idx)) \<and>
    (\<forall>i j. unat i < unat j \<and> unat j < length params + length (expand ls) \<longrightarrow>
       (\<exists>t a u b. get_local_addr params tab i = Inr (t, a) \<and> get_local_addr params tab j = Inr (u, b) \<and>
          t = (params @ expand ls) ! unat i \<and> u = (params @ expand ls) ! unat j \<and>
          (unat a + sizeof t \<le> unat b \<or> unat b + sizeof u \<le> unat a) \<and>
          unat a + sizeof t \<le> bytes_before params (length params) + base_byte_size (locals_data_from ls) \<and>
          unat b + sizeof u \<le> bytes_before params (length params) + base_byte_size (locals_data_from ls)))"
proof -
  have small: "local_bytes ls < 2 ^ 32" using assms(1) by simp
  have frame: "base_byte_size (locals_data_from ls) = local_bytes ls"
    using counts_locals_data [OF small, of I32] counts_locals_data [OF small, of F32] counts_locals_data [OF small, of FuncRef]
      counts_locals_data [OF small, of ExternRef] counts_locals_data [OF small, of I64] counts_locals_data [OF small, of F64]
      counts_locals_data [OF small, of V128]
    by (simp add: base_byte_size_def word_size_def local_bytes_def count_of_def)
  have addr: "unat (of_nat (spec_addr params ls i) :: u32) = spec_addr params ls i" if "i < length params + length (expand ls)" for i
    using spec_addr_bounds [OF that] assms(1) by (intro unat_small) linarith
  have "\<exists>t a u b. get_local_addr params tab i = Inr (t, a) \<and> get_local_addr params tab j = Inr (u, b) \<and>
          t = (params @ expand ls) ! unat i \<and> u = (params @ expand ls) ! unat j \<and>
          (unat a + sizeof t \<le> unat b \<or> unat b + sizeof u \<le> unat a) \<and>
          unat a + sizeof t \<le> bytes_before params (length params) + local_bytes ls \<and>
          unat b + sizeof u \<le> bytes_before params (length params) + local_bytes ls"
    if ij: "unat i < unat j" "unat j < length params + length (expand ls)" for i j
  proof -
    have i: "unat i < length params + length (expand ls)" using ij by linarith
    show ?thesis
      using get_local_addr_correct [OF assms, of i] get_local_addr_correct [OF assms, of j] ij(2) i addr [OF i] addr [OF ij(2)]
        spec_addr_bounds [OF i] spec_addr_bounds [OF ij(2)] spec_addr_apart [OF ij]
      by simp
  qed
  moreover have "get_local_addr params tab idx = Inl (InvalidLocalIndex idx)" if "length params + length (expand ls) \<le> unat idx" for idx
    using get_local_addr_correct [OF assms, of idx] that by simp
  ultimately show ?thesis unfolding frame by blast
qed

theorem locals_do_not_overlap_witness:
  "\<exists>tab. create_reassignment_table (locals_data_from [\<lparr>lo_n = 2, lo_t = I64\<rparr>, \<lparr>lo_n = 1, lo_t = I32\<rparr>, \<lparr>lo_n = 1, lo_t = I64\<rparr>])
       [\<lparr>lo_n = 2, lo_t = I64\<rparr>, \<lparr>lo_n = 1, lo_t = I32\<rparr>, \<lparr>lo_n = 1, lo_t = I64\<rparr>] = Inr tab \<and>
     get_local_addr [F64] tab 2 = Inr (I64, 20) \<and> get_local_addr [F64] tab 3 = Inr (I32, 8) \<and>
     get_local_addr [F64] tab 5 = Inl (InvalidLocalIndex 5)"
proof -
  let ?ls = "[\<lparr>lo_n = 2, lo_t = I64\<rparr>, \<lparr>lo_n = 1, lo_t = I32\<rparr>, \<lparr>lo_n = 1, lo_t = I64\<rparr>]"
  let ?tab = "[(2, I64, 4), (3, I32, 0), (4, I64, 20)]"
  have tab: "create_reassignment_table (locals_data_from ?ls) ?ls = Inr ?tab" by code_simp
  have fits: "bytes_before [F64] (length [F64]) + local_bytes ?ls < 2 ^ 32" by (simp add: local_bytes_def bytes_before_def)
  have "get_local_addr [F64] ?tab 5 = Inl (InvalidLocalIndex 5)"
    using locals_do_not_overlap [OF fits tab] by simp
  moreover have "get_local_addr [F64] ?tab 2 = Inr (I64, 20)" "get_local_addr [F64] ?tab 3 = Inr (I32, 8)" by code_simp+
  ultimately show ?thesis using tab by blast
qed

text \<open>The bound on the size of the frame is needed: the parts of a base address are multiplied
  with overflow checks, but their sum is not checked.  A function with \<open>2 ^ 29\<close> locals of type i32
  and two groups of i64 locals, the first of \<open>2 ^ 28\<close>, is accepted, and its last i64 local has the
  address of its first i32 local.\<close>

theorem local_addresses_wrap:
  "\<exists>ls tab. ls = [\<lparr>lo_n = 0x20000000, lo_t = I32\<rparr>, \<lparr>lo_n = 0x10000000, lo_t = I64\<rparr>, \<lparr>lo_n = 1, lo_t = I64\<rparr>] \<and>
     validate_locals ls = Inr () \<and> create_reassignment_table (locals_data_from ls) ls = Inr tab \<and>
     get_local_addr [] tab 0 = Inr (I32, 0) \<and> get_local_addr [] tab 0x30000000 = Inr (I64, 0)"
proof -
  let ?ls = "[\<lparr>lo_n = 0x20000000, lo_t = I32\<rparr>, \<lparr>lo_n = 0x10000000, lo_t = I64\<rparr>, \<lparr>lo_n = 1, lo_t = I64\<rparr>]"
  let ?tab = "[(0x20000000, I32, 0), (0x30000000, I64, 0x80000000), (0x30000001, I64, 0)]"
  have "validate_locals ?ls = Inr ()" "create_reassignment_table (locals_data_from ?ls) ?ls = Inr ?tab"
    "get_local_addr [] ?tab 0 = Inr (I32, 0)" "get_local_addr [] ?tab 0x30000000 = Inr (I64, 0)"
    by code_simp+
  then show ?thesis by blast
qed

end
