(* ===== verification/Instruction_Validation.thy ===== *)
theory Instruction_Validation
  imports Locals_Layout
begin

text \<open>
  Validation of function bodies: the instruction parser of
  \<open>telomere/src/parser/core/instruction.rs\<close> (\<open>parse_inst\<close>, \<open>parse_instrs\<close>) and the part of
  \<open>parse_code_inner\<close> in \<open>parser/core/parser.rs\<close> that checks a body.  The stream of instructions is
  given decoded, with its immediates; one definition per opcode says what the parser does with the
  type checker and with the reachability flags of the instruction generator, from which the rest
  of validation depends.  The words that the parser emits for the interpreter are not modelled.
  Instructions that only call \<open>TypeChecker::op\<close> with types fixed by the opcode are \<open>ISimple\<close>.
  The functions are recursive over nested blocks; \<open>parse_instrs\<close> takes a bound on the number of
  steps, whose exhaustion is the error \<open>Diverged\<close>.
\<close>

section \<open>Instructions and state\<close>

datatype instr =
    IUnreachable
  | INop
  | IBlock blocktype
  | ILoop blocktype
  | IIf blocktype
  | IElse
  | IEnd
  | IBr u32
  | IBrIf u32
  | IBrTable "u32 list" u32
  | IReturn
  | ICall u32
  | ICallIndirect u32 u32
  | IReturnCall u32
  | IReturnCallIndirect u32 u32
  | IDrop
  | ISelect
  | ISelectTyped "valtype list"
  | ILocalGet u32
  | ILocalSet u32
  | ILocalTee u32
  | IGlobalGet u32
  | IGlobalSet u32
  | ITableGet u32
  | ITableSet u32
  | ISimple "valtype list" "valtype list"

record parser_ctx =
  ip_types :: "core_functype list"
  ip_functions :: "u32 list"
  ip_functype :: core_functype
  ip_locals :: "(u32 \<times> valtype \<times> u32) list"
  ip_globals :: "globaltype list"
  ip_tables :: "tabletype list"

text \<open>The checker, the flags of the instruction generator, innermost block last, and whether the
  address of an \<open>else\<close> has been recorded.\<close>

record parse_state =
  ps_checker :: checker
  ps_unreachable :: "bool list"
  ps_else :: bool

definition MAX_CONTROL_NESTING_DEPTH :: u32 where
  "MAX_CONTROL_NESTING_DEPTH = 512"

definition gen_enter_block :: "parse_state \<Rightarrow> parser_error + parse_state" where
  "gen_enter_block st =
     (case ps_unreachable st of
        [] \<Rightarrow> Inl Panic
      | us \<Rightarrow> Inr (st\<lparr>ps_unreachable := us @ [last us]\<rparr>))"

definition gen_leave_block :: "parse_state \<Rightarrow> parse_state" where
  "gen_leave_block st = st\<lparr>ps_unreachable := butlast (ps_unreachable st)\<rparr>"

definition is_unreachable :: "parse_state \<Rightarrow> parser_error + bool" where
  "is_unreachable st = (case ps_unreachable st of [] \<Rightarrow> Inl Panic | us \<Rightarrow> Inr (last us))"

definition set_unreachable :: "parse_state \<Rightarrow> parser_error + parse_state" where
  "set_unreachable st =
     (case ps_unreachable st of
        [] \<Rightarrow> Inl Panic
      | us \<Rightarrow> Inr (st\<lparr>ps_unreachable := butlast us @ [True]\<rparr>))"

definition on_checker :: "(checker \<Rightarrow> parser_error + checker) \<Rightarrow> parse_state \<Rightarrow> parser_error + parse_state" where
  "on_checker f st = rbind (f (ps_checker st)) (\<lambda>c. Inr (st\<lparr>ps_checker := c\<rparr>))"

definition type_at :: "parser_ctx \<Rightarrow> u32 \<Rightarrow> parser_error + valtype list \<times> valtype list" where
  "type_at cx idx =
     (case get_idx (ip_types cx) (unat idx) of
        None \<Rightarrow> Inl (InvalidTypeIdx idx)
      | Some (CoreFuncType params results) \<Rightarrow> Inr (params, results))"

definition results_of :: "core_functype \<Rightarrow> valtype list" where
  "results_of ft = (case ft of CoreFuncType _ results \<Rightarrow> results)"

definition params_of :: "core_functype \<Rightarrow> valtype list" where
  "params_of ft = (case ft of CoreFuncType params _ \<Rightarrow> params)"

definition next_control_nesting_depth :: "u32 \<Rightarrow> parser_error + u32" where
  "next_control_nesting_depth depth =
     (let next_depth = (if depth = - 1 then depth else depth + 1) in
      if next_depth > MAX_CONTROL_NESTING_DEPTH then Inl (ParserNestingTooDeep MAX_CONTROL_NESTING_DEPTH)
      else Inr next_depth)"

section \<open>Blocks\<close>

text \<open>Entering a block moves its parameters into it.\<close>

definition open_block :: "parser_ctx \<Rightarrow> block_kind \<Rightarrow> blocktype \<Rightarrow> checker \<Rightarrow> parser_error + checker" where
  "open_block cx kind bt c =
     (case bt of
        BTypeIdx idx \<Rightarrow>
          rbind (type_at cx idx) (\<lambda>(params, _).
          rbind (checker_op params [] c) (\<lambda>c.
            checker_op [] params (enter_block kind bt c)))
      | _ \<Rightarrow> Inr (enter_block kind bt c))"

definition close_block :: "parser_ctx \<Rightarrow> blocktype \<Rightarrow> checker \<Rightarrow> parser_error + checker" where
  "close_block cx bt c =
     (case bt of
        BTypeIdx idx \<Rightarrow>
          rbind (type_at cx idx) (\<lambda>(_, results).
          rbind (checker_op results [] c) (\<lambda>c.
          rbind (leave_block c) (\<lambda>c.
            checker_op [] results c)))
      | BValType ty \<Rightarrow>
          rbind (checker_op [ty] [] c) (\<lambda>c.
          rbind (leave_block c) (\<lambda>c.
            checker_op [] [ty] c))
      | BVoid \<Rightarrow> leave_block c)"

text \<open>\<open>BlockType::return_size\<close> and \<open>param_size\<close> fail exactly on an unknown type index.\<close>

definition known_blocktype :: "parser_ctx \<Rightarrow> blocktype \<Rightarrow> parser_error + unit" where
  "known_blocktype cx bt =
     (case bt of
        BTypeIdx idx \<Rightarrow> if unat idx < length (ip_types cx) then Inr () else Inl InvalidStackValTypeAny
      | _ \<Rightarrow> Inr ())"

text \<open>The sizes that are emitted with the instructions at the borders of a reachable block.\<close>

definition block_sizes :: "parser_ctx \<Rightarrow> blocktype \<Rightarrow> parse_state \<Rightarrow> parser_error + unit" where
  "block_sizes cx bt st =
     rbind (is_unreachable st) (\<lambda>dead.
       if dead then Inr ()
       else rbind (block_base_stack_size (ps_checker st)) (\<lambda>_. known_blocktype cx bt))"

definition block_end :: "parser_ctx \<Rightarrow> blocktype \<Rightarrow> parse_state \<Rightarrow> parser_error + parse_state" where
  "block_end cx bt st =
     (let st = gen_leave_block st in
      rbind (block_sizes cx bt st) (\<lambda>_. on_checker (close_block cx bt) st))"

definition block_begin :: "parser_ctx \<Rightarrow> blocktype \<Rightarrow> parse_state \<Rightarrow> parser_error + parse_state" where
  "block_begin cx bt st = rbind (on_checker (open_block cx KBlock bt) st) gen_enter_block"

definition loop_begin :: "parser_ctx \<Rightarrow> blocktype \<Rightarrow> parse_state \<Rightarrow> parser_error + parse_state" where
  "loop_begin cx bt st =
     rbind (on_checker (open_block cx KLoop bt) st) (\<lambda>st.
     rbind (block_sizes cx bt st) (\<lambda>_. gen_enter_block st))"

definition if_begin :: "parser_ctx \<Rightarrow> blocktype \<Rightarrow> parse_state \<Rightarrow> parser_error + parse_state" where
  "if_begin cx bt st =
     rbind (on_checker (checker_op [I32] []) st) (\<lambda>st.
     rbind (on_checker (open_block cx KIf bt) st) (\<lambda>st.
     rbind (gen_enter_block st) (\<lambda>st. Inr (st\<lparr>ps_else := False\<rparr>))))"

text \<open>The results of a branch, which are not looked at when the branch ends in unreachable code.\<close>

definition branch_results :: "bool \<Rightarrow> valtype list \<Rightarrow> checker \<Rightarrow> parser_error + checker" where
  "branch_results dead results c = (if dead then reset_stack c else checker_op results [] c)"

definition close_if :: "parser_ctx \<Rightarrow> blocktype \<Rightarrow> bool \<Rightarrow> bool \<Rightarrow> checker \<Rightarrow> parser_error + checker" where
  "close_if cx bt dead has_else c =
     (case bt of
        BVoid \<Rightarrow> rbind (if dead then reset_stack c else Inr c) leave_block
      | BTypeIdx idx \<Rightarrow>
          rbind (type_at cx idx) (\<lambda>(params, results).
          rbind (if has_else then Inr c
                 else rbind (branch_results dead results c) (\<lambda>c.
                   rbind (leave_block c) (\<lambda>c. checker_op [] params (enter_block KIf bt c)))) (\<lambda>c.
          rbind (branch_results dead results c) (\<lambda>c.
          rbind (leave_block c) (\<lambda>c. checker_op [] results c))))
      | BValType ty \<Rightarrow>
          rbind (if has_else then Inr c
                 else rbind (branch_results dead [ty] c) (\<lambda>c.
                   rbind (leave_block c) (\<lambda>c. Inr (enter_block KIf bt c)))) (\<lambda>c.
          rbind (branch_results dead [ty] c) (\<lambda>c.
          rbind (leave_block c) (\<lambda>c. checker_op [] [ty] c))))"

definition if_end :: "parser_ctx \<Rightarrow> blocktype \<Rightarrow> parse_state \<Rightarrow> parser_error + parse_state" where
  "if_end cx bt st =
     rbind (is_unreachable st) (\<lambda>dead.
     rbind (on_checker (close_if cx bt dead (ps_else st)) st) (\<lambda>st. Inr (gen_leave_block st)))"

definition switch_branch :: "parser_ctx \<Rightarrow> bool \<Rightarrow> checker \<Rightarrow> parser_error + checker" where
  "switch_branch cx dead c =
     rbind (current_block c) (\<lambda>(kind, bt, _).
       if kind = KIf then
         (case bt of
            BVoid \<Rightarrow>
              rbind (if dead then reset_stack c else Inr c) (\<lambda>c.
              rbind (leave_block c) (\<lambda>c. Inr (enter_block KIf bt c)))
          | BTypeIdx idx \<Rightarrow>
              rbind (type_at cx idx) (\<lambda>(params, results).
              rbind (branch_results dead results c) (\<lambda>c.
              rbind (leave_block c) (\<lambda>c. checker_op [] params (enter_block KIf bt c))))
          | BValType ty \<Rightarrow>
              rbind (branch_results dead [ty] c) (\<lambda>c.
              rbind (leave_block c) (\<lambda>c. Inr (enter_block KIf bt c))))
       else Inl InvalidStackValTypeAny)"

definition inst_else :: "parser_ctx \<Rightarrow> parse_state \<Rightarrow> parser_error + parse_state" where
  "inst_else cx st =
     rbind (is_unreachable st) (\<lambda>inst_unreachable.
     rbind (gen_enter_block (gen_leave_block st)) (\<lambda>st.
     rbind (is_unreachable st) (\<lambda>dead.
       if dead then Inr st
       else rbind (on_checker (switch_branch cx inst_unreachable) st) (\<lambda>st. Inr (st\<lparr>ps_else := True\<rparr>)))))"

section \<open>Branches and calls\<close>

definition inst_unreachable :: "parse_state \<Rightarrow> parser_error + parse_state" where
  "inst_unreachable st =
     rbind (set_unreachable st) (\<lambda>st. Inr (st\<lparr>ps_checker := checker_unreachable (ps_checker st)\<rparr>))"

definition mark_unreachable :: "parse_state \<Rightarrow> parser_error + parse_state" where
  "mark_unreachable st = Inr (st\<lparr>ps_checker := checker_unreachable (ps_checker st)\<rparr>)"

definition inst_br :: "parser_ctx \<Rightarrow> u32 \<Rightarrow> parse_state \<Rightarrow> parser_error + parse_state" where
  "inst_br cx idx st =
     rbind (is_unreachable st) (\<lambda>dead.
     rbind (if dead then Inr st else set_unreachable st) (\<lambda>st.
     rbind (get_block (unat idx) (ps_checker st)) (\<lambda>(kind, bt, _).
     rbind (on_checker (\<lambda>c.
         case (kind, bt) of
           (KLoop, BTypeIdx idx) \<Rightarrow> rbind (type_at cx idx) (\<lambda>(params, _). checker_op params [] c)
         | (KLoop, _) \<Rightarrow> Inr c
         | (_, BVoid) \<Rightarrow> Inr c
         | (_, BValType ty) \<Rightarrow> checker_op [ty] [] c
         | (_, BTypeIdx idx) \<Rightarrow> rbind (type_at cx idx) (\<lambda>(_, results). checker_op results [] c)) st)
       mark_unreachable)))"

definition inst_br_if :: "parser_ctx \<Rightarrow> u32 \<Rightarrow> parse_state \<Rightarrow> parser_error + parse_state" where
  "inst_br_if cx idx st =
     rbind (on_checker (checker_op [I32] []) st) (\<lambda>st.
     rbind (get_block (unat idx) (ps_checker st)) (\<lambda>(kind, bt, _).
     rbind (on_checker (\<lambda>c.
         case (kind, bt) of
           (KLoop, _) \<Rightarrow> Inr c
         | (_, BVoid) \<Rightarrow> Inr c
         | (_, BValType ty) \<Rightarrow> checker_op [ty] [ty] c
         | (_, BTypeIdx idx) \<Rightarrow> rbind (type_at cx idx) (\<lambda>(_, results). checker_op results results c)) st) (\<lambda>st.
     rbind (is_unreachable st) (\<lambda>_. Inr st))))"

definition validate_br_table_types :: "parser_ctx \<Rightarrow> u32 \<Rightarrow> checker \<Rightarrow> parser_error + u32" where
  "validate_br_table_types cx idx c =
     rbind (get_block (unat idx) c) (\<lambda>(kind, bt, _).
       case (kind, bt) of
         (KLoop, BTypeIdx idx) \<Rightarrow>
           rbind (type_at cx idx) (\<lambda>(params, _).
           rbind (checker_check params c) (\<lambda>_. Inr (of_nat (length params))))
       | (KLoop, _) \<Rightarrow> Inr 0
       | (_, BVoid) \<Rightarrow> Inr 0
       | (_, BValType ty) \<Rightarrow> rbind (checker_check [ty] c) (\<lambda>_. Inr 1)
       | (_, BTypeIdx idx) \<Rightarrow>
           rbind (type_at cx idx) (\<lambda>(_, results).
           rbind (checker_check results c) (\<lambda>_. Inr (of_nat (length results)))))"

definition inst_br_table :: "parser_ctx \<Rightarrow> u32 list \<Rightarrow> u32 \<Rightarrow> parse_state \<Rightarrow> parser_error + parse_state" where
  "inst_br_table cx idxs default_idx st =
     rbind (on_checker (checker_op [I32] []) st) (\<lambda>st.
     rbind (validate_br_table_types cx default_idx (ps_checker st)) (\<lambda>result_len.
     rbind (rfold (\<lambda>idx _.
         rbind (validate_br_table_types cx idx (ps_checker st)) (\<lambda>n.
           if result_len \<noteq> n then Inl InvalidStackValTypeAny else Inr ())) idxs ()) (\<lambda>_.
     rbind (is_unreachable st) (\<lambda>_.
     rbind (mark_unreachable st) set_unreachable))))"

definition inst_return :: "parser_ctx \<Rightarrow> parse_state \<Rightarrow> parser_error + parse_state" where
  "inst_return cx st =
     rbind (is_unreachable st) (\<lambda>dead.
     rbind (if dead then Inr st else set_unreachable st) (\<lambda>st.
     rbind (on_checker (checker_op (results_of (ip_functype cx)) []) st) mark_unreachable))"

definition callee_type :: "parser_ctx \<Rightarrow> u32 \<Rightarrow> parser_error + core_functype" where
  "callee_type cx idx =
     rbind (ok_or (InvalidFuncIdx idx) (get_idx (ip_functions cx) (unat idx))) (\<lambda>typeidx.
       ok_or (InvalidTypeIdx idx) (get_idx (ip_types cx) (unat typeidx)))"

definition inst_call :: "parser_ctx \<Rightarrow> u32 \<Rightarrow> parse_state \<Rightarrow> parser_error + parse_state" where
  "inst_call cx idx st = rbind (callee_type cx idx) (\<lambda>ty. on_checker (op_func_type ty) st)"

definition indirect_type :: "parser_ctx \<Rightarrow> u32 \<Rightarrow> u32 \<Rightarrow> parse_state \<Rightarrow> parser_error + parse_state" where
  "indirect_type cx typeidx tableidx st =
     rbind (ok_or (InvalidTableIndex tableidx) (get_idx (ip_tables cx) (unat tableidx))) (\<lambda>table.
     case table of TableType reftype _ \<Rightarrow>
       if reftype \<noteq> RFuncRef then Inl (InvalidTableType tableidx)
       else rbind (on_checker (checker_op [I32] []) st) (\<lambda>st.
         rbind (ok_or (InvalidTypeIdx typeidx) (get_idx (ip_types cx) (unat typeidx))) (\<lambda>ty.
           on_checker (op_func_type ty) st)))"

definition inst_call_indirect :: "parser_ctx \<Rightarrow> u32 \<Rightarrow> u32 \<Rightarrow> parse_state \<Rightarrow> parser_error + parse_state" where
  "inst_call_indirect cx typeidx tableidx st = indirect_type cx typeidx tableidx st"

definition inst_return_call :: "parser_ctx \<Rightarrow> u32 \<Rightarrow> parse_state \<Rightarrow> parser_error + parse_state" where
  "inst_return_call cx idx st =
     rbind (callee_type cx idx) (\<lambda>ty.
     rbind (on_checker (op_func_type ty) st) (\<lambda>st.
     rbind (on_checker (checker_op (results_of (ip_functype cx)) []) st) mark_unreachable))"

definition inst_return_call_indirect :: "parser_ctx \<Rightarrow> u32 \<Rightarrow> u32 \<Rightarrow> parse_state \<Rightarrow> parser_error + parse_state" where
  "inst_return_call_indirect cx typeidx tableidx st =
     rbind (indirect_type cx typeidx tableidx st) (\<lambda>st.
     rbind (on_checker (checker_op (results_of (ip_functype cx)) []) st) mark_unreachable)"

section \<open>Parametric and variable instructions\<close>

definition inst_drop :: "parse_state \<Rightarrow> parser_error + parse_state" where
  "inst_drop st = on_checker (\<lambda>c. rbind (checker_pop c) (\<lambda>(_, c). Inr c)) st"

definition is_ref :: "valtype \<Rightarrow> bool" where
  "is_ref t \<longleftrightarrow> t = ExternRef \<or> t = FuncRef"

definition inst_select :: "parse_state \<Rightarrow> parser_error + parse_state" where
  "inst_select st =
     rbind (on_checker (checker_op [I32] []) st) (\<lambda>st.
     rbind (checker_pop (ps_checker st)) (\<lambda>(x, c).
       case x of
         MNormal x \<Rightarrow>
           rbind (checker_op [x] [x] c) (\<lambda>c.
             if is_ref x then Inl InvalidStackValTypeAny else Inr (st\<lparr>ps_checker := c\<rparr>))
       | MUnreachable _ \<Rightarrow>
           rbind (checker_pop c) (\<lambda>(x, c).
             case x of
               MNormal x \<Rightarrow>
                 if is_ref x then Inl InvalidStackValTypeAny else Inr (st\<lparr>ps_checker := checker_push x c\<rparr>)
             | MUnreachable _ \<Rightarrow>
                 rbind (is_unreachable st) (\<lambda>dead.
                   if \<not> dead then Inl InvalidStackValTypeAny else Inr (st\<lparr>ps_checker := push_any c\<rparr>)))))"

definition inst_select_typed :: "valtype list \<Rightarrow> parse_state \<Rightarrow> parser_error + parse_state" where
  "inst_select_typed operand st =
     (if length operand \<noteq> 1 then Inl InvalidResultArity
      else rbind (on_checker (checker_op [I32] []) st) (\<lambda>st.
        rbind (on_checker (checker_op operand []) st) (\<lambda>st.
        rbind (on_checker (checker_op operand operand) st) (\<lambda>st.
        rbind (is_unreachable st) (\<lambda>_. Inr st)))))"

definition local_type :: "parser_ctx \<Rightarrow> u32 \<Rightarrow> parser_error + valtype" where
  "local_type cx idx =
     rbind (get_local_addr (params_of (ip_functype cx)) (ip_locals cx) idx) (\<lambda>(ty, _). Inr ty)"

definition inst_local_get :: "parser_ctx \<Rightarrow> u32 \<Rightarrow> parse_state \<Rightarrow> parser_error + parse_state" where
  "inst_local_get cx idx st = rbind (local_type cx idx) (\<lambda>ty. on_checker (checker_op [] [ty]) st)"

definition inst_local_set :: "parser_ctx \<Rightarrow> u32 \<Rightarrow> parse_state \<Rightarrow> parser_error + parse_state" where
  "inst_local_set cx idx st = rbind (local_type cx idx) (\<lambda>ty. on_checker (checker_op [ty] []) st)"

definition inst_local_tee :: "parser_ctx \<Rightarrow> u32 \<Rightarrow> parse_state \<Rightarrow> parser_error + parse_state" where
  "inst_local_tee cx idx st = rbind (local_type cx idx) (\<lambda>ty. on_checker (checker_op [ty] [ty]) st)"

definition inst_global_get :: "parser_ctx \<Rightarrow> u32 \<Rightarrow> parse_state \<Rightarrow> parser_error + parse_state" where
  "inst_global_get cx idx st =
     rbind (ok_or UnknownGlobal (get_idx (ip_globals cx) (unat idx))) (\<lambda>g.
       case g of GlobalType ty _ \<Rightarrow> on_checker (checker_op [] [ty]) st)"

definition inst_global_set :: "parser_ctx \<Rightarrow> u32 \<Rightarrow> parse_state \<Rightarrow> parser_error + parse_state" where
  "inst_global_set cx idx st =
     rbind (ok_or UnknownGlobal (get_idx (ip_globals cx) (unat idx))) (\<lambda>g.
       case g of GlobalType ty mutable \<Rightarrow>
         if \<not> mutable then Inl InvalidGlobalAccess else on_checker (checker_op [ty] []) st)"

definition ref_valtype :: "reftype \<Rightarrow> valtype" where
  "ref_valtype r = (case r of RFuncRef \<Rightarrow> FuncRef | RExternRef \<Rightarrow> ExternRef)"

definition inst_table_get :: "parser_ctx \<Rightarrow> u32 \<Rightarrow> parse_state \<Rightarrow> parser_error + parse_state" where
  "inst_table_get cx idx st =
     rbind (ok_or (InvalidTableIndex idx) (get_idx (ip_tables cx) (unat idx))) (\<lambda>t.
       case t of TableType r _ \<Rightarrow> on_checker (checker_op [I32] [ref_valtype r]) st)"

definition inst_table_set :: "parser_ctx \<Rightarrow> u32 \<Rightarrow> parse_state \<Rightarrow> parser_error + parse_state" where
  "inst_table_set cx idx st =
     rbind (ok_or (InvalidTableIndex idx) (get_idx (ip_tables cx) (unat idx))) (\<lambda>t.
       case t of TableType r _ \<Rightarrow> on_checker (checker_op [I32, ref_valtype r] []) st)"

section \<open>Bodies\<close>

text \<open>The instructions that neither open nor close a block.\<close>

definition flat_inst :: "parser_ctx \<Rightarrow> instr \<Rightarrow> parse_state \<Rightarrow> parser_error + parse_state" where
  "flat_inst cx inst st =
     (case inst of
        IUnreachable \<Rightarrow> inst_unreachable st
      | IElse \<Rightarrow> inst_else cx st
      | IBr idx \<Rightarrow> inst_br cx idx st
      | IBrIf idx \<Rightarrow> inst_br_if cx idx st
      | IBrTable idxs idx \<Rightarrow> inst_br_table cx idxs idx st
      | IReturn \<Rightarrow> inst_return cx st
      | ICall idx \<Rightarrow> inst_call cx idx st
      | ICallIndirect ty table \<Rightarrow> inst_call_indirect cx ty table st
      | IReturnCall idx \<Rightarrow> inst_return_call cx idx st
      | IReturnCallIndirect ty table \<Rightarrow> inst_return_call_indirect cx ty table st
      | IDrop \<Rightarrow> inst_drop st
      | ISelect \<Rightarrow> inst_select st
      | ISelectTyped ts \<Rightarrow> inst_select_typed ts st
      | ILocalGet idx \<Rightarrow> inst_local_get cx idx st
      | ILocalSet idx \<Rightarrow> inst_local_set cx idx st
      | ILocalTee idx \<Rightarrow> inst_local_tee cx idx st
      | IGlobalGet idx \<Rightarrow> inst_global_get cx idx st
      | IGlobalSet idx \<Rightarrow> inst_global_set cx idx st
      | ITableGet idx \<Rightarrow> inst_table_get cx idx st
      | ITableSet idx \<Rightarrow> inst_table_set cx idx st
      | ISimple ins outs \<Rightarrow> on_checker (checker_op ins outs) st
      | _ \<Rightarrow> Inr st)"

fun parse_instrs ::
  "parser_ctx \<Rightarrow> nat \<Rightarrow> u32 \<Rightarrow> instr list \<Rightarrow> parse_state \<Rightarrow> parser_error + parse_state \<times> instr list" where
  "parse_instrs cx 0 depth insts st = Inl Diverged"
| "parse_instrs cx (Suc n) depth [] st = Inl UnexpectedEof"
| "parse_instrs cx (Suc n) depth (inst # insts) st =
     (case inst of
        IEnd \<Rightarrow> Inr (st, insts)
      | IBlock bt \<Rightarrow>
          rbind (next_control_nesting_depth depth) (\<lambda>next_depth.
          rbind (block_begin cx bt st) (\<lambda>st.
          rbind (parse_instrs cx n next_depth insts st) (\<lambda>(st, insts).
          rbind (block_end cx bt st) (\<lambda>st.
            parse_instrs cx n depth insts st))))
      | ILoop bt \<Rightarrow>
          rbind (next_control_nesting_depth depth) (\<lambda>next_depth.
          rbind (loop_begin cx bt st) (\<lambda>st.
          rbind (parse_instrs cx n next_depth insts st) (\<lambda>(st, insts).
          rbind (block_end cx bt st) (\<lambda>st.
            parse_instrs cx n depth insts st))))
      | IIf bt \<Rightarrow>
          rbind (next_control_nesting_depth depth) (\<lambda>next_depth.
          rbind (if_begin cx bt st) (\<lambda>body.
          rbind (parse_instrs cx n next_depth insts body) (\<lambda>(body, insts).
          rbind (if_end cx bt body) (\<lambda>body.
            parse_instrs cx n depth insts (body\<lparr>ps_else := ps_else st\<rparr>)))))
      | _ \<Rightarrow> rbind (flat_inst cx inst st) (parse_instrs cx n depth insts))"

lemma parse_instrs_code [code]:
  "parse_instrs cx n depth insts st =
     (if n = 0 then Inl Diverged
      else case insts of
        [] \<Rightarrow> Inl UnexpectedEof
      | inst # insts \<Rightarrow>
          (case inst of
             IEnd \<Rightarrow> Inr (st, insts)
           | IBlock bt \<Rightarrow>
               rbind (next_control_nesting_depth depth) (\<lambda>next_depth.
               rbind (block_begin cx bt st) (\<lambda>st.
               rbind (parse_instrs cx (n - 1) next_depth insts st) (\<lambda>(st, insts).
               rbind (block_end cx bt st) (\<lambda>st.
                 parse_instrs cx (n - 1) depth insts st))))
           | ILoop bt \<Rightarrow>
               rbind (next_control_nesting_depth depth) (\<lambda>next_depth.
               rbind (loop_begin cx bt st) (\<lambda>st.
               rbind (parse_instrs cx (n - 1) next_depth insts st) (\<lambda>(st, insts).
               rbind (block_end cx bt st) (\<lambda>st.
                 parse_instrs cx (n - 1) depth insts st))))
           | IIf bt \<Rightarrow>
               rbind (next_control_nesting_depth depth) (\<lambda>next_depth.
               rbind (if_begin cx bt st) (\<lambda>body.
               rbind (parse_instrs cx (n - 1) next_depth insts body) (\<lambda>(body, insts).
               rbind (if_end cx bt body) (\<lambda>body.
                 parse_instrs cx (n - 1) depth insts (body\<lparr>ps_else := ps_else st\<rparr>)))))
           | _ \<Rightarrow> rbind (flat_inst cx inst st) (parse_instrs cx (n - 1) depth insts)))"
  by (cases n; cases insts; cases "hd insts") simp_all

text \<open>The body of a function: the instructions up to the last \<open>end\<close>, then the results.\<close>

definition parse_body :: "parser_ctx \<Rightarrow> u32 \<Rightarrow> instr list \<Rightarrow> parser_error + instr list" where
  "parse_body cx typeidx insts =
     rbind (gen_enter_block \<lparr>ps_checker = checker_new typeidx, ps_unreachable = [False], ps_else = False\<rparr>) (\<lambda>st.
     rbind (parse_instrs cx (Suc (length insts)) 0 insts st) (\<lambda>(st, rest).
     rbind (checker_op (results_of (ip_functype cx)) [] (ps_checker st)) (\<lambda>c.
     rbind (leave_block c) (\<lambda>_. Inr rest))))"

section \<open>The parser neither panics nor diverges\<close>

definition ensures :: "('a \<Rightarrow> bool) \<Rightarrow> parser_error + 'a \<Rightarrow> bool" where
  "ensures P r \<longleftrightarrow> (case r of Inl e \<Rightarrow> e \<noteq> Panic \<and> e \<noteq> Diverged | Inr x \<Rightarrow> P x)"

lemma ensures_simps [simp]:
  "ensures P (Inl e) \<longleftrightarrow> e \<noteq> Panic \<and> e \<noteq> Diverged"
  "ensures P (Inr x) \<longleftrightarrow> P x"
  by (simp_all add: ensures_def)

lemma ensures_bind: "ensures P r \<Longrightarrow> (\<And>x. P x \<Longrightarrow> ensures Q (k x)) \<Longrightarrow> ensures Q (rbind r k)"
  by (cases r) auto

lemma ensures_ok_or: "e \<noteq> Panic \<Longrightarrow> e \<noteq> Diverged \<Longrightarrow> (\<And>x. y = Some x \<Longrightarrow> P x) \<Longrightarrow> ensures P (ok_or e y)"
  by (cases y) auto

lemma ensures_mono: "ensures P r \<Longrightarrow> (\<And>x. P x \<Longrightarrow> Q x) \<Longrightarrow> ensures Q r"
  by (cases r) auto

lemma ensures_if: "(b \<Longrightarrow> ensures P r) \<Longrightarrow> (\<not> b \<Longrightarrow> ensures P s) \<Longrightarrow> ensures P (if b then r else s)"
  by simp

text \<open>A well-formed checker with \<open>d\<close> open blocks.\<close>

definition deep :: "nat \<Rightarrow> checker \<Rightarrow> bool" where
  "deep d c \<longleftrightarrow> wf_checker c \<and> length (ck_blocks c) = d"

lemma get_block_ensures: "ensures (\<lambda>_. True) (get_block i c)"
  by (auto simp: get_block_def intro!: ensures_bind [of "\<lambda>_. True"] ensures_ok_or)

lemma block_base_ensures: "ensures (\<lambda>_. True) (block_base c)"
  unfolding block_base_def current_block_def by (rule ensures_bind [OF get_block_ensures]) auto

lemma pop_ensures: "deep d c \<Longrightarrow> ensures (\<lambda>(m, c'). deep d c') (checker_pop c)"
proof -
  assume c: "deep d c"
  have "ensures (\<lambda>_. True) (check_block_base x)" for x
    unfolding check_block_base_def by (rule ensures_bind [OF block_base_ensures]) auto
  then have "ensures (\<lambda>_. True) (checker_pop c)"
    unfolding checker_pop_def Let_def
    by (intro ensures_bind [of "\<lambda>_. True"] ensures_ok_or) (auto split: maybe_unreachable.split)
  with c pop_refines [of c] pop_blocks [of c] show ?thesis
    by (cases "checker_pop c") (auto simp: deep_def split: prod.splits)
qed

lemma pop_expecting_ensures: "deep d c \<Longrightarrow> ensures (deep d) (pop_expecting t c)"
  unfolding pop_expecting_def
  by (rule ensures_bind [OF pop_ensures]) (auto simp: assert_valtype_def split: maybe_unreachable.split)

lemma rfold_ensures:
  "P acc \<Longrightarrow> (\<And>x acc. P acc \<Longrightarrow> ensures P (f x acc)) \<Longrightarrow> ensures P (rfold f xs acc)"
  by (induction xs arbitrary: acc) (auto intro: ensures_bind)

lemma op_ensures: "deep d c \<Longrightarrow> 0 < d \<Longrightarrow> ensures (deep d) (checker_op ins outs c)"
proof -
  assume c: "deep d c" "0 < d"
  have "ensures (deep d) (rfold pop_expecting (rev ins) c)" by (rule rfold_ensures [OF c(1) pop_expecting_ensures])
  then show ?thesis
    unfolding checker_op_def by (rule ensures_bind) (use c(2) in \<open>auto simp: deep_def pushes_refine\<close>)
qed

lemma in_block_length [simp]: "length outer \<le> length (ck_types (in_block bs outer kind bt s))"
  by (simp add: in_block_def)

lemma types_from_base_ensures:
  assumes "deep d c"
  shows "ensures (\<lambda>_. True) (types_from_base c)"
proof -
  have "wf_checker c" using assms by (simp add: deep_def)
  then show ?thesis by (cases rule: wf_checker_cases) (simp_all add: types_from_base_def)
qed

lemma check_loop_ensures: "ensures (\<lambda>_. True) (check_loop s ts)"
  by (induction s ts rule: check_loop.induct) (auto simp: assert_valtype_def)

lemma check_ensures: "deep d c \<Longrightarrow> ensures (\<lambda>_. True) (checker_check ts c)"
  unfolding checker_check_def by (rule ensures_bind [OF types_from_base_ensures check_loop_ensures])

lemma leave_ensures: "deep (Suc d) c \<Longrightarrow> ensures (deep d) (leave_block c)"
proof -
  assume c: "deep (Suc d) c"
  have "ensures (\<lambda>_. True) (leave_block c)"
    unfolding leave_block_def by (rule ensures_bind [OF types_from_base_ensures [OF c]]) (simp add: Let_def)
  with c leave_refines [of c] leave_blocks [of c] show ?thesis
    by (cases "leave_block c") (auto simp: deep_def)
qed

lemma enter_deep: "deep d c \<Longrightarrow> deep (Suc d) (enter_block k bt c)"
  using enter_refines [of c k bt] by (simp add: deep_def enter_block_def)

lemma reset_ensures: "deep d c \<Longrightarrow> ensures (deep d) (reset_stack c)"
proof -
  assume c: "deep d c"
  then have "wf_checker c" by (simp add: deep_def)
  then show ?thesis
  proof (cases rule: wf_checker_cases)
    case (inside bs outer kind bt s)
    have "reset_stack c = Inr (in_block bs outer kind bt [])"
      by (simp add: reset_stack_def inside(1)) (simp add: in_block_def)
    with c inside show ?thesis by (simp add: deep_def in_block_wf) (simp add: in_block_def)
  qed (simp add: reset_stack_def)
qed

lemma base_size_ensures: "deep d c \<Longrightarrow> ensures (\<lambda>_. True) (block_base_stack_size c)"
proof -
  assume "deep d c"
  then have "wf_checker c" by (simp add: deep_def)
  moreover have "ensures (\<lambda>_. True) (rfold (\<lambda>ty sz. case ty of MNormal v \<Rightarrow> Inr (sz + stack_size v)
      | MUnreachable _ \<Rightarrow> Inl InvalidStackValTypeAny) ts sz)" for ts sz
    by (rule rfold_ensures) (auto split: maybe_unreachable.split)
  ultimately show ?thesis
    by (cases rule: wf_checker_cases) (auto simp: block_base_stack_size_def)
qed

lemma unreachable_deep: "deep d c \<Longrightarrow> 0 < d \<Longrightarrow> deep d (checker_unreachable c)"
  using unreachable_refines [of c] by (auto simp: deep_def checker_unreachable_def)

lemma push_deep: "deep d c \<Longrightarrow> 0 < d \<Longrightarrow> deep d (checker_push t c)"
  using push_refines [of c t] by (auto simp: deep_def)

lemma push_any_deep:
  assumes "deep d c" "checker_pop c = Inr (MUnreachable b, c')"
  shows "deep d (push_any c')"
proof -
  have wf: "wf_checker c" using assms(1) by (simp add: deep_def)
  then show ?thesis
  proof (cases rule: wf_checker_cases)
    case outside
    then show ?thesis using assms(2) by (simp add: checker_pop_def check_block_base_def)
  next
    case (inside bs outer kind bt s)
    then obtain s' where s: "s = MUnreachable b # s'" "c' = in_block bs outer kind bt (MUnreachable False # s')"
      using assms(2) by (auto simp: in_block_pop split: list.splits maybe_unreachable.splits)
    have "seg_ok s'" using inside(2) s(1) seg_ok_anyD [of s'] by (cases b) auto
    then have "wf_checker (push_any c')"
      using push_any_refines [OF _ inside(3) s(2)] by simp
    with assms(1) inside(1) s(2) show ?thesis by (simp add: deep_def in_block_def push_any_def)
  qed
qed

text \<open>A state of the parser inside \<open>d\<close> blocks, with \<open>u\<close> reachability flags.\<close>

definition live :: "nat \<Rightarrow> nat \<Rightarrow> parse_state \<Rightarrow> bool" where
  "live d u st \<longleftrightarrow> deep d (ps_checker st) \<and> 0 < d \<and> length (ps_unreachable st) = u \<and> 2 \<le> u"

lemma on_checker_ensures:
  "live d u st \<Longrightarrow> 0 < d' \<Longrightarrow> (\<And>c. deep d c \<Longrightarrow> ensures (deep d') (f c)) \<Longrightarrow> ensures (live d' u) (on_checker f st)"
  unfolding on_checker_def by (rule ensures_bind [of "deep d'"]) (auto simp: live_def)

lemma flags_ensure:
  "live d u st \<Longrightarrow> ensures (\<lambda>_. True) (is_unreachable st)"
  "live d u st \<Longrightarrow> ensures (live d u) (set_unreachable st)"
  "live d u st \<Longrightarrow> ensures (live d (Suc u)) (gen_enter_block st)"
  by (auto simp: live_def is_unreachable_def set_unreachable_def gen_enter_block_def split: list.split)

lemma leave_live: "live d (Suc u) st \<Longrightarrow> 2 \<le> u \<Longrightarrow> live d u (gen_leave_block st)"
  by (simp add: live_def gen_leave_block_def)

lemma reenter_ensures: "live d u st \<Longrightarrow> ensures (live d u) (gen_enter_block (gen_leave_block st))"
  using length_butlast [of "ps_unreachable st"]
  by (cases "butlast (ps_unreachable st)") (auto simp: live_def gen_leave_block_def gen_enter_block_def)

lemma type_at_ensures: "ensures (\<lambda>_. True) (type_at cx i)"
  by (auto simp: type_at_def split: option.split core_functype.split)

lemma known_blocktype_ensures: "ensures (\<lambda>_. True) (known_blocktype cx bt)"
  by (auto simp: known_blocktype_def split: blocktype.split)

lemma mark_ensures: "live d u st \<Longrightarrow> ensures (live d u) (mark_unreachable st)"
  by (auto simp: mark_unreachable_def live_def unreachable_deep)

lemma block_sizes_ensures: "live d u st \<Longrightarrow> ensures (\<lambda>_. True) (block_sizes cx bt st)"
  unfolding block_sizes_def
  by (rule ensures_bind [OF flags_ensure(1)])
    (auto simp: live_def intro: ensures_bind [OF base_size_ensures] known_blocktype_ensures)

lemmas ensure_rules = ensures_bind [OF type_at_ensures] ensures_bind [OF op_ensures] ensures_bind [OF leave_ensures]
  op_ensures leave_ensures enter_deep

lemma open_block_ensures: "deep d c \<Longrightarrow> 0 < d \<Longrightarrow> ensures (deep (Suc d)) (open_block cx kind bt c)"
  by (auto simp: open_block_def split: blocktype.split intro!: ensure_rules)

lemma close_block_ensures: "deep (Suc d) c \<Longrightarrow> 0 < d \<Longrightarrow> ensures (deep d) (close_block cx bt c)"
  by (auto simp: close_block_def split: blocktype.split intro!: ensure_rules)

lemma branch_results_ensures: "deep d c \<Longrightarrow> 0 < d \<Longrightarrow> ensures (deep d) (branch_results dead ts c)"
  by (auto simp: branch_results_def intro: reset_ensures op_ensures)

lemma close_if_ensures:
  assumes "deep (Suc d) c" "0 < d"
  shows "ensures (deep d) (close_if cx bt dead has_else c)"
proof -
  have void: "ensures (deep (Suc d)) (if dead then reset_stack c else Inr c)"
    using assms by (simp add: reset_ensures)
  have open_again: "ensures (deep (Suc d)) (if has_else then Inr c
      else rbind (branch_results dead rs c) (\<lambda>c. rbind (leave_block c) (\<lambda>c. f (enter_block KIf bt c))))"
    if "\<And>c. deep (Suc d) c \<Longrightarrow> ensures (deep (Suc d)) (f c)" for rs f
    using assms that by (auto intro!: ensures_bind [OF branch_results_ensures] ensures_bind [OF leave_ensures] enter_deep)
  have finish: "ensures (deep d) (rbind (branch_results dead rs c) (\<lambda>c. rbind (leave_block c) (\<lambda>c. checker_op [] rs c)))"
    if "deep (Suc d) c" for rs c
    using that assms(2) by (auto intro!: ensures_bind [OF branch_results_ensures] ensures_bind [OF leave_ensures] op_ensures)
  show ?thesis
  proof (cases bt)
    case BVoid
    then show ?thesis unfolding close_if_def by (simp add: ensures_bind [OF void] leave_ensures)
  next
    case (BValType t)
    then show ?thesis
      unfolding close_if_def using ensures_bind [OF open_again [of Inr "[t]"] finish] by simp
  next
    case (BTypeIdx i)
    have "ensures (deep d) (rbind (if has_else then Inr c
        else rbind (branch_results dead rs c) (\<lambda>c. rbind (leave_block c) (\<lambda>c. checker_op [] ps (enter_block KIf bt c))))
      (\<lambda>c. rbind (branch_results dead rs c) (\<lambda>c. rbind (leave_block c) (\<lambda>c. checker_op [] rs c))))" for rs ps
      by (rule ensures_bind [OF open_again finish]) (simp_all add: op_ensures)
    with BTypeIdx show ?thesis
      unfolding close_if_def by (auto intro!: ensures_bind [OF type_at_ensures])
  qed
qed

lemma switch_branch_ensures:
  assumes "deep d c" "0 < d"
  shows "ensures (deep d) (switch_branch cx dead c)"
proof -
  obtain e where d: "d = Suc e" using assms(2) by (cases d) auto
  have again: "ensures (deep d) (rbind r (\<lambda>c. rbind (leave_block c) (\<lambda>c. f (enter_block KIf bt c))))"
    if "ensures (deep d) r" "\<And>c. deep d c \<Longrightarrow> ensures (deep d) (f c)" for r f bt
    using that unfolding d by (auto intro!: ensures_bind [OF that(1) [unfolded d]] ensures_bind [OF leave_ensures] enter_deep)
  show ?thesis
    unfolding switch_branch_def current_block_def
    by (rule ensures_bind [OF get_block_ensures])
      (use assms in \<open>auto split: blocktype.split intro!: again [of "Inr c" Inr, simplified] again [of _ Inr, simplified] again [of _ "checker_op [] _"]
        branch_results_ensures reset_ensures op_ensures ensures_bind [OF type_at_ensures]\<close>)
qed

lemma inst_else_ensures: "live d u st \<Longrightarrow> ensures (live d u) (inst_else cx st)"
  unfolding inst_else_def
proof (rule ensures_bind [OF flags_ensure(1)], assumption, rule ensures_bind [OF reenter_ensures], assumption)
  fix dead st' assume "live d u st'"
  then show "ensures (live d u) (rbind (is_unreachable st') (\<lambda>dead'.
      if dead' then Inr st' else rbind (on_checker (switch_branch cx dead) st') (\<lambda>st. Inr (st\<lparr>ps_else := True\<rparr>))))"
    by (intro ensures_bind [OF flags_ensure(1)] ensures_if)
      (auto simp: live_def [of d u "_ \<lparr>ps_else := _\<rparr>"] intro!: ensures_bind [OF on_checker_ensures [where d' = d]] switch_branch_ensures,
       auto simp: live_def)
qed

lemma label_op_ensures:
  "deep d c \<Longrightarrow> 0 < d \<Longrightarrow> ensures (deep d) (rbind (type_at cx i) (\<lambda>(ps, rs). checker_op (f ps rs) (g ps rs) c))"
  by (rule ensures_bind [OF type_at_ensures]) (auto intro: op_ensures)

lemma stop_ensures: "live d u st \<Longrightarrow> ensures (live d u) (rbind (is_unreachable st) (\<lambda>dead. if dead then Inr st else set_unreachable st))"
  by (intro ensures_bind [OF flags_ensure(1)] ensures_if flags_ensure(2)) auto

lemma br_ensures:
  assumes "live d u st"
  shows "ensures (live d u) (inst_br cx idx st)" "ensures (live d u) (inst_br_if cx idx st)"
proof -
  have d: "0 < d" using assms by (simp add: live_def)
  note ops = label_op_ensures [where f = "\<lambda>ps rs. ps" and g = "\<lambda>_ _. []"] label_op_ensures [where f = "\<lambda>ps rs. rs" and g = "\<lambda>_ _. []"]
    label_op_ensures [where f = "\<lambda>ps rs. rs" and g = "\<lambda>ps rs. rs"] op_ensures
  show "ensures (live d u) (inst_br cx idx st)"
    unfolding inst_br_def
    by (intro ensures_bind [OF flags_ensure(1) [OF assms]] ensures_bind [of "live d u"] ensures_if flags_ensure(2)
        ensures_bind [OF get_block_ensures] on_checker_ensures mark_ensures)
      (use assms d in \<open>auto split: prod.split block_kind.split blocktype.split intro!: on_checker_ensures [OF _ d] ensures_bind [of "live d u"] mark_ensures ops\<close>)
  show "ensures (live d u) (inst_br_if cx idx st)"
    unfolding inst_br_if_def
    by (intro ensures_bind [OF on_checker_ensures [OF assms d op_ensures]] ensures_bind [OF get_block_ensures])
      (use d in \<open>auto split: block_kind.split blocktype.split intro!: on_checker_ensures [OF _ d] ensures_bind [of "live d u"]
        ensures_bind [OF flags_ensure(1)] ops\<close>)
qed

lemma br_table_ensures:
  assumes "live d u st"
  shows "ensures (live d u) (inst_br_table cx idxs idx st)"
proof -
  have d: "0 < d" using assms by (simp add: live_def)
  have types: "ensures (\<lambda>_. True) (validate_br_table_types cx i (ps_checker s))" if "live d u s" for i s
    using that unfolding validate_br_table_types_def live_def
    by (intro ensures_bind [OF get_block_ensures])
      (auto split: block_kind.split blocktype.split intro!: ensures_bind [OF type_at_ensures] ensures_bind [OF check_ensures])
  have checks: "ensures (\<lambda>_. True) (rfold (\<lambda>idx _. rbind (validate_br_table_types cx idx (ps_checker s)) (\<lambda>n.
      if len \<noteq> n then Inl InvalidStackValTypeAny else Inr ())) idxs ())" if "live d u s" for len s
    by (rule rfold_ensures) (auto intro!: ensures_bind [OF types [OF that]])
  show ?thesis
    unfolding inst_br_table_def
    by (rule ensures_bind [OF on_checker_ensures [OF assms d op_ensures]])
      (use d in \<open>auto intro!: ensures_bind [OF types] ensures_bind [OF checks] ensures_bind [OF flags_ensure(1)]
        ensures_bind [OF mark_ensures] flags_ensure(2)\<close>)
qed

lemma op_live: "live d u st \<Longrightarrow> ensures (live d u) (on_checker (checker_op ins outs) st)"
  by (rule on_checker_ensures) (auto simp: live_def intro: op_ensures)

lemma func_type_live: "live d u st \<Longrightarrow> ensures (live d u) (on_checker (op_func_type ft) st)"
  by (rule on_checker_ensures) (auto simp: live_def op_func_type_def split: core_functype.split intro: op_ensures)

lemma callee_type_ensures: "ensures (\<lambda>_. True) (callee_type cx idx)"
  unfolding callee_type_def by (intro ensures_bind [of "\<lambda>_. True"] ensures_ok_or) auto

lemma indirect_type_ensures: "live d u st \<Longrightarrow> ensures (live d u) (indirect_type cx ty tab st)"
  unfolding indirect_type_def
  by (rule ensures_bind [OF ensures_ok_or [where P = "\<lambda>_. True"]])
    (auto split: tabletype.split intro!: ensures_bind [OF op_live] ensures_bind [OF ensures_ok_or [where P = "\<lambda>_. True"]] func_type_live)

lemma call_ensures:
  assumes "live d u st"
  shows "ensures (live d u) (inst_return cx st)" "ensures (live d u) (inst_call cx idx st)"
    "ensures (live d u) (inst_call_indirect cx ty tab st)" "ensures (live d u) (inst_return_call cx idx st)"
    "ensures (live d u) (inst_return_call_indirect cx ty tab st)"
  unfolding inst_return_def inst_call_def inst_call_indirect_def inst_return_call_def inst_return_call_indirect_def
  using assms
  by (auto intro!: ensures_bind [OF flags_ensure(1)] ensures_bind [OF flags_ensure(2)] ensures_bind [OF callee_type_ensures]
      ensures_bind [OF func_type_live] ensures_bind [OF op_live] ensures_bind [OF indirect_type_ensures] func_type_live
      indirect_type_ensures mark_ensures)

lemma drop_ensures: "live d u st \<Longrightarrow> ensures (live d u) (inst_drop st)"
  unfolding inst_drop_def
  by (rule on_checker_ensures) (auto simp: live_def intro: ensures_bind [OF pop_ensures])

lemma select_ensures:
  assumes "live d u st"
  shows "ensures (live d u) (inst_select st)"
  unfolding inst_select_def
proof (rule ensures_bind [OF op_live [OF assms]])
  fix st assume st: "live d u st"
  then have d: "0 < d" and c: "deep d (ps_checker st)" by (simp_all add: live_def)
  have update: "live d u (st\<lparr>ps_checker := c\<rparr>)" if "deep d c" for c using st that by (simp add: live_def)
  show "ensures (live d u) (rbind (checker_pop (ps_checker st)) (\<lambda>(x, c).
       case x of
         MNormal x \<Rightarrow>
           rbind (checker_op [x] [x] c) (\<lambda>c.
             if is_ref x then Inl InvalidStackValTypeAny else Inr (st\<lparr>ps_checker := c\<rparr>))
       | MUnreachable _ \<Rightarrow>
           rbind (checker_pop c) (\<lambda>(x, c).
             case x of
               MNormal x \<Rightarrow>
                 if is_ref x then Inl InvalidStackValTypeAny else Inr (st\<lparr>ps_checker := checker_push x c\<rparr>)
             | MUnreachable _ \<Rightarrow>
                 rbind (is_unreachable st) (\<lambda>dead.
                   if \<not> dead then Inl InvalidStackValTypeAny else Inr (st\<lparr>ps_checker := push_any c\<rparr>)))))"
  proof (rule ensures_bind [OF pop_ensures [OF c]], clarsimp)
    fix x c assume c: "deep d c"
    have second: "ensures (live d u) (case y of
               MNormal x \<Rightarrow> if is_ref x then Inl InvalidStackValTypeAny else Inr (st\<lparr>ps_checker := checker_push x c'\<rparr>)
             | MUnreachable _ \<Rightarrow> rbind (is_unreachable st) (\<lambda>dead.
                   if \<not> dead then Inl InvalidStackValTypeAny else Inr (st\<lparr>ps_checker := push_any c'\<rparr>)))"
      if y: "checker_pop c = Inr (y, c')" for y c'
    proof (cases y)
      case (MNormal t)
      have "deep d c'" using pop_ensures [OF c] y by simp
      with MNormal d show ?thesis by (auto intro!: update push_deep)
    next
      case (MUnreachable b)
      have "deep d (push_any c')" by (rule push_any_deep [OF c y [unfolded MUnreachable]])
      with MUnreachable show ?thesis by (auto intro!: ensures_bind [OF flags_ensure(1) [OF st]] update)
    qed
    have "ensures (live d u) (rbind (checker_pop c) (\<lambda>(y, c'). case y of
               MNormal x \<Rightarrow> if is_ref x then Inl InvalidStackValTypeAny else Inr (st\<lparr>ps_checker := checker_push x c'\<rparr>)
             | MUnreachable _ \<Rightarrow> rbind (is_unreachable st) (\<lambda>dead.
                   if \<not> dead then Inl InvalidStackValTypeAny else Inr (st\<lparr>ps_checker := push_any c'\<rparr>))))"
      using pop_ensures [OF c] second by (cases "checker_pop c") auto
    then show "ensures (live d u) (case x of
         MUnreachable _ \<Rightarrow>
           rbind (checker_pop c) (\<lambda>(x, c).
             case x of
               MUnreachable _ \<Rightarrow>
                 rbind (is_unreachable st) (\<lambda>dead.
                   if \<not> dead then Inl InvalidStackValTypeAny else Inr (st\<lparr>ps_checker := push_any c\<rparr>))
             | MNormal x \<Rightarrow>
                 if is_ref x then Inl InvalidStackValTypeAny else Inr (st\<lparr>ps_checker := checker_push x c\<rparr>))
       | MNormal x \<Rightarrow>
           rbind (checker_op [x] [x] c) (\<lambda>c.
             if is_ref x then Inl InvalidStackValTypeAny else Inr (st\<lparr>ps_checker := c\<rparr>)))"
      using c d by (auto split: maybe_unreachable.split intro!: ensures_bind [OF op_ensures] update)
  qed
qed

lemma get_local_ensures: "ensures (\<lambda>_. True) (local_type cx idx)"
proof -
  have loop: "ensures (\<lambda>_. True) (local_loop idx n a i tab)" for n a i tab
    by (induction idx n a i tab rule: local_loop.induct) auto
  then have "ensures (\<lambda>_. True) (get_local_addr ps tab idx)" for ps tab
    by (auto simp: get_local_addr_def split: sum.split)
  then show ?thesis unfolding local_type_def by (rule ensures_bind) auto
qed

lemma variable_ensures:
  assumes "live d u st"
  shows "ensures (live d u) (inst_select_typed ts st)"
    "ensures (live d u) (inst_local_get cx idx st)" "ensures (live d u) (inst_local_set cx idx st)"
    "ensures (live d u) (inst_local_tee cx idx st)" "ensures (live d u) (inst_global_get cx idx st)"
    "ensures (live d u) (inst_global_set cx idx st)" "ensures (live d u) (inst_table_get cx idx st)"
    "ensures (live d u) (inst_table_set cx idx st)"
  unfolding inst_select_typed_def inst_local_get_def inst_local_set_def inst_local_tee_def inst_global_get_def
    inst_global_set_def inst_table_get_def inst_table_set_def
  using assms
  by (auto intro!: ensures_bind [OF get_local_ensures] ensures_bind [OF op_live] ensures_bind [OF flags_ensure(1)]
      ensures_bind [OF ensures_ok_or [where P = "\<lambda>_. True"]] op_live split: globaltype.split tabletype.split)

lemma flat_inst_ensures:
  assumes "live d u st"
  shows "ensures (live d u) (flat_inst cx inst st)"
proof -
  have "ensures (live d u) (inst_unreachable st)"
    unfolding inst_unreachable_def
    by (rule ensures_bind [OF flags_ensure(2) [OF assms]]) (auto simp: live_def unreachable_deep)
  with assms show ?thesis
    by (cases inst)
      (simp_all add: flat_inst_def inst_else_ensures br_ensures br_table_ensures call_ensures drop_ensures select_ensures
        variable_ensures op_live)
qed

lemma nesting_ensures: "ensures (\<lambda>_. True) (next_control_nesting_depth depth)"
  by (simp add: next_control_nesting_depth_def Let_def)

lemma block_begin_ensures:
  assumes "live d u st"
  shows "ensures (live (Suc d) (Suc u)) (block_begin cx bt st)" "ensures (live (Suc d) (Suc u)) (loop_begin cx bt st)"
    "ensures (live (Suc d) (Suc u)) (if_begin cx bt st)"
proof -
  have d: "0 < d" using assms by (simp add: live_def)
  have opened: "ensures (live (Suc d) u) (on_checker (open_block cx kind bt) st)" if "live d u st" for kind st
    by (rule on_checker_ensures [OF that]) (auto intro: open_block_ensures [OF _ d])
  show "ensures (live (Suc d) (Suc u)) (block_begin cx bt st)"
    unfolding block_begin_def by (rule ensures_bind [OF opened [OF assms] flags_ensure(3)])
  show "ensures (live (Suc d) (Suc u)) (loop_begin cx bt st)"
    unfolding loop_begin_def
    by (rule ensures_bind [OF opened [OF assms]]) (auto intro: ensures_bind [OF block_sizes_ensures] flags_ensure(3))
  show "ensures (live (Suc d) (Suc u)) (if_begin cx bt st)"
    unfolding if_begin_def
    by (rule ensures_bind [OF op_live [OF assms]])
      (auto intro!: ensures_bind [OF opened] ensures_bind [OF flags_ensure(3)], auto simp: live_def)
qed

lemma block_end_ensures:
  assumes "live (Suc d) (Suc u) st" "0 < d" "2 \<le> u"
  shows "ensures (live d u) (block_end cx bt st)" "ensures (live d u) (if_end cx bt st)"
proof -
  have out: "live (Suc d) u (gen_leave_block st)" by (rule leave_live [OF assms(1,3)])
  show "ensures (live d u) (block_end cx bt st)"
    unfolding block_end_def Let_def
    by (rule ensures_bind [OF block_sizes_ensures [OF out]])
      (auto intro!: on_checker_ensures [OF out assms(2)] close_block_ensures assms(2))
  show "ensures (live d u) (if_end cx bt st)"
    unfolding if_end_def
    by (rule ensures_bind [OF flags_ensure(1) [OF assms(1)]], rule ensures_bind [OF on_checker_ensures [OF assms(1,2)]])
      (auto intro: close_if_ensures [OF _ assms(2)] leave_live [OF _ assms(3)])
qed

lemma parse_instrs_ensures:
  assumes "live d u st" "length insts < n"
  shows "ensures (\<lambda>(st', rest). live d u st' \<and> length rest < length insts) (parse_instrs cx n depth insts st)"
  using assms
proof (induction n arbitrary: d u st depth insts)
  case (Suc n)
  note IH = Suc.IH
  show ?case
  proof (cases insts)
    case Nil
    then show ?thesis by simp
  next
    case (Cons inst rest)
    have len: "length rest < n" using Suc.prems(2) Cons by simp
    have d: "0 < d" "2 \<le> u" using Suc.prems(1) by (simp_all add: live_def)
    have onward: "ensures (\<lambda>(st', r). live d u st' \<and> length r < length insts) (parse_instrs cx n depth rest' st')"
      if "live d u st'" "length rest' \<le> length rest" for st' rest'
      by (rule ensures_mono [OF IH]) (use that len Cons in auto)
    have nested: "ensures (\<lambda>(st', r). live d u st' \<and> length r < length insts)
        (rbind (next_control_nesting_depth depth) (\<lambda>nd. rbind (b st) (\<lambda>body.
          rbind (parse_instrs cx n nd rest body) (\<lambda>(body, r). rbind (e body) (\<lambda>s. parse_instrs cx n depth r (g s))))))"
      if b: "ensures (live (Suc d) (Suc u)) (b st)" and e: "\<And>s. live (Suc d) (Suc u) s \<Longrightarrow> ensures (live d u) (e s)"
        and g: "\<And>s. live d u s \<Longrightarrow> live d u (g s)" for b e g
      by (rule ensures_bind [OF nesting_ensures], rule ensures_bind [OF b], rule ensures_bind [OF IH [OF _ len]])
        (auto intro!: ensures_bind [OF e] onward g)
    note b = block_begin_ensures [OF Suc.prems(1), of cx] and e = block_end_ensures [OF _ d, of _ cx]
    have flat: "ensures (\<lambda>(st', r). live d u st' \<and> length r < length insts) (rbind (flat_inst cx inst st) (parse_instrs cx n depth rest))"
      by (rule ensures_bind [OF flat_inst_ensures [OF Suc.prems(1)]]) (auto intro: onward)
    show ?thesis
    proof (cases inst)
      case (IBlock bt)
      then show ?thesis using Cons nested [where b = "block_begin cx bt" and e = "block_end cx bt" and g = id, OF b(1) e(1)] by simp
    next
      case (ILoop bt)
      then show ?thesis using Cons nested [where b = "loop_begin cx bt" and e = "block_end cx bt" and g = id, OF b(2) e(1)] by simp
    next
      case (IIf bt)
      have "live d u s \<Longrightarrow> live d u (s\<lparr>ps_else := ps_else st\<rparr>)" for s by (simp add: live_def)
      with IIf show ?thesis
        using Cons nested [where b = "if_begin cx bt" and e = "if_end cx bt" and g = "\<lambda>s. s\<lparr>ps_else := ps_else st\<rparr>", OF b(3) e(2)] by simp
    qed (use Cons flat Suc.prems(1) in auto)
  qed
qed simp

text \<open>C3: The body parser is total: on every stream of instructions, however malformed, it returns
  the rest of the stream or an error of validation.  It never indexes a vector out of bounds,
  never finds the stack of reachability flags empty, and needs no more steps than there are
  instructions.\<close>

theorem parse_body_total:
  "case parse_body cx typeidx insts of
     Inl e \<Rightarrow> e \<noteq> Panic \<and> e \<noteq> Diverged
   | Inr rest \<Rightarrow> length rest < length insts"
proof -
  let ?st = "\<lparr>ps_checker = checker_new typeidx, ps_unreachable = [False, False], ps_else = False\<rparr>"
  have start: "live 1 2 ?st"
    by (simp add: live_def deep_def checker_new_def wf_checker_def)
  have "ensures (\<lambda>rest. length rest < length insts) (parse_body cx typeidx insts)"
    unfolding parse_body_def gen_enter_block_def
    by (simp, rule ensures_bind [OF parse_instrs_ensures [OF start]])
      (auto simp: live_def intro!: ensures_bind [OF op_ensures] ensures_bind [OF leave_ensures [where d = 0]])
  then show ?thesis by (simp add: ensures_def)
qed

end
