(* ===== verification/Validation_Soundness.thy ===== *)
theory Validation_Soundness
  imports Instruction_Validation
begin

text \<open>
  The body parser against the validation algorithm of the WebAssembly specification.  The
  reference runs over the same stream of instructions, with its own control and operand stack.
  On streams without \<open>if\<close>, without tail calls and without loops that have a type index the two accept the
  same bodies; \<open>Validation_Departures\<close> shows what happens on these three.
\<close>

section \<open>The reference\<close>

definition bt_types :: "parser_ctx \<Rightarrow> blocktype \<Rightarrow> (valtype list \<times> valtype list) option" where
  "bt_types cx bt =
     (case bt of
        BVoid \<Rightarrow> Some ([], [])
      | BValType t \<Rightarrow> Some ([], [t])
      | BTypeIdx i \<Rightarrow> map_option (\<lambda>ft. (params_of ft, results_of ft)) (get_idx (ip_types cx) (unat i)))"

definition ref_label :: "parser_ctx \<Rightarrow> u32 \<Rightarrow> validation \<Rightarrow> valtype list option" where
  "ref_label cx i v =
     Option.bind (get_idx (vd_ctrls v) (unat i)) (\<lambda>fr.
       map_option (\<lambda>(ps, rs). if cf_kind fr = KLoop then ps else rs) (bt_types cx (cf_type fr)))"

definition ref_stop :: "valtype list \<Rightarrow> validation \<Rightarrow> validation option" where
  "ref_stop ts v = map_option ref_unreachable (ref_op ts [] v)"

definition ref_open :: "parser_ctx \<Rightarrow> block_kind \<Rightarrow> blocktype \<Rightarrow> validation \<Rightarrow> validation option" where
  "ref_open cx kind bt v =
     Option.bind (bt_types cx bt) (\<lambda>(ps, _).
     Option.bind (ref_op ps [] v) (\<lambda>v. ref_op [] ps (ref_push_ctrl kind bt v)))"

definition ref_callee :: "parser_ctx \<Rightarrow> u32 \<Rightarrow> core_functype option" where
  "ref_callee cx f = Option.bind (get_idx (ip_functions cx) (unat f)) (\<lambda>t. get_idx (ip_types cx) (unat t))"

definition ref_call :: "core_functype \<Rightarrow> validation \<Rightarrow> validation option" where
  "ref_call ft v = ref_op (params_of ft) (results_of ft) v"

definition ref_indirect :: "parser_ctx \<Rightarrow> u32 \<Rightarrow> u32 \<Rightarrow> core_functype option" where
  "ref_indirect cx ty tab =
     Option.bind (get_idx (ip_tables cx) (unat tab)) (\<lambda>t.
       case t of TableType r _ \<Rightarrow> if r = RFuncRef then get_idx (ip_types cx) (unat ty) else None)"

text \<open>A tail call needs the results of the function that it leaves.\<close>

definition ref_tail_call :: "parser_ctx \<Rightarrow> core_functype \<Rightarrow> validation \<Rightarrow> validation option" where
  "ref_tail_call cx ft v =
     (if results_of ft = results_of (ip_functype cx) then ref_stop (params_of ft) v else None)"

definition ref_select :: "validation \<Rightarrow> validation option" where
  "ref_select v =
     Option.bind (ref_op [I32] [] v) (\<lambda>v.
     Option.bind (ref_pop v) (\<lambda>(t, v).
     Option.bind (ref_pop v) (\<lambda>(u, v).
       if (case t of Some x \<Rightarrow> is_ref x | None \<Rightarrow> False) \<or> (case u of Some x \<Rightarrow> is_ref x | None \<Rightarrow> False) then None
       else if t \<noteq> None \<and> u \<noteq> None \<and> t \<noteq> u then None
       else Some (ref_push (if t = None then u else t) v))))"

text \<open>The types of the parameters and of the locals are an argument of the reference.\<close>

definition ref_inst :: "parser_ctx \<Rightarrow> valtype list \<Rightarrow> instr \<Rightarrow> validation \<Rightarrow> validation option" where
  "ref_inst cx ls inst v =
     (case inst of
        IUnreachable \<Rightarrow> Some (ref_unreachable v)
      | IBlock bt \<Rightarrow> ref_open cx KBlock bt v
      | ILoop bt \<Rightarrow> ref_open cx KLoop bt v
      | IIf bt \<Rightarrow> Option.bind (ref_op [I32] [] v) (ref_open cx KIf bt)
      | IElse \<Rightarrow>
          (case vd_ctrls v of
             [] \<Rightarrow> None
           | fr # _ \<Rightarrow>
               if cf_kind fr \<noteq> KIf then None
               else Option.bind (bt_types cx (cf_type fr)) (\<lambda>(ps, rs).
                 Option.bind (ref_op rs [] v) (\<lambda>v.
                 Option.bind (ref_pop_ctrl v) (\<lambda>v. ref_op [] ps (ref_push_ctrl KBlock (cf_type fr) v)))))
      | IBr i \<Rightarrow> Option.bind (ref_label cx i v) (\<lambda>ts. ref_stop ts v)
      | IBrIf i \<Rightarrow> Option.bind (ref_op [I32] [] v) (\<lambda>v. Option.bind (ref_label cx i v) (\<lambda>ts. ref_op ts ts v))
      | IBrTable is i \<Rightarrow>
          Option.bind (ref_op [I32] [] v) (\<lambda>v.
          Option.bind (ref_label cx i v) (\<lambda>ts.
            if list_all (\<lambda>j. case ref_label cx j v of
                 None \<Rightarrow> False | Some us \<Rightarrow> length us = length ts \<and> ref_check us v) is
            then ref_stop ts v else None))
      | IReturn \<Rightarrow> ref_stop (results_of (ip_functype cx)) v
      | ICall f \<Rightarrow> Option.bind (ref_callee cx f) (\<lambda>ft. ref_call ft v)
      | ICallIndirect ty tab \<Rightarrow> Option.bind (ref_indirect cx ty tab) (\<lambda>ft. Option.bind (ref_op [I32] [] v) (ref_call ft))
      | IReturnCall f \<Rightarrow> Option.bind (ref_callee cx f) (\<lambda>ft. ref_tail_call cx ft v)
      | IReturnCallIndirect ty tab \<Rightarrow>
          Option.bind (ref_indirect cx ty tab) (\<lambda>ft. Option.bind (ref_op [I32] [] v) (ref_tail_call cx ft))
      | IDrop \<Rightarrow> map_option snd (ref_pop v)
      | ISelect \<Rightarrow> ref_select v
      | ISelectTyped ts \<Rightarrow> (case ts of [t] \<Rightarrow> ref_op [t, t, I32] [t] v | _ \<Rightarrow> None)
      | ILocalGet i \<Rightarrow> Option.bind (get_idx ls (unat i)) (\<lambda>t. ref_op [] [t] v)
      | ILocalSet i \<Rightarrow> Option.bind (get_idx ls (unat i)) (\<lambda>t. ref_op [t] [] v)
      | ILocalTee i \<Rightarrow> Option.bind (get_idx ls (unat i)) (\<lambda>t. ref_op [t] [t] v)
      | IGlobalGet i \<Rightarrow> Option.bind (get_idx (ip_globals cx) (unat i)) (\<lambda>g. case g of GlobalType t _ \<Rightarrow> ref_op [] [t] v)
      | IGlobalSet i \<Rightarrow>
          Option.bind (get_idx (ip_globals cx) (unat i)) (\<lambda>g. case g of GlobalType t m \<Rightarrow> if m then ref_op [t] [] v else None)
      | ITableGet i \<Rightarrow>
          Option.bind (get_idx (ip_tables cx) (unat i)) (\<lambda>t. case t of TableType r _ \<Rightarrow> ref_op [I32] [ref_valtype r] v)
      | ITableSet i \<Rightarrow>
          Option.bind (get_idx (ip_tables cx) (unat i)) (\<lambda>t. case t of TableType r _ \<Rightarrow> ref_op [I32, ref_valtype r] [] v)
      | ISimple ins outs \<Rightarrow> ref_op ins outs v
      | _ \<Rightarrow> Some v)"

definition ref_end :: "parser_ctx \<Rightarrow> validation \<Rightarrow> validation option" where
  "ref_end cx v =
     (case vd_ctrls v of
        [] \<Rightarrow> None
      | fr # _ \<Rightarrow>
          Option.bind (bt_types cx (cf_type fr)) (\<lambda>(ps, rs).
          if cf_kind fr = KIf \<and> ps \<noteq> rs then None
          else Option.bind (ref_op rs [] v) (\<lambda>v. Option.bind (ref_pop_ctrl v) (ref_op [] rs))))"

fun ref_body :: "parser_ctx \<Rightarrow> valtype list \<Rightarrow> instr list \<Rightarrow> validation \<Rightarrow> instr list option" where
  "ref_body cx ls [] v = None"
| "ref_body cx ls (IEnd # insts) v =
     Option.bind (ref_end cx v) (\<lambda>v'. if vd_ctrls v' = [] then Some insts else ref_body cx ls insts v')"
| "ref_body cx ls (inst # insts) v = Option.bind (ref_inst cx ls inst v) (ref_body cx ls insts)"

section \<open>Correspondence of the states\<close>

text \<open>The reachability flags of the instruction generator, innermost first, are determined by the
  control stack of the reference: code is unreachable where it is in this or an enclosing frame.\<close>

fun unreachable_flags :: "ctrl_frame list \<Rightarrow> bool list" where
  "unreachable_flags [] = [False]"
| "unreachable_flags (fr # frs) = (cf_unreachable fr \<or> hd (unreachable_flags frs)) # unreachable_flags frs"

definition frames :: "validation \<Rightarrow> (block_kind \<times> blocktype) list" where
  "frames v = map (\<lambda>fr. (cf_kind fr, cf_type fr)) (vd_ctrls v)"

definition abs_state :: "parse_state \<Rightarrow> validation" where
  "abs_state st = abs_checker (ps_checker st)"

definition in_step :: "parse_state \<Rightarrow> bool" where
  "in_step st \<longleftrightarrow>
     wf_checker (ps_checker st) \<and> ck_blocks (ps_checker st) \<noteq> [] \<and>
     rev (ps_unreachable st) = unreachable_flags (vd_ctrls (abs_state st))"

lemma flags_nonempty [simp]: "unreachable_flags frs \<noteq> []"
  by (cases frs) auto

lemma abs_blocks_frames: "map (\<lambda>fr. (cf_kind fr, cf_type fr)) (snd (abs_blocks bs ts)) = map (\<lambda>(k, bt, _). (k, bt)) bs"
  by (induction bs arbitrary: ts) (auto simp: split_def Let_def)

lemma frames_checker: "frames (abs_checker c) = map (\<lambda>(k, bt, _). (k, bt)) (rev (ck_blocks c))"
  using abs_blocks_frames [of "rev (ck_blocks c)" "ck_types c"] by (simp add: frames_def abs_checker_def split_def)

lemma frames_length: "length (frames v) = length (vd_ctrls v)"
  by (simp add: frames_def)

lemma ctrls_empty_iff: "vd_ctrls (abs_checker c) = [] \<longleftrightarrow> ck_blocks c = []"
  using frames_length [of "abs_checker c"] by (cases "ck_blocks c") (auto simp: frames_checker)

lemma in_step_flags:
  assumes "in_step st"
  obtains fr frs us where "vd_ctrls (abs_state st) = fr # frs"
    "ps_unreachable st = us @ [cf_unreachable fr \<or> hd (unreachable_flags frs)]" "rev us = unreachable_flags frs"
proof -
  obtain fr frs where fr: "vd_ctrls (abs_state st) = fr # frs"
    using assms ctrls_empty_iff [of "ps_checker st"] by (cases "vd_ctrls (abs_state st)") (auto simp: in_step_def abs_state_def)
  with assms have "rev (ps_unreachable st) = (cf_unreachable fr \<or> hd (unreachable_flags frs)) # unreachable_flags frs"
    by (simp add: in_step_def)
  then have "ps_unreachable st = rev (unreachable_flags frs) @ [cf_unreachable fr \<or> hd (unreachable_flags frs)]"
    by (metis rev.simps(2) rev_rev_ident)
  with fr show ?thesis by (intro that [of fr frs "rev (unreachable_flags frs)"]) simp_all
qed

text \<open>A result of the parser agrees with the reference when both fail, or both succeed in
  corresponding states with the same open blocks.\<close>

definition agrees :: "(block_kind \<times> blocktype) list \<Rightarrow> parser_error + parse_state \<Rightarrow> validation option \<Rightarrow> bool" where
  "agrees frs r q \<longleftrightarrow>
     (case r of
        Inl e \<Rightarrow> q = None
      | Inr st \<Rightarrow> in_step st \<and> q = Some (abs_state st) \<and> frames (abs_state st) = frs)"

lemma agrees_simps [simp]:
  "agrees frs (Inl e) q \<longleftrightarrow> q = None"
  "agrees frs (Inr st) q \<longleftrightarrow> in_step st \<and> q = Some (abs_state st) \<and> frames (abs_state st) = frs"
  by (simp_all add: agrees_def)

lemma agrees_bind:
  "agrees frs r q \<Longrightarrow>
   (\<And>st. in_step st \<Longrightarrow> frames (abs_state st) = frs \<Longrightarrow> agrees frs' (k st) (l (abs_state st))) \<Longrightarrow>
   agrees frs' (rbind r k) (Option.bind q l)"
  by (cases r) auto

section \<open>Reference operations and frames\<close>

lemma ref_pop_ctrls: "ref_pop v = Some (t, v') \<Longrightarrow> vd_ctrls v' = vd_ctrls v"
  by (auto simp: ref_pop_def split: list.splits if_splits)

lemma ref_pops_ctrls: "ref_pop_all ts v = Some v' \<Longrightarrow> vd_ctrls v' = vd_ctrls v"
  by (induction ts arbitrary: v) (auto simp: ref_pop_expect_def bind_eq_Some_conv dest!: ref_pop_ctrls split: if_splits)

lemma ref_pushes_ctrls [simp]: "vd_ctrls (fold (\<lambda>t. ref_push (Some t)) ts v) = vd_ctrls v"
  by (induction ts arbitrary: v) (auto simp: ref_push_def)

lemma ref_push_ctrls [simp]: "vd_ctrls (ref_push t v) = vd_ctrls v"
  by (simp add: ref_push_def)

lemma ref_op_ctrls: "ref_op ins outs v = Some v' \<Longrightarrow> vd_ctrls v' = vd_ctrls v"
  by (auto simp: ref_op_def dest: ref_pops_ctrls)

lemma frames_cong: "vd_ctrls v = vd_ctrls w \<Longrightarrow> frames v = frames w"
  by (simp add: frames_def)

lemma on_checker_agrees:
  assumes "in_step st" "simulates (f (ps_checker st)) q"
    and "\<And>c. f (ps_checker st) = Inr c \<Longrightarrow> vd_ctrls (abs_checker c) = vd_ctrls (abs_state st)"
  shows "agrees (frames (abs_state st)) (on_checker f st) q"
proof (cases "f (ps_checker st)")
  case (Inr c)
  have "vd_ctrls (abs_checker c) = vd_ctrls (abs_state st)" by (rule assms(3) [OF Inr])
  moreover from this have "ck_blocks c \<noteq> []"
    using assms(1) ctrls_empty_iff [of c] ctrls_empty_iff [of "ps_checker st"] by (auto simp: in_step_def abs_state_def)
  ultimately show ?thesis
    using Inr assms(1,2) by (auto simp: on_checker_def in_step_def abs_state_def intro: frames_cong)
qed (use assms(2) in \<open>simp add: on_checker_def\<close>)

lemma op_agrees: "in_step st \<Longrightarrow> agrees (frames (abs_state st)) (on_checker (checker_op ins outs) st) (ref_op ins outs (abs_state st))"
proof -
  assume st: "in_step st"
  then have sim: "simulates (checker_op ins outs (ps_checker st)) (ref_op ins outs (abs_state st))"
    unfolding abs_state_def by (intro op_refines) (auto simp: in_step_def)
  show ?thesis
    by (rule on_checker_agrees [where f = "checker_op ins outs", OF st sim]) (use sim in \<open>auto dest: ref_op_ctrls\<close>)
qed

lemma bt_types_at: "type_at cx i = (case bt_types cx (BTypeIdx i) of None \<Rightarrow> Inl (InvalidTypeIdx i) | Some tys \<Rightarrow> Inr tys)"
  by (auto simp: type_at_def bt_types_def params_of_def results_of_def split: option.split core_functype.split)

text \<open>A block of the checker is a frame of the reference.\<close>

lemma get_block_agrees:
  "case get_block i c of
     Inl e \<Rightarrow> get_idx (vd_ctrls (abs_checker c)) i = None
   | Inr (k, bt, base) \<Rightarrow> \<exists>fr. get_idx (vd_ctrls (abs_checker c)) i = Some fr \<and> cf_kind fr = k \<and> cf_type fr = bt"
proof -
  let ?v = "abs_checker c"
  have len: "length (vd_ctrls ?v) = length (ck_blocks c)"
    using frames_length [of ?v] by (simp add: frames_checker)
  have "(cf_kind (vd_ctrls ?v ! i), cf_type (vd_ctrls ?v ! i)) = (case ck_blocks c ! (length (ck_blocks c) - Suc i) of (k, bt, _) \<Rightarrow> (k, bt))"
    if "i < length (ck_blocks c)"
  proof -
    have "frames ?v ! i = (cf_kind (vd_ctrls ?v ! i), cf_type (vd_ctrls ?v ! i))" using that len by (simp add: frames_def)
    then show ?thesis using that by (simp add: frames_checker rev_nth split: prod.splits)
  qed
  then show ?thesis by (auto simp: get_block_def get_idx_def len not_less_eq_eq split: prod.splits sum.splits)
qed

text \<open>Reaching a dead end: the flag is set before the operands are looked at.\<close>

definition dead_end :: "parse_state \<Rightarrow> parse_state" where
  "dead_end st = st\<lparr>ps_unreachable := butlast (ps_unreachable st) @ [True]\<rparr>"

lemma flag_last:
  "ps_unreachable st = us @ [b] \<Longrightarrow> is_unreachable st = Inr b"
  "ps_unreachable st = us @ [b] \<Longrightarrow> set_unreachable st = Inr (dead_end st)"
  "ps_unreachable st = us @ [b] \<Longrightarrow> gen_enter_block st = Inr (st\<lparr>ps_unreachable := us @ [b, b]\<rparr>)"
  by (cases us; simp add: is_unreachable_def set_unreachable_def dead_end_def gen_enter_block_def)+

lemma in_step_is_unreachable: "in_step st \<Longrightarrow> is_unreachable st = Inr (hd (unreachable_flags (vd_ctrls (abs_state st))))"
  by (erule in_step_flags) (auto dest: flag_last(1))

lemma in_step_set: "in_step st \<Longrightarrow> set_unreachable st = Inr (dead_end st)"
  by (erule in_step_flags) (auto dest: flag_last(2))

lemma in_step_stop:
  assumes "in_step st"
  shows "rbind (is_unreachable st) (\<lambda>dead. rbind (if dead then Inr st else set_unreachable st) k) = k (dead_end st)"
proof (rule in_step_flags [OF assms])
  fix fr frs us
  assume us: "ps_unreachable st = us @ [cf_unreachable fr \<or> hd (unreachable_flags frs)]"
  then have "dead_end st = st" if "cf_unreachable fr \<or> hd (unreachable_flags frs)" using that by (simp add: dead_end_def)
  with flag_last(1,2) [OF us] show ?thesis by auto
qed

lemma dead_end_simps [simp]: "ps_checker (dead_end st) = ps_checker st" "ps_unreachable (dead_end st) = butlast (ps_unreachable st) @ [True]"
  by (simp_all add: dead_end_def)

lemma ref_unreachable_ctrls: "vd_ctrls v = fr # frs \<Longrightarrow> vd_ctrls (ref_unreachable v) = fr\<lparr>cf_unreachable := True\<rparr> # frs"
  by (simp add: ref_unreachable_def)

lemma stop_agrees:
  assumes "in_step st" "simulates r q" "\<And>c. r = Inr c \<Longrightarrow> vd_ctrls (abs_checker c) = vd_ctrls (abs_state st)"
    and "\<And>c. r = Inr c \<Longrightarrow> st' c = dead_end st\<lparr>ps_checker := checker_unreachable c\<rparr>"
  shows "agrees (frames (abs_state st)) (rbind r (\<lambda>c. Inr (st' c))) (map_option ref_unreachable q)"
proof (cases r)
  case (Inr c)
  obtain fr frs us where st: "vd_ctrls (abs_state st) = fr # frs"
    "ps_unreachable st = us @ [cf_unreachable fr \<or> hd (unreachable_flags frs)]" "rev us = unreachable_flags frs"
    using in_step_flags [OF assms(1)] by metis
  have c: "wf_checker c" "q = Some (abs_checker c)" "vd_ctrls (abs_checker c) = fr # frs"
    using assms(2) assms(3) [OF Inr] Inr st(1) by auto
  then have "ck_blocks c \<noteq> []" using ctrls_empty_iff [of c] by auto
  with c unreachable_refines [OF c(1)] have u: "wf_checker (checker_unreachable c)"
    "abs_checker (checker_unreachable c) = ref_unreachable (abs_checker c)" "ck_blocks (checker_unreachable c) \<noteq> []"
    by (auto simp: checker_unreachable_def)
  have ctrls: "vd_ctrls (ref_unreachable (abs_checker c)) = fr\<lparr>cf_unreachable := True\<rparr> # frs"
    by (rule ref_unreachable_ctrls [OF c(3)])
  have "frames (ref_unreachable (abs_checker c)) = frames (abs_state st)" by (simp add: frames_def ctrls st(1))
  with Inr c u st ctrls assms(4) [OF Inr] show ?thesis
    by (simp add: in_step_def abs_state_def)
qed (use assms(2) in simp)

section \<open>Instructions that keep the blocks\<close>

text \<open>What decoding establishes: the vectors of a type fit in 32 bits, and the table of the locals
  was computed from the declared groups.\<close>

definition decoded :: "parser_ctx \<Rightarrow> locals list \<Rightarrow> bool" where
  "decoded cx groups \<longleftrightarrow>
     list_all (\<lambda>ft. length (params_of ft) < 2 ^ 32 \<and> length (results_of ft) < 2 ^ 32) (ip_types cx) \<and>
     bytes_before (params_of (ip_functype cx)) (length (params_of (ip_functype cx))) + local_bytes groups < 2 ^ 32 \<and>
     create_reassignment_table (locals_data_from groups) groups = Inr (ip_locals cx)"

definition local_types :: "parser_ctx \<Rightarrow> locals list \<Rightarrow> valtype list" where
  "local_types cx groups = params_of (ip_functype cx) @ expand groups"

text \<open>No open \<open>if\<close>, and no loop with a type index.\<close>

definition tame :: "(block_kind \<times> blocktype) list \<Rightarrow> bool" where
  "tame frs \<longleftrightarrow>
     list_all (\<lambda>(k, bt). k \<noteq> KIf \<and> (k = KLoop \<longrightarrow> (case bt of BTypeIdx _ \<Rightarrow> False | _ \<Rightarrow> True))) frs"

lemma op_simulates: "in_step st \<Longrightarrow> simulates (checker_op ins outs (ps_checker st)) (ref_op ins outs (abs_state st))"
  unfolding abs_state_def by (intro op_refines) (auto simp: in_step_def)

lemma ref_op_nil [simp]: "ref_op [] [] v = Some v"
  by (simp add: ref_op_def)

lemma in_step_simulates: "in_step st \<Longrightarrow> simulates (Inr (ps_checker st)) (Some (abs_state st))"
  by (simp add: in_step_def abs_state_def)

text \<open>The branch operand of a label: the same types, on either side.\<close>

lemma ref_label_block:
  assumes "get_block (unat i) (ps_checker st) = Inr (k, bt, base)"
  shows "ref_label cx i (abs_state st) = map_option (\<lambda>(ps, rs). if k = KLoop then ps else rs) (bt_types cx bt)"
  using get_block_agrees [of "ps_checker st" "unat i"] assms by (auto simp: ref_label_def abs_state_def)

lemma ref_label_none:
  assumes "get_block (unat i) (ps_checker st) = Inl e"
  shows "ref_label cx i (abs_state st) = None"
  using get_block_agrees [of "ps_checker st" "unat i"] assms by (auto simp: ref_label_def abs_state_def)

lemma tame_block:
  assumes "tame (frames (abs_state st))" "get_block (unat i) (ps_checker st) = Inr (KLoop, bt, base)"
  shows "case bt of BTypeIdx _ \<Rightarrow> False | _ \<Rightarrow> True"
proof -
  obtain fr where "get_idx (vd_ctrls (abs_state st)) (unat i) = Some fr" "cf_kind fr = KLoop" "cf_type fr = bt"
    using get_block_agrees [of "ps_checker st" "unat i"] assms(2) by (auto simp: abs_state_def)
  then have "fr \<in> set (vd_ctrls (abs_state st))" "(KLoop, bt) = (cf_kind fr, cf_type fr)" by (auto simp: res_simps)
  then have "(KLoop, bt) \<in> set (frames (abs_state st))" unfolding frames_def set_map by (rule rev_image_eqI)
  with assms(1) show ?thesis by (auto simp: tame_def list_all_iff)
qed

lemma stop_with:
  "rbind (on_checker f (dead_end st)) mark_unreachable =
   rbind (f (ps_checker st)) (\<lambda>c. Inr (dead_end st\<lparr>ps_checker := checker_unreachable c\<rparr>))"
  by (cases "f (ps_checker st)") (simp_all add: on_checker_def mark_unreachable_def)

lemma ref_bind_stop: "Option.bind q (\<lambda>ts. ref_stop (f ts) v) = map_option ref_unreachable (Option.bind q (\<lambda>ts. ref_op (f ts) [] v))"
  by (cases q) (simp_all add: ref_stop_def)

lemma bind_op_ctrls: "Option.bind q (\<lambda>ts. ref_op (f ts) (g ts) v) = Some v' \<Longrightarrow> vd_ctrls v' = vd_ctrls v"
  by (auto simp: bind_eq_Some_conv dest: ref_op_ctrls)

lemma simulates_ctrls:
  "simulates r q \<Longrightarrow> r = Inr c \<Longrightarrow> (\<And>v'. q = Some v' \<Longrightarrow> vd_ctrls v' = vd_ctrls v) \<Longrightarrow> vd_ctrls (abs_checker c) = vd_ctrls v"
  by simp

lemma inst_br_agrees:
  assumes st: "in_step st"
  shows "agrees (frames (abs_state st)) (inst_br cx idx st) (Option.bind (ref_label cx idx (abs_state st)) (\<lambda>ts. ref_stop ts (abs_state st)))"
proof (cases "get_block (unat idx) (ps_checker st)")
  case (Inl e)
  then show ?thesis by (simp add: inst_br_def in_step_stop [OF st] ref_label_none)
next
  case (Inr b)
  obtain k bt base where b: "b = (k, bt, base)" by (cases b)
  note label = ref_label_block [OF Inr [unfolded b], of cx]
  let ?f = "\<lambda>c. case (k, bt) of
           (KLoop, BTypeIdx idx) \<Rightarrow> rbind (type_at cx idx) (\<lambda>(params, _). checker_op params [] c)
         | (KLoop, _) \<Rightarrow> Inr c
         | (_, BVoid) \<Rightarrow> Inr c
         | (_, BValType ty) \<Rightarrow> checker_op [ty] [] c
         | (_, BTypeIdx idx) \<Rightarrow> rbind (type_at cx idx) (\<lambda>(_, results). checker_op results [] c)"
  let ?q = "Option.bind (ref_label cx idx (abs_state st)) (\<lambda>ts. ref_op ts [] (abs_state st))"
  have sim: "simulates (?f (ps_checker st)) ?q"
    by (cases k; cases bt; cases "bt_types cx bt")
      (auto simp: label bt_types_at bt_types_def simp del: simulates_simps(2) intro!: op_simulates [OF st] in_step_simulates [OF st])
  have ctrls: "vd_ctrls (abs_checker c) = vd_ctrls (abs_state st)" if "?f (ps_checker st) = Inr c" for c
    by (rule simulates_ctrls [OF sim that]) (rule bind_op_ctrls)
  show ?thesis
    using stop_agrees [OF st sim ctrls refl] Inr b
    by (simp add: inst_br_def in_step_stop [OF st] stop_with ref_bind_stop)
qed

lemma agrees_probe: "agrees frs r q \<Longrightarrow> agrees frs (rbind r (\<lambda>st. rbind (is_unreachable st) (\<lambda>_. Inr st))) q"
  by (cases r) (auto simp: in_step_is_unreachable)

lemma inst_br_if_agrees:
  assumes "in_step st" "tame (frames (abs_state st))"
  shows "agrees (frames (abs_state st)) (inst_br_if cx idx st)
    (Option.bind (ref_op [I32] [] (abs_state st)) (\<lambda>v. Option.bind (ref_label cx idx v) (\<lambda>ts. ref_op ts ts v)))"
  unfolding inst_br_if_def
proof (rule agrees_bind [OF op_agrees [OF assms(1)]])
  fix s assume s: "in_step s" "frames (abs_state s) = frames (abs_state st)"
  show "agrees (frames (abs_state st)) (rbind (get_block (unat idx) (ps_checker s)) (\<lambda>(kind, bt, _).
     rbind (on_checker (\<lambda>c.
         case (kind, bt) of
           (KLoop, _) \<Rightarrow> Inr c
         | (_, BVoid) \<Rightarrow> Inr c
         | (_, BValType ty) \<Rightarrow> checker_op [ty] [ty] c
         | (_, BTypeIdx idx) \<Rightarrow> rbind (type_at cx idx) (\<lambda>(_, results). checker_op results results c)) s) (\<lambda>st.
     rbind (is_unreachable st) (\<lambda>_. Inr st)))) (Option.bind (ref_label cx idx (abs_state s)) (\<lambda>ts. ref_op ts ts (abs_state s)))"
  proof (cases "get_block (unat idx) (ps_checker s)")
    case (Inl e)
    then show ?thesis by (simp add: ref_label_none)
  next
    case (Inr b)
    obtain k bt base where b: "b = (k, bt, base)" by (cases b)
    note label = ref_label_block [OF Inr [unfolded b], of cx]
    let ?f = "\<lambda>c. case (k, bt) of
           (KLoop, _) \<Rightarrow> Inr c
         | (_, BVoid) \<Rightarrow> Inr c
         | (_, BValType ty) \<Rightarrow> checker_op [ty] [ty] c
         | (_, BTypeIdx idx) \<Rightarrow> rbind (type_at cx idx) (\<lambda>(_, results). checker_op results results c)"
    let ?q = "Option.bind (ref_label cx idx (abs_state s)) (\<lambda>ts. ref_op ts ts (abs_state s))"
    have "case bt of BTypeIdx _ \<Rightarrow> False | _ \<Rightarrow> True" if "k = KLoop"
      using tame_block [of s idx bt base] Inr b that assms(2) s(2) by simp
    then have sim: "simulates (?f (ps_checker s)) ?q"
      by (cases k; cases bt; cases "bt_types cx bt")
        (auto simp: label bt_types_at bt_types_def simp del: simulates_simps(2) intro!: op_simulates [OF s(1)] in_step_simulates [OF s(1)])
    have ctrls: "vd_ctrls (abs_checker c) = vd_ctrls (abs_state s)" if "?f (ps_checker s) = Inr c" for c
      by (rule simulates_ctrls [OF sim that]) (rule bind_op_ctrls)
    show ?thesis
      using agrees_probe [OF on_checker_agrees [where f = ?f, OF s(1) sim ctrls]] Inr b s(2) by simp
  qed
qed

text \<open>Discarding the operands of a branch first does not change what is left of the frame.\<close>

definition above_base :: "validation \<Rightarrow> bool" where
  "above_base v \<longleftrightarrow> (case vd_ctrls v of [] \<Rightarrow> False | fr # _ \<Rightarrow> cf_height fr \<le> length (vd_vals v))"

lemma ref_pop_base:
  assumes "ref_pop v = Some (t, v')" "above_base v"
  shows "above_base v' \<and> ref_unreachable v' = ref_unreachable v"
  using assms
  by (auto simp: ref_pop_def above_base_def ref_unreachable_def Suc_diff_le split: list.splits if_splits)

lemma ref_pops_base:
  "ref_pop_all ts v = Some v' \<Longrightarrow> above_base v \<Longrightarrow> ref_unreachable v' = ref_unreachable v"
  by (induction ts arbitrary: v) (auto simp: ref_pop_expect_def bind_eq_Some_conv split: if_splits dest!: ref_pop_base)

lemma in_step_base:
  assumes "in_step st"
  shows "above_base (abs_state st)"
proof -
  have "wf_checker (ps_checker st)" using assms by (simp add: in_step_def)
  then show ?thesis
    by (cases rule: wf_checker_cases) (use assms in \<open>auto simp: in_step_def abs_state_def in_block_abs abs_in_def above_base_def\<close>)
qed

lemma ref_stop_check: "above_base v \<Longrightarrow> ref_check ts v \<Longrightarrow> ref_stop ts v = Some (ref_unreachable v)"
  by (auto simp: ref_stop_def ref_check_def ref_op_def dest: ref_pops_base)

lemma label_small:
  assumes "decoded cx groups" "ref_label cx i v = Some ts"
  shows "length ts < 2 ^ 32"
proof -
  obtain bt k where "map_option (\<lambda>(ps, rs). if k = KLoop then ps else rs) (bt_types cx bt) = Some ts"
    using assms(2) by (auto simp: ref_label_def bind_eq_Some_conv)
  then show ?thesis
    using assms(1) by (auto simp: bt_types_def decoded_def list_all_iff res_simps split: blocktype.splits if_splits)
qed

lemma check_agrees:
  assumes "in_step st"
  shows "case checker_check ts (ps_checker st) of Inl e \<Rightarrow> \<not> ref_check ts (abs_state st) | Inr _ \<Rightarrow> ref_check ts (abs_state st)"
  using check_refines [of "ps_checker st" ts] assms by (auto simp: in_step_def abs_state_def split: sum.splits)

lemma br_table_types_agree:
  assumes "in_step st"
  shows "case validate_br_table_types cx i (ps_checker st) of
      Inl e \<Rightarrow> \<not> (\<exists>ts. ref_label cx i (abs_state st) = Some ts \<and> ref_check ts (abs_state st))
    | Inr n \<Rightarrow> \<exists>ts. ref_label cx i (abs_state st) = Some ts \<and> ref_check ts (abs_state st) \<and> n = of_nat (length ts)"
proof (cases "get_block (unat i) (ps_checker st)")
  case (Inl e)
  then show ?thesis by (simp add: validate_br_table_types_def ref_label_none)
next
  case (Inr b)
  obtain k bt base where b: "b = (k, bt, base)" by (cases b)
  note label = ref_label_block [OF Inr [unfolded b], of cx]
  have checkL: "rbind (checker_check ts (ps_checker st)) (\<lambda>_. Inr n) = Inl e \<Longrightarrow> \<not> ref_check ts (abs_state st)"
    and checkR: "rbind (checker_check ts (ps_checker st)) (\<lambda>_. Inr n) = Inr m \<Longrightarrow> ref_check ts (abs_state st) \<and> m = n"
    for ts e and n m :: u32
    using check_agrees [OF assms, of ts] by (cases "checker_check ts (ps_checker st)"; simp)+
  have nil: "ref_check [] (abs_state st)" by (simp add: ref_check_def)
  show ?thesis
    using Inr b nil
    by (cases k; cases bt; cases "bt_types cx bt")
      (auto simp: validate_br_table_types_def label bt_types_at bt_types_def dest: checkL checkR split: sum.split)
qed

lemma rfold_list_all:
  "(\<And>x. case f x of Inl _ \<Rightarrow> \<not> P x | Inr _ \<Rightarrow> P x) \<Longrightarrow>
   case rfold (\<lambda>x _. f x) xs () of Inl _ \<Rightarrow> \<not> list_all P xs | Inr _ \<Rightarrow> list_all P xs"
proof (induction xs)
  case (Cons x xs)
  from Cons.prems [of x] Cons.IH [OF Cons.prems] show ?case
    by (cases "f x"; cases "rfold (\<lambda>x _. f x) xs ()") auto
qed simp

lemma inst_br_table_agrees:
  assumes "in_step st" "decoded cx groups"
  shows "agrees (frames (abs_state st)) (inst_br_table cx idxs i st) (ref_inst cx ls (IBrTable idxs i) (abs_state st))"
  unfolding inst_br_table_def ref_inst_def instr.case
proof (rule agrees_bind [OF op_agrees [OF assms(1)]])
  fix s assume s: "in_step s" "frames (abs_state s) = frames (abs_state st)"
  let ?P = "\<lambda>ts j. case ref_label cx j (abs_state s) of None \<Rightarrow> False | Some us \<Rightarrow> length us = length ts \<and> ref_check us (abs_state s)"
  let ?f = "\<lambda>n j. rbind (validate_br_table_types cx j (ps_checker s)) (\<lambda>m. if n \<noteq> m then Inl InvalidStackValTypeAny else Inr ())"
  have one: "case ?f (of_nat (length ts)) j of Inl _ \<Rightarrow> \<not> ?P ts j | Inr _ \<Rightarrow> ?P ts j" if "length ts < 2 ^ 32" for ts j
  proof -
    have "(of_nat (length ts) :: u32) = of_nat (length us) \<longleftrightarrow> length ts = length us" if "ref_label cx j (abs_state s) = Some us" for us
      using \<open>length ts < 2 ^ 32\<close> label_small [OF assms(2) that] unat_small by metis
    then show ?thesis
      using br_table_types_agree [OF s(1), of cx j] by (cases "validate_br_table_types cx j (ps_checker s)") (auto split: option.split)
  qed
  have stop: "agrees (frames (abs_state s)) (rbind (is_unreachable s) (\<lambda>_. rbind (mark_unreachable s) set_unreachable)) (Some (ref_unreachable (abs_state s)))"
  proof -
    obtain us b where us: "ps_unreachable s = us @ [b]" using in_step_flags [OF s(1)] by metis
    have marked: "ps_unreachable (s\<lparr>ps_checker := checker_unreachable (ps_checker s)\<rparr>) = ps_unreachable s" by simp
    have "rbind (is_unreachable s) (\<lambda>_. rbind (mark_unreachable s) set_unreachable) =
        rbind (Inr (ps_checker s)) (\<lambda>c. Inr (dead_end s\<lparr>ps_checker := checker_unreachable c\<rparr>))"
      using flag_last(2) [OF us [folded marked]] flag_last(1) [OF us] by (simp add: mark_unreachable_def) (simp add: dead_end_def)
    with stop_agrees [OF s(1) in_step_simulates [OF s(1)], of "\<lambda>c. dead_end s\<lparr>ps_checker := checker_unreachable c\<rparr>"]
    show ?thesis by (simp add: abs_state_def)
  qed
  show "agrees (frames (abs_state st)) (rbind (validate_br_table_types cx i (ps_checker s)) (\<lambda>result_len.
     rbind (rfold (\<lambda>idx _. ?f result_len idx) idxs ()) (\<lambda>_.
     rbind (is_unreachable s) (\<lambda>_. rbind (mark_unreachable s) set_unreachable))))
     (Option.bind (ref_label cx i (abs_state s)) (\<lambda>ts. if list_all (?P ts) idxs then ref_stop ts (abs_state s) else None))"
  proof (cases "validate_br_table_types cx i (ps_checker s)")
    case (Inl e)
    with br_table_types_agree [OF s(1), of cx i] show ?thesis
      by (cases "ref_label cx i (abs_state s)") (auto simp: ref_stop_def ref_check_def ref_op_def)
  next
    case (Inr n)
    with br_table_types_agree [OF s(1), of cx i] obtain ts where
      ts: "ref_label cx i (abs_state s) = Some ts" "ref_check ts (abs_state s)" "n = of_nat (length ts)" by auto
    have small: "length ts < 2 ^ 32" by (rule label_small [OF assms(2) ts(1)])
    have "case rfold (\<lambda>idx _. ?f n idx) idxs () of Inl _ \<Rightarrow> \<not> list_all (?P ts) idxs | Inr _ \<Rightarrow> list_all (?P ts) idxs"
      unfolding ts(3) by (rule rfold_list_all) (rule one [OF small])
    with Inr ts stop s(2) ref_stop_check [OF in_step_base [OF s(1)] ts(2)] show ?thesis
      by (cases "rfold (\<lambda>idx _. ?f n idx) idxs ()") simp_all
  qed
qed

lemma ref_op_split: "Option.bind (ref_op [t] [] v) (ref_op ins outs) = ref_op (ins @ [t]) outs v"
  by (cases "ref_pop_expect t v") (simp_all add: ref_op_def)

lemma return_agrees:
  "in_step st \<Longrightarrow> agrees (frames (abs_state st)) (inst_return cx st) (ref_stop (results_of (ip_functype cx)) (abs_state st))"
proof -
  assume st: "in_step st"
  let ?ts = "results_of (ip_functype cx)"
  note sim = op_simulates [OF st, of ?ts "[]"]
  have "vd_ctrls (abs_checker c) = vd_ctrls (abs_state st)" if "checker_op ?ts [] (ps_checker st) = Inr c" for c
    by (rule simulates_ctrls [OF sim that]) (rule ref_op_ctrls)
  from stop_agrees [OF st sim this refl] show ?thesis
    by (simp add: inst_return_def in_step_stop [OF st] stop_with ref_stop_def)
qed

lemma unreachable_agrees:
  "in_step st \<Longrightarrow> agrees (frames (abs_state st)) (inst_unreachable st) (Some (ref_unreachable (abs_state st)))"
proof -
  assume st: "in_step st"
  show ?thesis
    using stop_agrees [OF st in_step_simulates [OF st], of "\<lambda>c. dead_end st\<lparr>ps_checker := checker_unreachable c\<rparr>"]
    by (simp add: inst_unreachable_def in_step_set [OF st] abs_state_def)
qed

lemma func_type_agrees:
  "in_step st \<Longrightarrow> agrees (frames (abs_state st)) (on_checker (op_func_type ft) st) (ref_call ft (abs_state st))"
  using op_agrees [of st "params_of ft" "results_of ft"]
  by (cases ft) (simp add: op_func_type_def [abs_def] ref_call_def params_of_def results_of_def)

lemma op_agrees_in: "in_step st \<Longrightarrow> frames (abs_state st) = frs \<Longrightarrow> agrees frs (on_checker (checker_op ins outs) st) (ref_op ins outs (abs_state st))"
  using op_agrees by blast

lemma func_type_agrees_in: "in_step st \<Longrightarrow> frames (abs_state st) = frs \<Longrightarrow> agrees frs (on_checker (op_func_type ft) st) (ref_call ft (abs_state st))"
  using func_type_agrees by blast

lemma call_agrees:
  assumes "in_step st"
  shows "agrees (frames (abs_state st)) (inst_call cx f st) (Option.bind (ref_callee cx f) (\<lambda>ft. ref_call ft (abs_state st)))"
  using func_type_agrees [OF assms]
  by (cases "get_idx (ip_functions cx) (unat f)"; cases "ref_callee cx f")
    (auto simp: inst_call_def callee_type_def ref_callee_def)

lemma call_indirect_agrees:
  assumes "in_step st"
  shows "agrees (frames (abs_state st)) (inst_call_indirect cx ty tab st)
    (Option.bind (ref_indirect cx ty tab) (\<lambda>ft. Option.bind (ref_op [I32] [] (abs_state st)) (ref_call ft)))"
proof (cases "\<exists>t. get_idx (ip_tables cx) (unat tab) = Some (TableType RFuncRef t)")
  case True
  then obtain lim where tab: "get_idx (ip_tables cx) (unat tab) = Some (TableType RFuncRef lim)" by blast
  show ?thesis
  proof (cases "get_idx (ip_types cx) (unat ty)")
    case None
    then show ?thesis
      using tab op_agrees [OF assms, of "[I32]" "[]"]
      by (cases "on_checker (checker_op [I32] []) st") (auto simp: inst_call_indirect_def indirect_type_def ref_indirect_def)
  next
    case (Some ft)
    with tab show ?thesis
      by (auto simp: inst_call_indirect_def indirect_type_def ref_indirect_def intro!: agrees_bind [OF op_agrees [OF assms]] func_type_agrees_in)
  qed
next
  case False
  then show ?thesis
    by (cases "get_idx (ip_tables cx) (unat tab)")
      (auto simp: inst_call_indirect_def indirect_type_def ref_indirect_def split: tabletype.split)
qed

lemma drop_agrees:
  "in_step st \<Longrightarrow> agrees (frames (abs_state st)) (inst_drop st) (map_option snd (ref_pop (abs_state st)))"
proof -
  assume st: "in_step st"
  let ?f = "\<lambda>c. rbind (checker_pop c) (\<lambda>(_, c). Inr c)"
  have sim: "simulates (?f (ps_checker st)) (map_option snd (ref_pop (abs_state st)))"
    using pop_refines [of "ps_checker st"] st by (auto simp: in_step_def abs_state_def split: sum.splits)
  have "vd_ctrls (abs_checker c) = vd_ctrls (abs_state st)" if "?f (ps_checker st) = Inr c" for c
    by (rule simulates_ctrls [OF sim that]) (auto dest: ref_pop_ctrls)
  then show ?thesis unfolding inst_drop_def by (rule on_checker_agrees [where f = ?f, OF st sim])
qed

lemma select_typed_agrees:
  assumes "in_step st"
  shows "agrees (frames (abs_state st)) (inst_select_typed ts st)
    (case ts of [t] \<Rightarrow> ref_op [t, t, I32] [t] (abs_state st) | _ \<Rightarrow> None)"
proof (cases "length ts = 1")
  case True
  then obtain t where t: "ts = [t]" by (cases ts) auto
  have "agrees (frames (abs_state st)) (inst_select_typed [t] st)
      (Option.bind (ref_op [I32] [] (abs_state st)) (\<lambda>v. Option.bind (ref_op [t] [] v) (ref_op [t] [t])))"
    unfolding inst_select_typed_def
    by (auto intro!: agrees_bind [OF op_agrees [OF assms]] agrees_bind [OF op_agrees_in] agrees_probe op_agrees_in)
  moreover have "Option.bind (ref_op [I32] [] v) (\<lambda>v. Option.bind (ref_op [t] [] v) (ref_op [t] [t])) =
      ref_op [t, t, I32] [t] v" for v
    using ref_op_split [of t _ "[t]" "[t]"] ref_op_split [of I32 v "[t, t]" "[t]"] by simp
  ultimately show ?thesis using t by simp
next
  case False
  then show ?thesis by (auto simp: inst_select_typed_def split: list.split)
qed

lemma local_type_agrees:
  assumes "decoded cx groups"
  shows "local_type cx i = (case get_idx (local_types cx groups) (unat i) of None \<Rightarrow> Inl (InvalidLocalIndex i) | Some t \<Rightarrow> Inr t)"
  using get_local_addr_correct [of "params_of (ip_functype cx)" groups "ip_locals cx" i] assms
  by (auto simp: local_type_def decoded_def local_types_def get_idx_def)

lemma variable_agrees:
  assumes "in_step st" "decoded cx groups"
  shows "agrees (frames (abs_state st)) (inst_local_get cx i st) (Option.bind (get_idx (local_types cx groups) (unat i)) (\<lambda>t. ref_op [] [t] (abs_state st)))"
    "agrees (frames (abs_state st)) (inst_local_set cx i st) (Option.bind (get_idx (local_types cx groups) (unat i)) (\<lambda>t. ref_op [t] [] (abs_state st)))"
    "agrees (frames (abs_state st)) (inst_local_tee cx i st) (Option.bind (get_idx (local_types cx groups) (unat i)) (\<lambda>t. ref_op [t] [t] (abs_state st)))"
  using op_agrees [OF assms(1)]
  by (cases "get_idx (local_types cx groups) (unat i)";
      simp add: inst_local_get_def inst_local_set_def inst_local_tee_def local_type_agrees [OF assms(2)])+

lemma global_agrees:
  assumes "in_step st"
  shows "agrees (frames (abs_state st)) (inst_global_get cx i st)
      (Option.bind (get_idx (ip_globals cx) (unat i)) (\<lambda>g. case g of GlobalType t _ \<Rightarrow> ref_op [] [t] (abs_state st)))"
    "agrees (frames (abs_state st)) (inst_global_set cx i st)
      (Option.bind (get_idx (ip_globals cx) (unat i)) (\<lambda>g. case g of GlobalType t m \<Rightarrow> if m then ref_op [t] [] (abs_state st) else None))"
    "agrees (frames (abs_state st)) (inst_table_get cx i st)
      (Option.bind (get_idx (ip_tables cx) (unat i)) (\<lambda>t. case t of TableType r _ \<Rightarrow> ref_op [I32] [ref_valtype r] (abs_state st)))"
    "agrees (frames (abs_state st)) (inst_table_set cx i st)
      (Option.bind (get_idx (ip_tables cx) (unat i)) (\<lambda>t. case t of TableType r _ \<Rightarrow> ref_op [I32, ref_valtype r] [] (abs_state st)))"
  using op_agrees [OF assms]
  by (cases "get_idx (ip_globals cx) (unat i)"; cases "get_idx (ip_tables cx) (unat i)";
      simp add: inst_global_get_def inst_global_set_def inst_table_get_def inst_table_set_def split: globaltype.split tabletype.split)+

lemma pop_unreachable:
  assumes "wf_checker c" "checker_pop c = Inr (MUnreachable b, c')"
  shows "wf_checker (push_any c')" "abs_checker (push_any c') = ref_push None (abs_checker c')"
    "\<exists>fr frs. vd_ctrls (abs_checker c) = fr # frs \<and> cf_unreachable fr"
proof -
  obtain bs outer kind bt s where c: "c = in_block bs outer kind bt s" "seg_ok s" "wf_blocks (rev bs) outer"
    using assms(1)
  proof (cases rule: wf_checker_cases)
    case outside
    then show ?thesis using assms(2) by (simp add: checker_pop_def check_block_base_def)
  qed blast
  then obtain s' where s: "s = MUnreachable b # s'" "c' = in_block bs outer kind bt (MUnreachable False # s')"
    using assms(2) by (auto simp: in_block_pop split: list.splits maybe_unreachable.splits)
  have "seg_ok s'" using c(2) s(1) seg_ok_anyD [of s'] by (cases b) auto
  then show "wf_checker (push_any c')" "abs_checker (push_any c') = ref_push None (abs_checker c')"
    using push_any_refines [OF _ c(3) s(2)] by simp_all
  have "MUnreachable False \<in> set s" using c(2) s(1) seg_ok_anyD [of s'] by (cases b) auto
  then show "\<exists>fr frs. vd_ctrls (abs_checker c) = fr # frs \<and> cf_unreachable fr"
    by (simp add: c(1) in_block_abs abs_in_def)
qed

lemma in_step_update:
  assumes "in_step st" "wf_checker c" "vd_ctrls (abs_checker c) = vd_ctrls (abs_state st)"
  shows "in_step (st\<lparr>ps_checker := c\<rparr>)" "abs_state (st\<lparr>ps_checker := c\<rparr>) = abs_checker c"
    "frames (abs_state (st\<lparr>ps_checker := c\<rparr>)) = frames (abs_state st)"
  using assms ctrls_empty_iff [of c] ctrls_empty_iff [of "ps_checker st"]
  by (auto simp: in_step_def abs_state_def intro: frames_cong)

lemma select_agrees:
  assumes "in_step st"
  shows "agrees (frames (abs_state st)) (inst_select st) (ref_select (abs_state st))"
  unfolding inst_select_def ref_select_def
proof (rule agrees_bind [OF op_agrees [OF assms]])
  fix s assume s: "in_step s" "frames (abs_state s) = frames (abs_state st)"
  have wf: "wf_checker (ps_checker s)" using s(1) by (simp add: in_step_def)
  show "agrees (frames (abs_state st)) (rbind (checker_pop (ps_checker s)) (\<lambda>(x, c).
       case x of
         MNormal x \<Rightarrow> rbind (checker_op [x] [x] c) (\<lambda>c. if is_ref x then Inl InvalidStackValTypeAny else Inr (s\<lparr>ps_checker := c\<rparr>))
       | MUnreachable _ \<Rightarrow>
           rbind (checker_pop c) (\<lambda>(x, c).
             case x of
               MNormal x \<Rightarrow> if is_ref x then Inl InvalidStackValTypeAny else Inr (s\<lparr>ps_checker := checker_push x c\<rparr>)
             | MUnreachable _ \<Rightarrow>
                 rbind (is_unreachable s) (\<lambda>dead. if \<not> dead then Inl InvalidStackValTypeAny else Inr (s\<lparr>ps_checker := push_any c\<rparr>)))))
     (Option.bind (ref_pop (abs_state s)) (\<lambda>(t, v).
      Option.bind (ref_pop v) (\<lambda>(u, v).
       if (case t of Some x \<Rightarrow> is_ref x | None \<Rightarrow> False) \<or> (case u of Some x \<Rightarrow> is_ref x | None \<Rightarrow> False) then None
       else if t \<noteq> None \<and> u \<noteq> None \<and> t \<noteq> u then None
       else Some (ref_push (if t = None then u else t) v))))"
  proof (cases "checker_pop (ps_checker s)")
    case (Inl e)
    with pop_refines [OF wf] show ?thesis by (simp add: abs_state_def)
  next
    case (Inr mc)
    obtain m c where mc: "mc = (m, c)" by (cases mc)
    have c: "wf_checker c" "ref_pop (abs_state s) = Some (known m, abs_checker c)"
      using pop_refines [OF wf] Inr mc by (simp_all add: abs_state_def)
    note ctrls = ref_pop_ctrls [OF c(2)]
    note upd = in_step_update [OF s(1)]
    show ?thesis
    proof (cases m)
      case (MNormal x)
      let ?s = "s\<lparr>ps_checker := c\<rparr>"
      have op: "simulates (checker_op [x] [x] c) (ref_op [x] [x] (abs_checker c))"
        using op_simulates [OF upd(1) [OF c(1) ctrls], of "[x]" "[x]"] upd(2) [OF c(1) ctrls] by simp
      have ref: "ref_op [x] [x] (abs_checker c) = Option.bind (ref_pop (abs_checker c)) (\<lambda>(u, v). if u = Some x \<or> u = None then Some (ref_push (Some x) v) else None)"
        by (cases "ref_pop (abs_checker c)") (auto simp: ref_op_def ref_pop_expect_def)
      show ?thesis
      proof (cases "checker_op [x] [x] c")
        case (Inl e)
        with op ref have "ref_pop (abs_checker c) = None \<or> (\<exists>u v. ref_pop (abs_checker c) = Some (Some u, v) \<and> u \<noteq> x)"
          by (cases "ref_pop (abs_checker c)") (auto split: if_splits)
        with Inl Inr mc MNormal c(2) show ?thesis by auto
      next
        case (Inr c')
        with op have c': "wf_checker c'" "ref_op [x] [x] (abs_checker c) = Some (abs_checker c')" by simp_all
        have "vd_ctrls (abs_checker c') = vd_ctrls (abs_state s)" using ref_op_ctrls [OF c'(2)] ctrls by simp
        note upd' = upd [OF c'(1) this]
        from c'(2) ref obtain u v where "ref_pop (abs_checker c) = Some (u, v)" "u = Some x \<or> u = None" "abs_checker c' = ref_push (Some x) v"
          by (auto simp: bind_eq_Some_conv split: if_splits)
        with Inr \<open>checker_pop (ps_checker s) = Inr mc\<close> mc MNormal c(2) upd' s(2) show ?thesis by auto
      qed
    next
      case (MUnreachable b)
      show ?thesis
      proof (cases "checker_pop c")
        case (Inl e)
        with pop_refines [OF c(1)] Inr mc MUnreachable c(2) show ?thesis by simp
      next
        case (Inr mc')
        obtain m' c' where mc': "mc' = (m', c')" by (cases mc')
        have c': "wf_checker c'" "ref_pop (abs_checker c) = Some (known m', abs_checker c')"
          using pop_refines [OF c(1)] Inr mc' by simp_all
        have ctrls': "vd_ctrls (abs_checker c') = vd_ctrls (abs_state s)" using ref_pop_ctrls [OF c'(2)] ctrls by simp
        have "ck_blocks c' \<noteq> []" using ctrls_empty_iff [of c'] ctrls_empty_iff [of "ps_checker s"] ctrls' s(1) by (auto simp: in_step_def abs_state_def)
        note push = push_refines [OF c'(1) this]
        show ?thesis
        proof (cases m')
          case (MNormal x)
          have "vd_ctrls (abs_checker (checker_push x c')) = vd_ctrls (abs_state s)" using push ctrls' by simp
          note upd' = upd [OF conjunct1 [OF push] this]
          with push [of x] MNormal MUnreachable Inr mc' \<open>checker_pop (ps_checker s) = Inr mc\<close> mc c(2) c'(2) s(2) show ?thesis by auto
        next
          case (MUnreachable b')
          note any = pop_unreachable [OF c(1) Inr [unfolded mc' MUnreachable]]
          have "vd_ctrls (abs_checker (push_any c')) = vd_ctrls (abs_state s)" using any(2) ctrls' by simp
          note upd' = upd [OF any(1) this]
          have "is_unreachable s = Inr True" using any(3) ctrls by (auto simp: in_step_is_unreachable [OF s(1)])
          with upd' any(2) MUnreachable \<open>m = MUnreachable b\<close> Inr mc' \<open>checker_pop (ps_checker s) = Inr mc\<close> mc c(2) c'(2) s(2) show ?thesis by auto
        qed
      qed
    qed
  qed
qed

text \<open>The instructions for which the parser follows the specification.\<close>

definition plain :: "instr \<Rightarrow> bool" where
  "plain inst \<longleftrightarrow>
     (case inst of
        IIf _ \<Rightarrow> False
      | IElse \<Rightarrow> False
      | ILoop (BTypeIdx _) \<Rightarrow> False
      | IReturnCall _ \<Rightarrow> False
      | IReturnCallIndirect _ _ \<Rightarrow> False
      | _ \<Rightarrow> True)"

lemma flat_inst_agrees:
  assumes "in_step st" "tame (frames (abs_state st))" "decoded cx groups" "plain inst"
    and "\<forall>bt. inst \<noteq> IBlock bt \<and> inst \<noteq> ILoop bt"
  shows "agrees (frames (abs_state st)) (flat_inst cx inst st) (ref_inst cx (local_types cx groups) inst (abs_state st))"
  using assms(4-)
    unreachable_agrees [OF assms(1)] inst_br_agrees [OF assms(1)] inst_br_if_agrees [OF assms(1,2)] inst_br_table_agrees [OF assms(1,3)]
    return_agrees [OF assms(1)] call_agrees [OF assms(1)] call_indirect_agrees [OF assms(1)] drop_agrees [OF assms(1)]
    select_agrees [OF assms(1)] select_typed_agrees [OF assms(1)] variable_agrees [OF assms(1,3)] global_agrees [OF assms(1)]
    op_agrees [OF assms(1)] assms(1)
  by (cases inst) (simp_all add: flat_inst_def ref_inst_def plain_def)

section \<open>Blocks\<close>

lemma seg_reachable: "seg_ok s \<Longrightarrow> MUnreachable False \<notin> set s \<Longrightarrow> m \<in> set s \<Longrightarrow> \<exists>t. m = MNormal t"
proof (induction s rule: seg_ok.induct)
  case (2 s)
  then show ?case using seg_ok_anyD [of s] by auto
qed auto

lemma reachable_types:
  "wf_blocks bs ts \<Longrightarrow> \<not> hd (unreachable_flags (snd (abs_blocks bs ts))) \<Longrightarrow> m \<in> set ts \<Longrightarrow> \<exists>t. m = MNormal t"
proof (induction bs arbitrary: ts)
  case (Cons b bs)
  obtain k bt base where b: "b = (k, bt, base)" by (cases b)
  have split: "m \<in> set (take base ts) \<or> m \<in> set (rev (drop base ts))"
    using Cons.prems(3) set_append [of "take base ts" "drop base ts"] by auto
  have "seg_ok (rev (drop base ts))" "wf_blocks bs (take base ts)" using Cons.prems(1) b by auto
  moreover have "MUnreachable False \<notin> set (rev (drop base ts))" "\<not> hd (unreachable_flags (snd (abs_blocks bs (take base ts))))"
    using Cons.prems(2) b by (auto simp: split_def Let_def)
  ultimately show ?case using split Cons.IH seg_reachable by blast
qed simp

lemma base_size_reachable:
  "(\<And>m. m \<in> set ts \<Longrightarrow> \<exists>t. m = MNormal t) \<Longrightarrow>
   \<exists>n. rfold (\<lambda>ty sz. case ty of MNormal v \<Rightarrow> Inr (sz + stack_size v) | MUnreachable _ \<Rightarrow> Inl InvalidStackValTypeAny) ts sz = Inr n"
proof (induction ts arbitrary: sz)
  case (Cons m ts)
  obtain t where "m = MNormal t" using Cons.prems [of m] by auto
  with Cons.IH [of "sz + stack_size t"] Cons.prems show ?case by auto
qed simp

text \<open>With the flags of the enclosing blocks, the sizes at the border of a block can be computed.\<close>

lemma block_sizes_ok:
  assumes "wf_checker (ps_checker st)" "vd_ctrls (abs_state st) = fr # frs" "rev (ps_unreachable st) = unreachable_flags frs"
    and "bt_types cx bt \<noteq> None"
  shows "block_sizes cx bt st = Inr ()"
proof -
  have known: "known_blocktype cx bt = Inr ()"
    using assms(4) by (auto simp: known_blocktype_def bt_types_def res_simps split: blocktype.splits)
  have flag: "is_unreachable st = Inr (hd (unreachable_flags frs))"
    using arg_cong [OF assms(3), of rev] flag_last(1) [of st "rev (tl (unreachable_flags frs))" "hd (unreachable_flags frs)"]
    by (cases "unreachable_flags frs") auto
  have size: "\<exists>n. block_base_stack_size (ps_checker st) = Inr n" if "\<not> hd (unreachable_flags frs)"
    using assms(1)
  proof (cases rule: wf_checker_cases)
    case outside
    then show ?thesis using assms(2) by (simp add: abs_state_def abs_checker_def)
  next
    case (inside bs outer kind bt s)
    have "frs = snd (abs_blocks (rev bs) outer)" using assms(2) inside(1) by (simp add: abs_state_def in_block_abs abs_in_def)
    with that inside(3) reachable_types [of "rev bs" outer] base_size_reachable [of outer 0] have
      "\<exists>n. rfold (\<lambda>ty sz. case ty of MNormal v \<Rightarrow> Inr (sz + stack_size v) | MUnreachable _ \<Rightarrow> Inl InvalidStackValTypeAny) outer 0 = Inr n"
      by blast
    then show ?thesis by (simp add: block_base_stack_size_def inside(1)) (simp add: in_block_def)
  qed
  show ?thesis
  proof (cases "hd (unreachable_flags frs)")
    case False
    with size obtain n where "block_base_stack_size (ps_checker st) = Inr n" by blast
    with False flag known show ?thesis by (simp add: block_sizes_def)
  qed (simp add: block_sizes_def flag)
qed

lemma open_simulates:
  assumes "in_step st"
  shows "simulates (open_block cx k bt (ps_checker st)) (ref_open cx k bt (abs_state st))"
proof (cases bt)
  case (BTypeIdx i)
  have enter: "simulates (checker_op [] ps (enter_block k bt c)) (ref_op [] ps (ref_push_ctrl k bt (abs_checker c)))" if "wf_checker c" for ps c
    using op_refines [of "enter_block k bt c" "[]" ps] enter_refines [OF that, of k bt] by (simp add: enter_block_def)
  show ?thesis
    using BTypeIdx
    by (cases "bt_types cx bt")
      (auto simp: open_block_def ref_open_def bt_types_at simp del: simulates_simps(2) intro!: simulates_bind [OF op_simulates [OF assms]] enter [unfolded BTypeIdx])
qed (use assms enter_refines [of "ps_checker st" k bt] in \<open>simp_all add: open_block_def ref_open_def bt_types_def in_step_def abs_state_def\<close>)

lemma open_ctrls:
  "ref_open cx k bt v = Some v' \<Longrightarrow> \<exists>fr. vd_ctrls v' = fr # vd_ctrls v \<and> cf_kind fr = k \<and> cf_type fr = bt \<and> \<not> cf_unreachable fr"
  by (auto simp: ref_open_def bind_eq_Some_conv ref_push_ctrl_def dest!: ref_op_ctrls)

lemma begin_agrees:
  assumes "in_step st" "k = KBlock \<and> r = block_begin cx bt st \<or> k = KLoop \<and> r = loop_begin cx bt st"
  shows "agrees ((k, bt) # frames (abs_state st)) r (ref_open cx k bt (abs_state st))"
proof (cases "open_block cx k bt (ps_checker st)")
  case (Inl e)
  with assms(2) open_simulates [OF assms(1), of cx k bt] show ?thesis
    by (auto simp: block_begin_def loop_begin_def on_checker_def)
next
  case (Inr c)
  with open_simulates [OF assms(1), of cx k bt] have c: "wf_checker c" "ref_open cx k bt (abs_state st) = Some (abs_checker c)" by simp_all
  obtain fr where fr: "vd_ctrls (abs_checker c) = fr # vd_ctrls (abs_state st)" "cf_kind fr = k" "cf_type fr = bt" "\<not> cf_unreachable fr"
    using open_ctrls [OF c(2)] by blast
  let ?st = "st\<lparr>ps_checker := c\<rparr>"
  have known: "bt_types cx bt \<noteq> None" using c(2) by (auto simp: ref_open_def bind_eq_Some_conv)
  obtain us b where us: "ps_unreachable st = us @ [b]" using in_step_flags [OF assms(1)] by metis
  have flags: "rev (ps_unreachable st) = unreachable_flags (vd_ctrls (abs_state st))" using assms(1) by (simp add: in_step_def)
  have "block_sizes cx bt ?st = Inr ()"
    by (rule block_sizes_ok [OF _ _ _ known, of _ fr "vd_ctrls (abs_state st)"]) (use c fr flags in \<open>simp_all add: abs_state_def\<close>)
  then have r: "r = Inr (?st\<lparr>ps_unreachable := us @ [b, b]\<rparr>)"
    using assms(2) Inr us flag_last(3) [of ?st us b] by (auto simp: block_begin_def loop_begin_def on_checker_def)
  have "ck_blocks c \<noteq> []" using fr(1) ctrls_empty_iff [of c] by auto
  moreover have "unreachable_flags (vd_ctrls (abs_state st)) = b # rev us" using flags us by simp
  ultimately show ?thesis using r c fr by (simp add: in_step_def abs_state_def frames_def)
qed

lemma close_simulates:
  assumes "wf_checker c" "vd_ctrls (abs_checker c) = fr # fr2 # frs" "cf_kind fr \<noteq> KIf" "cf_type fr = bt"
  shows "simulates (close_block cx bt c) (ref_end cx (abs_checker c))"
proof -
  have c: "ck_blocks c \<noteq> []" using assms(2) ctrls_empty_iff [of c] by auto
  have leave: "simulates (rbind (leave_block c') (checker_op [] rs)) (Option.bind (ref_pop_ctrl (abs_checker c')) (ref_op [] rs))"
    if "ref_op ts [] (abs_checker c) = Some (abs_checker c')" "wf_checker c'" for c' ts rs
  proof (rule simulates_bind [OF leave_refines [OF that(2)]], rule op_refines)
    fix d assume d: "leave_block c' = Inr d"
    with leave_refines [OF that(2)] have "ref_pop_ctrl (abs_checker c') = Some (abs_checker d)" by simp
    with ref_op_ctrls [OF that(1)] assms(2) have "abs_checker d = abs_checker c'\<lparr>vd_ctrls := fr2 # frs\<rparr>"
      by (auto simp: ref_pop_ctrl_def split: if_splits)
    then have "vd_ctrls (abs_checker d) = fr2 # frs" by simp
    then show "ck_blocks d \<noteq> []" using ctrls_empty_iff [of d] by auto
  qed
  have all: "simulates (rbind (checker_op rs [] c) (\<lambda>c. rbind (leave_block c) (checker_op [] rs)))
      (Option.bind (ref_op rs [] (abs_checker c)) (\<lambda>v. Option.bind (ref_pop_ctrl v) (ref_op [] rs)))" for rs
  proof (rule simulates_bind [OF op_refines [OF assms(1) c]])
    fix c' assume c': "checker_op rs [] c = Inr c'" "wf_checker c'"
    with op_refines [OF assms(1) c, of rs "[]"] show "simulates (rbind (leave_block c') (checker_op [] rs)) (Option.bind (ref_pop_ctrl (abs_checker c')) (ref_op [] rs))"
      by (intro leave [of rs]) simp_all
  qed
  have void: "checker_op [] [] d = Inr d" for d by (simp add: checker_op_def)
  then have "rbind r (checker_op [] []) = r" for r by (cases r) simp_all
  then show ?thesis
    using assms(2-4) all [of "[]"] all
    by (cases bt; cases "bt_types cx bt") (auto simp: close_block_def ref_end_def bt_types_at void, auto simp: bt_types_def)
qed

lemma end_agrees:
  assumes "in_step st" "frames (abs_state st) = (k, bt) # frs" "frs \<noteq> []" "k \<noteq> KIf"
  shows "agrees frs (block_end cx bt st) (ref_end cx (abs_state st))"
proof -
  obtain fr fr2 rest where ctrls: "vd_ctrls (abs_state st) = fr # fr2 # rest" "cf_kind fr = k" "cf_type fr = bt"
    using assms(2,3) by (auto simp: frames_def Cons_eq_map_conv) (metis list.map_disc_iff neq_Nil_conv)
  have wf: "wf_checker (ps_checker st)" using assms(1) by (simp add: in_step_def)
  have sim: "simulates (close_block cx bt (ps_checker st)) (ref_end cx (abs_state st))"
    using close_simulates [OF wf] ctrls assms(4) by (simp add: abs_state_def)
  have flags: "rev (ps_unreachable (gen_leave_block st)) = unreachable_flags (fr2 # rest)"
  proof (rule in_step_flags [OF assms(1)])
    fix fr' frs' us
    assume "vd_ctrls (abs_state st) = fr' # frs'" "ps_unreachable st = us @ [cf_unreachable fr' \<or> hd (unreachable_flags frs')]"
      "rev us = unreachable_flags frs'"
    with ctrls(1) show ?thesis by (simp add: gen_leave_block_def butlast_append)
  qed
  have same: "ps_checker (gen_leave_block st) = ps_checker st" "abs_state (gen_leave_block st) = abs_state st"
    by (simp_all add: gen_leave_block_def abs_state_def)
  show ?thesis
  proof (cases "close_block cx bt (ps_checker st)")
    case (Inl e)
    with sim show ?thesis
      by (cases "block_sizes cx bt (gen_leave_block st)") (auto simp: block_end_def on_checker_def same)
  next
    case (Inr c)
    with sim have c: "wf_checker c" "ref_end cx (abs_state st) = Some (abs_checker c)" by simp_all
    then have known: "bt_types cx bt \<noteq> None" using ctrls by (auto simp: ref_end_def bind_eq_Some_conv)
    have "block_sizes cx bt (gen_leave_block st) = Inr ()"
      by (rule block_sizes_ok [OF _ _ flags known, of fr]) (use wf ctrls same in simp_all)
    with Inr have r: "block_end cx bt st = Inr (gen_leave_block st\<lparr>ps_checker := c\<rparr>)"
      by (simp add: block_end_def on_checker_def same)
    have "vd_ctrls (abs_checker c) = fr2 # rest"
      using c(2) ctrls by (auto simp: ref_end_def bind_eq_Some_conv ref_pop_ctrl_def split: if_splits dest!: ref_op_ctrls)
    moreover from this have "ck_blocks c \<noteq> []" using ctrls_empty_iff [of c] by auto
    moreover have "frames (abs_checker c) = frs" using assms(2) ctrls(1) \<open>vd_ctrls (abs_checker c) = fr2 # rest\<close> by (simp add: frames_def)
    ultimately show ?thesis using r c flags by (simp add: in_step_def abs_state_def)
  qed
qed

section \<open>Bodies\<close>

text \<open>A run of the parser up to an \<open>end\<close> corresponds to the same prefix of a run of the reference.\<close>

definition tracks ::
  "parser_ctx \<Rightarrow> valtype list \<Rightarrow> instr list \<Rightarrow> validation \<Rightarrow> parser_error + parse_state \<times> instr list \<Rightarrow> bool" where
  "tracks cx ls insts v r \<longleftrightarrow>
     (case r of
        Inl e \<Rightarrow> e = ParserNestingTooDeep MAX_CONTROL_NESTING_DEPTH \<or> ref_body cx ls insts v = None
      | Inr (st, rest) \<Rightarrow>
          in_step st \<and> frames (abs_state st) = frames v \<and> list_all plain rest \<and> length rest < length insts \<and>
          ref_body cx ls insts v = ref_body cx ls (IEnd # rest) (abs_state st))"

lemma tracks_error [simp]:
  "tracks cx ls insts v (Inl e) \<longleftrightarrow> e = ParserNestingTooDeep MAX_CONTROL_NESTING_DEPTH \<or> ref_body cx ls insts v = None"
  by (simp add: tracks_def)

lemma tracks_cong:
  "tracks cx ls rest v r \<Longrightarrow> ref_body cx ls insts w = ref_body cx ls rest v \<Longrightarrow> frames w = frames v \<Longrightarrow> length rest \<le> length insts \<Longrightarrow>
   tracks cx ls insts w r"
  by (auto simp: tracks_def split: sum.splits)

lemma tracks_nested:
  assumes entry: "agrees (b # frames v) r (ref_inst cx ls inst v)"
    and step: "\<And>w. ref_body cx ls (inst # insts) w = Option.bind (ref_inst cx ls inst w) (ref_body cx ls insts)"
    and body: "\<And>st. in_step st \<Longrightarrow> frames (abs_state st) = b # frames v \<Longrightarrow> tracks cx ls insts (abs_state st) (p st)"
    and close: "\<And>st. in_step st \<Longrightarrow> frames (abs_state st) = b # frames v \<Longrightarrow> agrees (frames v) (q st) (ref_end cx (abs_state st))"
    and onward: "\<And>st rest. in_step st \<Longrightarrow> frames (abs_state st) = frames v \<Longrightarrow> list_all plain rest \<Longrightarrow> length rest < length insts \<Longrightarrow>
      tracks cx ls rest (abs_state st) (k rest st)"
    and open_block: "frames v \<noteq> []"
  shows "tracks cx ls (inst # insts) v (rbind r (\<lambda>st. rbind (p st) (\<lambda>(st, rest). rbind (q st) (k rest))))"
proof (cases r)
  case (Inl e)
  with entry step show ?thesis by simp
next
  case (Inr st)
  then have st: "in_step st" "ref_inst cx ls inst v = Some (abs_state st)" "frames (abs_state st) = b # frames v" using entry by simp_all
  show ?thesis
  proof (cases "p st")
    case (Inl e)
    with body [OF st(1,3)] st(2) Inr step show ?thesis by simp
  next
    case (Inr pr)
    obtain s rest where pr: "pr = (s, rest)" by (cases pr)
    with Inr body [OF st(1,3)] have s: "in_step s" "frames (abs_state s) = b # frames v" "list_all plain rest"
      "length rest < length insts" "ref_body cx ls insts (abs_state st) = ref_body cx ls (IEnd # rest) (abs_state s)"
      by (simp_all add: tracks_def st(3))
    note q = close [OF s(1,2)]
    show ?thesis
    proof (cases "q s")
      case (Inl e)
      with q \<open>r = Inr st\<close> \<open>p st = Inr pr\<close> pr step st(2) s(5) show ?thesis by simp
    next
      case (Inr t)
      with q have t: "in_step t" "ref_end cx (abs_state s) = Some (abs_state t)" "frames (abs_state t) = frames v" by simp_all
      have "vd_ctrls (abs_state t) \<noteq> []" using t(3) open_block by (auto simp: frames_def)
      then have "ref_body cx ls (inst # insts) v = ref_body cx ls rest (abs_state t)" using step st(2) s(5) t(2) by simp
      from tracks_cong [OF onward [OF t(1,3) s(3,4)] this] t(3) s(4) Inr \<open>r = Inr st\<close> \<open>p st = Inr pr\<close> pr show ?thesis by simp
    qed
  qed
qed

lemma tracks_flat:
  assumes "agrees (frames v) r (ref_inst cx ls inst v)"
    and "\<And>w. ref_body cx ls (inst # insts) w = Option.bind (ref_inst cx ls inst w) (ref_body cx ls insts)"
    and "\<And>st. in_step st \<Longrightarrow> frames (abs_state st) = frames v \<Longrightarrow> tracks cx ls insts (abs_state st) (k st)"
  shows "tracks cx ls (inst # insts) v (rbind r k)"
proof (cases r)
  case (Inr st)
  with assms(1) have st: "in_step st" "ref_inst cx ls inst v = Some (abs_state st)" "frames (abs_state st) = frames v" by simp_all
  from tracks_cong [OF assms(3) [OF st(1,3)], of "inst # insts" v] st assms(2) Inr show ?thesis by simp
qed (use assms in simp)

lemma parse_instrs_tracks:
  assumes "in_step st" "tame (frames (abs_state st))" "decoded cx groups" "list_all plain insts" "length insts < n"
  shows "tracks cx (local_types cx groups) insts (abs_state st) (parse_instrs cx n depth insts st)"
  using assms
proof (induction n arbitrary: depth insts st)
  case (Suc n)
  let ?ls = "local_types cx groups"
  show ?case
  proof (cases insts)
    case (Cons inst rest)
    have plain: "plain inst" "list_all plain rest" using Suc.prems(4) Cons by simp_all
    have open_block: "frames (abs_state st) \<noteq> []"
      using Suc.prems(1) frames_checker [of "ps_checker st"] by (simp add: in_step_def abs_state_def)
    have onward: "tracks cx ?ls r (abs_state s) (parse_instrs cx n d r s)"
      if "in_step s" "tame (frames (abs_state s))" "list_all plain r" "length r \<le> length rest" for s r d
      by (rule Suc.IH) (use that Suc.prems Cons in auto)
    have nested: "tracks cx ?ls (inst # rest) (abs_state st) (rbind (next_control_nesting_depth depth) (\<lambda>nd.
        rbind b (\<lambda>st. rbind (parse_instrs cx n nd rest st) (\<lambda>(st, r). rbind (block_end cx bt st) (parse_instrs cx n depth r)))))"
      if b: "k = KBlock \<and> b = block_begin cx bt st \<and> inst = IBlock bt \<or> k = KLoop \<and> b = loop_begin cx bt st \<and> inst = ILoop bt" for k b bt
    proof (cases "next_control_nesting_depth depth")
      case (Inl e)
      then show ?thesis by (auto simp: next_control_nesting_depth_def Let_def split: if_splits)
    next
      case (Inr nd)
      have inner: "tame ((k, bt) # frames (abs_state st))" "k \<noteq> KIf"
        using b plain(1) Suc.prems(2) by (auto simp: tame_def plain_def split: blocktype.splits)
      have ref: "ref_inst cx ?ls inst (abs_state st) = ref_open cx k bt (abs_state st)" using b by (auto simp: ref_inst_def)
      have "tracks cx ?ls (inst # rest) (abs_state st)
          (rbind b (\<lambda>st. rbind (parse_instrs cx n nd rest st) (\<lambda>(st, r). rbind (block_end cx bt st) (parse_instrs cx n depth r))))"
      proof (rule tracks_nested [OF _ _ _ _ _ open_block])
        show "agrees ((k, bt) # frames (abs_state st)) b (ref_inst cx ?ls inst (abs_state st))"
          unfolding ref by (rule begin_agrees [OF Suc.prems(1)]) (use b in auto)
        show "ref_body cx ?ls (inst # rest) w = Option.bind (ref_inst cx ?ls inst w) (ref_body cx ?ls rest)" for w using b by auto
        show "tracks cx ?ls rest (abs_state s) (parse_instrs cx n nd rest s)" if "in_step s" "frames (abs_state s) = (k, bt) # frames (abs_state st)" for s
          by (rule onward) (use that inner plain in auto)
        show "agrees (frames (abs_state st)) (block_end cx bt s) (ref_end cx (abs_state s))"
          if "in_step s" "frames (abs_state s) = (k, bt) # frames (abs_state st)" for s
          by (rule end_agrees [OF that open_block inner(2)])
        show "tracks cx ?ls r (abs_state s) (parse_instrs cx n depth r s)"
          if "in_step s" "frames (abs_state s) = frames (abs_state st)" "list_all plain r" "length r < length rest" for s r
          by (rule onward) (use that Suc.prems(2) in auto)
      qed
      with Inr show ?thesis by simp
    qed
    have flat: "tracks cx ?ls (inst # rest) (abs_state st) (rbind (flat_inst cx inst st) (parse_instrs cx n depth rest))"
      if "\<forall>bt. inst \<noteq> IBlock bt \<and> inst \<noteq> ILoop bt" "inst \<noteq> IEnd"
    proof (rule tracks_flat [OF flat_inst_agrees [OF Suc.prems(1-3) plain(1) that(1)]])
      show "ref_body cx ?ls (inst # rest) w = Option.bind (ref_inst cx ?ls inst w) (ref_body cx ?ls rest)" for w
        using that(2) by (cases inst) auto
    qed (use onward Suc.prems(2) plain in auto)
    show ?thesis
    proof (cases inst)
      case (IBlock bt)
      with nested [of KBlock "block_begin cx bt st" bt] Cons show ?thesis by simp
    next
      case (ILoop bt)
      with nested [of KLoop "loop_begin cx bt st" bt] Cons show ?thesis by simp
    next
      case IEnd
      with Cons Suc.prems(1) plain show ?thesis by (simp add: tracks_def)
    next
      case (IIf bt)
      with plain show ?thesis by (simp add: plain_def)
    qed (use flat Cons in simp_all)
  qed simp
qed simp

text \<open>C1: The body parser is the validation algorithm of the specification.  For a body without
  \<open>if\<close>, tail calls and loops with a type index, in a function whose frame takes fewer than \<open>2 ^ 32\<close> bytes, the parser accepts exactly the bodies that the
  reference accepts, up to the same \<open>end\<close>; only the error that reports its limit on the nesting of
  blocks, which the specification does not have, is left open.  Local indices are resolved by the code in the table computed from
  the declared groups, by the reference in the list of all parameters and locals.\<close>

theorem parse_body_correct:
  assumes "decoded cx groups" "list_all plain insts" "get_idx (ip_types cx) (unat typeidx) = Some (ip_functype cx)"
  shows "case parse_body cx typeidx insts of
      Inl e \<Rightarrow> e = ParserNestingTooDeep MAX_CONTROL_NESTING_DEPTH \<or> ref_body cx (local_types cx groups) insts (ref_new typeidx) = None
    | Inr rest \<Rightarrow> ref_body cx (local_types cx groups) insts (ref_new typeidx) = Some rest"
proof -
  let ?st = "\<lparr>ps_checker = checker_new typeidx, ps_unreachable = [False, False], ps_else = False\<rparr>"
  let ?ls = "local_types cx groups"
  have abs: "abs_state ?st = ref_new typeidx" by (simp add: abs_state_def checker_new_def abs_checker_def ref_new_def)
  have st: "in_step ?st" "tame (frames (abs_state ?st))"
    unfolding in_step_def abs by (simp_all add: checker_new_def wf_checker_def ref_new_def frames_def tame_def)
  note run = parse_instrs_tracks [OF st assms(1,2) lessI, of 0, unfolded abs]
  have start: "parse_body cx typeidx insts = rbind (parse_instrs cx (Suc (length insts)) 0 insts ?st) (\<lambda>(st, rest).
      rbind (checker_op (results_of (ip_functype cx)) [] (ps_checker st)) (\<lambda>c. rbind (leave_block c) (\<lambda>_. Inr rest)))"
    by (simp add: parse_body_def gen_enter_block_def)
  show ?thesis
  proof (cases "parse_instrs cx (Suc (length insts)) 0 insts ?st")
    case (Inl e)
    with run start show ?thesis by simp
  next
    case (Inr pr)
    obtain s rest where pr: "pr = (s, rest)" by (cases pr)
    with Inr run have s: "in_step s" "frames (abs_state s) = [(KBlock, BTypeIdx typeidx)]"
      "ref_body cx ?ls insts (ref_new typeidx) = ref_body cx ?ls (IEnd # rest) (abs_state s)"
      by (simp_all add: tracks_def frames_def ref_new_def)
    then obtain fr where fr: "vd_ctrls (abs_state s) = [fr]" "cf_kind fr = KBlock" "cf_type fr = BTypeIdx typeidx" by (auto simp: frames_def)
    let ?rs = "results_of (ip_functype cx)"
    have closing: "ref_end cx (abs_state s) = Option.bind (Option.bind (ref_op ?rs [] (abs_state s)) ref_pop_ctrl) (ref_op [] ?rs)"
      using fr assms(3) by (cases "ref_op ?rs [] (abs_state s)") (simp_all add: ref_end_def bt_types_def)
    have out: "vd_ctrls v' = []" if "Option.bind (ref_op ?rs [] (abs_state s)) ref_pop_ctrl = Some v'" for v'
      using that fr(1) by (auto simp: bind_eq_Some_conv ref_pop_ctrl_def split: if_splits dest!: ref_op_ctrls)
    have sim: "simulates (rbind (checker_op ?rs [] (ps_checker s)) leave_block) (Option.bind (ref_op ?rs [] (abs_state s)) ref_pop_ctrl)"
      by (rule simulates_bind [OF op_simulates [OF s(1)]]) (rule leave_refines)
    have code: "parse_body cx typeidx insts = rbind (rbind (checker_op ?rs [] (ps_checker s)) leave_block) (\<lambda>_. Inr rest)"
      using start Inr pr by (cases "checker_op ?rs [] (ps_checker s)") simp_all
    show ?thesis
    proof (cases "rbind (checker_op ?rs [] (ps_checker s)) leave_block")
      case (Inl e)
      with sim code closing s(3) show ?thesis by simp
    next
      case (Inr c)
      with sim have q: "Option.bind (ref_op ?rs [] (abs_state s)) ref_pop_ctrl = Some (abs_checker c)" by simp
      then have "ref_end cx (abs_state s) = Some (fold (\<lambda>t. ref_push (Some t)) ?rs (abs_checker c))"
        unfolding closing by (simp add: ref_op_def)
      with Inr code s(3) out [OF q] show ?thesis by simp
    qed
  qed
qed

theorem parse_body_correct_witness:
  "\<exists>cx groups insts. decoded cx groups \<and> list_all plain insts \<and> get_idx (ip_types cx) (unat 0) = Some (ip_functype cx) \<and>
     length insts = 13 \<and> ref_body cx (local_types cx groups) insts (ref_new 0) = Some []"
proof -
  let ?ft = "CoreFuncType [I32] [I32]" and ?groups = "[\<lparr>lo_n = 2, lo_t = I64\<rparr>]"
  let ?cx = "\<lparr>ip_types = [?ft], ip_functions = [0], ip_functype = ?ft, ip_locals = [(2, I64, 0)], ip_globals = [], ip_tables = []\<rparr>"
  let ?insts = "[ILocalGet 2, ILocalSet 1, IBlock (BValType I32), ILocalGet 0, ILocalGet 0, IBrIf 0, IDrop, ILoop BVoid, IBr 0, IEnd,
    IUnreachable, IEnd, IEnd]"
  have "create_reassignment_table (locals_data_from ?groups) ?groups = Inr [(2, I64, 0)]" by code_simp
  then have d: "decoded ?cx ?groups" by (simp add: decoded_def params_of_def results_of_def local_bytes_def bytes_before_def)
  have p: "list_all plain ?insts" by (simp add: plain_def)
  have t: "get_idx (ip_types ?cx) (unat 0) = Some (ip_functype ?cx)" by (simp add: get_idx_def)
  have "parse_body ?cx 0 ?insts = Inr []" by code_simp
  with parse_body_correct [OF d p t] have "ref_body ?cx (local_types ?cx ?groups) ?insts (ref_new 0) = Some []" by simp
  moreover have "length ?insts = 13" by simp
  ultimately show ?thesis using d p t by blast
qed

end
