(* ===== verification/Validation_Departures.thy ===== *)
theory Validation_Departures
  imports Validation_Soundness
begin

text \<open>
  Where the body parser departs from the specification: an \<open>if\<close> without \<open>else\<close>, a conditional branch to a
  loop with parameters, and a tail call.  For each of them a family of bodies, over arbitrary
  types and contexts, is characterised twice: when the parser accepts it and when the specification does.
\<close>

text \<open>A context without locals, globals and tables, for examples.\<close>

definition ctx_of :: "core_functype list \<Rightarrow> u32 list \<Rightarrow> core_functype \<Rightarrow> parser_ctx" where
  "ctx_of types functions ft =
     \<lparr>ip_types = types, ip_functions = functions, ip_functype = ft, ip_locals = [], ip_globals = [], ip_tables = []\<rparr>"

section \<open>Operations on known types\<close>

text \<open>A checker whose innermost block holds the given types, the top first.\<close>

abbreviation on_types ::
  "(block_kind \<times> blocktype \<times> nat) list \<Rightarrow> maybe_unreachable list \<Rightarrow> block_kind \<Rightarrow> blocktype \<Rightarrow> valtype list \<Rightarrow> checker" where
  "on_types bs outer kind bt ts \<equiv> in_block bs outer kind bt (map MNormal ts)"

lemma pop_known:
  "pop_expecting t (in_block bs outer kind bt []) = Inl InvalidStackValTypeAny"
  "pop_expecting t (in_block bs outer kind bt (MNormal u # s)) = rbind (assert_valtype t (Some u)) (\<lambda>_. Inr (in_block bs outer kind bt s))"
  "pop_expecting t (in_block bs outer kind bt (MUnreachable False # s)) = Inr (in_block bs outer kind bt (MUnreachable False # s))"
  by (simp_all add: pop_expecting_def in_block_pop)

lemma pops_known: "rfold pop_expecting ts (in_block bs outer kind bt (map MNormal ts @ s)) = Inr (in_block bs outer kind bt s)"
  by (induction ts) (simp_all add: pop_known assert_valtype_def)

lemma pops_known_iff: "(\<exists>c. rfold pop_expecting ts (on_types bs outer kind bt us) = Inr c) \<longleftrightarrow> (\<exists>rest. us = ts @ rest)"
proof (induction ts arbitrary: us)
  case (Cons t ts)
  show ?case
  proof (cases us)
    case (Cons u us')
    then show ?thesis using Cons.IH [of us'] by (auto simp: pop_known assert_valtype_def)
  qed (simp add: pop_known)
qed simp

lemma pops_marker: "rfold pop_expecting ts (in_block bs outer kind bt (MUnreachable False # s)) = Inr (in_block bs outer kind bt (MUnreachable False # s))"
  by (induction ts) (simp_all add: pop_known)

lemma pushes_known: "fold checker_push ts (in_block bs outer kind bt s) = in_block bs outer kind bt (map MNormal (rev ts) @ s)"
  by (induction ts arbitrary: s) simp_all

lemma op_known:
  "checker_op ins outs (in_block bs outer kind bt (map MNormal (rev ins) @ s)) = Inr (in_block bs outer kind bt (map MNormal (rev outs) @ s))"
  "checker_op ins [] (in_block bs outer kind bt (MUnreachable False # s)) = Inr (in_block bs outer kind bt (MUnreachable False # s))"
  by (simp_all add: checker_op_def pops_known pops_marker pushes_known)

text \<open>The shapes in which the operations below meet the stack: everything taken, nothing taken.\<close>

lemma op_all: "checker_op ins outs (on_types bs outer kind bt (rev ins)) = Inr (on_types bs outer kind bt (rev outs))"
  using op_known(1) [of ins outs bs outer kind bt "[]"] by simp

lemma op_none: "checker_op [] outs (in_block bs outer kind bt s) = Inr (in_block bs outer kind bt (map MNormal (rev outs) @ s))"
  using op_known(1) [of "[]" outs bs outer kind bt s] by simp

lemma op_last:
  "checker_op ins outs (on_types bs outer kind bt (rev (rest @ ins))) = Inr (on_types bs outer kind bt (rev (rest @ outs)))"
  "\<nexists>rest. us = rest @ ins \<Longrightarrow> \<exists>e. checker_op ins outs (on_types bs outer kind bt (rev us)) = Inl e"
proof -
  show "checker_op ins outs (on_types bs outer kind bt (rev (rest @ ins))) = Inr (on_types bs outer kind bt (rev (rest @ outs)))"
    using op_known(1) [of ins outs bs outer kind bt "map MNormal (rev rest)"] by simp
  assume no: "\<nexists>rest. us = rest @ ins"
  have "\<nexists>rest. rev us = rev ins @ rest"
  proof
    assume "\<exists>rest. rev us = rev ins @ rest"
    then obtain rest where "rev us = rev ins @ rest" by blast
    then have "us = rev rest @ ins" by (metis rev_append rev_rev_ident)
    with no show False by blast
  qed
  then show "\<exists>e. checker_op ins outs (on_types bs outer kind bt (rev us)) = Inl e"
    using pops_known_iff [of "rev ins" bs outer kind bt "rev us"]
    by (cases "rfold pop_expecting (rev ins) (on_types bs outer kind bt (rev us))") (auto simp: checker_op_def)
qed

lemma enter_known: "enter_block k b (in_block bs outer kind bt s) = on_types (bs @ [(kind, bt, length outer)]) (outer @ rev s) k b []"
  by (simp add: enter_block_def in_block_def)

lemma leave_known:
  "leave_block (in_block bs outer kind bt s) =
     (if s = [] \<or> hd s = MUnreachable False then Inr \<lparr>ck_types = outer, ck_blocks = bs\<rparr> else Inl InvalidStackValTypeAny)"
proof -
  have "fold (\<lambda>ty _. ty = MUnreachable False) (rev s) True \<longleftrightarrow> s = [] \<or> hd s = MUnreachable False"
    by (auto simp: fold_last last_rev)
  then show ?thesis by (simp add: leave_block_def) (simp add: in_block_def)
qed

lemma left_block: "\<lparr>ck_types = outer @ rev s, ck_blocks = bs @ [(kind, bt, length outer)]\<rparr> = in_block bs outer kind bt s"
  by (simp add: in_block_def)

lemma new_known: "checker_new typeidx = on_types [] [] KBlock (BTypeIdx typeidx) []"
  by (simp add: checker_new_def in_block_def)


section \<open>Bodies\<close>

lemma parse_body_start:
  "parse_body cx typeidx insts =
     rbind (parse_instrs cx (Suc (length insts)) 0 insts \<lparr>ps_checker = on_types [] [] KBlock (BTypeIdx typeidx) [], ps_unreachable = [False, False], ps_else = False\<rparr>)
       (\<lambda>(st, rest). rbind (checker_op (results_of (ip_functype cx)) [] (ps_checker st)) (\<lambda>c. rbind (leave_block c) (\<lambda>_. Inr rest)))"
  by (simp add: parse_body_def gen_enter_block_def new_known)

lemma type_parts: "params_of (CoreFuncType ps rs) = ps" "results_of (CoreFuncType ps rs) = rs"
  by (simp_all add: params_of_def results_of_def)

lemma ref_body_steps:
  "ref_body cx ls (ISimple ins outs # insts) v = Option.bind (ref_op ins outs v) (ref_body cx ls insts)"
  "ref_body cx ls (ILoop bt # insts) v = Option.bind (ref_open cx KLoop bt v) (ref_body cx ls insts)"
  "ref_body cx ls (IIf bt # insts) v = Option.bind (Option.bind (ref_op [I32] [] v) (ref_open cx KIf bt)) (ref_body cx ls insts)"
  "ref_body cx ls (IBrIf i # insts) v =
     Option.bind (Option.bind (ref_op [I32] [] v) (\<lambda>v. Option.bind (ref_label cx i v) (\<lambda>ts. ref_op ts ts v))) (ref_body cx ls insts)"
  "ref_body cx ls (IUnreachable # insts) v = ref_body cx ls insts (ref_unreachable v)"
  by (simp_all add: ref_inst_def)

text \<open>The reference runs on what the checker stands for.\<close>

lemma ref_new_known: "ref_new typeidx = abs_checker (on_types [] [] KBlock (BTypeIdx typeidx) [])"
  by (simp add: in_block_abs abs_in_def ref_new_def)

lemma seg_ok_known: "seg_ok (map MNormal ts @ s) = seg_ok s"
  by (induction ts) auto

lemma ref_op_known:
  assumes "wf_checker (in_block bs outer kind bt s)"
  shows "ref_op ins outs (abs_checker (in_block bs outer kind bt s)) =
    (case checker_op ins outs (in_block bs outer kind bt s) of Inl _ \<Rightarrow> None | Inr c \<Rightarrow> Some (abs_checker c))"
  using op_refines [OF assms, of ins outs] by (auto simp: in_block_def split: sum.splits)

lemma ref_stop_known:
  assumes "wf_checker (in_block bs outer kind bt s)"
  shows "ref_unreachable (abs_checker (in_block bs outer kind bt s)) = abs_checker (in_block bs outer kind bt (MUnreachable False # s))"
proof -
  have "ck_blocks (in_block bs outer kind bt s) \<noteq> []" by (simp add: in_block_def)
  from unreachable_refines [OF assms this] show ?thesis by simp
qed

lemma ref_end_known:
  assumes "wf_checker (in_block bs outer kind bt s)" "bt_types cx bt = Some (ps, rs)" "s = map MNormal (rev rs) \<or> hd s = MUnreachable False \<and> s \<noteq> []"
  shows "ref_end cx (abs_checker (in_block bs outer kind bt s)) =
    (if kind = KIf \<and> ps \<noteq> rs then None else ref_op [] rs (abs_checker \<lparr>ck_types = outer, ck_blocks = bs\<rparr>))"
proof -
  obtain s' where op: "checker_op rs [] (in_block bs outer kind bt s) = Inr (in_block bs outer kind bt s')" "s' = [] \<or> hd s' = MUnreachable False"
    using assms(3)
  proof (elim disjE conjE)
    assume "hd s = MUnreachable False" "s \<noteq> []"
    then obtain s0 where "s = MUnreachable False # s0" by (cases s) auto
    then show thesis using op_known(2) [of rs bs outer kind bt s0] that [of s] by simp
  qed (use op_all [of rs "[]"] that [of "[]"] in simp)
  then have pop: "ref_op rs [] (abs_checker (in_block bs outer kind bt s)) = Some (abs_checker (in_block bs outer kind bt s'))"
    by (simp add: ref_op_known [OF assms(1)])
  have "wf_checker (in_block bs outer kind bt s')" using op_refines [OF assms(1), of rs "[]"] op(1) by (simp add: in_block_def)
  from leave_refines [OF this] have "ref_pop_ctrl (abs_checker (in_block bs outer kind bt s')) = Some (abs_checker \<lparr>ck_types = outer, ck_blocks = bs\<rparr>)"
    using op(2) by (simp add: leave_known)
  moreover have "\<exists>frs. vd_ctrls (abs_checker (in_block bs outer kind bt s)) =
      \<lparr>cf_kind = kind, cf_type = bt, cf_height = length (fst (abs_blocks (rev bs) outer)), cf_unreachable = MUnreachable False \<in> set s\<rparr> # frs"
    by (simp add: in_block_abs abs_in_def)
  ultimately show ?thesis using pop assms(2) by (auto simp: ref_end_def)
qed

lemma ref_body_last:
  assumes "wf_checker (in_block [] [] KBlock (BTypeIdx typeidx) s)" "get_idx (ip_types cx) (unat typeidx) = Some (ip_functype cx)"
    "s = map MNormal (rev (results_of (ip_functype cx))) \<or> hd s = MUnreachable False \<and> s \<noteq> []"
  shows "ref_body cx ls [IEnd] (abs_checker (in_block [] [] KBlock (BTypeIdx typeidx) s)) = Some []"
proof -
  have "bt_types cx (BTypeIdx typeidx) = Some (params_of (ip_functype cx), results_of (ip_functype cx))" using assms(2) by (simp add: bt_types_def)
  from ref_end_known [OF assms(1) this assms(3)] show ?thesis by (simp add: ref_op_def abs_checker_def)
qed

section \<open>Tail calls\<close>

text \<open>C34: A tail call does not compare the results of the callee with those of the function.  In every
  context, for a callee with the parameters \<open>ps\<close> and the results \<open>rs\<close>, a body that pushes the parameters and tail calls it is
  accepted by the parser exactly when the results of the function are the last ones of \<open>rs\<close>, and by the
  specification exactly when they are all of them.\<close>

theorem tail_call_results_unchecked:
  assumes "get_idx (ip_types cx) (unat typeidx) = Some (ip_functype cx)" "callee_type cx f = Inr (CoreFuncType ps rs)"
  shows "(parse_body cx typeidx [ISimple [] ps, IReturnCall f, IEnd] = Inr [] \<longleftrightarrow> (\<exists>extra. rs = extra @ results_of (ip_functype cx))) \<and>
    (ref_body cx ls [ISimple [] ps, IReturnCall f, IEnd] (ref_new typeidx) = Some [] \<longleftrightarrow> rs = results_of (ip_functype cx))"
proof
  let ?fs = "results_of (ip_functype cx)" and ?in = "in_block [] [] KBlock (BTypeIdx typeidx)"
  note run = parse_body_start flat_inst_def on_checker_def op_none op_all inst_return_call_def op_func_type_def assms(2)
  show "parse_body cx typeidx [ISimple [] ps, IReturnCall f, IEnd] = Inr [] \<longleftrightarrow> (\<exists>extra. rs = extra @ ?fs)"
  proof (cases "\<exists>extra. rs = extra @ ?fs")
    case True
    then obtain extra where rs: "rs = extra @ ?fs" by blast
    have "checker_op ?fs [] (?in (map MNormal (rev rs))) = Inr (?in (map MNormal (rev extra)))"
      using op_last(1) [of ?fs "[]" "[]" "[]" KBlock "BTypeIdx typeidx" extra] rs by simp
    then show ?thesis using True by (simp add: run mark_unreachable_def op_known leave_known)
  next
    case False
    from op_last(2) [OF this, of "[]" "[]" "[]" KBlock "BTypeIdx typeidx"] False show ?thesis by (auto simp: run)
  qed
  have callee: "ref_callee cx f = Some (CoreFuncType ps rs)" using assms(2) by (auto simp: callee_type_def ref_callee_def get_idx_def res_simps split: if_splits)
  have wf: "wf_checker (?in (map MNormal (rev ts)))" "wf_checker (?in [])" "wf_checker (?in [MUnreachable False])" for ts
    using seg_ok_known [of _ "[]"] by (simp_all add: in_block_wf)
  show "ref_body cx ls [ISimple [] ps, IReturnCall f, IEnd] (ref_new typeidx) = Some [] \<longleftrightarrow> rs = ?fs"
    using ref_body_last [OF wf(3) assms(1), of ls]
    by (simp add: ref_new_known ref_inst_def ref_op_known [OF wf(1)] ref_op_known [OF wf(2)] op_none op_all callee
        ref_tail_call_def ref_stop_def type_parts ref_stop_known [OF wf(2)] del: ref_body.simps(2))
qed


theorem tail_call_results_unchecked_witness:
  "let cx = ctx_of [CoreFuncType [] [], CoreFuncType [I64] [I32]] [0, 1] (CoreFuncType [] []);
       body = [ISimple [] [I64], IReturnCall 1, IEnd] in
   parse_body cx 0 body = Inr [] \<and> ref_body cx [] body (ref_new 0) \<noteq> Some []"
proof -
  let ?cx = "ctx_of [CoreFuncType [] [], CoreFuncType [I64] [I32]] [0, 1] (CoreFuncType [] [])"
  have types: "get_idx (ip_types ?cx) (unat 0) = Some (ip_functype ?cx)" "callee_type ?cx 1 = Inr (CoreFuncType [I64] [I32])"
    by (simp_all add: ctx_of_def get_idx_def callee_type_def)
  have results: "results_of (ip_functype ?cx) = []" by (simp add: ctx_of_def results_of_def)
  from tail_call_results_unchecked [OF types, where ls = "[]"] show ?thesis
    unfolding results by (simp add: Let_def del: ref_body.simps)
qed

section \<open>Blocks in the body of a function\<close>

text \<open>A block opened on the parameters that it takes, directly in the body.\<close>

abbreviation body_types :: "u32 \<Rightarrow> valtype list \<Rightarrow> checker" where
  "body_types typeidx ts \<equiv> on_types [] [] KBlock (BTypeIdx typeidx) ts"

abbreviation inner :: "u32 \<Rightarrow> block_kind \<Rightarrow> blocktype \<Rightarrow> maybe_unreachable list \<Rightarrow> checker" where
  "inner typeidx kind bt s \<equiv> in_block [(KBlock, BTypeIdx typeidx, 0)] [] kind bt s"

lemma left_body: "\<lparr>ck_types = [], ck_blocks = [(KBlock, BTypeIdx typeidx, 0)]\<rparr> = body_types typeidx []"
  by (simp add: in_block_def)

lemma wf_body: "wf_checker (body_types typeidx ts)" "wf_checker (inner typeidx kind bt (map MNormal ts))"
  "wf_checker (inner typeidx kind bt (MUnreachable False # map MNormal ts))"
  using seg_ok_known [of ts "[]"] by (simp_all add: in_block_wf)

lemma op_first: "checker_op [t] [] (in_block bs outer kind bt (MNormal t # s)) = Inr (in_block bs outer kind bt s)"
  using op_known(1) [of "[t]" "[]" bs outer kind bt s] by simp

lemma open_known:
  assumes "bt_types cx bt = Some (ps, rs)"
  shows "open_block cx kind bt (body_types typeidx (rev ps)) = Inr (inner typeidx kind bt (map MNormal (rev ps)))"
  using assms by (cases bt) (auto simp: open_block_def bt_types_def bt_types_at enter_known op_all op_none)

lemma ref_open_known:
  assumes "bt_types cx bt = Some (ps, rs)"
  shows "ref_open cx kind bt (abs_checker (body_types typeidx (rev ps))) = Some (abs_checker (inner typeidx kind bt (map MNormal (rev ps))))"
proof -
  have push: "ref_push_ctrl kind bt (abs_checker (body_types typeidx [])) = abs_checker (inner typeidx kind bt (map MNormal []))"
    using enter_refines [OF wf_body(1) [of typeidx "[]"], of kind bt] by (simp add: enter_known)
  show ?thesis using assms wf_body(1) [of typeidx "rev ps"] wf_body(2) [of typeidx kind bt "[]"]
    by (simp add: ref_open_def ref_op_known op_all push [simplified] op_none)
qed

lemma sizes_known: "bt_types cx bt = Some (ps, rs) \<Longrightarrow> ps_checker st = in_block bs [] kind b s \<Longrightarrow> ps_unreachable st = us @ [False] \<Longrightarrow> block_sizes cx bt st = Inr ()"
  by (cases bt) (auto simp: block_sizes_def is_unreachable_def block_base_stack_size_def known_blocktype_def bt_types_def get_idx_Some_iff split: list.split)

section \<open>Conditional branches to loops\<close>

definition loop_body :: "u32 \<Rightarrow> valtype list \<Rightarrow> valtype list \<Rightarrow> valtype list \<Rightarrow> valtype list \<Rightarrow> instr list" where
  "loop_body i ps rs qs fs =
     [ISimple [] ps, ILoop (BTypeIdx i), ISimple ps (qs @ [I32]), IBrIf 0, ISimple qs rs, IEnd, ISimple rs fs, IEnd]"

lemma loop_body_accepted:
  assumes "get_idx (ip_types cx) (unat i) = Some (CoreFuncType ps rs)"
  shows "parse_body cx typeidx (loop_body i ps rs qs (results_of (ip_functype cx))) = Inr []"
proof -
  have bt: "bt_types cx (BTypeIdx i) = Some (ps, rs)" using assms by (simp add: bt_types_def params_of_def results_of_def)
  have label: "get_block 0 (in_block bs outer kind bt s) = Inr (kind, bt, length outer)" for bs outer kind bt s
    using in_block_base(1) by (simp add: current_block_def)
  have close: "close_block cx (BTypeIdx i) (inner typeidx KLoop (BTypeIdx i) (map MNormal (rev rs))) = Inr (body_types typeidx (rev rs))"
    using bt by (simp add: close_block_def bt_types_at op_all leave_known left_body op_none)
  show ?thesis
    by (simp add: loop_body_def parse_body_start flat_inst_def on_checker_def op_none op_all next_control_nesting_depth_def MAX_CONTROL_NESTING_DEPTH_def
        loop_begin_def open_known [OF bt] sizes_known [OF bt] gen_enter_block_def inst_br_if_def op_first label is_unreachable_def block_end_def
        gen_leave_block_def close leave_known Let_def)
qed


lemma ref_end_body:
  assumes "bt_types cx bt = Some (ps, rs)" "wf_checker (inner typeidx kind bt s)" "s = map MNormal (rev rs) \<or> hd s = MUnreachable False \<and> s \<noteq> []"
  shows "ref_body cx ls (IEnd # insts) (abs_checker (inner typeidx kind bt s)) =
    (if kind = KIf \<and> ps \<noteq> rs then None else ref_body cx ls insts (abs_checker (body_types typeidx (rev rs))))"
proof -
  have "ref_op [] rs (abs_checker (body_types typeidx [])) = Some (abs_checker (body_types typeidx (rev rs)))"
    using wf_body(1) [of typeidx "[]"] by (simp add: ref_op_known op_none)
  moreover have "vd_ctrls (abs_checker (body_types typeidx (rev rs))) \<noteq> []" by (simp add: in_block_abs abs_in_def)
  ultimately show ?thesis using ref_end_known [OF assms(2,1,3)] by (simp add: left_body)
qed

lemma ref_simple_body:
  "ref_body cx ls [ISimple rs (results_of (ip_functype cx)), IEnd] (abs_checker (body_types typeidx (rev rs))) = Some []"
  if "get_idx (ip_types cx) (unat typeidx) = Some (ip_functype cx)"
  using ref_body_last [OF wf_body(1) that disjI1 [OF refl]] wf_body(1) [of typeidx "rev rs"]
  by (simp add: ref_inst_def ref_op_known op_all del: ref_body.simps(2))

text \<open>C33: A conditional branch to a loop does not look for the parameters of the loop.  In every context, for
  a loop with the parameters \<open>ps\<close> and the results \<open>rs\<close> that replaces its parameters by values of the types \<open>qs\<close>, branches
  back on a condition and then replaces these values by its results, the parser accepts the body
  whatever \<open>qs\<close> is, and the specification exactly when \<open>ps\<close> are the last ones of \<open>qs\<close>.\<close>

theorem loop_parameters_unchecked:
  assumes "get_idx (ip_types cx) (unat typeidx) = Some (ip_functype cx)" "get_idx (ip_types cx) (unat i) = Some (CoreFuncType ps rs)"
  shows "parse_body cx typeidx (loop_body i ps rs qs (results_of (ip_functype cx))) = Inr [] \<and>
    (ref_body cx ls (loop_body i ps rs qs (results_of (ip_functype cx))) (ref_new typeidx) = Some [] \<longleftrightarrow> (\<exists>rest. qs = rest @ ps))"
proof
  show "parse_body cx typeidx (loop_body i ps rs qs (results_of (ip_functype cx))) = Inr []" by (rule loop_body_accepted [OF assms(2)])
  have bt: "bt_types cx (BTypeIdx i) = Some (ps, rs)" using assms(2) by (simp add: bt_types_def params_of_def results_of_def)
  let ?in = "\<lambda>ts. inner typeidx KLoop (BTypeIdx i) (map MNormal (rev ts))"
  have op: "ref_op ins outs (abs_checker (?in ts)) = (case checker_op ins outs (?in ts) of Inl _ \<Rightarrow> None | Inr c \<Rightarrow> Some (abs_checker c))" for ins outs ts
    by (rule ref_op_known [OF wf_body(2)])
  have label: "ref_label cx 0 (abs_checker (?in ts)) = Some ps" for ts
    using bt by (simp add: ref_label_def in_block_abs abs_in_def get_idx_def)
  have branch: "Option.bind (ref_op [I32] [] (abs_checker (?in (qs @ [I32])))) (\<lambda>v. Option.bind (ref_label cx 0 v) (\<lambda>ts. ref_op ts ts v)) =
      (if \<exists>rest. qs = rest @ ps then Some (abs_checker (?in qs)) else None)"
  proof -
    have cond: "ref_op [I32] [] (abs_checker (?in (qs @ [I32]))) = Some (abs_checker (?in qs))"
      using op [of "[I32]" "[]" "qs @ [I32]"] by (simp add: op_first)
    have "ref_op ps ps (abs_checker (?in qs)) = (if \<exists>rest. qs = rest @ ps then Some (abs_checker (?in qs)) else None)"
    proof (cases "\<exists>rest. qs = rest @ ps")
      case True
      then obtain before where "qs = before @ ps" by blast
      then show ?thesis using op [of ps ps qs]
          op_last(1) [where ins = ps and outs = ps and rest = before and outer = "[]" and kind = KLoop and bt = "BTypeIdx i"] by simp
    next
      case False
      then show ?thesis using op [of ps ps qs]
          op_last(2) [OF False, where outs = ps and bs = "[(KBlock, BTypeIdx typeidx, 0)]" and outer = "[]" and kind = KLoop and bt = "BTypeIdx i"] by auto
    qed
    then show ?thesis by (simp only: cond label bind.bind_lunit)
  qed
  have start: "ref_op [] ps (ref_new typeidx) = Some (abs_checker (body_types typeidx (rev ps)))"
    using ref_op_known [OF wf_body(1) [of typeidx "[]"], of "[]" ps] by (simp add: ref_new_known op_none)
  have first: "ref_op ps (qs @ [I32]) (abs_checker (?in ps)) = Some (abs_checker (?in (qs @ [I32])))" and
    second: "ref_op qs rs (abs_checker (?in qs)) = Some (abs_checker (?in rs))"
    using op [of ps "qs @ [I32]" ps] op [of qs rs qs]
      op_all [of ps "qs @ [I32]"] op_all [of qs rs] by simp_all
  have rest: "ref_body cx ls [ISimple qs rs, IEnd, ISimple rs (results_of (ip_functype cx)), IEnd] (abs_checker (?in qs)) = Some []"
  proof -
    have "ref_body cx ls [ISimple qs rs, IEnd, ISimple rs (results_of (ip_functype cx)), IEnd] (abs_checker (?in qs)) =
        ref_body cx ls [IEnd, ISimple rs (results_of (ip_functype cx)), IEnd] (abs_checker (?in rs))"
      by (simp only: ref_body_steps second bind.bind_lunit)
    also have "\<dots> = Some []"
      unfolding ref_end_body [OF bt wf_body(2) disjI1 [OF refl]] ref_simple_body [OF assms(1)] by simp
    finally show ?thesis .
  qed
  have "ref_body cx ls (loop_body i ps rs qs (results_of (ip_functype cx))) (ref_new typeidx) =
      Option.bind (if \<exists>rest. qs = rest @ ps then Some (abs_checker (?in qs)) else None)
        (ref_body cx ls [ISimple qs rs, IEnd, ISimple rs (results_of (ip_functype cx)), IEnd])"
    unfolding loop_body_def
    by (simp only: ref_body_steps start first ref_open_known [OF bt] branch bind.bind_lunit)
  then show "ref_body cx ls (loop_body i ps rs qs (results_of (ip_functype cx))) (ref_new typeidx) = Some [] \<longleftrightarrow> (\<exists>rest. qs = rest @ ps)"
    using rest by simp
qed


theorem loop_parameters_unchecked_witness:
  "let cx = ctx_of [CoreFuncType [] [], CoreFuncType [I32] []] [] (CoreFuncType [] []);
       body = [ISimple [] [I32], ILoop (BTypeIdx 1), ISimple [I32] [I32], IBrIf 0, ISimple [] [], IEnd, ISimple [] [], IEnd] in
   parse_body cx 0 body = Inr [] \<and> ref_body cx [] body (ref_new 0) \<noteq> Some []"
proof -
  let ?cx = "ctx_of [CoreFuncType [] [], CoreFuncType [I32] []] [] (CoreFuncType [] [])"
  have types: "get_idx (ip_types ?cx) (unat 0) = Some (ip_functype ?cx)" "get_idx (ip_types ?cx) (unat 1) = Some (CoreFuncType [I32] [])"
    by (simp_all add: ctx_of_def get_idx_def)
  have results: "results_of (ip_functype ?cx) = []" by (simp add: ctx_of_def results_of_def)
  from loop_parameters_unchecked [OF types, where qs = "[]" and ls = "[]"] show ?thesis
    unfolding results by (simp add: loop_body_def Let_def del: ref_body.simps)
qed

section \<open>Conditionals without \<open>else\<close>\<close>

definition if_body :: "blocktype \<Rightarrow> valtype list \<Rightarrow> valtype list \<Rightarrow> valtype list \<Rightarrow> valtype list \<Rightarrow> instr list" where
  "if_body bt ps rs qs fs = [ISimple [] (ps @ [I32]), IIf bt, ISimple ps qs, IUnreachable, IEnd, ISimple rs fs, IEnd]"

lemma reset_known: "reset_stack (in_block bs outer kind bt s) = Inr (in_block bs outer kind bt [])"
  by (simp add: reset_stack_def) (simp add: in_block_def)

lemma close_if_dead:
  assumes "bt_types cx bt = Some (ps, rs)"
  shows "close_if cx bt True False (inner typeidx KIf bt s) = Inr (body_types typeidx (rev rs))"
  using assms
  by (cases bt) (auto simp: close_if_def bt_types_def bt_types_at branch_results_def reset_known leave_known left_body enter_known op_none)

text \<open>C32: The missing branch of an \<open>if\<close> without \<open>else\<close> is not checked when the branch that is there ends in unreachable
  code.  In every context and for every block type, with the parameters \<open>ps\<close> and the results \<open>rs\<close>, take the body that
  pushes \<open>ps\<close> and a condition, enters an \<open>if\<close> whose branch is a simple instruction from \<open>ps\<close> to \<open>qs\<close> followed by
  \<open>unreachable\<close>, and turns \<open>rs\<close> into the results of the function.  The parser accepts it
  whatever \<open>qs\<close> is; the specification accepts it exactly when
  \<open>ps\<close> and \<open>rs\<close> are the same, since otherwise the results are missing when the condition is false.\<close>

theorem if_without_else_accepted:
  assumes "get_idx (ip_types cx) (unat typeidx) = Some (ip_functype cx)" "bt_types cx bt = Some (ps, rs)"
  shows "parse_body cx typeidx (if_body bt ps rs qs (results_of (ip_functype cx))) = Inr [] \<and>
    (ref_body cx ls (if_body bt ps rs qs (results_of (ip_functype cx))) (ref_new typeidx) = Some [] \<longleftrightarrow> ps = rs)"
proof
  show "parse_body cx typeidx (if_body bt ps rs qs (results_of (ip_functype cx))) = Inr []"
    by (simp add: if_body_def parse_body_start flat_inst_def on_checker_def op_none op_all op_first next_control_nesting_depth_def
        MAX_CONTROL_NESTING_DEPTH_def if_begin_def open_known [OF assms(2)] gen_enter_block_def inst_unreachable_def set_unreachable_def
        if_end_def is_unreachable_def close_if_dead [OF assms(2)] gen_leave_block_def leave_known Let_def)
  let ?in = "\<lambda>ts. inner typeidx KIf bt (map MNormal (rev ts))"
  have start: "ref_op [] (ps @ [I32]) (ref_new typeidx) = Some (abs_checker (body_types typeidx (rev (ps @ [I32]))))"
    using ref_op_known [OF wf_body(1) [of typeidx "[]"], of "[]" "ps @ [I32]"] by (simp add: ref_new_known op_none)
  have cond: "ref_op [I32] [] (abs_checker (body_types typeidx (rev (ps @ [I32])))) = Some (abs_checker (body_types typeidx (rev ps)))"
    using ref_op_known [OF wf_body(1) [of typeidx "rev (ps @ [I32])"], of "[I32]" "[]"] by (simp add: op_first)
  have branch: "ref_op ps qs (abs_checker (?in ps)) = Some (abs_checker (?in qs))"
    using ref_op_known [OF wf_body(2) [of typeidx KIf bt "rev ps"], of ps qs] by (simp add: op_all)
  have stop: "ref_unreachable (abs_checker (?in qs)) = abs_checker (inner typeidx KIf bt (MUnreachable False # map MNormal (rev qs)))"
    by (rule ref_stop_known [OF wf_body(2)])
  have "ref_body cx ls (if_body bt ps rs qs (results_of (ip_functype cx))) (ref_new typeidx) =
      (if ps \<noteq> rs then None else ref_body cx ls [ISimple rs (results_of (ip_functype cx)), IEnd] (abs_checker (body_types typeidx (rev rs))))"
    unfolding if_body_def ref_body_steps start bind.bind_lunit cond ref_open_known [OF assms(2)] branch stop
    by (subst ref_end_body [OF assms(2) wf_body(3)]) (simp_all add: ref_inst_def)
  then show "ref_body cx ls (if_body bt ps rs qs (results_of (ip_functype cx))) (ref_new typeidx) = Some [] \<longleftrightarrow> ps = rs"
    by (simp only: ref_simple_body [OF assms(1)]) simp
qed


theorem if_without_else_accepted_witness:
  "let cx = ctx_of [CoreFuncType [] [I32]] [] (CoreFuncType [] [I32]);
       body = [ISimple [] [I32], IIf (BValType I32), ISimple [] [F64], IUnreachable, IEnd, ISimple [I32] [I32], IEnd] in
   parse_body cx 0 body = Inr [] \<and> ref_body cx [] body (ref_new 0) \<noteq> Some []"
proof -
  let ?cx = "ctx_of [CoreFuncType [] [I32]] [] (CoreFuncType [] [I32])"
  have types: "get_idx (ip_types ?cx) (unat 0) = Some (ip_functype ?cx)" "bt_types ?cx (BValType I32) = Some ([], [I32])"
    by (simp_all add: ctx_of_def get_idx_def bt_types_def)
  have results: "results_of (ip_functype ?cx) = [I32]" by (simp add: ctx_of_def results_of_def)
  from if_without_else_accepted [OF types, where qs = "[F64]" and ls = "[]"] show ?thesis
    unfolding results by (simp add: if_body_def Let_def del: ref_body.simps)
qed

section \<open>Two more departures\<close>

text \<open>An \<open>if\<close> may have two \<open>else\<close> branches; and a valid body with a block after a tail call is
  rejected, because the tail call does not set the reachability flag.\<close>

lemma second_else_accepted:
  "let cx = ctx_of [CoreFuncType [] []] [] (CoreFuncType [] []);
       body = [ISimple [] [I32], IIf BVoid, IElse, IElse, IEnd, IEnd] in
   parse_body cx 0 body = Inr [] \<and> ref_body cx [] body (ref_new 0) = None"
  by code_simp

lemma block_after_tail_call_rejected:
  "let cx = ctx_of [CoreFuncType [] []] [0] (CoreFuncType [] []);
       body = [IReturnCall 0, IBlock BVoid, IEnd, IEnd] in
   parse_body cx 0 body = Inl InvalidStackValTypeAny \<and> ref_body cx [] body (ref_new 0) = Some []"
  by code_simp

end
