(* ===== verification/Operand_Stack.thy ===== *)
theory Operand_Stack
  imports Locals_Layout
begin

text \<open>
  The stack of the interpreter, \<open>telomere/src/common/stack.rs\<close>: one byte array that holds the
  frames of the active functions, each with its parameters and locals, a packed record for the
  return and the operands.  Operands carry no types at run time.  The operations are translated
  with the conditions under which they fail; where the source would read or write outside the
  array, subtract below zero or panic, the result is \<open>VUndefined\<close>.  The theory shows what the
  operations do to a stack that holds a list of values, and that a call and a return restore the
  frame of the caller.
\<close>

section \<open>The stack\<close>

datatype vm_stop =
    VStackOverflow | VInvalidOperand | VMemoryIndexOutOfRange | VFuelExhausted | VCancelled | VYielded | VUnreachable | VUndefined

record stack =
  sk_memory :: "byte list"
  sk_top :: nat

definition usize_add :: "nat \<Rightarrow> nat \<Rightarrow> nat option" where
  "usize_add a b = (if a + b < 2 ^ 64 then Some (a + b) else None)"

definition stack_new :: "nat \<Rightarrow> stack" where
  "stack_new n = \<lparr>sk_memory = replicate n 0, sk_top = 0\<rparr>"

definition read_at :: "nat \<Rightarrow> nat \<Rightarrow> stack \<Rightarrow> vm_stop + byte list" where
  "read_at p n st = (if p + n \<le> length (sk_memory st) then Inr (slice p n (sk_memory st)) else Inl VUndefined)"

definition write_at :: "nat \<Rightarrow> byte list \<Rightarrow> stack \<Rightarrow> vm_stop + stack" where
  "write_at p bs st =
     (if p + length bs \<le> length (sk_memory st) then Inr (st\<lparr>sk_memory := splice_at p bs (sk_memory st)\<rparr>) else Inl VUndefined)"

definition add_top :: "nat \<Rightarrow> stack \<Rightarrow> vm_stop + stack" where
  "add_top n st = rbind (ok_or VStackOverflow (usize_add (sk_top st) n)) (\<lambda>t. Inr (st\<lparr>sk_top := t\<rparr>))"

definition sub_top :: "nat \<Rightarrow> stack \<Rightarrow> vm_stop + stack" where
  "sub_top n st = (if n \<le> sk_top st then Inr (st\<lparr>sk_top := sk_top st - n\<rparr>) else Inl VUndefined)"

text \<open>The start of the range of \<open>n\<close> bytes above the top.\<close>

definition get_memory :: "nat \<Rightarrow> stack \<Rightarrow> vm_stop + nat" where
  "get_memory n st =
     rbind (ok_or VStackOverflow (usize_add (sk_top st) n)) (\<lambda>last.
       if last \<le> length (sk_memory st) then Inr (sk_top st) else Inl VStackOverflow)"

definition push_slice :: "byte list \<Rightarrow> stack \<Rightarrow> vm_stop + stack" where
  "push_slice v st =
     rbind (get_memory (length v) st) (\<lambda>p.
     rbind (write_at p v st) (add_top (length v)))"

definition push_fast :: "byte list \<Rightarrow> stack \<Rightarrow> vm_stop + stack" where
  "push_fast v st =
     rbind (ok_or VStackOverflow (usize_add (sk_top st) (length v))) (\<lambda>new_top.
       if new_top > length (sk_memory st) then Inl VStackOverflow
       else rbind (write_at (sk_top st) v st) (\<lambda>st. Inr (st\<lparr>sk_top := new_top\<rparr>)))"

definition pop_bytes :: "nat \<Rightarrow> stack \<Rightarrow> vm_stop + byte list \<times> stack" where
  "pop_bytes n st = rbind (sub_top n st) (\<lambda>st. rbind (read_at (sk_top st) n st) (\<lambda>bs. Inr (bs, st)))"

definition push_u32 :: "u32 \<Rightarrow> stack \<Rightarrow> vm_stop + stack" where
  "push_u32 v = push_slice (to_le 4 v)"

definition push_u64 :: "u64 \<Rightarrow> stack \<Rightarrow> vm_stop + stack" where
  "push_u64 v = push_slice (to_le 8 v)"

definition push_u32_fast :: "u32 \<Rightarrow> stack \<Rightarrow> vm_stop + stack" where
  "push_u32_fast v = push_fast (to_le 4 v)"

definition push_u64_fast :: "u64 \<Rightarrow> stack \<Rightarrow> vm_stop + stack" where
  "push_u64_fast v = push_fast (to_le 8 v)"

definition pop_u32 :: "stack \<Rightarrow> vm_stop + u32 \<times> stack" where
  "pop_u32 st = rbind (pop_bytes 4 st) (\<lambda>(bs, st). Inr (from_le bs, st))"

definition pop_u64 :: "stack \<Rightarrow> vm_stop + u64 \<times> stack" where
  "pop_u64 st = rbind (pop_bytes 8 st) (\<lambda>(bs, st). Inr (from_le bs, st))"

definition pop_u128 :: "stack \<Rightarrow> vm_stop + 128 word \<times> stack" where
  "pop_u128 st = rbind (pop_bytes 16 st) (\<lambda>(bs, st). Inr (from_le bs, st))"

definition stack_drop :: "nat \<Rightarrow> stack \<Rightarrow> vm_stop + stack" where
  "stack_drop n st = rbind (pop_bytes n st) (\<lambda>(_, st). Inr st)"

text \<open>The in-place addition and subtraction of the two topmost i32 operands.\<close>

definition reduce_top :: "(u32 \<Rightarrow> u32 \<Rightarrow> u32) \<Rightarrow> stack \<Rightarrow> vm_stop + stack" where
  "reduce_top f st =
     rbind (sub_top 4 st) (\<lambda>at_rhs.
     rbind (sub_top 8 st) (\<lambda>at_lhs.
     rbind (read_at (sk_top at_lhs) 4 st) (\<lambda>lhs.
     rbind (read_at (sk_top at_rhs) 4 st) (\<lambda>rhs.
     rbind (write_at (sk_top at_lhs) (to_le 4 (f (from_le lhs) (from_le rhs))) st) (\<lambda>st.
       sub_top 4 st)))))"

definition reduce_top_i32_add :: "stack \<Rightarrow> vm_stop + stack" where
  "reduce_top_i32_add = reduce_top (+)"

definition reduce_top_i32_sub :: "stack \<Rightarrow> vm_stop + stack" where
  "reduce_top_i32_sub = reduce_top (-)"

section \<open>Locals\<close>

text \<open>Locals are addressed by bytes from the start of the frame.\<close>

definition local_u32_from_base :: "nat \<Rightarrow> nat \<Rightarrow> stack \<Rightarrow> vm_stop + u32" where
  "local_u32_from_base local_base local_addr st = rbind (read_at (local_base + local_addr) 4 st) (\<lambda>bs. Inr (from_le bs))"

definition local_get_from_base :: "nat \<Rightarrow> nat \<Rightarrow> nat \<Rightarrow> stack \<Rightarrow> vm_stop + stack" where
  "local_get_from_base n local_base local_addr st =
     rbind (ok_or VStackOverflow (usize_add (sk_top st) n)) (\<lambda>new_top.
       if new_top > length (sk_memory st) then Inl VStackOverflow
       else rbind (read_at (local_base + local_addr) n st) (\<lambda>bs.
         rbind (write_at (sk_top st) bs st) (\<lambda>st. Inr (st\<lparr>sk_top := new_top\<rparr>))))"

definition local_set_from_base :: "nat \<Rightarrow> nat \<Rightarrow> nat \<Rightarrow> stack \<Rightarrow> vm_stop + stack" where
  "local_set_from_base n local_base local_addr st =
     rbind (pop_bytes n st) (\<lambda>(bs, st). write_at (local_base + local_addr) bs st)"

definition local_tee_from_base :: "nat \<Rightarrow> nat \<Rightarrow> nat \<Rightarrow> stack \<Rightarrow> vm_stop + stack" where
  "local_tee_from_base n local_base local_addr st =
     rbind (sub_top n st) (\<lambda>below.
     rbind (read_at (sk_top below) n st) (\<lambda>bs. write_at (local_base + local_addr) bs st))"

section \<open>Frames\<close>

datatype cached_memory_kind = MemNone | MemLocal | MemShared

record call_stack_info =
  ci_return_pc :: u64
  ci_prev_top :: u64
  ci_prev_size :: u32
  ci_code_addr :: u32
  ci_code_base :: u64
  ci_instance :: u32
  ci_memory0_kind :: cached_memory_kind
  ci_memory0_raw :: u32

record local_reference =
  lr_top :: nat
  lr_size :: u32

definition kind_byte :: "cached_memory_kind \<Rightarrow> byte" where
  "kind_byte k = (case k of MemNone \<Rightarrow> 0 | MemLocal \<Rightarrow> 1 | MemShared \<Rightarrow> 2)"

text \<open>The packed layout of the record on a 64-bit target.\<close>

definition CALL_STACK_INFO_SIZE :: nat where
  "CALL_STACK_INFO_SIZE = 41"

definition info_bytes :: "call_stack_info \<Rightarrow> byte list" where
  "info_bytes i =
     to_le 8 (ci_return_pc i) @ to_le 8 (ci_prev_top i) @ to_le 4 (ci_prev_size i) @ to_le 4 (ci_code_addr i) @
     to_le 8 (ci_code_base i) @ to_le 4 (ci_instance i) @ [kind_byte (ci_memory0_kind i)] @ to_le 4 (ci_memory0_raw i)"

definition read_info :: "byte list \<Rightarrow> call_stack_info" where
  "read_info bs =
     \<lparr>ci_return_pc = from_le (slice 0 8 bs), ci_prev_top = from_le (slice 8 8 bs), ci_prev_size = from_le (slice 16 4 bs),
      ci_code_addr = from_le (slice 20 4 bs), ci_code_base = from_le (slice 24 8 bs), ci_instance = from_le (slice 32 4 bs),
      ci_memory0_kind = (if bs ! 36 = 0 then MemNone else if bs ! 36 = 1 then MemLocal else MemShared),
      ci_memory0_raw = from_le (slice 37 4 bs)\<rparr>"

definition call_stack_info_at :: "local_reference \<Rightarrow> stack \<Rightarrow> vm_stop + call_stack_info" where
  "call_stack_info_at reference st =
     (let frame_end = lr_top reference + unat (lr_size reference) in
      if frame_end < CALL_STACK_INFO_SIZE then Inl VUndefined
      else rbind (read_at (frame_end - CALL_STACK_INFO_SIZE) CALL_STACK_INFO_SIZE st) (\<lambda>bs. Inr (read_info bs)))"

definition frame_end_from_local_top :: "nat \<Rightarrow> nat \<Rightarrow> nat \<Rightarrow> stack \<Rightarrow> vm_stop + nat" where
  "frame_end_from_local_top local_top param_size local_size st =
     rbind (ok_or VStackOverflow (Option.bind (usize_add local_top param_size) (\<lambda>v. usize_add v local_size))) (\<lambda>info_top.
     rbind (ok_or VStackOverflow (usize_add info_top CALL_STACK_INFO_SIZE)) (\<lambda>new_top.
       if new_top > length (sk_memory st) then Inl VStackOverflow else Inr new_top))"

definition zero_new_locals :: "nat \<Rightarrow> nat \<Rightarrow> stack \<Rightarrow> vm_stop + stack" where
  "zero_new_locals start nbytes st =
     (if nbytes = 0 then Inr st
      else rbind (ok_or VStackOverflow (usize_add start nbytes)) (\<lambda>last.
        if last \<le> length (sk_memory st) then write_at start (replicate nbytes 0) st else Inl VStackOverflow))"

definition copy_top_bytes_to :: "nat \<Rightarrow> nat \<Rightarrow> stack \<Rightarrow> vm_stop + stack" where
  "copy_top_bytes_to dst n st =
     (if sk_top st < n then Inl VStackOverflow
      else let src = sk_top st - n in
        if n = 0 \<or> src = dst then Inr st
        else rbind (read_at src n st) (\<lambda>bs. write_at dst bs st))"

definition function_call_cached ::
  "nat \<Rightarrow> nat \<Rightarrow> call_stack_info \<Rightarrow> local_reference \<Rightarrow> u64 \<Rightarrow> stack \<Rightarrow> vm_stop + local_reference \<times> stack" where
  "function_call_cached param_size local_size frame prev return_pc st =
     (if sk_top st < param_size then Inl VStackOverflow
      else let local_top = sk_top st - param_size in
        rbind (frame_end_from_local_top local_top param_size local_size st) (\<lambda>new_top.
        rbind (zero_new_locals (local_top + param_size) local_size st) (\<lambda>st.
        rbind (write_at (local_top + param_size + local_size)
            (info_bytes (frame\<lparr>ci_return_pc := return_pc, ci_prev_top := of_nat (lr_top prev), ci_prev_size := lr_size prev\<rparr>)) st) (\<lambda>st.
          Inr (\<lparr>lr_top = local_top, lr_size = of_nat (new_top - local_top)\<rparr>, st\<lparr>sk_top := new_top\<rparr>)))))"

text \<open>A failing copy is an \<open>unreachable!\<close> of the source.\<close>

definition must_copy :: "vm_stop + stack \<Rightarrow> vm_stop + stack" where
  "must_copy r = (case r of Inl _ \<Rightarrow> Inl VUndefined | Inr st \<Rightarrow> Inr st)"

definition function_return :: "local_reference \<Rightarrow> nat \<Rightarrow> stack \<Rightarrow> vm_stop + local_reference \<times> u64 \<times> stack" where
  "function_return reference return_size st =
     rbind (call_stack_info_at reference st) (\<lambda>info.
     rbind (must_copy (copy_top_bytes_to (lr_top reference) return_size st)) (\<lambda>st.
       Inr (\<lparr>lr_top = unat (ci_prev_top info), lr_size = ci_prev_size info\<rparr>, ci_return_pc info,
            st\<lparr>sk_top := lr_top reference + return_size\<rparr>)))"

definition function_return_call_cached ::
  "local_reference \<Rightarrow> nat \<Rightarrow> nat \<Rightarrow> call_stack_info \<Rightarrow> stack \<Rightarrow> vm_stop + local_reference \<times> stack" where
  "function_return_call_cached reference param_size local_size frame st =
     rbind (call_stack_info_at reference st) (\<lambda>info.
     rbind (copy_top_bytes_to (lr_top reference) param_size st) (\<lambda>st.
     rbind (frame_end_from_local_top (lr_top reference) param_size local_size st) (\<lambda>new_top.
     rbind (zero_new_locals (lr_top reference + param_size) local_size st) (\<lambda>st.
     rbind (write_at (lr_top reference + param_size + local_size)
         (info_bytes (frame\<lparr>ci_return_pc := ci_return_pc info, ci_prev_top := ci_prev_top info, ci_prev_size := ci_prev_size info\<rparr>)) st) (\<lambda>st.
       Inr (\<lparr>lr_top = lr_top reference, lr_size = of_nat (new_top - lr_top reference)\<rparr>, st\<lparr>sk_top := new_top\<rparr>))))))"

definition block_return :: "local_reference \<Rightarrow> nat \<Rightarrow> nat \<Rightarrow> stack \<Rightarrow> vm_stop + stack" where
  "block_return reference stack_top return_size st =
     (let dst = lr_top reference + unat (lr_size reference) + stack_top in
      rbind (must_copy (copy_top_bytes_to dst return_size st)) (\<lambda>st. Inr (st\<lparr>sk_top := dst + return_size\<rparr>)))"

section \<open>Values on the stack\<close>

definition value_type :: "wasm_value \<Rightarrow> valtype" where
  "value_type v =
     (case v of WI32 _ \<Rightarrow> I32 | WI64 _ \<Rightarrow> I64 | WF32 _ \<Rightarrow> F32 | WF64 _ \<Rightarrow> F64 | WV128 _ \<Rightarrow> V128 | WFuncRef _ \<Rightarrow> FuncRef
      | WExternRef _ \<Rightarrow> ExternRef)"

definition value_bytes :: "wasm_value \<Rightarrow> byte list" where
  "value_bytes v =
     (case v of WI32 w \<Rightarrow> to_le 4 w | WI64 w \<Rightarrow> to_le 8 w | WF32 w \<Rightarrow> to_le 4 w | WF64 w \<Rightarrow> to_le 8 w | WV128 w \<Rightarrow> to_le 16 w
      | WFuncRef w \<Rightarrow> to_le 4 w | WExternRef w \<Rightarrow> to_le 4 w)"

definition operand_bytes :: "wasm_value list \<Rightarrow> byte list" where
  "operand_bytes vs = concat (map value_bytes vs)"

lemma length_value_bytes [simp]: "length (value_bytes v) = sizeof (value_type v)"
  by (cases v) (simp_all add: value_bytes_def value_type_def)

lemma operand_bytes_simps [simp]:
  "operand_bytes [] = []"
  "operand_bytes (v # vs) = value_bytes v @ operand_bytes vs"
  "operand_bytes (vs @ ws) = operand_bytes vs @ operand_bytes ws"
  by (simp_all add: operand_bytes_def)

text \<open>A stack whose used part consists of some bytes and a list of values above them.\<close>

definition stack_with :: "byte list \<Rightarrow> byte list \<Rightarrow> stack" where
  "stack_with used rest = \<lparr>sk_memory = used @ rest, sk_top = length used\<rparr>"

definition holds :: "byte list \<Rightarrow> wasm_value list \<Rightarrow> stack \<Rightarrow> bool" where
  "holds below vs st \<longleftrightarrow>
     length (sk_memory st) < 2 ^ 64 \<and> sk_top st \<le> length (sk_memory st) \<and>
     take (sk_top st) (sk_memory st) = below @ operand_bytes vs"

lemma stack_with_simps [simp]: "sk_memory (stack_with used rest) = used @ rest" "sk_top (stack_with used rest) = length used"
  by (simp_all add: stack_with_def)

lemma holds_iff:
  "holds below vs st \<longleftrightarrow> (\<exists>rest. st = stack_with (below @ operand_bytes vs) rest \<and> length (below @ operand_bytes vs @ rest) < 2 ^ 64)"
  (is "_ \<longleftrightarrow> ?R")
proof
  assume h: "holds below vs st"
  then have "length (below @ operand_bytes vs) = sk_top st" by (metis holds_def length_take min.absorb2)
  moreover have "sk_memory st = (below @ operand_bytes vs) @ drop (sk_top st) (sk_memory st)"
    using h by (metis append_take_drop_id holds_def)
  ultimately have "st = stack_with (below @ operand_bytes vs) (drop (sk_top st) (sk_memory st))" by (simp add: stack_with_def)
  with h show ?R by (metis append.assoc holds_def stack_with_simps(1))
qed (auto simp: holds_def)

lemma slice_append [simp]:
  "slice (length xs) (length ys) (xs @ ys @ zs) = ys"
  "slice (length xs) (length ys) (xs @ ys) = ys"
  by (simp_all add: slice_def)

lemma read_at_stack: "p = length xs \<Longrightarrow> n = length ys \<Longrightarrow> sk_memory st = xs @ ys @ zs \<Longrightarrow> read_at p n st = Inr ys"
  by (simp add: read_at_def)

lemma write_at_stack:
  "p = length xs \<Longrightarrow> length ys = length bs \<Longrightarrow> sk_memory st = xs @ ys @ zs \<Longrightarrow> write_at p bs st = Inr (st\<lparr>sk_memory := xs @ bs @ zs\<rparr>)"
  by (simp add: write_at_def splice_at_def)

lemma pop_stack: "length bs = n \<Longrightarrow> pop_bytes n (stack_with (used @ bs) rest) = Inr (bs, stack_with used (bs @ rest))"
  by (auto simp: pop_bytes_def sub_top_def read_at_def stack_with_def)

lemma push_stack:
  assumes "length (used @ rest) < 2 ^ 64"
  shows "push_slice bs (stack_with used rest) =
    (if length bs \<le> length rest then Inr (stack_with (used @ bs) (drop (length bs) rest)) else Inl VStackOverflow)"
proof (cases "length bs \<le> length rest")
  case True
  obtain r1 r2 where r: "rest = r1 @ r2" "length r1 = length bs"
    using True by (metis append_take_drop_id length_take min.absorb2)
  with assms have "length used + length bs < 2 ^ 64" by simp
  with r assms show ?thesis
    by (simp add: push_slice_def get_memory_def usize_add_def add_top_def write_at_def splice_at_def stack_with_def)
next
  case False
  then show ?thesis by (auto simp: push_slice_def get_memory_def usize_add_def)
qed

lemma push_fast_stack:
  assumes "length (used @ rest) < 2 ^ 64"
  shows "push_fast bs (stack_with used rest) =
    (if length bs \<le> length rest then Inr (stack_with (used @ bs) (drop (length bs) rest)) else Inl VStackOverflow)"
proof (cases "length bs \<le> length rest")
  case True
  obtain r1 r2 where r: "rest = r1 @ r2" "length r1 = length bs"
    using True by (metis append_take_drop_id length_take min.absorb2)
  with assms have "length used + length bs < 2 ^ 64" by simp
  with r assms show ?thesis
    by (simp add: push_fast_def usize_add_def write_at_def splice_at_def stack_with_def)
next
  case False
  then show ?thesis by (auto simp: push_fast_def usize_add_def)
qed


section \<open>Calls and returns\<close>

lemma length_info_bytes [simp]: "length (info_bytes i) = CALL_STACK_INFO_SIZE"
  by (simp add: info_bytes_def CALL_STACK_INFO_SIZE_def)

lemma slice_parts:
  "length xs = p \<Longrightarrow> length ys = n \<Longrightarrow> slice p n (xs @ ys @ zs) = ys"
  "length xs \<le> p \<Longrightarrow> slice p n (xs @ zs) = slice (p - length xs) n zs"
  "length ys = n \<Longrightarrow> slice 0 n (ys @ zs) = ys"
  "length ys = n \<Longrightarrow> slice 0 n ys = ys"
  by (simp_all add: slice_def)

lemma info_round_trip: "read_info (info_bytes i) = i"
proof -
  have "info_bytes i ! 36 = kind_byte (ci_memory0_kind i)"
    by (simp add: info_bytes_def nth_append)
  then have kind: "ci_memory0_kind (read_info (info_bytes i)) = ci_memory0_kind i"
    by (cases "ci_memory0_kind i") (simp_all add: kind_byte_def read_info_def)
  have raw: "slice (Suc 0) n (b # bs) = slice 0 n bs" for n and b :: byte and bs by (simp add: slice_def)
  show ?thesis
    by (rule call_stack_info.equality)
      (use kind in \<open>simp_all add: read_info_def info_bytes_def slice_parts from_le_to_le raw\<close>)
qed

lemma holds_update: "holds below vs st \<Longrightarrow> st = stack_with (below @ operand_bytes vs) (drop (sk_top st) (sk_memory st))"
  by (auto simp: holds_iff)

text \<open>Moving the topmost bytes down: what lies below the target stays, what lies above is given up.\<close>

lemma copy_down:
  assumes "length (below @ mid @ bs @ rest) < 2 ^ 64"
  shows "\<exists>rest'. copy_top_bytes_to (length below) (length bs) (stack_with (below @ mid @ bs) rest) =
      Inr (\<lparr>sk_memory = below @ bs @ rest', sk_top = length (below @ mid @ bs)\<rparr>) \<and> length rest' = length mid + length rest"
proof (cases "bs = [] \<or> mid = []")
  case True
  then show ?thesis by (auto simp: copy_top_bytes_to_def stack_with_def)
next
  case False
  have "read_at (length (below @ mid)) (length bs) (stack_with (below @ mid @ bs) rest) = Inr bs"
    by (rule read_at_stack [of _ "below @ mid" _ _ _ rest]) simp_all
  then have read: "read_at (length below + length mid) (length bs) (stack_with (below @ mid @ bs) rest) = Inr bs" by simp
  let ?all = "mid @ bs @ rest"
  have "write_at (length below) bs (stack_with (below @ mid @ bs) rest) =
      Inr (stack_with (below @ mid @ bs) rest\<lparr>sk_memory := below @ bs @ drop (length bs) ?all\<rparr>)"
  proof (rule write_at_stack [of _ _ "take (length bs) ?all"])
    show "sk_memory (stack_with (below @ mid @ bs) rest) = below @ take (length bs) ?all @ drop (length bs) ?all"
      by (simp only: append_take_drop_id stack_with_simps append_assoc)
  qed simp_all
  with False read show ?thesis
    by (auto simp: copy_top_bytes_to_def stack_with_def intro!: exI [of _ "drop (length bs) ?all"])
qed

text \<open>What a call saves of its caller, in the record that follows the locals of the callee.\<close>

definition saved_info :: "u64 \<Rightarrow> local_reference \<Rightarrow> call_stack_info \<Rightarrow> call_stack_info" where
  "saved_info pc prev frame = frame\<lparr>ci_return_pc := pc, ci_prev_top := of_nat (lr_top prev), ci_prev_size := lr_size prev\<rparr>"

lemma zero_new_locals_stack:
  assumes "length zs = n" "length (used @ zs @ rest) < 2 ^ 64"
  shows "zero_new_locals (length used) n (stack_with used (zs @ rest)) = Inr (stack_with used (replicate n 0 @ rest))"
proof (cases "n = 0")
  case True
  then show ?thesis using assms by (simp add: zero_new_locals_def)
next
  case False
  have "write_at (length used) (replicate n 0) (stack_with used (zs @ rest)) =
      Inr (stack_with used (zs @ rest)\<lparr>sk_memory := used @ replicate n 0 @ rest\<rparr>)"
    by (rule write_at_stack [of _ _ zs]) (use assms in simp_all)
  with False assms show ?thesis by (simp add: zero_new_locals_def usize_add_def stack_with_def)
qed

lemma call_builds_frame:
  assumes "length (below @ bs @ rest) < 2 ^ 64"
    and "function_call_cached (length bs) local_size frame prev pc (stack_with (below @ bs) rest) = Inr (reference, callee)"
  shows "\<exists>rest'. length rest = local_size + CALL_STACK_INFO_SIZE + length rest' \<and>
    reference = \<lparr>lr_top = length below, lr_size = of_nat (length bs + local_size + CALL_STACK_INFO_SIZE)\<rparr> \<and>
    callee = stack_with (below @ bs @ replicate local_size 0 @ info_bytes (saved_info pc prev frame)) rest'"
proof -
  let ?info = "info_bytes (saved_info pc prev frame)" and ?n = "length bs + local_size + CALL_STACK_INFO_SIZE"
  have room: "local_size + CALL_STACK_INFO_SIZE \<le> length rest"
    and ends: "frame_end_from_local_top (length below) (length bs) local_size (stack_with (below @ bs) rest) = Inr (length below + ?n)"
    using assms
    by (auto simp: function_call_cached_def Let_def res_simps frame_end_from_local_top_def usize_add_def add.assoc split: if_splits)
  obtain zs old rest' where rest: "rest = zs @ old @ rest'" "length zs = local_size" "length old = CALL_STACK_INFO_SIZE"
    using room by (metis append_take_drop_id add_leD1 add_le_imp_le_diff add.commute length_drop length_take min.absorb2)
  have zero: "zero_new_locals (length below + length bs) local_size (stack_with (below @ bs) rest) =
      Inr (stack_with (below @ bs) (replicate local_size 0 @ old @ rest'))"
    using zero_new_locals_stack [of zs local_size "below @ bs" "old @ rest'"] assms(1) rest by simp
  have "write_at (length (below @ bs @ replicate local_size 0)) ?info (stack_with (below @ bs) (replicate local_size 0 @ old @ rest')) =
      Inr (stack_with (below @ bs) (replicate local_size 0 @ old @ rest')\<lparr>sk_memory := (below @ bs @ replicate local_size 0) @ ?info @ rest'\<rparr>)"
    by (rule write_at_stack [of _ _ old]) (use rest in simp_all)
  then show ?thesis
    using assms(2) ends zero rest
    by (auto simp: function_call_cached_def Let_def add.assoc stack_with_def saved_info_def intro!: exI [of _ rest'])
qed

lemma return_restores_caller:
  assumes "holds (below @ fb @ info_bytes (saved_info pc prev frame)) (vs @ results) st" "lr_top prev < 2 ^ 64"
    and "reference = \<lparr>lr_top = length below, lr_size = n\<rparr>" "unat n = length fb + CALL_STACK_INFO_SIZE"
  shows "\<exists>st'. function_return reference (length (operand_bytes results)) st = Inr (prev, pc, st') \<and> holds below results st'"
proof -
  let ?info = "info_bytes (saved_info pc prev frame)"
  obtain r where st: "st = stack_with (below @ (fb @ ?info @ operand_bytes vs) @ operand_bytes results) r"
    "length (below @ (fb @ ?info @ operand_bytes vs) @ operand_bytes results @ r) < 2 ^ 64"
    using assms(1) by (auto simp: holds_iff)
  have "read_at (length (below @ fb)) CALL_STACK_INFO_SIZE st = Inr ?info"
    by (rule read_at_stack [of _ _ _ _ _ "operand_bytes vs @ operand_bytes results @ r"]) (simp_all add: st)
  then have info: "call_stack_info_at reference st = Inr (saved_info pc prev frame)"
    using assms(3,4) by (simp add: call_stack_info_at_def Let_def info_round_trip add.assoc)
  obtain r' where copy: "copy_top_bytes_to (length below) (length (operand_bytes results)) st =
      Inr \<lparr>sk_memory = below @ operand_bytes results @ r', sk_top = sk_top st\<rparr>"
    "length r' = length (fb @ ?info @ operand_bytes vs) + length r"
    using copy_down [of below "fb @ ?info @ operand_bytes vs" "operand_bytes results" r] st by auto
  have "unat (of_nat (lr_top prev) :: u64) = lr_top prev" using assms(2) by (simp add: unat_of_nat)
  then have "\<lparr>lr_top = unat (of_nat (lr_top prev) :: u64), lr_size = lr_size prev\<rparr> = prev" by (cases prev) simp
  moreover have "holds below results \<lparr>sk_memory = below @ operand_bytes results @ r', sk_top = length below + length (operand_bytes results)\<rparr>"
    using st(2) copy(2) by (simp add: holds_def)
  moreover have "lr_top reference = length below" by (simp add: assms(3))
  ultimately show ?thesis by (simp add: function_return_def info copy must_copy_def saved_info_def)
qed

text \<open>C11: A call and the return from it are transparent to the caller.  When a call succeeds, the
  callee finds its arguments and zeroed locals at the start of its frame; whatever it does to its
  parameters, locals and operands, a return with results on top of its operands hands the caller
  back its own frame reference and return address, and a stack on which the arguments have been
  replaced by the results and nothing below has changed.\<close>

theorem call_and_return:
  assumes "holds below args st" "length (sk_memory st) < 2 ^ 32" "lr_top prev < 2 ^ 64"
    and "function_call_cached (length (operand_bytes args)) local_size frame prev pc st = Inr (reference, callee)"
  shows "\<exists>info. length info = CALL_STACK_INFO_SIZE \<and>
    holds (below @ operand_bytes args @ replicate local_size 0 @ info) [] callee \<and> lr_top reference = length below \<and>
    (\<forall>frame_bytes vs results st'. length frame_bytes = length (operand_bytes args) + local_size \<longrightarrow>
       holds (below @ frame_bytes @ info) (vs @ results) st' \<longrightarrow>
       (\<exists>st''. function_return reference (length (operand_bytes results)) st' = Inr (prev, pc, st'') \<and> holds below results st''))"
proof -
  let ?args = "operand_bytes args" and ?info = "info_bytes (saved_info pc prev frame)"
  let ?n = "length (operand_bytes args) + local_size + CALL_STACK_INFO_SIZE"
  obtain rest where st: "st = stack_with (below @ ?args) rest" "length (below @ ?args @ rest) < 2 ^ 64"
    using assms(1) by (auto simp: holds_iff)
  obtain rest' where call: "length rest = local_size + CALL_STACK_INFO_SIZE + length rest'"
    "reference = \<lparr>lr_top = length below, lr_size = of_nat ?n\<rparr>"
    "callee = stack_with (below @ ?args @ replicate local_size 0 @ ?info) rest'"
    using call_builds_frame [OF st(2) assms(4) [unfolded st(1)]] by blast
  have "unat (of_nat ?n :: u32) = ?n" using assms(2) st(1) call(1) by (intro unat_small) simp
  then have "\<exists>st''. function_return reference (length (operand_bytes results)) st' = Inr (prev, pc, st'') \<and> holds below results st''"
    if "length fb = length ?args + local_size" "holds (below @ fb @ ?info) (vs @ results) st'" for fb vs results st'
    using return_restores_caller [OF that(2) assms(3) call(2)] that(1) by simp
  moreover have "holds (below @ ?args @ replicate local_size 0 @ ?info) [] callee"
    using call(1,3) st(2) by (simp add: holds_def)
  ultimately show ?thesis using call(2) by (intro exI [of _ ?info]) auto
qed

theorem call_and_return_witness:
  "\<exists>below args st frame prev reference callee. holds below args st \<and> length (sk_memory st) < 2 ^ 32 \<and> lr_top prev < 2 ^ 64 \<and>
     function_call_cached (length (operand_bytes args)) 4 frame prev 7 st = Inr (reference, callee) \<and>
     lr_top reference = length below"
proof -
  let ?below = "[1, 2, 3] :: byte list" and ?args = "[WI32 5, WI64 6]" and ?prev = "\<lparr>lr_top = 0, lr_size = 3\<rparr>"
  let ?frame = "\<lparr>ci_return_pc = 0, ci_prev_top = 0, ci_prev_size = 0, ci_code_addr = 9, ci_code_base = 100, ci_instance = 1, ci_memory0_kind = MemLocal, ci_memory0_raw = 1\<rparr>"
  let ?st = "stack_with (?below @ operand_bytes ?args) (replicate 60 0)"
  have h: "holds ?below ?args ?st" by (auto simp: holds_iff value_bytes_def)
  have small: "length (sk_memory ?st) < 2 ^ 32" "lr_top ?prev < 2 ^ 64" by (simp_all add: value_bytes_def)
  obtain reference callee where call: "function_call_cached (length (operand_bytes ?args)) 4 ?frame ?prev 7 ?st = Inr (reference, callee)"
    by (auto simp: function_call_cached_def frame_end_from_local_top_def usize_add_def zero_new_locals_def write_at_def
        CALL_STACK_INFO_SIZE_def mem_simps value_type_def Let_def)
  have "lr_top reference = length ?below" using call_and_return [OF h small call] by blast
  with h small call show ?thesis by blast
qed

end
