(* ===== verification/Local_Instructions.thy ===== *)
theory Local_Instructions
  imports Operand_Stack
begin

text \<open>
  The handlers of the interpreter for \<open>drop\<close>, \<open>select\<close> and locals, \<open>telomere/src/runtime/vm/locals.rs\<close>.
  A handler finds its immediates in the slots of the code after its own; the model gets these slots
  as a list of 64-bit words, of which the arms of the operand union with 32 bits are the low half.
  It says where the interpreter continues: after some of the slots or at a position of the code.
  The theory shows that local accesses by the addresses of \<open>Locals_Layout\<close> implement an array of
  typed values.
\<close>

section \<open>Operands of an instruction\<close>

datatype vm_next = Next nat | Jump u32

definition operand_u32 :: "nat \<Rightarrow> u64 list \<Rightarrow> vm_stop + u32" where
  "operand_u32 k ops = (if k < length ops then Inr (ucast (ops ! k)) else Inl VUndefined)"

definition operand_u64 :: "nat \<Rightarrow> u64 list \<Rightarrow> vm_stop + u64" where
  "operand_u64 k ops = (if k < length ops then Inr (ops ! k) else Inl VUndefined)"

definition operand_addr :: "nat \<Rightarrow> u64 list \<Rightarrow> vm_stop + nat" where
  "operand_addr k ops = rbind (operand_u32 k ops) (\<lambda>a. Inr (unat a))"

text \<open>Dispatching to the instruction after \<open>n\<close> slots.\<close>

definition call_next :: "nat \<Rightarrow> stack \<Rightarrow> vm_stop + vm_next \<times> stack" where
  "call_next n st = Inr (Next n, st)"

section \<open>Handlers\<close>

definition op_drop :: "u64 list \<Rightarrow> stack \<Rightarrow> vm_stop + vm_next \<times> stack" where
  "op_drop ops st = rbind (operand_addr 0 ops) (\<lambda>n. rbind (stack_drop n st) (call_next 1))"

text \<open>Popping \<open>n\<close> bytes into an array of eight: the bytes above the \<open>n\<close> are read as well.\<close>

definition pop_array8 :: "nat \<Rightarrow> stack \<Rightarrow> vm_stop + byte list \<times> stack" where
  "pop_array8 n st = rbind (sub_top n st) (\<lambda>st. rbind (read_at (sk_top st) 8 st) (\<lambda>bs. Inr (bs, st)))"

definition internal_op_select :: "nat \<Rightarrow> stack \<Rightarrow> vm_stop + stack" where
  "internal_op_select x st =
     rbind (pop_u32 st) (\<lambda>(cond, st).
     rbind (pop_array8 x st) (\<lambda>(a, st).
     rbind (pop_array8 x st) (\<lambda>(b, st).
       let v = if cond = 0 then a else b in
       if x \<le> length v then push_slice (take x v) st else Inl VUndefined)))"

definition op_select :: "u64 list \<Rightarrow> stack \<Rightarrow> vm_stop + vm_next \<times> stack" where
  "op_select ops st = rbind (operand_addr 0 ops) (\<lambda>x. rbind (internal_op_select x st) (call_next 1))"

definition select_bytes :: "nat \<Rightarrow> stack \<Rightarrow> vm_stop + stack" where
  "select_bytes n st =
     rbind (pop_u32 st) (\<lambda>(cond, st).
     rbind (pop_bytes n st) (\<lambda>(a, st).
     rbind (pop_bytes n st) (\<lambda>(b, st). push_slice (if cond = 0 then a else b) st)))"

definition op_select4 :: "u64 list \<Rightarrow> stack \<Rightarrow> vm_stop + vm_next \<times> stack" where
  "op_select4 ops st = rbind (select_bytes 4 st) (call_next 0)"

definition op_select8 :: "u64 list \<Rightarrow> stack \<Rightarrow> vm_stop + vm_next \<times> stack" where
  "op_select8 ops st = rbind (select_bytes 8 st) (call_next 0)"

definition op_select16 :: "u64 list \<Rightarrow> stack \<Rightarrow> vm_stop + vm_next \<times> stack" where
  "op_select16 ops st = rbind (select_bytes 16 st) (call_next 0)"

definition local_set4_from_base_value :: "nat \<Rightarrow> nat \<Rightarrow> u32 \<Rightarrow> stack \<Rightarrow> vm_stop + stack" where
  "local_set4_from_base_value local_base local_addr v st = write_at (local_base + local_addr) (to_le 4 v) st"

definition op_select4_set4 :: "nat \<Rightarrow> u64 list \<Rightarrow> stack \<Rightarrow> vm_stop + vm_next \<times> stack" where
  "op_select4_set4 base ops st =
     rbind (operand_addr 0 ops) (\<lambda>dst.
     rbind (pop_u32 st) (\<lambda>(cond, st).
     rbind (pop_u32 st) (\<lambda>(rhs, st).
     rbind (pop_u32 st) (\<lambda>(lhs, st).
     rbind (local_set4_from_base_value base dst (if cond = 0 then rhs else lhs) st) (call_next 1)))))"

definition op_select4_tee4 :: "nat \<Rightarrow> u64 list \<Rightarrow> stack \<Rightarrow> vm_stop + vm_next \<times> stack" where
  "op_select4_tee4 base ops st =
     rbind (operand_addr 0 ops) (\<lambda>dst.
     rbind (pop_u32 st) (\<lambda>(cond, st).
     rbind (pop_u32 st) (\<lambda>(rhs, st).
     rbind (pop_u32 st) (\<lambda>(lhs, st).
       let v = if cond = 0 then rhs else lhs in
       rbind (push_u32_fast v st) (\<lambda>st.
       rbind (local_set4_from_base_value base dst v st) (call_next 1))))))"

definition op_local_get4 :: "nat \<Rightarrow> u64 list \<Rightarrow> stack \<Rightarrow> vm_stop + vm_next \<times> stack" where
  "op_local_get4 base ops st =
     rbind (operand_addr 0 ops) (\<lambda>addr.
     rbind (local_u32_from_base base addr st) (\<lambda>v.
     rbind (push_u32_fast v st) (call_next 1)))"

definition op_local_get8 :: "nat \<Rightarrow> u64 list \<Rightarrow> stack \<Rightarrow> vm_stop + vm_next \<times> stack" where
  "op_local_get8 base ops st = rbind (operand_addr 0 ops) (\<lambda>addr. rbind (local_get_from_base 8 base addr st) (call_next 1))"

definition op_local_get16 :: "nat \<Rightarrow> u64 list \<Rightarrow> stack \<Rightarrow> vm_stop + vm_next \<times> stack" where
  "op_local_get16 base ops st = rbind (operand_addr 0 ops) (\<lambda>addr. rbind (local_get_from_base 16 base addr st) (call_next 1))"

definition op_local_set4 :: "nat \<Rightarrow> u64 list \<Rightarrow> stack \<Rightarrow> vm_stop + vm_next \<times> stack" where
  "op_local_set4 base ops st = rbind (operand_addr 0 ops) (\<lambda>addr. rbind (local_set_from_base 4 base addr st) (call_next 1))"

definition op_local_set8 :: "nat \<Rightarrow> u64 list \<Rightarrow> stack \<Rightarrow> vm_stop + vm_next \<times> stack" where
  "op_local_set8 base ops st = rbind (operand_addr 0 ops) (\<lambda>addr. rbind (local_set_from_base 8 base addr st) (call_next 1))"

definition op_local_set16 :: "nat \<Rightarrow> u64 list \<Rightarrow> stack \<Rightarrow> vm_stop + vm_next \<times> stack" where
  "op_local_set16 base ops st = rbind (operand_addr 0 ops) (\<lambda>addr. rbind (local_set_from_base 16 base addr st) (call_next 1))"

definition op_local_tee4 :: "nat \<Rightarrow> u64 list \<Rightarrow> stack \<Rightarrow> vm_stop + vm_next \<times> stack" where
  "op_local_tee4 base ops st = rbind (operand_addr 0 ops) (\<lambda>addr. rbind (local_tee_from_base 4 base addr st) (call_next 1))"

definition op_local_tee8 :: "nat \<Rightarrow> u64 list \<Rightarrow> stack \<Rightarrow> vm_stop + vm_next \<times> stack" where
  "op_local_tee8 base ops st = rbind (operand_addr 0 ops) (\<lambda>addr. rbind (local_tee_from_base 8 base addr st) (call_next 1))"

definition op_local_tee16 :: "nat \<Rightarrow> u64 list \<Rightarrow> stack \<Rightarrow> vm_stop + vm_next \<times> stack" where
  "op_local_tee16 base ops st = rbind (operand_addr 0 ops) (\<lambda>addr. rbind (local_tee_from_base 16 base addr st) (call_next 1))"

text \<open>The handlers that the instruction parser emits for a local of a type.\<close>

definition emit_local_get :: "valtype \<Rightarrow> nat \<Rightarrow> u64 list \<Rightarrow> stack \<Rightarrow> vm_stop + vm_next \<times> stack" where
  "emit_local_get t = (if stack_size t = 4 then op_local_get4 else if stack_size t = 8 then op_local_get8 else op_local_get16)"

definition emit_local_set :: "valtype \<Rightarrow> nat \<Rightarrow> u64 list \<Rightarrow> stack \<Rightarrow> vm_stop + vm_next \<times> stack" where
  "emit_local_set t = (if stack_size t = 4 then op_local_set4 else if stack_size t = 8 then op_local_set8 else op_local_set16)"

definition emit_local_tee :: "valtype \<Rightarrow> nat \<Rightarrow> u64 list \<Rightarrow> stack \<Rightarrow> vm_stop + vm_next \<times> stack" where
  "emit_local_tee t = (if stack_size t = 4 then op_local_tee4 else if stack_size t = 8 then op_local_tee8 else op_local_tee16)"

section \<open>Accesses on a stack with operands\<close>

lemma operand_simps [simp]:
  "operand_u32 0 (w # ops) = Inr (ucast w)" "operand_u32 (Suc k) (w # ops) = operand_u32 k ops"
  "operand_u64 0 (w # ops) = Inr w" "operand_u64 (Suc k) (w # ops) = operand_u64 k ops"
  "operand_addr 0 (w # ops) = Inr (unat (ucast w :: u32))" "operand_addr (Suc k) (w # ops) = operand_addr k ops"
  by (simp_all add: operand_u32_def operand_u64_def operand_addr_def)

lemma slice_left: "p + n \<le> length xs \<Longrightarrow> slice p n (xs @ ys) = slice p n xs"
  by (simp add: slice_def)

lemma splice_left: "p + length bs \<le> length xs \<Longrightarrow> splice_at p bs (xs @ ys) = splice_at p bs xs @ ys"
  by (simp add: splice_at_def)

lemma access_below:
  "p + n \<le> length L \<Longrightarrow> read_at p n (stack_with (L @ used) rest) = Inr (slice p n L)"
  "p + length bs \<le> length L \<Longrightarrow> write_at p bs (stack_with (L @ used) rest) = Inr (stack_with (splice_at p bs L @ used) rest)"
  by (simp_all add: read_at_def write_at_def slice_left splice_left stack_with_def mem_simps)

lemma read_top: "length bs = n \<Longrightarrow> read_at (length used) n (stack_with (used @ bs) rest) = Inr bs"
  by (auto simp: read_at_def stack_with_def)

text \<open>Accesses to a local whose slot lies in the bytes \<open>L\<close> below the operands.\<close>

lemma local_accesses:
  assumes "base + addr + n \<le> length L"
  shows "length (L @ used @ rest) < 2 ^ 64 \<Longrightarrow> local_get_from_base n base addr (stack_with (L @ used) rest) =
      (if n \<le> length rest then Inr (stack_with (L @ used @ slice (base + addr) n L) (drop n rest)) else Inl VStackOverflow)"
    "length bs = n \<Longrightarrow> local_set_from_base n base addr (stack_with (L @ used @ bs) rest) =
      Inr (stack_with (splice_at (base + addr) bs L @ used) (bs @ rest))"
    "length bs = n \<Longrightarrow> local_tee_from_base n base addr (stack_with (L @ used @ bs) rest) =
      Inr (stack_with (splice_at (base + addr) bs L @ used @ bs) rest)"
proof -
  assume bound: "length (L @ used @ rest) < 2 ^ 64"
  let ?bs = "slice (base + addr) n L"
  have len: "length ?bs = n" using assms by (simp add: mem_simps)
  have "local_get_from_base n base addr (stack_with (L @ used) rest) = push_fast ?bs (stack_with (L @ used) rest)"
    using assms by (cases "usize_add (length L + length used) n") (simp_all add: local_get_from_base_def push_fast_def len access_below)
  then show "local_get_from_base n base addr (stack_with (L @ used) rest) =
      (if n \<le> length rest then Inr (stack_with (L @ used @ ?bs) (drop n rest)) else Inl VStackOverflow)"
    using push_fast_stack [of "L @ used" rest ?bs] bound by (simp add: len)
next
  assume "length bs = n"
  then show "local_set_from_base n base addr (stack_with (L @ used @ bs) rest) =
      Inr (stack_with (splice_at (base + addr) bs L @ used) (bs @ rest))"
    using assms pop_stack [of bs n "L @ used" rest] by (simp add: local_set_from_base_def access_below)
next
  assume n: "length bs = n"
  have "sub_top n (stack_with (L @ used @ bs) rest) = Inr (stack_with (L @ used @ bs) rest\<lparr>sk_top := length (L @ used)\<rparr>)"
    using n by (simp add: sub_top_def)
  then show "local_tee_from_base n base addr (stack_with (L @ used @ bs) rest) =
      Inr (stack_with (splice_at (base + addr) bs L @ used @ bs) rest)"
    using assms n read_top [of bs n "L @ used" rest] by (simp add: local_tee_from_base_def access_below)
qed

section \<open>Locals as an array of values\<close>

definition frame_bytes :: "valtype list \<Rightarrow> locals list \<Rightarrow> nat" where
  "frame_bytes params ls = bytes_before params (length params) + local_bytes ls"

text \<open>The bytes \<open>L\<close> hold the values of the parameters and locals of a function whose frame starts at \<open>base\<close>.\<close>

definition locals_hold :: "nat \<Rightarrow> valtype list \<Rightarrow> locals list \<Rightarrow> wasm_value list \<Rightarrow> byte list \<Rightarrow> bool" where
  "locals_hold base params ls vals L \<longleftrightarrow>
     map value_type vals = params @ expand ls \<and> base + frame_bytes params ls \<le> length L \<and>
     (\<forall>i<length vals. slice (base + spec_addr params ls i) (sizeof (value_type (vals ! i))) L = value_bytes (vals ! i))"

lemma slice_splice_apart:
  assumes "p + length bs \<le> length xs" "q + n \<le> length xs" "p + length bs \<le> q \<or> q + n \<le> p"
  shows "slice q n (splice_at p bs xs) = slice q n xs"
  by (rule slice_cong) (use assms in \<open>auto simp: mem_simps\<close>)

lemma locals_hold_types:
  assumes "locals_hold base params ls vals L"
  shows "length vals = length params + length (expand ls)" "i < length vals \<Longrightarrow> value_type (vals ! i) = (params @ expand ls) ! i"
proof -
  have m: "map value_type vals = params @ expand ls" using assms by (simp add: locals_hold_def)
  then show len: "length vals = length params + length (expand ls)" by (metis length_append length_map)
  show "value_type (vals ! i) = (params @ expand ls) ! i" if "i < length vals" using that m by (metis nth_map)
qed

lemma locals_hold_update:
  assumes "locals_hold base params ls vals L" "i < length vals" "value_type v = value_type (vals ! i)"
  shows "locals_hold base params ls (vals[i := v]) (splice_at (base + spec_addr params ls i) (value_bytes v) L)"
proof -
  note ty = locals_hold_types [OF assms(1)]
  have inside: "base + spec_addr params ls k + sizeof (value_type (vals ! k)) \<le> length L" if "k < length vals" for k
    using spec_addr_bounds [of k params ls] ty that assms(1) by (auto simp: locals_hold_def frame_bytes_def)
  have apart: "spec_addr params ls i + sizeof (value_type v) \<le> spec_addr params ls k \<or>
      spec_addr params ls k + sizeof (value_type (vals ! k)) \<le> spec_addr params ls i" if "k < length vals" "k \<noteq> i" for k
    using spec_addr_apart [of i k params ls] spec_addr_apart [of k i params ls] that assms(2,3) ty by (cases "i < k") auto
  have "slice (base + spec_addr params ls k) (sizeof (value_type (vals[i := v] ! k))) (splice_at (base + spec_addr params ls i) (value_bytes v) L) =
      value_bytes (vals[i := v] ! k)" if k: "k < length vals" for k
  proof (cases "k = i")
    case True
    then show ?thesis using inside [OF assms(2)] assms(2,3) slice_splice_same [of "base + spec_addr params ls i" "value_bytes v" L] by simp
  next
    case False
    then show ?thesis
      using apart [OF k False] inside [OF k] inside [OF assms(2)] assms k
      by (simp add: slice_splice_apart locals_hold_def)
  qed
  moreover have "map value_type (vals[i := v]) = map value_type vals"
    using assms(2,3) by (simp add: map_update list_update_same_conv)
  moreover have "length (splice_at (base + spec_addr params ls i) (value_bytes v) L) = length L"
    using inside [OF assms(2)] assms(3) by (simp add: mem_simps)
  ultimately show ?thesis using assms(1) by (simp add: locals_hold_def)
qed

lemma emitted_accesses:
  "emit_local_set t base ops st = rbind (operand_addr 0 ops) (\<lambda>addr. rbind (local_set_from_base (sizeof t) base addr st) (call_next 1))"
  "emit_local_tee t base ops st = rbind (operand_addr 0 ops) (\<lambda>addr. rbind (local_tee_from_base (sizeof t) base addr st) (call_next 1))"
  by (cases t; simp add: emit_local_set_def emit_local_tee_def stack_size_def op_local_set4_def op_local_set8_def op_local_set16_def
      op_local_tee4_def op_local_tee8_def op_local_tee16_def)+

lemma emitted_get:
  assumes "base + unat (ucast w :: u32) + sizeof t \<le> length L" "length (L @ used @ rest) < 2 ^ 64"
  shows "emit_local_get t base (w # ops) (stack_with (L @ used) rest) =
    (if sizeof t \<le> length rest
     then Inr (Next 1, stack_with (L @ used @ slice (base + unat (ucast w :: u32)) (sizeof t) L) (drop (sizeof t) rest)) else Inl VStackOverflow)"
proof (cases "stack_size t = 4")
  case True
  then have t: "sizeof t = 4" by (simp add: sizeof_def)
  have "to_le 4 (from_le (slice (base + unat (ucast w :: u32)) 4 L) :: u32) = slice (base + unat (ucast w :: u32)) 4 L"
    using assms(1) t to_le_from_le [where 'a = 32, of "slice (base + unat (ucast w :: u32)) 4 L"] by (simp add: mem_simps)
  then show ?thesis
    using True t assms push_fast_stack [of "L @ used" rest "slice (base + unat (ucast w :: u32)) 4 L"]
    by (simp add: emit_local_get_def op_local_get4_def local_u32_from_base_def access_below push_u32_fast_def call_next_def mem_simps)
next
  case False
  then have "emit_local_get t base (w # ops) st = rbind (local_get_from_base (sizeof t) base (unat (ucast w :: u32)) st) (call_next 1)" for st
    by (cases t) (simp_all add: emit_local_get_def op_local_get8_def op_local_get16_def stack_size_def)
  then show ?thesis using local_accesses(1) [OF assms] by (simp add: call_next_def)
qed

text \<open>C10: In a function whose parameters and locals take fewer than \<open>2 ^ 32\<close> bytes, locals behave as an
  array of typed values.  The handler that the parser emits for an access
  to a local, with the address that the layout gives it, pushes the value of that local or stores
  the topmost operand in it; every other local, everything outside the locals of the frame and the
  other operands keep their values, and the only failure is an overflow of the stack.\<close>

theorem locals_are_an_array:
  assumes "bytes_before params (length params) + local_bytes ls < 2 ^ 32"
    and "create_reassignment_table (locals_data_from ls) ls = Inr tab"
    and "get_local_addr params tab idx = Inr (t, ucast w)" "locals_hold base params ls vals L"
  shows "(holds L vs st \<longrightarrow>
      (if length (L @ operand_bytes (vs @ [vals ! unat idx])) \<le> length (sk_memory st)
       then \<exists>st'. emit_local_get t base (w # ops) st = Inr (Next 1, st') \<and> holds L (vs @ [vals ! unat idx]) st'
       else emit_local_get t base (w # ops) st = Inl VStackOverflow)) \<and>
    (holds L (vs @ [v]) st \<and> value_type v = t \<longrightarrow>
      (\<exists>L' st'. emit_local_set t base (w # ops) st = Inr (Next 1, st') \<and> holds L' vs st' \<and>
        locals_hold base params ls (vals[unat idx := v]) L' \<and> length L' = length L \<and>
        (\<forall>p<length L. p < base \<or> base + frame_bytes params ls \<le> p \<longrightarrow> L' ! p = L ! p)) \<and>
      (\<exists>L' st'. emit_local_tee t base (w # ops) st = Inr (Next 1, st') \<and> holds L' (vs @ [v]) st' \<and>
        locals_hold base params ls (vals[unat idx := v]) L' \<and> length L' = length L \<and>
        (\<forall>p<length L. p < base \<or> base + frame_bytes params ls \<le> p \<longrightarrow> L' ! p = L ! p)))"
proof -
  let ?a = "unat (ucast w :: u32)"
  note ty = locals_hold_types [OF assms(4)]
  from get_local_addr_correct [OF assms(1,2), of idx] assms(3) ty(1)
  have idx: "unat idx < length vals" "t = (params @ expand ls) ! unat idx" "ucast w = (of_nat (spec_addr params ls (unat idx)) :: u32)"
    by (auto split: if_splits)
  have bounds: "spec_addr params ls (unat idx) + sizeof t \<le> frame_bytes params ls"
    using spec_addr_bounds [of "unat idx" params ls] idx ty(1) by (simp add: frame_bytes_def)
  have a: "?a = spec_addr params ls (unat idx)"
    unfolding idx(3) using bounds assms(1) by (intro unat_small) (simp add: frame_bytes_def)
  have t: "t = value_type (vals ! unat idx)" using idx ty by simp
  have inside: "base + ?a + sizeof t \<le> length L" using bounds a assms(4) by (simp add: locals_hold_def)
  have val: "slice (base + ?a) (sizeof t) L = value_bytes (vals ! unat idx)" using assms(4) idx(1) a t by (simp add: locals_hold_def)
  let ?L = "splice_at (base + ?a) (value_bytes v) L"
  have upd: "locals_hold base params ls (vals[unat idx := v]) ?L \<and> length ?L = length L \<and>
      (\<forall>p<length L. p < base \<or> base + frame_bytes params ls \<le> p \<longrightarrow> ?L ! p = L ! p)" if "value_type v = t"
    using locals_hold_update [OF assms(4) idx(1), of v] that t a inside bounds by (auto simp: mem_simps)
  have get: "if length (L @ operand_bytes (vs @ [vals ! unat idx])) \<le> length (sk_memory st)
       then \<exists>st'. emit_local_get t base (w # ops) st = Inr (Next 1, st') \<and> holds L (vs @ [vals ! unat idx]) st'
       else emit_local_get t base (w # ops) st = Inl VStackOverflow" if h: "holds L vs st"
  proof -
    obtain rest where st: "st = stack_with (L @ operand_bytes vs) rest" "length (L @ operand_bytes vs @ rest) < 2 ^ 64"
      using h by (auto simp: holds_iff)
    show ?thesis using emitted_get [OF inside st(2)] st val t by (auto simp: holds_iff)
  qed
  have store: "\<exists>st'. emit_local_set t base (w # ops) st = Inr (Next 1, st') \<and> holds ?L vs st'"
    "\<exists>st'. emit_local_tee t base (w # ops) st = Inr (Next 1, st') \<and> holds ?L (vs @ [v]) st'" if h: "holds L (vs @ [v]) st" "value_type v = t"
  proof -
    obtain rest where st: "st = stack_with (L @ operand_bytes vs @ value_bytes v) rest" "length (L @ operand_bytes (vs @ [v]) @ rest) < 2 ^ 64"
      using h by (auto simp: holds_iff)
    have bs: "length (value_bytes v) = sizeof t" using h(2) by simp
    show "\<exists>st'. emit_local_set t base (w # ops) st = Inr (Next 1, st') \<and> holds ?L vs st'"
      "\<exists>st'. emit_local_tee t base (w # ops) st = Inr (Next 1, st') \<and> holds ?L (vs @ [v]) st'"
      using local_accesses(2,3) [OF inside bs] st upd [OF h(2)] by (auto simp: emitted_accesses call_next_def holds_iff)
  qed
  show ?thesis using get store upd by blast
qed

theorem locals_are_an_array_witness:
  "\<exists>tab L L' st st'. create_reassignment_table (locals_data_from [\<lparr>lo_n = 1, lo_t = I64\<rparr>, \<lparr>lo_n = 1, lo_t = I32\<rparr>])
       [\<lparr>lo_n = 1, lo_t = I64\<rparr>, \<lparr>lo_n = 1, lo_t = I32\<rparr>] = Inr tab \<and>
     get_local_addr [I32] tab 1 = Inr (I64, 8) \<and> holds L [WI64 7] st \<and> emit_local_set I64 2 [8] st = Inr (Next 1, st') \<and> holds L' [] st' \<and>
     locals_hold 2 [I32] [\<lparr>lo_n = 1, lo_t = I64\<rparr>, \<lparr>lo_n = 1, lo_t = I32\<rparr>] [WI32 1, WI64 7, WI32 3] L'"
proof -
  let ?ls = "[\<lparr>lo_n = 1, lo_t = I64\<rparr>, \<lparr>lo_n = 1, lo_t = I32\<rparr>]" and ?tab = "[(1, I64, 4), (2, I32, 0)]"
  let ?L = "[0, 0] @ to_le 4 (1 :: u32) @ to_le 4 (3 :: u32) @ to_le 8 (2 :: u64)"
  let ?st = "stack_with (?L @ operand_bytes ([] @ [WI64 7])) (replicate 8 0)"
  have tab: "create_reassignment_table (locals_data_from ?ls) ?ls = Inr ?tab" by code_simp
  have fits: "bytes_before [I32] (length [I32]) + local_bytes ?ls < 2 ^ 32" by (simp add: local_bytes_def bytes_before_def)
  have "get_local_addr [I32] ?tab 1 = Inr (I64, 8)" by code_simp
  then have addr: "get_local_addr [I32] ?tab 1 = Inr (I64, ucast (8 :: u64))" by simp
  have l: "locals_hold 2 [I32] ?ls [WI32 1, WI64 2, WI32 3] ?L" by code_simp
  have h: "holds ?L ([] @ [WI64 7]) ?st" by (auto simp: holds_iff value_type_def intro!: exI [of _ "replicate 8 0"])
  have "\<exists>L' st'. emit_local_set I64 2 [8] ?st = Inr (Next 1, st') \<and> holds L' [] st' \<and>
      locals_hold 2 [I32] ?ls ([WI32 1, WI64 2, WI32 3][unat (1 :: u32) := WI64 7]) L'"
    using locals_are_an_array [OF fits tab addr l, of "[]" ?st "[]" "WI64 7"] h by (auto simp: value_type_def)
  then show ?thesis using tab addr h by auto
qed

section \<open>Selection\<close>

lemma pop_array8_stack:
  "length bs = n \<Longrightarrow> pop_array8 n (stack_with (used @ bs) rest) =
    (if 8 \<le> length (bs @ rest) then Inr (take 8 (bs @ rest), stack_with used (bs @ rest)) else Inl VUndefined)"
  by (auto simp: pop_array8_def sub_top_def read_at_def stack_with_def slice_def)

text \<open>C37: The handler that the parser emits for \<open>select\<close> keeps the first operand when the condition is
  not zero and the second one otherwise, for every type but \<open>v128\<close>: it copies the operands through
  an array of eight bytes, and its slice of sixteen bytes panics.\<close>

theorem select_by_size:
  assumes "holds L (vs @ [a, b, WI32 c]) st" "value_type a = t" "value_type b = t" "ucast w = stack_size t"
  shows "if t = V128 then op_select (w # ops) st = Inl VUndefined
    else \<exists>st'. op_select (w # ops) st = Inr (Next 1, st') \<and> holds L (vs @ [if c \<noteq> 0 then a else b]) st'"
proof -
  let ?used = "L @ operand_bytes vs" and ?n = "sizeof t"
  obtain rest where st: "st = stack_with (?used @ value_bytes a @ value_bytes b @ to_le 4 c) rest"
    "length (?used @ value_bytes a @ value_bytes b @ to_le 4 c @ rest) < 2 ^ 64"
    using assms(1) by (auto simp: holds_iff value_bytes_def)
  have cond: "pop_u32 st = Inr (c, stack_with (?used @ value_bytes a @ value_bytes b) (to_le 4 c @ rest))"
    using pop_stack [of "to_le 4 c" 4 "?used @ value_bytes a @ value_bytes b" rest] st(1) by (simp add: pop_u32_def from_le_to_le)
  have x: "operand_addr 0 (w # ops) = Inr ?n" using assms(4) by (simp add: sizeof_def)
  have n: "length (value_bytes a) = ?n" "length (value_bytes b) = ?n" "4 \<le> ?n" using assms(2,3) by (cases t; simp)+
  note pops = pop_array8_stack [OF n(2), of "?used @ value_bytes a" "to_le 4 c @ rest"]
    pop_array8_stack [OF n(1), of ?used "value_bytes b @ to_le 4 c @ rest"]
  have eight: "?n \<le> 8" if "t \<noteq> V128" using that by (cases t) simp_all
  let ?v = "if c = 0 then value_bytes b else value_bytes a"
  have push: "push_slice ?v (stack_with ?used (value_bytes a @ value_bytes b @ to_le 4 c @ rest)) =
      Inr (stack_with (?used @ ?v) (drop ?n (value_bytes a @ value_bytes b @ to_le 4 c @ rest)))"
    using push_stack [of ?used "value_bytes a @ value_bytes b @ to_le 4 c @ rest" ?v] st(2) n by simp
  show ?thesis
  proof (cases "t = V128")
    case True
    then show ?thesis using cond pops n(3) x assms(2,3) by (simp add: op_select_def internal_op_select_def del: operand_simps)
  next
    case False
    then have "op_select (w # ops) st = Inr (Next 1, stack_with (?used @ ?v) (drop ?n (value_bytes a @ value_bytes b @ to_le 4 c @ rest)))"
      using cond pops n x push eight [OF False] assms(2,3)
      by (cases "c = 0") (simp_all add: op_select_def internal_op_select_def call_next_def del: operand_simps)
    moreover have "holds L (vs @ [if c \<noteq> 0 then a else b]) (stack_with (?used @ ?v) (drop ?n (value_bytes a @ value_bytes b @ to_le 4 c @ rest)))"
      using st(2) n by (auto simp: holds_iff)
    ultimately show ?thesis using False by auto
  qed
qed

theorem select_by_size_witness:
  "\<exists>st. holds [] [WV128 1, WV128 2, WI32 1] st \<and> op_select [16] st = Inl VUndefined"
proof -
  let ?st = "stack_with (operand_bytes [WV128 1, WV128 2, WI32 1]) (replicate 16 0)"
  have h: "holds [] ([] @ [WV128 1, WV128 2, WI32 1]) ?st" by (auto simp: holds_iff value_type_def intro!: exI [of _ "replicate 16 0"])
  then show ?thesis using select_by_size [OF h, of V128 16 "[]"] by (auto simp: value_type_def stack_size_def)
qed

end
