(* ===== verification/Integer_Instructions.thy ===== *)
theory Integer_Instructions
  imports Operand_Stack "HOL-Library.Signed_Division"
begin

text \<open>
  The integer instructions of the interpreter, \<open>telomere/src/runtime/vm/numeric.rs\<close>.  Every handler
  is translated as what it does to the stack before it dispatches to the next instruction; the
  operands are words, with \<open>sint\<close> where the source uses the signed type.  The reference gives the
  operators of the WebAssembly specification on integers.  Floating-point instructions are not
  modelled.
\<close>

section \<open>Operations of the standard library\<close>

definition leading_zeros :: "'a::len word \<Rightarrow> u32" where
  "leading_zeros w = of_nat (length (takeWhile (\<lambda>i. \<not> bit w i) (rev [0 ..< LENGTH('a)])))"

definition trailing_zeros :: "'a::len word \<Rightarrow> u32" where
  "trailing_zeros w = of_nat (length (takeWhile (\<lambda>i. \<not> bit w i) [0 ..< LENGTH('a)]))"

definition count_ones :: "'a::len word \<Rightarrow> u32" where
  "count_ones w = of_nat (length (filter (bit w) [0 ..< LENGTH('a)]))"

definition checked_div_s :: "'a::len word \<Rightarrow> 'a word \<Rightarrow> 'a word option" where
  "checked_div_s a b =
     (if b = 0 \<or> sint a = - (2 ^ (LENGTH('a) - 1)) \<and> sint b = - 1 then None else Some (word_of_int (sint a sdiv sint b)))"

definition checked_div_u :: "'a::len word \<Rightarrow> 'a word \<Rightarrow> 'a word option" where
  "checked_div_u a b = (if b = 0 then None else Some (a div b))"

definition checked_rem_u :: "'a::len word \<Rightarrow> 'a word \<Rightarrow> 'a word option" where
  "checked_rem_u a b = (if b = 0 then None else Some (a mod b))"

definition wrapping_rem_s :: "'a::len word \<Rightarrow> 'a word \<Rightarrow> 'a word" where
  "wrapping_rem_s a b = word_of_int (sint a smod sint b)"

section \<open>Shifts\<close>

definition wasm_shift_mask32 :: "u32 \<Rightarrow> u32" where
  "wasm_shift_mask32 rhs = rhs AND 31"

definition wasm_shift_mask64 :: "u32 \<Rightarrow> u32" where
  "wasm_shift_mask64 rhs = rhs AND 63"

definition wasm_i32_shl :: "u32 \<Rightarrow> u32 \<Rightarrow> u32" where
  "wasm_i32_shl lhs rhs = push_bit (unat (wasm_shift_mask32 rhs)) lhs"

definition wasm_i32_shr_s :: "u32 \<Rightarrow> u32 \<Rightarrow> u32" where
  "wasm_i32_shr_s lhs rhs = signed_drop_bit (unat (wasm_shift_mask32 rhs)) lhs"

definition wasm_i32_shr_u :: "u32 \<Rightarrow> u32 \<Rightarrow> u32" where
  "wasm_i32_shr_u lhs rhs = drop_bit (unat (wasm_shift_mask32 rhs)) lhs"

definition wasm_i64_shl :: "u64 \<Rightarrow> u64 \<Rightarrow> u64" where
  "wasm_i64_shl lhs rhs = push_bit (unat (wasm_shift_mask64 (ucast rhs))) lhs"

definition wasm_i64_shr_s :: "u64 \<Rightarrow> u64 \<Rightarrow> u64" where
  "wasm_i64_shr_s lhs rhs = signed_drop_bit (unat (wasm_shift_mask64 (ucast rhs))) lhs"

definition wasm_i64_shr_u :: "u64 \<Rightarrow> u64 \<Rightarrow> u64" where
  "wasm_i64_shr_u lhs rhs = drop_bit (unat (wasm_shift_mask64 (ucast rhs))) lhs"

section \<open>Handlers\<close>

text \<open>The shapes of the handlers; the operand that was pushed last is \<open>b\<close>.\<close>

definition unary32 :: "(u32 \<Rightarrow> u32) \<Rightarrow> stack \<Rightarrow> vm_stop + stack" where
  "unary32 f st = rbind (pop_u32 st) (\<lambda>(a, st). push_u32 (f a) st)"

definition unary64 :: "(u64 \<Rightarrow> u64) \<Rightarrow> stack \<Rightarrow> vm_stop + stack" where
  "unary64 f st = rbind (pop_u64 st) (\<lambda>(a, st). push_u64 (f a) st)"

definition checked32 :: "(u32 \<Rightarrow> u32 \<Rightarrow> u32 option) \<Rightarrow> stack \<Rightarrow> vm_stop + stack" where
  "checked32 f st =
     rbind (pop_u32 st) (\<lambda>(b, st).
     rbind (pop_u32 st) (\<lambda>(a, st).
     rbind (ok_or VInvalidOperand (f a b)) (\<lambda>r. push_u32 r st)))"

definition checked64 :: "(u64 \<Rightarrow> u64 \<Rightarrow> u64 option) \<Rightarrow> stack \<Rightarrow> vm_stop + stack" where
  "checked64 f st =
     rbind (pop_u64 st) (\<lambda>(b, st).
     rbind (pop_u64 st) (\<lambda>(a, st).
     rbind (ok_or VInvalidOperand (f a b)) (\<lambda>r. push_u64 r st)))"

definition binary32 :: "(u32 \<Rightarrow> u32 \<Rightarrow> u32) \<Rightarrow> stack \<Rightarrow> vm_stop + stack" where
  "binary32 f st = rbind (pop_u32 st) (\<lambda>(b, st). rbind (pop_u32 st) (\<lambda>(a, st). push_u32 (f a b) st))"

definition binary64 :: "(u64 \<Rightarrow> u64 \<Rightarrow> u64) \<Rightarrow> stack \<Rightarrow> vm_stop + stack" where
  "binary64 f st = rbind (pop_u64 st) (\<lambda>(b, st). rbind (pop_u64 st) (\<lambda>(a, st). push_u64 (f a b) st))"

definition compare32 :: "(u32 \<Rightarrow> u32 \<Rightarrow> bool) \<Rightarrow> stack \<Rightarrow> vm_stop + stack" where
  "compare32 f st = rbind (pop_u32 st) (\<lambda>(b, st). rbind (pop_u32 st) (\<lambda>(a, st). push_u32 (of_bool (f a b)) st))"

definition compare64 :: "(u64 \<Rightarrow> u64 \<Rightarrow> bool) \<Rightarrow> stack \<Rightarrow> vm_stop + stack" where
  "compare64 f st = rbind (pop_u64 st) (\<lambda>(b, st). rbind (pop_u64 st) (\<lambda>(a, st). push_u32 (of_bool (f a b)) st))"

definition op_i32_const :: "u32 \<Rightarrow> stack \<Rightarrow> vm_stop + stack" where
  "op_i32_const v = push_u32_fast v"

definition op_i64_const :: "u64 \<Rightarrow> stack \<Rightarrow> vm_stop + stack" where
  "op_i64_const v = push_u64 v"

definition op_i32_add :: "stack \<Rightarrow> vm_stop + stack" where
  "op_i32_add = reduce_top_i32_add"

definition op_i32_sub :: "stack \<Rightarrow> vm_stop + stack" where
  "op_i32_sub = reduce_top_i32_sub"

definition op_i32_mul :: "stack \<Rightarrow> vm_stop + stack" where
  "op_i32_mul = binary32 (\<lambda>b a. a * b)"

definition op_i32_div_s :: "stack \<Rightarrow> vm_stop + stack" where
  "op_i32_div_s = checked32 (\<lambda>b a. checked_div_s b a)"

definition op_i32_div_u :: "stack \<Rightarrow> vm_stop + stack" where
  "op_i32_div_u = checked32 (\<lambda>b a. checked_div_u b a)"

definition op_i32_rem_s :: "stack \<Rightarrow> vm_stop + stack" where
  "op_i32_rem_s = checked32 (\<lambda>a b. if b = 0 then None else Some (wrapping_rem_s a b))"

definition op_i32_rem_u :: "stack \<Rightarrow> vm_stop + stack" where
  "op_i32_rem_u = checked32 (\<lambda>a b. checked_rem_u a b)"

definition op_i32_and :: "stack \<Rightarrow> vm_stop + stack" where
  "op_i32_and = binary32 (\<lambda>a b. a AND b)"

definition op_i32_or :: "stack \<Rightarrow> vm_stop + stack" where
  "op_i32_or = binary32 (\<lambda>a b. a OR b)"

definition op_i32_xor :: "stack \<Rightarrow> vm_stop + stack" where
  "op_i32_xor = binary32 (\<lambda>a b. a XOR b)"

definition op_i32_shl :: "stack \<Rightarrow> vm_stop + stack" where
  "op_i32_shl = binary32 wasm_i32_shl"

definition op_i32_shr_s :: "stack \<Rightarrow> vm_stop + stack" where
  "op_i32_shr_s = binary32 wasm_i32_shr_s"

definition op_i32_shr_u :: "stack \<Rightarrow> vm_stop + stack" where
  "op_i32_shr_u = binary32 wasm_i32_shr_u"

definition op_i32_rotl :: "stack \<Rightarrow> vm_stop + stack" where
  "op_i32_rotl = binary32 (\<lambda>a b. word_rotl (unat b) a)"

definition op_i32_rotr :: "stack \<Rightarrow> vm_stop + stack" where
  "op_i32_rotr = binary32 (\<lambda>a b. word_rotr (unat b) a)"

definition op_i32_clz :: "stack \<Rightarrow> vm_stop + stack" where
  "op_i32_clz = unary32 leading_zeros"

definition op_i32_ctz :: "stack \<Rightarrow> vm_stop + stack" where
  "op_i32_ctz = unary32 trailing_zeros"

definition op_i32_popcnt :: "stack \<Rightarrow> vm_stop + stack" where
  "op_i32_popcnt = unary32 count_ones"

definition op_i32_eqz :: "stack \<Rightarrow> vm_stop + stack" where
  "op_i32_eqz = unary32 (\<lambda>a. of_bool (a = 0))"

definition op_i32_eq :: "stack \<Rightarrow> vm_stop + stack" where
  "op_i32_eq = compare32 (\<lambda>b a. a = b)"

definition op_i32_ne :: "stack \<Rightarrow> vm_stop + stack" where
  "op_i32_ne = compare32 (\<lambda>b a. a \<noteq> b)"

definition op_i32_lt_s :: "stack \<Rightarrow> vm_stop + stack" where
  "op_i32_lt_s = compare32 (\<lambda>a b. sint a < sint b)"

definition op_i32_lt_u :: "stack \<Rightarrow> vm_stop + stack" where
  "op_i32_lt_u = compare32 (\<lambda>a b. a < b)"

definition op_i32_gt_s :: "stack \<Rightarrow> vm_stop + stack" where
  "op_i32_gt_s = compare32 (\<lambda>a b. sint a > sint b)"

definition op_i32_gt_u :: "stack \<Rightarrow> vm_stop + stack" where
  "op_i32_gt_u = compare32 (\<lambda>a b. a > b)"

definition op_i32_le_s :: "stack \<Rightarrow> vm_stop + stack" where
  "op_i32_le_s = compare32 (\<lambda>a b. sint a \<le> sint b)"

definition op_i32_le_u :: "stack \<Rightarrow> vm_stop + stack" where
  "op_i32_le_u = compare32 (\<lambda>a b. a \<le> b)"

definition op_i32_ge_s :: "stack \<Rightarrow> vm_stop + stack" where
  "op_i32_ge_s = compare32 (\<lambda>a b. sint a \<ge> sint b)"

definition op_i32_ge_u :: "stack \<Rightarrow> vm_stop + stack" where
  "op_i32_ge_u = compare32 (\<lambda>a b. a \<ge> b)"

definition op_i32_extend8_s :: "stack \<Rightarrow> vm_stop + stack" where
  "op_i32_extend8_s = unary32 (\<lambda>v. scast (ucast v :: byte))"

definition op_i32_extend16_s :: "stack \<Rightarrow> vm_stop + stack" where
  "op_i32_extend16_s = unary32 (\<lambda>v. scast (from_le [ucast v, ucast (drop_bit 8 v)] :: u16))"

definition op_i64_add :: "stack \<Rightarrow> vm_stop + stack" where
  "op_i64_add = binary64 (\<lambda>b a. a + b)"

definition op_i64_sub :: "stack \<Rightarrow> vm_stop + stack" where
  "op_i64_sub = binary64 (\<lambda>b a. b - a)"

definition op_i64_mul :: "stack \<Rightarrow> vm_stop + stack" where
  "op_i64_mul = binary64 (\<lambda>b a. a * b)"

definition op_i64_div_s :: "stack \<Rightarrow> vm_stop + stack" where
  "op_i64_div_s = checked64 (\<lambda>b a. checked_div_s b a)"

definition op_i64_div_u :: "stack \<Rightarrow> vm_stop + stack" where
  "op_i64_div_u = checked64 (\<lambda>b a. checked_div_u b a)"

definition op_i64_rem_s :: "stack \<Rightarrow> vm_stop + stack" where
  "op_i64_rem_s = checked64 (\<lambda>a b. if b = 0 then None else Some (wrapping_rem_s a b))"

definition op_i64_rem_u :: "stack \<Rightarrow> vm_stop + stack" where
  "op_i64_rem_u = checked64 (\<lambda>a b. checked_rem_u a b)"

definition op_i64_and :: "stack \<Rightarrow> vm_stop + stack" where
  "op_i64_and = binary64 (\<lambda>a b. a AND b)"

definition op_i64_or :: "stack \<Rightarrow> vm_stop + stack" where
  "op_i64_or = binary64 (\<lambda>a b. a OR b)"

definition op_i64_xor :: "stack \<Rightarrow> vm_stop + stack" where
  "op_i64_xor = binary64 (\<lambda>a b. a XOR b)"

definition op_i64_shl :: "stack \<Rightarrow> vm_stop + stack" where
  "op_i64_shl = binary64 wasm_i64_shl"

definition op_i64_shr_s :: "stack \<Rightarrow> vm_stop + stack" where
  "op_i64_shr_s = binary64 wasm_i64_shr_s"

definition op_i64_shr_u :: "stack \<Rightarrow> vm_stop + stack" where
  "op_i64_shr_u = binary64 wasm_i64_shr_u"

definition op_i64_rotl :: "stack \<Rightarrow> vm_stop + stack" where
  "op_i64_rotl = binary64 (\<lambda>a b. word_rotl (unat (ucast b :: u32)) a)"

definition op_i64_rotr :: "stack \<Rightarrow> vm_stop + stack" where
  "op_i64_rotr = binary64 (\<lambda>a b. word_rotr (unat (ucast b :: u32)) a)"

definition op_i64_clz :: "stack \<Rightarrow> vm_stop + stack" where
  "op_i64_clz = unary64 (\<lambda>a. ucast (leading_zeros a))"

definition op_i64_ctz :: "stack \<Rightarrow> vm_stop + stack" where
  "op_i64_ctz = unary64 (\<lambda>a. ucast (trailing_zeros a))"

definition op_i64_popcnt :: "stack \<Rightarrow> vm_stop + stack" where
  "op_i64_popcnt = unary64 (\<lambda>a. ucast (count_ones a))"

definition op_i64_eqz :: "stack \<Rightarrow> vm_stop + stack" where
  "op_i64_eqz = (\<lambda>st. rbind (pop_u64 st) (\<lambda>(a, st). push_u32 (of_bool (a = 0)) st))"

definition op_i64_eq :: "stack \<Rightarrow> vm_stop + stack" where
  "op_i64_eq = compare64 (\<lambda>a b. a = b)"

definition op_i64_ne :: "stack \<Rightarrow> vm_stop + stack" where
  "op_i64_ne = compare64 (\<lambda>a b. a \<noteq> b)"

definition op_i64_lt_s :: "stack \<Rightarrow> vm_stop + stack" where
  "op_i64_lt_s = compare64 (\<lambda>a b. sint a < sint b)"

definition op_i64_lt_u :: "stack \<Rightarrow> vm_stop + stack" where
  "op_i64_lt_u = compare64 (\<lambda>a b. a < b)"

definition op_i64_gt_s :: "stack \<Rightarrow> vm_stop + stack" where
  "op_i64_gt_s = compare64 (\<lambda>a b. sint a > sint b)"

definition op_i64_gt_u :: "stack \<Rightarrow> vm_stop + stack" where
  "op_i64_gt_u = compare64 (\<lambda>a b. a > b)"

definition op_i64_le_s :: "stack \<Rightarrow> vm_stop + stack" where
  "op_i64_le_s = compare64 (\<lambda>a b. sint a \<le> sint b)"

definition op_i64_le_u :: "stack \<Rightarrow> vm_stop + stack" where
  "op_i64_le_u = compare64 (\<lambda>a b. a \<le> b)"

definition op_i64_ge_s :: "stack \<Rightarrow> vm_stop + stack" where
  "op_i64_ge_s = compare64 (\<lambda>a b. sint a \<ge> sint b)"

definition op_i64_ge_u :: "stack \<Rightarrow> vm_stop + stack" where
  "op_i64_ge_u = compare64 (\<lambda>a b. a \<ge> b)"

definition op_i64_extend8_s :: "stack \<Rightarrow> vm_stop + stack" where
  "op_i64_extend8_s = unary64 (\<lambda>v. scast (ucast v :: byte))"

definition op_i64_extend16_s :: "stack \<Rightarrow> vm_stop + stack" where
  "op_i64_extend16_s = unary64 (\<lambda>v. scast (from_le [ucast v, ucast (drop_bit 8 v)] :: u16))"

definition op_i64_extend32_s :: "stack \<Rightarrow> vm_stop + stack" where
  "op_i64_extend32_s = unary64 (\<lambda>v. scast (from_le [ucast v, ucast (drop_bit 8 v), ucast (drop_bit 16 v), ucast (drop_bit 24 v)] :: u32))"

definition op_i32_wrap_i64 :: "stack \<Rightarrow> vm_stop + stack" where
  "op_i32_wrap_i64 = (\<lambda>st. rbind (pop_u64 st) (\<lambda>(a, st). push_u32 (ucast a) st))"

definition op_i64_extend_i32_s :: "stack \<Rightarrow> vm_stop + stack" where
  "op_i64_extend_i32_s = (\<lambda>st. rbind (pop_u32 st) (\<lambda>(a, st). push_u64 (scast a) st))"

definition op_i64_extend_i32_u :: "stack \<Rightarrow> vm_stop + stack" where
  "op_i64_extend_i32_u = (\<lambda>st. rbind (pop_u32 st) (\<lambda>(a, st). push_u64 (ucast a) st))"

section \<open>The operators of the specification\<close>

datatype ibinop = BAdd | BSub | BMul | BDivS | BDivU | BRemS | BRemU | BAnd | BOr | BXor | BShl | BShrS | BShrU | BRotl | BRotr
datatype irelop = REq | RNe | RLtS | RLtU | RGtS | RGtU | RLeS | RLeU | RGeS | RGeU
datatype iunop = UClz | UCtz | UPopcnt | UExtend nat

definition signed :: "nat \<Rightarrow> int \<Rightarrow> int" where
  "signed n i = (if i < 2 ^ (n - 1) then i else i - 2 ^ n)"

definition ref_binop :: "nat \<Rightarrow> ibinop \<Rightarrow> int \<Rightarrow> int \<Rightarrow> int option" where
  "ref_binop n bop i j =
     (let s = nat (j mod int n) in
      case bop of
        BAdd \<Rightarrow> Some ((i + j) mod 2 ^ n)
      | BSub \<Rightarrow> Some ((i - j) mod 2 ^ n)
      | BMul \<Rightarrow> Some ((i * j) mod 2 ^ n)
      | BDivU \<Rightarrow> if j = 0 then None else Some (i div j)
      | BRemU \<Rightarrow> if j = 0 then None else Some (i mod j)
      | BDivS \<Rightarrow>
          (if j = 0 then None
           else let q = sgn (signed n i) * sgn (signed n j) * (\<bar>signed n i\<bar> div \<bar>signed n j\<bar>) in
             if q = 2 ^ (n - 1) then None else Some (q mod 2 ^ n))
      | BRemS \<Rightarrow> if j = 0 then None else Some ((sgn (signed n i) * (\<bar>signed n i\<bar> mod \<bar>signed n j\<bar>)) mod 2 ^ n)
      | BAnd \<Rightarrow> Some (i AND j)
      | BOr \<Rightarrow> Some (i OR j)
      | BXor \<Rightarrow> Some (i XOR j)
      | BShl \<Rightarrow> Some ((i * 2 ^ s) mod 2 ^ n)
      | BShrU \<Rightarrow> Some (i div 2 ^ s)
      | BShrS \<Rightarrow> Some ((signed n i div 2 ^ s) mod 2 ^ n)
      | BRotl \<Rightarrow> Some ((i mod 2 ^ (n - s)) * 2 ^ s + i div 2 ^ (n - s))
      | BRotr \<Rightarrow> Some (i div 2 ^ s + (i mod 2 ^ s) * 2 ^ (n - s)))"

definition ref_relop :: "nat \<Rightarrow> irelop \<Rightarrow> int \<Rightarrow> int \<Rightarrow> bool" where
  "ref_relop n rop i j =
     (case rop of
        REq \<Rightarrow> i = j | RNe \<Rightarrow> i \<noteq> j
      | RLtU \<Rightarrow> i < j | RGtU \<Rightarrow> i > j | RLeU \<Rightarrow> i \<le> j | RGeU \<Rightarrow> i \<ge> j
      | RLtS \<Rightarrow> signed n i < signed n j | RGtS \<Rightarrow> signed n i > signed n j
      | RLeS \<Rightarrow> signed n i \<le> signed n j | RGeS \<Rightarrow> signed n i \<ge> signed n j)"

text \<open>The leading zeros are the powers of two above a number, the trailing zeros those that divide it.\<close>

definition ref_unop :: "nat \<Rightarrow> iunop \<Rightarrow> int \<Rightarrow> int" where
  "ref_unop n uop i =
     (case uop of
        UClz \<Rightarrow> int (length (filter (\<lambda>k. i < 2 ^ k) [0 ..< n]))
      | UCtz \<Rightarrow> int (length (filter (\<lambda>k. 2 ^ Suc k dvd i) [0 ..< n]))
      | UPopcnt \<Rightarrow> (\<Sum>k\<leftarrow>[0 ..< n]. (i div 2 ^ k) mod 2)
      | UExtend m \<Rightarrow> signed m (i mod 2 ^ m) mod 2 ^ n)"

section \<open>Words and integers\<close>

lemma top_bit_iff:
  assumes "0 \<le> i" "i < 2 ^ Suc n"
  shows "bit (i :: int) n \<longleftrightarrow> 2 ^ n \<le> i"
proof (cases "2 ^ n \<le> i")
  case True
  then have "i div 2 ^ n = 1" using assms by (intro int_div_pos_eq [of _ _ _ "i - 2 ^ n"]) auto
  with True show ?thesis by (simp add: bit_iff_odd)
next
  case False
  with assms(1) show ?thesis by (simp add: bit_iff_odd)
qed

lemma signed_uint: "signed LENGTH('a) (uint w) = sint (w :: 'a::len word)"
proof -
  obtain n where n: "LENGTH('a) = Suc n" by (metis len_gt_0 not0_implies_Suc not_gr_zero)
  have "0 \<le> uint w" "uint w < 2 ^ Suc n" using uint_lt2p [of w] by (simp_all add: n)
  then have "bit (uint w) n \<longleftrightarrow> 2 ^ n \<le> uint w" "take_bit (Suc n) (uint w) = uint w"
    by (simp_all only: top_bit_iff take_bit_int_eq_self)
  then show ?thesis by (auto simp: sint_uint signed_def n signed_take_bit_eq_take_bit_minus)
qed

lemma word_of_int_mod: "word_of_int (i mod 2 ^ LENGTH('a)) = (word_of_int i :: 'a::len word)"
  by (rule bit_word_eqI) (simp add: bit_word_of_int_iff flip: take_bit_eq_mod, simp add: bit_take_bit_iff)

lemma word_of_int_bitwise:
  "word_of_int (uint a AND uint b) = (a AND b :: 'a::len word)"
  "word_of_int (uint a OR uint b) = (a OR b :: 'a::len word)"
  "word_of_int (uint a XOR uint b) = (a XOR b :: 'a::len word)"
  by (rule bit_word_eqI, auto simp: bit_simps)+

lemma word_of_int_div:
  "word_of_int (uint a div uint b) = (a div b :: 'a::len word)"
  "word_of_int (uint a mod uint b) = (a mod b :: 'a::len word)"
  by (simp_all only: word_div_def word_mod_def)

lemma word_of_int_shift:
  "word_of_int (uint a * 2 ^ n) = (push_bit n a :: 'a::len word)"
  "word_of_int (uint a div 2 ^ n) = (drop_bit n a :: 'a::len word)"
  "word_of_int (sint a div 2 ^ n) = (signed_drop_bit n a :: 'a::len word)"
proof -
  show "word_of_int (uint a * 2 ^ n) = (push_bit n a :: 'a word)" by (simp add: push_bit_eq_mult)
  show "word_of_int (uint a div 2 ^ n) = (drop_bit n a :: 'a word)"
    by (rule bit_word_eqI) (auto simp: bit_simps simp flip: drop_bit_eq_div)
  have "sint a div 2 ^ n = sint (signed_drop_bit n a)" by (simp add: sint_signed_drop_bit_eq drop_bit_eq_div)
  then show "word_of_int (sint a div 2 ^ n) = (signed_drop_bit n a :: 'a word)" by simp
qed

lemma div_pow_less:
  assumes "0 \<le> i" "(i :: int) < 2 ^ (m + n)"
  shows "i div 2 ^ n < 2 ^ m"
proof -
  have "take_bit (m + n) i = i" using assms by (simp add: take_bit_int_eq_self)
  then have "drop_bit n i = take_bit m (drop_bit n i)" by (simp add: take_bit_drop_bit add.commute)
  then show ?thesis by (metis drop_bit_eq_div take_bit_int_less_exp)
qed

lemma word_of_int_rotr:
  fixes a :: "'a::len word"
  assumes "n < LENGTH('a)"
  shows "word_of_int (uint a div 2 ^ n + (uint a mod 2 ^ n) * 2 ^ (LENGTH('a) - n)) = word_rotr n a"
proof -
  have "uint a div 2 ^ n < 2 ^ (LENGTH('a) - n)"
    using uint_lt2p [of a] assms by (intro div_pow_less) simp_all
  then have "take_bit (LENGTH('a) - n) (drop_bit n (uint a)) = uint a div 2 ^ n"
    by (simp add: drop_bit_eq_div take_bit_int_eq_self pos_imp_zdiv_nonneg_iff)
  then have "uint (word_rotr n a) = uint a div 2 ^ n + (uint a mod 2 ^ n) * 2 ^ (LENGTH('a) - n)"
    using assms by (simp add: uint_word_rotr_eq concat_bit_eq push_bit_eq_mult unsigned_take_bit_eq) (simp add: take_bit_eq_mod)
  moreover have "word_of_int (uint (word_rotr n a)) = word_rotr n a" by simp
  ultimately show ?thesis by (simp only:)
qed

lemma rotr_mod: "word_rotr (n mod LENGTH('a)) a = word_rotr n (a :: 'a::len word)"
  by (rule bit_word_eqI) (simp add: bit_word_rotr_iff mod_simps)

lemma word_of_int_rotl:
  fixes a :: "'a::len word"
  assumes "n < LENGTH('a)"
  shows "word_of_int ((uint a mod 2 ^ (LENGTH('a) - n)) * 2 ^ n + uint a div 2 ^ (LENGTH('a) - n)) = word_rotl n a"
proof (cases "n = 0")
  case True
  have "uint a div 2 ^ LENGTH('a) = 0" "uint a mod 2 ^ LENGTH('a) = uint a" using uint_lt2p [of a] by simp_all
  moreover have "word_rotl 0 a = a" by (rule bit_word_eqI) (simp add: bit_word_rotl_iff)
  ultimately show ?thesis using True by simp
next
  case False
  then show ?thesis
    using word_of_int_rotr [of "LENGTH('a) - n" a] assms by (simp add: word_rotl_eq_word_rotr algebra_simps)
qed

lemma shift_amount:
  "unat (wasm_shift_mask32 b) = unat b mod 32"
  "unat (wasm_shift_mask64 (ucast (c :: u64))) = unat c mod 64"
  "unat (ucast c :: u32) mod 64 = unat c mod 64"
proof -
  have "b AND 31 = take_bit 5 b" by (simp add: take_bit_eq_mask mask_eq_exp_minus_1)
  then have "unat (b AND 31) = take_bit 5 (unat b)" by (simp only: unsigned_take_bit_eq)
  then show "unat (wasm_shift_mask32 b) = unat b mod 32" by (simp add: wasm_shift_mask32_def take_bit_eq_mod)
  show low: "unat (ucast c :: u32) mod 64 = unat c mod 64"
    by (simp add: unsigned_ucast_eq take_bit_eq_mod mod_mod_cancel)
  have "(ucast c :: u32) AND 63 = take_bit 6 (ucast c)" by (simp add: take_bit_eq_mask mask_eq_exp_minus_1)
  then have "unat ((ucast c :: u32) AND 63) = take_bit 6 (unat (ucast c :: u32))" by (simp only: unsigned_take_bit_eq)
  then show "unat (wasm_shift_mask64 (ucast c)) = unat c mod 64"
    using low by (simp add: wasm_shift_mask64_def take_bit_eq_mod)
qed

lemma amount: "nat (uint b mod int n) = unat b mod n"
  by (simp add: nat_mod_as_int flip: uint_nat)

text \<open>A signed quotient overflows in one case only.\<close>

lemma quotient_overflow:
  fixes x y m :: int
  assumes "- m \<le> x" "x < m" "0 < m" "y \<noteq> 0"
  shows "x sdiv y = m \<longleftrightarrow> x = - m \<and> y = - 1"
proof
  assume q: "x sdiv y = m"
  have "\<bar>x\<bar> div \<bar>y\<bar> \<le> \<bar>x\<bar>" using assms(4) zdiv_mono2 [of "\<bar>x\<bar>" 1 "\<bar>y\<bar>"] by simp
  moreover have abs: "\<bar>x sdiv y\<bar> = \<bar>x\<bar> div \<bar>y\<bar>" if "x \<noteq> 0"
    using assms(4) that by (auto simp: signed_divide_int_def abs_mult pos_imp_zdiv_nonneg_iff)
  have "x \<noteq> 0" using q assms(3) by (auto simp: signed_divide_int_def)
  with abs q assms have "\<bar>x\<bar> div \<bar>y\<bar> = m" by simp
  with calculation assms(1,2) have x: "x = - m" by linarith
  have "\<bar>y\<bar> = 1"
  proof (rule ccontr)
    assume "\<bar>y\<bar> \<noteq> 1"
    then have "\<bar>x\<bar> div \<bar>y\<bar> < \<bar>x\<bar>" using assms(3,4) x by (intro int_div_less_self) auto
    with \<open>\<bar>x\<bar> div \<bar>y\<bar> = m\<close> x assms(3) show False by simp
  qed
  then show "x = - m \<and> y = - 1" using q x assms(3) by (auto simp: signed_divide_int_def abs_if split: if_splits)
qed (use assms(3) in \<open>auto simp: signed_divide_int_def\<close>)

lemma checked_div_s_correct:
  fixes a b :: "'a::len word"
  shows "map_option uint (checked_div_s a b) = ref_binop LENGTH('a) BDivS (uint a) (uint b)"
proof (cases "b = 0")
  case False
  have range: "- (2 ^ (LENGTH('a) - 1)) \<le> sint a" "sint a < 2 ^ (LENGTH('a) - 1)"
    using sint_ge [of a] sint_lt [of a] by simp_all
  have "sint b \<noteq> 0" using False by (simp add: signed_eq_0_iff)
  note over = quotient_overflow [OF range _ this]
  have "sgn (sint a) * sgn (sint b) * (\<bar>sint a\<bar> div \<bar>sint b\<bar>) = sint a sdiv sint b" by (simp add: signed_divide_int_def)
  with False over show ?thesis
    by (simp add: checked_div_s_def ref_binop_def signed_uint Let_def uint_word_of_int unsigned_eq_0_iff)
qed (simp add: checked_div_s_def ref_binop_def)

lemma checked_div_s_of_int:
  "map_option word_of_int (ref_binop LENGTH('a) BDivS (uint a) (uint b)) = checked_div_s a (b :: 'a::len word)"
  by (simp flip: checked_div_s_correct add: option.map_comp comp_def option.map_ident)

text \<open>The functions that the handlers compute.\<close>

definition code_binop32 :: "ibinop \<Rightarrow> u32 \<Rightarrow> u32 \<Rightarrow> u32 option" where
  "code_binop32 bop a b =
     (case bop of
        BAdd \<Rightarrow> Some (a + b) | BSub \<Rightarrow> Some (a - b) | BMul \<Rightarrow> Some (b * a)
      | BDivS \<Rightarrow> checked_div_s a b | BDivU \<Rightarrow> checked_div_u a b
      | BRemS \<Rightarrow> if b = 0 then None else Some (wrapping_rem_s a b) | BRemU \<Rightarrow> checked_rem_u a b
      | BAnd \<Rightarrow> Some (a AND b) | BOr \<Rightarrow> Some (a OR b) | BXor \<Rightarrow> Some (a XOR b)
      | BShl \<Rightarrow> Some (wasm_i32_shl a b) | BShrS \<Rightarrow> Some (wasm_i32_shr_s a b) | BShrU \<Rightarrow> Some (wasm_i32_shr_u a b)
      | BRotl \<Rightarrow> Some (word_rotl (unat b) a) | BRotr \<Rightarrow> Some (word_rotr (unat b) a))"

definition code_binop64 :: "ibinop \<Rightarrow> u64 \<Rightarrow> u64 \<Rightarrow> u64 option" where
  "code_binop64 bop a b =
     (case bop of
        BAdd \<Rightarrow> Some (b + a) | BSub \<Rightarrow> Some (a - b) | BMul \<Rightarrow> Some (b * a)
      | BDivS \<Rightarrow> checked_div_s a b | BDivU \<Rightarrow> checked_div_u a b
      | BRemS \<Rightarrow> if b = 0 then None else Some (wrapping_rem_s a b) | BRemU \<Rightarrow> checked_rem_u a b
      | BAnd \<Rightarrow> Some (a AND b) | BOr \<Rightarrow> Some (a OR b) | BXor \<Rightarrow> Some (a XOR b)
      | BShl \<Rightarrow> Some (wasm_i64_shl a b) | BShrS \<Rightarrow> Some (wasm_i64_shr_s a b) | BShrU \<Rightarrow> Some (wasm_i64_shr_u a b)
      | BRotl \<Rightarrow> Some (word_rotl (unat (ucast b :: u32)) a) | BRotr \<Rightarrow> Some (word_rotr (unat (ucast b :: u32)) a))"

lemma rotl_mod: "word_rotl (n mod LENGTH('a)) a = word_rotl n (a :: 'a::len word)"
  by (rule bit_word_eqI) (simp add: bit_word_rotl_iff mod_simps)

lemma ref_binop_words:
  fixes a b :: "'a::len word"
  shows "map_option word_of_int (ref_binop LENGTH('a) BAdd (uint a) (uint b)) = Some (a + b)"
    "map_option word_of_int (ref_binop LENGTH('a) BSub (uint a) (uint b)) = Some (a - b)"
    "map_option word_of_int (ref_binop LENGTH('a) BMul (uint a) (uint b)) = Some (a * b)"
    "map_option word_of_int (ref_binop LENGTH('a) BDivU (uint a) (uint b)) = checked_div_u a b"
    "map_option word_of_int (ref_binop LENGTH('a) BRemU (uint a) (uint b)) = checked_rem_u a b"
    "map_option word_of_int (ref_binop LENGTH('a) BRemS (uint a) (uint b)) = (if b = 0 then None else Some (wrapping_rem_s a b))"
    "map_option word_of_int (ref_binop LENGTH('a) BAnd (uint a) (uint b)) = Some (a AND b)"
    "map_option word_of_int (ref_binop LENGTH('a) BOr (uint a) (uint b)) = Some (a OR b)"
    "map_option word_of_int (ref_binop LENGTH('a) BXor (uint a) (uint b)) = Some (a XOR b)"
    "map_option word_of_int (ref_binop LENGTH('a) BShl (uint a) (uint b)) = Some (push_bit (unat b mod LENGTH('a)) a)"
    "map_option word_of_int (ref_binop LENGTH('a) BShrU (uint a) (uint b)) = Some (drop_bit (unat b mod LENGTH('a)) a)"
    "map_option word_of_int (ref_binop LENGTH('a) BShrS (uint a) (uint b)) = Some (signed_drop_bit (unat b mod LENGTH('a)) a)"
    "map_option word_of_int (ref_binop LENGTH('a) BRotl (uint a) (uint b)) = Some (word_rotl (unat b mod LENGTH('a)) a)"
    "map_option word_of_int (ref_binop LENGTH('a) BRotr (uint a) (uint b)) = Some (word_rotr (unat b mod LENGTH('a)) a)"
  by (simp_all only: ref_binop_def Let_def ibinop.case option.map word_of_int_mod word_of_int_div word_of_int_bitwise word_of_int_shift
      amount signed_uint word_of_int_rotl word_of_int_rotr mod_less_divisor len_gt_0 refl)
    (auto simp: checked_div_u_def checked_rem_u_def wrapping_rem_s_def word_of_int_div word_of_int_mod signed_modulo_int_def unsigned_eq_0_iff)

lemma binops_correct:
  "map_option word_of_int (ref_binop 32 bop (uint a) (uint b)) = code_binop32 bop a b"
  "map_option word_of_int (ref_binop 64 bop (uint c) (uint d)) = code_binop64 bop c d"
proof -
  note w32 = ref_binop_words [of a b, simplified] checked_div_s_of_int [of a b, simplified]
    and w64 = ref_binop_words [of c d, simplified] checked_div_s_of_int [of c d, simplified]
  note r32 = rotl_mod [of "unat b" a] rotr_mod [of "unat b" a]
    and r64 = rotl_mod [of "unat d" c] rotr_mod [of "unat d" c] rotl_mod [of "unat (ucast d :: u32)" c] rotr_mod [of "unat (ucast d :: u32)" c]
  show "map_option word_of_int (ref_binop 32 bop (uint a) (uint b)) = code_binop32 bop a b"
    using w32 r32
    by (cases bop) (simp_all add: code_binop32_def wasm_i32_shl_def wasm_i32_shr_s_def wasm_i32_shr_u_def shift_amount mult.commute)
  show "map_option word_of_int (ref_binop 64 bop (uint c) (uint d)) = code_binop64 bop c d"
    using w64 r64
    by (cases bop) (simp_all add: code_binop64_def wasm_i64_shl_def wasm_i64_shr_s_def wasm_i64_shr_u_def shift_amount mult.commute add.commute)
qed

lemma leading_count:
  "length (takeWhile (\<lambda>k. \<not> bit i k) (rev [0 ..< n])) = length (filter (\<lambda>k. take_bit n i < 2 ^ k) [0 ..< n])" for i :: int
proof (induction n)
  case (Suc n)
  have split: "take_bit (Suc n) i = take_bit n i + 2 ^ n * of_bool (bit i n)"
    by (simp add: take_bit_Suc_from_most)
  show ?case
  proof (cases "bit i n")
    case True
    then have "2 ^ k \<le> take_bit (Suc n) i" if "k \<le> n" for k
    proof -
      have "(2 :: int) ^ k \<le> 2 ^ n" using that by (simp add: power_increasing)
      moreover have "0 \<le> take_bit n i" by simp
      moreover have "take_bit (Suc n) i = take_bit n i + 2 ^ n" using split True by simp
      ultimately show ?thesis by linarith
    qed
    then have "filter (\<lambda>k. take_bit (Suc n) i < 2 ^ k) [0 ..< Suc n] = []"
      by (auto simp: filter_empty_conv not_less less_Suc_eq_le)
    with True show ?thesis by simp
  next
    case False
    then have "take_bit (Suc n) i = take_bit n i" using split by simp
    with False Suc.IH show ?thesis by (simp add: take_bit_int_less_exp)
  qed
qed simp

lemma takeWhile_prefix: "length (takeWhile P [0 ..< n]) = length (filter (\<lambda>k. \<forall>j\<le>k. P j) [0 ..< n])"
proof (induction n)
  case (Suc n)
  show ?case
  proof (cases "\<forall>j<n. P j")
    case True
    then have "takeWhile P [0 ..< n] = [0 ..< n]" "filter (\<lambda>k. \<forall>j\<le>k. P j) [0 ..< n] = [0 ..< n]"
      by (auto simp: takeWhile_eq_all_conv filter_id_conv)
    moreover have "takeWhile P ([0 ..< n] @ [n]) = [0 ..< n] @ takeWhile P [n]" using True by (intro takeWhile_append2) auto
    ultimately show ?thesis using True by (auto simp: le_less)
  next
    case False
    then obtain j where "j < n" "\<not> P j" by blast
    then have "takeWhile P [0 ..< Suc n] = takeWhile P [0 ..< n]" "\<not> (\<forall>j\<le>n. P j)"
      by (auto simp: takeWhile_append1 intro: less_imp_le)
    with Suc.IH show ?thesis by simp
  qed
qed simp

lemma low_bits_zero: "2 ^ Suc k dvd i \<longleftrightarrow> (\<forall>j\<le>k. \<not> bit i j)" for i :: int
proof -
  have "2 ^ Suc k dvd i \<longleftrightarrow> take_bit (Suc k) i = 0" by (simp add: take_bit_eq_mod dvd_eq_mod_eq_0)
  also have "\<dots> \<longleftrightarrow> (\<forall>j. \<not> bit (take_bit (Suc k) i) j)" by (auto intro: bit_eqI)
  finally show ?thesis by (auto simp: bit_take_bit_iff less_Suc_eq_le)
qed

lemma count_sum: "(\<Sum>k\<leftarrow>xs. (i div 2 ^ k) mod 2) = int (length (filter (bit i) xs))" for i :: int
  by (induction xs) (auto simp: bit_iff_odd odd_iff_mod_2_eq_one)

lemma unops_correct:
  fixes w :: "'a::len word"
  assumes "LENGTH('a) < 2 ^ 32"
  shows "uint (leading_zeros w) = ref_unop LENGTH('a) UClz (uint w)" "uint (trailing_zeros w) = ref_unop LENGTH('a) UCtz (uint w)"
    "uint (count_ones w) = ref_unop LENGTH('a) UPopcnt (uint w)"
proof -
  have bits: "bit w = bit (uint w)" by (auto simp: fun_eq_iff bit_uint_iff dest: bit_imp_le_length)
  have small: "uint (of_nat k :: u32) = int k" if "k \<le> LENGTH('a)" for k
    using that assms by (simp add: uint_nat unat_small)
  have len: "length (takeWhile P [0 ..< LENGTH('a)]) \<le> LENGTH('a)" "length (takeWhile P (rev [0 ..< LENGTH('a)])) \<le> LENGTH('a)"
    "length (filter P [0 ..< LENGTH('a)]) \<le> LENGTH('a)" for P
    using length_takeWhile_le [of P "[0 ..< LENGTH('a)]"] length_takeWhile_le [of P "rev [0 ..< LENGTH('a)]"]
      length_filter_le [of P "[0 ..< LENGTH('a)]"] by simp_all
  show "uint (leading_zeros w) = ref_unop LENGTH('a) UClz (uint w)"
    using leading_count [of "uint w" "LENGTH('a)"] take_bit_int_eq_self [OF uint_ge_0 uint_lt2p, of w] by (simp add: leading_zeros_def small len ref_unop_def bits)
  show "uint (trailing_zeros w) = ref_unop LENGTH('a) UCtz (uint w)"
    by (simp add: trailing_zeros_def small len ref_unop_def bits takeWhile_prefix low_bits_zero del: power_Suc)
  show "uint (count_ones w) = ref_unop LENGTH('a) UPopcnt (uint w)"
    by (simp add: count_ones_def small len ref_unop_def bits count_sum)
qed

lemma extend_words:
  fixes v :: "'a::len word"
  assumes "LENGTH('b) \<le> LENGTH('a)"
  shows "(scast (ucast v :: 'b::len word) :: 'a word) = word_of_int (ref_unop LENGTH('a) (UExtend LENGTH('b)) (uint v))"
proof -
  have "uint v mod 2 ^ LENGTH('b) = uint (ucast v :: 'b word)" by (simp add: unsigned_ucast_eq take_bit_eq_mod)
  then show ?thesis by (simp add: ref_unop_def signed_uint word_of_int_mod)
qed

lemma low_bytes:
  "(from_le [ucast v, ucast (drop_bit 8 v)] :: u16) = ucast (v :: 'a::len word)"
  "(from_le [ucast v, ucast (drop_bit 8 v), ucast (drop_bit 16 v), ucast (drop_bit 24 v)] :: u32) = ucast v"
proof -
  show "(from_le [ucast v, ucast (drop_bit 8 v)] :: u16) = ucast v" by (rule bit_word_eqI) (auto simp: bit_simps)
  show "(from_le [ucast v, ucast (drop_bit 8 v), ucast (drop_bit 16 v), ucast (drop_bit 24 v)] :: u32) = ucast v" (is "?l = ?r")
  proof (rule bit_word_eqI)
    fix n assume "n < LENGTH(32)"
    then show "bit ?l n \<longleftrightarrow> bit ?r n"
      by (cases "n < 8"; cases "n < 16"; cases "n < 24") (auto simp: bit_simps)
  qed
qed

section \<open>Instructions\<close>

datatype int_inst =
    Const32 u32 | Const64 u64
  | Bin32 ibinop | Bin64 ibinop | Rel32 irelop | Rel64 irelop
  | Clz32 | Ctz32 | Popcnt32 | Clz64 | Ctz64 | Popcnt64 | Eqz32 | Eqz64
  | Ext8I32 | Ext16I32 | Ext8I64 | Ext16I64 | Ext32I64 | WrapI64 | ExtSI32 | ExtUI32

definition run_binop32 :: "ibinop \<Rightarrow> stack \<Rightarrow> vm_stop + stack" where
  "run_binop32 bop =
     (case bop of
        BAdd \<Rightarrow> op_i32_add | BSub \<Rightarrow> op_i32_sub | BMul \<Rightarrow> op_i32_mul | BDivS \<Rightarrow> op_i32_div_s | BDivU \<Rightarrow> op_i32_div_u
      | BRemS \<Rightarrow> op_i32_rem_s | BRemU \<Rightarrow> op_i32_rem_u | BAnd \<Rightarrow> op_i32_and | BOr \<Rightarrow> op_i32_or | BXor \<Rightarrow> op_i32_xor
      | BShl \<Rightarrow> op_i32_shl | BShrS \<Rightarrow> op_i32_shr_s | BShrU \<Rightarrow> op_i32_shr_u | BRotl \<Rightarrow> op_i32_rotl | BRotr \<Rightarrow> op_i32_rotr)"

definition run_binop64 :: "ibinop \<Rightarrow> stack \<Rightarrow> vm_stop + stack" where
  "run_binop64 bop =
     (case bop of
        BAdd \<Rightarrow> op_i64_add | BSub \<Rightarrow> op_i64_sub | BMul \<Rightarrow> op_i64_mul | BDivS \<Rightarrow> op_i64_div_s | BDivU \<Rightarrow> op_i64_div_u
      | BRemS \<Rightarrow> op_i64_rem_s | BRemU \<Rightarrow> op_i64_rem_u | BAnd \<Rightarrow> op_i64_and | BOr \<Rightarrow> op_i64_or | BXor \<Rightarrow> op_i64_xor
      | BShl \<Rightarrow> op_i64_shl | BShrS \<Rightarrow> op_i64_shr_s | BShrU \<Rightarrow> op_i64_shr_u | BRotl \<Rightarrow> op_i64_rotl | BRotr \<Rightarrow> op_i64_rotr)"

definition run_relop32 :: "irelop \<Rightarrow> stack \<Rightarrow> vm_stop + stack" where
  "run_relop32 rop =
     (case rop of
        REq \<Rightarrow> op_i32_eq | RNe \<Rightarrow> op_i32_ne | RLtS \<Rightarrow> op_i32_lt_s | RLtU \<Rightarrow> op_i32_lt_u | RGtS \<Rightarrow> op_i32_gt_s | RGtU \<Rightarrow> op_i32_gt_u
      | RLeS \<Rightarrow> op_i32_le_s | RLeU \<Rightarrow> op_i32_le_u | RGeS \<Rightarrow> op_i32_ge_s | RGeU \<Rightarrow> op_i32_ge_u)"

definition run_relop64 :: "irelop \<Rightarrow> stack \<Rightarrow> vm_stop + stack" where
  "run_relop64 rop =
     (case rop of
        REq \<Rightarrow> op_i64_eq | RNe \<Rightarrow> op_i64_ne | RLtS \<Rightarrow> op_i64_lt_s | RLtU \<Rightarrow> op_i64_lt_u | RGtS \<Rightarrow> op_i64_gt_s | RGtU \<Rightarrow> op_i64_gt_u
      | RLeS \<Rightarrow> op_i64_le_s | RLeU \<Rightarrow> op_i64_le_u | RGeS \<Rightarrow> op_i64_ge_s | RGeU \<Rightarrow> op_i64_ge_u)"

definition run_int :: "int_inst \<Rightarrow> stack \<Rightarrow> vm_stop + stack" where
  "run_int inst =
     (case inst of
        Const32 v \<Rightarrow> op_i32_const v | Const64 v \<Rightarrow> op_i64_const v
      | Bin32 bop \<Rightarrow> run_binop32 bop | Bin64 bop \<Rightarrow> run_binop64 bop | Rel32 rop \<Rightarrow> run_relop32 rop | Rel64 rop \<Rightarrow> run_relop64 rop
      | Clz32 \<Rightarrow> op_i32_clz | Ctz32 \<Rightarrow> op_i32_ctz | Popcnt32 \<Rightarrow> op_i32_popcnt
      | Clz64 \<Rightarrow> op_i64_clz | Ctz64 \<Rightarrow> op_i64_ctz | Popcnt64 \<Rightarrow> op_i64_popcnt
      | Eqz32 \<Rightarrow> op_i32_eqz | Eqz64 \<Rightarrow> op_i64_eqz
      | Ext8I32 \<Rightarrow> op_i32_extend8_s | Ext16I32 \<Rightarrow> op_i32_extend16_s
      | Ext8I64 \<Rightarrow> op_i64_extend8_s | Ext16I64 \<Rightarrow> op_i64_extend16_s | Ext32I64 \<Rightarrow> op_i64_extend32_s
      | WrapI64 \<Rightarrow> op_i32_wrap_i64 | ExtSI32 \<Rightarrow> op_i64_extend_i32_s | ExtUI32 \<Rightarrow> op_i64_extend_i32_u)"

text \<open>The type of an instruction and its result on operands of that type; \<open>None\<close> is a trap.\<close>

definition int_type :: "int_inst \<Rightarrow> valtype list \<times> valtype" where
  "int_type inst =
     (case inst of
        Const32 _ \<Rightarrow> ([], I32) | Const64 _ \<Rightarrow> ([], I64)
      | Bin32 _ \<Rightarrow> ([I32, I32], I32) | Bin64 _ \<Rightarrow> ([I64, I64], I64)
      | Rel32 _ \<Rightarrow> ([I32, I32], I32) | Rel64 _ \<Rightarrow> ([I64, I64], I32)
      | Clz32 \<Rightarrow> ([I32], I32) | Ctz32 \<Rightarrow> ([I32], I32) | Popcnt32 \<Rightarrow> ([I32], I32)
      | Clz64 \<Rightarrow> ([I64], I64) | Ctz64 \<Rightarrow> ([I64], I64) | Popcnt64 \<Rightarrow> ([I64], I64)
      | Eqz32 \<Rightarrow> ([I32], I32) | Eqz64 \<Rightarrow> ([I64], I32)
      | Ext8I32 \<Rightarrow> ([I32], I32) | Ext16I32 \<Rightarrow> ([I32], I32)
      | Ext8I64 \<Rightarrow> ([I64], I64) | Ext16I64 \<Rightarrow> ([I64], I64) | Ext32I64 \<Rightarrow> ([I64], I64)
      | WrapI64 \<Rightarrow> ([I64], I32) | ExtSI32 \<Rightarrow> ([I32], I64) | ExtUI32 \<Rightarrow> ([I32], I64))"

text \<open>An integer operand as the specification sees it, between 0 and its number of values.\<close>

definition as_int :: "wasm_value \<Rightarrow> int" where
  "as_int v = (case v of WI32 w \<Rightarrow> uint w | WI64 w \<Rightarrow> uint w | _ \<Rightarrow> 0)"

definition i32_of :: "int \<Rightarrow> wasm_value" where
  "i32_of i = WI32 (word_of_int i)"

definition i64_of :: "int \<Rightarrow> wasm_value" where
  "i64_of i = WI64 (word_of_int i)"

definition ref_int :: "int_inst \<Rightarrow> wasm_value list \<Rightarrow> wasm_value option" where
  "ref_int inst args =
     (let i = as_int (args ! 0); j = as_int (args ! 1) in
      case inst of
        Const32 v \<Rightarrow> Some (WI32 v) | Const64 v \<Rightarrow> Some (WI64 v)
      | Bin32 bop \<Rightarrow> map_option i32_of (ref_binop 32 bop i j) | Bin64 bop \<Rightarrow> map_option i64_of (ref_binop 64 bop i j)
      | Rel32 rop \<Rightarrow> Some (i32_of (of_bool (ref_relop 32 rop i j))) | Rel64 rop \<Rightarrow> Some (i32_of (of_bool (ref_relop 64 rop i j)))
      | Clz32 \<Rightarrow> Some (i32_of (ref_unop 32 UClz i)) | Ctz32 \<Rightarrow> Some (i32_of (ref_unop 32 UCtz i))
      | Popcnt32 \<Rightarrow> Some (i32_of (ref_unop 32 UPopcnt i))
      | Clz64 \<Rightarrow> Some (i64_of (ref_unop 64 UClz i)) | Ctz64 \<Rightarrow> Some (i64_of (ref_unop 64 UCtz i))
      | Popcnt64 \<Rightarrow> Some (i64_of (ref_unop 64 UPopcnt i))
      | Eqz32 \<Rightarrow> Some (i32_of (of_bool (i = 0))) | Eqz64 \<Rightarrow> Some (i32_of (of_bool (i = 0)))
      | Ext8I32 \<Rightarrow> Some (i32_of (ref_unop 32 (UExtend 8) i)) | Ext16I32 \<Rightarrow> Some (i32_of (ref_unop 32 (UExtend 16) i))
      | Ext8I64 \<Rightarrow> Some (i64_of (ref_unop 64 (UExtend 8) i)) | Ext16I64 \<Rightarrow> Some (i64_of (ref_unop 64 (UExtend 16) i))
      | Ext32I64 \<Rightarrow> Some (i64_of (ref_unop 64 (UExtend 32) i))
      | WrapI64 \<Rightarrow> Some (i32_of (i mod 2 ^ 32))
      | ExtSI32 \<Rightarrow> Some (i64_of (signed 32 i mod 2 ^ 64)) | ExtUI32 \<Rightarrow> Some (i64_of i))"

section \<open>The handlers compute the operators\<close>

text \<open>Replacing operands on top of the stack by a result.\<close>

definition replaced :: "byte list \<Rightarrow> wasm_value list \<Rightarrow> byte list \<Rightarrow> wasm_value \<Rightarrow> vm_stop + stack" where
  "replaced used args rest r =
     (if sizeof (value_type r) \<le> length (operand_bytes args @ rest)
      then Inr (stack_with (used @ value_bytes r) (drop (sizeof (value_type r)) (operand_bytes args @ rest)))
      else Inl VStackOverflow)"

lemma pop_values:
  "pop_u32 (stack_with (used @ to_le 4 w) rest) = Inr (w, stack_with used (to_le 4 w @ rest))"
  "pop_u64 (stack_with (used @ to_le 8 v) rest) = Inr (v, stack_with used (to_le 8 v @ rest))"
  by (simp_all add: pop_u32_def pop_u64_def pop_stack from_le_to_le)

lemma push_values:
  assumes "length (used @ rest) < 2 ^ 64"
  shows "push_u32 w (stack_with used rest) =
      (if 4 \<le> length rest then Inr (stack_with (used @ to_le 4 w) (drop 4 rest)) else Inl VStackOverflow)"
    "push_u32_fast w (stack_with used rest) =
      (if 4 \<le> length rest then Inr (stack_with (used @ to_le 4 w) (drop 4 rest)) else Inl VStackOverflow)"
    "push_u64 v (stack_with used rest) =
      (if 8 \<le> length rest then Inr (stack_with (used @ to_le 8 v) (drop 8 rest)) else Inl VStackOverflow)"
  using assms by (simp_all add: push_u32_def push_u32_fast_def push_u64_def push_stack push_fast_stack)

lemma reduce_top_stack:
  "reduce_top f (stack_with (used @ to_le 4 a @ to_le 4 b) rest) = Inr (stack_with (used @ to_le 4 (f a b)) (to_le 4 b @ rest))"
proof -
  let ?st = "stack_with (used @ to_le 4 a @ to_le 4 b) rest"
  have "read_at (length used) 4 ?st = Inr (to_le 4 a)"
    by (rule read_at_stack [of _ used _ _ _ "to_le 4 b @ rest"]) simp_all
  moreover have "read_at (length (used @ to_le 4 a)) 4 ?st = Inr (to_le 4 b)"
    by (rule read_at_stack [of _ "used @ to_le 4 a" _ _ _ rest]) simp_all
  moreover have "write_at (length used) (to_le 4 (f a b)) ?st = Inr (?st\<lparr>sk_memory := used @ to_le 4 (f a b) @ to_le 4 b @ rest\<rparr>)"
    by (rule write_at_stack [of _ _ "to_le 4 a"]) simp_all
  ultimately show ?thesis by (simp add: reduce_top_def sub_top_def from_le_to_le add.commute)
qed

lemma value_bytes_simps [simp]:
  "value_bytes (WI32 w) = to_le 4 w" "value_bytes (WI64 v) = to_le 8 v"
  "value_type (WI32 w) = I32" "value_type (WI64 v) = I64"
  by (simp_all add: value_bytes_def value_type_def)

text \<open>The shapes of the handlers on a stack with operands.\<close>

lemma shapes32:
  assumes "length (used @ to_le 4 a @ to_le 4 b @ rest) < 2 ^ 64"
  shows "binary32 f (stack_with (used @ to_le 4 a @ to_le 4 b) rest) = replaced used [WI32 a, WI32 b] rest (WI32 (f a b))"
    "checked32 g (stack_with (used @ to_le 4 a @ to_le 4 b) rest) =
      (case g a b of None \<Rightarrow> Inl VInvalidOperand | Some r \<Rightarrow> replaced used [WI32 a, WI32 b] rest (WI32 r))"
    "compare32 p (stack_with (used @ to_le 4 a @ to_le 4 b) rest) = replaced used [WI32 a, WI32 b] rest (WI32 (of_bool (p a b)))"
    "reduce_top f (stack_with (used @ to_le 4 a @ to_le 4 b) rest) = replaced used [WI32 a, WI32 b] rest (WI32 (f a b))"
  using assms pop_values(1) [of "used @ to_le 4 a" b rest] pop_values(1) [of used a "to_le 4 b @ rest"]
  by (simp_all add: binary32_def checked32_def compare32_def push_values replaced_def reduce_top_stack split: option.split)

lemma shapes64:
  assumes "length (used @ to_le 8 a @ to_le 8 b @ rest) < 2 ^ 64"
  shows "binary64 f (stack_with (used @ to_le 8 a @ to_le 8 b) rest) = replaced used [WI64 a, WI64 b] rest (WI64 (f a b))"
    "checked64 g (stack_with (used @ to_le 8 a @ to_le 8 b) rest) =
      (case g a b of None \<Rightarrow> Inl VInvalidOperand | Some r \<Rightarrow> replaced used [WI64 a, WI64 b] rest (WI64 r))"
    "compare64 p (stack_with (used @ to_le 8 a @ to_le 8 b) rest) = replaced used [WI64 a, WI64 b] rest (WI32 (of_bool (p a b)))"
  using assms pop_values(2) [of "used @ to_le 8 a" b rest] pop_values(2) [of used a "to_le 8 b @ rest"]
  by (simp_all add: binary64_def checked64_def compare64_def push_values replaced_def split: option.split)

lemma shapes1:
  "length (used @ to_le 4 a @ rest) < 2 ^ 64 \<Longrightarrow> unary32 f (stack_with (used @ to_le 4 a) rest) = replaced used [WI32 a] rest (WI32 (f a))"
  "length (used @ to_le 8 b @ rest) < 2 ^ 64 \<Longrightarrow> unary64 g (stack_with (used @ to_le 8 b) rest) = replaced used [WI64 b] rest (WI64 (g b))"
  by (simp_all add: unary32_def unary64_def pop_values push_values replaced_def)

lemma run_binop32_stack:
  assumes "length (used @ to_le 4 a @ to_le 4 b @ rest) < 2 ^ 64"
  shows "run_binop32 bop (stack_with (used @ to_le 4 a @ to_le 4 b) rest) =
    (case ref_int (Bin32 bop) [WI32 a, WI32 b] of None \<Rightarrow> Inl VInvalidOperand | Some r \<Rightarrow> replaced used [WI32 a, WI32 b] rest r)"
proof -
  have "ref_int (Bin32 bop) [WI32 a, WI32 b] = map_option WI32 (code_binop32 bop a b)"
    by (simp add: ref_int_def as_int_def i32_of_def [abs_def] option.map_comp comp_def flip: binops_correct)
  then show ?thesis
    using shapes32 [OF assms]
    by (cases bop) (auto simp: run_binop32_def code_binop32_def op_i32_add_def op_i32_sub_def op_i32_mul_def op_i32_div_s_def op_i32_div_u_def
        op_i32_rem_s_def op_i32_rem_u_def op_i32_and_def op_i32_or_def op_i32_xor_def op_i32_shl_def op_i32_shr_s_def op_i32_shr_u_def
        op_i32_rotl_def op_i32_rotr_def reduce_top_i32_add_def reduce_top_i32_sub_def split: option.splits)
qed

lemma run_binop64_stack:
  assumes "length (used @ to_le 8 a @ to_le 8 b @ rest) < 2 ^ 64"
  shows "run_binop64 bop (stack_with (used @ to_le 8 a @ to_le 8 b) rest) =
    (case ref_int (Bin64 bop) [WI64 a, WI64 b] of None \<Rightarrow> Inl VInvalidOperand | Some r \<Rightarrow> replaced used [WI64 a, WI64 b] rest r)"
proof -
  have "ref_int (Bin64 bop) [WI64 a, WI64 b] = map_option WI64 (code_binop64 bop a b)"
    by (simp add: ref_int_def as_int_def i64_of_def [abs_def] option.map_comp comp_def flip: binops_correct)
  then show ?thesis
    using shapes64 [OF assms]
    by (cases bop) (auto simp: run_binop64_def code_binop64_def op_i64_add_def op_i64_sub_def op_i64_mul_def op_i64_div_s_def op_i64_div_u_def
        op_i64_rem_s_def op_i64_rem_u_def op_i64_and_def op_i64_or_def op_i64_xor_def op_i64_shl_def op_i64_shr_s_def op_i64_shr_u_def
        op_i64_rotl_def op_i64_rotr_def split: option.splits)
qed

lemma relop_words:
  fixes a b :: "'a::len word"
  shows "ref_relop LENGTH('a) rop (uint a) (uint b) =
    (case rop of REq \<Rightarrow> a = b | RNe \<Rightarrow> a \<noteq> b | RLtU \<Rightarrow> a < b | RGtU \<Rightarrow> a > b | RLeU \<Rightarrow> a \<le> b | RGeU \<Rightarrow> a \<ge> b
     | RLtS \<Rightarrow> sint a < sint b | RGtS \<Rightarrow> sint a > sint b | RLeS \<Rightarrow> sint a \<le> sint b | RGeS \<Rightarrow> sint a \<ge> sint b)"
  by (cases rop) (simp_all add: ref_relop_def signed_uint word_less_def word_le_def word_uint_eq_iff)

lemma run_relop_stack:
  "length (used @ to_le 4 a @ to_le 4 b @ rest) < 2 ^ 64 \<Longrightarrow> run_relop32 rop (stack_with (used @ to_le 4 a @ to_le 4 b) rest) =
    replaced used [WI32 a, WI32 b] rest (i32_of (of_bool (ref_relop 32 rop (uint a) (uint b))))"
  "length (used @ to_le 8 c @ to_le 8 d @ rest) < 2 ^ 64 \<Longrightarrow> run_relop64 rop (stack_with (used @ to_le 8 c @ to_le 8 d) rest) =
    replaced used [WI64 c, WI64 d] rest (i32_of (of_bool (ref_relop 64 rop (uint c) (uint d))))"
  using relop_words [of rop a b] relop_words [of rop c d]
  by (cases rop; simp add: run_relop32_def run_relop64_def shapes32 shapes64 i32_of_def op_i32_eq_def op_i32_ne_def op_i32_lt_s_def op_i32_lt_u_def
      op_i32_gt_s_def op_i32_gt_u_def op_i32_le_s_def op_i32_le_u_def op_i32_ge_s_def op_i32_ge_u_def op_i64_eq_def op_i64_ne_def
      op_i64_lt_s_def op_i64_lt_u_def op_i64_gt_s_def op_i64_gt_u_def op_i64_le_s_def op_i64_le_u_def op_i64_ge_s_def op_i64_ge_u_def)+

lemma of_uint: "uint x = i \<Longrightarrow> word_of_int i = x" "uint x = i \<Longrightarrow> word_of_int i = ucast x"
  by auto

lemma unops_stack:
  fixes a :: u32 and b :: u64
  shows "i32_of (ref_unop 32 UClz (uint a)) = WI32 (leading_zeros a)" "i32_of (ref_unop 32 UCtz (uint a)) = WI32 (trailing_zeros a)"
    "i32_of (ref_unop 32 UPopcnt (uint a)) = WI32 (count_ones a)"
    "i64_of (ref_unop 64 UClz (uint b)) = WI64 (ucast (leading_zeros b))" "i64_of (ref_unop 64 UCtz (uint b)) = WI64 (ucast (trailing_zeros b))"
    "i64_of (ref_unop 64 UPopcnt (uint b)) = WI64 (ucast (count_ones b))"
  using unops_correct [of a, THEN of_uint(1)] unops_correct [of b, THEN of_uint(2)] by (simp_all add: i32_of_def i64_of_def)

lemma extends_stack:
  fixes a :: u32 and b :: u64
  shows "i32_of (ref_unop 32 (UExtend 8) (uint a)) = WI32 (scast (ucast a :: byte))"
    "i32_of (ref_unop 32 (UExtend 16) (uint a)) = WI32 (scast (ucast a :: u16))"
    "i64_of (ref_unop 64 (UExtend 8) (uint b)) = WI64 (scast (ucast b :: byte))"
    "i64_of (ref_unop 64 (UExtend 16) (uint b)) = WI64 (scast (ucast b :: u16))"
    "i64_of (ref_unop 64 (UExtend 32) (uint b)) = WI64 (scast (ucast b :: u32))"
  using extend_words [where 'a = 32 and 'b = 8, of a] extend_words [where 'a = 32 and 'b = 16, of a]
    extend_words [where 'a = 64 and 'b = 8, of b] extend_words [where 'a = 64 and 'b = 16, of b] extend_words [where 'a = 64 and 'b = 32, of b]
  by (simp_all add: i32_of_def i64_of_def)

lemma conversions_stack:
  fixes a :: u32 and b :: u64
  shows "i32_of (uint b mod 2 ^ 32) = WI32 (ucast b)" "i64_of (signed 32 (uint a) mod 2 ^ 64) = WI64 (scast a)" "i64_of (uint a) = WI64 (ucast a)"
proof -
  show "i32_of (uint b mod 2 ^ 32) = WI32 (ucast b)"
    using word_of_int_mod [where 'a = 32, of "uint b"] by (simp add: i32_of_def)
  show "i64_of (signed 32 (uint a) mod 2 ^ 64) = WI64 (scast a)"
    using word_of_int_mod [where 'a = 64, of "sint a"] signed_uint [of a] by (simp add: i64_of_def)
  show "i64_of (uint a) = WI64 (ucast a)" by (simp add: i64_of_def)
qed

lemma typed_args:
  "map value_type args = [I32] \<Longrightarrow> \<exists>a. args = [WI32 a]" "map value_type args = [I64] \<Longrightarrow> \<exists>a. args = [WI64 a]"
  "map value_type args = [I32, I32] \<Longrightarrow> \<exists>a b. args = [WI32 a, WI32 b]" "map value_type args = [I64, I64] \<Longrightarrow> \<exists>a b. args = [WI64 a, WI64 b]"
proof -
  have one: "value_type v = I32 \<Longrightarrow> \<exists>a. v = WI32 a" "value_type v = I64 \<Longrightarrow> \<exists>a. v = WI64 a" for v
    by (cases v; simp add: value_type_def)+
  show "map value_type args = [I32] \<Longrightarrow> \<exists>a. args = [WI32 a]" "map value_type args = [I64] \<Longrightarrow> \<exists>a. args = [WI64 a]"
    "map value_type args = [I32, I32] \<Longrightarrow> \<exists>a b. args = [WI32 a, WI32 b]" "map value_type args = [I64, I64] \<Longrightarrow> \<exists>a b. args = [WI64 a, WI64 b]"
    by (auto simp: map_eq_Cons_conv dest!: one)
qed

lemma converting_stack:
  "length (used @ to_le 8 b @ rest) < 2 ^ 64 \<Longrightarrow>
    rbind (pop_u64 (stack_with (used @ to_le 8 b) rest)) (\<lambda>(a, st). push_u32 (f a) st) = replaced used [WI64 b] rest (WI32 (f b))"
  "length (used @ to_le 4 a @ rest) < 2 ^ 64 \<Longrightarrow>
    rbind (pop_u32 (stack_with (used @ to_le 4 a) rest)) (\<lambda>(a, st). push_u64 (g a) st) = replaced used [WI32 a] rest (WI64 (g a))"
  by (simp_all add: pop_values push_values replaced_def)

lemma run_unary32_stack:
  assumes "length (used @ to_le 4 a @ rest) < 2 ^ 64" "fst (int_type inst) = [I32]"
  shows "\<exists>r. ref_int inst [WI32 a] = Some r \<and> run_int inst (stack_with (used @ to_le 4 a) rest) = replaced used [WI32 a] rest r"
  using assms(2) shapes1(1) [OF assms(1)] converting_stack(2) [OF assms(1)]
  by (cases inst) (simp_all add: run_int_def int_type_def ref_int_def as_int_def unsigned_eq_0_iff i32_of_def [of "of_bool p" for p] low_bytes [simplified] unops_stack extends_stack
      conversions_stack [simplified] op_i32_clz_def op_i32_ctz_def op_i32_popcnt_def op_i32_eqz_def op_i32_extend8_s_def op_i32_extend16_s_def
      op_i64_extend_i32_s_def op_i64_extend_i32_u_def)

lemma run_unary64_stack:
  assumes "length (used @ to_le 8 b @ rest) < 2 ^ 64" "fst (int_type inst) = [I64]"
  shows "\<exists>r. ref_int inst [WI64 b] = Some r \<and> run_int inst (stack_with (used @ to_le 8 b) rest) = replaced used [WI64 b] rest r"
  using assms(2) shapes1(2) [OF assms(1)] converting_stack(1) [OF assms(1)]
  by (cases inst) (simp_all add: run_int_def int_type_def ref_int_def as_int_def unsigned_eq_0_iff i32_of_def [of "of_bool p" for p] low_bytes [simplified] unops_stack extends_stack
      conversions_stack [simplified] op_i64_clz_def op_i64_ctz_def op_i64_popcnt_def op_i64_eqz_def op_i64_extend8_s_def op_i64_extend16_s_def
      op_i64_extend32_s_def op_i32_wrap_i64_def)

lemma run_int_stack:
  assumes "map value_type args = fst (int_type inst)" "length (used @ operand_bytes args @ rest) < 2 ^ 64"
  shows "run_int inst (stack_with (used @ operand_bytes args) rest) =
    (case ref_int inst args of None \<Rightarrow> Inl VInvalidOperand | Some r \<Rightarrow> replaced used args rest r)"
proof -
  have unary: ?thesis if "fst (int_type inst) = [I32]"
  proof -
    have "\<exists>a. args = [WI32 a]" using typed_args(1) [of args] assms(1) that by simp
    then obtain a where "args = [WI32 a]" by blast
    then show ?thesis using run_unary32_stack [of used a rest inst] assms(2) that by auto
  qed
  moreover have ?thesis if "fst (int_type inst) = [I64]"
  proof -
    have "\<exists>a. args = [WI64 a]" using typed_args(2) [of args] assms(1) that by simp
    then obtain a where "args = [WI64 a]" by blast
    then show ?thesis using run_unary64_stack [of used a rest inst] assms(2) that by auto
  qed
  note unary = unary this
  note spec = run_int_def int_type_def ref_int_def as_int_def Let_def
  show ?thesis
  proof (cases inst)
    case (Const32 x)
    then show ?thesis using assms by (simp add: spec op_i32_const_def op_i64_const_def push_values replaced_def)
  next
    case (Const64 x)
    then show ?thesis using assms by (simp add: spec op_i32_const_def op_i64_const_def push_values replaced_def)
  next
    case (Bin32 bop)
    then obtain a b where "args = [WI32 a, WI32 b]" using typed_args(3) [of args] assms(1) by (simp add: int_type_def) blast
    then show ?thesis using run_binop32_stack [of used a b rest bop] assms(2) Bin32 by (simp add: run_int_def split: option.split)
  next
    case (Bin64 bop)
    then obtain a b where "args = [WI64 a, WI64 b]" using typed_args(4) [of args] assms(1) by (simp add: int_type_def) blast
    then show ?thesis using run_binop64_stack [of used a b rest bop] assms(2) Bin64 by (simp add: run_int_def split: option.split)
  next
    case (Rel32 rop)
    then obtain a b where "args = [WI32 a, WI32 b]" using typed_args(3) [of args] assms(1) by (simp add: int_type_def) blast
    then show ?thesis using run_relop_stack(1) [of used a b rest rop] assms(2) Rel32 by (simp add: spec)
  next
    case (Rel64 rop)
    then obtain a b where "args = [WI64 a, WI64 b]" using typed_args(4) [of args] assms(1) by (simp add: int_type_def) blast
    then show ?thesis using run_relop_stack(2) [of used a b rest rop] assms(2) Rel64 by (simp add: spec)
  qed (rule unary; simp add: int_type_def)+
qed

lemma replaced_holds:
  assumes "st = stack_with ((below @ operand_bytes vs) @ operand_bytes args) rest" "length (sk_memory st) < 2 ^ 64"
  shows "if length (below @ operand_bytes (vs @ [r])) \<le> length (sk_memory st)
    then \<exists>st'. replaced (below @ operand_bytes vs) args rest r = Inr st' \<and> holds below (vs @ [r]) st' \<and> length (sk_memory st') = length (sk_memory st)
    else replaced (below @ operand_bytes vs) args rest r = Inl VStackOverflow"
  using assms by (auto simp: replaced_def holds_iff)

lemma ref_int_type: "ref_int inst args = Some r \<Longrightarrow> value_type r = snd (int_type inst)"
  by (cases inst) (auto simp: ref_int_def int_type_def i32_of_def i64_of_def Let_def)

text \<open>C9: The integer instructions of the interpreter are those of the specification.  On a stack
  that holds operands of the type of the instruction, the handler traps exactly when the operator
  of the specification is undefined, and otherwise replaces the operands by the specified result
  and leaves everything below unchanged; a result that does not fit in the stack is reported as an
  overflow.  The handlers never reach behaviour that the source leaves undefined.\<close>

theorem integer_instructions_correct:
  assumes "holds below (vs @ args) st" "map value_type args = fst (int_type inst)"
  shows "case ref_int inst args of
      None \<Rightarrow> run_int inst st = Inl VInvalidOperand
    | Some r \<Rightarrow> value_type r = snd (int_type inst) \<and>
        (if length (below @ operand_bytes (vs @ [r])) \<le> length (sk_memory st)
         then \<exists>st'. run_int inst st = Inr st' \<and> holds below (vs @ [r]) st' \<and> length (sk_memory st') = length (sk_memory st)
         else run_int inst st = Inl VStackOverflow)"
proof -
  obtain rest where st: "st = stack_with ((below @ operand_bytes vs) @ operand_bytes args) rest"
    "length ((below @ operand_bytes vs) @ operand_bytes args @ rest) < 2 ^ 64"
    using assms(1) by (auto simp: holds_iff)
  note run = run_int_stack [OF assms(2) st(2), folded st(1)]
  have "length (sk_memory st) < 2 ^ 64" using st by simp
  note result = replaced_holds [OF st(1) this]
  show ?thesis
  proof (cases "ref_int inst args")
    case None
    then show ?thesis using run by simp
  next
    case (Some r)
    then show ?thesis using run result [of r] ref_int_type [OF Some] by simp
  qed
qed

theorem integer_instructions_correct_witness:
  "\<exists>st st'. holds [7] [WI64 1, WI32 (- 8), WI32 3] st \<and> run_int (Bin32 BDivS) st = Inr st' \<and> holds [7] [WI64 1, WI32 (- 2)] st'"
proof -
  let ?st = "stack_with ([7] @ operand_bytes [WI64 1, WI32 (- 8), WI32 3]) (replicate 16 0)"
  have h: "holds [7] ([WI64 1] @ [WI32 (- 8), WI32 3]) ?st" by (auto simp: holds_iff)
  have t: "map value_type [WI32 (- 8), WI32 3] = fst (int_type (Bin32 BDivS))" by (simp add: int_type_def)
  have r: "ref_int (Bin32 BDivS) [WI32 (- 8), WI32 3] = Some (WI32 (- 2))" by code_simp
  show ?thesis using integer_instructions_correct [OF h t] h by (auto simp: r)
qed

end
