(* ===== verification/Fused_Instructions.thy ===== *)
theory Fused_Instructions
  imports Local_Instructions Integer_Instructions
begin

text \<open>
  The fused instructions of the interpreter, \<open>telomere/src/runtime/vm/superinstructions.rs\<close>, with the
  encoded operation kinds of \<open>telomere/src/common.rs\<close>.  The optimizer replaces a sequence of plain
  instructions by one of them; the theory shows that a fused instruction does what its sequence
  does.  The arithmetic of floating-point numbers is a parameter: functions on the bit patterns of
  the operands.  The fused instruction that stores to the linear memory is not modelled.
\<close>

section \<open>Floating-point instructions\<close>

datatype fbinop = FAdd | FSub | FMul | FDiv
datatype frelop = FEq | FNe | FLt | FGt | FLe | FGe
datatype funop = FAbs | FNeg | FSqrt | FCeil | FFloor | FTrunc | FNearest

record float_arith =
  fa_bin32 :: "fbinop \<Rightarrow> u32 \<Rightarrow> u32 \<Rightarrow> u32"
  fa_rel32 :: "frelop \<Rightarrow> u32 \<Rightarrow> u32 \<Rightarrow> bool"
  fa_un32 :: "funop \<Rightarrow> u32 \<Rightarrow> u32"
  fa_bin64 :: "fbinop \<Rightarrow> u64 \<Rightarrow> u64 \<Rightarrow> u64"
  fa_rel64 :: "frelop \<Rightarrow> u64 \<Rightarrow> u64 \<Rightarrow> bool"
  fa_un64 :: "funop \<Rightarrow> u64 \<Rightarrow> u64"

text \<open>Equality of floating-point numbers is symmetric.\<close>

definition symmetric_equality :: "float_arith \<Rightarrow> bool" where
  "symmetric_equality fp \<longleftrightarrow>
     (\<forall>a b. fa_rel32 fp FEq a b = fa_rel32 fp FEq b a \<and> fa_rel32 fp FNe a b = fa_rel32 fp FNe b a)"

definition op_f32_add :: "float_arith \<Rightarrow> stack \<Rightarrow> vm_stop + stack" where
  "op_f32_add fp = binary32 (fa_bin32 fp FAdd)"

definition op_f32_sub :: "float_arith \<Rightarrow> stack \<Rightarrow> vm_stop + stack" where
  "op_f32_sub fp = binary32 (fa_bin32 fp FSub)"

definition op_f32_mul :: "float_arith \<Rightarrow> stack \<Rightarrow> vm_stop + stack" where
  "op_f32_mul fp = binary32 (fa_bin32 fp FMul)"

definition op_f32_div :: "float_arith \<Rightarrow> stack \<Rightarrow> vm_stop + stack" where
  "op_f32_div fp = binary32 (fa_bin32 fp FDiv)"

definition op_f32_eq :: "float_arith \<Rightarrow> stack \<Rightarrow> vm_stop + stack" where
  "op_f32_eq fp = compare32 (\<lambda>b a. fa_rel32 fp FEq a b)"

definition op_f32_ne :: "float_arith \<Rightarrow> stack \<Rightarrow> vm_stop + stack" where
  "op_f32_ne fp = compare32 (\<lambda>b a. fa_rel32 fp FNe a b)"

definition op_f32_lt :: "float_arith \<Rightarrow> stack \<Rightarrow> vm_stop + stack" where
  "op_f32_lt fp = compare32 (fa_rel32 fp FLt)"

definition op_f32_gt :: "float_arith \<Rightarrow> stack \<Rightarrow> vm_stop + stack" where
  "op_f32_gt fp = compare32 (fa_rel32 fp FGt)"

definition op_f32_le :: "float_arith \<Rightarrow> stack \<Rightarrow> vm_stop + stack" where
  "op_f32_le fp = compare32 (fa_rel32 fp FLe)"

definition op_f32_ge :: "float_arith \<Rightarrow> stack \<Rightarrow> vm_stop + stack" where
  "op_f32_ge fp = compare32 (fa_rel32 fp FGe)"

definition op_f32_abs :: "float_arith \<Rightarrow> stack \<Rightarrow> vm_stop + stack" where
  "op_f32_abs fp = unary32 (fa_un32 fp FAbs)"

definition op_f32_neg :: "float_arith \<Rightarrow> stack \<Rightarrow> vm_stop + stack" where
  "op_f32_neg fp = unary32 (fa_un32 fp FNeg)"

definition op_f32_sqrt :: "float_arith \<Rightarrow> stack \<Rightarrow> vm_stop + stack" where
  "op_f32_sqrt fp = unary32 (fa_un32 fp FSqrt)"

definition op_f32_ceil :: "float_arith \<Rightarrow> stack \<Rightarrow> vm_stop + stack" where
  "op_f32_ceil fp = unary32 (fa_un32 fp FCeil)"

definition op_f32_floor :: "float_arith \<Rightarrow> stack \<Rightarrow> vm_stop + stack" where
  "op_f32_floor fp = unary32 (fa_un32 fp FFloor)"

definition op_f32_trunc :: "float_arith \<Rightarrow> stack \<Rightarrow> vm_stop + stack" where
  "op_f32_trunc fp = unary32 (fa_un32 fp FTrunc)"

definition op_f32_nearest :: "float_arith \<Rightarrow> stack \<Rightarrow> vm_stop + stack" where
  "op_f32_nearest fp = unary32 (fa_un32 fp FNearest)"

definition op_f64_add :: "float_arith \<Rightarrow> stack \<Rightarrow> vm_stop + stack" where
  "op_f64_add fp = binary64 (fa_bin64 fp FAdd)"

definition op_f64_sub :: "float_arith \<Rightarrow> stack \<Rightarrow> vm_stop + stack" where
  "op_f64_sub fp = binary64 (fa_bin64 fp FSub)"

definition op_f64_mul :: "float_arith \<Rightarrow> stack \<Rightarrow> vm_stop + stack" where
  "op_f64_mul fp = binary64 (fa_bin64 fp FMul)"

definition op_f64_div :: "float_arith \<Rightarrow> stack \<Rightarrow> vm_stop + stack" where
  "op_f64_div fp = binary64 (fa_bin64 fp FDiv)"

definition op_f64_eq :: "float_arith \<Rightarrow> stack \<Rightarrow> vm_stop + stack" where
  "op_f64_eq fp = compare64 (fa_rel64 fp FEq)"

definition op_f64_ne :: "float_arith \<Rightarrow> stack \<Rightarrow> vm_stop + stack" where
  "op_f64_ne fp = compare64 (fa_rel64 fp FNe)"

definition op_f64_lt :: "float_arith \<Rightarrow> stack \<Rightarrow> vm_stop + stack" where
  "op_f64_lt fp = compare64 (fa_rel64 fp FLt)"

definition op_f64_gt :: "float_arith \<Rightarrow> stack \<Rightarrow> vm_stop + stack" where
  "op_f64_gt fp = compare64 (fa_rel64 fp FGt)"

definition op_f64_le :: "float_arith \<Rightarrow> stack \<Rightarrow> vm_stop + stack" where
  "op_f64_le fp = compare64 (fa_rel64 fp FLe)"

definition op_f64_ge :: "float_arith \<Rightarrow> stack \<Rightarrow> vm_stop + stack" where
  "op_f64_ge fp = compare64 (fa_rel64 fp FGe)"

definition op_f64_abs :: "float_arith \<Rightarrow> stack \<Rightarrow> vm_stop + stack" where
  "op_f64_abs fp = unary64 (fa_un64 fp FAbs)"

definition op_f64_neg :: "float_arith \<Rightarrow> stack \<Rightarrow> vm_stop + stack" where
  "op_f64_neg fp = unary64 (fa_un64 fp FNeg)"

definition op_f64_sqrt :: "float_arith \<Rightarrow> stack \<Rightarrow> vm_stop + stack" where
  "op_f64_sqrt fp = unary64 (fa_un64 fp FSqrt)"

definition op_f64_ceil :: "float_arith \<Rightarrow> stack \<Rightarrow> vm_stop + stack" where
  "op_f64_ceil fp = unary64 (fa_un64 fp FCeil)"

definition op_f64_floor :: "float_arith \<Rightarrow> stack \<Rightarrow> vm_stop + stack" where
  "op_f64_floor fp = unary64 (fa_un64 fp FFloor)"

definition op_f64_trunc :: "float_arith \<Rightarrow> stack \<Rightarrow> vm_stop + stack" where
  "op_f64_trunc fp = unary64 (fa_un64 fp FTrunc)"

definition op_f64_nearest :: "float_arith \<Rightarrow> stack \<Rightarrow> vm_stop + stack" where
  "op_f64_nearest fp = unary64 (fa_un64 fp FNearest)"

definition op_f32_const :: "u32 \<Rightarrow> stack \<Rightarrow> vm_stop + stack" where
  "op_f32_const v = push_u32 v"

definition op_f64_const :: "u64 \<Rightarrow> stack \<Rightarrow> vm_stop + stack" where
  "op_f64_const v = push_u64 v"

section \<open>Encoded kinds of operations\<close>

datatype local_fast_rhs_shape = RhsLocal | RhsConst
datatype local_fast_const_kind = KindI32 | KindI64 | KindF32 | KindF64

definition shape_from_encoded :: "u32 \<Rightarrow> local_fast_rhs_shape option" where
  "shape_from_encoded encoded =
     (if encoded AND 1 = 0 then Some RhsLocal else if encoded AND 1 = 1 then Some RhsConst else None)"

definition shape_index :: "local_fast_rhs_shape \<Rightarrow> u32" where
  "shape_index s = (case s of RhsLocal \<Rightarrow> 0 | RhsConst \<Rightarrow> 1)"

text \<open>The discriminant of a variant and the variant of a discriminant, for the variants in order.\<close>

definition variant_index :: "'a list \<Rightarrow> 'a \<Rightarrow> u32" where
  "variant_index variants x = of_nat (length (takeWhile (\<lambda>y. y \<noteq> x) variants))"

definition variant_from_index :: "'a list \<Rightarrow> u32 \<Rightarrow> 'a option" where
  "variant_from_index variants i = (if unat i < length variants then Some (variants ! unat i) else None)"

datatype local_binop32_op =
    I32Add | I32Sub | I32Mul | I32And | I32Or | I32Xor | I32Shl | I32ShrS
  | I32ShrU | I32Rotl | I32Rotr | F32Add | F32Sub | F32Mul | F32Div

definition binop32_variants :: "local_binop32_op list" where
  "binop32_variants = [I32Add, I32Sub, I32Mul, I32And, I32Or, I32Xor, I32Shl, I32ShrS, I32ShrU, I32Rotl, I32Rotr, F32Add, F32Sub, F32Mul, F32Div]"

definition binop32_const_kind :: "local_binop32_op \<Rightarrow> local_fast_const_kind" where
  "binop32_const_kind opn = (if opn \<in> {F32Add, F32Sub, F32Mul, F32Div} then KindF32 else KindI32)"

datatype local_binop64_op =
    I64Add | I64Sub | I64Mul | I64And | I64Or | I64Xor | I64Shl | I64ShrS
  | I64ShrU | I64Rotl | I64Rotr | F64Add | F64Sub | F64Mul | F64Div

definition binop64_variants :: "local_binop64_op list" where
  "binop64_variants = [I64Add, I64Sub, I64Mul, I64And, I64Or, I64Xor, I64Shl, I64ShrS, I64ShrU, I64Rotl, I64Rotr, F64Add, F64Sub, F64Mul, F64Div]"

definition binop64_const_kind :: "local_binop64_op \<Rightarrow> local_fast_const_kind" where
  "binop64_const_kind opn = (if opn \<in> {F64Add, F64Sub, F64Mul, F64Div} then KindF64 else KindI64)"

datatype local_cmp32_op =
    I32Eq | I32Ne | I32LtS | I32LtU | I32GtS | I32GtU | I32LeS | I32LeU
  | I32GeS | I32GeU | F32Eq | F32Ne | F32Lt | F32Gt | F32Le | F32Ge

definition cmp32_variants :: "local_cmp32_op list" where
  "cmp32_variants = [I32Eq, I32Ne, I32LtS, I32LtU, I32GtS, I32GtU, I32LeS, I32LeU, I32GeS, I32GeU, F32Eq, F32Ne, F32Lt, F32Gt, F32Le, F32Ge]"

definition cmp32_const_kind :: "local_cmp32_op \<Rightarrow> local_fast_const_kind" where
  "cmp32_const_kind opn = (if opn \<in> {F32Eq, F32Ne, F32Lt, F32Gt, F32Le, F32Ge} then KindF32 else KindI32)"

datatype local_cmp64_op =
    I64Eq | I64Ne | I64LtS | I64LtU | I64GtS | I64GtU | I64LeS | I64LeU
  | I64GeS | I64GeU | F64Eq | F64Ne | F64Lt | F64Gt | F64Le | F64Ge

definition cmp64_variants :: "local_cmp64_op list" where
  "cmp64_variants = [I64Eq, I64Ne, I64LtS, I64LtU, I64GtS, I64GtU, I64LeS, I64LeU, I64GeS, I64GeU, F64Eq, F64Ne, F64Lt, F64Gt, F64Le, F64Ge]"

definition cmp64_const_kind :: "local_cmp64_op \<Rightarrow> local_fast_const_kind" where
  "cmp64_const_kind opn = (if opn \<in> {F64Eq, F64Ne, F64Lt, F64Gt, F64Le, F64Ge} then KindF64 else KindI64)"

datatype local_unary32_op =
    I32Clz | I32Ctz | I32Popcnt | F32Abs | F32Neg | F32Sqrt | F32Ceil | F32Floor
  | F32Trunc | F32Nearest

definition unary32_variants :: "local_unary32_op list" where
  "unary32_variants = [I32Clz, I32Ctz, I32Popcnt, F32Abs, F32Neg, F32Sqrt, F32Ceil, F32Floor, F32Trunc, F32Nearest]"

definition unary32_const_kind :: "local_unary32_op \<Rightarrow> local_fast_const_kind" where
  "unary32_const_kind opn = (if opn \<in> {F32Abs, F32Neg, F32Sqrt, F32Ceil, F32Floor, F32Trunc, F32Nearest} then KindF32 else KindI32)"

datatype local_unary64_op =
    I64Clz | I64Ctz | I64Popcnt | F64Abs | F64Neg | F64Sqrt | F64Ceil | F64Floor
  | F64Trunc | F64Nearest

definition unary64_variants :: "local_unary64_op list" where
  "unary64_variants = [I64Clz, I64Ctz, I64Popcnt, F64Abs, F64Neg, F64Sqrt, F64Ceil, F64Floor, F64Trunc, F64Nearest]"

definition unary64_const_kind :: "local_unary64_op \<Rightarrow> local_fast_const_kind" where
  "unary64_const_kind opn = (if opn \<in> {F64Abs, F64Neg, F64Sqrt, F64Ceil, F64Floor, F64Trunc, F64Nearest} then KindF64 else KindI64)"

definition encode_local_binop32_kind :: "local_binop32_op \<Rightarrow> local_fast_rhs_shape \<Rightarrow> u32" where
  "encode_local_binop32_kind opn rhs_shape = push_bit 1 (variant_index binop32_variants opn) OR shape_index rhs_shape"

definition decode_local_binop32_kind :: "u32 \<Rightarrow> (local_binop32_op \<times> local_fast_rhs_shape) option" where
  "decode_local_binop32_kind kind =
     Option.bind (variant_from_index binop32_variants (drop_bit 1 kind)) (\<lambda>opn.
     Option.bind (shape_from_encoded kind) (\<lambda>rhs_shape. Some (opn, rhs_shape)))"

definition encode_local_binop64_kind :: "local_binop64_op \<Rightarrow> local_fast_rhs_shape \<Rightarrow> u32" where
  "encode_local_binop64_kind opn rhs_shape = push_bit 1 (variant_index binop64_variants opn) OR shape_index rhs_shape"

definition decode_local_binop64_kind :: "u32 \<Rightarrow> (local_binop64_op \<times> local_fast_rhs_shape) option" where
  "decode_local_binop64_kind kind =
     Option.bind (variant_from_index binop64_variants (drop_bit 1 kind)) (\<lambda>opn.
     Option.bind (shape_from_encoded kind) (\<lambda>rhs_shape. Some (opn, rhs_shape)))"

definition encode_local_cmp32_kind :: "local_cmp32_op \<Rightarrow> local_fast_rhs_shape \<Rightarrow> u32" where
  "encode_local_cmp32_kind opn rhs_shape = push_bit 1 (variant_index cmp32_variants opn) OR shape_index rhs_shape"

definition decode_local_cmp32_kind :: "u32 \<Rightarrow> (local_cmp32_op \<times> local_fast_rhs_shape) option" where
  "decode_local_cmp32_kind kind =
     Option.bind (variant_from_index cmp32_variants (drop_bit 1 kind)) (\<lambda>opn.
     Option.bind (shape_from_encoded kind) (\<lambda>rhs_shape. Some (opn, rhs_shape)))"

definition encode_local_cmp64_kind :: "local_cmp64_op \<Rightarrow> local_fast_rhs_shape \<Rightarrow> u32" where
  "encode_local_cmp64_kind opn rhs_shape = push_bit 1 (variant_index cmp64_variants opn) OR shape_index rhs_shape"

definition decode_local_cmp64_kind :: "u32 \<Rightarrow> (local_cmp64_op \<times> local_fast_rhs_shape) option" where
  "decode_local_cmp64_kind kind =
     Option.bind (variant_from_index cmp64_variants (drop_bit 1 kind)) (\<lambda>opn.
     Option.bind (shape_from_encoded kind) (\<lambda>rhs_shape. Some (opn, rhs_shape)))"

definition encode_local_unary32_kind :: "local_unary32_op \<Rightarrow> u32" where
  "encode_local_unary32_kind opn = variant_index unary32_variants opn"

definition decode_local_unary32_kind :: "u32 \<Rightarrow> local_unary32_op option" where
  "decode_local_unary32_kind kind = variant_from_index unary32_variants kind"

definition encode_local_unary64_kind :: "local_unary64_op \<Rightarrow> u32" where
  "encode_local_unary64_kind opn = variant_index unary64_variants opn"

definition decode_local_unary64_kind :: "u32 \<Rightarrow> local_unary64_op option" where
  "decode_local_unary64_kind kind = variant_from_index unary64_variants kind"

section \<open>Evaluation of the kinds\<close>

definition eval_local_unary32 :: "float_arith \<Rightarrow> local_unary32_op \<Rightarrow> u32 \<Rightarrow> u32" where
  "eval_local_unary32 fp opn src_bits =
     (case opn of
        I32Clz \<Rightarrow> leading_zeros src_bits
      | I32Ctz \<Rightarrow> trailing_zeros src_bits
      | I32Popcnt \<Rightarrow> count_ones src_bits
      | F32Abs \<Rightarrow> fa_un32 fp FAbs src_bits
      | F32Neg \<Rightarrow> fa_un32 fp FNeg src_bits
      | F32Sqrt \<Rightarrow> fa_un32 fp FSqrt src_bits
      | F32Ceil \<Rightarrow> fa_un32 fp FCeil src_bits
      | F32Floor \<Rightarrow> fa_un32 fp FFloor src_bits
      | F32Trunc \<Rightarrow> fa_un32 fp FTrunc src_bits
      | F32Nearest \<Rightarrow> fa_un32 fp FNearest src_bits)"

definition eval_local_unary64 :: "float_arith \<Rightarrow> local_unary64_op \<Rightarrow> u64 \<Rightarrow> u64" where
  "eval_local_unary64 fp opn src_bits =
     (case opn of
        I64Clz \<Rightarrow> ucast (leading_zeros src_bits)
      | I64Ctz \<Rightarrow> ucast (trailing_zeros src_bits)
      | I64Popcnt \<Rightarrow> ucast (count_ones src_bits)
      | F64Abs \<Rightarrow> fa_un64 fp FAbs src_bits
      | F64Neg \<Rightarrow> fa_un64 fp FNeg src_bits
      | F64Sqrt \<Rightarrow> fa_un64 fp FSqrt src_bits
      | F64Ceil \<Rightarrow> fa_un64 fp FCeil src_bits
      | F64Floor \<Rightarrow> fa_un64 fp FFloor src_bits
      | F64Trunc \<Rightarrow> fa_un64 fp FTrunc src_bits
      | F64Nearest \<Rightarrow> fa_un64 fp FNearest src_bits)"

definition eval_local_binop32 :: "float_arith \<Rightarrow> local_binop32_op \<Rightarrow> u32 \<Rightarrow> u32 \<Rightarrow> u32" where
  "eval_local_binop32 fp opn lhs_bits rhs_bits =
     (case opn of
        I32Add \<Rightarrow> lhs_bits + rhs_bits
      | I32Sub \<Rightarrow> lhs_bits - rhs_bits
      | I32Mul \<Rightarrow> lhs_bits * rhs_bits
      | I32And \<Rightarrow> lhs_bits AND rhs_bits
      | I32Or \<Rightarrow> lhs_bits OR rhs_bits
      | I32Xor \<Rightarrow> lhs_bits XOR rhs_bits
      | I32Shl \<Rightarrow> wasm_i32_shl lhs_bits rhs_bits
      | I32ShrS \<Rightarrow> wasm_i32_shr_s lhs_bits rhs_bits
      | I32ShrU \<Rightarrow> wasm_i32_shr_u lhs_bits rhs_bits
      | I32Rotl \<Rightarrow> word_rotl (unat rhs_bits) lhs_bits
      | I32Rotr \<Rightarrow> word_rotr (unat rhs_bits) lhs_bits
      | F32Add \<Rightarrow> fa_bin32 fp FAdd lhs_bits rhs_bits
      | F32Sub \<Rightarrow> fa_bin32 fp FSub lhs_bits rhs_bits
      | F32Mul \<Rightarrow> fa_bin32 fp FMul lhs_bits rhs_bits
      | F32Div \<Rightarrow> fa_bin32 fp FDiv lhs_bits rhs_bits)"

definition eval_local_binop64 :: "float_arith \<Rightarrow> local_binop64_op \<Rightarrow> u64 \<Rightarrow> u64 \<Rightarrow> u64" where
  "eval_local_binop64 fp opn lhs_bits rhs_bits =
     (case opn of
        I64Add \<Rightarrow> lhs_bits + rhs_bits
      | I64Sub \<Rightarrow> lhs_bits - rhs_bits
      | I64Mul \<Rightarrow> lhs_bits * rhs_bits
      | I64And \<Rightarrow> lhs_bits AND rhs_bits
      | I64Or \<Rightarrow> lhs_bits OR rhs_bits
      | I64Xor \<Rightarrow> lhs_bits XOR rhs_bits
      | I64Shl \<Rightarrow> wasm_i64_shl lhs_bits rhs_bits
      | I64ShrS \<Rightarrow> wasm_i64_shr_s lhs_bits rhs_bits
      | I64ShrU \<Rightarrow> wasm_i64_shr_u lhs_bits rhs_bits
      | I64Rotl \<Rightarrow> word_rotl (unat (ucast rhs_bits :: u32)) lhs_bits
      | I64Rotr \<Rightarrow> word_rotr (unat (ucast rhs_bits :: u32)) lhs_bits
      | F64Add \<Rightarrow> fa_bin64 fp FAdd lhs_bits rhs_bits
      | F64Sub \<Rightarrow> fa_bin64 fp FSub lhs_bits rhs_bits
      | F64Mul \<Rightarrow> fa_bin64 fp FMul lhs_bits rhs_bits
      | F64Div \<Rightarrow> fa_bin64 fp FDiv lhs_bits rhs_bits)"

definition eval_local_cmp32 :: "float_arith \<Rightarrow> local_cmp32_op \<Rightarrow> u32 \<Rightarrow> u32 \<Rightarrow> u32" where
  "eval_local_cmp32 fp opn lhs_bits rhs_bits =
     (case opn of
        I32Eq \<Rightarrow> of_bool (lhs_bits = rhs_bits)
      | I32Ne \<Rightarrow> of_bool (lhs_bits \<noteq> rhs_bits)
      | I32LtS \<Rightarrow> of_bool (sint lhs_bits < sint rhs_bits)
      | I32LtU \<Rightarrow> of_bool (lhs_bits < rhs_bits)
      | I32GtS \<Rightarrow> of_bool (sint lhs_bits > sint rhs_bits)
      | I32GtU \<Rightarrow> of_bool (lhs_bits > rhs_bits)
      | I32LeS \<Rightarrow> of_bool (sint lhs_bits \<le> sint rhs_bits)
      | I32LeU \<Rightarrow> of_bool (lhs_bits \<le> rhs_bits)
      | I32GeS \<Rightarrow> of_bool (sint lhs_bits \<ge> sint rhs_bits)
      | I32GeU \<Rightarrow> of_bool (lhs_bits \<ge> rhs_bits)
      | F32Eq \<Rightarrow> of_bool (fa_rel32 fp FEq lhs_bits rhs_bits)
      | F32Ne \<Rightarrow> of_bool (fa_rel32 fp FNe lhs_bits rhs_bits)
      | F32Lt \<Rightarrow> of_bool (fa_rel32 fp FLt lhs_bits rhs_bits)
      | F32Gt \<Rightarrow> of_bool (fa_rel32 fp FGt lhs_bits rhs_bits)
      | F32Le \<Rightarrow> of_bool (fa_rel32 fp FLe lhs_bits rhs_bits)
      | F32Ge \<Rightarrow> of_bool (fa_rel32 fp FGe lhs_bits rhs_bits))"

definition eval_local_cmp64 :: "float_arith \<Rightarrow> local_cmp64_op \<Rightarrow> u64 \<Rightarrow> u64 \<Rightarrow> u32" where
  "eval_local_cmp64 fp opn lhs_bits rhs_bits =
     (case opn of
        I64Eq \<Rightarrow> of_bool (lhs_bits = rhs_bits)
      | I64Ne \<Rightarrow> of_bool (lhs_bits \<noteq> rhs_bits)
      | I64LtS \<Rightarrow> of_bool (sint lhs_bits < sint rhs_bits)
      | I64LtU \<Rightarrow> of_bool (lhs_bits < rhs_bits)
      | I64GtS \<Rightarrow> of_bool (sint lhs_bits > sint rhs_bits)
      | I64GtU \<Rightarrow> of_bool (lhs_bits > rhs_bits)
      | I64LeS \<Rightarrow> of_bool (sint lhs_bits \<le> sint rhs_bits)
      | I64LeU \<Rightarrow> of_bool (lhs_bits \<le> rhs_bits)
      | I64GeS \<Rightarrow> of_bool (sint lhs_bits \<ge> sint rhs_bits)
      | I64GeU \<Rightarrow> of_bool (lhs_bits \<ge> rhs_bits)
      | F64Eq \<Rightarrow> of_bool (fa_rel64 fp FEq lhs_bits rhs_bits)
      | F64Ne \<Rightarrow> of_bool (fa_rel64 fp FNe lhs_bits rhs_bits)
      | F64Lt \<Rightarrow> of_bool (fa_rel64 fp FLt lhs_bits rhs_bits)
      | F64Gt \<Rightarrow> of_bool (fa_rel64 fp FGt lhs_bits rhs_bits)
      | F64Le \<Rightarrow> of_bool (fa_rel64 fp FLe lhs_bits rhs_bits)
      | F64Ge \<Rightarrow> of_bool (fa_rel64 fp FGe lhs_bits rhs_bits))"

definition is_stack_i32_const_binop :: "local_binop32_op \<Rightarrow> bool" where
  "is_stack_i32_const_binop opn \<longleftrightarrow>
     opn \<in> {I32Add, I32Sub, I32Mul, I32And, I32Or, I32Xor, I32Shl, I32ShrS, I32ShrU, I32Rotl, I32Rotr}"

definition eval_stack_i32_const_binop :: "float_arith \<Rightarrow> u32 \<Rightarrow> u32 \<Rightarrow> u32 \<Rightarrow> u32 option" where
  "eval_stack_i32_const_binop fp kind lhs_bits rhs_bits =
     Option.bind (decode_local_binop32_kind kind) (\<lambda>(opn, rhs_shape).
       if rhs_shape \<noteq> RhsConst \<or> \<not> is_stack_i32_const_binop opn then None
       else Some (eval_local_binop32 fp opn lhs_bits rhs_bits))"

definition is_stack_i32_const_cmp :: "local_cmp32_op \<Rightarrow> bool" where
  "is_stack_i32_const_cmp opn \<longleftrightarrow>
     opn \<in> {I32Eq, I32Ne, I32LtS, I32LtU, I32GtS, I32GtU, I32LeS, I32LeU, I32GeS, I32GeU}"

definition eval_stack_i32_const_cmp :: "float_arith \<Rightarrow> u32 \<Rightarrow> u32 \<Rightarrow> u32 \<Rightarrow> u32 option" where
  "eval_stack_i32_const_cmp fp kind lhs_bits rhs_bits =
     Option.bind (decode_local_cmp32_kind kind) (\<lambda>(opn, rhs_shape).
       if rhs_shape \<noteq> RhsConst \<or> \<not> is_stack_i32_const_cmp opn then None
       else Some (eval_local_cmp32 fp opn lhs_bits rhs_bits))"

definition i32_compare :: "u32 \<Rightarrow> u32 \<Rightarrow> u32 \<Rightarrow> bool" where
  "i32_compare kind lhs rhs =
     (if kind = 0 then lhs = rhs
      else if kind = 1 then lhs \<noteq> rhs
      else if kind = 2 then sint lhs < sint rhs
      else if kind = 3 then lhs < rhs
      else if kind = 4 then sint lhs > sint rhs
      else if kind = 5 then lhs > rhs
      else if kind = 6 then sint lhs \<le> sint rhs
      else if kind = 7 then lhs \<le> rhs
      else if kind = 8 then sint lhs \<ge> sint rhs
      else if kind = 9 then lhs \<ge> rhs
      else False)"

section \<open>Operands from locals and immediates\<close>

definition local_u64_bits :: "nat \<Rightarrow> nat \<Rightarrow> stack \<Rightarrow> vm_stop + u64" where
  "local_u64_bits base addr st = rbind (read_at (base + addr) 8 st) (\<lambda>bs. Inr (from_le bs))"

definition store_local8_bits :: "nat \<Rightarrow> nat \<Rightarrow> u64 \<Rightarrow> stack \<Rightarrow> vm_stop + stack" where
  "store_local8_bits base addr v st = write_at (base + addr) (to_le 8 v) st"

text \<open>The 32-bit local whose address is the operand \<open>k\<close>.\<close>

definition local_i32 :: "nat \<Rightarrow> nat \<Rightarrow> u64 list \<Rightarrow> stack \<Rightarrow> vm_stop + u32" where
  "local_i32 base k ops st = rbind (operand_addr k ops) (\<lambda>addr. local_u32_from_base base addr st)"

definition local_i64 :: "nat \<Rightarrow> nat \<Rightarrow> u64 list \<Rightarrow> stack \<Rightarrow> vm_stop + u64" where
  "local_i64 base k ops st = rbind (operand_addr k ops) (\<lambda>addr. local_u64_bits base addr st)"

definition load_binop32_rhs ::
  "nat \<Rightarrow> u64 list \<Rightarrow> local_fast_rhs_shape \<Rightarrow> local_fast_const_kind \<Rightarrow> stack \<Rightarrow> vm_stop + u32" where
  "load_binop32_rhs base ops rhs_shape const_kind st =
     (case rhs_shape of
        RhsLocal \<Rightarrow> local_i32 base 2 ops st
      | RhsConst \<Rightarrow> (case const_kind of KindI32 \<Rightarrow> operand_u32 2 ops | KindF32 \<Rightarrow> operand_u32 2 ops | _ \<Rightarrow> Inl VUndefined))"

definition load_binop64_rhs ::
  "nat \<Rightarrow> u64 list \<Rightarrow> local_fast_rhs_shape \<Rightarrow> local_fast_const_kind \<Rightarrow> stack \<Rightarrow> vm_stop + u64" where
  "load_binop64_rhs base ops rhs_shape const_kind st =
     (case rhs_shape of
        RhsLocal \<Rightarrow> local_i64 base 2 ops st
      | RhsConst \<Rightarrow> (case const_kind of KindI64 \<Rightarrow> operand_u64 2 ops | KindF64 \<Rightarrow> operand_u64 2 ops | _ \<Rightarrow> Inl VUndefined))"

definition load_cmp32_rhs ::
  "nat \<Rightarrow> u64 list \<Rightarrow> local_fast_rhs_shape \<Rightarrow> local_fast_const_kind \<Rightarrow> stack \<Rightarrow> vm_stop + u32" where
  "load_cmp32_rhs = load_binop32_rhs"

definition load_cmp64_rhs ::
  "nat \<Rightarrow> u64 list \<Rightarrow> local_fast_rhs_shape \<Rightarrow> local_fast_const_kind \<Rightarrow> stack \<Rightarrow> vm_stop + u64" where
  "load_cmp64_rhs = load_binop64_rhs"

text \<open>The descriptors: the additions and subtractions of i32 have a path of their own.\<close>

definition fast_i32_eval ::
  "local_binop32_op \<Rightarrow> local_fast_rhs_shape \<Rightarrow> nat \<Rightarrow> u64 list \<Rightarrow> stack \<Rightarrow> vm_stop + u32 option" where
  "fast_i32_eval opn rhs_shape base ops st =
     rbind (local_i32 base 1 ops st) (\<lambda>lhs_value.
       if opn = I32Add \<and> rhs_shape = RhsLocal then rbind (local_i32 base 2 ops st) (\<lambda>rhs. Inr (Some (lhs_value + rhs)))
       else if opn = I32Add \<and> rhs_shape = RhsConst then rbind (operand_u32 2 ops) (\<lambda>rhs. Inr (Some (lhs_value + rhs)))
       else if opn = I32Sub \<and> rhs_shape = RhsLocal then rbind (local_i32 base 2 ops st) (\<lambda>rhs. Inr (Some (lhs_value - rhs)))
       else if opn = I32Sub \<and> rhs_shape = RhsConst then rbind (operand_u32 2 ops) (\<lambda>rhs. Inr (Some (lhs_value - rhs)))
       else Inr None)"

definition binop32_eval ::
  "float_arith \<Rightarrow> local_binop32_op \<times> local_fast_rhs_shape \<Rightarrow> nat \<Rightarrow> u64 list \<Rightarrow> stack \<Rightarrow> vm_stop + u32" where
  "binop32_eval fp d base ops st =
     rbind (fast_i32_eval (fst d) (snd d) base ops st) (\<lambda>r.
       case r of
         Some v \<Rightarrow> Inr v
       | None \<Rightarrow>
           rbind (local_i32 base 1 ops st) (\<lambda>lhs_bits.
           rbind (load_binop32_rhs base ops (snd d) (binop32_const_kind (fst d)) st) (\<lambda>rhs_bits.
             Inr (eval_local_binop32 fp (fst d) lhs_bits rhs_bits))))"

definition binop64_eval ::
  "float_arith \<Rightarrow> local_binop64_op \<times> local_fast_rhs_shape \<Rightarrow> nat \<Rightarrow> u64 list \<Rightarrow> stack \<Rightarrow> vm_stop + u64" where
  "binop64_eval fp d base ops st =
     rbind (local_i64 base 1 ops st) (\<lambda>lhs_bits.
     rbind (load_binop64_rhs base ops (snd d) (binop64_const_kind (fst d)) st) (\<lambda>rhs_bits.
       Inr (eval_local_binop64 fp (fst d) lhs_bits rhs_bits)))"

definition cmp32_eval ::
  "float_arith \<Rightarrow> local_cmp32_op \<times> local_fast_rhs_shape \<Rightarrow> nat \<Rightarrow> u64 list \<Rightarrow> stack \<Rightarrow> vm_stop + u32" where
  "cmp32_eval fp d base ops st =
     rbind (local_i32 base 1 ops st) (\<lambda>lhs_bits.
     rbind (load_cmp32_rhs base ops (snd d) (cmp32_const_kind (fst d)) st) (\<lambda>rhs_bits.
       Inr (eval_local_cmp32 fp (fst d) lhs_bits rhs_bits)))"

definition cmp64_eval ::
  "float_arith \<Rightarrow> local_cmp64_op \<times> local_fast_rhs_shape \<Rightarrow> nat \<Rightarrow> u64 list \<Rightarrow> stack \<Rightarrow> vm_stop + u32" where
  "cmp64_eval fp d base ops st =
     rbind (local_i64 base 1 ops st) (\<lambda>lhs_bits.
     rbind (load_cmp64_rhs base ops (snd d) (cmp64_const_kind (fst d)) st) (\<lambda>rhs_bits.
       Inr (eval_local_cmp64 fp (fst d) lhs_bits rhs_bits)))"

definition unary32_eval :: "float_arith \<Rightarrow> local_unary32_op \<Rightarrow> nat \<Rightarrow> u64 list \<Rightarrow> stack \<Rightarrow> vm_stop + u32" where
  "unary32_eval fp opn base ops st = rbind (local_i32 base 1 ops st) (\<lambda>src_bits. Inr (eval_local_unary32 fp opn src_bits))"

definition unary64_eval :: "float_arith \<Rightarrow> local_unary64_op \<Rightarrow> nat \<Rightarrow> u64 list \<Rightarrow> stack \<Rightarrow> vm_stop + u64" where
  "unary64_eval fp opn base ops st = rbind (local_i64 base 1 ops st) (\<lambda>src_bits. Inr (eval_local_unary64 fp opn src_bits))"

text \<open>The results of the fused operations; a kind that cannot be decoded is a panic.\<close>

definition eval_binop32_from_tail :: "float_arith \<Rightarrow> nat \<Rightarrow> u64 list \<Rightarrow> stack \<Rightarrow> vm_stop + u32" where
  "eval_binop32_from_tail fp base ops st =
     rbind (operand_u32 0 ops) (\<lambda>kind.
     rbind (ok_or VUndefined (decode_local_binop32_kind kind)) (\<lambda>descriptor. binop32_eval fp descriptor base ops st))"

definition eval_binop64_from_tail :: "float_arith \<Rightarrow> nat \<Rightarrow> u64 list \<Rightarrow> stack \<Rightarrow> vm_stop + u64" where
  "eval_binop64_from_tail fp base ops st =
     rbind (operand_u32 0 ops) (\<lambda>kind.
     rbind (ok_or VUndefined (decode_local_binop64_kind kind)) (\<lambda>descriptor. binop64_eval fp descriptor base ops st))"

definition eval_cmp32_from_tail :: "float_arith \<Rightarrow> nat \<Rightarrow> u64 list \<Rightarrow> stack \<Rightarrow> vm_stop + u32" where
  "eval_cmp32_from_tail fp base ops st =
     rbind (operand_u32 0 ops) (\<lambda>kind.
     rbind (ok_or VUndefined (decode_local_cmp32_kind kind)) (\<lambda>descriptor. cmp32_eval fp descriptor base ops st))"

definition eval_cmp64_from_tail :: "float_arith \<Rightarrow> nat \<Rightarrow> u64 list \<Rightarrow> stack \<Rightarrow> vm_stop + u32" where
  "eval_cmp64_from_tail fp base ops st =
     rbind (operand_u32 0 ops) (\<lambda>kind.
     rbind (ok_or VUndefined (decode_local_cmp64_kind kind)) (\<lambda>descriptor. cmp64_eval fp descriptor base ops st))"

definition eval_unary32_from_tail :: "float_arith \<Rightarrow> nat \<Rightarrow> u64 list \<Rightarrow> stack \<Rightarrow> vm_stop + u32" where
  "eval_unary32_from_tail fp base ops st =
     rbind (operand_u32 0 ops) (\<lambda>kind.
     rbind (ok_or VUndefined (decode_local_unary32_kind kind)) (\<lambda>descriptor. unary32_eval fp descriptor base ops st))"

definition eval_unary64_from_tail :: "float_arith \<Rightarrow> nat \<Rightarrow> u64 list \<Rightarrow> stack \<Rightarrow> vm_stop + u64" where
  "eval_unary64_from_tail fp base ops st =
     rbind (operand_u32 0 ops) (\<lambda>kind.
     rbind (ok_or VUndefined (decode_local_unary64_kind kind)) (\<lambda>descriptor. unary64_eval fp descriptor base ops st))"

definition eval_i32_const_binop_from_tail :: "float_arith \<Rightarrow> u64 list \<Rightarrow> stack \<Rightarrow> vm_stop + u32 \<times> stack" where
  "eval_i32_const_binop_from_tail fp ops st =
     rbind (operand_u32 0 ops) (\<lambda>kind.
     rbind (operand_u32 1 ops) (\<lambda>rhs.
     rbind (pop_u32 st) (\<lambda>(lhs, st).
     rbind (ok_or VUndefined (eval_stack_i32_const_binop fp kind lhs rhs)) (\<lambda>r. Inr (r, st)))))"

definition eval_i32_const_cmp_from_tail :: "float_arith \<Rightarrow> u64 list \<Rightarrow> stack \<Rightarrow> vm_stop + u32 \<times> stack" where
  "eval_i32_const_cmp_from_tail fp ops st =
     rbind (operand_u32 0 ops) (\<lambda>kind.
     rbind (operand_u32 1 ops) (\<lambda>rhs.
     rbind (pop_u32 st) (\<lambda>(lhs, st).
     rbind (ok_or VUndefined (eval_stack_i32_const_cmp fp kind lhs rhs)) (\<lambda>r. Inr (r, st)))))"

section \<open>Fused handlers\<close>

definition br_if_ptr :: "nat \<Rightarrow> nat \<Rightarrow> u32 \<Rightarrow> u64 list \<Rightarrow> stack \<Rightarrow> vm_stop + vm_next \<times> stack" where
  "br_if_ptr target_offset taken_advance cond ops st =
     (if cond \<noteq> 0 then rbind (operand_u32 target_offset ops) (\<lambda>jump_addr. Inr (Jump jump_addr, st))
      else call_next taken_advance st)"

text \<open>Storing a result in the local whose address is the operand \<open>k\<close>.\<close>

definition set_local4 :: "nat \<Rightarrow> nat \<Rightarrow> u64 list \<Rightarrow> u32 \<Rightarrow> stack \<Rightarrow> vm_stop + stack" where
  "set_local4 base k ops v st = rbind (operand_addr k ops) (\<lambda>dst. local_set4_from_base_value base dst v st)"

definition set_local8 :: "nat \<Rightarrow> nat \<Rightarrow> u64 list \<Rightarrow> u64 \<Rightarrow> stack \<Rightarrow> vm_stop + stack" where
  "set_local8 base k ops v st = rbind (operand_addr k ops) (\<lambda>dst. store_local8_bits base dst v st)"

definition op_local_get4_i32_const_add ::
  "nat \<Rightarrow> u64 list \<Rightarrow> stack \<Rightarrow> vm_stop + vm_next \<times> stack" where
  "op_local_get4_i32_const_add base ops st =
     rbind (local_i32 base 0 ops st) (\<lambda>x.
     rbind (operand_u32 1 ops) (\<lambda>imm.
     rbind (push_u32 (x + imm) st) (call_next 2)))"

definition op_local_get4_i32_const_add_set4 ::
  "nat \<Rightarrow> u64 list \<Rightarrow> stack \<Rightarrow> vm_stop + vm_next \<times> stack" where
  "op_local_get4_i32_const_add_set4 base ops st =
     rbind (local_i32 base 0 ops st) (\<lambda>x.
     rbind (operand_u32 1 ops) (\<lambda>imm.
     rbind (set_local4 base 2 ops (x + imm) st) (call_next 3)))"

definition op_local_get4_i32_const_add_tee4 ::
  "nat \<Rightarrow> u64 list \<Rightarrow> stack \<Rightarrow> vm_stop + vm_next \<times> stack" where
  "op_local_get4_i32_const_add_tee4 base ops st =
     rbind (local_i32 base 0 ops st) (\<lambda>x.
     rbind (operand_u32 1 ops) (\<lambda>imm.
     rbind (push_u32_fast (x + imm) st) (\<lambda>st. rbind (set_local4 base 2 ops (x + imm) st) (call_next 3))))"

definition op_local_get4_set4 ::
  "nat \<Rightarrow> u64 list \<Rightarrow> stack \<Rightarrow> vm_stop + vm_next \<times> stack" where
  "op_local_get4_set4 base ops st =
     rbind (local_i32 base 0 ops st) (\<lambda>x.
     rbind (set_local4 base 1 ops (x) st) (call_next 2))"

definition op_local_get4_tee4 ::
  "nat \<Rightarrow> u64 list \<Rightarrow> stack \<Rightarrow> vm_stop + vm_next \<times> stack" where
  "op_local_get4_tee4 base ops st =
     rbind (local_i32 base 0 ops st) (\<lambda>x.
     rbind (push_u32_fast (x) st) (\<lambda>st. rbind (set_local4 base 1 ops (x) st) (call_next 2)))"

definition op_local_get4_local_get4 ::
  "nat \<Rightarrow> u64 list \<Rightarrow> stack \<Rightarrow> vm_stop + vm_next \<times> stack" where
  "op_local_get4_local_get4 base ops st =
     rbind (local_i32 base 0 ops st) (\<lambda>x.
     rbind (local_i32 base 1 ops st) (\<lambda>y.
     rbind (push_u32_fast x st) (\<lambda>st.
     rbind (push_u32_fast (y) st) (call_next 2))))"

definition op_local_get4_local_get4_local_get4 ::
  "nat \<Rightarrow> u64 list \<Rightarrow> stack \<Rightarrow> vm_stop + vm_next \<times> stack" where
  "op_local_get4_local_get4_local_get4 base ops st =
     rbind (local_i32 base 0 ops st) (\<lambda>x.
     rbind (local_i32 base 1 ops st) (\<lambda>y.
     rbind (local_i32 base 2 ops st) (\<lambda>z.
     rbind (push_u32_fast x st) (\<lambda>st.
     rbind (push_u32_fast y st) (\<lambda>st.
     rbind (push_u32_fast (z) st) (call_next 3))))))"

definition local_get4x3_add_const_binop_add ::
  "float_arith \<Rightarrow> nat \<Rightarrow> u64 list \<Rightarrow> stack \<Rightarrow> vm_stop + u32" where
  "local_get4x3_add_const_binop_add fp base ops st =
     rbind (operand_u32 3 ops) (\<lambda>kind.
     rbind (operand_u32 4 ops) (\<lambda>rhs.
     rbind (local_i32 base 1 ops st) (\<lambda>y.
     rbind (local_i32 base 2 ops st) (\<lambda>z.
     rbind (ok_or VUndefined (eval_stack_i32_const_binop fp kind (y + z) rhs)) (\<lambda>adjusted.
     rbind (local_i32 base 0 ops st) (\<lambda>x.
     Inr (x + adjusted)))))))"

definition op_local_get4x3_i32_add_const_binop_i32_add_set4 ::
  "float_arith \<Rightarrow> nat \<Rightarrow> u64 list \<Rightarrow> stack \<Rightarrow> vm_stop + vm_next \<times> stack" where
  "op_local_get4x3_i32_add_const_binop_i32_add_set4 fp base ops st =
     rbind (local_get4x3_add_const_binop_add fp base ops st) (\<lambda>v.
     rbind (set_local4 base 5 ops v st) (\<lambda>st.
     rbind (operand_addr 6 ops) (\<lambda>skip.
     call_next skip st)))"

definition op_local_get4x3_i32_add_const_binop_i32_add_tee4 ::
  "float_arith \<Rightarrow> nat \<Rightarrow> u64 list \<Rightarrow> stack \<Rightarrow> vm_stop + vm_next \<times> stack" where
  "op_local_get4x3_i32_add_const_binop_i32_add_tee4 fp base ops st =
     rbind (local_get4x3_add_const_binop_add fp base ops st) (\<lambda>v.
     rbind (push_u32_fast v st) (\<lambda>st.
     rbind (set_local4 base 5 ops v st) (\<lambda>st.
     rbind (operand_addr 6 ops) (\<lambda>skip.
     call_next skip st))))"

text \<open>The loop over the addresses of a run, from \<open>index\<close> on.\<close>

fun push_run :: "nat \<Rightarrow> nat \<Rightarrow> nat \<Rightarrow> u64 list \<Rightarrow> stack \<Rightarrow> vm_stop + stack" where
  "push_run base 0 index ops st = Inr st"
| "push_run base (Suc n) index ops st =
     rbind (local_i32 base (1 + index) ops st) (\<lambda>v.
     rbind (push_u32_fast v st) (push_run base n (Suc index) ops))"

definition op_local_get4_run ::
  "nat \<Rightarrow> u64 list \<Rightarrow> stack \<Rightarrow> vm_stop + vm_next \<times> stack" where
  "op_local_get4_run base ops st =
     rbind (operand_addr 0 ops) (\<lambda>count.
     rbind (push_run base count 0 ops st) (\<lambda>st.
     call_next (1 + count) st))"

definition op_local_get4_run_skip ::
  "nat \<Rightarrow> u64 list \<Rightarrow> stack \<Rightarrow> vm_stop + vm_next \<times> stack" where
  "op_local_get4_run_skip base ops st =
     rbind (operand_addr 0 ops) (\<lambda>count.
     rbind (push_run base count 0 ops st) (\<lambda>st.
     rbind (operand_addr (1 + count) ops) (\<lambda>skip_slots.
     call_next skip_slots st)))"

definition op_i32_const_set4 ::
  "nat \<Rightarrow> u64 list \<Rightarrow> stack \<Rightarrow> vm_stop + vm_next \<times> stack" where
  "op_i32_const_set4 base ops st =
     rbind (operand_u32 0 ops) (\<lambda>v.
     rbind (set_local4 base 1 ops (v) st) (call_next 2))"

definition op_i32_const_tee4 ::
  "nat \<Rightarrow> u64 list \<Rightarrow> stack \<Rightarrow> vm_stop + vm_next \<times> stack" where
  "op_i32_const_tee4 base ops st =
     rbind (operand_u32 0 ops) (\<lambda>v.
     rbind (push_u32_fast (v) st) (\<lambda>st. rbind (set_local4 base 1 ops (v) st) (call_next 2)))"

definition op_local_get4_set4_local_get4_i32_const_compare_br_if ::
  "nat \<Rightarrow> u64 list \<Rightarrow> stack \<Rightarrow> vm_stop + vm_next \<times> stack" where
  "op_local_get4_set4_local_get4_i32_const_compare_br_if base ops st =
     rbind (operand_u32 3 ops) (\<lambda>kind.
     rbind (operand_u32 4 ops) (\<lambda>rhs.
     rbind (local_i32 base 0 ops st) (\<lambda>v.
     rbind (set_local4 base 1 ops v st) (\<lambda>st.
     rbind (local_i32 base 2 ops st) (\<lambda>lhs.
     br_if_ptr 5 6 (of_bool (i32_compare kind lhs rhs)) ops st)))))"

definition op_local_get4_local_get4_i32_add ::
  "nat \<Rightarrow> u64 list \<Rightarrow> stack \<Rightarrow> vm_stop + vm_next \<times> stack" where
  "op_local_get4_local_get4_i32_add base ops st =
     rbind (local_i32 base 0 ops st) (\<lambda>x.
     rbind (local_i32 base 1 ops st) (\<lambda>y.
     rbind (push_u32 (x + y) st) (call_next 2)))"

definition op_local_get4_local_get4_i32_add_set4 ::
  "nat \<Rightarrow> u64 list \<Rightarrow> stack \<Rightarrow> vm_stop + vm_next \<times> stack" where
  "op_local_get4_local_get4_i32_add_set4 base ops st =
     rbind (local_i32 base 0 ops st) (\<lambda>x.
     rbind (local_i32 base 1 ops st) (\<lambda>y.
     rbind (set_local4 base 2 ops (x + y) st) (call_next 3)))"

definition op_local_get4_local_get4_i32_add_tee4 ::
  "nat \<Rightarrow> u64 list \<Rightarrow> stack \<Rightarrow> vm_stop + vm_next \<times> stack" where
  "op_local_get4_local_get4_i32_add_tee4 base ops st =
     rbind (local_i32 base 0 ops st) (\<lambda>x.
     rbind (local_i32 base 1 ops st) (\<lambda>y.
     rbind (push_u32_fast (x + y) st) (\<lambda>st. rbind (set_local4 base 2 ops (x + y) st) (call_next 3))))"

definition op_local_get4_br_if ::
  "nat \<Rightarrow> u64 list \<Rightarrow> stack \<Rightarrow> vm_stop + vm_next \<times> stack" where
  "op_local_get4_br_if base ops st =
     rbind (local_i32 base 0 ops st) (\<lambda>cond.
     br_if_ptr 1 2 (cond) ops st)"

definition op_local_get4_i32_const_add_br_if ::
  "nat \<Rightarrow> u64 list \<Rightarrow> stack \<Rightarrow> vm_stop + vm_next \<times> stack" where
  "op_local_get4_i32_const_add_br_if base ops st =
     rbind (local_i32 base 0 ops st) (\<lambda>x.
     rbind (operand_u32 1 ops) (\<lambda>imm.
     br_if_ptr 2 3 (x + imm) ops st))"

definition op_local_get4_local_get4_i32_add_br_if ::
  "nat \<Rightarrow> u64 list \<Rightarrow> stack \<Rightarrow> vm_stop + vm_next \<times> stack" where
  "op_local_get4_local_get4_i32_add_br_if base ops st =
     rbind (local_i32 base 0 ops st) (\<lambda>x.
     rbind (local_i32 base 1 ops st) (\<lambda>y.
     br_if_ptr 2 3 (x + y) ops st))"

definition op_local_get4_i32_eqz_br_if ::
  "nat \<Rightarrow> u64 list \<Rightarrow> stack \<Rightarrow> vm_stop + vm_next \<times> stack" where
  "op_local_get4_i32_eqz_br_if base ops st =
     rbind (local_i32 base 0 ops st) (\<lambda>x.
     br_if_ptr 1 2 (of_bool (x = 0)) ops st)"

definition op_local_get4_i32_const_compare_br_if ::
  "nat \<Rightarrow> u64 list \<Rightarrow> stack \<Rightarrow> vm_stop + vm_next \<times> stack" where
  "op_local_get4_i32_const_compare_br_if base ops st =
     rbind (operand_u32 1 ops) (\<lambda>kind.
     rbind (operand_u32 2 ops) (\<lambda>rhs.
     rbind (local_i32 base 0 ops st) (\<lambda>lhs.
     br_if_ptr 3 4 (of_bool (i32_compare kind lhs rhs)) ops st)))"

definition op_local_get4_local_get4_compare_br_if ::
  "nat \<Rightarrow> u64 list \<Rightarrow> stack \<Rightarrow> vm_stop + vm_next \<times> stack" where
  "op_local_get4_local_get4_compare_br_if base ops st =
     rbind (operand_u32 2 ops) (\<lambda>kind.
     rbind (local_i32 base 0 ops st) (\<lambda>lhs.
     rbind (local_i32 base 1 ops st) (\<lambda>rhs.
     br_if_ptr 3 4 (of_bool (i32_compare kind lhs rhs)) ops st)))"

definition op_local_get4_i32_const_and_tee4_i32_const_eq_br_if ::
  "nat \<Rightarrow> u64 list \<Rightarrow> stack \<Rightarrow> vm_stop + vm_next \<times> stack" where
  "op_local_get4_i32_const_and_tee4_i32_const_eq_br_if base ops st =
     rbind (operand_u32 1 ops) (\<lambda>mask.
     rbind (operand_u32 3 ops) (\<lambda>rhs.
     rbind (local_i32 base 0 ops st) (\<lambda>x.
     rbind (set_local4 base 2 ops (x AND mask) st) (\<lambda>st.
     br_if_ptr 4 5 (of_bool (x AND mask = rhs)) ops st))))"

definition op_local_get4_i32_const_and_i32_const_compare_br_if ::
  "nat \<Rightarrow> u64 list \<Rightarrow> stack \<Rightarrow> vm_stop + vm_next \<times> stack" where
  "op_local_get4_i32_const_and_i32_const_compare_br_if base ops st =
     rbind (operand_u32 1 ops) (\<lambda>mask.
     rbind (operand_u32 2 ops) (\<lambda>kind.
     rbind (operand_u32 3 ops) (\<lambda>rhs.
     rbind (local_i32 base 0 ops st) (\<lambda>x.
     br_if_ptr 4 5 (of_bool (i32_compare kind (x AND mask) rhs)) ops st))))"

definition op_local_get4_i32_const_add_i32_const_and_i32_const_compare_br_if ::
  "nat \<Rightarrow> u64 list \<Rightarrow> stack \<Rightarrow> vm_stop + vm_next \<times> stack" where
  "op_local_get4_i32_const_add_i32_const_and_i32_const_compare_br_if base ops st =
     rbind (operand_u32 1 ops) (\<lambda>imm.
     rbind (operand_u32 2 ops) (\<lambda>mask.
     rbind (operand_u32 3 ops) (\<lambda>kind.
     rbind (operand_u32 4 ops) (\<lambda>rhs.
     rbind (local_i32 base 0 ops st) (\<lambda>x.
     br_if_ptr 5 6 (of_bool (i32_compare kind ((x + imm) AND mask) rhs)) ops st)))))"

definition op_local_get4_i32_const_and_br_if ::
  "nat \<Rightarrow> u64 list \<Rightarrow> stack \<Rightarrow> vm_stop + vm_next \<times> stack" where
  "op_local_get4_i32_const_and_br_if base ops st =
     rbind (operand_u32 1 ops) (\<lambda>mask.
     rbind (local_i32 base 0 ops st) (\<lambda>x.
     br_if_ptr 2 3 (x AND mask) ops st))"

definition op_local_get4_i32_const_and_eqz_br_if ::
  "nat \<Rightarrow> u64 list \<Rightarrow> stack \<Rightarrow> vm_stop + vm_next \<times> stack" where
  "op_local_get4_i32_const_and_eqz_br_if base ops st =
     rbind (operand_u32 1 ops) (\<lambda>mask.
     rbind (local_i32 base 0 ops st) (\<lambda>x.
     br_if_ptr 2 3 (of_bool (x AND mask = 0)) ops st))"

definition op_local_get4_i32_const_add_tee4_br_if ::
  "nat \<Rightarrow> u64 list \<Rightarrow> stack \<Rightarrow> vm_stop + vm_next \<times> stack" where
  "op_local_get4_i32_const_add_tee4_br_if base ops st =
     rbind (local_i32 base 0 ops st) (\<lambda>x.
     rbind (operand_u32 1 ops) (\<lambda>imm.
     rbind (set_local4 base 2 ops (x + imm) st) (\<lambda>st.
     br_if_ptr 3 4 (x + imm) ops st)))"

definition op_local_binop32 ::
  "float_arith \<Rightarrow> nat \<Rightarrow> u64 list \<Rightarrow> stack \<Rightarrow> vm_stop + vm_next \<times> stack" where
  "op_local_binop32 fp base ops st =
     rbind (eval_binop32_from_tail fp base ops st) (\<lambda>v.
     rbind (push_u32_fast (v) st) (call_next 3))"

definition op_local_binop32_set4 ::
  "float_arith \<Rightarrow> nat \<Rightarrow> u64 list \<Rightarrow> stack \<Rightarrow> vm_stop + vm_next \<times> stack" where
  "op_local_binop32_set4 fp base ops st =
     rbind (eval_binop32_from_tail fp base ops st) (\<lambda>v.
     rbind (set_local4 base 3 ops (v) st) (call_next 4))"

definition op_local_binop32_tee4 ::
  "float_arith \<Rightarrow> nat \<Rightarrow> u64 list \<Rightarrow> stack \<Rightarrow> vm_stop + vm_next \<times> stack" where
  "op_local_binop32_tee4 fp base ops st =
     rbind (eval_binop32_from_tail fp base ops st) (\<lambda>v.
     rbind (push_u32_fast (v) st) (\<lambda>st. rbind (set_local4 base 3 ops (v) st) (call_next 4)))"

definition op_local_binop32_br_if ::
  "float_arith \<Rightarrow> nat \<Rightarrow> u64 list \<Rightarrow> stack \<Rightarrow> vm_stop + vm_next \<times> stack" where
  "op_local_binop32_br_if fp base ops st =
     rbind (eval_binop32_from_tail fp base ops st) (\<lambda>v.
     br_if_ptr 3 4 (v) ops st)"

definition op_i32_const_binop ::
  "float_arith \<Rightarrow> nat \<Rightarrow> u64 list \<Rightarrow> stack \<Rightarrow> vm_stop + vm_next \<times> stack" where
  "op_i32_const_binop fp base ops st =
     rbind (eval_i32_const_binop_from_tail fp ops st) (\<lambda>(v, st).
     rbind (push_u32_fast (v) st) (call_next 2))"

definition op_i32_const_binop_set4 ::
  "float_arith \<Rightarrow> nat \<Rightarrow> u64 list \<Rightarrow> stack \<Rightarrow> vm_stop + vm_next \<times> stack" where
  "op_i32_const_binop_set4 fp base ops st =
     rbind (eval_i32_const_binop_from_tail fp ops st) (\<lambda>(v, st).
     rbind (set_local4 base 2 ops (v) st) (call_next 3))"

definition op_i32_const_binop_tee4 ::
  "float_arith \<Rightarrow> nat \<Rightarrow> u64 list \<Rightarrow> stack \<Rightarrow> vm_stop + vm_next \<times> stack" where
  "op_i32_const_binop_tee4 fp base ops st =
     rbind (eval_i32_const_binop_from_tail fp ops st) (\<lambda>(v, st).
     rbind (push_u32_fast (v) st) (\<lambda>st. rbind (set_local4 base 2 ops (v) st) (call_next 3)))"

definition op_i32_const_binop_br_if ::
  "float_arith \<Rightarrow> nat \<Rightarrow> u64 list \<Rightarrow> stack \<Rightarrow> vm_stop + vm_next \<times> stack" where
  "op_i32_const_binop_br_if fp base ops st =
     rbind (eval_i32_const_binop_from_tail fp ops st) (\<lambda>(v, st).
     br_if_ptr 2 3 (v) ops st)"

definition op_i32_const_cmp ::
  "float_arith \<Rightarrow> nat \<Rightarrow> u64 list \<Rightarrow> stack \<Rightarrow> vm_stop + vm_next \<times> stack" where
  "op_i32_const_cmp fp base ops st =
     rbind (eval_i32_const_cmp_from_tail fp ops st) (\<lambda>(v, st).
     rbind (push_u32_fast (v) st) (call_next 2))"

definition op_i32_const_cmp_set4 ::
  "float_arith \<Rightarrow> nat \<Rightarrow> u64 list \<Rightarrow> stack \<Rightarrow> vm_stop + vm_next \<times> stack" where
  "op_i32_const_cmp_set4 fp base ops st =
     rbind (eval_i32_const_cmp_from_tail fp ops st) (\<lambda>(v, st).
     rbind (set_local4 base 2 ops (v) st) (call_next 3))"

definition op_i32_const_cmp_tee4 ::
  "float_arith \<Rightarrow> nat \<Rightarrow> u64 list \<Rightarrow> stack \<Rightarrow> vm_stop + vm_next \<times> stack" where
  "op_i32_const_cmp_tee4 fp base ops st =
     rbind (eval_i32_const_cmp_from_tail fp ops st) (\<lambda>(v, st).
     rbind (push_u32_fast (v) st) (\<lambda>st. rbind (set_local4 base 2 ops (v) st) (call_next 3)))"

definition op_i32_const_cmp_br_if ::
  "float_arith \<Rightarrow> nat \<Rightarrow> u64 list \<Rightarrow> stack \<Rightarrow> vm_stop + vm_next \<times> stack" where
  "op_i32_const_cmp_br_if fp base ops st =
     rbind (eval_i32_const_cmp_from_tail fp ops st) (\<lambda>(v, st).
     br_if_ptr 2 3 (v) ops st)"

definition op_local_binop64 ::
  "float_arith \<Rightarrow> nat \<Rightarrow> u64 list \<Rightarrow> stack \<Rightarrow> vm_stop + vm_next \<times> stack" where
  "op_local_binop64 fp base ops st =
     rbind (eval_binop64_from_tail fp base ops st) (\<lambda>v.
     rbind (push_u64_fast v st) (call_next 3))"

definition op_local_binop64_set8 ::
  "float_arith \<Rightarrow> nat \<Rightarrow> u64 list \<Rightarrow> stack \<Rightarrow> vm_stop + vm_next \<times> stack" where
  "op_local_binop64_set8 fp base ops st =
     rbind (eval_binop64_from_tail fp base ops st) (\<lambda>v.
     rbind (set_local8 base 3 ops v st) (call_next 4))"

definition op_local_binop64_tee8 ::
  "float_arith \<Rightarrow> nat \<Rightarrow> u64 list \<Rightarrow> stack \<Rightarrow> vm_stop + vm_next \<times> stack" where
  "op_local_binop64_tee8 fp base ops st =
     rbind (eval_binop64_from_tail fp base ops st) (\<lambda>v.
     rbind (push_u64_fast v st) (\<lambda>st. rbind (set_local8 base 3 ops v st) (call_next 4)))"

definition op_local_cmp32 ::
  "float_arith \<Rightarrow> nat \<Rightarrow> u64 list \<Rightarrow> stack \<Rightarrow> vm_stop + vm_next \<times> stack" where
  "op_local_cmp32 fp base ops st =
     rbind (eval_cmp32_from_tail fp base ops st) (\<lambda>v.
     rbind (push_u32_fast (v) st) (call_next 3))"

definition op_local_cmp32_set4 ::
  "float_arith \<Rightarrow> nat \<Rightarrow> u64 list \<Rightarrow> stack \<Rightarrow> vm_stop + vm_next \<times> stack" where
  "op_local_cmp32_set4 fp base ops st =
     rbind (eval_cmp32_from_tail fp base ops st) (\<lambda>v.
     rbind (set_local4 base 3 ops (v) st) (call_next 4))"

definition op_local_cmp32_tee4 ::
  "float_arith \<Rightarrow> nat \<Rightarrow> u64 list \<Rightarrow> stack \<Rightarrow> vm_stop + vm_next \<times> stack" where
  "op_local_cmp32_tee4 fp base ops st =
     rbind (eval_cmp32_from_tail fp base ops st) (\<lambda>v.
     rbind (push_u32_fast (v) st) (\<lambda>st. rbind (set_local4 base 3 ops (v) st) (call_next 4)))"

definition op_local_cmp32_br_if ::
  "float_arith \<Rightarrow> nat \<Rightarrow> u64 list \<Rightarrow> stack \<Rightarrow> vm_stop + vm_next \<times> stack" where
  "op_local_cmp32_br_if fp base ops st =
     rbind (eval_cmp32_from_tail fp base ops st) (\<lambda>v.
     br_if_ptr 3 4 (v) ops st)"

definition op_local_cmp64 ::
  "float_arith \<Rightarrow> nat \<Rightarrow> u64 list \<Rightarrow> stack \<Rightarrow> vm_stop + vm_next \<times> stack" where
  "op_local_cmp64 fp base ops st =
     rbind (eval_cmp64_from_tail fp base ops st) (\<lambda>v.
     rbind (push_u32_fast (v) st) (call_next 3))"

definition op_local_cmp64_set4 ::
  "float_arith \<Rightarrow> nat \<Rightarrow> u64 list \<Rightarrow> stack \<Rightarrow> vm_stop + vm_next \<times> stack" where
  "op_local_cmp64_set4 fp base ops st =
     rbind (eval_cmp64_from_tail fp base ops st) (\<lambda>v.
     rbind (set_local4 base 3 ops (v) st) (call_next 4))"

definition op_local_cmp64_tee4 ::
  "float_arith \<Rightarrow> nat \<Rightarrow> u64 list \<Rightarrow> stack \<Rightarrow> vm_stop + vm_next \<times> stack" where
  "op_local_cmp64_tee4 fp base ops st =
     rbind (eval_cmp64_from_tail fp base ops st) (\<lambda>v.
     rbind (push_u32_fast (v) st) (\<lambda>st. rbind (set_local4 base 3 ops (v) st) (call_next 4)))"

definition op_local_cmp64_br_if ::
  "float_arith \<Rightarrow> nat \<Rightarrow> u64 list \<Rightarrow> stack \<Rightarrow> vm_stop + vm_next \<times> stack" where
  "op_local_cmp64_br_if fp base ops st =
     rbind (eval_cmp64_from_tail fp base ops st) (\<lambda>v.
     br_if_ptr 3 4 (v) ops st)"

definition op_local_unary32 ::
  "float_arith \<Rightarrow> nat \<Rightarrow> u64 list \<Rightarrow> stack \<Rightarrow> vm_stop + vm_next \<times> stack" where
  "op_local_unary32 fp base ops st =
     rbind (eval_unary32_from_tail fp base ops st) (\<lambda>v.
     rbind (push_u32_fast (v) st) (call_next 2))"

definition op_local_unary32_set4 ::
  "float_arith \<Rightarrow> nat \<Rightarrow> u64 list \<Rightarrow> stack \<Rightarrow> vm_stop + vm_next \<times> stack" where
  "op_local_unary32_set4 fp base ops st =
     rbind (eval_unary32_from_tail fp base ops st) (\<lambda>v.
     rbind (set_local4 base 2 ops (v) st) (call_next 3))"

definition op_local_unary32_tee4 ::
  "float_arith \<Rightarrow> nat \<Rightarrow> u64 list \<Rightarrow> stack \<Rightarrow> vm_stop + vm_next \<times> stack" where
  "op_local_unary32_tee4 fp base ops st =
     rbind (eval_unary32_from_tail fp base ops st) (\<lambda>v.
     rbind (push_u32_fast (v) st) (\<lambda>st. rbind (set_local4 base 2 ops (v) st) (call_next 3)))"

definition op_local_unary64 ::
  "float_arith \<Rightarrow> nat \<Rightarrow> u64 list \<Rightarrow> stack \<Rightarrow> vm_stop + vm_next \<times> stack" where
  "op_local_unary64 fp base ops st =
     rbind (eval_unary64_from_tail fp base ops st) (\<lambda>v.
     rbind (push_u64_fast v st) (call_next 2))"

definition op_local_unary64_set8 ::
  "float_arith \<Rightarrow> nat \<Rightarrow> u64 list \<Rightarrow> stack \<Rightarrow> vm_stop + vm_next \<times> stack" where
  "op_local_unary64_set8 fp base ops st =
     rbind (eval_unary64_from_tail fp base ops st) (\<lambda>v.
     rbind (set_local8 base 2 ops v st) (call_next 3))"

definition op_local_unary64_tee8 ::
  "float_arith \<Rightarrow> nat \<Rightarrow> u64 list \<Rightarrow> stack \<Rightarrow> vm_stop + vm_next \<times> stack" where
  "op_local_unary64_tee8 fp base ops st =
     rbind (eval_unary64_from_tail fp base ops st) (\<lambda>v.
     rbind (push_u64_fast v st) (\<lambda>st. rbind (set_local8 base 2 ops v st) (call_next 3)))"

end
