(* ===== verification/Fused_Sequences.thy ===== *)
theory Fused_Sequences
  imports Fused_Instructions
begin

text \<open>
  The sequences of plain instructions that the fused instructions replace.  A fused instruction is
  described by where its value comes from and what becomes of it; the theory gives the plain
  instructions it stands for, its handler and its operand slots, and the effect of every plain
  instruction on a stack of raw operands above the bytes that hold the locals.
\<close>

section \<open>Plain instructions\<close>

definition op_br_if :: "u64 list \<Rightarrow> stack \<Rightarrow> vm_stop + vm_next \<times> stack" where
  "op_br_if ops st =
     rbind (pop_u32 st) (\<lambda>(cond, st).
       if cond \<noteq> 0 then rbind (operand_u32 0 ops) (\<lambda>addr. Inr (Jump addr, st)) else call_next 1 st)"

datatype plain_inst =
    Get4 u32 | Set4 u32 | Tee4 u32 | Get8 u32 | Set8 u32 | Tee8 u32
  | ConstI32 u32 | ConstF32 u32 | ConstI64 u64 | ConstF64 u64
  | Binop32 local_binop32_op | Binop64 local_binop64_op | Cmp32 local_cmp32_op | Cmp64 local_cmp64_op
  | Unary32 local_unary32_op | Unary64 local_unary64_op
  | Eqz32op | Select4 | BrIf u32

definition plain_binop32 :: "float_arith \<Rightarrow> local_binop32_op \<Rightarrow> stack \<Rightarrow> vm_stop + stack" where
  "plain_binop32 fp opn =
     (case opn of
        I32Add \<Rightarrow> op_i32_add | I32Sub \<Rightarrow> op_i32_sub | I32Mul \<Rightarrow> op_i32_mul | I32And \<Rightarrow> op_i32_and | I32Or \<Rightarrow> op_i32_or
      | I32Xor \<Rightarrow> op_i32_xor | I32Shl \<Rightarrow> op_i32_shl | I32ShrS \<Rightarrow> op_i32_shr_s | I32ShrU \<Rightarrow> op_i32_shr_u
      | I32Rotl \<Rightarrow> op_i32_rotl | I32Rotr \<Rightarrow> op_i32_rotr
      | F32Add \<Rightarrow> op_f32_add fp | F32Sub \<Rightarrow> op_f32_sub fp | F32Mul \<Rightarrow> op_f32_mul fp | F32Div \<Rightarrow> op_f32_div fp)"

definition plain_binop64 :: "float_arith \<Rightarrow> local_binop64_op \<Rightarrow> stack \<Rightarrow> vm_stop + stack" where
  "plain_binop64 fp opn =
     (case opn of
        I64Add \<Rightarrow> op_i64_add | I64Sub \<Rightarrow> op_i64_sub | I64Mul \<Rightarrow> op_i64_mul | I64And \<Rightarrow> op_i64_and | I64Or \<Rightarrow> op_i64_or
      | I64Xor \<Rightarrow> op_i64_xor | I64Shl \<Rightarrow> op_i64_shl | I64ShrS \<Rightarrow> op_i64_shr_s | I64ShrU \<Rightarrow> op_i64_shr_u
      | I64Rotl \<Rightarrow> op_i64_rotl | I64Rotr \<Rightarrow> op_i64_rotr
      | F64Add \<Rightarrow> op_f64_add fp | F64Sub \<Rightarrow> op_f64_sub fp | F64Mul \<Rightarrow> op_f64_mul fp | F64Div \<Rightarrow> op_f64_div fp)"

definition plain_cmp32 :: "float_arith \<Rightarrow> local_cmp32_op \<Rightarrow> stack \<Rightarrow> vm_stop + stack" where
  "plain_cmp32 fp opn =
     (case opn of
        I32Eq \<Rightarrow> op_i32_eq | I32Ne \<Rightarrow> op_i32_ne | I32LtS \<Rightarrow> op_i32_lt_s | I32LtU \<Rightarrow> op_i32_lt_u | I32GtS \<Rightarrow> op_i32_gt_s
      | I32GtU \<Rightarrow> op_i32_gt_u | I32LeS \<Rightarrow> op_i32_le_s | I32LeU \<Rightarrow> op_i32_le_u | I32GeS \<Rightarrow> op_i32_ge_s | I32GeU \<Rightarrow> op_i32_ge_u
      | F32Eq \<Rightarrow> op_f32_eq fp | F32Ne \<Rightarrow> op_f32_ne fp | F32Lt \<Rightarrow> op_f32_lt fp | F32Gt \<Rightarrow> op_f32_gt fp | F32Le \<Rightarrow> op_f32_le fp
      | F32Ge \<Rightarrow> op_f32_ge fp)"

definition plain_cmp64 :: "float_arith \<Rightarrow> local_cmp64_op \<Rightarrow> stack \<Rightarrow> vm_stop + stack" where
  "plain_cmp64 fp opn =
     (case opn of
        I64Eq \<Rightarrow> op_i64_eq | I64Ne \<Rightarrow> op_i64_ne | I64LtS \<Rightarrow> op_i64_lt_s | I64LtU \<Rightarrow> op_i64_lt_u | I64GtS \<Rightarrow> op_i64_gt_s
      | I64GtU \<Rightarrow> op_i64_gt_u | I64LeS \<Rightarrow> op_i64_le_s | I64LeU \<Rightarrow> op_i64_le_u | I64GeS \<Rightarrow> op_i64_ge_s | I64GeU \<Rightarrow> op_i64_ge_u
      | F64Eq \<Rightarrow> op_f64_eq fp | F64Ne \<Rightarrow> op_f64_ne fp | F64Lt \<Rightarrow> op_f64_lt fp | F64Gt \<Rightarrow> op_f64_gt fp | F64Le \<Rightarrow> op_f64_le fp
      | F64Ge \<Rightarrow> op_f64_ge fp)"

definition plain_unary32 :: "float_arith \<Rightarrow> local_unary32_op \<Rightarrow> stack \<Rightarrow> vm_stop + stack" where
  "plain_unary32 fp opn =
     (case opn of
        I32Clz \<Rightarrow> op_i32_clz | I32Ctz \<Rightarrow> op_i32_ctz | I32Popcnt \<Rightarrow> op_i32_popcnt
      | F32Abs \<Rightarrow> op_f32_abs fp | F32Neg \<Rightarrow> op_f32_neg fp | F32Sqrt \<Rightarrow> op_f32_sqrt fp | F32Ceil \<Rightarrow> op_f32_ceil fp
      | F32Floor \<Rightarrow> op_f32_floor fp | F32Trunc \<Rightarrow> op_f32_trunc fp | F32Nearest \<Rightarrow> op_f32_nearest fp)"

definition plain_unary64 :: "float_arith \<Rightarrow> local_unary64_op \<Rightarrow> stack \<Rightarrow> vm_stop + stack" where
  "plain_unary64 fp opn =
     (case opn of
        I64Clz \<Rightarrow> op_i64_clz | I64Ctz \<Rightarrow> op_i64_ctz | I64Popcnt \<Rightarrow> op_i64_popcnt
      | F64Abs \<Rightarrow> op_f64_abs fp | F64Neg \<Rightarrow> op_f64_neg fp | F64Sqrt \<Rightarrow> op_f64_sqrt fp | F64Ceil \<Rightarrow> op_f64_ceil fp
      | F64Floor \<Rightarrow> op_f64_floor fp | F64Trunc \<Rightarrow> op_f64_trunc fp | F64Nearest \<Rightarrow> op_f64_nearest fp)"

text \<open>The handler of a plain instruction; the address of a local and the target of a branch are its operand.\<close>

definition run_plain :: "float_arith \<Rightarrow> nat \<Rightarrow> plain_inst \<Rightarrow> stack \<Rightarrow> vm_stop + vm_next \<times> stack" where
  "run_plain fp base p st =
     (case p of
        Get4 a \<Rightarrow> op_local_get4 base [ucast a] st | Set4 a \<Rightarrow> op_local_set4 base [ucast a] st | Tee4 a \<Rightarrow> op_local_tee4 base [ucast a] st
      | Get8 a \<Rightarrow> op_local_get8 base [ucast a] st | Set8 a \<Rightarrow> op_local_set8 base [ucast a] st | Tee8 a \<Rightarrow> op_local_tee8 base [ucast a] st
      | ConstI32 v \<Rightarrow> rbind (op_i32_const v st) (call_next 1) | ConstF32 v \<Rightarrow> rbind (op_f32_const v st) (call_next 1)
      | ConstI64 v \<Rightarrow> rbind (op_i64_const v st) (call_next 1) | ConstF64 v \<Rightarrow> rbind (op_f64_const v st) (call_next 1)
      | Binop32 opn \<Rightarrow> rbind (plain_binop32 fp opn st) (call_next 0) | Binop64 opn \<Rightarrow> rbind (plain_binop64 fp opn st) (call_next 0)
      | Cmp32 opn \<Rightarrow> rbind (plain_cmp32 fp opn st) (call_next 0) | Cmp64 opn \<Rightarrow> rbind (plain_cmp64 fp opn st) (call_next 0)
      | Unary32 opn \<Rightarrow> rbind (plain_unary32 fp opn st) (call_next 0) | Unary64 opn \<Rightarrow> rbind (plain_unary64 fp opn st) (call_next 0)
      | Eqz32op \<Rightarrow> rbind (op_i32_eqz st) (call_next 0) | Select4 \<Rightarrow> op_select4 [] st | BrIf t \<Rightarrow> op_br_if [ucast t] st)"

text \<open>A sequence is left by the first branch that is taken.\<close>

fun run_plains :: "float_arith \<Rightarrow> nat \<Rightarrow> plain_inst list \<Rightarrow> stack \<Rightarrow> vm_stop + u32 option \<times> stack" where
  "run_plains fp base [] st = Inr (None, st)"
| "run_plains fp base (p # ps) st =
     rbind (run_plain fp base p st) (\<lambda>(n, st).
       case n of Jump t \<Rightarrow> Inr (Some t, st) | Next _ \<Rightarrow> run_plains fp base ps st)"

section \<open>Fused instructions and their sequences\<close>

datatype 'c rhs = LocalRhs u32 | ConstRhs 'c

text \<open>Where a 32-bit or 64-bit value comes from, and what becomes of a 32-bit or 64-bit value.\<close>

datatype source4 =
    AddConst u32 u32 | AddLocals u32 u32 | Copy u32 | Const u32 | IsZero u32
  | CompareConst u32 local_cmp32_op u32 | CompareLocals u32 u32 local_cmp32_op
  | AndConst u32 u32 | AndConstIsZero u32 u32 | AndCompare u32 u32 local_cmp32_op u32
  | AddAndCompare u32 u32 u32 local_cmp32_op u32
  | LocalBinop32 local_binop32_op u32 "u32 rhs" | LocalCmp32 local_cmp32_op u32 "u32 rhs" | LocalCmp64 local_cmp64_op u32 "u64 rhs"
  | LocalUnary32 local_unary32_op u32
  | TopBinop local_binop32_op u32 | TopCmp local_cmp32_op u32 | TopSelect

datatype source8 = LocalBinop64 local_binop64_op u32 "u64 rhs" | LocalUnary64 local_unary64_op u32

datatype use4 = Push | Set u32 | Tee u32 | Branch u32
datatype use8 = Push8 | SetLong u32 | TeeLong u32

datatype fused =
    Fuse4 source4 use4 | Fuse8 source8 use8
  | Gets2 u32 u32 | Gets3 u32 u32 u32 | Run "u32 list" | RunSkip "u32 list" u32
  | Indexed u32 u32 u32 local_binop32_op u32 use4 u32
  | CopyCompareBranch u32 u32 u32 local_cmp32_op u32 u32
  | AndTeeEqBranch u32 u32 u32 u32 u32
  | AddTeeBranch u32 u32 u32 u32

definition rhs4_code :: "local_fast_const_kind \<Rightarrow> u32 rhs \<Rightarrow> plain_inst" where
  "rhs4_code k r = (case r of LocalRhs a \<Rightarrow> Get4 a | ConstRhs v \<Rightarrow> if k = KindF32 then ConstF32 v else ConstI32 v)"

definition rhs8_code :: "local_fast_const_kind \<Rightarrow> u64 rhs \<Rightarrow> plain_inst" where
  "rhs8_code k r = (case r of LocalRhs a \<Rightarrow> Get8 a | ConstRhs v \<Rightarrow> if k = KindF64 then ConstF64 v else ConstI64 v)"

fun source4_code :: "source4 \<Rightarrow> plain_inst list" where
  "source4_code (AddConst a k) = [Get4 a, ConstI32 k, Binop32 I32Add]"
| "source4_code (AddLocals a b) = [Get4 a, Get4 b, Binop32 I32Add]"
| "source4_code (Copy a) = [Get4 a]"
| "source4_code (Const k) = [ConstI32 k]"
| "source4_code (IsZero a) = [Get4 a, Eqz32op]"
| "source4_code (CompareConst a opn k) = [Get4 a, ConstI32 k, Cmp32 opn]"
| "source4_code (CompareLocals a b opn) = [Get4 a, Get4 b, Cmp32 opn]"
| "source4_code (AndConst a m) = [Get4 a, ConstI32 m, Binop32 I32And]"
| "source4_code (AndConstIsZero a m) = [Get4 a, ConstI32 m, Binop32 I32And, Eqz32op]"
| "source4_code (AndCompare a m opn k) = [Get4 a, ConstI32 m, Binop32 I32And, ConstI32 k, Cmp32 opn]"
| "source4_code (AddAndCompare a i m opn k) =
     [Get4 a, ConstI32 i, Binop32 I32Add, ConstI32 m, Binop32 I32And, ConstI32 k, Cmp32 opn]"
| "source4_code (LocalBinop32 opn a r) = [Get4 a, rhs4_code (binop32_const_kind opn) r, Binop32 opn]"
| "source4_code (LocalCmp32 opn a r) = [Get4 a, rhs4_code (cmp32_const_kind opn) r, Cmp32 opn]"
| "source4_code (LocalCmp64 opn a r) = [Get8 a, rhs8_code (cmp64_const_kind opn) r, Cmp64 opn]"
| "source4_code (LocalUnary32 opn a) = [Get4 a, Unary32 opn]"
| "source4_code (TopBinop opn k) = [ConstI32 k, Binop32 opn]"
| "source4_code (TopCmp opn k) = [ConstI32 k, Cmp32 opn]"
| "source4_code TopSelect = [Select4]"

fun source8_code :: "source8 \<Rightarrow> plain_inst list" where
  "source8_code (LocalBinop64 opn a r) = [Get8 a, rhs8_code (binop64_const_kind opn) r, Binop64 opn]"
| "source8_code (LocalUnary64 opn a) = [Get8 a, Unary64 opn]"

fun use4_code :: "use4 \<Rightarrow> plain_inst list" where
  "use4_code Push = []" | "use4_code (Set d) = [Set4 d]" | "use4_code (Tee d) = [Tee4 d]" | "use4_code (Branch t) = [BrIf t]"

fun use8_code :: "use8 \<Rightarrow> plain_inst list" where
  "use8_code Push8 = []" | "use8_code (SetLong d) = [Set8 d]" | "use8_code (TeeLong d) = [Tee8 d]"

text \<open>The plain instructions that a fused instruction replaces.\<close>

fun sequence :: "fused \<Rightarrow> plain_inst list" where
  "sequence (Fuse4 s u) = source4_code s @ use4_code u"
| "sequence (Fuse8 s u) = source8_code s @ use8_code u"
| "sequence (Gets2 a b) = [Get4 a, Get4 b]"
| "sequence (Gets3 a b c) = [Get4 a, Get4 b, Get4 c]"
| "sequence (Run addrs) = map Get4 addrs"
| "sequence (RunSkip addrs skip) = map Get4 addrs"
| "sequence (Indexed a b c opn k u skip) =
     [Get4 a, Get4 b, Get4 c, Binop32 I32Add, ConstI32 k, Binop32 opn, Binop32 I32Add] @ use4_code u"
| "sequence (CopyCompareBranch src dst lhs opn k t) = [Get4 src, Set4 dst, Get4 lhs, ConstI32 k, Cmp32 opn, BrIf t]"
| "sequence (AndTeeEqBranch a m d k t) = [Get4 a, ConstI32 m, Binop32 I32And, Tee4 d, ConstI32 k, Cmp32 I32Eq, BrIf t]"
| "sequence (AddTeeBranch a k d t) = [Get4 a, ConstI32 k, Binop32 I32Add, Tee4 d, BrIf t]"

text \<open>The operand slots of a fused instruction.\<close>

definition slot32 :: "u32 \<Rightarrow> u64" where
  "slot32 v = ucast v"

fun rhs4_shape :: "'c rhs \<Rightarrow> local_fast_rhs_shape" where
  "rhs4_shape (LocalRhs _) = RhsLocal" | "rhs4_shape (ConstRhs _) = RhsConst"

definition rhs4_slot :: "u32 rhs \<Rightarrow> u64" where
  "rhs4_slot r = (case r of LocalRhs a \<Rightarrow> slot32 a | ConstRhs v \<Rightarrow> slot32 v)"

definition rhs8_slot :: "u64 rhs \<Rightarrow> u64" where
  "rhs8_slot r = (case r of LocalRhs a \<Rightarrow> slot32 a | ConstRhs v \<Rightarrow> v)"

text \<open>The kinds of comparisons that \<open>i32_compare\<close> knows are the first ten.\<close>

definition compare_kind :: "local_cmp32_op \<Rightarrow> u64" where
  "compare_kind opn = slot32 (variant_index cmp32_variants opn)"

fun source4_slots :: "source4 \<Rightarrow> u64 list" where
  "source4_slots (AddConst a k) = [slot32 a, slot32 k]"
| "source4_slots (AddLocals a b) = [slot32 a, slot32 b]"
| "source4_slots (Copy a) = [slot32 a]"
| "source4_slots (Const k) = [slot32 k]"
| "source4_slots (IsZero a) = [slot32 a]"
| "source4_slots (CompareConst a opn k) = [slot32 a, compare_kind opn, slot32 k]"
| "source4_slots (CompareLocals a b opn) = [slot32 a, slot32 b, compare_kind opn]"
| "source4_slots (AndConst a m) = [slot32 a, slot32 m]"
| "source4_slots (AndConstIsZero a m) = [slot32 a, slot32 m]"
| "source4_slots (AndCompare a m opn k) = [slot32 a, slot32 m, compare_kind opn, slot32 k]"
| "source4_slots (AddAndCompare a i m opn k) = [slot32 a, slot32 i, slot32 m, compare_kind opn, slot32 k]"
| "source4_slots (LocalBinop32 opn a r) = [slot32 (encode_local_binop32_kind opn (rhs4_shape r)), slot32 a, rhs4_slot r]"
| "source4_slots (LocalCmp32 opn a r) = [slot32 (encode_local_cmp32_kind opn (rhs4_shape r)), slot32 a, rhs4_slot r]"
| "source4_slots (LocalCmp64 opn a r) = [slot32 (encode_local_cmp64_kind opn (rhs4_shape r)), slot32 a, rhs8_slot r]"
| "source4_slots (LocalUnary32 opn a) = [slot32 (encode_local_unary32_kind opn), slot32 a]"
| "source4_slots (TopBinop opn k) = [slot32 (encode_local_binop32_kind opn RhsConst), slot32 k]"
| "source4_slots (TopCmp opn k) = [slot32 (encode_local_cmp32_kind opn RhsConst), slot32 k]"
| "source4_slots TopSelect = []"

fun source8_slots :: "source8 \<Rightarrow> u64 list" where
  "source8_slots (LocalBinop64 opn a r) = [slot32 (encode_local_binop64_kind opn (rhs4_shape r)), slot32 a, rhs8_slot r]"
| "source8_slots (LocalUnary64 opn a) = [slot32 (encode_local_unary64_kind opn), slot32 a]"

fun use4_slots :: "use4 \<Rightarrow> u64 list" where
  "use4_slots Push = []" | "use4_slots (Set d) = [slot32 d]" | "use4_slots (Tee d) = [slot32 d]" | "use4_slots (Branch t) = [slot32 t]"

fun use8_slots :: "use8 \<Rightarrow> u64 list" where
  "use8_slots Push8 = []" | "use8_slots (SetLong d) = [slot32 d]" | "use8_slots (TeeLong d) = [slot32 d]"

fun slots :: "fused \<Rightarrow> u64 list" where
  "slots (Fuse4 s u) = source4_slots s @ use4_slots u"
| "slots (Fuse8 s u) = source8_slots s @ use8_slots u"
| "slots (Gets2 a b) = [slot32 a, slot32 b]"
| "slots (Gets3 a b c) = [slot32 a, slot32 b, slot32 c]"
| "slots (Run addrs) = of_nat (length addrs) # map slot32 addrs"
| "slots (RunSkip addrs skip) = of_nat (length addrs) # map slot32 addrs @ [slot32 skip]"
| "slots (Indexed a b c opn k u skip) =
     [slot32 a, slot32 b, slot32 c, slot32 (encode_local_binop32_kind opn RhsConst), slot32 k] @ use4_slots u @ [slot32 skip]"
| "slots (CopyCompareBranch src dst lhs opn k t) = [slot32 src, slot32 dst, slot32 lhs, compare_kind opn, slot32 k, slot32 t]"
| "slots (AndTeeEqBranch a m d k t) = [slot32 a, slot32 m, slot32 d, slot32 k, slot32 t]"
| "slots (AddTeeBranch a k d t) = [slot32 a, slot32 k, slot32 d, slot32 t]"

text \<open>How many slots are skipped when no branch is taken: those of the instruction, unless a slot says.\<close>

fun width :: "fused \<Rightarrow> nat" where
  "width (RunSkip addrs skip) = unat skip"
| "width (Indexed a b c opn k u skip) = unat skip"
| "width f = length (slots f)"

type_synonym fused_handler = "float_arith \<Rightarrow> nat \<Rightarrow> u64 list \<Rightarrow> stack \<Rightarrow> vm_stop + vm_next \<times> stack"

text \<open>The handlers; not every source is fused with every use.\<close>

fun handler4 :: "source4 \<Rightarrow> use4 \<Rightarrow> fused_handler option" where
  "handler4 (AddConst a k) Push = Some (\<lambda>_. op_local_get4_i32_const_add)"
| "handler4 (AddConst a k) (Set d) = Some (\<lambda>_. op_local_get4_i32_const_add_set4)"
| "handler4 (AddConst a k) (Tee d) = Some (\<lambda>_. op_local_get4_i32_const_add_tee4)"
| "handler4 (AddConst a k) (Branch t) = Some (\<lambda>_. op_local_get4_i32_const_add_br_if)"
| "handler4 (AddLocals a b) Push = Some (\<lambda>_. op_local_get4_local_get4_i32_add)"
| "handler4 (AddLocals a b) (Set d) = Some (\<lambda>_. op_local_get4_local_get4_i32_add_set4)"
| "handler4 (AddLocals a b) (Tee d) = Some (\<lambda>_. op_local_get4_local_get4_i32_add_tee4)"
| "handler4 (AddLocals a b) (Branch t) = Some (\<lambda>_. op_local_get4_local_get4_i32_add_br_if)"
| "handler4 (Copy a) (Set d) = Some (\<lambda>_. op_local_get4_set4)"
| "handler4 (Copy a) (Tee d) = Some (\<lambda>_. op_local_get4_tee4)"
| "handler4 (Copy a) (Branch t) = Some (\<lambda>_. op_local_get4_br_if)"
| "handler4 (Const k) (Set d) = Some (\<lambda>_. op_i32_const_set4)"
| "handler4 (Const k) (Tee d) = Some (\<lambda>_. op_i32_const_tee4)"
| "handler4 (IsZero a) (Branch t) = Some (\<lambda>_. op_local_get4_i32_eqz_br_if)"
| "handler4 (CompareConst a opn k) (Branch t) = Some (\<lambda>_. op_local_get4_i32_const_compare_br_if)"
| "handler4 (CompareLocals a b opn) (Branch t) = Some (\<lambda>_. op_local_get4_local_get4_compare_br_if)"
| "handler4 (AndConst a m) (Branch t) = Some (\<lambda>_. op_local_get4_i32_const_and_br_if)"
| "handler4 (AndConstIsZero a m) (Branch t) = Some (\<lambda>_. op_local_get4_i32_const_and_eqz_br_if)"
| "handler4 (AndCompare a m opn k) (Branch t) = Some (\<lambda>_. op_local_get4_i32_const_and_i32_const_compare_br_if)"
| "handler4 (AddAndCompare a i m opn k) (Branch t) = Some (\<lambda>_. op_local_get4_i32_const_add_i32_const_and_i32_const_compare_br_if)"
| "handler4 (LocalBinop32 opn a r) Push = Some op_local_binop32"
| "handler4 (LocalBinop32 opn a r) (Set d) = Some op_local_binop32_set4"
| "handler4 (LocalBinop32 opn a r) (Tee d) = Some op_local_binop32_tee4"
| "handler4 (LocalBinop32 opn a r) (Branch t) = Some op_local_binop32_br_if"
| "handler4 (LocalCmp32 opn a r) Push = Some op_local_cmp32"
| "handler4 (LocalCmp32 opn a r) (Set d) = Some op_local_cmp32_set4"
| "handler4 (LocalCmp32 opn a r) (Tee d) = Some op_local_cmp32_tee4"
| "handler4 (LocalCmp32 opn a r) (Branch t) = Some op_local_cmp32_br_if"
| "handler4 (LocalCmp64 opn a r) Push = Some op_local_cmp64"
| "handler4 (LocalCmp64 opn a r) (Set d) = Some op_local_cmp64_set4"
| "handler4 (LocalCmp64 opn a r) (Tee d) = Some op_local_cmp64_tee4"
| "handler4 (LocalCmp64 opn a r) (Branch t) = Some op_local_cmp64_br_if"
| "handler4 (LocalUnary32 opn a) Push = Some op_local_unary32"
| "handler4 (LocalUnary32 opn a) (Set d) = Some op_local_unary32_set4"
| "handler4 (LocalUnary32 opn a) (Tee d) = Some op_local_unary32_tee4"
| "handler4 (TopBinop opn k) Push = Some op_i32_const_binop"
| "handler4 (TopBinop opn k) (Set d) = Some op_i32_const_binop_set4"
| "handler4 (TopBinop opn k) (Tee d) = Some op_i32_const_binop_tee4"
| "handler4 (TopBinop opn k) (Branch t) = Some op_i32_const_binop_br_if"
| "handler4 (TopCmp opn k) Push = Some op_i32_const_cmp"
| "handler4 (TopCmp opn k) (Set d) = Some op_i32_const_cmp_set4"
| "handler4 (TopCmp opn k) (Tee d) = Some op_i32_const_cmp_tee4"
| "handler4 (TopCmp opn k) (Branch t) = Some op_i32_const_cmp_br_if"
| "handler4 TopSelect (Set d) = Some (\<lambda>_. op_select4_set4)"
| "handler4 TopSelect (Tee d) = Some (\<lambda>_. op_select4_tee4)"
| "handler4 s u = None"

fun handler8 :: "source8 \<Rightarrow> use8 \<Rightarrow> fused_handler" where
  "handler8 (LocalBinop64 opn a r) Push8 = op_local_binop64"
| "handler8 (LocalBinop64 opn a r) (SetLong d) = op_local_binop64_set8"
| "handler8 (LocalBinop64 opn a r) (TeeLong d) = op_local_binop64_tee8"
| "handler8 (LocalUnary64 opn a) Push8 = op_local_unary64"
| "handler8 (LocalUnary64 opn a) (SetLong d) = op_local_unary64_set8"
| "handler8 (LocalUnary64 opn a) (TeeLong d) = op_local_unary64_tee8"

fun handler :: "fused \<Rightarrow> fused_handler option" where
  "handler (Fuse4 s u) = handler4 s u"
| "handler (Fuse8 s u) = Some (handler8 s u)"
| "handler (Gets2 a b) = Some (\<lambda>_. op_local_get4_local_get4)"
| "handler (Gets3 a b c) = Some (\<lambda>_. op_local_get4_local_get4_local_get4)"
| "handler (Run addrs) = Some (\<lambda>_. op_local_get4_run)"
| "handler (RunSkip addrs skip) = Some (\<lambda>_. op_local_get4_run_skip)"
| "handler (Indexed a b c opn k (Set d) skip) = Some op_local_get4x3_i32_add_const_binop_i32_add_set4"
| "handler (Indexed a b c opn k (Tee d) skip) = Some op_local_get4x3_i32_add_const_binop_i32_add_tee4"
| "handler (Indexed a b c opn k u skip) = None"
| "handler (CopyCompareBranch src dst lhs opn k t) = Some (\<lambda>_. op_local_get4_set4_local_get4_i32_const_compare_br_if)"
| "handler (AndTeeEqBranch a m d k t) = Some (\<lambda>_. op_local_get4_i32_const_and_tee4_i32_const_eq_br_if)"
| "handler (AddTeeBranch a k d t) = Some (\<lambda>_. op_local_get4_i32_const_add_tee4_br_if)"

text \<open>Operations on an operand of the stack and comparisons by kind are integer ones, and the length of a run fits in its slot.\<close>

fun fused_ok :: "fused \<Rightarrow> bool" where
  "fused_ok (Fuse4 (CompareConst a opn k) u) = is_stack_i32_const_cmp opn"
| "fused_ok (Fuse4 (CompareLocals a b opn) u) = is_stack_i32_const_cmp opn"
| "fused_ok (Fuse4 (AndCompare a m opn k) u) = is_stack_i32_const_cmp opn"
| "fused_ok (Fuse4 (AddAndCompare a i m opn k) u) = is_stack_i32_const_cmp opn"
| "fused_ok (Fuse4 (TopBinop opn k) u) = is_stack_i32_const_binop opn"
| "fused_ok (Fuse4 (TopCmp opn k) u) = is_stack_i32_const_cmp opn"
| "fused_ok (Indexed a b c opn k u skip) = is_stack_i32_const_binop opn"
| "fused_ok (CopyCompareBranch src dst lhs opn k t) = is_stack_i32_const_cmp opn"
| "fused_ok (Run addrs) \<longleftrightarrow> length addrs < 2 ^ 32"
| "fused_ok (RunSkip addrs skip) \<longleftrightarrow> length addrs < 2 ^ 32"
| "fused_ok f = True"

section \<open>Frames\<close>

text \<open>A stack with some bytes and raw operands above them, the topmost first.\<close>

datatype raw = R4 u32 | R8 u64

primrec raw_bytes :: "raw \<Rightarrow> byte list" where
  "raw_bytes (R4 w) = to_le 4 w" | "raw_bytes (R8 w) = to_le 8 w"

definition raws :: "raw list \<Rightarrow> byte list" where
  "raws vs = concat (map raw_bytes (rev vs))"

definition frame :: "byte list \<Rightarrow> raw list \<Rightarrow> byte list \<Rightarrow> stack" where
  "frame L vs rest = stack_with (L @ raws vs) rest"

lemma raws_simps [simp]: "raws [] = []" "raws (v # vs) = raws vs @ raw_bytes v"
  by (simp_all add: raws_def)

definition lget4 :: "nat \<Rightarrow> byte list \<Rightarrow> u32 \<Rightarrow> u32" where
  "lget4 base L a = from_le (slice (base + unat a) 4 L)"

definition lget8 :: "nat \<Rightarrow> byte list \<Rightarrow> u32 \<Rightarrow> u64" where
  "lget8 base L a = from_le (slice (base + unat a) 8 L)"

definition lset4 :: "nat \<Rightarrow> byte list \<Rightarrow> u32 \<Rightarrow> u32 \<Rightarrow> byte list" where
  "lset4 base L a v = splice_at (base + unat a) (to_le 4 v) L"

definition lset8 :: "nat \<Rightarrow> byte list \<Rightarrow> u32 \<Rightarrow> u64 \<Rightarrow> byte list" where
  "lset8 base L a v = splice_at (base + unat a) (to_le 8 v) L"

definition inside :: "nat \<Rightarrow> byte list \<Rightarrow> nat \<Rightarrow> u32 \<Rightarrow> bool" where
  "inside base L n a \<longleftrightarrow> base + unat a + n \<le> length L"

lemma ucast_slot [simp]: "(ucast (ucast (a :: u32) :: u64) :: u32) = a" "(ucast (slot32 a) :: u32) = a"
  by (simp_all add: slot32_def ucast_up_ucast_id is_up)

lemma length_lset:
  "inside base L 4 a \<Longrightarrow> length (lset4 base L a v) = length L" "inside base L 8 a \<Longrightarrow> length (lset8 base L a w) = length L"
  by (simp_all add: inside_def lset4_def lset8_def mem_simps)

lemma inside_lset:
  "inside base L 4 a \<Longrightarrow> inside base (lset4 base L a v) n b = inside base L n b"
  "inside base L 8 a \<Longrightarrow> inside base (lset8 base L a w) n b = inside base L n b"
  by (simp_all add: inside_def [of _ _ n] length_lset)

lemma frame_pushes:
  assumes "length L + length (raws vs) + length rest < 2 ^ 64"
  shows "push_u32 w (frame L vs rest) = (if 4 \<le> length rest then Inr (frame L (R4 w # vs) (drop 4 rest)) else Inl VStackOverflow)"
    "push_u32_fast w (frame L vs rest) = (if 4 \<le> length rest then Inr (frame L (R4 w # vs) (drop 4 rest)) else Inl VStackOverflow)"
    "push_u64 v (frame L vs rest) = (if 8 \<le> length rest then Inr (frame L (R8 v # vs) (drop 8 rest)) else Inl VStackOverflow)"
    "push_u64_fast v (frame L vs rest) = (if 8 \<le> length rest then Inr (frame L (R8 v # vs) (drop 8 rest)) else Inl VStackOverflow)"
  using assms push_stack [of "L @ raws vs" rest] push_fast_stack [of "L @ raws vs" rest]
  by (simp_all add: frame_def push_u32_def push_u32_fast_def push_u64_def push_u64_fast_def)

lemma frame_pops:
  "pop_u32 (frame L (R4 w # vs) rest) = Inr (w, frame L vs (to_le 4 w @ rest))"
  "pop_u64 (frame L (R8 v # vs) rest) = Inr (v, frame L vs (to_le 8 v @ rest))"
  "pop_bytes 4 (frame L (R4 w # vs) rest) = Inr (to_le 4 w, frame L vs (to_le 4 w @ rest))"
  using pop_stack [of "to_le 4 w" 4 "L @ raws vs" rest] pop_stack [of "to_le 8 v" 8 "L @ raws vs" rest]
  by (simp_all add: frame_def pop_u32_def pop_u64_def from_le_to_le)

lemma frame_locals:
  assumes "inside base L 4 a"
  shows "local_u32_from_base base (unat a) (frame L vs rest) = Inr (lget4 base L a)"
    "local_set4_from_base_value base (unat a) w (frame L vs rest) = Inr (frame (lset4 base L a w) vs rest)"
    "local_set_from_base 4 base (unat a) (frame L (R4 w # vs) rest) = Inr (frame (lset4 base L a w) vs (to_le 4 w @ rest))"
    "local_tee_from_base 4 base (unat a) (frame L (R4 w # vs) rest) = Inr (frame (lset4 base L a w) (R4 w # vs) rest)"
  using assms local_accesses(2,3) [of base "unat a" 4 L, of "to_le 4 w" "raws vs" rest]
  by (simp_all add: inside_def frame_def lget4_def lset4_def local_u32_from_base_def local_set4_from_base_value_def access_below)

lemma frame_locals8:
  assumes "inside base L 8 a"
  shows "local_u64_bits base (unat a) (frame L vs rest) = Inr (lget8 base L a)"
    "store_local8_bits base (unat a) w (frame L vs rest) = Inr (frame (lset8 base L a w) vs rest)"
    "local_set_from_base 8 base (unat a) (frame L (R8 w # vs) rest) = Inr (frame (lset8 base L a w) vs (to_le 8 w @ rest))"
    "local_tee_from_base 8 base (unat a) (frame L (R8 w # vs) rest) = Inr (frame (lset8 base L a w) (R8 w # vs) rest)"
    "length L + length (raws vs) + length rest < 2 ^ 64 \<Longrightarrow> local_get_from_base 8 base (unat a) (frame L vs rest) =
      (if 8 \<le> length rest then Inr (frame L (R8 (lget8 base L a) # vs) (drop 8 rest)) else Inl VStackOverflow)"
proof -
  note acc = local_accesses [of base "unat a" 8 L]
  show "local_u64_bits base (unat a) (frame L vs rest) = Inr (lget8 base L a)"
    "store_local8_bits base (unat a) w (frame L vs rest) = Inr (frame (lset8 base L a w) vs rest)"
    "local_set_from_base 8 base (unat a) (frame L (R8 w # vs) rest) = Inr (frame (lset8 base L a w) vs (to_le 8 w @ rest))"
    "local_tee_from_base 8 base (unat a) (frame L (R8 w # vs) rest) = Inr (frame (lset8 base L a w) (R8 w # vs) rest)"
    using assms acc(2,3) [of "to_le 8 w" "raws vs" rest]
    by (simp_all add: inside_def frame_def lget8_def lset8_def local_u64_bits_def store_local8_bits_def access_below)
  have "to_le 8 (lget8 base L a) = slice (base + unat a) 8 L"
    using assms to_le_from_le [where 'a = 64, of "slice (base + unat a) 8 L"] by (simp add: inside_def lget8_def mem_simps)
  then show "local_get_from_base 8 base (unat a) (frame L vs rest) =
      (if 8 \<le> length rest then Inr (frame L (R8 (lget8 base L a) # vs) (drop 8 rest)) else Inl VStackOverflow)"
    if "length L + length (raws vs) + length rest < 2 ^ 64"
    using assms that acc(1) [of "raws vs" rest] by (simp add: inside_def frame_def)
qed

text \<open>The stack stays below the size that addresses can have.\<close>

definition has_room :: "byte list \<Rightarrow> raw list \<Rightarrow> byte list \<Rightarrow> bool" where
  "has_room L vs rest \<longleftrightarrow> length L + length (raws vs) + length rest < 2 ^ 64"

lemma has_room_simps [simp]:
  "4 \<le> length rest \<Longrightarrow> has_room L (R4 w # vs) (drop 4 rest) = has_room L vs rest"
  "8 \<le> length rest \<Longrightarrow> has_room L (R8 v # vs) (drop 8 rest) = has_room L vs rest"
  "has_room L vs (to_le 4 w @ rest) = has_room L (R4 w # vs) rest"
  "has_room L vs (to_le 8 v @ rest) = has_room L (R8 v # vs) rest"
  "inside base L 4 a \<Longrightarrow> has_room (lset4 base L a w) vs rest = has_room L vs rest"
  "inside base L 8 a \<Longrightarrow> has_room (lset8 base L a v) vs rest = has_room L vs rest"
  by (auto simp: has_room_def length_lset)

lemmas frame_steps = frame_pushes [folded has_room_def] frame_pops frame_locals frame_locals8 [folded has_room_def]

lemma frame_reduce: "reduce_top f (frame L (R4 b # R4 a # vs) rest) = Inr (frame L (R4 (f a b) # vs) (to_le 4 b @ rest))"
  using reduce_top_stack [of f "L @ raws vs" a b rest] by (simp add: frame_def)

lemma has_room_pop2:
  "has_room L (R4 b # R4 a # vs) rest \<Longrightarrow> has_room L (R4 a # R4 b # vs) rest"
  "has_room L (R8 d # R8 c # vs) rest \<Longrightarrow> has_room L (R8 c # R8 d # vs) rest"
  by (simp_all add: has_room_def)

lemma frame_shapes:
  "has_room L (R4 b # R4 a # vs) rest \<Longrightarrow> binary32 f (frame L (R4 b # R4 a # vs) rest) = Inr (frame L (R4 (f a b) # vs) (to_le 4 b @ rest))"
  "has_room L (R4 b # R4 a # vs) rest \<Longrightarrow> compare32 p (frame L (R4 b # R4 a # vs) rest) = Inr (frame L (R4 (of_bool (p a b)) # vs) (to_le 4 b @ rest))"
  "has_room L (R4 a # vs) rest \<Longrightarrow> unary32 g (frame L (R4 a # vs) rest) = Inr (frame L (R4 (g a) # vs) rest)"
  by (simp_all add: binary32_def compare32_def unary32_def frame_steps has_room_pop2)

lemma frame_shapes8:
  "has_room L (R8 d # R8 c # vs) rest \<Longrightarrow> binary64 f (frame L (R8 d # R8 c # vs) rest) = Inr (frame L (R8 (f c d) # vs) (to_le 8 d @ rest))"
  "has_room L (R8 d # R8 c # vs) rest \<Longrightarrow> compare64 p (frame L (R8 d # R8 c # vs) rest) =
    Inr (frame L (R4 (of_bool (p c d)) # vs) (drop 4 (to_le 8 c) @ to_le 8 d @ rest))"
  "has_room L (R8 c # vs) rest \<Longrightarrow> unary64 g (frame L (R8 c # vs) rest) = Inr (frame L (R8 (g c) # vs) rest)"
  by (simp_all add: binary64_def compare64_def unary64_def frame_steps has_room_pop2)

lemma frame_binops:
  "has_room L (R4 b # R4 a # vs) rest \<Longrightarrow>
    plain_binop32 fp opn (frame L (R4 b # R4 a # vs) rest) = Inr (frame L (R4 (eval_local_binop32 fp opn a b) # vs) (to_le 4 b @ rest))"
  by (cases opn) (simp_all add: plain_binop32_def eval_local_binop32_def frame_shapes frame_reduce op_i32_add_def op_i32_sub_def op_i32_mul_def
      op_i32_and_def op_i32_or_def op_i32_xor_def op_i32_shl_def op_i32_shr_s_def op_i32_shr_u_def op_i32_rotl_def op_i32_rotr_def
      reduce_top_i32_add_def reduce_top_i32_sub_def op_f32_add_def op_f32_sub_def op_f32_mul_def op_f32_div_def mult.commute)

lemma frame_binops8:
  "has_room L (R8 d # R8 c # vs) rest \<Longrightarrow>
    plain_binop64 fp opn (frame L (R8 d # R8 c # vs) rest) = Inr (frame L (R8 (eval_local_binop64 fp opn c d) # vs) (to_le 8 d @ rest))"
  by (cases opn) (simp_all add: plain_binop64_def eval_local_binop64_def frame_shapes8 op_i64_add_def op_i64_sub_def op_i64_mul_def
      op_i64_and_def op_i64_or_def op_i64_xor_def op_i64_shl_def op_i64_shr_s_def op_i64_shr_u_def op_i64_rotl_def op_i64_rotr_def
      op_f64_add_def op_f64_sub_def op_f64_mul_def op_f64_div_def mult.commute add.commute)

lemma frame_cmps:
  assumes "symmetric_equality fp" "has_room L (R4 b # R4 a # vs) rest"
  shows "plain_cmp32 fp opn (frame L (R4 b # R4 a # vs) rest) = Inr (frame L (R4 (eval_local_cmp32 fp opn a b) # vs) (to_le 4 b @ rest))"
proof -
  have "fa_rel32 fp FEq b a = fa_rel32 fp FEq a b" "fa_rel32 fp FNe b a = fa_rel32 fp FNe a b"
    using assms(1) by (auto simp: symmetric_equality_def)
  with assms(2) show ?thesis
    by (cases opn) (simp_all add: plain_cmp32_def eval_local_cmp32_def frame_shapes op_i32_eq_def op_i32_ne_def op_i32_lt_s_def op_i32_lt_u_def
        op_i32_gt_s_def op_i32_gt_u_def op_i32_le_s_def op_i32_le_u_def op_i32_ge_s_def op_i32_ge_u_def op_f32_eq_def op_f32_ne_def
        op_f32_lt_def op_f32_gt_def op_f32_le_def op_f32_ge_def eq_commute)
qed

lemma frame_cmps8:
  "has_room L (R8 d # R8 c # vs) rest \<Longrightarrow> plain_cmp64 fp opn (frame L (R8 d # R8 c # vs) rest) =
    Inr (frame L (R4 (eval_local_cmp64 fp opn c d) # vs) (drop 4 (to_le 8 c) @ to_le 8 d @ rest))"
  by (cases opn) (simp_all add: plain_cmp64_def eval_local_cmp64_def frame_shapes8 op_i64_eq_def op_i64_ne_def op_i64_lt_s_def op_i64_lt_u_def
      op_i64_gt_s_def op_i64_gt_u_def op_i64_le_s_def op_i64_le_u_def op_i64_ge_s_def op_i64_ge_u_def op_f64_eq_def op_f64_ne_def
      op_f64_lt_def op_f64_gt_def op_f64_le_def op_f64_ge_def)

lemma frame_unaries:
  "has_room L (R4 a # vs) rest \<Longrightarrow>
    plain_unary32 fp opn (frame L (R4 a # vs) rest) = Inr (frame L (R4 (eval_local_unary32 fp opn a) # vs) rest)"
  "has_room L (R8 c # vs) rest \<Longrightarrow>
    plain_unary64 fp opn' (frame L (R8 c # vs) rest) = Inr (frame L (R8 (eval_local_unary64 fp opn' c) # vs) rest)"
  by (cases opn; simp add: plain_unary32_def eval_local_unary32_def frame_shapes op_i32_clz_def op_i32_ctz_def op_i32_popcnt_def op_f32_abs_def
      op_f32_neg_def op_f32_sqrt_def op_f32_ceil_def op_f32_floor_def op_f32_trunc_def op_f32_nearest_def)
    (cases opn'; simp add: plain_unary64_def eval_local_unary64_def frame_shapes8 op_i64_clz_def op_i64_ctz_def op_i64_popcnt_def op_f64_abs_def
      op_f64_neg_def op_f64_sqrt_def op_f64_ceil_def op_f64_floor_def op_f64_trunc_def op_f64_nearest_def)

section \<open>Steps of the plain instructions\<close>

lemma rbind_if: "rbind (if c then x else y) f = (if c then rbind x f else rbind y f)"
  by simp

lemma plain_get:
  "inside base L 4 a \<Longrightarrow> has_room L vs rest \<Longrightarrow> run_plain fp base (Get4 a) (frame L vs rest) =
    (if 4 \<le> length rest then Inr (Next 1, frame L (R4 (lget4 base L a) # vs) (drop 4 rest)) else Inl VStackOverflow)"
  "inside base L 8 a \<Longrightarrow> has_room L vs rest \<Longrightarrow> run_plain fp base (Get8 a) (frame L vs rest) =
    (if 8 \<le> length rest then Inr (Next 1, frame L (R8 (lget8 base L a) # vs) (drop 8 rest)) else Inl VStackOverflow)"
  by (simp_all add: run_plain_def op_local_get4_def op_local_get8_def frame_steps call_next_def)

lemma plain_store:
  "inside base L 4 a \<Longrightarrow> run_plain fp base (Set4 a) (frame L (R4 w # vs) rest) = Inr (Next 1, frame (lset4 base L a w) vs (to_le 4 w @ rest))"
  "inside base L 4 a \<Longrightarrow> run_plain fp base (Tee4 a) (frame L (R4 w # vs) rest) = Inr (Next 1, frame (lset4 base L a w) (R4 w # vs) rest)"
  "inside base L 8 a \<Longrightarrow> run_plain fp base (Set8 a) (frame L (R8 v # vs) rest) = Inr (Next 1, frame (lset8 base L a v) vs (to_le 8 v @ rest))"
  "inside base L 8 a \<Longrightarrow> run_plain fp base (Tee8 a) (frame L (R8 v # vs) rest) = Inr (Next 1, frame (lset8 base L a v) (R8 v # vs) rest)"
  by (simp_all add: run_plain_def op_local_set4_def op_local_tee4_def op_local_set8_def op_local_tee8_def frame_steps call_next_def)

lemma plain_const:
  assumes "has_room L vs rest"
  shows "run_plain fp base (ConstI32 w) (frame L vs rest) = (if 4 \<le> length rest then Inr (Next 1, frame L (R4 w # vs) (drop 4 rest)) else Inl VStackOverflow)"
    "run_plain fp base (ConstF32 w) (frame L vs rest) = (if 4 \<le> length rest then Inr (Next 1, frame L (R4 w # vs) (drop 4 rest)) else Inl VStackOverflow)"
    "run_plain fp base (ConstI64 v) (frame L vs rest) = (if 8 \<le> length rest then Inr (Next 1, frame L (R8 v # vs) (drop 8 rest)) else Inl VStackOverflow)"
    "run_plain fp base (ConstF64 v) (frame L vs rest) = (if 8 \<le> length rest then Inr (Next 1, frame L (R8 v # vs) (drop 8 rest)) else Inl VStackOverflow)"
  using assms
  by (simp_all add: run_plain_def op_i32_const_def op_f32_const_def op_i64_const_def op_f64_const_def frame_steps call_next_def)

lemma plain_binop:
  "has_room L (R4 b # R4 a # vs) rest \<Longrightarrow> run_plain fp base (Binop32 opn) (frame L (R4 b # R4 a # vs) rest) =
    Inr (Next 0, frame L (R4 (eval_local_binop32 fp opn a b) # vs) (to_le 4 b @ rest))"
  "has_room L (R8 d # R8 c # vs) rest \<Longrightarrow> run_plain fp base (Binop64 opn') (frame L (R8 d # R8 c # vs) rest) =
    Inr (Next 0, frame L (R8 (eval_local_binop64 fp opn' c d) # vs) (to_le 8 d @ rest))"
  by (simp_all add: run_plain_def frame_binops frame_binops8 call_next_def)

lemma plain_cmp:
  "symmetric_equality fp \<Longrightarrow> has_room L (R4 b # R4 a # vs) rest \<Longrightarrow> run_plain fp base (Cmp32 opn) (frame L (R4 b # R4 a # vs) rest) =
    Inr (Next 0, frame L (R4 (eval_local_cmp32 fp opn a b) # vs) (to_le 4 b @ rest))"
  "has_room L (R8 d # R8 c # vs) rest \<Longrightarrow> run_plain fp base (Cmp64 opn') (frame L (R8 d # R8 c # vs) rest) =
    Inr (Next 0, frame L (R4 (eval_local_cmp64 fp opn' c d) # vs) (drop 4 (to_le 8 c) @ to_le 8 d @ rest))"
  by (simp_all add: run_plain_def frame_cmps frame_cmps8 call_next_def)

lemma plain_unary:
  "has_room L (R4 a # vs) rest \<Longrightarrow> run_plain fp base (Unary32 opn) (frame L (R4 a # vs) rest) =
    Inr (Next 0, frame L (R4 (eval_local_unary32 fp opn a) # vs) rest)"
  "has_room L (R8 c # vs) rest \<Longrightarrow> run_plain fp base (Unary64 opn') (frame L (R8 c # vs) rest) =
    Inr (Next 0, frame L (R8 (eval_local_unary64 fp opn' c) # vs) rest)"
  "has_room L (R4 a # vs) rest \<Longrightarrow> run_plain fp base Eqz32op (frame L (R4 a # vs) rest) = Inr (Next 0, frame L (R4 (of_bool (a = 0)) # vs) rest)"
  by (simp_all add: run_plain_def frame_unaries op_i32_eqz_def frame_shapes frame_steps call_next_def)

lemma plain_select:
  "has_room L (R4 c # R4 b # R4 a # vs) rest \<Longrightarrow> run_plain fp base Select4 (frame L (R4 c # R4 b # R4 a # vs) rest) =
    Inr (Next 0, frame L (R4 (if c = 0 then b else a) # vs) (to_le 4 b @ to_le 4 c @ rest))"
proof -
  assume f: "has_room L (R4 c # R4 b # R4 a # vs) rest"
  have "push_slice (to_le 4 w) (frame L vs (to_le 4 a @ to_le 4 b @ to_le 4 c @ rest)) = Inr (frame L (R4 w # vs) (to_le 4 b @ to_le 4 c @ rest))" for w
    using f frame_steps(1) [of L vs "to_le 4 a @ to_le 4 b @ to_le 4 c @ rest" w] by (simp add: push_u32_def)
  then show ?thesis by (cases "c = 0") (simp_all add: run_plain_def op_select4_def select_bytes_def frame_steps call_next_def)
qed

lemma plain_branch:
  "run_plain fp base (BrIf t) (frame L (R4 c # vs) rest) = Inr (if c \<noteq> 0 then Jump t else Next 1, frame L vs (to_le 4 c @ rest))"
  by (simp add: run_plain_def op_br_if_def frame_steps call_next_def)

lemmas plain_steps = plain_get plain_store plain_const plain_binop plain_cmp plain_unary plain_select plain_branch

section \<open>Kinds\<close>

lemma kind_round_trips [simp]:
  "decode_local_binop32_kind (encode_local_binop32_kind b32 s) = Some (b32, s)"
  "decode_local_binop64_kind (encode_local_binop64_kind b64 s) = Some (b64, s)"
  "decode_local_cmp32_kind (encode_local_cmp32_kind c32 s) = Some (c32, s)"
  "decode_local_cmp64_kind (encode_local_cmp64_kind c64 s) = Some (c64, s)"
  "decode_local_unary32_kind (encode_local_unary32_kind u32) = Some u32"
  "decode_local_unary64_kind (encode_local_unary64_kind u64) = Some u64"
proof -
  note defs = variant_index_def variant_from_index_def shape_from_encoded_def shape_index_def
  show "decode_local_binop32_kind (encode_local_binop32_kind b32 s) = Some (b32, s)"
    by (cases b32; cases s) (simp_all add: decode_local_binop32_kind_def encode_local_binop32_kind_def binop32_variants_def defs)
  show "decode_local_binop64_kind (encode_local_binop64_kind b64 s) = Some (b64, s)"
    by (cases b64; cases s) (simp_all add: decode_local_binop64_kind_def encode_local_binop64_kind_def binop64_variants_def defs)
  show "decode_local_cmp32_kind (encode_local_cmp32_kind c32 s) = Some (c32, s)"
    by (cases c32; cases s) (simp_all add: decode_local_cmp32_kind_def encode_local_cmp32_kind_def cmp32_variants_def defs)
  show "decode_local_cmp64_kind (encode_local_cmp64_kind c64 s) = Some (c64, s)"
    by (cases c64; cases s) (simp_all add: decode_local_cmp64_kind_def encode_local_cmp64_kind_def cmp64_variants_def defs)
  show "decode_local_unary32_kind (encode_local_unary32_kind u32) = Some u32"
    by (cases u32) (simp_all add: decode_local_unary32_kind_def encode_local_unary32_kind_def unary32_variants_def defs)
  show "decode_local_unary64_kind (encode_local_unary64_kind u64) = Some u64"
    by (cases u64) (simp_all add: decode_local_unary64_kind_def encode_local_unary64_kind_def unary64_variants_def defs)
qed

lemma compare_kinds:
  "is_stack_i32_const_cmp opn \<Longrightarrow> of_bool (i32_compare (ucast (compare_kind opn)) a b) = eval_local_cmp32 fp opn a b"
  by (cases opn) (simp_all add: is_stack_i32_const_cmp_def compare_kind_def variant_index_def cmp32_variants_def i32_compare_def eval_local_cmp32_def)

end
