(* ===== verification/Fusion_Correct.thy ===== *)
theory Fusion_Correct
  imports Fused_Sequences
begin

text \<open>
  Fused instructions do what the sequences do that they replace: the two runs continue at the same
  place with the same operands and locals.  Only the sequence can overflow the stack where the fused
  instruction does not, because it pushes values that the fused instruction keeps to itself.
\<close>

section \<open>Values of the sources\<close>

fun source4_args :: "source4 \<Rightarrow> nat" where
  "source4_args (TopBinop opn k) = 1" | "source4_args (TopCmp opn k) = 1" | "source4_args TopSelect = 3" | "source4_args s = 0"

definition rhs4_val :: "nat \<Rightarrow> byte list \<Rightarrow> u32 rhs \<Rightarrow> u32" where
  "rhs4_val base L r = (case r of LocalRhs a \<Rightarrow> lget4 base L a | ConstRhs v \<Rightarrow> v)"

definition rhs8_val :: "nat \<Rightarrow> byte list \<Rightarrow> u64 rhs \<Rightarrow> u64" where
  "rhs8_val base L r = (case r of LocalRhs a \<Rightarrow> lget8 base L a | ConstRhs v \<Rightarrow> v)"

definition rhs_locals :: "nat \<Rightarrow> 'c rhs \<Rightarrow> (nat \<times> u32) list" where
  "rhs_locals n r = (case r of LocalRhs a \<Rightarrow> [(n, a)] | ConstRhs v \<Rightarrow> [])"

text \<open>The value of a source over the locals in \<open>L\<close> and the operands on the stack, the topmost first.\<close>

fun source4_val :: "float_arith \<Rightarrow> nat \<Rightarrow> byte list \<Rightarrow> u32 list \<Rightarrow> source4 \<Rightarrow> u32" where
  "source4_val fp base L args (AddConst a k) = lget4 base L a + k"
| "source4_val fp base L args (AddLocals a b) = lget4 base L a + lget4 base L b"
| "source4_val fp base L args (Copy a) = lget4 base L a"
| "source4_val fp base L args (Const k) = k"
| "source4_val fp base L args (IsZero a) = of_bool (lget4 base L a = 0)"
| "source4_val fp base L args (CompareConst a opn k) = eval_local_cmp32 fp opn (lget4 base L a) k"
| "source4_val fp base L args (CompareLocals a b opn) = eval_local_cmp32 fp opn (lget4 base L a) (lget4 base L b)"
| "source4_val fp base L args (AndConst a m) = lget4 base L a AND m"
| "source4_val fp base L args (AndConstIsZero a m) = of_bool (lget4 base L a AND m = 0)"
| "source4_val fp base L args (AndCompare a m opn k) = eval_local_cmp32 fp opn (lget4 base L a AND m) k"
| "source4_val fp base L args (AddAndCompare a i m opn k) = eval_local_cmp32 fp opn ((lget4 base L a + i) AND m) k"
| "source4_val fp base L args (LocalBinop32 opn a r) = eval_local_binop32 fp opn (lget4 base L a) (rhs4_val base L r)"
| "source4_val fp base L args (LocalCmp32 opn a r) = eval_local_cmp32 fp opn (lget4 base L a) (rhs4_val base L r)"
| "source4_val fp base L args (LocalCmp64 opn a r) = eval_local_cmp64 fp opn (lget8 base L a) (rhs8_val base L r)"
| "source4_val fp base L args (LocalUnary32 opn a) = eval_local_unary32 fp opn (lget4 base L a)"
| "source4_val fp base L args (TopBinop opn k) = eval_local_binop32 fp opn (args ! 0) k"
| "source4_val fp base L args (TopCmp opn k) = eval_local_cmp32 fp opn (args ! 0) k"
| "source4_val fp base L args TopSelect = (if args ! 0 = 0 then args ! 1 else args ! 2)"

fun source8_val :: "float_arith \<Rightarrow> nat \<Rightarrow> byte list \<Rightarrow> source8 \<Rightarrow> u64" where
  "source8_val fp base L (LocalBinop64 opn a r) = eval_local_binop64 fp opn (lget8 base L a) (rhs8_val base L r)"
| "source8_val fp base L (LocalUnary64 opn a) = eval_local_unary64 fp opn (lget8 base L a)"

text \<open>The locals that an instruction accesses.\<close>

fun source4_locals :: "source4 \<Rightarrow> (nat \<times> u32) list" where
  "source4_locals (AddLocals a b) = [(4, a), (4, b)]"
| "source4_locals (CompareLocals a b opn) = [(4, a), (4, b)]"
| "source4_locals (LocalBinop32 opn a r) = (4, a) # rhs_locals 4 r"
| "source4_locals (LocalCmp32 opn a r) = (4, a) # rhs_locals 4 r"
| "source4_locals (LocalCmp64 opn a r) = (8, a) # rhs_locals 8 r"
| "source4_locals (AddConst a k) = [(4, a)]"
| "source4_locals (Copy a) = [(4, a)]"
| "source4_locals (IsZero a) = [(4, a)]"
| "source4_locals (CompareConst a opn k) = [(4, a)]"
| "source4_locals (AndConst a m) = [(4, a)]"
| "source4_locals (AndConstIsZero a m) = [(4, a)]"
| "source4_locals (AndCompare a m opn k) = [(4, a)]"
| "source4_locals (AddAndCompare a i m opn k) = [(4, a)]"
| "source4_locals (LocalUnary32 opn a) = [(4, a)]"
| "source4_locals s = []"

fun source8_locals :: "source8 \<Rightarrow> (nat \<times> u32) list" where
  "source8_locals (LocalBinop64 opn a r) = (8, a) # rhs_locals 8 r"
| "source8_locals (LocalUnary64 opn a) = [(8, a)]"

fun use4_locals :: "use4 \<Rightarrow> (nat \<times> u32) list" where
  "use4_locals (Set d) = [(4, d)]" | "use4_locals (Tee d) = [(4, d)]" | "use4_locals u = []"

fun use8_locals :: "use8 \<Rightarrow> (nat \<times> u32) list" where
  "use8_locals (SetLong d) = [(8, d)]" | "use8_locals (TeeLong d) = [(8, d)]" | "use8_locals Push8 = []"

definition all_inside :: "nat \<Rightarrow> byte list \<Rightarrow> (nat \<times> u32) list \<Rightarrow> bool" where
  "all_inside base L accesses \<longleftrightarrow> list_all (\<lambda>(n, a). inside base L n a) accesses"

lemma all_inside_simps [simp]:
  "all_inside base L []" "all_inside base L ((n, a) # xs) \<longleftrightarrow> inside base L n a \<and> all_inside base L xs"
  "all_inside base L (xs @ ys) \<longleftrightarrow> all_inside base L xs \<and> all_inside base L ys"
  by (simp_all add: all_inside_def)

text \<open>How much of the stack the plain instructions of a source need.\<close>

fun source4_room :: "source4 \<Rightarrow> nat" where
  "source4_room (Copy a) = 4" | "source4_room (Const k) = 4" | "source4_room (IsZero a) = 4" | "source4_room (LocalUnary32 opn a) = 4"
| "source4_room (TopBinop opn k) = 4" | "source4_room (TopCmp opn k) = 4" | "source4_room TopSelect = 0"
| "source4_room (LocalCmp64 opn a r) = 16" | "source4_room s = 8"

fun source8_room :: "source8 \<Rightarrow> nat" where
  "source8_room (LocalBinop64 opn a r) = 16" | "source8_room (LocalUnary64 opn a) = 8"

lemma rhs_steps:
  "all_inside base L (rhs_locals 4 r) \<Longrightarrow> has_room L vs rest \<Longrightarrow> run_plain fp base (rhs4_code k r) (frame L vs rest) =
    (if 4 \<le> length rest then Inr (Next 1, frame L (R4 (rhs4_val base L r) # vs) (drop 4 rest)) else Inl VStackOverflow)"
  "all_inside base L (rhs_locals 8 q) \<Longrightarrow> has_room L vs rest \<Longrightarrow> run_plain fp base (rhs8_code k q) (frame L vs rest) =
    (if 8 \<le> length rest then Inr (Next 1, frame L (R8 (rhs8_val base L q) # vs) (drop 8 rest)) else Inl VStackOverflow)"
  by (cases r; cases q; simp add: rhs4_code_def rhs8_code_def rhs4_val_def rhs8_val_def rhs_locals_def plain_steps)+

lemma simple_binops [simp]:
  "eval_local_binop32 fp I32Add a b = a + b" "eval_local_binop32 fp I32And a b = a AND b" "eval_local_binop32 fp I32Sub a b = a - b"
  by (simp_all add: eval_local_binop32_def)

lemma some_rest: "length r + k = n \<Longrightarrow> \<exists>rest'. f r = f rest' \<and> length rest' + k = n"
  by auto

lemma source4_plain:
  assumes "symmetric_equality fp" "has_room L (map R4 args) rest" "all_inside base L (source4_locals s)" "length args = source4_args s"
  shows "if source4_room s \<le> length rest
    then \<exists>rest'. run_plains fp base (source4_code s @ ps) (frame L (map R4 args) rest) =
        run_plains fp base ps (frame L [R4 (source4_val fp base L args s)] rest') \<and> length rest' + 4 = length rest + 4 * length args
    else run_plains fp base (source4_code s @ ps) (frame L (map R4 args) rest) = Inl VStackOverflow"
  using assms
  by (cases s) (auto simp: plain_steps rhs_steps rbind_if length_Suc_conv numeral_3_eq_3 intro!: some_rest simp del: drop_drop)

lemma source8_plain:
  assumes "has_room L [] rest" "all_inside base L (source8_locals s)"
  shows "if source8_room s \<le> length rest
    then \<exists>rest'. run_plains fp base (source8_code s @ ps) (frame L [] rest) =
        run_plains fp base ps (frame L [R8 (source8_val fp base L s)] rest') \<and> length rest' + 8 = length rest
    else run_plains fp base (source8_code s @ ps) (frame L [] rest) = Inl VStackOverflow"
  using assms by (cases s) (auto simp: plain_steps rhs_steps rbind_if intro!: some_rest simp del: drop_drop)

section \<open>The fused handlers on frames\<close>

lemma slot_simps [simp]:
  "operand_u32 1 (w # ops) = operand_u32 0 ops" "operand_u32 2 (w # ops) = operand_u32 1 ops" "operand_u32 3 (w # ops) = operand_u32 2 ops"
  "operand_u32 4 (w # ops) = operand_u32 3 ops" "operand_u32 5 (w # ops) = operand_u32 4 ops" "operand_u32 6 (w # ops) = operand_u32 5 ops"
  "operand_addr 1 (w # ops) = operand_addr 0 ops" "operand_addr 2 (w # ops) = operand_addr 1 ops" "operand_addr 3 (w # ops) = operand_addr 2 ops"
  "operand_addr 4 (w # ops) = operand_addr 3 ops" "operand_addr 5 (w # ops) = operand_addr 4 ops" "operand_addr 6 (w # ops) = operand_addr 5 ops"
  "operand_u64 1 (w # ops) = operand_u64 0 ops" "operand_u64 2 (w # ops) = operand_u64 1 ops"
  by (simp_all add: operand_u32_def operand_addr_def operand_u64_def numeral_eq_Suc)

lemma local_operands [simp]:
  "local_i32 base k (w # ops) st = (if k = 0 then local_u32_from_base base (unat (ucast w :: u32)) st else local_i32 base (k - 1) ops st)"
  "local_i64 base k (w # ops) st = (if k = 0 then local_u64_bits base (unat (ucast w :: u32)) st else local_i64 base (k - 1) ops st)"
  "set_local4 base k (w # ops) v st =
    (if k = 0 then local_set4_from_base_value base (unat (ucast w :: u32)) v st else set_local4 base (k - 1) ops v st)"
  "set_local8 base k (w # ops) d st =
    (if k = 0 then store_local8_bits base (unat (ucast w :: u32)) d st else set_local8 base (k - 1) ops d st)"
  by (cases k; simp add: local_i32_def local_i64_def set_local4_def set_local8_def)+

lemma rhs_loads:
  "all_inside base L (rhs_locals 4 r) \<Longrightarrow> k \<in> {KindI32, KindF32} \<Longrightarrow>
    load_binop32_rhs base (x # y # rhs4_slot r # ops) (rhs4_shape r) k (frame L vs rest) = Inr (rhs4_val base L r)"
  "all_inside base L (rhs_locals 8 q) \<Longrightarrow> k' \<in> {KindI64, KindF64} \<Longrightarrow>
    load_binop64_rhs base (x # y # rhs8_slot q # ops) (rhs4_shape q) k' (frame L vs rest) = Inr (rhs8_val base L q)"
  by (cases r; cases q; auto simp: load_binop32_rhs_def load_binop64_rhs_def rhs4_slot_def rhs8_slot_def rhs4_val_def rhs8_val_def
      rhs_locals_def frame_steps)+

lemma const_kinds:
  "binop32_const_kind b \<in> {KindI32, KindF32}" "cmp32_const_kind c \<in> {KindI32, KindF32}"
  "binop64_const_kind d \<in> {KindI64, KindF64}" "cmp64_const_kind e \<in> {KindI64, KindF64}"
  by (simp_all add: binop32_const_kind_def cmp32_const_kind_def binop64_const_kind_def cmp64_const_kind_def)

lemma binop32_evals:
  assumes "inside base L 4 a" "all_inside base L (rhs_locals 4 r)"
  shows "binop32_eval fp (opn, rhs4_shape r) base (w # slot32 a # rhs4_slot r # ops) (frame L vs rest) =
    Inr (eval_local_binop32 fp opn (lget4 base L a) (rhs4_val base L r))"
proof (cases "opn = I32Add \<or> opn = I32Sub")
  case True
  with assms show ?thesis
    by (cases r) (auto simp: binop32_eval_def fast_i32_eval_def frame_steps rhs4_val_def rhs4_slot_def rhs_locals_def)
next
  case False
  with assms rhs_loads(1) [OF assms(2) const_kinds(1)] show ?thesis
    by (simp add: binop32_eval_def fast_i32_eval_def frame_steps)
qed

lemma descriptor_evals:
  "inside base L 4 a \<Longrightarrow> all_inside base L (rhs_locals 4 r) \<Longrightarrow>
    cmp32_eval fp (c32, rhs4_shape r) base (w # slot32 a # rhs4_slot r # ops) (frame L vs rest) =
      Inr (eval_local_cmp32 fp c32 (lget4 base L a) (rhs4_val base L r))"
  "inside base L 8 a \<Longrightarrow> all_inside base L (rhs_locals 8 q) \<Longrightarrow>
    cmp64_eval fp (c64, rhs4_shape q) base (w # slot32 a # rhs8_slot q # ops) (frame L vs rest) =
      Inr (eval_local_cmp64 fp c64 (lget8 base L a) (rhs8_val base L q))"
  "inside base L 8 a \<Longrightarrow> all_inside base L (rhs_locals 8 q) \<Longrightarrow>
    binop64_eval fp (b64, rhs4_shape q) base (w # slot32 a # rhs8_slot q # ops) (frame L vs rest) =
      Inr (eval_local_binop64 fp b64 (lget8 base L a) (rhs8_val base L q))"
  "inside base L 4 a \<Longrightarrow> unary32_eval fp o32 base (w # slot32 a # ops) (frame L vs rest) = Inr (eval_local_unary32 fp o32 (lget4 base L a))"
  "inside base L 8 a \<Longrightarrow> unary64_eval fp o64 base (w # slot32 a # ops) (frame L vs rest) = Inr (eval_local_unary64 fp o64 (lget8 base L a))"
  by (simp_all add: cmp32_eval_def cmp64_eval_def binop64_eval_def unary32_eval_def unary64_eval_def load_cmp32_rhs_def load_cmp64_rhs_def
      frame_steps rhs_loads(1) [OF _ const_kinds(2)] rhs_loads(2) [OF _ const_kinds(3)] rhs_loads(2) [OF _ const_kinds(4)])

lemmas evals = binop32_evals descriptor_evals eval_binop32_from_tail_def eval_cmp32_from_tail_def eval_cmp64_from_tail_def
  eval_binop64_from_tail_def eval_unary32_from_tail_def eval_unary64_from_tail_def
  eval_i32_const_binop_from_tail_def eval_i32_const_cmp_from_tail_def eval_stack_i32_const_binop_def eval_stack_i32_const_cmp_def

lemmas fused4_defs =
  op_local_get4_i32_const_add_def op_local_get4_i32_const_add_set4_def op_local_get4_i32_const_add_tee4_def op_local_get4_set4_def
  op_local_get4_tee4_def op_i32_const_set4_def op_i32_const_tee4_def op_local_get4_local_get4_i32_add_def
  op_local_get4_local_get4_i32_add_set4_def op_local_get4_local_get4_i32_add_tee4_def op_local_get4_br_if_def
  op_local_get4_i32_const_add_br_if_def op_local_get4_local_get4_i32_add_br_if_def op_local_get4_i32_eqz_br_if_def
  op_local_get4_i32_const_compare_br_if_def op_local_get4_local_get4_compare_br_if_def
  op_local_get4_i32_const_and_i32_const_compare_br_if_def op_local_get4_i32_const_add_i32_const_and_i32_const_compare_br_if_def
  op_local_get4_i32_const_and_br_if_def op_local_get4_i32_const_and_eqz_br_if_def op_local_binop32_def op_local_binop32_set4_def
  op_local_binop32_tee4_def op_local_binop32_br_if_def op_i32_const_binop_def op_i32_const_binop_set4_def
  op_i32_const_binop_tee4_def op_i32_const_binop_br_if_def op_i32_const_cmp_def op_i32_const_cmp_set4_def op_i32_const_cmp_tee4_def
  op_i32_const_cmp_br_if_def op_local_cmp32_def op_local_cmp32_set4_def op_local_cmp32_tee4_def op_local_cmp32_br_if_def
  op_local_cmp64_def op_local_cmp64_set4_def op_local_cmp64_tee4_def op_local_cmp64_br_if_def op_local_unary32_def
  op_local_unary32_set4_def op_local_unary32_tee4_def op_select4_set4_def op_select4_tee4_def

lemmas fused8_defs =
  op_local_binop64_def op_local_binop64_set8_def op_local_binop64_tee8_def op_local_unary64_def op_local_unary64_set8_def
  op_local_unary64_tee8_def

lemmas fused_other_defs =
  op_local_get4_i32_const_add_tee4_br_if_def op_local_get4_i32_const_and_tee4_i32_const_eq_br_if_def op_local_get4_local_get4_def
  op_local_get4_local_get4_local_get4_def op_local_get4_run_def op_local_get4_run_skip_def
  op_local_get4_set4_local_get4_i32_const_compare_br_if_def op_local_get4x3_i32_add_const_binop_i32_add_set4_def
  op_local_get4x3_i32_add_const_binop_i32_add_tee4_def local_get4x3_add_const_binop_add_def

fun fused_use4 :: "nat \<Rightarrow> nat \<Rightarrow> byte list \<Rightarrow> u32 \<Rightarrow> use4 \<Rightarrow> byte list \<Rightarrow> vm_stop + vm_next \<times> stack" where
  "fused_use4 base n L v Push r = (if 4 \<le> length r then Inr (Next n, frame L [R4 v] (drop 4 r)) else Inl VStackOverflow)"
| "fused_use4 base n L v (Set d) r = Inr (Next n, frame (lset4 base L d v) [] r)"
| "fused_use4 base n L v (Tee d) r = (if 4 \<le> length r then Inr (Next n, frame (lset4 base L d v) [R4 v] (drop 4 r)) else Inl VStackOverflow)"
| "fused_use4 base n L v (Branch t) r = Inr (if v \<noteq> 0 then Jump t else Next n, frame L [] r)"

fun fused_use8 :: "nat \<Rightarrow> nat \<Rightarrow> byte list \<Rightarrow> u64 \<Rightarrow> use8 \<Rightarrow> byte list \<Rightarrow> vm_stop + vm_next \<times> stack" where
  "fused_use8 base n L v Push8 r = (if 8 \<le> length r then Inr (Next n, frame L [R8 v] (drop 8 r)) else Inl VStackOverflow)"
| "fused_use8 base n L v (SetLong d) r = Inr (Next n, frame (lset8 base L d v) [] r)"
| "fused_use8 base n L v (TeeLong d) r = (if 8 \<le> length r then Inr (Next n, frame (lset8 base L d v) [R8 v] (drop 8 r)) else Inl VStackOverflow)"

lemma frame_inject [simp]: "frame L vs r = frame L vs r' \<longleftrightarrow> r = r'"
  by (auto simp: frame_def stack_with_def)

lemma compare_branch:
  assumes "is_stack_i32_const_cmp opn"
  shows "i32_compare (ucast (compare_kind opn)) a b \<longleftrightarrow> eval_local_cmp32 fp opn a b \<noteq> 0"
  by (subst compare_kinds [OF assms, symmetric]) simp

lemma source4_fused:
  assumes "handler4 s u = Some h" "has_room L (map R4 args) rest" "all_inside base L (source4_locals s)" "all_inside base L (use4_locals u)"
    and "length args = source4_args s" "fused_ok (Fuse4 s u)"
  shows "h fp base (source4_slots s @ use4_slots u @ tail) (frame L (map R4 args) rest) =
    fused_use4 base (length (slots (Fuse4 s u))) L (source4_val fp base L args s) u (raws (map R4 args) @ rest)"
  using assms
  by (cases s; cases u) (auto simp: fused4_defs evals frame_steps br_if_ptr_def call_next_def compare_branch [where fp = fp] rbind_if
      length_Suc_conv numeral_3_eq_3 Let_def simp del: drop_drop)

lemma source8_fused:
  assumes "has_room L [] rest" "all_inside base L (source8_locals s)" "all_inside base L (use8_locals u)"
  shows "handler8 s u fp base (source8_slots s @ use8_slots u @ tail) (frame L [] rest) =
    fused_use8 base (length (slots (Fuse8 s u))) L (source8_val fp base L s) u rest"
  using assms by (cases s; cases u) (auto simp: fused8_defs evals frame_steps call_next_def rbind_if simp del: drop_drop)

section \<open>Comparison of the runs\<close>

definition same_stack :: "stack \<Rightarrow> stack \<Rightarrow> bool" where
  "same_stack st st' \<longleftrightarrow>
     sk_top st = sk_top st' \<and> take (sk_top st) (sk_memory st) = take (sk_top st') (sk_memory st') \<and>
     length (sk_memory st) = length (sk_memory st')"

lemma same_frame [simp]: "same_stack (frame L vs r) (frame L vs r') \<longleftrightarrow> length r = length r'"
  by (simp add: same_stack_def frame_def)

definition run_fused :: "float_arith \<Rightarrow> nat \<Rightarrow> fused \<Rightarrow> u64 list \<Rightarrow> stack \<Rightarrow> (vm_stop + vm_next \<times> stack) option" where
  "run_fused fp base f tail st = map_option (\<lambda>h. h fp base (slots f @ tail) st) (handler f)"

text \<open>The fused run against the plain run.\<close>

definition refines :: "nat \<Rightarrow> vm_stop + vm_next \<times> stack \<Rightarrow> vm_stop + u32 option \<times> stack \<Rightarrow> bool" where
  "refines n fused_run plain_run \<longleftrightarrow>
     (case fused_run of
        Inl e \<Rightarrow> e = VStackOverflow \<and> plain_run = Inl VStackOverflow
      | Inr (next_op, st) \<Rightarrow>
          (case plain_run of
             Inl e \<Rightarrow> e = VStackOverflow
           | Inr (target, st') \<Rightarrow> next_op = (case target of Some t \<Rightarrow> Jump t | None \<Rightarrow> Next n) \<and> same_stack st st'))"

lemma refines_simps [simp]:
  "refines n (Inl VStackOverflow) (Inl VStackOverflow)" "refines n (Inr r) (Inl VStackOverflow)"
  "refines n (Inr (k, st)) (Inr (t, st')) \<longleftrightarrow> k = (case t of Some t \<Rightarrow> Jump t | None \<Rightarrow> Next n) \<and> same_stack st st'"
  by (auto simp: refines_def split: prod.splits)

lemma refines_overflow: "r = Inl VStackOverflow \<Longrightarrow> (\<And>e. x = Inl e \<Longrightarrow> e = VStackOverflow) \<Longrightarrow> refines n x r"
  by (auto simp: refines_def split: sum.splits)

fun fused_locals :: "fused \<Rightarrow> (nat \<times> u32) list" where
  "fused_locals (Fuse4 s u) = source4_locals s @ use4_locals u"
| "fused_locals (Fuse8 s u) = source8_locals s @ use8_locals u"
| "fused_locals (Gets2 a b) = [(4, a), (4, b)]"
| "fused_locals (Gets3 a b c) = [(4, a), (4, b), (4, c)]"
| "fused_locals (Run addrs) = map (Pair 4) addrs"
| "fused_locals (RunSkip addrs skip) = map (Pair 4) addrs"
| "fused_locals (Indexed a b c opn k u skip) = [(4, a), (4, b), (4, c)] @ use4_locals u"
| "fused_locals (CopyCompareBranch src dst lhs opn k t) = [(4, src), (4, dst), (4, lhs)]"
| "fused_locals (AndTeeEqBranch a m d k t) = [(4, a), (4, d)]"
| "fused_locals (AddTeeBranch a k d t) = [(4, a), (4, d)]"

fun fused_args :: "fused \<Rightarrow> nat" where
  "fused_args (Fuse4 s u) = source4_args s" | "fused_args f = 0"

lemma use4_refines:
  assumes "length rest' + 4 = length r" "has_room L [] r" "all_inside base L (use4_locals u)"
  shows "refines n (fused_use4 base n L v u r) (run_plains fp base (use4_code u) (frame L [R4 v] rest'))"
  using assms by (cases u) (auto simp: plain_steps)

lemma use8_refines:
  assumes "length rest' + 8 = length r" "has_room L [] r" "all_inside base L (use8_locals u)"
  shows "refines n (fused_use8 base n L v u r) (run_plains fp base (use8_code u) (frame L [R8 v] rest'))"
  using assms by (cases u) (auto simp: plain_steps)

lemma use_overflow: "fused_use4 base n L v u r = Inl e \<Longrightarrow> e = VStackOverflow" "fused_use8 base n L w q r = Inl e \<Longrightarrow> e = VStackOverflow"
  by (cases u; simp split: if_splits; fail) (cases q; simp split: if_splits)

lemma length_raws4 [simp]: "length (raws (map R4 args)) = 4 * length args"
  by (induction args) simp_all

lemma fuse4_refines:
  assumes "symmetric_equality fp" "handler4 s u = Some h" "has_room L (map R4 args) rest"
    and "all_inside base L (source4_locals s)" "all_inside base L (use4_locals u)" "length args = source4_args s" "fused_ok (Fuse4 s u)"
  shows "refines (width (Fuse4 s u)) (h fp base (slots (Fuse4 s u) @ tail) (frame L (map R4 args) rest))
    (run_plains fp base (sequence (Fuse4 s u)) (frame L (map R4 args) rest))"
proof -
  have "has_room L [] (raws (map R4 args) @ rest)" using assms(3) by (simp add: has_room_def)
  note fused = source4_fused [OF assms(2,3,4,5,6,7), of fp tail] and uses = use4_refines [OF _ this assms(5)]
  show ?thesis
  proof (cases "source4_room s \<le> length rest")
    case True
    then show ?thesis using source4_plain [OF assms(1,3,4,6), of "use4_code u"] by (auto simp: fused intro!: uses)
  next
    case False
    then show ?thesis
      using source4_plain [OF assms(1,3,4,6), of "use4_code u"] by (intro refines_overflow) (auto simp: fused use_overflow)
  qed
qed

lemma fuse8_refines:
  assumes "has_room L [] rest" "all_inside base L (source8_locals s)" "all_inside base L (use8_locals u)"
  shows "refines (width (Fuse8 s u)) (handler8 s u fp base (slots (Fuse8 s u) @ tail) (frame L [] rest))
    (run_plains fp base (sequence (Fuse8 s u)) (frame L [] rest))"
proof (cases "source8_room s \<le> length rest")
  case True
  then show ?thesis
    using source8_plain [OF assms(1,2), of fp "use8_code u"] source8_fused [OF assms, of fp tail] by (auto intro: use8_refines [OF _ assms(1,3)])
next
  case False
  then show ?thesis
    using source8_plain [OF assms(1,2), of fp "use8_code u"] source8_fused [OF assms, of fp tail]
    by (intro refines_overflow) (auto simp: use_overflow)
qed

text \<open>A run of local reads pushes what its plain instructions push.\<close>

lemma push_run_plains:
  assumes "has_room L vs rest" "list_all (inside base L 4) addrs" "length pre = 1 + index"
  shows "push_run base (length addrs) index (pre @ map slot32 addrs @ post) (frame L vs rest) =
    rbind (run_plains fp base (map Get4 addrs) (frame L vs rest)) (\<lambda>(_, st). Inr st)"
  using assms
proof (induction addrs arbitrary: vs rest index pre)
  case (Cons a addrs)
  have op: "local_i32 base (1 + index) (pre @ map slot32 (a # addrs) @ post) (frame L vs rest) = Inr (lget4 base L a)"
    using Cons.prems by (simp add: local_i32_def operand_addr_def operand_u32_def nth_append frame_steps)
  show ?case
  proof (cases "4 \<le> length rest")
    case True
    have "push_run base (length addrs) (Suc index) ((pre @ [slot32 a]) @ map slot32 addrs @ post) (frame L (R4 (lget4 base L a) # vs) (drop 4 rest)) =
        rbind (run_plains fp base (map Get4 addrs) (frame L (R4 (lget4 base L a) # vs) (drop 4 rest))) (\<lambda>(_, st). Inr st)"
      using Cons.prems True by (intro Cons.IH) simp_all
    with op True Cons.prems show ?thesis by (simp add: frame_steps plain_steps)
  next
    case False
    with op Cons.prems show ?thesis by (simp add: frame_steps plain_steps)
  qed
qed simp

lemma gets_target:
  "has_room L vs rest \<Longrightarrow> list_all (inside base L 4) addrs \<Longrightarrow>
    run_plains fp base (map Get4 addrs) (frame L vs rest) = Inl VStackOverflow \<or>
    (\<exists>st. run_plains fp base (map Get4 addrs) (frame L vs rest) = Inr (None, st))"
  by (induction addrs arbitrary: vs rest) (auto simp: plain_steps simp del: drop_drop)

lemma same_stack_refl [simp]: "same_stack st st"
  by (simp add: same_stack_def)

lemma runs_refine:
  assumes "has_room L [] rest" "list_all (inside base L 4) addrs" "length addrs < 2 ^ 32"
  shows "refines (width (Run addrs)) (op_local_get4_run base (slots (Run addrs) @ tail) (frame L [] rest))
      (run_plains fp base (sequence (Run addrs)) (frame L [] rest))"
    "refines (width (RunSkip addrs skip)) (op_local_get4_run_skip base (slots (RunSkip addrs skip) @ tail) (frame L [] rest))
      (run_plains fp base (sequence (RunSkip addrs skip)) (frame L [] rest))"
proof -
  have count: "unat (ucast (of_nat (length addrs) :: u64) :: u32) = length addrs"
    using assms(3) by (simp add: unsigned_ucast_eq unat_small take_bit_eq_mod unat_of_nat)
  note run = push_run_plains [OF assms(1,2), of "[w]" 0 for w, simplified, where fp = fp]
  have skip: "operand_addr (length addrs) (map slot32 addrs @ slot32 skip # tail) = Inr (unat skip)"
    by (simp add: operand_addr_def operand_u32_def nth_append)
  from gets_target [OF assms(1,2), of fp]
  show "refines (width (Run addrs)) (op_local_get4_run base (slots (Run addrs) @ tail) (frame L [] rest))
      (run_plains fp base (sequence (Run addrs)) (frame L [] rest))"
    "refines (width (RunSkip addrs skip)) (op_local_get4_run_skip base (slots (RunSkip addrs skip) @ tail) (frame L [] rest))
      (run_plains fp base (sequence (RunSkip addrs skip)) (frame L [] rest))"
    by (auto simp: op_local_get4_run_def op_local_get4_run_skip_def count run skip call_next_def)
qed

lemma equality_op: "eval_local_cmp32 fp I32Eq a b = of_bool (a = b)"
  by (simp add: eval_local_cmp32_def)

lemmas run_rules = fused_other_defs frame_steps plain_steps br_if_ptr_def call_next_def rbind_if inside_lset

lemma gets_refine:
  assumes "has_room L [] rest" "inside base L 4 a" "inside base L 4 b" "inside base L 4 c"
  shows "refines (width (Gets2 a b)) (op_local_get4_local_get4 base (slots (Gets2 a b) @ tail) (frame L [] rest))
      (run_plains fp base (sequence (Gets2 a b)) (frame L [] rest))"
    "refines (width (Gets3 a b c)) (op_local_get4_local_get4_local_get4 base (slots (Gets3 a b c) @ tail) (frame L [] rest))
      (run_plains fp base (sequence (Gets3 a b c)) (frame L [] rest))"
  using assms by (auto simp: run_rules simp del: drop_drop)

lemma compare_branches_refine:
  assumes "symmetric_equality fp" "has_room L [] rest" "inside base L 4 a" "inside base L 4 d"
  shows "is_stack_i32_const_cmp opn \<Longrightarrow> inside base L 4 b \<Longrightarrow>
      refines (width (CopyCompareBranch a d b opn k t)) (op_local_get4_set4_local_get4_i32_const_compare_br_if base (slots (CopyCompareBranch a d b opn k t) @ tail) (frame L [] rest))
      (run_plains fp base (sequence (CopyCompareBranch a d b opn k t)) (frame L [] rest))"
    "refines (width (AndTeeEqBranch a m d k t)) (op_local_get4_i32_const_and_tee4_i32_const_eq_br_if base (slots (AndTeeEqBranch a m d k t) @ tail) (frame L [] rest))
      (run_plains fp base (sequence (AndTeeEqBranch a m d k t)) (frame L [] rest))"
    "refines (width (AddTeeBranch a k d t)) (op_local_get4_i32_const_add_tee4_br_if base (slots (AddTeeBranch a k d t) @ tail) (frame L [] rest))
      (run_plains fp base (sequence (AddTeeBranch a k d t)) (frame L [] rest))"
  using assms by (auto simp: run_rules equality_op compare_branch [where fp = fp] simp del: drop_drop)

lemma indexed_refines:
  assumes "handler (Indexed a b c opn k u skip) = Some h" "has_room L [] rest" "inside base L 4 a" "inside base L 4 b" "inside base L 4 c"
    and "all_inside base L (use4_locals u)" "is_stack_i32_const_binop opn"
  shows "refines (unat skip) (h fp base (slots (Indexed a b c opn k u skip) @ tail) (frame L [] rest))
      (run_plains fp base (sequence (Indexed a b c opn k u skip)) (frame L [] rest))"
  using assms by (cases u) (auto simp: run_rules eval_stack_i32_const_binop_def simp del: drop_drop)

lemma fused_refines_frame:
  assumes "symmetric_equality fp" "handler f = Some h" "has_room L (map R4 ws) rest" "all_inside base L (fused_locals f)" "fused_ok f"
    and "length ws = fused_args f"
  shows "refines (width f) (h fp base (slots f @ tail) (frame L (map R4 ws) rest)) (run_plains fp base (sequence f) (frame L (map R4 ws) rest))"
proof -
  have runs: "all_inside base L (map (Pair 4) addrs) \<longleftrightarrow> list_all (inside base L 4) addrs" for addrs
    by (simp add: all_inside_def list.pred_map comp_def)
  show ?thesis
  proof (cases f)
    case (Fuse4 s u)
    then show ?thesis using fuse4_refines [OF assms(1) _ assms(3)] assms by simp
  next
    case (Fuse8 s u)
    then show ?thesis using fuse8_refines [of L rest base s u fp tail] assms by simp
  next
    case (Run addrs)
    then show ?thesis using runs_refine(1) [of L rest base addrs tail fp] assms by (auto simp: runs)
  next
    case (RunSkip addrs skip)
    then show ?thesis using runs_refine(2) [of L rest base addrs skip tail fp] assms by (auto simp: runs)
  next
    case (Indexed a b c opn k u skip)
    then show ?thesis using indexed_refines [of a b c opn k u skip h L rest base fp tail] assms by simp
  next
    case (Gets2 a b)
    then show ?thesis using gets_refine(1) [of L rest base a b a] assms by auto
  next
    case (Gets3 a b c)
    then show ?thesis using gets_refine(2) [of L rest base a b c] assms by auto
  next
    case (CopyCompareBranch src dst lhs opn k t)
    then show ?thesis using compare_branches_refine(1) [OF assms(1), of L rest base src dst] assms by auto
  next
    case (AndTeeEqBranch a m d k t)
    then show ?thesis using compare_branches_refine(2) [OF assms(1), of L rest base a d] assms by auto
  next
    case (AddTeeBranch a k d t)
    then show ?thesis using compare_branches_refine(3) [OF assms(1), of L rest base a d] assms by auto
  qed
qed

lemma word_operands:
  assumes "map (\<lambda>v. sizeof (value_type v)) args = replicate n 4"
  shows "\<exists>ws. operand_bytes args = raws (map R4 ws) \<and> length ws = n"
  using assms
proof (induction args arbitrary: n rule: rev_induct)
  case (snoc v args)
  have len: "length args + 1 = n" using arg_cong [OF snoc.prems, of length] by simp
  then have r: "replicate n (4 :: nat) = replicate (length args) 4 @ [4]" by (metis Suc_eq_plus1 replicate_Suc replicate_append_same)
  with snoc.prems have "sizeof (value_type v) = 4" and args: "map (\<lambda>v. sizeof (value_type v)) args = replicate (length args) 4" by auto
  then obtain w where "value_bytes v = to_le 4 (w :: u32)" by (cases v) (auto simp: value_bytes_def value_type_def)
  moreover obtain ws where "operand_bytes args = raws (map R4 ws)" "length ws = length args" using snoc.IH [OF args] by blast
  ultimately show ?case using len by (intro exI [of _ "w # ws"]) simp
qed simp

text \<open>C5: A fused instruction of \<open>superinstructions.rs\<close>, but the one that stores to memory, and a select fused with a
  store to a local do what the instructions do that they replace.  On a stack that holds
  its operands and with its locals below them, it continues where the sequence continues, after its
  own slots or at the target of a branch that is taken, with the same operands and the same bytes
  of the locals.  It overflows the stack only where the sequence does, and never reaches behaviour
  that the source leaves undefined.\<close>

theorem fused_instructions_correct:
  assumes "symmetric_equality fp" "holds L args st" "map (\<lambda>v. sizeof (value_type v)) args = replicate (fused_args f) 4"
    and "\<forall>(n, a)\<in>set (fused_locals f). base + unat a + n \<le> length L" "fused_ok f" "run_fused fp base f tail st = Some fused_run"
  shows "refines (width f) fused_run (run_plains fp base (sequence f) st)"
proof -
  obtain rest where st: "st = stack_with (L @ operand_bytes args) rest" "length (L @ operand_bytes args @ rest) < 2 ^ 64"
    using assms(2) by (auto simp: holds_iff)
  obtain ws where ws: "operand_bytes args = raws (map R4 ws)" "length ws = fused_args f" using word_operands [OF assms(3)] by blast
  obtain h where h: "handler f = Some h" "fused_run = h fp base (slots f @ tail) st" using assms(6) by (auto simp: run_fused_def)
  have has_room: "has_room L (map R4 ws) rest" and frame: "st = frame L (map R4 ws) rest" using st ws by (simp_all add: has_room_def frame_def)
  have "all_inside base L (fused_locals f)" using assms(4) by (auto simp: all_inside_def list_all_iff inside_def)
  from fused_refines_frame [OF assms(1) h(1) has_room this assms(5) ws(2)] show ?thesis unfolding h(2) frame .
qed

theorem fused_instructions_correct_witness:
  "\<exists>fp st st'. holds (to_le 4 (7 :: u32) @ to_le 4 (9 :: u32)) [] st \<and>
     run_fused fp 0 (Fuse4 (AddConst 4 5) (Tee 0)) [] st = Some (Inr (Next 3, st')) \<and>
     holds (to_le 4 (14 :: u32) @ to_le 4 (9 :: u32)) [WI32 14] st' \<and>
     refines 3 (Inr (Next 3, st')) (run_plains fp 0 [Get4 4, ConstI32 5, Binop32 I32Add, Tee4 0] st)"
proof -
  let ?fp = "\<lparr>fa_bin32 = \<lambda>_ a b. a, fa_rel32 = \<lambda>_ a b. a = b, fa_un32 = \<lambda>_ a. a, fa_bin64 = \<lambda>_ a b. a, fa_rel64 = \<lambda>_ a b. a = b, fa_un64 = \<lambda>_ a. a\<rparr>"
  let ?L = "to_le 4 (7 :: u32) @ to_le 4 (9 :: u32)" and ?f = "Fuse4 (AddConst 4 5) (Tee 0)"
  let ?st = "frame ?L [] (replicate 8 0)" and ?L' = "to_le 4 (14 :: u32) @ to_le 4 (9 :: u32)"
  have locals: "lget4 0 ?L 4 = 9" "lset4 0 ?L 0 14 = ?L'" "inside 0 ?L 4 4" "inside 0 ?L 4 0"
    by (simp_all add: lget4_def lset4_def slice_def splice_at_def from_le_to_le inside_def)
  have sym: "symmetric_equality ?fp" by (auto simp: symmetric_equality_def)
  have h: "holds ?L [] ?st" and has_room: "has_room ?L [] (replicate 8 0)" by (auto simp: holds_iff frame_def has_room_def)
  have "run_fused ?fp 0 ?f [] ?st = Some (fused_use4 0 3 ?L 14 (Tee 0) (replicate 8 0))"
    using source4_fused [of "AddConst 4 5" "Tee 0" _ ?L "[]" "replicate 8 0" 0 ?fp "[]"] has_room locals by (simp add: run_fused_def)
  then have run: "run_fused ?fp 0 ?f [] ?st = Some (Inr (Next 3, frame ?L' [R4 14] (replicate 4 0)))" using locals by simp
  have "refines 3 (Inr (Next 3, frame ?L' [R4 14] (replicate 4 0))) (run_plains ?fp 0 [Get4 4, ConstI32 5, Binop32 I32Add, Tee4 0] ?st)"
    using fused_instructions_correct [OF sym h _ _ _ run] by (simp add: eval_nat_numeral)
  moreover have "holds ?L' [WI32 14] (frame ?L' [R4 14] (replicate 4 0))" by (auto simp: holds_iff value_bytes_def frame_def)
  ultimately show ?thesis using h run by blast
qed

end
