(* ===== verification/Linear_Memory.thy ===== *)
theory Linear_Memory
  imports Metering Local_Instructions Integer_Instructions
begin

text \<open>
  The linear memory, \<open>telomere/src/common/memory.rs\<close>, and the handlers of the interpreter for the
  memory instructions on an unshared default memory, in \<open>telomere/src/runtime/vm/memory.rs\<close> and
  \<open>bulk_memory.rs\<close>.  The committed bytes of the mapped region are a list; whether the operating
  system maps or unprotects a number of bytes is a parameter.  The bulk instructions and
  \<open>memory.grow\<close> charge fuel with the operations of \<open>Metering\<close>.  The theory shows that the
  instructions are those of the specification and keep the memory well-formed.
\<close>

section \<open>Memory\<close>

definition PAGE_SIZE :: nat where
  "PAGE_SIZE = 65536"

record memory =
  mm_data :: "byte list"
  mm_reserved :: nat
  mm_pages :: u32
  mm_max :: u32

datatype memory_mapping_operation = Mmap | Mprotect

datatype memory_init_error =
    InvalidPageBounds u32 u32
  | ReservationTooLarge u32
  | MappingFailed memory_mapping_operation nat
  | InvalidCommitLength nat nat nat

definition usize_try_from :: "nat \<Rightarrow> nat option" where
  "usize_try_from n = (if n < 2 ^ 64 then Some n else None)"

definition reservation_bytes :: "u32 \<Rightarrow> memory_init_error + nat" where
  "reservation_bytes max_pages = ok_or (ReservationTooLarge max_pages) (usize_try_from (max (unat max_pages * PAGE_SIZE) PAGE_SIZE))"

definition committed_bytes_for_pages :: "u32 \<Rightarrow> memory_init_error + nat" where
  "committed_bytes_for_pages page_count = ok_or (ReservationTooLarge page_count) (usize_try_from (unat page_count * PAGE_SIZE))"

text \<open>Committing makes reserved bytes accessible; they are zero.\<close>

definition region_commit :: "(nat \<Rightarrow> bool) \<Rightarrow> nat \<Rightarrow> memory \<Rightarrow> memory_init_error + memory" where
  "region_commit unprotect new_len m =
     (let committed = length (mm_data m) in
      if new_len = 0 \<or> new_len = committed then Inr m
      else if new_len < committed \<or> new_len > mm_reserved m then Inl (InvalidCommitLength new_len committed (mm_reserved m))
      else if unprotect (new_len - committed) then Inr (m\<lparr>mm_data := mm_data m @ replicate (new_len - committed) 0\<rparr>)
      else Inl (MappingFailed Mprotect (new_len - committed)))"

definition new_with_mapping :: "(nat \<Rightarrow> bool) \<Rightarrow> (nat \<Rightarrow> bool) \<Rightarrow> u32 \<Rightarrow> u32 \<Rightarrow> memory_init_error + memory" where
  "new_with_mapping map_bytes unprotect page_count max_page_size =
     (if page_count > max_page_size then Inl (InvalidPageBounds page_count max_page_size)
      else rbind (reservation_bytes max_page_size) (\<lambda>reserved.
        rbind (committed_bytes_for_pages page_count) (\<lambda>committed.
        if \<not> map_bytes reserved then Inl (MappingFailed Mmap reserved)
        else region_commit unprotect committed
          \<lparr>mm_data = [], mm_reserved = reserved, mm_pages = page_count, mm_max = max_page_size\<rparr>)))"

definition write_bytes :: "nat \<Rightarrow> byte list \<Rightarrow> memory \<Rightarrow> vm_stop + memory" where
  "write_bytes offset bytes m =
     rbind (ok_or VMemoryIndexOutOfRange (usize_add offset (length bytes))) (\<lambda>last.
       if last \<le> length (mm_data m) then Inr (m\<lparr>mm_data := splice_at offset bytes (mm_data m)\<rparr>) else Inl VMemoryIndexOutOfRange)"

definition push_to_stack :: "nat \<Rightarrow> memory \<Rightarrow> nat \<Rightarrow> stack \<Rightarrow> vm_stop + stack" where
  "push_to_stack n m offset st =
     rbind (ok_or VMemoryIndexOutOfRange (usize_add offset n)) (\<lambda>last.
       if last > length (mm_data m) then Inl VMemoryIndexOutOfRange else push_fast (slice offset n (mm_data m)) st)"

definition read_bytes_at :: "nat \<Rightarrow> memory \<Rightarrow> nat \<Rightarrow> vm_stop + byte list" where
  "read_bytes_at n m offset =
     rbind (ok_or VMemoryIndexOutOfRange (usize_add offset n)) (\<lambda>last.
       if last > length (mm_data m) then Inl VMemoryIndexOutOfRange else Inr (slice offset n (mm_data m)))"

definition read_u8_at :: "memory \<Rightarrow> nat \<Rightarrow> vm_stop + byte" where
  "read_u8_at m offset = (if offset \<ge> length (mm_data m) then Inl VMemoryIndexOutOfRange else Inr (mm_data m ! offset))"

definition read_u16_at :: "memory \<Rightarrow> nat \<Rightarrow> vm_stop + u16" where
  "read_u16_at m offset = rbind (read_bytes_at 2 m offset) (\<lambda>bs. Inr (from_le bs))"

definition read_u32_at :: "memory \<Rightarrow> nat \<Rightarrow> vm_stop + u32" where
  "read_u32_at m offset = rbind (read_bytes_at 4 m offset) (\<lambda>bs. Inr (from_le bs))"

definition memory_grow :: "(nat \<Rightarrow> bool) \<Rightarrow> u32 \<Rightarrow> memory \<Rightarrow> u32 \<times> memory" where
  "memory_grow unprotect page_size_delta m =
     (case checked_add (mm_pages m) page_size_delta of
        None \<Rightarrow> (- 1, m)
      | Some new_page_size \<Rightarrow>
          if new_page_size > mm_max m then (- 1, m)
          else (case committed_bytes_for_pages new_page_size of
            Inl _ \<Rightarrow> (- 1, m)
          | Inr new_committed_bytes \<Rightarrow>
            if new_committed_bytes > mm_reserved m then (- 1, m)
            else (case region_commit unprotect new_committed_bytes m of
                    Inl _ \<Rightarrow> (- 1, m)
                  | Inr m' \<Rightarrow> (mm_pages m, m'\<lparr>mm_pages := new_page_size\<rparr>))))"

definition memory_fill :: "u32 \<Rightarrow> u32 \<Rightarrow> u32 \<Rightarrow> memory \<Rightarrow> vm_stop + memory" where
  "memory_fill ptr len data m =
     rbind (ok_or VMemoryIndexOutOfRange (checked_add ptr len)) (\<lambda>last.
       if unat last \<le> length (mm_data m) then Inr (m\<lparr>mm_data := splice_at (unat ptr) (replicate (unat len) (ucast data)) (mm_data m)\<rparr>)
       else Inl VMemoryIndexOutOfRange)"

definition memory_copy :: "u32 \<Rightarrow> u32 \<Rightarrow> u32 \<Rightarrow> memory \<Rightarrow> vm_stop + memory" where
  "memory_copy dst src len m =
     rbind (ok_or VMemoryIndexOutOfRange (checked_add src len)) (\<lambda>src_last.
       if unat src_last > length (mm_data m) then Inl VMemoryIndexOutOfRange
       else rbind (ok_or VMemoryIndexOutOfRange (checked_add dst len)) (\<lambda>dst_last.
         if unat dst_last > length (mm_data m) then Inl VMemoryIndexOutOfRange
         else Inr (m\<lparr>mm_data := splice_at (unat dst) (slice (unat src) (unat len) (mm_data m)) (mm_data m)\<rparr>)))"

section \<open>Handlers\<close>

definition compute_memory_offset :: "u32 \<Rightarrow> u32 \<Rightarrow> vm_stop + nat" where
  "compute_memory_offset memarg_offset offset =
     (case checked_add memarg_offset offset of Some s \<Rightarrow> Inr (unat s) | None \<Rightarrow> Inl VMemoryIndexOutOfRange)"

definition load_start :: "u32 \<Rightarrow> stack \<Rightarrow> vm_stop + nat \<times> stack" where
  "load_start memarg_offset st =
     rbind (pop_u32 st) (\<lambda>(offset, st). rbind (compute_memory_offset memarg_offset offset) (\<lambda>start. Inr (start, st)))"

text \<open>A handler continues with the memory and the stack; the offset of its memory argument is its operand.\<close>

type_synonym memory_handler = "u32 \<Rightarrow> memory \<Rightarrow> stack \<Rightarrow> vm_stop + vm_next \<times> memory \<times> stack"

definition next_op :: "nat \<Rightarrow> memory \<Rightarrow> stack \<Rightarrow> vm_stop + vm_next \<times> memory \<times> stack" where
  "next_op n m st = Inr (Next n, m, st)"

definition op_i32_load :: memory_handler where
  "op_i32_load memarg_offset m st =
     rbind (load_start memarg_offset st) (\<lambda>(start, st). rbind (push_to_stack 4 m start st) (next_op 1 m))"

definition op_i64_load :: memory_handler where
  "op_i64_load memarg_offset m st =
     rbind (load_start memarg_offset st) (\<lambda>(start, st). rbind (push_to_stack 8 m start st) (next_op 1 m))"

definition op_f32_load :: memory_handler where
  "op_f32_load memarg_offset m st =
     rbind (load_start memarg_offset st) (\<lambda>(start, st). rbind (push_to_stack 4 m start st) (next_op 1 m))"

definition op_f64_load :: memory_handler where
  "op_f64_load memarg_offset m st =
     rbind (load_start memarg_offset st) (\<lambda>(start, st). rbind (push_to_stack 8 m start st) (next_op 1 m))"

definition op_i32_load8_u :: memory_handler where
  "op_i32_load8_u memarg_offset m st =
     rbind (load_start memarg_offset st) (\<lambda>(start, st).
     rbind (read_u8_at m start) (\<lambda>v. rbind (push_u32_fast (ucast v) st) (next_op 1 m)))"

definition op_i32_load8_s :: memory_handler where
  "op_i32_load8_s memarg_offset m st =
     rbind (load_start memarg_offset st) (\<lambda>(start, st).
     rbind (read_u8_at m start) (\<lambda>v. rbind (push_u32_fast (scast v) st) (next_op 1 m)))"

definition op_i32_load16_u :: memory_handler where
  "op_i32_load16_u memarg_offset m st =
     rbind (load_start memarg_offset st) (\<lambda>(start, st).
     rbind (read_u16_at m start) (\<lambda>v. rbind (push_u32_fast (ucast v) st) (next_op 1 m)))"

definition op_i32_load16_s :: memory_handler where
  "op_i32_load16_s memarg_offset m st =
     rbind (load_start memarg_offset st) (\<lambda>(start, st).
     rbind (read_u16_at m start) (\<lambda>v. rbind (push_u32_fast (scast v) st) (next_op 1 m)))"

definition op_i64_load8_u :: memory_handler where
  "op_i64_load8_u memarg_offset m st =
     rbind (load_start memarg_offset st) (\<lambda>(start, st).
     rbind (read_u8_at m start) (\<lambda>v. rbind (push_u64 (ucast v) st) (next_op 1 m)))"

definition op_i64_load8_s :: memory_handler where
  "op_i64_load8_s memarg_offset m st =
     rbind (load_start memarg_offset st) (\<lambda>(start, st).
     rbind (read_u8_at m start) (\<lambda>v. rbind (push_u64 (scast v) st) (next_op 1 m)))"

definition op_i64_load16_u :: memory_handler where
  "op_i64_load16_u memarg_offset m st =
     rbind (load_start memarg_offset st) (\<lambda>(start, st).
     rbind (read_u16_at m start) (\<lambda>v. rbind (push_u64 (ucast v) st) (next_op 1 m)))"

definition op_i64_load16_s :: memory_handler where
  "op_i64_load16_s memarg_offset m st =
     rbind (load_start memarg_offset st) (\<lambda>(start, st).
     rbind (read_u16_at m start) (\<lambda>v. rbind (push_u64 (scast v) st) (next_op 1 m)))"

definition op_i64_load32_u :: memory_handler where
  "op_i64_load32_u memarg_offset m st =
     rbind (load_start memarg_offset st) (\<lambda>(start, st).
     rbind (read_u32_at m start) (\<lambda>v. rbind (push_u64 (ucast v) st) (next_op 1 m)))"

definition op_i64_load32_s :: memory_handler where
  "op_i64_load32_s memarg_offset m st =
     rbind (load_start memarg_offset st) (\<lambda>(start, st).
     rbind (read_u32_at m start) (\<lambda>v. rbind (push_u64 (scast v) st) (next_op 1 m)))"

definition truncate_u32_to_u8_bytes :: "u32 \<Rightarrow> byte list" where
  "truncate_u32_to_u8_bytes v = [ucast (v AND 0xff)]"

definition truncate_u32_to_u16_bytes :: "u32 \<Rightarrow> byte list" where
  "truncate_u32_to_u16_bytes v = [ucast (v AND 0xff), ucast (drop_bit 8 v AND 0xff)]"

definition truncate_u64_to_u8_bytes :: "u64 \<Rightarrow> byte list" where
  "truncate_u64_to_u8_bytes v = [ucast (v AND 0xff)]"

definition truncate_u64_to_u16_bytes :: "u64 \<Rightarrow> byte list" where
  "truncate_u64_to_u16_bytes v = [ucast (v AND 0xff), ucast (drop_bit 8 v AND 0xff)]"

definition truncate_u64_to_u32_bytes :: "u64 \<Rightarrow> byte list" where
  "truncate_u64_to_u32_bytes v =
     [ucast (v AND 0xff), ucast (drop_bit 8 v AND 0xff), ucast (drop_bit 16 v AND 0xff), ucast (drop_bit 24 v AND 0xff)]"

definition store_internal_local :: "(stack \<Rightarrow> vm_stop + byte list \<times> stack) \<Rightarrow> memory_handler" where
  "store_internal_local make_operation memarg_offset m st =
     rbind (make_operation st) (\<lambda>(bytes, st).
     rbind (pop_u32 st) (\<lambda>(offset, st).
     rbind (compute_memory_offset memarg_offset offset) (\<lambda>start.
     rbind (write_bytes start bytes m) (\<lambda>m. next_op 1 m st))))"

definition op_i32_store :: memory_handler where
  "op_i32_store = store_internal_local (pop_bytes 4)"

definition op_i64_store :: memory_handler where
  "op_i64_store = store_internal_local (pop_bytes 8)"

definition op_f32_store :: memory_handler where
  "op_f32_store = store_internal_local (pop_bytes 4)"

definition op_f64_store :: memory_handler where
  "op_f64_store = store_internal_local (pop_bytes 8)"

definition op_i32_store8 :: memory_handler where
  "op_i32_store8 = store_internal_local (\<lambda>st. rbind (pop_u32 st) (\<lambda>(v, st). Inr (truncate_u32_to_u8_bytes v, st)))"

definition op_i32_store16 :: memory_handler where
  "op_i32_store16 = store_internal_local (\<lambda>st. rbind (pop_u32 st) (\<lambda>(v, st). Inr (truncate_u32_to_u16_bytes v, st)))"

definition op_i64_store8 :: memory_handler where
  "op_i64_store8 = store_internal_local (\<lambda>st. rbind (pop_u64 st) (\<lambda>(v, st). Inr (truncate_u64_to_u8_bytes v, st)))"

definition op_i64_store16 :: memory_handler where
  "op_i64_store16 = store_internal_local (\<lambda>st. rbind (pop_u64 st) (\<lambda>(v, st). Inr (truncate_u64_to_u16_bytes v, st)))"

definition op_i64_store32 :: memory_handler where
  "op_i64_store32 = store_internal_local (\<lambda>st. rbind (pop_u64 st) (\<lambda>(v, st). Inr (truncate_u64_to_u32_bytes v, st)))"

section \<open>The size of the memory and the bulk instructions\<close>

text \<open>The bulk instructions also use the data segments, which may have been dropped, and charge fuel.\<close>

record mem_state =
  ms_memory :: memory
  ms_segments :: "u32 \<Rightarrow> byte list option"
  ms_meter :: "metering_state \<times> meter_ctx"

type_synonym mem_result = "(vm_stop + vm_next \<times> stack) \<times> mem_state"

definition into_vm_result :: "interrupt_reason \<Rightarrow> vm_stop" where
  "into_vm_result r = (case r of FuelExhausted \<Rightarrow> VFuelExhausted | Cancelled \<Rightarrow> VCancelled)"

definition charge_meter :: "nat \<Rightarrow> metering_state \<times> meter_ctx \<Rightarrow> (interrupt_reason + unit) \<times> metering_state \<times> meter_ctx" where
  "charge_meter amount mt = vm_charge_n charge_n interrupted amount (fst mt) (snd mt)"

definition vm_checkpoint_n :: "u64 \<Rightarrow> mem_state \<Rightarrow> (mem_state \<Rightarrow> mem_result) \<Rightarrow> mem_result" where
  "vm_checkpoint_n amount s k =
     (case charge_meter (unat amount) (ms_meter s) of
        (Inl reason, mt) \<Rightarrow> (Inl (into_vm_result reason), s\<lparr>ms_meter := mt\<rparr>)
      | (Inr _, mt) \<Rightarrow> k (s\<lparr>ms_meter := mt\<rparr>))"

definition memory_bulk_charge :: "u32 \<Rightarrow> u64" where
  "memory_bulk_charge len = 1 + drop_bit 12 (ucast len)"

text \<open>The tail of a handler that updates the memory, and one that pushes a result.\<close>

definition with_memory :: "nat \<Rightarrow> stack \<Rightarrow> mem_state \<Rightarrow> vm_stop + memory \<Rightarrow> mem_result" where
  "with_memory n st s r =
     (case r of Inl e \<Rightarrow> (Inl e, s) | Inr m \<Rightarrow> (Inr (Next n, st), s\<lparr>ms_memory := m\<rparr>))"

definition with_push :: "nat \<Rightarrow> mem_state \<Rightarrow> vm_stop + stack \<Rightarrow> mem_result" where
  "with_push n s r = (rbind r (\<lambda>st. Inr (Next n, st)), s)"

definition pop_three :: "stack \<Rightarrow> vm_stop + (u32 \<times> u32 \<times> u32) \<times> stack" where
  "pop_three st =
     rbind (pop_u32 st) (\<lambda>(c, st). rbind (pop_u32 st) (\<lambda>(b, st). rbind (pop_u32 st) (\<lambda>(a, st). Inr ((c, b, a), st))))"

definition op_mem_size :: "mem_state \<Rightarrow> stack \<Rightarrow> mem_result" where
  "op_mem_size s st = with_push 0 s (push_u32 (mm_pages (ms_memory s)) st)"

definition op_mem_grow :: "(nat \<Rightarrow> bool) \<Rightarrow> mem_state \<Rightarrow> stack \<Rightarrow> mem_result" where
  "op_mem_grow unprotect s st =
     (case pop_u32 st of
        Inl e \<Rightarrow> (Inl e, s)
      | Inr (page_size_delta, st) \<Rightarrow>
          vm_checkpoint_n (1 + push_bit 4 (ucast page_size_delta)) s (\<lambda>s.
            case memory_grow unprotect page_size_delta (ms_memory s) of
              (result, m) \<Rightarrow> with_push 0 (s\<lparr>ms_memory := m\<rparr>) (push_u32 result st)))"

definition op_mem_fill :: "mem_state \<Rightarrow> stack \<Rightarrow> mem_result" where
  "op_mem_fill s st =
     (case pop_three st of
        Inl e \<Rightarrow> (Inl e, s)
      | Inr ((len, data, ptr), st) \<Rightarrow>
          vm_checkpoint_n (memory_bulk_charge len) s (\<lambda>s. with_memory 0 st s (memory_fill ptr len data (ms_memory s))))"

text \<open>\<open>pending\<close>: an effect of the task is under way, and the handler returns to the scheduler.\<close>

definition op_mem_copy :: "bool \<Rightarrow> mem_state \<Rightarrow> stack \<Rightarrow> mem_result" where
  "op_mem_copy pending s st =
     (if pending then (Inl VYielded, s)
      else case pop_three st of
        Inl e \<Rightarrow> (Inl e, s)
      | Inr ((len, src, dst), st) \<Rightarrow>
          vm_checkpoint_n (memory_bulk_charge len) s (\<lambda>s. with_memory 0 st s (memory_copy dst src len (ms_memory s))))"

definition mem_init_bytes :: "byte list option \<Rightarrow> u32 \<Rightarrow> u32 \<Rightarrow> vm_stop + byte list option" where
  "mem_init_bytes segment src len =
     (if segment = None \<and> len = 0 \<and> src = 0 then Inr None
      else rbind (ok_or VMemoryIndexOutOfRange segment) (\<lambda>data.
        rbind (ok_or VMemoryIndexOutOfRange (checked_add src len)) (\<lambda>src_last.
          if unat src_last \<le> length data then Inr (Some (slice (unat src) (unat len) data)) else Inl VMemoryIndexOutOfRange)))"

definition mem_init_impl_local :: "byte list option \<Rightarrow> u32 \<Rightarrow> u32 \<Rightarrow> u32 \<Rightarrow> memory \<Rightarrow> vm_stop + memory" where
  "mem_init_impl_local segment dst src len m =
     rbind (mem_init_bytes segment src len) (\<lambda>copied. write_bytes (unat dst) (case copied of Some bs \<Rightarrow> bs | None \<Rightarrow> []) m)"

definition op_mem_init :: "u32 \<Rightarrow> mem_state \<Rightarrow> stack \<Rightarrow> mem_result" where
  "op_mem_init idx s st =
     (case pop_three st of
        Inl e \<Rightarrow> (Inl e, s)
      | Inr ((len, src, dst), st) \<Rightarrow>
          vm_checkpoint_n (memory_bulk_charge len) s (\<lambda>s.
            with_memory 1 st s (mem_init_impl_local (ms_segments s idx) dst src len (ms_memory s))))"

definition op_data_drop :: "bool \<Rightarrow> u32 \<Rightarrow> mem_state \<Rightarrow> stack \<Rightarrow> mem_result" where
  "op_data_drop pending idx s st =
     (if pending then (Inl VYielded, s) else (Inr (Next 1, st), s\<lparr>ms_segments := (ms_segments s)(idx := None)\<rparr>))"

section \<open>The instructions of the specification\<close>

datatype load_inst =
    LoadI32 | LoadI64 | LoadF32 | LoadF64 | LoadI32U8 | LoadI32S8 | LoadI32U16 | LoadI32S16
  | LoadI64U8 | LoadI64S8 | LoadI64U16 | LoadI64S16 | LoadI64U32 | LoadI64S32

datatype store_inst =
    StoreI32 | StoreI64 | StoreF32 | StoreF64 | StoreI32B8 | StoreI32B16 | StoreI64B8 | StoreI64B16 | StoreI64B32

datatype mem_inst = Load load_inst u32 | Store store_inst u32 | MemSize | MemGrow | MemFill | MemCopy | MemInit u32 | DataDrop u32

definition run_load :: "load_inst \<Rightarrow> memory_handler" where
  "run_load lop =
     (case lop of
        LoadI32 \<Rightarrow> op_i32_load | LoadI64 \<Rightarrow> op_i64_load | LoadF32 \<Rightarrow> op_f32_load | LoadF64 \<Rightarrow> op_f64_load
      | LoadI32U8 \<Rightarrow> op_i32_load8_u | LoadI32S8 \<Rightarrow> op_i32_load8_s | LoadI32U16 \<Rightarrow> op_i32_load16_u | LoadI32S16 \<Rightarrow> op_i32_load16_s
      | LoadI64U8 \<Rightarrow> op_i64_load8_u | LoadI64S8 \<Rightarrow> op_i64_load8_s | LoadI64U16 \<Rightarrow> op_i64_load16_u | LoadI64S16 \<Rightarrow> op_i64_load16_s
      | LoadI64U32 \<Rightarrow> op_i64_load32_u | LoadI64S32 \<Rightarrow> op_i64_load32_s)"

definition run_store :: "store_inst \<Rightarrow> memory_handler" where
  "run_store sop =
     (case sop of
        StoreI32 \<Rightarrow> op_i32_store | StoreI64 \<Rightarrow> op_i64_store | StoreF32 \<Rightarrow> op_f32_store | StoreF64 \<Rightarrow> op_f64_store
      | StoreI32B8 \<Rightarrow> op_i32_store8 | StoreI32B16 \<Rightarrow> op_i32_store16 | StoreI64B8 \<Rightarrow> op_i64_store8 | StoreI64B16 \<Rightarrow> op_i64_store16
      | StoreI64B32 \<Rightarrow> op_i64_store32)"

text \<open>Loads and stores change neither the segments nor the meter.\<close>

definition on_memory :: "mem_state \<Rightarrow> vm_stop + vm_next \<times> memory \<times> stack \<Rightarrow> mem_result" where
  "on_memory s r = (case r of Inl e \<Rightarrow> (Inl e, s) | Inr (nx, m, st) \<Rightarrow> (Inr (nx, st), s\<lparr>ms_memory := m\<rparr>))"

definition run_mem :: "(nat \<Rightarrow> bool) \<Rightarrow> bool \<Rightarrow> mem_inst \<Rightarrow> mem_state \<Rightarrow> stack \<Rightarrow> mem_result" where
  "run_mem unprotect pending inst s st =
     (case inst of
        Load lop off \<Rightarrow> on_memory s (run_load lop off (ms_memory s) st)
      | Store sop off \<Rightarrow> on_memory s (run_store sop off (ms_memory s) st)
      | MemSize \<Rightarrow> op_mem_size s st | MemGrow \<Rightarrow> op_mem_grow unprotect s st | MemFill \<Rightarrow> op_mem_fill s st
      | MemCopy \<Rightarrow> op_mem_copy pending s st | MemInit idx \<Rightarrow> op_mem_init idx s st | DataDrop idx \<Rightarrow> op_data_drop pending idx s st)"

text \<open>Bytes as a number, and the bytes of a number.\<close>

fun le_int :: "byte list \<Rightarrow> int" where
  "le_int [] = 0" | "le_int (b # bs) = uint b + 256 * le_int bs"

fun int_bytes :: "nat \<Rightarrow> int \<Rightarrow> byte list" where
  "int_bytes 0 i = []" | "int_bytes (Suc n) i = word_of_int i # int_bytes n (i div 256)"

text \<open>How many bytes an instruction accesses, and the value that a load makes of their number.\<close>

definition load_width :: "load_inst \<Rightarrow> nat" where
  "load_width lop =
     (case lop of
        LoadI32 \<Rightarrow> 4 | LoadI64 \<Rightarrow> 8 | LoadF32 \<Rightarrow> 4 | LoadF64 \<Rightarrow> 8 | LoadI32U8 \<Rightarrow> 1 | LoadI32S8 \<Rightarrow> 1 | LoadI32U16 \<Rightarrow> 2 | LoadI32S16 \<Rightarrow> 2
      | LoadI64U8 \<Rightarrow> 1 | LoadI64S8 \<Rightarrow> 1 | LoadI64U16 \<Rightarrow> 2 | LoadI64S16 \<Rightarrow> 2 | LoadI64U32 \<Rightarrow> 4 | LoadI64S32 \<Rightarrow> 4)"

definition load_value :: "load_inst \<Rightarrow> int \<Rightarrow> wasm_value" where
  "load_value lop i =
     (case lop of
        LoadI32 \<Rightarrow> WI32 (word_of_int i) | LoadI64 \<Rightarrow> WI64 (word_of_int i) | LoadF32 \<Rightarrow> WF32 (word_of_int i) | LoadF64 \<Rightarrow> WF64 (word_of_int i)
      | LoadI32U8 \<Rightarrow> WI32 (word_of_int i) | LoadI32S8 \<Rightarrow> WI32 (word_of_int (signed 8 i))
      | LoadI32U16 \<Rightarrow> WI32 (word_of_int i) | LoadI32S16 \<Rightarrow> WI32 (word_of_int (signed 16 i))
      | LoadI64U8 \<Rightarrow> WI64 (word_of_int i) | LoadI64S8 \<Rightarrow> WI64 (word_of_int (signed 8 i))
      | LoadI64U16 \<Rightarrow> WI64 (word_of_int i) | LoadI64S16 \<Rightarrow> WI64 (word_of_int (signed 16 i))
      | LoadI64U32 \<Rightarrow> WI64 (word_of_int i) | LoadI64S32 \<Rightarrow> WI64 (word_of_int (signed 32 i)))"

definition store_type :: "store_inst \<Rightarrow> valtype" where
  "store_type sop =
     (case sop of
        StoreI32 \<Rightarrow> I32 | StoreI64 \<Rightarrow> I64 | StoreF32 \<Rightarrow> F32 | StoreF64 \<Rightarrow> F64 | StoreI32B8 \<Rightarrow> I32 | StoreI32B16 \<Rightarrow> I32 | StoreI64B8 \<Rightarrow> I64
      | StoreI64B16 \<Rightarrow> I64 | StoreI64B32 \<Rightarrow> I64)"

definition store_width :: "store_inst \<Rightarrow> nat" where
  "store_width sop =
     (case sop of
        StoreI32 \<Rightarrow> 4 | StoreI64 \<Rightarrow> 8 | StoreF32 \<Rightarrow> 4 | StoreF64 \<Rightarrow> 8 | StoreI32B8 \<Rightarrow> 1 | StoreI32B16 \<Rightarrow> 2 | StoreI64B8 \<Rightarrow> 1
      | StoreI64B16 \<Rightarrow> 2 | StoreI64B32 \<Rightarrow> 4)"

definition value_bits :: "wasm_value \<Rightarrow> int" where
  "value_bits v = (case v of WI32 w \<Rightarrow> uint w | WI64 w \<Rightarrow> uint w | WF32 w \<Rightarrow> uint w | WF64 w \<Rightarrow> uint w | _ \<Rightarrow> 0)"

definition address :: "wasm_value \<Rightarrow> nat" where
  "address v = (case v of WI32 w \<Rightarrow> unat w | _ \<Rightarrow> 0)"

definition mem_params :: "mem_inst \<Rightarrow> valtype list" where
  "mem_params inst =
     (case inst of
        Load _ _ \<Rightarrow> [I32] | Store sop _ \<Rightarrow> [I32, store_type sop] | MemSize \<Rightarrow> [] | MemGrow \<Rightarrow> [I32]
      | MemFill \<Rightarrow> [I32, I32, I32] | MemCopy \<Rightarrow> [I32, I32, I32] | MemInit _ \<Rightarrow> [I32, I32, I32] | DataDrop _ \<Rightarrow> [])"

text \<open>Writing bytes at an address, if they fit.\<close>

definition put_bytes :: "nat \<Rightarrow> byte list \<Rightarrow> memory \<Rightarrow> memory option" where
  "put_bytes a bs m = (if a + length bs \<le> length (mm_data m) then Some (m\<lparr>mm_data := splice_at a bs (mm_data m)\<rparr>) else None)"

definition get_bytes :: "nat \<Rightarrow> nat \<Rightarrow> byte list \<Rightarrow> byte list option" where
  "get_bytes a n bs = (if a + n \<le> length bs then Some (slice a n bs) else None)"

text \<open>The memory after an instruction and its results; \<open>None\<close> is a trap.  Addresses are unbounded.\<close>

definition ref_grow :: "(nat \<Rightarrow> bool) \<Rightarrow> nat \<Rightarrow> memory \<Rightarrow> memory option" where
  "ref_grow unprotect delta m =
     (if unat (mm_pages m) + delta \<le> unat (mm_max m) \<and> (delta = 0 \<or> unprotect (delta * PAGE_SIZE))
      then Some (m\<lparr>mm_data := mm_data m @ replicate (delta * PAGE_SIZE) 0, mm_pages := of_nat (unat (mm_pages m) + delta)\<rparr>)
      else None)"

definition ref_mem ::
  "(nat \<Rightarrow> bool) \<Rightarrow> (u32 \<Rightarrow> byte list option) \<Rightarrow> mem_inst \<Rightarrow> memory \<Rightarrow> wasm_value list \<Rightarrow> (memory \<times> wasm_value list) option" where
  "ref_mem unprotect segs inst m args =
     (let a = address (args ! 0); b = address (args ! 1); c = address (args ! 2) in
      case inst of
        Load lop off \<Rightarrow>
          map_option (\<lambda>bs. (m, [load_value lop (le_int bs)])) (get_bytes (a + unat off) (load_width lop) (mm_data m))
      | Store sop off \<Rightarrow>
          map_option (\<lambda>m. (m, [])) (put_bytes (a + unat off) (int_bytes (store_width sop) (value_bits (args ! 1))) m)
      | MemSize \<Rightarrow> Some (m, [WI32 (mm_pages m)])
      | MemGrow \<Rightarrow> (case ref_grow unprotect a m of Some m' \<Rightarrow> Some (m', [WI32 (mm_pages m)]) | None \<Rightarrow> Some (m, [WI32 (- 1)]))
      | MemFill \<Rightarrow> map_option (\<lambda>m. (m, [])) (put_bytes a (replicate c (word_of_int (value_bits (args ! 1)))) m)
      | MemCopy \<Rightarrow> Option.bind (get_bytes b c (mm_data m)) (\<lambda>bs. map_option (\<lambda>m. (m, [])) (put_bytes a bs m))
      | MemInit idx \<Rightarrow>
          Option.bind (get_bytes b c (case segs idx of Some bs \<Rightarrow> bs | None \<Rightarrow> [])) (\<lambda>bs. map_option (\<lambda>m. (m, [])) (put_bytes a bs m))
      | DataDrop idx \<Rightarrow> Some (m, []))"

definition ref_segments :: "mem_inst \<Rightarrow> (u32 \<Rightarrow> byte list option) \<Rightarrow> u32 \<Rightarrow> byte list option" where
  "ref_segments inst segs = (case inst of DataDrop idx \<Rightarrow> segs(idx := None) | _ \<Rightarrow> segs)"

text \<open>The fuel of an instruction: a unit, and one for 4096 bytes, which are a sixteenth of a page.\<close>

definition mem_fuel :: "mem_inst \<Rightarrow> wasm_value list \<Rightarrow> nat" where
  "mem_fuel inst args =
     (case inst of MemGrow \<Rightarrow> 1 + address (args ! 0) * (PAGE_SIZE div 4096)
      | MemFill \<Rightarrow> 1 + address (args ! 2) div 4096 | MemCopy \<Rightarrow> 1 + address (args ! 2) div 4096
      | MemInit _ \<Rightarrow> 1 + address (args ! 2) div 4096 | _ \<Rightarrow> 0)"

definition mem_operands :: "mem_inst \<Rightarrow> nat" where
  "mem_operands inst = (case inst of Load _ _ \<Rightarrow> 1 | Store _ _ \<Rightarrow> 1 | MemInit _ \<Rightarrow> 1 | DataDrop _ \<Rightarrow> 1 | _ \<Rightarrow> 0)"

definition waits :: "mem_inst \<Rightarrow> bool" where
  "waits inst = (case inst of MemCopy \<Rightarrow> True | DataDrop _ \<Rightarrow> True | _ \<Rightarrow> False)"

text \<open>A well-formed memory: the committed bytes are its pages, and there is room for the maximum.\<close>

definition memory_ok :: "memory \<Rightarrow> bool" where
  "memory_ok m \<longleftrightarrow>
     length (mm_data m) = unat (mm_pages m) * PAGE_SIZE \<and> mm_pages m \<le> mm_max m \<and> unat (mm_max m) \<le> 65536 \<and>
     unat (mm_max m) * PAGE_SIZE \<le> mm_reserved m"

text \<open>The bulk instructions compute the end of an access in 32 bits, so that no access can reach the
  last byte of a memory or a segment of \<open>2 ^ 32\<close> bytes.\<close>

definition addressable :: "mem_inst \<Rightarrow> mem_state \<Rightarrow> bool" where
  "addressable inst s \<longleftrightarrow>
     (case inst of MemFill \<Rightarrow> length (mm_data (ms_memory s)) < 2 ^ 32 | MemCopy \<Rightarrow> length (mm_data (ms_memory s)) < 2 ^ 32
      | MemInit idx \<Rightarrow> (case ms_segments s idx of Some bs \<Rightarrow> length bs < 2 ^ 32 | None \<Rightarrow> True) | _ \<Rightarrow> True)"

section \<open>Bytes and numbers\<close>

lemma from_le_int: "(from_le bs :: 'a::len word) = word_of_int (le_int bs)"
proof (induction bs)
  case (Cons b bs)
  have "(ucast b :: 'a word) AND push_bit 8 (from_le bs) = 0"
    by (rule bit_word_eqI) (auto simp: bit_simps dest: bit_imp_le_length)
  then have "(from_le (b # bs) :: 'a word) = ucast b + push_bit 8 (from_le bs)" by (simp add: disjunctive_add_eq_or)
  then show ?case by (simp add: Cons.IH push_bit_eq_mult)
qed simp

lemma le_int_bounds: "0 \<le> le_int bs" "le_int bs < 2 ^ (8 * length bs)"
proof (induction bs)
  case (Cons b bs)
  show "0 \<le> le_int (b # bs)" using Cons by simp
  show "le_int (b # bs) < 2 ^ (8 * length (b # bs))" using Cons uint_lt2p [of b] by (simp add: power_add)
qed simp_all

lemma uint_from_le: "8 * length bs \<le> LENGTH('a) \<Longrightarrow> uint (from_le bs :: 'a::len word) = le_int bs"
proof -
  assume "8 * length bs \<le> LENGTH('a)"
  then have "(2 :: int) ^ (8 * length bs) \<le> 2 ^ LENGTH('a)" by (simp add: power_increasing)
  then have "le_int bs < 2 ^ LENGTH('a)" using le_int_bounds(2) [of bs] by linarith
  then show ?thesis using le_int_bounds(1) [of bs] by (simp add: from_le_int uint_word_of_int)
qed

lemma to_le_int_bytes: "to_le n w = int_bytes n (uint w)"
proof (induction n arbitrary: w)
  case (Suc n)
  have "uint (drop_bit 8 w) = drop_bit 8 (uint w)" by (simp add: unsigned_drop_bit_eq take_bit_int_eq_self uint_lt2p)
  also have "\<dots> = uint w div 256" by (simp add: drop_bit_eq_div)
  finally have "uint (drop_bit 8 w) = uint w div 256" .
  then show ?case using Suc.IH [of "drop_bit 8 w"] by simp
qed simp

lemma extended_loads:
  "length bs = 1 \<Longrightarrow> (ucast (bs ! 0) :: 'a::len word) = word_of_int (le_int bs)"
  "length bs = 1 \<Longrightarrow> (scast (bs ! 0) :: 'a::len word) = word_of_int (signed 8 (le_int bs))"
  "length bs = 2 \<Longrightarrow> (ucast (from_le bs :: u16) :: 'a::len word) = word_of_int (le_int bs)"
  "length bs = 2 \<Longrightarrow> (scast (from_le bs :: u16) :: 'a::len word) = word_of_int (signed 16 (le_int bs))"
  "length bs = 4 \<Longrightarrow> (ucast (from_le bs :: u32) :: 'a::len word) = word_of_int (le_int bs)"
  "length bs = 4 \<Longrightarrow> (scast (from_le bs :: u32) :: 'a::len word) = word_of_int (signed 32 (le_int bs))"
proof -
  have u: "(ucast v :: 'a word) = word_of_int (uint v)" and s: "(scast v :: 'a word) = word_of_int (signed LENGTH('b) (uint v))"
    for v :: "'b::len word" by (simp_all add: signed_uint)
  note one = uint_from_le [where 'a = 16, of bs] uint_from_le [where 'a = 32, of bs]
  show "length bs = 1 \<Longrightarrow> (ucast (bs ! 0) :: 'a::len word) = word_of_int (le_int bs)"
    "length bs = 1 \<Longrightarrow> (scast (bs ! 0) :: 'a::len word) = word_of_int (signed 8 (le_int bs))"
    using s [of "bs ! 0"] by (auto simp: length_Suc_conv)
  show "length bs = 2 \<Longrightarrow> (ucast (from_le bs :: u16) :: 'a::len word) = word_of_int (le_int bs)"
    "length bs = 2 \<Longrightarrow> (scast (from_le bs :: u16) :: 'a::len word) = word_of_int (signed 16 (le_int bs))"
    "length bs = 4 \<Longrightarrow> (ucast (from_le bs :: u32) :: 'a::len word) = word_of_int (le_int bs)"
    "length bs = 4 \<Longrightarrow> (scast (from_le bs :: u32) :: 'a::len word) = word_of_int (signed 32 (le_int bs))"
    using u [of "from_le bs :: u16"] s [of "from_le bs :: u16"] u [of "from_le bs :: u32"] s [of "from_le bs :: u32"] one by simp_all
qed

lemma truncated_bytes:
  "truncate_u32_to_u8_bytes v = to_le 1 v" "truncate_u32_to_u16_bytes v = to_le 2 v"
  "truncate_u64_to_u8_bytes w = to_le 1 w" "truncate_u64_to_u16_bytes w = to_le 2 w" "truncate_u64_to_u32_bytes w = to_le 4 w"
proof -
  have low: "(ucast (x AND 0xff) :: byte) = ucast x" for x :: "'a::len word"
  proof -
    have "x AND 0xff = take_bit 8 x" by (simp add: take_bit_eq_mask mask_eq_exp_minus_1)
    then show ?thesis by (simp add: bit_word_eqI bit_simps)
  qed
  show "truncate_u32_to_u8_bytes v = to_le 1 v" "truncate_u32_to_u16_bytes v = to_le 2 v"
    "truncate_u64_to_u8_bytes w = to_le 1 w" "truncate_u64_to_u16_bytes w = to_le 2 w" "truncate_u64_to_u32_bytes w = to_le 4 w"
    by (simp_all add: truncate_u32_to_u8_bytes_def truncate_u32_to_u16_bytes_def truncate_u64_to_u8_bytes_def truncate_u64_to_u16_bytes_def
        truncate_u64_to_u32_bytes_def low eval_nat_numeral)
qed

section \<open>Accesses\<close>

lemma memory_bound: "memory_ok m \<Longrightarrow> length (mm_data m) \<le> 2 ^ 32"
proof -
  assume "memory_ok m"
  then have "unat (mm_pages m) \<le> 65536" "length (mm_data m) = unat (mm_pages m) * 65536"
    by (auto simp: memory_ok_def PAGE_SIZE_def word_le_nat_alt)
  then show ?thesis by simp
qed

lemma effective_address:
  "compute_memory_offset off i = (if unat off + unat i < 2 ^ 32 then Inr (unat off + unat i) else Inl VMemoryIndexOutOfRange)"
  by (simp add: compute_memory_offset_def checked_add_def unat_add_lem [THEN iffD1])

lemma read_bytes_ok:
  assumes "a < 2 ^ 32" "n \<le> 16"
  shows "read_bytes_at n m a = (case get_bytes a n (mm_data m) of None \<Rightarrow> Inl VMemoryIndexOutOfRange | Some bs \<Rightarrow> Inr bs)"
    "push_to_stack n m a st = (case get_bytes a n (mm_data m) of None \<Rightarrow> Inl VMemoryIndexOutOfRange | Some bs \<Rightarrow> push_fast bs st)"
  using assms by (auto simp: read_bytes_at_def push_to_stack_def usize_add_def get_bytes_def)


lemma read_u8_ok:
  "read_u8_at m a = (case get_bytes a 1 (mm_data m) of None \<Rightarrow> Inl VMemoryIndexOutOfRange | Some bs \<Rightarrow> Inr (bs ! 0))"
  by (auto simp: read_u8_at_def get_bytes_def nth_slice)

lemma write_bytes_put:
  "a + length bs < 2 ^ 64 \<Longrightarrow>
   write_bytes a bs m = (case put_bytes a bs m of None \<Rightarrow> Inl VMemoryIndexOutOfRange | Some m \<Rightarrow> Inr m)"
  by (simp add: write_bytes_def usize_add_def put_bytes_def)

lemma load_start_stack:
  "load_start off (stack_with (used @ to_le 4 (i :: u32)) rest) =
   (if unat off + unat i < 2 ^ 32 then Inr (unat off + unat i, stack_with used (to_le 4 i @ rest)) else Inl VMemoryIndexOutOfRange)"
  by (simp add: load_start_def pop_values effective_address)

lemma float_value_bytes [simp]:
  "value_bytes (WF32 w) = to_le 4 w" "value_bytes (WF64 v) = to_le 8 v"
  "value_type (WF32 w) = F32" "value_type (WF64 v) = F64"
  by (simp_all add: value_bytes_def value_type_def)

lemma loaded_bytes:
  "length bs = 4 \<Longrightarrow> to_le 4 (word_of_int (le_int bs) :: u32) = bs"
  "length bs = 8 \<Longrightarrow> to_le 8 (word_of_int (le_int bs) :: u64) = bs"
  using to_le_from_le [where 'a = 32, of bs] to_le_from_le [where 'a = 64, of bs] by (simp_all flip: from_le_int)

lemma get_bytes_length: "get_bytes a n xs = Some bs \<Longrightarrow> length bs = n"
  by (auto simp: get_bytes_def mem_simps split: if_splits)

lemma load_width_pos: "0 < load_width lop" "load_width lop \<le> 8"
  by (cases lop; simp add: load_width_def)+

lemmas load_handlers =
  op_i32_load_def op_i64_load_def op_f32_load_def op_f64_load_def op_i32_load8_u_def op_i32_load8_s_def op_i32_load16_u_def
  op_i32_load16_s_def op_i64_load8_u_def op_i64_load8_s_def op_i64_load16_u_def op_i64_load16_s_def op_i64_load32_u_def op_i64_load32_s_def

lemma run_load_stack:
  assumes "memory_ok m" "length (used @ to_le 4 i @ rest) < 2 ^ 64"
  shows "run_load lop off m (stack_with (used @ to_le 4 (i :: u32)) rest) =
    (case get_bytes (unat i + unat off) (load_width lop) (mm_data m) of
       None \<Rightarrow> Inl VMemoryIndexOutOfRange
     | Some bs \<Rightarrow> rbind (replaced used [WI32 i] rest (load_value lop (le_int bs))) (next_op 1 m))"
proof (cases "unat off + unat i < 2 ^ 32")
  case False
  then have "get_bytes (unat i + unat off) (load_width lop) (mm_data m) = None"
    using memory_bound [OF assms(1)] load_width_pos(1) [of lop] by (simp add: get_bytes_def)
  with False show ?thesis by (cases lop) (simp_all add: run_load_def load_handlers load_start_stack)
next
  case True
  note read = read_bytes_ok [OF True, of "load_width lop" m] read_u8_ok [of m "unat off + unat i"]
  show ?thesis
  proof (cases "get_bytes (unat off + unat i) (load_width lop) (mm_data m)")
    case None
    with True read load_width_pos(2) [of lop] show ?thesis
      by (cases lop) (simp_all add: run_load_def load_handlers load_start_stack load_width_def read_u16_at_def read_u32_at_def add.commute)
  next
    case (Some bs)
    note len = get_bytes_length [OF Some]
    show ?thesis using True read load_width_pos(2) [of lop] Some len assms(2)
      by (cases lop) (simp_all add: run_load_def load_handlers load_start_stack load_width_def read_u16_at_def read_u32_at_def add.commute
          load_value_def replaced_def push_values push_fast_stack loaded_bytes extended_loads)
  qed
qed

lemma length_int_bytes [simp]: "length (int_bytes n i) = n"
  by (induction n arbitrary: i) simp_all

lemma store_stack:
  assumes "memory_ok m" "0 < length bs" "length bs \<le> 8"
    "operation (stack_with ((used @ to_le 4 i) @ vb) rest) = Inr (bs, stack_with (used @ to_le 4 i) (vb @ rest))"
  shows "store_internal_local operation off m (stack_with ((used @ to_le 4 (i :: u32)) @ vb) rest) =
    (case put_bytes (unat i + unat off) bs m of
       None \<Rightarrow> Inl VMemoryIndexOutOfRange | Some m' \<Rightarrow> next_op 1 m' (stack_with used (to_le 4 i @ vb @ rest)))"
proof (cases "unat off + unat i < 2 ^ 32")
  case False
  then have "put_bytes (unat i + unat off) bs m = None"
    using memory_bound [OF assms(1)] assms(2) by (auto simp: put_bytes_def simp flip: length_greater_0_conv)
  with False assms(4) show ?thesis by (simp add: store_internal_local_def pop_values effective_address)
next
  case True
  with assms(3) have "unat off + unat i + length bs < 2 ^ 64" by simp
  from write_bytes_put [OF this] True assms(4) show ?thesis
    by (simp add: store_internal_local_def pop_values effective_address add.commute split: option.split)
qed

lemmas store_handlers =
  op_i32_store_def op_i64_store_def op_f32_store_def op_f64_store_def op_i32_store8_def op_i32_store16_def op_i64_store8_def
  op_i64_store16_def op_i64_store32_def

lemma store_operand:
  assumes "value_type v = store_type sop"
  shows "\<exists>operation. run_store sop = store_internal_local operation \<and>
    operation (stack_with (used @ value_bytes v) rest) =
      Inr (int_bytes (store_width sop) (value_bits v), stack_with used (value_bytes v @ rest))"
  using assms
  by (cases sop; cases v; simp add: store_type_def value_type_def)
    (simp_all add: run_store_def store_handlers store_width_def value_bits_def value_bytes_def flip: to_le_int_bytes,
     (rule exI, rule conjI, rule refl, simp add: pop_values pop_stack truncated_bytes)+)

lemma run_store_stack:
  assumes "memory_ok m" "value_type v = store_type sop"
  shows "run_store sop off m (stack_with ((used @ to_le 4 (i :: u32)) @ value_bytes v) rest) =
    (case put_bytes (unat i + unat off) (int_bytes (store_width sop) (value_bits v)) m of
       None \<Rightarrow> Inl VMemoryIndexOutOfRange | Some m' \<Rightarrow> next_op 1 m' (stack_with used (to_le 4 i @ value_bytes v @ rest)))"
proof -
  have width: "0 < length (int_bytes (store_width sop) (value_bits v))" "length (int_bytes (store_width sop) (value_bits v)) \<le> 8"
    by (cases sop; simp add: store_width_def)+
  obtain operation where op: "run_store sop = store_internal_local operation"
    "operation (stack_with ((used @ to_le 4 i) @ value_bytes v) rest) =
      Inr (int_bytes (store_width sop) (value_bits v), stack_with (used @ to_le 4 i) (value_bytes v @ rest))"
    using store_operand [OF assms(2)] by blast
  show ?thesis unfolding op(1) by (rule store_stack [of m _ operation, OF assms(1) width op(2)])
qed

section \<open>The size of the memory and bulk operations\<close>

lemma memory_fill_ok:
  "length (mm_data m) < 2 ^ 32 \<Longrightarrow>
   memory_fill ptr len v m =
     (case put_bytes (unat ptr) (replicate (unat len) (word_of_int (uint v))) m of None \<Rightarrow> Inl VMemoryIndexOutOfRange | Some m' \<Rightarrow> Inr m')"
  by (auto simp: memory_fill_def checked_add_def put_bytes_def unat_add_lem [THEN iffD1])

lemma memory_copy_ok:
  "length (mm_data m) < 2 ^ 32 \<Longrightarrow>
   memory_copy dst src len m =
     (case Option.bind (get_bytes (unat src) (unat len) (mm_data m)) (\<lambda>bs. put_bytes (unat dst) bs m) of
        None \<Rightarrow> Inl VMemoryIndexOutOfRange | Some m' \<Rightarrow> Inr m')"
  by (auto simp: memory_copy_def checked_add_def put_bytes_def get_bytes_def unat_add_lem [THEN iffD1] mem_simps)

lemma mem_init_ok:
  assumes "case segment of Some bs \<Rightarrow> length bs < 2 ^ 32 | None \<Rightarrow> True"
  shows "mem_init_impl_local segment dst src len m =
     (case Option.bind (get_bytes (unat src) (unat len) (case segment of Some bs \<Rightarrow> bs | None \<Rightarrow> [])) (\<lambda>bs. put_bytes (unat dst) bs m) of
        None \<Rightarrow> Inl VMemoryIndexOutOfRange | Some m' \<Rightarrow> Inr m')"
proof -
  have small: "unat dst + n < 2 ^ 64" if "n < 2 ^ 32" for n using that unsigned_less [where 'a = nat, of dst] by simp
  show ?thesis
  proof (cases segment)
    case None
    then show ?thesis using write_bytes_put [of "unat dst" "[]" m] small [of 0]
      by (auto simp: mem_init_impl_local_def mem_init_bytes_def get_bytes_def slice_def unat_eq_0)
  next
    case (Some bs)
    show ?thesis
    proof (cases "unat src + unat len \<le> length bs")
      case True
      then have "write_bytes (unat dst) (slice (unat src) (unat len) bs) m =
          (case put_bytes (unat dst) (slice (unat src) (unat len) bs) m of None \<Rightarrow> Inl VMemoryIndexOutOfRange | Some m \<Rightarrow> Inr m)"
        using assms Some by (intro write_bytes_put small) (simp add: mem_simps)
      with True Some assms show ?thesis
        by (simp add: mem_init_impl_local_def mem_init_bytes_def get_bytes_def checked_add_def unat_add_lem [THEN iffD1])
    next
      case False
      with Some assms show ?thesis
        by (simp add: mem_init_impl_local_def mem_init_bytes_def get_bytes_def checked_add_def unat_add_lem [THEN iffD1])
    qed
  qed
qed

lemma byte_counts:
  "committed_bytes_for_pages pages = Inr (unat pages * PAGE_SIZE)"
  "reservation_bytes pages = Inr (max (unat pages * PAGE_SIZE) PAGE_SIZE)"
proof -
  have "unat pages * PAGE_SIZE < 2 ^ 64" using unsigned_less [where 'a = nat, of pages] by (simp add: PAGE_SIZE_def)
  then show "committed_bytes_for_pages pages = Inr (unat pages * PAGE_SIZE)" "reservation_bytes pages = Inr (max (unat pages * PAGE_SIZE) PAGE_SIZE)"
    by (auto simp: committed_bytes_for_pages_def reservation_bytes_def usize_try_from_def PAGE_SIZE_def)
qed

lemma memory_grow_ok:
  assumes "memory_ok m"
  shows "memory_grow unprotect d m = (case ref_grow unprotect (unat d) m of None \<Rightarrow> (- 1, m) | Some m' \<Rightarrow> (mm_pages m, m'))"
proof (cases "unat (mm_pages m) + unat d \<le> unat (mm_max m)")
  case False
  then have "new > mm_max m" if "checked_add (mm_pages m) d = Some new" for new
    using that by (auto simp: checked_add_def word_less_nat_alt unat_add_lem [THEN iffD1] split: if_splits)
  with False show ?thesis by (auto simp: memory_grow_def ref_grow_def split: option.split)
next
  case True
  with assms have sum: "unat (mm_pages m) + unat d < 2 ^ 32" by (simp add: memory_ok_def)
  then have pages: "checked_add (mm_pages m) d = Some (mm_pages m + d)" "unat (mm_pages m + d) = unat (mm_pages m) + unat d"
    by (simp_all add: checked_add_def unat_add_lem [THEN iffD1])
  have "(unat (mm_pages m) + unat d) * PAGE_SIZE \<le> unat (mm_max m) * PAGE_SIZE" using True by (rule mult_le_mono1)
  also have "\<dots> \<le> mm_reserved m" using assms by (simp add: memory_ok_def)
  finally have room: "(unat (mm_pages m) + unat d) * PAGE_SIZE \<le> mm_reserved m" .
  have "region_commit unprotect ((unat (mm_pages m) + unat d) * PAGE_SIZE) m =
    (if d = 0 then Inr m else if unprotect (unat d * PAGE_SIZE) then Inr (m\<lparr>mm_data := mm_data m @ replicate (unat d * PAGE_SIZE) 0\<rparr>)
     else Inl (MappingFailed Mprotect (unat d * PAGE_SIZE)))"
    using assms room by (auto simp: region_commit_def memory_ok_def PAGE_SIZE_def unat_eq_0 algebra_simps)
  with True pages room show ?thesis
    by (auto simp: memory_grow_def ref_grow_def byte_counts word_le_nat_alt word_less_nat_alt unat_eq_0)
qed

section \<open>The instructions on a stack\<close>

lemma charges:
  "unat (memory_bulk_charge len) = 1 + unat len div 4096"
  "unat (1 + push_bit 4 (ucast d :: u64)) = 1 + unat (d :: u32) * 16"
proof -
  have len: "unat len < 2 ^ 32" and d: "unat d < 2 ^ 32" using unsigned_less [where 'a = nat] by (metis len_num1 len_bit0 mult_1_right numeral_Bit0_eq_double)+
  have "unat (drop_bit 12 (ucast len) :: u64) = drop_bit 12 (unat len)"
    using len by (simp add: unsigned_drop_bit_eq unsigned_ucast_eq take_bit_nat_eq_self)
  also have "\<dots> = unat len div 4096" by (simp add: drop_bit_eq_div)
  finally show "unat (memory_bulk_charge len) = 1 + unat len div 4096"
    using len by (simp add: memory_bulk_charge_def unat_add_lem [THEN iffD1])
  have "unat (push_bit 4 (ucast d :: u64)) = unat d * 16"
    using d by (simp add: unsigned_push_bit_eq push_bit_eq_mult [of 4 "unat d"] unsigned_ucast_eq take_bit_nat_eq_self)
  then show "unat (1 + push_bit 4 (ucast d :: u64)) = 1 + unat d * 16"
    using d by (simp add: unat_add_lem [THEN iffD1])
qed

lemma pop_three_stack:
  "pop_three (stack_with (used @ to_le 4 a @ to_le 4 b @ to_le 4 c) rest) =
   Inr ((c, b, a), stack_with used (to_le 4 a @ to_le 4 b @ to_le 4 c @ rest))"
  using pop_values(1) [of "used @ to_le 4 a @ to_le 4 b" c rest] pop_values(1) [of "used @ to_le 4 a" b "to_le 4 c @ rest"]
    pop_values(1) [of used a "to_le 4 b @ to_le 4 c @ rest"]
  by (simp add: pop_three_def)

lemma charge_nothing: "charge_meter 0 mt = (Inr (), mt)"
  by (simp add: charge_meter_def vm_charge_n_def)

text \<open>Replacing the operands by a list of results.\<close>

definition replaced_all :: "byte list \<Rightarrow> wasm_value list \<Rightarrow> byte list \<Rightarrow> wasm_value list \<Rightarrow> vm_stop + stack" where
  "replaced_all used args rest rs =
     (if length (operand_bytes rs) \<le> length (operand_bytes args @ rest)
      then Inr (stack_with (used @ operand_bytes rs) (drop (length (operand_bytes rs)) (operand_bytes args @ rest)))
      else Inl VStackOverflow)"

lemma replaced_all_simps:
  "replaced_all used args rest [] = Inr (stack_with used (operand_bytes args @ rest))"
  "replaced_all used args rest [r] = replaced used args rest r"
  by (simp_all add: replaced_all_def replaced_def)

text \<open>What an instruction does to a state and a stack, by the specification.\<close>

definition specified ::
  "(nat \<Rightarrow> bool) \<Rightarrow> mem_inst \<Rightarrow> mem_state \<Rightarrow> byte list \<Rightarrow> wasm_value list \<Rightarrow> byte list \<Rightarrow> mem_result" where
  "specified unprotect inst s used args rest =
     (case charge_meter (mem_fuel inst args) (ms_meter s) of
        (Inl reason, mt) \<Rightarrow> (Inl (into_vm_result reason), s\<lparr>ms_meter := mt\<rparr>)
      | (Inr _, mt) \<Rightarrow>
          (case ref_mem unprotect (ms_segments s) inst (ms_memory s) args of
             None \<Rightarrow> (Inl VMemoryIndexOutOfRange, s\<lparr>ms_meter := mt\<rparr>)
           | Some (m', rs) \<Rightarrow>
               with_push (mem_operands inst)
                 (s\<lparr>ms_memory := m', ms_segments := ref_segments inst (ms_segments s), ms_meter := mt\<rparr>)
                 (replaced_all used args rest rs)))"

lemmas specs =
  run_mem_def specified_def ref_mem_def mem_params_def mem_operands_def mem_fuel_def ref_segments_def address_def charge_nothing
  replaced_all_simps with_push_def next_op_def

lemma simple_stack:
  assumes "memory_ok (ms_memory s)" "length (used @ operand_bytes args @ rest) < 2 ^ 64" "map value_type args = mem_params inst"
    "case inst of Load _ _ \<Rightarrow> True | Store _ _ \<Rightarrow> True | MemSize \<Rightarrow> True | DataDrop _ \<Rightarrow> \<not> pending | _ \<Rightarrow> False"
  shows "run_mem unprotect pending inst s (stack_with (used @ operand_bytes args) rest) = specified unprotect inst s used args rest"
proof (cases inst)
  case (Load lop off)
  then obtain i where args: "args = [WI32 i]" using typed_args(1) [of args] assms(3) by (auto simp: mem_params_def)
  show ?thesis using run_load_stack [OF assms(1), of used i rest lop off] assms(2) unfolding Load args
    by (cases s) (simp add: specs on_memory_def replaced_def split: option.split)
next
  case (Store sop off)
  then obtain i v where args: "args = [WI32 i, v]" and v: "value_type v = store_type sop"
    using typed_args(1) [of "[hd args]"] assms(3) by (auto simp: mem_params_def map_eq_Cons_conv)
  show ?thesis using run_store_stack [OF assms(1) v, of off used i rest] unfolding Store args
    by (cases s) (simp add: specs on_memory_def split: option.split)
next
  case MemSize
  then show ?thesis using assms(2,3) by (cases s) (simp add: specs op_mem_size_def push_values replaced_def)
next
  case (DataDrop idx)
  then show ?thesis using assms(3,4) by (cases s) (simp add: specs op_data_drop_def)
qed (use assms(4) in simp_all)

lemma three_args:
  "map value_type args = [I32, I32, I32] \<Longrightarrow> \<exists>a b c. args = [WI32 a, WI32 b, WI32 c]"
  using typed_args(1) [of "[args ! 0]"] typed_args(1) [of "[args ! 1]"] typed_args(1) [of "[args ! 2]"]
  by (auto simp: map_eq_Cons_conv)

text \<open>A bulk instruction, by what its operation does to the memory.\<close>

lemma bulk_tail:
  assumes "unat amount = mem_fuel inst args"
    "\<And>s'. ms_memory s' = ms_memory s \<Longrightarrow> ms_segments s' = ms_segments s \<Longrightarrow>
      f s' = (case after of None \<Rightarrow> Inl VMemoryIndexOutOfRange | Some m' \<Rightarrow> Inr m')"
    "ref_mem unprotect (ms_segments s) inst (ms_memory s) args = map_option (\<lambda>m'. (m', [])) after"
    "ref_segments inst (ms_segments s) = ms_segments s" "n = mem_operands inst"
  shows "vm_checkpoint_n amount s (\<lambda>s. with_memory n (stack_with used (operand_bytes args @ rest)) s (f s)) =
    specified unprotect inst s used args rest"
proof -
  have f: "f (s\<lparr>ms_meter := mt\<rparr>) = (case after of None \<Rightarrow> Inl VMemoryIndexOutOfRange | Some m' \<Rightarrow> Inr m')" for mt
    by (rule assms(2)) simp_all
  have same: "s\<lparr>ms_memory := m', ms_segments := ms_segments s, ms_meter := mt\<rparr> = s\<lparr>ms_meter := mt, ms_memory := m'\<rparr>" for m' mt
    by (cases s) simp
  show ?thesis
    by (simp add: vm_checkpoint_n_def specified_def with_memory_def assms(1,3-5) f same replaced_all_simps with_push_def
        split: prod.split sum.split option.split)
qed

lemma bulk_stack:
  assumes "addressable inst s" "map value_type args = mem_params inst"
    "case inst of MemFill \<Rightarrow> True | MemCopy \<Rightarrow> \<not> pending | MemInit _ \<Rightarrow> True | _ \<Rightarrow> False"
  shows "run_mem unprotect pending inst s (stack_with (used @ operand_bytes args) rest) = specified unprotect inst s used args rest"
proof -
  have "mem_params inst = [I32, I32, I32]" using assms(3) by (cases inst) (simp_all add: mem_params_def)
  then obtain a b c where args: "args = [WI32 a, WI32 b, WI32 c]" using three_args assms(2) by metis
  have amount: "unat (memory_bulk_charge c) = mem_fuel inst args"
    using assms(3) by (cases inst) (simp_all add: args charges mem_fuel_def address_def)
  have pop: "pop_three (stack_with (used @ operand_bytes args) rest) = Inr ((c, b, a), stack_with used (operand_bytes args @ rest))"
    using pop_three_stack by (simp add: args)
  let ?m = "ms_memory s"
  note ref = ref_mem_def args address_def value_bits_def ref_segments_def mem_operands_def addressable_def
  show ?thesis
  proof (cases inst)
    case MemFill
    let ?after = "put_bytes (unat a) (replicate (unat c) (word_of_int (uint b))) ?m"
    show ?thesis unfolding run_mem_def MemFill mem_inst.case op_mem_fill_def pop sum.case prod.case
      by (rule bulk_tail [OF amount [unfolded MemFill], where after = ?after])
        (use assms(1) MemFill in \<open>simp_all add: ref memory_fill_ok\<close>)
  next
    case MemCopy
    let ?after = "Option.bind (get_bytes (unat b) (unat c) (mm_data ?m)) (\<lambda>bs. put_bytes (unat a) bs ?m)"
    have "run_mem unprotect pending MemCopy s (stack_with (used @ operand_bytes args) rest) =
        vm_checkpoint_n (memory_bulk_charge c) s (\<lambda>s. with_memory 0 (stack_with used (operand_bytes args @ rest)) s (memory_copy a b c (ms_memory s)))"
      using assms(3) by (simp add: run_mem_def MemCopy op_mem_copy_def pop)
    also have "\<dots> = specified unprotect MemCopy s used args rest"
      by (rule bulk_tail [OF amount [unfolded MemCopy], where after = ?after])
        (use assms(1) MemCopy in \<open>simp_all add: ref memory_copy_ok map_option_bind comp_def\<close>)
    finally show ?thesis by (simp add: MemCopy)
  next
    case (MemInit idx)
    let ?after = "Option.bind (get_bytes (unat b) (unat c) (case ms_segments s idx of Some bs \<Rightarrow> bs | None \<Rightarrow> [])) (\<lambda>bs. put_bytes (unat a) bs ?m)"
    show ?thesis unfolding run_mem_def MemInit mem_inst.case op_mem_init_def pop sum.case prod.case
      by (rule bulk_tail [OF amount [unfolded MemInit], where after = ?after])
        (use assms(1) MemInit in \<open>simp_all add: ref mem_init_ok map_option_bind comp_def\<close>)
  qed (use assms(3) in simp_all)
qed

lemma grow_stack:
  assumes "memory_ok (ms_memory s)" "length (used @ operand_bytes args @ rest) < 2 ^ 64" "map value_type args = mem_params MemGrow"
  shows "run_mem unprotect pending MemGrow s (stack_with (used @ operand_bytes args) rest) = specified unprotect MemGrow s used args rest"
proof -
  obtain d where args: "args = [WI32 d]" using typed_args(1) [of args] assms(3) by (auto simp: mem_params_def)
  have amount: "unat (1 + push_bit 4 (ucast d :: u64)) = mem_fuel MemGrow args"
    by (simp only: charges) (simp add: args mem_fuel_def address_def PAGE_SIZE_def)
  have same: "s\<lparr>ms_meter := mt, ms_memory := m'\<rparr> = s\<lparr>ms_memory := m', ms_meter := mt\<rparr>" for m' mt
    by (cases s) simp
  have pop: "pop_u32 (stack_with (used @ operand_bytes args) rest) = Inr (d, stack_with used (operand_bytes args @ rest))"
    by (simp add: args pop_values)
  have push: "push_u32 r (stack_with used (operand_bytes args @ rest)) = replaced used args rest (WI32 r)" for r
    using assms(2) by (simp add: args push_values replaced_def)
  have ref: "ref_mem unprotect segs MemGrow (ms_memory s) args =
      (case memory_grow unprotect d (ms_memory s) of (r, m') \<Rightarrow> Some (m', [WI32 r]))" for segs
    by (simp add: ref_mem_def memory_grow_ok [OF assms(1)] args address_def split: option.split)
  show ?thesis
    by (simp add: run_mem_def op_mem_grow_def pop vm_checkpoint_n_def amount specified_def ref push replaced_all_simps ref_segments_def
        mem_operands_def same split: prod.split sum.split)
qed

lemma run_mem_stack:
  assumes "memory_ok (ms_memory s)" "addressable inst s" "length (used @ operand_bytes args @ rest) < 2 ^ 64"
    "map value_type args = mem_params inst" "\<not> (pending \<and> waits inst)"
  shows "run_mem unprotect pending inst s (stack_with (used @ operand_bytes args) rest) = specified unprotect inst s used args rest"
  using assms simple_stack [OF assms(1,3,4)] bulk_stack [OF assms(2,4)] grow_stack [OF assms(1,3)]
  by (cases inst) (auto simp: waits_def)

section \<open>Well-formed memories\<close>

lemma put_bytes_ok: "memory_ok m \<Longrightarrow> put_bytes a bs m = Some m' \<Longrightarrow> memory_ok m'"
  by (auto simp: put_bytes_def memory_ok_def mem_simps split: if_splits)

lemma ref_grow_ok:
  assumes "memory_ok m" "ref_grow unprotect d m = Some m'"
  shows "memory_ok m'"
proof -
  have sum: "unat (mm_pages m) + d \<le> unat (mm_max m)"
    and m': "m' = m\<lparr>mm_data := mm_data m @ replicate (d * PAGE_SIZE) 0, mm_pages := of_nat (unat (mm_pages m) + d)\<rparr>"
    using assms(2) by (auto simp: ref_grow_def split: if_splits)
  have "unat (mm_max m) \<le> 65536" using assms(1) by (simp add: memory_ok_def)
  with sum have "unat (mm_pages m) + d < 2 ^ 32" by simp
  then have "unat (of_nat (unat (mm_pages m) + d) :: u32) = unat (mm_pages m) + d"
    by (simp only: unsigned_of_nat) (simp add: take_bit_nat_eq_self)
  with assms(1) sum m' show ?thesis by (simp add: memory_ok_def word_le_nat_alt algebra_simps)
qed

lemma ref_mem_ok: "memory_ok m \<Longrightarrow> ref_mem unprotect segs inst m args = Some (m', rs) \<Longrightarrow> memory_ok m'"
  by (cases inst)
    (auto simp: ref_mem_def Let_def bind_eq_Some_conv intro: put_bytes_ok ref_grow_ok split: option.splits)

text \<open>C4: The memory instructions of the interpreter on the unshared default memory are those of the specification,
  as long as \<open>memory.fill\<close> and \<open>memory.copy\<close> act on a memory of fewer than \<open>2 ^ 32\<close> bytes and
  \<open>memory.init\<close> on a segment of fewer than \<open>2 ^ 32\<close> bytes.  On a well-formed
  memory and a stack that holds operands of the types of the instruction, the handler first charges
  the fuel of the instruction and stops with the reason when it is refused, with the memory
  unchanged; it then traps exactly when the access is out of bounds in unbounded arithmetic, again
  with the memory unchanged; and it otherwise leaves the memory, the segments and the results that
  the specification gives, in a memory that is well-formed again, and everything below the operands
  untouched.  A result that does not fit in the stack is reported as an overflow.  An instruction
  that waits for pending effects returns without any change.\<close>

theorem memory_instructions_correct:
  assumes "memory_ok (ms_memory s)" "addressable inst s" "holds below (vs @ args) st" "map value_type args = mem_params inst"
  shows "if pending \<and> waits inst then run_mem unprotect pending inst s st = (Inl VYielded, s)
    else case charge_meter (mem_fuel inst args) (ms_meter s) of
      (Inl reason, mt) \<Rightarrow> run_mem unprotect pending inst s st = (Inl (into_vm_result reason), s\<lparr>ms_meter := mt\<rparr>)
    | (Inr _, mt) \<Rightarrow>
        (case ref_mem unprotect (ms_segments s) inst (ms_memory s) args of
           None \<Rightarrow> run_mem unprotect pending inst s st = (Inl VMemoryIndexOutOfRange, s\<lparr>ms_meter := mt\<rparr>)
         | Some (m', rs) \<Rightarrow> memory_ok m' \<and>
             (let s' = s\<lparr>ms_memory := m', ms_segments := ref_segments inst (ms_segments s), ms_meter := mt\<rparr>
              in if length (below @ operand_bytes (vs @ rs)) \<le> length (sk_memory st)
                 then \<exists>st'. run_mem unprotect pending inst s st = (Inr (Next (mem_operands inst), st'), s') \<and>
                   holds below (vs @ rs) st' \<and> length (sk_memory st') = length (sk_memory st)
                 else run_mem unprotect pending inst s st = (Inl VStackOverflow, s')))"
proof (cases "pending \<and> waits inst")
  case True
  then show ?thesis by (cases inst) (simp_all add: waits_def run_mem_def op_mem_copy_def op_data_drop_def)
next
  case False
  obtain rest where st: "st = stack_with ((below @ operand_bytes vs) @ operand_bytes args) rest"
    "length ((below @ operand_bytes vs) @ operand_bytes args @ rest) < 2 ^ 64"
    using assms(3) by (auto simp: holds_iff)
  note run = run_mem_stack [OF assms(1,2) st(2) assms(4) False, of unprotect, folded st(1), unfolded specified_def]
  have result: "if length (below @ operand_bytes (vs @ rs)) \<le> length (sk_memory st)
      then \<exists>st'. replaced_all (below @ operand_bytes vs) args rest rs = Inr st' \<and> holds below (vs @ rs) st' \<and> length (sk_memory st') = length (sk_memory st)
      else replaced_all (below @ operand_bytes vs) args rest rs = Inl VStackOverflow" for rs
    using st by (auto simp: replaced_all_def holds_iff)
  obtain r mt where charge: "charge_meter (mem_fuel inst args) (ms_meter s) = (r, mt)" by (rule prod.exhaust)
  show ?thesis
  proof (cases "(\<exists>e. r = Inl e) \<or> ref_mem unprotect (ms_segments s) inst (ms_memory s) args = None")
    case True
    with False run charge show ?thesis by (auto split: sum.split)
  next
    case ok: False
    then obtain m' rs where ref: "ref_mem unprotect (ms_segments s) inst (ms_memory s) args = Some (m', rs)" and r: "r = Inr ()"
      by (cases r) auto
    show ?thesis using False run charge ref r result [of rs] ref_mem_ok [OF assms(1) ref]
      by (auto simp: with_push_def Let_def split: if_splits)
  qed
qed

text \<open>A memory of one page with a store of a negative number, narrowed to 16 bits.\<close>

definition sample_state :: mem_state where
  "sample_state =
     \<lparr>ms_memory = \<lparr>mm_data = replicate PAGE_SIZE 0, mm_reserved = PAGE_SIZE, mm_pages = 1, mm_max = 1\<rparr>, ms_segments = (\<lambda>_. None),
      ms_meter = (metering_new None, slice_begin)\<rparr>"

theorem memory_instructions_correct_witness:
  "\<exists>st st' s'. holds [7] [WI64 1, WI32 4, WI64 (- 2)] st \<and>
     run_mem (\<lambda>_. True) False (Store StoreI64B16 8) sample_state st = (Inr (Next 1, st'), s') \<and>
     memory_ok (ms_memory s') \<and> mm_data (ms_memory s') = splice_at 12 [254, 255] (replicate PAGE_SIZE 0) \<and> holds [7] [WI64 1] st'"
proof -
  let ?st = "stack_with ([7] @ operand_bytes [WI64 1, WI32 4, WI64 (- 2)]) (replicate 16 0)"
  let ?inst = "Store StoreI64B16 8"
  have h: "holds [7] ([WI64 1] @ [WI32 4, WI64 (- 2)]) ?st" by (auto simp: holds_iff)
  have t: "map value_type [WI32 4, WI64 (- 2)] = mem_params ?inst" by (simp add: mem_params_def store_type_def)
  have m: "memory_ok (ms_memory sample_state)" by (simp add: sample_state_def memory_ok_def PAGE_SIZE_def)
  have a: "addressable ?inst sample_state" by (simp add: addressable_def)
  have bytes: "int_bytes 2 18446744073709551614 = [254, 255]" by code_simp
  have "ref_mem (\<lambda>_. True) (ms_segments sample_state) ?inst (ms_memory sample_state) [WI32 4, WI64 (- 2)] =
      Some (ms_memory sample_state\<lparr>mm_data := splice_at 12 [254, 255] (replicate PAGE_SIZE 0)\<rparr>, [])"
    by (simp add: ref_mem_def address_def value_bits_def store_width_def bytes put_bytes_def sample_state_def PAGE_SIZE_def)
  moreover have "charge_meter (mem_fuel ?inst [WI32 4, WI64 (- 2)]) (ms_meter sample_state) = (Inr (), ms_meter sample_state)"
    by (simp add: mem_fuel_def charge_nothing)
  ultimately show ?thesis
    using memory_instructions_correct [OF m a h t, of False "\<lambda>_. True"] h by (auto simp: Let_def mem_operands_def)
qed

text \<open>C36: Creating a memory within the bounds of the specification gives a well-formed memory of zero
  bytes of the requested size, and fails only for the reasons the code names: the minimum exceeds
  the maximum, or the operating system refuses the reservation or the committed pages.\<close>

theorem new_memory_correct:
  assumes "unat max_page_size \<le> 65536"
  shows "case new_with_mapping map_bytes unprotect page_count max_page_size of
      Inr m \<Rightarrow> memory_ok m \<and> mm_data m = replicate (unat page_count * PAGE_SIZE) 0 \<and> mm_pages m = page_count \<and> mm_max m = max_page_size
    | Inl e \<Rightarrow> max_page_size < page_count \<and> e = InvalidPageBounds page_count max_page_size \<or>
        (\<exists>n. e = MappingFailed Mmap n \<and> \<not> map_bytes n \<or> e = MappingFailed Mprotect n \<and> \<not> unprotect n)"
proof (cases "page_count > max_page_size")
  case True
  then show ?thesis by (simp add: new_with_mapping_def)
next
  case False
  then have "unat page_count \<le> unat max_page_size" by (simp add: word_less_nat_alt)
  then have "unat page_count * PAGE_SIZE \<le> unat max_page_size * PAGE_SIZE" by (rule mult_le_mono1)
  moreover have "0 < PAGE_SIZE" by (simp add: PAGE_SIZE_def)
  ultimately show ?thesis using False assms
    by (auto simp: new_with_mapping_def region_commit_def memory_ok_def byte_counts Let_def
        max_def word_le_nat_alt unat_eq_0)
qed

theorem new_memory_correct_witness:
  "\<exists>m. new_with_mapping (\<lambda>_. True) (\<lambda>_. True) 2 4 = Inr m \<and> memory_ok m \<and> length (mm_data m) = 131072"
  using new_memory_correct [where max_page_size = 4 and page_count = 2 and map_bytes = "\<lambda>_. True" and unprotect = "\<lambda>_. True"]
  by (auto simp: new_with_mapping_def region_commit_def byte_counts PAGE_SIZE_def Let_def)

text \<open>The bound on the memory is needed for the bulk instructions: filling or copying a range that
  ends exactly at the end of a memory of \<open>2 ^ 32\<close> bytes is within bounds and is refused, because the
  end of the range is computed in 32 bits.\<close>

theorem bulk_at_four_gigabytes:
  assumes "length (mm_data m) = 2 ^ 32" "unat ptr + unat len = 2 ^ 32"
  shows "memory_fill ptr len v m = Inl VMemoryIndexOutOfRange \<and> memory_copy ptr src len m = Inl VMemoryIndexOutOfRange \<and>
    put_bytes (unat ptr) (replicate (unat len) (word_of_int (uint v))) m \<noteq> None"
  using assms by (simp add: memory_fill_def memory_copy_def checked_add_def put_bytes_def unat_add_lem [THEN iffD1])

theorem bulk_at_four_gigabytes_witness:
  "memory_fill (2 ^ 31) (2 ^ 31) 1 \<lparr>mm_data = replicate (2 ^ 32) 0, mm_reserved = 2 ^ 32, mm_pages = 65536, mm_max = 65536\<rparr> =
     Inl VMemoryIndexOutOfRange"
  using bulk_at_four_gigabytes [where ptr = "2 ^ 31" and len = "2 ^ 31" and v = 1 and src = 0
      and m = "\<lparr>mm_data = replicate (2 ^ 32) 0, mm_reserved = 2 ^ 32, mm_pages = 65536, mm_max = 65536\<rparr>"]
  by simp

end
