(* ===== verification/Jump_Resolver.thy ===== *)
theory Jump_Resolver
  imports Telomere_Prelude "HOL-Library.Multiset"
begin

text \<open>
  The resolution of jump targets, \<open>telomere/src/parser/core/jump_resolver.rs\<close>.  While a body is parsed,
  the parser notes where blocks and loops begin and end and which slots of the code hold the target
  of a branch; \<open>evaluate\<close> then writes the targets.  Of the code only the jump address of every slot
  matters.  The theory shows that the notes of nested blocks never make the resolver panic, that
  every branch gets the end of its block or the start of its loop, and that nothing else changes.
\<close>

section \<open>The resolver\<close>

datatype jump_resolver_dsl =
    EnterForwardJumpBlock
  | EnterBackwardJumpBlock u32
  | Br u32 u32
  | Return u32
  | LeaveBlock u32

datatype jump_resolver_state = Resolved u32 | Lazy "u32 list"

type_synonym jump_program = "u32 list"

text \<open>\<open>program[i].operand.jump_addr = a\<close>; an index out of range panics, which is \<open>None\<close>.\<close>

definition set_jump_addr :: "u32 \<Rightarrow> u32 \<Rightarrow> jump_program \<Rightarrow> jump_program option" where
  "set_jump_addr i a program = (if unat i < length program then Some (program[unat i := a]) else None)"

fun set_jump_addrs :: "u32 list \<Rightarrow> u32 \<Rightarrow> jump_program \<Rightarrow> jump_program option" where
  "set_jump_addrs [] a program = Some program"
| "set_jump_addrs (i # is) a program = Option.bind (set_jump_addr i a program) (set_jump_addrs is a)"

definition resolve_or_defer ::
  "nat \<Rightarrow> u32 \<Rightarrow> jump_resolver_state list \<times> jump_program \<Rightarrow> (jump_resolver_state list \<times> jump_program) option" where
  "resolve_or_defer idx program_addr st =
     (case st of (block, program) \<Rightarrow>
       (case block ! idx of
          Resolved jump_addr \<Rightarrow> map_option (\<lambda>p. (block, p)) (set_jump_addr program_addr jump_addr program)
        | Lazy items \<Rightarrow> Some (block[idx := Lazy (items @ [program_addr])], program)))"

definition evaluate_dsl ::
  "jump_resolver_dsl \<Rightarrow> jump_resolver_state list \<times> jump_program \<Rightarrow> (jump_resolver_state list \<times> jump_program) option" where
  "evaluate_dsl dsl st =
     (case st of (block, program) \<Rightarrow>
       (case dsl of
          EnterForwardJumpBlock \<Rightarrow> Some (block @ [Lazy []], program)
        | EnterBackwardJumpBlock addr \<Rightarrow> Some (block @ [Resolved addr], program)
        | Br i program_addr \<Rightarrow>
            if 1 + unat i \<le> length block then resolve_or_defer (length block - (1 + unat i)) program_addr (block, program) else None
        | Return program_addr \<Rightarrow> if block = [] then None else resolve_or_defer 0 program_addr (block, program)
        | LeaveBlock program_addr \<Rightarrow>
            if block = [] then None
            else (case last block of
                    Resolved _ \<Rightarrow> Some (butlast block, program)
                  | Lazy items \<Rightarrow> map_option (\<lambda>p. (butlast block, p)) (set_jump_addrs items program_addr program))))"

fun evaluate_dsls ::
  "jump_resolver_dsl list \<Rightarrow> jump_resolver_state list \<times> jump_program \<Rightarrow> (jump_resolver_state list \<times> jump_program) option" where
  "evaluate_dsls [] st = Some st"
| "evaluate_dsls (dsl # dsls) st = Option.bind (evaluate_dsl dsl st) (evaluate_dsls dsls)"

definition evaluate :: "jump_resolver_dsl list \<Rightarrow> jump_program \<Rightarrow> jump_program option" where
  "evaluate inner program = map_option snd (evaluate_dsls inner ([], program))"

section \<open>Nested code\<close>

text \<open>The notes of nested blocks: a branch with its label and its slot, a return with its slot, a block
  with its end, a loop with its start and its end.\<close>

datatype jump_code = JBr u32 u32 | JReturn u32 | JBlock "jump_code list" u32 | JLoop u32 "jump_code list" u32

fun notes_of :: "jump_code \<Rightarrow> jump_resolver_dsl list" where
  "notes_of (JBr i s) = [Br i s]"
| "notes_of (JReturn s) = [Return s]"
| "notes_of (JBlock cs e) = EnterForwardJumpBlock # concat (map notes_of cs) @ [LeaveBlock e]"
| "notes_of (JLoop a cs e) = EnterBackwardJumpBlock a # concat (map notes_of cs) @ [LeaveBlock e]"

text \<open>The slots of the branches with the addresses they must get, under the targets of the enclosing
  labels, innermost last.\<close>

fun targets :: "u32 list \<Rightarrow> jump_code \<Rightarrow> (u32 \<times> u32) list" where
  "targets labels (JBr i s) = [(s, labels ! (length labels - (1 + unat i)))]"
| "targets labels (JReturn s) = [(s, labels ! 0)]"
| "targets labels (JBlock cs e) = concat (map (targets (labels @ [e])) cs)"
| "targets labels (JLoop a cs e) = concat (map (targets (labels @ [a])) cs)"

fun slots_of :: "jump_code \<Rightarrow> u32 list" where
  "slots_of (JBr i s) = [s]"
| "slots_of (JReturn s) = [s]"
| "slots_of (JBlock cs e) = concat (map slots_of cs)"
| "slots_of (JLoop a cs e) = concat (map slots_of cs)"

text \<open>Validated labels: a branch names an enclosing block.\<close>

fun labels_ok :: "nat \<Rightarrow> jump_code \<Rightarrow> bool" where
  "labels_ok n (JBr i s) = (unat i < n)"
| "labels_ok n (JReturn s) = (0 < n)"
| "labels_ok n (JBlock cs e) = list_all (labels_ok (Suc n)) cs"
| "labels_ok n (JLoop a cs e) = list_all (labels_ok (Suc n)) cs"

section \<open>What the resolver owes\<close>

definition patch :: "(u32 \<times> u32) list \<Rightarrow> jump_program \<Rightarrow> jump_program" where
  "patch ps program = fold (\<lambda>(s, t) p. p[unat s := t]) ps program"

lemma patch_simps [simp]:
  "patch [] p = p" "patch (x # ps) p = patch ps (p[unat (fst x) := snd x])" "patch (ps @ qs) p = patch qs (patch ps p)"
  by (simp_all add: patch_def split: prod.split)

lemma length_patch [simp]: "length (patch ps p) = length p"
  by (induction ps arbitrary: p) auto

fun owed :: "jump_resolver_state list \<Rightarrow> u32 list \<Rightarrow> (u32 \<times> u32) multiset" where
  "owed (Lazy items # bs) (l # ls) = image_mset (\<lambda>i. (i, l)) (mset items) + owed bs ls"
| "owed (Resolved a # bs) (l # ls) = owed bs ls"
| "owed _ _ = {#}"

definition agrees_with :: "jump_resolver_state list \<Rightarrow> u32 list \<Rightarrow> bool" where
  "agrees_with bs ls = list_all2 (\<lambda>b l. case b of Resolved a \<Rightarrow> a = l | Lazy _ \<Rightarrow> True) bs ls"

lemma owed_append: "length bs = length ls \<Longrightarrow> owed (bs @ bs') (ls @ ls') = owed bs ls + owed bs' ls'"
proof (induction bs ls rule: list_induct2)
  case (Cons b bs l ls)
  then show ?case by (cases b) (simp_all add: add.assoc)
qed simp

lemma owed_defer:
  assumes "length bs = length ls" "k < length bs" "bs ! k = Lazy items"
  shows "owed (bs[k := Lazy (items @ [s])]) ls = add_mset (s, ls ! k) (owed bs ls)"
  using assms
proof (induction bs ls arbitrary: k rule: list_induct2)
  case (Cons b bs l ls)
  then show ?case by (cases k; cases b) auto
qed simp

lemma set_jump_addrs_patch:
  "\<forall>i \<in> set items. unat i < length p \<Longrightarrow> set_jump_addrs items a p = Some (patch (map (\<lambda>i. (i, a)) items) p)"
  by (induction items arbitrary: p) (auto simp: set_jump_addr_def)

text \<open>Resolving one branch settles or defers it; a block stays a block and a loop a loop.\<close>

definition kinds :: "jump_resolver_state list \<Rightarrow> bool list" where
  "kinds bs = map (\<lambda>b. case b of Lazy _ \<Rightarrow> True | Resolved _ \<Rightarrow> False) bs"

lemma resolve_or_defer_owes:
  assumes "agrees_with bs ls" "k < length bs" "unat s < length p"
  shows "\<exists>bs' ds. resolve_or_defer k s (bs, p) = Some (bs', patch ds p) \<and> agrees_with bs' ls \<and> kinds bs' = kinds bs \<and>
    mset ds + owed bs' ls = add_mset (s, ls ! k) (owed bs ls)"
proof (cases "bs ! k")
  case (Resolved a)
  then have "a = ls ! k" using assms(1,2) by (auto simp: agrees_with_def list_all2_conv_all_nth)
  then show ?thesis using Resolved assms
    by (intro exI [of _ bs] exI [of _ "[(s, a)]"]) (simp add: resolve_or_defer_def set_jump_addr_def)
next
  case (Lazy items)
  have "length bs = length ls" using assms(1) by (simp add: agrees_with_def list_all2_lengthD)
  moreover have "agrees_with (bs[k := Lazy (items @ [s])]) ls"
    using assms(1,2) by (auto simp: agrees_with_def list_all2_conv_all_nth nth_list_update)
  moreover have "kinds (bs[k := Lazy (items @ [s])]) = kinds bs"
    using Lazy assms(2) by (auto simp: kinds_def map_update list_update_same_conv)
  ultimately show ?thesis using Lazy assms(2) owed_defer [of bs ls k items s]
    by (intro exI [of _ "bs[k := Lazy (items @ [s])]"] exI [of _ "[]"]) (simp add: resolve_or_defer_def)
qed

text \<open>What a piece of code does: some branches are settled and some are owed, together those of the code.\<close>

definition settles :: "jump_resolver_dsl list \<Rightarrow> u32 list \<Rightarrow> (u32 \<times> u32) list \<Rightarrow> bool" where
  "settles dsls ls ts \<longleftrightarrow>
     (\<forall>bs p. agrees_with bs ls \<longrightarrow> (\<forall>(s, t) \<in># owed bs ls + mset ts. unat s < length p) \<longrightarrow>
       (\<exists>bs' ds. evaluate_dsls dsls (bs, p) = Some (bs', patch ds p) \<and> agrees_with bs' ls \<and> kinds bs' = kinds bs \<and>
         mset ds + owed bs' ls = owed bs ls + mset ts))"

lemma settlesD:
  assumes "settles dsls ls ts" "agrees_with bs ls" "\<forall>(s, t) \<in># owed bs ls + mset ts. unat s < length p"
  obtains bs' ds where "evaluate_dsls dsls (bs, p) = Some (bs', patch ds p)" "agrees_with bs' ls" "kinds bs' = kinds bs"
    "mset ds + owed bs' ls = owed bs ls + mset ts"
  using assms unfolding settles_def by blast

lemma evaluate_dsls_append: "evaluate_dsls (xs @ ys) st = Option.bind (evaluate_dsls xs st) (evaluate_dsls ys)"
proof (induction xs arbitrary: st)
  case (Cons x xs)
  then show ?case by (cases "evaluate_dsl x st") simp_all
qed simp

lemma in_range_rest:
  assumes "mset ds + owed bs' ls = owed bs ls + M" "\<forall>(s, t) \<in># owed bs ls + M. unat s < n"
  shows "\<forall>(s, t) \<in># owed bs' ls. unat s < n"
  using assms by (metis union_iff)

lemma settles_append:
  assumes "settles xs ls ts" "settles ys ls us"
  shows "settles (xs @ ys) ls (ts @ us)"
  unfolding settles_def
proof (intro allI impI)
  fix bs and p :: jump_program
  assume a: "agrees_with bs ls" "\<forall>(s, t) \<in># owed bs ls + mset (ts @ us). unat s < length p"
  have "\<forall>(s, t) \<in># owed bs ls + mset ts. unat s < length p" using a(2) by auto
  from settlesD [OF assms(1) a(1) this] obtain bs1 ds1 where
    one: "evaluate_dsls xs (bs, p) = Some (bs1, patch ds1 p)" "agrees_with bs1 ls" "kinds bs1 = kinds bs"
      "mset ds1 + owed bs1 ls = owed bs ls + mset ts" .
  have "\<forall>(s, t) \<in># owed bs1 ls + mset us. unat s < length (patch ds1 p)"
    using in_range_rest [OF one(4), of "length p"] a(2) by auto
  from settlesD [OF assms(2) one(2) this] obtain bs2 ds2 where
    two: "evaluate_dsls ys (bs1, patch ds1 p) = Some (bs2, patch ds2 (patch ds1 p))" "agrees_with bs2 ls" "kinds bs2 = kinds bs1"
      "mset ds2 + owed bs2 ls = owed bs1 ls + mset us" .
  have "mset (ds1 @ ds2) + owed bs2 ls = owed bs ls + mset (ts @ us)"
    using one(4) two(4) by (metis (no_types, lifting) add.assoc mset_append)
  then show "\<exists>bs' ds. evaluate_dsls (xs @ ys) (bs, p) = Some (bs', patch ds p) \<and> agrees_with bs' ls \<and> kinds bs' = kinds bs \<and>
      mset ds + owed bs' ls = owed bs ls + mset (ts @ us)"
    using one(1,3) two(1,2,3) by (intro exI [of _ bs2] exI [of _ "ds1 @ ds2"]) (simp add: evaluate_dsls_append)
qed

lemma settles_Nil: "settles [] ls []"
  unfolding settles_def by (auto intro!: exI [of _ "[]"])

lemma settles_concat: "(\<And>c. c \<in> set cs \<Longrightarrow> settles (f c) ls (g c)) \<Longrightarrow> settles (concat (map f cs)) ls (concat (map g cs))"
  by (induction cs) (simp_all add: settles_Nil settles_append)

lemma agrees_with_snoc:
  assumes "agrees_with bs (ls @ [l])"
  obtains bs' b where "bs = bs' @ [b]" "agrees_with bs' ls" "case b of Resolved a \<Rightarrow> a = l | Lazy _ \<Rightarrow> True"
  using assms by (auto simp: agrees_with_def list_all2_append2 list_all2_Cons2)

lemma settles_block:
  assumes "settles xs (ls @ [e]) ts"
  shows "settles (EnterForwardJumpBlock # xs @ [LeaveBlock e]) ls ts"
  unfolding settles_def
proof (intro allI impI)
  fix bs and p :: jump_program
  assume a: "agrees_with bs ls" "\<forall>(s, t) \<in># owed bs ls + mset ts. unat s < length p"
  then have len: "length bs = length ls" by (simp add: agrees_with_def list_all2_lengthD)
  have "agrees_with (bs @ [Lazy []]) (ls @ [e])" using a(1) by (simp add: agrees_with_def list_all2_appendI)
  moreover have o: "owed (bs @ [Lazy []]) (ls @ [e]) = owed bs ls" by (simp add: owed_append len)
  ultimately obtain bs1 ds1 where one: "evaluate_dsls xs (bs @ [Lazy []], p) = Some (bs1, patch ds1 p)" "agrees_with bs1 (ls @ [e])"
    "kinds bs1 = kinds (bs @ [Lazy []])" "mset ds1 + owed bs1 (ls @ [e]) = owed bs ls + mset ts"
    using settlesD [OF assms, of "bs @ [Lazy []]" p] a(2) by (metis (no_types, lifting))
  obtain bs' b where b: "bs1 = bs' @ [b]" "agrees_with bs' ls" using agrees_with_snoc [OF one(2)] .
  from one(3) b(1) obtain items where items: "b = Lazy items" "kinds bs' = kinds bs"
    by (cases b) (auto simp: kinds_def)
  have len': "length bs' = length ls" using b(2) by (simp add: agrees_with_def list_all2_lengthD)
  let ?ds = "map (\<lambda>i. (i, e)) items"
  have total: "mset (ds1 @ ?ds) + owed bs' ls = owed bs ls + mset ts"
    using one(4) by (simp add: b(1) items(1) owed_append len' add.commute add.left_commute)
  have "\<forall>(s, t) \<in> set ?ds. unat s < length p" using total a(2) by (metis mset_append set_mset_mset union_iff)
  then have "set_jump_addrs items e (patch ds1 p) = Some (patch ?ds (patch ds1 p))" by (intro set_jump_addrs_patch) auto
  then show "\<exists>bs' ds. evaluate_dsls (EnterForwardJumpBlock # xs @ [LeaveBlock e]) (bs, p) = Some (bs', patch ds p) \<and>
      agrees_with bs' ls \<and> kinds bs' = kinds bs \<and> mset ds + owed bs' ls = owed bs ls + mset ts"
    using one(1) b items total
    by (intro exI [of _ bs'] exI [of _ "ds1 @ ?ds"]) (simp add: evaluate_dsl_def evaluate_dsls_append)
qed

lemma settles_loop:
  assumes "settles xs (ls @ [l]) ts"
  shows "settles (EnterBackwardJumpBlock l # xs @ [LeaveBlock e]) ls ts"
  unfolding settles_def
proof (intro allI impI)
  fix bs and p :: jump_program
  assume a: "agrees_with bs ls" "\<forall>(s, t) \<in># owed bs ls + mset ts. unat s < length p"
  then have len: "length bs = length ls" by (simp add: agrees_with_def list_all2_lengthD)
  have "agrees_with (bs @ [Resolved l]) (ls @ [l])" using a(1) by (simp add: agrees_with_def list_all2_appendI)
  moreover have "owed (bs @ [Resolved l]) (ls @ [l]) = owed bs ls" by (simp add: owed_append len)
  ultimately obtain bs1 ds1 where one: "evaluate_dsls xs (bs @ [Resolved l], p) = Some (bs1, patch ds1 p)" "agrees_with bs1 (ls @ [l])"
    "kinds bs1 = kinds (bs @ [Resolved l])" "mset ds1 + owed bs1 (ls @ [l]) = owed bs ls + mset ts"
    using settlesD [OF assms, of "bs @ [Resolved l]" p] a(2) by (metis (no_types, lifting))
  obtain bs' b where b: "bs1 = bs' @ [b]" "agrees_with bs' ls" using agrees_with_snoc [OF one(2)] .
  from one(3) b(1) obtain l' where l': "b = Resolved l'" "kinds bs' = kinds bs" by (cases b) (auto simp: kinds_def)
  have len': "length bs' = length ls" using b(2) by (simp add: agrees_with_def list_all2_lengthD)
  show "\<exists>bs' ds. evaluate_dsls (EnterBackwardJumpBlock l # xs @ [LeaveBlock e]) (bs, p) = Some (bs', patch ds p) \<and>
      agrees_with bs' ls \<and> kinds bs' = kinds bs \<and> mset ds + owed bs' ls = owed bs ls + mset ts"
    using one(1,4) b l' by (intro exI [of _ bs'] exI [of _ ds1]) (simp add: evaluate_dsl_def evaluate_dsls_append owed_append len')
qed

lemma settles_branch:
  assumes "k < length ls" "\<And>bs p. length bs = length ls \<Longrightarrow> evaluate_dsl dsl (bs, p) = resolve_or_defer k s (bs, p)"
  shows "settles [dsl] ls [(s, ls ! k)]"
  unfolding settles_def
proof (intro allI impI)
  fix bs and p :: jump_program
  assume a: "agrees_with bs ls" "\<forall>(s, t) \<in># owed bs ls + mset [(s, ls ! k)]. unat s < length p"
  then have len: "length bs = length ls" by (simp add: agrees_with_def list_all2_lengthD)
  with assms a resolve_or_defer_owes [OF a(1), of k s p]
  show "\<exists>bs' ds. evaluate_dsls [dsl] (bs, p) = Some (bs', patch ds p) \<and> agrees_with bs' ls \<and> kinds bs' = kinds bs \<and>
      mset ds + owed bs' ls = owed bs ls + mset [(s, ls ! k)]"
    by auto
qed

lemma notes_settle: "labels_ok (length ls) c \<Longrightarrow> settles (notes_of c) ls (targets ls c)"
proof (induction c arbitrary: ls)
  case (JBr i s)
  then show ?case by (auto simp: evaluate_dsl_def intro!: settles_branch)
next
  case (JReturn s)
  then show ?case by (auto simp: evaluate_dsl_def intro!: settles_branch)
next
  case (JBlock cs e)
  then have "settles (concat (map notes_of cs)) (ls @ [e]) (concat (map (targets (ls @ [e])) cs))"
    by (intro settles_concat) (simp add: list_all_iff)
  then show ?case by (simp add: settles_block)
next
  case (JLoop l cs e)
  then have "settles (concat (map notes_of cs)) (ls @ [l]) (concat (map (targets (ls @ [l])) cs))"
    by (intro settles_concat) (simp add: list_all_iff)
  then show ?case by (simp add: settles_loop)
qed

section \<open>Every branch gets its target\<close>

lemma slots_of_targets: "map fst (targets ls c) = slots_of c"
  by (induction c arbitrary: ls) (auto simp: map_concat intro!: arg_cong [where f = concat])

lemma patch_other: "i \<notin> unat ` fst ` set ps \<Longrightarrow> patch ps p ! i = p ! i"
  by (induction ps arbitrary: p) (auto simp: nth_list_update)

lemma patch_slot:
  assumes "distinct (map fst ps)" "(s, t) \<in> set ps" "unat s < length p"
  shows "patch ps p ! unat s = t"
  using assms
proof (induction ps arbitrary: p)
  case (Cons x ps)
  show ?case
  proof (cases "x = (s, t)")
    case True
    then have "unat s \<notin> unat ` fst ` set ps" using Cons.prems(1) by (simp add: inj_image_mem_iff [OF inj_unsigned])
    then show ?thesis using True Cons.prems(3) by (simp add: patch_other)
  next
    case False
    then show ?thesis using Cons by auto
  qed
qed simp

text \<open>C8: The resolver writes the right target into every branch.  For the notes of a function body whose
  labels are validated and whose branches have slots of their own, \<open>evaluate\<close> does not panic; it
  gives the slot of every branch the end of the block or the start of the loop that its label
  names, a return the end of the function, and leaves every other slot as it was.\<close>

theorem jumps_resolved:
  assumes "labels_ok 0 (JBlock cs e)" "distinct (slots_of (JBlock cs e))" "\<forall>s \<in> set (slots_of (JBlock cs e)). unat s < length program"
  shows "\<exists>program'. evaluate (notes_of (JBlock cs e)) program = Some program' \<and> length program' = length program \<and>
    (\<forall>(s, t) \<in> set (targets [] (JBlock cs e)). program' ! unat s = t) \<and>
    (\<forall>i. i \<notin> unat ` set (slots_of (JBlock cs e)) \<longrightarrow> program' ! i = program ! i)"
proof -
  let ?f = "JBlock cs e"
  have slots: "fst ` set (targets [] ?f) = set (slots_of ?f)" by (metis list.set_map slots_of_targets)
  have "settles (notes_of ?f) [] (targets [] ?f)" using notes_settle [of "[]" ?f] assms(1) by simp
  moreover have "agrees_with [] []" by (simp add: agrees_with_def)
  moreover have range: "\<forall>(s, t) \<in># owed [] [] + mset (targets [] ?f). unat s < length program"
  proof -
    have "unat s < length program" if "(s, t) \<in> set (targets [] ?f)" for s t
      using that assms(3) slots by (metis fst_conv image_eqI)
    then show ?thesis by (auto simp del: targets.simps)
  qed
  ultimately obtain bs ds where run: "evaluate_dsls (notes_of ?f) ([], program) = Some (bs, patch ds program)" "agrees_with bs []"
    "mset ds + owed bs [] = owed [] [] + mset (targets [] ?f)" by (rule settlesD) blast
  from run(2) have "bs = []" by (simp add: agrees_with_def)
  with run(3) have ds: "mset ds = mset (targets [] ?f)" by simp
  then have set: "set ds = set (targets [] ?f)" by (metis set_mset_mset)
  have "mset (map fst ds) = mset (slots_of ?f)" using ds by (metis mset_map slots_of_targets)
  then have "distinct (map fst ds)" using assms(2) by (metis mset_eq_imp_distinct_iff)
  then have "patch ds program ! unat s = t" if "(s, t) \<in> set (targets [] ?f)" for s t
    using that set range patch_slot [of ds s t program] by (auto simp del: targets.simps)
  moreover have "patch ds program ! i = program ! i" if "i \<notin> unat ` set (slots_of ?f)" for i
    using that set slots by (intro patch_other) (simp del: slots_of.simps targets.simps)
  ultimately show ?thesis using run(1) by (auto simp: evaluate_def simp del: targets.simps slots_of.simps notes_of.simps)
qed

text \<open>A block with a branch out of a loop in it, one to the loop and a return.\<close>

theorem jumps_resolved_witness:
  "evaluate (notes_of (JBlock [JLoop 2 [JBr 1 3, JBr 0 5] 7, JReturn 9] 11)) (replicate 12 0) =
     Some [0, 0, 0, 11, 0, 2, 0, 0, 0, 11, 0, 0]"
proof -
  let ?cs = "[JLoop 2 [JBr 1 3, JBr 0 5] 7, JReturn 9]"
  have ok: "labels_ok 0 (JBlock ?cs 11)" "distinct (slots_of (JBlock ?cs 11))"
    "\<forall>s \<in> set (slots_of (JBlock ?cs 11)). unat s < length (replicate 12 0 :: u32 list)" by simp_all
  obtain p where p: "evaluate (notes_of (JBlock ?cs 11)) (replicate 12 0) = Some p" "length p = 12"
    "p ! 3 = 11" "p ! 5 = 2" "p ! 9 = 11" "\<And>i. i \<notin> {3, 5, 9} \<Longrightarrow> p ! i = replicate 12 0 ! i"
    using jumps_resolved [OF ok] by auto
  have "p = [0, 0, 0, 11, 0, 2, 0, 0, 0, 11, 0, 0]"
    using p(2-5) p(6) [of 0] p(6) [of 1] p(6) [of 2] p(6) [of 4] p(6) [of 6] p(6) [of 7] p(6) [of 8] p(6) [of 10] p(6) [of 11]
    by (intro nth_equalityI) (auto simp: less_Suc_eq numeral_eq_Suc nth_Cons' split: if_splits)
  with p(1) show ?thesis by simp
qed

end
