(* ===== verification/Optimizer_Cfg.thy ===== *)
theory Optimizer_Cfg
  imports Local_Instructions Integer_Instructions
begin

text \<open>
  The control flow graph that the optimizer builds of a function body,
  \<open>telomere/src/parser/core/optimizer/cfg.rs\<close>.  A slot of the code is a union of an instruction and an
  operand; both readings of it are kept.  The handlers that the optimizer knows are constructors, those of
  the integer operators with the operator; every other handler is a number.  An index out of range panics, which is \<open>None\<close>.  The theory shows that
  the basic blocks cover the body in order and that their edges are exactly the flow of control.
\<close>

section \<open>Decoding\<close>

datatype vm_op =
    Op_if | Op_else | Op_br | Op_br_if | Op_br_table | Op_return | Op_loop | Op_end
  | Special_function_return | Special_block_return
  | Op_i32_const | Op_i64_const | Op_i32_eqz | Op_i64_eqz
  | Op_i32_bin ibinop | Op_i64_bin ibinop | Op_i32_rel irelop | Op_i64_rel irelop
  | Op_local_get4 | Op_local_get8 | Op_local_get16 | Op_local_set4 | Op_local_set8 | Op_local_set16
  | Op_local_tee4 | Op_local_tee8 | Op_local_tee16
  | Op_select | Op_select4 | Op_i32_select_bit_step4
  | Op_call | Op_call_import | Op_return_call | Op_return_call_import
  | Op_other nat

record instr_slot =
  slot_op :: vm_op
  slot_operand :: u64

record instruction_meta =
  im_start :: nat
  im_len :: nat
  im_stack_before :: stack_snapshot
  im_stack_after :: stack_snapshot
  im_preserved_prefix_len :: nat
  im_fresh_result_count :: nat

record decoded_instr =
  di_old_start :: nat
  di_op :: vm_op
  di_operands :: "u64 list"
  di_stack_before :: stack_snapshot
  di_stack_after :: stack_snapshot
  di_preserved_prefix_len :: nat
  di_fresh_result_count :: nat

definition decoded_operand_u32 :: "decoded_instr \<Rightarrow> nat \<Rightarrow> u32 option" where
  "decoded_operand_u32 r i = map_option ucast (get_idx (di_operands r) i)"

definition operand_jump_addr :: "decoded_instr \<Rightarrow> nat \<Rightarrow> nat option" where
  "operand_jump_addr r i = map_option (\<lambda>w. unat (ucast w :: u32)) (get_idx (di_operands r) i)"

record basic_block =
  bb_id :: nat
  bb_start :: nat
  bb_end :: nat

record basic_block_program =
  bp_records :: "decoded_instr list"
  bp_blocks :: "basic_block list"
  bp_old_start_to_block :: "nat \<Rightarrow> nat option"
  bp_successors :: "nat list list"
  bp_predecessors :: "nat list list"

definition decode_record :: "instr_slot list \<Rightarrow> instruction_meta \<Rightarrow> decoded_instr option" where
  "decode_record instrs meta =
     (if im_start meta + im_len meta > length instrs \<or> im_len meta = 0 then None
      else Some \<lparr>di_old_start = im_start meta, di_op = slot_op (instrs ! im_start meta),
        di_operands = map (\<lambda>i. slot_operand (instrs ! (im_start meta + i))) [1..<im_len meta],
        di_stack_before = im_stack_before meta, di_stack_after = im_stack_after meta,
        di_preserved_prefix_len = im_preserved_prefix_len meta, di_fresh_result_count = im_fresh_result_count meta\<rparr>)"

definition start_to_record :: "decoded_instr list \<Rightarrow> nat \<Rightarrow> nat option" where
  "start_to_record records = fold (\<lambda>(i, r) m. m(di_old_start r \<mapsto> i)) (enumerate 0 records) Map.empty"

section \<open>Basic blocks\<close>

definition starts_basic_block :: "decoded_instr \<Rightarrow> bool" where
  "starts_basic_block r \<longleftrightarrow>
     di_op r \<in> {Op_loop, Op_if, Op_else, Op_end, Special_function_return, Special_block_return}"

definition ends_basic_block :: "decoded_instr \<Rightarrow> bool" where
  "ends_basic_block r \<longleftrightarrow>
     di_op r \<in> {Op_if, Op_br, Op_br_if, Op_br_table, Op_return, Op_else, Op_end, Special_function_return, Special_block_return}"

definition control_targets :: "decoded_instr \<Rightarrow> nat list option" where
  "control_targets r =
     (if di_op r \<in> {Op_if, Op_else, Op_br} then map_option (\<lambda>a. [a]) (operand_jump_addr r 0)
      else if di_op r \<in> {Op_br_if, Op_return} then map_option (\<lambda>a. [a]) (operand_jump_addr r 0)
      else if di_op r = Op_br_table then
        Option.bind (decoded_operand_u32 r 0) (\<lambda>n. those (map (operand_jump_addr r) [1..<unat n + 2]))
      else Some [])"

text \<open>The record indices that begin a block, in order.\<close>

definition leaders_of :: "decoded_instr list \<Rightarrow> (nat \<Rightarrow> nat option) \<Rightarrow> nat list list \<Rightarrow> nat list" where
  "leaders_of records starts targets =
     sort (remdups (0 # concat (map (\<lambda>(idx, r, ts).
       (if idx > 0 \<and> starts_basic_block r then [idx] else []) @
       List.map_filter starts ts @
       (if ends_basic_block r \<and> idx + 1 < length records then [idx + 1] else [])) (enumerate 0 (zip records targets)))))"

definition block_of_leaders :: "nat list \<Rightarrow> nat \<Rightarrow> nat \<Rightarrow> basic_block" where
  "block_of_leaders leaders n block_id =
     \<lparr>bb_id = block_id, bb_start = leaders ! block_id, bb_end = (case get_idx leaders (block_id + 1) of Some e \<Rightarrow> e | None \<Rightarrow> n)\<rparr>"

definition build_blocks ::
  "decoded_instr list \<Rightarrow> (nat \<Rightarrow> nat option) \<Rightarrow> (basic_block list \<times> (nat \<Rightarrow> nat option)) option" where
  "build_blocks records starts =
     (if records = [] then Some ([], Map.empty)
      else Option.bind (those (map control_targets records)) (\<lambda>targets.
        let leaders = leaders_of records starts targets;
            blocks = map (block_of_leaders leaders (length records)) [0..<length leaders]
        in if \<forall>l \<in> set leaders. l < length records
           then Some (blocks, fold (\<lambda>b m. m(di_old_start (records ! bb_start b) \<mapsto> bb_id b)) blocks Map.empty)
           else None))"

section \<open>Edges\<close>

definition target_block_ids :: "decoded_instr \<Rightarrow> (nat \<Rightarrow> nat option) \<Rightarrow> nat list option" where
  "target_block_ids r old_start_to_block = map_option (List.map_filter old_start_to_block) (control_targets r)"

definition block_successors ::
  "decoded_instr list \<Rightarrow> basic_block \<Rightarrow> (nat \<Rightarrow> nat option) \<Rightarrow> nat \<Rightarrow> nat list option" where
  "block_successors records block old_start_to_block block_count =
     (if bb_start block \<ge> bb_end block then Some []
      else Option.bind (get_idx records (bb_end block - 1)) (\<lambda>terminal.
        let fallthrough = (if bb_id block + 1 < block_count then [bb_id block + 1] else []) in
        if di_op terminal \<in> {Op_br, Op_else, Op_return} then target_block_ids terminal old_start_to_block
        else if di_op terminal \<in> {Op_if, Op_br_if} then map_option (\<lambda>succs. succs @ fallthrough) (target_block_ids terminal old_start_to_block)
        else if di_op terminal = Op_br_table then target_block_ids terminal old_start_to_block
        else if di_op terminal = Special_function_return then Some []
        else if di_op terminal = Special_block_return then Some fallthrough
        else Some fallthrough))"

definition sort_dedup :: "nat list \<Rightarrow> nat list" where
  "sort_dedup xs = remdups_adj (sort xs)"

definition add_predecessor :: "nat \<Rightarrow> nat \<Rightarrow> nat list list \<Rightarrow> nat list list option" where
  "add_predecessor block_id succ predecessors =
     (if succ < length predecessors then Some (predecessors[succ := predecessors ! succ @ [block_id]]) else None)"

fun add_predecessors :: "nat \<Rightarrow> nat list \<Rightarrow> nat list list \<Rightarrow> nat list list option" where
  "add_predecessors block_id [] preds = Some preds"
| "add_predecessors block_id (s # ss) preds = Option.bind (add_predecessor block_id s preds) (add_predecessors block_id ss)"

fun build_edges_loop ::
  "decoded_instr list \<Rightarrow> (nat \<Rightarrow> nat option) \<Rightarrow> nat \<Rightarrow> basic_block list \<Rightarrow> nat list list \<Rightarrow> nat list list \<Rightarrow>
   (nat list list \<times> nat list list) option" where
  "build_edges_loop records starts n [] succs preds = Some (succs, preds)"
| "build_edges_loop records starts n (b # bs) succs preds =
     Option.bind (block_successors records b starts n) (\<lambda>ss.
     Option.bind (add_predecessors (bb_id b) (sort_dedup ss) preds) (\<lambda>preds.
       if bb_id b < length succs then build_edges_loop records starts n bs (succs[bb_id b := sort_dedup ss]) preds else None))"

definition build_edges ::
  "decoded_instr list \<Rightarrow> basic_block list \<Rightarrow> (nat \<Rightarrow> nat option) \<Rightarrow> (nat list list \<times> nat list list) option" where
  "build_edges records blocks old_start_to_block =
     map_option (\<lambda>(succs, preds). (succs, map sort_dedup preds))
       (build_edges_loop records old_start_to_block (length blocks) blocks (replicate (length blocks) []) (replicate (length blocks) []))"

text \<open>\<open>Some None\<close>: the metadata do not fit the code and the body is left as it is.\<close>

definition build_program :: "instr_slot list \<Rightarrow> instruction_meta list \<Rightarrow> basic_block_program option option" where
  "build_program instrs meta =
     (case those (map (decode_record instrs) meta) of
        None \<Rightarrow> Some None
      | Some records \<Rightarrow>
          Option.bind (build_blocks records (start_to_record records)) (\<lambda>(blocks, old_start_to_block).
          Option.bind (build_edges records blocks old_start_to_block) (\<lambda>(successors, predecessors).
            Some (Some \<lparr>bp_records = records, bp_blocks = blocks, bp_old_start_to_block = old_start_to_block,
              bp_successors = successors, bp_predecessors = predecessors\<rparr>))))"

section \<open>Ordered leaders\<close>

text \<open>A block is the stretch from one leader to the next.\<close>

definition next_leader :: "nat list \<Rightarrow> nat \<Rightarrow> nat \<Rightarrow> nat" where
  "next_leader ls n b = (if b + 1 < length ls then ls ! (b + 1) else n)"

definition leaders_ok :: "nat list \<Rightarrow> nat \<Rightarrow> bool" where
  "leaders_ok ls n \<longleftrightarrow> sorted_wrt (<) ls \<and> ls \<noteq> [] \<and> ls ! 0 = 0 \<and> (\<forall>l \<in> set ls. l < n)"

lemma leader_less: "leaders_ok ls n \<Longrightarrow> b < c \<Longrightarrow> c < length ls \<Longrightarrow> ls ! b < ls ! c"
  by (simp add: leaders_ok_def sorted_wrt_iff_nth_less)

lemma leader_le: "leaders_ok ls n \<Longrightarrow> b \<le> c \<Longrightarrow> c < length ls \<Longrightarrow> ls ! b \<le> ls ! c"
  using leader_less [of ls n b c] by (cases "b = c") auto

lemma next_leader_le: "leaders_ok ls n \<Longrightarrow> b < c \<Longrightarrow> c < length ls \<Longrightarrow> next_leader ls n b \<le> ls ! c"
  using leader_le [of ls n "b + 1" c] by (auto simp: next_leader_def)

lemma leader_next: "leaders_ok ls n \<Longrightarrow> b < length ls \<Longrightarrow> ls ! b < next_leader ls n b \<and> next_leader ls n b \<le> n"
  using leader_less [of ls n b "b + 1"] by (auto simp: next_leader_def leaders_ok_def less_imp_le)

lemma block_of_index:
  assumes "leaders_ok ls n" "i < n"
  shows "\<exists>!b. b < length ls \<and> ls ! b \<le> i \<and> i < next_leader ls n b"
proof -
  let ?B = "{b. b < length ls \<and> ls ! b \<le> i}"
  have ne: "0 \<in> ?B" using assms(1) by (auto simp: leaders_ok_def)
  have "finite ?B" by simp
  define b where "b = Max ?B"
  have b: "b \<in> ?B" unfolding b_def using ne \<open>finite ?B\<close> by (intro Max_in) auto
  have "i < next_leader ls n b"
  proof (cases "b + 1 < length ls")
    case True
    have "b + 1 \<notin> ?B" using Max_ge [OF \<open>finite ?B\<close>, of "b + 1"] by (auto simp: b_def [symmetric])
    with True show ?thesis by (simp add: next_leader_def)
  qed (use assms(2) in \<open>simp add: next_leader_def\<close>)
  with b show ?thesis
  proof (intro ex1I [of _ b])
    fix c
    assume c: "c < length ls \<and> ls ! c \<le> i \<and> i < next_leader ls n c"
    show "c = b"
    proof (rule ccontr)
      assume "c \<noteq> b"
      then consider "c < b" | "b < c" by linarith
      then show False
        using next_leader_le [OF assms(1), of c b] next_leader_le [OF assms(1), of b c] b c \<open>i < next_leader ls n b\<close> by cases auto
    qed
  qed auto
qed

lemma leader_starts_block:
  assumes "leaders_ok ls n" "l \<in> set ls"
  obtains b where "b < length ls" "ls ! b = l"
  using assms(2) by (auto simp: in_set_conv_nth)

text \<open>The next index stays in the block unless it is a leader or the end.\<close>

lemma next_index:
  assumes "leaders_ok ls n" "b < length ls" "ls ! b \<le> i" "i < next_leader ls n b"
  shows "Suc i < next_leader ls n b \<or> i = next_leader ls n b - 1 \<and>
    (Suc i = n \<and> length ls = Suc b \<or> Suc b < length ls \<and> ls ! Suc b = Suc i)"
  using assms leader_next [OF assms(1,2)] by (auto simp: next_leader_def split: if_splits)

lemma leader_not_inside:
  assumes "leaders_ok ls n" "b < length ls" "l \<in> set ls" "ls ! b < l"
  shows "next_leader ls n b \<le> l"
proof -
  obtain c where c: "c < length ls" "ls ! c = l" using leader_starts_block [OF assms(1,3)] .
  have "b < c"
  proof (rule ccontr)
    assume "\<not> b < c"
    then show False using leader_le [OF assms(1), of c b] assms(2,4) c by simp
  qed
  then show ?thesis using next_leader_le [OF assms(1)] c by blast
qed

section \<open>Maps of the last index\<close>

lemma fold_updates: "fold (\<lambda>x m. m(f x \<mapsto> g x)) xs m = m ++ map_of (rev (map (\<lambda>x. (f x, g x)) xs))"
  by (induction xs arbitrary: m) (auto simp: map_add_def fun_eq_iff split: option.splits)

lemma map_of_last_index:
  "map_of (rev (map (\<lambda>i. (key i, i)) [0..<n])) t = Some j \<longleftrightarrow> j < n \<and> key j = t \<and> (\<forall>k. j < k \<and> k < n \<longrightarrow> key k \<noteq> t)"
  by (induction n) (auto simp: less_Suc_eq)

lemma start_to_record_iff:
  "start_to_record rs t = Some j \<longleftrightarrow>
   j < length rs \<and> di_old_start (rs ! j) = t \<and> (\<forall>k. j < k \<and> k < length rs \<longrightarrow> di_old_start (rs ! k) \<noteq> t)"
proof -
  have "start_to_record rs = fold (\<lambda>x m. m(di_old_start (snd x) \<mapsto> fst x)) (enumerate 0 rs) Map.empty"
    by (simp add: start_to_record_def case_prod_unfold)
  also have "\<dots> = map_of (rev (map (\<lambda>x. (di_old_start (snd x), fst x)) (enumerate 0 rs)))" by (simp add: fold_updates)
  also have "map (\<lambda>x. (di_old_start (snd x), fst x)) (enumerate 0 rs) = map (\<lambda>i. (di_old_start (rs ! i), i)) [0..<length rs]"
    by (rule nth_equalityI) (simp_all add: nth_enumerate_eq)
  finally show ?thesis by (simp add: map_of_last_index)
qed

section \<open>The blocks\<close>

text \<open>A built graph has leaders of which its blocks are made.\<close>

definition blocks_built :: "decoded_instr list \<Rightarrow> nat list list \<Rightarrow> nat list \<Rightarrow> basic_block list \<Rightarrow> (nat \<Rightarrow> nat option) \<Rightarrow> bool" where
  "blocks_built rs tss ls bs starts \<longleftrightarrow>
     those (map control_targets rs) = Some tss \<and> ls = leaders_of rs (start_to_record rs) tss \<and> leaders_ok ls (length rs) \<and>
     bs = map (block_of_leaders ls (length rs)) [0..<length ls] \<and>
     (\<forall>t b. starts t = Some b \<longleftrightarrow>
       b < length ls \<and> di_old_start (rs ! (ls ! b)) = t \<and> (\<forall>c. b < c \<and> c < length ls \<longrightarrow> di_old_start (rs ! (ls ! c)) \<noteq> t))"

lemma sort_remdups_less: "sorted_wrt (<) (sort (remdups xs))" for xs :: "nat list"
  by (simp add: strict_sorted_iff)

lemma build_blocksD:
  assumes "build_blocks rs (start_to_record rs) = Some (bs, starts)" "rs \<noteq> []"
  obtains tss ls where "blocks_built rs tss ls bs starts"
proof -
  obtain tss where tss: "those (map control_targets rs) = Some tss"
    using assms by (auto simp: build_blocks_def bind_eq_Some_conv split: if_splits)
  define ls where "ls = leaders_of rs (start_to_record rs) tss"
  have bs: "bs = map (block_of_leaders ls (length rs)) [0..<length ls]" "\<forall>l \<in> set ls. l < length rs"
    "starts = fold (\<lambda>b m. m(di_old_start (rs ! bb_start b) \<mapsto> bb_id b)) bs Map.empty"
    using assms tss by (auto simp: build_blocks_def Let_def ls_def split: if_splits)
  have sorted: "sorted_wrt (<) ls" unfolding ls_def leaders_of_def by (rule sort_remdups_less)
  have zero: "0 \<in> set ls" by (simp add: ls_def leaders_of_def)
  then have ne: "ls \<noteq> []" by auto
  have "ls ! 0 = 0"
  proof -
    have "ls ! 0 \<le> ls ! b" if "b < length ls" for b
      using sorted that by (cases "b = 0") (auto simp: sorted_wrt_iff_nth_less less_imp_le)
    then show ?thesis using zero unfolding in_set_conv_nth by fastforce
  qed
  with sorted ne bs(2) have ok: "leaders_ok ls (length rs)" by (simp add: leaders_ok_def)
  have "map (\<lambda>b. (di_old_start (rs ! bb_start b), bb_id b)) bs = map (\<lambda>b. (di_old_start (rs ! (ls ! b)), b)) [0..<length ls]"
    by (simp add: bs(1) block_of_leaders_def)
  then have "starts t = Some b \<longleftrightarrow>
      b < length ls \<and> di_old_start (rs ! (ls ! b)) = t \<and> (\<forall>c. b < c \<and> c < length ls \<longrightarrow> di_old_start (rs ! (ls ! c)) \<noteq> t)" for t b
    by (simp add: bs(3) fold_updates map_of_last_index)
  then show ?thesis using that tss ok bs(1) unfolding blocks_built_def ls_def by blast
qed

lemma those_map_Some: "those (map Some ys) = Some ys"
  by (induction ys) auto

lemma those_SomeD: "those xs = Some ys \<Longrightarrow> xs = map Some ys"
  by (induction xs arbitrary: ys) (auto split: option.splits)

lemma leaders_of_member:
  assumes "(idx, r, ts) \<in> set (enumerate 0 (zip rs tss))"
    "x \<in> set (List.map_filter starts ts) \<or> ends_basic_block r \<and> idx + 1 < length rs \<and> x = idx + 1"
  shows "x \<in> set (leaders_of rs starts tss)"
proof -
  have "x \<in> set (concat (map (\<lambda>(idx, r, ts).
       (if idx > 0 \<and> starts_basic_block r then [idx] else []) @
       List.map_filter starts ts @
       (if ends_basic_block r \<and> idx + 1 < length rs then [idx + 1] else [])) (enumerate 0 (zip rs tss))))"
    unfolding set_concat set_map by (rule UnionI [OF imageI [OF imageI [OF assms(1)]]]) (use assms(2) in auto)
  then show ?thesis by (simp only: leaders_of_def set_sort set_remdups list.set insert_iff) simp
qed

lemma leaders_contain:
  assumes "blocks_built rs tss ls bs starts" "i < length rs"
  shows "ends_basic_block (rs ! i) \<Longrightarrow> i + 1 < length rs \<Longrightarrow> i + 1 \<in> set ls"
    "control_targets (rs ! i) = Some ts \<Longrightarrow> t \<in> set ts \<Longrightarrow> start_to_record rs t = Some j \<Longrightarrow> j \<in> set ls"
proof -
  have tss: "map control_targets rs = map Some tss" "length tss = length rs"
    using assms(1) by (auto simp: blocks_built_def dest!: those_SomeD dest: map_eq_imp_length_eq)
  have nth: "(i, rs ! i, tss ! i) \<in> set (enumerate 0 (zip rs tss))"
    using assms(2) tss(2) by (auto simp: in_set_enumerate_eq)
  have ls: "x \<in> set ls" if "x \<in> set (List.map_filter (start_to_record rs) (tss ! i)) \<or> ends_basic_block (rs ! i) \<and> i + 1 < length rs \<and> x = i + 1" for x
    using leaders_of_member [OF nth that] assms(1) unfolding blocks_built_def by blast
  show "i + 1 \<in> set ls" if "ends_basic_block (rs ! i)" "i + 1 < length rs"
    using ls that by blast
  show "j \<in> set ls" if "control_targets (rs ! i) = Some ts" "t \<in> set ts" "start_to_record rs t = Some j"
  proof -
    have "tss ! i = ts" using tss that(1) assms(2) by (metis nth_map option.inject)
    then have "j \<in> set (List.map_filter (start_to_record rs) (tss ! i))" using that by (force simp: List.map_filter_def)
    then show ?thesis using ls by blast
  qed
qed

text \<open>The block of a target is the one that its record begins.\<close>

lemma target_block:
  assumes "blocks_built rs tss ls bs starts" "i < length rs" "control_targets (rs ! i) = Some ts" "t \<in> set ts"
  shows "starts t = Some b \<and> ls ! b = j \<longleftrightarrow> start_to_record rs t = Some j \<and> b < length ls \<and> ls ! b = j"
proof -
  have ok: "leaders_ok ls (length rs)" using assms(1) unfolding blocks_built_def by blast
  have less: "ls ! c < length rs" if "c < length ls" for c using ok that by (simp add: leaders_ok_def)
  have st: "starts t = Some b \<longleftrightarrow>
      b < length ls \<and> di_old_start (rs ! (ls ! b)) = t \<and> (\<forall>c. b < c \<and> c < length ls \<longrightarrow> di_old_start (rs ! (ls ! c)) \<noteq> t)" for b
    using assms(1) unfolding blocks_built_def by blast
  show ?thesis
  proof
    assume a: "starts t = Some b \<and> ls ! b = j"
    then have b: "b < length ls" "di_old_start (rs ! j) = t" "\<And>c. b < c \<Longrightarrow> c < length ls \<Longrightarrow> di_old_start (rs ! (ls ! c)) \<noteq> t"
      by (auto simp: st)
    have "\<exists>k. start_to_record rs t = Some k"
    proof (rule ccontr)
      assume no: "\<not> ?thesis"
      let ?K = "{k. k < length rs \<and> di_old_start (rs ! k) = t}"
      have K: "finite ?K" "?K \<noteq> {}" using b(2) less [OF b(1)] a by auto
      have "start_to_record rs t = Some (Max ?K)"
        using Max_in [OF K] Max_ge [OF K(1)] by (auto simp: start_to_record_iff not_less [symmetric])
      with no show False by blast
    qed
    then obtain k where k: "start_to_record rs t = Some k" ..
    have "k \<in> set ls" by (rule leaders_contain(2) [OF assms(1-4) k])
    then obtain c where c: "c < length ls" "ls ! c = k" by (rule leader_starts_block [OF ok])
    have "c \<le> b" using b(3) [of c] c k by (auto simp: start_to_record_iff not_less [symmetric])
    moreover have "j \<le> k" using k b(2) less [OF b(1)] a by (auto simp: start_to_record_iff not_less [symmetric])
    ultimately have "c = b" using leader_less [OF ok, of c b] b(1) c a by (cases "c = b") auto
    then show "start_to_record rs t = Some j \<and> b < length ls \<and> ls ! b = j" using k c a by auto
  next
    assume a: "start_to_record rs t = Some j \<and> b < length ls \<and> ls ! b = j"
    then show "starts t = Some b \<and> ls ! b = j"
      using leader_less [OF ok, of b] less by (auto simp: st start_to_record_iff)
  qed
qed

section \<open>The edges\<close>

lemma set_sort_dedup [simp]: "set (sort_dedup xs) = set xs"
  by (simp add: sort_dedup_def)

lemma add_predecessors_set:
  "add_predecessors b ss preds = Some preds' \<Longrightarrow> length preds' = length preds \<and> set ss \<subseteq> {..<length preds} \<and>
    (\<forall>k < length preds. set (preds' ! k) = set (preds ! k) \<union> (if k \<in> set ss then {b} else {}))"
proof (induction ss arbitrary: preds)
  case (Cons s ss)
  then obtain mid where mid: "add_predecessor b s preds = Some mid" "add_predecessors b ss mid = Some preds'"
    by (auto simp: bind_eq_Some_conv)
  then have m: "s < length preds" "mid = preds[s := preds ! s @ [b]]" by (auto simp: add_predecessor_def split: if_splits)
  then show ?case using Cons.IH [OF mid(2)] by (auto simp: nth_list_update)
qed simp

lemma build_edges_loop_sets:
  assumes "build_edges_loop rs starts n bs succs preds = Some (succs', preds')" "distinct (map bb_id bs)"
  shows "length succs' = length succs \<and> length preds' = length preds \<and>
    (\<forall>b \<in> set bs. \<exists>ss. block_successors rs b starts n = Some ss \<and> bb_id b < length succs \<and> succs' ! bb_id b = sort_dedup ss) \<and>
    (\<forall>k. k \<notin> bb_id ` set bs \<longrightarrow> succs' ! k = succs ! k) \<and>
    (\<forall>k < length preds. set (preds' ! k) = set (preds ! k) \<union> {bb_id b |b. b \<in> set bs \<and> k \<in> set (succs' ! bb_id b)})"
  using assms
proof (induction bs arbitrary: succs preds)
  case (Cons b bs)
  then obtain ss mid where ss: "block_successors rs b starts n = Some ss" and mid: "add_predecessors (bb_id b) (sort_dedup ss) preds = Some mid"
    and b: "bb_id b < length succs" and rest: "build_edges_loop rs starts n bs (succs[bb_id b := sort_dedup ss]) mid = Some (succs', preds')"
    by (auto simp: bind_eq_Some_conv split: if_splits)
  have d: "distinct (map bb_id bs)" "bb_id b \<notin> bb_id ` set bs" using Cons.prems(2) by auto
  note m = add_predecessors_set [OF mid]
  note IH = Cons.IH [OF rest d(1)]
  have own: "succs' ! bb_id b = sort_dedup ss" using IH d(2) b by auto
  have "set (preds' ! k) = set (preds ! k) \<union> {bb_id c |c. c \<in> set (b # bs) \<and> k \<in> set (succs' ! bb_id c)}" if "k < length preds" for k
  proof -
    have "set (preds' ! k) = set (mid ! k) \<union> {bb_id c |c. c \<in> set bs \<and> k \<in> set (succs' ! bb_id c)}" using IH m that by auto
    also have "set (mid ! k) = set (preds ! k) \<union> (if k \<in> set ss then {bb_id b} else {})" using m that by auto
    finally show ?thesis using own by auto
  qed
  with own ss b m IH show ?case by (auto simp: nth_list_update)
qed simp

lemma add_predecessors_returns: "set ss \<subseteq> {..<length preds} \<Longrightarrow> \<exists>preds'. add_predecessors b ss preds = Some preds'"
  by (induction ss arbitrary: preds) (auto simp: add_predecessor_def)

lemma build_edges_loop_returns:
  assumes "\<And>b. b \<in> set bs \<Longrightarrow> \<exists>ss. block_successors rs b starts n = Some ss \<and> set ss \<subseteq> {..<length preds} \<and> bb_id b < length succs"
  shows "\<exists>r. build_edges_loop rs starts n bs succs preds = Some r"
  using assms
proof (induction bs arbitrary: succs preds)
  case (Cons b bs)
  obtain ss where ss: "block_successors rs b starts n = Some ss" "set ss \<subseteq> {..<length preds}" "bb_id b < length succs" using Cons.prems [of b] by auto
  obtain mid where mid: "add_predecessors (bb_id b) (sort_dedup ss) preds = Some mid" using add_predecessors_returns [of "sort_dedup ss" preds "bb_id b"] ss(2) by auto
  have "length mid = length preds" using add_predecessors_set [OF mid] by simp
  then have "\<exists>r. build_edges_loop rs starts n bs (succs[bb_id b := sort_dedup ss]) mid = Some r" using Cons.prems by (intro Cons.IH) auto
  then show ?case using ss mid by simp
qed simp

lemma distinct_remdups_adj_sorted: "sorted xs \<Longrightarrow> distinct (remdups_adj xs)" for xs :: "nat list"
  by (induction xs rule: remdups_adj.induct) auto

lemma sort_dedup_less: "sorted_wrt (<) (sort_dedup xs)"
  by (simp add: sort_dedup_def strict_sorted_iff distinct_remdups_adj_sorted)

section \<open>The flow of control\<close>

text \<open>From where control may pass to where: to the next instruction, unless the instruction always jumps
  or returns, and to the instruction at a jump address.\<close>

definition falls_through :: "vm_op \<Rightarrow> bool" where
  "falls_through op \<longleftrightarrow> op \<notin> {Op_br, Op_else, Op_return, Op_br_table, Special_function_return}"

definition flows :: "decoded_instr list \<Rightarrow> nat \<Rightarrow> nat \<Rightarrow> bool" where
  "flows rs i j \<longleftrightarrow> i < length rs \<and> j < length rs \<and>
     (falls_through (di_op (rs ! i)) \<and> j = i + 1 \<or> (\<exists>ts. control_targets (rs ! i) = Some ts \<and> di_old_start (rs ! j) \<in> set ts))"

definition partitions :: "basic_block list \<Rightarrow> nat \<Rightarrow> bool" where
  "partitions bs n \<longleftrightarrow>
     (\<forall>i < n. \<exists>!b. b < length bs \<and> bb_start (bs ! b) \<le> i \<and> i < bb_end (bs ! b)) \<and>
     (\<forall>b < length bs. bb_id (bs ! b) = b \<and> bb_start (bs ! b) < bb_end (bs ! b) \<and> bb_end (bs ! b) \<le> n)"

definition straight_line :: "decoded_instr list \<Rightarrow> basic_block \<Rightarrow> bool" where
  "straight_line rs b \<longleftrightarrow> (\<forall>i j. bb_start b \<le> i \<and> i + 1 < bb_end b \<longrightarrow> (flows rs i j \<longleftrightarrow> j = i + 1))"

definition edges_are_flow :: "decoded_instr list \<Rightarrow> basic_block list \<Rightarrow> nat list list \<Rightarrow> nat list list \<Rightarrow> bool" where
  "edges_are_flow rs bs succs preds \<longleftrightarrow>
     length succs = length bs \<and> length preds = length bs \<and>
     (\<forall>b < length bs. \<forall>j. flows rs (bb_end (bs ! b) - 1) j \<longrightarrow> (\<exists>c < length bs. bb_start (bs ! c) = j)) \<and>
     (\<forall>b < length bs. \<forall>c < length bs. (c \<in> set (succs ! b) \<longleftrightarrow> flows rs (bb_end (bs ! b) - 1) (bb_start (bs ! c))) \<and>
        (b \<in> set (preds ! c) \<longleftrightarrow> c \<in> set (succs ! b))) \<and>
     (\<forall>b < length bs. sorted_wrt (<) (succs ! b) \<and> sorted_wrt (<) (preds ! b) \<and>
        set (succs ! b) \<subseteq> {..<length bs} \<and> set (preds ! b) \<subseteq> {..<length bs})"

lemma control_targets_none: "\<not> ends_basic_block r \<Longrightarrow> control_targets r = Some [] \<and> falls_through (di_op r)"
  by (auto simp: ends_basic_block_def control_targets_def falls_through_def)

lemma start_to_record_distinct:
  assumes "distinct (map di_old_start rs)"
  shows "start_to_record rs t = Some j \<longleftrightarrow> j < length rs \<and> di_old_start (rs ! j) = t"
  using assms by (auto simp: start_to_record_iff distinct_conv_nth)

lemma block_successors_set:
  assumes "bb_start b < bb_end b" "bb_end b \<le> length rs" "control_targets (rs ! (bb_end b - 1)) = Some ts"
  shows "\<exists>ss. block_successors rs b starts n = Some ss \<and>
    set ss = {c. \<exists>t \<in> set ts. starts t = Some c} \<union> {c. falls_through (di_op (rs ! (bb_end b - 1))) \<and> c = bb_id b + 1 \<and> c < n}"
proof -
  have mf: "set (List.map_filter starts ts) = {c. \<exists>t \<in> set ts. starts t = Some c}" by (force simp: List.map_filter_def)
  have last: "get_idx rs (bb_end b - 1) = Some (rs ! (bb_end b - 1))" using assms(1,2) by (auto simp: get_idx_def)
  show ?thesis
    using assms(1,3) mf unfolding block_successors_def last
    by (cases "di_op (rs ! (bb_end b - 1))") (auto simp: target_block_ids_def falls_through_def control_targets_def)
qed

text \<open>The blocks of a body.\<close>

lemma built_block:
  assumes "blocks_built rs tss ls bs starts" "b < length ls"
  shows "length bs = length ls" "bs ! b = \<lparr>bb_id = b, bb_start = ls ! b, bb_end = next_leader ls (length rs) b\<rparr>"
  using assms by (auto simp: blocks_built_def block_of_leaders_def next_leader_def get_idx_def)

lemma built_ok: "blocks_built rs tss ls bs starts \<Longrightarrow> leaders_ok ls (length rs) \<and> length bs = length ls"
  unfolding blocks_built_def by auto

lemma built_targets:
  assumes "blocks_built rs tss ls bs starts" "i < length rs"
  obtains ts where "control_targets (rs ! i) = Some ts"
proof -
  have "map control_targets rs = map Some tss" using assms(1) unfolding blocks_built_def by (auto dest: those_SomeD)
  then have "\<exists>ts. control_targets (rs ! i) = Some ts" using assms(2) by (metis length_map nth_map)
  then show thesis using that by blast
qed

lemma built_partitions: "blocks_built rs tss ls bs starts \<Longrightarrow> partitions bs (length rs)"
  using built_ok [of rs tss ls bs starts] block_of_index [of ls "length rs"] leader_next [of ls "length rs"]
  by (auto simp: partitions_def built_block(2) cong: conj_cong)

lemma built_inside:
  assumes built: "blocks_built rs tss ls bs starts" and b: "b < length ls" and i: "ls ! b \<le> i" "i + 1 < next_leader ls (length rs) b"
  shows "i + 1 < length rs" "\<not> ends_basic_block (rs ! i)"
proof -
  note ok = conjunct1 [OF built_ok [OF built]]
  show len: "i + 1 < length rs" using i leader_next [OF ok b] by linarith
  have "i + 1 \<notin> set ls" using leader_not_inside [OF ok b, of "i + 1"] i by auto
  then show "\<not> ends_basic_block (rs ! i)" using leaders_contain(1) [OF built, of i] len by auto
qed

lemma built_straight_line:
  assumes built: "blocks_built rs tss ls bs starts" and b: "b < length bs"
  shows "straight_line rs (bs ! b)"
proof -
  have bl: "b < length ls" using built_ok [OF built] b by simp
  have "flows rs i j \<longleftrightarrow> j = i + 1" if i: "ls ! b \<le> i" "i + 1 < next_leader ls (length rs) b" for i j
    using control_targets_none built_inside [OF built bl i] by (auto simp: flows_def)
  then show ?thesis by (simp add: straight_line_def built_block(2) [OF built bl])
qed

text \<open>The successors of a block are the blocks its last instruction flows to.\<close>

lemma built_successors:
  assumes built: "blocks_built rs tss ls bs starts" and d: "distinct (map di_old_start rs)" and b: "b < length bs"
  shows "\<exists>ss. block_successors rs (bs ! b) starts (length bs) = Some ss \<and> set ss \<subseteq> {..<length bs} \<and>
    (\<forall>c < length bs. c \<in> set ss \<longleftrightarrow> flows rs (bb_end (bs ! b) - 1) (bb_start (bs ! c)))"
proof -
  let ?e = "next_leader ls (length rs) b"
  note ok = conjunct1 [OF built_ok [OF built]]
  have len: "length bs = length ls" and bl: "b < length ls" using built_ok [OF built] b by auto
  note e = leader_next [OF ok bl]
  then have last: "?e - 1 < length rs" "Suc (?e - 1) = ?e" by linarith+
  obtain ts where ts: "control_targets (rs ! (?e - 1)) = Some ts" using built_targets [OF built last(1)] .
  obtain ss where ss: "block_successors rs (bs ! b) starts (length bs) = Some ss"
    and set: "set ss = {c. \<exists>t \<in> set ts. starts t = Some c} \<union> {c. falls_through (di_op (rs ! (?e - 1))) \<and> c = b + 1 \<and> c < length bs}"
    using block_successors_set [of "bs ! b" rs ts starts "length bs"] e ts by (auto simp: built_block(2) [OF built bl])
  have tgt: "starts t = Some c \<longleftrightarrow> c < length ls \<and> di_old_start (rs ! (ls ! c)) = t" if "t \<in> set ts" for t c
    using target_block [OF built last(1) ts that, of c "ls ! c"] start_to_record_distinct [OF d, of t "ls ! c"] ok
    by (auto simp: leaders_ok_def target_block [OF built last(1) ts that])
  have fall: "c = b + 1 \<longleftrightarrow> ls ! c = ?e" if "c < length ls" for c
  proof
    assume "ls ! c = ?e"
    moreover have "ls ! c < length rs" using ok that by (simp add: leaders_ok_def)
    ultimately have "b + 1 < length ls" "ls ! (b + 1) = ls ! c" by (auto simp: next_leader_def split: if_splits)
    then show "c = b + 1" using leader_less [OF ok, of c "b + 1"] leader_less [OF ok, of "b + 1" c] that by (cases c "b + 1" rule: linorder_cases) auto
  qed (use that in \<open>simp add: next_leader_def\<close>)
  have "c \<in> set ss \<longleftrightarrow> flows rs (?e - 1) (ls ! c)" if "c < length ls" for c
  proof -
    have "ls ! c < length rs" using ok that by (simp add: leaders_ok_def)
    then show ?thesis using tgt fall [OF that] that ts last len by (auto simp: set flows_def)
  qed
  moreover have "set ss \<subseteq> {..<length bs}" using tgt len by (auto simp: set)
  ultimately show ?thesis using ss len bl by (auto simp: built_block(2) [OF built])
qed

lemma flow_to_leader:
  assumes built: "blocks_built rs tss ls bs starts" and d: "distinct (map di_old_start rs)"
    and b: "b < length bs" and flow: "flows rs (bb_end (bs ! b) - 1) j"
  shows "\<exists>c < length bs. bb_start (bs ! c) = j"
proof -
  let ?e = "next_leader ls (length rs) b"
  note ok = conjunct1 [OF built_ok [OF built]]
  have len: "length bs = length ls" and bl: "b < length ls" using built_ok [OF built] b by auto
  have i: "?e - 1 < length rs" "Suc (?e - 1) = ?e" using leader_next [OF ok bl] by linarith+
  consider "j = ?e" "?e < length rs"
    | ts where "control_targets (rs ! (?e - 1)) = Some ts" "di_old_start (rs ! j) \<in> set ts" "j < length rs"
    using flow i by (auto simp: flows_def built_block(2) [OF built bl])
  then have "j \<in> set ls"
  proof cases
    case 1
    then show ?thesis by (auto simp: next_leader_def split: if_splits)
  next
    case 2
    then have "start_to_record rs (di_old_start (rs ! j)) = Some j" by (simp add: start_to_record_distinct [OF d])
    then show ?thesis using leaders_contain(2) [OF built i(1) 2(1,2)] by blast
  qed
  then show ?thesis using leader_starts_block [OF ok] len by (metis built_block(2) [OF built] basic_block.select_convs(2))
qed

lemma built_edges:
  assumes built: "blocks_built rs tss ls bs starts" and d: "distinct (map di_old_start rs)"
  shows "\<exists>succs preds. build_edges rs bs starts = Some (succs, preds) \<and> edges_are_flow rs bs succs preds"
proof -
  have ids: "bb_id (bs ! b) = b" if "b < length bs" for b using built_partitions [OF built] that by (auto simp: partitions_def)
  then have map_ids: "map bb_id bs = [0..<length bs]" by (intro nth_equalityI) auto
  then have dist: "distinct (map bb_id bs)" by simp
  have "\<exists>r. build_edges_loop rs starts (length bs) bs (replicate (length bs) []) (replicate (length bs) []) = Some r"
    using built_successors [OF built d] ids by (intro build_edges_loop_returns) (fastforce simp: in_set_conv_nth)
  then obtain succs preds where loop:
    "build_edges_loop rs starts (length bs) bs (replicate (length bs) []) (replicate (length bs) []) = Some (succs, preds)" by auto
  note sets = build_edges_loop_sets [OF loop dist]
  have lens: "length succs = length bs" "length preds = length bs" using sets by auto
  have succ: "\<exists>ss. block_successors rs (bs ! b) starts (length bs) = Some ss \<and> succs ! b = sort_dedup ss" if "b < length bs" for b
    using sets ids [OF that] that by (metis nth_mem)
  have edge: "set (succs ! b) \<subseteq> {..<length bs} \<and> sorted_wrt (<) (succs ! b) \<and>
      (\<forall>c < length bs. c \<in> set (succs ! b) \<longleftrightarrow> flows rs (bb_end (bs ! b) - 1) (bb_start (bs ! c)))" if "b < length bs" for b
    using succ [OF that] built_successors [OF built d that] sort_dedup_less by auto
  have pred: "set (preds ! c) = {b. b < length bs \<and> c \<in> set (succs ! b)}" if "c < length bs" for c
  proof -
    have "set (preds ! c) = {bb_id b |b. b \<in> set bs \<and> c \<in> set (succs ! bb_id b)}" using sets that by simp
    then show ?thesis using ids by (auto simp: in_set_conv_nth) metis
  qed
  have tgt: "\<exists>c < length bs. bb_start (bs ! c) = j" if "b < length bs" "flows rs (bb_end (bs ! b) - 1) j" for b j
    by (rule flow_to_leader [OF built d that])
  have "edges_are_flow rs bs succs (map sort_dedup preds)"
    using edge pred lens tgt sort_dedup_less unfolding edges_are_flow_def by auto
  then show ?thesis using loop by (simp add: build_edges_def)
qed

section \<open>The graph of a body\<close>

lemma start_to_record_less: "start_to_record rs t = Some j \<Longrightarrow> j < length rs"
  unfolding start_to_record_iff by (rule conjunct1)

lemma leaders_of_less:
  assumes "rs \<noteq> []" "length tss = length rs"
  shows "\<forall>l \<in> set (leaders_of rs (start_to_record rs) tss). l < length rs"
proof -
  have "idx < length rs" if "(idx, r, ts) \<in> set (enumerate 0 (zip rs tss))" for idx r ts
    using that assms(2) by (auto simp: in_set_enumerate_eq)
  moreover have "j < length rs" if "j \<in> set (List.map_filter (start_to_record rs) ts)" for j ts
    using that by (auto simp: List.map_filter_def dest: start_to_record_less)
  ultimately show ?thesis using assms(1) by (auto simp: leaders_of_def split: if_splits)
qed

lemma build_blocks_returns:
  assumes "rs \<noteq> []" "\<forall>r \<in> set rs. control_targets r \<noteq> None"
  shows "\<exists>bs starts. build_blocks rs (start_to_record rs) = Some (bs, starts)"
proof -
  have "map control_targets rs = map Some (map (the \<circ> control_targets) rs)" using assms(2) by auto
  then have "those (map control_targets rs) = Some (map (the \<circ> control_targets) rs)" by (simp only: those_map_Some)
  then show ?thesis using leaders_of_less [OF assms(1), of "map (the \<circ> control_targets) rs"] assms(1)
    by (simp add: build_blocks_def Let_def)
qed

lemma decoded_starts: "those (map (decode_record instrs) meta) = Some rs \<Longrightarrow> map di_old_start rs = map im_start meta"
  by (induction meta arbitrary: rs) (auto simp: decode_record_def split: option.splits if_splits)

lemma program_built:
  assumes "those (map (decode_record instrs) meta) = Some rs" "\<forall>r \<in> set rs. control_targets r \<noteq> None" "distinct (map im_start meta)" "rs \<noteq> []"
  obtains bp tss ls where "build_program instrs meta = Some (Some bp)" "bp_records bp = rs"
    "blocks_built rs tss ls (bp_blocks bp) (bp_old_start_to_block bp)" "edges_are_flow rs (bp_blocks bp) (bp_successors bp) (bp_predecessors bp)"
proof -
  have d: "distinct (map di_old_start rs)" using decoded_starts [OF assms(1)] assms(3) by simp
  obtain bs starts where bs: "build_blocks rs (start_to_record rs) = Some (bs, starts)"
    using build_blocks_returns [OF assms(4,2)] by blast
  obtain tss ls where built: "blocks_built rs tss ls bs starts" using build_blocksD [OF bs assms(4)] .
  obtain succs preds where "build_edges rs bs starts = Some (succs, preds)" "edges_are_flow rs bs succs preds"
    using built_edges [OF built d] by blast
  then show ?thesis using assms(1) bs built by (intro that) (auto simp: build_program_def)
qed

text \<open>C7: the control flow graph the optimizer works on is right: whenever the jump operands are there,
  building it does not fail; its blocks cut the body into consecutive stretches, each instruction lies in
  exactly one, inside a block control passes only to the next instruction, and one block is listed as a
  successor of another, and that one as its predecessor, exactly when control can pass from the
  last instruction of the one to the first of the other.\<close>

theorem control_flow_graph_correct:
  assumes "those (map (decode_record instrs) meta) = Some rs" "\<forall>r \<in> set rs. control_targets r \<noteq> None" "distinct (map im_start meta)"
  shows "\<exists>bp. build_program instrs meta = Some (Some bp) \<and> bp_records bp = rs \<and> partitions (bp_blocks bp) (length rs) \<and>
    (\<forall>b \<in> set (bp_blocks bp). straight_line rs b) \<and> edges_are_flow rs (bp_blocks bp) (bp_successors bp) (bp_predecessors bp)"
proof (cases "rs = []")
  case True
  then show ?thesis using assms(1)
    by (simp add: build_program_def build_blocks_def build_edges_def partitions_def edges_are_flow_def)
next
  case False
  from program_built [OF assms False] obtain bp tss ls where bp: "build_program instrs meta = Some (Some bp)" "bp_records bp = rs"
    and built: "blocks_built rs tss ls (bp_blocks bp) (bp_old_start_to_block bp)"
    and edges: "edges_are_flow rs (bp_blocks bp) (bp_successors bp) (bp_predecessors bp)" .
  then show ?thesis using built_partitions [OF built] built_straight_line [OF built] by (auto simp: in_set_conv_nth)
qed

text \<open>A block whose end is the target of a conditional branch: four blocks.\<close>

definition op_slot :: "vm_op \<Rightarrow> instr_slot" where
  "op_slot op = \<lparr>slot_op = op, slot_operand = 0\<rparr>"

definition operand_slot :: "u64 \<Rightarrow> instr_slot" where
  "operand_slot w = \<lparr>slot_op = Op_other 0, slot_operand = w\<rparr>"

definition meta_at :: "nat \<Rightarrow> nat \<Rightarrow> instruction_meta" where
  "meta_at s l = \<lparr>im_start = s, im_len = l, im_stack_before = \<lparr>ss_reachable = True, ss_types = []\<rparr>,
     im_stack_after = \<lparr>ss_reachable = True, ss_types = []\<rparr>,
     im_preserved_prefix_len = 0, im_fresh_result_count = 0\<rparr>"

definition branch_body :: "instr_slot list" where
  "branch_body = [op_slot (Op_other 7), op_slot Op_br_if, operand_slot 4, op_slot (Op_other 8), op_slot Op_end, op_slot Special_function_return]"

definition branch_meta :: "instruction_meta list" where
  "branch_meta = [meta_at 0 1, meta_at 1 2, meta_at 3 1, meta_at 4 1, meta_at 5 1]"

lemma branch_graph:
  "map_option (map_option (\<lambda>bp. (map bb_start (bp_blocks bp), bp_successors bp, bp_predecessors bp))) (build_program branch_body branch_meta) =
   Some (Some ([0, 2, 3, 4], [[1, 2], [2], [3], []], [[], [0], [0, 1], [2]]))"
  by code_simp

lemma branch_records_targets:
  "case those (map (decode_record branch_body) branch_meta) of None \<Rightarrow> False
   | Some rs \<Rightarrow> map control_targets rs = [Some [], Some [4], Some [], Some [], Some []]"
  by code_simp

theorem control_flow_graph_correct_witness:
  "\<exists>bp. build_program branch_body branch_meta = Some (Some bp) \<and> partitions (bp_blocks bp) 5 \<and>
    (\<forall>b \<in> set (bp_blocks bp). straight_line (bp_records bp) b) \<and>
    edges_are_flow (bp_records bp) (bp_blocks bp) (bp_successors bp) (bp_predecessors bp) \<and>
    bp_successors bp = [[1, 2], [2], [3], []]"
proof -
  obtain rs where rs: "those (map (decode_record branch_body) branch_meta) = Some rs"
    "map control_targets rs = [Some [], Some [4], Some [], Some [], Some []]"
    using branch_records_targets by (auto split: option.splits)
  have len: "length rs = 5" using arg_cong [OF rs(2), of length] by simp
  have "\<forall>x \<in> set (map control_targets rs). x \<noteq> None" unfolding rs(2) by simp
  then have t: "\<forall>r \<in> set rs. control_targets r \<noteq> None" by simp
  have d: "distinct (map im_start branch_meta)" by (simp add: branch_meta_def meta_at_def)
  show ?thesis using control_flow_graph_correct [OF rs(1) t d] branch_graph len by auto
qed

end
