(* ===== verification/Optimizer_Ir.thy ===== *)
theory Optimizer_Ir
  imports Optimizer_Cfg Fused_Sequences
begin

text \<open>
  The intermediate representation of the optimizer, \<open>pipeline/ir.rs\<close>, and those passes of
  \<open>pipeline/transform.rs\<close> that rewrite the instructions of one block: folding of constant operators,
  folding of constant branches and coalescing of a \<open>local.set\<close> with the \<open>local.get\<close> after it.  The
  bytes of an operand slot are a 64-bit word; of a slot that holds 32 bits the upper half is zero.
  The theory gives a block a meaning through the handlers of the interpreter and shows that every
  one of these passes keeps it.
\<close>

section \<open>The representation\<close>

datatype lowered_operand = Raw u64 | ConstPoolRef u32 | JumpTarget nat | CallRecipeRef u32 u32

datatype storage_class = BlockParam | LocalSlot | Immediate | Effect

record block_param =
  pm_id :: nat
  pm_index :: nat
  pm_ty :: valtype
  pm_storage :: storage_class

record canon_inst =
  cn_id :: nat
  cn_op :: vm_op
  cn_operands :: "lowered_operand list"
  cn_stack_before :: "valtype list"
  cn_stack_after :: "valtype list"
  cn_preserved_prefix_len :: nat
  cn_fresh_result_count :: nat
  cn_effect :: nat

record canon_block =
  cb_id :: nat
  cb_params :: "block_param list"
  cb_insts :: "canon_inst list"
  cb_predecessors :: "nat list"
  cb_successors :: "nat list"

record canon_func =
  cf_funcidx :: u32
  cf_functype :: "valtype list \<times> valtype list"
  cf_locals_size :: u32
  cf_entry_block :: nat
  cf_blocks :: "canon_block list"

definition is_direct_call_op :: "vm_op \<Rightarrow> bool" where
  "is_direct_call_op op \<longleftrightarrow> op \<in> {Op_call, Op_call_import, Op_return_call, Op_return_call_import}"

text \<open>The operand with the index is there, so its address can be read.\<close>

definition control_target_operand :: "decoded_instr \<Rightarrow> nat \<Rightarrow> nat option" where
  "control_target_operand r idx =
     (if di_op r \<in> {Op_if, Op_else, Op_br, Op_br_if, Op_return} \<and> idx = 0 then operand_jump_addr r 0
      else if di_op r = Op_br_table \<and> idx > 0 then operand_jump_addr r idx
      else None)"

text \<open>A slot read as a reference to a call: the function and one more than the slot of its recipe.\<close>

definition slot_call_recipe :: "u64 \<Rightarrow> lowered_operand" where
  "slot_call_recipe w = CallRecipeRef (ucast w) (ucast (drop_bit 32 w))"

definition lower_operand :: "decoded_instr \<Rightarrow> nat \<Rightarrow> u64 \<Rightarrow> basic_block_program \<Rightarrow> lowered_operand" where
  "lower_operand r idx operand program =
     (if is_direct_call_op (di_op r) \<and> idx = 0 then slot_call_recipe operand
      else case Option.bind (control_target_operand r idx) (bp_old_start_to_block program) of
        Some block_id \<Rightarrow> JumpTarget block_id
      | None \<Rightarrow> Raw operand)"

definition lower_operands :: "decoded_instr \<Rightarrow> basic_block_program \<Rightarrow> lowered_operand list" where
  "lower_operands r program = map (\<lambda>(idx, operand). lower_operand r idx operand program) (enumerate 0 (di_operands r))"

definition lower_record :: "basic_block_program \<Rightarrow> nat \<Rightarrow> decoded_instr \<Rightarrow> canon_inst" where
  "lower_record program n r =
     \<lparr>cn_id = n, cn_op = di_op r, cn_operands = lower_operands r program,
      cn_stack_before = ss_types (di_stack_before r), cn_stack_after = ss_types (di_stack_after r),
      cn_preserved_prefix_len = di_preserved_prefix_len r, cn_fresh_result_count = di_fresh_result_count r, cn_effect = n\<rparr>"

text \<open>The numbers of values go on from block to block, and so do those of instructions and effects,
  which run in step.  \<open>None\<close>: an index out of range.\<close>

fun lower_blocks :: "basic_block_program \<Rightarrow> nat \<Rightarrow> nat \<Rightarrow> basic_block list \<Rightarrow> canon_block list option" where
  "lower_blocks program next_value next_inst [] = Some []"
| "lower_blocks program next_value next_inst (b # bs) =
     (if bb_start b < length (bp_records program) \<and> bb_start b \<le> bb_end b \<and> bb_end b \<le> length (bp_records program) \<and>
         bb_id b < length (bp_predecessors program) \<and> bb_id b < length (bp_successors program)
      then let types = ss_types (di_stack_before (bp_records program ! bb_start b));
               records = take (bb_end b - bb_start b) (drop (bb_start b) (bp_records program));
               block = \<lparr>cb_id = bb_id b,
                 cb_params = map (\<lambda>(i, ty). \<lparr>pm_id = next_value + i, pm_index = i, pm_ty = ty, pm_storage = BlockParam\<rparr>) (enumerate 0 types),
                 cb_insts = map (\<lambda>(i, r). lower_record program i r) (enumerate next_inst records),
                 cb_predecessors = bp_predecessors program ! bb_id b, cb_successors = bp_successors program ! bb_id b\<rparr>
           in map_option ((#) block) (lower_blocks program (next_value + length types) (next_inst + length records) bs)
      else None)"

definition from_program :: "u32 \<Rightarrow> valtype list \<times> valtype list \<Rightarrow> u32 \<Rightarrow> basic_block_program \<Rightarrow> canon_func option" where
  "from_program funcidx functype locals_size program =
     map_option (\<lambda>blocks. \<lparr>cf_funcidx = funcidx, cf_functype = functype, cf_locals_size = locals_size, cf_entry_block = 0, cf_blocks = blocks\<rparr>)
       (lower_blocks program 0 0 (bp_blocks program))"

definition canon_verify :: "canon_func \<Rightarrow> bool" where
  "canon_verify func \<longleftrightarrow>
     cf_blocks func \<noteq> [] \<and>
     (\<forall>(expected, block) \<in> set (enumerate 0 (cf_blocks func)).
        cb_id block = expected \<and> (\<forall>succ \<in> set (cb_successors block). succ < length (cf_blocks func)))"

section \<open>Folding of constant operators\<close>

definition first_operand :: "canon_inst \<Rightarrow> lowered_operand option" where
  "first_operand inst = get_idx (cn_operands inst) 0"

definition raw_i32 :: "lowered_operand option \<Rightarrow> u32 option" where
  "raw_i32 operand = (case operand of Some (Raw w) \<Rightarrow> Some (ucast w) | _ \<Rightarrow> None)"

definition raw_i64 :: "lowered_operand option \<Rightarrow> u64 option" where
  "raw_i64 operand = (case operand of Some (Raw w) \<Rightarrow> Some w | _ \<Rightarrow> None)"

definition raw_i32_operand :: "u32 \<Rightarrow> lowered_operand" where
  "raw_i32_operand v = Raw (ucast v)"

definition raw_i64_operand :: "u64 \<Rightarrow> lowered_operand" where
  "raw_i64_operand v = Raw v"

definition jump_target :: "lowered_operand option \<Rightarrow> nat option" where
  "jump_target operand = (case operand of Some (JumpTarget t) \<Rightarrow> Some t | _ \<Rightarrow> None)"

definition folded_const_inst :: "canon_inst \<Rightarrow> canon_inst \<Rightarrow> vm_op \<Rightarrow> lowered_operand \<Rightarrow> canon_inst" where
  "folded_const_inst start_inst end_inst op operand =
     \<lparr>cn_id = cn_id start_inst, cn_op = op, cn_operands = [operand], cn_stack_before = cn_stack_before start_inst,
      cn_stack_after = cn_stack_after end_inst, cn_preserved_prefix_len = cn_preserved_prefix_len start_inst,
      cn_fresh_result_count = cn_fresh_result_count end_inst, cn_effect = cn_effect end_inst\<rparr>"

definition eval_i32_const_op :: "vm_op \<Rightarrow> u32 \<Rightarrow> u32 \<Rightarrow> u32 option" where
  "eval_i32_const_op op lhs rhs =
     (case op of
        Op_i32_bin b \<Rightarrow>
          (case b of
             BAdd \<Rightarrow> Some (lhs + rhs) | BSub \<Rightarrow> Some (lhs - rhs) | BMul \<Rightarrow> Some (lhs * rhs)
           | BAnd \<Rightarrow> Some (lhs AND rhs) | BOr \<Rightarrow> Some (lhs OR rhs) | BXor \<Rightarrow> Some (lhs XOR rhs)
           | BShl \<Rightarrow> Some (push_bit (unat rhs mod 32) lhs)
           | BShrS \<Rightarrow> Some (signed_drop_bit (unat rhs mod 32) lhs)
           | BShrU \<Rightarrow> Some (drop_bit (unat rhs mod 32) lhs)
           | BRotl \<Rightarrow> Some (word_rotl (unat rhs) lhs) | BRotr \<Rightarrow> Some (word_rotr (unat rhs) lhs)
           | _ \<Rightarrow> None)
      | Op_i32_rel r \<Rightarrow>
          Some (of_bool (case r of
             REq \<Rightarrow> lhs = rhs | RNe \<Rightarrow> lhs \<noteq> rhs | RLtS \<Rightarrow> sint lhs < sint rhs | RLtU \<Rightarrow> lhs < rhs
           | RGtS \<Rightarrow> sint lhs > sint rhs | RGtU \<Rightarrow> lhs > rhs | RLeS \<Rightarrow> sint lhs \<le> sint rhs | RLeU \<Rightarrow> lhs \<le> rhs
           | RGeS \<Rightarrow> sint lhs \<ge> sint rhs | RGeU \<Rightarrow> lhs \<ge> rhs))
      | _ \<Rightarrow> None)"

definition eval_i64_binop :: "vm_op \<Rightarrow> u64 \<Rightarrow> u64 \<Rightarrow> u64 option" where
  "eval_i64_binop op lhs rhs =
     (case op of
        Op_i64_bin b \<Rightarrow>
          (case b of
             BAdd \<Rightarrow> Some (lhs + rhs) | BSub \<Rightarrow> Some (lhs - rhs) | BMul \<Rightarrow> Some (lhs * rhs)
           | BAnd \<Rightarrow> Some (lhs AND rhs) | BOr \<Rightarrow> Some (lhs OR rhs) | BXor \<Rightarrow> Some (lhs XOR rhs)
           | BShl \<Rightarrow> Some (push_bit (unat (ucast rhs :: u32) mod 64) lhs)
           | BShrS \<Rightarrow> Some (signed_drop_bit (unat (ucast rhs :: u32) mod 64) lhs)
           | BShrU \<Rightarrow> Some (drop_bit (unat (ucast rhs :: u32) mod 64) lhs)
           | BRotl \<Rightarrow> Some (word_rotl (unat (ucast rhs :: u32)) lhs) | BRotr \<Rightarrow> Some (word_rotr (unat (ucast rhs :: u32)) lhs)
           | _ \<Rightarrow> None)
      | _ \<Rightarrow> None)"

definition eval_i64_compare :: "vm_op \<Rightarrow> u64 \<Rightarrow> u64 \<Rightarrow> bool option" where
  "eval_i64_compare op lhs rhs =
     (case op of
        Op_i64_rel r \<Rightarrow>
          Some (case r of
             REq \<Rightarrow> lhs = rhs | RNe \<Rightarrow> lhs \<noteq> rhs | RLtS \<Rightarrow> sint lhs < sint rhs | RLtU \<Rightarrow> lhs < rhs
           | RGtS \<Rightarrow> sint lhs > sint rhs | RGtU \<Rightarrow> lhs > rhs | RLeS \<Rightarrow> sint lhs \<le> sint rhs | RLeU \<Rightarrow> lhs \<le> rhs
           | RGeS \<Rightarrow> sint lhs \<ge> sint rhs | RGeU \<Rightarrow> lhs \<ge> rhs)
      | _ \<Rightarrow> None)"

text \<open>The windows look at the instructions from the cursor on and return how many of them they replace.\<close>

definition fold_i32_const_window :: "canon_inst list \<Rightarrow> (canon_inst \<times> nat) option" where
  "fold_i32_const_window insts =
     (case insts of
        a # b # rest \<Rightarrow>
          (if cn_op a = Op_i32_const \<and> cn_op b = Op_i32_eqz then
             map_option (\<lambda>v. (folded_const_inst a b Op_i32_const (raw_i32_operand (of_bool (v = 0))), 2)) (raw_i32 (first_operand a))
           else case rest of
             c # _ \<Rightarrow>
               (if cn_op a \<noteq> Op_i32_const \<or> cn_op b \<noteq> Op_i32_const then None
                else Option.bind (raw_i32 (first_operand a)) (\<lambda>lhs.
                  Option.bind (raw_i32 (first_operand b)) (\<lambda>rhs.
                  map_option (\<lambda>v. (folded_const_inst a c Op_i32_const (raw_i32_operand v), 3)) (eval_i32_const_op (cn_op c) lhs rhs))))
           | [] \<Rightarrow> None)
      | _ \<Rightarrow> None)"

definition fold_i64_const_window :: "canon_inst list \<Rightarrow> (canon_inst \<times> nat) option" where
  "fold_i64_const_window insts =
     (case insts of
        a # b # rest \<Rightarrow>
          (if cn_op a = Op_i64_const \<and> cn_op b = Op_i64_eqz then
             map_option (\<lambda>v. (folded_const_inst a b Op_i32_const (raw_i32_operand (of_bool (v = 0))), 2)) (raw_i64 (first_operand a))
           else case rest of
             c # _ \<Rightarrow>
               (if cn_op a \<noteq> Op_i64_const \<or> cn_op b \<noteq> Op_i64_const then None
                else Option.bind (raw_i64 (first_operand a)) (\<lambda>lhs.
                  Option.bind (raw_i64 (first_operand b)) (\<lambda>rhs.
                  case eval_i64_binop (cn_op c) lhs rhs of
                    Some v \<Rightarrow> Some (folded_const_inst a c Op_i64_const (raw_i64_operand v), 3)
                  | None \<Rightarrow> map_option (\<lambda>v. (folded_const_inst a c Op_i32_const (raw_i32_operand (of_bool v)), 3)) (eval_i64_compare (cn_op c) lhs rhs))))
           | [] \<Rightarrow> None)
      | _ \<Rightarrow> None)"

lemma window_consumes:
  "fold_i32_const_window insts = Some (inst, n) \<Longrightarrow> 0 < n" "fold_i64_const_window insts = Some (inst, n) \<Longrightarrow> 0 < n"
  by (auto simp: fold_i32_const_window_def fold_i64_const_window_def bind_eq_Some_conv split: list.splits if_splits option.splits)

function fold_const_loop :: "canon_inst list \<Rightarrow> canon_inst list \<times> nat" where
  "fold_const_loop [] = ([], 0)"
| "fold_const_loop (i # insts) =
     (case fold_i32_const_window (i # insts) of
        Some (inst, n) \<Rightarrow> (case fold_const_loop (drop n (i # insts)) of (rewritten, folded) \<Rightarrow> (inst # rewritten, folded + 1))
      | None \<Rightarrow>
          (case fold_i64_const_window (i # insts) of
             Some (inst, n) \<Rightarrow> (case fold_const_loop (drop n (i # insts)) of (rewritten, folded) \<Rightarrow> (inst # rewritten, folded + 1))
           | None \<Rightarrow> (case fold_const_loop insts of (rewritten, folded) \<Rightarrow> (i # rewritten, folded))))"
  by pat_completeness auto
termination
  by (relation "measure length") (auto dest: window_consumes)

definition fold_const_ops :: "canon_block \<Rightarrow> canon_block \<times> nat" where
  "fold_const_ops block = (case fold_const_loop (cb_insts block) of (rewritten, folded) \<Rightarrow> (block\<lparr>cb_insts := rewritten\<rparr>, folded))"

section \<open>Folding of constant branches\<close>

text \<open>The numbers of a new branch are \<open>usize::MAX\<close> until they are given anew.\<close>

definition make_br :: "nat \<Rightarrow> canon_inst" where
  "make_br target =
     \<lparr>cn_id = 2 ^ 64 - 1, cn_op = Op_br, cn_operands = [JumpTarget target], cn_stack_before = [], cn_stack_after = [],
      cn_preserved_prefix_len = 0, cn_fresh_result_count = 0, cn_effect = 2 ^ 64 - 1\<rparr>"

text \<open>The two conditions of the function, each on the last instructions of a block, the last one first.\<close>

definition fold_br_if :: "canon_inst list \<Rightarrow> canon_inst list option" where
  "fold_br_if insts =
     (case rev insts of
        j # c # rest \<Rightarrow>
          (if cn_op c = Op_i32_const \<and> cn_op j = Op_br_if then
             Option.bind (raw_i32 (first_operand c)) (\<lambda>condition.
             map_option (\<lambda>target. rev rest @ (if condition \<noteq> 0 then [make_br target] else [])) (jump_target (first_operand j)))
           else None)
      | _ \<Rightarrow> None)"

definition fold_eqz_br_if :: "canon_inst list \<Rightarrow> canon_inst list option" where
  "fold_eqz_br_if insts =
     (case rev insts of
        j # z # c # rest \<Rightarrow>
          (if cn_op c = Op_i32_const \<and> cn_op z = Op_i32_eqz \<and> cn_op j = Op_br_if then
             Option.bind (raw_i32 (first_operand c)) (\<lambda>condition.
             map_option (\<lambda>target. rev rest @ (if condition = 0 then [make_br target] else [])) (jump_target (first_operand j)))
           else None)
      | _ \<Rightarrow> None)"

definition fold_const_branches :: "canon_block \<Rightarrow> canon_block \<times> nat" where
  "fold_const_branches block =
     (case fold_br_if (cb_insts block) of
        Some insts \<Rightarrow> (block\<lparr>cb_insts := insts\<rparr>, 1)
      | None \<Rightarrow>
          (case fold_eqz_br_if (cb_insts block) of
             Some insts \<Rightarrow> (block\<lparr>cb_insts := insts\<rparr>, 1)
           | None \<Rightarrow> (block, 0)))"

section \<open>Coalescing of locals\<close>

definition same_operand :: "lowered_operand \<Rightarrow> lowered_operand \<Rightarrow> bool" where
  "same_operand lhs rhs =
     (case (lhs, rhs) of
        (Raw a, Raw b) \<Rightarrow> a = b
      | (JumpTarget a, JumpTarget b) \<Rightarrow> a = b
      | (ConstPoolRef a, ConstPoolRef b) \<Rightarrow> a = b
      | (CallRecipeRef f r, CallRecipeRef g s) \<Rightarrow> f = g \<and> r = s
      | _ \<Rightarrow> False)"

definition coalescible_pair :: "canon_inst \<Rightarrow> canon_inst \<Rightarrow> bool" where
  "coalescible_pair set_inst get_inst \<longleftrightarrow>
     (cn_op set_inst = Op_local_set4 \<and> cn_op get_inst = Op_local_get4 \<or>
      cn_op set_inst = Op_local_set8 \<and> cn_op get_inst = Op_local_get8 \<or>
      cn_op set_inst = Op_local_set16 \<and> cn_op get_inst = Op_local_get16) \<and>
     (case (first_operand set_inst, first_operand get_inst) of (Some lhs, Some rhs) \<Rightarrow> same_operand lhs rhs | _ \<Rightarrow> False)"

definition coalescible_pairs :: "canon_block \<Rightarrow> nat list" where
  "coalescible_pairs block =
     filter (\<lambda>cursor. coalescible_pair (cb_insts block ! cursor) (cb_insts block ! (cursor + 1))) [0..<length (cb_insts block) - 1]"

definition make_coalesced_tee :: "canon_inst \<Rightarrow> canon_inst \<Rightarrow> canon_inst option" where
  "make_coalesced_tee set_inst get_inst =
     map_option (\<lambda>tee_op. \<lparr>cn_id = cn_id set_inst, cn_op = tee_op, cn_operands = cn_operands set_inst,
         cn_stack_before = cn_stack_before set_inst, cn_stack_after = cn_stack_after get_inst,
         cn_preserved_prefix_len = cn_preserved_prefix_len set_inst, cn_fresh_result_count = cn_fresh_result_count get_inst,
         cn_effect = cn_effect get_inst\<rparr>)
       (if cn_op set_inst = Op_local_set4 \<and> cn_op get_inst = Op_local_get4 then Some Op_local_tee4
        else if cn_op set_inst = Op_local_set8 \<and> cn_op get_inst = Op_local_get8 then Some Op_local_tee8
        else if cn_op set_inst = Op_local_set16 \<and> cn_op get_inst = Op_local_get16 then Some Op_local_tee16
        else None)"

text \<open>\<open>None\<close>: the pair lies outside the block or is no pair, on which the source panics.\<close>

function coalesce_loop :: "nat set \<Rightarrow> canon_inst list \<Rightarrow> nat \<Rightarrow> (canon_inst list \<times> nat) option" where
  "coalesce_loop pair_starts insts cursor =
     (if cursor < length insts then
        if cursor \<in> pair_starts then
          Option.bind (get_idx insts (cursor + 1)) (\<lambda>get_inst.
          Option.bind (make_coalesced_tee (insts ! cursor) get_inst) (\<lambda>tee.
            map_option (\<lambda>(rewritten, n). (tee # rewritten, n + 1)) (coalesce_loop pair_starts insts (cursor + 2))))
        else map_option (\<lambda>(rewritten, n). (insts ! cursor # rewritten, n)) (coalesce_loop pair_starts insts (cursor + 1))
      else Some ([], 0))"
  by pat_completeness auto
termination
  by (relation "measure (\<lambda>(_, insts, cursor). length insts - cursor)") auto

declare coalesce_loop.simps [simp del]

definition coalesce_local_set_get :: "canon_block \<Rightarrow> nat list \<Rightarrow> (canon_block \<times> nat) option" where
  "coalesce_local_set_get block pair_cursors =
     (if pair_cursors = [] then Some (block, 0)
      else map_option (\<lambda>(rewritten, n). (block\<lparr>cb_insts := rewritten\<rparr>, n)) (coalesce_loop (set pair_cursors) (cb_insts block) 0))"

section \<open>Steps of bit-wise updates\<close>

text \<open>A step of a checksum: a word is shifted by one and, depending on a bit, combined with a constant.
  The handler of the fused instruction is \<open>i32_select_bit_step4_at\<close> in \<open>numeric.rs\<close>.\<close>

definition I32_SELECT_BIT_STEP_MASK_SHIFTED :: u32 where "I32_SELECT_BIT_STEP_MASK_SHIFTED = 1"
definition I32_SELECT_BIT_STEP_EQ_CONDITION :: u32 where "I32_SELECT_BIT_STEP_EQ_CONDITION = 2"
definition I32_SELECT_BIT_STEP_TEE_DST :: u32 where "I32_SELECT_BIT_STEP_TEE_DST = 4"

definition i32_select_bit_step4_at :: "nat \<Rightarrow> u64 list \<Rightarrow> stack \<Rightarrow> vm_stop + stack" where
  "i32_select_bit_step4_at base ops st =
     rbind (operand_addr 0 ops) (\<lambda>tmp_local.
     rbind (operand_u32 1 ops) (\<lambda>poly.
     rbind (operand_addr 2 ops) (\<lambda>source_local.
     rbind (operand_u32 3 ops) (\<lambda>source_shift.
     rbind (operand_addr 4 ops) (\<lambda>prev_local.
     rbind (operand_u32 5 ops) (\<lambda>flags.
     rbind (operand_addr 6 ops) (\<lambda>dst_local.
     rbind (pop_u32 st) (\<lambda>(state, st).
       let shifted = (if flags AND I32_SELECT_BIT_STEP_MASK_SHIFTED \<noteq> 0 then drop_bit 1 state AND 0x7fff else drop_bit 1 state) in
     rbind (local_set4_from_base_value base tmp_local shifted st) (\<lambda>st.
     rbind (local_u32_from_base base source_local st) (\<lambda>source_word.
     rbind (local_u32_from_base base prev_local st) (\<lambda>prev.
       let source = drop_bit (unat source_shift mod 32) source_word;
           xored = shifted XOR poly;
           selected = (if flags AND I32_SELECT_BIT_STEP_EQ_CONDITION \<noteq> 0 then (if prev AND 1 = source then shifted else xored)
                       else if (source XOR prev) AND 1 \<noteq> 0 then xored else shifted) in
     rbind (push_u32_fast selected st) (\<lambda>st.
       if flags AND I32_SELECT_BIT_STEP_TEE_DST \<noteq> 0 then local_set4_from_base_value base dst_local selected st else Inr st))))))))))))"

definition raw_local_get :: "canon_inst option \<Rightarrow> nat \<Rightarrow> lowered_operand option" where
  "raw_local_get inst n =
     Option.bind inst (\<lambda>inst.
       if n = 4 \<and> cn_op inst = Op_local_get4 \<or> n = 8 \<and> cn_op inst = Op_local_get8 \<or> n = 16 \<and> cn_op inst = Op_local_get16
       then first_operand inst else None)"

definition raw_local_tee :: "canon_inst option \<Rightarrow> nat \<Rightarrow> lowered_operand option" where
  "raw_local_tee inst n =
     Option.bind inst (\<lambda>inst.
       if n = 4 \<and> cn_op inst = Op_local_tee4 \<or> n = 8 \<and> cn_op inst = Op_local_tee8 \<or> n = 16 \<and> cn_op inst = Op_local_tee16
       then first_operand inst else None)"

definition is_i32_select_inst :: "canon_inst \<Rightarrow> bool" where
  "is_i32_select_inst inst \<longleftrightarrow> cn_op inst = Op_select \<or> cn_op inst = Op_select4"

definition same_raw_operand :: "lowered_operand \<Rightarrow> lowered_operand \<Rightarrow> bool" where
  "same_raw_operand lhs rhs = (case (lhs, rhs) of (Raw a, Raw b) \<Rightarrow> a = b | _ \<Rightarrow> False)"

definition raw_u32_operand :: "u32 \<Rightarrow> lowered_operand" where
  "raw_u32_operand v = Raw (ucast v)"

definition make_i32_select_bit_step_inst :: "canon_inst \<Rightarrow> canon_inst \<Rightarrow> lowered_operand list \<Rightarrow> canon_inst" where
  "make_i32_select_bit_step_inst start_inst end_inst operands =
     \<lparr>cn_id = cn_id start_inst, cn_op = Op_i32_select_bit_step4, cn_operands = operands, cn_stack_before = cn_stack_before start_inst,
      cn_stack_after = cn_stack_after end_inst, cn_preserved_prefix_len = cn_preserved_prefix_len start_inst,
      cn_fresh_result_count = cn_fresh_result_count end_inst, cn_effect = cn_effect end_inst\<rparr>"

definition match_i32_select_bit_step_consumer :: "canon_inst list \<Rightarrow> nat \<Rightarrow> u32 \<Rightarrow> lowered_operand \<times> u32 \<times> nat" where
  "match_i32_select_bit_step_consumer insts cursor flags =
     (case raw_local_tee (get_idx insts cursor) 4 of
        Some dst \<Rightarrow> (dst, flags OR I32_SELECT_BIT_STEP_TEE_DST, cursor)
      | None \<Rightarrow> (raw_u32_operand (- 1), flags, cursor - 1))"

text \<open>The optional shift of the source: \<open>None\<close> when there is one without an operand.\<close>

definition match_source_shift :: "canon_inst list \<Rightarrow> nat \<Rightarrow> (u32 \<times> nat) option" where
  "match_source_shift insts at =
     (case (get_idx insts at, get_idx insts (at + 1)) of
        (Some shift, Some shr) \<Rightarrow>
          (if cn_op shift = Op_i32_const \<and> cn_op shr = Op_i32_bin BShrU
           then map_option (\<lambda>v. (v, at + 2)) (raw_i32 (first_operand shift)) else Some (0, at))
      | _ \<Rightarrow> Some (0, at))"

definition match_i32_xor_lsb_condition :: "canon_inst list \<Rightarrow> nat \<Rightarrow> (lowered_operand \<times> u32 \<times> lowered_operand \<times> nat) option" where
  "match_i32_xor_lsb_condition insts cursor =
     Option.bind (raw_local_get (get_idx insts cursor) 4) (\<lambda>source.
     Option.bind (match_source_shift insts (cursor + 1)) (\<lambda>(source_shift, at).
     Option.bind (raw_local_get (get_idx insts at) 4) (\<lambda>prev.
     Option.bind (get_idx insts (at + 1)) (\<lambda>xor_inst.
     Option.bind (get_idx insts (at + 2)) (\<lambda>one.
     Option.bind (get_idx insts (at + 3)) (\<lambda>and_inst.
       if cn_op xor_inst \<noteq> Op_i32_bin BXor then None
       else Option.bind (raw_i32 (first_operand one)) (\<lambda>v.
         if v \<noteq> 1 \<or> cn_op and_inst \<noteq> Op_i32_bin BAnd then None
         else Some (source, source_shift, prev, at + 4 - cursor))))))))"

definition match_i32_select_bit_step_xor_condition ::
  "canon_inst list \<Rightarrow> nat \<Rightarrow> nat \<Rightarrow> lowered_operand \<Rightarrow> u32 \<Rightarrow> (canon_inst \<times> nat) option" where
  "match_i32_select_bit_step_xor_condition insts start cursor tmp_local flags =
     Option.bind (get_idx insts cursor) (\<lambda>poly.
     Option.bind (get_idx insts (cursor + 1)) (\<lambda>xor_inst.
     Option.bind (raw_local_get (get_idx insts (cursor + 2)) 4) (\<lambda>tmp_get.
       if cn_op xor_inst \<noteq> Op_i32_bin BXor \<or> \<not> same_raw_operand tmp_get tmp_local then None
       else
         Option.bind (match_i32_xor_lsb_condition insts (cursor + 3)) (\<lambda>(source_local, source_shift, prev_local, condition_consumed).
         Option.bind (get_idx insts (cursor + 3 + condition_consumed)) (\<lambda>select_inst.
           if \<not> is_i32_select_inst select_inst then None
           else case match_i32_select_bit_step_consumer insts (cursor + 3 + condition_consumed + 1) flags of
             (dst_local, flags, last_cursor) \<Rightarrow>
               Option.bind (first_operand poly) (\<lambda>poly_operand.
                 Some (make_i32_select_bit_step_inst (insts ! start) (insts ! last_cursor)
                     [tmp_local, poly_operand, source_local, raw_u32_operand source_shift, prev_local, raw_u32_operand flags, dst_local],
                   last_cursor + 1 - start)))))))"

definition match_i32_select_bit_step_eq_condition ::
  "canon_inst list \<Rightarrow> nat \<Rightarrow> nat \<Rightarrow> lowered_operand \<Rightarrow> u32 \<Rightarrow> (canon_inst \<times> nat) option" where
  "match_i32_select_bit_step_eq_condition insts start cursor tmp_local flags =
     Option.bind (raw_local_get (get_idx insts cursor) 4) (\<lambda>tmp_get.
     Option.bind (get_idx insts (cursor + 1)) (\<lambda>poly.
     Option.bind (get_idx insts (cursor + 2)) (\<lambda>xor_inst.
     Option.bind (raw_local_get (get_idx insts (cursor + 3)) 4) (\<lambda>prev.
     Option.bind (get_idx insts (cursor + 4)) (\<lambda>one.
     Option.bind (get_idx insts (cursor + 5)) (\<lambda>and_inst.
     Option.bind (raw_local_get (get_idx insts (cursor + 6)) 4) (\<lambda>source.
     Option.bind (get_idx insts (cursor + 7)) (\<lambda>shift.
     Option.bind (get_idx insts (cursor + 8)) (\<lambda>shr.
     Option.bind (get_idx insts (cursor + 9)) (\<lambda>eq_inst.
     Option.bind (get_idx insts (cursor + 10)) (\<lambda>select_inst.
       if \<not> same_raw_operand tmp_get tmp_local \<or> cn_op xor_inst \<noteq> Op_i32_bin BXor then None
       else Option.bind (raw_i32 (first_operand one)) (\<lambda>v.
         if v \<noteq> 1 \<or> cn_op and_inst \<noteq> Op_i32_bin BAnd \<or> cn_op shr \<noteq> Op_i32_bin BShrU \<or> cn_op eq_inst \<noteq> Op_i32_rel REq \<or>
            \<not> is_i32_select_inst select_inst then None
         else case match_i32_select_bit_step_consumer insts (cursor + 11) (flags OR I32_SELECT_BIT_STEP_EQ_CONDITION) of
           (dst_local, flags, last_cursor) \<Rightarrow>
             Option.bind (first_operand poly) (\<lambda>poly_operand.
             Option.bind (raw_i32 (first_operand shift)) (\<lambda>source_shift.
               Some (make_i32_select_bit_step_inst (insts ! start) (insts ! last_cursor)
                   [tmp_local, poly_operand, source, raw_u32_operand source_shift, prev, raw_u32_operand flags, dst_local],
                 last_cursor + 1 - start)))))))))))))))"

definition match_i32_select_bit_step_window :: "canon_inst list \<Rightarrow> nat \<Rightarrow> (canon_inst \<times> nat) option" where
  "match_i32_select_bit_step_window insts cursor =
     Option.bind (get_idx insts cursor) (\<lambda>shift_one.
     Option.bind (get_idx insts (cursor + 1)) (\<lambda>shr.
     Option.bind (raw_i32 (first_operand shift_one)) (\<lambda>v.
       if v \<noteq> 1 \<or> cn_op shr \<noteq> Op_i32_bin BShrU then None
       else
         let at = cursor + 2;
             masked = Option.bind (get_idx insts at) (\<lambda>inst. raw_i32 (first_operand inst)) = Some 0x7fff \<and>
               map_option cn_op (get_idx insts (at + 1)) = Some (Op_i32_bin BAnd);
             flags = (if masked then I32_SELECT_BIT_STEP_MASK_SHIFTED else 0);
             at = (if masked then at + 2 else at)
         in Option.bind (raw_local_tee (get_idx insts at) 4) (\<lambda>tmp_local.
              case match_i32_select_bit_step_xor_condition insts cursor (at + 1) tmp_local flags of
                Some r \<Rightarrow> Some r
              | None \<Rightarrow> match_i32_select_bit_step_eq_condition insts cursor (at + 1) tmp_local flags))))"

lemma consumer_cursor: "match_i32_select_bit_step_consumer insts cursor flags = (dst, flags', l) \<Longrightarrow> cursor - 1 \<le> l"
  by (auto simp: match_i32_select_bit_step_consumer_def split: option.splits)

lemma xor_condition_consumes: "match_i32_select_bit_step_xor_condition insts start cursor tmp flags = Some (i, n) \<Longrightarrow> start \<le> cursor \<Longrightarrow> 0 < n"
  by (auto simp: match_i32_select_bit_step_xor_condition_def bind_eq_Some_conv split: if_splits prod.splits dest: consumer_cursor)

lemma eq_condition_consumes: "match_i32_select_bit_step_eq_condition insts start cursor tmp flags = Some (i, n) \<Longrightarrow> start \<le> cursor \<Longrightarrow> 0 < n"
  by (auto simp: match_i32_select_bit_step_eq_condition_def bind_eq_Some_conv split: if_splits prod.splits dest: consumer_cursor)

lemma step_window_consumes: "match_i32_select_bit_step_window insts cursor = Some (i, n) \<Longrightarrow> 0 < n"
proof -
  assume "match_i32_select_bit_step_window insts cursor = Some (i, n)"
  then obtain c tmp flags where "cursor \<le> c" "match_i32_select_bit_step_xor_condition insts cursor c tmp flags = Some (i, n) \<or>
      match_i32_select_bit_step_eq_condition insts cursor c tmp flags = Some (i, n)"
    by (clarsimp simp: match_i32_select_bit_step_window_def bind_eq_Some_conv Let_def split: if_splits option.splits) (metis le_SucI order_refl)+
  then show ?thesis using xor_condition_consumes eq_condition_consumes by blast
qed

function fuse_steps_loop :: "canon_inst list \<Rightarrow> nat \<Rightarrow> canon_inst list \<times> nat" where
  "fuse_steps_loop insts cursor =
     (if cursor < length insts then
        case (if raw_local_get (get_idx insts cursor) 4 \<noteq> None then match_i32_select_bit_step_window insts (cursor + 1) else None) of
          Some (fused_inst, consumed) \<Rightarrow>
            (case fuse_steps_loop insts (cursor + (consumed + 1)) of (rewritten, fused) \<Rightarrow> (insts ! cursor # fused_inst # rewritten, fused + 1))
        | None \<Rightarrow>
            (case match_i32_select_bit_step_window insts cursor of
               Some (fused_inst, consumed) \<Rightarrow>
                 (case fuse_steps_loop insts (cursor + consumed) of (rewritten, fused) \<Rightarrow> (fused_inst # rewritten, fused + 1))
             | None \<Rightarrow> (case fuse_steps_loop insts (cursor + 1) of (rewritten, fused) \<Rightarrow> (insts ! cursor # rewritten, fused)))
      else ([], 0))"
  by pat_completeness auto
termination
  by (relation "measure (\<lambda>(insts, cursor). length insts - cursor)") (auto dest: step_window_consumes)

declare fuse_steps_loop.simps [simp del]

definition fuse_i32_select_bit_steps :: "canon_block \<Rightarrow> canon_block \<times> nat" where
  "fuse_i32_select_bit_steps block =
     (case fuse_steps_loop (cb_insts block) 0 of
        (rewritten, fused) \<Rightarrow> (if fused \<noteq> 0 then block\<lparr>cb_insts := rewritten\<rparr> else block, fused))"

end
