(* ===== verification/Block_Passes.thy ===== *)
theory Block_Passes
  imports Optimizer_Ir
begin

text \<open>
  The passes of \<open>Optimizer_Ir\<close> keep what a block does.  An instruction runs as its handler in
  \<open>runtime/vm\<close>; the handlers that the passes do not look into are a parameter, and so is the state of
  the runtime besides the stack.  A local outside the locals of the frame and an operand that is not
  there are \<open>VUndefined\<close>, which validated code does not reach.
\<close>

section \<open>What an instruction does\<close>

text \<open>Leaving a block for another one, or leaving the function.\<close>

datatype 'x block_exit = Goto nat | Leave 'x

type_synonym ('w, 'x) other_handlers = "vm_op \<Rightarrow> lowered_operand list \<Rightarrow> 'w \<times> stack \<Rightarrow> vm_stop + 'x option \<times> 'w \<times> stack"

definition i32_bin_handler :: "ibinop \<Rightarrow> stack \<Rightarrow> vm_stop + stack" where
  "i32_bin_handler b =
     (case b of
        BAdd \<Rightarrow> op_i32_add | BSub \<Rightarrow> op_i32_sub | BMul \<Rightarrow> op_i32_mul | BDivS \<Rightarrow> op_i32_div_s | BDivU \<Rightarrow> op_i32_div_u
      | BRemS \<Rightarrow> op_i32_rem_s | BRemU \<Rightarrow> op_i32_rem_u | BAnd \<Rightarrow> op_i32_and | BOr \<Rightarrow> op_i32_or | BXor \<Rightarrow> op_i32_xor
      | BShl \<Rightarrow> op_i32_shl | BShrS \<Rightarrow> op_i32_shr_s | BShrU \<Rightarrow> op_i32_shr_u | BRotl \<Rightarrow> op_i32_rotl | BRotr \<Rightarrow> op_i32_rotr)"

definition i64_bin_handler :: "ibinop \<Rightarrow> stack \<Rightarrow> vm_stop + stack" where
  "i64_bin_handler b =
     (case b of
        BAdd \<Rightarrow> op_i64_add | BSub \<Rightarrow> op_i64_sub | BMul \<Rightarrow> op_i64_mul | BDivS \<Rightarrow> op_i64_div_s | BDivU \<Rightarrow> op_i64_div_u
      | BRemS \<Rightarrow> op_i64_rem_s | BRemU \<Rightarrow> op_i64_rem_u | BAnd \<Rightarrow> op_i64_and | BOr \<Rightarrow> op_i64_or | BXor \<Rightarrow> op_i64_xor
      | BShl \<Rightarrow> op_i64_shl | BShrS \<Rightarrow> op_i64_shr_s | BShrU \<Rightarrow> op_i64_shr_u | BRotl \<Rightarrow> op_i64_rotl | BRotr \<Rightarrow> op_i64_rotr)"

definition i32_rel_handler :: "irelop \<Rightarrow> stack \<Rightarrow> vm_stop + stack" where
  "i32_rel_handler r =
     (case r of
        REq \<Rightarrow> op_i32_eq | RNe \<Rightarrow> op_i32_ne | RLtS \<Rightarrow> op_i32_lt_s | RLtU \<Rightarrow> op_i32_lt_u | RGtS \<Rightarrow> op_i32_gt_s
      | RGtU \<Rightarrow> op_i32_gt_u | RLeS \<Rightarrow> op_i32_le_s | RLeU \<Rightarrow> op_i32_le_u | RGeS \<Rightarrow> op_i32_ge_s | RGeU \<Rightarrow> op_i32_ge_u)"

definition i64_rel_handler :: "irelop \<Rightarrow> stack \<Rightarrow> vm_stop + stack" where
  "i64_rel_handler r =
     (case r of
        REq \<Rightarrow> op_i64_eq | RNe \<Rightarrow> op_i64_ne | RLtS \<Rightarrow> op_i64_lt_s | RLtU \<Rightarrow> op_i64_lt_u | RGtS \<Rightarrow> op_i64_gt_s
      | RGtU \<Rightarrow> op_i64_gt_u | RLeS \<Rightarrow> op_i64_le_s | RLeU \<Rightarrow> op_i64_le_u | RGeS \<Rightarrow> op_i64_ge_s | RGeU \<Rightarrow> op_i64_ge_u)"

text \<open>The handler of a local with \<open>n\<close> bytes; \<open>k\<close> bytes of operands lie above the locals, which end at \<open>frame_end\<close>.\<close>

definition local_handler ::
  "nat \<Rightarrow> nat \<Rightarrow> nat \<Rightarrow> nat \<Rightarrow> (nat \<Rightarrow> u64 list \<Rightarrow> stack \<Rightarrow> vm_stop + vm_next \<times> stack) \<Rightarrow> canon_inst \<Rightarrow> stack \<Rightarrow> vm_stop + stack" where
  "local_handler base frame_end n k h inst st =
     (case raw_i64 (first_operand inst) of
        None \<Rightarrow> Inl VUndefined
      | Some w \<Rightarrow>
          if base + unat (ucast w :: u32) + n \<le> frame_end \<and> frame_end + k \<le> sk_top st
          then rbind (h base [w] st) (\<lambda>(_, st). Inr st) else Inl VUndefined)"

text \<open>The fused step; the locals it names lie in the frame.\<close>

definition select_step_handler :: "nat \<Rightarrow> nat \<Rightarrow> canon_inst \<Rightarrow> stack \<Rightarrow> vm_stop + stack" where
  "select_step_handler base frame_end inst st =
     (case map raw_i64 (map Some (cn_operands inst)) of
        [Some tmp, Some poly, Some source, Some shift, Some prev, Some flags, Some dst] \<Rightarrow>
          (if (\<forall>w \<in> set ([tmp, source, prev] @ (if (ucast flags :: u32) AND I32_SELECT_BIT_STEP_TEE_DST \<noteq> 0 then [dst] else [])).
                base + unat (ucast w :: u32) + 4 \<le> frame_end) \<and> frame_end + 4 \<le> sk_top st
           then i32_select_bit_step4_at base [tmp, poly, source, shift, prev, flags, dst] st else Inl VUndefined)
      | _ \<Rightarrow> Inl VUndefined)"

text \<open>The handlers that change the stack and go on with the next instruction.\<close>

definition plain_handler :: "nat \<Rightarrow> nat \<Rightarrow> canon_inst \<Rightarrow> (stack \<Rightarrow> vm_stop + stack) option" where
  "plain_handler base frame_end inst =
     (case cn_op inst of
        Op_i32_const \<Rightarrow> Some (\<lambda>st. case raw_i32 (first_operand inst) of Some v \<Rightarrow> op_i32_const v st | None \<Rightarrow> Inl VUndefined)
      | Op_i64_const \<Rightarrow> Some (\<lambda>st. case raw_i64 (first_operand inst) of Some v \<Rightarrow> op_i64_const v st | None \<Rightarrow> Inl VUndefined)
      | Op_i32_eqz \<Rightarrow> Some op_i32_eqz | Op_i64_eqz \<Rightarrow> Some op_i64_eqz
      | Op_i32_bin b \<Rightarrow> Some (i32_bin_handler b) | Op_i64_bin b \<Rightarrow> Some (i64_bin_handler b)
      | Op_i32_rel r \<Rightarrow> Some (i32_rel_handler r) | Op_i64_rel r \<Rightarrow> Some (i64_rel_handler r)
      | Op_local_get4 \<Rightarrow> Some (local_handler base frame_end 4 0 op_local_get4 inst)
      | Op_local_get8 \<Rightarrow> Some (local_handler base frame_end 8 0 op_local_get8 inst)
      | Op_local_get16 \<Rightarrow> Some (local_handler base frame_end 16 0 op_local_get16 inst)
      | Op_local_set4 \<Rightarrow> Some (local_handler base frame_end 4 4 op_local_set4 inst)
      | Op_local_set8 \<Rightarrow> Some (local_handler base frame_end 8 8 op_local_set8 inst)
      | Op_local_set16 \<Rightarrow> Some (local_handler base frame_end 16 16 op_local_set16 inst)
      | Op_local_tee4 \<Rightarrow> Some (local_handler base frame_end 4 4 op_local_tee4 inst)
      | Op_local_tee8 \<Rightarrow> Some (local_handler base frame_end 8 8 op_local_tee8 inst)
      | Op_local_tee16 \<Rightarrow> Some (local_handler base frame_end 16 16 op_local_tee16 inst)
      | Op_select \<Rightarrow> Some (\<lambda>st. case raw_i64 (first_operand inst) of Some w \<Rightarrow> rbind (op_select [w] st) (\<lambda>(_, st). Inr st) | None \<Rightarrow> Inl VUndefined)
      | Op_select4 \<Rightarrow> Some (\<lambda>st. rbind (op_select4 [] st) (\<lambda>(_, st). Inr st))
      | Op_i32_select_bit_step4 \<Rightarrow> Some (select_step_handler base frame_end inst)
      | Op_end \<Rightarrow> Some Inr
      | _ \<Rightarrow> None)"

definition goto_operand :: "canon_inst \<Rightarrow> nat \<Rightarrow> 'w \<times> stack \<Rightarrow> vm_stop + 'x block_exit option \<times> 'w \<times> stack" where
  "goto_operand inst k s =
     (case jump_target (get_idx (cn_operands inst) k) of Some t \<Rightarrow> Inr (Some (Goto t), s) | None \<Rightarrow> Inl VUndefined)"

text \<open>The branches.  The handler of \<open>else\<close> skips the \<open>end\<close> at its address, which does nothing.\<close>

definition exec_inst ::
  "('w, 'x) other_handlers \<Rightarrow> nat \<Rightarrow> nat \<Rightarrow> canon_inst \<Rightarrow> 'w \<times> stack \<Rightarrow> vm_stop + 'x block_exit option \<times> 'w \<times> stack" where
  "exec_inst other base frame_end inst s =
     (case plain_handler base frame_end inst of
        Some h \<Rightarrow> rbind (h (snd s)) (\<lambda>st. Inr (None, fst s, st))
      | None \<Rightarrow>
          (case cn_op inst of
             Op_br \<Rightarrow> goto_operand inst 0 s
           | Op_else \<Rightarrow> goto_operand inst 0 s
           | Op_return \<Rightarrow> goto_operand inst 0 s
           | Op_br_if \<Rightarrow> rbind (pop_u32 (snd s)) (\<lambda>(cond, st). if cond \<noteq> 0 then goto_operand inst 0 (fst s, st) else Inr (None, fst s, st))
           | Op_if \<Rightarrow> rbind (pop_u32 (snd s)) (\<lambda>(cond, st). if cond \<noteq> 0 then Inr (None, fst s, st) else goto_operand inst 0 (fst s, st))
           | Op_br_table \<Rightarrow>
               rbind (pop_u32 (snd s)) (\<lambda>(chosen, st).
                 case raw_i32 (first_operand inst) of
                   Some table_size \<Rightarrow> goto_operand inst (unat (if chosen < table_size then chosen + 1 else table_size + 1)) (fst s, st)
                 | None \<Rightarrow> Inl VUndefined)
           | op \<Rightarrow> rbind (other op (cn_operands inst) s) (\<lambda>(x, s). Inr (map_option Leave x, s))))"

fun run_insts ::
  "('w, 'x) other_handlers \<Rightarrow> nat \<Rightarrow> nat \<Rightarrow> canon_inst list \<Rightarrow> 'w \<times> stack \<Rightarrow> vm_stop + 'x block_exit option \<times> 'w \<times> stack" where
  "run_insts other base frame_end [] s = Inr (None, s)"
| "run_insts other base frame_end (i # insts) s =
     rbind (exec_inst other base frame_end i s) (\<lambda>(x, s). case x of Some e \<Rightarrow> Inr (Some e, s) | None \<Rightarrow> run_insts other base frame_end insts s)"

section \<open>Equal stacks\<close>

text \<open>Stacks that differ only in the bytes above the top.\<close>

definition same_below :: "stack \<Rightarrow> stack \<Rightarrow> bool" where
  "same_below st st' \<longleftrightarrow>
     sk_top st = sk_top st' \<and> length (sk_memory st) = length (sk_memory st') \<and>
     take (sk_top st) (sk_memory st) = take (sk_top st) (sk_memory st') \<and>
     sk_top st \<le> length (sk_memory st) \<and> length (sk_memory st) < 2 ^ 64"

lemma same_belowE:
  assumes "same_below st st'"
  obtains lo r r' where "st = stack_with lo r" "st' = stack_with lo r'" "length r = length r'" "length lo + length r < 2 ^ 64"
proof (rule that [of "take (sk_top st) (sk_memory st)" "drop (sk_top st) (sk_memory st)" "drop (sk_top st) (sk_memory st')"])
  show "st = stack_with (take (sk_top st) (sk_memory st)) (drop (sk_top st) (sk_memory st))"
    using assms by (simp add: stack_with_def same_below_def)
  show "st' = stack_with (take (sk_top st) (sk_memory st)) (drop (sk_top st) (sk_memory st'))"
  proof -
    have "take (sk_top st) (sk_memory st) = take (sk_top st') (sk_memory st')" "sk_top st = sk_top st'" "sk_top st' \<le> length (sk_memory st')"
      using assms by (auto simp: same_below_def)
    then show ?thesis by (simp only: append_take_drop_id stack_with_def length_take) simp
  qed
qed (use assms in \<open>auto simp: same_below_def\<close>)

lemma same_below_with [simp]:
  "same_below (stack_with lo r) (stack_with lo r') \<longleftrightarrow> length r = length r' \<and> length lo + length r < 2 ^ 64"
  by (auto simp: same_below_def)

lemma same_below_left: "same_below st st' \<Longrightarrow> same_below st st"
  by (auto simp: same_below_def)

text \<open>Two runs agree: the first overflows the stack or is undefined, or both end in the same way.\<close>

definition agree :: "('a \<Rightarrow> 'b \<Rightarrow> bool) \<Rightarrow> vm_stop + 'a \<Rightarrow> vm_stop + 'b \<Rightarrow> bool" where
  "agree R r r' \<longleftrightarrow>
     r = Inl VStackOverflow \<or> r = Inl VUndefined \<or> (\<exists>e. r = Inl e \<and> r' = Inl e) \<or> (\<exists>x y. r = Inr x \<and> r' = Inr y \<and> R x y)"

lemma agree_simps [simp]:
  "agree R (Inr x) (Inr y) \<longleftrightarrow> R x y" "agree R (Inl e) (Inl e)" "agree R (Inl VStackOverflow) r" "agree R (Inl VUndefined) r"
  by (auto simp: agree_def)

lemma agree_bind:
  assumes "agree R r r'" "\<And>x y. R x y \<Longrightarrow> agree S (f x) (g y)"
  shows "agree S (rbind r f) (rbind r' g)"
  using assms(1) unfolding agree_def [of R] by (auto simp: assms(2))

lemma agree_trans:
  assumes "agree R r r'" "agree S r' r''" "\<And>x y z. R x y \<Longrightarrow> S y z \<Longrightarrow> T x z"
  shows "agree T r r''"
  using assms unfolding agree_def by auto

abbreviation agree_value :: "vm_stop + 'a \<times> stack \<Rightarrow> vm_stop + 'a \<times> stack \<Rightarrow> bool" where
  "agree_value \<equiv> agree (\<lambda>(v, st) (v', st'). v = v' \<and> same_below st st')"

lemma agree_value_bind:
  assumes "agree_value r r'" "\<And>v st st'. same_below st st' \<Longrightarrow> agree S (f (v, st)) (g (v, st'))"
  shows "agree S (rbind r f) (rbind r' g)"
  by (rule agree_bind [OF assms(1)]) (use assms(2) in auto)

section \<open>The operations of the stack\<close>

lemma push_agrees:
  assumes "same_below st st'"
  shows "agree same_below (push_slice bs st) (push_slice bs st')" "agree same_below (push_fast bs st) (push_fast bs st')"
  using assms by (auto elim!: same_belowE simp: push_stack push_fast_stack)

lemma pop_stack_cases:
  "pop_bytes n (stack_with lo r) =
     (if n \<le> length lo then Inr (drop (length lo - n) lo, stack_with (take (length lo - n) lo) (drop (length lo - n) lo @ r)) else Inl VUndefined)"
proof (cases "n \<le> length lo")
  case True
  then show ?thesis using pop_stack [of "drop (length lo - n) lo" n "take (length lo - n) lo" r] by simp
qed (simp add: pop_bytes_def sub_top_def)

lemma pop_agrees:
  assumes "same_below st st'"
  shows "agree_value (pop_bytes n st) (pop_bytes n st')"
  using assms by (auto elim!: same_belowE simp: pop_stack_cases)

lemma word_agrees:
  assumes "same_below st st'"
  shows "agree same_below (push_u32 v st) (push_u32 v st')" "agree same_below (push_u64 w st) (push_u64 w st')"
    "agree same_below (push_u32_fast v st) (push_u32_fast v st')"
    "agree_value (pop_u32 st) (pop_u32 st')" "agree_value (pop_u64 st) (pop_u64 st')"
proof -
  note p = push_agrees [OF assms] agree_value_bind [OF pop_agrees [OF assms]]
  show "agree same_below (push_u32 v st) (push_u32 v st')" "agree same_below (push_u64 w st) (push_u64 w st')"
    "agree same_below (push_u32_fast v st) (push_u32_fast v st')" using p by (simp_all add: push_u32_def push_u64_def push_u32_fast_def)
  show "agree_value (pop_u32 st) (pop_u32 st')" "agree_value (pop_u64 st) (pop_u64 st')"
    by (simp_all add: pop_u32_def pop_u64_def p(3))
qed

lemma two_words:
  assumes "8 \<le> length lo"
  obtains l and a b :: u32 where "lo = l @ to_le 4 a @ to_le 4 b"
proof -
  define m where "m = take (length lo - 4) lo"
  define ys where "ys = drop (length lo - 4) lo"
  define xs where "xs = drop (length lo - 8) m"
  have len: "length xs = 4" "length ys = 4" using assms by (auto simp: xs_def ys_def m_def)
  have "lo = (take (length lo - 8) m @ xs) @ ys" unfolding xs_def append_take_drop_id unfolding m_def ys_def append_take_drop_id ..
  then have "lo = take (length lo - 8) m @ to_le 4 (from_le xs :: u32) @ to_le 4 (from_le ys :: u32)"
    using to_le_from_le [where 'a = 32, of xs] to_le_from_le [where 'a = 32, of ys] len by simp
  then show thesis by (rule that)
qed

lemma reduce_agrees:
  assumes "same_below st st'"
  shows "agree same_below (reduce_top f st) (reduce_top f st')"
proof -
  obtain lo r r' where st: "st = stack_with lo r" "st' = stack_with lo r'" "length r = length r'" "length lo + length r < 2 ^ 64"
    using same_belowE [OF assms] .
  show ?thesis
  proof (cases "8 \<le> length lo")
    case True
    then obtain l and a b :: u32 where "lo = l @ to_le 4 a @ to_le 4 b" by (rule two_words)
    then show ?thesis using st by (simp add: reduce_top_stack)
  qed (auto simp: reduce_top_def sub_top_def st rbind_def)
qed

lemma local_get_agrees:
  assumes "same_below st st'" "base + a + n \<le> frame_end" "frame_end \<le> sk_top st"
  shows "agree same_below (local_get_from_base n base a st) (local_get_from_base n base a st')"
proof -
  obtain lo r r' where st: "st = stack_with lo r" "st' = stack_with lo r'" "length r = length r'" "length lo + length r < 2 ^ 64"
    using same_belowE [OF assms(1)] .
  then have "base + a + n \<le> length lo" using assms(2,3) by simp
  then show ?thesis using st local_accesses(1) [of base a n lo "[]"] by (simp add: mem_simps)
qed

lemma local_set_agrees:
  assumes "same_below st st'" "base + a + n \<le> frame_end" "frame_end + n \<le> sk_top st"
  shows "agree same_below (local_set_from_base n base a st) (local_set_from_base n base a st')"
    "agree same_below (local_tee_from_base n base a st) (local_tee_from_base n base a st')"
proof -
  obtain lo r r' where st: "st = stack_with lo r" "st' = stack_with lo r'" "length r = length r'" "length lo + length r < 2 ^ 64"
    using same_belowE [OF assms(1)] .
  define L where "L = take (length lo - n) lo"
  define bs where "bs = drop (length lo - n) lo"
  have lo: "lo = L @ bs" unfolding L_def bs_def by simp
  have len: "base + a + n \<le> length L" "length bs = n" using assms(2,3) st by (auto simp: L_def bs_def)
  note acc = local_accesses(2,3) [OF len(1), of bs "[]"]
  show "agree same_below (local_set_from_base n base a st) (local_set_from_base n base a st')"
    "agree same_below (local_tee_from_base n base a st) (local_tee_from_base n base a st')"
    using acc len st by (simp_all add: lo mem_simps)
qed

section \<open>Every instruction\<close>

text \<open>The other handlers do not look at the bytes above the top.\<close>

definition agree_state :: "vm_stop + 'e \<times> 'w \<times> stack \<Rightarrow> vm_stop + 'e \<times> 'w \<times> stack \<Rightarrow> bool" where
  "agree_state = agree (\<lambda>(x, w, st) (x', w', st'). x = x' \<and> w = w' \<and> same_below st st')"

definition ignores_garbage :: "('w, 'x) other_handlers \<Rightarrow> bool" where
  "ignores_garbage other \<longleftrightarrow> (\<forall>op ops w st st'. same_below st st' \<longrightarrow> agree_state (other op ops (w, st)) (other op ops (w, st')))"

lemma shape_agrees:
  assumes "same_below st st'"
  shows "agree same_below (unary32 u st) (unary32 u st')" "agree same_below (binary32 f st) (binary32 f st')"
    "agree same_below (binary64 g st) (binary64 g st')" "agree same_below (compare32 p st) (compare32 p st')"
    "agree same_below (compare64 q st) (compare64 q st')" "agree same_below (checked32 c st) (checked32 c st')"
    "agree same_below (checked64 d st) (checked64 d st')" "agree same_below (op_i64_eqz st) (op_i64_eqz st')"
proof -
  note pop32 = agree_value_bind [OF word_agrees(4)] and pop64 = agree_value_bind [OF word_agrees(5)]
  show "agree same_below (unary32 u st) (unary32 u st')" unfolding unary32_def by (rule pop32 [OF assms]) (simp add: word_agrees)
  show "agree same_below (binary32 f st) (binary32 f st')"
    unfolding binary32_def by (rule pop32 [OF assms], simp, rule pop32, assumption, simp add: word_agrees)
  show "agree same_below (compare32 p st) (compare32 p st')"
    unfolding compare32_def by (rule pop32 [OF assms], simp, rule pop32, assumption, simp add: word_agrees)
  show "agree same_below (binary64 g st) (binary64 g st')"
    unfolding binary64_def by (rule pop64 [OF assms], simp, rule pop64, assumption, simp add: word_agrees)
  show "agree same_below (compare64 q st) (compare64 q st')"
    unfolding compare64_def by (rule pop64 [OF assms], simp, rule pop64, assumption, simp add: word_agrees)
  show "agree same_below (checked32 c st) (checked32 c st')"
    unfolding checked32_def by (rule pop32 [OF assms], simp, rule pop32, assumption) (auto simp: ok_or_def word_agrees split: option.splits)
  show "agree same_below (checked64 d st) (checked64 d st')"
    unfolding checked64_def by (rule pop64 [OF assms], simp, rule pop64, assumption) (auto simp: ok_or_def word_agrees split: option.splits)
  show "agree same_below (op_i64_eqz st) (op_i64_eqz st')" unfolding op_i64_eqz_def by (rule pop64 [OF assms]) (simp add: word_agrees)
qed

lemma operator_agrees:
  assumes "same_below st st'"
  shows "agree same_below (i32_bin_handler b st) (i32_bin_handler b st')" "agree same_below (i64_bin_handler b st) (i64_bin_handler b st')"
    "agree same_below (i32_rel_handler r st) (i32_rel_handler r st')" "agree same_below (i64_rel_handler r st) (i64_rel_handler r st')"
proof -
  note defs = i32_bin_handler_def i64_bin_handler_def op_i32_add_def op_i32_sub_def op_i32_mul_def op_i32_div_s_def op_i32_div_u_def
    op_i32_rem_s_def op_i32_rem_u_def op_i32_and_def op_i32_or_def op_i32_xor_def op_i32_shl_def op_i32_shr_s_def op_i32_shr_u_def
    op_i32_rotl_def op_i32_rotr_def reduce_top_i32_add_def reduce_top_i32_sub_def op_i64_add_def op_i64_sub_def op_i64_mul_def op_i64_div_s_def
    op_i64_div_u_def op_i64_rem_s_def op_i64_rem_u_def op_i64_and_def op_i64_or_def op_i64_xor_def op_i64_shl_def op_i64_shr_s_def
    op_i64_shr_u_def op_i64_rotl_def op_i64_rotr_def
  show "agree same_below (i32_bin_handler b st) (i32_bin_handler b st')" "agree same_below (i64_bin_handler b st) (i64_bin_handler b st')"
    by (cases b; simp add: defs shape_agrees [OF assms] reduce_agrees [OF assms])+
  show "agree same_below (i32_rel_handler r st) (i32_rel_handler r st')" "agree same_below (i64_rel_handler r st) (i64_rel_handler r st')"
    by (cases r; simp add: i32_rel_handler_def i64_rel_handler_def op_i32_eq_def op_i32_ne_def op_i32_lt_s_def op_i32_lt_u_def op_i32_gt_s_def
        op_i32_gt_u_def op_i32_le_s_def op_i32_le_u_def op_i32_ge_s_def op_i32_ge_u_def op_i64_eq_def op_i64_ne_def op_i64_lt_s_def
        op_i64_lt_u_def op_i64_gt_s_def op_i64_gt_u_def op_i64_le_s_def op_i64_le_u_def op_i64_ge_s_def op_i64_ge_u_def shape_agrees [OF assms])+
qed

text \<open>Reading a local of four bytes and pushing it is pushing the bytes.\<close>

lemma local_get4_from_base:
  assumes "base + unat (ucast w :: u32) + 4 \<le> frame_end" "frame_end \<le> sk_top st" "same_below st st"
  shows "op_local_get4 base [w] st = rbind (local_get_from_base 4 base (unat (ucast w :: u32)) st) (call_next 1)"
proof -
  obtain lo r r' where st: "st = stack_with lo r" "length lo + length r < 2 ^ 64" using same_belowE [OF assms(3)] by metis
  let ?p = "base + unat (ucast w :: u32)"
  have p: "?p + 4 \<le> length lo" using assms st by simp
  have "to_le 4 (from_le (Telomere_Prelude.slice ?p 4 lo) :: u32) = Telomere_Prelude.slice ?p 4 lo"
    using p to_le_from_le [where 'a = 32, of "Telomere_Prelude.slice ?p 4 lo"] by (simp add: mem_simps)
  moreover have "read_at ?p 4 st = Inr (Telomere_Prelude.slice ?p 4 lo)" using access_below(1) [of ?p 4 lo "[]" r] p st by simp
  ultimately show ?thesis
    using local_accesses(1) [of base "unat (ucast w :: u32)" 4 lo "[]" r] p st
    by (simp add: op_local_get4_def local_u32_from_base_def push_u32_fast_def push_fast_stack mem_simps)
qed

lemma local_handler_agrees:
  assumes "same_below st st'"
    and "\<And>w. base + unat (ucast w :: u32) + n \<le> frame_end \<Longrightarrow> frame_end + k \<le> sk_top st \<Longrightarrow> agree_value (h base [w] st) (h base [w] st')"
  shows "agree same_below (local_handler base frame_end n k h inst st) (local_handler base frame_end n k h inst st')"
proof -
  have "sk_top st' = sk_top st" using assms(1) by (simp add: same_below_def)
  then show ?thesis using assms(2) by (auto simp: local_handler_def split: option.splits intro!: agree_bind)
qed

lemma local_ops_agree:
  assumes same: "same_below st st'"
  shows "agree same_below (local_handler base fe 4 0 op_local_get4 inst st) (local_handler base fe 4 0 op_local_get4 inst st')"
    "agree same_below (local_handler base fe 8 0 op_local_get8 inst st) (local_handler base fe 8 0 op_local_get8 inst st')"
    "agree same_below (local_handler base fe 16 0 op_local_get16 inst st) (local_handler base fe 16 0 op_local_get16 inst st')"
    "agree same_below (local_handler base fe 4 4 op_local_set4 inst st) (local_handler base fe 4 4 op_local_set4 inst st')"
    "agree same_below (local_handler base fe 8 8 op_local_set8 inst st) (local_handler base fe 8 8 op_local_set8 inst st')"
    "agree same_below (local_handler base fe 16 16 op_local_set16 inst st) (local_handler base fe 16 16 op_local_set16 inst st')"
    "agree same_below (local_handler base fe 4 4 op_local_tee4 inst st) (local_handler base fe 4 4 op_local_tee4 inst st')"
    "agree same_below (local_handler base fe 8 8 op_local_tee8 inst st) (local_handler base fe 8 8 op_local_tee8 inst st')"
    "agree same_below (local_handler base fe 16 16 op_local_tee16 inst st) (local_handler base fe 16 16 op_local_tee16 inst st')"
proof -
  have right: "same_below st' st'" "sk_top st' = sk_top st" using same by (auto simp: same_below_def)
  note get4 = local_get4_from_base [OF _ _ same_below_left [OF same]] local_get4_from_base [of base _ fe st', unfolded right(2), OF _ _ right(1)]
  note acc = local_get_agrees [OF same] local_set_agrees [OF same]
  note defs = op_local_get8_def op_local_get16_def op_local_set4_def op_local_set8_def op_local_set16_def op_local_tee4_def op_local_tee8_def
    op_local_tee16_def
  show "agree same_below (local_handler base fe 4 0 op_local_get4 inst st) (local_handler base fe 4 0 op_local_get4 inst st')"
    by (rule local_handler_agrees [OF same]) (simp add: get4, rule agree_bind [OF acc(1)], auto simp: call_next_def)
  show "agree same_below (local_handler base fe 8 0 op_local_get8 inst st) (local_handler base fe 8 0 op_local_get8 inst st')"
    "agree same_below (local_handler base fe 16 0 op_local_get16 inst st) (local_handler base fe 16 0 op_local_get16 inst st')"
    by (rule local_handler_agrees [OF same], simp add: defs, rule agree_bind [OF acc(1)], auto simp: call_next_def)+
  show "agree same_below (local_handler base fe 4 4 op_local_set4 inst st) (local_handler base fe 4 4 op_local_set4 inst st')"
    "agree same_below (local_handler base fe 8 8 op_local_set8 inst st) (local_handler base fe 8 8 op_local_set8 inst st')"
    "agree same_below (local_handler base fe 16 16 op_local_set16 inst st) (local_handler base fe 16 16 op_local_set16 inst st')"
    by (rule local_handler_agrees [OF same], simp add: defs, rule agree_bind [OF acc(2)], auto simp: call_next_def)+
  show "agree same_below (local_handler base fe 4 4 op_local_tee4 inst st) (local_handler base fe 4 4 op_local_tee4 inst st')"
    "agree same_below (local_handler base fe 8 8 op_local_tee8 inst st) (local_handler base fe 8 8 op_local_tee8 inst st')"
    "agree same_below (local_handler base fe 16 16 op_local_tee16 inst st) (local_handler base fe 16 16 op_local_tee16 inst st')"
    by (rule local_handler_agrees [OF same], simp add: defs, rule agree_bind [OF acc(3)], auto simp: call_next_def)+
qed

lemma array8_agrees:
  assumes "same_below st st'"
  shows "agree (\<lambda>(v, st) (v', st'). take n v = take n v' \<and> length v = 8 \<and> length v' = 8 \<and> same_below st st') (pop_array8 n st) (pop_array8 n st')"
proof -
  obtain lo r r' where st: "st = stack_with lo r" "st' = stack_with lo r'" "length r = length r'" "length lo + length r < 2 ^ 64"
    using same_belowE [OF assms] .
  define L where "L = take (length lo - n) lo"
  define bs where "bs = drop (length lo - n) lo"
  have "agree (\<lambda>(v, st) (v', st'). take n v = take n v' \<and> length v = 8 \<and> length v' = 8 \<and> same_below st st')
      (pop_array8 n (stack_with (L @ bs) r)) (pop_array8 n (stack_with (L @ bs) r'))" if "n \<le> length lo"
  proof -
    have len: "length bs = n" "length L + length bs = length lo" using that by (simp_all add: bs_def L_def)
    have sub: "sub_top n (stack_with (L @ bs) q) = Inr (stack_with L (bs @ q))" for q using len by (simp add: sub_top_def stack_with_def)
    show ?thesis
    proof (cases "length L + 8 \<le> length (L @ bs @ r)")
      case True
      then have "read_at (length L) 8 (stack_with L (bs @ q)) = Inr (take 8 (bs @ q))" if "length q = length r" for q
        using that by (simp add: read_at_def Telomere_Prelude.slice_def)
      moreover have "take n (take 8 (bs @ r)) = take n (take 8 (bs @ r'))" using len st(3) by (simp add: min_def)
      ultimately show ?thesis using st sub True len by (auto simp: pop_array8_def)
    next
      case False
      then have "read_at (length L) 8 (stack_with L (bs @ r)) = Inl VUndefined" by (simp add: read_at_def)
      then show ?thesis by (simp add: pop_array8_def sub)
    qed
  qed
  moreover have "pop_array8 n (stack_with lo r) = Inl VUndefined" if "\<not> n \<le> length lo" using that by (simp add: pop_array8_def sub_top_def)
  ultimately show ?thesis using st by (cases "n \<le> length lo") (auto simp: L_def bs_def)
qed

lemma array8_bind:
  assumes "same_below st st'"
    "\<And>v v' s s'. take n v = take n v' \<Longrightarrow> length v = 8 \<Longrightarrow> length v' = 8 \<Longrightarrow> same_below s s' \<Longrightarrow> agree S (f (v, s)) (g (v', s'))"
  shows "agree S (rbind (pop_array8 n st) f) (rbind (pop_array8 n st') g)"
  by (rule agree_bind [OF array8_agrees [OF assms(1)]]) (use assms(2) in auto)

lemma select_op_agrees:
  assumes "same_below st st'"
  shows "agree same_below (internal_op_select n st) (internal_op_select n st')" "agree same_below (select_bytes n st) (select_bytes n st')"
proof -
  note pop32 = agree_value_bind [OF word_agrees(4)] and pop = agree_value_bind [OF pop_agrees]
  show "agree same_below (select_bytes n st) (select_bytes n st')"
    unfolding select_bytes_def by (rule pop32 [OF assms], simp, rule pop, assumption, simp, rule pop, assumption) (simp add: push_agrees)
  have fin: "agree same_below (let v = if c = 0 then a else b in if n \<le> length v then push_slice (take n v) s else Inl VUndefined)
        (let v = if c = 0 then a' else b' in if n \<le> length v then push_slice (take n v) s' else Inl VUndefined)"
    if "take n a = take n a'" "length a = 8" "length a' = 8" "same_below s s'" "take n b = take n b'" "length b = 8" "length b' = 8" for c :: u32 and a a' b b' s s'
    using that by (auto simp: push_agrees Let_def)
  show "agree same_below (internal_op_select n st) (internal_op_select n st')"
    unfolding internal_op_select_def
    by (rule pop32 [OF assms], unfold prod.case, rule array8_bind, assumption, unfold prod.case, rule array8_bind, assumption, unfold prod.case,
        rule fin; assumption)
qed

lemma select_ops_agree:
  assumes "same_below st st'"
  shows "agree same_below (rbind (op_select [w] st) (\<lambda>(_, st). Inr st)) (rbind (op_select [w] st') (\<lambda>(_, st). Inr st))"
    "agree same_below (rbind (op_select4 [] st) (\<lambda>(_, st). Inr st)) (rbind (op_select4 [] st') (\<lambda>(_, st). Inr st))"
proof -
  have "agree_value (rbind r (call_next n)) (rbind r' (call_next n))" if "agree same_below r r'" for r r' n
    by (rule agree_bind [OF that]) (simp add: call_next_def)
  note next_op = this
  show "agree same_below (rbind (op_select [w] st) (\<lambda>(_, st). Inr st)) (rbind (op_select [w] st') (\<lambda>(_, st). Inr st))"
    using next_op [OF select_op_agrees(1) [OF assms]] by (intro agree_bind [where R = "\<lambda>(v, st) (v', st'). v = v' \<and> same_below st st'"]) (auto simp: op_select_def)
  show "agree same_below (rbind (op_select4 [] st) (\<lambda>(_, st). Inr st)) (rbind (op_select4 [] st') (\<lambda>(_, st). Inr st))"
    using next_op [OF select_op_agrees(2) [OF assms]] by (intro agree_bind [where R = "\<lambda>(v, st) (v', st'). v = v' \<and> same_below st st'"]) (auto simp: op_select4_def)
qed

lemma same_frames: "same_below st st' \<Longrightarrow> \<exists>L r r'. st = frame L [] r \<and> st' = frame L [] r' \<and> length r = length r' \<and> has_room L [] r \<and> has_room L [] r'"
  by (elim same_belowE, rule exI, rule exI, rule exI) (auto simp: frame_def has_room_def)

lemma same_below_frame: "length r = length r' \<Longrightarrow> has_room L vs r \<Longrightarrow> same_below (frame L vs r) (frame L vs r')"
  by (simp add: frame_def has_room_def)

text \<open>What the fused step computes.\<close>

definition step_shifted :: "u32 \<Rightarrow> u32 \<Rightarrow> u32" where
  "step_shifted flags v = (if flags AND I32_SELECT_BIT_STEP_MASK_SHIFTED \<noteq> 0 then drop_bit 1 v AND 0x7fff else drop_bit 1 v)"

definition step_selected :: "u32 \<Rightarrow> u32 \<Rightarrow> u32 \<Rightarrow> u32 \<Rightarrow> u32 \<Rightarrow> u32 \<Rightarrow> u32" where
  "step_selected flags poly shift v source prev =
     (let shifted = step_shifted flags v; s = drop_bit (unat shift mod 32) source in
      if flags AND I32_SELECT_BIT_STEP_EQ_CONDITION \<noteq> 0 then (if prev AND 1 = s then shifted else shifted XOR poly)
      else if (s XOR prev) AND 1 \<noteq> 0 then shifted XOR poly else shifted)"

lemma step_frame:
  fixes tmp source prev dst shift flags poly :: u32
  assumes "has_room L (R4 v # vs) r" "inside base L 4 tmp" "inside base L 4 source" "inside base L 4 prev"
    "flags AND I32_SELECT_BIT_STEP_TEE_DST \<noteq> 0 \<Longrightarrow> inside base L 4 dst" "map ucast ops = [tmp, poly, source, shift, prev, flags, dst]"
  shows "i32_select_bit_step4_at base ops (frame L (R4 v # vs) r) =
    (let L1 = lset4 base L tmp (step_shifted flags v);
         w = step_selected flags poly shift v (lget4 base L1 source) (lget4 base L1 prev) in
     Inr (frame (if flags AND I32_SELECT_BIT_STEP_TEE_DST \<noteq> 0 then lset4 base L1 dst w else L1) (R4 w # vs) r))"
proof -
  obtain o0 o1 o2 o3 o4 o5 o6 where ops: "ops = [o0, o1, o2, o3, o4, o5, o6]" using assms(6) by (auto simp: map_eq_Cons_conv)
  show ?thesis
    using assms unfolding ops i32_select_bit_step4_at_def Let_def
    by (simp add: operand_u32_def operand_addr_def frame_steps inside_lset step_shifted_def step_selected_def Let_def)
qed

lemma step_frame_ex:
  fixes tmp source prev dst shift flags poly :: u32
  assumes "inside base L 4 tmp" "inside base L 4 source" "inside base L 4 prev"
    "flags AND I32_SELECT_BIT_STEP_TEE_DST \<noteq> 0 \<Longrightarrow> inside base L 4 dst" "map ucast ops = [tmp, poly, source, shift, prev, flags, dst]"
  shows "\<exists>L' w. length L' = length L \<and>
    (\<forall>r. has_room L (R4 v # vs) r \<longrightarrow> i32_select_bit_step4_at base ops (frame L (R4 v # vs) r) = Inr (frame L' (R4 w # vs) r))"
proof -
  define L1 where "L1 = lset4 base L tmp (step_shifted flags v)"
  define w where "w = step_selected flags poly shift v (lget4 base L1 source) (lget4 base L1 prev)"
  define L2 where "L2 = (if flags AND I32_SELECT_BIT_STEP_TEE_DST \<noteq> 0 then lset4 base L1 dst w else L1)"
  have "length L1 = length L" using assms(1) by (simp add: L1_def length_lset)
  moreover have "length L2 = length L1" using assms(1,4) by (auto simp: L2_def L1_def length_lset inside_lset)
  moreover have "i32_select_bit_step4_at base ops (frame L (R4 v # vs) r) = Inr (frame L2 (R4 w # vs) r)" if "has_room L (R4 v # vs) r" for r
    using step_frame [OF that assms] unfolding Let_def L1_def [symmetric] w_def [symmetric] L2_def [symmetric] .
  ultimately show ?thesis by (intro exI [of _ L2] exI [of _ w]) simp
qed

lemma step_slots:
  assumes "select_step_handler base fe inst st \<noteq> Inl VUndefined"
  obtains tmp poly source shift prev flags dst where
    "map raw_i64 (map Some (cn_operands inst)) = [Some tmp, Some poly, Some source, Some shift, Some prev, Some flags, Some dst]"
proof -
  have "\<exists>tmp poly source shift prev flags dst.
      map raw_i64 (map Some (cn_operands inst)) = [Some tmp, Some poly, Some source, Some shift, Some prev, Some flags, Some dst]"
    using assms unfolding select_step_handler_def by (auto split: list.splits option.splits)
  then show thesis by (elim exE) (rule that)
qed

lemma select_step_agrees:
  assumes same: "same_below st st'"
  shows "agree same_below (select_step_handler base fe inst st) (select_step_handler base fe inst st')"
proof (cases "select_step_handler base fe inst st = Inl VUndefined")
  case False
  obtain lo r r' where st: "st = stack_with lo r" "st' = stack_with lo r'" "length r = length r'" "length lo + length r < 2 ^ 64"
    using same_belowE [OF same] .
  obtain tmp poly source shift prev flags dst where
    slots: "map raw_i64 (map Some (cn_operands inst)) = [Some tmp, Some poly, Some source, Some shift, Some prev, Some flags, Some dst]"
    using step_slots [OF False] .
  let ?tee = "(ucast flags :: u32) AND I32_SELECT_BIT_STEP_TEE_DST \<noteq> 0" and ?ops = "[tmp, poly, source, shift, prev, flags, dst]"
  have handler: "select_step_handler base fe inst s = (if (\<forall>w \<in> set ([tmp, source, prev] @ (if ?tee then [dst] else [])).
      base + unat (ucast w :: u32) + 4 \<le> fe) \<and> fe + 4 \<le> sk_top s then i32_select_bit_step4_at base ?ops s else Inl VUndefined)" for s
    unfolding select_step_handler_def slots by simp
  have guard: "(\<forall>w \<in> set ([tmp, source, prev] @ (if ?tee then [dst] else [])). base + unat (ucast w :: u32) + 4 \<le> fe)" "fe + 4 \<le> length lo"
    using False unfolding handler st(1) by (auto split: if_splits)
  define L where "L = take (length lo - 4) lo"
  have "length (drop (length lo - 4) lo) = 4" using guard(2) by simp
  then have lo: "lo = L @ to_le 4 (from_le (drop (length lo - 4) lo) :: u32)"
    using to_le_from_le [where 'a = 32, of "drop (length lo - 4) lo"] unfolding L_def by simp
  then obtain v :: u32 where lo: "lo = L @ to_le 4 v" by blast
  then have frames: "stack_with lo q = frame L [R4 v] q" for q by (simp add: frame_def)
  have inside: "inside base L 4 (ucast tmp)" "inside base L 4 (ucast source)" "inside base L 4 (ucast prev)" "?tee \<Longrightarrow> inside base L 4 (ucast dst)"
    using guard lo by (auto simp: inside_def)
  have room: "has_room L [R4 v] r" "has_room L [R4 v] r'" using st lo by (auto simp: has_room_def)
  obtain L' w where run: "length L' = length L" "\<And>r. has_room L [R4 v] r \<Longrightarrow> i32_select_bit_step4_at base ?ops (frame L [R4 v] r) = Inr (frame L' [R4 w] r)"
    using step_frame_ex [where ops = ?ops and poly = "ucast poly" and shift = "ucast shift" and v = v and vs = "[]", OF inside] by auto
  have "same_below (frame L' [R4 w] r) (frame L' [R4 w] r')" using room st(3) run(1) by (intro same_below_frame) (auto simp: has_room_def)
  moreover have "fe + 4 \<le> sk_top st" "fe + 4 \<le> sk_top st'" using guard(2) st by simp_all
  ultimately show ?thesis using guard(1) run(2) [OF room(1)] run(2) [OF room(2)] st(1,2) unfolding handler frames by simp
qed simp

lemma plain_agrees:
  assumes "same_below st st'" "plain_handler base fe inst = Some h"
  shows "agree same_below (h st) (h st')"
  using assms select_ops_agree [OF assms(1)] select_step_agrees [OF assms(1)] local_ops_agree [OF assms(1), of base fe inst] operator_agrees [OF assms(1)] shape_agrees [OF assms(1)] word_agrees [OF assms(1)]
  by (cases "cn_op inst") (auto simp: plain_handler_def op_i32_const_def op_i64_const_def op_i32_eqz_def split: option.splits)


lemma agree_state_simps [simp]:
  "agree_state (Inr (x, w, st)) (Inr (x', w', st')) \<longleftrightarrow> x = x' \<and> w = w' \<and> same_below st st'" "agree_state (Inl VUndefined) r"
  by (auto simp: agree_state_def)

lemma agree_state_bind:
  assumes "agree_state r r'" "\<And>x w st st'. same_below st st' \<Longrightarrow> agree_state (f (x, w, st)) (g (x, w, st'))"
  shows "agree_state (rbind r f) (rbind r' g)"
  using assms unfolding agree_state_def by (intro agree_bind [OF assms(1) [unfolded agree_state_def]]) auto

lemma agree_stack_bind:
  assumes "agree same_below r r'" "\<And>st st'. same_below st st' \<Longrightarrow> agree_state (f st) (g st')"
  shows "agree_state (rbind r f) (rbind r' g)"
  using agree_bind [OF assms(1)] assms(2) unfolding agree_state_def by blast

lemma agree_pop_bind:
  assumes "same_below st st'" "\<And>c st st'. same_below st st' \<Longrightarrow> agree_state (f (c, st)) (g (c, st'))"
  shows "agree_state (rbind (pop_u32 st) f) (rbind (pop_u32 st') g)"
  using agree_value_bind [OF word_agrees(4) [OF assms(1)]] assms(2) unfolding agree_state_def by blast

lemma plain_handler_control:
  "plain_handler base fe inst = None \<Longrightarrow> cn_op inst \<in> {Op_br, Op_else, Op_return, Op_br_if, Op_if, Op_br_table} \<or>
    exec_inst other base fe inst s = rbind (other (cn_op inst) (cn_operands inst) s) (\<lambda>(x, s). Inr (map_option Leave x, s))"
  by (cases "cn_op inst") (auto simp: plain_handler_def exec_inst_def)

lemma goto_agrees: "same_below st st' \<Longrightarrow> agree_state (goto_operand inst k (w, st)) (goto_operand inst k (w, st'))"
  by (auto simp: goto_operand_def agree_state_def split: option.splits)

lemma control_agrees:
  assumes "cn_op inst \<in> {Op_br, Op_else, Op_return, Op_br_if, Op_if, Op_br_table}" "same_below st st'"
  shows "agree_state (exec_inst other base fe inst (w, st)) (exec_inst other base fe inst (w, st'))"
proof -
  have none: "plain_handler base fe inst = None" using assms(1) by (auto simp: plain_handler_def)
  show ?thesis
    using assms none by (auto simp: exec_inst_def goto_agrees intro!: agree_pop_bind split: option.splits)
qed

lemma inst_agrees:
  assumes "ignores_garbage other" "same_below st st'"
  shows "agree_state (exec_inst other base fe inst (w, st)) (exec_inst other base fe inst (w, st'))"
proof (cases "plain_handler base fe inst")
  case (Some h)
  then show ?thesis using plain_agrees [OF assms(2) Some] by (auto simp: exec_inst_def intro!: agree_stack_bind)
next
  case None
  show ?thesis
  proof (cases "cn_op inst \<in> {Op_br, Op_else, Op_return, Op_br_if, Op_if, Op_br_table}")
    case False
    have "agree_state (other (cn_op inst) (cn_operands inst) (w, st)) (other (cn_op inst) (cn_operands inst) (w, st'))"
      using assms unfolding ignores_garbage_def by blast
    then show ?thesis using plain_handler_control [OF None, of other "(w, st)"] plain_handler_control [OF None, of other "(w, st')"] False
      by (auto intro!: agree_state_bind)
  qed (rule control_agrees [OF _ assms(2)])
qed

section \<open>Blocks\<close>

text \<open>One list of instructions may take the place of another.\<close>

definition replaces :: "('w, 'x) other_handlers \<Rightarrow> nat \<Rightarrow> nat \<Rightarrow> canon_inst list \<Rightarrow> canon_inst list \<Rightarrow> bool" where
  "replaces other base fe new old \<longleftrightarrow>
     (\<forall>w st st'. same_below st st' \<longrightarrow> agree_state (run_insts other base fe old (w, st)) (run_insts other base fe new (w, st')))"

lemma run_append:
  "run_insts other base fe (xs @ ys) s =
     rbind (run_insts other base fe xs s) (\<lambda>(x, s). case x of Some e \<Rightarrow> Inr (Some e, s) | None \<Rightarrow> run_insts other base fe ys s)"
proof (induction xs arbitrary: s)
  case (Cons i xs)
  show ?case
  proof (cases "exec_inst other base fe i s")
    case (Inr r)
    then show ?thesis by (cases r; cases "fst r") (simp_all add: Cons.IH)
  qed simp
qed simp

lemma replaces_append:
  assumes "replaces other base fe ys xs" "replaces other base fe ys' xs'"
  shows "replaces other base fe (ys @ ys') (xs @ xs')"
  unfolding replaces_def run_append
proof (intro allI impI)
  fix w st st'
  assume "same_below st st'"
  then have "agree_state (run_insts other base fe xs (w, st)) (run_insts other base fe ys (w, st'))" using assms(1) by (simp add: replaces_def)
  then show "agree_state (rbind (run_insts other base fe xs (w, st)) (\<lambda>(x, s). case x of Some e \<Rightarrow> Inr (Some e, s) | None \<Rightarrow> run_insts other base fe xs' s))
      (rbind (run_insts other base fe ys (w, st')) (\<lambda>(x, s). case x of Some e \<Rightarrow> Inr (Some e, s) | None \<Rightarrow> run_insts other base fe ys' s))"
    using assms(2) by (auto simp: replaces_def intro!: agree_state_bind split: option.splits)
qed

lemma replaces_refl: "ignores_garbage other \<Longrightarrow> replaces other base fe xs xs"
proof (induction xs)
  case (Cons i xs)
  have "replaces other base fe [i] [i]" unfolding replaces_def
  proof (intro allI impI)
    fix w st st'
    assume "same_below st st'"
    from inst_agrees [OF Cons.prems this] show "agree_state (run_insts other base fe [i] (w, st)) (run_insts other base fe [i] (w, st'))"
      by (auto intro!: agree_state_bind split: option.splits)
  qed
  from replaces_append [OF this Cons.IH [OF Cons.prems]] show ?case by simp
qed (simp add: replaces_def agree_state_def)


section \<open>Constant operators\<close>

lemma run_frame:
  assumes "plain_handler base fe i = Some h"
  shows "run_insts other base fe (i # is) (w, st) = rbind (h st) (\<lambda>st. run_insts other base fe is (w, st))"
  using assms by (cases "h st") (simp_all add: exec_inst_def)

lemma bin_value:
  "has_room L [R4 b, R4 a] rest \<Longrightarrow> eval_i32_const_op (Op_i32_bin opn) a b = Some v \<Longrightarrow>
    i32_bin_handler opn (frame L [R4 b, R4 a] rest) = Inr (frame L [R4 v] (to_le 4 b @ rest))"
  "has_room L [R8 d, R8 c] rest \<Longrightarrow> eval_i64_binop (Op_i64_bin opn) c d = Some u \<Longrightarrow>
    i64_bin_handler opn (frame L [R8 d, R8 c] rest) = Inr (frame L [R8 u] (to_le 8 d @ rest))"
  by (cases opn; simp add: i32_bin_handler_def eval_i32_const_op_def frame_shapes frame_reduce op_i32_add_def op_i32_sub_def op_i32_mul_def
      op_i32_and_def op_i32_or_def op_i32_xor_def op_i32_shl_def op_i32_shr_s_def op_i32_shr_u_def op_i32_rotl_def op_i32_rotr_def
      reduce_top_i32_add_def reduce_top_i32_sub_def wasm_i32_shl_def wasm_i32_shr_s_def wasm_i32_shr_u_def shift_amount mult.commute)
    (cases opn; simp add: i64_bin_handler_def eval_i64_binop_def frame_shapes8 op_i64_add_def op_i64_sub_def op_i64_mul_def op_i64_and_def op_i64_or_def
      op_i64_xor_def op_i64_shl_def op_i64_shr_s_def op_i64_shr_u_def op_i64_rotl_def op_i64_rotr_def wasm_i64_shl_def wasm_i64_shr_s_def
      wasm_i64_shr_u_def shift_amount mult.commute add.commute)

lemma rel_value:
  "has_room L [R4 b, R4 a] rest \<Longrightarrow> eval_i32_const_op (Op_i32_rel opn) a b = Some v \<Longrightarrow>
    i32_rel_handler opn (frame L [R4 b, R4 a] rest) = Inr (frame L [R4 v] (to_le 4 b @ rest))"
  "has_room L [R8 d, R8 c] rest \<Longrightarrow> eval_i64_compare (Op_i64_rel opn) c d = Some t \<Longrightarrow>
    i64_rel_handler opn (frame L [R8 d, R8 c] rest) = Inr (frame L [R4 (of_bool t)] (drop 4 (to_le 8 c) @ to_le 8 d @ rest))"
  by (cases opn; simp add: i32_rel_handler_def eval_i32_const_op_def frame_shapes op_i32_eq_def op_i32_ne_def op_i32_lt_s_def op_i32_lt_u_def
      op_i32_gt_s_def op_i32_gt_u_def op_i32_le_s_def op_i32_le_u_def op_i32_ge_s_def op_i32_ge_u_def eq_commute)
    (cases opn; simp add: i64_rel_handler_def eval_i64_compare_def frame_shapes8 op_i64_eq_def op_i64_ne_def op_i64_lt_s_def op_i64_lt_u_def
      op_i64_gt_s_def op_i64_gt_u_def op_i64_le_s_def op_i64_le_u_def op_i64_ge_s_def op_i64_ge_u_def)

lemma eval_ops:
  "eval_i32_const_op op a b = Some v \<Longrightarrow> (\<exists>k. op = Op_i32_bin k) \<or> (\<exists>k. op = Op_i32_rel k)"
  "eval_i64_binop op c d = Some u \<Longrightarrow> \<exists>k. op = Op_i64_bin k" "eval_i64_compare op c d = Some t \<Longrightarrow> \<exists>k. op = Op_i64_rel k"
  by (cases op; simp add: eval_i32_const_op_def eval_i64_binop_def eval_i64_compare_def)+

text \<open>The handlers of constants on a stack without operands of the block.\<close>

lemma const_handlers:
  "cn_op i = Op_i32_const \<Longrightarrow> raw_i32 (first_operand i) = Some v \<Longrightarrow> plain_handler base fe i = Some (op_i32_const v)"
  "cn_op i = Op_i64_const \<Longrightarrow> raw_i64 (first_operand i) = Some u \<Longrightarrow> plain_handler base fe i = Some (op_i64_const u)"
  by (simp_all add: plain_handler_def)

lemma const_frame:
  assumes "has_room L vs rest"
  shows "op_i32_const v (frame L vs rest) = (if 4 \<le> length rest then Inr (frame L (R4 v # vs) (drop 4 rest)) else Inl VStackOverflow)"
    "op_i64_const u (frame L vs rest) = (if 8 \<le> length rest then Inr (frame L (R8 u # vs) (drop 8 rest)) else Inl VStackOverflow)"
  using assms by (simp_all add: op_i32_const_def op_i64_const_def frame_steps)

lemma folded_handlers:
  "plain_handler base fe (folded_const_inst a b Op_i32_const (raw_i32_operand v)) = Some (op_i32_const v)"
  "plain_handler base fe (folded_const_inst a b Op_i64_const (raw_i64_operand u)) = Some (op_i64_const u)"
  by (simp_all add: plain_handler_def folded_const_inst_def first_operand_def get_idx_def raw_i32_def raw_i64_def raw_i32_operand_def raw_i64_operand_def)

text \<open>A sequence that leaves one value on the stack may be replaced by the instruction that pushes it.\<close>

definition pushes :: "(stack \<Rightarrow> vm_stop + stack) \<Rightarrow> raw \<Rightarrow> bool" where
  "pushes h x \<longleftrightarrow> (\<forall>L vs r. has_room L vs r \<longrightarrow>
     h (frame L vs r) = (if length (raw_bytes x) \<le> length r then Inr (frame L (x # vs) (drop (length (raw_bytes x)) r)) else Inl VStackOverflow))"

text \<open>An operator takes operands from the stack and leaves its result.\<close>

definition computes :: "(stack \<Rightarrow> vm_stop + stack) \<Rightarrow> raw list \<Rightarrow> raw \<Rightarrow> bool" where
  "computes h xs y \<longleftrightarrow> (\<forall>L r. has_room L xs r \<longrightarrow>
     (\<exists>r'. length r' + length (raw_bytes y) = length r + length (raws xs) \<and> h (frame L xs r) = Inr (frame L [y] r')))"

definition leaves :: "('w, 'x) other_handlers \<Rightarrow> nat \<Rightarrow> nat \<Rightarrow> canon_inst list \<Rightarrow> raw \<Rightarrow> bool" where
  "leaves other base fe xs x \<longleftrightarrow> (\<forall>w L r. has_room L [] r \<longrightarrow> run_insts other base fe xs (w, frame L [] r) = Inl VStackOverflow \<or>
     (\<exists>r'. length r' + length (raw_bytes x) = length r \<and> run_insts other base fe xs (w, frame L [] r) = Inr (None, w, frame L [x] r')))"

lemma const_pushes: "pushes (op_i32_const v) (R4 v)" "pushes (op_i64_const u) (R8 u)"
  by (auto simp: pushes_def const_frame)

lemma replaces_const:
  assumes "plain_handler base fe i = Some h" "pushes h x" "leaves other base fe xs x"
  shows "replaces other base fe [i] xs"
  unfolding replaces_def
proof (intro allI impI)
  fix w st st'
  assume "same_below st st'"
  then obtain L r r' where st: "st = frame L [] r" "st' = frame L [] r'" "length r = length r'" "has_room L [] r" "has_room L [] r'"
    using same_frames by blast
  have h: "h (frame L [] r') = (if length (raw_bytes x) \<le> length r' then Inr (frame L [x] (drop (length (raw_bytes x)) r')) else Inl VStackOverflow)"
    using assms(2) st(5) by (simp add: pushes_def)
  from assms(3) st(4) have "run_insts other base fe xs (w, frame L [] r) = Inl VStackOverflow \<or>
     (\<exists>r'. length r' + length (raw_bytes x) = length r \<and> run_insts other base fe xs (w, frame L [] r) = Inr (None, w, frame L [x] r'))"
    by (simp add: leaves_def)
  then have "agree_state (run_insts other base fe xs (w, frame L [] r)) (run_insts other base fe [i] (w, frame L [] r'))"
  proof (elim disjE exE conjE)
    fix r''
    assume r: "length r'' + length (raw_bytes x) = length r" "run_insts other base fe xs (w, frame L [] r) = Inr (None, w, frame L [x] r'')"
    then have "same_below (frame L [x] r'') (frame L [x] (drop (length (raw_bytes x)) r'))" using st by (intro same_below_frame) (auto simp: has_room_def)
    moreover have "length (raw_bytes x) \<le> length r'" using r st by simp
    ultimately show ?thesis using r by (simp add: run_frame [OF assms(1)] h del: run_insts.simps(2))
  qed (simp add: agree_state_def)
  then show "agree_state (run_insts other base fe xs (w, st)) (run_insts other base fe [i] (w, st'))" using st by simp
qed

lemma pushed_room: "length (raw_bytes x) \<le> length r \<Longrightarrow> has_room L (x # vs) (drop (length (raw_bytes x)) r) = has_room L vs r"
  by (auto simp: has_room_def)

lemma leaves_operator:
  assumes "plain_handler base fe a = Some ha" "pushes ha x" "plain_handler base fe b = Some hb"
  shows "computes hb [x] y \<Longrightarrow> leaves other base fe [a, b] y"
    "pushes hb x' \<Longrightarrow> plain_handler base fe c = Some hc \<Longrightarrow> computes hc [x', x] y \<Longrightarrow> leaves other base fe [a, b, c] y"
proof -
  have one: "run_insts other base fe (a # is) (w, frame L [] r) =
      (if length (raw_bytes x) \<le> length r then run_insts other base fe is (w, frame L [x] (drop (length (raw_bytes x)) r)) else Inl VStackOverflow)"
    if "has_room L [] r" for "is" w L r using that assms(2) by (simp only: run_frame [OF assms(1)]) (simp add: pushes_def)
  show "leaves other base fe [a, b] y" if "computes hb [x] y"
    unfolding leaves_def
  proof (intro allI impI)
    fix w L r
    assume room: "has_room L [] r"
    show "run_insts other base fe [a, b] (w, frame L [] r) = Inl VStackOverflow \<or>
      (\<exists>r'. length r' + length (raw_bytes y) = length r \<and> run_insts other base fe [a, b] (w, frame L [] r) = Inr (None, w, frame L [y] r'))"
    proof (cases "length (raw_bytes x) \<le> length r")
      case True
      with that room obtain r' where "length r' + length (raw_bytes y) = length r" "hb (frame L [x] (drop (length (raw_bytes x)) r)) = Inr (frame L [y] r')"
        using pushed_room [OF True, of L "[]"] unfolding computes_def by fastforce
      then show ?thesis using True by (auto simp: one [OF room] run_frame [OF assms(3)] simp del: run_insts.simps(2))
    qed (simp add: one [OF room] del: run_insts.simps(2))
  qed
  show "leaves other base fe [a, b, c] y" if hb: "pushes hb x'" and hc: "plain_handler base fe c = Some hc" and cc: "computes hc [x', x] y"
    unfolding leaves_def
  proof (intro allI impI)
    fix w L r
    assume room: "has_room L [] r"
    let ?n = "length (raw_bytes x)" and ?m = "length (raw_bytes x')"
    show "run_insts other base fe [a, b, c] (w, frame L [] r) = Inl VStackOverflow \<or>
      (\<exists>r'. length r' + length (raw_bytes y) = length r \<and> run_insts other base fe [a, b, c] (w, frame L [] r) = Inr (None, w, frame L [y] r'))"
    proof (cases "?n + ?m \<le> length r")
      case True
      have room1: "has_room L [x] (drop ?n r)" using room True by (simp add: pushed_room)
      have room2: "has_room L [x', x] (drop (?m + ?n) r)" using pushed_room [of x' "drop ?n r" L "[x]"] room1 True by (simp add: add.commute)
      have b: "hb (frame L [x] (drop ?n r)) = Inr (frame L [x', x] (drop (?m + ?n) r))"
        using hb room1 True by (auto simp: pushes_def add.commute)
      from cc room2 True obtain r' where "length r' + length (raw_bytes y) = length r" "hc (frame L [x', x] (drop (?m + ?n) r)) = Inr (frame L [y] r')"
        unfolding computes_def by fastforce
      then show ?thesis using True by (auto simp: one [OF room] run_frame [OF assms(3)] run_frame [OF hc] b simp del: run_insts.simps(2))
    next
      case False
      have "run_insts other base fe [b, c] (w, frame L [x] (drop ?n r)) = Inl VStackOverflow" if "?n \<le> length r"
      proof -
        have "has_room L [x] (drop ?n r)" using room that by (simp add: pushed_room)
        then have "hb (frame L [x] (drop ?n r)) = Inl VStackOverflow" using hb False that by (auto simp: pushes_def)
        then show ?thesis by (simp add: run_frame [OF assms(3)] del: run_insts.simps(2))
      qed
      then show ?thesis by (simp add: one [OF room] del: run_insts.simps(2))
    qed
  qed
qed

lemma computesI:
  "(\<And>L r. has_room L xs r \<Longrightarrow> h (frame L xs r) = Inr (frame L [y] (g r))) \<Longrightarrow>
   (\<And>r. length (g r) + length (raw_bytes y) = length r + length (raws xs)) \<Longrightarrow> computes h xs y"
  unfolding computes_def by blast

lemma const_computes:
  "computes op_i32_eqz [R4 a] (R4 (of_bool (a = 0)))" "computes op_i64_eqz [R8 c] (R4 (of_bool (c = 0)))"
  "eval_i32_const_op (Op_i32_bin opn) a b = Some v \<Longrightarrow> computes (i32_bin_handler opn) [R4 b, R4 a] (R4 v)"
  "eval_i32_const_op (Op_i32_rel rel) a b = Some v \<Longrightarrow> computes (i32_rel_handler rel) [R4 b, R4 a] (R4 v)"
  "eval_i64_binop (Op_i64_bin opn) c d = Some u \<Longrightarrow> computes (i64_bin_handler opn) [R8 d, R8 c] (R8 u)"
  "eval_i64_compare (Op_i64_rel rel) c d = Some t \<Longrightarrow> computes (i64_rel_handler rel) [R8 d, R8 c] (R4 (of_bool t))"
proof -
  show "computes op_i32_eqz [R4 a] (R4 (of_bool (a = 0)))"
    by (rule computesI [of _ _ _ "\<lambda>r. r"]) (simp_all add: op_i32_eqz_def frame_shapes)
  show "computes op_i64_eqz [R8 c] (R4 (of_bool (c = 0)))"
    by (rule computesI [of _ _ _ "\<lambda>r. drop 4 (to_le 8 c) @ r"]) (simp_all add: op_i64_eqz_def frame_steps)
  show "computes (i32_bin_handler opn) [R4 b, R4 a] (R4 v)" if "eval_i32_const_op (Op_i32_bin opn) a b = Some v"
    by (rule computesI [of _ _ _ "\<lambda>r. to_le 4 b @ r"]) (simp_all add: bin_value(1) [OF _ that])
  show "computes (i32_rel_handler rel) [R4 b, R4 a] (R4 v)" if "eval_i32_const_op (Op_i32_rel rel) a b = Some v"
    by (rule computesI [of _ _ _ "\<lambda>r. to_le 4 b @ r"]) (simp_all add: rel_value(1) [OF _ that])
  show "computes (i64_bin_handler opn) [R8 d, R8 c] (R8 u)" if "eval_i64_binop (Op_i64_bin opn) c d = Some u"
    by (rule computesI [of _ _ _ "\<lambda>r. to_le 8 d @ r"]) (simp_all add: bin_value(2) [OF _ that])
  show "computes (i64_rel_handler rel) [R8 d, R8 c] (R4 (of_bool t))" if "eval_i64_compare (Op_i64_rel rel) c d = Some t"
    by (rule computesI [of _ _ _ "\<lambda>r. drop 4 (to_le 8 c) @ to_le 8 d @ r"]) (simp_all add: rel_value(2) [OF _ that])
qed

lemma i32_window:
  assumes "fold_i32_const_window insts = Some (i, n)"
  shows "n \<le> length insts \<and> replaces other base fe [i] (take n insts)"
proof -
  consider a b rest v where "insts = a # b # rest" "n = 2" "cn_op a = Op_i32_const" "cn_op b = Op_i32_eqz" "raw_i32 (first_operand a) = Some v"
      "i = folded_const_inst a b Op_i32_const (raw_i32_operand (of_bool (v = 0)))"
    | a b c rest x y v where "insts = a # b # c # rest" "n = 3" "cn_op a = Op_i32_const" "cn_op b = Op_i32_const"
      "raw_i32 (first_operand a) = Some x" "raw_i32 (first_operand b) = Some y" "eval_i32_const_op (cn_op c) x y = Some v"
      "i = folded_const_inst a c Op_i32_const (raw_i32_operand v)"
    using assms by (auto simp: fold_i32_const_window_def bind_eq_Some_conv split: list.splits if_splits)
  then show ?thesis
  proof cases
    case 1
    have "plain_handler base fe b = Some op_i32_eqz" using 1 by (simp add: plain_handler_def)
    from leaves_operator(1) [where other = other, OF const_handlers(1) [OF 1(3,5)] const_pushes(1) this const_computes(1)]
    have "replaces other base fe [i] [a, b]" unfolding 1(6) by (rule replaces_const [OF folded_handlers(1) const_pushes(1)])
    then show ?thesis using 1 by simp
  next
    case 2
    have "\<exists>h. plain_handler base fe c = Some h \<and> computes h [R4 y, R4 x] (R4 v)"
      using eval_ops(1) [OF 2(7)] const_computes(3,4) 2(7) by (auto simp: plain_handler_def)
    then have "leaves other base fe [a, b, c] (R4 v)"
      using leaves_operator(2) [OF const_handlers(1) [OF 2(3,5)] const_pushes(1) const_handlers(1) [OF 2(4,6)] const_pushes(1)] by blast
    then have "replaces other base fe [i] [a, b, c]" unfolding 2(8) by (rule replaces_const [OF folded_handlers(1) const_pushes(1)])
    then show ?thesis using 2 by (simp add: eval_nat_numeral)
  qed
qed

lemma i64_window:
  assumes "fold_i64_const_window insts = Some (i, n)"
  shows "n \<le> length insts \<and> replaces other base fe [i] (take n insts)"
proof -
  consider a b rest v where "insts = a # b # rest" "n = 2" "cn_op a = Op_i64_const" "cn_op b = Op_i64_eqz" "raw_i64 (first_operand a) = Some v"
      "i = folded_const_inst a b Op_i32_const (raw_i32_operand (of_bool (v = 0)))"
    | a b c rest x y v where "insts = a # b # c # rest" "n = 3" "cn_op a = Op_i64_const" "cn_op b = Op_i64_const"
      "raw_i64 (first_operand a) = Some x" "raw_i64 (first_operand b) = Some y" "eval_i64_binop (cn_op c) x y = Some v"
      "i = folded_const_inst a c Op_i64_const (raw_i64_operand v)"
    | a b c rest x y t where "insts = a # b # c # rest" "n = 3" "cn_op a = Op_i64_const" "cn_op b = Op_i64_const"
      "raw_i64 (first_operand a) = Some x" "raw_i64 (first_operand b) = Some y" "eval_i64_compare (cn_op c) x y = Some t"
      "i = folded_const_inst a c Op_i32_const (raw_i32_operand (of_bool t))"
    using assms by (auto simp: fold_i64_const_window_def bind_eq_Some_conv split: list.splits if_splits option.splits)
  then show ?thesis
  proof cases
    case 1
    have "plain_handler base fe b = Some op_i64_eqz" using 1 by (simp add: plain_handler_def)
    from leaves_operator(1) [where other = other, OF const_handlers(2) [OF 1(3,5)] const_pushes(2) this const_computes(2)]
    have "replaces other base fe [i] [a, b]" unfolding 1(6) by (rule replaces_const [OF folded_handlers(1) const_pushes(1)])
    then show ?thesis using 1 by simp
  next
    case 2
    have "\<exists>h. plain_handler base fe c = Some h \<and> computes h [R8 y, R8 x] (R8 v)"
      using eval_ops(2) [OF 2(7)] const_computes(5) 2(7) by (auto simp: plain_handler_def)
    then have "leaves other base fe [a, b, c] (R8 v)"
      using leaves_operator(2) [OF const_handlers(2) [OF 2(3,5)] const_pushes(2) const_handlers(2) [OF 2(4,6)] const_pushes(2)] by blast
    then have "replaces other base fe [i] [a, b, c]" unfolding 2(8) by (rule replaces_const [OF folded_handlers(2) const_pushes(2)])
    then show ?thesis using 2 by (simp add: eval_nat_numeral)
  next
    case 3
    obtain k where k: "cn_op c = Op_i64_rel k" using eval_ops(3) [OF 3(7)] by blast
    have "\<exists>h. plain_handler base fe c = Some h \<and> computes h [R8 y, R8 x] (R4 (of_bool t))"
      using const_computes(6) [OF 3(7) [unfolded k]] by (intro exI [of _ "i64_rel_handler k"] conjI) (simp_all only: plain_handler_def k vm_op.case)
    then have "leaves other base fe [a, b, c] (R4 (of_bool t))"
      using leaves_operator(2) [OF const_handlers(2) [OF 3(3,5)] const_pushes(2) const_handlers(2) [OF 3(4,6)] const_pushes(2)] by blast
    then have "replaces other base fe [i] [a, b, c]" unfolding 3(8) by (rule replaces_const [OF folded_handlers(1) const_pushes(1)])
    then show ?thesis using 3 by (simp add: eval_nat_numeral)
  qed
qed

lemma fold_const_loop_replaces:
  assumes "ignores_garbage other"
  shows "replaces other base fe (fst (fold_const_loop insts)) insts"
proof (induction insts rule: fold_const_loop.induct)
  case 1
  show ?case using replaces_refl [OF assms] by simp
next
  case (2 i insts)
  have window: "replaces other base fe (j # fst (fold_const_loop (drop n (i # insts)))) (i # insts)"
    if "replaces other base fe [j] (take n (i # insts))" "replaces other base fe (fst (fold_const_loop (drop n (i # insts)))) (drop n (i # insts))" for j n
    using replaces_append [OF that] by (metis append_Cons append_Nil append_take_drop_id)
  have skip: "replaces other base fe (i # fst (fold_const_loop insts)) (i # insts)"
    if "replaces other base fe (fst (fold_const_loop insts)) insts"
    using replaces_append [OF replaces_refl [OF assms, of base fe "[i]"] that] by simp
  show ?case
  proof (cases "fold_i32_const_window (i # insts)")
    case (Some r)
    obtain j n where r: "r = (j, n)" by (cases r)
    then have "replaces other base fe (j # fst (fold_const_loop (drop n (i # insts)))) (i # insts)"
      using i32_window [of "i # insts" j n other base fe] Some 2(3) [OF Some r [symmetric]] by (intro window) auto
    then show ?thesis using Some r by (auto split: prod.splits)
  next
    case None
    note n32 = None
    show ?thesis
    proof (cases "fold_i64_const_window (i # insts)")
      case (Some r)
      obtain j n where r: "r = (j, n)" by (cases r)
      then have "replaces other base fe (j # fst (fold_const_loop (drop n (i # insts)))) (i # insts)"
        using i64_window [of "i # insts" j n other base fe] Some 2(2) [OF n32 Some r [symmetric]] by (intro window) auto
      then show ?thesis using Some r n32 by (auto split: prod.splits)
    next
      case None
      then show ?thesis using skip [OF 2(1) [OF n32 None]] n32 by (auto split: prod.splits)
    qed
  qed
qed

section \<open>Constant branches\<close>

lemma leaves_const:
  assumes "plain_handler base fe a = Some h" "pushes h x"
  shows "leaves other base fe [a] x"
  unfolding leaves_def
proof (intro allI impI)
  fix w L r
  assume "has_room L [] r"
  then have "h (frame L [] r) = (if length (raw_bytes x) \<le> length r then Inr (frame L [x] (drop (length (raw_bytes x)) r)) else Inl VStackOverflow)"
    using assms(2) by (simp add: pushes_def)
  then show "run_insts other base fe [a] (w, frame L [] r) = Inl VStackOverflow \<or>
      (\<exists>r'. length r' + length (raw_bytes x) = length r \<and> run_insts other base fe [a] (w, frame L [] r) = Inr (None, w, frame L [x] r'))"
    by (auto simp: run_frame [OF assms(1)] simp del: run_insts.simps(2) intro!: exI [of _ "drop (length (raw_bytes x)) r"])
qed

lemma make_br_step: "exec_inst other base fe (make_br t) s = Inr (Some (Goto t), s)"
  by (simp add: exec_inst_def plain_handler_def make_br_def goto_operand_def get_idx_def jump_target_def)

lemma br_if_step:
  assumes "cn_op j = Op_br_if" "jump_target (first_operand j) = Some t"
  shows "exec_inst other base fe j (w, frame L [R4 v] r) = Inr (if v \<noteq> 0 then Some (Goto t) else None, w, frame L [] (to_le 4 v @ r))"
  using assms by (simp add: exec_inst_def plain_handler_def frame_steps goto_operand_def first_operand_def)

lemma replaces_const_branch:
  assumes "leaves other base fe xs (R4 v)" "cn_op j = Op_br_if" "jump_target (first_operand j) = Some t"
  shows "replaces other base fe (if v \<noteq> 0 then [make_br t] else []) (xs @ [j])"
  unfolding replaces_def
proof (intro allI impI)
  fix w st st'
  assume "same_below st st'"
  then obtain L r r' where st: "st = frame L [] r" "st' = frame L [] r'" "length r = length r'" "has_room L [] r" "has_room L [] r'"
    using same_frames by blast
  from assms(1) st(4) have "run_insts other base fe xs (w, frame L [] r) = Inl VStackOverflow \<or>
     (\<exists>r''. length r'' + 4 = length r \<and> run_insts other base fe xs (w, frame L [] r) = Inr (None, w, frame L [R4 v] r''))"
    by (simp add: leaves_def)
  then have "agree_state (run_insts other base fe (xs @ [j]) (w, frame L [] r)) (run_insts other base fe (if v \<noteq> 0 then [make_br t] else []) (w, frame L [] r'))"
  proof (elim disjE exE conjE)
    fix r''
    assume r: "length r'' + 4 = length r" "run_insts other base fe xs (w, frame L [] r) = Inr (None, w, frame L [R4 v] r'')"
    then have "same_below (frame L [] (to_le 4 v @ r'')) (frame L [] r')" using st by (intro same_below_frame) (auto simp: has_room_def)
    then show ?thesis by (cases "v = 0") (simp_all add: run_append r br_if_step [OF assms(2,3)] make_br_step)
  qed (simp add: agree_state_def run_append)
  then show "agree_state (run_insts other base fe (xs @ [j]) (w, st)) (run_insts other base fe (if v \<noteq> 0 then [make_br t] else []) (w, st'))"
    using st by simp
qed

lemma fold_br_if_replaces:
  assumes "ignores_garbage other" "fold_br_if insts = Some new"
  shows "replaces other base fe new insts"
proof -
  obtain j c rest v t where parts: "insts = rev rest @ [c] @ [j]" "cn_op c = Op_i32_const" "cn_op j = Op_br_if" "raw_i32 (first_operand c) = Some v"
    "jump_target (first_operand j) = Some t" "new = rev rest @ (if v \<noteq> 0 then [make_br t] else [])"
  proof -
    obtain j c rest where r: "rev insts = j # c # rest" using assms(2) by (auto simp: fold_br_if_def split: list.splits)
    moreover have ops: "cn_op c = Op_i32_const" "cn_op j = Op_br_if" using assms(2) by (auto simp: fold_br_if_def r split: if_splits)
    ultimately show thesis using assms(2) that [of rest c j] by (auto simp: fold_br_if_def bind_eq_Some_conv rev_swap)
  qed
  have "replaces other base fe (if v \<noteq> 0 then [make_br t] else []) ([c] @ [j])"
    by (rule replaces_const_branch [OF leaves_const [OF const_handlers(1) [OF parts(2,4)] const_pushes(1)] parts(3,5)])
  from replaces_append [OF replaces_refl [OF assms(1)] this] show ?thesis unfolding parts(1,6) .
qed

lemma fold_eqz_br_if_replaces:
  assumes "ignores_garbage other" "fold_eqz_br_if insts = Some new"
  shows "replaces other base fe new insts"
proof -
  obtain j z c rest v t where parts: "insts = rev rest @ [c, z] @ [j]" "cn_op c = Op_i32_const" "cn_op z = Op_i32_eqz" "cn_op j = Op_br_if"
    "raw_i32 (first_operand c) = Some v" "jump_target (first_operand j) = Some t" "new = rev rest @ (if v = 0 then [make_br t] else [])"
  proof -
    obtain j z c rest where r: "rev insts = j # z # c # rest" using assms(2) by (auto simp: fold_eqz_br_if_def split: list.splits)
    moreover have ops: "cn_op c = Op_i32_const" "cn_op z = Op_i32_eqz" "cn_op j = Op_br_if"
      using assms(2) by (auto simp: fold_eqz_br_if_def r split: if_splits)
    ultimately show thesis using assms(2) that [of rest c z j] by (auto simp: fold_eqz_br_if_def bind_eq_Some_conv rev_swap)
  qed
  have "plain_handler base fe z = Some op_i32_eqz" using parts by (simp add: plain_handler_def)
  from leaves_operator(1) [where other = other, OF const_handlers(1) [OF parts(2,5)] const_pushes(1) this const_computes(1)]
  have "replaces other base fe (if of_bool (v = 0) \<noteq> (0 :: u32) then [make_br t] else []) ([c, z] @ [j])"
    using parts(4,6) by (rule replaces_const_branch)
  moreover have "of_bool (v = 0) \<noteq> (0 :: u32) \<longleftrightarrow> v = 0" by simp
  ultimately have "replaces other base fe (if v = 0 then [make_br t] else []) ([c, z] @ [j])" by simp
  from replaces_append [OF replaces_refl [OF assms(1)] this] show ?thesis unfolding parts(1,7) .
qed

lemma fold_const_branches_replaces:
  assumes "ignores_garbage other"
  shows "replaces other base fe (cb_insts (fst (fold_const_branches block))) (cb_insts block)"
  using fold_br_if_replaces [OF assms] fold_eqz_br_if_replaces [OF assms] replaces_refl [OF assms]
  by (auto simp: fold_const_branches_def split: option.splits)

section \<open>Coalescing\<close>

lemma slice_splice: "p + length bs \<le> length xs \<Longrightarrow> Telomere_Prelude.slice p (length bs) (splice_at p bs xs) = bs"
  by (simp add: Telomere_Prelude.slice_def splice_at_def)

text \<open>Setting a local and getting it again is setting it and keeping the operand.\<close>

lemma set_get_tee:
  assumes "same_below st st'" "base + unat (ucast w :: u32) + n \<le> fe" "fe + n \<le> sk_top st"
  shows "agree same_below (rbind (local_set_from_base n base (unat (ucast w :: u32)) st) (local_get_from_base n base (unat (ucast w :: u32))))
    (local_tee_from_base n base (unat (ucast w :: u32)) st')"
proof -
  let ?a = "unat (ucast w :: u32)"
  obtain lo r r' where st: "st = stack_with lo r" "st' = stack_with lo r'" "length r = length r'" "length lo + length r < 2 ^ 64"
    using same_belowE [OF assms(1)] .
  define L where "L = take (length lo - n) lo"
  define bs where "bs = drop (length lo - n) lo"
  have lo: "lo = L @ bs" unfolding L_def bs_def by simp
  have len: "base + ?a + n \<le> length L" "length bs = n" using assms(2,3) st by (auto simp: L_def bs_def)
  let ?L = "splice_at (base + ?a) bs L"
  have L: "length ?L = length L" using len by (simp add: mem_simps)
  have "Telomere_Prelude.slice (base + ?a) n ?L = bs" using slice_splice [of "base + ?a" bs L] len by simp
  moreover have "length (?L @ [] @ bs @ r) < 2 ^ 64" using st len L lo by simp
  ultimately have "local_get_from_base n base ?a (stack_with ?L (bs @ r)) = Inr (stack_with (?L @ bs) r)"
    using local_accesses(1) [of base ?a n ?L "[]" "bs @ r"] len L by simp
  then show ?thesis using local_accesses(2,3) [OF len(1), of bs "[]"] len st L by (simp add: lo)
qed

text \<open>The handlers of a pair of width \<open>n\<close> and of the instruction that takes its place.\<close>

lemma local_triple:
  assumes "same_below st st'" "raw_i64 (first_operand s) = Some w" "raw_i64 (first_operand g) = Some w" "cn_operands tee = cn_operands s"
    and "\<And>st. hs base [w] st = rbind (local_set_from_base n base (unat (ucast w :: u32)) st) (call_next 1)"
    and "\<And>st. base + unat (ucast w :: u32) + n \<le> fe \<Longrightarrow> fe \<le> sk_top st \<Longrightarrow> same_below st st \<Longrightarrow>
      hg base [w] st = rbind (local_get_from_base n base (unat (ucast w :: u32)) st) (call_next 1)"
    and "\<And>st. ht base [w] st = rbind (local_tee_from_base n base (unat (ucast w :: u32)) st) (call_next 1)"
  shows "agree same_below (rbind (local_handler base fe n n hs s st) (local_handler base fe n 0 hg g)) (local_handler base fe n n ht tee st')"
proof (cases "base + unat (ucast w :: u32) + n \<le> fe \<and> fe + n \<le> sk_top st")
  case True
  let ?a = "unat (ucast w :: u32)"
  have top: "sk_top st' = sk_top st" using assms(1) by (simp add: same_below_def)
  have operand: "first_operand tee = first_operand s" using assms(4) by (simp add: first_operand_def)
  have after: "same_below x x \<and> fe \<le> sk_top x" if "local_set_from_base n base ?a st = Inr x" for x
  proof -
    obtain lo r r' where st: "st = stack_with lo r" "length lo + length r < 2 ^ 64" using same_belowE [OF assms(1)] by metis
    define L where "L = take (length lo - n) lo"
    define bs where "bs = drop (length lo - n) lo"
    have lo: "lo = L @ bs" and len: "base + ?a + n \<le> length L" "length bs = n" "length L = length lo - n"
      unfolding L_def bs_def using True st by auto
    have "x = stack_with (splice_at (base + ?a) bs L) (bs @ r)" using that local_accesses(2) [OF len(1,2), of "[]" r] by (simp add: st lo)
    then show ?thesis using len st True by (auto simp: mem_simps)
  qed
  have "rbind (local_handler base fe n n hs s st) (local_handler base fe n 0 hg g) =
      rbind (local_set_from_base n base ?a st) (local_get_from_base n base ?a)"
  proof (cases "local_set_from_base n base ?a st")
    case (Inr x)
    then show ?thesis
      using after [OF Inr] True assms(2,3) assms(6) [of x] by (cases "local_get_from_base n base ?a x") (simp_all add: local_handler_def assms(5) call_next_def)
  qed (use True assms(2) in \<open>simp add: local_handler_def assms(5)\<close>)
  moreover have "local_handler base fe n n ht tee st' = local_tee_from_base n base ?a st'"
    using True top assms(2) operand by (cases "local_tee_from_base n base ?a st'") (simp_all add: local_handler_def assms(7) call_next_def)
  ultimately show ?thesis using set_get_tee [OF assms(1), of base w n fe] True by simp
next
  case False
  then have "local_handler base fe n n hs s st = Inl VUndefined" using assms(2) by (auto simp: local_handler_def)
  then show ?thesis by simp
qed

lemma replaces_plain:
  assumes "plain_handler base fe s = Some hs" "plain_handler base fe g = Some hg" "plain_handler base fe tee = Some ht"
    and "\<And>st st'. same_below st st' \<Longrightarrow> agree same_below (rbind (hs st) hg) (ht st')"
  shows "replaces other base fe [tee] [s, g]"
  unfolding replaces_def
proof (intro allI impI)
  fix w st st'
  assume "same_below st st'"
  have "run_insts other base fe [s, g] (w, st) = rbind (rbind (hs st) hg) (\<lambda>st. Inr (None, w, st))"
    by (cases "hs st") (simp_all add: run_frame [OF assms(1)] run_frame [OF assms(2)] del: run_insts.simps(2))
  moreover have "run_insts other base fe [tee] (w, st') = rbind (ht st') (\<lambda>st. Inr (None, w, st))"
    by (simp add: run_frame [OF assms(3)] del: run_insts.simps(2))
  ultimately show "agree_state (run_insts other base fe [s, g] (w, st)) (run_insts other base fe [tee] (w, st'))"
    using assms(4) [OF \<open>same_below st st'\<close>] by (auto intro!: agree_stack_bind)
qed

lemma pair_replaces:
  assumes "coalescible_pair s g"
  shows "\<exists>tee. make_coalesced_tee s g = Some tee \<and> replaces other base fe [tee] [s, g]"
proof -
  obtain tee where tee: "make_coalesced_tee s g = Some tee" using assms by (auto simp: coalescible_pair_def make_coalesced_tee_def)
  have operands: "cn_operands tee = cn_operands s" using tee by (auto simp: make_coalesced_tee_def split: if_splits)
  have widths: "cn_op s = Op_local_set4 \<and> cn_op g = Op_local_get4 \<and> cn_op tee = Op_local_tee4 \<or>
      cn_op s = Op_local_set8 \<and> cn_op g = Op_local_get8 \<and> cn_op tee = Op_local_tee8 \<or>
      cn_op s = Op_local_set16 \<and> cn_op g = Op_local_get16 \<and> cn_op tee = Op_local_tee16"
    using assms tee by (auto simp: coalescible_pair_def make_coalesced_tee_def)
  have same: "raw_i64 (first_operand g) = raw_i64 (first_operand s)"
    using assms by (auto simp: coalescible_pair_def same_operand_def raw_i64_def split: option.splits lowered_operand.splits)
  show ?thesis
  proof (cases "raw_i64 (first_operand s)")
    case None
    then have "local_handler base fe n k h s st = Inl VUndefined" for n k h st by (simp add: local_handler_def)
    then have "exec_inst other base fe s (w, st) = Inl VUndefined" for w st using widths by (auto simp: exec_inst_def plain_handler_def)
    then show ?thesis using tee by (auto simp: replaces_def)
  next
    case (Some w)
    note triple = local_triple [OF _ Some trans [OF same Some] operands]
    have "\<exists>hs hg ht. plain_handler base fe s = Some hs \<and> plain_handler base fe g = Some hg \<and> plain_handler base fe tee = Some ht \<and>
        (\<forall>st st'. same_below st st' \<longrightarrow> agree same_below (rbind (hs st) hg) (ht st'))"
      using widths
    proof (elim disjE conjE)
      assume "cn_op s = Op_local_set4" "cn_op g = Op_local_get4" "cn_op tee = Op_local_tee4"
      then show ?thesis using triple [of _ _ op_local_set4 base 4 fe op_local_get4 op_local_tee4] local_get4_from_base
        by (auto simp: plain_handler_def op_local_set4_def op_local_tee4_def)
    next
      assume "cn_op s = Op_local_set8" "cn_op g = Op_local_get8" "cn_op tee = Op_local_tee8"
      then show ?thesis using triple [of _ _ op_local_set8 base 8 fe op_local_get8 op_local_tee8]
        by (auto simp: plain_handler_def op_local_set8_def op_local_get8_def op_local_tee8_def)
    next
      assume "cn_op s = Op_local_set16" "cn_op g = Op_local_get16" "cn_op tee = Op_local_tee16"
      then show ?thesis using triple [of _ _ op_local_set16 base 16 fe op_local_get16 op_local_tee16]
        by (auto simp: plain_handler_def op_local_set16_def op_local_get16_def op_local_tee16_def)
    qed
    then show ?thesis using tee replaces_plain [of base fe s _ g _ tee _ other] by blast
  qed
qed

lemma coalesce_loop_replaces:
  assumes "ignores_garbage other"
    and "\<And>c. c \<in> pairs \<Longrightarrow> c + 1 < length insts \<and> coalescible_pair (insts ! c) (insts ! (c + 1))"
  shows "\<exists>new n. coalesce_loop pairs insts cursor = Some (new, n) \<and> replaces other base fe new (drop cursor insts)"
proof (induction "length insts - cursor" arbitrary: cursor rule: less_induct)
  case less
  have step: "coalesce_loop pairs insts cursor =
     (if cursor < length insts then
        if cursor \<in> pairs then
          Option.bind (get_idx insts (cursor + 1)) (\<lambda>get_inst.
          Option.bind (make_coalesced_tee (insts ! cursor) get_inst) (\<lambda>tee.
            map_option (\<lambda>(rewritten, n). (tee # rewritten, n + 1)) (coalesce_loop pairs insts (cursor + 2))))
        else map_option (\<lambda>(rewritten, n). (insts ! cursor # rewritten, n)) (coalesce_loop pairs insts (cursor + 1))
      else Some ([], 0))" by (rule coalesce_loop.simps)
  show ?case
  proof (cases "cursor < length insts")
    case True
    show ?thesis
    proof (cases "cursor \<in> pairs")
      case pair: True
      then have c: "cursor + 1 < length insts" "coalescible_pair (insts ! cursor) (insts ! (cursor + 1))" using assms(2) by auto
      obtain tee where tee: "make_coalesced_tee (insts ! cursor) (insts ! (cursor + 1)) = Some tee"
        "replaces other base fe [tee] [insts ! cursor, insts ! (cursor + 1)]" using pair_replaces [OF c(2)] by blast
      obtain new n where new: "coalesce_loop pairs insts (cursor + 2) = Some (new, n)" "replaces other base fe new (drop (cursor + 2) insts)"
        using less [of "cursor + 2"] True diff_less_mono2 [of cursor "cursor + 2" "length insts"] by auto
      have "drop cursor insts = [insts ! cursor, insts ! (cursor + 1)] @ drop (cursor + 2) insts"
        using c(1) Cons_nth_drop_Suc [OF True] Cons_nth_drop_Suc [of "Suc cursor" insts] by simp
      then have "replaces other base fe (tee # new) (drop cursor insts)" using replaces_append [OF tee(2) new(2)] by simp
      then show ?thesis using pair True c(1) tee(1) new(1) by (simp add: step get_idx_def)
    next
      case False
      obtain new n where new: "coalesce_loop pairs insts (cursor + 1) = Some (new, n)" "replaces other base fe new (drop (cursor + 1) insts)"
        using less [of "cursor + 1"] True diff_less_mono2 [of cursor "cursor + 1" "length insts"] by auto
      have "drop cursor insts = [insts ! cursor] @ drop (cursor + 1) insts" using Cons_nth_drop_Suc [OF True] by simp
      then have "replaces other base fe (insts ! cursor # new) (drop cursor insts)"
        using replaces_append [OF replaces_refl [OF assms(1), of base fe "[insts ! cursor]"] new(2)] by simp
      then show ?thesis using False True new(1) by (simp add: step)
    qed
  qed (use replaces_refl [OF assms(1)] in \<open>simp add: step\<close>)
qed

section \<open>The passes\<close>

lemma coalesce_replaces:
  assumes "ignores_garbage other"
  shows "\<exists>new n. coalesce_local_set_get block (coalescible_pairs block) = Some (new, n) \<and> replaces other base fe (cb_insts new) (cb_insts block)"
proof (cases "coalescible_pairs block = []")
  case True
  then show ?thesis using replaces_refl [OF assms] by (simp add: coalesce_local_set_get_def)
next
  case False
  have "c + 1 < length (cb_insts block) \<and> coalescible_pair (cb_insts block ! c) (cb_insts block ! (c + 1))" if "c \<in> set (coalescible_pairs block)" for c
    using that by (auto simp: coalescible_pairs_def)
  from coalesce_loop_replaces [where pairs = "set (coalescible_pairs block)" and insts = "cb_insts block" and cursor = 0 and base = base and fe = fe, OF assms this]
  obtain new n where
    "coalesce_loop (set (coalescible_pairs block)) (cb_insts block) 0 = Some (new, n)" "replaces other base fe new (cb_insts block)" by auto
  then show ?thesis using False by (simp add: coalesce_local_set_get_def)
qed

lemma fold_ops_replaces:
  assumes "ignores_garbage other"
  shows "replaces other base fe (cb_insts (fst (fold_const_ops block))) (cb_insts block)"
  using fold_const_loop_replaces [OF assms, of base fe "cb_insts block"] by (auto simp: fold_const_ops_def split: prod.splits)

text \<open>C39: where a value is stored in a local and read back at once, the optimizer keeps it on the stack: on every
  block the pass returns a block that ends as the given one does, with the same exit or the same trap
  and in the same state up to bytes above the top of the stack, unless the given block overflows the stack or reaches
  behaviour that is left undefined.\<close>

theorem coalesced_block_runs_as_before:
  assumes "ignores_garbage other"
  shows "\<exists>new n. coalesce_local_set_get block (coalescible_pairs block) = Some (new, n) \<and>
    (\<forall>w st. same_below st st \<longrightarrow>
      agree_state (run_insts other base fe (cb_insts block) (w, st)) (run_insts other base fe (cb_insts new) (w, st)))"
  using coalesce_replaces [OF assms, of block base fe] by (auto simp: replaces_def)

text \<open>Handlers that leave the function.\<close>

definition leave_other :: "(unit, nat) other_handlers" where
  "leave_other op ops s = Inr (Some (length ops), s)"

lemma leave_other_ignores: "ignores_garbage leave_other"
  by (simp add: ignores_garbage_def leave_other_def agree_state_def)

definition set_get_block :: canon_block where
  "set_get_block =
     \<lparr>cb_id = 0, cb_params = [], cb_insts = map (\<lambda>op. (make_br 0)\<lparr>cn_op := op, cn_operands := [Raw 8]\<rparr>) [Op_local_set8, Op_local_get8, Op_i64_eqz],
      cb_predecessors = [], cb_successors = []\<rparr>"

lemma set_get_coalesced:
  "map_option (\<lambda>(new, n). (map cn_op (cb_insts new), n)) (coalesce_local_set_get set_get_block (coalescible_pairs set_get_block)) =
   Some ([Op_local_tee8, Op_i64_eqz], 1)"
  by code_simp

theorem coalesced_block_runs_as_before_witness:
  "\<exists>new. coalesce_local_set_get set_get_block (coalescible_pairs set_get_block) = Some (new, 1) \<and> map cn_op (cb_insts new) = [Op_local_tee8, Op_i64_eqz] \<and>
    (\<forall>w st. same_below st st \<longrightarrow>
      agree_state (run_insts leave_other 0 16 (cb_insts set_get_block) (w, st)) (run_insts leave_other 0 16 (cb_insts new) (w, st)))"
  using coalesced_block_runs_as_before [OF leave_other_ignores, of set_get_block 0 16] set_get_coalesced by auto

end
