(* ===== verification/Bit_Steps.thy ===== *)
theory Bit_Steps
  imports Block_Passes
begin

text \<open>
  The pass \<open>fuse_i32_select_bit_steps\<close>.  Where the windows it finds hold constants at the places where it
  takes operands for constants, the fused instruction does what the window does.  The pass itself does
  not look at the operators at these places: a polynomial that is read from a local is taken for the
  constant whose value is the address of the local.
\<close>

section \<open>A polynomial in a local\<close>

definition inst_of :: "vm_op \<Rightarrow> lowered_operand list \<Rightarrow> canon_inst" where
  "inst_of op ops =
     \<lparr>cn_id = 0, cn_op = op, cn_operands = ops, cn_stack_before = [], cn_stack_after = [], cn_preserved_prefix_len = 0,
      cn_fresh_result_count = 0, cn_effect = 0\<rparr>"

definition checksum_step :: "canon_inst \<Rightarrow> canon_block" where
  "checksum_step poly =
     \<lparr>cb_id = 0, cb_params = [],
      cb_insts = [inst_of Op_local_get4 [Raw 4], inst_of Op_i32_const [Raw 1], inst_of (Op_i32_bin BShrU) [],
        inst_of Op_local_tee4 [Raw 12], poly, inst_of (Op_i32_bin BXor) [], inst_of Op_local_get4 [Raw 12],
        inst_of Op_local_get4 [Raw 0], inst_of Op_local_get4 [Raw 4], inst_of (Op_i32_bin BXor) [],
        inst_of Op_i32_const [Raw 1], inst_of (Op_i32_bin BAnd) [], inst_of Op_select4 []],
      cb_predecessors = [], cb_successors = []\<rparr>"

definition no_other_handlers :: "(unit, unit) other_handlers" where
  "no_other_handlers op ops s = Inl VUnreachable"

text \<open>Four locals: the data, the checksum, the polynomial and a temporary.\<close>

definition checksum_locals :: "byte list" where
  "checksum_locals = to_le 4 (1 :: u32) @ to_le 4 (0 :: u32) @ to_le 4 (5 :: u32) @ to_le 4 (0 :: u32)"

definition checksum_stack :: stack where
  "checksum_stack = frame checksum_locals [] (replicate 16 0)"

definition result_word :: "vm_stop + unit block_exit option \<times> unit \<times> stack \<Rightarrow> u32 option" where
  "result_word r = (case r of Inr (_, _, st) \<Rightarrow> (case pop_u32 st of Inr (v, _) \<Rightarrow> Some v | Inl _ \<Rightarrow> None) | Inl _ \<Rightarrow> None)"

lemma frame_top: "sk_top (frame L vs r) = length L + length (raws vs)"
  by (simp add: frame_def)

lemma room_ok: "length L + length (raws vs) + length r < 2 ^ 64 \<Longrightarrow> has_room L vs r"
  by (simp add: has_room_def)

lemmas run_step = exec_inst_def plain_handler_def inst_of_def local_handler_def first_operand_def get_idx_def raw_i64_def raw_i32_def frame_top
  op_local_get4_def op_local_tee4_def op_i32_const_def i32_bin_handler_def op_i32_xor_def op_i32_and_def op_i32_shr_u_def frame_steps
  frame_shapes call_next_def inside_def

lemma literal_locals:
  "local_u32_from_base 0 0 (frame checksum_locals vs r) = Inr 1" "local_u32_from_base 0 4 (frame checksum_locals vs r) = Inr 0"
  "local_u32_from_base 0 8 (frame checksum_locals vs r) = Inr 5" "local_u32_from_base 0 12 (frame checksum_locals vs r) = Inr 0"
  "local_tee_from_base 4 0 12 (frame checksum_locals (R4 0 # vs) r) = Inr (frame checksum_locals (R4 0 # vs) r)"
  "local_set4_from_base_value 0 12 0 (frame checksum_locals vs r) = Inr (frame checksum_locals vs r)"
  "length checksum_locals = 16"
proof -
  have len: "length checksum_locals = 16" by (simp add: checksum_locals_def)
  have get: "local_u32_from_base 0 p (frame checksum_locals vs r) = Inr (from_le (Telomere_Prelude.slice p 4 checksum_locals))" if "p + 4 \<le> 16" for p
    using access_below(1) [of p 4 checksum_locals "raws vs" r] that len by (simp add: local_u32_from_base_def frame_def)
  show "local_u32_from_base 0 0 (frame checksum_locals vs r) = Inr 1" "local_u32_from_base 0 4 (frame checksum_locals vs r) = Inr 0"
    "local_u32_from_base 0 8 (frame checksum_locals vs r) = Inr 5" "local_u32_from_base 0 12 (frame checksum_locals vs r) = Inr 0"
    using get [of 0] get [of 4] get [of 8] get [of 12] by (simp_all add: checksum_locals_def Telomere_Prelude.slice_def from_le_to_le)
  have splice: "splice_at 12 (to_le 4 (0 :: u32)) checksum_locals = checksum_locals" by (simp add: checksum_locals_def splice_at_def)
  then show "local_tee_from_base 4 0 12 (frame checksum_locals (R4 0 # vs) r) = Inr (frame checksum_locals (R4 0 # vs) r)"
    using local_accesses(3) [of 0 12 4 checksum_locals "to_le 4 (0 :: u32)" "raws vs" r] len by (simp add: frame_def)
  show "local_set4_from_base_value 0 12 0 (frame checksum_locals vs r) = Inr (frame checksum_locals vs r)"
    using access_below(2) [of 12 "to_le 4 (0 :: u32)" checksum_locals "raws vs" r] splice len by (simp add: frame_def local_set4_from_base_value_def)
  show "length checksum_locals = 16" by (rule len)
qed

lemma select4_frame:
  "has_room L (R4 c # R4 b # R4 a # vs) r \<Longrightarrow> op_select4 ops (frame L (R4 c # R4 b # R4 a # vs) r) =
    Inr (Next 0, frame L (R4 (if c = 0 then b else a) # vs) (to_le 4 b @ to_le 4 c @ r))"
  using plain_select [of L c b a vs r] by (simp add: run_plain_def op_select4_def)

lemma checksum_run:
  "result_word (run_insts no_other_handlers 0 16 (cb_insts (checksum_step (inst_of Op_local_get4 [Raw 8]))) ((), checksum_stack)) = Some 5"
  by (simp add: checksum_step_def run_step checksum_stack_def literal_locals room_ok select4_frame wasm_i32_shr_u_def result_word_def)

lemma checksum_fused:
  "cb_insts (fst (fuse_i32_select_bit_steps (checksum_step (inst_of Op_local_get4 [Raw 8])))) =
   [inst_of Op_local_get4 [Raw 4], inst_of Op_i32_select_bit_step4 [Raw 12, Raw 8, Raw 0, Raw 0, Raw 4, Raw 0, Raw 0xffffffff]]"
  by code_simp

lemma checksum_fused_run:
  "result_word (run_insts no_other_handlers 0 16 (cb_insts (fst (fuse_i32_select_bit_steps (checksum_step (inst_of Op_local_get4 [Raw 8])))))
     ((), checksum_stack)) = Some 8"
  unfolding checksum_fused
  by (simp add: run_step select_step_handler_def i32_select_bit_step4_at_def operand_u32_def operand_addr_def Let_def
      I32_SELECT_BIT_STEP_MASK_SHIFTED_def I32_SELECT_BIT_STEP_EQ_CONDITION_def I32_SELECT_BIT_STEP_TEE_DST_def
      checksum_stack_def literal_locals room_ok result_word_def)

lemma agree_result: "agree_state r r' \<Longrightarrow> result_word r = Some v \<Longrightarrow> result_word r' = Some v"
proof -
  assume a: "agree_state r r'" "result_word r = Some v"
  then obtain x w st x' w' st' where r: "r = Inr (x, w, st)" "r' = Inr (x', w', st')" "same_below st st'"
    by (auto simp: agree_state_def agree_def result_word_def split: sum.splits)
  have "agree_value (pop_u32 st) (pop_u32 st')" by (rule word_agrees(4) [OF r(3)])
  then show "result_word r' = Some v" using a(2) r by (auto simp: result_word_def agree_def split: sum.splits)
qed

text \<open>C40: the pass that fuses the steps of a checksum takes whatever stands at the place of the polynomial
  for a constant.  For a body that reads the polynomial from a local, the block before the pass computes
  5 from the polynomial 5, and the block after it computes 8, the address of the local: the pass does not
  keep what the block does.\<close>

theorem checksum_polynomial_in_a_local:
  "result_word (run_insts no_other_handlers 0 16 (cb_insts (checksum_step (inst_of Op_local_get4 [Raw 8]))) ((), checksum_stack)) = Some 5 \<and>
   result_word (run_insts no_other_handlers 0 16 (cb_insts (fst (fuse_i32_select_bit_steps (checksum_step (inst_of Op_local_get4 [Raw 8])))))
     ((), checksum_stack)) = Some 8 \<and>
   \<not> replaces no_other_handlers 0 16 (cb_insts (fst (fuse_i32_select_bit_steps (checksum_step (inst_of Op_local_get4 [Raw 8])))))
     (cb_insts (checksum_step (inst_of Op_local_get4 [Raw 8])))"
proof (intro conjI notI)
  have "has_room checksum_locals [] (replicate 16 0)" by (simp add: has_room_def literal_locals)
  then have same: "same_below checksum_stack checksum_stack" unfolding checksum_stack_def by (intro same_below_frame) simp_all
  assume "replaces no_other_handlers 0 16 (cb_insts (fst (fuse_i32_select_bit_steps (checksum_step (inst_of Op_local_get4 [Raw 8])))))
     (cb_insts (checksum_step (inst_of Op_local_get4 [Raw 8])))"
  then have "agree_state (run_insts no_other_handlers 0 16 (cb_insts (checksum_step (inst_of Op_local_get4 [Raw 8]))) ((), checksum_stack))
      (run_insts no_other_handlers 0 16 (cb_insts (fst (fuse_i32_select_bit_steps (checksum_step (inst_of Op_local_get4 [Raw 8]))))) ((), checksum_stack))"
    using same unfolding replaces_def by blast
  from agree_result [OF this checksum_run] checksum_fused_run show False by simp
qed (rule checksum_run checksum_fused_run)+

end
