(* ===== verification/Optimizer_Graph.thy ===== *)
theory Optimizer_Graph
  imports Block_Passes
begin

text \<open>
  The rewriting of the control flow graph after the passes, the end of \<open>pipeline/transform.rs\<close>: the
  successors of the blocks are computed anew, blocks that the entry does not reach are dropped, the rest
  is renumbered.  A function runs block by block; the theory shows that the rewritten function runs
  as before, and so does a function whose constant operators and branches have been folded.  An index
  out of range panics, which is \<open>None\<close>.
\<close>

section \<open>The operations\<close>

definition fallthrough_block :: "canon_block list \<Rightarrow> nat \<Rightarrow> nat list" where
  "fallthrough_block blocks block_id = (if block_id + 1 < length blocks then [block_id + 1] else [])"

definition canon_block_successors :: "canon_block list \<Rightarrow> nat \<Rightarrow> nat list" where
  "canon_block_successors blocks block_id =
     (if cb_insts (blocks ! block_id) = [] then fallthrough_block blocks block_id
      else let i = last (cb_insts (blocks ! block_id));
               target = (case jump_target (first_operand i) of Some t \<Rightarrow> [t] | None \<Rightarrow> []) in
        if cn_op i \<in> {Op_br, Op_else, Op_return} then target
        else if cn_op i \<in> {Op_if, Op_br_if} then sort_dedup (target @ fallthrough_block blocks block_id)
        else if cn_op i = Op_br_table then sort_dedup (List.map_filter (\<lambda>operand. jump_target (Some operand)) (drop 1 (cn_operands i)))
        else fallthrough_block blocks block_id)"

fun recompute_predecessors :: "nat list list \<Rightarrow> nat \<Rightarrow> nat list list \<Rightarrow> nat list list option" where
  "recompute_predecessors [] block_id preds = Some preds"
| "recompute_predecessors (succs # rest) block_id preds =
     Option.bind (add_predecessors block_id succs preds) (recompute_predecessors rest (block_id + 1))"

definition recompute_cfg :: "canon_func \<Rightarrow> canon_func option" where
  "recompute_cfg func =
     (let blocks = cf_blocks func; succs = map (canon_block_successors blocks) [0..<length blocks] in
      map_option (\<lambda>preds. func\<lparr>cf_blocks :=
          map (\<lambda>(b, ss, ps). b\<lparr>cb_successors := ss, cb_predecessors := ps\<rparr>) (zip blocks (zip succs preds))\<rparr>)
        (recompute_predecessors succs 0 (replicate (length blocks) [])))"

text \<open>The recursive visit with its calls in a list: the blocks still to be visited, in the order of the calls.\<close>

function visit_blocks :: "canon_block list \<Rightarrow> nat list \<Rightarrow> bool list \<Rightarrow> bool list option" where
  "visit_blocks blocks [] seen = Some seen"
| "visit_blocks blocks (b # bs) seen =
     (if b < length seen \<and> b < length blocks then
        if seen ! b then visit_blocks blocks bs seen
        else visit_blocks blocks (cb_successors (blocks ! b) @ bs) (seen[b := True])
      else None)"
  by pat_completeness auto

lemma fewer_unseen: "b < length seen \<Longrightarrow> \<not> seen ! b \<Longrightarrow> length (filter Not (seen[b := True])) < length (filter Not seen)"
proof (induction seen arbitrary: b)
  case (Cons x seen)
  then show ?case by (cases b) auto
qed simp

termination visit_blocks
  by (relation "measures [\<lambda>(_, _, seen). length (filter Not seen), \<lambda>(_, bs, _). length bs]") (auto simp: fewer_unseen)

definition compute_reachable_blocks :: "canon_func \<Rightarrow> nat list option" where
  "compute_reachable_blocks func =
     map_option (\<lambda>seen. filter (\<lambda>b. seen ! b) [0..<length seen])
       (visit_blocks (cf_blocks func) [cf_entry_block func] (replicate (length (cf_blocks func)) False))"

definition new_id_for_old :: "nat list \<Rightarrow> nat \<Rightarrow> nat option" where
  "new_id_for_old reachable old_id = position (\<lambda>b. b = old_id) reachable"

definition remap_operand :: "nat \<Rightarrow> nat list \<Rightarrow> lowered_operand \<Rightarrow> lowered_operand option" where
  "remap_operand n reachable operand =
     (case operand of
        JumpTarget target \<Rightarrow>
          (if target < n then Some (JumpTarget (case new_id_for_old reachable target of Some mapped \<Rightarrow> mapped | None \<Rightarrow> target)) else None)
      | _ \<Rightarrow> Some operand)"

definition remap_inst :: "nat \<Rightarrow> nat list \<Rightarrow> canon_inst \<Rightarrow> canon_inst option" where
  "remap_inst n reachable inst = map_option (\<lambda>ops. inst\<lparr>cn_operands := ops\<rparr>) (those (map (remap_operand n reachable) (cn_operands inst)))"

definition remap_block :: "canon_block list \<Rightarrow> nat list \<Rightarrow> nat \<times> nat \<Rightarrow> canon_block option" where
  "remap_block blocks reachable ids =
     (case ids of (new_id, old_id) \<Rightarrow>
        if old_id < length blocks then
          map_option (\<lambda>insts. (blocks ! old_id)\<lparr>cb_id := new_id, cb_insts := insts\<rparr>)
            (those (map (remap_inst (length blocks) reachable) (cb_insts (blocks ! old_id))))
        else None)"

definition retain_reachable_blocks :: "canon_func \<Rightarrow> nat list \<Rightarrow> canon_func option" where
  "retain_reachable_blocks func reachable =
     (if length reachable = length (cf_blocks func) then Some func
      else map_option (\<lambda>blocks. func\<lparr>cf_blocks := blocks, cf_entry_block := 0\<rparr>)
        (those (map (remap_block (cf_blocks func) reachable) (enumerate 0 reachable))))"

fun renumber_blocks :: "nat \<Rightarrow> canon_block list \<Rightarrow> canon_block list" where
  "renumber_blocks n [] = []"
| "renumber_blocks n (b # bs) =
     b\<lparr>cb_insts := map (\<lambda>(i, inst). inst\<lparr>cn_id := i, cn_effect := i\<rparr>) (enumerate n (cb_insts b))\<rparr> #
       renumber_blocks (n + length (cb_insts b)) bs"

definition renumber_inst_metadata :: "canon_func \<Rightarrow> canon_func" where
  "renumber_inst_metadata func = func\<lparr>cf_blocks := renumber_blocks 0 (cf_blocks func)\<rparr>"

definition normalize_after_cfg_rewrites :: "canon_func \<Rightarrow> canon_func option" where
  "normalize_after_cfg_rewrites func =
     Option.bind (recompute_cfg func) (\<lambda>func.
     Option.bind (compute_reachable_blocks func) (\<lambda>reachable.
     Option.bind (retain_reachable_blocks func reachable) (\<lambda>func.
     map_option renumber_inst_metadata (recompute_cfg func))))"

fun stacks_chain :: "valtype list \<Rightarrow> canon_inst list \<Rightarrow> bool" where
  "stacks_chain expected_stack [] = True"
| "stacks_chain expected_stack (i # insts) \<longleftrightarrow> cn_stack_before i = expected_stack \<and> stacks_chain (cn_stack_after i) insts"

definition verify_block_stacks :: "canon_func \<Rightarrow> bool" where
  "verify_block_stacks func = list_all (\<lambda>block. stacks_chain (map pm_ty (cb_params block)) (cb_insts block)) (cf_blocks func)"

section \<open>Runs of a function\<close>

text \<open>A run of at most \<open>n\<close> blocks; \<open>None\<close>: it is longer.\<close>

fun run_func ::
  "('w, 'x) other_handlers \<Rightarrow> nat \<Rightarrow> nat \<Rightarrow> canon_block list \<Rightarrow> nat \<Rightarrow> nat \<Rightarrow> 'w \<times> stack \<Rightarrow> (vm_stop + 'x \<times> 'w \<times> stack) option" where
  "run_func other base fe blocks 0 b s = None"
| "run_func other base fe blocks (Suc n) b s =
     (if b < length blocks then
        case run_insts other base fe (cb_insts (blocks ! b)) s of
          Inl e \<Rightarrow> Some (Inl e)
        | Inr (x, s) \<Rightarrow>
            (case x of
               None \<Rightarrow> run_func other base fe blocks n (b + 1) s
             | Some (Goto t) \<Rightarrow> run_func other base fe blocks n t s
             | Some (Leave y) \<Rightarrow> Some (Inr (y, s)))
      else Some (Inl VUndefined))"

section \<open>Where a block may go\<close>

text \<open>Only the last instruction of a block branches, to blocks that exist: a table names them from its
  second operand on, the other branches in their first.\<close>

definition control_op :: "vm_op \<Rightarrow> bool" where
  "control_op op \<longleftrightarrow> op \<in> {Op_br, Op_else, Op_return, Op_br_if, Op_if, Op_br_table}"

definition wf_inst :: "nat \<Rightarrow> canon_inst \<Rightarrow> bool" where
  "wf_inst n i \<longleftrightarrow>
     (\<forall>k < length (cn_operands i). \<forall>t. cn_operands i ! k = JumpTarget t \<longrightarrow>
        control_op (cn_op i) \<and> t < n \<and> (k = 0 \<longleftrightarrow> cn_op i \<noteq> Op_br_table))"

lemma wf_instD: "wf_inst n i \<Longrightarrow> JumpTarget t \<in> set (cn_operands i) \<Longrightarrow> control_op (cn_op i) \<and> t < n"
  by (auto simp: wf_inst_def in_set_conv_nth)

definition wf_insts :: "nat \<Rightarrow> canon_inst list \<Rightarrow> bool" where
  "wf_insts n insts \<longleftrightarrow> (\<forall>i \<in> set insts. wf_inst n i) \<and> (\<forall>i \<in> set (butlast insts). \<not> control_op (cn_op i))"

definition wf_graph :: "canon_block list \<Rightarrow> bool" where
  "wf_graph blocks \<longleftrightarrow> (\<forall>b \<in> set blocks. wf_insts (length blocks) (cb_insts b))"

lemma jump_target_operand: "jump_target (get_idx ops k) = Some t \<longleftrightarrow> k < length ops \<and> ops ! k = JumpTarget t"
  by (auto simp: jump_target_def get_idx_def split: lowered_operand.splits)

lemma plain_not_control: "plain_handler base fe i = Some h \<Longrightarrow> \<not> control_op (cn_op i)"
  by (cases "cn_op i") (auto simp: plain_handler_def control_op_def)

lemma step_no_goto:
  assumes "\<not> control_op (cn_op i)" "exec_inst other base fe i s = Inr (x, s')"
  shows "x = None \<or> (\<exists>y. x = Some (Leave y))"
proof (cases "plain_handler base fe i")
  case None
  have "rbind (other (cn_op i) (cn_operands i) s) (\<lambda>(x, s). Inr (map_option Leave x, s)) = Inr (x, s')"
    using assms plain_handler_control [OF None, of other s] by (simp add: control_op_def)
  then show ?thesis by (auto simp: res_simps)
qed (use assms in \<open>auto simp: exec_inst_def res_simps\<close>)

lemma run_no_goto:
  assumes "\<forall>i \<in> set insts. \<not> control_op (cn_op i)" "run_insts other base fe insts s = Inr (x, s')"
  shows "x = None \<or> (\<exists>y. x = Some (Leave y))"
  using assms
proof (induction insts arbitrary: s)
  case (Cons i insts)
  then obtain y s1 where s1: "exec_inst other base fe i s = Inr (y, s1)" by (auto simp: res_simps)
  then show ?case using step_no_goto [OF _ s1] Cons by (cases y) (auto simp: res_simps)
qed auto

lemma step_control:
  "cn_op i \<in> {Op_br, Op_else, Op_return} \<Longrightarrow> exec_inst other base fe i s = goto_operand i 0 s"
  "cn_op i = Op_br_if \<Longrightarrow> exec_inst other base fe i s =
    rbind (pop_u32 (snd s)) (\<lambda>(cond, st). if cond \<noteq> 0 then goto_operand i 0 (fst s, st) else Inr (None, fst s, st))"
  "cn_op i = Op_if \<Longrightarrow> exec_inst other base fe i s =
    rbind (pop_u32 (snd s)) (\<lambda>(cond, st). if cond \<noteq> 0 then Inr (None, fst s, st) else goto_operand i 0 (fst s, st))"
  "cn_op i = Op_br_table \<Longrightarrow> exec_inst other base fe i s =
    rbind (pop_u32 (snd s)) (\<lambda>(chosen, st).
      case raw_i32 (first_operand i) of
        Some table_size \<Rightarrow> goto_operand i (unat (if chosen < table_size then chosen + 1 else table_size + 1)) (fst s, st)
      | None \<Rightarrow> Inl VUndefined)"
  by (auto simp: exec_inst_def plain_handler_def)

lemma goto_Inr: "goto_operand i k s = Inr (x, s') \<longleftrightarrow> (\<exists>t. jump_target (get_idx (cn_operands i) k) = Some t \<and> x = Some (Goto t) \<and> s' = s)"
  by (auto simp: goto_operand_def split: option.splits)

lemma table_exit:
  assumes "exec_inst other base fe i s = Inr (x, s')" "cn_op i = Op_br_table"
  shows "\<exists>t. x = Some (Goto t) \<and> t \<in> set (List.map_filter (\<lambda>operand. jump_target (Some operand)) (drop 1 (cn_operands i)))"
proof -
  obtain k w t where k: "jump_target (get_idx (cn_operands i) k) = Some t" "raw_i32 (first_operand i) = Some w" "x = Some (Goto t)"
    using assms(1) unfolding step_control(4) [OF assms(2)] by (auto simp: res_simps goto_Inr split: option.splits)
  have k': "k < length (cn_operands i)" "cn_operands i ! k = JumpTarget t" using k(1) by (simp_all add: jump_target_operand)
  have "k \<noteq> 0"
  proof
    assume "k = 0"
    then have "first_operand i = Some (JumpTarget t)" using k' by (simp add: first_operand_def get_idx_def)
    then show False using k(2) by (simp add: raw_i32_def)
  qed
  then obtain j where "k = Suc j" by (cases k) auto
  then have "JumpTarget t \<in> set (drop 1 (cn_operands i))" using k' by (auto simp: in_set_conv_nth intro!: exI [of _ j])
  then show ?thesis using k(3) by (force simp: List.map_filter_def jump_target_def)
qed

lemma branch_exit:
  assumes "exec_inst other base fe i s = Inr (x, s')" "control_op (cn_op i)" "cn_op i \<noteq> Op_br_table"
  shows "x = Some (Goto t) \<Longrightarrow> jump_target (first_operand i) = Some t" "x = None \<Longrightarrow> cn_op i \<in> {Op_if, Op_br_if}"
proof -
  consider "cn_op i \<in> {Op_br, Op_else, Op_return}" | "cn_op i = Op_br_if" | "cn_op i = Op_if" using assms(2,3) by (auto simp: control_op_def)
  then have "(x = Some (Goto t) \<longrightarrow> jump_target (first_operand i) = Some t) \<and> (x = None \<longrightarrow> cn_op i \<in> {Op_if, Op_br_if})"
  proof cases
    case 1
    then show ?thesis using assms(1) by (auto simp: step_control(1) goto_Inr first_operand_def)
  next
    case 2
    then show ?thesis using assms(1) by (auto simp: step_control(2) goto_Inr first_operand_def res_simps split: if_splits)
  next
    case 3
    then show ?thesis using assms(1) by (auto simp: step_control(3) goto_Inr first_operand_def res_simps split: if_splits)
  qed
  then show "x = Some (Goto t) \<Longrightarrow> jump_target (first_operand i) = Some t" "x = None \<Longrightarrow> cn_op i \<in> {Op_if, Op_br_if}" by auto
qed

lemma successors_cover:
  assumes "wf_insts n (cb_insts (blocks ! b))" "run_insts other base fe (cb_insts (blocks ! b)) s = Inr (x, s')"
  shows "x = Some (Goto t) \<Longrightarrow> t \<in> set (canon_block_successors blocks b)"
    "x = None \<Longrightarrow> b + 1 < length blocks \<Longrightarrow> b + 1 \<in> set (canon_block_successors blocks b)"
proof -
  have both: "(x = Some (Goto t) \<longrightarrow> t \<in> set (canon_block_successors blocks b)) \<and>
      (x = None \<longrightarrow> b + 1 < length blocks \<longrightarrow> b + 1 \<in> set (canon_block_successors blocks b))"
  proof (cases "cb_insts (blocks ! b) = []")
    case True
    then show ?thesis using assms(2) by (auto simp: canon_block_successors_def fallthrough_block_def)
  next
    case False
    define i where "i = last (cb_insts (blocks ! b))"
    have insts: "cb_insts (blocks ! b) = butlast (cb_insts (blocks ! b)) @ [i]" using False by (simp add: i_def)
    have nc: "\<forall>i \<in> set (butlast (cb_insts (blocks ! b))). \<not> control_op (cn_op i)" using assms(1) by (simp add: wf_insts_def)
    have "run_insts other base fe (butlast (cb_insts (blocks ! b)) @ [i]) s = Inr (x, s')" by (subst insts [symmetric]) (rule assms(2))
    then obtain y s1 where run: "run_insts other base fe (butlast (cb_insts (blocks ! b))) s = Inr (y, s1)"
      "(case y of Some e \<Rightarrow> Inr (Some e, s1) | None \<Rightarrow> run_insts other base fe [i] s1) = Inr (x, s')"
      unfolding run_append by (auto simp: res_simps)
    show ?thesis
    proof (cases y)
      case (Some e)
      then show ?thesis using run_no_goto [OF nc run(1)] run(2) by auto
    next
      case None
      then obtain z s2 where st: "exec_inst other base fe i s1 = Inr (z, s2)" "z = x"
        using run(2) by (auto simp: res_simps split: option.splits)
      have succ: "canon_block_successors blocks b = (let target = (case jump_target (first_operand i) of Some t \<Rightarrow> [t] | None \<Rightarrow> []) in
          if cn_op i \<in> {Op_br, Op_else, Op_return} then target
          else if cn_op i \<in> {Op_if, Op_br_if} then sort_dedup (target @ fallthrough_block blocks b)
          else if cn_op i = Op_br_table then sort_dedup (List.map_filter (\<lambda>operand. jump_target (Some operand)) (drop 1 (cn_operands i)))
          else fallthrough_block blocks b)" using False by (simp add: canon_block_successors_def i_def Let_def)
      show ?thesis
      proof (cases "control_op (cn_op i)")
        case True
        show ?thesis
        proof (cases "cn_op i = Op_br_table")
          case table: True
          then show ?thesis using table_exit [OF st(1)] st(2) unfolding succ Let_def by auto
        next
          case False
          then show ?thesis using branch_exit(1) [OF st(1) True False, of t] branch_exit(2) [OF st(1) True False] st(2) True unfolding succ Let_def
            by (auto simp: control_op_def fallthrough_block_def)
        qed
      next
        case False
        then show ?thesis using step_no_goto [OF False st(1)] st(2) unfolding succ Let_def by (auto simp: control_op_def fallthrough_block_def)
      qed
    qed
  qed
  show "x = Some (Goto t) \<Longrightarrow> t \<in> set (canon_block_successors blocks b)"
    "x = None \<Longrightarrow> b + 1 < length blocks \<Longrightarrow> b + 1 \<in> set (canon_block_successors blocks b)" using both by auto
qed

lemma successors_range:
  assumes "wf_graph blocks" "b < length blocks"
  shows "set (canon_block_successors blocks b) \<subseteq> {..<length blocks}"
proof (cases "cb_insts (blocks ! b) = []")
  case False
  then have "wf_inst (length blocks) (last (cb_insts (blocks ! b)))"
    using assms nth_mem [OF assms(2)] last_in_set [OF False] unfolding wf_graph_def wf_insts_def by blast
  then have lt: "t < length blocks" if "JumpTarget t \<in> set (cn_operands (last (cb_insts (blocks ! b))))" for t using that by (auto dest: wf_instD)
  have one: "t < length blocks" if "jump_target (first_operand (last (cb_insts (blocks ! b)))) = Some t" for t
    using that lt [of t] by (auto simp: first_operand_def jump_target_operand in_set_conv_nth)
  have many: "t < length blocks"
    if "t \<in> set (List.map_filter (\<lambda>operand. jump_target (Some operand)) (drop 1 (cn_operands (last (cb_insts (blocks ! b))))))" for t
    using that lt [of t] by (auto simp: List.map_filter_def jump_target_def split: lowered_operand.splits dest: in_set_dropD)
  show ?thesis using one many False by (auto simp: canon_block_successors_def Let_def fallthrough_block_def split: option.splits if_splits)
qed (auto simp: canon_block_successors_def fallthrough_block_def)

section \<open>Renamed targets\<close>

definition rename_operand :: "(nat \<Rightarrow> nat) \<Rightarrow> lowered_operand \<Rightarrow> lowered_operand" where
  "rename_operand f operand = (case operand of JumpTarget t \<Rightarrow> JumpTarget (f t) | _ \<Rightarrow> operand)"

definition renamed :: "(nat \<Rightarrow> nat) \<Rightarrow> canon_inst \<Rightarrow> canon_inst \<Rightarrow> bool" where
  "renamed f i j \<longleftrightarrow> cn_op j = cn_op i \<and> cn_operands j = map (rename_operand f) (cn_operands i)"

definition rename_exit :: "(nat \<Rightarrow> nat) \<Rightarrow> vm_stop + 'x block_exit option \<times> 's \<Rightarrow> vm_stop + 'x block_exit option \<times> 's" where
  "rename_exit f r = rbind r (\<lambda>(x, s). Inr (map_option (\<lambda>e. case e of Goto t \<Rightarrow> Goto (f t) | Leave y \<Rightarrow> Leave y) x, s))"

lemma renamed_operands:
  assumes "renamed f i j"
  shows "jump_target (get_idx (cn_operands j) k) = map_option f (jump_target (get_idx (cn_operands i) k))"
    "raw_i32 (first_operand j) = raw_i32 (first_operand i)" "raw_i64 (first_operand j) = raw_i64 (first_operand i)"
  using assms by (auto simp: renamed_def get_idx_def jump_target_def raw_i32_def raw_i64_def first_operand_def rename_operand_def split: lowered_operand.splits)

lemma rename_same:
  assumes "renamed f i j" "wf_inst n i" "\<not> control_op (cn_op i)"
  shows "cn_operands j = cn_operands i"
proof -
  have "rename_operand f x = x" if "x \<in> set (cn_operands i)" for x
    using that assms(2,3) by (auto simp: rename_operand_def dest: wf_instD split: lowered_operand.splits)
  then show ?thesis using assms(1) by (simp add: renamed_def map_idI)
qed

lemma step_operands: "cn_op j = cn_op i \<Longrightarrow> cn_operands j = cn_operands i \<Longrightarrow> exec_inst other base fe j s = exec_inst other base fe i s"
proof -
  assume op: "cn_op j = cn_op i" and ops: "cn_operands j = cn_operands i"
  have first: "first_operand j = first_operand i" by (simp add: first_operand_def ops)
  have "local_handler base fe n k h j = local_handler base fe n k h i" "select_step_handler base fe j = select_step_handler base fe i" for n k h
    by (simp_all add: local_handler_def select_step_handler_def first ops fun_eq_iff)
  then have plain: "plain_handler base fe j = plain_handler base fe i" unfolding plain_handler_def op first by (simp only:)
  have goto: "goto_operand j = goto_operand i" by (simp add: goto_operand_def ops fun_eq_iff)
  show "exec_inst other base fe j s = exec_inst other base fe i s" unfolding exec_inst_def plain op ops first goto ..
qed

lemma goto_renamed: "renamed f i j \<Longrightarrow> goto_operand j k s = rename_exit f (goto_operand i k s)"
  by (simp add: goto_operand_def renamed_operands rename_exit_def split: option.splits)

lemma rename_exit_bind: "rename_exit f (rbind r g) = rbind r (\<lambda>x. rename_exit f (g x))"
  by (cases r) (simp_all add: rename_exit_def)

lemma step_renamed:
  assumes "renamed f i j" "wf_inst n i"
  shows "exec_inst other base fe j s = rename_exit f (exec_inst other base fe i s)"
proof (cases "control_op (cn_op i)")
  case False
  have "exec_inst other base fe j s = exec_inst other base fe i s" using assms rename_same [OF assms False] by (intro step_operands) (auto simp: renamed_def)
  also have "\<dots> = rename_exit f (exec_inst other base fe i s)"
  proof (cases "exec_inst other base fe i s")
    case (Inr r)
    obtain x s' where "r = (x, s')" by (cases r)
    then show ?thesis using step_no_goto [OF False] Inr by (fastforce simp: rename_exit_def)
  qed (simp add: rename_exit_def)
  finally show ?thesis .
next
  case True
  note g = goto_renamed [OF assms(1)]
  have j: "cn_op j = cn_op i" using assms(1) by (simp add: renamed_def)
  consider "cn_op i \<in> {Op_br, Op_else, Op_return}" | "cn_op i = Op_br_if" | "cn_op i = Op_if" | "cn_op i = Op_br_table"
    using True by (auto simp: control_op_def)
  then show ?thesis
  proof cases
    case 1
    then show ?thesis using j g by (simp add: step_control(1))
  next
    case 2
    then show ?thesis using j by (cases "pop_u32 (snd s)") (auto simp: step_control(2) g rename_exit_def)
  next
    case 3
    then show ?thesis using j by (cases "pop_u32 (snd s)") (auto simp: step_control(3) g rename_exit_def)
  next
    case 4
    then show ?thesis using j renamed_operands(2) [OF assms(1)]
      by (cases "pop_u32 (snd s)"; cases "raw_i32 (first_operand i)") (auto simp: step_control(4) g rename_exit_def)
  qed
qed

lemma run_renamed:
  assumes "list_all2 (renamed f) insts insts'" "\<forall>i \<in> set insts. wf_inst n i"
  shows "run_insts other base fe insts' s = rename_exit f (run_insts other base fe insts s)"
  using assms
proof (induction insts insts' arbitrary: s rule: list_all2_induct)
  case (Cons i insts j insts')
  have "exec_inst other base fe j s = rename_exit f (exec_inst other base fe i s)" using step_renamed Cons.hyps(1) Cons.prems by (metis list.set_intros(1))
  then show ?case using Cons.IH Cons.prems
    by (cases "exec_inst other base fe i s") (auto simp: rename_exit_def split: option.splits block_exit.splits)
qed (simp add: rename_exit_def)

section \<open>Blocks that are kept\<close>

text \<open>The blocks \<open>ids\<close>, in this order, with their targets renamed to their places in the list.\<close>

definition place_in :: "nat list \<Rightarrow> nat \<Rightarrow> nat" where
  "place_in ids t = (case new_id_for_old ids t of Some mapped \<Rightarrow> mapped | None \<Rightarrow> t)"

definition kept_blocks :: "nat list \<Rightarrow> canon_block list \<Rightarrow> canon_block list \<Rightarrow> bool" where
  "kept_blocks ids blocks blocks' \<longleftrightarrow>
     list_all2 (\<lambda>b block. b < length blocks \<and> list_all2 (renamed (place_in ids)) (cb_insts (blocks ! b)) (cb_insts block)) ids blocks'"

definition closed_ids :: "canon_block list \<Rightarrow> nat list \<Rightarrow> bool" where
  "closed_ids blocks ids \<longleftrightarrow> sorted_wrt (<) ids \<and> (\<forall>b \<in> set ids. set (canon_block_successors blocks b) \<subseteq> set ids)"

lemma place_in_nth: "t \<in> set ids \<Longrightarrow> place_in ids t < length ids \<and> ids ! place_in ids t = t"
  by (auto simp: place_in_def new_id_for_old_def position_None_iff split: option.splits dest: position_SomeD)

lemma sorted_next:
  assumes "sorted_wrt (<) ids" "k < length ids" "ids ! k + 1 \<in> set ids"
  shows "k + 1 < length ids \<and> ids ! (k + 1) = ids ! k + (1::nat)"
proof -
  obtain j where j: "j < length ids" "ids ! j = ids ! k + 1" using assms(3) by (auto simp: in_set_conv_nth)
  have less: "ids ! a < ids ! b" if "a < b" "b < length ids" for a b using assms(1) that by (simp add: sorted_wrt_nth_less)
  have "k < j" using less [of j k] j assms(2) by (cases j k rule: linorder_cases) auto
  moreover have "\<not> k + 1 < j" using less [of k "k + 1"] less [of "k + 1" j] j by auto
  ultimately have "j = k + 1" by simp
  then show ?thesis using j by simp
qed

lemma run_kept:
  assumes "wf_graph blocks" "closed_ids blocks ids" "kept_blocks ids blocks blocks'"
  shows "k < length ids \<Longrightarrow> run_func other base fe blocks' n k s = run_func other base fe blocks n (ids ! k) s"
proof (induction n arbitrary: k s)
  case (Suc n)
  have len: "length blocks' = length ids" using assms(3) by (simp add: kept_blocks_def list_all2_lengthD)
  have k: "ids ! k < length blocks" "list_all2 (renamed (place_in ids)) (cb_insts (blocks ! (ids ! k))) (cb_insts (blocks' ! k))"
    using assms(3) Suc.prems by (auto simp: kept_blocks_def dest: list_all2_nthD)
  have wf: "wf_insts (length blocks) (cb_insts (blocks ! (ids ! k)))" using assms(1) k(1) by (simp add: wf_graph_def)
  then have "run_insts other base fe (cb_insts (blocks' ! k)) s = rename_exit (place_in ids) (run_insts other base fe (cb_insts (blocks ! (ids ! k))) s)"
    by (intro run_renamed [OF k(2), where n = "length blocks"]) (simp add: wf_insts_def)
  note run = this
  have closed: "set (canon_block_successors blocks (ids ! k)) \<subseteq> set ids" using assms(2) Suc.prems by (auto simp: closed_ids_def)
  have sorted: "sorted_wrt (<) ids" using assms(2) by (simp add: closed_ids_def)
  show ?case
  proof (cases "run_insts other base fe (cb_insts (blocks ! (ids ! k))) s")
    case (Inl e)
    then show ?thesis using run k(1) len Suc.prems by (simp add: rename_exit_def)
  next
    case (Inr r)
    obtain x s1 where x: "r = (x, s1)" by (cases r)
    note cover = successors_cover [OF wf Inr [unfolded x]]
    consider "x = None" | t where "x = Some (Goto t)" | y where "x = Some (Leave y)" by (cases x) (auto elim: block_exit.exhaust)
    then show ?thesis
    proof cases
      case 1
      have "run_func other base fe blocks' n (k + 1) s1 = run_func other base fe blocks n (ids ! k + 1) s1"
      proof (cases "ids ! k + 1 < length blocks")
        case True
        then show ?thesis using cover(2) [OF 1] closed sorted_next [OF sorted Suc.prems] Suc.IH [of "k + 1" s1] by auto
      next
        case False
        have "\<not> k + 1 < length ids"
        proof
          assume next_id: "k + 1 < length ids"
          then have "ids ! k < ids ! (k + 1)" using sorted by (simp add: sorted_wrt_nth_less)
          moreover have "ids ! (k + 1) < length blocks" using assms(3) next_id by (auto simp: kept_blocks_def dest: list_all2_nthD)
          ultimately show False using False by simp
        qed
        then show ?thesis using False len by (cases n) simp_all
      qed
      then show ?thesis using Inr x 1 run k(1) len Suc.prems by (simp add: rename_exit_def)
    next
      case 2
      then have "t \<in> set ids" using cover(1) closed by auto
      then have "run_func other base fe blocks' n (place_in ids t) s1 = run_func other base fe blocks n t s1"
        using Suc.IH [of "place_in ids t" s1] place_in_nth [of t ids] by simp
      then show ?thesis using Inr x 2 run k(1) len Suc.prems by (simp add: rename_exit_def)
    next
      case 3
      then show ?thesis using Inr x run k(1) len Suc.prems by (simp add: rename_exit_def)
    qed
  qed
qed simp

section \<open>Blocks with the same code\<close>

definition code_of :: "canon_inst \<Rightarrow> vm_op \<times> lowered_operand list" where
  "code_of i = (cn_op i, cn_operands i)"

definition same_code :: "canon_block list \<Rightarrow> canon_block list \<Rightarrow> bool" where
  "same_code blocks blocks' \<longleftrightarrow> map (map code_of \<circ> cb_insts) blocks' = map (map code_of \<circ> cb_insts) blocks"

lemma same_code_nth:
  assumes "same_code blocks blocks'"
  shows "length blocks' = length blocks" "b < length blocks \<Longrightarrow> map code_of (cb_insts (blocks' ! b)) = map code_of (cb_insts (blocks ! b))"
proof -
  show len: "length blocks' = length blocks" using assms by (metis length_map same_code_def)
  show "b < length blocks \<Longrightarrow> map code_of (cb_insts (blocks' ! b)) = map code_of (cb_insts (blocks ! b))"
    using arg_cong [OF assms [unfolded same_code_def], of "\<lambda>xs. xs ! b"] len by simp
qed

lemma run_insts_code: "map code_of xs = map code_of ys \<Longrightarrow> run_insts other base fe xs s = run_insts other base fe ys s"
proof (induction xs arbitrary: ys s)
  case (Cons x xs)
  then obtain y ys' where ys: "ys = y # ys'" "code_of x = code_of y" "map code_of xs = map code_of ys'" by (cases ys) auto
  then have "exec_inst other base fe x s = exec_inst other base fe y s" by (intro step_operands) (auto simp: code_of_def)
  then show ?case unfolding ys(1) by (simp add: Cons.IH [OF ys(3)] cong: option.case_cong)
qed simp

lemma run_func_code:
  assumes "same_code blocks blocks'"
  shows "run_func other base fe blocks' n b s = run_func other base fe blocks n b s"
proof (induction n arbitrary: b s)
  case (Suc n)
  then show ?case using same_code_nth [OF assms] run_insts_code [of "cb_insts (blocks' ! b)" "cb_insts (blocks ! b)" other base fe s]
    by (auto simp: Suc.IH split: sum.split option.split block_exit.split)
qed simp

lemma wf_insts_code: "map code_of xs = map code_of ys \<Longrightarrow> wf_insts n xs = wf_insts n ys"
proof -
  define P where "P c \<longleftrightarrow> (\<forall>k < length (snd c). \<forall>t. snd c ! k = JumpTarget t \<longrightarrow> control_op (fst c) \<and> t < n \<and> (k = 0 \<longleftrightarrow> fst c \<noteq> Op_br_table))" for c
  have "wf_insts n zs \<longleftrightarrow> (\<forall>c \<in> set (map code_of zs). P c) \<and> (\<forall>c \<in> set (butlast (map code_of zs)). \<not> control_op (fst c))" for zs
    by (auto simp: wf_insts_def wf_inst_def P_def code_of_def simp flip: map_butlast)
  then show "map code_of xs = map code_of ys \<Longrightarrow> wf_insts n xs = wf_insts n ys" by (simp only:)
qed

lemma wf_graph_code:
  assumes "same_code blocks blocks'"
  shows "wf_graph blocks' = wf_graph blocks"
proof -
  have "wf_insts n (cb_insts (blocks' ! b)) = wf_insts n (cb_insts (blocks ! b))" if "b < length blocks" for n b
    by (rule wf_insts_code) (rule same_code_nth(2) [OF assms that])
  then show ?thesis by (simp add: wf_graph_def all_set_conv_all_nth same_code_nth(1) [OF assms])
qed

lemma successors_code:
  assumes "same_code blocks blocks'" "b < length blocks"
  shows "canon_block_successors blocks' b = canon_block_successors blocks b"
proof -
  note same = same_code_nth(1) [OF assms(1)] same_code_nth(2) [OF assms]
  have "code_of (last (cb_insts (blocks' ! b))) = code_of (last (cb_insts (blocks ! b)))" if "cb_insts (blocks ! b) \<noteq> []"
    using that same(2) by (metis last_map map_is_Nil_conv)
  moreover have "cb_insts (blocks' ! b) = [] \<longleftrightarrow> cb_insts (blocks ! b) = []" using same(2) by (metis map_is_Nil_conv)
  ultimately show ?thesis using same(1) by (auto simp: canon_block_successors_def fallthrough_block_def first_operand_def code_of_def Let_def)
qed

lemma renumber_same_code: "same_code blocks (renumber_blocks n blocks)"
proof (induction blocks arbitrary: n)
  case (Cons b bs)
  have "map code_of (map (\<lambda>(i, inst). inst\<lparr>cn_id := i, cn_effect := i\<rparr>) (enumerate k xs)) = map code_of xs" for k xs
    by (induction xs arbitrary: k) (auto simp: code_of_def)
  then show ?case using Cons by (simp add: same_code_def comp_def)
qed (simp add: same_code_def)

lemma renumber_blocks_nth:
  "b < length blocks \<Longrightarrow> cb_id (renumber_blocks n blocks ! b) = cb_id (blocks ! b) \<and> cb_successors (renumber_blocks n blocks ! b) = cb_successors (blocks ! b)"
proof (induction blocks arbitrary: n b)
  case (Cons x bs)
  then show ?case by (cases b) auto
qed simp

section \<open>The graph computed anew\<close>

lemma recompute_predecessors_returns:
  "\<forall>ss \<in> set succs. set ss \<subseteq> {..<length preds} \<Longrightarrow> \<exists>preds'. recompute_predecessors succs b preds = Some preds' \<and> length preds' = length preds"
proof (induction succs arbitrary: b preds)
  case (Cons ss succs)
  then obtain mid where mid: "add_predecessors b ss preds = Some mid" using add_predecessors_returns [of ss preds b] by auto
  then have "length mid = length preds" using add_predecessors_set by blast
  then have "\<exists>preds'. recompute_predecessors succs (b + 1) mid = Some preds' \<and> length preds' = length mid" using Cons.prems by (intro Cons.IH) simp
  then show ?case using mid \<open>length mid = length preds\<close> by simp
qed simp

lemma recompute_cfg_returns:
  assumes "wf_graph (cf_blocks func)"
  obtains blocks where "recompute_cfg func = Some (func\<lparr>cf_blocks := blocks\<rparr>)" "same_code (cf_blocks func) blocks"
    "\<And>b. b < length (cf_blocks func) \<Longrightarrow> cb_id (blocks ! b) = cb_id (cf_blocks func ! b) \<and> cb_successors (blocks ! b) = canon_block_successors (cf_blocks func) b"
proof -
  let ?old = "cf_blocks func"
  let ?succs = "map (canon_block_successors ?old) [0..<length ?old]"
  have "\<forall>ss \<in> set ?succs. set ss \<subseteq> {..<length (replicate (length ?old) ([] :: nat list))}" using successors_range [OF assms] by auto
  from recompute_predecessors_returns [OF this, of 0]
  obtain preds where preds: "recompute_predecessors ?succs 0 (replicate (length ?old) []) = Some preds" "length preds = length ?old" by auto
  let ?new = "map (\<lambda>(b, ss, ps). b\<lparr>cb_successors := ss, cb_predecessors := ps\<rparr>) (zip ?old (zip ?succs preds))"
  have "same_code ?old ?new" using preds(2) by (auto simp: same_code_def intro!: nth_equalityI)
  then show ?thesis using preds by (intro that [of ?new]) (auto simp: recompute_cfg_def Let_def)
qed

section \<open>Reachable blocks\<close>

definition succ_edges :: "canon_block list \<Rightarrow> (nat \<times> nat) set" where
  "succ_edges blocks = {(b, t). b < length blocks \<and> t \<in> set (cb_successors (blocks ! b))}"

definition visited :: "canon_block list \<Rightarrow> nat list \<Rightarrow> bool list \<Rightarrow> bool list \<Rightarrow> bool" where
  "visited blocks bs seen seen' \<longleftrightarrow>
     length seen' = length blocks \<and>
     (\<forall>b < length blocks. (seen ! b \<or> b \<in> set bs \<longrightarrow> seen' ! b) \<and>
        (seen' ! b \<longrightarrow> seen ! b \<or> (\<forall>t \<in> set (cb_successors (blocks ! b)). seen' ! t) \<and> (\<exists>x \<in> set bs. (x, b) \<in> (succ_edges blocks)\<^sup>*)))"

lemma visited_first:
  assumes "visited blocks (cb_successors (blocks ! b) @ bs) (seen[b := True]) seen'" "b < length blocks" "length seen = length blocks"
    and "set (cb_successors (blocks ! b)) \<subseteq> {..<length blocks}"
  shows "visited blocks (b # bs) seen seen'"
proof -
  have s: "length seen' = length blocks" "\<And>c. c < length blocks \<Longrightarrow> (seen[b := True]) ! c \<or> c \<in> set (cb_successors (blocks ! b) @ bs) \<Longrightarrow> seen' ! c"
    "\<And>c. c < length blocks \<Longrightarrow> seen' ! c \<Longrightarrow> (seen[b := True]) ! c \<or> (\<forall>t \<in> set (cb_successors (blocks ! c)). seen' ! t) \<and>
      (\<exists>x \<in> set (cb_successors (blocks ! b) @ bs). (x, c) \<in> (succ_edges blocks)\<^sup>*)"
    using assms(1) unfolding visited_def by blast+
  have in_range: "seen' ! t" if "t \<in> set (cb_successors (blocks ! b))" for t using s(2) [of t] that assms(4) by auto
  have edge: "(b, x) \<in> succ_edges blocks" if "x \<in> set (cb_successors (blocks ! b))" for x using that assms(2) by (simp add: succ_edges_def)
  have "seen ! c \<or> (\<forall>t \<in> set (cb_successors (blocks ! c)). seen' ! t) \<and> (\<exists>x \<in> set (b # bs). (x, c) \<in> (succ_edges blocks)\<^sup>*)"
    if "c < length blocks" "seen' ! c" for c
    using s(3) [OF that] in_range edge by (cases "c = b") (auto intro: converse_rtrancl_into_rtrancl)
  moreover have "seen' ! c" if "c < length blocks" "seen ! c \<or> c \<in> set (b # bs)" for c
    using s(2) [OF that(1)] that assms(2,3) by (cases "c = b") auto
  ultimately show ?thesis using s(1) by (auto simp: visited_def)
qed

lemma visit_blocks_returns:
  assumes "\<forall>b < length blocks. set (cb_successors (blocks ! b)) \<subseteq> {..<length blocks}" "length seen = length blocks" "set bs \<subseteq> {..<length blocks}"
  shows "\<exists>seen'. visit_blocks blocks bs seen = Some seen' \<and> visited blocks bs seen seen'"
  using assms
proof (induction blocks bs seen rule: visit_blocks.induct)
  case (2 blocks b bs seen)
  have b: "b < length blocks" "b < length seen" using 2(4,5) by auto
  show ?case
  proof (cases "seen ! b")
    case True
    then obtain seen' where "visit_blocks blocks bs seen = Some seen'" "visited blocks bs seen seen'" using 2 b by auto
    then show ?thesis using True b by (auto simp: visited_def)
  next
    case False
    then obtain seen' where s: "visit_blocks blocks (cb_successors (blocks ! b) @ bs) (seen[b := True]) = Some seen'"
      "visited blocks (cb_successors (blocks ! b) @ bs) (seen[b := True]) seen'" using 2(2) [OF _ False 2(3)] 2(3,4,5) b by auto
    then show ?thesis using visited_first [OF s(2) b(1) 2(4)] 2(3) b False by auto
  qed
qed (simp add: visited_def)

lemma visited_start:
  assumes "visited blocks [e] (replicate (length blocks) False) seen"
  shows "length seen = length blocks" "e < length blocks \<Longrightarrow> seen ! e"
    "b < length blocks \<Longrightarrow> seen ! b \<Longrightarrow> t \<in> set (cb_successors (blocks ! b)) \<Longrightarrow> seen ! t"
    "b < length blocks \<Longrightarrow> seen ! b \<Longrightarrow> (e, b) \<in> (succ_edges blocks)\<^sup>*"
proof -
  have *: "length seen = length blocks \<and> (\<forall>b < length blocks. (b = e \<longrightarrow> seen ! b) \<and>
      (seen ! b \<longrightarrow> (\<forall>t \<in> set (cb_successors (blocks ! b)). seen ! t) \<and> (e, b) \<in> (succ_edges blocks)\<^sup>*))"
    using assms by (simp add: visited_def)
  show "length seen = length blocks" "e < length blocks \<Longrightarrow> seen ! e"
    "b < length blocks \<Longrightarrow> seen ! b \<Longrightarrow> t \<in> set (cb_successors (blocks ! b)) \<Longrightarrow> seen ! t"
    "b < length blocks \<Longrightarrow> seen ! b \<Longrightarrow> (e, b) \<in> (succ_edges blocks)\<^sup>*" using * by blast+
qed

lemma compute_reachable_returns:
  assumes "\<forall>b < length (cf_blocks func). set (cb_successors (cf_blocks func ! b)) \<subseteq> {..<length (cf_blocks func)}"
    "cf_entry_block func < length (cf_blocks func)"
  obtains ids where "compute_reachable_blocks func = Some ids" "sorted_wrt (<) ids" "set ids \<subseteq> {..<length (cf_blocks func)}"
    "set ids = {b. (cf_entry_block func, b) \<in> (succ_edges (cf_blocks func))\<^sup>*}"
    "\<And>b. b \<in> set ids \<Longrightarrow> set (cb_successors (cf_blocks func ! b)) \<subseteq> set ids"
proof -
  let ?n = "length (cf_blocks func)" and ?e = "cf_entry_block func"
  obtain seen where seen: "visit_blocks (cf_blocks func) [?e] (replicate ?n False) = Some seen" "visited (cf_blocks func) [?e] (replicate ?n False) seen"
    using visit_blocks_returns [OF assms(1), of "replicate ?n False" "[?e]"] assms(2) by auto
  define ids where "ids = filter (\<lambda>b. seen ! b) [0..<?n]"
  note v = visited_start [OF seen(2)]
  have entry: "seen ! ?e" using v(2) assms(2) by simp
  have closed: "set (cb_successors (cf_blocks func ! b)) \<subseteq> set ids" if "b \<in> set ids" for b
    using that v(3) [of b] assms(1) by (fastforce simp: ids_def)
  have "b \<in> set ids" if "(?e, b) \<in> (succ_edges (cf_blocks func))\<^sup>*" for b
    using that
  proof (induction rule: rtrancl_induct)
    case base
    then show ?case using entry assms(2) by (simp add: ids_def)
  next
    case (step c d)
    then show ?case using closed [of c] by (auto simp: succ_edges_def)
  qed
  moreover have "(?e, b) \<in> (succ_edges (cf_blocks func))\<^sup>*" if "b \<in> set ids" for b using that v(4) by (auto simp: ids_def)
  ultimately have set_ids: "set ids = {b. (?e, b) \<in> (succ_edges (cf_blocks func))\<^sup>*}" by blast
  show ?thesis
  proof (rule that [OF _ _ _ set_ids closed])
    show "compute_reachable_blocks func = Some ids" unfolding compute_reachable_blocks_def seen(1) by (simp add: v(1) ids_def)
    show "sorted_wrt (<) ids" unfolding ids_def by (intro sorted_wrt_filter) simp
    show "set ids \<subseteq> {..<?n}" by (auto simp: ids_def)
  qed
qed

section \<open>The blocks that are kept\<close>

lemma those_total: "(\<And>x. x \<in> set xs \<Longrightarrow> f x = Some (g x)) \<Longrightarrow> those (map f xs) = Some (map g xs)"
  by (induction xs) auto

definition remapped :: "nat list \<Rightarrow> canon_inst \<Rightarrow> canon_inst" where
  "remapped ids i = i\<lparr>cn_operands := map (rename_operand (place_in ids)) (cn_operands i)\<rparr>"

lemma remap_inst_returns:
  assumes "wf_inst n i"
  shows "remap_inst n ids i = Some (remapped ids i)"
proof -
  have "remap_operand n ids operand = Some (rename_operand (place_in ids) operand)" if "operand \<in> set (cn_operands i)" for operand
    using that assms by (auto simp: remap_operand_def rename_operand_def place_in_def dest: wf_instD split: lowered_operand.splits)
  then show ?thesis by (simp add: remap_inst_def remapped_def those_total)
qed

definition kept_block :: "canon_block list \<Rightarrow> nat list \<Rightarrow> nat \<times> nat \<Rightarrow> canon_block" where
  "kept_block blocks ids = (\<lambda>(new_id, old_id). (blocks ! old_id)\<lparr>cb_id := new_id, cb_insts := map (remapped ids) (cb_insts (blocks ! old_id))\<rparr>)"

lemma remap_block_returns:
  assumes "wf_graph blocks" "b < length blocks"
  shows "remap_block blocks ids (k, b) = Some (kept_block blocks ids (k, b))"
proof -
  have "wf_inst (length blocks) i" if "i \<in> set (cb_insts (blocks ! b))" for i
    using that assms by (auto simp: wf_graph_def wf_insts_def)
  then have "those (map (remap_inst (length blocks) ids) (cb_insts (blocks ! b))) = Some (map (remapped ids) (cb_insts (blocks ! b)))"
    by (intro those_total remap_inst_returns)
  then show ?thesis using assms(2) by (simp add: remap_block_def kept_block_def)
qed

text \<open>A branch leads to one of the successors.\<close>

lemma target_is_successor:
  assumes "wf_insts n (cb_insts (blocks ! b))" "i \<in> set (cb_insts (blocks ! b))" "JumpTarget t \<in> set (cn_operands i)"
  shows "t \<in> set (canon_block_successors blocks b)"
proof -
  have wf: "wf_inst n i" using assms(1,2) by (simp add: wf_insts_def)
  have control: "control_op (cn_op i)" using wf_instD [OF wf assms(3)] by simp
  have ne: "cb_insts (blocks ! b) \<noteq> []" using assms(2) by auto
  have i: "last (cb_insts (blocks ! b)) = i"
  proof -
    have "i \<in> set (butlast (cb_insts (blocks ! b)) @ [last (cb_insts (blocks ! b))])" using assms(2) ne by simp
    then show ?thesis using assms(1) control by (auto simp: wf_insts_def)
  qed
  obtain k where k: "k < length (cn_operands i)" "cn_operands i ! k = JumpTarget t" using assms(3) by (auto simp: in_set_conv_nth)
  have place: "k = 0 \<longleftrightarrow> cn_op i \<noteq> Op_br_table" using wf k by (auto simp: wf_inst_def)
  show ?thesis
  proof (cases "cn_op i = Op_br_table")
    case True
    then obtain j where "k = Suc j" using place by (cases k) auto
    then have "JumpTarget t \<in> set (drop 1 (cn_operands i))" using k by (auto simp: in_set_conv_nth intro!: exI [of _ j])
    then show ?thesis using True ne i by (force simp: canon_block_successors_def Let_def List.map_filter_def jump_target_def)
  next
    case False
    then have "jump_target (first_operand i) = Some t" using place k by (simp add: first_operand_def jump_target_operand)
    then show ?thesis using control False ne i by (auto simp: canon_block_successors_def Let_def control_op_def)
  qed
qed

lemma kept_blocks_wf:
  assumes "wf_graph blocks" "closed_ids blocks ids" "set ids \<subseteq> {..<length blocks}"
  shows "wf_graph (map (kept_block blocks ids) (enumerate 0 ids))"
proof -
  have "wf_insts (length ids) (map (remapped ids) (cb_insts (blocks ! b)))" if b: "b \<in> set ids" for b
  proof -
    have wf: "wf_insts (length blocks) (cb_insts (blocks ! b))" using assms(1,3) b by (auto simp: wf_graph_def)
    have "wf_inst (length ids) (remapped ids i)" if i: "i \<in> set (cb_insts (blocks ! b))" for i
    proof -
      have old: "wf_inst (length blocks) i" using wf i by (simp add: wf_insts_def)
      have "place_in ids t < length ids" if "JumpTarget t \<in> set (cn_operands i)" for t
        using target_is_successor [OF wf i that] assms(2) b place_in_nth [of t ids] by (auto simp: closed_ids_def)
      then have place: "place_in ids t < length ids" if "k < length (cn_operands i)" "cn_operands i ! k = JumpTarget t" for k t
        using that by (metis nth_mem)
      have source: "\<exists>u. operand = JumpTarget u \<and> t = place_in ids u" if "rename_operand (place_in ids) operand = JumpTarget t" for operand t
        using that by (auto simp: rename_operand_def split: lowered_operand.splits)
      show ?thesis unfolding wf_inst_def
      proof (intro allI impI)
        fix k t
        assume k: "k < length (cn_operands (remapped ids i))" "cn_operands (remapped ids i) ! k = JumpTarget t"
        then obtain u where u: "k < length (cn_operands i)" "cn_operands i ! k = JumpTarget u" "t = place_in ids u"
          using source by (auto simp: remapped_def)
        then show "control_op (cn_op (remapped ids i)) \<and> t < length ids \<and> (k = 0 \<longleftrightarrow> cn_op (remapped ids i) \<noteq> Op_br_table)"
          using old place [OF u(1,2)] by (simp add: wf_inst_def remapped_def)
      qed
    qed
    moreover have "cn_op (remapped ids i) = cn_op i" for i by (simp add: remapped_def)
    ultimately show ?thesis using wf by (auto simp: wf_insts_def simp flip: map_butlast)
  qed
  then show ?thesis by (simp add: wf_graph_def kept_block_def all_set_conv_all_nth [where xs = "enumerate 0 ids"] nth_enumerate_eq)
qed

lemma kept_blocks_kept:
  assumes "set ids \<subseteq> {..<length blocks}"
  shows "kept_blocks ids blocks (map (kept_block blocks ids) (enumerate 0 ids))"
  unfolding kept_blocks_def
proof (rule list_all2_all_nthI)
  fix k
  assume k: "k < length ids"
  then have "ids ! k < length blocks" using assms nth_mem [OF k] by blast
  moreover have "list_all2 (renamed f) xs (map (\<lambda>i. i\<lparr>cn_operands := map (rename_operand f) (cn_operands i)\<rparr>) xs)" for f xs
    by (induction xs) (simp_all add: renamed_def)
  ultimately show "ids ! k < length blocks \<and>
      list_all2 (renamed (place_in ids)) (cb_insts (blocks ! (ids ! k))) (cb_insts (map (kept_block blocks ids) (enumerate 0 ids) ! k))"
    using k by (simp add: kept_block_def nth_enumerate_eq remapped_def [abs_def])
qed simp

section \<open>The rewritten graph\<close>

definition numbered :: "canon_block list \<Rightarrow> bool" where
  "numbered blocks \<longleftrightarrow> (\<forall>b < length blocks. cb_id (blocks ! b) = b)"

lemma canon_verify_iff:
  "canon_verify func \<longleftrightarrow> cf_blocks func \<noteq> [] \<and> numbered (cf_blocks func) \<and>
     (\<forall>b < length (cf_blocks func). set (cb_successors (cf_blocks func ! b)) \<subseteq> {..<length (cf_blocks func)})"
  by (auto simp: canon_verify_def numbered_def all_set_conv_all_nth [where xs = "enumerate 0 (cf_blocks func)"] nth_enumerate_eq)

definition flow_edges :: "canon_block list \<Rightarrow> (nat \<times> nat) set" where
  "flow_edges blocks = {(b, t). b < length blocks \<and> t \<in> set (canon_block_successors blocks b)}"

lemma retain_returns:
  assumes "wf_graph (cf_blocks func)" "closed_ids (cf_blocks func) ids" "set ids \<subseteq> {..<length (cf_blocks func)}" "0 \<in> set ids"
    and "cf_entry_block func = 0" "numbered (cf_blocks func)"
  shows "\<exists>func'. retain_reachable_blocks func ids = Some func' \<and> cf_entry_block func' = 0 \<and> wf_graph (cf_blocks func') \<and>
    length (cf_blocks func') = length ids \<and> numbered (cf_blocks func') \<and>
    (\<forall>n s. run_func other base fe (cf_blocks func') n 0 s = run_func other base fe (cf_blocks func) n 0 s)"
proof (cases "length ids = length (cf_blocks func)")
  case True
  then show ?thesis using assms by (auto simp: retain_reachable_blocks_def)
next
  case False
  let ?blocks = "map (kept_block (cf_blocks func) ids) (enumerate 0 ids)"
  have "those (map (remap_block (cf_blocks func) ids) (enumerate 0 ids)) = Some ?blocks"
  proof (rule those_total)
    fix p
    assume "p \<in> set (enumerate 0 ids)"
    then have "snd p \<in> set ids" using nth_mem by (force simp: in_set_enumerate_eq)
    then show "remap_block (cf_blocks func) ids p = Some (kept_block (cf_blocks func) ids p)"
      using remap_block_returns [OF assms(1), of "snd p" ids "fst p"] assms(3) by auto
  qed
  then have retain: "retain_reachable_blocks func ids = Some (func\<lparr>cf_blocks := ?blocks, cf_entry_block := 0\<rparr>)"
    using False by (simp add: retain_reachable_blocks_def)
  have "sorted_wrt (<) ids" using assms(2) by (simp add: closed_ids_def)
  then have first: "0 < length ids" "ids ! 0 = 0" using assms(4) by (cases ids; fastforce)+
  have "run_func other base fe ?blocks n 0 s = run_func other base fe (cf_blocks func) n 0 s" for n s
    using run_kept [OF assms(1,2) kept_blocks_kept [OF assms(3)] first(1)] first(2) by simp
  moreover have "numbered ?blocks" by (simp add: numbered_def kept_block_def nth_enumerate_eq)
  ultimately show ?thesis using retain kept_blocks_wf [OF assms(1-3)] by simp
qed

lemma reachable_retained:
  assumes "wf_graph (cf_blocks func)" "cf_blocks func \<noteq> []" "numbered (cf_blocks func)" "cf_entry_block func = 0"
  shows "\<exists>func'. Option.bind (recompute_cfg func) (\<lambda>func. Option.bind (compute_reachable_blocks func) (retain_reachable_blocks func)) = Some func' \<and>
    cf_entry_block func' = 0 \<and> wf_graph (cf_blocks func') \<and> numbered (cf_blocks func') \<and>
    length (cf_blocks func') = card {b. (0, b) \<in> (flow_edges (cf_blocks func))\<^sup>*} \<and> cf_blocks func' \<noteq> [] \<and>
    (\<forall>n s. run_func other base fe (cf_blocks func') n 0 s = run_func other base fe (cf_blocks func) n 0 s)"
proof -
  let ?old = "cf_blocks func"
  obtain mid where mid: "recompute_cfg func = Some (func\<lparr>cf_blocks := mid\<rparr>)" "same_code ?old mid"
    "\<And>b. b < length ?old \<Longrightarrow> cb_id (mid ! b) = cb_id (?old ! b) \<and> cb_successors (mid ! b) = canon_block_successors ?old b"
    by (rule recompute_cfg_returns [OF assms(1)]) blast
  define f1 where "f1 = func\<lparr>cf_blocks := mid\<rparr>"
  have f1: "cf_blocks f1 = mid" "cf_entry_block f1 = 0" using assms(4) by (simp_all add: f1_def)
  have len: "length mid = length ?old" by (rule same_code_nth(1) [OF mid(2)])
  have edges: "succ_edges (cf_blocks f1) = flow_edges ?old" using mid(3) len by (auto simp: succ_edges_def flow_edges_def f1)
  have in_range: "\<forall>b < length (cf_blocks f1). set (cb_successors (cf_blocks f1 ! b)) \<subseteq> {..<length (cf_blocks f1)}"
    using successors_range [OF assms(1)] mid(3) len by (simp add: f1)
  have "cf_entry_block f1 < length (cf_blocks f1)" using assms(2) len f1 by simp
  then obtain ids where "compute_reachable_blocks f1 = Some ids" "sorted_wrt (<) ids" "set ids \<subseteq> {..<length (cf_blocks f1)}"
    "set ids = {b. (cf_entry_block f1, b) \<in> (succ_edges (cf_blocks f1))\<^sup>*}" "\<And>b. b \<in> set ids \<Longrightarrow> set (cb_successors (cf_blocks f1 ! b)) \<subseteq> set ids"
    by (rule compute_reachable_returns [OF in_range]) blast
  note ids = this [unfolded edges, unfolded f1]
  have "set (canon_block_successors mid b) \<subseteq> set ids" if "b \<in> set ids" for b
  proof -
    have "b < length ?old" using ids(3) that len by auto
    then show ?thesis using ids(5) [OF that] mid(3) [of b] successors_code [OF mid(2), of b] by simp
  qed
  then have closed: "closed_ids (cf_blocks f1) ids" using ids(2) by (simp add: closed_ids_def f1)
  have wf: "wf_graph (cf_blocks f1)" using wf_graph_code [OF mid(2)] assms(1) f1 by simp
  have nums: "numbered (cf_blocks f1)" using assms(3) mid(3) len by (simp add: numbered_def f1)
  have entry: "0 \<in> set ids" unfolding ids(4) by simp
  from retain_returns [OF wf closed ids(3) [folded f1(1)] entry f1(2) nums, of other base fe] obtain f2 where
    f2: "retain_reachable_blocks f1 ids = Some f2" "cf_entry_block f2 = 0" "wf_graph (cf_blocks f2)" "length (cf_blocks f2) = length ids"
      "numbered (cf_blocks f2)" "\<And>n s. run_func other base fe (cf_blocks f2) n 0 s = run_func other base fe mid n 0 s" unfolding f1(1) by blast
  have "Option.bind (recompute_cfg func) (\<lambda>func. Option.bind (compute_reachable_blocks func) (retain_reachable_blocks func)) = Some f2"
    using mid(1) ids(1) f2(1) by (simp add: f1_def)
  moreover have "length ids = card {b. (0, b) \<in> (flow_edges ?old)\<^sup>*}" using ids(2,4) by (metis distinct_card strict_sorted_iff)
  moreover have "cf_blocks f2 \<noteq> []" using entry f2(4) by auto
  ultimately show ?thesis using f2 run_func_code [OF mid(2), of other base fe] by auto
qed

lemma renumbered:
  assumes "wf_graph (cf_blocks func)" "cf_blocks func \<noteq> []" "numbered (cf_blocks func)"
  shows "\<exists>func'. map_option renumber_inst_metadata (recompute_cfg func) = Some func' \<and> canon_verify func' \<and>
    cf_entry_block func' = cf_entry_block func \<and> wf_graph (cf_blocks func') \<and> length (cf_blocks func') = length (cf_blocks func) \<and>
    (\<forall>n b s. run_func other base fe (cf_blocks func') n b s = run_func other base fe (cf_blocks func) n b s)"
proof -
  obtain mid where mid: "recompute_cfg func = Some (func\<lparr>cf_blocks := mid\<rparr>)" "same_code (cf_blocks func) mid"
    "\<And>b. b < length (cf_blocks func) \<Longrightarrow> cb_id (mid ! b) = cb_id (cf_blocks func ! b) \<and> cb_successors (mid ! b) = canon_block_successors (cf_blocks func) b"
    by (rule recompute_cfg_returns [OF assms(1)]) blast
  define new where "new = renumber_inst_metadata (func\<lparr>cf_blocks := mid\<rparr>)"
  have new: "cf_blocks new = renumber_blocks 0 mid" "cf_entry_block new = cf_entry_block func" by (simp_all add: new_def renumber_inst_metadata_def)
  have len: "length mid = length (cf_blocks func)" "length (cf_blocks new) = length (cf_blocks func)"
    using same_code_nth(1) [OF mid(2)] same_code_nth(1) [OF renumber_same_code, of 0 mid] new(1) by simp_all
  have "numbered (cf_blocks new)" using assms(3) mid(3) renumber_blocks_nth [of _ mid 0] len new(1) by (simp add: numbered_def)
  moreover have "set (cb_successors (cf_blocks new ! b)) \<subseteq> {..<length (cf_blocks new)}" if "b < length (cf_blocks new)" for b
    using successors_range [OF assms(1), of b] mid(3) [of b] renumber_blocks_nth [of b mid 0] that len new(1) by simp
  moreover have "cf_blocks new \<noteq> []" using len assms(2) by auto
  ultimately have "canon_verify new" by (simp add: canon_verify_iff)
  moreover have "wf_graph (cf_blocks new)" using wf_graph_code [OF renumber_same_code, of 0 mid] wf_graph_code [OF mid(2)] assms(1) new(1) by simp
  moreover have "run_func other base fe (cf_blocks new) n b s = run_func other base fe (cf_blocks func) n b s" for n b s
    using run_func_code [OF renumber_same_code, of other base fe 0 mid n b s] run_func_code [OF mid(2), of other base fe n b s] new(1) by simp
  ultimately show ?thesis using mid(1) new(2) len by (auto simp: new_def)
qed

lemma normalize_returns:
  assumes "canon_verify func" "wf_graph (cf_blocks func)" "cf_entry_block func = 0"
  shows "\<exists>func'. normalize_after_cfg_rewrites func = Some func' \<and> canon_verify func' \<and> cf_entry_block func' = 0 \<and> wf_graph (cf_blocks func') \<and>
    length (cf_blocks func') = card {b. (0, b) \<in> (flow_edges (cf_blocks func))\<^sup>*} \<and>
    (\<forall>n s. run_func other base fe (cf_blocks func') n 0 s = run_func other base fe (cf_blocks func) n 0 s)"
proof -
  have old: "cf_blocks func \<noteq> []" "numbered (cf_blocks func)" using assms(1) by (simp_all add: canon_verify_iff)
  obtain kept where kept: "Option.bind (recompute_cfg func) (\<lambda>func. Option.bind (compute_reachable_blocks func) (retain_reachable_blocks func)) = Some kept"
    "cf_entry_block kept = 0" "wf_graph (cf_blocks kept)" "numbered (cf_blocks kept)" "cf_blocks kept \<noteq> []"
    "length (cf_blocks kept) = card {b. (0, b) \<in> (flow_edges (cf_blocks func))\<^sup>*}"
    "\<And>n s. run_func other base fe (cf_blocks kept) n 0 s = run_func other base fe (cf_blocks func) n 0 s"
    using reachable_retained [OF assms(2) old assms(3), of other base fe] by blast
  have "normalize_after_cfg_rewrites func = map_option renumber_inst_metadata (recompute_cfg kept)"
    using kept(1) by (auto simp: normalize_after_cfg_rewrites_def bind_eq_Some_conv)
  then show ?thesis using renumbered [OF kept(3,5,4), of other base fe] kept(2,6,7) by auto
qed

section \<open>Folded functions\<close>

text \<open>What \<open>run\<close> does before it looks at expressions: the passes on every block, then the graph.\<close>

definition rewrite_block :: "canon_block \<Rightarrow> canon_block" where
  "rewrite_block block = fst (fuse_i32_select_bit_steps (fst (fold_const_branches (fst (fold_const_ops block)))))"

definition fold_and_normalize :: "canon_func \<Rightarrow> canon_func option" where
  "fold_and_normalize func = normalize_after_cfg_rewrites (func\<lparr>cf_blocks := map rewrite_block (cf_blocks func)\<rparr>)"

text \<open>The pass on steps of bit-wise updates finds nothing.\<close>

definition no_bit_steps :: "canon_block \<Rightarrow> bool" where
  "no_bit_steps block \<longleftrightarrow> snd (fuse_i32_select_bit_steps (fst (fold_const_branches (fst (fold_const_ops block))))) = 0"

lemma wf_insts_Cons: "wf_insts n (i # insts) \<longleftrightarrow> wf_inst n i \<and> (insts \<noteq> [] \<longrightarrow> \<not> control_op (cn_op i)) \<and> wf_insts n insts"
  by (auto simp: wf_insts_def)

lemma wf_insts_drop: "wf_insts n insts \<Longrightarrow> wf_insts n (drop k insts)"
proof (induction insts arbitrary: k)
  case (Cons i insts)
  then show ?case by (cases k) (auto simp: wf_insts_Cons)
qed simp

lemma wf_insts_append:
  assumes "wf_insts n (xs @ ys)" "ys \<noteq> []" "\<And>y. y \<in> set zs \<Longrightarrow> wf_inst n y" "length zs \<le> 1"
  shows "wf_insts n (xs @ zs)"
proof -
  have xs: "\<forall>i \<in> set xs. wf_inst n i \<and> \<not> control_op (cn_op i)" using assms(1,2) by (auto simp: wf_insts_def butlast_append)
  have "butlast (xs @ zs) = (if zs = [] then butlast xs else xs)" using assms(4) by (cases zs) (auto simp: butlast_append)
  then show ?thesis using xs assms(3) by (auto simp: wf_insts_def dest: in_set_butlastD)
qed

lemma wf_folded: "op \<in> {Op_i32_const, Op_i64_const} \<Longrightarrow> wf_inst n (folded_const_inst a b op (Raw w)) \<and> \<not> control_op (cn_op (folded_const_inst a b op (Raw w)))"
  by (auto simp: wf_inst_def folded_const_inst_def control_op_def)

lemma window_folded:
  "fold_i32_const_window insts = Some (inst, k) \<Longrightarrow> wf_inst n inst \<and> \<not> control_op (cn_op inst)"
  "fold_i64_const_window insts = Some (inst, k) \<Longrightarrow> wf_inst n inst \<and> \<not> control_op (cn_op inst)"
  by (auto simp: fold_i32_const_window_def fold_i64_const_window_def bind_eq_Some_conv raw_i32_operand_def raw_i64_operand_def wf_folded
      split: list.splits if_splits option.splits)

lemma fold_const_loop_wf: "wf_insts n insts \<Longrightarrow> wf_insts n (fst (fold_const_loop insts))"
proof (induction insts rule: fold_const_loop.induct)
  case (2 i insts)
  have window: "wf_insts n (inst # fst (fold_const_loop (drop k (i # insts))))"
    if "wf_inst n inst \<and> \<not> control_op (cn_op inst)" "wf_insts n (fst (fold_const_loop (drop k (i # insts))))" for inst k
    using that by (simp add: wf_insts_Cons)
  show ?case
  proof (cases "fold_i32_const_window (i # insts)")
    case (Some r)
    obtain inst k where r: "r = (inst, k)" by (cases r)
    have "wf_insts n (inst # fst (fold_const_loop (drop k (i # insts))))"
      using window_folded(1) Some r 2(3) [OF Some r [symmetric]] 2(4) wf_insts_drop by (intro window) blast+
    then show ?thesis using Some r by (auto split: prod.splits)
  next
    case None
    note n32 = None
    show ?thesis
    proof (cases "fold_i64_const_window (i # insts)")
      case (Some r)
      obtain inst k where r: "r = (inst, k)" by (cases r)
      have "wf_insts n (inst # fst (fold_const_loop (drop k (i # insts))))"
        using window_folded(2) Some r 2(2) [OF n32 Some r [symmetric]] 2(4) wf_insts_drop by (intro window) blast+
      then show ?thesis using Some r n32 by (auto split: prod.splits)
    next
      case None
      have "insts = [] \<Longrightarrow> fst (fold_const_loop insts) = []" by simp
      then show ?thesis using 2(1) [OF n32 None] 2(4) n32 None by (auto simp: wf_insts_Cons split: prod.splits)
    qed
  qed
qed simp

lemma wf_make_br: "wf_inst n j \<Longrightarrow> cn_op j = Op_br_if \<Longrightarrow> jump_target (first_operand j) = Some t \<Longrightarrow> wf_inst n (make_br t)"
  by (auto simp: wf_inst_def make_br_def first_operand_def jump_target_operand control_op_def)

lemma fold_branches_wf:
  assumes "wf_insts n insts" "fold_br_if insts = Some insts' \<or> fold_eqz_br_if insts = Some insts'"
  shows "wf_insts n insts'"
proof -
  obtain xs ys j t where parts: "insts = xs @ ys @ [j]" "insts' = xs \<or> insts' = xs @ [make_br t]" "cn_op j = Op_br_if" "jump_target (first_operand j) = Some t"
  proof (cases "fold_br_if insts = Some insts'")
    case True
    then obtain j c rest t where r: "rev insts = j # c # rest" "insts' = rev rest \<or> insts' = rev rest @ [make_br t]" "cn_op j = Op_br_if" "jump_target (first_operand j) = Some t"
      by (auto simp: fold_br_if_def bind_eq_Some_conv split: list.splits if_splits)
    from arg_cong [OF r(1), of rev] show thesis using that [of "rev rest" "[c]" j t] r(2-4) by simp
  next
    case False
    then obtain j z c rest t where r: "rev insts = j # z # c # rest" "insts' = rev rest \<or> insts' = rev rest @ [make_br t]" "cn_op j = Op_br_if"
      "jump_target (first_operand j) = Some t"
      using assms(2) by (auto simp: fold_eqz_br_if_def bind_eq_Some_conv split: list.splits if_splits)
    from arg_cong [OF r(1), of rev] show thesis using that [of "rev rest" "[c, z]" j t] r(2-4) by simp
  qed
  have "wf_inst n (make_br t)" using assms(1) parts by (intro wf_make_br [of n j]) (auto simp: wf_insts_def)
  then show ?thesis using parts(2) wf_insts_append [OF assms(1) [unfolded parts(1)], of "[]"] wf_insts_append [OF assms(1) [unfolded parts(1)], of "[make_br t]"] by auto
qed

lemma rewrite_block_insts:
  assumes "no_bit_steps block"
  shows "rewrite_block block = fst (fold_const_branches (fst (fold_const_ops block)))"
  using assms by (auto simp: rewrite_block_def no_bit_steps_def fuse_i32_select_bit_steps_def split: prod.splits)

lemma rewrite_block_wf:
  assumes "no_bit_steps block" "wf_insts n (cb_insts block)"
  shows "wf_insts n (cb_insts (rewrite_block block))"
proof -
  have "wf_insts n (cb_insts (fst (fold_const_ops block)))"
    using fold_const_loop_wf [OF assms(2)] by (auto simp: fold_const_ops_def split: prod.splits)
  then show ?thesis unfolding rewrite_block_insts [OF assms(1)] using fold_branches_wf
    by (auto simp: fold_const_branches_def split: option.splits)
qed

lemma rewrite_block_replaces:
  assumes "ignores_garbage other" "no_bit_steps block"
  shows "replaces other base fe (cb_insts (rewrite_block block)) (cb_insts block)"
  unfolding replaces_def rewrite_block_insts [OF assms(2)]
proof (intro allI impI)
  fix w st st'
  assume same: "same_below st st'"
  let ?mid = "fst (fold_const_ops block)"
  have "agree_state (run_insts other base fe (cb_insts block) (w, st)) (run_insts other base fe (cb_insts ?mid) (w, st))"
    using fold_ops_replaces [OF assms(1)] same_below_left [OF same] by (simp add: replaces_def)
  moreover have "agree_state (run_insts other base fe (cb_insts ?mid) (w, st)) (run_insts other base fe (cb_insts (fst (fold_const_branches ?mid))) (w, st'))"
    using fold_const_branches_replaces [OF assms(1)] same by (simp add: replaces_def)
  ultimately show "agree_state (run_insts other base fe (cb_insts block) (w, st)) (run_insts other base fe (cb_insts (fst (fold_const_branches ?mid))) (w, st'))"
    unfolding agree_state_def by (rule agree_trans) (auto simp: same_below_def)
qed

text \<open>Two runs of a function agree: as two runs of a block do, and the second is longer if the first is.\<close>

definition agree_run :: "(vm_stop + 'x \<times> 'w \<times> stack) option \<Rightarrow> (vm_stop + 'x \<times> 'w \<times> stack) option \<Rightarrow> bool" where
  "agree_run r r' =
     (case r of None \<Rightarrow> r' = None
      | Some e \<Rightarrow> e = Inl VStackOverflow \<or> e = Inl VUndefined \<or> (\<exists>e'. r' = Some e' \<and> agree_state e e'))"

lemma run_replaced:
  assumes "list_all2 (\<lambda>block block'. replaces other base fe (cb_insts block') (cb_insts block)) blocks blocks'"
  shows "same_below st st' \<Longrightarrow> agree_run (run_func other base fe blocks n b (w, st)) (run_func other base fe blocks' n b (w, st'))"
proof (induction n arbitrary: b w st st')
  case 0
  then show ?case by (simp add: agree_run_def)
next
  case (Suc n)
  have len: "length blocks' = length blocks" using assms by (simp add: list_all2_lengthD)
  show ?case
  proof (cases "b < length blocks")
    case True
    then have "agree_state (run_insts other base fe (cb_insts (blocks ! b)) (w, st)) (run_insts other base fe (cb_insts (blocks' ! b)) (w, st'))"
      using list_all2_nthD [OF assms True] Suc.prems by (simp add: replaces_def)
    then consider "run_insts other base fe (cb_insts (blocks ! b)) (w, st) \<in> {Inl VStackOverflow, Inl VUndefined}"
      | e where "run_insts other base fe (cb_insts (blocks ! b)) (w, st) = Inl e" "run_insts other base fe (cb_insts (blocks' ! b)) (w, st') = Inl e"
      | x w1 s1 s1' where "run_insts other base fe (cb_insts (blocks ! b)) (w, st) = Inr (x, w1, s1)"
          "run_insts other base fe (cb_insts (blocks' ! b)) (w, st') = Inr (x, w1, s1')" "same_below s1 s1'"
      unfolding agree_state_def agree_def by auto
    then show ?thesis
    proof cases
      case 1
      then show ?thesis using True by (auto simp: agree_run_def)
    next
      case 2
      then show ?thesis using True len by (simp add: agree_run_def agree_state_def)
    next
      case 3
      then show ?thesis using True len Suc.IH [OF 3(3)]
        by (auto simp: agree_run_def [of "Some _"] agree_state_def split: option.splits block_exit.splits)
    qed
  qed (simp add: agree_run_def)
qed

section \<open>Lowered functions\<close>

text \<open>The block that a block of records becomes.\<close>

definition lowered :: "basic_block_program \<Rightarrow> basic_block \<Rightarrow> canon_block \<Rightarrow> bool" where
  "lowered bp b block \<longleftrightarrow> cb_id block = bb_id b \<and> cb_successors block = bp_successors bp ! bb_id b \<and>
     (\<exists>m. cb_insts block = map (\<lambda>(i, r). lower_record bp i r) (enumerate m (take (bb_end b - bb_start b) (drop (bb_start b) (bp_records bp)))))"

lemma lower_blocks_returns:
  assumes "\<forall>b \<in> set bs. bb_start b < bb_end b \<and> bb_end b \<le> length (bp_records bp) \<and> bb_id b < length (bp_predecessors bp) \<and> bb_id b < length (bp_successors bp)"
  shows "\<exists>blocks. lower_blocks bp v i bs = Some blocks \<and> list_all2 (lowered bp) bs blocks"
  using assms
proof (induction bs arbitrary: v i)
  case (Cons b bs)
  obtain rest where "lower_blocks bp (v + length (ss_types (di_stack_before (bp_records bp ! bb_start b))))
      (i + length (take (bb_end b - bb_start b) (drop (bb_start b) (bp_records bp)))) bs = Some rest" "list_all2 (lowered bp) bs rest"
    using Cons.IH Cons.prems by (metis list.set_intros(2))
  then show ?case using Cons.prems by (auto simp: Let_def lowered_def [of bp b])
qed simp

lemma lowered_wf_inst:
  assumes "\<And>a t. bp_old_start_to_block bp a = Some t \<Longrightarrow> t < n"
  shows "wf_inst n (lower_record bp i r)"
proof -
  have operand: "control_op (di_op r) \<and> t < n \<and> (k = 0 \<longleftrightarrow> di_op r \<noteq> Op_br_table)" if "lower_operand r k operand bp = JumpTarget t" for k operand t
    using that assms by (auto simp: lower_operand_def slot_call_recipe_def control_target_operand_def control_op_def bind_eq_Some_conv
        split: if_splits option.splits)
  show ?thesis
    by (auto simp: wf_inst_def lower_record_def lower_operands_def nth_enumerate_eq dest: operand)
qed

lemma lowered_wf:
  assumes "blocks_built rs tss ls (bp_blocks bp) (bp_old_start_to_block bp)" "bp_records bp = rs" "b < length (bp_blocks bp)" "lowered bp (bp_blocks bp ! b) block"
  shows "wf_insts (length (bp_blocks bp)) (cb_insts block)"
proof -
  have len: "length (bp_blocks bp) = length ls" and bl: "b < length ls" using built_ok [OF assms(1)] assms(3) by auto
  note ok = conjunct1 [OF built_ok [OF assms(1)]]
  let ?start = "ls ! b" and ?stop = "next_leader ls (length rs) b"
  note e = leader_next [OF ok bl]
  obtain m where insts: "cb_insts block = map (\<lambda>(i, r). lower_record bp i r) (enumerate m (take (?stop - ?start) (drop ?start rs)))"
    using assms(2,4) by (auto simp: lowered_def built_block(2) [OF assms(1) bl])
  have "t < length (bp_blocks bp)" if "bp_old_start_to_block bp a = Some t" for a t using assms(1) that len by (simp add: blocks_built_def)
  then have "\<forall>i \<in> set (cb_insts block). wf_inst (length (bp_blocks bp)) i" unfolding insts using lowered_wf_inst by auto
  moreover have "\<not> control_op (cn_op i)" if i: "i \<in> set (butlast (cb_insts block))" for i
  proof -
    obtain k where "k < length (butlast (cb_insts block))" "butlast (cb_insts block) ! k = i" using i unfolding in_set_conv_nth by blast
    then have k: "k + 1 < length (cb_insts block)" "i = cb_insts block ! k" by (auto simp: nth_butlast)
    then have inside: "?start \<le> ?start + k" "?start + k + 1 < ?stop" using e by (auto simp: insts)
    then have "i = lower_record bp (m + k) (rs ! (?start + k))" using k e by (simp add: insts nth_enumerate_eq)
    then show ?thesis using built_inside(2) [OF assms(1) bl inside] by (auto simp: lower_record_def ends_basic_block_def control_op_def)
  qed
  ultimately show ?thesis by (simp add: wf_insts_def)
qed

lemma from_program_wf:
  assumes "blocks_built rs tss ls (bp_blocks bp) (bp_old_start_to_block bp)" "bp_records bp = rs"
    "edges_are_flow rs (bp_blocks bp) (bp_successors bp) (bp_predecessors bp)"
  shows "\<exists>func. from_program funcidx functype locals_size bp = Some func \<and> canon_verify func \<and> wf_graph (cf_blocks func) \<and> cf_entry_block func = 0"
proof -
  note part = built_partitions [OF assms(1)]
  have "\<forall>b \<in> set (bp_blocks bp). bb_start b < bb_end b \<and> bb_end b \<le> length (bp_records bp) \<and> bb_id b < length (bp_predecessors bp) \<and> bb_id b < length (bp_successors bp)"
    using part assms(2,3) by (auto simp: partitions_def edges_are_flow_def in_set_conv_nth)
  then obtain blocks where blocks: "lower_blocks bp 0 0 (bp_blocks bp) = Some blocks" "list_all2 (lowered bp) (bp_blocks bp) blocks"
    using lower_blocks_returns by blast
  have len: "length blocks = length (bp_blocks bp)" using blocks(2) by (simp add: list_all2_lengthD)
  have low: "lowered bp (bp_blocks bp ! b) (blocks ! b)" if "b < length blocks" for b using list_all2_nthD2 [OF blocks(2) that] .
  have "wf_graph blocks" using lowered_wf [OF assms(1,2) _ low] len by (auto simp: wf_graph_def in_set_conv_nth)
  moreover have "blocks \<noteq> []" using len built_ok [OF assms(1)] by (auto simp: leaders_ok_def)
  moreover have "cb_id (blocks ! b) = b \<and> set (cb_successors (blocks ! b)) \<subseteq> {..<length blocks}" if "b < length blocks" for b
    using low [OF that] part assms(3) that len by (auto simp: lowered_def partitions_def edges_are_flow_def)
  ultimately show ?thesis using blocks(1) by (auto simp: from_program_def canon_verify_iff numbered_def)
qed

lemma folded_runs:
  assumes "ignores_garbage other" "canon_verify func" "wf_graph (cf_blocks func)" "cf_entry_block func = 0" "\<forall>block \<in> set (cf_blocks func). no_bit_steps block"
  shows "\<exists>func'. fold_and_normalize func = Some func' \<and> canon_verify func' \<and> cf_entry_block func' = 0 \<and>
    (\<forall>n w st. same_below st st \<longrightarrow> agree_run (run_func other base fe (cf_blocks func) n 0 (w, st)) (run_func other base fe (cf_blocks func') n 0 (w, st)))"
proof -
  define new where "new = func\<lparr>cf_blocks := map rewrite_block (cf_blocks func)\<rparr>"
  have blocks: "cf_blocks new = map rewrite_block (cf_blocks func)" "cf_entry_block new = 0" using assms(4) by (simp_all add: new_def)
  have parts: "cb_id (rewrite_block b) = cb_id b \<and> cb_successors (rewrite_block b) = cb_successors b" if "b \<in> set (cf_blocks func)" for b
    using rewrite_block_insts assms(5) that by (auto simp: fold_const_branches_def fold_const_ops_def split: option.splits prod.splits)
  have verify: "canon_verify new" using assms(2) parts by (simp add: canon_verify_iff numbered_def blocks)
  have "wf_graph (cf_blocks new)" using assms(3,5) rewrite_block_wf by (auto simp: wf_graph_def blocks)
  from normalize_returns [OF verify this blocks(2), of other base fe] obtain func' where func': "normalize_after_cfg_rewrites new = Some func'"
    "canon_verify func'" "cf_entry_block func' = 0" "\<And>n s. run_func other base fe (cf_blocks func') n 0 s = run_func other base fe (cf_blocks new) n 0 s" by blast
  have "list_all2 (\<lambda>block block'. replaces other base fe (cb_insts block') (cb_insts block)) (cf_blocks func) (cf_blocks new)"
    using rewrite_block_replaces [OF assms(1)] assms(5) by (simp add: blocks list_all2_conv_all_nth)
  from run_replaced [OF this] func' show ?thesis by (auto simp: fold_and_normalize_def new_def [symmetric])
qed

section \<open>The theorems\<close>

text \<open>C38: rewriting the control flow graph keeps the meaning of a function and removes its dead code: from a
  function whose blocks are numbered in order, branch only at their ends and only to blocks that exist, it
  computes without panicking a function that passes the check, whose runs are those of the given one, block for block,
  and that has as many blocks as control can reach from the entry.\<close>

theorem dead_blocks_removed:
  assumes "canon_verify func" "wf_graph (cf_blocks func)" "cf_entry_block func = 0"
  shows "\<exists>func'. normalize_after_cfg_rewrites func = Some func' \<and> canon_verify func' \<and> cf_entry_block func' = 0 \<and>
    length (cf_blocks func') = card {b. (0, b) \<in> (flow_edges (cf_blocks func))\<^sup>*} \<and>
    (\<forall>n s. run_func other base fe (cf_blocks func') n 0 s = run_func other base fe (cf_blocks func) n 0 s)"
  using normalize_returns [OF assms, of other base fe] by blast

text \<open>C6: the optimizer's first passes keep what a function body does.  For a body whose jump operands are there, the
  control flow graph is built and lowered to a function that passes the check; if the fusion of checksum steps
  finds nothing in its blocks, folding its constant operators and branches and removing its dead blocks gives a function that passes the
  check too, and a run of it ends as the run of the lowered function does, unless that one overflows the stack or reaches
  behaviour that is left undefined:
  in the same state up to bytes above the top of the stack, with the same exit or the same trap, or not within
  the same number of blocks.  The handlers that the optimizer does not know do not depend on the bytes above the top.\<close>

theorem folded_body_runs_as_before:
  assumes "those (map (decode_record instrs) meta) = Some rs" "\<forall>r \<in> set rs. control_targets r \<noteq> None" "distinct (map im_start meta)" "rs \<noteq> []"
    and "ignores_garbage other"
  shows "\<exists>bp func. build_program instrs meta = Some (Some bp) \<and> from_program funcidx functype locals_size bp = Some func \<and> canon_verify func \<and>
    ((\<forall>block \<in> set (cf_blocks func). no_bit_steps block) \<longrightarrow>
      (\<exists>func'. fold_and_normalize func = Some func' \<and> canon_verify func' \<and>
        (\<forall>n w st. same_below st st \<longrightarrow>
          agree_run (run_func other base fe (cf_blocks func) n 0 (w, st)) (run_func other base fe (cf_blocks func') n 0 (w, st)))))"
proof -
  from program_built [OF assms(1-4)] obtain bp tss ls where bp: "build_program instrs meta = Some (Some bp)" "bp_records bp = rs"
    and built: "blocks_built rs tss ls (bp_blocks bp) (bp_old_start_to_block bp)"
    and edges: "edges_are_flow rs (bp_blocks bp) (bp_successors bp) (bp_predecessors bp)" .
  obtain func where func: "from_program funcidx functype locals_size bp = Some func" "canon_verify func" "wf_graph (cf_blocks func)" "cf_entry_block func = 0"
    using from_program_wf [OF built bp(2) edges] by blast
  then show ?thesis using bp(1) folded_runs [OF assms(5) func(2-4), of base fe] by blast
qed

text \<open>A branch on a constant over a block that no longer runs.\<close>

definition folded_body :: "instr_slot list" where
  "folded_body =
     [op_slot Op_i32_const, operand_slot 3, op_slot Op_i32_const, operand_slot 4, op_slot (Op_i32_rel RLtU), op_slot Op_br_if, operand_slot 9,
      op_slot Op_i64_eqz, op_slot (Op_other 8), op_slot Op_end, op_slot Special_function_return]"

definition folded_meta :: "instruction_meta list" where
  "folded_meta = [meta_at 0 2, meta_at 2 2, meta_at 4 1, meta_at 5 2, meta_at 7 1, meta_at 8 1, meta_at 9 1, meta_at 10 1]"

lemma folded_sample:
  "case build_program folded_body folded_meta of
     Some (Some bp) \<Rightarrow>
       (case from_program 0 ([], []) 0 bp of
          Some func \<Rightarrow> list_all no_bit_steps (cf_blocks func) \<and> length (cf_blocks func) = 4 \<and>
            map_option (\<lambda>func. map (map code_of \<circ> cb_insts) (cf_blocks func)) (fold_and_normalize func) =
              Some [[(Op_br, [JumpTarget 1])], [(Op_end, [])], [(Special_function_return, [])]]
        | None \<Rightarrow> False)
   | _ \<Rightarrow> False"
  by code_simp

lemma folded_sample_records:
  "case those (map (decode_record folded_body) folded_meta) of None \<Rightarrow> False
   | Some rs \<Rightarrow> list_all (\<lambda>r. control_targets r \<noteq> None) rs \<and> rs \<noteq> []"
  by code_simp

theorem folded_body_runs_as_before_witness:
  "\<exists>bp func func'. build_program folded_body folded_meta = Some (Some bp) \<and> from_program 0 ([], []) 0 bp = Some func \<and> length (cf_blocks func) = 4 \<and>
    fold_and_normalize func = Some func' \<and> length (cf_blocks func') = 3 \<and>
    (\<forall>n w st. same_below st st \<longrightarrow>
      agree_run (run_func leave_other 0 0 (cf_blocks func) n 0 (w, st)) (run_func leave_other 0 0 (cf_blocks func') n 0 (w, st)))"
proof -
  obtain rs where rs: "those (map (decode_record folded_body) folded_meta) = Some rs" "\<forall>r \<in> set rs. control_targets r \<noteq> None" "rs \<noteq> []"
    using folded_sample_records by (auto simp: list_all_iff split: option.splits)
  have d: "distinct (map im_start folded_meta)" by (simp add: folded_meta_def meta_at_def)
  obtain bp func where func: "build_program folded_body folded_meta = Some (Some bp)" "from_program 0 ([], []) 0 bp = Some func"
    "\<forall>block \<in> set (cf_blocks func). no_bit_steps block" "length (cf_blocks func) = 4"
    "map_option (\<lambda>func. map (map code_of \<circ> cb_insts) (cf_blocks func)) (fold_and_normalize func) =
      Some [[(Op_br, [JumpTarget 1])], [(Op_end, [])], [(Special_function_return, [])]]"
    using folded_sample by (auto simp: list_all_iff split: option.splits)
  from folded_body_runs_as_before [OF rs(1,2) d rs(3) leave_other_ignores, of 0 "([], [])" 0 0 0] func(1-3) obtain func' where
    func': "fold_and_normalize func = Some func'" "\<forall>n w st. same_below st st \<longrightarrow>
      agree_run (run_func leave_other 0 0 (cf_blocks func) n 0 (w, st)) (run_func leave_other 0 0 (cf_blocks func') n 0 (w, st))" by auto
  have "map (map code_of \<circ> cb_insts) (cf_blocks func') = [[(Op_br, [JumpTarget 1])], [(Op_end, [])], [(Special_function_return, [])]]"
    using func(5) func'(1) by simp
  then have "length (cf_blocks func') = 3" using map_eq_imp_length_eq by fastforce
  then show ?thesis using func func' by blast
qed

definition dead_block_sample :: canon_func where
  "dead_block_sample =
     \<lparr>cf_funcidx = 0, cf_functype = ([], []), cf_locals_size = 0, cf_entry_block = 0,
      cf_blocks = map (\<lambda>(k, insts). \<lparr>cb_id = k, cb_params = [], cb_insts = insts, cb_predecessors = [], cb_successors = []\<rparr>)
        [(0, [make_br 2]), (1, [make_br 0]), (2, [(make_br 0)\<lparr>cn_op := Op_other 8, cn_operands := []\<rparr>])]\<rparr>"

lemma dead_block_sample_wf: "wf_graph (cf_blocks dead_block_sample)"
  by (simp add: dead_block_sample_def wf_graph_def wf_insts_def wf_inst_def make_br_def control_op_def)

lemma dead_block_sample_result:
  "canon_verify dead_block_sample \<and> cf_entry_block dead_block_sample = 0 \<and>
   map_option (\<lambda>func. length (cf_blocks func)) (normalize_after_cfg_rewrites dead_block_sample) = Some 2"
  by code_simp

theorem dead_blocks_removed_witness:
  "\<exists>func'. normalize_after_cfg_rewrites dead_block_sample = Some func' \<and> canon_verify func' \<and> length (cf_blocks func') = 2 \<and>
    card {b. (0, b) \<in> (flow_edges (cf_blocks dead_block_sample))\<^sup>*} = 2 \<and>
    (\<forall>n s. run_func leave_other 0 0 (cf_blocks func') n 0 s = run_func leave_other 0 0 (cf_blocks dead_block_sample) n 0 s)"
  using dead_blocks_removed [of dead_block_sample leave_other 0 0] dead_block_sample_wf dead_block_sample_result by auto

text \<open>A branch that a constant decides is replaced by one that claims an empty stack, so the check of
  the stacks refuses a function in which values lie below the constant, and the body stays as it was.\<close>

definition branch_over_value :: canon_func where
  "branch_over_value =
     dead_block_sample\<lparr>cf_blocks := map (\<lambda>(k, insts). \<lparr>cb_id = k, cb_params = [\<lparr>pm_id = k, pm_index = 0, pm_ty = I32, pm_storage = BlockParam\<rparr>],
        cb_insts = insts, cb_predecessors = [], cb_successors = []\<rparr>)
        [(0, [(make_br 0)\<lparr>cn_op := Op_i32_const, cn_operands := [Raw 1], cn_stack_before := [I32], cn_stack_after := [I32, I32]\<rparr>,
              (make_br 1)\<lparr>cn_op := Op_br_if, cn_stack_before := [I32, I32], cn_stack_after := [I32]\<rparr>]),
         (1, [])]\<rparr>"

lemma branch_over_value_refused:
  "verify_block_stacks branch_over_value \<and> map_option verify_block_stacks (fold_and_normalize branch_over_value) = Some False"
  by code_simp

end
