(* ===== verification/Spec2Isabelle.thy ===== *)
theory Spec2Isabelle
  imports Leb128 Metering Component_Calls Validation_Departures Fusion_Correct Linear_Memory Jump_Resolver Bit_Steps Optimizer_Graph
begin

text \<open>
  Telomere is a WebAssembly runtime with the Component Model.  A core module is read through byte
  sources, its bodies are validated and translated into a stream of instruction slots, and an
  interpreter runs these on a byte stack, under a ledger of fuel.  A component is compiled to a
  program whose type metadata drives the canonical ABI: calls between components, hosts and core
  modules lower values to core values and guest memory and lift them again, and handles stand for
  resources.  This development models these parts and proves what they promise one another.  All
  paths below are under \<open>src/crates\<close>.

  \<^bold>\<open>Shared theory.\<close>  \<open>Telomere_Prelude\<close>: results as sums with \<open>rbind\<close>, threaded stores,
  little-endian codecs, slices and splices of byte lists, alignment.

  \<^bold>\<open>Reading.\<close>
  \<^item> \<open>Binary_Reader\<close>: \<open>telomere/src/binary/reader.rs\<close>.  The contract of a reader is a locale,
    interpreted on the in-memory source and on the limiting view; reads through nested views stay
    within the parent view and the limit.
  \<^item> \<open>Leb128\<close>: \<open>telomere/src/parser/leb128.rs\<close>, the integer parsers of \<open>parser/core/values.rs\<close> and
    block types of \<open>parser/core/types.rs\<close>.  The decoder accepts exactly the encodings of the
    specification, except for five-byte negative block types.

  \<^bold>\<open>Validation.\<close>
  \<^item> \<open>Type_Checker\<close>: \<open>parser/core/type_checker.rs\<close>, every operation of \<open>TypeChecker\<close>.  It refines the
    operand-stack checker of the validation algorithm of the specification.
  \<^item> \<open>Locals_Layout\<close>: \<open>LocalsData\<close> of \<open>common.rs\<close> and \<open>get_local_addr\<close> of
    \<open>parser/core/instruction.rs\<close>.  The locals of a function have disjoint byte ranges in its frame,
    as long as the frame is smaller than \<open>2 ^ 32\<close> bytes; validation alone does not ensure this.
  \<^item> \<open>Instruction_Validation\<close>: \<open>parse_inst\<close> and \<open>parse_instrs\<close> of \<open>parser/core/instruction.rs\<close> with
    \<open>InstructionGenerator\<close>, over a stream of decoded instructions: one definition for each control,
    call, parametric, variable and table opcode; the instructions with fixed operand types are one
    constructor with their type.  The parser is total.
  \<^item> \<open>Validation_Soundness\<close>: the parser accepts exactly what the specification accepts on bodies
    without \<open>if\<close>, tail calls and loops with a type index, up to its nesting limit.
  \<^item> \<open>Validation_Departures\<close>: for each of the excluded constructs, a family of bodies over arbitrary types on which
    the parser accepts more than the specification, with the exact condition under which each accepts.
  \<^item> \<open>Jump_Resolver\<close>: \<open>parser/core/jump_resolver.rs\<close>.  The notes that the parser leaves are a nesting of
    blocks; the resolver writes the address of the target into every branch and nothing else.

  \<^bold>\<open>Optimization\<close> (under \<open>telomere/src/parser/core/optimizer\<close>).
  \<^item> \<open>Optimizer_Cfg\<close>: \<open>cfg.rs\<close>.  The basic blocks of a body partition it, and their edges are exactly
    the flow of control.
  \<^item> \<open>Optimizer_Ir\<close>: \<open>pipeline/ir.rs\<close> and, of \<open>pipeline/transform.rs\<close>, the folding of constant operators
    and branches, the coalescing of locals and the fusion of checksum steps.
  \<^item> \<open>Block_Passes\<close>: the meaning of a block of the intermediate form, in terms of the handlers of the
    interpreter, and a relational logic for rewriting it: folding and coalescing keep what a block
    does, up to bytes above the top of the stack.  The handlers that the optimizer does not
    know are a parameter; the only law used is that they do not read those bytes either.
  \<^item> \<open>Optimizer_Graph\<close>: the rewriting of the control flow graph at the end of \<open>pipeline/transform.rs\<close>.  Runs of a
    function, block by block, are kept by the removal of dead blocks and by the folding passes, for
    every function that is lowered from a body.  A run carries a number of blocks; results hold
    for every such number.
  \<^item> \<open>Bit_Steps\<close>: the fusion of checksum steps takes the address of a local for a constant.

  \<^bold>\<open>Execution.\<close>
  \<^item> \<open>Operand_Stack\<close>: \<open>common/stack.rs\<close>.  The stack is its byte array and its top; behaviour that the
    source leaves undefined (pointer arithmetic out of the array, subtraction below zero, panics)
    is the outcome \<open>VUndefined\<close>, and the theorems show that it is not reached.  A call followed by
    a return restores the frame of the caller.
  \<^item> \<open>Integer_Instructions\<close>: the \<open>i32\<close> and \<open>i64\<close> handlers of \<open>runtime/vm/numeric.rs\<close> compute the
    operators of the specification, written over unbounded integers.
  \<^item> \<open>Local_Instructions\<close>: \<open>runtime/vm/locals.rs\<close>.  Together with the layout of locals, the emitted
    handlers behave as reads and writes of an array of typed values.
  \<^item> \<open>Fused_Instructions\<close>, \<open>Fused_Sequences\<close>, \<open>Fusion_Correct\<close>: \<open>runtime/vm/superinstructions.rs\<close> with
    the kind encodings of \<open>common.rs\<close>.  The first holds the handlers, the second the sequences of
    plain instructions they replace, the third the refinement between both.  Floating-point
    arithmetic is the parameter \<open>float_arith\<close>; the only law used is that equality is symmetric.
  \<^item> \<open>Linear_Memory\<close>: \<open>common/memory.rs\<close>, the accesses of \<open>runtime/vm/memory.rs\<close> and
    \<open>runtime/vm/bulk_memory.rs\<close> on an unshared default memory.  The handlers charge fuel through
    \<open>Metering\<close>, trap exactly when an access is out of bounds in unbounded arithmetic and keep the
    memory well-formed.  Whether the operating system maps or unprotects bytes is a parameter.
  \<^item> \<open>Metering\<close>: \<open>common/metering.rs\<close>, the checkpoints of \<open>runtime/vm.rs\<close> and the slice boundaries of
    \<open>runtime/scheduler.rs\<close>, as events of an interleaving of slices.  Fuel is conserved, bounds the
    execution, runs out on every endless schedule, and an interrupt stops every slice.

  \<^bold>\<open>Components\<close> (under \<open>telomere-component/src\<close>).
  \<^item> \<open>Component_Types\<close>, \<open>Type_Info\<close>, \<open>Flat_Types\<close>: values, types and their metadata
    (\<open>engine.rs\<close>, \<open>runtime/canonical.rs\<close>, \<open>decoder/canon/flatten.rs\<close>).  The memoised walk returns on every type
    store, rejects cycles and dangling identifiers among the types that a layout depends on, and computes the layouts of the specification.
  \<^item> \<open>Guest_Memory\<close>, \<open>Utf_Strings\<close>: range-checked access to an exported memory
    (\<open>telomere/src/component_support.rs\<close>) and string transcoding.
  \<^item> \<open>Canonical\<close> and the theories \<open>Store_Logic\<close>, \<open>Conformance\<close>, \<open>Guest_Allocator\<close>, \<open>Canonical_Strings\<close>, \<open>Canonical_Flags\<close>,
    \<open>Canonical_Memory\<close>, \<open>Canonical_Lists\<close>, \<open>Memory_Round_Trip\<close>, \<open>Canonical_Flat\<close>, \<open>Canonical_Calls\<close>, \<open>Canonical_Safety\<close>:
    lowering, lifting, storing and loading of component values.  What is lowered is lifted
    unchanged, and lifting from arbitrary guest data yields well-typed values or an error.
  \<^item> \<open>Resource_Table\<close>: handles and their tables refine a ledger in which every handle is issued once.
  \<^item> \<open>Component_Calls\<close>: \<open>runtime/host.rs\<close>, calls of lifted, core and host functions and the host
    bindings behind core imports, for an arbitrary core execution and host.

  \<^bold>\<open>Bounds and fuel.\<close>  The recursion of the canonical ABI over types is bounded by the number of
  types of the program (\<open>type_depth\<close>), which \<open>Canonical_Safety\<close> shows to be enough for an accepted type
  store; the resolution of resource types is bounded in the same way.  \<open>parse_instrs\<close> has one unit
  of fuel more than there are instructions, and \<open>parse_body_total\<close> shows that this is enough.  A call
  that nests through core code and host bindings carries a bound on its nesting as an argument.
  The release profile has no overflow checks, so 32-bit arithmetic wraps where the source uses
  plain operators.  Messages of errors are left out; their kinds are kept.

  \<^bold>\<open>Not modelled.\<close>  Of the optimizer, value numbering, hoisting and the buffering of address roots, and
  the selection of fused instructions, a large table of windows whose targets are the handlers above.
  Shared and indexed memories, atomic instructions and the handlers of \<open>runtime/vm/memory.rs\<close> that fuse an
  address computation with an access.  SIMD and IEEE arithmetic, which would need a library of
  floating-point numbers.  The just-in-time compiler, which emits machine code.  The store, its
  reference counting and the scheduler, which are concurrent Rust over shared references.  The
  sections of a module and of a component, their linking and instantiation.
\<close>

end
